(* ===== verification/Prelude.thy ===== *)
theory Prelude
  imports Main "HOL-Library.Word"
begin

text \<open>
  Shared ground of the development: the collections of simplification rules the component
  theories use, 32-bit unsigned arithmetic (\<open>size_t\<close>, \<open>uint32_t\<close>, \<open>UBaseType_t\<close> and
  \<open>TickType_t\<close> are all 32 bits wide on the Cortex-M7 of the RT1064) written on naturals with
  the wrap-around explicit, copies into and out of byte arrays, the window of a circular
  buffer, and the contract of a bounded byte queue as a locale.
\<close>

section \<open>Collections and type names\<close>

named_theorems u32_simps \<open>unsigned 32-bit arithmetic that does not wrap\<close>

named_theorems ring_simps \<open>windows of circular buffers\<close>

type_synonym u8 = "8 word"
type_synonym u16 = "16 word"
type_synonym addr = nat

section \<open>Unsigned 32-bit arithmetic\<close>

text \<open>
  A value of a 32-bit unsigned C type is a natural below \<open>2 ^ 32\<close>; the operations reduce
  modulo \<open>2 ^ 32\<close> as the C operators do.
\<close>

definition u32_bound :: nat where
  "u32_bound = 4294967296"

definition add32 :: "nat \<Rightarrow> nat \<Rightarrow> nat" where
  "add32 a b = (a + b) mod u32_bound"

definition sub32 :: "nat \<Rightarrow> nat \<Rightarrow> nat" where
  "sub32 a b = (a + (u32_bound - b mod u32_bound)) mod u32_bound"

definition mul32 :: "nat \<Rightarrow> nat \<Rightarrow> nat" where
  "mul32 a b = (a * b) mod u32_bound"

lemma u32_bound_pos [simp]: "0 < u32_bound"
  by (simp add: u32_bound_def)

lemma add32_less [simp]: "add32 a b < u32_bound"
  by (simp add: add32_def)

lemma sub32_less [simp]: "sub32 a b < u32_bound"
  by (simp add: sub32_def)

lemma mod_u32_wrap: "r < u32_bound \<Longrightarrow> (r + u32_bound) mod u32_bound = r"
  by simp

lemma add32_exact [u32_simps]: "a + b < u32_bound \<Longrightarrow> add32 a b = a + b"
  by (simp add: add32_def)

lemma mul32_exact [u32_simps]: "a * b < u32_bound \<Longrightarrow> mul32 a b = a * b"
  by (simp add: mul32_def)

lemma sub32_exact [u32_simps]:
  assumes "b \<le> a" "a < u32_bound"
  shows "sub32 a b = a - b"
proof -
  have e: "a + (u32_bound - b mod u32_bound) = (a - b) + u32_bound"
    using assms by simp
  have "sub32 a b = ((a - b) + u32_bound) mod u32_bound"
    by (simp only: sub32_def e)
  also have "\<dots> = a - b"
    using assms by (intro mod_u32_wrap) simp
  finally show ?thesis .
qed

lemma sub32_under:
  assumes "a < b" "b < u32_bound"
  shows "sub32 a b = u32_bound - (b - a)"
proof -
  have "b mod u32_bound = b"
    using assms by simp
  then show ?thesis
    using assms by (simp add: sub32_def)
qed

text \<open>
  A difference that passes below zero and comes back by an addition is exact: read in the
  integers, all three operations are the plain ones modulo \<open>2 ^ 32\<close>.
\<close>

lemma int_add32: "int (add32 a b) = (int a + int b) mod int u32_bound"
  by (simp add: add32_def of_nat_mod)

lemma int_sub32: "int (sub32 a b) = (int a - int b) mod int u32_bound"
proof -
  have "int (u32_bound - b mod u32_bound) = int u32_bound - int b mod int u32_bound"
    by (simp only: of_nat_diff [OF less_imp_le, OF mod_less_divisor, OF u32_bound_pos] of_nat_mod)
  then have "int (sub32 a b) = (int a + (int u32_bound - int b mod int u32_bound)) mod int u32_bound"
    by (simp only: sub32_def of_nat_mod of_nat_add)
  also have "\<dots> = (int a - int b + int u32_bound) mod int u32_bound"
    by (simp add: mod_simps algebra_simps)
  finally show ?thesis by simp
qed

lemma add32_sub32_sub32 [u32_simps]:
  assumes "b + d \<le> a + c" "a + c - (b + d) < u32_bound"
  shows "add32 (sub32 (sub32 a b) d) c = a + c - (b + d)"
proof -
  have "int (add32 (sub32 (sub32 a b) d) c) = (int a - int b - int d + int c) mod int u32_bound"
    by (simp add: int_add32 int_sub32 mod_simps)
  also have "int a - int b - int d + int c = int (a + c - (b + d))"
    using assms(1) by (simp add: of_nat_diff)
  also have "\<dots> mod int u32_bound = int (a + c - (b + d))"
    using assms(2) by simp
  finally show ?thesis by (simp only: of_nat_eq_iff)
qed

lemma add32_sub32 [u32_simps]:
  assumes "b \<le> a + c" "a + c - b < u32_bound"
  shows "add32 (sub32 a b) c = a + c - b"
proof -
  have "int (add32 (sub32 a b) c) = (int a - int b + int c) mod int u32_bound"
    by (simp add: int_add32 int_sub32 mod_simps)
  also have "int a - int b + int c = int (a + c - b)"
    using assms(1) by (simp add: of_nat_diff)
  also have "\<dots> mod int u32_bound = int (a + c - b)"
    using assms(2) by simp
  finally show ?thesis by (simp only: of_nat_eq_iff)
qed

lemma sub32_add32 [u32_simps]:
  assumes "b \<le> a + c" "a + c - b < u32_bound"
  shows "sub32 (add32 a c) b = a + c - b"
proof -
  have "int (sub32 (add32 a c) b) = (int a - int b + int c) mod int u32_bound"
    by (simp add: int_add32 int_sub32 mod_simps algebra_simps)
  also have "int a - int b + int c = int (a + c - b)"
    using assms(1) by (simp add: of_nat_diff)
  also have "\<dots> mod int u32_bound = int (a + c - b)"
    using assms(2) by simp
  finally show ?thesis by (simp only: of_nat_eq_iff)
qed

section \<open>Copies into and out of arrays\<close>

text \<open>
  \<open>memcpy\<close> into an array at an offset and out of it. A copy that leaves the array is
  undefined in C: the model returns \<open>None\<close>. A copy of no bytes touches nothing.
\<close>

definition overlay :: "'a list \<Rightarrow> nat \<Rightarrow> 'a list \<Rightarrow> 'a list" where
  "overlay xs i ys = take i xs @ ys @ drop (i + length ys) xs"

definition mem_write :: "'a list \<Rightarrow> nat \<Rightarrow> 'a list \<Rightarrow> 'a list option" where
  "mem_write xs i ys =
     (if ys = [] then Some xs
      else if i + length ys \<le> length xs then Some (overlay xs i ys) else None)"

definition mem_read :: "'a list \<Rightarrow> nat \<Rightarrow> nat \<Rightarrow> 'a list option" where
  "mem_read xs i n =
     (if n = 0 then Some []
      else if i + n \<le> length xs then Some (take n (drop i xs)) else None)"

lemma length_overlay [simp]: "i + length ys \<le> length xs \<Longrightarrow> length (overlay xs i ys) = length xs"
  by (simp add: overlay_def)

lemma overlay_Nil [simp]: "overlay xs i [] = xs"
  by (simp add: overlay_def)

lemma nth_overlay:
  assumes "i + length ys \<le> length xs" "k < length xs"
  shows "overlay xs i ys ! k = (if i \<le> k \<and> k < i + length ys then ys ! (k - i) else xs ! k)"
  using assms by (auto simp: overlay_def nth_append)

lemma mem_write_ok [simp]: "i + length ys \<le> length xs \<Longrightarrow> mem_write xs i ys = Some (overlay xs i ys)"
  by (cases "ys = []") (simp_all add: mem_write_def)

lemma mem_write_Nil [simp]: "mem_write xs i [] = Some xs"
  by (simp add: mem_write_def)

lemma mem_read_ok [simp]: "i + n \<le> length xs \<Longrightarrow> mem_read xs i n = Some (take n (drop i xs))"
  by (cases "n = 0") (simp_all add: mem_read_def)

lemma mem_read_zero [simp]: "mem_read xs i 0 = Some []"
  by (simp add: mem_read_def)

lemma mem_write_out: "ys \<noteq> [] \<Longrightarrow> length xs < i + length ys \<Longrightarrow> mem_write xs i ys = None"
  by (simp add: mem_write_def)

section \<open>Windows of circular buffers\<close>

text \<open>
  \<open>ring xs i n\<close> is the \<open>n\<close> elements that follow index \<open>i\<close> in the array \<open>xs\<close> read
  as a circle; \<open>wrap l k\<close> is the index \<open>k\<close> brought back into an array of length \<open>l\<close>.
\<close>

definition ring :: "'a list \<Rightarrow> nat \<Rightarrow> nat \<Rightarrow> 'a list" where
  "ring xs i n = take n (drop i xs @ take i xs)"

definition wrap :: "nat \<Rightarrow> nat \<Rightarrow> nat" where
  "wrap l k = (if l \<le> k then k - l else k)"

lemma length_ring [simp]: "i \<le> length xs \<Longrightarrow> n \<le> length xs \<Longrightarrow> length (ring xs i n) = n"
  by (simp add: ring_def)

lemma ring_zero [simp]: "ring xs i 0 = []"
  by (simp add: ring_def)

lemma wrap_less: "k < l + l \<Longrightarrow> wrap l k < l"
  by (auto simp: wrap_def)

lemma nth_ring:
  assumes "i \<le> length xs" "n \<le> length xs" "k < n"
  shows "ring xs i n ! k = xs ! wrap (length xs) (i + k)"
proof (cases "i + k < length xs")
  case True
  then have "k < length xs - i"
    by simp
  with True assms show ?thesis
    by (simp add: ring_def wrap_def nth_append)
next
  case False
  with assms have "k - (length xs - i) = i + k - length xs" "\<not> k < length xs - i"
    by auto
  with False assms show ?thesis
    by (simp add: ring_def wrap_def nth_append)
qed

lemma ring_straight [ring_simps]: "i + n \<le> length xs \<Longrightarrow> ring xs i n = take n (drop i xs)"
  by (simp add: ring_def)

lemma ring_bent [ring_simps]:
  "i \<le> length xs \<Longrightarrow> length xs \<le> i + n \<Longrightarrow> n \<le> length xs \<Longrightarrow>
   ring xs i n = drop i xs @ take (n - (length xs - i)) xs"
  by (simp add: ring_def take_take min_absorb1)

lemma ring_full_index: "ring xs (length xs) n = ring xs 0 n"
  by (simp add: ring_def)

text \<open>Reading \<open>a\<close> elements and then \<open>b\<close> more.\<close>

lemma ring_append:
  assumes "i \<le> length xs" "a + b \<le> length xs"
  shows "ring xs i (a + b) = ring xs i a @ ring xs (wrap (length xs) (i + a)) b"
proof (rule nth_equalityI)
  have w: "wrap (length xs) (i + a) \<le> length xs"
    using assms by (auto simp: wrap_def)
  show "length (ring xs i (a + b)) = length (ring xs i a @ ring xs (wrap (length xs) (i + a)) b)"
    using assms w by simp
  fix k
  assume "k < length (ring xs i (a + b))"
  with assms have k: "k < a + b"
    by simp
  show "ring xs i (a + b) ! k = (ring xs i a @ ring xs (wrap (length xs) (i + a)) b) ! k"
  proof (cases "k < a")
    case True
    with assms k show ?thesis
      by (simp add: nth_append nth_ring)
  next
    case False
    have "wrap (length xs) (i + k) = wrap (length xs) (wrap (length xs) (i + a) + (k - a))"
      using assms k False by (auto simp: wrap_def)
    with False assms k w show ?thesis
      by (simp add: nth_append nth_ring)
  qed
qed

text \<open>
  Writing \<open>ys\<close> at the end of a window, in two pieces where it passes the end of the array.
\<close>

definition ring_put :: "'a list \<Rightarrow> nat \<Rightarrow> 'a list \<Rightarrow> 'a list" where
  "ring_put xs j ys =
     (let f = length xs - j
      in if length ys \<le> f then overlay xs j ys
         else overlay (overlay xs j (take f ys)) 0 (drop f ys))"

lemma length_ring_put [simp]:
  "j \<le> length xs \<Longrightarrow> length ys \<le> length xs \<Longrightarrow> length (ring_put xs j ys) = length xs"
  by (simp add: ring_put_def Let_def)

lemma nth_ring_put:
  assumes "j \<le> length xs" "length ys \<le> length xs" "k < length xs"
  shows "ring_put xs j ys ! k =
    (if j \<le> k \<and> k < j + length ys then ys ! (k - j)
     else if k + length xs < j + length ys then ys ! (k + length xs - j)
     else xs ! k)"
proof (cases "length ys \<le> length xs - j")
  case True
  with assms show ?thesis
    by (auto simp: ring_put_def nth_overlay)
next
  case False
  define f where "f = length xs - j"
  have len: "length (overlay xs j (take f ys)) = length xs"
    using assms False by (simp add: f_def)
  have "ring_put xs j ys ! k = overlay (overlay xs j (take f ys)) 0 (drop f ys) ! k"
    using False by (simp add: ring_put_def f_def Let_def)
  also have "\<dots> = (if k < length ys - f then drop f ys ! k else overlay xs j (take f ys) ! k)"
    using assms len False by (subst nth_overlay) (simp_all add: f_def)
  also have "overlay xs j (take f ys) ! k = (if j \<le> k then take f ys ! (k - j) else xs ! k)"
    using assms False by (subst nth_overlay) (auto simp: f_def)
  finally show ?thesis
    using assms False by (auto simp: f_def add.commute)
qed

lemma ring_put_window:
  assumes "i \<le> length xs" "a + length ys \<le> length xs" "j \<le> length xs"
    and j: "wrap (length xs) j = wrap (length xs) (i + a)"
  shows "ring (ring_put xs j ys) i (a + length ys) = ring xs i a @ ys"
proof (rule nth_equalityI)
  have len: "length (ring_put xs j ys) = length xs"
    using assms by simp
  show "length (ring (ring_put xs j ys) i (a + length ys)) = length (ring xs i a @ ys)"
    using assms len by simp
  fix k
  assume "k < length (ring (ring_put xs j ys) i (a + length ys))"
  with assms len have k: "k < a + length ys"
    by simp
  have wk: "wrap (length xs) (i + k) < length xs"
    using assms k by (cases "xs = []") (auto simp: wrap_def)
  have "ring (ring_put xs j ys) i (a + length ys) ! k = ring_put xs j ys ! wrap (length xs) (i + k)"
    using assms k len by (simp add: nth_ring)
  also have "\<dots> = (ring xs i a @ ys) ! k"
  proof (cases "k < a")
    case True
    then have "ring_put xs j ys ! wrap (length xs) (i + k) = xs ! wrap (length xs) (i + k)"
      using assms k wk by (subst nth_ring_put) (auto simp: wrap_def split: if_splits)
    with True assms show ?thesis
      by (simp add: nth_append nth_ring)
  next
    case False
    then have "ring_put xs j ys ! wrap (length xs) (i + k) = ys ! (k - a)"
      using assms k wk
      by (subst nth_ring_put) (auto simp: wrap_def split: if_splits intro!: arg_cong [where f = "nth ys"])
    with False assms show ?thesis
      by (simp add: nth_append)
  qed
  finally show "ring (ring_put xs j ys) i (a + length ys) ! k = (ring xs i a @ ys) ! k" .
qed

section \<open>Bounded byte queues\<close>

text \<open>
  The contract of a first-in first-out queue of bytes as its clients see it: a push accepts a
  prefix of the data (how much is the queue's policy), a pop delivers a prefix of the contents,
  neither fails on a well-formed queue. \<open>fifo_run\<close> is a client history: it collects all
  bytes accepted and all bytes delivered.
\<close>

datatype 'b fifo_op = Push "'b list" | Pop nat

fun fifo_run ::
  "('b list \<Rightarrow> 's \<Rightarrow> (nat \<times> 's) option) \<Rightarrow> (nat \<Rightarrow> 's \<Rightarrow> ('b list \<times> 's) option) \<Rightarrow>
   'b fifo_op list \<Rightarrow> 's \<Rightarrow> ('b list \<times> 'b list \<times> 's) option" where
  "fifo_run push pop [] s = Some ([], [], s)"
| "fifo_run push pop (Push xs # ops) s =
     (case push xs s of None \<Rightarrow> None
      | Some (n, s1) \<Rightarrow>
          (case fifo_run push pop ops s1 of None \<Rightarrow> None
           | Some (acc, del, s2) \<Rightarrow> Some (take n xs @ acc, del, s2)))"
| "fifo_run push pop (Pop n # ops) s =
     (case pop n s of None \<Rightarrow> None
      | Some (ys, s1) \<Rightarrow>
          (case fifo_run push pop ops s1 of None \<Rightarrow> None
           | Some (acc, del, s2) \<Rightarrow> Some (acc, ys @ del, s2)))"

locale byte_fifo =
  fixes inv :: "'s \<Rightarrow> bool"
    and contents :: "'s \<Rightarrow> 'b list"
    and capacity :: "'s \<Rightarrow> nat"
    and push :: "'b list \<Rightarrow> 's \<Rightarrow> (nat \<times> 's) option"
    and pop :: "nat \<Rightarrow> 's \<Rightarrow> ('b list \<times> 's) option"
  assumes push_law: "inv s \<Longrightarrow> \<exists>n s'. push xs s = Some (n, s') \<and> inv s' \<and> n \<le> length xs \<and>
      contents s' = contents s @ take n xs \<and> capacity s' = capacity s"
    and pop_law: "inv s \<Longrightarrow> \<exists>ys s'. pop n s = Some (ys, s') \<and> inv s' \<and> length ys \<le> n \<and>
      contents s = ys @ contents s' \<and> capacity s' = capacity s"
    and bounded: "inv s \<Longrightarrow> length (contents s) \<le> capacity s"
begin

lemma run_total:
  assumes "inv s"
  shows "\<exists>acc del s'. fifo_run push pop ops s = Some (acc, del, s') \<and> inv s' \<and>
    contents s @ acc = del @ contents s' \<and> capacity s' = capacity s"
  using assms
proof (induction ops arbitrary: s)
  case Nil
  then show ?case by simp
next
  case (Cons op ops)
  show ?case
  proof (cases op)
    case (Push xs)
    obtain n s1 where p: "push xs s = Some (n, s1)" "inv s1"
      "contents s1 = contents s @ take n xs" "capacity s1 = capacity s"
      using push_law [OF Cons.prems, of xs] by blast
    with Cons.IH [of s1] Push show ?thesis by force
  next
    case (Pop n)
    obtain ys s1 where p: "pop n s = Some (ys, s1)" "inv s1"
      "contents s = ys @ contents s1" "capacity s1 = capacity s"
      using pop_law [OF Cons.prems, of n] by blast
    with Cons.IH [of s1] Pop show ?thesis by force
  qed
qed

text \<open>
  A queue that starts empty delivers exactly a prefix of what it accepted, in order, and keeps
  the rest; never more than its capacity is outstanding.
\<close>

lemma run_from_empty:
  assumes "inv s" "contents s = []"
  shows "\<exists>acc del s'. fifo_run push pop ops s = Some (acc, del, s') \<and> inv s' \<and>
    acc = del @ contents s' \<and> length acc \<le> length del + capacity s"
proof -
  obtain acc del s' where r: "fifo_run push pop ops s = Some (acc, del, s')" "inv s'"
    "contents s @ acc = del @ contents s'" "capacity s' = capacity s"
    using run_total [OF assms(1)] by blast
  with bounded [of s'] assms(2) show ?thesis by auto
qed

end

end
