(* ===== verification/KernelLists.thy ===== *)
theory KernelLists
  imports Prelude
begin

text \<open>
  The kernel's doubly linked lists: \<open>list.c\<close> and the macros of \<open>include/list.h\<close> of
  \<open>rtos/freertos/freertos-kernel\<close>, with \<open>configUSE_MINI_LIST_ITEM = 1\<close> and no integrity
  bytes, as \<open>FreeRTOSConfig_Gen.h\<close> sets them. Pointers to list items are \<open>node\<close>s: the item
  \<open>i\<close> or the end marker embedded in the list \<open>l\<close>; the memory is a store that maps every
  node and every list to its fields. The second half relates the store to plain lists of items,
  one per kernel list, and shows that each operation has the effect its comment promises.
\<close>

section \<open>The store\<close>

datatype node = Item nat | End nat

record list_item =
  xItemValue :: nat
  pxNext :: node
  pxPrevious :: node
  pvOwner :: nat
  pxContainer :: "nat option"

record klist =
  uxNumberOfItems :: nat
  pxIndex :: node

record store =
  node_at :: "node \<Rightarrow> list_item"
  list_at :: "nat \<Rightarrow> klist"

definition portMAX_DELAY :: nat where
  "portMAX_DELAY = 4294967295"

text \<open>Assignments through pointers.\<close>

definition upd_node :: "(list_item \<Rightarrow> list_item) \<Rightarrow> node \<Rightarrow> store \<Rightarrow> store" where
  "upd_node f n s = s\<lparr>node_at := (node_at s)(n := f (node_at s n))\<rparr>"

definition upd_list :: "(klist \<Rightarrow> klist) \<Rightarrow> nat \<Rightarrow> store \<Rightarrow> store" where
  "upd_list f l s = s\<lparr>list_at := (list_at s)(l := f (list_at s l))\<rparr>"

abbreviation next_of :: "store \<Rightarrow> node \<Rightarrow> node" where
  "next_of s n \<equiv> pxNext (node_at s n)"

abbreviation prev_of :: "store \<Rightarrow> node \<Rightarrow> node" where
  "prev_of s n \<equiv> pxPrevious (node_at s n)"

abbreviation value_of :: "store \<Rightarrow> node \<Rightarrow> nat" where
  "value_of s n \<equiv> xItemValue (node_at s n)"

abbreviation set_next :: "node \<Rightarrow> node \<Rightarrow> store \<Rightarrow> store" where
  "set_next n m \<equiv> upd_node (\<lambda>x. x\<lparr>pxNext := m\<rparr>) n"

abbreviation set_prev :: "node \<Rightarrow> node \<Rightarrow> store \<Rightarrow> store" where
  "set_prev n m \<equiv> upd_node (\<lambda>x. x\<lparr>pxPrevious := m\<rparr>) n"

section \<open>Operations\<close>

definition vListInitialise :: "nat \<Rightarrow> store \<Rightarrow> store" where
  "vListInitialise l s =
     (let s = upd_list (\<lambda>x. x\<lparr>pxIndex := End l\<rparr>) l s;
          s = upd_node (\<lambda>x. x\<lparr>xItemValue := portMAX_DELAY\<rparr>) (End l) s;
          s = set_next (End l) (End l) s;
          s = set_prev (End l) (End l) s
      in upd_list (\<lambda>x. x\<lparr>uxNumberOfItems := 0\<rparr>) l s)"

definition vListInitialiseItem :: "nat \<Rightarrow> store \<Rightarrow> store" where
  "vListInitialiseItem i s = upd_node (\<lambda>x. x\<lparr>pxContainer := None\<rparr>) (Item i) s"

text \<open>The macros of \<open>list.h\<close>; a null pointer dereference is \<open>None\<close>.\<close>

definition listSET_LIST_ITEM_OWNER :: "nat \<Rightarrow> nat \<Rightarrow> store \<Rightarrow> store" where
  "listSET_LIST_ITEM_OWNER i ow s = upd_node (\<lambda>x. x\<lparr>pvOwner := ow\<rparr>) (Item i) s"

definition listSET_LIST_ITEM_VALUE :: "nat \<Rightarrow> nat \<Rightarrow> store \<Rightarrow> store" where
  "listSET_LIST_ITEM_VALUE i v s = upd_node (\<lambda>x. x\<lparr>xItemValue := v\<rparr>) (Item i) s"

definition listGET_LIST_ITEM_VALUE :: "nat \<Rightarrow> store \<Rightarrow> nat" where
  "listGET_LIST_ITEM_VALUE i s = value_of s (Item i)"

definition listGET_ITEM_VALUE_OF_HEAD_ENTRY :: "nat \<Rightarrow> store \<Rightarrow> nat" where
  "listGET_ITEM_VALUE_OF_HEAD_ENTRY l s = value_of s (next_of s (End l))"

definition listGET_HEAD_ENTRY :: "nat \<Rightarrow> store \<Rightarrow> node" where
  "listGET_HEAD_ENTRY l s = next_of s (End l)"

definition listGET_NEXT :: "node \<Rightarrow> store \<Rightarrow> node" where
  "listGET_NEXT n s = next_of s n"

definition listLIST_IS_EMPTY :: "nat \<Rightarrow> store \<Rightarrow> bool" where
  "listLIST_IS_EMPTY l s \<longleftrightarrow> uxNumberOfItems (list_at s l) = 0"

definition listCURRENT_LIST_LENGTH :: "nat \<Rightarrow> store \<Rightarrow> nat" where
  "listCURRENT_LIST_LENGTH l s = uxNumberOfItems (list_at s l)"

definition listGET_OWNER_OF_HEAD_ENTRY :: "nat \<Rightarrow> store \<Rightarrow> nat" where
  "listGET_OWNER_OF_HEAD_ENTRY l s = pvOwner (node_at s (next_of s (End l)))"

definition listIS_CONTAINED_WITHIN :: "nat \<Rightarrow> nat \<Rightarrow> store \<Rightarrow> bool" where
  "listIS_CONTAINED_WITHIN l i s \<longleftrightarrow> pxContainer (node_at s (Item i)) = Some l"

definition listGET_OWNER_OF_NEXT_ENTRY :: "nat \<Rightarrow> store \<Rightarrow> nat \<times> store" where
  "listGET_OWNER_OF_NEXT_ENTRY l s =
     (let s = upd_list (\<lambda>x. x\<lparr>pxIndex := next_of s (pxIndex (list_at s l))\<rparr>) l s;
          s = (if pxIndex (list_at s l) = End l
               then upd_list (\<lambda>x. x\<lparr>pxIndex := next_of s (End l)\<rparr>) l s else s)
      in (pvOwner (node_at s (pxIndex (list_at s l))), s))"

text \<open>
  \<open>vListInsertEnd\<close> (and the macro \<open>listINSERT_END\<close>, the same statements inlined): the new
  item goes just before \<open>pxIndex\<close>.
\<close>

definition vListInsertEnd :: "nat \<Rightarrow> nat \<Rightarrow> store \<Rightarrow> store" where
  "vListInsertEnd l i s =
     (let idx = pxIndex (list_at s l);
          s = set_next (Item i) idx s;
          s = set_prev (Item i) (prev_of s idx) s;
          s = set_next (prev_of s idx) (Item i) s;
          s = set_prev idx (Item i) s;
          s = upd_node (\<lambda>x. x\<lparr>pxContainer := Some l\<rparr>) (Item i) s
      in upd_list (\<lambda>x. x\<lparr>uxNumberOfItems := add32 (uxNumberOfItems x) 1\<rparr>) l s)"

text \<open>
  \<open>vListInsert\<close>: the loop walks to the last node whose successor has a larger value. On a
  list without its end marker's maximal value it may run for ever: \<open>None\<close>.
\<close>

partial_function (option) find_insert :: "store \<Rightarrow> nat \<Rightarrow> node \<Rightarrow> node option" where
  "find_insert s v it =
     (if value_of s (next_of s it) \<le> v then find_insert s v (next_of s it) else Some it)"

definition vListInsert :: "nat \<Rightarrow> nat \<Rightarrow> store \<Rightarrow> store option" where
  "vListInsert l i s =
     (let v = value_of s (Item i) in
      case (if v = portMAX_DELAY then Some (prev_of s (End l)) else find_insert s v (End l)) of
        None \<Rightarrow> None
      | Some it \<Rightarrow>
          let s = set_next (Item i) (next_of s it) s;
              s = set_prev (next_of s (Item i)) (Item i) s;
              s = set_prev (Item i) it s;
              s = set_next it (Item i) s;
              s = upd_node (\<lambda>x. x\<lparr>pxContainer := Some l\<rparr>) (Item i) s
          in Some (upd_list (\<lambda>x. x\<lparr>uxNumberOfItems := add32 (uxNumberOfItems x) 1\<rparr>) l s))"

text \<open>
  \<open>uxListRemove\<close> returns the number of items left in the list the item was in. The macro
  \<open>listREMOVE_ITEM\<close> is the same without the result.
\<close>

definition uxListRemove :: "nat \<Rightarrow> store \<Rightarrow> (nat \<times> store) option" where
  "uxListRemove i s =
     (case pxContainer (node_at s (Item i)) of
        None \<Rightarrow> None
      | Some l \<Rightarrow>
          let s = set_prev (next_of s (Item i)) (prev_of s (Item i)) s;
              s = set_next (prev_of s (Item i)) (next_of s (Item i)) s;
              s = (if pxIndex (list_at s l) = Item i
                   then upd_list (\<lambda>x. x\<lparr>pxIndex := prev_of s (Item i)\<rparr>) l s else s);
              s = upd_node (\<lambda>x. x\<lparr>pxContainer := None\<rparr>) (Item i) s;
              s = upd_list (\<lambda>x. x\<lparr>uxNumberOfItems := sub32 (uxNumberOfItems x) 1\<rparr>) l s
          in Some (uxNumberOfItems (list_at s l), s))"

definition listREMOVE_ITEM :: "nat \<Rightarrow> store \<Rightarrow> store option" where
  "listREMOVE_ITEM i s = map_option snd (uxListRemove i s)"

lemmas list_op_defs =
  upd_node_def upd_list_def Let_def

section \<open>Linked segments\<close>

text \<open>
  \<open>linked nx pv a xs b\<close>: following the links \<open>nx\<close> from \<open>a\<close> leads through the items
  \<open>xs\<close> to \<open>b\<close>, and the links \<open>pv\<close> lead back.
\<close>

fun linked :: "(node \<Rightarrow> node) \<Rightarrow> (node \<Rightarrow> node) \<Rightarrow> node \<Rightarrow> nat list \<Rightarrow> node \<Rightarrow> bool" where
  "linked nx pv a [] b \<longleftrightarrow> nx a = b \<and> pv b = a"
| "linked nx pv a (x # xs) b \<longleftrightarrow> nx a = Item x \<and> pv (Item x) = a \<and> linked nx pv (Item x) xs b"

definition first_node :: "nat list \<Rightarrow> node \<Rightarrow> node" where
  "first_node xs b = (case xs of [] \<Rightarrow> b | x # _ \<Rightarrow> Item x)"

definition last_node :: "node \<Rightarrow> nat list \<Rightarrow> node" where
  "last_node a xs = (if xs = [] then a else Item (last xs))"

lemma first_node_simps [simp]: "first_node [] b = b" "first_node (x # xs) b = Item x"
  by (simp_all add: first_node_def)

lemma last_node_simps [simp]:
  "last_node a [] = a" "last_node a (x # xs) = last_node (Item x) xs" "last_node a (xs @ [x]) = Item x"
  by (simp_all add: last_node_def)

lemma linked_frame:
  assumes "\<And>m. m = a \<or> m \<in> Item ` set xs \<Longrightarrow> nx' m = nx m"
    and "\<And>m. m = b \<or> m \<in> Item ` set xs \<Longrightarrow> pv' m = pv m"
  shows "linked nx' pv' a xs b = linked nx pv a xs b"
  using assms by (induction xs arbitrary: a) auto

lemma linked_split:
  "linked nx pv a (xs @ ys) b \<longleftrightarrow>
   linked nx pv a xs (first_node ys b) \<and> linked nx pv (last_node a xs) ys b"
proof (induction xs arbitrary: a)
  case Nil
  show ?case by (cases ys) auto
qed auto

lemma linked_snoc:
  "linked nx pv a (zs @ [z]) b \<longleftrightarrow> linked nx pv a zs (Item z) \<and> nx (Item z) = b \<and> pv b = Item z"
  by (induction zs arbitrary: a) auto

lemma linked_mid:
  "linked nx pv a (xs @ y # ys) b \<longleftrightarrow> linked nx pv a xs (Item y) \<and> linked nx pv (Item y) ys b"
  by (induction xs arbitrary: a) auto

lemma linked_ends:
  assumes "linked nx pv a xs b"
  shows "nx a = first_node xs b" "pv b = last_node a xs"
  using assms by (induction xs arbitrary: a) auto

lemma linked_cut:
  assumes "linked nx pv a (xs @ ys) b"
  shows "nx (last_node a xs) = first_node ys b" "pv (first_node ys b) = last_node a xs"
  using assms linked_ends [of nx pv "last_node a xs" ys b] linked_ends [of nx pv a xs "first_node ys b"]
  by (auto simp: linked_split)

lemma last_node_notin: "a \<notin> Item ` set ys \<Longrightarrow> distinct (xs @ ys) \<Longrightarrow> last_node a xs \<notin> Item ` set ys"
  by (cases xs rule: rev_cases) auto

text \<open>Redirecting the last link of a segment, and the first.\<close>

lemma linked_retarget_end:
  assumes "linked nx pv a xs c" "distinct xs" "a \<notin> Item ` set xs" "d \<notin> Item ` set xs"
  shows "linked (nx(last_node a xs := d)) (pv(d := last_node a xs)) a xs d"
proof (cases xs rule: rev_cases)
  case Nil
  then show ?thesis by simp
next
  case (snoc zs z)
  with assms have "linked nx pv a zs (Item z)"
    by (simp add: linked_snoc)
  moreover have "linked (nx(Item z := d)) (pv(d := Item z)) a zs (Item z) = linked nx pv a zs (Item z)"
    using assms snoc by (intro linked_frame) auto
  ultimately show ?thesis
    using snoc by (simp add: linked_snoc)
qed

lemma linked_retarget_start:
  assumes "linked nx pv a ys b" "distinct ys" "d \<notin> Item ` set ys" "b \<notin> Item ` set ys"
  shows "linked (nx(d := first_node ys b)) (pv(first_node ys b := d)) d ys b"
proof (cases ys)
  case Nil
  then show ?thesis by simp
next
  case (Cons z zs)
  moreover have "linked (nx(d := Item z)) (pv(Item z := d)) (Item z) zs b = linked nx pv (Item z) zs b"
    using assms Cons by (intro linked_frame) auto
  ultimately show ?thesis
    using assms by auto
qed

lemma linked_unlink:
  assumes "linked nx pv a (xs @ i # ys) b" "distinct (xs @ i # ys)"
    "a \<notin> Item ` set (xs @ ys)" "b \<notin> Item ` set (xs @ ys)"
  shows "linked (nx(last_node a xs := first_node ys b)) (pv(first_node ys b := last_node a xs)) a (xs @ ys) b"
proof -
  have f: "first_node ys b \<notin> Item ` set xs"
    using assms by (cases ys) auto
  have l: "last_node a xs \<notin> Item ` set ys"
    using assms by (intro last_node_notin) auto
  have 1: "linked nx pv a xs (Item i)" and 2: "linked nx pv (Item i) ys b"
    using assms(1) by (auto simp: linked_split)
  have "linked (nx(last_node a xs := first_node ys b)) (pv(first_node ys b := last_node a xs)) a xs (first_node ys b)"
    using assms f by (intro linked_retarget_end [OF 1]) auto
  moreover have "linked (nx(last_node a xs := first_node ys b)) (pv(first_node ys b := last_node a xs))
      (last_node a xs) ys b"
    using assms l by (intro linked_retarget_start [OF 2]) auto
  ultimately show ?thesis
    by (simp add: linked_split)
qed

lemma linked_link:
  assumes "linked nx pv a (xs @ ys) b" "distinct (xs @ ys)" "i \<notin> set (xs @ ys)" "a \<noteq> Item i" "b \<noteq> Item i"
    "a \<notin> Item ` set (xs @ ys)" "b \<notin> Item ` set (xs @ ys)"
  shows "linked (nx(Item i := first_node ys b, last_node a xs := Item i))
    (pv(Item i := last_node a xs, first_node ys b := Item i)) a (xs @ i # ys) b"
proof -
  let ?nx = "nx(Item i := first_node ys b, last_node a xs := Item i)"
  let ?pv = "pv(Item i := last_node a xs, first_node ys b := Item i)"
  have f: "first_node ys b \<notin> Item ` set xs" "first_node ys b \<noteq> Item i"
    using assms by (cases ys; auto)+
  have l: "last_node a xs \<notin> Item ` set ys" "last_node a xs \<noteq> Item i"
    using assms last_node_notin [of a ys xs] by (auto simp: last_node_def dest: last_in_set)
  have 1: "linked nx pv a xs (first_node ys b)" and 2: "linked nx pv (last_node a xs) ys b"
    using assms(1) by (auto simp: linked_split)
  have "linked (nx(last_node a xs := Item i)) (pv(Item i := last_node a xs)) a xs (Item i)"
    using assms by (intro linked_retarget_end [OF 1]) auto
  moreover have "linked ?nx ?pv a xs (Item i) =
      linked (nx(last_node a xs := Item i)) (pv(Item i := last_node a xs)) a xs (Item i)"
    using assms f by (intro linked_frame) auto
  moreover have "linked (nx(Item i := first_node ys b)) (pv(first_node ys b := Item i)) (Item i) ys b"
    using assms by (intro linked_retarget_start [OF 2]) auto
  moreover have "linked ?nx ?pv (Item i) ys b =
      linked (nx(Item i := first_node ys b)) (pv(first_node ys b := Item i)) (Item i) ys b"
    using assms l f by (intro linked_frame) auto
  ultimately show ?thesis
    by (simp add: linked_mid)
qed

section \<open>The store as a family of item lists\<close>

text \<open>
  \<open>rep L s A\<close>: in the store \<open>s\<close>, each list \<open>l\<close> of \<open>L\<close> is initialised and holds exactly
  the items \<open>A l\<close>, in that order from the head; an item's container is the list it is in.
\<close>

definition list_rep :: "store \<Rightarrow> nat \<Rightarrow> nat list \<Rightarrow> bool" where
  "list_rep s l xs \<longleftrightarrow>
     linked (next_of s) (prev_of s) (End l) xs (End l) \<and> distinct xs \<and>
     uxNumberOfItems (list_at s l) = length xs \<and> length xs < u32_bound \<and>
     value_of s (End l) = portMAX_DELAY \<and>
     (pxIndex (list_at s l) = End l \<or> pxIndex (list_at s l) \<in> Item ` set xs)"

definition rep :: "nat set \<Rightarrow> store \<Rightarrow> (nat \<Rightarrow> nat list) \<Rightarrow> bool" where
  "rep L s A \<longleftrightarrow>
     (\<forall>l \<in> L. list_rep s l (A l)) \<and>
     (\<forall>i l. pxContainer (node_at s (Item i)) = Some l \<longleftrightarrow> l \<in> L \<and> i \<in> set (A l)) \<and>
     (\<forall>n. value_of s n \<le> portMAX_DELAY)"

text \<open>The positions at which the two insertions put an item.\<close>

definition insert_sorted :: "(nat \<Rightarrow> nat) \<Rightarrow> nat \<Rightarrow> nat list \<Rightarrow> nat list" where
  "insert_sorted val i xs =
     takeWhile (\<lambda>x. val x \<le> val i) xs @ i # dropWhile (\<lambda>x. val x \<le> val i) xs"

definition insert_before :: "node \<Rightarrow> nat \<Rightarrow> nat list \<Rightarrow> nat list" where
  "insert_before n i xs =
     (case n of End _ \<Rightarrow> xs @ [i]
      | Item j \<Rightarrow> takeWhile (\<lambda>x. x \<noteq> j) xs @ i # dropWhile (\<lambda>x. x \<noteq> j) xs)"

lemma rep_listD: "rep L s A \<Longrightarrow> l \<in> L \<Longrightarrow> list_rep s l (A l)"
  by (simp add: rep_def)

lemma rep_container: "rep L s A \<Longrightarrow> pxContainer (node_at s (Item i)) = Some l \<longleftrightarrow> l \<in> L \<and> i \<in> set (A l)"
  by (simp add: rep_def)

lemma rep_disjoint: "rep L s A \<Longrightarrow> k \<in> L \<Longrightarrow> l \<in> L \<Longrightarrow> k \<noteq> l \<Longrightarrow> set (A k) \<inter> set (A l) = {}"
  using rep_container [of L s A] by (auto; metis option.inject)

lemma rep_free: "rep L s A \<Longrightarrow> pxContainer (node_at s (Item i)) = None \<Longrightarrow> k \<in> L \<Longrightarrow> i \<notin> set (A k)"
  using rep_container [of L s A i k] by auto

lemma last_node_cases: "last_node a xs = a \<or> last_node a xs \<in> Item ` set xs"
  by (simp add: last_node_def)

lemma first_node_cases: "first_node xs b = b \<or> first_node xs b \<in> Item ` set xs"
  by (cases xs) simp_all

text \<open>A change of links inside one list does not disturb the others.\<close>

lemma list_rep_frame:
  assumes "list_rep s k ys"
    and "\<And>m. m = End k \<or> m \<in> Item ` set ys \<Longrightarrow> next_of s' m = next_of s m"
    and "\<And>m. m = End k \<or> m \<in> Item ` set ys \<Longrightarrow> prev_of s' m = prev_of s m"
    and "value_of s' (End k) = value_of s (End k)" "list_at s' k = list_at s k"
  shows "list_rep s' k ys"
proof -
  have "linked (next_of s') (prev_of s') (End k) ys (End k) = linked (next_of s) (prev_of s) (End k) ys (End k)"
    using assms(2,3) by (intro linked_frame) auto
  then show ?thesis
    using assms(1,4,5) by (simp add: list_rep_def)
qed

lemma rep_link:
  assumes r: "rep L s A" "l \<in> L" "A l = xs @ ys" "pxContainer (node_at s (Item i)) = None"
    "length (A l) + 1 < u32_bound"
    and nx: "\<And>n. next_of s' n = ((next_of s)(Item i := first_node ys (End l), last_node (End l) xs := Item i)) n"
    and pv: "\<And>n. prev_of s' n = ((prev_of s)(Item i := last_node (End l) xs, first_node ys (End l) := Item i)) n"
    and vl: "\<And>n. value_of s' n = value_of s n"
    and ct: "\<And>n. pxContainer (node_at s' n) = (if n = Item i then Some l else pxContainer (node_at s n))"
    and ls: "list_at s' = (list_at s)(l := (list_at s l)\<lparr>uxNumberOfItems := add32 (uxNumberOfItems (list_at s l)) 1\<rparr>)"
  shows "rep L s' (A(l := xs @ i # ys))"
  unfolding rep_def
proof (intro conjI ballI allI)
  have lr: "list_rep s l (xs @ ys)"
    using rep_listD [OF r(1,2)] r(3) by simp
  have fresh: "\<And>k. k \<in> L \<Longrightarrow> i \<notin> set (A k)"
    using rep_free [OF r(1,4)] .
  fix k
  assume k: "k \<in> L"
  show "list_rep s' k ((A(l := xs @ i # ys)) k)"
  proof (cases "k = l")
    case True
    have "linked (next_of s') (prev_of s') (End l) (xs @ i # ys) (End l)"
      unfolding ext [OF nx] ext [OF pv] using lr fresh [OF r(2)] r(3) by (intro linked_link) (auto simp: list_rep_def)
    with True lr r(3,5) fresh [OF r(2)] show ?thesis
      by (auto simp: list_rep_def vl ls add32_exact)
  next
    case False
    have d: "set (A k) \<inter> set (xs @ ys) = {}"
      using rep_disjoint [OF r(1) k r(2) False] r(3) by simp
    have "End k \<noteq> m \<and> m \<notin> Item ` set (A k)"
      if "m = Item i \<or> m = first_node ys (End l) \<or> m = last_node (End l) xs" for m
      using that first_node_cases [of ys "End l"] last_node_cases [of "End l" xs] d fresh [OF k] False by auto
    then have "list_rep s' k (A k)"
      using rep_listD [OF r(1) k] False by (intro list_rep_frame [of s k "A k" s']) (auto simp: nx pv vl ls)
    with False show ?thesis by simp
  qed
next
  fix j k
  show "(pxContainer (node_at s' (Item j)) = Some k) = (k \<in> L \<and> j \<in> set ((A(l := xs @ i # ys)) k))"
    using rep_container [OF r(1), of j k] rep_container [OF r(1), of i k] r(2,3,4) by (auto simp: ct)
next
  fix n
  show "value_of s' n \<le> portMAX_DELAY"
    using r(1) by (simp add: vl rep_def)
qed

lemma rep_unlink:
  assumes r: "rep L s A" "l \<in> L" "A l = xs @ i # ys"
    and nx: "\<And>n. next_of s' n = ((next_of s)(last_node (End l) xs := first_node ys (End l))) n"
    and pv: "\<And>n. prev_of s' n = ((prev_of s)(first_node ys (End l) := last_node (End l) xs)) n"
    and vl: "\<And>n. value_of s' n = value_of s n"
    and ct: "\<And>n. pxContainer (node_at s' n) = (if n = Item i then None else pxContainer (node_at s n))"
    and ls: "\<And>k. k \<noteq> l \<Longrightarrow> list_at s' k = list_at s k"
      "uxNumberOfItems (list_at s' l) = sub32 (uxNumberOfItems (list_at s l)) 1"
      "pxIndex (list_at s' l) = (if pxIndex (list_at s l) = Item i then last_node (End l) xs else pxIndex (list_at s l))"
  shows "rep L s' (A(l := xs @ ys))"
  unfolding rep_def
proof (intro conjI ballI allI)
  have lr: "list_rep s l (xs @ i # ys)"
    using rep_listD [OF r(1,2)] r(3) by simp
  fix k
  assume k: "k \<in> L"
  show "list_rep s' k ((A(l := xs @ ys)) k)"
  proof (cases "k = l")
    case True
    have "linked (next_of s') (prev_of s') (End l) (xs @ ys) (End l)"
      unfolding ext [OF nx] ext [OF pv] using lr by (intro linked_unlink) (auto simp: list_rep_def)
    with True lr show ?thesis
      using last_node_cases [of "End l" xs] by (auto simp: list_rep_def vl ls sub32_exact)
  next
    case False
    have d: "set (A k) \<inter> set (xs @ i # ys) = {}"
      using rep_disjoint [OF r(1) k r(2) False] r(3) by simp
    have "first_node ys (End l) \<noteq> End k" "first_node ys (End l) \<notin> Item ` set (A k)"
      "last_node (End l) xs \<noteq> End k" "last_node (End l) xs \<notin> Item ` set (A k)"
      using first_node_cases [of ys "End l"] last_node_cases [of "End l" xs] d False by auto
    then have "list_rep s' k (A k)"
      using rep_listD [OF r(1) k] False by (intro list_rep_frame [of s k "A k" s']) (auto simp: nx pv vl ls)
    with False show ?thesis by simp
  qed
next
  fix j k
  show "(pxContainer (node_at s' (Item j)) = Some k) = (k \<in> L \<and> j \<in> set ((A(l := xs @ ys)) k))"
    using rep_container [OF r(1), of j k] rep_container [OF r(1), of i k] rep_container [OF r(1), of i l]
      rep_listD [OF r(1,2)] r(2,3) by (auto simp: ct list_rep_def)
next
  fix n
  show "value_of s' n \<le> portMAX_DELAY"
    using r(1) by (simp add: vl rep_def)
qed

section \<open>Each operation simulates its list counterpart\<close>

text \<open>What an operation leaves alone: item values and owners, and the lists' walk indices.\<close>

definition same_fields :: "store \<Rightarrow> store \<Rightarrow> bool" where
  "same_fields s s' \<longleftrightarrow>
     (\<forall>n. value_of s' n = value_of s n \<and> pvOwner (node_at s' n) = pvOwner (node_at s n))"

definition same_index :: "store \<Rightarrow> store \<Rightarrow> bool" where
  "same_index s s' \<longleftrightarrow> (\<forall>k. pxIndex (list_at s' k) = pxIndex (list_at s k))"

lemma vListInitialise_other:
  "m \<noteq> End l \<Longrightarrow> node_at (vListInitialise l s) m = node_at s m"
  "k \<noteq> l \<Longrightarrow> list_at (vListInitialise l s) k = list_at s k"
  by (simp_all add: vListInitialise_def list_op_defs)

lemma vListInitialise_rep:
  assumes "rep L s A" "l \<notin> L"
  shows "rep (insert l L) (vListInitialise l s) (A(l := []))"
  unfolding rep_def
proof (intro conjI ballI allI)
  fix k
  assume "k \<in> insert l L"
  show "list_rep (vListInitialise l s) k ((A(l := [])) k)"
  proof (cases "k = l")
    case True
    then show ?thesis
      by (auto simp: list_rep_def vListInitialise_def list_op_defs)
  next
    case False
    have "list_rep (vListInitialise l s) k (A k)"
    proof (rule list_rep_frame)
      show "list_rep s k (A k)"
        using rep_listD [OF assms(1), of k] \<open>k \<in> insert l L\<close> False by simp
    qed (use False in \<open>auto simp: vListInitialise_other\<close>)
    with False show ?thesis by simp
  qed
next
  fix i k
  show "(pxContainer (node_at (vListInitialise l s) (Item i)) = Some k) =
    (k \<in> insert l L \<and> i \<in> set ((A(l := [])) k))"
    using rep_container [OF assms(1), of i k] assms(2) by (simp add: vListInitialise_def list_op_defs)
next
  fix n
  show "value_of (vListInitialise l s) n \<le> portMAX_DELAY"
    using assms(1) by (auto simp: vListInitialise_def list_op_defs rep_def)
qed

lemma find_insert_linked:
  assumes "linked (next_of s) (prev_of s) a ys b" "v < value_of s b"
  shows "find_insert s v a = Some (last_node a (takeWhile (\<lambda>x. value_of s (Item x) \<le> v) ys))"
  using assms by (induction ys arbitrary: a) (simp_all add: find_insert.simps)

lemma vListInsert_rep:
  assumes "rep L s A" "l \<in> L" "pxContainer (node_at s (Item i)) = None" "length (A l) + 1 < u32_bound"
  shows "\<exists>s'. vListInsert l i s = Some s' \<and>
    rep L s' (A(l := insert_sorted (\<lambda>j. value_of s (Item j)) i (A l))) \<and> same_fields s s' \<and> same_index s s'"
proof -
  define v where "v = value_of s (Item i)"
  define P where "P = (\<lambda>x. value_of s (Item x) \<le> v)"
  define xs where "xs = takeWhile P (A l)"
  define ys where "ys = dropWhile P (A l)"
  define it where "it = last_node (End l) xs"
  define nxt where "nxt = first_node ys (End l)"
  have A: "A l = xs @ ys"
    by (simp add: xs_def ys_def)
  have lr: "linked (next_of s) (prev_of s) (End l) (xs @ ys) (End l)" "value_of s (End l) = portMAX_DELAY"
    using rep_listD [OF assms(1,2)] A by (simp_all add: list_rep_def)
  have vmax: "v \<le> portMAX_DELAY"
    using assms(1) by (simp add: v_def rep_def)
  have find: "(if v = portMAX_DELAY then Some (prev_of s (End l)) else find_insert s v (End l)) = Some it"
  proof (cases "v = portMAX_DELAY")
    case True
    have "\<And>x. x \<in> set (A l) \<Longrightarrow> P x"
      using assms(1) True by (simp add: P_def rep_def)
    then have "xs = A l" "ys = []"
      by (simp_all add: xs_def ys_def takeWhile_eq_all_conv dropWhile_eq_Nil_conv)
    with True linked_ends(2) [OF lr(1)] show ?thesis
      by (simp add: it_def)
  next
    case False
    with vmax lr find_insert_linked [of s "End l" "A l" "End l" v] show ?thesis
      by (simp add: it_def A [symmetric]) (simp add: xs_def P_def)
  qed
  have links: "next_of s it = nxt" "prev_of s nxt = it"
    using linked_cut [OF lr(1)] by (simp_all add: it_def nxt_def)
  have ne: "it \<noteq> Item i" "nxt \<noteq> Item i"
    using last_node_cases [of "End l" xs] first_node_cases [of ys "End l"] rep_free [OF assms(1,3,2)] A
    by (auto simp: it_def nxt_def)
  define s' where "s' = the (vListInsert l i s)"
  have ins: "vListInsert l i s = Some s'"
    unfolding s'_def vListInsert_def Let_def v_def [symmetric] find by simp
  have s': "s' = \<lparr>node_at = (node_at s)
      (nxt := (node_at s nxt)\<lparr>pxPrevious := Item i\<rparr>,
       it := (if it = nxt then (node_at s it)\<lparr>pxPrevious := Item i, pxNext := Item i\<rparr>
              else (node_at s it)\<lparr>pxNext := Item i\<rparr>),
       Item i := (node_at s (Item i))\<lparr>pxNext := nxt, pxPrevious := it, pxContainer := Some l\<rparr>),
     list_at = (list_at s)(l := (list_at s l)\<lparr>uxNumberOfItems := add32 (uxNumberOfItems (list_at s l)) 1\<rparr>)\<rparr>"
    using links ne unfolding s'_def vListInsert_def Let_def v_def [symmetric] find
    by (auto simp: upd_node_def upd_list_def fun_eq_iff)
  have "rep L s' (A(l := xs @ i # ys))"
    using links ne
    by (intro rep_link [OF assms(1,2) A assms(3,4)]) (auto simp: s' it_def [symmetric] nxt_def [symmetric])
  moreover have "insert_sorted (\<lambda>j. value_of s (Item j)) i (A l) = xs @ i # ys"
    by (simp add: insert_sorted_def xs_def ys_def P_def v_def)
  moreover have "same_fields s s'" "same_index s s'"
    using ne by (auto simp: s' same_fields_def same_index_def)
  ultimately show ?thesis
    using ins by auto
qed

text \<open>A sorted list stays sorted, and gains exactly the new item.\<close>

lemma set_insert_sorted [simp]: "set (insert_sorted val i xs) = insert i (set xs)"
proof -
  have "set (insert_sorted val i xs) = insert i (set (takeWhile (\<lambda>x. val x \<le> val i) xs @
      dropWhile (\<lambda>x. val x \<le> val i) xs))"
    unfolding insert_sorted_def by (simp only: set_append list.set) blast
  then show ?thesis by simp
qed

lemma sorted_insert_sorted:
  assumes "sorted (map val xs)"
  shows "sorted (map val (insert_sorted val i xs))"
proof -
  define P where "P = (\<lambda>x. val x \<le> val i)"
  have s: "sorted (map val (takeWhile P xs) @ map val (dropWhile P xs))"
    using assms by (simp flip: map_append)
  have "val i \<le> val y" if y: "y \<in> set (dropWhile P xs)" for y
  proof (cases "dropWhile P xs")
    case Nil
    with y show ?thesis
      by (metis empty_iff list.set(1))
  next
    case (Cons z zs)
    then have "\<not> P z"
      using hd_dropWhile [of P xs] by simp
    then have "val i \<le> val z"
      by (simp add: P_def)
    also have "val z \<le> val y"
      using s y Cons by (auto simp: sorted_append)
    finally show ?thesis .
  qed
  moreover have "val x \<le> val i" if "x \<in> set (takeWhile P xs)" for x
    using set_takeWhileD [OF that] by (simp add: P_def)
  moreover have "insert_sorted val i xs = takeWhile P xs @ i # dropWhile P xs"
    by (simp add: insert_sorted_def P_def)
  ultimately show ?thesis
    using s by (force simp: sorted_append)
qed

lemma vListInsertEnd_rep:
  assumes "rep L s A" "l \<in> L" "pxContainer (node_at s (Item i)) = None" "length (A l) + 1 < u32_bound"
  shows "rep L (vListInsertEnd l i s) (A(l := insert_before (pxIndex (list_at s l)) i (A l))) \<and>
    same_fields s (vListInsertEnd l i s) \<and> same_index s (vListInsertEnd l i s)"
proof -
  define idx where "idx = pxIndex (list_at s l)"
  have lr: "list_rep s l (A l)"
    using rep_listD [OF assms(1,2)] .
  obtain xs ys where A: "A l = xs @ ys" and idx: "idx = first_node ys (End l)"
    and ib: "insert_before idx i (A l) = xs @ i # ys"
  proof (cases "idx = End l")
    case True
    with that [of "A l" "[]"] show ?thesis
      by (simp add: insert_before_def)
  next
    case False
    with lr obtain j where j: "idx = Item j" "j \<in> set (A l)"
      by (auto simp: list_rep_def idx_def)
    then obtain zs where z: "dropWhile (\<lambda>x. x \<noteq> j) (A l) = j # zs"
      by (cases "dropWhile (\<lambda>x. x \<noteq> j) (A l)") (use hd_dropWhile [of "\<lambda>x. x \<noteq> j" "A l"] in \<open>auto\<close>)
    have "A l = takeWhile (\<lambda>x. x \<noteq> j) (A l) @ j # zs"
      by (metis z takeWhile_dropWhile_id)
    with j z that [of "takeWhile (\<lambda>x. x \<noteq> j) (A l)" "j # zs"] show ?thesis
      by (simp add: insert_before_def)
  qed
  define it where "it = last_node (End l) xs"
  have links: "prev_of s idx = it"
    using linked_cut [of "next_of s" "prev_of s" "End l" xs ys "End l"] lr A
    by (simp add: it_def idx list_rep_def)
  have ne: "it \<noteq> Item i" "idx \<noteq> Item i"
    using last_node_cases [of "End l" xs] first_node_cases [of ys "End l"] rep_free [OF assms(1,3,2)] A
    by (auto simp: it_def idx)
  have s': "vListInsertEnd l i s = \<lparr>node_at = (node_at s)
      (it := (node_at s it)\<lparr>pxNext := Item i\<rparr>,
       idx := (if it = idx then (node_at s idx)\<lparr>pxPrevious := Item i, pxNext := Item i\<rparr>
               else (node_at s idx)\<lparr>pxPrevious := Item i\<rparr>),
       Item i := (node_at s (Item i))\<lparr>pxNext := idx, pxPrevious := it, pxContainer := Some l\<rparr>),
     list_at = (list_at s)(l := (list_at s l)\<lparr>uxNumberOfItems := add32 (uxNumberOfItems (list_at s l)) 1\<rparr>)\<rparr>"
    using links ne unfolding vListInsertEnd_def Let_def idx_def [symmetric]
    by (auto simp: upd_node_def upd_list_def fun_eq_iff)
  have "rep L (vListInsertEnd l i s) (A(l := xs @ i # ys))"
    using links ne
    by (intro rep_link [OF assms(1,2) A assms(3,4)]) (auto simp: s' it_def [symmetric] idx [symmetric])
  moreover have "same_fields s (vListInsertEnd l i s)" "same_index s (vListInsertEnd l i s)"
    using ne by (auto simp: s' same_fields_def same_index_def)
  ultimately show ?thesis
    using ib by (simp add: idx_def)
qed

lemma uxListRemove_rep:
  assumes "rep L s A" "l \<in> L" "i \<in> set (A l)"
  shows "\<exists>s'. uxListRemove i s = Some (length (A l) - 1, s') \<and> rep L s' (A(l := remove1 i (A l))) \<and>
    same_fields s s' \<and> pxContainer (node_at s' (Item i)) = None \<and>
    (\<forall>k. pxIndex (list_at s' k) =
       (if k = l \<and> pxIndex (list_at s l) = Item i then prev_of s (Item i) else pxIndex (list_at s k)))"
proof -
  obtain xs ys where A: "A l = xs @ i # ys" and nxs: "i \<notin> set xs"
    using assms(3) by (meson split_list_first)
  have lr: "list_rep s l (xs @ i # ys)"
    using rep_listD [OF assms(1,2)] A by simp
  define it where "it = last_node (End l) xs"
  define nxt where "nxt = first_node ys (End l)"
  have links: "prev_of s (Item i) = it" "next_of s (Item i) = nxt"
    using lr linked_ends [of "next_of s" "prev_of s" "End l" xs "Item i"]
      linked_ends [of "next_of s" "prev_of s" "Item i" ys "End l"]
    by (auto simp: list_rep_def linked_mid it_def nxt_def)
  have ne: "it \<noteq> Item i" "nxt \<noteq> Item i"
    using last_node_cases [of "End l" xs] first_node_cases [of ys "End l"] lr
    by (auto simp: it_def nxt_def list_rep_def)
  have c: "pxContainer (node_at s (Item i)) = Some l"
    using rep_container [OF assms(1)] assms(2,3) by simp
  define s' where "s' = \<lparr>node_at = (node_at s)
      (nxt := (node_at s nxt)\<lparr>pxPrevious := it\<rparr>,
       it := (if it = nxt then (node_at s it)\<lparr>pxPrevious := it, pxNext := nxt\<rparr>
              else (node_at s it)\<lparr>pxNext := nxt\<rparr>),
       Item i := (node_at s (Item i))\<lparr>pxContainer := None\<rparr>),
     list_at = (list_at s)(l := (list_at s l)
       \<lparr>uxNumberOfItems := sub32 (uxNumberOfItems (list_at s l)) 1,
        pxIndex := (if pxIndex (list_at s l) = Item i then it else pxIndex (list_at s l))\<rparr>)\<rparr>"
  have num: "uxNumberOfItems (list_at s l) = length (A l)" "length (A l) < u32_bound"
    using lr A by (simp_all add: list_rep_def)
  have rem: "uxListRemove i s = Some (sub32 (length (A l)) 1, s')"
    using links ne c num unfolding uxListRemove_def s'_def
    by (auto simp: upd_node_def upd_list_def fun_eq_iff Let_def)
  have "rep L s' (A(l := xs @ ys))"
    using links ne
    by (intro rep_unlink [OF assms(1,2) A]) (auto simp: s'_def it_def [symmetric] nxt_def [symmetric])
  moreover have "remove1 i (A l) = xs @ ys"
    using A nxs by (simp add: remove1_append)
  moreover have "same_fields s s'"
    using ne by (auto simp: s'_def same_fields_def)
  moreover have "sub32 (length (A l)) 1 = length (A l) - 1"
    using num A by (simp add: sub32_exact)
  ultimately show ?thesis
    using rem links by (auto simp: s'_def)
qed

section \<open>Walking a list\<close>

text \<open>
  The position \<open>pxIndex\<close> stands at; the end marker counts as the last position, since both are
  followed by the head.
\<close>

definition index_pos :: "node \<Rightarrow> nat list \<Rightarrow> nat" where
  "index_pos n xs = (case n of End _ \<Rightarrow> length xs - 1 | Item j \<Rightarrow> length (takeWhile (\<lambda>x. x \<noteq> j) xs))"

fun next_owners :: "nat \<Rightarrow> nat \<Rightarrow> store \<Rightarrow> nat list \<times> store" where
  "next_owners 0 l s = ([], s)"
| "next_owners (Suc n) l s =
     (let (w, s1) = listGET_OWNER_OF_NEXT_ENTRY l s; (ws, s2) = next_owners n l s1 in (w # ws, s2))"

lemma takeWhile_neq_nth: "distinct xs \<Longrightarrow> p < length xs \<Longrightarrow> length (takeWhile (\<lambda>x. x \<noteq> xs ! p) xs) = p"
proof (induction xs arbitrary: p)
  case (Cons x xs)
  then show ?case by (cases p) auto
qed simp

lemma linked_nth:
  assumes "linked nx pv a xs b" "p < length xs"
  shows "nx (Item (xs ! p)) = (if Suc p < length xs then Item (xs ! Suc p) else b)"
  using assms
proof (induction xs arbitrary: a p)
  case (Cons x xs)
  show ?case
  proof (cases p)
    case 0
    with Cons.prems linked_ends(1) [of nx pv "Item x" xs b] show ?thesis
      by (cases xs) auto
  next
    case (Suc q)
    with Cons show ?thesis by auto
  qed
qed simp

lemma index_pos_less:
  assumes "list_rep s l xs" "xs \<noteq> []"
  shows "index_pos (pxIndex (list_at s l)) xs < length xs"
proof (cases "pxIndex (list_at s l)")
  case (Item j)
  with assms have "j \<in> set xs"
    by (auto simp: list_rep_def)
  then obtain p where p: "p < length xs" "j = xs ! p"
    by (auto simp: in_set_conv_nth)
  moreover from assms(1) have "distinct xs"
    by (simp add: list_rep_def)
  ultimately show ?thesis
    by (simp add: Item index_pos_def takeWhile_neq_nth)
next
  case (End k)
  with assms show ?thesis
    by (simp add: index_pos_def)
qed

text \<open>One call moves to the item after the index, cyclically, and returns its owner.\<close>

lemma next_entry_step:
  assumes "rep L s A" "l \<in> L" "A l \<noteq> []"
  defines "q \<equiv> Suc (index_pos (pxIndex (list_at s l)) (A l)) mod length (A l)"
  shows "\<exists>s'. listGET_OWNER_OF_NEXT_ENTRY l s = (pvOwner (node_at s (Item (A l ! q))), s') \<and>
    rep L s' A \<and> node_at s' = node_at s \<and> pxIndex (list_at s' l) = Item (A l ! q)"
proof -
  define idx where "idx = pxIndex (list_at s l)"
  have lr: "list_rep s l (A l)"
    using rep_listD [OF assms(1,2)] .
  then have ln: "linked (next_of s) (prev_of s) (End l) (A l) (End l)" "distinct (A l)"
    by (simp_all add: list_rep_def)
  have head: "next_of s (End l) = Item (A l ! 0)"
    using linked_ends(1) [OF ln(1)] assms(3) by (cases "A l") simp_all
  have nxt: "(if next_of s idx = End l then next_of s (End l) else next_of s idx) = Item (A l ! q)"
  proof (cases "idx = End l")
    case True
    with head assms(3) show ?thesis
      by (simp add: q_def idx_def [symmetric] index_pos_def)
  next
    case False
    with lr obtain p where p: "p < length (A l)" "idx = Item (A l ! p)"
      by (auto simp: list_rep_def idx_def in_set_conv_nth)
    then have "index_pos idx (A l) = p"
      using ln(2) by (simp add: index_pos_def takeWhile_neq_nth)
    with p linked_nth [OF ln(1) p(1)] head show ?thesis
      by (auto simp: q_def idx_def [symmetric] mod_Suc)
  qed
  have ql: "q < length (A l)"
    using assms(3) by (simp add: q_def)
  define s' where "s' = s\<lparr>list_at := (list_at s)(l := (list_at s l)\<lparr>pxIndex := Item (A l ! q)\<rparr>)\<rparr>"
  have call: "listGET_OWNER_OF_NEXT_ENTRY l s = (pvOwner (node_at s (Item (A l ! q))), s')"
    using nxt unfolding listGET_OWNER_OF_NEXT_ENTRY_def s'_def idx_def [symmetric]
    by (auto simp: upd_list_def Let_def split: if_splits)
  have "rep L s' A"
    using assms(1) ql unfolding rep_def s'_def by (auto simp: list_rep_def)
  with call show ?thesis
    by (simp add: s'_def)
qed

lemma next_owners_walk:
  assumes "rep L s A" "l \<in> L" "A l \<noteq> []"
  defines "p \<equiv> index_pos (pxIndex (list_at s l)) (A l)"
  shows "fst (next_owners n l s) =
    map (\<lambda>k. pvOwner (node_at s (Item (A l ! ((p + k) mod length (A l)))))) [1..<Suc n]"
  using assms(1) unfolding p_def
proof (induction n arbitrary: s)
  case 0
  then show ?case by simp
next
  case (Suc n)
  define q where "q = Suc (index_pos (pxIndex (list_at s l)) (A l)) mod length (A l)"
  obtain s' where s': "listGET_OWNER_OF_NEXT_ENTRY l s = (pvOwner (node_at s (Item (A l ! q))), s')"
    "rep L s' A" "node_at s' = node_at s" "pxIndex (list_at s' l) = Item (A l ! q)"
    using next_entry_step [OF Suc.prems assms(2,3)] by (auto simp: q_def)
  have ql: "q < length (A l)"
    using assms(3) by (simp add: q_def)
  have "distinct (A l)"
    using rep_listD [OF Suc.prems assms(2)] by (simp add: list_rep_def)
  with ql have "index_pos (pxIndex (list_at s' l)) (A l) = q"
    by (simp add: s'(4) index_pos_def takeWhile_neq_nth)
  with Suc.IH [OF s'(2)] have "fst (next_owners n l s') =
      map (\<lambda>k. pvOwner (node_at s (Item (A l ! ((q + k) mod length (A l)))))) [1..<Suc n]"
    by (simp add: s'(3))
  moreover have "(q + k) mod length (A l) =
      (index_pos (pxIndex (list_at s l)) (A l) + Suc k) mod length (A l)" for k
    by (simp add: q_def mod_simps)
  moreover have "[1..<Suc (Suc n)] = 1 # map Suc [1..<Suc n]"
    by (simp only: map_Suc_upt upt_conv_Cons [of 1 "Suc (Suc n)"])
  ultimately show ?case
    by (auto simp: s'(1) case_prod_beta Let_def q_def simp del: upt_Suc)
qed

text \<open>Where the walk meets an item that was put just before the index.\<close>

lemma index_pos_insert_before:
  assumes "list_rep s l xs" "xs \<noteq> []" "i \<notin> set xs"
  defines "idx \<equiv> pxIndex (list_at s l)"
  shows "index_pos idx (insert_before idx i xs) = Suc (index_pos idx xs)"
    "k < Suc (length xs) \<Longrightarrow> insert_before idx i xs ! k =
       (if idx = End l then (if k < length xs then xs ! k else i)
        else if k < index_pos idx xs then xs ! k else if k = index_pos idx xs then i else xs ! (k - 1))"
proof -
  have d: "distinct xs"
    using assms(1) by (simp add: list_rep_def)
  consider (e) "idx = End l" | (it) p where "p < length xs" "idx = Item (xs ! p)"
    using assms(1) by (auto simp: list_rep_def idx_def in_set_conv_nth)
  then have "index_pos idx (insert_before idx i xs) = Suc (index_pos idx xs) \<and>
    (k < Suc (length xs) \<longrightarrow> insert_before idx i xs ! k =
       (if idx = End l then (if k < length xs then xs ! k else i)
        else if k < index_pos idx xs then xs ! k else if k = index_pos idx xs then i else xs ! (k - 1)))"
  proof cases
    case e
    with assms(2) show ?thesis
      by (auto simp: index_pos_def insert_before_def nth_append)
  next
    case (it p)
    define us where "us = takeWhile (\<lambda>x. x \<noteq> xs ! p) xs"
    define vs where "vs = dropWhile (\<lambda>x. x \<noteq> xs ! p) xs"
    have us: "length us = p" "xs = us @ vs"
      using it(1) d by (simp_all add: us_def vs_def takeWhile_neq_nth)
    with it(1) have v: "vs = xs ! p # tl vs"
      by (cases vs) (auto simp: nth_append)
    have "xs ! p \<notin> set us"
      using d us v by (metis distinct_append disjoint_iff list.set_intros(1))
    moreover have "i \<noteq> xs ! p"
      using assms(3) nth_mem [OF it(1)] by metis
    ultimately
    have "takeWhile (\<lambda>x. x \<noteq> xs ! p) (us @ i # vs) = us @ [i]"
      by (subst takeWhile_append2) (auto, subst v, simp)
    then have pos: "index_pos idx (us @ i # vs) = Suc p"
      using us(1) it(2) by (simp add: index_pos_def)
    have pos0: "index_pos idx xs = p"
      using it d by (simp add: index_pos_def takeWhile_neq_nth)
    have ib: "insert_before idx i xs = us @ i # vs"
      using it(2) by (simp add: insert_before_def us_def vs_def)
    have "(us @ i # vs) ! k = (if k < p then xs ! k else if k = p then i else xs ! (k - 1))"
    proof -
      consider "k < p" | "k = p" | m where "k = Suc (p + m)"
        by (metis less_imp_Suc_add linorder_cases)
      then show ?thesis
        using us by cases (auto simp: nth_append)
    qed
    moreover have "idx \<noteq> End l"
      using it(2) by simp
    ultimately show ?thesis
      by (simp add: ib pos pos0)
  qed
  then show "index_pos idx (insert_before idx i xs) = Suc (index_pos idx xs)"
    "k < Suc (length xs) \<Longrightarrow> insert_before idx i xs ! k =
       (if idx = End l then (if k < length xs then xs ! k else i)
        else if k < index_pos idx xs then xs ! k else if k = index_pos idx xs then i else xs ! (k - 1))"
    by auto
qed

lemma length_insert_before [simp]: "length (insert_before n i xs) = Suc (length xs)"
proof (cases n)
  case (Item j)
  have "length (takeWhile (\<lambda>x. x \<noteq> j) xs) + length (dropWhile (\<lambda>x. x \<noteq> j) xs) = length xs"
    by (metis length_append takeWhile_dropWhile_id)
  with Item show ?thesis
    by (simp add: insert_before_def)
qed (simp add: insert_before_def)

lemma set_insert_before [simp]: "set (insert_before n i xs) = insert i (set xs)"
proof (cases n)
  case (Item j)
  have "set (takeWhile (\<lambda>x. x \<noteq> j) xs) \<union> set (dropWhile (\<lambda>x. x \<noteq> j) xs) = set xs"
    by (metis set_append takeWhile_dropWhile_id)
  with Item show ?thesis
    by (auto simp: insert_before_def)
qed (auto simp: insert_before_def)

section \<open>The list interface\<close>

text \<open>
  What the scheduler relies on: a family of duplicate-free, disjoint item lists with an insertion
  by value and a removal. The lemmas for clients: an item moves between lists in two calls, and
  a list fed only by \<open>insert\<close> stays sorted, so its head is always the item due first.
\<close>

locale item_lists =
  fixes lists :: "nat set"
    and models :: "'s \<Rightarrow> (nat \<Rightarrow> nat list) \<Rightarrow> bool"
    and val :: "'s \<Rightarrow> nat \<Rightarrow> nat"
    and insert :: "nat \<Rightarrow> nat \<Rightarrow> 's \<Rightarrow> 's option"
    and remove :: "nat \<Rightarrow> 's \<Rightarrow> (nat \<times> 's) option"
  assumes disjoint: "models s A \<Longrightarrow> k \<in> lists \<Longrightarrow> l \<in> lists \<Longrightarrow> k \<noteq> l \<Longrightarrow> set (A k) \<inter> set (A l) = {}"
    and no_dups: "models s A \<Longrightarrow> l \<in> lists \<Longrightarrow> distinct (A l)"
    and insert_law: "models s A \<Longrightarrow> l \<in> lists \<Longrightarrow> (\<And>k. k \<in> lists \<Longrightarrow> i \<notin> set (A k)) \<Longrightarrow>
      length (A l) + 1 < u32_bound \<Longrightarrow>
      \<exists>s'. insert l i s = Some s' \<and> models s' (A(l := insert_sorted (val s) i (A l))) \<and> val s' = val s"
    and remove_law: "models s A \<Longrightarrow> l \<in> lists \<Longrightarrow> i \<in> set (A l) \<Longrightarrow>
      \<exists>s'. remove i s = Some (length (A l) - 1, s') \<and> models s' (A(l := remove1 i (A l))) \<and> val s' = val s"
begin

lemma move:
  assumes m: "models s A" and k: "k \<in> lists" and l: "l \<in> lists" and "k \<noteq> l"
    and i: "i \<in> set (A k)" and len: "length (A l) + 1 < u32_bound"
  shows "\<exists>s1 s2. remove i s = Some (length (A k) - 1, s1) \<and> insert l i s1 = Some s2 \<and>
    models s2 (A(k := remove1 i (A k), l := insert_sorted (val s) i (A l))) \<and> val s2 = val s"
proof -
  obtain s1 where s1: "remove i s = Some (length (A k) - 1, s1)"
    "models s1 (A(k := remove1 i (A k)))" "val s1 = val s"
    using remove_law [OF m k i] by blast
  have "i \<notin> set ((A(k := remove1 i (A k))) j)" if j: "j \<in> lists" for j
    using disjoint [OF m k j] no_dups [OF m k] i by auto
  moreover have e: "(A(k := remove1 i (A k))) l = A l"
    using \<open>k \<noteq> l\<close> by simp
  ultimately obtain s2 where "insert l i s1 = Some s2" "val s2 = val s1"
    "models s2 (A(k := remove1 i (A k), l := insert_sorted (val s1) i (A l)))"
    using insert_law [OF s1(2) l, of i] len unfolding e by blast
  with s1 show ?thesis
    by (simp del: fun_upd_apply)
qed

lemma insert_keeps_sorted:
  assumes "models s A" "l \<in> lists" "\<And>k. k \<in> lists \<Longrightarrow> i \<notin> set (A k)" "length (A l) + 1 < u32_bound"
    and "sorted (map (val s) (A l))"
  shows "\<exists>s' B. insert l i s = Some s' \<and> models s' B \<and> set (B l) = Set.insert i (set (A l)) \<and>
    sorted (map (val s') (B l)) \<and> (\<forall>k. k \<noteq> l \<longrightarrow> B k = A k) \<and> (\<forall>j \<in> set (B l). val s' (hd (B l)) \<le> val s' j)"
proof -
  let ?B = "A(l := insert_sorted (val s) i (A l))"
  obtain s' where s': "insert l i s = Some s'" "models s' ?B" "val s' = val s"
    using insert_law [OF assms(1-4)] by blast
  have so: "sorted (map (val s) (insert_sorted (val s) i (A l)))"
    using assms(5) by (rule sorted_insert_sorted)
  then have "\<forall>j \<in> set (insert_sorted (val s) i (A l)). val s (hd (insert_sorted (val s) i (A l))) \<le> val s j"
    by (cases "insert_sorted (val s) i (A l)") (auto simp del: set_insert_sorted)
  with s' so show ?thesis
    by (intro exI [of _ s'] exI [of _ ?B]) (auto simp del: set_insert_sorted, auto)
qed

end

interpretation kl: item_lists L "rep L" "\<lambda>s j. value_of s (Item j)" vListInsert uxListRemove for L
proof unfold_locales
  fix s A k l i
  assume r: "rep L s A"
  show "set (A k) \<inter> set (A l) = {}" if "k \<in> L" "l \<in> L" "k \<noteq> l"
    using rep_disjoint [OF r] that by blast
  show "distinct (A l)" if "l \<in> L"
    using rep_listD [OF r that] by (simp add: list_rep_def)
  show "\<exists>s'. vListInsert l i s = Some s' \<and> rep L s' (A(l := insert_sorted (\<lambda>j. value_of s (Item j)) i (A l))) \<and>
      (\<lambda>j. value_of s' (Item j)) = (\<lambda>j. value_of s (Item j))"
    if "l \<in> L" "\<And>k. k \<in> L \<Longrightarrow> i \<notin> set (A k)" "length (A l) + 1 < u32_bound"
  proof -
    have "pxContainer (node_at s (Item i)) = None"
      using that(2) rep_container [OF r, of i] by (cases "pxContainer (node_at s (Item i))") auto
    from vListInsert_rep [OF r that(1) this that(3)] show ?thesis
      by (auto simp: same_fields_def)
  qed
  show "\<exists>s'. uxListRemove i s = Some (length (A l) - 1, s') \<and> rep L s' (A(l := remove1 i (A l))) \<and>
      (\<lambda>j. value_of s' (Item j)) = (\<lambda>j. value_of s (Item j))" if "l \<in> L" "i \<in> set (A l)"
    using uxListRemove_rep [OF r that] by (auto simp: same_fields_def)
qed

section \<open>Properties\<close>

text \<open>
  C25. \<open>vListInsert\<close> terminates on every well-formed list and refines stable sorted insertion:
  the list stays a well-formed doubly linked list, gains exactly the new item, stays sorted by
  item value if it was, puts the item behind all items of equal value, and no other list, no item
  value and no walk index changes.
\<close>

theorem vListInsert_refines_sorted_insert:
  assumes "rep L s A" "l \<in> L" "pxContainer (node_at s (Item i)) = None" "length (A l) + 1 < u32_bound"
    and "sorted (map (\<lambda>j. value_of s (Item j)) (A l))"
  shows "\<exists>s' B. vListInsert l i s = Some s' \<and> rep L s' B \<and> (\<forall>k. k \<noteq> l \<longrightarrow> B k = A k) \<and>
    (\<exists>xs ys. A l = xs @ ys \<and> B l = xs @ i # ys \<and>
       (\<forall>j \<in> set xs. value_of s (Item j) \<le> value_of s (Item i)) \<and>
       (\<forall>j \<in> set ys. value_of s (Item i) < value_of s (Item j))) \<and>
    same_fields s s' \<and> same_index s s'"
proof -
  define val where "val = (\<lambda>j. value_of s (Item j))"
  define P where "P = (\<lambda>x. val x \<le> val i)"
  let ?xs = "takeWhile P (A l)" and ?ys = "dropWhile P (A l)"
  obtain s' where s': "vListInsert l i s = Some s'" "rep L s' (A(l := insert_sorted val i (A l)))"
    "same_fields s s'" "same_index s s'"
    using vListInsert_rep [OF assms(1-4)] by (auto simp: val_def)
  have "sorted (map val (insert_sorted val i (A l)))"
    using assms(5) by (simp add: val_def sorted_insert_sorted)
  then have "sorted (map val ?xs @ val i # map val ?ys)"
    by (simp add: insert_sorted_def P_def)
  then have ge: "\<forall>j \<in> set ?ys. val i \<le> val j" and so: "sorted (map val ?ys)"
    by (auto simp: sorted_append)
  have "val i < val j" if "j \<in> set ?ys" for j
  proof (cases ?ys)
    case Nil
    with that show ?thesis by (metis empty_iff list.set(1))
  next
    case (Cons z zs)
    then have "val i < val z"
      using hd_dropWhile [of P "A l"] by (simp add: P_def not_le)
    also have "val z \<le> val j"
      using so that Cons by auto
    finally show ?thesis .
  qed
  moreover have "val j \<le> val i" if "j \<in> set ?xs" for j
    using set_takeWhileD [OF that] by (simp add: P_def)
  ultimately have "\<exists>xs ys. A l = xs @ ys \<and> insert_sorted val i (A l) = xs @ i # ys \<and>
      (\<forall>j \<in> set xs. val j \<le> val i) \<and> (\<forall>j \<in> set ys. val i < val j)"
    by (intro exI [of _ ?xs] exI [of _ ?ys]) (simp add: insert_sorted_def P_def)
  with s' show ?thesis
    by (intro exI [of _ s'] exI [of _ "A(l := insert_sorted val i (A l))"]) (simp add: val_def)
qed

text \<open>A concrete store for the witnesses: the list 0 holding the item 5.\<close>

definition demo_store :: store where
  "demo_store = vListInitialise 0
     \<lparr>node_at = (\<lambda>n. \<lparr>xItemValue = (case n of Item i \<Rightarrow> i mod 8 | End _ \<Rightarrow> 0), pxNext = n, pxPrevious = n,
        pvOwner = (case n of Item i \<Rightarrow> i | End _ \<Rightarrow> 0), pxContainer = None\<rparr>),
      list_at = (\<lambda>l. \<lparr>uxNumberOfItems = 0, pxIndex = End l\<rparr>)\<rparr>"

definition demo_store5 :: store where
  "demo_store5 = the (vListInsert 0 5 demo_store)"

lemma demo_store_rep: "rep {0} demo_store (\<lambda>_. [])"
proof -
  let ?s = "\<lparr>node_at = (\<lambda>n. \<lparr>xItemValue = (case n of Item i \<Rightarrow> i mod 8 | End _ \<Rightarrow> 0), pxNext = n, pxPrevious = n,
        pvOwner = (case n of Item i \<Rightarrow> i | End _ \<Rightarrow> 0), pxContainer = None\<rparr>),
      list_at = (\<lambda>l. \<lparr>uxNumberOfItems = 0, pxIndex = End l\<rparr>)\<rparr> :: store"
  have "i mod 8 \<le> 4294967295" for i :: nat
    using mod_less_divisor [of 8 i] by linarith
  then have "rep {} ?s (\<lambda>_. [])"
    by (auto simp: rep_def portMAX_DELAY_def split: node.split)
  from vListInitialise_rep [OF this, of 0] show ?thesis
    by (simp add: demo_store_def fun_upd_idem)
qed

lemma demo_store5_rep: "rep {0} demo_store5 (\<lambda>l. if l = 0 then [5] else [])"
  and demo_store5_fields: "same_fields demo_store demo_store5" "same_index demo_store demo_store5"
proof -
  have "pxContainer (node_at demo_store (Item 5)) = None"
    by (simp add: demo_store_def vListInitialise_other)
  from vListInsert_rep [OF demo_store_rep _ this] obtain s' where
    "vListInsert 0 5 demo_store = Some s'" "same_fields demo_store s'" "same_index demo_store s'"
    "rep {0} s' ((\<lambda>_. [])(0 := [5]))"
    by (auto simp: insert_sorted_def u32_bound_def)
  then show "rep {0} demo_store5 (\<lambda>l. if l = 0 then [5] else [])"
    "same_fields demo_store demo_store5" "same_index demo_store demo_store5"
    by (simp_all add: demo_store5_def fun_upd_def)
qed

lemma demo_store5_free: "i \<noteq> 5 \<Longrightarrow> pxContainer (node_at demo_store5 (Item i)) = None"
  using rep_container [OF demo_store5_rep, of i]
  by (cases "pxContainer (node_at demo_store5 (Item i))") (auto split: if_splits)

lemma demo_store5_value: "value_of demo_store5 (Item i) = i mod 8"
  using demo_store5_fields(1) by (simp add: same_fields_def demo_store_def vListInitialise_other)

lemma demo_store5_list: "l = 0 \<Longrightarrow> (if l = 0 then [5] else []) = [5 :: nat]"
  by simp

theorem vListInsert_refines_sorted_insert_witness:
  "\<exists>s' B. vListInsert 0 13 demo_store5 = Some s' \<and> rep {0} s' B \<and>
    (\<forall>k. k \<noteq> 0 \<longrightarrow> B k = []) \<and>
    (\<exists>xs ys. [5] = xs @ ys \<and> B 0 = xs @ 13 # ys \<and>
       (\<forall>j \<in> set xs. value_of demo_store5 (Item j) \<le> value_of demo_store5 (Item 13)) \<and>
       (\<forall>j \<in> set ys. value_of demo_store5 (Item 13) < value_of demo_store5 (Item j))) \<and>
    same_fields demo_store5 s' \<and> same_index demo_store5 s'"
proof -
  have "\<exists>s' B. vListInsert 0 13 demo_store5 = Some s' \<and> rep {0} s' B \<and>
    (\<forall>k. k \<noteq> 0 \<longrightarrow> B k = (if k = 0 then [5] else [])) \<and>
    (\<exists>xs ys. (if (0 :: nat) = 0 then [5] else []) = xs @ ys \<and> B 0 = xs @ 13 # ys \<and>
       (\<forall>j \<in> set xs. value_of demo_store5 (Item j) \<le> value_of demo_store5 (Item 13)) \<and>
       (\<forall>j \<in> set ys. value_of demo_store5 (Item 13) < value_of demo_store5 (Item j))) \<and>
    same_fields demo_store5 s' \<and> same_index demo_store5 s'"
    by (rule vListInsert_refines_sorted_insert [OF demo_store5_rep])
      (simp_all add: demo_store5_free u32_bound_def)
  then show ?thesis by simp
qed

text \<open>
  \<open>uxListRemove\<close> refines removal from the list the item is in: it returns the number of
  items left, the item is then in no list, the others keep their order, and no other list
  changes; an index that stood at the item moves to its predecessor.
\<close>

theorem uxListRemove_refines_remove:
  assumes "rep L s A" "l \<in> L" "i \<in> set (A l)"
  shows "\<exists>s'. uxListRemove i s = Some (length (A l) - 1, s') \<and> rep L s' (A(l := remove1 i (A l))) \<and>
    (\<forall>k \<in> L. i \<notin> set ((A(l := remove1 i (A l))) k)) \<and> pxContainer (node_at s' (Item i)) = None \<and>
    same_fields s s' \<and>
    (pxIndex (list_at s l) = Item i \<longrightarrow> pxIndex (list_at s' l) = prev_of s (Item i))"
proof -
  obtain s' where s': "uxListRemove i s = Some (length (A l) - 1, s')" "rep L s' (A(l := remove1 i (A l)))"
    "same_fields s s'" "pxContainer (node_at s' (Item i)) = None"
    "pxIndex (list_at s' l) = (if pxIndex (list_at s l) = Item i then prev_of s (Item i) else pxIndex (list_at s l))"
    using uxListRemove_rep [OF assms] by auto
  moreover have "\<forall>k \<in> L. i \<notin> set ((A(l := remove1 i (A l))) k)"
    using rep_free [OF s'(2,4)] by blast
  ultimately show ?thesis
    by auto
qed

theorem uxListRemove_refines_remove_witness:
  "\<exists>s'. uxListRemove 5 demo_store5 = Some (0, s') \<and> pxContainer (node_at s' (Item 5)) = None"
  using uxListRemove_refines_remove [OF demo_store5_rep, of 0 5] by auto

text \<open>
  Walking a non-empty list with \<open>listGET_OWNER_OF_NEXT_ENTRY\<close> is round robin: as many
  calls as the list has items return the owner of every item exactly once, in list order from the
  item after the index.
\<close>

theorem next_entry_round_robin:
  assumes "rep L s A" "l \<in> L" "A l \<noteq> []"
  shows "fst (next_owners (length (A l)) l s) =
    map (\<lambda>i. pvOwner (node_at s (Item i))) (rotate (Suc (index_pos (pxIndex (list_at s l)) (A l))) (A l))"
proof -
  define p where "p = index_pos (pxIndex (list_at s l)) (A l)"
  have "fst (next_owners (length (A l)) l s) =
      map (\<lambda>k. pvOwner (node_at s (Item (A l ! ((p + k) mod length (A l)))))) [1..<Suc (length (A l))]"
    unfolding p_def by (rule next_owners_walk [OF assms])
  also have "\<dots> = map (\<lambda>i. pvOwner (node_at s (Item i))) (rotate (Suc p) (A l))"
    by (rule nth_equalityI) (simp_all add: nth_rotate del: upt_Suc rotate_Suc)
  finally show ?thesis
    by (simp only: p_def)
qed

theorem next_entry_round_robin_witness:
  "fst (next_owners (length [5 :: nat]) 0 demo_store5) =
    map (\<lambda>i. pvOwner (node_at demo_store5 (Item i)))
      (rotate (Suc (index_pos (pxIndex (list_at demo_store5 0)) [5])) [5])"
  using next_entry_round_robin [OF demo_store5_rep, of 0] by simp

lemma walk_insert_before:
  assumes "list_rep s l xs" "xs \<noteq> []" "i \<notin> set xs"
  defines "idx \<equiv> pxIndex (list_at s l)"
  defines "p \<equiv> index_pos idx xs" and "ys \<equiv> insert_before idx i xs"
    and "m \<equiv> (if idx = End l then length xs else length xs - 1)"
  shows "ys ! ((Suc p + Suc m) mod Suc (length xs)) = i"
    "1 \<le> k \<Longrightarrow> k \<le> m \<Longrightarrow> ys ! ((Suc p + k) mod Suc (length xs)) = xs ! ((p + k) mod length xs)"
proof -
  let ?n = "length xs"
  have p: "p < ?n"
    using index_pos_less [OF assms(1,2)] by (simp add: p_def idx_def)
  have nthy: "ys ! k = (if idx = End l then (if k < ?n then xs ! k else i)
      else if k < p then xs ! k else if k = p then i else xs ! (k - 1))" if "k < Suc ?n" for k
    using index_pos_insert_before(2) [OF assms(1-3) that] by (simp add: p_def idx_def ys_def)
  have pE: "p = ?n - 1" if "idx = End l"
    using that by (simp add: p_def index_pos_def)
  show "ys ! ((Suc p + Suc m) mod Suc ?n) = i"
  proof (cases "idx = End l")
    case True
    with pE p have "Suc p + Suc m = ?n + Suc ?n"
      by (auto simp: m_def)
    then have "(Suc p + Suc m) mod Suc ?n = ?n"
      by (metis mod_add_self2 mod_less lessI)
    then show ?thesis
      using True nthy [of ?n] by simp
  next
    case False
    then have "Suc p + Suc m = p + Suc ?n"
      using p by (auto simp: m_def)
    then have "(Suc p + Suc m) mod Suc ?n = p"
      using p by (metis mod_add_self2 mod_less less_SucI)
    then show ?thesis
      using False nthy [of p] p by simp
  qed
  assume k: "1 \<le> k" "k \<le> m"
  show "ys ! ((Suc p + k) mod Suc ?n) = xs ! ((p + k) mod ?n)"
  proof (cases "idx \<noteq> End l \<and> p + k < ?n")
    case True
    with nthy [of "Suc p + k"] show ?thesis by simp
  next
    case False
    define q where "q = p + k - ?n"
    have "Suc p + k = q + Suc ?n" "p + k = q + ?n" "q < ?n" "idx \<noteq> End l \<Longrightarrow> q < p"
      using False pE p k by (auto simp: m_def q_def split: if_splits)
    with nthy [of q] show ?thesis
      by (metis less_SucI mod_add_self2 mod_less)
  qed
qed

text \<open>
  An item added by \<open>vListInsertEnd\<close> is the last one the walk reaches: all items other than
  the one the index stands at are returned first, in the order they would have been returned
  without it, and then the new item.
\<close>

theorem vListInsertEnd_is_last_walked:
  assumes "rep L s A" "l \<in> L" "A l \<noteq> []" "pxContainer (node_at s (Item i)) = None"
    "length (A l) + 1 < u32_bound"
  defines "m \<equiv> (if pxIndex (list_at s l) = End l then length (A l) else length (A l) - 1)"
  shows "fst (next_owners (Suc m) l (vListInsertEnd l i s)) =
    fst (next_owners m l s) @ [pvOwner (node_at s (Item i))]"
proof -
  define idx where "idx = pxIndex (list_at s l)"
  define p where "p = index_pos idx (A l)"
  define B where "B = insert_before idx i (A l)"
  define s' where "s' = vListInsertEnd l i s"
  have lr: "list_rep s l (A l)" and fresh: "i \<notin> set (A l)"
    using rep_listD [OF assms(1,2)] rep_free [OF assms(1,4,2)] by auto
  have s': "rep L s' (A(l := B))" "same_fields s s'" "pxIndex (list_at s' l) = idx"
    using vListInsertEnd_rep [OF assms(1,2,4,5)] by (auto simp: s'_def B_def idx_def same_index_def)
  have p: "index_pos idx B = Suc p" and lenB: "length B = Suc (length (A l))"
    using index_pos_insert_before(1) [OF lr assms(3) fresh] by (simp_all add: p_def idx_def B_def)
  note W = walk_insert_before [OF lr assms(3) fresh, folded idx_def, folded p_def B_def]
  have m: "m = (if idx = End l then length (A l) else length (A l) - 1)"
    by (simp add: m_def idx_def)
  have "fst (next_owners (Suc m) l s') =
      map (\<lambda>k. pvOwner (node_at s' (Item (B ! ((Suc p + k) mod Suc (length (A l))))))) [1..<Suc (Suc m)]"
    using next_owners_walk [OF s'(1) assms(2), of "Suc m"] s'(3) lenB p
    by (cases B) (simp_all del: upt_Suc next_owners.simps One_nat_def)
  also have "\<dots> = map (\<lambda>k. pvOwner (node_at s (Item (B ! ((Suc p + k) mod Suc (length (A l))))))) [1..<Suc m] @
      [pvOwner (node_at s (Item i))]"
    using s'(2) W(1) m by (simp add: same_fields_def)
  also have "map (\<lambda>k. pvOwner (node_at s (Item (B ! ((Suc p + k) mod Suc (length (A l))))))) [1..<Suc m] =
      map (\<lambda>k. pvOwner (node_at s (Item (A l ! ((p + k) mod length (A l)))))) [1..<Suc m]"
    using W(2) m by (intro map_cong) auto
  also have "\<dots> = fst (next_owners m l s)"
    using next_owners_walk [OF assms(1,2,3), of m] by (simp add: p_def idx_def del: upt_Suc)
  finally show ?thesis
    by (simp add: s'_def)
qed

theorem vListInsertEnd_is_last_walked_witness:
  "fst (next_owners 2 0 (vListInsertEnd 0 3 demo_store5)) =
   fst (next_owners 1 0 demo_store5) @ [pvOwner (node_at demo_store5 (Item 3))]"
proof -
  have "pxIndex (list_at demo_store5 0) = End 0"
    using demo_store5_fields(2) by (simp add: same_index_def demo_store_def vListInitialise_def list_op_defs)
  then show ?thesis
    using vListInsertEnd_is_last_walked [OF demo_store5_rep, of 0 3] demo_store5_free [of 3]
    by (simp add: u32_bound_def numeral_2_eq_2 del: next_owners.simps)
qed

end
