(* ===== verification/Ringbuffer.thy ===== *)
theory Ringbuffer
  imports Prelude
begin

text \<open>
  The application's byte ring buffer, \<open>src/Modules/lib/ringbuffer/Ringbuffer.cpp\<close>, and the
  one iteration of \<open>PrintTaskt::CallBack\<close> (\<open>src/Modules/DebugPrint/PrintTask.hpp\<close>) that
  uses it. The four fields of the class are the four fields of \<open>ringbuffer\<close>; a null
  \<open>_ringbuffer\<close> is \<open>None\<close>. Every operation returns \<open>None\<close> where the C++ would touch
  memory outside its array or fail its \<open>assert\<close>.
\<close>

section \<open>State and operations\<close>

record ringbuffer =
  rb_size :: nat
  rb_data :: "u8 list option"
  rb_start :: nat
  rb_end :: nat

definition rb_new :: ringbuffer where
  "rb_new = \<lparr>rb_size = 0, rb_data = None, rb_start = 0, rb_end = 0\<rparr>"

text \<open>
  \<open>allocate\<close>: \<open>operator new\<close> is the toolchain's; the array it returns (or its null) is the
  argument \<open>fresh\<close>.
\<close>

definition allocate :: "u8 list option \<Rightarrow> nat \<Rightarrow> ringbuffer \<Rightarrow> (bool \<times> ringbuffer) option" where
  "allocate fresh buffer_size s =
     (if rb_data s \<noteq> None then None
      else Some (fresh \<noteq> None, s\<lparr>rb_size := buffer_size, rb_data := fresh\<rparr>))"

definition deallocate :: "ringbuffer \<Rightarrow> ringbuffer" where
  "deallocate s = s\<lparr>rb_data := None, rb_size := 0\<rparr>"

definition space_available :: "ringbuffer \<Rightarrow> nat" where
  "space_available s =
     (if rb_start s > rb_end s then sub32 (sub32 (rb_start s) (rb_end s)) 1
      else add32 (sub32 (sub32 (rb_start s) (rb_end s)) 1) (rb_size s))"

definition space_used :: "ringbuffer \<Rightarrow> nat" where
  "space_used s =
     (if rb_start s \<le> rb_end s then sub32 (rb_end s) (rb_start s)
      else add32 (sub32 (rb_end s) (rb_start s)) (rb_size s))"

text \<open>The \<open>memcpy\<close> calls: into the array at an index, and out of it.\<close>

definition rb_write :: "ringbuffer \<Rightarrow> nat \<Rightarrow> u8 list \<Rightarrow> ringbuffer option" where
  "rb_write s i ys =
     (if ys = [] then Some s
      else case rb_data s of None \<Rightarrow> None
           | Some d \<Rightarrow> map_option (\<lambda>d'. s\<lparr>rb_data := Some d'\<rparr>) (mem_write d i ys))"

definition rb_read :: "ringbuffer \<Rightarrow> nat \<Rightarrow> nat \<Rightarrow> u8 list option" where
  "rb_read s i n =
     (if n = 0 then Some []
      else case rb_data s of None \<Rightarrow> None | Some d \<Rightarrow> mem_read d i n)"

text \<open>
  \<open>push_back(buf, buf_len)\<close>: the argument is \<open>None\<close> for a null \<open>buf\<close> and otherwise the
  \<open>buf_len\<close> bytes it points to.
\<close>

definition push_back :: "u8 list option \<Rightarrow> ringbuffer \<Rightarrow> (bool \<times> ringbuffer) option" where
  "push_back buf s =
     (case buf of
        None \<Rightarrow> Some (False, s)
      | Some xs \<Rightarrow>
          let buf_len = length xs in
          if buf_len = 0 then Some (False, s)
          else if rb_start s > rb_end s then
            (let available = sub32 (sub32 (rb_start s) (rb_end s)) 1 in
             if available < buf_len then Some (False, s)
             else case rb_write s (rb_end s) xs of None \<Rightarrow> None
                  | Some s1 \<Rightarrow> Some (True, s1\<lparr>rb_end := add32 (rb_end s1) buf_len\<rparr>))
          else
            (let available = add32 (sub32 (sub32 (rb_start s) (rb_end s)) 1) (rb_size s) in
             if available < buf_len then Some (False, s)
             else
               let remaining_packet_len = sub32 (rb_size s) (rb_end s) in
               if buf_len > remaining_packet_len then
                 (case rb_write s (rb_end s) (take remaining_packet_len xs) of None \<Rightarrow> None
                  | Some s1 \<Rightarrow>
                      (case rb_write s1 0 (drop remaining_packet_len xs) of None \<Rightarrow> None
                       | Some s2 \<Rightarrow>
                           Some (True, s2\<lparr>rb_end := add32 0 (sub32 buf_len remaining_packet_len)\<rparr>)))
               else
                 (case rb_write s (rb_end s) xs of None \<Rightarrow> None
                  | Some s1 \<Rightarrow> Some (True, s1\<lparr>rb_end := add32 (rb_end s1) buf_len\<rparr>))))"

text \<open>
  \<open>pop_front(buf, buf_max_len)\<close>: \<open>buf_ok\<close> says that \<open>buf\<close> is not null; the result is
  the list of bytes copied to \<open>buf\<close>, whose length is the returned count.
\<close>

definition pop_front :: "bool \<Rightarrow> nat \<Rightarrow> ringbuffer \<Rightarrow> (u8 list \<times> ringbuffer) option" where
  "pop_front buf_ok buf_max_len s =
     (if \<not> buf_ok then Some ([], s)
      else if rb_start s = rb_end s then Some ([], s)
      else if rb_start s < rb_end s then
        (let to_copy_len = min (sub32 (rb_end s) (rb_start s)) buf_max_len in
         case rb_read s (rb_start s) to_copy_len of None \<Rightarrow> None
         | Some ys \<Rightarrow> Some (ys, s\<lparr>rb_start := add32 (rb_start s) to_copy_len\<rparr>))
      else
        (let used = add32 (sub32 (rb_end s) (rb_start s)) (rb_size s);
             to_copy_len = (if used > buf_max_len then buf_max_len else used);
             remaining_buf_len = sub32 (rb_size s) (rb_start s)
         in if to_copy_len > remaining_buf_len then
              (case rb_read s (rb_start s) remaining_buf_len of None \<Rightarrow> None
               | Some ys \<Rightarrow>
                   (case rb_read s 0 (sub32 to_copy_len remaining_buf_len) of None \<Rightarrow> None
                    | Some zs \<Rightarrow>
                        Some (ys @ zs,
                              s\<lparr>rb_start := add32 0 (sub32 to_copy_len remaining_buf_len)\<rparr>)))
            else
              (case rb_read s (rb_start s) to_copy_len of None \<Rightarrow> None
               | Some ys \<Rightarrow> Some (ys, s\<lparr>rb_start := add32 (rb_start s) to_copy_len\<rparr>))))"

text \<open>
  One pass of the loop of \<open>PrintTaskt::CallBack\<close>: three test bytes in, three bytes out. The
  result is the three figures it prints and the bytes read back.
\<close>

definition print_task_pass :: "ringbuffer \<Rightarrow> ((nat \<times> nat \<times> nat \<times> u8 list) \<times> ringbuffer) option" where
  "print_task_pass s =
     (let space_before = space_available s in
      case push_back (Some [1, 2, 3]) s of None \<Rightarrow> None
      | Some (_, s1) \<Rightarrow>
          (case pop_front True 3 s1 of None \<Rightarrow> None
           | Some (readback, s2) \<Rightarrow>
               Some ((space_before, space_used s1, space_used s2, readback), s2)))"

section \<open>Invariant and abstraction\<close>

definition rb_ok :: "ringbuffer \<Rightarrow> bool" where
  "rb_ok s \<longleftrightarrow>
     (case rb_data s of None \<Rightarrow> False | Some d \<Rightarrow> length d = rb_size s) \<and>
     0 < rb_size s \<and> rb_size s < u32_bound \<and> rb_start s \<le> rb_size s \<and> rb_end s \<le> rb_size s \<and>
     rb_end s < rb_start s + rb_size s"

definition rb_used :: "ringbuffer \<Rightarrow> nat" where
  "rb_used s = (if rb_start s \<le> rb_end s then rb_end s - rb_start s
                else rb_end s + rb_size s - rb_start s)"

definition rb_contents :: "ringbuffer \<Rightarrow> u8 list" where
  "rb_contents s = (case rb_data s of None \<Rightarrow> [] | Some d \<Rightarrow> ring d (rb_start s) (rb_used s))"

lemma rb_okE:
  assumes "rb_ok s"
  obtains d where "rb_data s = Some d" "length d = rb_size s" "0 < rb_size s" "rb_size s < u32_bound"
    "rb_start s \<le> rb_size s" "rb_end s \<le> rb_size s" "rb_end s < rb_start s + rb_size s"
  using assms by (auto simp: rb_ok_def split: option.splits)

lemma rb_used_less: "rb_ok s \<Longrightarrow> rb_used s < rb_size s"
  by (auto simp: rb_ok_def rb_used_def)

lemma space_used_exact: "rb_ok s \<Longrightarrow> space_used s = rb_used s"
  by (auto simp: rb_ok_def space_used_def rb_used_def u32_simps)

lemma space_available_exact: "rb_ok s \<Longrightarrow> space_available s = rb_size s - 1 - rb_used s"
  by (auto simp: rb_ok_def space_available_def rb_used_def u32_simps)

lemma length_contents: "rb_ok s \<Longrightarrow> length (rb_contents s) = rb_used s"
  by (erule rb_okE) (auto simp: rb_contents_def rb_used_def)

section \<open>What the operations do\<close>

lemma rb_write_exact:
  "rb_data s = Some d \<Longrightarrow> i + length ys \<le> length d \<Longrightarrow>
   rb_write s i ys = Some (s\<lparr>rb_data := Some (overlay d i ys)\<rparr>)"
  by (auto simp: rb_write_def)

lemma rb_read_exact:
  "rb_data s = Some d \<Longrightarrow> i + n \<le> length d \<Longrightarrow> rb_read s i n = Some (take n (drop i d))"
  by (auto simp: rb_read_def)

definition rb_next_end :: "ringbuffer \<Rightarrow> nat \<Rightarrow> nat" where
  "rb_next_end s n = (if n \<le> rb_size s - rb_end s then rb_end s + n else n - (rb_size s - rb_end s))"

lemma push_back_exact:
  assumes "rb_ok s" "rb_data s = Some d" "xs \<noteq> []" "length xs \<le> rb_size s - 1 - rb_used s"
  shows "push_back (Some xs) s =
    Some (True, s\<lparr>rb_data := Some (ring_put d (rb_end s) xs), rb_end := rb_next_end s (length xs)\<rparr>)"
proof (cases "rb_start s > rb_end s")
  case True
  with assms have "length xs \<le> rb_size s - rb_end s" "rb_end s + length xs \<le> length d"
    by (auto simp: rb_ok_def rb_used_def)
  with True assms show ?thesis
    by (auto simp: push_back_def rb_write_exact ring_put_def rb_next_end_def rb_ok_def rb_used_def u32_simps)
next
  case False
  define r where "r = rb_size s - rb_end s"
  have e: "sub32 (rb_size s) (rb_end s) = r"
    using assms by (auto simp: r_def rb_ok_def u32_simps)
  have av: "add32 (sub32 (sub32 (rb_start s) (rb_end s)) 1) (rb_size s) = rb_size s - 1 - rb_used s"
    using assms False by (auto simp: rb_ok_def rb_used_def u32_simps)
  have d: "length d = rb_size s" "rb_end s \<le> rb_size s" "rb_size s < u32_bound"
    using assms by (auto simp: rb_ok_def)
  show ?thesis
  proof (cases "length xs > r")
    case True
    have l: "length (overlay d (rb_end s) (take r xs)) = rb_size s"
      using d by (simp add: r_def)
    have w1: "rb_write s (rb_end s) (take r xs) = Some (s\<lparr>rb_data := Some (overlay d (rb_end s) (take r xs))\<rparr>)"
      using assms d by (intro rb_write_exact) (auto simp: r_def)
    have w2: "rb_write (s\<lparr>rb_data := Some (overlay d (rb_end s) (take r xs))\<rparr>) 0 (drop r xs) =
      Some (s\<lparr>rb_data := Some (overlay (overlay d (rb_end s) (take r xs)) 0 (drop r xs))\<rparr>)"
      using assms l by (subst rb_write_exact) (auto simp: l)
    have n: "add32 0 (sub32 (length xs) r) = length xs - r"
      using assms d True by (auto simp: u32_simps)
    show ?thesis
      using True False assms d
      by (simp add: push_back_def e av w1 w2 n ring_put_def rb_next_end_def Let_def r_def [symmetric] del: One_nat_def)
  next
    case False2: False
    then show ?thesis
      using False assms d
      by (auto simp: push_back_def e av rb_write_exact ring_put_def rb_next_end_def Let_def r_def u32_simps simp del: One_nat_def)
  qed
qed

lemma push_back_full:
  assumes "rb_ok s" "rb_size s - 1 - rb_used s < length xs"
  shows "push_back (Some xs) s = Some (False, s)"
proof -
  have "space_available s < length xs"
    using assms by (simp add: space_available_exact)
  then show ?thesis
    by (auto simp: push_back_def space_available_def Let_def split: if_splits)
qed

lemma push_back_contents:
  assumes "rb_ok s" "xs \<noteq> []" "length xs \<le> rb_size s - 1 - rb_used s"
  shows "\<exists>s'. push_back (Some xs) s = Some (True, s') \<and> rb_ok s' \<and>
    rb_contents s' = rb_contents s @ xs \<and> rb_size s' = rb_size s"
proof -
  obtain d where d: "rb_data s = Some d" "length d = rb_size s" "0 < rb_size s" "rb_size s < u32_bound"
    "rb_start s \<le> rb_size s" "rb_end s \<le> rb_size s" "rb_end s < rb_start s + rb_size s"
    using assms(1) by (rule rb_okE)
  define s' where "s' = s\<lparr>rb_data := Some (ring_put d (rb_end s) xs), rb_end := rb_next_end s (length xs)\<rparr>"
  have fit: "rb_used s + length xs < rb_size s"
    using assms rb_used_less by fastforce
  have ok: "rb_ok s'"
    using d fit by (auto simp: rb_ok_def s'_def rb_next_end_def rb_used_def split: if_splits)
  have u: "rb_used s' = rb_used s + length xs"
    using d fit assms(2) by (auto simp: s'_def rb_next_end_def rb_used_def split: if_splits)
  have "rb_contents s' = ring (ring_put d (rb_end s) xs) (rb_start s) (rb_used s + length xs)"
    unfolding rb_contents_def u by (simp add: s'_def)
  also have "\<dots> = ring d (rb_start s) (rb_used s) @ xs"
    using d fit by (intro ring_put_window) (auto simp: wrap_def rb_used_def split: if_splits)
  finally show ?thesis
    using push_back_exact [OF assms(1) d(1) assms(2,3)] ok d(1)
    by (auto simp: s'_def rb_contents_def)
qed

lemma pop_front_contents:
  assumes "rb_ok s"
  shows "\<exists>s'. pop_front True n s = Some (take n (rb_contents s), s') \<and> rb_ok s' \<and>
    rb_contents s' = drop n (rb_contents s) \<and> rb_size s' = rb_size s"
proof -
  obtain d where d: "rb_data s = Some d" "length d = rb_size s" "0 < rb_size s" "rb_size s < u32_bound"
    "rb_start s \<le> rb_size s" "rb_end s \<le> rb_size s" "rb_end s < rb_start s + rb_size s"
    using assms by (rule rb_okE)
  define m where "m = min (rb_used s) n"
  define st where "st = (if m \<le> rb_size s - rb_start s then rb_start s + m else m - (rb_size s - rb_start s))"
  define s' where "s' = s\<lparr>rb_start := st\<rparr>"
  have m: "m \<le> rb_used s" "rb_used s < rb_size s"
    using rb_used_less [OF assms] by (auto simp: m_def)
  have pop: "pop_front True n s = Some (ring d (rb_start s) m, s')"
  proof (cases "rb_start s \<le> rb_end s")
    case True
    then have "m \<le> rb_size s - rb_start s" "rb_start s + m \<le> rb_size s"
      using d m by (auto simp: rb_used_def)
    with True d show ?thesis
      by (auto simp: pop_front_def rb_read_exact ring_straight s'_def st_def m_def rb_used_def u32_simps Let_def)
  next
    case False
    define r where "r = rb_size s - rb_start s"
    have e: "sub32 (rb_size s) (rb_start s) = r"
      using d by (auto simp: r_def u32_simps)
    have us: "add32 (sub32 (rb_end s) (rb_start s)) (rb_size s) = rb_used s"
      using d False by (auto simp: rb_used_def u32_simps)
    have mm: "(if rb_used s > n then n else rb_used s) = m"
      by (simp add: m_def)
    show ?thesis
    proof (cases "m > r")
      case True
      then have "sub32 m r = m - r" "add32 0 (m - r) = m - r" "m - r \<le> rb_size s"
        using m d by (auto simp: u32_simps)
      with True False d m show ?thesis
        by (auto simp: pop_front_def Let_def e us mm rb_read_exact ring_bent s'_def st_def r_def)
    next
      case False2: False
      with False d m have "rb_start s + m \<le> rb_size s"
        by (auto simp: r_def)
      with False2 False d m show ?thesis
        by (auto simp: pop_front_def Let_def e us mm rb_read_exact ring_straight s'_def st_def r_def u32_simps)
    qed
  qed
  have ok: "rb_ok s'" and u: "rb_used s' = rb_used s - m"
    using d m by (auto simp: rb_ok_def s'_def st_def rb_used_def split: if_splits)
  have w: "wrap (length d) (rb_start s + m) = wrap (length d) st"
    using d m by (auto simp: wrap_def st_def rb_used_def split: if_splits)
  have "rb_contents s = ring d (rb_start s) (m + (rb_used s - m))"
    using d(1) m by (simp add: rb_contents_def)
  also have "\<dots> = ring d (rb_start s) m @ ring d (wrap (length d) (rb_start s + m)) (rb_used s - m)"
    using d m by (intro ring_append) auto
  also have "ring d (wrap (length d) (rb_start s + m)) (rb_used s - m) = rb_contents s'"
    using d(1,2) u w ok ring_full_index [of d "rb_used s - m"]
    by (auto simp: rb_contents_def s'_def wrap_def rb_ok_def split: if_splits)
  finally have c: "rb_contents s = ring d (rb_start s) m @ rb_contents s'" .
  have lm: "length (ring d (rb_start s) m) = m"
    using d m by simp
  have "take n (rb_contents s) = ring d (rb_start s) m" "drop n (rb_contents s) = rb_contents s'"
    using length_contents [OF assms] length_contents [OF ok] u lm m_def
    by (auto simp: c min_def split: if_splits)
  with pop ok show ?thesis
    by (simp add: s'_def)
qed

section \<open>The queue contract\<close>

text \<open>
  The two operations in the shape of the contract: a push that is refused accepts no bytes.
\<close>

definition rb_push :: "u8 list \<Rightarrow> ringbuffer \<Rightarrow> (nat \<times> ringbuffer) option" where
  "rb_push xs s =
     (case push_back (Some xs) s of None \<Rightarrow> None
      | Some (ok, s') \<Rightarrow> Some (if ok then length xs else 0, s'))"

definition rb_pop :: "nat \<Rightarrow> ringbuffer \<Rightarrow> (u8 list \<times> ringbuffer) option" where
  "rb_pop n s = pop_front True n s"

definition rb_capacity :: "ringbuffer \<Rightarrow> nat" where
  "rb_capacity s = rb_size s - 1"

lemma rb_push_law:
  assumes "rb_ok s"
  shows "\<exists>n s'. rb_push xs s = Some (n, s') \<and> rb_ok s' \<and> n \<le> length xs \<and>
    rb_contents s' = rb_contents s @ take n xs \<and> rb_capacity s' = rb_capacity s"
proof (cases "xs = [] \<or> rb_size s - 1 - rb_used s < length xs")
  case True
  then have "push_back (Some xs) s = Some (False, s)"
    using push_back_full [OF assms] by (auto simp: push_back_def)
  with assms show ?thesis
    by (simp add: rb_push_def)
next
  case False
  with push_back_contents [OF assms, of xs] show ?thesis
    by (force simp: rb_push_def rb_capacity_def)
qed

interpretation rb: byte_fifo rb_ok rb_contents rb_capacity rb_push rb_pop
proof unfold_locales
  fix s :: ringbuffer and xs :: "u8 list" and n :: nat
  assume ok: "rb_ok s"
  show "\<exists>n s'. rb_push xs s = Some (n, s') \<and> rb_ok s' \<and> n \<le> length xs \<and>
    rb_contents s' = rb_contents s @ take n xs \<and> rb_capacity s' = rb_capacity s"
    using ok by (rule rb_push_law)
  show "\<exists>ys s'. rb_pop n s = Some (ys, s') \<and> rb_ok s' \<and> length ys \<le> n \<and>
    rb_contents s = ys @ rb_contents s' \<and> rb_capacity s' = rb_capacity s"
    using pop_front_contents [OF ok, of n] by (auto simp: rb_pop_def rb_capacity_def)
  show "length (rb_contents s) \<le> rb_capacity s"
    using length_contents [OF ok] rb_used_less [OF ok] by (simp add: rb_capacity_def)
qed

lemma allocate_ok:
  assumes "0 < n" "n < u32_bound" "length mem = n" "allocate (Some mem) n rb_new = Some (b, s)"
  shows "rb_ok s" "rb_contents s = []" "rb_size s = n"
  using assms by (auto simp: allocate_def rb_new_def rb_ok_def rb_contents_def rb_used_def)

section \<open>Properties\<close>

text \<open>
  C34. A freshly allocated ring buffer is a first-in first-out queue of bytes: every history of
  pushes and pops runs without touching memory outside the array, what has been delivered
  followed by what is still stored is exactly what was accepted, and at most \<open>size - 1\<close>
  bytes are outstanding.
\<close>

theorem ringbuffer_fifo:
  assumes "0 < n" "n < u32_bound" "length mem = n"
    and "allocate (Some mem) n rb_new = Some (True, s)"
  shows "\<exists>acc del s'. fifo_run rb_push rb_pop ops s = Some (acc, del, s') \<and> rb_ok s' \<and>
    acc = del @ rb_contents s' \<and> length acc \<le> length del + (n - 1)"
  using rb.run_from_empty [OF allocate_ok(1,2) [OF assms], of ops] allocate_ok(3) [OF assms]
  by (simp add: rb_capacity_def)

theorem ringbuffer_fifo_witness:
  "\<exists>acc del s'. fifo_run rb_push rb_pop [Push [1, 2, 3], Pop 2, Push [4, 5], Pop 9]
     \<lparr>rb_size = 4, rb_data = Some [0, 0, 0, 0], rb_start = 0, rb_end = 0\<rparr> = Some (acc, del, s') \<and>
     rb_ok s' \<and> acc = del @ rb_contents s' \<and> length acc \<le> length del + 3"
proof -
  have "allocate (Some [0, 0, 0, 0]) 4 rb_new =
    Some (True, \<lparr>rb_size = 4, rb_data = Some [0, 0, 0, 0], rb_start = 0, rb_end = 0\<rparr>)"
    by (simp add: allocate_def rb_new_def)
  from ringbuffer_fifo [OF _ _ _ this] show ?thesis
    by (simp add: u32_bound_def del: fifo_run.simps)
qed

text \<open>
  \<open>push_back\<close> is all or nothing: on a well-formed buffer it stores all the bytes when
  they fit in \<open>space_available\<close>, and otherwise changes nothing and returns false.
\<close>

theorem push_back_all_or_nothing:
  assumes "rb_ok s" "xs \<noteq> []"
  shows "if length xs \<le> space_available s
    then \<exists>s'. push_back (Some xs) s = Some (True, s') \<and> rb_ok s' \<and> rb_contents s' = rb_contents s @ xs \<and>
           space_used s' = space_used s + length xs
    else push_back (Some xs) s = Some (False, s)"
proof (cases "length xs \<le> space_available s")
  case True
  then have "length xs \<le> rb_size s - 1 - rb_used s"
    using assms by (simp add: space_available_exact)
  from push_back_contents [OF assms(1,2) this] obtain s' where
    "push_back (Some xs) s = Some (True, s')" "rb_ok s'" "rb_contents s' = rb_contents s @ xs"
    by blast
  with True show ?thesis
    using length_contents [OF \<open>rb_ok s'\<close>] length_contents [OF assms(1)] assms(1)
    by (simp add: space_used_exact)
next
  case False
  with assms show ?thesis
    by (simp add: space_available_exact push_back_full)
qed

theorem push_back_all_or_nothing_witness:
  "if length [7, 8 :: u8] \<le> space_available \<lparr>rb_size = 4, rb_data = Some [0, 0, 0, 0], rb_start = 3, rb_end = 3\<rparr>
   then \<exists>s'. push_back (Some [7, 8]) \<lparr>rb_size = 4, rb_data = Some [0, 0, 0, 0], rb_start = 3, rb_end = 3\<rparr> =
            Some (True, s') \<and> rb_ok s' \<and>
          rb_contents s' = rb_contents \<lparr>rb_size = 4, rb_data = Some [0, 0, 0, 0], rb_start = 3, rb_end = 3\<rparr> @ [7, 8] \<and>
          space_used s' = space_used \<lparr>rb_size = 4, rb_data = Some [0, 0, 0, 0], rb_start = 3, rb_end = 3\<rparr> +
            length [7, 8 :: u8]
   else push_back (Some [7, 8]) \<lparr>rb_size = 4, rb_data = Some [0, 0, 0, 0], rb_start = 3, rb_end = 3\<rparr> =
     Some (False, \<lparr>rb_size = 4, rb_data = Some [0, 0, 0, 0], rb_start = 3, rb_end = 3\<rparr>)"
  by (rule push_back_all_or_nothing) (simp_all add: rb_ok_def u32_bound_def)

text \<open>
  C35. The print task never calls \<open>Init\<close>, so its buffer is used unallocated: the size is 0 and
  both indices are 0, \<open>space_available\<close> then reports \<open>2 ^ 32 - 1\<close> free bytes, the bounds
  check passes, and the first \<open>push_back\<close> of any data writes through the null pointer.
\<close>

theorem push_back_unallocated_faults:
  "(\<forall>xs. xs \<noteq> [] \<and> length xs < u32_bound \<longrightarrow> push_back (Some xs) rb_new = None) \<and>
   space_available rb_new = u32_bound - 1 \<and> print_task_pass rb_new = None"
proof -
  have z: "sub32 0 0 = 0" "sub32 0 (Suc 0) = u32_bound - 1" "add32 (u32_bound - Suc 0) 0 = u32_bound - Suc 0"
    by (auto simp: sub32_def add32_def u32_bound_def)
  have "push_back (Some xs) rb_new = None" if "xs \<noteq> []" "length xs < u32_bound" for xs
    using that by (auto simp: push_back_def rb_new_def rb_write_def Let_def z)
  moreover from this [of "[1, 2, 3]"] have "print_task_pass rb_new = None"
    by (simp add: print_task_pass_def u32_bound_def)
  ultimately show ?thesis
    by (auto simp: space_available_def rb_new_def z)
qed

theorem push_back_unallocated_faults_witness:
  "push_back (Some [1, 2, 3]) rb_new = None"
  using push_back_unallocated_faults by (auto simp: u32_bound_def)

text \<open>
  \<open>deallocate\<close> leaves the two indices as they were, so a buffer that is released while it
  holds data and allocated again with a smaller size reports more used bytes than it has, and
  reading them back leaves the array.
\<close>

theorem reallocation_keeps_stale_indices:
  assumes "rb_ok s" "rb_start s = 0" "0 < n" "n < rb_used s" "length mem = n"
  shows "\<exists>s'. allocate (Some mem) n (deallocate s) = Some (True, s') \<and> space_used s' = rb_used s \<and>
    n < space_used s' \<and> pop_front True (space_used s') s' = None"
proof -
  define s' where "s' = s\<lparr>rb_data := Some mem, rb_size := n\<rparr>"
  have a: "allocate (Some mem) n (deallocate s) = Some (True, s')"
    by (simp add: allocate_def deallocate_def s'_def)
  have e: "rb_used s = rb_end s" "rb_end s < u32_bound"
    using assms by (auto simp: rb_used_def rb_ok_def)
  have u: "space_used s' = rb_end s"
    using assms e by (simp add: space_used_def s'_def sub32_exact)
  have "pop_front True (rb_end s) s' = None"
    using assms e by (auto simp: pop_front_def s'_def rb_read_def mem_read_def sub32_exact Let_def)
  with a u e assms show ?thesis
    by auto
qed

theorem reallocation_keeps_stale_indices_witness:
  "\<exists>s'. allocate (Some [0, 0]) 2
      (deallocate \<lparr>rb_size = 4, rb_data = Some [1, 2, 3, 0], rb_start = 0, rb_end = 3\<rparr>) = Some (True, s') \<and>
    space_used s' = rb_used \<lparr>rb_size = 4, rb_data = Some [1, 2, 3, 0], rb_start = 0, rb_end = 3\<rparr> \<and>
    2 < space_used s' \<and> pop_front True (space_used s') s' = None"
  by (rule reallocation_keeps_stale_indices) (simp_all add: rb_ok_def rb_used_def u32_bound_def)

end
