(* ===== verification/Heap5.thy ===== *)
theory Heap5
  imports Prelude
begin

unbundle bit_operations_syntax

text \<open>
  The kernel's allocator, \<open>portable/MemMang/heap_5.c\<close> (scheme 5, selected in
  \<open>FreeRTOSConfig_Gen.h\<close>), on the two regions that \<open>src/Main/main.cpp\<close> gives it. Block headers
  live in a store from addresses to \<open>BlockLink_t\<close>, the static \<open>xStart\<close> at an address of
  its own, the payload bytes in \<open>ram\<close>. A failed \<open>configASSERT\<close> (which disables interrupts
  and spins) and a walk that never ends are both \<open>None\<close>. \<open>vTaskSuspendAll\<close> and
  \<open>xTaskResumeAll\<close> only make the bodies atomic, so they have no counterpart here. The heap
  protector and clear-on-free are configured off. The second half relates the headers to a list
  of free blocks and proves that allocation and release keep all blocks apart.
\<close>

section \<open>State\<close>

record BlockLink_t =
  pxNextFreeBlock :: nat
  xBlockSize :: nat

record heap =
  mem :: "addr \<Rightarrow> BlockLink_t"
  ram :: "addr \<Rightarrow> u8"
  xStart :: addr
  pxEnd :: addr
  xFreeBytesRemaining :: nat
  xMinimumEverFreeBytesRemaining :: nat
  xNumberOfSuccessfulAllocations :: nat
  xNumberOfSuccessfulFrees :: nat

definition upd_blk :: "addr \<Rightarrow> (BlockLink_t \<Rightarrow> BlockLink_t) \<Rightarrow> heap \<Rightarrow> heap" where
  "upd_blk a f h = h\<lparr>mem := (mem h)(a := f (mem h a))\<rparr>"

abbreviation next_free :: "heap \<Rightarrow> addr \<Rightarrow> addr" where
  "next_free h a \<equiv> pxNextFreeBlock (mem h a)"

abbreviation blk_size :: "heap \<Rightarrow> addr \<Rightarrow> nat" where
  "blk_size h a \<equiv> xBlockSize (mem h a)"

text \<open>The macros; the alignment is 8 and the header takes 8 bytes on this port.\<close>

definition portBYTE_ALIGNMENT :: nat where
  "portBYTE_ALIGNMENT = 8"

definition xHeapStructSize :: nat where
  "xHeapStructSize = 8"

definition heapMINIMUM_BLOCK_SIZE :: nat where
  "heapMINIMUM_BLOCK_SIZE = 16"

definition heapSIZE_MAX :: nat where
  "heapSIZE_MAX = 4294967295"

definition heapMULTIPLY_WILL_OVERFLOW :: "nat \<Rightarrow> nat \<Rightarrow> bool" where
  "heapMULTIPLY_WILL_OVERFLOW a b \<longleftrightarrow> a > 0 \<and> b > heapSIZE_MAX div a"

definition heapADD_WILL_OVERFLOW :: "nat \<Rightarrow> nat \<Rightarrow> bool" where
  "heapADD_WILL_OVERFLOW a b \<longleftrightarrow> a > heapSIZE_MAX - b"

definition heapBLOCK_SIZE_IS_VALID :: "nat \<Rightarrow> bool" where
  "heapBLOCK_SIZE_IS_VALID n \<longleftrightarrow> \<not> bit n 31"

definition heapBLOCK_IS_ALLOCATED :: "heap \<Rightarrow> addr \<Rightarrow> bool" where
  "heapBLOCK_IS_ALLOCATED h a \<longleftrightarrow> bit (blk_size h a) 31"

definition heapALLOCATE_BLOCK :: "addr \<Rightarrow> heap \<Rightarrow> heap" where
  "heapALLOCATE_BLOCK a h = upd_blk a (\<lambda>b. b\<lparr>xBlockSize := set_bit 31 (xBlockSize b)\<rparr>) h"

definition heapFREE_BLOCK :: "addr \<Rightarrow> heap \<Rightarrow> heap" where
  "heapFREE_BLOCK a h = upd_blk a (\<lambda>b. b\<lparr>xBlockSize := unset_bit 31 (xBlockSize b)\<rparr>) h"

definition align_down :: "nat \<Rightarrow> nat" where
  "align_down x = x - x mod portBYTE_ALIGNMENT"

section \<open>Operations\<close>

text \<open>The size computation at the head of \<open>pvPortMalloc\<close>; 0 when it would overflow.\<close>

definition malloc_size :: "nat \<Rightarrow> nat" where
  "malloc_size xWantedSize =
     (if xWantedSize > 0 then
        (if \<not> heapADD_WILL_OVERFLOW xWantedSize xHeapStructSize then
           (let w = add32 xWantedSize xHeapStructSize in
            if w mod portBYTE_ALIGNMENT \<noteq> 0 then
              (let extra = portBYTE_ALIGNMENT - w mod portBYTE_ALIGNMENT in
               if \<not> heapADD_WILL_OVERFLOW w extra then add32 w extra else 0)
            else w)
         else 0)
      else xWantedSize)"

text \<open>The first-fit walk: the block found and its predecessor.\<close>

partial_function (option) find_block :: "heap \<Rightarrow> nat \<Rightarrow> addr \<Rightarrow> addr \<Rightarrow> (addr \<times> addr) option" where
  "find_block h w prev blk =
     (if blk_size h blk < w \<and> next_free h blk \<noteq> 0 then find_block h w blk (next_free h blk)
      else Some (prev, blk))"

text \<open>
  The part of \<open>pvPortMalloc\<close> that takes the block \<open>blk\<close> after \<open>prev\<close> out of the list,
  splits it if it is large enough, and hands it out.
\<close>

definition take_block :: "nat \<Rightarrow> addr \<Rightarrow> addr \<Rightarrow> heap \<Rightarrow> (addr \<times> heap) option" where
  "take_block w prev blk h =
     (let ret = add32 (next_free h prev) xHeapStructSize;
          h = upd_blk prev (\<lambda>b. b\<lparr>pxNextFreeBlock := next_free h blk\<rparr>) h
      in if blk_size h blk < w then None
         else
           let split = (if sub32 (blk_size h blk) w > heapMINIMUM_BLOCK_SIZE then
                 (let new = add32 blk w in
                  if new mod portBYTE_ALIGNMENT \<noteq> 0 then None
                  else
                    let h = upd_blk new (\<lambda>b. b\<lparr>xBlockSize := sub32 (blk_size h blk) w\<rparr>) h;
                        h = upd_blk blk (\<lambda>b. b\<lparr>xBlockSize := w\<rparr>) h;
                        h = upd_blk new (\<lambda>b. b\<lparr>pxNextFreeBlock := next_free h prev\<rparr>) h
                    in Some (upd_blk prev (\<lambda>b. b\<lparr>pxNextFreeBlock := new\<rparr>) h))
               else Some h)
           in case split of None \<Rightarrow> None
              | Some h \<Rightarrow>
                  let h = h\<lparr>xFreeBytesRemaining := sub32 (xFreeBytesRemaining h) (blk_size h blk)\<rparr>;
                      h = (if xFreeBytesRemaining h < xMinimumEverFreeBytesRemaining h
                           then h\<lparr>xMinimumEverFreeBytesRemaining := xFreeBytesRemaining h\<rparr> else h);
                      h = heapALLOCATE_BLOCK blk h;
                      h = upd_blk blk (\<lambda>b. b\<lparr>pxNextFreeBlock := 0\<rparr>) h;
                      h = h\<lparr>xNumberOfSuccessfulAllocations := add32 (xNumberOfSuccessfulAllocations h) 1\<rparr>
                  in if ret mod portBYTE_ALIGNMENT \<noteq> 0 then None else Some (ret, h))"

definition pvPortMalloc :: "nat \<Rightarrow> heap \<Rightarrow> (addr \<times> heap) option" where
  "pvPortMalloc xWantedSize h =
     (if pxEnd h = 0 then None
      else
        let w = malloc_size xWantedSize in
        if heapBLOCK_SIZE_IS_VALID w \<and> w > 0 \<and> w \<le> xFreeBytesRemaining h then
          (case find_block h w (xStart h) (next_free h (xStart h)) of
             None \<Rightarrow> None
           | Some (prev, blk) \<Rightarrow> if blk \<noteq> pxEnd h then take_block w prev blk h else Some (0, h))
        else Some (0, h))"

text \<open>The walk to the insertion point, and the coalescing insertion.\<close>

partial_function (option) find_pos :: "heap \<Rightarrow> addr \<Rightarrow> addr \<Rightarrow> addr option" where
  "find_pos h blk it = (if next_free h it < blk then find_pos h blk (next_free h it) else Some it)"

definition prvInsertBlockIntoFreeList :: "addr \<Rightarrow> heap \<Rightarrow> heap option" where
  "prvInsertBlockIntoFreeList pxBlockToInsert h =
     (case find_pos h pxBlockToInsert (xStart h) of
        None \<Rightarrow> None
      | Some it \<Rightarrow>
          let (blk, h) =
                (if add32 it (blk_size h it) = pxBlockToInsert
                 then (it, upd_blk it (\<lambda>b. b\<lparr>xBlockSize := add32 (xBlockSize b) (blk_size h pxBlockToInsert)\<rparr>) h)
                 else (pxBlockToInsert, h));
              h = (if add32 blk (blk_size h blk) = next_free h it then
                     (if next_free h it \<noteq> pxEnd h then
                        (let h = upd_blk blk (\<lambda>b. b\<lparr>xBlockSize :=
                               add32 (xBlockSize b) (blk_size h (next_free h it))\<rparr>) h
                         in upd_blk blk (\<lambda>b. b\<lparr>pxNextFreeBlock := next_free h (next_free h it)\<rparr>) h)
                      else upd_blk blk (\<lambda>b. b\<lparr>pxNextFreeBlock := pxEnd h\<rparr>) h)
                   else upd_blk blk (\<lambda>b. b\<lparr>pxNextFreeBlock := next_free h it\<rparr>) h)
          in Some (if it \<noteq> blk then upd_blk it (\<lambda>b. b\<lparr>pxNextFreeBlock := blk\<rparr>) h else h))"

definition vPortFree :: "addr \<Rightarrow> heap \<Rightarrow> heap option" where
  "vPortFree pv h =
     (if pv = 0 then Some h
      else
        let link = sub32 pv xHeapStructSize in
        if \<not> heapBLOCK_IS_ALLOCATED h link then None
        else if next_free h link \<noteq> 0 then None
        else
          let h = heapFREE_BLOCK link h;
              h = h\<lparr>xFreeBytesRemaining := add32 (xFreeBytesRemaining h) (blk_size h link)\<rparr>
          in map_option (\<lambda>h. h\<lparr>xNumberOfSuccessfulFrees := add32 (xNumberOfSuccessfulFrees h) 1\<rparr>)
               (prvInsertBlockIntoFreeList link h))"

definition xPortGetFreeHeapSize :: "heap \<Rightarrow> nat" where
  "xPortGetFreeHeapSize h = xFreeBytesRemaining h"

definition xPortGetMinimumEverFreeHeapSize :: "heap \<Rightarrow> nat" where
  "xPortGetMinimumEverFreeHeapSize h = xMinimumEverFreeBytesRemaining h"

definition mem_zero :: "addr \<Rightarrow> nat \<Rightarrow> heap \<Rightarrow> heap" where
  "mem_zero p n h = h\<lparr>ram := (\<lambda>a. if p \<le> a \<and> a < p + n then 0 else ram h a)\<rparr>"

definition pvPortCalloc :: "nat \<Rightarrow> nat \<Rightarrow> heap \<Rightarrow> (addr \<times> heap) option" where
  "pvPortCalloc xNum xSize h =
     (if \<not> heapMULTIPLY_WILL_OVERFLOW xNum xSize then
        (case pvPortMalloc (mul32 xNum xSize) h of
           None \<Rightarrow> None
         | Some (pv, h) \<Rightarrow> Some (pv, if pv \<noteq> 0 then mem_zero pv (mul32 xNum xSize) h else h))
      else Some (0, h))"

text \<open>
  \<open>vPortDefineHeapRegions\<close>: the region table is a list of start addresses and sizes that ends
  with an entry of size 0; running past the end of the array is \<open>None\<close>. The accumulator is
  the number of regions so far and the total size.
\<close>

fun define_regions :: "(addr \<times> nat) list \<Rightarrow> nat \<Rightarrow> nat \<Rightarrow> heap \<Rightarrow> (nat \<times> heap) option" where
  "define_regions [] n sz h = None"
| "define_regions ((start, bytes) # regions) n sz h =
     (if bytes = 0 then Some (sz, h)
      else
        let (xAddress, xTotalRegionSize) =
              (if start mod portBYTE_ALIGNMENT \<noteq> 0 then
                 (let a = align_down (add32 start (portBYTE_ALIGNMENT - 1))
                  in (a, sub32 bytes (sub32 a start)))
               else (start, bytes));
            xAlignedHeap = xAddress
        in if n \<noteq> 0 \<and> (pxEnd h = 0 \<or> \<not> xAddress > pxEnd h) then None
           else
             let h = (if n = 0 then upd_blk (xStart h) (\<lambda>b. \<lparr>pxNextFreeBlock = xAlignedHeap, xBlockSize = 0\<rparr>) h
                      else h);
                 pxPreviousFreeBlock = pxEnd h;
                 xAddress = align_down (sub32 (add32 xAlignedHeap xTotalRegionSize) xHeapStructSize);
                 h = h\<lparr>pxEnd := xAddress\<rparr>;
                 h = upd_blk xAddress (\<lambda>b. \<lparr>pxNextFreeBlock = 0, xBlockSize = 0\<rparr>) h;
                 h = upd_blk xAlignedHeap
                       (\<lambda>b. \<lparr>pxNextFreeBlock = pxEnd h, xBlockSize = sub32 xAddress xAlignedHeap\<rparr>) h;
                 h = (if pxPreviousFreeBlock \<noteq> 0
                      then upd_blk pxPreviousFreeBlock (\<lambda>b. b\<lparr>pxNextFreeBlock := xAlignedHeap\<rparr>) h else h)
             in define_regions regions (n + 1) (add32 sz (blk_size h xAlignedHeap)) h)"

definition vPortDefineHeapRegions :: "(addr \<times> nat) list \<Rightarrow> heap \<Rightarrow> heap option" where
  "vPortDefineHeapRegions pxHeapRegions h =
     (if pxEnd h \<noteq> 0 then None
      else case define_regions pxHeapRegions 0 0 h of
        None \<Rightarrow> None
      | Some (xTotalHeapSize, h) \<Rightarrow>
          if xTotalHeapSize = 0 then None
          else Some (h\<lparr>xMinimumEverFreeBytesRemaining := xTotalHeapSize, xFreeBytesRemaining := xTotalHeapSize\<rparr>))"

text \<open>\<open>vPortGetHeapStats\<close>: number of blocks, largest and smallest size on the free list.\<close>

record HeapStats_t =
  xAvailableHeapSpaceInBytes :: nat
  xSizeOfLargestFreeBlockInBytes :: nat
  xSizeOfSmallestFreeBlockInBytes :: nat
  xNumberOfFreeBlocks :: nat
  hsMinimumEverFreeBytesRemaining :: nat
  hsNumberOfSuccessfulAllocations :: nat
  hsNumberOfSuccessfulFrees :: nat

partial_function (option) stats_walk :: "heap \<Rightarrow> addr \<Rightarrow> nat \<times> nat \<times> nat \<Rightarrow> (nat \<times> nat \<times> nat) option" where
  "stats_walk h blk acc =
     (if blk = pxEnd h then Some acc
      else case acc of (xBlocks, xMaxSize, xMinSize) \<Rightarrow>
        stats_walk h (next_free h blk)
          (add32 xBlocks 1,
           if blk_size h blk > xMaxSize then blk_size h blk else xMaxSize,
           if blk_size h blk \<noteq> 0 \<and> blk_size h blk < xMinSize then blk_size h blk else xMinSize))"

definition vPortGetHeapStats :: "heap \<Rightarrow> HeapStats_t option" where
  "vPortGetHeapStats h =
     map_option (\<lambda>(xBlocks, xMaxSize, xMinSize).
       \<lparr>xAvailableHeapSpaceInBytes = xFreeBytesRemaining h,
        xSizeOfLargestFreeBlockInBytes = xMaxSize, xSizeOfSmallestFreeBlockInBytes = xMinSize,
        xNumberOfFreeBlocks = xBlocks,
        hsMinimumEverFreeBytesRemaining = xMinimumEverFreeBytesRemaining h,
        hsNumberOfSuccessfulAllocations = xNumberOfSuccessfulAllocations h,
        hsNumberOfSuccessfulFrees = xNumberOfSuccessfulFrees h\<rparr>)
       (if next_free h (xStart h) \<noteq> 0 then stats_walk h (next_free h (xStart h)) (0, 0, 4294967295)
        else Some (0, 0, 4294967295))"

definition vPortHeapResetState :: "heap \<Rightarrow> heap" where
  "vPortHeapResetState h = h\<lparr>pxEnd := 0, xFreeBytesRemaining := 0, xMinimumEverFreeBytesRemaining := 0,
     xNumberOfSuccessfulAllocations := 0, xNumberOfSuccessfulFrees := 0\<rparr>"

text \<open>The region table of \<open>src/Main/main.cpp\<close> and \<open>ConfigureHeapRegions\<close>.\<close>

definition xHeapRegions :: "(addr \<times> nat) list" where
  "xHeapRegions = [(0x20200000, 128 * 1024), (0x20220000, 128 * 1024), (0, 0)]"

definition ConfigureHeapRegions :: "heap \<Rightarrow> heap option" where
  "ConfigureHeapRegions h = vPortDefineHeapRegions xHeapRegions h"

section \<open>The free list as a list of blocks\<close>

text \<open>
  \<open>path m p us q\<close>: following the next pointers from \<open>p\<close> visits the blocks \<open>us\<close>, given as
  pairs of address and size, and arrives at \<open>q\<close>.
\<close>

fun path :: "(addr \<Rightarrow> BlockLink_t) \<Rightarrow> addr \<Rightarrow> (addr \<times> nat) list \<Rightarrow> addr \<Rightarrow> bool" where
  "path m p [] q \<longleftrightarrow> p = q"
| "path m p ((a, n) # us) q \<longleftrightarrow>
     p = a \<and> a \<noteq> 0 \<and> xBlockSize (m a) = n \<and> path m (pxNextFreeBlock (m a)) us q"

definition first_addr :: "(addr \<times> nat) list \<Rightarrow> addr \<Rightarrow> addr" where
  "first_addr us q = (case us of [] \<Rightarrow> q | (a, n) # _ \<Rightarrow> a)"

lemma first_addr_simps [simp]: "first_addr [] q = q" "first_addr ((a, n) # us) q = a"
  by (simp_all add: first_addr_def)

lemma path_append:
  "path m p (us @ vs) q \<longleftrightarrow> path m p us (first_addr vs q) \<and> path m (first_addr vs q) vs q"
proof (induction us arbitrary: p)
  case Nil
  show ?case by (cases vs) auto
next
  case (Cons u us)
  then show ?case by (cases u) auto
qed

lemma path_frame: "(\<And>a. a \<in> fst ` set us \<Longrightarrow> m' a = m a) \<Longrightarrow> path m' p us q = path m p us q"
  by (induction us arbitrary: p) auto

lemma path_nonzero: "path m p us q \<Longrightarrow> (a, n) \<in> set us \<Longrightarrow> a \<noteq> 0 \<and> xBlockSize (m a) = n"
  by (induction us arbitrary: p) auto

text \<open>Redirecting the last pointer of a path.\<close>

lemma path_relink:
  assumes "path m p (us @ [(b, k)]) x" "b \<notin> fst ` set us"
  shows "path (m(b := (m b)\<lparr>pxNextFreeBlock := r\<rparr>)) p (us @ [(b, k)]) r"
proof -
  have "path m p us b" "b \<noteq> 0" "xBlockSize (m b) = k"
    using assms(1) by (auto simp: path_append)
  moreover have "path (m(b := (m b)\<lparr>pxNextFreeBlock := r\<rparr>)) p us b = path m p us b"
    using assms(2) by (intro path_frame) auto
  ultimately show ?thesis
    by (simp add: path_append)
qed

section \<open>The invariant\<close>

text \<open>
  \<open>fs\<close> is the free list after \<open>xStart\<close>, with the zero-sized region end markers in it and
  \<open>pxEnd\<close> as its last element; \<open>as\<close> are the blocks handed out. Every block occupies at least
  its header; \<open>before\<close> says that one lies entirely below another.
\<close>

definition before :: "addr \<times> nat \<Rightarrow> addr \<times> nat \<Rightarrow> bool" where
  "before x y \<longleftrightarrow> fst x + max (snd x) 8 \<le> fst y"

definition apart :: "addr \<times> nat \<Rightarrow> addr \<times> nat \<Rightarrow> bool" where
  "apart x y \<longleftrightarrow> before x y \<or> before y x"

definition block_ok :: "addr \<Rightarrow> addr \<times> nat \<Rightarrow> bool" where
  "block_ok xs x \<longleftrightarrow> 0 < fst x \<and> fst x mod 8 = 0 \<and> snd x mod 8 = 0 \<and>
     fst x + max (snd x) 8 < u32_bound \<and> \<not> (fst x \<le> xs \<and> xs < fst x + max (snd x) 8)"

definition sizes :: "(addr \<times> nat) list \<Rightarrow> nat" where
  "sizes us = sum_list (map snd us)"

text \<open>No two free blocks touch, except a block and an end marker.\<close>

definition coalesced :: "(addr \<times> nat) list \<Rightarrow> bool" where
  "coalesced fs \<longleftrightarrow>
     (\<forall>x \<in> set fs. \<forall>y \<in> set fs. fst x + snd x = fst y \<longrightarrow> snd x = 0 \<or> snd y = 0)"

definition layout_ok :: "addr \<Rightarrow> addr \<Rightarrow> (addr \<times> nat) list \<Rightarrow> (addr \<times> nat) list \<Rightarrow> bool" where
  "layout_ok xs e fs as \<longleftrightarrow>
     sorted_wrt before fs \<and> sorted_wrt apart as \<and> (\<forall>x \<in> set fs. \<forall>y \<in> set as. apart x y) \<and>
     (\<forall>x \<in> set fs \<union> set as. block_ok xs x) \<and> (\<forall>x \<in> set as. 16 \<le> snd x \<and> fst x < e) \<and>
     fs \<noteq> [] \<and> last fs = (e, 0) \<and> coalesced fs \<and> sizes fs + sizes as < 2147483648"

definition heap_ok :: "heap \<Rightarrow> (addr \<times> nat) list \<Rightarrow> (addr \<times> nat) list \<Rightarrow> bool" where
  "heap_ok h fs as \<longleftrightarrow>
     xStart h \<noteq> 0 \<and> xStart h < u32_bound \<and> path (mem h) (xStart h) ((xStart h, 0) # fs) 0 \<and>
     layout_ok (xStart h) (pxEnd h) fs as \<and>
     (\<forall>(a, n) \<in> set as. mem h a = \<lparr>pxNextFreeBlock = 0, xBlockSize = n + 2147483648\<rparr>) \<and>
     xFreeBytesRemaining h = sizes fs \<and> xMinimumEverFreeBytesRemaining h \<le> sizes fs"

lemma sizes_simps [simp]:
  "sizes [] = 0" "sizes (x # us) = snd x + sizes us" "sizes (us @ vs) = sizes us + sizes vs"
  by (simp_all add: sizes_def)

lemma sizes_mem: "x \<in> set us \<Longrightarrow> snd x \<le> sizes us"
  by (induction us) auto

lemma apart_sym: "apart x y \<Longrightarrow> apart y x"
  by (auto simp: apart_def)

lemma before_trans: "before x y \<Longrightarrow> before y z \<Longrightarrow> before x z"
  by (auto simp: before_def)

lemma before_irrefl: "\<not> before x x"
  by (auto simp: before_def max_def)

lemma apart_neq: "apart x y \<Longrightarrow> fst x \<noteq> fst y"
  by (auto simp: apart_def before_def max_def split: if_splits)

text \<open>The allocated bit of a size.\<close>

lemma bit31_low: "n < 2147483648 \<Longrightarrow> \<not> bit (n :: nat) 31"
  by (simp add: bit_iff_odd)

lemma set_bit31: "n < 2147483648 \<Longrightarrow> set_bit 31 (n :: nat) = n + 2147483648"
  by (simp add: set_bit_eq bit31_low)

lemma bit31_high: "n < 2147483648 \<Longrightarrow> bit (n + 2147483648 :: nat) 31"
  by (simp add: set_bit31 [symmetric] bit_set_bit_iff)

lemma unset_bit31: "n < 2147483648 \<Longrightarrow> unset_bit 31 (n + 2147483648 :: nat) = n"
  unfolding set_bit31 [symmetric]
  by (rule bit_eqI) (auto simp: bit_unset_bit_iff bit_set_bit_iff bit31_low)

lemmas heap_consts =
  portBYTE_ALIGNMENT_def xHeapStructSize_def heapMINIMUM_BLOCK_SIZE_def heapSIZE_MAX_def

section \<open>Allocation\<close>

lemma layout_take:
  assumes "layout_ok xs e (us @ (a, n) # vs) as" "vs \<noteq> []" "w \<le> n" "16 \<le> w" "w mod 8 = 0"
  defines "fs' \<equiv> us @ (if 16 < n - w then [(a + w, n - w)] else []) @ vs"
    and "k \<equiv> (if 16 < n - w then w else n)"
  shows "layout_ok xs e fs' ((a, k) # as)"
proof -
  define B where "B = (if 16 < n - w then [(a + w, n - w)] else [])"
  have fs: "sorted_wrt before (us @ (a, n) # vs)" and fa: "\<forall>x \<in> set us \<union> {(a, n)} \<union> set vs. \<forall>y \<in> set as. apart x y"
    and bo: "\<forall>x \<in> set us \<union> {(a, n)} \<union> set vs \<union> set as. block_ok xs x"
    and ok: "sorted_wrt apart as" "\<forall>x \<in> set as. 16 \<le> snd x \<and> fst x < e" "last vs = (e, 0)"
    and co: "coalesced (us @ (a, n) # vs)"
    and sz: "sizes us + n + sizes vs + sizes as < 2147483648"
    using assms(1,2) by (auto simp: layout_ok_def)
  have n8: "n mod 8 = 0" "(n - w) mod 8 = 0" "(a + w) mod 8 = 0"
  proof -
    have "a mod 8 = 0" "n mod 8 = 0"
      using bo by (simp_all add: block_ok_def)
    then show "n mod 8 = 0" "(n - w) mod 8 = 0" "(a + w) mod 8 = 0"
      using assms(3,5) by presburger+
  qed
  have inB: "a < b \<and> a \<le> b \<and> a + k \<le> b \<and> b + max m 8 \<le> a + n \<and> b + m = a + n \<and> 16 < m" if "(b, m) \<in> set B" for b m
    using that assms(3,4) by (auto simp: B_def k_def split: if_splits)
  have kn: "16 \<le> k" "k \<le> n" "k mod 8 = 0"
    using assms(3-5) n8 by (auto simp: k_def)
  have uv: "before x y" if "x \<in> set us" "y \<in> set vs" for x y
    using fs that by (auto simp: sorted_wrt_append)
  have ua: "before x (a, n)" if "x \<in> set us" for x
    using fs that by (auto simp: sorted_wrt_append)
  have av: "before (a, n) y" if "y \<in> set vs" for y
    using fs that by (auto simp: sorted_wrt_append)
  have uB: "before x y" if "x \<in> set us" "y \<in> set B" for x y
    using ua [OF that(1)] inB [of "fst y" "snd y"] that(2) by (auto simp: before_def)
  have Bv: "before x y" if "x \<in> set B" "y \<in> set vs" for x y
    using av [OF that(2)] inB [of "fst x" "snd x"] that(1) by (auto simp: before_def)
  have sw: "sorted_wrt before fs'"
    using fs uv uB Bv unfolding fs'_def B_def [symmetric]
    by (auto simp: sorted_wrt_append) (auto simp: B_def)
  have new: "apart x (a, k)" if "x \<in> set us \<union> set B \<union> set vs" for x
  proof -
    have "before x (a, k) \<or> before (a, k) x"
      using that ua [of x] av [of x] inB [of "fst x" "snd x"] kn by (auto simp: before_def)
    then show ?thesis by (simp add: apart_def)
  qed
  have old: "apart (a, k) y \<and> (\<forall>x \<in> set B. apart x y)" if "y \<in> set as" for y
  proof -
    have "apart (a, n) y"
      using fa that by simp
    then show ?thesis
      using kn inB by (fastforce simp: apart_def before_def)
  qed
  have bk: "block_ok xs x" if "x \<in> set B \<union> {(a, k)}" for x
  proof -
    have "block_ok xs (a, n)"
      using bo by simp
    then show ?thesis
      using that kn n8 inB [of "fst x" "snd x"] by (auto simp: block_ok_def B_def split: if_splits)
  qed
  have cc: "coalesced fs'"
    unfolding coalesced_def
  proof (intro ballI impI)
    fix x y
    assume xy: "x \<in> set fs'" "y \<in> set fs'" "fst x + snd x = fst y"
    have c0: "snd x = 0 \<or> snd y = 0" if "x \<in> set (us @ (a, n) # vs)" "y \<in> set (us @ (a, n) # vs)" "fst x + snd x = fst y" for x y
      using co [unfolded coalesced_def, rule_format, OF that] .
    consider "x \<notin> set B" "y \<notin> set B" | "x \<in> set B" "y \<in> set B" | "x \<in> set B" "y \<notin> set B" | "x \<notin> set B" "y \<in> set B"
      by blast
    then show "snd x = 0 \<or> snd y = 0"
    proof cases
      case 1
      with xy show ?thesis by (intro c0) (auto simp: fs'_def B_def split: if_splits)
    next
      case 2
      with xy show ?thesis by (auto simp: B_def split: if_splits)
    next
      case 3
      then have "fst x + snd x = a + n" "y \<in> set us \<or> y \<in> set vs"
        using xy inB [of "fst x" "snd x"] by (auto simp: fs'_def B_def split: if_splits)
      with xy c0 [of "(a, n)" y] kn show ?thesis by auto
    next
      case 4
      then have "x \<in> set us \<or> x \<in> set vs" "a < fst y" "fst y < a + n"
        using xy inB [of "fst y" "snd y"] by (auto simp: fs'_def B_def split: if_splits)
      with xy ua [of x] av [of x] show ?thesis by (auto simp: before_def)
    qed
  qed
  have "a < e"
    using av [of "(e, 0)"] last_in_set [OF assms(2)] ok(3) by (auto simp: before_def)
  moreover have "sizes B + k = n"
    using assms(3) by (auto simp: B_def k_def)
  ultimately show ?thesis
    unfolding layout_ok_def
    using sw ok fa old new bk bo cc sz kn assms(2) apart_sym
    by (auto simp: fs'_def B_def [symmetric] last_append)
qed

text \<open>The first-fit walk finds the first block that is large enough, or the end marker.\<close>

definition last_addr :: "addr \<Rightarrow> (addr \<times> nat) list \<Rightarrow> addr" where
  "last_addr p us = last (p # map fst us)"

lemma last_addr_simps [simp]:
  "last_addr p [] = p" "last_addr p (u # us) = last_addr (fst u) us"
  "last_addr p (us @ [u]) = fst u"
  by (simp_all add: last_addr_def)

lemma path_start_nonzero: "path m p (us @ v # vs) q \<Longrightarrow> p \<noteq> 0"
  by (cases us; cases v; cases "hd us") auto

lemma find_block_hit:
  assumes "path (mem h) p (us @ (a, n) # vs) 0" "\<forall>x \<in> set us. snd x < w" "w \<le> n"
  shows "find_block h w prev p = Some (last_addr prev us, a)"
  using assms
proof (induction us arbitrary: p prev)
  case Nil
  then show ?case by (subst find_block.simps) auto
next
  case (Cons u us)
  obtain b k where u: "u = (b, k)" by (cases u)
  with Cons.prems have "path (mem h) (next_free h b) (us @ (a, n) # vs) 0" "p = b" "blk_size h b < w"
    by auto
  moreover from this have "next_free h b \<noteq> 0"
    by (blast dest: path_start_nonzero)
  ultimately show ?case
    using Cons.IH [of "next_free h b" b] Cons.prems u by (subst find_block.simps) auto
qed

lemma find_block_miss:
  assumes "path (mem h) p (us @ [(e, n)]) 0" "\<forall>x \<in> set us. snd x < w"
  shows "find_block h w prev p = Some (last_addr prev us, e)"
  using assms
proof (induction us arbitrary: p prev)
  case Nil
  then show ?case by (subst find_block.simps) auto
next
  case (Cons u us)
  obtain b k where u: "u = (b, k)" by (cases u)
  with Cons.prems have "path (mem h) (next_free h b) (us @ [(e, n)]) 0" "p = b" "blk_size h b < w"
    by auto
  moreover from this have "next_free h b \<noteq> 0"
    by (blast dest: path_start_nonzero)
  ultimately show ?case
    using Cons.IH [of "next_free h b" b] Cons.prems u by (subst find_block.simps) auto
qed

text \<open>Addresses on the list are distinct, and distinct from \<open>xStart\<close>.\<close>

lemma sorted_before_distinct: "sorted_wrt before us \<Longrightarrow> distinct (map fst us)"
  by (induction us) (auto simp: before_def max_def split: if_splits)

lemma layout_distinct:
  assumes "layout_ok xs e fs as"
  shows "distinct (xs # map fst fs)" "x \<in> set fs \<Longrightarrow> y \<in> set as \<Longrightarrow> fst x \<noteq> fst y"
    "y \<in> set as \<Longrightarrow> fst y \<noteq> xs"
proof -
  have "fst x \<noteq> xs" if "x \<in> set fs \<union> set as" for x
    using assms that by (fastforce simp: layout_ok_def block_ok_def)
  then show "distinct (xs # map fst fs)" "y \<in> set as \<Longrightarrow> fst y \<noteq> xs"
    using assms sorted_before_distinct [of fs] by (auto simp: layout_ok_def)
  show "x \<in> set fs \<Longrightarrow> y \<in> set as \<Longrightarrow> fst x \<noteq> fst y"
    using assms unfolding layout_ok_def by (blast dest: apart_neq)
qed

text \<open>Replacing the part of a path that follows a block.\<close>

lemma path_replace:
  assumes "path m p (us @ ws) 0" "us \<noteq> []" "b = last_addr p0 us"
    and "distinct (map fst us)"
    and "\<And>x. x \<in> fst ` set us \<Longrightarrow> x \<noteq> b \<Longrightarrow> m' x = m x"
    and "xBlockSize (m' b) = xBlockSize (m b)"
    and "path m' (pxNextFreeBlock (m' b)) vs 0"
  shows "path m' p (us @ vs) 0"
proof -
  obtain us0 k where us: "us = us0 @ [(b, k)]"
    using assms(2,3) by (cases us rule: rev_cases) auto
  then have "path m p us0 b" "b \<noteq> 0" "xBlockSize (m b) = k"
    using assms(1) by (auto simp: path_append)
  moreover have "path m' p us0 b = path m p us0 b"
  proof (rule path_frame)
    fix x assume x: "x \<in> fst ` set us0"
    then have "x \<noteq> b" using assms(4) us by auto
    with x us show "m' x = m x" using assms(5) by auto
  qed
  ultimately show ?thesis
    using us assms(6,7) by (simp add: path_append)
qed

lemma last_addr_in: "last_addr p us = p \<and> us = [] \<or> last_addr p us \<in> fst ` set us"
  by (cases us rule: rev_cases) auto

lemma last_addr_size: "path m p (us @ vs) q \<Longrightarrow> us \<noteq> [] \<Longrightarrow> \<exists>k. (last_addr p0 us, k) \<in> set us \<and> xBlockSize (m (last_addr p0 us)) = k"
  by (cases us rule: rev_cases) (auto simp: path_append)

lemma blk_all:
  "(b :: BlockLink_t)\<lparr>xBlockSize := s, pxNextFreeBlock := p\<rparr> = \<lparr>pxNextFreeBlock = p, xBlockSize = s\<rparr>"
  by (cases b) simp

text \<open>Taking a block out of the list, split or whole.\<close>

lemma take_block_ok:
  assumes ok: "heap_ok h (us @ (a, n) # vs) as" and w: "w \<le> n" "16 \<le> w" "w mod 8 = 0"
  defines "fs' \<equiv> us @ (if 16 < n - w then [(a + w, n - w)] else []) @ vs"
    and "k \<equiv> (if 16 < n - w then w else n)"
  shows "\<exists>h'. take_block w (last_addr (xStart h) us) a h = Some (a + 8, h') \<and> heap_ok h' fs' ((a, k) # as) \<and>
    xStart h' = xStart h \<and> pxEnd h' = pxEnd h \<and> ram h' = ram h"
proof -
  define xs where "xs = xStart h"
  define e where "e = pxEnd h"
  define b where "b = last_addr xs us"
  have pt: "path (mem h) xs ((xs, 0) # us @ (a, n) # vs) 0" and xs0: "xs \<noteq> 0" "xs < u32_bound"
    and lay: "layout_ok xs e (us @ (a, n) # vs) as"
    and hd: "\<forall>(a, n) \<in> set as. mem h a = \<lparr>pxNextFreeBlock = 0, xBlockSize = n + 2147483648\<rparr>"
    and fr: "xFreeBytesRemaining h = sizes us + n + sizes vs"
    and mn: "xMinimumEverFreeBytesRemaining h \<le> sizes us + n + sizes vs"
    using ok by (auto simp: heap_ok_def xs_def e_def)
  have vs: "vs \<noteq> []"
    using lay w by (auto simp: layout_ok_def)
  have lay': "layout_ok xs e fs' ((a, k) # as)"
    unfolding fs'_def k_def by (rule layout_take [OF lay vs w])
  have sz: "n < 2147483648" "sizes us + n + sizes vs < 2147483648"
    using lay by (auto simp: layout_ok_def)
  have bk: "a mod 8 = 0" "n mod 8 = 0" "a + n < u32_bound" "0 < a"
    using lay by (auto simp: layout_ok_def block_ok_def)
  have kb: "k < 2147483648" "16 \<le> k" "k \<le> n"
    using sz w by (auto simp: k_def)
  have dist: "distinct (xs # map fst us @ a # map fst vs)"
    using layout_distinct(1) [OF lay] by simp
  have dist': "distinct (xs # map fst fs')" "a \<notin> fst ` set fs'" "a \<noteq> xs"
    using layout_distinct [OF lay'] by fastforce+
  have b: "b \<noteq> a" "b = xs \<and> us = [] \<or> b \<in> fst ` set us"
    using last_addr_in [of xs us] dist by (auto simp: b_def)
  have nb: "next_free h b = a"
    using pt by (cases us rule: rev_cases) (auto simp: b_def path_append)
  have na: "path (mem h) (next_free h a) vs 0" "blk_size h a = n"
    using pt by (auto simp: path_append)
  have as8: "x \<noteq> b \<and> x \<noteq> a \<and> (16 < n - w \<longrightarrow> x \<noteq> a + w)" if "x \<in> fst ` set as" for x
    using that b layout_distinct(2,3) [OF lay'] layout_distinct(2,3) [OF lay]
    by (fastforce simp: fs'_def)
  define r where "r = (if 16 < n - w then a + w else next_free h a)"
  define m' where "m' = (if 16 < n - w then (mem h)(a + w := \<lparr>pxNextFreeBlock = next_free h a, xBlockSize = n - w\<rparr>) else mem h)
    (b := (mem h b)\<lparr>pxNextFreeBlock := r\<rparr>, a := \<lparr>pxNextFreeBlock = 0, xBlockSize = k + 2147483648\<rparr>)"
  define h' where "h' = h\<lparr>mem := m', xFreeBytesRemaining := sizes us + n + sizes vs - k,
    xMinimumEverFreeBytesRemaining := min (xMinimumEverFreeBytesRemaining h) (sizes us + n + sizes vs - k),
    xNumberOfSuccessfulAllocations := add32 (xNumberOfSuccessfulAllocations h) 1\<rparr>"
  have aw: "16 < n - w \<Longrightarrow> a + w \<noteq> b \<and> a + w \<noteq> a"
    using dist' b w by (auto simp: fs'_def)
  have arith: "add32 a 8 = a + 8" "add32 a w = a + w" "sub32 n w = n - w" "(a + w) mod 8 = 0" "(a + 8) mod 8 = 0"
    "sub32 (sizes us + n + sizes vs) k = sizes us + n + sizes vs - k"
    using bk w sz kb by (simp_all add: u32_simps u32_bound_def mod_add_eq [symmetric])
  have run: "take_block w b a h = Some (a + 8, h')"
  proof (cases "16 < n - w")
    case True
    have kk: "k = w" "r = a + w" "sub32 (sizes us + n + sizes vs) w = sizes us + n + sizes vs - w"
      "w < 2147483648" "w \<noteq> 0" "0 < w" "\<not> n < w" "a + w \<noteq> b" "b \<noteq> a + w"
      using True arith(6) kb w aw [OF True] by (simp_all add: k_def r_def)
    show ?thesis
      apply (simp only: take_block_def Let_def heap_consts nb)
      apply (simp add: upd_blk_def heapALLOCATE_BLOCK_def na arith fr b b(1)[symmetric] True bk kk
          set_bit31 blk_all del: One_nat_def)
      apply (intro conjI impI; rule heap.equality; simp add: h'_def m'_def kk True)
      done
  next
    case False
    have kk: "k = n" "r = next_free h a" "sub32 (sizes us + n + sizes vs) n = sizes us + n + sizes vs - n"
      "n < 2147483648" "\<not> n < w"
      using False arith(6) kb w by (simp_all add: k_def r_def)
    show ?thesis
      apply (simp only: take_block_def Let_def heap_consts nb)
      apply (simp add: upd_blk_def heapALLOCATE_BLOCK_def na arith fr b b(1)[symmetric] False bk kk
          set_bit31 blk_all del: One_nat_def)
      apply (intro conjI impI; rule heap.equality; simp add: h'_def m'_def kk False)
      done
  qed
  have tail: "path m' (pxNextFreeBlock (m' b)) ((if 16 < n - w then [(a + w, n - w)] else []) @ vs) 0"
  proof -
    have V: "a \<notin> fst ` set vs" "b \<notin> fst ` set vs" "16 < n - w \<Longrightarrow> a + w \<notin> fst ` set vs"
      using dist dist' b by (auto simp: fs'_def)
    have "m' x = mem h x" if "x \<in> fst ` set vs" for x
    proof -
      have "x \<noteq> a" "x \<noteq> b" "16 < n - w \<Longrightarrow> x \<noteq> a + w"
        using V that by metis+
      then show ?thesis by (simp add: m'_def)
    qed
    then have "path m' (next_free h a) vs 0 = path (mem h) (next_free h a) vs 0"
      by (rule path_frame)
    then show ?thesis
      using na aw w bk b(1) by (auto simp: m'_def r_def)
  qed
  have "path m' xs (((xs, 0) # us) @ ((if 16 < n - w then [(a + w, n - w)] else []) @ vs)) 0"
  proof (rule path_replace [OF _ _ _ _ _ _ tail])
    show "path (mem h) xs (((xs, 0) # us) @ ((a, n) # vs)) 0"
      using pt by simp
    show "b = last_addr 0 ((xs, 0) # us)"
      by (simp add: b_def)
    show "distinct (map fst ((xs, 0) # us))"
      using dist by auto
    show "m' x = mem h x" if "x \<in> fst ` set ((xs, 0) # us)" "x \<noteq> b" for x
    proof -
      have "x \<noteq> a" "16 < n - w \<Longrightarrow> x \<noteq> a + w"
        using that(1) dist dist' by (auto simp: fs'_def)
      with that(2) show ?thesis by (simp add: m'_def)
    qed
  qed (use b in \<open>simp_all add: m'_def\<close>)
  moreover have "\<forall>(x, l) \<in> set ((a, k) # as). m' x = \<lparr>pxNextFreeBlock = 0, xBlockSize = l + 2147483648\<rparr>"
    using hd as8 b aw by (fastforce simp: m'_def)
  moreover have "sizes fs' = sizes us + n + sizes vs - k"
    using w by (auto simp: fs'_def k_def)
  ultimately have "heap_ok h' fs' ((a, k) # as)"
    using lay' xs0 unfolding heap_ok_def by (simp add: h'_def xs_def e_def fs'_def)
  with run show ?thesis
    by (auto simp: h'_def b_def xs_def)
qed

text \<open>
  First fit over the list of free blocks, as a function on that list: the block handed out and
  the list left, split when more than a minimum block would remain.
\<close>

fun first_fit :: "nat \<Rightarrow> (addr \<times> nat) list \<Rightarrow> ((addr \<times> nat) \<times> (addr \<times> nat) list) option" where
  "first_fit w [] = None"
| "first_fit w ((a, n) # fs) =
     (if w \<le> n then
        Some ((a, if 16 < n - w then w else n), (if 16 < n - w then [(a + w, n - w)] else []) @ fs)
      else map_option (\<lambda>(b, fs'). (b, (a, n) # fs')) (first_fit w fs))"

lemma first_fit_None: "first_fit w fs = None \<longleftrightarrow> (\<forall>x \<in> set fs. snd x < w)"
  by (induction w fs rule: first_fit.induct) auto

lemma first_fit_SomeE:
  assumes "first_fit w fs = Some (b, fs')"
  obtains us a n vs where "fs = us @ (a, n) # vs" "\<forall>x \<in> set us. snd x < w" "w \<le> n"
    "b = (a, if 16 < n - w then w else n)" "fs' = us @ (if 16 < n - w then [(a + w, n - w)] else []) @ vs"
  using assms
proof (induction w fs arbitrary: b fs' thesis rule: first_fit.induct)
  case (1 w)
  then show ?case by simp
next
  case (2 w a n fs)
  show ?case
  proof (cases "w \<le> n")
    case True
    with 2 show ?thesis by (intro "2.prems"(1) [of "[]" a n fs]) auto
  next
    case False
    with "2.prems"(2) obtain fs2 where f: "first_fit w fs = Some (b, fs2)" "fs' = (a, n) # fs2"
      by auto
    obtain us a' n' vs where d: "fs = us @ (a', n') # vs" "\<forall>x \<in> set us. snd x < w" "w \<le> n'"
      "b = (a', if 16 < n' - w then w else n')" "fs2 = us @ (if 16 < n' - w then [(a' + w, n' - w)] else []) @ vs"
      using "2.IH" [OF False _ f(1)] by blast
    with False f(2) show ?thesis
      by (intro "2.prems"(1) [of "(a, n) # us" a' n' vs]) auto
  qed
qed

text \<open>The size computation: the request and a header, rounded up to a multiple of 8.\<close>

lemma pos_mod_bound8: "(x :: nat) mod 8 < 8"
  by simp

lemma round_up8: "(x :: nat) mod 8 \<noteq> 0 \<Longrightarrow> x + (8 - x mod 8) = (x + 7) div 8 * 8"
proof -
  assume "x mod 8 \<noteq> 0"
  moreover have "x mod 8 < 8" "8 * (x div 8) + x mod 8 = x"
    by simp_all
  ultimately have "(x + 7) div 8 = x div 8 + 1"
    by (intro div_nat_eqI; simp only: Suc_eq_plus1 distrib_left; linarith)
  then show ?thesis
    using mult_div_mod_eq [of 8 x] pos_mod_bound8 [of x] by linarith
qed

lemma malloc_size_rounds:
  assumes "0 < n" "n \<le> 4294967280"
  shows "malloc_size n = (n + 15) div 8 * 8"
proof -
  have e: "\<not> heapADD_WILL_OVERFLOW n 8" "add32 n 8 = n + 8"
    using assms by (simp_all add: heapADD_WILL_OVERFLOW_def heap_consts u32_simps u32_bound_def)
  show ?thesis
  proof (cases "(n + 8) mod 8 = 0")
    case True
    then have "(n + 15) div 8 * 8 = n + 8" by presburger
    with True e assms show ?thesis by (simp add: malloc_size_def heap_consts)
  next
    case False
    define x where "x = 8 - (n + 8) mod 8"
    have d: "n + 8 + x = (n + 15) div 8 * 8"
      using round_up8 [OF False] by (simp add: x_def)
    then have "n + 8 + x \<le> 4294967295"
      using assms(2) div_times_less_eq_dividend [of "n + 15" 8] by linarith
    then have "\<not> heapADD_WILL_OVERFLOW (n + 8) x" "add32 (n + 8) x = n + 8 + x"
      by (simp_all add: heapADD_WILL_OVERFLOW_def heap_consts u32_simps u32_bound_def)
    moreover have "8 - n mod 8 = x" by (simp add: x_def)
    ultimately show ?thesis
      using False e assms d by (simp add: malloc_size_def heap_consts Let_def)
  qed
qed

lemma malloc_size_zero:
  assumes "n < u32_bound" "n = 0 \<or> 4294967280 < n"
  shows "malloc_size n = 0"
proof (cases "n = 0 \<or> 4294967287 < n")
  case True
  with assms show ?thesis
    by (auto simp: malloc_size_def heapADD_WILL_OVERFLOW_def heap_consts)
next
  case False
  then have lim: "4294967280 < n" "n < 4294967288" using assms by auto
  define r where "r = n - 4294967280"
  have r: "n + 8 = 8 * 536870911 + r" "0 < r" "r < 8"
    using lim by (auto simp: r_def)
  have m: "(n + 8) mod 8 = r"
    unfolding r(1) using r(3) by (simp only: mod_mult_self4 mod_less)
  have "\<not> heapADD_WILL_OVERFLOW n 8" "add32 n 8 = n + 8" "heapADD_WILL_OVERFLOW (n + 8) (8 - r)"
    using lim r by (simp_all add: heapADD_WILL_OVERFLOW_def heap_consts u32_simps u32_bound_def)
  with m r(2) lim show ?thesis
    by (simp add: malloc_size_def heap_consts Let_def)
qed

lemma malloc_size_cases:
  assumes "n < u32_bound"
  obtains "malloc_size n = 0" "n = 0 \<or> 4294967280 < n"
  | "0 < n" "n \<le> 4294967280" "malloc_size n mod 8 = 0" "n + 8 \<le> malloc_size n" "malloc_size n < n + 16" "16 \<le> malloc_size n"
proof (cases "n = 0 \<or> 4294967280 < n")
  case True
  show ?thesis by (rule that(1) [OF malloc_size_zero [OF assms True] True])
next
  case False
  then have "malloc_size n = (n + 15) div 8 * 8" by (intro malloc_size_rounds) auto
  moreover have "(n + 15) div 8 * 8 mod 8 = 0" "n + 8 \<le> (n + 15) div 8 * 8" "(n + 15) div 8 * 8 < n + 16"
    "0 < n \<Longrightarrow> 16 \<le> (n + 15) div 8 * 8"
    by presburger+
  moreover have "0 < n" "n \<le> 4294967280" using False by auto
  ultimately show ?thesis by (intro that(2)) (simp_all only:)
qed

lemma path_last_in: "last us = (e, 0) \<Longrightarrow> us \<noteq> [] \<Longrightarrow> us = butlast us @ [(e, 0)]"
  by (metis append_butlast_last_id)

lemma valid_low: "heapBLOCK_SIZE_IS_VALID w" if "w < 2147483648"
  using bit31_low [OF that] by (simp add: heapBLOCK_SIZE_IS_VALID_def)

text \<open>\<open>pvPortMalloc\<close> is first fit.\<close>

lemma malloc_first_fit:
  assumes ok: "heap_ok h fs as" and n: "n < u32_bound"
  shows "case (if malloc_size n = 0 then None else first_fit (malloc_size n) fs) of
      None \<Rightarrow> pvPortMalloc n h = Some (0, h)
    | Some (b, fs') \<Rightarrow> \<exists>h'. pvPortMalloc n h = Some (fst b + 8, h') \<and> heap_ok h' fs' (b # as) \<and>
        xStart h' = xStart h \<and> pxEnd h' = pxEnd h \<and> ram h' = ram h"
proof -
  define w where "w = malloc_size n"
  have pt: "path (mem h) (next_free h (xStart h)) fs 0" and lay: "layout_ok (xStart h) (pxEnd h) fs as"
    and fr: "xFreeBytesRemaining h = sizes fs"
    using ok by (auto simp: heap_ok_def)
  have fs: "fs = butlast fs @ [(pxEnd h, 0)]" "sizes fs < 2147483648" 
    using lay path_last_in [of fs] by (auto simp: layout_ok_def)
  then have "(pxEnd h, 0) \<in> set fs"
    using lay last_in_set [of fs] by (simp add: layout_ok_def)
  then have e0: "pxEnd h \<noteq> 0"
    using lay unfolding layout_ok_def block_ok_def by (metis UnI1 fst_conv less_irrefl)
  show ?thesis
  proof (cases "w = 0")
    case True
    with fs e0 show ?thesis by (simp add: pvPortMalloc_def w_def [symmetric] Let_def)
  next
    case False
    then have w: "16 \<le> w" "w mod 8 = 0"
      using malloc_size_cases [OF n] unfolding w_def by metis+
    show ?thesis
    proof (cases "first_fit w fs")
      case None
      then have small: "\<forall>x \<in> set fs. snd x < w" by (simp add: first_fit_None)
      have "find_block h w (xStart h) (next_free h (xStart h)) = Some (last_addr (xStart h) (butlast fs), pxEnd h)"
        using pt small fs by (intro find_block_miss [where n = 0]) (auto dest: in_set_butlastD)
      with None False e0 show ?thesis
        by (simp add: pvPortMalloc_def w_def [symmetric] Let_def)
    next
      case (Some r)
      obtain b fs' where r: "r = (b, fs')" by (cases r)
      obtain us a k vs where d: "fs = us @ (a, k) # vs" "\<forall>x \<in> set us. snd x < w" "w \<le> k"
        "b = (a, if 16 < k - w then w else k)" "fs' = us @ (if 16 < k - w then [(a + w, k - w)] else []) @ vs"
        using Some r by (blast elim: first_fit_SomeE)
      have f: "find_block h w (xStart h) (next_free h (xStart h)) = Some (last_addr (xStart h) us, a)"
        using pt d by (intro find_block_hit) auto
      have wl: "w \<le> sizes fs" "w < 2147483648"
        using d fs by auto
      have "a \<noteq> pxEnd h"
      proof -
        have "vs \<noteq> []" using lay d w by (auto simp: layout_ok_def)
        then have "(pxEnd h, 0) \<in> set vs"
          using lay d(1) last_in_set [of vs] by (auto simp: layout_ok_def)
        then have "pxEnd h \<in> fst ` set vs"
          by (rule image_eqI [rotated]) simp
        then show ?thesis
          using layout_distinct(1) [OF lay] d(1) by auto
      qed
      with f wl fr w e0 have "pvPortMalloc n h = take_block w (last_addr (xStart h) us) a h"
        by (simp add: pvPortMalloc_def w_def [symmetric] Let_def valid_low)
      with take_block_ok [of h us a k vs as w] ok w d Some r False show ?thesis
        by (simp add: w_def [symmetric])
    qed
  qed
qed

end
