(* ===== verification/Heap5Free.thy ===== *)
theory Heap5Free
  imports Heap5
begin

text \<open>
  Releasing memory: \<open>vPortFree\<close> and the coalescing insertion of \<open>heap_5.c\<close> refine an insertion
  into the list of free blocks, the region set-up establishes the invariant, and the properties
  of the whole allocator follow.
\<close>

section \<open>Release\<close>

text \<open>
  Coalescing insertion on the list of free blocks: the block is joined with the one that ends
  where it starts, then with the one that starts where it ends, unless that is the last entry
  (\<open>pxEnd\<close>). A region end marker is absorbed like a block of size 0.
\<close>

fun merge_right :: "addr \<times> nat \<Rightarrow> (addr \<times> nat) list \<Rightarrow> (addr \<times> nat) list" where
  "merge_right (c, l) ((b, k) # v # vs) = (if c + l = b then (c, l + k) # v # vs else (c, l) # (b, k) # v # vs)"
| "merge_right x vs = x # vs"

fun insert_free :: "addr \<times> nat \<Rightarrow> (addr \<times> nat) list \<Rightarrow> (addr \<times> nat) list" where
  "insert_free x [] = [x]"
| "insert_free (a, n) ((b, k) # fs) =
     (if b + k = a then merge_right (b, k + n) fs
      else if a < b then merge_right (a, n) ((b, k) # fs)
      else (b, k) # insert_free (a, n) fs)"

lemma insert_free_split:
  assumes "\<forall>x \<in> set us. fst x < a \<and> fst x + snd x \<noteq> a" "\<forall>x \<in> set vs. a < fst x"
  shows "insert_free (a, n) (us @ vs) = us @ merge_right (a, n) vs"
  using assms
proof (induction us)
  case Nil
  then show ?case by (cases vs; cases "hd vs") auto
qed auto

lemma insert_free_join:
  assumes "\<forall>x \<in> set us. fst x < a \<and> fst x + snd x \<noteq> a" "b + k = a"
  shows "insert_free (a, n) (us @ (b, k) # vs) = us @ merge_right (b, k + n) vs"
  using assms by (induction us) auto

lemma sizes_merge_right: "sizes (merge_right x vs) = snd x + sizes vs"
  by (induction x vs rule: merge_right.induct) auto

lemma sizes_insert_free: "sizes (insert_free x fs) = snd x + sizes fs"
  by (induction x fs rule: insert_free.induct) (auto simp: sizes_merge_right)

lemma apart_remove1:
  "sorted_wrt apart as \<Longrightarrow> x \<in> set as \<Longrightarrow> y \<in> set (remove1 x as) \<Longrightarrow> apart x y"
  by (induction as) (auto intro: apart_sym split: if_splits)

lemma sorted_apart_remove1: "sorted_wrt apart as \<Longrightarrow> sorted_wrt apart (remove1 x as)"
  by (induction as) (auto dest: in_set_remove1 [THEN iffD1, rotated] notin_set_remove1 set_remove1_subset [THEN subsetD])

lemma sizes_remove1: "x \<in> set as \<Longrightarrow> sizes as = snd x + sizes (remove1 x as)"
  by (induction as) auto

definition layout_pre :: "addr \<Rightarrow> addr \<Rightarrow> (addr \<times> nat) list \<Rightarrow> (addr \<times> nat) list \<Rightarrow> bool" where
  "layout_pre xs e fs as \<longleftrightarrow>
     sorted_wrt before fs \<and> sorted_wrt apart as \<and> (\<forall>x \<in> set fs. \<forall>y \<in> set as. apart x y) \<and>
     (\<forall>x \<in> set fs \<union> set as. block_ok xs x) \<and> (\<forall>x \<in> set as. 16 \<le> snd x \<and> fst x < e) \<and>
     fs \<noteq> [] \<and> last fs = (e, 0) \<and> sizes fs + sizes as < 2147483648"

lemma layout_ok_pre: "layout_ok xs e fs as \<longleftrightarrow> layout_pre xs e fs as \<and> coalesced fs"
  by (auto simp: layout_ok_def layout_pre_def)

lemma layout_pre_insert:
  assumes "layout_pre xs e (us @ vs) as" "(a, n) \<in> set as" "vs \<noteq> []"
    and "\<forall>x \<in> set us. fst x < a" "\<forall>x \<in> set vs. a < fst x"
  shows "layout_pre xs e (us @ (a, n) # vs) (remove1 (a, n) as)"
proof -
  have ap: "apart x (a, n)" if "x \<in> set us \<union> set vs" for x
    using assms(1,2) that by (auto simp: layout_pre_def)
  have "before x (a, n)" if "x \<in> set us" for x
    using ap [of x] assms(4) that by (auto simp: apart_def before_def)
  moreover have "before (a, n) x" if "x \<in> set vs" for x
    using ap [of x] assms(5) that by (auto simp: apart_def before_def)
  moreover have "\<forall>x \<in> set (remove1 (a, n) as). x \<in> set as \<and> apart (a, n) x"
    using assms(1,2) apart_remove1 [of as "(a, n)"] set_remove1_subset by (fastforce simp: layout_pre_def)
  ultimately show ?thesis
    using assms(1-3) sorted_apart_remove1 [of as "(a, n)"] sizes_remove1 [of "(a, n)" as]
    unfolding layout_pre_def by (auto simp: sorted_wrt_append)
qed

lemma layout_pre_join:
  assumes "layout_pre xs e (us @ (b, k) # (b + k, m) # vs) as" "vs \<noteq> []"
  shows "layout_pre xs e (us @ (b, k + m) # vs) as"
proof -
  have k: "8 \<le> k"
    using assms(1) by (auto simp: layout_pre_def sorted_wrt_append before_def max_def split: if_splits)
  have u: "before x (b, k + m)" if "x \<in> set us" for x
    using assms(1) that by (auto simp: layout_pre_def sorted_wrt_append before_def)
  have v: "before (b, k + m) x" if "x \<in> set vs" for x
    using assms(1) that k by (auto simp: layout_pre_def sorted_wrt_append before_def)
  have bk: "block_ok xs (b, k)" "block_ok xs (b + k, m)"
    using assms(1) by (auto simp: layout_pre_def)
  have kk: "(k + m) mod 8 = 0"
    using bk by (auto simp: block_ok_def)
  have "block_ok xs (b, k + m)"
    using bk k kk by (auto simp: block_ok_def)
  moreover have "apart (b, k + m) y" if "y \<in> set as" for y
  proof -
    have "apart (b, k) y" "apart (b + k, m) y" "16 \<le> snd y"
      using assms(1) that by (auto simp: layout_pre_def)
    then show ?thesis
      using k by (auto simp: apart_def before_def)
  qed
  ultimately show ?thesis
    using assms u v unfolding layout_pre_def by (auto simp: sorted_wrt_append)
qed

lemma coalesced_mid:
  assumes srt: "sorted_wrt before (us @ (c, l) # vs)"
    and old: "coalesced (us @ vs)"
    and left: "\<And>x. x \<in> set us \<Longrightarrow> fst x + snd x = c \<Longrightarrow> snd x = 0"
    and right: "\<And>y. y \<in> set vs \<Longrightarrow> c + l = fst y \<Longrightarrow> snd y = 0"
  shows "coalesced (us @ (c, l) # vs)"
  unfolding coalesced_def
proof (intro ballI impI)
  fix x y
  assume xy: "x \<in> set (us @ (c, l) # vs)" "y \<in> set (us @ (c, l) # vs)" "fst x + snd x = fst y"
  have b: "fst z < c" if "z \<in> set us" for z
    using srt that by (auto simp: sorted_wrt_append before_def)
  have a: "c < fst z" if "z \<in> set vs" for z
    using srt that by (auto simp: sorted_wrt_append before_def)
  consider "x \<in> set (us @ vs)" "y \<in> set (us @ vs)" | "x = (c, l)" | "y = (c, l)" "x \<in> set (us @ vs)"
    using xy by auto
  then show "snd x = 0 \<or> snd y = 0"
  proof cases
    case 1
    show ?thesis
      using old [unfolded coalesced_def, rule_format, OF 1 xy(3)] .
  next
    case 2
    with xy show ?thesis using right [of y] b [of y] by auto
  next
    case 3
    with xy show ?thesis using left [of x] a [of x] by auto
  qed
qed

lemma layout_position:
  assumes lay: "layout_ok xs e fs as" and mem: "(a, n) \<in> set as"
  obtains us vs where "fs = us @ vs" "vs \<noteq> []" "\<forall>x \<in> set us. fst x < a" "\<forall>x \<in> set vs. a < fst x"
    "(\<forall>x \<in> set us. fst x + snd x \<noteq> a) \<or>
     (\<exists>us0 b k. us = us0 @ [(b, k)] \<and> b + k = a \<and> (\<forall>x \<in> set us0. fst x + snd x \<noteq> a))"
proof -
  define us where "us = takeWhile (\<lambda>x. fst x < a) fs"
  define vs where "vs = dropWhile (\<lambda>x. fst x < a) fs"
  have fs: "fs = us @ vs" by (simp add: us_def vs_def)
  have srt: "sorted_wrt before (us @ vs)" and ne: "fst x \<noteq> a" if "x \<in> set fs" for x
    using lay mem layout_distinct(2) [OF lay that mem] fs by (auto simp: layout_ok_def)
  have "(e, 0) \<in> set fs" "a < e"
    using lay mem last_in_set [of fs] by (auto simp: layout_ok_def)
  then have vs: "vs \<noteq> []"
    unfolding vs_def dropWhile_eq_Nil_conv by fastforce
  moreover have us: "\<forall>x \<in> set us. fst x < a"
    by (auto simp: us_def dest: set_takeWhileD)
  moreover have "a < fst x" if "x \<in> set vs" for x
  proof -
    have "\<not> fst (hd vs) < a"
      using hd_dropWhile [of "\<lambda>x. fst x < a" fs] vs by (simp add: vs_def)
    then have "a < fst (hd vs)"
      using ne [of "hd vs"] vs fs by fastforce
    moreover have "fst (hd vs) \<le> fst x"
      using lay fs vs that by (cases vs) (auto simp: layout_ok_def sorted_wrt_append before_def)
    ultimately show ?thesis by simp
  qed
  moreover have "(\<forall>x \<in> set us. fst x + snd x \<noteq> a) \<or>
     (\<exists>us0 b k. us = us0 @ [(b, k)] \<and> b + k = a \<and> (\<forall>x \<in> set us0. fst x + snd x \<noteq> a))"
  proof (cases us rule: rev_cases)
    case (snoc us0 u)
    have "fst x + snd x \<noteq> a" if "x \<in> set us0" for x
    proof -
      have "before x u" using lay fs snoc that by (auto simp: layout_ok_def sorted_wrt_append)
      then show ?thesis using us snoc by (auto simp: before_def)
    qed
    with snoc show ?thesis by (cases u) auto
  qed simp
  ultimately show ?thesis using that fs by blast
qed

lemma layout_merge_right:
  assumes pre: "layout_pre xs e (us @ (c, l) # vs) as" and vs: "vs \<noteq> []"
    and old: "coalesced (us @ vs)"
    and left: "\<And>x. x \<in> set us \<Longrightarrow> fst x + snd x = c \<Longrightarrow> snd x = 0"
  shows "layout_ok xs e (us @ merge_right (c, l) vs) as"
proof -
  have srt: "sorted_wrt before (us @ (c, l) # vs)" and lst: "last vs = (e, 0)"
    using pre vs by (auto simp: layout_pre_def)
  show ?thesis
  proof (cases "\<exists>m v ws. vs = (c + l, m) # v # ws")
    case True
    then obtain m v ws where v: "vs = (c + l, m) # v # ws" by blast
    have "layout_pre xs e (us @ (c, l + m) # v # ws) as"
      using layout_pre_join [of xs e us c l m "v # ws" as] pre v by simp
    moreover from this have "coalesced (us @ (c, l + m) # v # ws)"
    proof (intro coalesced_mid)
      show "sorted_wrt before (us @ (c, l + m) # v # ws)"
        using \<open>layout_pre xs e (us @ (c, l + m) # v # ws) as\<close> by (simp add: layout_pre_def)
      show "coalesced (us @ v # ws)"
        using old v by (auto simp: coalesced_def)
      show "snd y = 0" if "y \<in> set (v # ws)" "c + (l + m) = fst y" for y
      proof -
        have "m = 0 \<or> snd y = 0"
          using old [unfolded coalesced_def, rule_format, of "(c + l, m)" y] that v by (auto simp: add.assoc)
        moreover have "before (c + l, m) y"
          using srt v that(1) by (auto simp: sorted_wrt_append)
        ultimately show ?thesis using that(2) by (auto simp: before_def)
      qed
    qed (use left in auto)
    ultimately show ?thesis
      using v by (cases v) (simp add: layout_ok_pre)
  next
    case False
    then have "merge_right (c, l) vs = (c, l) # vs"
      by (cases vs; cases "tl vs"; cases "hd vs") auto
    moreover have "coalesced (us @ (c, l) # vs)"
    proof (rule coalesced_mid [OF srt old left])
      show "snd y = 0" if "y \<in> set vs" "c + l = fst y" for y
      proof (cases vs)
        case (Cons v ws)
        show ?thesis
        proof (cases "y = v")
          case True
          with False Cons that have "ws = []" by (cases ws; cases v) auto
          with True lst Cons show ?thesis by simp
        next
          case False
          then have "before v y" "before (c, l) v"
            using srt Cons that by (auto simp: sorted_wrt_append)
          with that show ?thesis by (auto simp: before_def)
        qed
      qed (use that in simp)
    qed
    ultimately show ?thesis
      using pre by (simp add: layout_ok_pre)
  qed
qed

lemma layout_free:
  assumes lay: "layout_ok xs e fs as" and mem: "(a, n) \<in> set as"
  shows "layout_ok xs e (insert_free (a, n) fs) (remove1 (a, n) as)"
proof -
  obtain us vs where d: "fs = us @ vs" "vs \<noteq> []" "\<forall>x \<in> set us. fst x < a" "\<forall>x \<in> set vs. a < fst x"
    and t: "(\<forall>x \<in> set us. fst x + snd x \<noteq> a) \<or>
     (\<exists>us0 b k. us = us0 @ [(b, k)] \<and> b + k = a \<and> (\<forall>x \<in> set us0. fst x + snd x \<noteq> a))"
    by (rule layout_position [OF lay mem])
  have pre: "layout_pre xs e (us @ (a, n) # vs) (remove1 (a, n) as)"
    using layout_pre_insert lay mem d by (simp add: layout_ok_pre)
  have co: "coalesced (us @ vs)"
    using lay d by (simp add: layout_ok_pre)
  from t show ?thesis
  proof
    assume no: "\<forall>x \<in> set us. fst x + snd x \<noteq> a"
    then have "insert_free (a, n) fs = us @ merge_right (a, n) vs"
      using d by (simp add: insert_free_split)
    with layout_merge_right [OF pre d(2) co] no show ?thesis by simp
  next
    assume "\<exists>us0 b k. us = us0 @ [(b, k)] \<and> b + k = a \<and> (\<forall>x \<in> set us0. fst x + snd x \<noteq> a)"
    then obtain us0 b k where u: "us = us0 @ [(b, k)]" "b + k = a" "\<forall>x \<in> set us0. fst x + snd x \<noteq> a"
      by blast
    have "insert_free (a, n) fs = us0 @ merge_right (b, k + n) vs"
      using d u by (simp add: insert_free_join)
    moreover have "layout_ok xs e (us0 @ merge_right (b, k + n) vs) (remove1 (a, n) as)"
    proof (rule layout_merge_right)
      show "layout_pre xs e (us0 @ (b, k + n) # vs) (remove1 (a, n) as)"
        using layout_pre_join [of xs e us0 b k n vs] pre u d(2) by simp
      show "coalesced (us0 @ vs)"
        using co u by (auto simp: coalesced_def)
      show "snd x = 0" if "x \<in> set us0" "fst x + snd x = b" for x
      proof -
        have "snd x = 0 \<or> k = 0"
          using co [unfolded coalesced_def, rule_format, of x "(b, k)"] that u by simp
        moreover have "before (b, k) (a, n)"
          using pre u by (auto simp: layout_pre_def sorted_wrt_append)
        ultimately show ?thesis using u(2) by (auto simp: before_def)
      qed
    qed (rule d(2))
    ultimately show ?thesis by simp
  qed
qed

lemma find_pos_ok:
  assumes "path (mem h) (next_free h it) (us @ v # vs) 0" "\<forall>x \<in> set us. fst x < blk" "\<not> fst v < blk"
  shows "find_pos h blk it = Some (last_addr it us)"
  using assms
proof (induction us arbitrary: it)
  case Nil
  then show ?case by (subst find_pos.simps) (cases v; auto)
next
  case (Cons u us)
  then have "next_free h it = fst u" "path (mem h) (next_free h (fst u)) (us @ v # vs) 0" "fst u < blk"
    by (cases u; auto)+
  then show ?case
    using Cons.IH [of "fst u"] Cons.prems by (subst find_pos.simps) auto
qed

text \<open>The second half of the insertion: joining with the next block.\<close>

lemma merge_right_path:
  assumes "path m v0 vs 0" "vs \<noteq> []" "fst (last vs) = e" "distinct (map fst vs)"
  shows "\<exists>ws. merge_right (c, l) vs =
      (c, if c + l = v0 \<and> v0 \<noteq> e then l + xBlockSize (m v0) else l) # ws \<and>
    path m (if c + l = v0 \<and> v0 \<noteq> e then pxNextFreeBlock (m v0) else v0) ws 0 \<and> set ws \<subseteq> set vs"
proof -
  obtain v k vs1 where vs: "vs = (v, k) # vs1"
    using assms(2) by (cases vs) auto
  show ?thesis
  proof (cases vs1)
    case Nil
    with vs assms show ?thesis by auto
  next
    case (Cons v' vs2)
    then have "e \<in> fst ` set vs1"
      using assms(3) vs by auto
    then have "v \<noteq> e"
      using assms(4) vs by auto
    with vs Cons assms(1) show ?thesis by auto
  qed
qed

lemma distinct_image_off:
  "distinct (map fst (us @ vs)) \<Longrightarrow> x \<in> fst ` set us \<Longrightarrow> x \<notin> fst ` set vs"
  by auto

lemma blk_norm:
  "(b :: BlockLink_t)\<lparr>pxNextFreeBlock := p\<rparr> = \<lparr>pxNextFreeBlock = p, xBlockSize = xBlockSize b\<rparr>"
  "(b :: BlockLink_t)\<lparr>xBlockSize := s\<rparr> = \<lparr>pxNextFreeBlock = pxNextFreeBlock b, xBlockSize = s\<rparr>"
  by (cases b; simp)+

lemma insert_refines:
  assumes pt: "path (mem h) xs ((xs, 0) # us @ vs) 0" and xs: "xStart h = xs"
    and dist: "distinct (xs # map fst (us @ vs))" and a: "a \<noteq> xs" "a \<notin> fst ` set (us @ vs)" "a \<noteq> 0"
    and vs: "vs \<noteq> []" "fst (last vs) = pxEnd h"
    and pos: "\<forall>x \<in> set us. fst x < a" "\<forall>x \<in> set vs. a < fst x"
    and n: "blk_size h a = n"
    and small: "xs < u32_bound" "a + n < u32_bound" "sizes us + n + sizes vs < u32_bound" "\<forall>x \<in> set us. fst x + snd x < u32_bound"
    and t: "(\<forall>x \<in> set us. fst x + snd x \<noteq> a) \<or>
     (\<exists>us0 b k. us = us0 @ [(b, k)] \<and> b + k = a \<and> (\<forall>x \<in> set us0. fst x + snd x \<noteq> a))"
  shows "\<exists>m'. prvInsertBlockIntoFreeList a h = Some (h\<lparr>mem := m'\<rparr>) \<and>
    path m' xs ((xs, 0) # insert_free (a, n) (us @ vs)) 0 \<and>
    (\<forall>x. x \<notin> fst ` set ((xs, 0) # us) \<and> x \<noteq> a \<longrightarrow> m' x = mem h x) \<and> xBlockSize (m' a) \<le> n + sizes vs"
proof -
  define it where "it = last_addr xs us"
  obtain v k0 vs1 where v: "vs = (v, k0) # vs1"
    using vs(1) by (cases vs) auto
  have find: "find_pos h a (xStart h) = Some it"
    using pt pos xs v find_pos_ok [of h xs us "(v, k0)" vs1 a] by (auto simp: it_def)
  have itv: "next_free h it = v" and ptv: "path (mem h) v vs 0" "v \<noteq> 0" "blk_size h v = k0"
    using pt v unfolding it_def by (cases us rule: rev_cases; auto simp: path_append)+
  have itin: "it \<in> fst ` set ((xs, 0) # us)"
    using last_addr_in [of xs us] by (auto simp: it_def)
  have off: "it \<notin> fst ` set vs" "a \<notin> fst ` set vs" "it \<noteq> a"
    using itin dist a by (auto simp: image_Un dest: distinct_image_off)
  have dvs: "distinct (map fst vs)" using dist by simp
  define J where "J = (\<lambda>c l. c + l = v \<and> v \<noteq> pxEnd h)"
  define L where "L = (\<lambda>c l. if J c l then l + k0 else l)"
  define Q where "Q = (\<lambda>c l. if J c l then next_free h v else v)"
  have mr: "\<exists>ws. merge_right (c, l) vs = (c, L c l) # ws \<and> path (mem h) (Q c l) ws 0 \<and> set ws \<subseteq> set vs" for c l
    using merge_right_path [OF ptv(1) vs dvs, of c l] unfolding L_def Q_def J_def ptv(3) .
  have vs8: "n + k0 < u32_bound" "k0 + (n + x) < u32_bound" if "x \<le> sizes us" for x
    using small(3) v that by auto
  from t show ?thesis
  proof
    assume no: "\<forall>x \<in> set us. fst x + snd x \<noteq> a"
    have apart: "add32 it (blk_size h it) \<noteq> a"
    proof (cases us rule: rev_cases)
      case Nil
      with pt a small show ?thesis by (simp add: it_def u32_simps)
    next
      case (snoc us0 u)
      then have "blk_size h it = snd u" "it = fst u" "fst u + snd u < u32_bound"
        using pt small by (cases u; auto simp: it_def path_append)+
      with no snoc show ?thesis by (simp add: u32_simps)
    qed
    define m' where "m' = (mem h)(a := \<lparr>pxNextFreeBlock = Q a n, xBlockSize = L a n\<rparr>, it := (mem h it)\<lparr>pxNextFreeBlock := a\<rparr>)"
    have run: "prvInsertBlockIntoFreeList a h = Some (h\<lparr>mem := m'\<rparr>)"
      using find apart itv n ptv small off off(3) [symmetric] vs8 [of 0]
      apply (simp add: prvInsertBlockIntoFreeList_def Let_def upd_blk_def u32_simps)
      apply (auto simp: m'_def J_def L_def Q_def u32_simps blk_norm)
      done
    obtain ws where ws: "merge_right (a, n) vs = (a, L a n) # ws" "path (mem h) (Q a n) ws 0" "set ws \<subseteq> set vs"
      using mr by blast
    have frame: "m' x = mem h x" if "x \<notin> fst ` set ((xs, 0) # us)" "x \<noteq> a" for x
      using that itin by (auto simp: m'_def)
    have "x \<notin> fst ` set ((xs, 0) # us) \<and> x \<noteq> a" if "x \<in> fst ` set vs" for x
      using that dist off(2) by (auto simp: image_Un)
    then have "path m' (Q a n) ws 0"
      using ws(2,3) frame path_frame [of ws m' "mem h" "Q a n" 0] by blast
    then have rest: "path m' (pxNextFreeBlock (m' it)) (merge_right (a, n) vs) 0"
      using ws(1) off a by (simp add: m'_def)
    have "path m' xs (((xs, 0) # us) @ merge_right (a, n) vs) 0"
    proof (rule path_replace [OF _ _ _ _ _ _ rest])
      show "path (mem h) xs (((xs, 0) # us) @ vs) 0" using pt by simp
      show "it = last_addr 0 ((xs, 0) # us)" by (simp add: it_def)
      show "distinct (map fst ((xs, 0) # us))" using dist by auto
      show "m' x = mem h x" if "x \<in> fst ` set ((xs, 0) # us)" "x \<noteq> it" for x
        using that a by (auto simp: m'_def image_Un)
    qed (use off in \<open>simp_all add: m'_def\<close>)
    moreover have "insert_free (a, n) (us @ vs) = us @ merge_right (a, n) vs"
      using no pos by (intro insert_free_split) auto
    moreover have "xBlockSize (m' a) \<le> n + sizes vs"
      using off v by (simp add: m'_def L_def)
    ultimately show ?thesis
      using run frame by auto
  next
    assume "\<exists>us0 b k. us = us0 @ [(b, k)] \<and> b + k = a \<and> (\<forall>x \<in> set us0. fst x + snd x \<noteq> a)"
    then obtain us0 b k where u: "us = us0 @ [(b, k)]" "b + k = a" "\<forall>x \<in> set us0. fst x + snd x \<noteq> a"
      by blast
    have itb: "it = b" "blk_size h b = k" "b \<noteq> 0"
      using u(1) pt by (auto simp: it_def path_append)
    have fit: "add32 b k = a" "add32 k n = k + n" "add32 b (k + n) = b + k + n" "k + n + k0 < u32_bound"
      using u small v by (simp_all add: u32_simps)
    define m' where "m' = (mem h)(b := \<lparr>pxNextFreeBlock = Q b (k + n), xBlockSize = L b (k + n)\<rparr>)"
    have ne: "v \<noteq> b" using off(1) itb v by auto
    have run: "prvInsertBlockIntoFreeList a h = Some (h\<lparr>mem := m'\<rparr>)"
      using find itb itv n ptv fit ne
      apply (simp add: prvInsertBlockIntoFreeList_def Let_def upd_blk_def u32_simps)
      apply (auto simp: m'_def J_def L_def Q_def u32_simps blk_norm add.assoc)
      done
    obtain ws where ws: "merge_right (b, k + n) vs = (b, L b (k + n)) # ws" "path (mem h) (Q b (k + n)) ws 0" "set ws \<subseteq> set vs"
      using mr by blast
    have frame: "m' x = mem h x" if "x \<noteq> b" for x
      using that by (simp add: m'_def)
    have "x \<noteq> b" if "x \<in> fst ` set vs" for x
      using that off(1) itb by auto
    then have "path m' (Q b (k + n)) ws 0"
      using ws(2,3) frame path_frame [of ws m' "mem h" "Q b (k + n)" 0] by blast
    then have mid: "path m' b (merge_right (b, k + n) vs) 0"
      using ws(1) itb(3) by (simp add: m'_def)
    have nb: "b \<notin> fst ` set ((xs, 0) # us0)"
      using dist u(1) by auto
    have "path m' xs (((xs, 0) # us0) @ merge_right (b, k + n) vs) 0"
    proof (rule path_replace)
      show "path (mem h) xs (((xs, 0) # us0) @ (b, k) # vs) 0" using pt u(1) by simp
      show "distinct (map fst ((xs, 0) # us0))" using dist u(1) by auto
      show "last_addr xs us0 = last_addr 0 ((xs, 0) # us0)" by simp
      have lb: "last_addr xs us0 \<noteq> b"
        using nb last_addr_in [of xs us0] by auto
      have "next_free h (last_addr xs us0) = b"
        using pt u(1) by (cases us0 rule: rev_cases; auto simp: path_append)
      with mid lb show "path m' (pxNextFreeBlock (m' (last_addr xs us0))) (merge_right (b, k + n) vs) 0"
        by (simp add: frame)
      show "xBlockSize (m' (last_addr xs us0)) = xBlockSize (mem h (last_addr xs us0))"
        using lb by (simp add: frame)
      show "m' x = mem h x" if "x \<in> fst ` set ((xs, 0) # us0)" for x
        using that nb by (intro frame) blast
    qed simp
    moreover have "insert_free (a, n) (us @ vs) = us0 @ merge_right (b, k + n) vs"
      using u pos by (simp add: insert_free_join)
    moreover have "xBlockSize (m' a) \<le> n + sizes vs"
      using off(3) itb n by (simp add: frame)
    ultimately show ?thesis
      using run frame u(1) by auto
  qed
qed

text \<open>
  \<open>vPortFree\<close> of a block that was handed out: it becomes free, joined with its neighbours, and the
  free count grows by its size.
\<close>

lemma free_refines:
  assumes ok: "heap_ok h fs as" and mem: "(a, n) \<in> set as"
  shows "\<exists>h'. vPortFree (a + 8) h = Some h' \<and> heap_ok h' (insert_free (a, n) fs) (remove1 (a, n) as) \<and>
    xStart h' = xStart h \<and> pxEnd h' = pxEnd h \<and> ram h' = ram h \<and> \<not> heapBLOCK_IS_ALLOCATED h' a"
proof -
  define h1 where "h1 = h\<lparr>mem := (mem h)(a := \<lparr>pxNextFreeBlock = 0, xBlockSize = n\<rparr>),
    xFreeBytesRemaining := sizes fs + n\<rparr>"
  have pt: "path (mem h) (xStart h) ((xStart h, 0) # fs) 0" and lay: "layout_ok (xStart h) (pxEnd h) fs as"
    and hd: "\<forall>(a, n) \<in> set as. mem h a = \<lparr>pxNextFreeBlock = 0, xBlockSize = n + 2147483648\<rparr>"
    and fr: "xFreeBytesRemaining h = sizes fs" "xMinimumEverFreeBytesRemaining h \<le> sizes fs"
    and xs: "xStart h \<noteq> 0" "xStart h < u32_bound"
    using ok by (auto simp: heap_ok_def)
  have ma: "mem h a = \<lparr>pxNextFreeBlock = 0, xBlockSize = n + 2147483648\<rparr>"
    using hd mem by auto
  have "block_ok (xStart h) (a, n)" "16 \<le> n"
    using lay mem unfolding layout_ok_def by auto
  then have bk: "0 < a" "a + n < u32_bound" "16 \<le> n"
    by (auto simp: block_ok_def)
  have sz: "sizes fs + n < 2147483648" "n < 2147483648"
    using lay sizes_remove1 [OF mem] by (auto simp: layout_ok_def)
  obtain us vs where d: "fs = us @ vs" "vs \<noteq> []" "\<forall>x \<in> set us. fst x < a" "\<forall>x \<in> set vs. a < fst x"
    and t: "(\<forall>x \<in> set us. fst x + snd x \<noteq> a) \<or>
     (\<exists>us0 b k. us = us0 @ [(b, k)] \<and> b + k = a \<and> (\<forall>x \<in> set us0. fst x + snd x \<noteq> a))"
    by (rule layout_position [OF lay mem])
  have dist: "distinct (xStart h # map fst fs)" and off: "a \<notin> fst ` set fs" "a \<noteq> xStart h"
    using layout_distinct [OF lay] mem by fastforce+
  have "path (mem h1) (xStart h) ((xStart h, 0) # fs) 0 = path (mem h) (xStart h) ((xStart h, 0) # fs) 0"
    using off by (intro path_frame) (auto simp: h1_def)
  then have pt1: "path (mem h1) (xStart h) ((xStart h, 0) # us @ vs) 0"
    using pt d by simp
  have "\<exists>m'. prvInsertBlockIntoFreeList a h1 = Some (h1\<lparr>mem := m'\<rparr>) \<and>
    path m' (xStart h) ((xStart h, 0) # insert_free (a, n) (us @ vs)) 0 \<and>
    (\<forall>x. x \<notin> fst ` set ((xStart h, 0) # us) \<and> x \<noteq> a \<longrightarrow> m' x = mem h1 x) \<and> xBlockSize (m' a) \<le> n + sizes vs"
  proof (rule insert_refines [OF pt1])
    show "\<forall>x \<in> set us. fst x + snd x < u32_bound"
      using lay d(1) unfolding layout_ok_def block_ok_def by (auto dest!: bspec)
    show "fst (last vs) = pxEnd h1"
      using lay d by (simp add: layout_ok_def h1_def)
    show "sizes us + n + sizes vs < u32_bound"
      using sz d by (simp add: u32_bound_def)
  qed (use dist off d t bk xs in \<open>simp_all add: h1_def\<close>)
  then obtain m' where m': "prvInsertBlockIntoFreeList a h1 = Some (h1\<lparr>mem := m'\<rparr>)"
    "path m' (xStart h) ((xStart h, 0) # insert_free (a, n) fs) 0"
    "\<And>x. x \<notin> fst ` set ((xStart h, 0) # us) \<Longrightarrow> x \<noteq> a \<Longrightarrow> m' x = mem h1 x" "xBlockSize (m' a) \<le> n + sizes vs"
    using d(1) by blast
  define h' where "h' = h1\<lparr>mem := m', xNumberOfSuccessfulFrees := add32 (xNumberOfSuccessfulFrees h) 1\<rparr>"
  have arith: "sub32 (a + 8) 8 = a" "add32 (sizes fs) n = sizes fs + n"
    using bk sz by (simp_all add: u32_simps u32_bound_def)
  have "heapFREE_BLOCK a h\<lparr>xFreeBytesRemaining := add32 (sizes fs) n\<rparr> = h1"
    using ma sz arith by (simp add: heapFREE_BLOCK_def upd_blk_def h1_def unset_bit31 blk_norm)
  then have "vPortFree (a + 8) h = Some h'"
    using bk ma sz fr m'(1) arith unset_bit31 [OF sz(2)] bit31_high [OF sz(2)]
    by (simp add: vPortFree_def Let_def heap_consts heapBLOCK_IS_ALLOCATED_def heapFREE_BLOCK_def upd_blk_def h'_def h1_def blk_norm
      del: One_nat_def)
  moreover have "heap_ok h' (insert_free (a, n) fs) (remove1 (a, n) as)"
  proof -
    have "m' x = \<lparr>pxNextFreeBlock = 0, xBlockSize = k + 2147483648\<rparr>" if "(x, k) \<in> set (remove1 (a, n) as)" for x k
    proof -
      have xk: "(x, k) \<in> set as"
        using that set_remove1_subset by fast
      have "apart (a, n) (x, k)"
        using lay mem that by (intro apart_remove1 [of as]) (auto simp: layout_ok_def)
      then have "x \<noteq> a" using apart_neq by fastforce
      moreover have "x \<noteq> xStart h" "x \<notin> fst ` set us"
        using layout_distinct(2,3) [OF lay] xk d(1) by fastforce+
      ultimately show ?thesis
        using m'(3) [of x] hd xk by (auto simp: h1_def)
    qed
    then show ?thesis
      using m'(2) layout_free [OF lay mem] xs fr
      by (auto simp: heap_ok_def h'_def h1_def sizes_insert_free)
  qed
  moreover have "\<not> heapBLOCK_IS_ALLOCATED h' a"
    using m'(4) sz d(1) by (auto simp: heapBLOCK_IS_ALLOCATED_def h'_def intro!: bit31_low)
  ultimately show ?thesis
    by (auto simp: h'_def h1_def)
qed

section \<open>The regions of the application\<close>

definition boot_free :: "(addr \<times> nat) list" where
  "boot_free = [(0x20200000, 131064), (0x2021FFF8, 0), (0x20220000, 131064), (0x2023FFF8, 0)]"

lemma ConfigureHeapRegions_ok:
  assumes "pxEnd h = 0" "xStart h \<noteq> 0" "xStart h < u32_bound" "xStart h < 0x20200000 \<or> 0x20240000 \<le> xStart h"
  shows "\<exists>h'. ConfigureHeapRegions h = Some h' \<and> heap_ok h' boot_free [] \<and> xStart h' = xStart h \<and> ram h' = ram h"
proof -
  define s where "s = xStart h"
  have s: "s \<noteq> 538968064" "s \<noteq> 539099128" "s \<noteq> 539099136" "s \<noteq> 539230200"
    using assms(4) by (auto simp: s_def)
  define h' where "h' = h\<lparr>mem := (mem h)(s := \<lparr>pxNextFreeBlock = 538968064, xBlockSize = 0\<rparr>,
     538968064 := \<lparr>pxNextFreeBlock = 539099128, xBlockSize = 131064\<rparr>,
     539230200 := \<lparr>pxNextFreeBlock = 0, xBlockSize = 0\<rparr>,
     539099136 := \<lparr>pxNextFreeBlock = 539230200, xBlockSize = 131064\<rparr>,
     539099128 := \<lparr>pxNextFreeBlock = 539099136, xBlockSize = 0\<rparr>),
     pxEnd := 539230200, xMinimumEverFreeBytesRemaining := 262128, xFreeBytesRemaining := 262128\<rparr>"
  define h1 where "h1 = h\<lparr>pxEnd := 539099128, mem := (mem h)(s := \<lparr>pxNextFreeBlock = 538968064, xBlockSize = 0\<rparr>,
     539099128 := \<lparr>pxNextFreeBlock = 0, xBlockSize = 0\<rparr>,
     538968064 := \<lparr>pxNextFreeBlock = 539099128, xBlockSize = 131064\<rparr>)\<rparr>"
  have num: "(538968064 :: nat) mod portBYTE_ALIGNMENT = 0" "(539099136 :: nat) mod portBYTE_ALIGNMENT = 0"
    "align_down (sub32 (add32 538968064 131072) xHeapStructSize) = 539099128" "sub32 539099128 538968064 = 131064"
    "align_down (sub32 (add32 539099136 131072) xHeapStructSize) = 539230200" "sub32 539230200 539099136 = 131064"
    "add32 0 131064 = 131064" "add32 131064 131064 = 262128"
    by (simp_all add: heap_consts align_down_def add32_def sub32_def u32_bound_def)
  have one: "define_regions ((538968064, 131072) # rs) 0 0 h = define_regions rs 1 131064 h1" for rs
    using assms(1) s
    by (simp add: num Let_def s_def [symmetric] h1_def upd_blk_def del: One_nat_def)
  have two: "define_regions [(539099136, 131072), (0, 0)] 1 131064 h1 =
    Some (262128, h'\<lparr>xMinimumEverFreeBytesRemaining := xMinimumEverFreeBytesRemaining h,
      xFreeBytesRemaining := xFreeBytesRemaining h\<rparr>)"
    using s
    by (simp add: num Let_def upd_blk_def h1_def h'_def blk_norm fun_upd_twist del: One_nat_def)
  have "ConfigureHeapRegions h = Some h'"
    using assms(1) one two
    by (simp add: ConfigureHeapRegions_def vPortDefineHeapRegions_def xHeapRegions_def h'_def del: define_regions.simps)
  moreover have "heap_ok h' boot_free []"
  proof -
    have "block_ok s x" if "x \<in> set boot_free" for x
      using that assms(4) by (auto simp: boot_free_def block_ok_def u32_bound_def s_def)
    moreover have "sorted_wrt before boot_free"
      by (simp add: boot_free_def before_def)
    moreover have "coalesced boot_free"
      by (simp add: boot_free_def coalesced_def)
    ultimately have "layout_ok s 539230200 boot_free []"
      by (simp add: layout_ok_def boot_free_def)
    then show ?thesis
      using s assms by (simp add: heap_ok_def h'_def s_def boot_free_def)
  qed
  ultimately show ?thesis by (auto simp: h'_def)
qed

section \<open>The allocator as its clients see it\<close>

text \<open>
  The contract: live allocations are given by the start and the usable length of their payload.
  A request yields a fresh aligned payload or 0 and no change; a release of a live payload
  succeeds; payloads overlap neither each other nor the 8 bytes before one, where its header is.
  \<open>alloc_run\<close> is a client history; it records every live pointer with the size that was asked for.
\<close>

datatype alloc_op = Alloc nat | Release nat

fun alloc_run :: "(nat \<Rightarrow> 's \<Rightarrow> (addr \<times> 's) option) \<Rightarrow> (addr \<Rightarrow> 's \<Rightarrow> 's option) \<Rightarrow>
    alloc_op list \<Rightarrow> (addr \<times> nat) list \<Rightarrow> 's \<Rightarrow> ((addr \<times> nat) list \<times> 's) option" where
  "alloc_run alloc release [] live s = Some (live, s)"
| "alloc_run alloc release (Alloc n # ops) live s =
     (case alloc n s of None \<Rightarrow> None
      | Some (p, s) \<Rightarrow> alloc_run alloc release ops (if p = 0 then live else (p, n) # live) s)"
| "alloc_run alloc release (Release i # ops) live s =
     (if i < length live
      then (case release (fst (live ! i)) s of None \<Rightarrow> None
            | Some s \<Rightarrow> alloc_run alloc release ops (take i live @ drop (Suc i) live) s)
      else alloc_run alloc release ops live s)"

definition extents_apart :: "(addr \<times> nat) list \<Rightarrow> bool" where
  "extents_apart es \<longleftrightarrow>
     sorted_wrt (\<lambda>x y. fst x + snd x + 8 \<le> fst y \<or> fst y + snd y + 8 \<le> fst x) es"

text \<open>What was asked for fits into what is handed out.\<close>

definition fits_in :: "(addr \<times> nat) list \<Rightarrow> (addr \<times> nat) list \<Rightarrow> bool" where
  "fits_in = list_all2 (\<lambda>x y. fst x = fst y \<and> snd x \<le> snd y)"

lemma fits_in_apart:
  assumes "fits_in live es" "extents_apart es"
  shows "extents_apart live"
  using assms unfolding fits_in_def
proof (induction rule: list_all2_induct)
  case (Cons x xs y ys)
  have "fst x + snd x + 8 \<le> fst z \<or> fst z + snd z + 8 \<le> fst x" if z: "z \<in> set xs" for z
  proof -
    obtain i where i: "i < length xs" "xs ! i = z"
      using z by (auto simp: in_set_conv_nth)
    define u where "u = ys ! i"
    have "u \<in> set ys" "fst z = fst u" "snd z \<le> snd u"
      using list_all2_nthD [OF Cons.hyps(2) i(1)] list_all2_lengthD [OF Cons.hyps(2)] i by (simp_all add: u_def)
    moreover from this have "fst y + snd y + 8 \<le> fst u \<or> fst u + snd u + 8 \<le> fst y"
      using Cons.prems by (simp add: extents_apart_def)
    ultimately show ?thesis
      using Cons.hyps(1) by linarith
  qed
  with Cons show ?case
    by (simp add: extents_apart_def)
qed (simp add: extents_apart_def)

lemma fits_in_pointers: "fits_in live es \<Longrightarrow> map fst live = map fst es"
  unfolding fits_in_def by (induction rule: list_all2_induct) simp_all

locale allocator =
  fixes inv :: "'s \<Rightarrow> (addr \<times> nat) list \<Rightarrow> bool"
    and room :: "'s \<Rightarrow> nat"
    and alloc :: "nat \<Rightarrow> 's \<Rightarrow> (addr \<times> 's) option"
    and release :: "addr \<Rightarrow> 's \<Rightarrow> 's option"
  assumes alloc_law: "inv s es \<Longrightarrow> n < u32_bound \<Longrightarrow>
      alloc n s = Some (0, s) \<or>
      (\<exists>p k s'. alloc n s = Some (p, s') \<and> p \<noteq> 0 \<and> n \<le> k \<and> inv s' ((p, k) # es) \<and> room s = room s' + k + 8)"
    and release_law: "inv s es \<Longrightarrow> (p, k) \<in> set es \<Longrightarrow>
      \<exists>s'. release p s = Some s' \<and> inv s' (remove1 (p, k) es) \<and> room s' = room s + k + 8"
    and apart_law: "inv s es \<Longrightarrow> extents_apart es \<and> distinct (map fst es) \<and> (\<forall>x \<in> set es. fst x mod 8 = 0)"
begin

definition footprint :: "(addr \<times> nat) list \<Rightarrow> nat" where
  "footprint es = sum_list (map (\<lambda>x. snd x + 8) es)"

lemma footprint_remove1: "x \<in> set es \<Longrightarrow> footprint es = snd x + 8 + footprint (remove1 x es)"
  by (induction es) (auto simp: footprint_def)

lemma drop_nth_remove1:
  "distinct (map fst es) \<Longrightarrow> i < length es \<Longrightarrow> remove1 (es ! i) es = take i es @ drop (Suc i) es"
proof (induction es arbitrary: i)
  case (Cons x es)
  show ?case
  proof (cases i)
    case (Suc j)
    then have "es ! j \<in> set es"
      using Cons.prems(2) by simp
    then have "es ! j \<noteq> x"
      using Cons.prems(1) by force
    with Cons Suc show ?thesis by simp
  qed simp
qed simp

lemma run_total:
  assumes "inv s es" "fits_in live es" "\<forall>n. Alloc n \<in> set ops \<longrightarrow> n < u32_bound"
  shows "\<exists>live' es' s'. alloc_run alloc release ops live s = Some (live', s') \<and> inv s' es' \<and> fits_in live' es' \<and>
    room s' + footprint es' = room s + footprint es"
  using assms
proof (induction ops arbitrary: s es live)
  case Nil
  then show ?case by auto
next
  case (Cons op ops)
  have ops: "\<forall>n. Alloc n \<in> set ops \<longrightarrow> n < u32_bound" using Cons.prems(3) by simp
  show ?case
  proof (cases op)
    case (Alloc n)
    with Cons.prems(3) have n: "n < u32_bound" by simp
    from alloc_law [OF Cons.prems(1) n] show ?thesis
    proof
      assume "alloc n s = Some (0, s)"
      with Cons.IH [OF Cons.prems(1,2) ops] Alloc show ?thesis by simp
    next
      assume "\<exists>p k s'. alloc n s = Some (p, s') \<and> p \<noteq> 0 \<and> n \<le> k \<and> inv s' ((p, k) # es) \<and> room s = room s' + k + 8"
      then obtain p k s1 where a: "alloc n s = Some (p, s1)" "p \<noteq> 0" "n \<le> k" "inv s1 ((p, k) # es)" "room s = room s1 + k + 8"
        by blast
      have "fits_in ((p, n) # live) ((p, k) # es)"
        using Cons.prems(2) a(3) by (simp add: fits_in_def)
      then obtain live' es' s' where i: "alloc_run alloc release ops ((p, n) # live) s1 = Some (live', s')"
        "inv s' es'" "fits_in live' es'" "room s' + footprint es' = room s1 + footprint ((p, k) # es)"
        using Cons.IH [OF a(4) _ ops] by blast
      with a Alloc show ?thesis
        by (intro exI [of _ live'] exI [of _ es'] exI [of _ s']) (simp add: footprint_def)
    qed
  next
    case (Release i)
    have len: "length live = length es"
      using Cons.prems(2) by (auto simp: fits_in_def dest: list_all2_lengthD)
    show ?thesis
    proof (cases "i < length es")
      case True
      obtain p k where pk: "es ! i = (p, k)" by (cases "es ! i")
      then have mem: "(p, k) \<in> set es" using True nth_mem by metis
      obtain s1 where r: "release p s = Some s1" "inv s1 (remove1 (p, k) es)" "room s1 = room s + k + 8"
        using release_law [OF Cons.prems(1) mem] by blast
      have p: "fst (live ! i) = p"
        using list_all2_nthD [OF Cons.prems(2) [unfolded fits_in_def], of i] True len pk by simp
      have "remove1 (p, k) es = take i es @ drop (Suc i) es"
        using drop_nth_remove1 [OF _ True] apart_law [OF Cons.prems(1)] by (simp add: pk)
      then have "fits_in (take i live @ drop (Suc i) live) (remove1 (p, k) es)"
        using Cons.prems(2) unfolding fits_in_def by (auto intro!: list_all2_appendI list_all2_takeI list_all2_dropI)
      then obtain live' es' s' where "alloc_run alloc release ops (take i live @ drop (Suc i) live) s1 = Some (live', s')"
        "inv s' es'" "fits_in live' es'" "room s' + footprint es' = room s1 + footprint (remove1 (p, k) es)"
        using Cons.IH [OF r(2) _ ops] by blast
      with r True len p Release footprint_remove1 [OF mem] show ?thesis
        by (intro exI [of _ live'] exI [of _ es'] exI [of _ s']) simp
    next
      case False
      with Cons.IH [OF Cons.prems(1,2) ops] Release len show ?thesis by simp
    qed
  qed
qed

text \<open>
  From an empty allocator, no history fails; whatever is live is aligned, as large as was asked for
  and apart, and the room left and the footprint of the live payloads add up to the room at the start.
\<close>

lemma run_from_empty:
  assumes "inv s []" "\<forall>n. Alloc n \<in> set ops \<longrightarrow> n < u32_bound"
  shows "\<exists>live es s'. alloc_run alloc release ops [] s = Some (live, s') \<and> inv s' es \<and> fits_in live es \<and>
    extents_apart live \<and> (\<forall>x \<in> set live. fst x mod 8 = 0) \<and> room s' + sum_list (map (\<lambda>x. snd x + 8) es) = room s"
proof -
  obtain live es s' where r: "alloc_run alloc release ops [] s = Some (live, s')" "inv s' es" "fits_in live es"
    "room s' + footprint es = room s"
    using run_total [OF assms(1) _ assms(2), of "[]"] by (auto simp: fits_in_def footprint_def)
  have "\<forall>p \<in> set (map fst es). p mod 8 = 0"
    using apart_law [OF r(2)] by simp
  then have "\<forall>p \<in> set (map fst live). p mod 8 = 0"
    by (simp add: fits_in_pointers [OF r(3)])
  with r fits_in_apart [OF r(3)] apart_law [OF r(2)] show ?thesis
    by (auto simp: footprint_def)
qed

end

section \<open>The allocator on the model\<close>

definition live_extents :: "(addr \<times> nat) list \<Rightarrow> (addr \<times> nat) list" where
  "live_extents as = map (\<lambda>(a, k). (a + 8, k - 8)) as"

definition heap_live :: "heap \<Rightarrow> (addr \<times> nat) list \<Rightarrow> bool" where
  "heap_live h es \<longleftrightarrow> (\<exists>fs as. heap_ok h fs as \<and> es = live_extents as)"

lemma live_extents_remove1:
  assumes "\<forall>x \<in> set as. 16 \<le> snd x" "(a, k) \<in> set as"
  shows "live_extents (remove1 (a, k) as) = remove1 (a + 8, k - 8) (live_extents as)"
  using assms by (induction as) (auto simp: live_extents_def split: if_splits)

lemma layout_live_apart:
  assumes "layout_ok xs e fs as"
  shows "extents_apart (live_extents as)" "distinct (map fst (live_extents as))"
    "\<forall>x \<in> set (live_extents as). fst x mod 8 = 0"
proof -
  have s: "sorted_wrt apart as" "\<forall>x \<in> set as. 16 \<le> snd x \<and> block_ok xs x"
    using assms by (auto simp: layout_ok_def)
  then show "extents_apart (live_extents as)"
    by (induction as) (fastforce simp: extents_apart_def live_extents_def apart_def before_def)+
  from s show "distinct (map fst (live_extents as))"
    by (induction as) (fastforce simp: live_extents_def dest: apart_neq)+
  from s show "\<forall>x \<in> set (live_extents as). fst x mod 8 = 0"
    by (auto simp: live_extents_def block_ok_def mod_add_eq [symmetric])
qed

lemma first_fit_sizes: "first_fit w fs = Some (b, fs') \<Longrightarrow> sizes fs = sizes fs' + snd b \<and> w \<le> snd b"
  by (elim first_fit_SomeE) auto

interpretation hp: allocator heap_live xPortGetFreeHeapSize pvPortMalloc vPortFree
proof unfold_locales
  fix h es n
  assume "heap_live h es" and n: "n < u32_bound"
  then obtain fs as where ok: "heap_ok h fs as" and es: "es = live_extents as"
    by (auto simp: heap_live_def)
  show "pvPortMalloc n h = Some (0, h) \<or>
    (\<exists>p k h'. pvPortMalloc n h = Some (p, h') \<and> p \<noteq> 0 \<and> n \<le> k \<and> heap_live h' ((p, k) # es) \<and>
      xPortGetFreeHeapSize h = xPortGetFreeHeapSize h' + k + 8)"
  proof (cases "if malloc_size n = 0 then None else first_fit (malloc_size n) fs")
    case None
    with malloc_first_fit [OF ok n] show ?thesis by simp
  next
    case (Some r)
    obtain a k fs' where r: "r = ((a, k), fs')" by (cases r) auto
    obtain h' where h': "pvPortMalloc n h = Some (a + 8, h')" "heap_ok h' fs' ((a, k) # as)"
      using malloc_first_fit [OF ok n] Some r by auto
    have "malloc_size n \<noteq> 0" "first_fit (malloc_size n) fs = Some ((a, k), fs')"
      using Some r by (auto split: if_splits)
    moreover from this have "n + 8 \<le> malloc_size n"
      using malloc_size_cases [OF n] by metis
    ultimately have "n + 8 \<le> k" "sizes fs = sizes fs' + k"
      using first_fit_sizes by fastforce+
    moreover have "heap_live h' ((a + 8, k - 8) # es)"
      using h'(2) es unfolding heap_live_def
      by (intro exI [of _ fs'] exI [of _ "(a, k) # as"]) (simp add: live_extents_def)
    moreover have "xPortGetFreeHeapSize h = sizes fs" "xPortGetFreeHeapSize h' = sizes fs'"
      using ok h'(2) by (simp_all add: xPortGetFreeHeapSize_def heap_ok_def)
    ultimately show ?thesis
      using h'(1) by (intro disjI2 exI [of _ "a + 8"] exI [of _ "k - 8"] exI [of _ h']) simp
  qed
next
  fix h es p k
  assume "heap_live h es" and mem: "(p, k) \<in> set es"
  then obtain fs as where ok: "heap_ok h fs as" and es: "es = live_extents as"
    by (auto simp: heap_live_def)
  then obtain a m where am: "(a, m) \<in> set as" "p = a + 8" "k = m - 8"
    using mem by (auto simp: live_extents_def)
  have big: "\<forall>x \<in> set as. 16 \<le> snd x"
    using ok by (auto simp: heap_ok_def layout_ok_def)
  obtain h' where h': "vPortFree (a + 8) h = Some h'" "heap_ok h' (insert_free (a, m) fs) (remove1 (a, m) as)"
    using free_refines [OF ok am(1)] by blast
  have "heap_live h' (remove1 (p, k) es)"
    using h'(2) live_extents_remove1 [OF big am(1)] am es unfolding heap_live_def by metis
  moreover have "xPortGetFreeHeapSize h' = xPortGetFreeHeapSize h + k + 8"
    using h'(2) ok am big by (auto simp: heap_ok_def xPortGetFreeHeapSize_def sizes_insert_free)
  ultimately show "\<exists>h'. vPortFree p h = Some h' \<and> heap_live h' (remove1 (p, k) es) \<and>
      xPortGetFreeHeapSize h' = xPortGetFreeHeapSize h + k + 8"
    using h'(1) am(2) by blast
next
  fix h es
  assume "heap_live h es"
  then obtain fs as where lay: "layout_ok (xStart h) (pxEnd h) fs as" and es: "es = live_extents as"
    by (auto simp: heap_live_def heap_ok_def)
  show "extents_apart es \<and> distinct (map fst es) \<and> (\<forall>x \<in> set es. fst x mod 8 = 0)"
    using layout_live_apart [OF lay] es by blast
qed

section \<open>Properties\<close>

lemma malloc_result:
  assumes "heap_ok h fs as" "n < u32_bound"
  shows "\<exists>p h'. pvPortMalloc n h = Some (p, h') \<and> ram h' = ram h \<and> (p = 0 \<longrightarrow> h' = h)"
  using malloc_first_fit [OF assms]
  by (cases "if malloc_size n = 0 then None else first_fit (malloc_size n) fs") auto

text \<open>The heap after the region set-up, from zeroed static data, for the concrete instances.\<close>

definition static_heap :: heap where
  "static_heap = \<lparr>mem = (\<lambda>_. \<lparr>pxNextFreeBlock = 0, xBlockSize = 0\<rparr>), ram = (\<lambda>_. 0), xStart = 0x20000000,
     pxEnd = 0, xFreeBytesRemaining = 0, xMinimumEverFreeBytesRemaining = 0,
     xNumberOfSuccessfulAllocations = 0, xNumberOfSuccessfulFrees = 0\<rparr>"

definition boot_heap :: heap where
  "boot_heap = the (ConfigureHeapRegions static_heap)"

lemma boot_heap_ok: "heap_ok boot_heap boot_free []" "ConfigureHeapRegions static_heap = Some boot_heap"
  using ConfigureHeapRegions_ok [of static_heap]
  by (auto simp: boot_heap_def static_heap_def u32_bound_def)

lemma boot_malloc:
  "\<exists>h1. pvPortMalloc 100 boot_heap = Some (0x20200008, h1) \<and>
    heap_ok h1 [(0x20200070, 130952), (0x2021FFF8, 0), (0x20220000, 131064), (0x2023FFF8, 0)] [(0x20200000, 112)]"
proof -
  have m: "malloc_size 100 = 112"
    by (simp add: malloc_size_rounds)
  show ?thesis
    using malloc_first_fit [OF boot_heap_ok(1), of 100] m by (auto simp: boot_free_def u32_bound_def)
qed

text \<open>
  \<open>ConfigureHeapRegions\<close>, run on the statically initialised allocator, passes all its
  assertions and leaves a well-formed heap with nothing allocated: the two 128 KB regions of
  \<open>main.cpp\<close> as two free blocks of 131064 bytes, each followed by its end marker, and no byte of
  payload memory touched.
\<close>

theorem heap_regions_establish_invariant:
  assumes "pxEnd h = 0" "xStart h \<noteq> 0" "xStart h < u32_bound" "xStart h < 0x20200000 \<or> 0x20240000 \<le> xStart h"
  shows "\<exists>h'. ConfigureHeapRegions h = Some h' \<and> heap_ok h' boot_free [] \<and>
    xPortGetFreeHeapSize h' = 262128 \<and> ram h' = ram h"
  using ConfigureHeapRegions_ok [OF assms]
  by (auto simp: heap_ok_def boot_free_def xPortGetFreeHeapSize_def)

theorem heap_regions_establish_invariant_witness:
  "\<exists>h'. ConfigureHeapRegions static_heap = Some h' \<and> heap_ok h' boot_free [] \<and>
    xPortGetFreeHeapSize h' = 262128 \<and> ram h' = ram static_heap"
  by (rule heap_regions_establish_invariant) (simp_all add: static_heap_def u32_bound_def)

text \<open>
  C22. \<open>pvPortMalloc\<close> is first fit: on a well-formed heap it never fails an assertion and never
  walks off the list; it answers 0 and leaves the heap as it was exactly when the rounded size is 0
  (request 0, or too large to round) or no free block is large enough, and otherwise it hands out
  the first block that is, split when more than 16 bytes would remain, keeping the heap well formed.
\<close>

theorem malloc_refines_first_fit:
  assumes "heap_ok h fs as" "n < u32_bound"
  shows "case (if malloc_size n = 0 then None else first_fit (malloc_size n) fs) of
      None \<Rightarrow> pvPortMalloc n h = Some (0, h)
    | Some (b, fs') \<Rightarrow> \<exists>h'. pvPortMalloc n h = Some (fst b + 8, h') \<and> heap_ok h' fs' (b # as) \<and> ram h' = ram h"
  using malloc_first_fit [OF assms]
  by (cases "if malloc_size n = 0 then None else first_fit (malloc_size n) fs") auto

theorem malloc_refines_first_fit_witness:
  "\<exists>h'. pvPortMalloc 100 boot_heap = Some (0x20200008, h') \<and>
    heap_ok h' [(0x20200070, 130952), (0x2021FFF8, 0), (0x20220000, 131064), (0x2023FFF8, 0)] [(0x20200000, 112)] \<and>
    ram h' = ram boot_heap"
  using malloc_refines_first_fit [OF boot_heap_ok(1), of 100] malloc_size_rounds [of 100]
  by (simp add: boot_free_def u32_bound_def)

text \<open>
  Memory from \<open>pvPortMalloc\<close> is fresh: the pointer is 8-byte aligned, the \<open>n\<close> bytes asked
  for lie inside one block that was free, behind its header, and they overlap neither header nor
  payload of any block that is already handed out.
\<close>

theorem malloc_memory_is_fresh:
  assumes "heap_ok h fs as" "n < u32_bound" "pvPortMalloc n h = Some (p, h')" "p \<noteq> 0"
  shows "p mod 8 = 0 \<and> (\<exists>(b, m) \<in> set fs. p = b + 8 \<and> p + n \<le> b + m) \<and>
    (\<forall>(a, k) \<in> set as. p + n \<le> a \<or> a + k \<le> p - 8)"
proof (cases "if malloc_size n = 0 then None else first_fit (malloc_size n) fs")
  case None
  with malloc_first_fit [OF assms(1,2)] assms(3,4) show ?thesis by simp
next
  case (Some r)
  obtain b fs' where r: "r = (b, fs')" by (cases r)
  have f: "malloc_size n \<noteq> 0" "first_fit (malloc_size n) fs = Some (b, fs')"
    using Some r by (auto split: if_splits)
  have p: "p = fst b + 8"
    using malloc_first_fit [OF assms(1,2)] assms(3) Some r by auto
  obtain us a m vs where d: "fs = us @ (a, m) # vs" "malloc_size n \<le> m" "fst b = a"
    using f(2) by (auto elim!: first_fit_SomeE)
  have w: "n + 8 \<le> malloc_size n"
    using malloc_size_cases [OF assms(2)] f(1) by metis
  have lay: "layout_ok (xStart h) (pxEnd h) fs as"
    using assms(1) by (simp add: heap_ok_def)
  have "block_ok (xStart h) (a, m)" "\<forall>y \<in> set as. apart (a, m) y"
    using lay d(1) by (auto simp: layout_ok_def)
  then have "a mod 8 = 0" "\<forall>(x, k) \<in> set as. a + m \<le> x \<or> x + k \<le> a"
    by (fastforce simp: block_ok_def apart_def before_def)+
  with p d w show ?thesis by (fastforce simp: mod_add_eq [symmetric])
qed

theorem malloc_memory_is_fresh_witness:
  "\<exists>h1 h2. pvPortMalloc 100 boot_heap = Some (0x20200008, h1) \<and> pvPortMalloc 64 h1 = Some (0x20200078, h2) \<and>
    (\<forall>(a, k) \<in> set [(0x20200000, 112 :: nat)]. (0x20200078 :: nat) + 64 \<le> a \<or> a + k \<le> 0x20200078 - 8)"
proof -
  obtain h1 where h1: "pvPortMalloc 100 boot_heap = Some (0x20200008, h1)"
    "heap_ok h1 [(0x20200070, 130952), (0x2021FFF8, 0), (0x20220000, 131064), (0x2023FFF8, 0)] [(0x20200000, 112)]"
    using boot_malloc by blast
  obtain h2 where h2: "pvPortMalloc 64 h1 = Some (0x20200078, h2)"
    using malloc_first_fit [OF h1(2), of 64] malloc_size_rounds [of 64] by (auto simp: u32_bound_def)
  show ?thesis
    using malloc_memory_is_fresh [OF h1(2) _ h2] h1(1) h2 by (auto simp: u32_bound_def)
qed

text \<open>
  C23. \<open>vPortFree\<close> of a live block passes its assertions and gives the block back: the free list
  becomes the sorted insertion that joins it with both neighbours, no two free blocks touch
  afterwards, every other block stays as it was and the free count grows by exactly its size.
\<close>

theorem free_coalesces:
  assumes "heap_ok h fs as" "(a, n) \<in> set as"
  shows "\<exists>h'. vPortFree (a + 8) h = Some h' \<and> heap_ok h' (insert_free (a, n) fs) (remove1 (a, n) as) \<and>
    xPortGetFreeHeapSize h' = xPortGetFreeHeapSize h + n \<and> coalesced (insert_free (a, n) fs)"
proof -
  obtain h' where h': "vPortFree (a + 8) h = Some h'" "heap_ok h' (insert_free (a, n) fs) (remove1 (a, n) as)"
    using free_refines [OF assms] by blast
  with assms show ?thesis
    by (auto simp: heap_ok_def layout_ok_def xPortGetFreeHeapSize_def sizes_insert_free)
qed

theorem free_coalesces_witness:
  "\<exists>h1 h2. pvPortMalloc 100 boot_heap = Some (0x20200008, h1) \<and> vPortFree 0x20200008 h1 = Some h2 \<and>
    heap_ok h2 boot_free []"
proof -
  obtain h1 where h1: "pvPortMalloc 100 boot_heap = Some (0x20200008, h1)"
    "heap_ok h1 [(0x20200070, 130952), (0x2021FFF8, 0), (0x20220000, 131064), (0x2023FFF8, 0)] [(0x20200000, 112)]"
    using boot_malloc by blast
  show ?thesis
    using free_coalesces [OF h1(2), of 538968064 112] h1(1) by (auto simp: boot_free_def)
qed

text \<open>
  A double free is caught: releasing a live block succeeds, and releasing the same pointer
  again stops at \<open>configASSERT( heapBLOCK_IS_ALLOCATED( pxLink ) != 0 )\<close>, because the header keeps
  its cleared bit even when the block was merged into its neighbour.
\<close>

theorem double_free_stops:
  assumes "heap_ok h fs as" "(a, n) \<in> set as"
  shows "\<exists>h'. vPortFree (a + 8) h = Some h' \<and> vPortFree (a + 8) h' = None"
proof -
  obtain h' where h': "vPortFree (a + 8) h = Some h'" "\<not> heapBLOCK_IS_ALLOCATED h' a"
    using free_refines [OF assms] by blast
  have "block_ok (xStart h) (a, n)"
    using assms by (auto simp: heap_ok_def layout_ok_def)
  then have "sub32 (a + 8) 8 = a"
    using sub32_exact [of 8 "a + 8"] by (fastforce simp: block_ok_def)
  with h' show ?thesis by (simp add: vPortFree_def Let_def heap_consts)
qed

theorem double_free_stops_witness:
  "\<exists>h1 h2. pvPortMalloc 100 boot_heap = Some (0x20200008, h1) \<and> vPortFree 0x20200008 h1 = Some h2 \<and>
    vPortFree 0x20200008 h2 = None"
proof -
  obtain h1 where h1: "pvPortMalloc 100 boot_heap = Some (0x20200008, h1)"
    "heap_ok h1 [(0x20200070, 130952), (0x2021FFF8, 0), (0x20220000, 131064), (0x2023FFF8, 0)] [(0x20200000, 112)]"
    using boot_malloc by blast
  show ?thesis
    using double_free_stops [OF h1(2), of 538968064 112] h1(1) by auto
qed

text \<open>
  \<open>pvPortCalloc\<close> refuses a product that does not fit in 32 bits, leaving the heap as it was,
  and otherwise behaves like \<open>pvPortMalloc\<close> of the exact product with all its bytes zeroed and no
  byte of any other live payload changed.
\<close>

theorem calloc_checks_and_zeroes:
  assumes "heap_ok h fs as" "x < u32_bound" "y < u32_bound"
  shows "if x * y < u32_bound
    then \<exists>p h0 h'. pvPortMalloc (x * y) h = Some (p, h0) \<and> pvPortCalloc x y h = Some (p, h') \<and>
      (p \<noteq> 0 \<longrightarrow> (\<forall>i < x * y. ram h' (p + i) = 0) \<and>
        (\<forall>(a, k) \<in> set as. \<forall>i < k. ram h' (a + i) = ram h (a + i))) \<and> (p = 0 \<longrightarrow> h' = h)
    else pvPortCalloc x y h = Some (0, h)"
proof (cases "x * y < u32_bound")
  case True
  have ov: "\<not> heapMULTIPLY_WILL_OVERFLOW x y"
  proof (cases "x = 0")
    case False
    have "y \<le> 4294967295 div x"
      using True False by (simp add: less_eq_div_iff_mult_less_eq u32_bound_def mult.commute)
    then show ?thesis by (simp add: heapMULTIPLY_WILL_OVERFLOW_def heap_consts)
  qed (simp add: heapMULTIPLY_WILL_OVERFLOW_def)
  obtain p h0 where m: "pvPortMalloc (x * y) h = Some (p, h0)" "ram h0 = ram h" "p = 0 \<Longrightarrow> h0 = h"
    using malloc_result [OF assms(1) True] by blast
  show ?thesis
  proof (cases "p = 0")
    case p: False
    have fresh: "\<forall>(a, k) \<in> set as. p + x * y \<le> a \<or> a + k \<le> p - 8"
      using malloc_memory_is_fresh [OF assms(1) True m(1) p] by blast
    have "ram (mem_zero p (x * y) h0) (a + i) = ram h (a + i)" if "(a, k) \<in> set as" "i < k" for a k i
      using fresh that m(2) by (fastforce simp: mem_zero_def)
    moreover have "ram (mem_zero p (x * y) h0) (p + i) = 0" if "i < x * y" for i
      using that by (simp add: mem_zero_def)
    ultimately show ?thesis
      using ov True m p by (auto simp: pvPortCalloc_def u32_simps)
  qed (use ov True m in \<open>simp add: pvPortCalloc_def u32_simps\<close>)
next
  case False
  then have x: "0 < x"
    by (cases x) auto
  then have "\<not> y \<le> 4294967295 div x"
    using False by (simp add: less_eq_div_iff_mult_less_eq u32_bound_def mult.commute)
  with False x show ?thesis
    by (simp add: pvPortCalloc_def heapMULTIPLY_WILL_OVERFLOW_def heap_consts)
qed

theorem calloc_checks_and_zeroes_witness:
  "pvPortCalloc 65536 65536 boot_heap = Some (0, boot_heap)"
  using calloc_checks_and_zeroes [OF boot_heap_ok(1), of 65536 65536] by (simp add: u32_bound_def)

text \<open>
  C24. After the region set-up no sequence of allocations and releases of live pointers, of any
  length and in any order, fails an assertion, walks off the free list or hands out overlapping
  memory: the \<open>n\<close> bytes asked for at each live pointer overlap neither those asked for at another nor
  the header in the 8 bytes before that one, and every pointer is aligned. Behind the live pointers
  lie blocks \<open>es\<close> at least as long as was asked for; their bytes, payload and header, and the free
  bytes always add up to the initial 262128, so nothing leaks.
\<close>

theorem heap_histories_are_safe:
  assumes "\<forall>n. Alloc n \<in> set ops \<longrightarrow> n < u32_bound"
  shows "\<exists>live es h'. alloc_run pvPortMalloc vPortFree ops [] boot_heap = Some (live, h') \<and>
    extents_apart live \<and> (\<forall>(p, n) \<in> set live. p mod 8 = 0) \<and>
    list_all2 (\<lambda>(p, n) (q, k). p = q \<and> n \<le> k) live es \<and>
    xPortGetFreeHeapSize h' + sum_list (map (\<lambda>x. snd x + 8) es) = 262128"
proof -
  have "heap_live boot_heap []"
    using boot_heap_ok(1) unfolding heap_live_def by (intro exI [of _ boot_free] exI [of _ "[]"]) (simp add: live_extents_def)
  moreover have "xPortGetFreeHeapSize boot_heap = 262128"
    using boot_heap_ok(1) by (simp add: heap_ok_def xPortGetFreeHeapSize_def boot_free_def)
  moreover have "fits_in live es = list_all2 (\<lambda>(p, n) (q, k). p = q \<and> n \<le> k) live es" for live es
    by (simp add: fits_in_def case_prod_unfold)
  ultimately show ?thesis
    using hp.run_from_empty [OF _ assms, of boot_heap] by (auto simp: case_prod_unfold)
qed

theorem heap_histories_are_safe_witness:
  "\<exists>live es h'. alloc_run pvPortMalloc vPortFree [Alloc 100, Alloc 7, Release 1, Alloc 4294967295, Alloc 24] [] boot_heap
      = Some (live, h') \<and> extents_apart live \<and> (\<forall>(p, n) \<in> set live. p mod 8 = 0) \<and>
    list_all2 (\<lambda>(p, n) (q, k). p = q \<and> n \<le> k) live es \<and>
    xPortGetFreeHeapSize h' + sum_list (map (\<lambda>x. snd x + 8) es) = 262128"
  by (rule heap_histories_are_safe) (auto simp: u32_bound_def)

end
