(* ===== verification/StreamBuffer.thy ===== *)
theory StreamBuffer
  imports Heap5Free
begin

text \<open>
  \<open>freertos-kernel/stream_buffer.c\<close>: byte streams and message queues over one circular buffer,
  written by one task or interrupt and read by one other. The buffer structure is a record, its
  storage a list of bytes. A task handle is a number, 0 is null. The functions that end by
  notifying a waiting task return the notification (task and index) they send. A blocking call
  gives up the processor between its critical sections: what the other tasks and interrupts do to
  the buffer meanwhile is an argument, one entry for every time the call blocks, together with the
  answer of \<open>xTaskCheckForTimeOut\<close>.
\<close>

section \<open>State\<close>

record StreamBuffer_t =
  xTail :: nat
  xHead :: nat
  xLength :: nat
  xTriggerLevelBytes :: nat
  xTaskWaitingToReceive :: nat
  xTaskWaitingToSend :: nat
  pucBuffer :: "u8 list"
  ucFlags :: u8
  uxStreamBufferNumber :: nat
  uxNotificationIndex :: nat

definition sbBYTES_TO_STORE_MESSAGE_LENGTH :: nat where "sbBYTES_TO_STORE_MESSAGE_LENGTH = 4"
definition sbFLAGS_IS_MESSAGE_BUFFER :: u8 where "sbFLAGS_IS_MESSAGE_BUFFER = 1"
definition sbFLAGS_IS_STATICALLY_ALLOCATED :: u8 where "sbFLAGS_IS_STATICALLY_ALLOCATED = 2"
definition sbFLAGS_IS_BATCHING_BUFFER :: u8 where "sbFLAGS_IS_BATCHING_BUFFER = 4"

definition sbTYPE_STREAM_BUFFER :: nat where "sbTYPE_STREAM_BUFFER = 0"
definition sbTYPE_MESSAGE_BUFFER :: nat where "sbTYPE_MESSAGE_BUFFER = 1"
definition sbTYPE_STREAM_BATCHING_BUFFER :: nat where "sbTYPE_STREAM_BATCHING_BUFFER = 2"

text \<open>Size of the structure on this port (32-bit members, trace facility on, no callbacks).\<close>

definition sizeof_StreamBuffer_t :: nat where "sizeof_StreamBuffer_t = 40"

definition is_message :: "StreamBuffer_t \<Rightarrow> bool" where
  "is_message s \<longleftrightarrow> ucFlags s AND sbFLAGS_IS_MESSAGE_BUFFER \<noteq> 0"

definition is_batching :: "StreamBuffer_t \<Rightarrow> bool" where
  "is_batching s \<longleftrightarrow> ucFlags s AND sbFLAGS_IS_BATCHING_BUFFER \<noteq> 0"

text \<open>The bytes of a length in memory: 32 bits, least significant first.\<close>

definition length_bytes :: "nat \<Rightarrow> u8 list" where
  "length_bytes n = map (\<lambda>k. of_nat (n div 256 ^ k)) [0, 1, 2, 3]"

definition bytes_length :: "u8 list \<Rightarrow> nat" where
  "bytes_length bs = unat (bs ! 0) + 256 * unat (bs ! 1) + 65536 * unat (bs ! 2) + 16777216 * unat (bs ! 3)"

section \<open>Creation, deletion, reset\<close>

definition prvInitialiseNewStreamBuffer :: "nat \<Rightarrow> nat \<Rightarrow> u8 \<Rightarrow> StreamBuffer_t" where
  "prvInitialiseNewStreamBuffer sz trigger flags =
     \<lparr>xTail = 0, xHead = 0, xLength = sz, xTriggerLevelBytes = trigger, xTaskWaitingToReceive = 0,
      xTaskWaitingToSend = 0, pucBuffer = replicate sz 0x55, ucFlags = flags,
      uxStreamBufferNumber = 0, uxNotificationIndex = 0\<rparr>"

text \<open>
  Structure and storage are one block of the heap, the storage behind the structure. The result is
  the address (0 if there is no memory) and the initialised structure.
\<close>

definition xStreamBufferGenericCreate ::
  "nat \<Rightarrow> nat \<Rightarrow> nat \<Rightarrow> heap \<Rightarrow> ((addr \<times> StreamBuffer_t) option \<times> heap) option" where
  "xStreamBufferGenericCreate sz trigger type h =
     (let flags = (if type = sbTYPE_MESSAGE_BUFFER then sbFLAGS_IS_MESSAGE_BUFFER
                   else if type = sbTYPE_STREAM_BATCHING_BUFFER then sbFLAGS_IS_BATCHING_BUFFER else 0)
      in if \<not> (if type = sbTYPE_MESSAGE_BUFFER then sz > sbBYTES_TO_STORE_MESSAGE_LENGTH else sz > 0)
         then None
         else if \<not> trigger \<le> sz then None
         else
           let trigger = (if trigger = 0 then 1 else trigger) in
           if sz < add32 (add32 sz 1) sizeof_StreamBuffer_t then
             let sz = add32 sz 1 in
             (case pvPortMalloc (add32 sz sizeof_StreamBuffer_t) h of
                None \<Rightarrow> None
              | Some (p, h) \<Rightarrow>
                  Some (if p \<noteq> 0 then Some (p, prvInitialiseNewStreamBuffer sz trigger flags) else None, h))
           else Some (None, h))"

definition vStreamBufferDelete :: "addr \<Rightarrow> StreamBuffer_t \<Rightarrow> heap \<Rightarrow> (StreamBuffer_t option \<times> heap) option" where
  "vStreamBufferDelete p s h =
     (if p = 0 then None
      else if ucFlags s AND sbFLAGS_IS_STATICALLY_ALLOCATED = 0
      then map_option (\<lambda>h. (None, h)) (vPortFree p h)
      else Some (Some \<lparr>xTail = 0, xHead = 0, xLength = 0, xTriggerLevelBytes = 0, xTaskWaitingToReceive = 0,
        xTaskWaitingToSend = 0, pucBuffer = [], ucFlags = 0, uxStreamBufferNumber = 0,
        uxNotificationIndex = 0\<rparr>, h))"

definition xStreamBufferReset :: "StreamBuffer_t \<Rightarrow> bool \<times> StreamBuffer_t" where
  "xStreamBufferReset s =
     (if xTaskWaitingToReceive s = 0 \<and> xTaskWaitingToSend s = 0
      then (True, (prvInitialiseNewStreamBuffer (xLength s) (xTriggerLevelBytes s) (ucFlags s))
              \<lparr>uxStreamBufferNumber := uxStreamBufferNumber s\<rparr>)
      else (False, s))"

definition xStreamBufferSetTriggerLevel :: "nat \<Rightarrow> StreamBuffer_t \<Rightarrow> bool \<times> StreamBuffer_t" where
  "xStreamBufferSetTriggerLevel trigger s =
     (let trigger = (if trigger = 0 then 1 else trigger)
      in if trigger < xLength s then (True, s\<lparr>xTriggerLevelBytes := trigger\<rparr>) else (False, s))"

definition vStreamBufferSetStreamBufferNotificationIndex :: "nat \<Rightarrow> StreamBuffer_t \<Rightarrow> StreamBuffer_t option" where
  "vStreamBufferSetStreamBufferNotificationIndex i s =
     (if xTaskWaitingToReceive s = 0 \<and> xTaskWaitingToSend s = 0 \<and> i < 1
      then Some (s\<lparr>uxNotificationIndex := i\<rparr>) else None)"

definition vStreamBufferSetStreamBufferNumber :: "nat \<Rightarrow> StreamBuffer_t \<Rightarrow> StreamBuffer_t" where
  "vStreamBufferSetStreamBufferNumber n s = s\<lparr>uxStreamBufferNumber := n\<rparr>"

definition ucStreamBufferGetStreamBufferType :: "StreamBuffer_t \<Rightarrow> u8" where
  "ucStreamBufferGetStreamBufferType s = ucFlags s AND sbFLAGS_IS_MESSAGE_BUFFER"

section \<open>Levels\<close>

definition prvBytesInBuffer :: "StreamBuffer_t \<Rightarrow> nat" where
  "prvBytesInBuffer s =
     (let n = sub32 (add32 (xLength s) (xHead s)) (xTail s)
      in if n \<ge> xLength s then sub32 n (xLength s) else n)"

definition xStreamBufferSpacesAvailable :: "StreamBuffer_t \<Rightarrow> nat" where
  "xStreamBufferSpacesAvailable s =
     (let n = sub32 (sub32 (add32 (xLength s) (xTail s)) (xHead s)) 1
      in if n \<ge> xLength s then sub32 n (xLength s) else n)"

definition xStreamBufferIsEmpty :: "StreamBuffer_t \<Rightarrow> bool" where
  "xStreamBufferIsEmpty s \<longleftrightarrow> xHead s = xTail s"

definition xStreamBufferIsFull :: "StreamBuffer_t \<Rightarrow> bool" where
  "xStreamBufferIsFull s \<longleftrightarrow>
     xStreamBufferSpacesAvailable s \<le> (if is_message s then sbBYTES_TO_STORE_MESSAGE_LENGTH else 0)"

section \<open>Copying\<close>

definition prvWriteBytesToBuffer :: "u8 list \<Rightarrow> nat \<Rightarrow> StreamBuffer_t \<Rightarrow> (nat \<times> StreamBuffer_t) option" where
  "prvWriteBytesToBuffer xs head s =
     (let n = length xs in
      if n = 0 then None
      else
        let first = min (sub32 (xLength s) head) n in
        if \<not> add32 head first \<le> xLength s then None
        else
          case mem_write (pucBuffer s) head (take first xs) of
            None \<Rightarrow> None
          | Some b \<Rightarrow>
              (case (if n > first
                     then (if \<not> sub32 n first \<le> xLength s then None else mem_write b 0 (drop first xs))
                     else Some b) of
                 None \<Rightarrow> None
               | Some b \<Rightarrow>
                   let head = add32 head n;
                       head = (if head \<ge> xLength s then sub32 head (xLength s) else head)
                   in Some (head, s\<lparr>pucBuffer := b\<rparr>)))"

definition prvReadBytesFromBuffer :: "nat \<Rightarrow> nat \<Rightarrow> StreamBuffer_t \<Rightarrow> (u8 list \<times> nat) option" where
  "prvReadBytesFromBuffer n tail s =
     (if n = 0 then None
      else
        let first = min (sub32 (xLength s) tail) n in
        if \<not> first \<le> n \<or> \<not> add32 tail first \<le> xLength s then None
        else
          case mem_read (pucBuffer s) tail first of
            None \<Rightarrow> None
          | Some xs \<Rightarrow>
              (case (if n > first then mem_read (pucBuffer s) 0 (sub32 n first) else Some []) of
                 None \<Rightarrow> None
               | Some ys \<Rightarrow>
                   let tail = add32 tail n;
                       tail = (if tail \<ge> xLength s then sub32 tail (xLength s) else tail)
                   in Some (xs @ ys, tail)))"

section \<open>Sending\<close>

definition prvWriteMessageToBuffer ::
  "u8 list \<Rightarrow> nat \<Rightarrow> nat \<Rightarrow> StreamBuffer_t \<Rightarrow> (nat \<times> StreamBuffer_t) option" where
  "prvWriteMessageToBuffer xs space required s =
     (let next = xHead s; n = length xs in
      case (if is_message s then
              (if space \<ge> required then
                 (case prvWriteBytesToBuffer (length_bytes n) next s of
                    None \<Rightarrow> None | Some (next, s) \<Rightarrow> Some (n, next, s))
               else Some (0, next, s))
            else Some (min n space, next, s)) of
        None \<Rightarrow> None
      | Some (n, next, s) \<Rightarrow>
          if n \<noteq> 0 then
            (case prvWriteBytesToBuffer (take n xs) next s of
               None \<Rightarrow> None | Some (head, s) \<Rightarrow> Some (n, s\<lparr>xHead := head\<rparr>))
          else Some (n, s))"

type_synonym notification = "nat \<times> nat"

definition prvSEND_COMPLETED :: "StreamBuffer_t \<Rightarrow> notification option \<times> StreamBuffer_t" where
  "prvSEND_COMPLETED s =
     (if xTaskWaitingToReceive s \<noteq> 0
      then (Some (xTaskWaitingToReceive s, uxNotificationIndex s), s\<lparr>xTaskWaitingToReceive := 0\<rparr>)
      else (None, s))"

definition prvRECEIVE_COMPLETED :: "StreamBuffer_t \<Rightarrow> notification option \<times> StreamBuffer_t" where
  "prvRECEIVE_COMPLETED s =
     (if xTaskWaitingToSend s \<noteq> 0
      then (Some (xTaskWaitingToSend s, uxNotificationIndex s), s\<lparr>xTaskWaitingToSend := 0\<rparr>)
      else (None, s))"

text \<open>The tail of the two send functions: write, and notify the reader at the trigger level.\<close>

definition write_and_notify ::
  "u8 list \<Rightarrow> nat \<Rightarrow> nat \<Rightarrow> StreamBuffer_t \<Rightarrow> (nat \<times> notification option \<times> StreamBuffer_t) option" where
  "write_and_notify xs space required s =
     (case prvWriteMessageToBuffer xs space required s of
        None \<Rightarrow> None
      | Some (n, s) \<Rightarrow>
          if n > 0 \<and> prvBytesInBuffer s \<ge> xTriggerLevelBytes s
          then (case prvSEND_COMPLETED s of (w, s) \<Rightarrow> Some (n, w, s))
          else Some (n, None, s))"

definition xStreamBufferSendFromISR ::
  "u8 list \<Rightarrow> StreamBuffer_t \<Rightarrow> (nat \<times> notification option \<times> StreamBuffer_t) option" where
  "xStreamBufferSendFromISR xs s =
     (let required = (if is_message s then add32 (length xs) sbBYTES_TO_STORE_MESSAGE_LENGTH else length xs)
      in write_and_notify xs (xStreamBufferSpacesAvailable s) required s)"

text \<open>
  What happens while a call is blocked: the effect of the other tasks and interrupts on the buffer,
  and whether the time-out has passed afterwards.
\<close>

type_synonym blocked = "(StreamBuffer_t \<Rightarrow> StreamBuffer_t) \<times> bool"

fun send_wait :: "nat \<Rightarrow> nat \<Rightarrow> blocked list \<Rightarrow> StreamBuffer_t \<Rightarrow> (nat \<times> StreamBuffer_t) option" where
  "send_wait me required [] s =
     (let space = xStreamBufferSpacesAvailable s
      in if space < required then None else Some (space, s))"
| "send_wait me required ((f, timed_out) # ws) s =
     (let space = xStreamBufferSpacesAvailable s
      in if space < required then
           (if xTaskWaitingToSend s \<noteq> 0 then None
            else
              let s = s\<lparr>xTaskWaitingToSend := me\<rparr>;
                  s = (f s)\<lparr>xTaskWaitingToSend := 0\<rparr>
              in if timed_out then Some (space, s) else send_wait me required ws s)
         else Some (space, s))"

definition xStreamBufferSend ::
  "nat \<Rightarrow> u8 list \<Rightarrow> nat \<Rightarrow> blocked list \<Rightarrow> StreamBuffer_t \<Rightarrow> (nat \<times> notification option \<times> StreamBuffer_t) option" where
  "xStreamBufferSend me xs ticks ws s =
     (let n = length xs;
          max_space = sub32 (xLength s) 1;
          required = (if is_message s then add32 n sbBYTES_TO_STORE_MESSAGE_LENGTH else n)
      in if is_message s \<and> \<not> required > n then None
         else
           let ticks = (if is_message s \<and> required > max_space then 0 else ticks);
               required = (if \<not> is_message s \<and> required > max_space then max_space else required)
           in case (if ticks \<noteq> 0 then send_wait me required ws s else Some (0, s)) of
                None \<Rightarrow> None
              | Some (space, s) \<Rightarrow>
                  let space = (if space = 0 then xStreamBufferSpacesAvailable s else space)
                  in write_and_notify xs space required s)"

section \<open>Receiving\<close>

definition prvReadMessageFromBuffer ::
  "nat \<Rightarrow> nat \<Rightarrow> StreamBuffer_t \<Rightarrow> (u8 list \<times> StreamBuffer_t) option" where
  "prvReadMessageFromBuffer max_len available s =
     (case (if is_message s then
              (case prvReadBytesFromBuffer sbBYTES_TO_STORE_MESSAGE_LENGTH (xTail s) s of
                 None \<Rightarrow> None
               | Some (bs, next) \<Rightarrow>
                   let n = bytes_length bs in
                   Some (if n > max_len then 0 else n, sub32 available sbBYTES_TO_STORE_MESSAGE_LENGTH, next))
            else Some (max_len, available, xTail s)) of
        None \<Rightarrow> None
      | Some (n, available, next) \<Rightarrow>
          let count = min n available in
          if count \<noteq> 0 then
            (case prvReadBytesFromBuffer count next s of
               None \<Rightarrow> None | Some (xs, tail) \<Rightarrow> Some (xs, s\<lparr>xTail := tail\<rparr>))
          else Some ([], s))"

text \<open>The tail of the two receive functions.\<close>

definition read_and_notify ::
  "nat \<Rightarrow> nat \<Rightarrow> nat \<Rightarrow> StreamBuffer_t \<Rightarrow> (u8 list \<times> notification option \<times> StreamBuffer_t) option" where
  "read_and_notify max_len store available s =
     (if available > store then
        (case prvReadMessageFromBuffer max_len available s of
           None \<Rightarrow> None
         | Some (xs, s) \<Rightarrow>
             if xs \<noteq> [] then (case prvRECEIVE_COMPLETED s of (w, s) \<Rightarrow> Some (xs, w, s))
             else Some (xs, None, s))
      else Some ([], None, s))"

definition xStreamBufferReceiveFromISR ::
  "nat \<Rightarrow> StreamBuffer_t \<Rightarrow> (u8 list \<times> notification option \<times> StreamBuffer_t) option" where
  "xStreamBufferReceiveFromISR max_len s =
     read_and_notify max_len (if is_message s then sbBYTES_TO_STORE_MESSAGE_LENGTH else 0) (prvBytesInBuffer s) s"

definition xStreamBufferReceive ::
  "nat \<Rightarrow> nat \<Rightarrow> nat \<Rightarrow> blocked list \<Rightarrow> StreamBuffer_t \<Rightarrow> (u8 list \<times> notification option \<times> StreamBuffer_t) option" where
  "xStreamBufferReceive me max_len ticks ws s =
     (let store = (if is_message s then sbBYTES_TO_STORE_MESSAGE_LENGTH
                   else if is_batching s then xTriggerLevelBytes s else 0);
          available = prvBytesInBuffer s
      in case (if ticks \<noteq> 0 \<and> available \<le> store then
                 (if xTaskWaitingToReceive s \<noteq> 0 then None
                  else
                    let s = s\<lparr>xTaskWaitingToReceive := me\<rparr> in
                    (case ws of [] \<Rightarrow> None
                     | (f, _) # _ \<Rightarrow>
                         let s = (f s)\<lparr>xTaskWaitingToReceive := 0\<rparr> in Some (prvBytesInBuffer s, s)))
               else Some (available, s)) of
           None \<Rightarrow> None
         | Some (available, s) \<Rightarrow> read_and_notify max_len store available s)"

definition xStreamBufferNextMessageLengthBytes :: "StreamBuffer_t \<Rightarrow> nat option" where
  "xStreamBufferNextMessageLengthBytes s =
     (if is_message s then
        (if prvBytesInBuffer s > sbBYTES_TO_STORE_MESSAGE_LENGTH then
           (case prvReadBytesFromBuffer sbBYTES_TO_STORE_MESSAGE_LENGTH (xTail s) s of
              None \<Rightarrow> None | Some (bs, _) \<Rightarrow> Some (bytes_length bs))
         else if prvBytesInBuffer s = 0 then Some 0 else None)
      else Some 0)"

definition xStreamBufferSendCompletedFromISR :: "StreamBuffer_t \<Rightarrow> bool \<times> notification option \<times> StreamBuffer_t" where
  "xStreamBufferSendCompletedFromISR s = (xTaskWaitingToReceive s \<noteq> 0, prvSEND_COMPLETED s)"

definition xStreamBufferReceiveCompletedFromISR :: "StreamBuffer_t \<Rightarrow> bool \<times> notification option \<times> StreamBuffer_t" where
  "xStreamBufferReceiveCompletedFromISR s = (xTaskWaitingToSend s \<noteq> 0, prvRECEIVE_COMPLETED s)"

section \<open>Invariant and abstraction\<close>

definition sb_ok :: "StreamBuffer_t \<Rightarrow> bool" where
  "sb_ok s \<longleftrightarrow> length (pucBuffer s) = xLength s \<and> xHead s < xLength s \<and> xTail s < xLength s \<and>
     xLength s \<le> 2147483648"

definition sb_used :: "StreamBuffer_t \<Rightarrow> nat" where
  "sb_used s = (if xTail s \<le> xHead s then xHead s - xTail s else xLength s + xHead s - xTail s)"

definition sb_contents :: "StreamBuffer_t \<Rightarrow> u8 list" where
  "sb_contents s = ring (pucBuffer s) (xTail s) (sb_used s)"

lemma sb_bound: "sb_ok s \<Longrightarrow> xLength s + xLength s \<le> u32_bound \<and> xLength s < u32_bound"
  by (simp add: sb_ok_def u32_bound_def)

lemma sb_used_less: "sb_ok s \<Longrightarrow> sb_used s < xLength s"
  by (auto simp: sb_ok_def sb_used_def)

lemma length_sb_contents: "sb_ok s \<Longrightarrow> length (sb_contents s) = sb_used s"
  using sb_used_less [of s] by (simp add: sb_contents_def sb_ok_def)

lemma bytes_in_buffer: "sb_ok s \<Longrightarrow> prvBytesInBuffer s = sb_used s"
  using sb_bound [of s]
  by (auto simp: prvBytesInBuffer_def sb_ok_def sb_used_def Let_def u32_simps)

lemma spaces_available: "sb_ok s \<Longrightarrow> xStreamBufferSpacesAvailable s = xLength s - 1 - sb_used s"
proof -
  assume ok: "sb_ok s"
  then have n: "sub32 (add32 (xLength s) (xTail s)) (xHead s) = xLength s + xTail s - xHead s"
    using sb_bound [OF ok] by (auto simp: sb_ok_def intro!: sub32_add32)
  have m: "sub32 (xLength s + xTail s - xHead s) 1 = xLength s + xTail s - xHead s - 1"
    using ok sb_bound [OF ok] by (intro sub32_exact) (auto simp: sb_ok_def)
  show ?thesis
    using ok sb_bound [OF ok]
    by (auto simp: xStreamBufferSpacesAvailable_def n m sb_ok_def sb_used_def Let_def u32_simps)
qed

section \<open>Copies in and out of the circle\<close>

lemma add_wrap: "i < L \<Longrightarrow> n \<le> L \<Longrightarrow> L + L \<le> u32_bound \<Longrightarrow>
    (if add32 i n \<ge> L then sub32 (add32 i n) L else add32 i n) = wrap L (i + n)"
  by (auto simp: wrap_def u32_simps)

lemma write_bytes:
  assumes "length (pucBuffer s) = xLength s" "i < xLength s" "xLength s + xLength s \<le> u32_bound"
    "xs \<noteq> []" "length xs \<le> xLength s"
  shows "prvWriteBytesToBuffer xs i s =
    Some (wrap (xLength s) (i + length xs), s\<lparr>pucBuffer := ring_put (pucBuffer s) i xs\<rparr>)"
proof -
  have h: "(if add32 i (length xs) \<ge> xLength s then sub32 (add32 i (length xs)) (xLength s) else add32 i (length xs)) =
    wrap (xLength s) (i + length xs)"
    using assms by (intro add_wrap)
  have b: "xLength s < u32_bound" "sub32 (xLength s) i = xLength s - i"
    using assms by (auto simp: u32_simps)
  show ?thesis
  proof (cases "length xs \<le> xLength s - i")
    case True
    then have "min (xLength s - i) (length xs) = length xs" "add32 i (length xs) = i + length xs"
      "i + length xs \<le> xLength s" "sub32 (xLength s) (xLength s) = 0"
      using assms b by (auto simp: u32_simps)
    then show ?thesis
      using assms(1,4) True by (auto simp: prvWriteBytesToBuffer_def b h Let_def ring_put_def wrap_def)
  next
    case False
    then have "min (xLength s - i) (length xs) = xLength s - i" "add32 i (xLength s - i) = xLength s"
      "sub32 (length xs) (xLength s - i) = length xs - (xLength s - i)"
      using assms b by (auto simp: u32_simps)
    then show ?thesis
      using assms(1,2,4,5) False by (simp add: prvWriteBytesToBuffer_def b h Let_def ring_put_def)
  qed
qed

lemma read_bytes:
  assumes "length (pucBuffer s) = xLength s" "i < xLength s" "xLength s + xLength s \<le> u32_bound"
    "n \<noteq> 0" "n \<le> xLength s"
  shows "prvReadBytesFromBuffer n i s = Some (ring (pucBuffer s) i n, wrap (xLength s) (i + n))"
proof -
  have h: "(if add32 i n \<ge> xLength s then sub32 (add32 i n) (xLength s) else add32 i n) = wrap (xLength s) (i + n)"
    using assms by (intro add_wrap)
  have b: "xLength s < u32_bound" "sub32 (xLength s) i = xLength s - i"
    using assms by (auto simp: u32_simps)
  show ?thesis
  proof (cases "n \<le> xLength s - i")
    case True
    then have "min (xLength s - i) n = n" "add32 i n = i + n" "i + n \<le> xLength s"
      "sub32 (xLength s) (xLength s) = 0"
      using assms b by (auto simp: u32_simps)
    then show ?thesis
      using assms(1,4) True by (auto simp: prvReadBytesFromBuffer_def b h Let_def ring_straight wrap_def)
  next
    case False
    then have "min (xLength s - i) n = xLength s - i" "add32 i (xLength s - i) = xLength s"
      "sub32 n (xLength s - i) = n - (xLength s - i)" "\<not> n < xLength s - i"
      using assms b by (auto simp: u32_simps)
    then show ?thesis
      using assms(1,2,4,5) False by (simp add: prvReadBytesFromBuffer_def b h Let_def ring_bent)
  qed
qed

text \<open>Appending bytes behind the head and dropping bytes at the tail.\<close>

definition sb_put :: "u8 list \<Rightarrow> StreamBuffer_t \<Rightarrow> StreamBuffer_t" where
  "sb_put xs s = s\<lparr>pucBuffer := ring_put (pucBuffer s) (xHead s) xs, xHead := wrap (xLength s) (xHead s + length xs)\<rparr>"

definition sb_get :: "nat \<Rightarrow> StreamBuffer_t \<Rightarrow> StreamBuffer_t" where
  "sb_get n s = s\<lparr>xTail := wrap (xLength s) (xTail s + n)\<rparr>"

lemma sb_put:
  assumes "sb_ok s" "sb_used s + length xs < xLength s"
  shows "sb_ok (sb_put xs s)" "sb_contents (sb_put xs s) = sb_contents s @ xs"
    "sb_used (sb_put xs s) = sb_used s + length xs"
proof -
  show ok: "sb_ok (sb_put xs s)"
    using assms by (auto simp: sb_ok_def sb_put_def intro: wrap_less)
  show u: "sb_used (sb_put xs s) = sb_used s + length xs"
    using assms by (auto simp: sb_ok_def sb_put_def sb_used_def wrap_def split: if_splits)
  have w: "wrap (xLength s) (xHead s) = wrap (xLength s) (xTail s + sb_used s)"
    using assms(1) by (auto simp: sb_ok_def sb_used_def wrap_def)
  have "ring (ring_put (pucBuffer s) (xHead s) xs) (xTail s) (sb_used s + length xs) =
    ring (pucBuffer s) (xTail s) (sb_used s) @ xs"
    using assms w by (intro ring_put_window) (auto simp: sb_ok_def)
  then show "sb_contents (sb_put xs s) = sb_contents s @ xs"
    unfolding sb_contents_def u by (simp add: sb_put_def)
qed

lemma sb_get:
  assumes "sb_ok s" "n \<le> sb_used s"
  shows "sb_ok (sb_get n s)" "sb_contents (sb_get n s) = drop n (sb_contents s)"
    "sb_used (sb_get n s) = sb_used s - n" "ring (pucBuffer s) (xTail s) n = take n (sb_contents s)"
proof -
  have l: "length (pucBuffer s) = xLength s" "xTail s < xLength s" "sb_used s < xLength s"
    using assms sb_used_less by (auto simp: sb_ok_def)
  show ok: "sb_ok (sb_get n s)"
    using assms l by (auto simp: sb_ok_def sb_get_def intro: wrap_less)
  show u: "sb_used (sb_get n s) = sb_used s - n"
    using assms by (auto simp: sb_ok_def sb_get_def sb_used_def wrap_def split: if_splits)
  have "ring (pucBuffer s) (xTail s) (n + (sb_used s - n)) =
    ring (pucBuffer s) (xTail s) n @ ring (pucBuffer s) (wrap (length (pucBuffer s)) (xTail s + n)) (sb_used s - n)"
    using assms l by (intro ring_append) auto
  then have c: "sb_contents s = ring (pucBuffer s) (xTail s) n @ sb_contents (sb_get n s)"
    using assms l(1) u by (simp add: sb_contents_def sb_get_def)
  have "length (ring (pucBuffer s) (xTail s) n) = n"
    using assms l by simp
  with c show "sb_contents (sb_get n s) = drop n (sb_contents s)"
    "ring (pucBuffer s) (xTail s) n = take n (sb_contents s)"
    by simp_all
qed

lemma sb_put_fields [simp]:
  "xTail (sb_put xs s) = xTail s" "xLength (sb_put xs s) = xLength s" "ucFlags (sb_put xs s) = ucFlags s"
  "xTriggerLevelBytes (sb_put xs s) = xTriggerLevelBytes s"
  "xTaskWaitingToReceive (sb_put xs s) = xTaskWaitingToReceive s"
  "xTaskWaitingToSend (sb_put xs s) = xTaskWaitingToSend s"
  "uxNotificationIndex (sb_put xs s) = uxNotificationIndex s"
  "is_message (sb_put xs s) = is_message s" "is_batching (sb_put xs s) = is_batching s"
  by (simp_all add: sb_put_def is_message_def is_batching_def)

lemma sb_get_fields [simp]:
  "xHead (sb_get n s) = xHead s" "xLength (sb_get n s) = xLength s" "ucFlags (sb_get n s) = ucFlags s"
  "xTriggerLevelBytes (sb_get n s) = xTriggerLevelBytes s"
  "xTaskWaitingToReceive (sb_get n s) = xTaskWaitingToReceive s"
  "xTaskWaitingToSend (sb_get n s) = xTaskWaitingToSend s"
  "uxNotificationIndex (sb_get n s) = uxNotificationIndex s"
  "is_message (sb_get n s) = is_message s" "is_batching (sb_get n s) = is_batching s"
  by (simp_all add: sb_get_def is_message_def is_batching_def)

section \<open>What the operations do\<close>

lemma sb_put_Nil [simp]: "sb_ok s \<Longrightarrow> sb_put [] s = s"
  by (simp add: sb_put_def sb_ok_def ring_put_def wrap_def)

lemma length_length_bytes [simp]: "length (length_bytes n) = 4"
  by (simp add: length_bytes_def)

lemma bytes_length_bytes: "n < u32_bound \<Longrightarrow> bytes_length (length_bytes n) = n"
proof -
  assume n: "n < u32_bound"
  have "n div 16777216 < 256"
    using n by (simp add: u32_bound_def div_less_iff_less_mult)
  then have m: "n div 16777216 mod 256 = n div 16777216" by simp
  have d: "n = n mod 256 + 256 * (n div 256 mod 256) + 65536 * (n div 65536 mod 256) + 16777216 * (n div 16777216)"
  proof -
    have "n = n mod 256 + 256 * (n div 256)" by simp
    moreover have "n div 256 = n div 256 mod 256 + 256 * (n div 65536)"
      using mod_mult_div_eq [of "n div 256" 256] by (simp add: div_mult2_eq [symmetric])
    moreover have "n div 65536 = n div 65536 mod 256 + 256 * (n div 16777216)"
      using mod_mult_div_eq [of "n div 65536" 256] by (simp add: div_mult2_eq [symmetric])
    ultimately show ?thesis by linarith
  qed
  have "bytes_length (length_bytes n) =
    n mod 256 + 256 * (n div 256 mod 256) + 65536 * (n div 65536 mod 256) + 16777216 * (n div 16777216 mod 256)"
    by (simp add: bytes_length_def length_bytes_def unat_of_nat)
  with m d show ?thesis by simp
qed

lemma write_stream:
  assumes "sb_ok s" "\<not> is_message s" "space \<le> xLength s - 1 - sb_used s"
  shows "prvWriteMessageToBuffer xs space required s =
    Some (min (length xs) space, sb_put (take (min (length xs) space) xs) s)"
proof (cases "min (length xs) space = 0")
  case True
  then have "take (min (length xs) space) xs = []"
    by (metis take_0)
  moreover have "xs = [] \<or> space = 0"
    using True by (auto simp: min_def split: if_splits)
  ultimately show ?thesis
    using True assms by (auto simp: prvWriteMessageToBuffer_def Let_def)
next
  case False
  let ?ys = "take (min (length xs) space) xs"
  have "prvWriteBytesToBuffer ?ys (xHead s) s =
      Some (wrap (xLength s) (xHead s + length ?ys), s\<lparr>pucBuffer := ring_put (pucBuffer s) (xHead s) ?ys\<rparr>)"
    using assms False sb_bound [of s] by (intro write_bytes) (auto simp: sb_ok_def)
  with False assms show ?thesis
    by (simp add: prvWriteMessageToBuffer_def sb_put_def Let_def min.commute)
qed

definition frame :: "u8 list \<Rightarrow> u8 list" where
  "frame m = length_bytes (length m) @ m"

lemma write_message_fits:
  assumes "sb_ok s" "is_message s" "required = length xs + 4" "required \<le> xLength s - 1 - sb_used s" "xs \<noteq> []"
    "space = xLength s - 1 - sb_used s"
  shows "prvWriteMessageToBuffer xs space required s =
    Some (length xs, sb_put xs (sb_put (length_bytes (length xs)) s))"
proof -
  let ?l = "length_bytes (length xs)"
  let ?s = "s\<lparr>pucBuffer := ring_put (pucBuffer s) (xHead s) ?l\<rparr>"
  let ?n = "wrap (xLength s) (xHead s + 4)"
  have b: "xLength s + xLength s \<le> u32_bound"
    using assms(1) by (simp add: sb_bound)
  have l: "length (pucBuffer s) = xLength s" "xHead s < xLength s" "4 + length xs < xLength s"
    using assms by (auto simp: sb_ok_def)
  have "?l \<noteq> []"
    by (simp add: length_bytes_def)
  then have w1: "prvWriteBytesToBuffer ?l (xHead s) s = Some (?n, ?s)"
    using l b write_bytes [of s "xHead s" ?l] by simp
  have "prvWriteBytesToBuffer xs ?n ?s =
    Some (wrap (xLength ?s) (?n + length xs), ?s\<lparr>pucBuffer := ring_put (pucBuffer ?s) ?n xs\<rparr>)"
    using l b assms(5) by (intro write_bytes) (auto intro: wrap_less)
  with w1 assms show ?thesis
    by (simp add: prvWriteMessageToBuffer_def sb_put_def Let_def del: sb_put_Nil)
qed

lemma write_message_short:
  assumes "sb_ok s" "is_message s" "space < required"
  shows "prvWriteMessageToBuffer xs space required s = Some (0, s)"
  using assms by (simp add: prvWriteMessageToBuffer_def)

lemma write_message_empty:
  assumes "sb_ok s" "is_message s" "4 \<le> xLength s - 1 - sb_used s"
    "space = xLength s - 1 - sb_used s" "required = 4"
  shows "\<exists>s'. prvWriteMessageToBuffer [] space required s = Some (0, s') \<and> sb_ok s' \<and>
    sb_contents s' = sb_contents s \<and> s' = s\<lparr>pucBuffer := pucBuffer s'\<rparr>"
proof -
  let ?l = "length_bytes 0"
  let ?s = "s\<lparr>pucBuffer := ring_put (pucBuffer s) (xHead s) ?l\<rparr>"
  have b: "xLength s + xLength s \<le> u32_bound" and l: "length (pucBuffer s) = xLength s" "xHead s < xLength s" "4 < xLength s"
    using assms sb_bound [of s] by (auto simp: sb_ok_def)
  have "?l \<noteq> []"
    by (simp add: length_bytes_def)
  then have w: "prvWriteBytesToBuffer ?l (xHead s) s = Some (wrap (xLength s) (xHead s + 4), ?s)"
    using l b write_bytes [of s "xHead s" ?l] by simp
  have p: "sb_used s + length ?l < xLength s"
    using assms sb_used_less [of s] by simp
  have us: "sb_used ?s = sb_used s"
    by (simp add: sb_used_def)
  have "sb_contents ?s = ring (pucBuffer (sb_put ?l s)) (xTail (sb_put ?l s)) (sb_used s)"
    unfolding sb_contents_def us by (simp add: sb_put_def)
  also have "\<dots> = take (sb_used s) (sb_contents (sb_put ?l s))"
    using sb_put(3) [OF assms(1) p] by (intro sb_get(4) sb_put(1) assms(1) p) simp
  also have "\<dots> = sb_contents s"
    using sb_put(2) [OF assms(1) p] length_sb_contents [OF assms(1)] by simp
  finally have "sb_contents ?s = sb_contents s" .
  moreover have "sb_ok ?s"
    using assms(1) l by (simp add: sb_ok_def)
  ultimately show ?thesis
    using w assms by (auto simp: prvWriteMessageToBuffer_def)
qed

text \<open>Which notification a completed write or read sends.\<close>

definition wakes_reader :: "nat \<Rightarrow> StreamBuffer_t \<Rightarrow> bool" where
  "wakes_reader n s \<longleftrightarrow> n > 0 \<and> sb_used s \<ge> xTriggerLevelBytes s \<and> xTaskWaitingToReceive s \<noteq> 0"

lemma write_and_notify_ok:
  assumes "prvWriteMessageToBuffer xs space required s = Some (n, s1)" "sb_ok s1"
  shows "write_and_notify xs space required s = Some (n,
     if wakes_reader n s1 then Some (xTaskWaitingToReceive s1, uxNotificationIndex s1) else None,
     if wakes_reader n s1 then s1\<lparr>xTaskWaitingToReceive := 0\<rparr> else s1)"
  using assms by (simp add: write_and_notify_def prvSEND_COMPLETED_def bytes_in_buffer wakes_reader_def)

lemma sb_waiting [simp]:
  "sb_ok (s\<lparr>xTaskWaitingToReceive := r\<rparr>) = sb_ok s" "sb_ok (s\<lparr>xTaskWaitingToSend := r\<rparr>) = sb_ok s"
  "sb_used (s\<lparr>xTaskWaitingToReceive := r\<rparr>) = sb_used s" "sb_used (s\<lparr>xTaskWaitingToSend := r\<rparr>) = sb_used s"
  "sb_contents (s\<lparr>xTaskWaitingToReceive := r\<rparr>) = sb_contents s" "sb_contents (s\<lparr>xTaskWaitingToSend := r\<rparr>) = sb_contents s"
  "is_message (s\<lparr>xTaskWaitingToReceive := r\<rparr>) = is_message s" "is_message (s\<lparr>xTaskWaitingToSend := r\<rparr>) = is_message s"
  "is_batching (s\<lparr>xTaskWaitingToReceive := r\<rparr>) = is_batching s" "is_batching (s\<lparr>xTaskWaitingToSend := r\<rparr>) = is_batching s"
  by (simp_all add: sb_ok_def sb_used_def sb_contents_def is_message_def is_batching_def)

lemma read_stream:
  assumes "sb_ok s" "\<not> is_message s"
  shows "prvReadMessageFromBuffer n (sb_used s) s =
    Some (take n (sb_contents s), sb_get (min n (sb_used s)) s)"
proof (cases "min n (sb_used s) = 0")
  case True
  have "sb_get 0 s = s"
    using assms by (simp add: sb_get_def wrap_def sb_ok_def)
  moreover have "n = 0 \<or> sb_used s = 0"
    using True by (auto simp: min_def split: if_splits)
  moreover have "n = 0 \<or> sb_contents s = []" if "n = 0 \<or> sb_used s = 0"
    using that length_sb_contents [OF assms(1)] by auto
  ultimately show ?thesis
    using assms by (auto simp: prvReadMessageFromBuffer_def)
next
  case False
  have l: "length (pucBuffer s) = xLength s" "xTail s < xLength s" "xLength s + xLength s \<le> u32_bound"
    "min n (sb_used s) \<le> xLength s"
    using assms sb_bound [of s] sb_used_less [of s] by (auto simp: sb_ok_def)
  have "prvReadBytesFromBuffer (min n (sb_used s)) (xTail s) s =
    Some (ring (pucBuffer s) (xTail s) (min n (sb_used s)), wrap (xLength s) (xTail s + min n (sb_used s)))"
    using l False by (intro read_bytes)
  moreover have "ring (pucBuffer s) (xTail s) (min n (sb_used s)) = take n (sb_contents s)"
    using sb_get(4) [OF assms(1), of "min n (sb_used s)"] length_sb_contents [OF assms(1)]
    by (simp add: min_def)
  ultimately show ?thesis
    using False assms by (simp add: prvReadMessageFromBuffer_def sb_get_def)
qed

lemma read_message:
  assumes "sb_ok s" "is_message s" "sb_contents s = frame m @ rest" "m \<noteq> []"
  shows "prvReadMessageFromBuffer n (sb_used s) s =
    (if length m \<le> n then Some (m, sb_get (length m) (sb_get 4 s)) else Some ([], s))"
proof -
  have u: "sb_used s = 4 + length m + length rest" "4 \<le> sb_used s"
    using assms length_sb_contents [OF assms(1)] by (auto simp: frame_def)
  have b: "length (pucBuffer s) = xLength s" "xTail s < xLength s" "xLength s + xLength s \<le> u32_bound"
    "sb_used s < xLength s" "sb_used s < u32_bound"
    using assms sb_bound [of s] sb_used_less [of s] by (auto simp: sb_ok_def)
  have four: "prvReadBytesFromBuffer 4 (xTail s) s = Some (length_bytes (length m), wrap (xLength s) (xTail s + 4))"
    using b u sb_get(4) [OF assms(1), of 4] assms(3) read_bytes [of s "xTail s" 4] by (simp add: frame_def)
  have len: "bytes_length (length_bytes (length m)) = length m"
    using u b by (intro bytes_length_bytes) simp
  have av: "sub32 (sb_used s) 4 = length m + length rest"
    using u b by (simp add: u32_simps)
  let ?t = "sb_get 4 s"
  have ok: "sb_ok ?t" "sb_contents ?t = m @ rest"
    using sb_get [OF assms(1) u(2)] assms(3) by (simp_all add: frame_def)
  have "ring (pucBuffer s) (wrap (xLength s) (xTail s + 4)) (length m) = m"
    using sb_get(4) [OF ok(1), of "length m"] ok(2) sb_get(3) [OF assms(1) u(2)] u by (simp add: sb_get_def)
  moreover have "prvReadBytesFromBuffer (length m) (wrap (xLength s) (xTail s + 4)) s =
    Some (ring (pucBuffer s) (wrap (xLength s) (xTail s + 4)) (length m),
          wrap (xLength s) (wrap (xLength s) (xTail s + 4) + length m))"
    using b u assms(4) by (intro read_bytes) (auto intro: wrap_less)
  ultimately have m: "prvReadBytesFromBuffer (length m) (wrap (xLength s) (xTail s + 4)) s =
    Some (m, wrap (xLength s) (wrap (xLength s) (xTail s + 4) + length m))" by simp
  show ?thesis
    using assms(2,4) m
    by (simp add: prvReadMessageFromBuffer_def sbBYTES_TO_STORE_MESSAGE_LENGTH_def four len av sb_get_def Let_def)
qed

end
