(* ===== verification/StreamQueue.thy ===== *)
theory StreamQueue
  imports StreamBuffer
begin

text \<open>
  What a stream buffer promises: as a stream it is a \<open>byte_fifo\<close>, as a message buffer a queue of whole
  messages (the interface \<open>message_queue\<close>), its blocking send is safe against the reader, and its
  memory comes from and returns to the kernel heap. Also the one place where the batching variant
  does not do what it says.
\<close>

section \<open>Streams\<close>

text \<open>
  The interrupt variants never block: they are a push and a pop of a byte queue. What changes beyond
  the contents is only who is waiting.
\<close>

definition same_setup :: "StreamBuffer_t \<Rightarrow> StreamBuffer_t \<Rightarrow> bool" where
  "same_setup s t \<longleftrightarrow> xLength t = xLength s \<and> ucFlags t = ucFlags s \<and>
     xTriggerLevelBytes t = xTriggerLevelBytes s \<and> uxNotificationIndex t = uxNotificationIndex s"

lemma same_setup_flags: "same_setup s t \<Longrightarrow> is_message t = is_message s \<and> is_batching t = is_batching s"
  by (simp add: same_setup_def is_message_def is_batching_def)

lemma send_stream:
  assumes "sb_ok s" "\<not> is_message s" "space \<le> xLength s - 1 - sb_used s" "n = min (length xs) space"
  shows "\<exists>s'. write_and_notify xs space required s = Some (n,
      if 0 < n \<and> xTriggerLevelBytes s \<le> sb_used s + n \<and> xTaskWaitingToReceive s \<noteq> 0
      then Some (xTaskWaitingToReceive s, uxNotificationIndex s) else None, s') \<and>
    sb_ok s' \<and> sb_contents s' = sb_contents s @ take n xs \<and> same_setup s s' \<and>
    xTaskWaitingToSend s' = xTaskWaitingToSend s \<and>
    xTaskWaitingToReceive s' =
      (if 0 < n \<and> xTriggerLevelBytes s \<le> sb_used s + n then 0 else xTaskWaitingToReceive s)"
proof -
  have f: "sb_used s + length (take n xs) < xLength s" "length (take n xs) = n"
    using assms sb_used_less [of s] by auto
  note p = sb_put [OF assms(1) f(1)]
  have w: "prvWriteMessageToBuffer xs space required s = Some (n, sb_put (take n xs) s)"
    using write_stream [OF assms(1-3)] assms(4) by simp
  have r: "wakes_reader n (sb_put (take n xs) s) \<longleftrightarrow>
    0 < n \<and> xTriggerLevelBytes s \<le> sb_used s + n \<and> xTaskWaitingToReceive s \<noteq> 0"
    using p(3) f(2) by (simp add: wakes_reader_def)
  show ?thesis
    using p(1,2) by (auto simp: write_and_notify_ok [OF w p(1)] r same_setup_def)
qed

lemma receive_stream:
  assumes "sb_ok s" "\<not> is_message s" "store < sb_used s"
  shows "\<exists>w s'. read_and_notify n store (sb_used s) s = Some (take n (sb_contents s), w, s') \<and>
    sb_ok s' \<and> sb_contents s' = drop n (sb_contents s) \<and> same_setup s s' \<and>
    xTaskWaitingToReceive s' = xTaskWaitingToReceive s"
proof -
  have m: "min n (sb_used s) \<le> sb_used s" by simp
  have d: "drop (min n (sb_used s)) (sb_contents s) = drop n (sb_contents s)"
    using length_sb_contents [OF assms(1)] by (simp add: min_def)
  show ?thesis
    using assms(3) sb_get [OF assms(1) m] d
    by (auto simp: read_and_notify_def read_stream [OF assms(1,2)] prvRECEIVE_COMPLETED_def same_setup_def)
qed

definition sb_push :: "u8 list \<Rightarrow> StreamBuffer_t \<Rightarrow> (nat \<times> StreamBuffer_t) option" where
  "sb_push xs s = map_option (\<lambda>(n, _, s). (n, s)) (xStreamBufferSendFromISR xs s)"

definition sb_pop :: "nat \<Rightarrow> StreamBuffer_t \<Rightarrow> (u8 list \<times> StreamBuffer_t) option" where
  "sb_pop n s = map_option (\<lambda>(xs, _, s). (xs, s)) (xStreamBufferReceiveFromISR n s)"

definition sb_stream :: "StreamBuffer_t \<Rightarrow> bool" where
  "sb_stream s \<longleftrightarrow> sb_ok s \<and> \<not> is_message s"

definition sb_capacity :: "StreamBuffer_t \<Rightarrow> nat" where
  "sb_capacity s = xLength s - 1"

lemma sb_push_law:
  assumes "sb_stream s"
  shows "\<exists>n s'. sb_push xs s = Some (n, s') \<and> sb_stream s' \<and> n \<le> length xs \<and>
    sb_contents s' = sb_contents s @ take n xs \<and> sb_capacity s' = sb_capacity s"
proof -
  have a: "sb_ok s" "\<not> is_message s"
    using assms by (auto simp: sb_stream_def)
  obtain s' w where s': "write_and_notify xs (xLength s - 1 - sb_used s) (length xs) s =
      Some (min (length xs) (xLength s - 1 - sb_used s), w, s')" "sb_ok s'"
    "sb_contents s' = sb_contents s @ take (min (length xs) (xLength s - 1 - sb_used s)) xs" "same_setup s s'"
    using send_stream [OF a order_refl refl, where xs = xs] by blast
  then show ?thesis
    using a same_setup_flags [OF s'(4)]
    by (auto simp: sb_push_def xStreamBufferSendFromISR_def spaces_available sb_stream_def sb_capacity_def same_setup_def)
qed

lemma sb_pop_law:
  assumes "sb_stream s"
  shows "\<exists>ys s'. sb_pop n s = Some (ys, s') \<and> sb_stream s' \<and> length ys \<le> n \<and>
    sb_contents s = ys @ sb_contents s' \<and> sb_capacity s' = sb_capacity s"
proof (cases "0 < sb_used s")
  case True
  have a: "sb_ok s" "\<not> is_message s"
    using assms by (auto simp: sb_stream_def)
  obtain s' w where s': "read_and_notify n 0 (sb_used s) s = Some (take n (sb_contents s), w, s')" "sb_ok s'"
    "sb_contents s' = drop n (sb_contents s)" "same_setup s s'"
    using receive_stream [OF a True, where n = n] by blast
  then show ?thesis
    using a same_setup_flags [OF s'(4)]
    by (auto simp: sb_pop_def xStreamBufferReceiveFromISR_def bytes_in_buffer sb_stream_def sb_capacity_def same_setup_def)
next
  case False
  then show ?thesis
    using assms
    by (auto simp: sb_pop_def xStreamBufferReceiveFromISR_def read_and_notify_def bytes_in_buffer sb_stream_def)
qed

interpretation sb: byte_fifo sb_stream sb_contents sb_capacity sb_push sb_pop
proof unfold_locales
  fix s :: StreamBuffer_t
  assume "sb_stream s"
  then show "length (sb_contents s) \<le> sb_capacity s"
    using sb_used_less [of s] by (auto simp: sb_stream_def length_sb_contents sb_capacity_def)
qed (blast intro: sb_push_law sb_pop_law)+

section \<open>Messages\<close>

text \<open>The contract of a queue of messages: whole messages, in order, none split or joined.\<close>

datatype 'm mq_op = Put 'm | Take nat

fun mq_run ::
  "('m \<Rightarrow> 's \<Rightarrow> (bool \<times> 's) option) \<Rightarrow> (nat \<Rightarrow> 's \<Rightarrow> ('m option \<times> 's) option) \<Rightarrow>
   'm mq_op list \<Rightarrow> 's \<Rightarrow> ('m list \<times> 'm list \<times> 's) option" where
  "mq_run put get [] s = Some ([], [], s)"
| "mq_run put get (Put m # ops) s =
     (case put m s of None \<Rightarrow> None
      | Some (b, s1) \<Rightarrow>
          (case mq_run put get ops s1 of None \<Rightarrow> None
           | Some (acc, del, s2) \<Rightarrow> Some ((if b then [m] else []) @ acc, del, s2)))"
| "mq_run put get (Take n # ops) s =
     (case get n s of None \<Rightarrow> None
      | Some (r, s1) \<Rightarrow>
          (case mq_run put get ops s1 of None \<Rightarrow> None
           | Some (acc, del, s2) \<Rightarrow> Some (acc, (case r of None \<Rightarrow> [] | Some m \<Rightarrow> [m]) @ del, s2)))"

locale message_queue =
  fixes holds :: "'s \<Rightarrow> 'm list \<Rightarrow> bool"
    and allowed :: "'m \<Rightarrow> bool"
    and put :: "'m \<Rightarrow> 's \<Rightarrow> (bool \<times> 's) option"
    and get :: "nat \<Rightarrow> 's \<Rightarrow> ('m option \<times> 's) option"
  assumes put_law: "holds s ms \<Longrightarrow> allowed m \<Longrightarrow> \<exists>b s'. put m s = Some (b, s') \<and> holds s' (if b then ms @ [m] else ms)"
    and get_law: "holds s ms \<Longrightarrow> \<exists>r s'. get n s = Some (r, s') \<and>
      (case r of None \<Rightarrow> holds s' ms | Some m \<Rightarrow> \<exists>rest. ms = m # rest \<and> holds s' rest)"
begin

lemma run_in_order:
  assumes "holds s ms" "\<forall>m. Put m \<in> set ops \<longrightarrow> allowed m"
  shows "\<exists>acc del s' rest. mq_run put get ops s = Some (acc, del, s') \<and> holds s' rest \<and> ms @ acc = del @ rest"
  using assms
proof (induction ops arbitrary: s ms)
  case Nil
  then show ?case by auto
next
  case (Cons op ops)
  show ?case
  proof (cases op)
    case (Put m)
    then obtain b s1 where p: "put m s = Some (b, s1)" "holds s1 (if b then ms @ [m] else ms)"
      using put_law [OF Cons.prems(1), of m] Cons.prems(2) by auto
    obtain acc del s' rest where r: "mq_run put get ops s1 = Some (acc, del, s')" "holds s' rest"
      "(if b then ms @ [m] else ms) @ acc = del @ rest"
      using Cons.IH [OF p(2)] Cons.prems(2) by auto
    then show ?thesis
      using Put p by (cases b) auto
  next
    case (Take n)
    obtain r s1 where g: "get n s = Some (r, s1)"
      "case r of None \<Rightarrow> holds s1 ms | Some m \<Rightarrow> \<exists>rest. ms = m # rest \<and> holds s1 rest"
      using get_law [OF Cons.prems(1), of n] by blast
    show ?thesis
    proof (cases r)
      case None
      with g Cons.IH [of s1 ms] Cons.prems(2) Take show ?thesis by fastforce
    next
      case (Some m)
      with g obtain ms' where "ms = m # ms'" "holds s1 ms'" by auto
      with g Some Cons.IH [of s1 ms'] Cons.prems(2) Take show ?thesis by fastforce
    qed
  qed
qed

end

definition sb_holds :: "StreamBuffer_t \<Rightarrow> u8 list list \<Rightarrow> bool" where
  "sb_holds s ms \<longleftrightarrow> sb_ok s \<and> is_message s \<and> sb_contents s = concat (map frame ms) \<and> [] \<notin> set ms"

lemma send_message:
  assumes "sb_holds s ms" "length xs + 4 < u32_bound"
  shows "\<exists>s'. write_and_notify xs (xStreamBufferSpacesAvailable s) (length xs + 4) s = Some (
      if xs \<noteq> [] \<and> length xs + 4 \<le> xStreamBufferSpacesAvailable s then length xs else 0,
      if xs \<noteq> [] \<and> length xs + 4 \<le> xStreamBufferSpacesAvailable s \<and> xTaskWaitingToReceive s \<noteq> 0 \<and>
         xTriggerLevelBytes s \<le> sb_used s + 4 + length xs
      then Some (xTaskWaitingToReceive s, uxNotificationIndex s) else None, s') \<and>
    sb_holds s' (if xs \<noteq> [] \<and> length xs + 4 \<le> xStreamBufferSpacesAvailable s then ms @ [xs] else ms) \<and>
    same_setup s s'"
proof -
  have a: "sb_ok s" "is_message s" "sb_contents s = concat (map frame ms)" "[] \<notin> set ms"
    using assms(1) by (auto simp: sb_holds_def)
  have sp: "xStreamBufferSpacesAvailable s = xLength s - 1 - sb_used s"
    using a(1) by (rule spaces_available)
  consider "length xs + 4 > xStreamBufferSpacesAvailable s"
    | "xs = []" "4 \<le> xStreamBufferSpacesAvailable s"
    | "xs \<noteq> []" "length xs + 4 \<le> xStreamBufferSpacesAvailable s"
    by fastforce
  then show ?thesis
  proof cases
    case 1
    with a assms(1) show ?thesis
      using write_and_notify_ok [OF write_message_short [OF a(1,2) 1, of xs] a(1)]
      by (auto simp: wakes_reader_def same_setup_def)
  next
    case 2
    have four: "4 \<le> xLength s - 1 - sb_used s"
      using 2(2) sp by simp
    obtain s' where s': "prvWriteMessageToBuffer [] (xStreamBufferSpacesAvailable s) 4 s = Some (0, s')" "sb_ok s'"
      "sb_contents s' = sb_contents s" "s' = s\<lparr>pucBuffer := pucBuffer s'\<rparr>"
      using write_message_empty [OF a(1,2) four sp refl] by blast
    have f: "ucFlags s' = ucFlags s" "same_setup s s'"
      by (subst s'(4), simp add: same_setup_def)+
    then show ?thesis
      using 2 a s' write_and_notify_ok [OF s'(1,2)]
      by (auto simp: wakes_reader_def sb_holds_def is_message_def)
  next
    case 3
    let ?l = "length_bytes (length xs)"
    have fit: "length xs + 4 \<le> xLength s - 1 - sb_used s"
      using 3(2) sp by simp
    then have f1: "sb_used s + length ?l < xLength s"
      using sb_used_less [OF a(1)] by simp
    note p1 = sb_put [OF a(1) f1]
    have f2: "sb_used (sb_put ?l s) + length xs < xLength (sb_put ?l s)"
      using fit p1(3) sb_used_less [OF a(1)] by simp
    note p2 = sb_put [OF p1(1) f2]
    have w: "prvWriteMessageToBuffer xs (xStreamBufferSpacesAvailable s) (length xs + 4) s =
      Some (length xs, sb_put xs (sb_put ?l s))"
      using a(1,2) refl fit 3(1) sp by (rule write_message_fits)
    have r: "wakes_reader (length xs) (sb_put xs (sb_put ?l s)) \<longleftrightarrow>
      xTriggerLevelBytes s \<le> sb_used s + 4 + length xs \<and> xTaskWaitingToReceive s \<noteq> 0"
      using p2(3) p1(3) 3(1) by (simp add: wakes_reader_def)
    have h: "sb_holds (sb_put xs (sb_put ?l s)) (ms @ [xs])"
      using p1 p2 a 3(1) by (simp add: sb_holds_def frame_def)
    then have "sb_holds ((sb_put xs (sb_put ?l s))\<lparr>xTaskWaitingToReceive := 0\<rparr>) (ms @ [xs])"
      by (simp add: sb_holds_def)
    then show ?thesis
      using 3 h by (auto simp: write_and_notify_ok [OF w p2(1)] r same_setup_def)
  qed
qed

lemma receive_message:
  assumes "sb_holds s ms"
  shows "\<exists>w s'. read_and_notify n 4 (sb_used s) s = Some (
      case ms of [] \<Rightarrow> [] | m # _ \<Rightarrow> if length m \<le> n then m else [], w, s') \<and>
    sb_holds s' (case ms of [] \<Rightarrow> [] | m # rest \<Rightarrow> if length m \<le> n then rest else ms) \<and> same_setup s s'"
proof (cases ms)
  case Nil
  then have "sb_used s = 0"
    using assms length_sb_contents [of s] by (auto simp: sb_holds_def)
  with Nil assms show ?thesis
    by (simp add: read_and_notify_def same_setup_def)
next
  case (Cons m rest)
  have a: "sb_ok s" "is_message s" "sb_contents s = frame m @ concat (map frame rest)" "m \<noteq> []" "[] \<notin> set rest"
    using assms Cons by (auto simp: sb_holds_def)
  have u: "sb_used s = 4 + length m + length (concat (map frame rest))"
    using a(3) length_sb_contents [OF a(1)] by (simp add: frame_def)
  then have "4 < sb_used s"
    using a(4) by (cases m) auto
  moreover note rd = read_message [OF a(1-4), of n]
  show ?thesis
  proof (cases "length m \<le> n")
    case True
    have u4: "4 \<le> sb_used s" using u by simp
    note g1 = sb_get [OF a(1) u4]
    have um: "length m \<le> sb_used (sb_get 4 s)"
      using g1(3) u by simp
    note g2 = sb_get [OF g1(1) um]
    have "sb_holds (sb_get (length m) (sb_get 4 s)) rest"
      using g1 g2 a by (simp add: sb_holds_def frame_def)
    moreover from this have "sb_holds ((sb_get (length m) (sb_get 4 s))\<lparr>xTaskWaitingToSend := 0\<rparr>) rest"
      by (simp add: sb_holds_def)
    ultimately show ?thesis
      using True Cons a(4) \<open>4 < sb_used s\<close>
      by (auto simp: read_and_notify_def rd prvRECEIVE_COMPLETED_def same_setup_def)
  next
    case False
    then show ?thesis
      using Cons assms \<open>4 < sb_used s\<close> by (simp add: read_and_notify_def rd same_setup_def)
  qed
qed

definition sb_put_message :: "u8 list \<Rightarrow> StreamBuffer_t \<Rightarrow> (bool \<times> StreamBuffer_t) option" where
  "sb_put_message m s = map_option (\<lambda>(n, _, s). (0 < n, s)) (xStreamBufferSendFromISR m s)"

definition sb_take_message :: "nat \<Rightarrow> StreamBuffer_t \<Rightarrow> (u8 list option \<times> StreamBuffer_t) option" where
  "sb_take_message n s =
     map_option (\<lambda>(xs, _, s). (if xs = [] then None else Some xs, s)) (xStreamBufferReceiveFromISR n s)"

definition sendable :: "u8 list \<Rightarrow> bool" where
  "sendable m \<longleftrightarrow> length m + 4 < u32_bound"

lemma sb_holds_flags: "sb_holds s ms \<Longrightarrow> sb_ok s \<and> is_message s"
  by (simp add: sb_holds_def)

lemma message_space: "sendable m \<Longrightarrow> add32 (length m) sbBYTES_TO_STORE_MESSAGE_LENGTH = length m + 4"
  by (simp add: sendable_def sbBYTES_TO_STORE_MESSAGE_LENGTH_def u32_simps)

interpretation mq: message_queue sb_holds sendable sb_put_message sb_take_message
proof unfold_locales
  fix s ms m
  assume h: "sb_holds s ms" and m: "sendable m"
  let ?b = "m \<noteq> [] \<and> length m + 4 \<le> xStreamBufferSpacesAvailable s"
  obtain n w s' where s': "write_and_notify m (xStreamBufferSpacesAvailable s) (length m + 4) s = Some (n, w, s')"
    "n = (if ?b then length m else 0)" "sb_holds s' (if ?b then ms @ [m] else ms)"
    using send_message [OF h, of m] m by (auto simp: sendable_def)
  then have "sb_put_message m s = Some (?b, s')"
    using sb_holds_flags [OF h] message_space [OF m]
    by (cases ?b) (auto simp: sb_put_message_def xStreamBufferSendFromISR_def)
  with s'(3) show "\<exists>b s'. sb_put_message m s = Some (b, s') \<and> sb_holds s' (if b then ms @ [m] else ms)"
    by blast
next
  fix s ms n
  assume h: "sb_holds s ms"
  obtain w s' where s': "read_and_notify n 4 (sb_used s) s = Some (
      case ms of [] \<Rightarrow> [] | m # _ \<Rightarrow> if length m \<le> n then m else [], w, s')"
    "sb_holds s' (case ms of [] \<Rightarrow> [] | m # rest \<Rightarrow> if length m \<le> n then rest else ms)"
    using receive_message [OF h, of n] by blast
  have ne: "m \<noteq> []" if "m \<in> set ms" for m
    using h that by (auto simp: sb_holds_def)
  have "sb_take_message n s = Some (case ms of [] \<Rightarrow> None | m # _ \<Rightarrow> if length m \<le> n then Some m else None, s')"
    using s'(1) sb_holds_flags [OF h] ne
    by (cases ms) (auto simp: sb_take_message_def xStreamBufferReceiveFromISR_def bytes_in_buffer
        sbBYTES_TO_STORE_MESSAGE_LENGTH_def)
  with s'(2) show "\<exists>r s'. sb_take_message n s = Some (r, s') \<and>
      (case r of None \<Rightarrow> sb_holds s' ms | Some m \<Rightarrow> \<exists>rest. ms = m # rest \<and> sb_holds s' rest)"
    by (cases ms) auto
qed

lemma new_buffer:
  assumes "0 < sz" "sz < 2147483648"
  shows "sb_ok (prvInitialiseNewStreamBuffer (sz + 1) t f)"
    "sb_contents (prvInitialiseNewStreamBuffer (sz + 1) t f) = []"
    "sb_used (prvInitialiseNewStreamBuffer (sz + 1) t f) = 0"
  using assms by (simp_all add: sb_ok_def sb_contents_def sb_used_def prvInitialiseNewStreamBuffer_def)

section \<open>Properties\<close>

text \<open>
  C36. A stream buffer is a first-in first-out queue of bytes that holds as many bytes as it was
  created for: on a new buffer every history of sends and receives passes all assertions and stays
  inside the storage, what was received followed by what is still stored is exactly what the
  sends accepted, and never more than \<open>sz\<close> bytes are outstanding.
\<close>

theorem stream_buffer_fifo:
  assumes "0 < sz" "sz < 2147483648"
  shows "\<exists>acc del s. fifo_run sb_push sb_pop ops (prvInitialiseNewStreamBuffer (sz + 1) trigger 0) = Some (acc, del, s) \<and>
    acc = del @ sb_contents s \<and> length acc \<le> length del + sz"
proof -
  have "sb_stream (prvInitialiseNewStreamBuffer (sz + 1) trigger 0)"
    using new_buffer(1) [OF assms] by (simp add: sb_stream_def is_message_def prvInitialiseNewStreamBuffer_def)
  moreover have "sb_capacity (prvInitialiseNewStreamBuffer (sz + 1) trigger 0) = sz"
    by (simp add: sb_capacity_def prvInitialiseNewStreamBuffer_def)
  ultimately show ?thesis
    using sb.run_from_empty [OF _ new_buffer(2) [OF assms], where ops = ops and t1 = trigger and f1 = 0]
    by metis
qed

theorem stream_buffer_fifo_witness:
  "\<exists>acc del s. fifo_run sb_push sb_pop [Push [1, 2, 3], Pop 2, Push [4, 5, 6, 7], Pop 9]
     (prvInitialiseNewStreamBuffer (4 + 1) 1 0) = Some (acc, del, s) \<and>
     acc = del @ sb_contents s \<and> length acc \<le> length del + 4"
  by (rule stream_buffer_fifo) simp_all

text \<open>
  C37. A message buffer delivers whole messages in order: on a new buffer every history of sends
  and receives (with receive buffers of any size) passes all assertions, and the messages received,
  followed by those still held, are exactly the messages accepted, none split, joined, or lost.
\<close>

theorem message_buffer_keeps_messages:
  assumes "0 < sz" "sz < 2147483648" "\<forall>m. Put m \<in> set ops \<longrightarrow> length m + 4 < u32_bound"
  shows "\<exists>acc del s rest. mq_run sb_put_message sb_take_message ops
      (prvInitialiseNewStreamBuffer (sz + 1) trigger sbFLAGS_IS_MESSAGE_BUFFER) = Some (acc, del, s) \<and>
    acc = del @ rest \<and> sb_contents s = concat (map frame rest)"
proof -
  have "sb_holds (prvInitialiseNewStreamBuffer (sz + 1) trigger sbFLAGS_IS_MESSAGE_BUFFER) []"
    using new_buffer [OF assms(1,2)]
    by (simp add: sb_holds_def is_message_def prvInitialiseNewStreamBuffer_def sbFLAGS_IS_MESSAGE_BUFFER_def)
  from mq.run_in_order [OF this, of ops] assms(3) show ?thesis
    by (auto simp: sendable_def sb_holds_def)
qed

theorem message_buffer_keeps_messages_witness:
  "\<exists>acc del s rest. mq_run sb_put_message sb_take_message [Put [1, 2, 3], Take 2, Put [4], Take 8]
      (prvInitialiseNewStreamBuffer (20 + 1) 1 sbFLAGS_IS_MESSAGE_BUFFER) = Some (acc, del, s) \<and>
    acc = del @ rest \<and> sb_contents s = concat (map frame rest)"
  by (rule message_buffer_keeps_messages) (auto simp: u32_bound_def)

text \<open>
  C38. Sending to a message buffer without waiting stores the whole message or nothing: it is stored
  exactly when it is not empty and its length and the 4 bytes of the length prefix fit in the space.
  The next length reported is then the length of the oldest message, a receive with a large enough
  buffer gets exactly that message, and a receive with a smaller one gets nothing and leaves it there.
\<close>

theorem message_round_trip:
  assumes "sb_holds s ms" "m \<noteq> []" "length m + 4 \<le> xStreamBufferSpacesAvailable s"
  shows "\<exists>w s1. xStreamBufferSend me m 0 [] s = Some (length m, w, s1) \<and> sb_holds s1 (ms @ [m]) \<and>
    xStreamBufferNextMessageLengthBytes s1 = Some (length (hd (ms @ [m]))) \<and>
    (if length (hd (ms @ [m])) \<le> n
     then \<exists>w s2. xStreamBufferReceive me n 0 [] s1 = Some (hd (ms @ [m]), w, s2) \<and> sb_holds s2 (tl (ms @ [m]))
     else xStreamBufferReceive me n 0 [] s1 = Some ([], None, s1))"
proof -
  note a = sb_holds_flags [OF assms(1)]
  have sp: "xStreamBufferSpacesAvailable s = xLength s - 1 - sb_used s" "xStreamBufferSpacesAvailable s < u32_bound"
    using a sb_bound [of s] by (auto simp: spaces_available)
  have len: "add32 (length m) 4 = length m + 4"
    using assms(3) sp by (simp add: u32_simps)
  obtain w s1 where s1: "write_and_notify m (xStreamBufferSpacesAvailable s) (length m + 4) s = Some (length m, w, s1)"
    "sb_holds s1 (ms @ [m])"
    using send_message [OF assms(1), of m] assms(2,3) sp by auto
  have send: "xStreamBufferSend me m 0 [] s = Some (length m, w, s1)"
    using s1(1) a assms(3) by (simp add: xStreamBufferSend_def sbBYTES_TO_STORE_MESSAGE_LENGTH_def len Let_def)
  note b = sb_holds_flags [OF s1(2)]
  obtain x rest where x: "ms @ [m] = x # rest" by (cases "ms @ [m]") auto
  have c: "sb_contents s1 = frame x @ concat (map frame rest)" "x \<noteq> []"
    using s1(2) x by (auto simp: sb_holds_def)
  have "sb_used s1 = 4 + length x + length (concat (map frame rest))" "0 < length x"
    using c b length_sb_contents [of s1] by (simp_all add: frame_def)
  then have u: "4 + length x \<le> sb_used s1" "4 < sb_used s1" by linarith+
  have lt: "sb_used s1 < xLength s1" "length (pucBuffer s1) = xLength s1" "xTail s1 < xLength s1"
    "xLength s1 + xLength s1 \<le> u32_bound"
    using b sb_used_less [of s1] sb_bound [of s1] by (auto simp: sb_ok_def)
  have "prvReadBytesFromBuffer 4 (xTail s1) s1 = Some (length_bytes (length x), wrap (xLength s1) (xTail s1 + 4))"
    using sb_get(4) [of s1 4] b u c(1) lt read_bytes [of s1 "xTail s1" 4] by (simp add: frame_def)
  then have next_len: "xStreamBufferNextMessageLengthBytes s1 = Some (length x)"
    using b u lt bytes_length_bytes [of "length x"]
    by (simp add: xStreamBufferNextMessageLengthBytes_def bytes_in_buffer sbBYTES_TO_STORE_MESSAGE_LENGTH_def)
  have rc: "xStreamBufferReceive me n 0 [] s1 = read_and_notify n 4 (sb_used s1) s1"
    using b by (simp add: xStreamBufferReceive_def bytes_in_buffer sbBYTES_TO_STORE_MESSAGE_LENGTH_def)
  show ?thesis
  proof (cases "length x \<le> n")
    case True
    obtain w s2 where s2: "read_and_notify n 4 (sb_used s1) s1 = Some (x, w, s2)" "sb_holds s2 rest"
      using receive_message [OF s1(2), of n] x True by auto
    with send s1(2) next_len rc x True show ?thesis by simp
  next
    case False
    then have "read_and_notify n 4 (sb_used s1) s1 = Some ([], None, s1)"
      using b c u read_message [of s1 x "concat (map frame rest)" n] by (simp add: read_and_notify_def)
    with send s1(2) next_len rc x False show ?thesis by simp
  qed
qed

theorem message_round_trip_witness:
  "\<exists>w s1. xStreamBufferSend 1 [7, 8] 0 [] (prvInitialiseNewStreamBuffer 11 1 sbFLAGS_IS_MESSAGE_BUFFER) = Some (2, w, s1) \<and>
    xStreamBufferNextMessageLengthBytes s1 = Some 2"
proof -
  let ?s = "prvInitialiseNewStreamBuffer (10 + 1) 1 sbFLAGS_IS_MESSAGE_BUFFER"
  have h: "sb_holds ?s []"
    using new_buffer [of 10]
    by (simp add: sb_holds_def is_message_def prvInitialiseNewStreamBuffer_def sbFLAGS_IS_MESSAGE_BUFFER_def)
  have "xStreamBufferSpacesAvailable ?s = 10"
    using new_buffer [of 10] by (simp add: spaces_available prvInitialiseNewStreamBuffer_def)
  then show ?thesis
    using message_round_trip [OF h, of "[7, 8]" 1 2] by auto
qed

text \<open>What a reader may do to the buffer while the writer is blocked.\<close>

definition reads_only :: "(StreamBuffer_t \<Rightarrow> StreamBuffer_t) \<Rightarrow> bool" where
  "reads_only f \<longleftrightarrow> (\<forall>s. sb_ok s \<longrightarrow> sb_ok (f s) \<and> same_setup s (f s) \<and>
     (\<exists>k. sb_contents (f s) = drop k (sb_contents s)))"

lemma reads_onlyE:
  assumes "reads_only f" "sb_ok s"
  obtains k where "sb_ok (f s)" "same_setup s (f s)" "sb_contents (f s) = drop k (sb_contents s)"
    "sb_used (f s) \<le> sb_used s"
proof -
  obtain k where k: "sb_ok (f s)" "same_setup s (f s)" "sb_contents (f s) = drop k (sb_contents s)"
    using assms by (auto simp: reads_only_def)
  then have "sb_used (f s) \<le> sb_used s"
    using assms(2) length_sb_contents [of s] length_sb_contents [of "f s"] by simp
  with k show ?thesis by (rule that)
qed

lemma same_setup_trans: "same_setup s t \<Longrightarrow> same_setup t u \<Longrightarrow> same_setup s u"
  by (simp add: same_setup_def)

lemma same_setup_waiting [simp]:
  "same_setup s (t\<lparr>xTaskWaitingToSend := r\<rparr>) = same_setup s t"
  "same_setup (s\<lparr>xTaskWaitingToSend := r\<rparr>) t = same_setup s t" "same_setup s s"
  by (simp_all add: same_setup_def)

lemma send_wait_returns:
  assumes "sb_ok s" "xTaskWaitingToSend s = 0" "\<forall>(f, t) \<in> set ws. reads_only f" "\<exists>f. (f, True) \<in> set ws"
  shows "\<exists>space s1 k. send_wait me required ws s = Some (space, s1) \<and> sb_ok s1 \<and> same_setup s s1 \<and>
    sb_contents s1 = drop k (sb_contents s) \<and> space \<le> xLength s1 - 1 - sb_used s1 \<and> xTaskWaitingToSend s1 = 0"
  using assms
proof (induction ws arbitrary: s)
  case Nil
  then show ?case by simp
next
  case (Cons w ws)
  obtain f t where w: "w = (f, t)" by (cases w)
  show ?case
  proof (cases "xStreamBufferSpacesAvailable s < required")
    case False
    then show ?thesis
      using Cons.prems(1,2) w by (intro exI [of _ "xStreamBufferSpacesAvailable s"] exI [of _ s] exI [of _ 0])
        (simp add: spaces_available)
  next
    case True
    let ?s = "s\<lparr>xTaskWaitingToSend := me\<rparr>"
    let ?t = "(f ?s)\<lparr>xTaskWaitingToSend := 0\<rparr>"
    have f: "reads_only f" "sb_ok ?s"
      using Cons.prems w by simp_all
    obtain k where k: "sb_ok (f ?s)" "same_setup ?s (f ?s)" "sb_contents (f ?s) = drop k (sb_contents ?s)"
      "sb_used (f ?s) \<le> sb_used ?s"
      by (rule reads_onlyE [OF f])
    show ?thesis
    proof (cases t)
      case t: True
      have "send_wait me required (w # ws) s = Some (xStreamBufferSpacesAvailable s, ?t)"
        using True t w Cons.prems(2) by (simp add: Let_def)
      moreover have "xStreamBufferSpacesAvailable s \<le> xLength ?t - 1 - sb_used ?t"
        using k(2,4) Cons.prems(1) by (simp add: spaces_available same_setup_def)
      ultimately show ?thesis
        using k by (intro exI [of _ "xStreamBufferSpacesAvailable s"] exI [of _ ?t] exI [of _ k]) simp
    next
      case t: False
      obtain space s1 j where i: "send_wait me required ws ?t = Some (space, s1)" "sb_ok s1" "same_setup ?t s1"
        "sb_contents s1 = drop j (sb_contents ?t)" "space \<le> xLength s1 - 1 - sb_used s1" "xTaskWaitingToSend s1 = 0"
        using Cons.IH [of ?t] k(1) Cons.prems(3,4) w t by auto
      have "send_wait me required (w # ws) s = send_wait me required ws ?t"
        using True t w Cons.prems(2) by (simp add: Let_def)
      moreover have "same_setup s s1"
        using i(3) k(2) by (auto simp: same_setup_def)
      ultimately show ?thesis
        using i k by (intro exI [of _ space] exI [of _ s1] exI [of _ "j + k"]) simp
    qed
  qed
qed

text \<open>
  A blocking send to a stream is safe against its reader: however often the call blocks and
  whatever the reader takes meanwhile, if some wait ends by time-out the call returns, no assertion
  fails, and the buffer then holds what the reader left followed by exactly the reported number of
  bytes of the data; the buffer is left without a waiting writer. Without waiting it stores as many
  bytes as there was space for.
\<close>

theorem blocking_send_keeps_order:
  assumes "sb_ok s" "\<not> is_message s" "xTaskWaitingToSend s = 0" "length xs < u32_bound"
    "\<forall>(f, t) \<in> set ws. reads_only f" "\<exists>f. (f, True) \<in> set ws"
  shows "\<exists>n w s' k. xStreamBufferSend me xs ticks ws s = Some (n, w, s') \<and> sb_ok s' \<and> n \<le> length xs \<and>
    sb_contents s' = drop k (sb_contents s) @ take n xs \<and> xTaskWaitingToSend s' = 0 \<and>
    (ticks = 0 \<longrightarrow> k = 0 \<and> n = min (length xs) (xStreamBufferSpacesAvailable s))"
proof -
  define required where "required = (if length xs > sub32 (xLength s) 1 then sub32 (xLength s) 1 else length xs)"
  define waited where "waited = (if ticks \<noteq> 0 then send_wait me required ws s else Some (0, s))"
  obtain space s1 k where w: "waited = Some (space, s1)" "sb_ok s1" "same_setup s s1"
    "sb_contents s1 = drop k (sb_contents s)" "space \<le> xLength s1 - 1 - sb_used s1" "xTaskWaitingToSend s1 = 0"
    "ticks = 0 \<longrightarrow> k = 0 \<and> s1 = s \<and> space = 0"
  proof (cases "ticks = 0")
    case True
    with assms(1,3) show ?thesis by (intro that [of 0 s 0]) (auto simp: waited_def)
  next
    case False
    with send_wait_returns [OF assms(1,3,5,6), of me required] that show ?thesis
      by (auto simp: waited_def)
  qed
  define space' where "space' = (if space = 0 then xStreamBufferSpacesAvailable s1 else space)"
  have m: "\<not> is_message s1"
    using assms(2) same_setup_flags [OF w(3)] by simp
  have sp: "space' \<le> xLength s1 - 1 - sb_used s1"
    using w(2,5) by (simp add: space'_def spaces_available)
  obtain v s' where s': "write_and_notify xs space' required s1 = Some (min (length xs) space', v, s')" "sb_ok s'"
    "sb_contents s' = sb_contents s1 @ take (min (length xs) space') xs" "xTaskWaitingToSend s' = xTaskWaitingToSend s1"
    using send_stream [OF w(2) m sp refl] by blast
  have "xStreamBufferSend me xs ticks ws s =
    (case waited of None \<Rightarrow> None
     | Some (space, t) \<Rightarrow> write_and_notify xs (if space = 0 then xStreamBufferSpacesAvailable t else space) required t)"
    using assms(2) by (simp add: xStreamBufferSend_def waited_def required_def Let_def split: option.splits)
  also have "\<dots> = Some (min (length xs) space', v, s')"
    using w(1) s'(1) by (simp add: space'_def)
  finally have "xStreamBufferSend me xs ticks ws s = Some (min (length xs) space', v, s')" .
  moreover have "ticks = 0 \<longrightarrow> k = 0 \<and> min (length xs) space' = min (length xs) (xStreamBufferSpacesAvailable s)"
    using w(7) by (simp add: space'_def)
  ultimately show ?thesis
    using s'(2-4) w(4,6)
    by (intro exI [of _ "min (length xs) space'"] exI [of _ v] exI [of _ s'] exI [of _ k]) simp
qed

theorem blocking_send_keeps_order_witness:
  "\<exists>n w s' k. xStreamBufferSend 1 [1, 2, 3] 10 [(id, True)] (prvInitialiseNewStreamBuffer (2 + 1) 1 0) = Some (n, w, s') \<and>
    n \<le> 3 \<and> sb_contents s' = drop k [] @ take n [1, 2, 3]"
proof -
  have "\<exists>n w s' k. xStreamBufferSend 1 [1, 2, 3] 10 [(id, True)] (prvInitialiseNewStreamBuffer (2 + 1) 1 0) = Some (n, w, s') \<and>
    sb_ok s' \<and> n \<le> length [1, 2, 3 :: u8] \<and>
    sb_contents s' = drop k (sb_contents (prvInitialiseNewStreamBuffer (2 + 1) 1 0)) @ take n [1, 2, 3] \<and>
    xTaskWaitingToSend s' = 0 \<and>
    ((10 :: nat) = 0 \<longrightarrow> k = 0 \<and> n = min (length [1, 2, 3 :: u8]) (xStreamBufferSpacesAvailable (prvInitialiseNewStreamBuffer (2 + 1) 1 0)))"
    using new_buffer(1) [of 2]
    by (intro blocking_send_keeps_order)
      (auto simp: is_message_def prvInitialiseNewStreamBuffer_def u32_bound_def reads_only_def intro: exI [of _ 0])
  then show ?thesis
    using new_buffer(2) [of 2] by (auto simp del: drop_Nil)
qed

text \<open>
  C39. A batching buffer wakes its reader one byte too early. When a send brings the level to exactly
  the trigger level, the waiting reader is notified and no longer registered, but its receive call,
  resuming, finds that the level does not exceed the trigger level and returns no data, whether or
  not its time-out has passed.
\<close>

theorem batching_reader_woken_for_nothing:
  assumes "sb_ok s" "is_batching s" "\<not> is_message s" "xs \<noteq> []" "sb_used s + length xs = xTriggerLevelBytes s"
    "xTriggerLevelBytes s < xLength s" "xTaskWaitingToReceive s = 0" "reader \<noteq> 0" "ticks \<noteq> 0"
  shows "\<exists>s1. xStreamBufferSendFromISR xs (s\<lparr>xTaskWaitingToReceive := reader\<rparr>) =
      Some (length xs, Some (reader, uxNotificationIndex s), s1) \<and>
    xStreamBufferReceive reader n ticks [(\<lambda>t. snd (snd (the (xStreamBufferSendFromISR xs t))), timed_out)] s = Some ([], None, s1) \<and>
    sb_contents s1 = sb_contents s @ xs"
proof -
  let ?s = "s\<lparr>xTaskWaitingToReceive := reader\<rparr>"
  have a: "sb_ok ?s" "\<not> is_message ?s" "length xs = min (length xs) (xLength ?s - 1 - sb_used ?s)"
    using assms by auto
  obtain s1 where s1: "write_and_notify xs (xLength ?s - 1 - sb_used ?s) (length xs) ?s = Some (length xs,
      Some (reader, uxNotificationIndex s), s1)" "sb_ok s1" "sb_contents s1 = sb_contents s @ xs"
    "same_setup ?s s1" "xTaskWaitingToReceive s1 = 0"
    using send_stream [OF a(1,2) order_refl a(3), where required = "length xs"] assms by auto
  have send: "xStreamBufferSendFromISR xs ?s = Some (length xs, Some (reader, uxNotificationIndex s), s1)"
    using s1(1) a by (simp add: xStreamBufferSendFromISR_def spaces_available)
  have u: "sb_used s1 = xTriggerLevelBytes s"
    using s1(2,3) assms(1,5) length_sb_contents [of s1] length_sb_contents [of s] by simp
  have w: "s1\<lparr>xTaskWaitingToReceive := 0\<rparr> = s1"
    using s1(5) by simp
  have "sb_used s \<le> xTriggerLevelBytes s"
    using assms(5) by simp
  then have "xStreamBufferReceive reader n ticks [(\<lambda>t. snd (snd (the (xStreamBufferSendFromISR xs t))), timed_out)] s =
    Some ([], None, s1)"
    using assms send w u s1(2)
    by (simp add: xStreamBufferReceive_def bytes_in_buffer Let_def read_and_notify_def)
  with send s1(3) show ?thesis by blast
qed

theorem batching_reader_woken_for_nothing_witness:
  "\<exists>s1. xStreamBufferReceive 5 16 100 [(\<lambda>t. snd (snd (the (xStreamBufferSendFromISR [1, 2, 3, 4] t))), False)]
      (prvInitialiseNewStreamBuffer (8 + 1) 4 sbFLAGS_IS_BATCHING_BUFFER) = Some ([], None, s1) \<and> sb_contents s1 = [1, 2, 3, 4]"
proof -
  let ?s = "prvInitialiseNewStreamBuffer (8 + 1) 4 sbFLAGS_IS_BATCHING_BUFFER"
  have a: "sb_ok ?s" "sb_contents ?s = []" "sb_used ?s = 0"
    by (rule new_buffer; simp)+
  have "is_batching ?s" "\<not> is_message ?s" "sb_used ?s + length [1, 2, 3, 4 :: u8] = xTriggerLevelBytes ?s"
    "xTriggerLevelBytes ?s < xLength ?s" "xTaskWaitingToReceive ?s = 0"
    using a(3) by (simp_all add: is_batching_def is_message_def prvInitialiseNewStreamBuffer_def sbFLAGS_IS_BATCHING_BUFFER_def
        sbFLAGS_IS_MESSAGE_BUFFER_def)
  from batching_reader_woken_for_nothing [OF a(1) this(1,2) _ this(3-5), of 5 100 16 False] a(2) show ?thesis
    by auto
qed

text \<open>
  Creating a stream buffer and deleting it again is balanced: creation either finds no memory
  and changes nothing, or returns an empty buffer of the wanted capacity whose structure and storage
  lie in one fresh allocation apart from all others; deleting it succeeds and gives back exactly
  the memory it took.
\<close>

theorem stream_buffer_create_delete:
  assumes "heap_live h es" "0 < sz" "sz < 2147483648" "trigger \<le> sz"
  shows "xStreamBufferGenericCreate sz trigger sbTYPE_STREAM_BUFFER h = Some (None, h) \<or>
    (\<exists>p k s h1. xStreamBufferGenericCreate sz trigger sbTYPE_STREAM_BUFFER h = Some (Some (p, s), h1) \<and>
       heap_live h1 ((p, k) # es) \<and> extents_apart ((p, k) # es) \<and> sizeof_StreamBuffer_t + xLength s \<le> k \<and>
       sb_stream s \<and> sb_contents s = [] \<and> sb_capacity s = sz \<and> 0 < xTriggerLevelBytes s \<and>
       (\<exists>h2. vStreamBufferDelete p s h1 = Some (None, h2) \<and> heap_live h2 es \<and>
          xPortGetFreeHeapSize h2 = xPortGetFreeHeapSize h))"
proof -
  have n: "add32 sz 1 = sz + 1" "add32 (sz + 1) 40 = sz + 41" "sz + 41 < u32_bound"
    using assms(3) by (auto simp: u32_simps u32_bound_def)
  define t where "t = (if trigger = 0 then 1 else trigger)"
  let ?b = "prvInitialiseNewStreamBuffer (sz + 1) t 0"
  have c: "xStreamBufferGenericCreate sz trigger sbTYPE_STREAM_BUFFER h =
    (case pvPortMalloc (sz + 41) h of None \<Rightarrow> None
     | Some (p, h) \<Rightarrow> Some (if p \<noteq> 0 then Some (p, ?b) else None, h))"
    using assms n by (simp add: xStreamBufferGenericCreate_def sbTYPE_STREAM_BUFFER_def sbTYPE_MESSAGE_BUFFER_def
        sbTYPE_STREAM_BATCHING_BUFFER_def sizeof_StreamBuffer_t_def Let_def t_def del: One_nat_def split: option.splits)
  have b: "sb_stream ?b" "sb_contents ?b = []" "sb_capacity ?b = sz" "ucFlags ?b = 0" "xLength ?b = sz + 1"
    "0 < xTriggerLevelBytes ?b"
    using new_buffer [OF assms(2,3)]
    by (auto simp: sb_stream_def is_message_def sb_capacity_def prvInitialiseNewStreamBuffer_def t_def)
  from hp.alloc_law [OF assms(1) n(3)] show ?thesis
  proof
    assume "pvPortMalloc (sz + 41) h = Some (0, h)"
    with c show ?thesis by simp
  next
    assume "\<exists>p k s'. pvPortMalloc (sz + 41) h = Some (p, s') \<and> p \<noteq> 0 \<and> sz + 41 \<le> k \<and> heap_live s' ((p, k) # es) \<and>
      xPortGetFreeHeapSize h = xPortGetFreeHeapSize s' + k + 8"
    then obtain p k h1 where p: "pvPortMalloc (sz + 41) h = Some (p, h1)" "p \<noteq> 0" "sz + 41 \<le> k"
      "heap_live h1 ((p, k) # es)" "xPortGetFreeHeapSize h = xPortGetFreeHeapSize h1 + k + 8"
      by blast
    obtain h2 where h2: "vPortFree p h1 = Some h2" "heap_live h2 es" "xPortGetFreeHeapSize h2 = xPortGetFreeHeapSize h1 + k + 8"
      using hp.release_law [OF p(4), of p k] by auto
    have "vStreamBufferDelete p ?b h1 = Some (None, h2)"
      using p(2) h2(1) b(4) by (simp add: vStreamBufferDelete_def)
    moreover have "xStreamBufferGenericCreate sz trigger sbTYPE_STREAM_BUFFER h = Some (Some (p, ?b), h1)"
      using c p(1,2) by simp
    moreover have "extents_apart ((p, k) # es)"
      using hp.apart_law [OF p(4)] by simp
    ultimately show ?thesis
      using p h2 b unfolding sizeof_StreamBuffer_t_def
      by (intro disjI2 exI [of _ p] exI [of _ k] exI [of _ ?b] exI [of _ h1]) auto
  qed
qed

theorem stream_buffer_create_delete_witness:
  "xStreamBufferGenericCreate 100 10 sbTYPE_STREAM_BUFFER boot_heap = Some (None, boot_heap) \<or>
   (\<exists>p s h1 h2. xStreamBufferGenericCreate 100 10 sbTYPE_STREAM_BUFFER boot_heap = Some (Some (p, s), h1) \<and>
      sb_capacity s = 100 \<and> vStreamBufferDelete p s h1 = Some (None, h2))"
proof -
  have "heap_live boot_heap []"
    using boot_heap_ok(1) unfolding heap_live_def
    by (intro exI [of _ boot_free] exI [of _ "[]"]) (simp add: live_extents_def)
  from stream_buffer_create_delete [OF this, of 100 10] show ?thesis by auto
qed

end
