(* ===== verification/TaskLists.thy ===== *)
theory TaskLists
  imports KernelLists
begin

text \<open>
  The task lists of the scheduler, one level above \<open>list.c\<close>. Every task control block embeds two
  list items, its state item and its event item; \<open>tasks.c\<close> moves them between its own lists and
  the event lists of queues and event groups. Here a list is the sequence of its items together
  with the item the round-robin walk stands at, and the operations are those the lemmas of
  \<open>KernelLists\<close> show \<open>list.c\<close> to implement: \<open>stored s T\<close> relates the two levels, and each operation
  is simulated by the code's.
\<close>

section \<open>State and operations\<close>

type_synonym tid = nat

datatype item = StateItem tid | EventItem tid

fun owner :: "item \<Rightarrow> tid" where
  "owner (StateItem t) = t"
| "owner (EventItem t) = t"

datatype lname =
    Ready nat | Delayed1 | Delayed2 | PendingReady | WaitingTermination | Suspended
  | EventList nat

record task_lists =
  items :: "lname \<Rightarrow> item list"
  walk :: "lname \<Rightarrow> item option"
  item_value :: "item \<Rightarrow> nat"
  container :: "item \<Rightarrow> lname option"

definition position :: "item option \<Rightarrow> item list \<Rightarrow> nat" where
  "position w xs = (case w of None \<Rightarrow> length xs - 1 | Some j \<Rightarrow> length (takeWhile (\<lambda>x. x \<noteq> j) xs))"

definition init_list :: "lname \<Rightarrow> task_lists \<Rightarrow> task_lists" where
  "init_list l T = T\<lparr>items := (items T)(l := []), walk := (walk T)(l := None)\<rparr>"

definition init_item :: "item \<Rightarrow> task_lists \<Rightarrow> task_lists" where
  "init_item i T = T\<lparr>container := (container T)(i := None)\<rparr>"

definition set_value :: "item \<Rightarrow> nat \<Rightarrow> task_lists \<Rightarrow> task_lists" where
  "set_value i v T = T\<lparr>item_value := (item_value T)(i := v)\<rparr>"

definition put_end :: "item option \<Rightarrow> item \<Rightarrow> item list \<Rightarrow> item list" where
  "put_end w i xs =
     (case w of None \<Rightarrow> xs @ [i]
      | Some j \<Rightarrow> takeWhile (\<lambda>x. x \<noteq> j) xs @ i # dropWhile (\<lambda>x. x \<noteq> j) xs)"

definition put_sorted :: "(item \<Rightarrow> nat) \<Rightarrow> item \<Rightarrow> item list \<Rightarrow> item list" where
  "put_sorted val i xs =
     takeWhile (\<lambda>x. val x \<le> val i) xs @ i # dropWhile (\<lambda>x. val x \<le> val i) xs"

definition insert_end :: "lname \<Rightarrow> item \<Rightarrow> task_lists \<Rightarrow> task_lists" where
  "insert_end l i T =
     T\<lparr>items := (items T)(l := put_end (walk T l) i (items T l)),
       container := (container T)(i := Some l)\<rparr>"

definition insert_ordered :: "lname \<Rightarrow> item \<Rightarrow> task_lists \<Rightarrow> task_lists" where
  "insert_ordered l i T =
     T\<lparr>items := (items T)(l := put_sorted (item_value T) i (items T l)),
       container := (container T)(i := Some l)\<rparr>"

definition before :: "item \<Rightarrow> item list \<Rightarrow> item option" where
  "before i xs = (case takeWhile (\<lambda>x. x \<noteq> i) xs of [] \<Rightarrow> None | y # ys \<Rightarrow> Some (last (y # ys)))"

text \<open>Removing an item that is in no list dereferences its null container.\<close>

definition remove_item :: "item \<Rightarrow> task_lists \<Rightarrow> (nat \<times> task_lists) option" where
  "remove_item i T =
     (case container T i of
        None \<Rightarrow> None
      | Some l \<Rightarrow>
          Some (length (items T l) - 1,
            T\<lparr>items := (items T)(l := remove1 i (items T l)),
              walk := (walk T)(l := (if walk T l = Some i then before i (items T l) else walk T l)),
              container := (container T)(i := None)\<rparr>))"

definition next_entry :: "lname \<Rightarrow> task_lists \<Rightarrow> tid \<times> task_lists" where
  "next_entry l T =
     (let xs = items T l; i = xs ! (Suc (position (walk T l) xs) mod length xs)
      in (owner i, T\<lparr>walk := (walk T)(l := Some i)\<rparr>))"

lemmas list_defs = init_list_def init_item_def set_value_def insert_end_def insert_ordered_def
  remove_item_def next_entry_def

text \<open>
  Well-formedness: an item is in the list its container names and in no other, once, and the walk
  of a list stands at its end marker or at an item of the list.
\<close>

definition lists_ok :: "task_lists \<Rightarrow> bool" where
  "lists_ok T \<longleftrightarrow>
     (\<forall>i l. container T i = Some l \<longleftrightarrow> i \<in> set (items T l)) \<and>
     (\<forall>l. distinct (items T l)) \<and>
     (\<forall>l. walk T l = None \<or> (\<exists>i \<in> set (items T l). walk T l = Some i))"

lemma lists_okD:
  assumes "lists_ok T"
  shows "container T i = Some l \<longleftrightarrow> i \<in> set (items T l)" "distinct (items T l)"
    "walk T l = Some i \<Longrightarrow> i \<in> set (items T l)"
  using assms unfolding lists_ok_def by (auto, metis option.inject option.discI)

lemma lists_ok_free: "lists_ok T \<Longrightarrow> container T i = None \<Longrightarrow> i \<notin> set (items T l)"
  using lists_okD(1) [of T i l] by auto

lemma lists_ok_apart: "lists_ok T \<Longrightarrow> i \<in> set (items T k) \<Longrightarrow> i \<in> set (items T l) \<Longrightarrow> k = l"
  using lists_okD(1) [of T i k] lists_okD(1) [of T i l] by auto

lemma set_put_end [simp]: "set (put_end w i xs) = insert i (set xs)"
proof -
  have "set (takeWhile P xs) \<union> set (dropWhile P xs) = set xs" for P
    by (metis set_append takeWhile_dropWhile_id)
  then show ?thesis
    by (auto simp: put_end_def split: option.splits)
qed

lemma set_put_sorted [simp]: "set (put_sorted val i xs) = insert i (set xs)"
proof -
  have "set (takeWhile P xs) \<union> set (dropWhile P xs) = set xs" for P
    by (metis set_append takeWhile_dropWhile_id)
  then show ?thesis
    by (auto simp: put_sorted_def)
qed

lemma distinct_put:
  assumes "distinct xs" "i \<notin> set xs"
  shows "distinct (takeWhile P xs @ i # dropWhile P xs)"
proof -
  have "distinct (takeWhile P xs @ dropWhile P xs)" "i \<notin> set (takeWhile P xs @ dropWhile P xs)"
    using assms by simp_all
  then show ?thesis by (auto simp del: takeWhile_dropWhile_id)
qed

lemma distinct_put_end [simp]: "distinct xs \<Longrightarrow> i \<notin> set xs \<Longrightarrow> distinct (put_end w i xs)"
  using distinct_put [of xs i] by (cases w) (simp_all add: put_end_def)

lemma distinct_put_sorted [simp]: "distinct xs \<Longrightarrow> i \<notin> set xs \<Longrightarrow> distinct (put_sorted val i xs)"
  unfolding put_sorted_def by (rule distinct_put)

lemma length_put [simp]: "length (put_end w i xs) = Suc (length xs)" "length (put_sorted val i xs) = Suc (length xs)"
proof -
  have "length (takeWhile P xs) + length (dropWhile P xs) = length xs" for P
    by (metis length_append takeWhile_dropWhile_id)
  then show "length (put_end w i xs) = Suc (length xs)" "length (put_sorted val i xs) = Suc (length xs)"
    by (simp_all add: put_end_def put_sorted_def split: option.splits)
qed

lemma put_not_Nil [simp]: "put_end w i xs \<noteq> []" "put_sorted val i xs \<noteq> []"
  by (auto simp: put_end_def put_sorted_def split: option.splits)

lemma sorted_put_sorted:
  assumes "sorted (map val xs)"
  shows "sorted (map val (put_sorted val i xs))"
proof -
  let ?P = "\<lambda>x. val x \<le> val i"
  have s: "sorted (map val (takeWhile ?P xs) @ map val (dropWhile ?P xs))"
    using assms by (metis map_append takeWhile_dropWhile_id)
  have "val i \<le> val x" if "x \<in> set (dropWhile ?P xs)" for x
  proof (cases "dropWhile ?P xs")
    case (Cons z zs)
    then have "val i < val z"
      using hd_dropWhile [of ?P xs] by simp
    moreover have "val z \<le> val x"
      using s that Cons by (auto simp: sorted_append)
    ultimately show ?thesis by simp
  next
    case Nil
    with that show ?thesis by (metis empty_iff list.set(1))
  qed
  then show ?thesis
    using s by (auto simp: put_sorted_def sorted_append dest: set_takeWhileD)
qed

lemma before_in: "before i xs = Some j \<Longrightarrow> j \<in> set xs \<and> j \<noteq> i"
proof -
  assume "before i xs = Some j"
  then obtain y ys where "takeWhile (\<lambda>x. x \<noteq> i) xs = y # ys" "j = last (y # ys)"
    by (auto simp: before_def split: list.splits)
  then have "j \<in> set (takeWhile (\<lambda>x. x \<noteq> i) xs)"
    by (metis last_in_set list.distinct(1))
  then show ?thesis
    by (auto dest: set_takeWhileD)
qed
lemma lists_okI:
  assumes "\<And>i l. container T i = Some l \<longleftrightarrow> i \<in> set (items T l)" "\<And>l. distinct (items T l)"
    "\<And>l i. walk T l = Some i \<Longrightarrow> i \<in> set (items T l)"
  shows "lists_ok T"
  unfolding lists_ok_def using assms by (metis not_None_eq)

lemma lists_ok_insert_end:
  assumes "lists_ok T" "container T i = None"
  shows "lists_ok (insert_end l i T)"
  by (rule lists_okI)
    (use lists_okD [OF assms(1)] lists_ok_free [OF assms] in \<open>auto simp: insert_end_def split: if_splits\<close>)

lemma lists_ok_insert_ordered:
  assumes "lists_ok T" "container T i = None"
  shows "lists_ok (insert_ordered l i T)"
  by (rule lists_okI)
    (use lists_okD [OF assms(1)] lists_ok_free [OF assms] in \<open>auto simp: insert_ordered_def split: if_splits\<close>)

lemma remove_item_eq:
  assumes "lists_ok T" "i \<in> set (items T l)"
  shows "remove_item i T = Some (length (items T l) - 1,
    T\<lparr>items := (items T)(l := remove1 i (items T l)),
      walk := (walk T)(l := (if walk T l = Some i then before i (items T l) else walk T l)),
      container := (container T)(i := None)\<rparr>)"
  using lists_okD(1) [OF assms(1), of i l] assms(2) by (simp add: remove_item_def)

lemma lists_ok_remove:
  assumes "lists_ok T" "remove_item i T = Some (n, T')"
  shows "lists_ok T'"
proof -
  obtain l where l: "container T i = Some l"
    using assms(2) by (auto simp: remove_item_def split: option.splits)
  then have i: "i \<in> set (items T l)"
    using lists_okD(1) [OF assms(1)] by simp
  have T': "T' = T\<lparr>items := (items T)(l := remove1 i (items T l)),
      walk := (walk T)(l := (if walk T l = Some i then before i (items T l) else walk T l)),
      container := (container T)(i := None)\<rparr>"
    using remove_item_eq [OF assms(1) i] assms(2) by simp
  show ?thesis
  proof (rule lists_okI)
    fix j k
    show "container T' j = Some k \<longleftrightarrow> j \<in> set (items T' k)"
      using lists_okD(1,2) [OF assms(1)] lists_ok_apart [OF assms(1) i] by (auto simp: T')
    show "distinct (items T' k)"
      using lists_okD(2) [OF assms(1)] by (simp add: T' distinct_remove1)
    assume "walk T' k = Some j"
    then show "j \<in> set (items T' k)"
      using lists_okD(2,3) [OF assms(1)] by (auto simp: T' dest: before_in split: if_splits)
  qed
qed

text \<open>What removing an item returns and leaves.\<close>

lemma remove_item_fields:
  assumes "lists_ok T" "container T i = Some l"
  obtains T' where "remove_item i T = Some (length (items T l) - 1, T')" "lists_ok T'"
    "items T' = (items T)(l := remove1 i (items T l))" "container T' = (container T)(i := None)"
    "item_value T' = item_value T" "\<And>k. k \<noteq> l \<Longrightarrow> walk T' k = walk T k"
    "walk T' l = (if walk T l = Some i then before i (items T l) else walk T l)"
proof -
  have "i \<in> set (items T l)"
    using lists_okD(1) [OF assms(1)] assms(2) by simp
  from remove_item_eq [OF assms(1) this] lists_ok_remove [OF assms(1)] that show ?thesis
    by simp
qed

lemma position_less:
  assumes "lists_ok T" "items T l \<noteq> []"
  shows "position (walk T l) (items T l) < length (items T l)"
proof (cases "walk T l")
  case None
  with assms show ?thesis by (simp add: position_def)
next
  case (Some j)
  then obtain p where "p < length (items T l)" "j = items T l ! p"
    using lists_okD(3) [OF assms(1)] by (metis in_set_conv_nth)
  moreover have "length (takeWhile (\<lambda>x. x \<noteq> xs ! p) xs) = p" if "distinct xs" "p < length xs" for xs :: "item list" and p
    using that
  proof (induction xs arbitrary: p)
    case (Cons x xs)
    then show ?case by (cases p) auto
  qed simp
  ultimately show ?thesis
    using Some lists_okD(2) [OF assms(1)] by (simp add: position_def)
qed

lemma next_entry_in:
  assumes "items T l \<noteq> []"
  shows "\<exists>i \<in> set (items T l). next_entry l T = (owner i, T\<lparr>walk := (walk T)(l := Some i)\<rparr>)"
  using assms by (auto simp: next_entry_def Let_def intro!: bexI nth_mem)

lemma lists_ok_next:
  assumes "lists_ok T" "items T l \<noteq> []"
  shows "lists_ok (snd (next_entry l T))"
proof -
  obtain i where "i \<in> set (items T l)" "snd (next_entry l T) = T\<lparr>walk := (walk T)(l := Some i)\<rparr>"
    using next_entry_in [OF assms(2)] by auto
  then show ?thesis
    by (intro lists_okI) (use lists_okD [OF assms(1)] in \<open>auto split: if_splits\<close>)
qed

lemma insert_fields [simp]:
  "items (insert_end l i T) = (items T)(l := put_end (walk T l) i (items T l))"
  "container (insert_end l i T) = (container T)(i := Some l)"
  "item_value (insert_end l i T) = item_value T" "walk (insert_end l i T) = walk T"
  "items (insert_ordered l i T) = (items T)(l := put_sorted (item_value T) i (items T l))"
  "container (insert_ordered l i T) = (container T)(i := Some l)"
  "item_value (insert_ordered l i T) = item_value T" "walk (insert_ordered l i T) = walk T"
  "items (set_value i v T) = items T" "container (set_value i v T) = container T"
  "walk (set_value i v T) = walk T" "item_value (set_value i v T) = (item_value T)(i := v)"
  by (simp_all add: insert_end_def insert_ordered_def set_value_def)

lemma lists_ok_set_value [simp]: "lists_ok (set_value i v T) = lists_ok T"
  by (simp add: lists_ok_def)

section \<open>The lists are stored the way \<open>list.c\<close> keeps them\<close>

text \<open>Numbers for the items and lists of the store.\<close>

fun item_code :: "item \<Rightarrow> nat" where
  "item_code (StateItem t) = 2 * t"
| "item_code (EventItem t) = 2 * t + 1"

fun list_code :: "lname \<Rightarrow> nat" where
  "list_code Delayed1 = 0"
| "list_code Delayed2 = 1"
| "list_code PendingReady = 2"
| "list_code WaitingTermination = 3"
| "list_code Suspended = 4"
| "list_code (Ready p) = 2 * p + 5"
| "list_code (EventList e) = 2 * e + 6"

lemma item_code_inject [simp]: "item_code i = item_code j \<longleftrightarrow> i = j"
  by (cases i; cases j; simp) presburger+

lemma list_code_inject [simp]: "list_code k = list_code l \<longleftrightarrow> k = l"
  by (cases k; cases l; simp) presburger+

definition stored :: "store \<Rightarrow> task_lists \<Rightarrow> bool" where
  "stored s T \<longleftrightarrow>
     (\<exists>A. rep (range list_code) s A \<and> (\<forall>l. A (list_code l) = map item_code (items T l))) \<and>
     (\<forall>l. pxIndex (list_at s (list_code l)) =
        (case walk T l of None \<Rightarrow> End (list_code l) | Some i \<Rightarrow> Item (item_code i))) \<and>
     (\<forall>i. value_of s (Item (item_code i)) = item_value T i) \<and>
     (\<forall>i. pxContainer (node_at s (Item (item_code i))) = map_option list_code (container T i)) \<and>
     (\<forall>i. pvOwner (node_at s (Item (item_code i))) = owner i)"

lemma map_put_end: "map item_code (put_end w i xs) =
  insert_before (case w of None \<Rightarrow> End n | Some j \<Rightarrow> Item (item_code j)) (item_code i) (map item_code xs)"
  by (simp add: put_end_def insert_before_def takeWhile_map dropWhile_map comp_def split: option.splits)

lemma map_put_sorted:
  assumes "\<And>i. val' (item_code i) = val i"
  shows "map item_code (put_sorted val i xs) = insert_sorted val' (item_code i) (map item_code xs)"
  by (simp add: put_sorted_def insert_sorted_def takeWhile_map dropWhile_map comp_def assms)
text \<open>Every operation of this level is the one of \<open>list.c\<close> on the stored lists.\<close>

lemma stored_insert_end:
  assumes "stored s T" "container T i = None" "length (items T l) + 1 < u32_bound"
  shows "stored (vListInsertEnd (list_code l) (item_code i) s) (insert_end l i T)"
proof -
  let ?s = "vListInsertEnd (list_code l) (item_code i) s"
  obtain A where A: "rep (range list_code) s A" "\<And>l. A (list_code l) = map item_code (items T l)"
    using assms(1) by (auto simp: stored_def)
  have S: "pxIndex (list_at s (list_code k)) = (case walk T k of None \<Rightarrow> End (list_code k) | Some i \<Rightarrow> Item (item_code i))"
    "pxContainer (node_at s (Item (item_code j))) = map_option list_code (container T j)" for k j
    using assms(1) by (simp_all add: stored_def)
  have r: "rep (range list_code) ?s (A(list_code l := insert_before (pxIndex (list_at s (list_code l))) (item_code i) (A (list_code l))))"
    "same_fields s ?s" "same_index s ?s"
    using vListInsertEnd_rep [OF A(1), of "list_code l" "item_code i"] assms(2,3) by (simp_all add: S A(2))
  let ?B = "A(list_code l := map item_code (items (insert_end l i T) l))"
  have "rep (range list_code) ?s ?B"
    using r(1) by (simp add: S A(2) map_put_end [of _ _ _ "list_code l"])
  moreover have "\<forall>k. ?B (list_code k) = map item_code (items (insert_end l i T) k)"
    by (simp add: A(2))
  ultimately have "\<exists>B. rep (range list_code) ?s B \<and> (\<forall>k. B (list_code k) = map item_code (items (insert_end l i T) k))"
    by blast
  moreover have "pxContainer (node_at ?s (Item (item_code j))) = map_option list_code (container (insert_end l i T) j)" for j
    using S(2) [of j] by (auto simp: vListInsertEnd_def Let_def upd_node_def upd_list_def)
  ultimately show ?thesis
    using assms(1) r(2,3) by (simp add: stored_def same_fields_def same_index_def)
qed

lemma upd_container:
  "pxContainer (node_at (set_next a b s) n) = pxContainer (node_at s n)"
  "pxContainer (node_at (set_prev a b s) n) = pxContainer (node_at s n)"
  "pxContainer (node_at (upd_node (\<lambda>x. x\<lparr>pxContainer := c\<rparr>) a s) n) = (if n = a then c else pxContainer (node_at s n))"
  "node_at (upd_list f l s) = node_at s"
  by (simp_all add: upd_node_def upd_list_def)

lemma vListInsert_container:
  assumes "vListInsert l i s = Some s'"
  shows "pxContainer (node_at s' (Item j)) = (if j = i then Some l else pxContainer (node_at s (Item j)))"
  using assms by (auto simp: vListInsert_def Let_def upd_container split: option.splits)

lemma stored_insert_ordered:
  assumes "stored s T" "container T i = None" "length (items T l) + 1 < u32_bound"
  shows "\<exists>s'. vListInsert (list_code l) (item_code i) s = Some s' \<and> stored s' (insert_ordered l i T)"
proof -
  obtain A where A: "rep (range list_code) s A" "\<And>l. A (list_code l) = map item_code (items T l)"
    using assms(1) by (auto simp: stored_def)
  have S: "pxContainer (node_at s (Item (item_code j))) = map_option list_code (container T j)"
    "value_of s (Item (item_code j)) = item_value T j" for j
    using assms(1) by (simp_all add: stored_def)
  obtain s' where s': "vListInsert (list_code l) (item_code i) s = Some s'"
    "rep (range list_code) s' (A(list_code l := insert_sorted (\<lambda>j. value_of s (Item j)) (item_code i) (A (list_code l))))"
    "same_fields s s'" "same_index s s'"
    using vListInsert_rep [OF A(1), of "list_code l" "item_code i"] assms(2,3) by (auto simp: S A(2))
  let ?B = "A(list_code l := map item_code (items (insert_ordered l i T) l))"
  have "rep (range list_code) s' ?B"
    using s'(2) by (simp add: A(2) map_put_sorted [of "\<lambda>j. value_of s (Item j)"] S(2))
  moreover have "\<forall>k. ?B (list_code k) = map item_code (items (insert_ordered l i T) k)"
    by (simp add: A(2))
  ultimately have "\<exists>B. rep (range list_code) s' B \<and> (\<forall>k. B (list_code k) = map item_code (items (insert_ordered l i T) k))"
    by blast
  moreover have "pxContainer (node_at s' (Item (item_code j))) = map_option list_code (container (insert_ordered l i T) j)" for j
    using S(1) [of j] vListInsert_container [OF s'(1)] by simp
  ultimately show ?thesis
    using assms(1) s'(1,3,4) by (simp add: stored_def same_fields_def same_index_def)
qed

lemma list_rep_prev:
  assumes "list_rep s k (map item_code xs)" "i \<in> set xs"
  shows "prev_of s (Item (item_code i)) = (case before i xs of None \<Rightarrow> End k | Some j \<Rightarrow> Item (item_code j))"
proof -
  obtain ys zs where xs: "xs = ys @ i # zs" "i \<notin> set ys"
    using assms(2) by (meson split_list_first)
  have "linked (next_of s) (prev_of s) (End k) (map item_code ys @ item_code i # map item_code zs) (End k)"
    using assms(1) xs(1) by (simp add: list_rep_def)
  then have "linked (next_of s) (prev_of s) (End k) (map item_code ys) (Item (item_code i))"
    by (simp add: linked_mid)
  then have "prev_of s (Item (item_code i)) = last_node (End k) (map item_code ys)"
    using linked_ends(2) by blast
  moreover have "takeWhile (\<lambda>x. x \<noteq> i) xs = ys"
    using xs by (simp add: takeWhile_append)
  ultimately show ?thesis
    by (cases ys) (auto simp: before_def last_node_def last_map)
qed

lemma stored_remove_item:
  assumes "stored s T" "lists_ok T" "remove_item i T = Some (n, T')"
  shows "\<exists>s'. uxListRemove (item_code i) s = Some (n, s') \<and> stored s' T'"
proof -
  obtain A where A: "rep (range list_code) s A" "\<And>l. A (list_code l) = map item_code (items T l)"
    using assms(1) by (auto simp: stored_def)
  obtain l where l: "container T i = Some l"
    using assms(3) by (auto simp: remove_item_def split: option.splits)
  then have i: "i \<in> set (items T l)"
    using lists_okD(1) [OF assms(2)] by simp
  have T': "n = length (items T l) - 1" "items T' = (items T)(l := remove1 i (items T l))"
    "container T' = (container T)(i := None)" "item_value T' = item_value T"
    "walk T' k = (if k = l \<and> walk T l = Some i then before i (items T l) else walk T k)" for k
    using assms(3) by (auto simp: remove_item_eq [OF assms(2) i])
  have S: "pxIndex (list_at s (list_code k)) = (case walk T k of None \<Rightarrow> End (list_code k) | Some i \<Rightarrow> Item (item_code i))"
    "pxContainer (node_at s (Item (item_code j))) = map_option list_code (container T j)" for k j
    using assms(1) by (simp_all add: stored_def)
  have ic: "item_code i \<in> set (A (list_code l))"
    using i by (simp add: A(2))
  obtain s' where s': "uxListRemove (item_code i) s = Some (length (A (list_code l)) - 1, s')"
    "rep (range list_code) s' (A(list_code l := remove1 (item_code i) (A (list_code l))))" "same_fields s s'"
    "\<And>k. pxIndex (list_at s' k) = (if k = list_code l \<and> pxIndex (list_at s (list_code l)) = Item (item_code i)
       then prev_of s (Item (item_code i)) else pxIndex (list_at s k))"
    using uxListRemove_rep [OF A(1) rangeI ic] by blast
  have inj: "map item_code (remove1 i xs) = remove1 (item_code i) (map item_code xs)" for xs
    by (induction xs) auto
  have "\<exists>B. rep (range list_code) s' B \<and> (\<forall>k. B (list_code k) = map item_code (items T' k))"
    using s'(2) by (intro exI [of _ "A(list_code l := remove1 (item_code i) (A (list_code l)))"]) (simp add: A(2) T'(2) inj)
  moreover have "pxIndex (list_at s' (list_code k)) =
      (case walk T' k of None \<Rightarrow> End (list_code k) | Some i \<Rightarrow> Item (item_code i))" for k
    using list_rep_prev [of s "list_code l" "items T l" i] rep_listD [OF A(1), of "list_code l"] i
    by (cases "k = l") (auto simp: s'(4) S T'(5) A(2) split: option.splits)
  moreover have "pxContainer (node_at s' (Item (item_code j))) = map_option list_code (container T' j)" for j
  proof -
    have m: "inj item_code"
      by (simp add: inj_def)
    have c: "pxContainer (node_at s' (Item (item_code j))) = Some k \<longleftrightarrow>
        (\<exists>x. k = list_code x \<and> container T' j = Some x)" for k
    proof -
      have "pxContainer (node_at s' (Item (item_code j))) = Some k \<longleftrightarrow>
          (\<exists>x. k = list_code x \<and> item_code j \<in> set (map item_code (items T' x)))"
        using rep_container [OF s'(2), of "item_code j" k] by (auto simp: A(2) T'(2) inj [symmetric] split: if_splits)
      also have "\<dots> \<longleftrightarrow> (\<exists>x. k = list_code x \<and> container T' j = Some x)"
        using lists_okD(1) [OF lists_ok_remove [OF assms(2,3)]] m by (auto simp: inj_image_mem_iff)
      finally show ?thesis .
    qed
    show ?thesis
      using c by (cases "pxContainer (node_at s' (Item (item_code j)))"; cases "container T' j") auto
  qed
  ultimately show ?thesis
    using assms(1) s'(1,3) T'(1,4) by (auto simp: stored_def same_fields_def A(2))
qed

lemma stored_next_entry:
  assumes "stored s T" "lists_ok T" "items T l \<noteq> []"
  shows "\<exists>s'. listGET_OWNER_OF_NEXT_ENTRY (list_code l) s = (fst (next_entry l T), s') \<and> stored s' (snd (next_entry l T))"
proof -
  obtain A where A: "rep (range list_code) s A" "\<And>l. A (list_code l) = map item_code (items T l)"
    using assms(1) by (auto simp: stored_def)
  have S: "pxIndex (list_at s (list_code k)) = (case walk T k of None \<Rightarrow> End (list_code k) | Some i \<Rightarrow> Item (item_code i))"
    "pvOwner (node_at s (Item (item_code j))) = owner j" for k j
    using assms(1) by (simp_all add: stored_def)
  have pos: "index_pos (pxIndex (list_at s (list_code l))) (A (list_code l)) = position (walk T l) (items T l)"
    by (simp add: S A(2) index_pos_def position_def takeWhile_map comp_def split: option.splits)
  define i where "i = items T l ! (Suc (position (walk T l) (items T l)) mod length (items T l))"
  have ne: "A (list_code l) \<noteq> []" and len: "length (A (list_code l)) = length (items T l)"
    using assms(3) by (simp_all add: A(2))
  have nth: "A (list_code l) ! (Suc (position (walk T l) (items T l)) mod length (items T l)) = item_code i"
    using assms(3) by (simp add: A(2) i_def)
  obtain s' where s': "listGET_OWNER_OF_NEXT_ENTRY (list_code l) s = (owner i, s')" "rep (range list_code) s' A"
    "node_at s' = node_at s" "pxIndex (list_at s' (list_code l)) = Item (item_code i)"
    using next_entry_step [OF A(1) rangeI ne, unfolded pos] by (auto simp: nth S(2) len)
  have "pxIndex (list_at s' (list_code k)) = pxIndex (list_at s (list_code k))" if "k \<noteq> l" for k
    using s'(1) that by (auto simp: listGET_OWNER_OF_NEXT_ENTRY_def Let_def upd_list_def split: if_splits)
  then show ?thesis
    using assms(1) s' A(2) by (auto simp: next_entry_def Let_def stored_def i_def [symmetric])
qed

end
