(* ===== verification/Tasks.thy ===== *)
theory Tasks
  imports TaskLists Heap5Free "HOL-Library.Monad_Syntax"
begin

text \<open>
  The scheduler, \<open>freertos-kernel/tasks.c\<close>, in the configuration of \<open>FreeRTOSConfig_Gen.h\<close>: one
  core, preemption and time slicing, 18 priorities, port-optimised task selection, dynamic
  allocation. The static variables are the fields of the record \<open>kernel\<close>, the task control blocks
  a map from their addresses (0 is the null pointer; an address without a block is freed or foreign
  memory). \<open>None\<close> is a failed assertion, an access through a pointer to no task, or an insertion of
  an item that is still in a list. \<open>pendsv\<close> is the pending bit of the PendSV interrupt, which every
  \<open>portYIELD\<close> sets and whose handler calls \<open>vTaskSwitchContext\<close>.
\<close>

unbundle bit_operations_syntax

section \<open>State\<close>

datatype notify_state = NotWaiting | Waiting | Received

record TCB =
  uxPriority :: nat
  uxBasePriority :: nat
  uxMutexesHeld :: nat
  uxTCBNumber :: nat
  pxStack :: addr
  ulRunTimeCounter :: nat
  ulNotifiedValue :: "32 word"
  ucNotifyState :: notify_state
  ucDelayAborted :: bool

record kernel =
  tcbs :: "tid \<Rightarrow> TCB option"
  klists :: task_lists
  pxCurrentTCB :: tid
  pxDelayedTaskList :: lname
  pxOverflowDelayedTaskList :: lname
  uxDeletedTasksWaitingCleanUp :: nat
  uxCurrentNumberOfTasks :: nat
  xTickCount :: nat
  uxTopReadyPriority :: "32 word"
  xSchedulerRunning :: bool
  xPendedTicks :: nat
  xYieldPending :: bool
  xNumOfOverflows :: nat
  uxTaskNumber :: nat
  xNextTaskUnblockTime :: nat
  xIdleTaskHandle :: tid
  uxSchedulerSuspended :: nat
  ulTaskSwitchedInTime :: nat
  pendsv :: bool

definition configMAX_PRIORITIES :: nat where "configMAX_PRIORITIES = 18"
definition configMINIMAL_STACK_SIZE :: nat where "configMINIMAL_STACK_SIZE = 90"

text \<open>Size of a task control block on this port: the 118 bytes of its fields, rounded up to words.\<close>

definition sizeof_TCB_t :: nat where "sizeof_TCB_t = 120"
definition sizeof_StackType_t :: nat where "sizeof_StackType_t = 4"

definition upd_tcb :: "tid \<Rightarrow> (TCB \<Rightarrow> TCB) \<Rightarrow> kernel \<Rightarrow> kernel option" where
  "upd_tcb t f k = map_option (\<lambda>b. k\<lparr>tcbs := (tcbs k)(t := Some (f b))\<rparr>) (tcbs k t)"

definition portYIELD_WITHIN_API :: "kernel \<Rightarrow> kernel" where
  "portYIELD_WITHIN_API k = k\<lparr>pendsv := True\<rparr>"

section \<open>List operations on the kernel's lists\<close>

definition list_insert_end :: "lname \<Rightarrow> item \<Rightarrow> kernel \<Rightarrow> kernel option" where
  "list_insert_end l i k =
     (if container (klists k) i = None then Some (k\<lparr>klists := insert_end l i (klists k)\<rparr>) else None)"

definition list_insert :: "lname \<Rightarrow> item \<Rightarrow> kernel \<Rightarrow> kernel option" where
  "list_insert l i k =
     (if container (klists k) i = None then Some (k\<lparr>klists := insert_ordered l i (klists k)\<rparr>) else None)"

definition list_remove :: "item \<Rightarrow> kernel \<Rightarrow> (nat \<times> kernel) option" where
  "list_remove i k = map_option (\<lambda>(n, T). (n, k\<lparr>klists := T\<rparr>)) (remove_item i (klists k))"

definition list_set_value :: "item \<Rightarrow> nat \<Rightarrow> kernel \<Rightarrow> kernel" where
  "list_set_value i v k = k\<lparr>klists := set_value i v (klists k)\<rparr>"

text \<open>Remove an item if it is in a list.\<close>

definition list_remove_if :: "item \<Rightarrow> kernel \<Rightarrow> kernel option" where
  "list_remove_if i k =
     (if container (klists k) i \<noteq> None then map_option snd (list_remove i k) else Some k)"

section \<open>Ready lists\<close>

definition portRECORD_READY_PRIORITY :: "nat \<Rightarrow> 32 word \<Rightarrow> 32 word" where
  "portRECORD_READY_PRIORITY p r = r OR push_bit p 1"

definition portRESET_READY_PRIORITY :: "nat \<Rightarrow> 32 word \<Rightarrow> 32 word" where
  "portRESET_READY_PRIORITY p r = r AND NOT (push_bit p 1)"

definition ucPortCountLeadingZeros :: "32 word \<Rightarrow> nat" where
  "ucPortCountLeadingZeros r = length (takeWhile (\<lambda>n. \<not> bit r n) (rev [0..<32]))"

definition portGET_HIGHEST_PRIORITY :: "32 word \<Rightarrow> nat" where
  "portGET_HIGHEST_PRIORITY r = sub32 31 (ucPortCountLeadingZeros r)"

definition taskRESET_READY_PRIORITY :: "nat \<Rightarrow> kernel \<Rightarrow> kernel" where
  "taskRESET_READY_PRIORITY p k =
     (if items (klists k) (Ready p) = []
      then k\<lparr>uxTopReadyPriority := portRESET_READY_PRIORITY p (uxTopReadyPriority k)\<rparr> else k)"

definition prvAddTaskToReadyList :: "tid \<Rightarrow> kernel \<Rightarrow> kernel option" where
  "prvAddTaskToReadyList t k =
     do { b \<leftarrow> tcbs k t;
          let p = uxPriority b;
          let k = k\<lparr>uxTopReadyPriority := portRECORD_READY_PRIORITY p (uxTopReadyPriority k)\<rparr>;
          list_insert_end (Ready p) (StateItem t) k }"

definition taskSELECT_HIGHEST_PRIORITY_TASK :: "kernel \<Rightarrow> kernel option" where
  "taskSELECT_HIGHEST_PRIORITY_TASK k =
     (let p = portGET_HIGHEST_PRIORITY (uxTopReadyPriority k)
      in if length (items (klists k) (Ready p)) > 0
         then (case next_entry (Ready p) (klists k) of
                 (t, T) \<Rightarrow> Some (k\<lparr>klists := T, pxCurrentTCB := t\<rparr>))
         else None)"

section \<open>Delayed lists\<close>

definition prvResetNextTaskUnblockTime :: "kernel \<Rightarrow> kernel" where
  "prvResetNextTaskUnblockTime k =
     (case items (klists k) (pxDelayedTaskList k) of
        [] \<Rightarrow> k\<lparr>xNextTaskUnblockTime := portMAX_DELAY\<rparr>
      | i # _ \<Rightarrow> k\<lparr>xNextTaskUnblockTime := item_value (klists k) i\<rparr>)"

definition taskSWITCH_DELAYED_LISTS :: "kernel \<Rightarrow> kernel option" where
  "taskSWITCH_DELAYED_LISTS k =
     (if items (klists k) (pxDelayedTaskList k) \<noteq> [] then None
      else Some (prvResetNextTaskUnblockTime
             (k\<lparr>pxDelayedTaskList := pxOverflowDelayedTaskList k, pxOverflowDelayedTaskList := pxDelayedTaskList k,
                xNumOfOverflows := add32 (xNumOfOverflows k) 1\<rparr>)))"

definition prvAddCurrentTaskToDelayedList :: "nat \<Rightarrow> bool \<Rightarrow> kernel \<Rightarrow> kernel option" where
  "prvAddCurrentTaskToDelayedList xTicksToWait xCanBlockIndefinitely k =
     do { let me = pxCurrentTCB k;
          k \<leftarrow> upd_tcb me (\<lambda>b. b\<lparr>ucDelayAborted := False\<rparr>) k;
          (n, k) \<leftarrow> list_remove (StateItem me) k;
          b \<leftarrow> tcbs k me;
          let k = (if n = 0 then k\<lparr>uxTopReadyPriority := portRESET_READY_PRIORITY (uxPriority b) (uxTopReadyPriority k)\<rparr>
                   else k);
          if xTicksToWait = portMAX_DELAY \<and> xCanBlockIndefinitely
          then list_insert_end Suspended (StateItem me) k
          else do { let xTimeToWake = add32 (xTickCount k) xTicksToWait;
                    let k = list_set_value (StateItem me) xTimeToWake k;
                    if xTimeToWake < xTickCount k
                    then list_insert (pxOverflowDelayedTaskList k) (StateItem me) k
                    else do { k \<leftarrow> list_insert (pxDelayedTaskList k) (StateItem me) k;
                              Some (if xTimeToWake < xNextTaskUnblockTime k
                                    then k\<lparr>xNextTaskUnblockTime := xTimeToWake\<rparr> else k) } } }"

section \<open>The tick, the switch, suspending the scheduler\<close>

text \<open>A task leaves the delayed list, and the event list it may also wait on, and becomes ready.\<close>

definition unblock :: "tid \<Rightarrow> kernel \<Rightarrow> kernel option" where
  "unblock t k =
     do { (_, k) \<leftarrow> list_remove (StateItem t) k;
          k \<leftarrow> list_remove_if (EventItem t) k;
          prvAddTaskToReadyList t k }"

definition higher_priority :: "tid \<Rightarrow> kernel \<Rightarrow> bool option" where
  "higher_priority t k =
     do { b \<leftarrow> tcbs k t; c \<leftarrow> tcbs k (pxCurrentTCB k); Some (uxPriority b > uxPriority c) }"

partial_function (option) wake_due :: "nat \<Rightarrow> bool \<Rightarrow> kernel \<Rightarrow> (bool \<times> kernel) option" where
  "wake_due now switch k =
     (case items (klists k) (pxDelayedTaskList k) of
        [] \<Rightarrow> Some (switch, k\<lparr>xNextTaskUnblockTime := portMAX_DELAY\<rparr>)
      | i # _ \<Rightarrow>
          let t = owner i; v = item_value (klists k) (StateItem t)
          in if now < v then Some (switch, k\<lparr>xNextTaskUnblockTime := v\<rparr>)
             else do { k \<leftarrow> unblock t k;
                       higher \<leftarrow> higher_priority t k;
                       wake_due now (switch \<or> higher) k })"

definition xTaskIncrementTick :: "kernel \<Rightarrow> (bool \<times> kernel) option" where
  "xTaskIncrementTick k =
     (if uxSchedulerSuspended k = 0 then
        do { let now = add32 (xTickCount k) 1;
             let k = k\<lparr>xTickCount := now\<rparr>;
             k \<leftarrow> (if now = 0 then taskSWITCH_DELAYED_LISTS k else Some k);
             (switch, k) \<leftarrow> (if now \<ge> xNextTaskUnblockTime k then wake_due now False k else Some (False, k));
             c \<leftarrow> tcbs k (pxCurrentTCB k);
             Some (switch \<or> length (items (klists k) (Ready (uxPriority c))) > 1 \<or> xYieldPending k, k) }
      else Some (False, k\<lparr>xPendedTicks := add32 (xPendedTicks k) 1\<rparr>))"

text \<open>\<open>now\<close> is the value of the run-time counter.\<close>

definition vTaskSwitchContext :: "nat \<Rightarrow> kernel \<Rightarrow> kernel option" where
  "vTaskSwitchContext now k =
     (if uxSchedulerSuspended k \<noteq> 0 then Some (k\<lparr>xYieldPending := True\<rparr>)
      else
        do { let k = k\<lparr>xYieldPending := False\<rparr>;
             k \<leftarrow> (if now > ulTaskSwitchedInTime k
                  then upd_tcb (pxCurrentTCB k)
                    (\<lambda>b. b\<lparr>ulRunTimeCounter := add32 (ulRunTimeCounter b) (sub32 now (ulTaskSwitchedInTime k))\<rparr>) k
                  else Some k);
             let k = k\<lparr>ulTaskSwitchedInTime := now\<rparr>;
             taskSELECT_HIGHEST_PRIORITY_TASK k })"

definition vTaskSuspendAll :: "kernel \<Rightarrow> kernel" where
  "vTaskSuspendAll k = k\<lparr>uxSchedulerSuspended := add32 (uxSchedulerSuspended k) 1\<rparr>"

text \<open>The first loop of \<open>xTaskResumeAll\<close>; the flag records whether any task was moved.\<close>

partial_function (option) resume_pending :: "bool \<Rightarrow> kernel \<Rightarrow> (bool \<times> kernel) option" where
  "resume_pending moved k =
     (case items (klists k) PendingReady of
        [] \<Rightarrow> Some (moved, k)
      | i # _ \<Rightarrow>
          do { let t = owner i;
               (_, k) \<leftarrow> list_remove (EventItem t) k;
               (_, k) \<leftarrow> list_remove (StateItem t) k;
               k \<leftarrow> prvAddTaskToReadyList t k;
               higher \<leftarrow> higher_priority t k;
               resume_pending True (if higher then k\<lparr>xYieldPending := True\<rparr> else k) })"

fun resume_ticks :: "nat \<Rightarrow> kernel \<Rightarrow> kernel option" where
  "resume_ticks 0 k = Some k"
| "resume_ticks (Suc n) k =
     do { (switch, k) \<leftarrow> xTaskIncrementTick k;
          resume_ticks n (if switch then k\<lparr>xYieldPending := True\<rparr> else k) }"

definition xTaskResumeAll :: "kernel \<Rightarrow> (bool \<times> kernel) option" where
  "xTaskResumeAll k =
     (if uxSchedulerSuspended k = 0 then None
      else
        let k = k\<lparr>uxSchedulerSuspended := uxSchedulerSuspended k - 1\<rparr>
        in if uxSchedulerSuspended k = 0 \<and> uxCurrentNumberOfTasks k > 0 then
             do { (moved, k) \<leftarrow> resume_pending False k;
                  let k = (if moved then prvResetNextTaskUnblockTime k else k);
                  k \<leftarrow> (if xPendedTicks k > 0
                       then map_option (\<lambda>k. k\<lparr>xPendedTicks := 0\<rparr>) (resume_ticks (xPendedTicks k) k)
                       else Some k);
                  Some (if xYieldPending k then (True, portYIELD_WITHIN_API k) else (False, k)) }
           else Some (False, k))"

text \<open>The interrupt handlers of the port that drive the scheduler.\<close>

definition xPortSysTickHandler :: "kernel \<Rightarrow> kernel option" where
  "xPortSysTickHandler k =
     do { (switch, k) \<leftarrow> xTaskIncrementTick k; Some (if switch then k\<lparr>pendsv := True\<rparr> else k) }"

definition xPortPendSVHandler :: "nat \<Rightarrow> kernel \<Rightarrow> kernel option" where
  "xPortPendSVHandler now k = vTaskSwitchContext now (k\<lparr>pendsv := False\<rparr>)"
section \<open>Creating and deleting tasks\<close>

text \<open>\<open>heap_5.c\<close> suspends the scheduler around its work, so an allocation or release may let pended work run.\<close>

definition kernel_malloc :: "nat \<Rightarrow> kernel \<times> heap \<Rightarrow> (addr \<times> kernel \<times> heap) option" where
  "kernel_malloc n = (\<lambda>(k, h).
     do { (p, h) \<leftarrow> pvPortMalloc n h; (_, k) \<leftarrow> xTaskResumeAll (vTaskSuspendAll k); Some (p, k, h) })"

definition kernel_free :: "addr \<Rightarrow> kernel \<times> heap \<Rightarrow> (kernel \<times> heap) option" where
  "kernel_free p = (\<lambda>(k, h).
     do { h \<leftarrow> vPortFree p h;
          (_, k) \<leftarrow> (if p \<noteq> 0 then xTaskResumeAll (vTaskSuspendAll k) else Some (False, k));
          Some (k, h) })"

definition prvInitialiseTaskLists :: "kernel \<Rightarrow> kernel" where
  "prvInitialiseTaskLists k =
     (let T = fold (\<lambda>p. init_list (Ready p)) [0..<configMAX_PRIORITIES] (klists k);
          T = init_list Delayed1 T;
          T = init_list Delayed2 T;
          T = init_list PendingReady T;
          T = init_list WaitingTermination T;
          T = init_list Suspended T
      in k\<lparr>klists := T, pxDelayedTaskList := Delayed1, pxOverflowDelayedTaskList := Delayed2\<rparr>)"

definition prvInitialiseNewTask :: "nat \<Rightarrow> tid \<Rightarrow> addr \<Rightarrow> kernel \<Rightarrow> kernel option" where
  "prvInitialiseNewTask prio t stack k =
     (if \<not> prio < configMAX_PRIORITIES then None
      else
        let b = \<lparr>uxPriority = prio, uxBasePriority = prio, uxMutexesHeld = 0, uxTCBNumber = 0, pxStack = stack,
                 ulRunTimeCounter = 0, ulNotifiedValue = 0, ucNotifyState = NotWaiting, ucDelayAborted = False\<rparr>;
            T = init_item (EventItem t) (init_item (StateItem t) (klists k));
            T = set_value (EventItem t) (sub32 configMAX_PRIORITIES prio) (set_value (StateItem t) 0 T)
        in Some (k\<lparr>tcbs := (tcbs k)(t := Some b), klists := T\<rparr>))"

text \<open>The address of the new control block, 0 if there was no memory.\<close>

definition prvCreateTask :: "nat \<Rightarrow> nat \<Rightarrow> kernel \<times> heap \<Rightarrow> (tid \<times> kernel \<times> heap) option" where
  "prvCreateTask uxStackDepth prio w =
     do { (stack, w) \<leftarrow> kernel_malloc (mul32 uxStackDepth sizeof_StackType_t) w;
          if stack \<noteq> 0
          then do { (t, w) \<leftarrow> kernel_malloc sizeof_TCB_t w;
                    if t \<noteq> 0
                    then do { k \<leftarrow> prvInitialiseNewTask prio t stack (fst w); Some (t, k, snd w) }
                    else do { w \<leftarrow> kernel_free stack w; Some (0, w) } }
          else Some (0, w) }"

definition taskYIELD_ANY_CORE_IF_USING_PREEMPTION :: "tid \<Rightarrow> kernel \<Rightarrow> kernel option" where
  "taskYIELD_ANY_CORE_IF_USING_PREEMPTION t k =
     do { higher \<leftarrow> higher_priority t k; Some (if higher then portYIELD_WITHIN_API k else k) }"

definition prvAddNewTaskToReadyList :: "tid \<Rightarrow> kernel \<Rightarrow> kernel option" where
  "prvAddNewTaskToReadyList t k =
     do { let k = k\<lparr>uxCurrentNumberOfTasks := add32 (uxCurrentNumberOfTasks k) 1\<rparr>;
          k \<leftarrow> (if pxCurrentTCB k = 0
               then let k = k\<lparr>pxCurrentTCB := t\<rparr>
                    in Some (if uxCurrentNumberOfTasks k = 1 then prvInitialiseTaskLists k else k)
               else if \<not> xSchedulerRunning k
               then do { c \<leftarrow> tcbs k (pxCurrentTCB k); b \<leftarrow> tcbs k t;
                         Some (if uxPriority c \<le> uxPriority b then k\<lparr>pxCurrentTCB := t\<rparr> else k) }
               else Some k);
          let k = k\<lparr>uxTaskNumber := add32 (uxTaskNumber k) 1\<rparr>;
          k \<leftarrow> upd_tcb t (\<lambda>b. b\<lparr>uxTCBNumber := uxTaskNumber k\<rparr>) k;
          k \<leftarrow> prvAddTaskToReadyList t k;
          if xSchedulerRunning k then taskYIELD_ANY_CORE_IF_USING_PREEMPTION t k else Some k }"

text \<open>The handle of the new task, or 0 for \<open>errCOULD_NOT_ALLOCATE_REQUIRED_MEMORY\<close>.\<close>

definition xTaskCreate :: "nat \<Rightarrow> nat \<Rightarrow> kernel \<times> heap \<Rightarrow> (tid \<times> kernel \<times> heap) option" where
  "xTaskCreate uxStackDepth prio w =
     do { (t, k, h) \<leftarrow> prvCreateTask uxStackDepth prio w;
          if t \<noteq> 0 then do { k \<leftarrow> prvAddNewTaskToReadyList t k; Some (t, k, h) }
          else Some (0, k, h) }"

text \<open>The memory of a task is given back; from the first release on there is no control block at its address.\<close>

definition prvDeleteTCB :: "tid \<Rightarrow> kernel \<times> heap \<Rightarrow> (kernel \<times> heap) option" where
  "prvDeleteTCB t w =
     do { b \<leftarrow> tcbs (fst w) t;
          let k = (fst w)\<lparr>tcbs := (tcbs (fst w))(t := None)\<rparr>;
          w \<leftarrow> kernel_free (pxStack b) (k, snd w);
          kernel_free t w }"

definition handle :: "tid \<Rightarrow> kernel \<Rightarrow> tid" where
  "handle t k = (if t = 0 then pxCurrentTCB k else t)"

text \<open>The state item leaves its list; if that emptied a list, the bit of the task's priority is checked.\<close>

definition leave_state_list :: "tid \<Rightarrow> kernel \<Rightarrow> kernel option" where
  "leave_state_list t k =
     do { (n, k) \<leftarrow> list_remove (StateItem t) k;
          b \<leftarrow> tcbs k t;
          Some (if n = 0 then taskRESET_READY_PRIORITY (uxPriority b) k else k) }"

definition vTaskDelete :: "tid \<Rightarrow> kernel \<times> heap \<Rightarrow> (kernel \<times> heap) option" where
  "vTaskDelete xTaskToDelete = (\<lambda>(k, h).
     do { let t = handle xTaskToDelete k;
          k \<leftarrow> leave_state_list t k;
          k \<leftarrow> list_remove_if (EventItem t) k;
          let k = k\<lparr>uxTaskNumber := add32 (uxTaskNumber k) 1\<rparr>;
          if xSchedulerRunning k \<and> t = pxCurrentTCB k
          then do { k \<leftarrow> list_insert_end WaitingTermination (StateItem t) k;
                    let k = k\<lparr>uxDeletedTasksWaitingCleanUp := add32 (uxDeletedTasksWaitingCleanUp k) 1\<rparr>;
                    if uxSchedulerSuspended k \<noteq> 0 then None
                    else Some (portYIELD_WITHIN_API k, h) }
          else prvDeleteTCB t
                 (prvResetNextTaskUnblockTime (k\<lparr>uxCurrentNumberOfTasks := sub32 (uxCurrentNumberOfTasks k) 1\<rparr>), h) })"

text \<open>The idle task's loop over the tasks that deleted themselves.\<close>

fun clean_up :: "nat \<Rightarrow> kernel \<times> heap \<Rightarrow> (kernel \<times> heap) option" where
  "clean_up 0 w = Some w"
| "clean_up (Suc n) (k, h) =
     (case items (klists k) WaitingTermination of
        [] \<Rightarrow> None
      | i # _ \<Rightarrow>
          do { let t = owner i;
               (_, k) \<leftarrow> list_remove (StateItem t) k;
               let k = k\<lparr>uxCurrentNumberOfTasks := sub32 (uxCurrentNumberOfTasks k) 1,
                         uxDeletedTasksWaitingCleanUp := sub32 (uxDeletedTasksWaitingCleanUp k) 1\<rparr>;
               w \<leftarrow> prvDeleteTCB t (k, h);
               clean_up n w })"

definition prvCheckTasksWaitingTermination :: "kernel \<times> heap \<Rightarrow> (kernel \<times> heap) option" where
  "prvCheckTasksWaitingTermination w = clean_up (uxDeletedTasksWaitingCleanUp (fst w)) w"

text \<open>
  Starting the scheduler: the idle task, then the timer task, then the initial values.
  \<open>xTimerCreateTimerTask\<close> is defined with the timers, further up, and is an argument here; the state
  \<open>'s\<close> is what it changes beside the kernel and the heap. The assertion rejects the lack of memory.
\<close>

definition prvCreateIdleTasks :: "kernel \<times> heap \<Rightarrow> (bool \<times> kernel \<times> heap) option" where
  "prvCreateIdleTasks w =
     do { (t, k, h) \<leftarrow> xTaskCreate configMINIMAL_STACK_SIZE 0 w;
          Some (t \<noteq> 0, (if t \<noteq> 0 then k\<lparr>xIdleTaskHandle := t\<rparr> else k), h) }"

definition vTaskStartScheduler ::
  "('s \<times> kernel \<times> heap \<Rightarrow> (bool \<times> 's \<times> kernel \<times> heap) option) \<Rightarrow> 's \<times> kernel \<times> heap \<Rightarrow> ('s \<times> kernel \<times> heap) option" where
  "vTaskStartScheduler xTimerCreateTimerTask = (\<lambda>(s, w).
     do { (ok, w) \<leftarrow> prvCreateIdleTasks w;
          (ok, s, k, h) \<leftarrow> (if ok then xTimerCreateTimerTask (s, w) else Some (ok, s, w));
          if ok then Some (s, k\<lparr>xNextTaskUnblockTime := portMAX_DELAY, xSchedulerRunning := True, xTickCount := 0\<rparr>, h)
          else None })"

section \<open>Delays\<close>

definition vTaskDelay :: "nat \<Rightarrow> kernel \<Rightarrow> kernel option" where
  "vTaskDelay xTicksToDelay k =
     do { (yielded, k) \<leftarrow>
            (if xTicksToDelay > 0
             then do { let k = vTaskSuspendAll k;
                       if uxSchedulerSuspended k \<noteq> 1 then None
                       else do { k \<leftarrow> prvAddCurrentTaskToDelayedList xTicksToDelay False k; xTaskResumeAll k } }
             else Some (False, k));
          Some (if yielded then k else portYIELD_WITHIN_API k) }"

text \<open>The result is the answer, the new \<open>*pxPreviousWakeTime\<close> and the state.\<close>

definition xTaskDelayUntil :: "nat \<Rightarrow> nat \<Rightarrow> kernel \<Rightarrow> (bool \<times> nat \<times> kernel) option" where
  "xTaskDelayUntil xPreviousWakeTime xTimeIncrement k =
     (if \<not> xTimeIncrement > 0 then None
      else
        do { let k = vTaskSuspendAll k;
             if uxSchedulerSuspended k \<noteq> 1 then None
             else
               do { let now = xTickCount k;
                    let xTimeToWake = add32 xPreviousWakeTime xTimeIncrement;
                    let xShouldDelay =
                      (if now < xPreviousWakeTime
                       then xTimeToWake < xPreviousWakeTime \<and> xTimeToWake > now
                       else xTimeToWake < xPreviousWakeTime \<or> xTimeToWake > now);
                    k \<leftarrow> (if xShouldDelay then prvAddCurrentTaskToDelayedList (sub32 xTimeToWake now) False k
                         else Some k);
                    (yielded, k) \<leftarrow> xTaskResumeAll k;
                    Some (xShouldDelay, xTimeToWake, if yielded then k else portYIELD_WITHIN_API k) } })"

definition xTaskCatchUpTicks :: "nat \<Rightarrow> kernel \<Rightarrow> (bool \<times> kernel) option" where
  "xTaskCatchUpTicks n k =
     (if uxSchedulerSuspended k \<noteq> 0 then None
      else let k = vTaskSuspendAll k in xTaskResumeAll (k\<lparr>xPendedTicks := add32 (xPendedTicks k) n\<rparr>))"

section \<open>Task states, suspension and priorities\<close>

datatype eTaskState = eRunning | eReady | eBlocked | eSuspended | eDeleted | eInvalid

definition eTaskGetState :: "tid \<Rightarrow> kernel \<Rightarrow> eTaskState option" where
  "eTaskGetState t k =
     (if t = 0 then None
      else if t = pxCurrentTCB k then Some eRunning
      else
        do { b \<leftarrow> tcbs k t;
             let st = container (klists k) (StateItem t);
             let ev = container (klists k) (EventItem t);
             Some (if ev = Some PendingReady then eReady
                   else if st = Some (pxDelayedTaskList k) \<or> st = Some (pxOverflowDelayedTaskList k) then eBlocked
                   else if st = Some Suspended
                   then (if ev = None then (if ucNotifyState b = Waiting then eBlocked else eSuspended) else eBlocked)
                   else if st = Some WaitingTermination \<or> st = None then eDeleted
                   else eReady) })"

definition xTaskAbortDelay :: "tid \<Rightarrow> kernel \<Rightarrow> (bool \<times> kernel) option" where
  "xTaskAbortDelay t k =
     (if t = 0 then None
      else
        do { let k = vTaskSuspendAll k;
             st \<leftarrow> eTaskGetState t k;
             (ok, k) \<leftarrow>
               (if st = eBlocked
                then do { (_, k) \<leftarrow> list_remove (StateItem t) k;
                          k \<leftarrow> (if container (klists k) (EventItem t) \<noteq> None
                               then do { (_, k) \<leftarrow> list_remove (EventItem t) k;
                                         upd_tcb t (\<lambda>b. b\<lparr>ucDelayAborted := True\<rparr>) k }
                               else Some k);
                          k \<leftarrow> prvAddTaskToReadyList t k;
                          higher \<leftarrow> higher_priority t k;
                          Some (True, if higher then k\<lparr>xYieldPending := True\<rparr> else k) }
                else Some (False, k));
             (_, k) \<leftarrow> xTaskResumeAll k;
             Some (ok, k) })"

definition taskEVENT_LIST_ITEM_VALUE_IN_USE :: nat where
  "taskEVENT_LIST_ITEM_VALUE_IN_USE = 0x80000000"

text \<open>Whether the event item's value is a priority, so that it follows changes of the priority.\<close>

definition event_value_free :: "tid \<Rightarrow> kernel \<Rightarrow> bool" where
  "event_value_free t k \<longleftrightarrow> item_value (klists k) (EventItem t) AND taskEVENT_LIST_ITEM_VALUE_IN_USE = 0"

definition set_event_priority :: "tid \<Rightarrow> nat \<Rightarrow> kernel \<Rightarrow> kernel" where
  "set_event_priority t p k =
     (if event_value_free t k then list_set_value (EventItem t) (sub32 configMAX_PRIORITIES p) k else k)"

text \<open>A task whose priority has changed moves to the ready list of its new priority.\<close>

definition requeue_ready :: "tid \<Rightarrow> nat \<Rightarrow> kernel \<Rightarrow> kernel option" where
  "requeue_ready t old k =
     (if container (klists k) (StateItem t) = Some (Ready old)
      then do { (n, k) \<leftarrow> list_remove (StateItem t) k;
                prvAddTaskToReadyList t
                  (if n = 0 then k\<lparr>uxTopReadyPriority := portRESET_READY_PRIORITY old (uxTopReadyPriority k)\<rparr> else k) }
      else Some k)"

definition vTaskPrioritySet :: "tid \<Rightarrow> nat \<Rightarrow> kernel \<Rightarrow> kernel option" where
  "vTaskPrioritySet xTask uxNewPriority k =
     (if \<not> uxNewPriority < configMAX_PRIORITIES then None
      else
        do { let t = handle xTask k;
             b \<leftarrow> tcbs k t;
             if uxBasePriority b = uxNewPriority then Some k
             else
               do { yield \<leftarrow>
                      (if uxNewPriority > uxBasePriority b
                       then (if t \<noteq> pxCurrentTCB k
                             then map_option (\<lambda>c. uxNewPriority > uxPriority c) (tcbs k (pxCurrentTCB k))
                             else Some False)
                       else Some (t = pxCurrentTCB k));
                    let used = uxPriority b;
                    k \<leftarrow> upd_tcb t (\<lambda>b.
                        (if uxBasePriority b = uxPriority b \<or> uxNewPriority > uxPriority b
                         then b\<lparr>uxPriority := uxNewPriority\<rparr> else b)\<lparr>uxBasePriority := uxNewPriority\<rparr>) k;
                    let k = set_event_priority t uxNewPriority k;
                    k \<leftarrow> requeue_ready t used k;
                    Some (if yield then portYIELD_WITHIN_API k else k) } })"

definition vTaskSuspend :: "tid \<Rightarrow> nat \<Rightarrow> kernel \<Rightarrow> kernel option" where
  "vTaskSuspend xTaskToSuspend now k =
     do { let t = handle xTaskToSuspend k;
          k \<leftarrow> leave_state_list t k;
          k \<leftarrow> list_remove_if (EventItem t) k;
          k \<leftarrow> list_insert_end Suspended (StateItem t) k;
          k \<leftarrow> upd_tcb t (\<lambda>b. if ucNotifyState b = Waiting then b\<lparr>ucNotifyState := NotWaiting\<rparr> else b) k;
          let k = (if xSchedulerRunning k then prvResetNextTaskUnblockTime k else k);
          if t = pxCurrentTCB k
          then (if xSchedulerRunning k
                then (if uxSchedulerSuspended k \<noteq> 0 then None else Some (portYIELD_WITHIN_API k))
                else if length (items (klists k) Suspended) = uxCurrentNumberOfTasks k
                then Some (k\<lparr>pxCurrentTCB := 0\<rparr>)
                else vTaskSwitchContext now k)
          else Some k }"

definition prvTaskIsTaskSuspended :: "tid \<Rightarrow> kernel \<Rightarrow> bool option" where
  "prvTaskIsTaskSuspended t k =
     (if t = 0 then None
      else
        do { b \<leftarrow> tcbs k t;
             Some (container (klists k) (StateItem t) = Some Suspended \<and>
               container (klists k) (EventItem t) \<noteq> Some PendingReady \<and>
               container (klists k) (EventItem t) = None \<and> ucNotifyState b \<noteq> Waiting) })"

definition vTaskResume :: "tid \<Rightarrow> kernel \<Rightarrow> kernel option" where
  "vTaskResume t k =
     (if t = 0 then None
      else if t = pxCurrentTCB k then Some k
      else
        do { susp \<leftarrow> prvTaskIsTaskSuspended t k;
             if susp
             then do { (_, k) \<leftarrow> list_remove (StateItem t) k;
                       k \<leftarrow> prvAddTaskToReadyList t k;
                       taskYIELD_ANY_CORE_IF_USING_PREEMPTION t k }
             else Some k })"

definition xTaskResumeFromISR :: "tid \<Rightarrow> kernel \<Rightarrow> (bool \<times> kernel) option" where
  "xTaskResumeFromISR t k =
     (if t = 0 then None
      else
        do { susp \<leftarrow> prvTaskIsTaskSuspended t k;
             if \<not> susp then Some (False, k)
             else if uxSchedulerSuspended k = 0
             then do { higher \<leftarrow> higher_priority t k;
                       let k = (if higher then k\<lparr>xYieldPending := True\<rparr> else k);
                       (_, k) \<leftarrow> list_remove (StateItem t) k;
                       k \<leftarrow> prvAddTaskToReadyList t k;
                       Some (higher, k) }
             else do { k \<leftarrow> list_insert_end PendingReady (EventItem t) k; Some (False, k) } })"

end
