(* ===== verification/TaskEvents.thy ===== *)
theory TaskEvents
  imports Tasks
begin

text \<open>
  The services of \<open>tasks.c\<close> that queues, event groups and timers build on: waiting on an event
  list and being removed from it, time-outs, priority inheritance for mutexes, and direct-to-task
  notifications (one per task in this configuration).
\<close>

section \<open>Event lists\<close>

definition vTaskPlaceOnEventList :: "lname \<Rightarrow> nat \<Rightarrow> kernel \<Rightarrow> kernel option" where
  "vTaskPlaceOnEventList xEventList xTicksToWait k =
     do { k \<leftarrow> list_insert xEventList (EventItem (pxCurrentTCB k)) k;
          prvAddCurrentTaskToDelayedList xTicksToWait True k }"

definition vTaskPlaceOnUnorderedEventList :: "lname \<Rightarrow> nat \<Rightarrow> nat \<Rightarrow> kernel \<Rightarrow> kernel option" where
  "vTaskPlaceOnUnorderedEventList xEventList itemValue xTicksToWait k =
     (if uxSchedulerSuspended k = 0 then None
      else
        do { let k = list_set_value (EventItem (pxCurrentTCB k)) (itemValue OR taskEVENT_LIST_ITEM_VALUE_IN_USE) k;
             k \<leftarrow> list_insert_end xEventList (EventItem (pxCurrentTCB k)) k;
             prvAddCurrentTaskToDelayedList xTicksToWait True k })"

definition vTaskPlaceOnEventListRestricted :: "lname \<Rightarrow> nat \<Rightarrow> bool \<Rightarrow> kernel \<Rightarrow> kernel option" where
  "vTaskPlaceOnEventListRestricted xEventList xTicksToWait xWaitIndefinitely k =
     do { k \<leftarrow> list_insert_end xEventList (EventItem (pxCurrentTCB k)) k;
          prvAddCurrentTaskToDelayedList (if xWaitIndefinitely then portMAX_DELAY else xTicksToWait) xWaitIndefinitely k }"

text \<open>
  A task whose wait has ended becomes ready at once, or when the scheduler is resumed; the flag
  tells whether it has a higher priority than the running task.
\<close>

definition ready_or_pend :: "tid \<Rightarrow> kernel \<Rightarrow> kernel option" where
  "ready_or_pend t k =
     (if uxSchedulerSuspended k = 0
      then do { (_, k) \<leftarrow> list_remove (StateItem t) k; prvAddTaskToReadyList t k }
      else list_insert_end PendingReady (EventItem t) k)"

definition note_higher :: "tid \<Rightarrow> kernel \<Rightarrow> (bool \<times> kernel) option" where
  "note_higher t k =
     do { higher \<leftarrow> higher_priority t k; Some (higher, if higher then k\<lparr>xYieldPending := True\<rparr> else k) }"

definition xTaskRemoveFromEventList :: "lname \<Rightarrow> kernel \<Rightarrow> (bool \<times> kernel) option" where
  "xTaskRemoveFromEventList xEventList k =
     (case items (klists k) xEventList of
        [] \<Rightarrow> None
      | i # _ \<Rightarrow>
          do { let t = owner i;
               (_, k) \<leftarrow> list_remove (EventItem t) k;
               k \<leftarrow> ready_or_pend t k;
               note_higher t k })"

definition vTaskRemoveFromUnorderedEventList :: "item \<Rightarrow> nat \<Rightarrow> kernel \<Rightarrow> kernel option" where
  "vTaskRemoveFromUnorderedEventList i itemValue k =
     (if uxSchedulerSuspended k = 0 then None
      else
        do { let k = list_set_value i (itemValue OR taskEVENT_LIST_ITEM_VALUE_IN_USE) k;
             let t = owner i;
             (_, k) \<leftarrow> list_remove i k;
             (_, k) \<leftarrow> list_remove (StateItem t) k;
             k \<leftarrow> prvAddTaskToReadyList t k;
             (_, k) \<leftarrow> note_higher t k;
             Some k })"

definition uxTaskResetEventItemValue :: "kernel \<Rightarrow> (nat \<times> kernel) option" where
  "uxTaskResetEventItemValue k =
     do { b \<leftarrow> tcbs k (pxCurrentTCB k);
          Some (item_value (klists k) (EventItem (pxCurrentTCB k)),
            list_set_value (EventItem (pxCurrentTCB k)) (sub32 configMAX_PRIORITIES (uxPriority b)) k) }"

section \<open>Time-outs\<close>

record TimeOut =
  xOverflowCount :: nat
  xTimeOnEntering :: nat

definition vTaskInternalSetTimeOutState :: "kernel \<Rightarrow> TimeOut" where
  "vTaskInternalSetTimeOutState k = \<lparr>xOverflowCount = xNumOfOverflows k, xTimeOnEntering = xTickCount k\<rparr>"

definition vTaskSetTimeOutState :: "kernel \<Rightarrow> TimeOut" where
  "vTaskSetTimeOutState k = vTaskInternalSetTimeOutState k"

text \<open>The result: whether the time is up, the time-out and ticks to wait as updated, and the state.\<close>

definition xTaskCheckForTimeOut :: "TimeOut \<Rightarrow> nat \<Rightarrow> kernel \<Rightarrow> (bool \<times> TimeOut \<times> nat \<times> kernel) option" where
  "xTaskCheckForTimeOut xTimeOut xTicksToWait k =
     do { let now = xTickCount k;
          let xElapsedTime = sub32 now (xTimeOnEntering xTimeOut);
          b \<leftarrow> tcbs k (pxCurrentTCB k);
          if ucDelayAborted b
          then do { k \<leftarrow> upd_tcb (pxCurrentTCB k) (\<lambda>b. b\<lparr>ucDelayAborted := False\<rparr>) k;
                    Some (True, xTimeOut, xTicksToWait, k) }
          else if xTicksToWait = portMAX_DELAY then Some (False, xTimeOut, xTicksToWait, k)
          else if xNumOfOverflows k \<noteq> xOverflowCount xTimeOut \<and> now \<ge> xTimeOnEntering xTimeOut
          then Some (True, xTimeOut, 0, k)
          else if xElapsedTime < xTicksToWait
          then Some (False, vTaskInternalSetTimeOutState k, sub32 xTicksToWait xElapsedTime, k)
          else Some (True, xTimeOut, 0, k) }"

definition vTaskMissedYield :: "kernel \<Rightarrow> kernel" where
  "vTaskMissedYield k = k\<lparr>xYieldPending := True\<rparr>"

datatype scheduler_state = taskSCHEDULER_SUSPENDED | taskSCHEDULER_NOT_STARTED | taskSCHEDULER_RUNNING

definition xTaskGetSchedulerState :: "kernel \<Rightarrow> scheduler_state" where
  "xTaskGetSchedulerState k =
     (if \<not> xSchedulerRunning k then taskSCHEDULER_NOT_STARTED
      else if uxSchedulerSuspended k = 0 then taskSCHEDULER_RUNNING else taskSCHEDULER_SUSPENDED)"

section \<open>Priority inheritance\<close>

definition pvTaskIncrementMutexHeldCount :: "kernel \<Rightarrow> (tid \<times> kernel) option" where
  "pvTaskIncrementMutexHeldCount k =
     (let t = pxCurrentTCB k
      in if t \<noteq> 0
         then map_option (\<lambda>k. (t, k)) (upd_tcb t (\<lambda>b. b\<lparr>uxMutexesHeld := add32 (uxMutexesHeld b) 1\<rparr>) k)
         else Some (t, k))"

definition xTaskPriorityInherit :: "tid \<Rightarrow> kernel \<Rightarrow> (bool \<times> kernel) option" where
  "xTaskPriorityInherit pxMutexHolder k =
     (if pxMutexHolder \<noteq> 0 then
        do { b \<leftarrow> tcbs k pxMutexHolder;
             c \<leftarrow> tcbs k (pxCurrentTCB k);
             let set_priority = upd_tcb pxMutexHolder (\<lambda>b. b\<lparr>uxPriority := uxPriority c\<rparr>);
             if uxPriority b < uxPriority c
             then do { let k = set_event_priority pxMutexHolder (uxPriority c) k;
                       k \<leftarrow> (if container (klists k) (StateItem pxMutexHolder) = Some (Ready (uxPriority b))
                            then do { (n, k) \<leftarrow> list_remove (StateItem pxMutexHolder) k;
                                      let k = (if n = 0
                                        then k\<lparr>uxTopReadyPriority := portRESET_READY_PRIORITY (uxPriority b) (uxTopReadyPriority k)\<rparr>
                                        else k);
                                      k \<leftarrow> set_priority k;
                                      prvAddTaskToReadyList pxMutexHolder k }
                            else set_priority k);
                       Some (True, k) }
             else Some (uxBasePriority b < uxPriority c, k) }
      else Some (False, k))"

definition xTaskPriorityDisinherit :: "tid \<Rightarrow> kernel \<Rightarrow> (bool \<times> kernel) option" where
  "xTaskPriorityDisinherit pxMutexHolder k =
     (if pxMutexHolder \<noteq> 0 then
        do { let t = pxMutexHolder;
             b \<leftarrow> tcbs k t;
             if t \<noteq> pxCurrentTCB k \<or> uxMutexesHeld b = 0 then None
             else
               do { k \<leftarrow> upd_tcb t (\<lambda>b. b\<lparr>uxMutexesHeld := uxMutexesHeld b - 1\<rparr>) k;
                    if uxPriority b \<noteq> uxBasePriority b \<and> uxMutexesHeld b - 1 = 0
                    then do { (n, k) \<leftarrow> list_remove (StateItem t) k;
                              let k = (if n = 0
                                then k\<lparr>uxTopReadyPriority := portRESET_READY_PRIORITY (uxPriority b) (uxTopReadyPriority k)\<rparr>
                                else k);
                              k \<leftarrow> upd_tcb t (\<lambda>b. b\<lparr>uxPriority := uxBasePriority b\<rparr>) k;
                              let k = list_set_value (EventItem t) (sub32 configMAX_PRIORITIES (uxBasePriority b)) k;
                              k \<leftarrow> prvAddTaskToReadyList t k;
                              Some (True, k) }
                    else Some (False, k) } }
      else Some (False, k))"

text \<open>
  In the next function the bit that is reset is that of the new priority: the code reads
  \<open>pxTCB->uxPriority\<close> after assigning it.
\<close>

definition vTaskPriorityDisinheritAfterTimeout :: "tid \<Rightarrow> nat \<Rightarrow> kernel \<Rightarrow> kernel option" where
  "vTaskPriorityDisinheritAfterTimeout pxMutexHolder uxHighestPriorityWaitingTask k =
     (if pxMutexHolder \<noteq> 0 then
        do { let t = pxMutexHolder;
             b \<leftarrow> tcbs k t;
             if uxMutexesHeld b = 0 then None
             else
               do { let uxPriorityToUse = max (uxBasePriority b) uxHighestPriorityWaitingTask;
                    if uxPriority b \<noteq> uxPriorityToUse \<and> uxMutexesHeld b = 1
                    then (if t = pxCurrentTCB k then None
                          else
                            do { let uxPriorityUsedOnEntry = uxPriority b;
                                 k \<leftarrow> upd_tcb t (\<lambda>b. b\<lparr>uxPriority := uxPriorityToUse\<rparr>) k;
                                 let k = set_event_priority t uxPriorityToUse k;
                                 if container (klists k) (StateItem t) = Some (Ready uxPriorityUsedOnEntry)
                                 then do { (n, k) \<leftarrow> list_remove (StateItem t) k;
                                           b \<leftarrow> tcbs k t;
                                           prvAddTaskToReadyList t
                                             (if n = 0
                                              then k\<lparr>uxTopReadyPriority := portRESET_READY_PRIORITY (uxPriority b) (uxTopReadyPriority k)\<rparr>
                                              else k) }
                                 else Some k })
                    else Some k } }
      else Some k)"

section \<open>Notifications\<close>

datatype eNotifyAction =
    eNoAction | eSetBits | eIncrement | eSetValueWithOverwrite | eSetValueWithoutOverwrite

definition configTASK_NOTIFICATION_ARRAY_ENTRIES :: nat where
  "configTASK_NOTIFICATION_ARRAY_ENTRIES = 1"

fun notify_value :: "eNotifyAction \<Rightarrow> 32 word \<Rightarrow> notify_state \<Rightarrow> 32 word \<Rightarrow> bool \<times> 32 word" where
  "notify_value eNoAction ulValue old v = (True, v)"
| "notify_value eSetBits ulValue old v = (True, v OR ulValue)"
| "notify_value eIncrement ulValue old v = (True, v + 1)"
| "notify_value eSetValueWithOverwrite ulValue old v = (True, ulValue)"
| "notify_value eSetValueWithoutOverwrite ulValue old v = (if old \<noteq> Received then (True, ulValue) else (False, v))"

text \<open>Answer, previous value and state.\<close>

definition xTaskGenericNotify ::
  "tid \<Rightarrow> nat \<Rightarrow> 32 word \<Rightarrow> eNotifyAction \<Rightarrow> kernel \<Rightarrow> (bool \<times> 32 word \<times> kernel) option" where
  "xTaskGenericNotify t uxIndexToNotify ulValue eAction k =
     (if \<not> uxIndexToNotify < configTASK_NOTIFICATION_ARRAY_ENTRIES \<or> t = 0 then None
      else
        do { b \<leftarrow> tcbs k t;
             let (ok, v) = notify_value eAction ulValue (ucNotifyState b) (ulNotifiedValue b);
             k \<leftarrow> upd_tcb t (\<lambda>b. b\<lparr>ucNotifyState := Received, ulNotifiedValue := v\<rparr>) k;
             k \<leftarrow> (if ucNotifyState b = Waiting
                  then do { (_, k) \<leftarrow> list_remove (StateItem t) k;
                            k \<leftarrow> prvAddTaskToReadyList t k;
                            if container (klists k) (EventItem t) \<noteq> None then None
                            else taskYIELD_ANY_CORE_IF_USING_PREEMPTION t k }
                  else Some k);
             Some (ok, ulNotifiedValue b, k) })"

text \<open>
  From an interrupt; the third component is what the code stores through
  \<open>pxHigherPriorityTaskWoken\<close> (it stores only true).
\<close>

definition xTaskGenericNotifyFromISR ::
  "tid \<Rightarrow> nat \<Rightarrow> 32 word \<Rightarrow> eNotifyAction \<Rightarrow> kernel \<Rightarrow> (bool \<times> 32 word \<times> bool \<times> kernel) option" where
  "xTaskGenericNotifyFromISR t uxIndexToNotify ulValue eAction k =
     (if t = 0 \<or> \<not> uxIndexToNotify < configTASK_NOTIFICATION_ARRAY_ENTRIES then None
      else
        do { b \<leftarrow> tcbs k t;
             let (ok, v) = notify_value eAction ulValue (ucNotifyState b) (ulNotifiedValue b);
             k \<leftarrow> upd_tcb t (\<lambda>b. b\<lparr>ucNotifyState := Received, ulNotifiedValue := v\<rparr>) k;
             if ucNotifyState b = Waiting
             then (if container (klists k) (EventItem t) \<noteq> None then None
                   else do { k \<leftarrow> ready_or_pend t k;
                             (woken, k) \<leftarrow> note_higher t k;
                             Some (ok, ulNotifiedValue b, woken, k) })
             else Some (ok, ulNotifiedValue b, False, k) })"

definition vTaskGenericNotifyGiveFromISR :: "tid \<Rightarrow> nat \<Rightarrow> kernel \<Rightarrow> (bool \<times> kernel) option" where
  "vTaskGenericNotifyGiveFromISR t uxIndexToNotify k =
     (if t = 0 \<or> \<not> uxIndexToNotify < configTASK_NOTIFICATION_ARRAY_ENTRIES then None
      else
        do { b \<leftarrow> tcbs k t;
             k \<leftarrow> upd_tcb t (\<lambda>b. b\<lparr>ucNotifyState := Received, ulNotifiedValue := ulNotifiedValue b + 1\<rparr>) k;
             if ucNotifyState b = Waiting
             then (if container (klists k) (EventItem t) \<noteq> None then None
                   else do { k \<leftarrow> ready_or_pend t k; note_higher t k })
             else Some (False, k) })"

text \<open>
  Waiting for a notification, in the parts between which interrupts and, after the yield, other
  tasks run: the check under \<open>vTaskSuspendAll\<close>, blocking and resuming the scheduler, and the exit.
\<close>

definition notify_take_check :: "nat \<Rightarrow> nat \<Rightarrow> kernel \<Rightarrow> (bool \<times> kernel) option" where
  "notify_take_check uxIndexToWaitOn xTicksToWait k =
     (if \<not> uxIndexToWaitOn < configTASK_NOTIFICATION_ARRAY_ENTRIES then None
      else
        do { let k = vTaskSuspendAll k;
             b \<leftarrow> tcbs k (pxCurrentTCB k);
             if ulNotifiedValue b = 0
             then do { k \<leftarrow> upd_tcb (pxCurrentTCB k) (\<lambda>b. b\<lparr>ucNotifyState := Waiting\<rparr>) k;
                       Some (xTicksToWait > 0, k) }
             else Some (False, k) })"

definition notify_wait_check :: "nat \<Rightarrow> 32 word \<Rightarrow> nat \<Rightarrow> kernel \<Rightarrow> (bool \<times> kernel) option" where
  "notify_wait_check uxIndexToWaitOn ulBitsToClearOnEntry xTicksToWait k =
     (if \<not> uxIndexToWaitOn < configTASK_NOTIFICATION_ARRAY_ENTRIES then None
      else
        do { let k = vTaskSuspendAll k;
             b \<leftarrow> tcbs k (pxCurrentTCB k);
             if ucNotifyState b \<noteq> Received
             then do { k \<leftarrow> upd_tcb (pxCurrentTCB k)
                         (\<lambda>b. b\<lparr>ulNotifiedValue := ulNotifiedValue b AND NOT ulBitsToClearOnEntry, ucNotifyState := Waiting\<rparr>) k;
                       Some (xTicksToWait > 0, k) }
             else Some (False, k) })"

definition notify_block :: "bool \<Rightarrow> nat \<Rightarrow> kernel \<Rightarrow> kernel option" where
  "notify_block xShouldBlock xTicksToWait k =
     do { k \<leftarrow> (if xShouldBlock then prvAddCurrentTaskToDelayedList xTicksToWait True k else Some k);
          (yielded, k) \<leftarrow> xTaskResumeAll k;
          Some (if xShouldBlock \<and> \<not> yielded then portYIELD_WITHIN_API k else k) }"

definition notify_take_exit :: "bool \<Rightarrow> kernel \<Rightarrow> (32 word \<times> kernel) option" where
  "notify_take_exit xClearCountOnExit k =
     do { b \<leftarrow> tcbs k (pxCurrentTCB k);
          let v = ulNotifiedValue b;
          k \<leftarrow> upd_tcb (pxCurrentTCB k)
            (\<lambda>b. (if v \<noteq> 0 then b\<lparr>ulNotifiedValue := (if xClearCountOnExit then 0 else v - 1)\<rparr> else b)
                  \<lparr>ucNotifyState := NotWaiting\<rparr>) k;
          Some (v, k) }"

definition notify_wait_exit :: "32 word \<Rightarrow> kernel \<Rightarrow> (bool \<times> 32 word \<times> kernel) option" where
  "notify_wait_exit ulBitsToClearOnExit k =
     do { b \<leftarrow> tcbs k (pxCurrentTCB k);
          let received = (ucNotifyState b = Received);
          k \<leftarrow> upd_tcb (pxCurrentTCB k)
            (\<lambda>b. (if received then b\<lparr>ulNotifiedValue := ulNotifiedValue b AND NOT ulBitsToClearOnExit\<rparr> else b)
                  \<lparr>ucNotifyState := NotWaiting\<rparr>) k;
          Some (received, ulNotifiedValue b, k) }"

text \<open>
  The whole calls. \<open>isr\<close> is what interrupts do before the task is taken off the ready list, \<open>env\<close>
  what the interrupts and the other tasks do until it runs again.
\<close>

definition ulTaskGenericNotifyTake ::
  "nat \<Rightarrow> bool \<Rightarrow> nat \<Rightarrow> (kernel \<Rightarrow> kernel option) \<Rightarrow> (kernel \<Rightarrow> kernel option) \<Rightarrow> kernel \<Rightarrow> (32 word \<times> kernel) option" where
  "ulTaskGenericNotifyTake uxIndexToWaitOn xClearCountOnExit xTicksToWait isr env k =
     do { (xShouldBlock, k) \<leftarrow> notify_take_check uxIndexToWaitOn xTicksToWait k;
          k \<leftarrow> isr k;
          k \<leftarrow> notify_block xShouldBlock xTicksToWait k;
          k \<leftarrow> env k;
          notify_take_exit xClearCountOnExit k }"

definition xTaskGenericNotifyWait ::
  "nat \<Rightarrow> 32 word \<Rightarrow> 32 word \<Rightarrow> nat \<Rightarrow> (kernel \<Rightarrow> kernel option) \<Rightarrow> (kernel \<Rightarrow> kernel option) \<Rightarrow> kernel \<Rightarrow>
   (bool \<times> 32 word \<times> kernel) option" where
  "xTaskGenericNotifyWait uxIndexToWaitOn ulBitsToClearOnEntry ulBitsToClearOnExit xTicksToWait isr env k =
     do { (xShouldBlock, k) \<leftarrow> notify_wait_check uxIndexToWaitOn ulBitsToClearOnEntry xTicksToWait k;
          k \<leftarrow> isr k;
          k \<leftarrow> notify_block xShouldBlock xTicksToWait k;
          k \<leftarrow> env k;
          notify_wait_exit ulBitsToClearOnExit k }"

definition xTaskGenericNotifyStateClear :: "tid \<Rightarrow> nat \<Rightarrow> kernel \<Rightarrow> (bool \<times> kernel) option" where
  "xTaskGenericNotifyStateClear xTask uxIndexToClear k =
     (if \<not> uxIndexToClear < configTASK_NOTIFICATION_ARRAY_ENTRIES then None
      else
        do { let t = handle xTask k;
             b \<leftarrow> tcbs k t;
             if ucNotifyState b = Received
             then do { k \<leftarrow> upd_tcb t (\<lambda>b. b\<lparr>ucNotifyState := NotWaiting\<rparr>) k; Some (True, k) }
             else Some (False, k) })"

definition ulTaskGenericNotifyValueClear :: "tid \<Rightarrow> nat \<Rightarrow> 32 word \<Rightarrow> kernel \<Rightarrow> (32 word \<times> kernel) option" where
  "ulTaskGenericNotifyValueClear xTask uxIndexToClear ulBitsToClear k =
     (if \<not> uxIndexToClear < configTASK_NOTIFICATION_ARRAY_ENTRIES then None
      else
        do { let t = handle xTask k;
             b \<leftarrow> tcbs k t;
             k \<leftarrow> upd_tcb t (\<lambda>b. b\<lparr>ulNotifiedValue := ulNotifiedValue b AND NOT ulBitsToClear\<rparr>) k;
             Some (ulNotifiedValue b, k) })"

end
