(* ===== verification/TaskInv.thy ===== *)
theory TaskInv
  imports TaskEvents
begin

text \<open>
  The invariant of the scheduler and its preservation by the building blocks of \<open>tasks.c\<close>.
  \<open>kinv U P m k\<close>: the lists are well-formed and hold items of the right kind; every task is in a
  list, except the tasks of \<open>U\<close>, which are between two lists; the bitmap of ready priorities is
  exact, except that the bits of \<open>P\<close> may be set for an empty list; both delayed lists are sorted,
  the wake times of the current one are at least \<open>m\<close> and \<open>xNextTaskUnblockTime\<close> is not after the
  first of them. Between two operations \<open>U\<close> and \<open>P\<close> are empty and \<open>m\<close> is the next tick.
\<close>

section \<open>The bitmap of ready priorities\<close>

lemma bit_record: "bit (portRECORD_READY_PRIORITY p r) n \<longleftrightarrow> bit r n \<or> n = p \<and> p < 32"
  by (auto simp: portRECORD_READY_PRIORITY_def bit_simps)

lemma bit_reset: "bit (portRESET_READY_PRIORITY p r) n \<longleftrightarrow> bit r n \<and> n \<noteq> p"
  by (auto simp: portRESET_READY_PRIORITY_def bit_simps dest: bit_imp_le_length)

lemma bit_lt_32: "bit (r :: 32 word) n \<Longrightarrow> n < 32"
  by (drule bit_imp_le_length) simp

lemma leading_zeros:
  assumes "bit r p" "\<And>n. p < n \<Longrightarrow> \<not> bit r n"
  shows "ucPortCountLeadingZeros r = 31 - p"
proof -
  have p: "p < 32"
    using bit_lt_32 [OF assms(1)] .
  have "[0..<32] = [0..<p] @ [p..<32]"
    using upt_add_eq_append [of 0 p "32 - p"] p by simp
  also have "[p..<32] = p # [Suc p..<32]"
    using p by (simp add: upt_conv_Cons)
  finally have r: "rev [0..<32] = rev [Suc p..<32] @ p # rev [0..<p]"
    by simp
  have "takeWhile (\<lambda>n. \<not> bit r n) (rev [0..<32]) = rev [Suc p..<32]"
    unfolding r using assms by (subst takeWhile_append2) auto
  then show ?thesis
    by (simp add: ucPortCountLeadingZeros_def)
qed

text \<open>The port's macro finds the highest set bit.\<close>

lemma highest_priority:
  assumes "bit r p" "\<And>n. p < n \<Longrightarrow> \<not> bit r n"
  shows "portGET_HIGHEST_PRIORITY r = p"
proof -
  have "p < 32"
    using bit_lt_32 [OF assms(1)] .
  moreover have "31 < u32_bound"
    by (simp add: u32_bound_def)
  ultimately show ?thesis
    by (simp add: portGET_HIGHEST_PRIORITY_def leading_zeros [OF assms] sub32_exact)
qed

lemma highest_bit_exists:
  assumes "bit (r :: 32 word) q"
  obtains p where "q \<le> p" "bit r p" "\<And>n. p < n \<Longrightarrow> \<not> bit r n"
proof -
  have fin: "finite {n. bit r n}" and ne: "{n. bit r n} \<noteq> {}"
    using assms by (auto intro: finite_subset [of _ "{..<32}"] dest: bit_lt_32)
  show ?thesis
  proof (rule that [of "Max {n. bit r n}"])
    show "q \<le> Max {n. bit r n}"
      using fin assms by simp
    show "bit r (Max {n. bit r n})"
      using Max_in [OF fin ne] by simp
    show "\<not> bit r n" if "Max {n. bit r n} < n" for n
    proof
      assume "bit r n"
      then have "n \<le> Max {n. bit r n}"
        using fin by simp
      with that show False by simp
    qed
  qed
qed

section \<open>The invariant\<close>

fun slot_ok :: "(tid \<Rightarrow> TCB option) \<Rightarrow> lname \<Rightarrow> item \<Rightarrow> bool" where
  "slot_ok B (Ready p) (StateItem t) \<longleftrightarrow> (\<exists>b. B t = Some b \<and> uxPriority b = p)"
| "slot_ok B (Ready p) (EventItem t) \<longleftrightarrow> False"
| "slot_ok B PendingReady i \<longleftrightarrow> (\<exists>t. i = EventItem t \<and> B t \<noteq> None)"
| "slot_ok B (EventList e) i \<longleftrightarrow> (\<exists>t. i = EventItem t \<and> B t \<noteq> None)"
| "slot_ok B _ i \<longleftrightarrow> (\<exists>t. i = StateItem t \<and> B t \<noteq> None)"

definition typed :: "(tid \<Rightarrow> TCB option) \<Rightarrow> task_lists \<Rightarrow> bool" where
  "typed B T \<longleftrightarrow> (\<forall>l. \<forall>i \<in> set (items T l). slot_ok B l i)"

definition placed :: "tid set \<Rightarrow> (tid \<Rightarrow> TCB option) \<Rightarrow> task_lists \<Rightarrow> bool" where
  "placed U B T \<longleftrightarrow> (\<forall>t. B t \<noteq> None \<longrightarrow> (container T (StateItem t) = None \<longleftrightarrow> t \<in> U))"

definition priorities_ok :: "(tid \<Rightarrow> TCB option) \<Rightarrow> bool" where
  "priorities_ok B \<longleftrightarrow>
     B 0 = None \<and>
     (\<forall>t b. B t = Some b \<longrightarrow> uxPriority b < configMAX_PRIORITIES \<and> uxBasePriority b < configMAX_PRIORITIES)"

definition bits_ok :: "nat set \<Rightarrow> task_lists \<Rightarrow> 32 word \<Rightarrow> bool" where
  "bits_ok P T r \<longleftrightarrow>
     (\<forall>p. items T (Ready p) \<noteq> [] \<longrightarrow> p < configMAX_PRIORITIES \<and> bit r p) \<and>
     (\<forall>p. bit r p \<longrightarrow> p \<in> P \<or> items T (Ready p) \<noteq> [])"

definition delays_ok :: "nat \<Rightarrow> task_lists \<Rightarrow> lname \<Rightarrow> lname \<Rightarrow> nat \<Rightarrow> bool" where
  "delays_ok m T d ov next \<longleftrightarrow>
     (d = Delayed1 \<and> ov = Delayed2 \<or> d = Delayed2 \<and> ov = Delayed1) \<and>
     (\<forall>l \<in> {Delayed1, Delayed2}. sorted (map (item_value T) (items T l)) \<and>
        (\<forall>i \<in> set (items T l). item_value T i < u32_bound)) \<and>
     (\<forall>i \<in> set (items T d). m \<le> item_value T i \<and> next \<le> item_value T i)"

definition kinv :: "tid set \<Rightarrow> nat set \<Rightarrow> nat \<Rightarrow> kernel \<Rightarrow> bool" where
  "kinv U P m k \<longleftrightarrow>
     lists_ok (klists k) \<and> typed (tcbs k) (klists k) \<and> placed U (tcbs k) (klists k) \<and> priorities_ok (tcbs k) \<and>
     bits_ok P (klists k) (uxTopReadyPriority k) \<and>
     delays_ok m (klists k) (pxDelayedTaskList k) (pxOverflowDelayedTaskList k) (xNextTaskUnblockTime k)"

text \<open>Fields the invariant does not read.\<close>

lemma kinv_other_fields [simp]:
  "kinv U P m (k\<lparr>pxCurrentTCB := a1\<rparr>) = kinv U P m k"
  "kinv U P m (k\<lparr>uxDeletedTasksWaitingCleanUp := a2\<rparr>) = kinv U P m k"
  "kinv U P m (k\<lparr>uxCurrentNumberOfTasks := a2\<rparr>) = kinv U P m k"
  "kinv U P m (k\<lparr>xTickCount := a2\<rparr>) = kinv U P m k"
  "kinv U P m (k\<lparr>xSchedulerRunning := a3\<rparr>) = kinv U P m k"
  "kinv U P m (k\<lparr>xPendedTicks := a2\<rparr>) = kinv U P m k"
  "kinv U P m (k\<lparr>xYieldPending := a3\<rparr>) = kinv U P m k"
  "kinv U P m (k\<lparr>xNumOfOverflows := a2\<rparr>) = kinv U P m k"
  "kinv U P m (k\<lparr>uxTaskNumber := a2\<rparr>) = kinv U P m k"
  "kinv U P m (k\<lparr>xIdleTaskHandle := a2\<rparr>) = kinv U P m k"
  "kinv U P m (k\<lparr>uxSchedulerSuspended := a2\<rparr>) = kinv U P m k"
  "kinv U P m (k\<lparr>ulTaskSwitchedInTime := a2\<rparr>) = kinv U P m k"
  "kinv U P m (k\<lparr>pendsv := a3\<rparr>) = kinv U P m k"
  by (simp_all add: kinv_def)

lemma kinv_parts:
  assumes "kinv U P m k"
  shows "lists_ok (klists k)" "typed (tcbs k) (klists k)" "placed U (tcbs k) (klists k)" "priorities_ok (tcbs k)"
    "bits_ok P (klists k) (uxTopReadyPriority k)"
    "delays_ok m (klists k) (pxDelayedTaskList k) (pxOverflowDelayedTaskList k) (xNextTaskUnblockTime k)"
  using assms by (simp_all add: kinv_def)

lemma typed_ready: "typed B T \<Longrightarrow> StateItem t \<in> set (items T (Ready p)) \<Longrightarrow> \<exists>b. B t = Some b \<and> uxPriority b = p"
  unfolding typed_def by fastforce

lemma typed_slot: "typed B T \<Longrightarrow> i \<in> set (items T l) \<Longrightarrow> slot_ok B l i"
  by (simp add: typed_def)

lemma slot_state: "slot_ok B l (StateItem t) \<Longrightarrow> (\<exists>p. l = Ready p) \<or> l \<in> {Delayed1, Delayed2, Suspended, WaitingTermination}"
  by (cases l) auto

lemma slot_event: "slot_ok B l (EventItem t) \<Longrightarrow> l = PendingReady \<or> (\<exists>e. l = EventList e)"
  by (cases l) auto

lemma slot_live: "slot_ok B l i \<Longrightarrow> B (owner i) \<noteq> None"
  by (cases l; cases i) auto

lemma slot_state_owner: "l = Ready p \<or> l \<in> {Delayed1, Delayed2, Suspended, WaitingTermination} \<Longrightarrow> slot_ok B l i \<Longrightarrow> i = StateItem (owner i)"
  by (cases i) auto

text \<open>Weakening, and cleaning up a bit that has become exact.\<close>

lemma kinv_mono: "kinv U P m k \<Longrightarrow> P \<subseteq> Q \<Longrightarrow> m' \<le> m \<Longrightarrow> kinv U Q m' k"
  unfolding kinv_def bits_ok_def delays_ok_def by (auto intro: order_trans)

lemma kinv_unstale:
  assumes "kinv U P m k" "items (klists k) (Ready p) \<noteq> []"
  shows "kinv U (P - {p}) m k"
  using assms unfolding kinv_def bits_ok_def by auto

lemma kinv_reset:
  assumes "kinv U P m k" "items (klists k) (Ready p) = []"
  shows "kinv U (P - {p}) m (k\<lparr>uxTopReadyPriority := portRESET_READY_PRIORITY p (uxTopReadyPriority k)\<rparr>)"
  using assms unfolding kinv_def bits_ok_def by (auto simp: bit_reset)

lemma kinv_taskRESET:
  assumes "kinv U P m k"
  shows "kinv U (P - {p}) m (taskRESET_READY_PRIORITY p k)"
  using kinv_unstale [OF assms, of p] kinv_reset [OF assms, of p]
  by (simp add: taskRESET_READY_PRIORITY_def)
section \<open>The list operations\<close>

text \<open>What a list operation of the kernel leaves alone.\<close>

definition only_lists :: "kernel \<Rightarrow> kernel \<Rightarrow> bool" where
  "only_lists k k' \<longleftrightarrow> k' = k\<lparr>klists := klists k'\<rparr>"

lemma only_lists_fields:
  assumes "only_lists k k'"
  shows "tcbs k' = tcbs k" "pxCurrentTCB k' = pxCurrentTCB k" "pxDelayedTaskList k' = pxDelayedTaskList k"
    "pxOverflowDelayedTaskList k' = pxOverflowDelayedTaskList k" "xTickCount k' = xTickCount k"
    "uxTopReadyPriority k' = uxTopReadyPriority k" "xNextTaskUnblockTime k' = xNextTaskUnblockTime k"
    "uxSchedulerSuspended k' = uxSchedulerSuspended k" "xYieldPending k' = xYieldPending k"
    "xPendedTicks k' = xPendedTicks k" "xIdleTaskHandle k' = xIdleTaskHandle k" "pendsv k' = pendsv k"
    "xSchedulerRunning k' = xSchedulerRunning k" "xNumOfOverflows k' = xNumOfOverflows k"
    "uxDeletedTasksWaitingCleanUp k' = uxDeletedTasksWaitingCleanUp k"
    "uxCurrentNumberOfTasks k' = uxCurrentNumberOfTasks k"
  using assms unfolding only_lists_def by (cases k, cases k', simp)+

lemma only_lists_upd [simp]: "only_lists k (k\<lparr>klists := T\<rparr>)"
  by (simp add: only_lists_def)

text \<open>Removing a state item: the task is then between lists, its old list may have become empty.\<close>

lemma set_remove1_distinct: "distinct xs \<Longrightarrow> set (remove1 x xs) = set xs - {x}"
  by simp

lemma remove1_sublist: "sorted (map f xs) \<Longrightarrow> sorted (map f (remove1 x xs))"
proof (induction xs)
  case (Cons a xs)
  have "set (remove1 x xs) \<subseteq> set xs"
    by (rule set_remove1_subset)
  with Cons show ?case
    by auto
qed simp

lemma delays_ok_remove:
  assumes "delays_ok m T d ov nx" "items T' = (items T)(l := remove1 i (items T l))" "item_value T' = item_value T"
  shows "delays_ok m T' d ov nx"
proof -
  have "set (remove1 i xs) \<subseteq> set xs" for xs :: "item list"
    by (rule set_remove1_subset)
  then show ?thesis
    using assms(1) unfolding delays_ok_def assms(2,3) by (auto simp: remove1_sublist)
qed

lemma list_remove_state:
  assumes "kinv U P m k" "tcbs k t = Some b" "container (klists k) (StateItem t) = Some l"
  obtains n k' where "list_remove (StateItem t) k = Some (n, k')" "only_lists k k'"
    "items (klists k') = (items (klists k))(l := remove1 (StateItem t) (items (klists k) l))"
    "container (klists k') = (container (klists k))(StateItem t := None)"
    "item_value (klists k') = item_value (klists k)"
    "n = length (items (klists k) l) - 1"
    "kinv (insert t U) (P \<union> (if n = 0 then {p. l = Ready p} else {})) m k'"
proof -
  note K = kinv_parts [OF assms(1)]
  obtain T' where T': "remove_item (StateItem t) (klists k) = Some (length (items (klists k) l) - 1, T')" "lists_ok T'"
    "items T' = (items (klists k))(l := remove1 (StateItem t) (items (klists k) l))"
    "container T' = (container (klists k))(StateItem t := None)" "item_value T' = item_value (klists k)"
    using remove_item_fields [OF K(1) assms(3)] by metis
  let ?n = "length (items (klists k) l) - 1"
  let ?P = "P \<union> (if ?n = 0 then {p. l = Ready p} else {})"
  have i: "StateItem t \<in> set (items (klists k) l)"
    using lists_okD(1) [OF K(1)] assms(3) by simp
  have sub: "set (items T' j) \<subseteq> set (items (klists k) j)" for j
    by (auto simp: T'(3) dest: notin_set_remove1 in_set_remove1 set_mp [OF set_remove1_subset])
  have "typed (tcbs k) T'"
    using K(2) sub unfolding typed_def by blast
  moreover have "placed (insert t U) (tcbs k) T'"
    using K(3) assms(2) unfolding placed_def by (auto simp: T'(4))
  moreover have "bits_ok ?P T' (uxTopReadyPriority k)"
  proof -
    have "items T' (Ready p) \<noteq> [] \<Longrightarrow> items (klists k) (Ready p) \<noteq> []" for p
      using sub [of "Ready p"] by auto
    moreover have "items T' (Ready p) \<noteq> []" if "items (klists k) (Ready p) \<noteq> []" "p \<notin> ?P" for p
    proof (cases "l = Ready p")
      case True
      with that have "length (items T' (Ready p)) > 0"
        using i by (simp add: T'(3) length_remove1 split: if_splits)
      then show ?thesis by simp
    qed (use that in \<open>simp add: T'(3)\<close>)
    ultimately show ?thesis
      using K(5) unfolding bits_ok_def by blast
  qed
  moreover have "delays_ok m T' (pxDelayedTaskList k) (pxOverflowDelayedTaskList k) (xNextTaskUnblockTime k)"
    using delays_ok_remove [OF K(6) T'(3,5)] .
  ultimately have "kinv (insert t U) ?P m (k\<lparr>klists := T'\<rparr>)"
    using T'(2) K(4) by (simp add: kinv_def)
  then show ?thesis
    using T' by (intro that [of ?n "k\<lparr>klists := T'\<rparr>"]) (simp_all add: list_remove_def)
qed

text \<open>Removing an event item changes nothing else.\<close>

lemma list_remove_event:
  assumes "kinv U P m k" "container (klists k) (EventItem t) = Some l"
  obtains n k' where "list_remove (EventItem t) k = Some (n, k')" "only_lists k k'"
    "items (klists k') = (items (klists k))(l := remove1 (EventItem t) (items (klists k) l))"
    "container (klists k') = (container (klists k))(EventItem t := None)"
    "item_value (klists k') = item_value (klists k)" "l = PendingReady \<or> (\<exists>e. l = EventList e)"
    "kinv U P m k'"
proof -
  note K = kinv_parts [OF assms(1)]
  obtain T' where T': "remove_item (EventItem t) (klists k) = Some (length (items (klists k) l) - 1, T')" "lists_ok T'"
    "items T' = (items (klists k))(l := remove1 (EventItem t) (items (klists k) l))"
    "container T' = (container (klists k))(EventItem t := None)" "item_value T' = item_value (klists k)"
    using remove_item_fields [OF K(1) assms(2)] by metis
  have i: "EventItem t \<in> set (items (klists k) l)"
    using lists_okD(1) [OF K(1)] assms(2) by simp
  then have l: "l = PendingReady \<or> (\<exists>e. l = EventList e)"
    using slot_event typed_slot [OF K(2)] by blast
  have sub: "set (items T' j) \<subseteq> set (items (klists k) j)" for j
    by (auto simp: T'(3) dest: set_mp [OF set_remove1_subset])
  have "typed (tcbs k) T'"
    using K(2) sub unfolding typed_def by blast
  moreover have "placed U (tcbs k) T'"
    using K(3) unfolding placed_def by (auto simp: T'(4))
  moreover have "bits_ok P T' (uxTopReadyPriority k)"
    using K(5) l unfolding bits_ok_def by (auto simp: T'(3))
  moreover have "delays_ok m T' (pxDelayedTaskList k) (pxOverflowDelayedTaskList k) (xNextTaskUnblockTime k)"
    using delays_ok_remove [OF K(6) T'(3,5)] .
  ultimately have "kinv U P m (k\<lparr>klists := T'\<rparr>)"
    using T'(2) K(4) by (simp add: kinv_def)
  then show ?thesis
    using T' l by (intro that [of "length (items (klists k) l) - 1" "k\<lparr>klists := T'\<rparr>"]) (simp_all add: list_remove_def)
qed

lemma list_remove_if_event:
  assumes "kinv U P m k"
  obtains k' where "list_remove_if (EventItem t) k = Some k'" "only_lists k k'"
    "\<And>l. l \<noteq> PendingReady \<Longrightarrow> (\<And>e. l \<noteq> EventList e) \<Longrightarrow> items (klists k') l = items (klists k) l"
    "\<And>l. set (items (klists k') l) = set (items (klists k) l) - {EventItem t}"
    "container (klists k') = (container (klists k))(EventItem t := None)"
    "item_value (klists k') = item_value (klists k)" "kinv U P m k'"
proof (cases "container (klists k) (EventItem t)")
  case None
  then have "EventItem t \<notin> set (items (klists k) l)" for l
    using lists_okD(1) [OF kinv_parts(1) [OF assms], of "EventItem t" l] by simp
  then show ?thesis
    using None assms by (intro that [of k]) (auto simp: list_remove_if_def only_lists_def)
next
  case (Some l)
  obtain n k' where k': "list_remove (EventItem t) k = Some (n, k')" "only_lists k k'"
    "items (klists k') = (items (klists k))(l := remove1 (EventItem t) (items (klists k) l))"
    "container (klists k') = (container (klists k))(EventItem t := None)"
    "item_value (klists k') = item_value (klists k)" "l = PendingReady \<or> (\<exists>e. l = EventList e)"
    "kinv U P m k'"
    by (rule list_remove_event [OF assms Some])
  have "distinct (items (klists k) l)" "\<And>j. j \<noteq> l \<Longrightarrow> EventItem t \<notin> set (items (klists k) j)"
    using lists_okD(1,2) [OF kinv_parts(1) [OF assms]] Some by (auto, metis option.inject)
  then have "set (items (klists k') j) = set (items (klists k) j) - {EventItem t}" for j
    by (cases "j = l") (auto simp: k'(3))
  then show ?thesis
    using k' Some by (intro that [of k']) (auto simp: list_remove_if_def)
qed
text \<open>Inserting a state item that is between lists.\<close>

lemma kinv_free_state:
  assumes "kinv (insert t U) P m k" "tcbs k t = Some b"
  shows "container (klists k) (StateItem t) = None"
  using assms by (auto simp: kinv_def placed_def)

lemma bits_ok_insert_ready:
  assumes "bits_ok P T r" "items T' = (items T)(Ready p := xs)" "xs \<noteq> []" "p < configMAX_PRIORITIES"
  shows "bits_ok (P - {p}) T' (portRECORD_READY_PRIORITY p r)"
  using assms unfolding bits_ok_def by (auto simp: bit_record configMAX_PRIORITIES_def)

lemma kinv_add_ready:
  assumes "kinv (insert t U) P m k" "tcbs k t = Some b" "t \<notin> U"
  obtains k' where "prvAddTaskToReadyList t k = Some k'"
    "k' = k\<lparr>klists := insert_end (Ready (uxPriority b)) (StateItem t) (klists k),
            uxTopReadyPriority := portRECORD_READY_PRIORITY (uxPriority b) (uxTopReadyPriority k)\<rparr>"
    "kinv U (P - {uxPriority b}) m k'"
proof -
  note K = kinv_parts [OF assms(1)]
  let ?T = "insert_end (Ready (uxPriority b)) (StateItem t) (klists k)"
  have c: "container (klists k) (StateItem t) = None"
    using kinv_free_state [OF assms(1,2)] .
  have p: "uxPriority b < configMAX_PRIORITIES"
    using K(4) assms(2) by (simp add: priorities_ok_def)
  have "typed (tcbs k) ?T"
    using K(2) assms(2) by (auto simp: typed_def)
  moreover have "placed U (tcbs k) ?T"
    using K(3) assms(3) by (auto simp: placed_def)
  moreover have "bits_ok (P - {uxPriority b}) ?T (portRECORD_READY_PRIORITY (uxPriority b) (uxTopReadyPriority k))"
    by (rule bits_ok_insert_ready [OF K(5) insert_fields(1) put_not_Nil(1) p])
  moreover have "delays_ok m ?T (pxDelayedTaskList k) (pxOverflowDelayedTaskList k) (xNextTaskUnblockTime k)"
    using K(6) by (auto simp: delays_ok_def)
  ultimately have "kinv U (P - {uxPriority b}) m (k\<lparr>klists := ?T,
      uxTopReadyPriority := portRECORD_READY_PRIORITY (uxPriority b) (uxTopReadyPriority k)\<rparr>)"
    using lists_ok_insert_end [OF K(1) c] K(4) by (simp add: kinv_def)
  then show ?thesis
    using c assms(2) by (intro that) (simp_all add: prvAddTaskToReadyList_def list_insert_end_def Let_def)
qed

lemma kinv_insert_end_state:
  assumes "kinv (insert t U) P m k" "tcbs k t = Some b" "t \<notin> U" "l = Suspended \<or> l = WaitingTermination"
  shows "list_insert_end l (StateItem t) k = Some (k\<lparr>klists := insert_end l (StateItem t) (klists k)\<rparr>)"
    "kinv U P m (k\<lparr>klists := insert_end l (StateItem t) (klists k)\<rparr>)"
proof -
  note K = kinv_parts [OF assms(1)]
  let ?T = "insert_end l (StateItem t) (klists k)"
  have c: "container (klists k) (StateItem t) = None"
    using kinv_free_state [OF assms(1,2)] .
  then show "list_insert_end l (StateItem t) k = Some (k\<lparr>klists := ?T\<rparr>)"
    by (simp add: list_insert_end_def)
  have "typed (tcbs k) ?T"
    using K(2) assms(2,4) by (auto simp: typed_def)
  moreover have "placed U (tcbs k) ?T"
    using K(3) assms(3) by (auto simp: placed_def)
  moreover have "bits_ok P ?T (uxTopReadyPriority k)"
    using K(5) assms(4) by (auto simp: bits_ok_def)
  moreover have "delays_ok m ?T (pxDelayedTaskList k) (pxOverflowDelayedTaskList k) (xNextTaskUnblockTime k)"
    using K(6) assms(4) by (auto simp: delays_ok_def)
  ultimately show "kinv U P m (k\<lparr>klists := ?T\<rparr>)"
    using lists_ok_insert_end [OF K(1) c] K(4) by (simp add: kinv_def)
qed

text \<open>Inserting into a delayed list; into the current one \<open>xNextTaskUnblockTime\<close> follows.\<close>

lemma kinv_insert_delayed:
  assumes "kinv (insert t U) P m k" "tcbs k t = Some b" "t \<notin> U" "v < u32_bound"
    and l: "l = pxOverflowDelayedTaskList k \<and> nx = xNextTaskUnblockTime k \<or>
      l = pxDelayedTaskList k \<and> m \<le> v \<and> nx = min v (xNextTaskUnblockTime k)"
  defines "k1 \<equiv> list_set_value (StateItem t) v k"
  shows "list_insert l (StateItem t) k1 = Some (k1\<lparr>klists := insert_ordered l (StateItem t) (klists k1)\<rparr>)"
    "kinv U P m (k1\<lparr>klists := insert_ordered l (StateItem t) (klists k1), xNextTaskUnblockTime := nx\<rparr>)"
proof -
  note K = kinv_parts [OF assms(1)]
  let ?T0 = "set_value (StateItem t) v (klists k)"
  let ?T = "insert_ordered l (StateItem t) ?T0"
  have c: "container (klists k) (StateItem t) = None"
    using kinv_free_state [OF assms(1,2)] .
  then show "list_insert l (StateItem t) k1 = Some (k1\<lparr>klists := insert_ordered l (StateItem t) (klists k1)\<rparr>)"
    by (simp add: list_insert_def k1_def list_set_value_def)
  have dl: "l = Delayed1 \<or> l = Delayed2"
    using K(6) l by (auto simp: delays_ok_def)
  have fresh: "StateItem t \<notin> set (items (klists k) j)" for j
    using lists_ok_free [OF K(1) c] .
  have same: "map (item_value ?T0) (items (klists k) j) = map (item_value (klists k)) (items (klists k) j)" for j
    using fresh [of j] by auto
  have D: "\<And>j. j \<in> {Delayed1, Delayed2} \<Longrightarrow> sorted (map (item_value (klists k)) (items (klists k) j))"
    "\<And>j i. j \<in> {Delayed1, Delayed2} \<Longrightarrow> i \<in> set (items (klists k) j) \<Longrightarrow> item_value (klists k) i < u32_bound"
    "\<And>i. i \<in> set (items (klists k) (pxDelayedTaskList k)) \<Longrightarrow> m \<le> item_value (klists k) i \<and> xNextTaskUnblockTime k \<le> item_value (klists k) i"
    "pxDelayedTaskList k = Delayed1 \<and> pxOverflowDelayedTaskList k = Delayed2 \<or> pxDelayedTaskList k = Delayed2 \<and> pxOverflowDelayedTaskList k = Delayed1"
    using K(6) by (auto simp: delays_ok_def)
  have "typed (tcbs k) ?T"
    using K(2) assms(2) dl by (auto simp: typed_def)
  moreover have "placed U (tcbs k) ?T"
    using K(3) assms(3) by (auto simp: placed_def)
  moreover have "bits_ok P ?T (uxTopReadyPriority k)"
    using K(5) dl by (auto simp: bits_ok_def)
  moreover have "delays_ok m ?T (pxDelayedTaskList k) (pxOverflowDelayedTaskList k) nx"
    unfolding delays_ok_def
  proof (intro conjI ballI)
    show "pxDelayedTaskList k = Delayed1 \<and> pxOverflowDelayedTaskList k = Delayed2 \<or>
        pxDelayedTaskList k = Delayed2 \<and> pxOverflowDelayedTaskList k = Delayed1"
      by (rule D(4))
  next
    fix j
    assume j: "j \<in> {Delayed1, Delayed2}"
    show "sorted (map (item_value ?T) (items ?T j))"
    proof -
      have "sorted (map (item_value ?T0) (items (klists k) j))"
        using D(1) [OF j] by (simp only: same)
      then show ?thesis
        using sorted_put_sorted [of "item_value ?T0" "items (klists k) j" "StateItem t"]
        by (simp only: insert_fields fun_upd_apply split: if_split) blast
    qed
    fix i
    assume "i \<in> set (items ?T j)"
    then show "item_value ?T i < u32_bound"
      using D(2) [OF j, of i] assms(4) by (auto split: if_splits)
  next
    fix i
    assume i: "i \<in> set (items ?T (pxDelayedTaskList k))"
    show "m \<le> item_value ?T i"
      using i D(3) [of i] l D(4) fresh by (auto split: if_splits)
    show "nx \<le> item_value ?T i"
      using i D(3) [of i] l D(4) fresh by (auto split: if_splits)
  qed
  moreover have "lists_ok ?T"
    by (rule lists_ok_insert_ordered) (simp_all add: K(1) c)
  ultimately show "kinv U P m (k1\<lparr>klists := insert_ordered l (StateItem t) (klists k1), xNextTaskUnblockTime := nx\<rparr>)"
    using K(4) by (simp add: kinv_def k1_def list_set_value_def)
qed

text \<open>Inserting an event item, and giving it a new value.\<close>

lemma kinv_insert_event:
  assumes "kinv U P m k" "tcbs k t \<noteq> None" "container (klists k) (EventItem t) = None"
    "l = PendingReady \<or> l = EventList e"
  shows "list_insert_end l (EventItem t) k = Some (k\<lparr>klists := insert_end l (EventItem t) (klists k)\<rparr>)"
    "kinv U P m (k\<lparr>klists := insert_end l (EventItem t) (klists k)\<rparr>)"
    "list_insert l (EventItem t) k = Some (k\<lparr>klists := insert_ordered l (EventItem t) (klists k)\<rparr>)"
    "kinv U P m (k\<lparr>klists := insert_ordered l (EventItem t) (klists k)\<rparr>)"
proof -
  note K = kinv_parts [OF assms(1)]
  show "list_insert_end l (EventItem t) k = Some (k\<lparr>klists := insert_end l (EventItem t) (klists k)\<rparr>)"
    "list_insert l (EventItem t) k = Some (k\<lparr>klists := insert_ordered l (EventItem t) (klists k)\<rparr>)"
    using assms(3) by (simp_all add: list_insert_end_def list_insert_def)
  have "typed (tcbs k) (insert_end l (EventItem t) (klists k))" "typed (tcbs k) (insert_ordered l (EventItem t) (klists k))"
    using K(2) assms(2,4) by (auto simp: typed_def)
  moreover have "placed U (tcbs k) (insert_end l (EventItem t) (klists k))" "placed U (tcbs k) (insert_ordered l (EventItem t) (klists k))"
    using K(3) by (auto simp: placed_def)
  moreover have "bits_ok P (insert_end l (EventItem t) (klists k)) (uxTopReadyPriority k)"
    "bits_ok P (insert_ordered l (EventItem t) (klists k)) (uxTopReadyPriority k)"
    using K(5) assms(4) by (auto simp: bits_ok_def)
  moreover have "delays_ok m (insert_end l (EventItem t) (klists k)) (pxDelayedTaskList k) (pxOverflowDelayedTaskList k) (xNextTaskUnblockTime k)"
    "delays_ok m (insert_ordered l (EventItem t) (klists k)) (pxDelayedTaskList k) (pxOverflowDelayedTaskList k) (xNextTaskUnblockTime k)"
    using K(6) assms(4) by (auto simp: delays_ok_def)
  ultimately show "kinv U P m (k\<lparr>klists := insert_end l (EventItem t) (klists k)\<rparr>)"
    "kinv U P m (k\<lparr>klists := insert_ordered l (EventItem t) (klists k)\<rparr>)"
    using lists_ok_insert_end [OF K(1) assms(3)] lists_ok_insert_ordered [OF K(1) assms(3)] K(4) by (simp_all add: kinv_def)
qed

lemma kinv_set_event_value:
  assumes "kinv U P m k"
  shows "kinv U P m (list_set_value (EventItem t) v k)"
proof -
  note K = kinv_parts [OF assms]
  have dl: "pxDelayedTaskList k \<in> {Delayed1, Delayed2}"
    using K(6) by (auto simp: delays_ok_def)
  have "EventItem t \<notin> set (items (klists k) l)" if "l \<in> {Delayed1, Delayed2}" for l
    using typed_slot [OF K(2), of "EventItem t" l] that by auto
  then have "map (item_value (set_value (EventItem t) v (klists k))) (items (klists k) l) =
      map (item_value (klists k)) (items (klists k) l)"
    "\<And>i. i \<in> set (items (klists k) l) \<Longrightarrow> item_value (set_value (EventItem t) v (klists k)) i = item_value (klists k) i"
    if "l \<in> {Delayed1, Delayed2}" for l
    using that by (auto simp: fun_upd_def)
  then have "delays_ok m (set_value (EventItem t) v (klists k)) (pxDelayedTaskList k) (pxOverflowDelayedTaskList k) (xNextTaskUnblockTime k)"
    using K(6) dl unfolding delays_ok_def insert_fields(9) by (metis (no_types, lifting))
  then show ?thesis
    using K by (simp add: kinv_def list_set_value_def typed_def placed_def bits_ok_def)
qed

text \<open>Updates of a control block: the priority only of a task that is in no ready list.\<close>

lemma kinv_upd_tcb:
  assumes "kinv U P m k" "tcbs k t = Some b" "uxBasePriority b' < configMAX_PRIORITIES" "uxPriority b' < configMAX_PRIORITIES"
    and "uxPriority b' = uxPriority b \<or> (\<forall>p. container (klists k) (StateItem t) \<noteq> Some (Ready p))"
  shows "kinv U P m (k\<lparr>tcbs := (tcbs k)(t := Some b')\<rparr>)"
proof -
  note K = kinv_parts [OF assms(1)]
  have "slot_ok ((tcbs k)(t := Some b')) l i" if "i \<in> set (items (klists k) l)" for l i
  proof (cases "i = StateItem t \<and> (\<exists>p. l = Ready p)")
    case True
    then have "uxPriority b' = uxPriority b"
      using assms(5) lists_okD(1) [OF K(1), of i l] that by auto
    then show ?thesis
      using typed_slot [OF K(2) that] True assms(2) by auto
  next
    case False
    then show ?thesis
      using typed_slot [OF K(2) that] by (cases l; cases i) auto
  qed
  then have "typed ((tcbs k)(t := Some b')) (klists k)"
    by (simp add: typed_def)
  moreover have "placed U ((tcbs k)(t := Some b')) (klists k)"
    using K(3) assms(2) by (auto simp: placed_def)
  moreover have "priorities_ok ((tcbs k)(t := Some b'))"
    using K(4) assms(2-4) by (cases "t = 0") (auto simp: priorities_ok_def)
  ultimately show ?thesis
    using K(1,5,6) by (simp add: kinv_def)
qed
section \<open>Tasks that become ready\<close>

text \<open>What the scheduler's inner operations leave alone.\<close>

definition stable :: "kernel \<Rightarrow> kernel \<Rightarrow> bool" where
  "stable k k' \<longleftrightarrow>
     tcbs k' = tcbs k \<and> pxCurrentTCB k' = pxCurrentTCB k \<and> uxSchedulerSuspended k' = uxSchedulerSuspended k \<and>
     xPendedTicks k' = xPendedTicks k \<and> xIdleTaskHandle k' = xIdleTaskHandle k \<and>
     xSchedulerRunning k' = xSchedulerRunning k \<and> uxDeletedTasksWaitingCleanUp k' = uxDeletedTasksWaitingCleanUp k \<and>
     uxCurrentNumberOfTasks k' = uxCurrentNumberOfTasks k"

definition same_clock :: "kernel \<Rightarrow> kernel \<Rightarrow> bool" where
  "same_clock k k' \<longleftrightarrow>
     xTickCount k' = xTickCount k \<and> pxDelayedTaskList k' = pxDelayedTaskList k \<and>
     pxOverflowDelayedTaskList k' = pxOverflowDelayedTaskList k \<and> xNumOfOverflows k' = xNumOfOverflows k"

definition is_ready :: "kernel \<Rightarrow> tid \<Rightarrow> bool" where
  "is_ready k t \<longleftrightarrow> (\<exists>p. container (klists k) (StateItem t) = Some (Ready p))"

lemma stable_refl [simp]: "stable k k" and same_clock_refl [simp]: "same_clock k k"
  by (simp_all add: stable_def same_clock_def)

lemma stable_trans: "stable k1 k2 \<Longrightarrow> stable k2 k3 \<Longrightarrow> stable k1 k3"
  by (simp add: stable_def)

lemma same_clock_trans: "same_clock k1 k2 \<Longrightarrow> same_clock k2 k3 \<Longrightarrow> same_clock k1 k3"
  by (simp add: same_clock_def)

lemma only_lists_stable: "only_lists k k' \<Longrightarrow> stable k k' \<and> same_clock k k'"
  by (simp add: stable_def same_clock_def only_lists_fields)

lemma container_items: "kinv U P m k \<Longrightarrow> container (klists k) i = Some l \<longleftrightarrow> i \<in> set (items (klists k) l)"
  using lists_okD(1) [OF kinv_parts(1)] .

lemma kinv_live:
  assumes "kinv U P m k" "container (klists k) i = Some l"
  obtains b where "tcbs k (owner i) = Some b"
  using slot_live typed_slot [OF kinv_parts(2) [OF assms(1)]] container_items [OF assms(1)] assms(2)
  by (metis not_None_eq)

lemma kinv_ready_priority:
  assumes "kinv U P m k" "container (klists k) (StateItem t) = Some (Ready p)"
  obtains b where "tcbs k t = Some b" "uxPriority b = p"
  using typed_ready [OF kinv_parts(2) [OF assms(1)]] container_items [OF assms(1)] assms(2) by metis

lemma ready_priority_eq:
  assumes "kinv U P m k" "tcbs k t = Some b" "container (klists k) (StateItem t) = Some (Ready p)"
  shows "p = uxPriority b"
  using kinv_ready_priority [OF assms(1,3)] assms(2) by auto

lemma kinv_not_wait:
  assumes "kinv U P m k" "container (klists k) (StateItem t) = Some l"
  shows "l \<noteq> PendingReady" "l \<noteq> EventList e"
  using slot_state [of "tcbs k" l t] typed_slot [OF kinv_parts(2) [OF assms(1)], of "StateItem t" l]
    container_items [OF assms(1)] assms(2) by auto

text \<open>A task moves from whatever list it is in to the ready list of its priority.\<close>

lemma move_to_ready:
  assumes "kinv {} {} m k" "tcbs k t = Some b"
  obtains n k1 k2 where "list_remove (StateItem t) k = Some (n, k1)" "prvAddTaskToReadyList t k1 = Some k2"
    "kinv {} {} m k2" "stable k k2" "same_clock k k2"
    "xYieldPending k2 = xYieldPending k" "pendsv k2 = pendsv k" "xNextTaskUnblockTime k2 = xNextTaskUnblockTime k"
    "container (klists k2) = (container (klists k))(StateItem t := Some (Ready (uxPriority b)))"
    "item_value (klists k2) = item_value (klists k)"
    "\<And>l. l \<noteq> Ready (uxPriority b) \<Longrightarrow> items (klists k2) l = remove1 (StateItem t) (items (klists k) l)"
    "tcbs k1 = tcbs k" "container (klists k1) (EventItem t) = container (klists k) (EventItem t)"
proof -
  obtain l where l: "container (klists k) (StateItem t) = Some l"
    using kinv_parts(3) [OF assms(1)] assms(2) unfolding placed_def by auto
  obtain n k1 where k1: "list_remove (StateItem t) k = Some (n, k1)" "only_lists k k1"
    "items (klists k1) = (items (klists k))(l := remove1 (StateItem t) (items (klists k) l))"
    "container (klists k1) = (container (klists k))(StateItem t := None)"
    "item_value (klists k1) = item_value (klists k)"
    "kinv (insert t {}) ({} \<union> (if n = 0 then {p. l = Ready p} else {})) m k1"
    by (rule list_remove_state [OF assms(1,2) l])
  note f = only_lists_fields [OF k1(2)]
  have b: "tcbs k1 t = Some b"
    using assms(2) f by simp
  obtain k2 where k2: "prvAddTaskToReadyList t k1 = Some k2"
    "k2 = k1\<lparr>klists := insert_end (Ready (uxPriority b)) (StateItem t) (klists k1),
            uxTopReadyPriority := portRECORD_READY_PRIORITY (uxPriority b) (uxTopReadyPriority k1)\<rparr>"
    "kinv {} ({} \<union> (if n = 0 then {p. l = Ready p} else {}) - {uxPriority b}) m k2"
    by (rule kinv_add_ready [OF k1(6) b]) simp_all
  have "({} \<union> (if n = 0 then {p. l = Ready p} else {}) - {uxPriority b}) = {}"
    using ready_priority_eq [OF assms] l by auto
  then have inv: "kinv {} {} m k2"
    using k2(3) by (simp only:)
  have "remove1 (StateItem t) (items (klists k) j) = items (klists k) j" if "j \<noteq> l" for j
    using lists_ok_apart [OF kinv_parts(1) [OF assms(1)], of "StateItem t" l j] container_items [OF assms(1), of "StateItem t" l] l that
    by (intro remove1_idem) auto
  then have it: "items (klists k2) j = remove1 (StateItem t) (items (klists k) j)" if "j \<noteq> Ready (uxPriority b)" for j
    using that by (simp add: k2(2) k1(3))
  show ?thesis
    using k1(1,4,5) k2(1) inv it f by (intro that [of n k1 k2]) (simp_all add: k2(2) stable_def same_clock_def)
qed

lemma unblock_ok:
  assumes "kinv {} {} m k" "tcbs k t = Some b"
  obtains k' where "unblock t k = Some k'" "kinv {} {} m k'" "stable k k'" "same_clock k k'"
    "xYieldPending k' = xYieldPending k" "pendsv k' = pendsv k" "xNextTaskUnblockTime k' = xNextTaskUnblockTime k"
    "container (klists k') = (container (klists k))(StateItem t := Some (Ready (uxPriority b)), EventItem t := None)"
    "item_value (klists k') = item_value (klists k)"
    "\<And>l. l \<in> {Delayed1, Delayed2, Suspended, WaitingTermination} \<Longrightarrow> items (klists k') l = remove1 (StateItem t) (items (klists k) l)"
proof -
  obtain l where l: "container (klists k) (StateItem t) = Some l"
    using kinv_parts(3) [OF assms(1)] assms(2) unfolding placed_def by auto
  obtain n k1 where k1: "list_remove (StateItem t) k = Some (n, k1)" "only_lists k k1"
    "items (klists k1) = (items (klists k))(l := remove1 (StateItem t) (items (klists k) l))"
    "container (klists k1) = (container (klists k))(StateItem t := None)"
    "item_value (klists k1) = item_value (klists k)"
    "kinv (insert t {}) ({} \<union> (if n = 0 then {p. l = Ready p} else {})) m k1"
    by (rule list_remove_state [OF assms(1,2) l])
  obtain k2 where k2: "list_remove_if (EventItem t) k1 = Some k2" "only_lists k1 k2"
    "\<And>l. l \<noteq> PendingReady \<Longrightarrow> (\<And>e. l \<noteq> EventList e) \<Longrightarrow> items (klists k2) l = items (klists k1) l"
    "container (klists k2) = (container (klists k1))(EventItem t := None)"
    "item_value (klists k2) = item_value (klists k1)"
    "kinv (insert t {}) ({} \<union> (if n = 0 then {p. l = Ready p} else {})) m k2"
    using list_remove_if_event [OF k1(6), of t] by metis
  note f = only_lists_fields [OF k1(2)] only_lists_fields [OF k2(2)]
  have b: "tcbs k2 t = Some b"
    using assms(2) f by simp
  obtain k3 where k3: "prvAddTaskToReadyList t k2 = Some k3"
    "k3 = k2\<lparr>klists := insert_end (Ready (uxPriority b)) (StateItem t) (klists k2),
            uxTopReadyPriority := portRECORD_READY_PRIORITY (uxPriority b) (uxTopReadyPriority k2)\<rparr>"
    "kinv {} ({} \<union> (if n = 0 then {p. l = Ready p} else {}) - {uxPriority b}) m k3"
    by (rule kinv_add_ready [OF k2(6) b]) simp_all
  have "({} \<union> (if n = 0 then {p. l = Ready p} else {}) - {uxPriority b}) = {}"
    using ready_priority_eq [OF assms] l by auto
  then have inv: "kinv {} {} m k3"
    using k3(3) by (simp only:)
  have same: "remove1 (StateItem t) (items (klists k) j) = items (klists k) j" if "j \<noteq> l" for j
    using lists_ok_apart [OF kinv_parts(1) [OF assms(1)], of "StateItem t" l j] container_items [OF assms(1), of "StateItem t" l] l that
    by (intro remove1_idem) auto
  have it: "items (klists k3) j = remove1 (StateItem t) (items (klists k) j)"
    if "j \<in> {Delayed1, Delayed2, Suspended, WaitingTermination}" for j
  proof -
    have "items (klists k2) j = items (klists k1) j"
      using k2(3) that by auto
    then show ?thesis
      using that same [of j] by (cases "j = l") (auto simp: k3(2) k1(3))
  qed
  show ?thesis
    using k1(1,4,5) k2(1,4,5) k3(1) inv it f
    by (intro that [of k3]) (simp_all add: k3(2) stable_def same_clock_def unblock_def fun_upd_twist)
qed

section \<open>The tick\<close>

lemma takeWhile_remove1_head: "takeWhile P (i # xs) = (if P i then i # takeWhile P xs else [])"
  by simp

text \<open>
  The loop of the tick takes exactly the tasks whose time has come off the delayed list and makes
  them ready; it asks for a switch if one of them has a higher priority than the running task.
\<close>

lemma wake_due_ok:
  assumes "kinv {} {} m k" "m \<le> Suc now" "now < u32_bound" "tcbs k (pxCurrentTCB k) = Some c"
  defines "D \<equiv> items (klists k) (pxDelayedTaskList k)"
    and "due \<equiv> (\<lambda>i. item_value (klists k) i \<le> now)"
  shows "\<exists>k'. wake_due now sw k =
      Some (sw \<or> (\<exists>i \<in> set (takeWhile due D). \<exists>b. tcbs k (owner i) = Some b \<and> uxPriority b > uxPriority c), k') \<and>
    kinv {} {} (Suc now) k' \<and> stable k k' \<and> same_clock k k' \<and> xYieldPending k' = xYieldPending k \<and> pendsv k' = pendsv k \<and>
    item_value (klists k') = item_value (klists k) \<and>
    items (klists k') (pxDelayedTaskList k) = dropWhile due D \<and>
    items (klists k') (pxOverflowDelayedTaskList k) = items (klists k) (pxOverflowDelayedTaskList k) \<and>
    (\<forall>u. container (klists k') (StateItem u) =
       (if StateItem u \<in> set (takeWhile due D) then map_option (\<lambda>b. Ready (uxPriority b)) (tcbs k u)
        else container (klists k) (StateItem u))) \<and>
    (\<forall>u. container (klists k') (EventItem u) =
       (if StateItem u \<in> set (takeWhile due D) then None else container (klists k) (EventItem u)))"
  using assms(1,2,4) unfolding D_def due_def
proof (induction "length (items (klists k) (pxDelayedTaskList k))" arbitrary: k sw rule: less_induct)
  case (less k)
  note K = kinv_parts [OF less.prems(1)]
  let ?d = "pxDelayedTaskList k"
  have dd: "?d = Delayed1 \<and> pxOverflowDelayedTaskList k = Delayed2 \<or> ?d = Delayed2 \<and> pxOverflowDelayedTaskList k = Delayed1"
    using K(6) by (simp add: delays_ok_def)
  show ?case
  proof (cases "items (klists k) ?d")
    case Nil
    have "kinv {} {} (Suc now) (k\<lparr>xNextTaskUnblockTime := portMAX_DELAY\<rparr>)"
      using less.prems(1) Nil by (auto simp: kinv_def delays_ok_def)
    with Nil show ?thesis
      by (subst wake_due.simps) (simp add: stable_def same_clock_def)
  next
    case (Cons i xs)
    then have i: "i = StateItem (owner i)"
      using typed_slot [OF K(2), of i ?d] dd by (intro slot_state_owner [of ?d]) auto
    have il: "container (klists k) i = Some ?d"
      using container_items [OF less.prems(1), of i ?d] Cons by simp
    obtain b where b: "tcbs k (owner i) = Some b"
      using kinv_live [OF less.prems(1) il] by auto
    have so: "sorted (map (item_value (klists k)) (i # xs))"
      using K(6) dd Cons by (auto simp: delays_ok_def)
    show ?thesis
    proof (cases "now < item_value (klists k) i")
      case True
      have "kinv {} {} (Suc now) (k\<lparr>xNextTaskUnblockTime := item_value (klists k) i\<rparr>)"
      proof -
        have "delays_ok (Suc now) (klists k) ?d (pxOverflowDelayedTaskList k) (item_value (klists k) i)"
          using K(6) Cons True so unfolding delays_ok_def by (force dest: less_le_trans)
        then show ?thesis
          using K by (simp add: kinv_def)
      qed
      moreover have "wake_due now sw k = Some (sw, k\<lparr>xNextTaskUnblockTime := item_value (klists k) i\<rparr>)"
        using Cons True i by (subst wake_due.simps) (simp add: Let_def)
      ultimately show ?thesis
        using Cons True by (simp add: stable_def same_clock_def)
    next
      case False
      obtain k1 where k1: "unblock (owner i) k = Some k1" "kinv {} {} m k1" "stable k k1" "same_clock k k1"
        "xYieldPending k1 = xYieldPending k" "pendsv k1 = pendsv k" "xNextTaskUnblockTime k1 = xNextTaskUnblockTime k"
        "container (klists k1) = (container (klists k))(StateItem (owner i) := Some (Ready (uxPriority b)), EventItem (owner i) := None)"
        "item_value (klists k1) = item_value (klists k)"
        "\<And>l. l \<in> {Delayed1, Delayed2, Suspended, WaitingTermination} \<Longrightarrow>
          items (klists k1) l = remove1 (StateItem (owner i)) (items (klists k) l)"
        using unblock_ok [OF less.prems(1) b] by metis
      have eq: "pxDelayedTaskList k1 = ?d" "pxOverflowDelayedTaskList k1 = pxOverflowDelayedTaskList k"
        "tcbs k1 = tcbs k" "pxCurrentTCB k1 = pxCurrentTCB k"
        using k1(3,4) by (simp_all add: stable_def same_clock_def)
      have d1: "items (klists k1) ?d = xs"
        using k1(10) [of ?d] dd Cons i by auto
      have o1: "items (klists k1) (pxOverflowDelayedTaskList k) = items (klists k) (pxOverflowDelayedTaskList k)"
      proof -
        have "i \<notin> set (items (klists k) (pxOverflowDelayedTaskList k))"
          using lists_ok_apart [OF K(1), of i ?d "pxOverflowDelayedTaskList k"] Cons dd by auto
        then show ?thesis
          using k1(10) [of "pxOverflowDelayedTaskList k"] dd i by (auto simp: remove1_idem)
      qed
      have hp: "higher_priority (owner i) k1 = Some (uxPriority b > uxPriority c)"
        using b less.prems(3) eq by (simp add: higher_priority_def)
      have step: "wake_due now sw k = wake_due now (sw \<or> uxPriority b > uxPriority c) k1"
        using Cons False i k1(1) hp by (subst wake_due.simps) (simp add: Let_def)
      have "length (items (klists k1) (pxDelayedTaskList k1)) < length (items (klists k) ?d)"
        using d1 eq Cons by simp
      from less.hyps [OF this k1(2) less.prems(2), of "sw \<or> uxPriority b > uxPriority c"] less.prems(3) eq
      obtain k' where k': "wake_due now (sw \<or> uxPriority b > uxPriority c) k1 =
          Some ((sw \<or> uxPriority b > uxPriority c) \<or>
            (\<exists>i \<in> set (takeWhile (\<lambda>i. item_value (klists k) i \<le> now) xs). \<exists>b. tcbs k (owner i) = Some b \<and> uxPriority b > uxPriority c), k')"
        "kinv {} {} (Suc now) k'" "stable k1 k'" "same_clock k1 k'" "xYieldPending k' = xYieldPending k1" "pendsv k' = pendsv k1"
        "item_value (klists k') = item_value (klists k1)"
        "items (klists k') ?d = dropWhile (\<lambda>i. item_value (klists k) i \<le> now) xs"
        "items (klists k') (pxOverflowDelayedTaskList k) = items (klists k1) (pxOverflowDelayedTaskList k)"
        "\<And>u. container (klists k') (StateItem u) =
           (if StateItem u \<in> set (takeWhile (\<lambda>i. item_value (klists k) i \<le> now) xs)
            then map_option (\<lambda>b. Ready (uxPriority b)) (tcbs k u) else container (klists k1) (StateItem u))"
        "\<And>u. container (klists k') (EventItem u) =
           (if StateItem u \<in> set (takeWhile (\<lambda>i. item_value (klists k) i \<le> now) xs)
            then None else container (klists k1) (EventItem u))"
        by (auto simp: k1(9) d1)
      have tw: "takeWhile (\<lambda>i. item_value (klists k) i \<le> now) (i # xs) =
          i # takeWhile (\<lambda>i. item_value (klists k) i \<le> now) xs"
        "dropWhile (\<lambda>i. item_value (klists k) i \<le> now) (i # xs) = dropWhile (\<lambda>i. item_value (klists k) i \<le> now) xs"
        using False by simp_all
      have e1: "StateItem u = i \<longleftrightarrow> u = owner i" for u
        using i by (metis owner.simps(1))
      show ?thesis
        unfolding Cons tw
        using stable_trans [OF k1(3) k'(3)] same_clock_trans [OF k1(4) k'(4)] k'(2,5-11) k1(5,6,8,9) o1 b
        by (intro exI [of _ k']) (auto simp: step k'(1) e1)
    qed
  qed
qed
text \<open>The ticks a delayed task still has to wait, over the wrap of the tick count.\<close>

definition remaining :: "kernel \<Rightarrow> tid \<Rightarrow> nat option" where
  "remaining k t =
     (if container (klists k) (StateItem t) = Some (pxDelayedTaskList k)
      then Some (item_value (klists k) (StateItem t) - xTickCount k)
      else if container (klists k) (StateItem t) = Some (pxOverflowDelayedTaskList k)
      then Some (item_value (klists k) (StateItem t) + u32_bound - xTickCount k)
      else None)"

lemma delayed_lists: "kinv U P m k \<Longrightarrow>
  pxDelayedTaskList k = Delayed1 \<and> pxOverflowDelayedTaskList k = Delayed2 \<or>
  pxDelayedTaskList k = Delayed2 \<and> pxOverflowDelayedTaskList k = Delayed1"
  by (simp add: kinv_def delays_ok_def)

lemma sorted_takeWhile_mem:
  assumes "sorted (map f xs)"
  shows "x \<in> set (takeWhile (\<lambda>x. f x \<le> n) xs) \<longleftrightarrow> x \<in> set xs \<and> f x \<le> (n :: nat)"
  using assms
proof (induction xs)
  case (Cons a xs)
  then show ?case
    by (auto dest: set_takeWhileD)
qed simp

lemma remaining_pos:
  assumes "kinv U P (Suc (xTickCount k)) k" "xTickCount k < u32_bound" "remaining k t = Some r"
  shows "0 < r"
proof -
  have "StateItem t \<in> set (items (klists k) (pxDelayedTaskList k)) \<Longrightarrow> Suc (xTickCount k) \<le> item_value (klists k) (StateItem t)"
    using kinv_parts(6) [OF assms(1)] by (simp add: delays_ok_def)
  then show ?thesis
    using assms(2,3) container_items [OF assms(1)] by (auto simp: remaining_def split: if_splits)
qed

text \<open>
  The part of the tick after the count: all in all, the tasks that had one tick left become ready,
  and the others keep their lists.
\<close>

lemma tick_wake_ok:
  assumes "kinv {} {} m k" "m \<le> xTickCount k" "xTickCount k < u32_bound" "tcbs k (pxCurrentTCB k) = Some c"
  shows "\<exists>k'. (if xTickCount k \<ge> xNextTaskUnblockTime k then wake_due (xTickCount k) False k else Some (False, k)) =
      Some (\<exists>u b. container (klists k) (StateItem u) = Some (pxDelayedTaskList k) \<and>
          item_value (klists k) (StateItem u) \<le> xTickCount k \<and> tcbs k u = Some b \<and> uxPriority b > uxPriority c, k') \<and>
    kinv {} {} (Suc (xTickCount k)) k' \<and> stable k k' \<and> same_clock k k' \<and> xYieldPending k' = xYieldPending k \<and> pendsv k' = pendsv k \<and>
    item_value (klists k') = item_value (klists k) \<and>
    (\<forall>u. container (klists k') (StateItem u) =
       (if container (klists k) (StateItem u) = Some (pxDelayedTaskList k) \<and> item_value (klists k) (StateItem u) \<le> xTickCount k
        then map_option (\<lambda>b. Ready (uxPriority b)) (tcbs k u) else container (klists k) (StateItem u))) \<and>
    (\<forall>u. container (klists k') (EventItem u) =
       (if container (klists k) (StateItem u) = Some (pxDelayedTaskList k) \<and> item_value (klists k) (StateItem u) \<le> xTickCount k
        then None else container (klists k) (EventItem u)))"
proof -
  let ?d = "pxDelayedTaskList k" and ?now = "xTickCount k"
  let ?due = "\<lambda>i. item_value (klists k) i \<le> ?now"
  let ?D = "items (klists k) ?d"
  note K = kinv_parts [OF assms(1)]
  have so: "sorted (map (item_value (klists k)) ?D)"
    using K(6) by (auto simp: delays_ok_def)
  have W: "StateItem u \<in> set (takeWhile ?due ?D) \<longleftrightarrow>
      container (klists k) (StateItem u) = Some ?d \<and> item_value (klists k) (StateItem u) \<le> ?now" for u
    using sorted_takeWhile_mem [OF so] container_items [OF assms(1)] by simp
  have st: "i = StateItem (owner i)" if "i \<in> set ?D" for i
    using typed_slot [OF K(2) that] delayed_lists [OF assms(1)] by (intro slot_state_owner [of ?d]) auto
  have hp: "(\<exists>i \<in> set (takeWhile ?due ?D). \<exists>b. tcbs k (owner i) = Some b \<and> uxPriority b > uxPriority c) \<longleftrightarrow>
      (\<exists>u b. container (klists k) (StateItem u) = Some ?d \<and> item_value (klists k) (StateItem u) \<le> ?now \<and>
        tcbs k u = Some b \<and> uxPriority b > uxPriority c)" (is "?L \<longleftrightarrow> ?R")
  proof
    assume ?L
    then obtain i b where i: "i \<in> set (takeWhile ?due ?D)" "tcbs k (owner i) = Some b" "uxPriority b > uxPriority c"
      by blast
    moreover obtain u where "i = StateItem u"
      using i(1) st by (blast dest: set_takeWhileD)
    ultimately show ?R
      using W [of u] by auto
  next
    assume ?R
    then obtain u b where "StateItem u \<in> set (takeWhile ?due ?D)" "tcbs k u = Some b" "uxPriority b > uxPriority c"
      using W by blast
    then show ?L
      by (intro bexI [of _ "StateItem u"]) auto
  qed
  show ?thesis
  proof (cases "?now \<ge> xNextTaskUnblockTime k")
    case True
    have "m \<le> Suc ?now"
      using assms(2) by simp
    from wake_due_ok [OF assms(1) this assms(3,4), of False] True show ?thesis
      unfolding W hp by auto
  next
    case False
    then have none: "\<not> (container (klists k) (StateItem u) = Some ?d \<and> item_value (klists k) (StateItem u) \<le> ?now)" for u
      using K(6) container_items [OF assms(1)] by (fastforce simp: delays_ok_def)
    have "kinv {} {} (Suc ?now) k"
    proof -
      have "delays_ok (Suc ?now) (klists k) ?d (pxOverflowDelayedTaskList k) (xNextTaskUnblockTime k)"
        using K(6) False unfolding delays_ok_def by (fastforce)
      then show ?thesis
        using K by (simp add: kinv_def)
    qed
    with False none show ?thesis
      by auto
  qed
qed

definition tick_ready :: "kernel \<Rightarrow> tid \<Rightarrow> bool" where
  "tick_ready k u \<longleftrightarrow> remaining k u = Some 1"

lemma switch_delayed_ok:
  assumes "kinv {} {} u32_bound k"
  shows "\<exists>k'. taskSWITCH_DELAYED_LISTS k = Some k' \<and> kinv {} {} 0 k' \<and> stable k k' \<and> klists k' = klists k \<and>
    xTickCount k' = xTickCount k \<and> pxDelayedTaskList k' = pxOverflowDelayedTaskList k \<and>
    pxOverflowDelayedTaskList k' = pxDelayedTaskList k \<and> items (klists k) (pxDelayedTaskList k) = [] \<and>
    xNumOfOverflows k' = add32 (xNumOfOverflows k) 1 \<and> xYieldPending k' = xYieldPending k \<and> pendsv k' = pendsv k"
proof -
  note K = kinv_parts [OF assms]
  have dd: "pxDelayedTaskList k = Delayed1 \<and> pxOverflowDelayedTaskList k = Delayed2 \<or>
      pxDelayedTaskList k = Delayed2 \<and> pxOverflowDelayedTaskList k = Delayed1"
    using delayed_lists [OF assms] .
  have "\<forall>i \<in> set (items (klists k) (pxDelayedTaskList k)). u32_bound \<le> item_value (klists k) i \<and> item_value (klists k) i < u32_bound"
    using K(6) dd by (auto simp: delays_ok_def)
  then have nil: "items (klists k) (pxDelayedTaskList k) = []"
    by (cases "items (klists k) (pxDelayedTaskList k)") auto
  define k1 where "k1 = prvResetNextTaskUnblockTime
             (k\<lparr>pxDelayedTaskList := pxOverflowDelayedTaskList k, pxOverflowDelayedTaskList := pxDelayedTaskList k,
                xNumOfOverflows := add32 (xNumOfOverflows k) 1\<rparr>)"
  have so: "sorted (map (item_value (klists k)) (items (klists k) (pxOverflowDelayedTaskList k)))"
    using K(6) dd by (auto simp: delays_ok_def)
  have "delays_ok 0 (klists k) (pxOverflowDelayedTaskList k) (pxDelayedTaskList k) (xNextTaskUnblockTime k1)"
    using K(6) so unfolding delays_ok_def by (auto simp: k1_def prvResetNextTaskUnblockTime_def split: list.splits)
  moreover have "k1 = k\<lparr>pxDelayedTaskList := pxOverflowDelayedTaskList k, pxOverflowDelayedTaskList := pxDelayedTaskList k,
                xNumOfOverflows := add32 (xNumOfOverflows k) 1, xNextTaskUnblockTime := xNextTaskUnblockTime k1\<rparr>"
    by (auto simp: k1_def prvResetNextTaskUnblockTime_def split: list.splits)
  then obtain nx where k1: "k1 = k\<lparr>pxDelayedTaskList := pxOverflowDelayedTaskList k, pxOverflowDelayedTaskList := pxDelayedTaskList k,
                xNumOfOverflows := add32 (xNumOfOverflows k) 1, xNextTaskUnblockTime := nx\<rparr>"
    by blast
  ultimately have "kinv {} {} 0 k1"
    using K by (simp add: kinv_def)
  moreover have "taskSWITCH_DELAYED_LISTS k = Some k1"
    using nil by (simp add: taskSWITCH_DELAYED_LISTS_def k1_def)
  ultimately show ?thesis
    using nil by (intro exI [of _ k1]) (simp add: k1 stable_def)
qed

theorem tick_ok:
  assumes "kinv {} {} (Suc (xTickCount k)) k" "xTickCount k < u32_bound" "tcbs k (pxCurrentTCB k) = Some c"
    "uxSchedulerSuspended k = 0"
  shows "\<exists>sw k'. xTaskIncrementTick k = Some (sw, k') \<and> kinv {} {} (Suc (xTickCount k')) k' \<and>
    xTickCount k' = add32 (xTickCount k) 1 \<and> stable k k' \<and> xYieldPending k' = xYieldPending k \<and> pendsv k' = pendsv k \<and>
    xNumOfOverflows k' = (if xTickCount k' = 0 then add32 (xNumOfOverflows k) 1 else xNumOfOverflows k) \<and>
    (\<forall>u. container (klists k') (StateItem u) =
       (if tick_ready k u then map_option (\<lambda>b. Ready (uxPriority b)) (tcbs k u) else container (klists k) (StateItem u))) \<and>
    (\<forall>u. container (klists k') (EventItem u) = (if tick_ready k u then None else container (klists k) (EventItem u))) \<and>
    (\<forall>u r. remaining k u = Some (Suc r) \<longrightarrow> r > 0 \<longrightarrow> remaining k' u = Some r) \<and>
    (sw \<longleftrightarrow> (\<exists>u b. tick_ready k u \<and> tcbs k u = Some b \<and> uxPriority b > uxPriority c) \<or>
       length (items (klists k') (Ready (uxPriority c))) > 1 \<or> xYieldPending k)"
proof -
  define now where "now = add32 (xTickCount k) 1"
  let ?k0 = "k\<lparr>xTickCount := now\<rparr>"
  have dd: "pxDelayedTaskList k = Delayed1 \<and> pxOverflowDelayedTaskList k = Delayed2 \<or>
      pxDelayedTaskList k = Delayed2 \<and> pxOverflowDelayedTaskList k = Delayed1"
    using delayed_lists [OF assms(1)] .
  have now: "now = (if Suc (xTickCount k) = u32_bound then 0 else Suc (xTickCount k))" "now < u32_bound"
    using assms(2) by (auto simp: now_def add32_def)
  have bound: "item_value (klists k) (StateItem u) < u32_bound"
    if "container (klists k) (StateItem u) = Some l" "l \<in> {Delayed1, Delayed2}" for u l
    using kinv_parts(6) [OF assms(1)] container_items [OF assms(1)] that by (auto simp: delays_ok_def)
  have "\<exists>k1 m. (if now = 0 then taskSWITCH_DELAYED_LISTS ?k0 else Some ?k0) = Some k1 \<and> kinv {} {} m k1 \<and> m \<le> now \<and>
    stable k k1 \<and> klists k1 = klists k \<and> xTickCount k1 = now \<and> xYieldPending k1 = xYieldPending k \<and> pendsv k1 = pendsv k \<and>
    xNumOfOverflows k1 = (if now = 0 then add32 (xNumOfOverflows k) 1 else xNumOfOverflows k) \<and>
    pxDelayedTaskList k1 = (if now = 0 then pxOverflowDelayedTaskList k else pxDelayedTaskList k) \<and>
    pxOverflowDelayedTaskList k1 = (if now = 0 then pxDelayedTaskList k else pxOverflowDelayedTaskList k) \<and>
    (now = 0 \<longrightarrow> items (klists k) (pxDelayedTaskList k) = [])"
  proof (cases "now = 0")
    case True
    then have "kinv {} {} u32_bound ?k0"
      using assms(1) now by (auto split: if_splits)
    from switch_delayed_ok [OF this] True show ?thesis
      by (auto simp: stable_def intro!: exI [of _ 0])
  next
    case False
    then have "kinv {} {} now ?k0"
      using assms(1) now by (auto split: if_splits)
    with False show ?thesis
      by (auto simp: stable_def)
  qed
  then obtain k1 m where k1: "(if now = 0 then taskSWITCH_DELAYED_LISTS ?k0 else Some ?k0) = Some k1" "kinv {} {} m k1" "m \<le> now"
    "stable k k1" "klists k1 = klists k" "xTickCount k1 = now" "xYieldPending k1 = xYieldPending k" "pendsv k1 = pendsv k"
    "xNumOfOverflows k1 = (if now = 0 then add32 (xNumOfOverflows k) 1 else xNumOfOverflows k)"
    "pxDelayedTaskList k1 = (if now = 0 then pxOverflowDelayedTaskList k else pxDelayedTaskList k)"
    "pxOverflowDelayedTaskList k1 = (if now = 0 then pxDelayedTaskList k else pxOverflowDelayedTaskList k)"
    "now = 0 \<longrightarrow> items (klists k) (pxDelayedTaskList k) = []"
    by (elim exE conjE) (rule that)
  have live: "tcbs k1 (pxCurrentTCB k1) = Some c" "tcbs k1 = tcbs k"
    using k1(4) assms(3) by (simp_all add: stable_def)
  obtain k2 where k2: "(if now \<ge> xNextTaskUnblockTime k1 then wake_due now False k1 else Some (False, k1)) =
      Some (\<exists>u b. container (klists k) (StateItem u) = Some (pxDelayedTaskList k1) \<and>
          item_value (klists k) (StateItem u) \<le> now \<and> tcbs k u = Some b \<and> uxPriority b > uxPriority c, k2)"
    "kinv {} {} (Suc now) k2" "stable k1 k2" "same_clock k1 k2" "xYieldPending k2 = xYieldPending k1" "pendsv k2 = pendsv k1"
    "item_value (klists k2) = item_value (klists k)"
    "\<And>u. container (klists k2) (StateItem u) =
       (if container (klists k) (StateItem u) = Some (pxDelayedTaskList k1) \<and> item_value (klists k) (StateItem u) \<le> now
        then map_option (\<lambda>b. Ready (uxPriority b)) (tcbs k u) else container (klists k) (StateItem u))"
    "\<And>u. container (klists k2) (EventItem u) =
       (if container (klists k) (StateItem u) = Some (pxDelayedTaskList k1) \<and> item_value (klists k) (StateItem u) \<le> now
        then None else container (klists k) (EventItem u))"
    using tick_wake_ok [OF k1(2) _ _ live(1)] k1(3,6) now(2) by (auto simp: k1(5) live(2))
  have due: "container (klists k) (StateItem u) = Some (pxDelayedTaskList k1) \<and> item_value (klists k) (StateItem u) \<le> now \<longleftrightarrow>
      tick_ready k u" for u
  proof -
    have a: "container (klists k) (StateItem u) = Some (pxDelayedTaskList k) \<Longrightarrow> Suc (xTickCount k) \<le> item_value (klists k) (StateItem u)"
      using kinv_parts(6) [OF assms(1)] container_items [OF assms(1)] by (auto simp: delays_ok_def)
    have b: "now = 0 \<Longrightarrow> container (klists k) (StateItem u) \<noteq> Some (pxDelayedTaskList k)"
      using k1(12) container_items [OF assms(1)] by auto
    show ?thesis
      using a b bound [of u] now assms(2) dd unfolding tick_ready_def remaining_def k1(10) by (auto split: if_splits)
  qed
  have rem: "remaining k2 u = Some r" if "remaining k u = Some (Suc r)" "r > 0" for u r
  proof -
    have n: "\<not> tick_ready k u"
      using that by (simp add: tick_ready_def)
    have c: "container (klists k2) (StateItem u) = container (klists k) (StateItem u)"
      using k2(8) [of u] due [of u] n by auto
    have clock: "xTickCount k2 = now" "pxDelayedTaskList k2 = pxDelayedTaskList k1" "pxOverflowDelayedTaskList k2 = pxOverflowDelayedTaskList k1"
      using k2(4) k1(6) by (simp_all add: same_clock_def)
    have b: "now = 0 \<Longrightarrow> container (klists k) (StateItem u) \<noteq> Some (pxDelayedTaskList k)"
      using k1(12) container_items [OF assms(1)] by auto
    show ?thesis
      using that b now dd unfolding remaining_def clock k1(10,11) c k2(7) by (auto split: if_splits)
  qed
  have inc: "xTaskIncrementTick k = Some ((\<exists>u b. tick_ready k u \<and> tcbs k u = Some b \<and> uxPriority b > uxPriority c) \<or>
       length (items (klists k2) (Ready (uxPriority c))) > 1 \<or> xYieldPending k, k2)"
    using assms(4) k1(1,7) k2(1,5) live k2(3)
    by (simp add: xTaskIncrementTick_def Let_def now_def [symmetric] k1(1) due [symmetric] stable_def conj_assoc
        del: One_nat_def)
  have count: "xTickCount k2 = now" "xNumOfOverflows k2 = (if now = 0 then add32 (xNumOfOverflows k) 1 else xNumOfOverflows k)"
    using k2(4) k1(6,9) by (simp_all add: same_clock_def)
  show ?thesis
    using inc k2(2,5,6) count k1(7,8) rem stable_trans [OF k1(4) k2(3)]
    by (intro exI [of _ "(\<exists>u b. tick_ready k u \<and> tcbs k u = Some b \<and> uxPriority b > uxPriority c) \<or>
       length (items (klists k2) (Ready (uxPriority c))) > 1 \<or> xYieldPending k"] exI [of _ k2])
      (simp add: k2(8) [unfolded due] k2(9) [unfolded due] now_def [symmetric] del: One_nat_def)
qed

end
