(* ===== verification/TaskSched.thy ===== *)
theory TaskSched
  imports TaskInv
begin

text \<open>
  The compound operations of the scheduler on the invariant: leaving a list, blocking the running
  task, choosing the next one, and resuming the scheduler. \<open>sched\<close> is what holds whenever the kernel
  is not inside one of its own operations, \<open>kernel_ok\<close> adds what the suspension count and the
  pending PendSV interrupt have to agree on.
\<close>

section \<open>Leaving the ready lists\<close>

text \<open>As \<open>stable\<close>, but control blocks may change.\<close>

definition calm :: "kernel \<Rightarrow> kernel \<Rightarrow> bool" where
  "calm k k' \<longleftrightarrow>
     pxCurrentTCB k' = pxCurrentTCB k \<and> uxSchedulerSuspended k' = uxSchedulerSuspended k \<and>
     xPendedTicks k' = xPendedTicks k \<and> xIdleTaskHandle k' = xIdleTaskHandle k \<and>
     xSchedulerRunning k' = xSchedulerRunning k \<and> uxDeletedTasksWaitingCleanUp k' = uxDeletedTasksWaitingCleanUp k \<and>
     uxCurrentNumberOfTasks k' = uxCurrentNumberOfTasks k"

lemma calm_refl [simp]: "calm k k"
  by (simp add: calm_def)

lemma calm_trans: "calm k1 k2 \<Longrightarrow> calm k2 k3 \<Longrightarrow> calm k1 k3"
  by (simp add: calm_def)

lemma stable_calm: "stable k k' \<longleftrightarrow> calm k k' \<and> tcbs k' = tcbs k"
  by (auto simp: stable_def calm_def)

lemma remove_last:
  assumes "kinv U P m k" "container (klists k) i = Some l" "length (items (klists k) l) - 1 = 0"
  shows "remove1 i (items (klists k) l) = []"
proof -
  have "i \<in> set (items (klists k) l)"
    using container_items [OF assms(1)] assms(2) by simp
  then show ?thesis
    using assms(3) by (cases "items (klists k) l") auto
qed

text \<open>The state item leaves its list and the bit of an emptied ready list is cleared: two idioms of the code.\<close>

lemma leave_ready:
  assumes "kinv {} {} m k" "tcbs k t = Some b" "container (klists k) (StateItem t) = Some (Ready p)"
  obtains n k1 where "list_remove (StateItem t) k = Some (n, k1)" "only_lists k k1"
    "container (klists k1) = (container (klists k))(StateItem t := None)" "item_value (klists k1) = item_value (klists k)"
    "kinv {t} {} m (if n = 0 then k1\<lparr>uxTopReadyPriority := portRESET_READY_PRIORITY p (uxTopReadyPriority k1)\<rparr> else k1)"
proof -
  obtain n k1 where k1: "list_remove (StateItem t) k = Some (n, k1)" "only_lists k k1"
    "items (klists k1) = (items (klists k))(Ready p := remove1 (StateItem t) (items (klists k) (Ready p)))"
    "container (klists k1) = (container (klists k))(StateItem t := None)"
    "item_value (klists k1) = item_value (klists k)" "n = length (items (klists k) (Ready p)) - 1"
    "kinv {t} ({} \<union> (if n = 0 then {q. Ready p = Ready q} else {})) m k1"
    by (rule list_remove_state [OF assms])
  have "kinv {t} {} m (if n = 0 then k1\<lparr>uxTopReadyPriority := portRESET_READY_PRIORITY p (uxTopReadyPriority k1)\<rparr> else k1)"
  proof (cases "n = 0")
    case True
    then have "items (klists k1) (Ready p) = []"
      using remove_last [OF assms(1,3)] k1(3,6) by simp
    moreover have "kinv {t} {p} m k1"
      using k1(7) True by (simp add: singleton_conv2)
    ultimately show ?thesis
      using kinv_reset [of "{t}" "{p}" m k1 p] True by simp
  next
    case False
    with k1(7) show ?thesis by simp
  qed
  with k1 show ?thesis
    by (intro that [of n k1])
qed

lemma leave_state_list_ok:
  assumes "kinv {} {} m k" "tcbs k t = Some b"
  obtains k' where "leave_state_list t k = Some k'" "kinv {t} {} m k'" "stable k k'" "same_clock k k'"
    "container (klists k') = (container (klists k))(StateItem t := None)" "item_value (klists k') = item_value (klists k)"
    "xYieldPending k' = xYieldPending k" "pendsv k' = pendsv k"
    "\<And>l. set (items (klists k') l) = set (items (klists k) l) - {StateItem t}"
    "\<And>l. length (items (klists k') l) = length (items (klists k) l) - (if container (klists k) (StateItem t) = Some l then 1 else 0)"
proof -
  obtain l where l: "container (klists k) (StateItem t) = Some l"
    using kinv_parts(3) [OF assms(1)] assms(2) unfolding placed_def by auto
  have i: "StateItem t \<in> set (items (klists k) l)"
    using container_items [OF assms(1)] l by simp
  obtain n k1 where k1: "list_remove (StateItem t) k = Some (n, k1)" "only_lists k k1"
    "items (klists k1) = (items (klists k))(l := remove1 (StateItem t) (items (klists k) l))"
    "container (klists k1) = (container (klists k))(StateItem t := None)"
    "item_value (klists k1) = item_value (klists k)" "n = length (items (klists k) l) - 1"
    "kinv {t} ({} \<union> (if n = 0 then {p. l = Ready p} else {})) m k1"
    by (rule list_remove_state [OF assms l])
  let ?k = "if n = 0 then taskRESET_READY_PRIORITY (uxPriority b) k1 else k1"
  have "(if n = 0 then {p. l = Ready p} else {}) - {uxPriority b} = {}"
    using ready_priority_eq [OF assms] l by auto
  moreover have "kinv {t} ({} \<union> (if n = 0 then {p. l = Ready p} else {}) - {uxPriority b}) m ?k"
    using kinv_taskRESET [OF k1(7), of "uxPriority b"] k1(7) by (cases "n = 0") auto
  ultimately have inv: "kinv {t} {} m ?k"
    by (simp only: Un_empty_left)
  have "leave_state_list t k = Some ?k"
    using k1(1) assms(2) only_lists_fields(1) [OF k1(2)] by (simp add: leave_state_list_def)
  moreover have "stable k ?k" "same_clock k ?k" "klists ?k = klists k1" "xYieldPending ?k = xYieldPending k" "pendsv ?k = pendsv k"
    using only_lists_fields [OF k1(2)] by (simp_all add: taskRESET_READY_PRIORITY_def stable_def same_clock_def)
  moreover have "set (items (klists k1) j) = set (items (klists k) j) - {StateItem t} \<and>
    length (items (klists k1) j) = length (items (klists k) j) - (if container (klists k) (StateItem t) = Some j then 1 else 0)" for j
  proof (cases "j = l")
    case True
    then show ?thesis
      using lists_okD(2) [OF kinv_parts(1) [OF assms(1)]] i l by (simp add: k1(3) length_remove1)
  next
    case False
    then have "StateItem t \<notin> set (items (klists k) j)"
      using lists_ok_apart [OF kinv_parts(1) [OF assms(1)] i] by auto
    with False l show ?thesis by (simp add: k1(3))
  qed
  ultimately show ?thesis
    using inv k1(4,5) by (intro that [of ?k]) simp_all
qed

lemma upd_tcb_eq: "tcbs k t = Some b \<Longrightarrow> upd_tcb t f k = Some (k\<lparr>tcbs := (tcbs k)(t := Some (f b))\<rparr>)"
  by (simp add: upd_tcb_def)

lemma kinv_tcb_fields:
  assumes "kinv U P m k" "tcbs k t = Some b" "uxPriority b' = uxPriority b" "uxBasePriority b' = uxBasePriority b"
  shows "kinv U P m (k\<lparr>tcbs := (tcbs k)(t := Some b')\<rparr>)"
  by (rule kinv_upd_tcb [OF assms(1,2)])
    (use kinv_parts(4) [OF assms(1)] assms(2-4) in \<open>auto simp: priorities_ok_def\<close>)

section \<open>Blocking the running task\<close>

lemma add_current_ok:
  assumes "kinv {} {} (Suc (xTickCount k)) k" "xTickCount k < u32_bound" "tcbs k (pxCurrentTCB k) = Some b"
    "is_ready k (pxCurrentTCB k)" "0 < n" "n < u32_bound"
  obtains k' where "prvAddCurrentTaskToDelayedList n indef k = Some k'" "kinv {} {} (Suc (xTickCount k')) k'"
    "calm k k'" "same_clock k k'" "tcbs k' = (tcbs k)(pxCurrentTCB k := Some (b\<lparr>ucDelayAborted := False\<rparr>))"
    "xYieldPending k' = xYieldPending k" "pendsv k' = pendsv k"
    "\<not> is_ready k' (pxCurrentTCB k)"
    "\<And>i. i \<noteq> StateItem (pxCurrentTCB k) \<Longrightarrow> container (klists k') i = container (klists k) i"
    "\<And>i. i \<noteq> StateItem (pxCurrentTCB k) \<Longrightarrow> item_value (klists k') i = item_value (klists k) i"
    "if n = portMAX_DELAY \<and> indef then container (klists k') (StateItem (pxCurrentTCB k)) = Some Suspended
     else remaining k' (pxCurrentTCB k) = Some n"
proof -
  let ?t = "pxCurrentTCB k" and ?b = "b\<lparr>ucDelayAborted := False\<rparr>"
  define k0 where "k0 = k\<lparr>tcbs := (tcbs k)(?t := Some ?b)\<rparr>"
  have k0: "upd_tcb ?t (\<lambda>b. b\<lparr>ucDelayAborted := False\<rparr>) k = Some k0" "kinv {} {} (Suc (xTickCount k)) k0" "tcbs k0 ?t = Some ?b"
    using kinv_tcb_fields [OF assms(1,3), of ?b] upd_tcb_eq [OF assms(3)] by (simp_all add: k0_def)
  obtain p where p: "container (klists k0) (StateItem ?t) = Some (Ready p)"
    using assms(4) by (auto simp: is_ready_def k0_def)
  have pb: "p = uxPriority b"
    using ready_priority_eq [OF k0(2,3) p] by simp
  obtain c k1 where k1: "list_remove (StateItem ?t) k0 = Some (c, k1)" "only_lists k0 k1"
    "container (klists k1) = (container (klists k0))(StateItem ?t := None)" "item_value (klists k1) = item_value (klists k0)"
    "kinv {?t} {} (Suc (xTickCount k)) (if c = 0 then k1\<lparr>uxTopReadyPriority := portRESET_READY_PRIORITY p (uxTopReadyPriority k1)\<rparr> else k1)"
    by (rule leave_ready [OF k0(2,3) p])
  define k2 where "k2 = (if c = 0 then k1\<lparr>uxTopReadyPriority := portRESET_READY_PRIORITY p (uxTopReadyPriority k1)\<rparr> else k1)"
  have f: "tcbs k2 = tcbs k0" "klists k2 = klists k1" "xTickCount k2 = xTickCount k" "pxDelayedTaskList k2 = pxDelayedTaskList k"
    "pxOverflowDelayedTaskList k2 = pxOverflowDelayedTaskList k" "xNextTaskUnblockTime k2 = xNextTaskUnblockTime k"
    "calm k k2" "same_clock k k2" "xYieldPending k2 = xYieldPending k" "pendsv k2 = pendsv k"
    using only_lists_fields [OF k1(2)] by (simp_all add: k2_def k0_def calm_def same_clock_def)
  have inv: "kinv (insert ?t {}) {} (Suc (xTickCount k)) k2"
    using k1(5) by (simp add: k2_def)
  have b2: "tcbs k2 ?t = Some ?b"
    using f(1) k0(3) by simp
  have run: "prvAddCurrentTaskToDelayedList n indef k =
    (if n = portMAX_DELAY \<and> indef then list_insert_end Suspended (StateItem ?t) k2
     else let w = add32 (xTickCount k2) n; k = list_set_value (StateItem ?t) w k2
       in if w < xTickCount k then list_insert (pxOverflowDelayedTaskList k) (StateItem ?t) k
          else do { k \<leftarrow> list_insert (pxDelayedTaskList k) (StateItem ?t) k;
                    Some (if w < xNextTaskUnblockTime k then k\<lparr>xNextTaskUnblockTime := w\<rparr> else k) })"
    using k0(1) k1(1) only_lists_fields(1) [OF k1(2)] k0(3) pb
    by (cases "c = 0") (simp_all add: prvAddCurrentTaskToDelayedList_def k2_def Let_def)
  show ?thesis
  proof (cases "n = portMAX_DELAY \<and> indef")
    case True
    have "list_insert_end Suspended (StateItem ?t) k2 = Some (k2\<lparr>klists := insert_end Suspended (StateItem ?t) (klists k2)\<rparr>)"
      "kinv {} {} (Suc (xTickCount k)) (k2\<lparr>klists := insert_end Suspended (StateItem ?t) (klists k2)\<rparr>)"
      by (rule kinv_insert_end_state [OF inv b2]; simp)+
    moreover from this(1) have "prvAddCurrentTaskToDelayedList n indef k =
        Some (k2\<lparr>klists := insert_end Suspended (StateItem ?t) (klists k2)\<rparr>)"
      using True by (subst run) auto
    ultimately show ?thesis
      using True f k1(3,4)
      by (intro that [of "k2\<lparr>klists := insert_end Suspended (StateItem ?t) (klists k2)\<rparr>"])
        (simp_all add: k0_def calm_def same_clock_def is_ready_def)
  next
    case False
    define w where "w = add32 (xTickCount k) n"
    have w: "w < u32_bound" "w = (if xTickCount k + n < u32_bound then xTickCount k + n else xTickCount k + n - u32_bound)"
      using assms(2,6) by (simp_all add: w_def add32_def mod_if)
    have dd: "pxDelayedTaskList k = Delayed1 \<and> pxOverflowDelayedTaskList k = Delayed2 \<or>
        pxDelayedTaskList k = Delayed2 \<and> pxOverflowDelayedTaskList k = Delayed1"
      using delayed_lists [OF assms(1)] .
    let ?l = "if w < xTickCount k then pxOverflowDelayedTaskList k else pxDelayedTaskList k"
    let ?nx = "if w < xTickCount k then xNextTaskUnblockTime k else min w (xNextTaskUnblockTime k)"
    let ?k1 = "list_set_value (StateItem ?t) w k2"
    let ?k3 = "?k1\<lparr>klists := insert_ordered ?l (StateItem ?t) (klists ?k1), xNextTaskUnblockTime := ?nx\<rparr>"
    have choice: "?l = pxOverflowDelayedTaskList k2 \<and> ?nx = xNextTaskUnblockTime k2 \<or>
      ?l = pxDelayedTaskList k2 \<and> Suc (xTickCount k) \<le> w \<and> ?nx = min w (xNextTaskUnblockTime k2)"
      using w(2) assms(2,5,6) by (auto simp: f split: if_splits)
    have ins: "list_insert ?l (StateItem ?t) ?k1 = Some (?k1\<lparr>klists := insert_ordered ?l (StateItem ?t) (klists ?k1)\<rparr>)"
      and inv3: "kinv {} {} (Suc (xTickCount k)) ?k3"
      using kinv_insert_delayed [OF inv b2 _ w(1) choice] by simp_all
    have "prvAddCurrentTaskToDelayedList n indef k = Some ?k3"
    proof (cases "w < xTickCount k")
      case True
      then show ?thesis
        using ins \<open>\<not> (n = portMAX_DELAY \<and> indef)\<close>
        by (auto simp: run f w_def [symmetric] Let_def list_set_value_def)
    next
      case False
      then show ?thesis
        using ins \<open>\<not> (n = portMAX_DELAY \<and> indef)\<close>
        by (auto simp: run f w_def [symmetric] Let_def list_set_value_def min_def)
    qed
    moreover have "remaining ?k3 ?t = Some n"
      using w dd assms(2,5,6) by (auto simp: remaining_def f list_set_value_def split: if_splits)
    ultimately show ?thesis
      using False f inv3 k1(3,4) dd
      by (intro that [of ?k3])
        (auto simp: k0_def calm_def same_clock_def is_ready_def list_set_value_def)
  qed
qed
section \<open>Choosing the next task\<close>

lemma kinv_walk:
  assumes "kinv U P m k" "lists_ok T" "items T = items (klists k)" "container T = container (klists k)"
    "item_value T = item_value (klists k)"
  shows "kinv U P m (k\<lparr>klists := T\<rparr>)"
  using assms by (simp add: kinv_def typed_def placed_def bits_ok_def delays_ok_def)

text \<open>
  The selected task is ready, no ready task has a higher priority, and among those of its priority
  it is the one after the last one selected.
\<close>

lemma select_ok:
  assumes "kinv {} {} m k" "is_ready k u"
  obtains t T p xs where "taskSELECT_HIGHEST_PRIORITY_TASK k = Some (k\<lparr>klists := T, pxCurrentTCB := t\<rparr>)"
    "kinv {} {} m (k\<lparr>klists := T, pxCurrentTCB := t\<rparr>)"
    "items T = items (klists k)" "container T = container (klists k)" "item_value T = item_value (klists k)"
    "container (klists k) (StateItem t) = Some (Ready p)"
    "\<And>v q. container (klists k) (StateItem v) = Some (Ready q) \<Longrightarrow> q \<le> p"
    "xs = items (klists k) (Ready p)" "StateItem t = xs ! (Suc (position (walk (klists k) (Ready p)) xs) mod length xs)"
    "walk T = (walk (klists k))(Ready p := Some (StateItem t))"
proof -
  note K = kinv_parts [OF assms(1)]
  let ?r = "uxTopReadyPriority k"
  obtain q where "container (klists k) (StateItem u) = Some (Ready q)"
    using assms(2) by (auto simp: is_ready_def)
  then have "StateItem u \<in> set (items (klists k) (Ready q))"
    using container_items [OF assms(1)] by simp
  then have "items (klists k) (Ready q) \<noteq> []"
    by auto
  then have "bit ?r q"
    using K(5) by (simp add: bits_ok_def)
  then obtain p where p: "bit ?r p" "\<And>n. p < n \<Longrightarrow> \<not> bit ?r n"
    using highest_bit_exists by blast
  then have top: "portGET_HIGHEST_PRIORITY ?r = p"
    by (rule highest_priority)
  define xs where "xs = items (klists k) (Ready p)"
  have ne: "xs \<noteq> []"
    using K(5) p(1) by (auto simp: bits_ok_def xs_def)
  define i where "i = xs ! (Suc (position (walk (klists k) (Ready p)) xs) mod length xs)"
  define T where "T = (klists k)\<lparr>walk := (walk (klists k))(Ready p := Some i)\<rparr>"
  have nx: "next_entry (Ready p) (klists k) = (owner i, T)"
    by (simp add: next_entry_def Let_def i_def T_def xs_def)
  have iin: "i \<in> set xs"
    using ne by (simp add: i_def)
  then have i: "i = StateItem (owner i)"
    using slot_state_owner [of "Ready p" p] typed_slot [OF K(2)] by (auto simp: xs_def)
  have "lists_ok T"
    using lists_ok_next [OF K(1), of "Ready p"] ne nx by (simp add: xs_def)
  then have inv: "kinv {} {} m (k\<lparr>klists := T, pxCurrentTCB := owner i\<rparr>)"
    using kinv_walk [OF assms(1), of T] by (simp add: T_def)
  have hi: "q \<le> p" if "container (klists k) (StateItem v) = Some (Ready q)" for v q
  proof (rule ccontr)
    assume "\<not> q \<le> p"
    with p(2) [of q] have "items (klists k) (Ready q) = []"
      using K(5) by (auto simp: bits_ok_def)
    with that show False
      using container_items [OF assms(1)] by auto
  qed
  have c: "container (klists k) (StateItem (owner i)) = Some (Ready p)"
    using container_items [OF assms(1)] iin i by (simp add: xs_def)
  show ?thesis
    using inv hi c ne i nx
    by (intro that [of "owner i" T p xs])
      (simp_all add: taskSELECT_HIGHEST_PRIORITY_TASK_def top xs_def [symmetric] T_def i_def [symmetric])
qed

lemma switch_ok:
  assumes "kinv {} {} m k" "is_ready k u" "tcbs k (pxCurrentTCB k) = Some c" "uxSchedulerSuspended k = 0"
  obtains k' p xs where "vTaskSwitchContext now k = Some k'" "kinv {} {} m k'" "same_clock k k'"
    "calm k (k'\<lparr>pxCurrentTCB := pxCurrentTCB k\<rparr>)"
    "items (klists k') = items (klists k)" "container (klists k') = container (klists k)"
    "item_value (klists k') = item_value (klists k)" "pendsv k' = pendsv k" "\<not> xYieldPending k'"
    "container (klists k) (StateItem (pxCurrentTCB k')) = Some (Ready p)"
    "\<And>v q. container (klists k) (StateItem v) = Some (Ready q) \<Longrightarrow> q \<le> p"
    "xs = items (klists k) (Ready p)"
    "StateItem (pxCurrentTCB k') = xs ! (Suc (position (walk (klists k) (Ready p)) xs) mod length xs)"
    "walk (klists k') = (walk (klists k))(Ready p := Some (StateItem (pxCurrentTCB k')))"
    "\<exists>n. tcbs k' = (tcbs k)(pxCurrentTCB k := Some (c\<lparr>ulRunTimeCounter := n\<rparr>))"
proof -
  define n where "n = (if now > ulTaskSwitchedInTime k
      then add32 (ulRunTimeCounter c) (sub32 now (ulTaskSwitchedInTime k)) else ulRunTimeCounter c)"
  define k1 where "k1 = k\<lparr>xYieldPending := False, tcbs := (tcbs k)(pxCurrentTCB k := Some (c\<lparr>ulRunTimeCounter := n\<rparr>)),
      ulTaskSwitchedInTime := now\<rparr>"
  have c0: "(tcbs k)(pxCurrentTCB k := Some (c\<lparr>ulRunTimeCounter := ulRunTimeCounter c\<rparr>)) = tcbs k"
    using assms(3) by (auto simp: fun_eq_iff)
  have run: "vTaskSwitchContext now k = taskSELECT_HIGHEST_PRIORITY_TASK k1"
  proof (cases "now > ulTaskSwitchedInTime k")
    case True
    then show ?thesis
      using assms(3,4) by (simp add: vTaskSwitchContext_def upd_tcb_eq k1_def n_def Let_def)
  next
    case False
    then have "k1 = k\<lparr>xYieldPending := False, ulTaskSwitchedInTime := now\<rparr>"
      using c0 by (simp add: k1_def n_def)
    with False show ?thesis
      using assms(4) by (simp add: vTaskSwitchContext_def Let_def)
  qed
  have inv: "kinv {} {} m k1"
    using kinv_tcb_fields [OF assms(1,3), of "c\<lparr>ulRunTimeCounter := n\<rparr>"] by (simp add: k1_def kinv_def)
  have "is_ready k1 u"
    using assms(2) by (simp add: is_ready_def k1_def)
  from select_ok [OF inv this] obtain t T p xs where S:
    "taskSELECT_HIGHEST_PRIORITY_TASK k1 = Some (k1\<lparr>klists := T, pxCurrentTCB := t\<rparr>)"
    "kinv {} {} m (k1\<lparr>klists := T, pxCurrentTCB := t\<rparr>)"
    "items T = items (klists k1)" "container T = container (klists k1)" "item_value T = item_value (klists k1)"
    "container (klists k1) (StateItem t) = Some (Ready p)"
    "\<And>v q. container (klists k1) (StateItem v) = Some (Ready q) \<Longrightarrow> q \<le> p"
    "xs = items (klists k1) (Ready p)" "StateItem t = xs ! (Suc (position (walk (klists k1) (Ready p)) xs) mod length xs)"
    "walk T = (walk (klists k1))(Ready p := Some (StateItem t))"
    by metis
  have k1f: "klists k1 = klists k"
    by (simp add: k1_def)
  show ?thesis
    using run S(1-6,8-10) S(7) unfolding k1f
    by (intro that [of "k1\<lparr>klists := T, pxCurrentTCB := t\<rparr>" p xs])
      (simp_all add: k1_def same_clock_def calm_def exI [of _ n])
qed

section \<open>Resuming the scheduler\<close>

text \<open>Tasks only become ready; what is ready stays ready.\<close>

definition keeps_ready :: "kernel \<Rightarrow> kernel \<Rightarrow> bool" where
  "keeps_ready k k' \<longleftrightarrow> (\<forall>u. is_ready k u \<longrightarrow> is_ready k' u)"

lemma keeps_ready_refl [simp]: "keeps_ready k k"
  by (simp add: keeps_ready_def)

lemma keeps_ready_trans: "keeps_ready k1 k2 \<Longrightarrow> keeps_ready k2 k3 \<Longrightarrow> keeps_ready k1 k3"
  by (simp add: keeps_ready_def)

lemma is_ready_fields [simp]:
  "is_ready (k\<lparr>xYieldPending := y\<rparr>) u = is_ready k u" "is_ready (k\<lparr>pendsv := y\<rparr>) u = is_ready k u"
  "is_ready (k\<lparr>xPendedTicks := n\<rparr>) u = is_ready k u" "is_ready (k\<lparr>uxSchedulerSuspended := n\<rparr>) u = is_ready k u"
  "is_ready (k\<lparr>xNextTaskUnblockTime := n\<rparr>) u = is_ready k u" "is_ready (k\<lparr>tcbs := B\<rparr>) u = is_ready k u"
  "is_ready (k\<lparr>pxCurrentTCB := n\<rparr>) u = is_ready k u"
  by (simp_all add: is_ready_def)

lemma resume_pending_ok:
  assumes "kinv {} {} m k" "tcbs k (pxCurrentTCB k) = Some c"
  shows "\<exists>moved' k'. resume_pending moved k = Some (moved', k') \<and> kinv {} {} m k' \<and> stable k k' \<and> same_clock k k' \<and>
    keeps_ready k k' \<and> pendsv k' = pendsv k \<and> (xYieldPending k \<longrightarrow> xYieldPending k') \<and>
    items (klists k') PendingReady = [] \<and> (\<forall>u. EventItem u \<in> set (items (klists k) PendingReady) \<longrightarrow>
       is_ready k' u \<and> container (klists k') (EventItem u) = None) \<and>
    (\<forall>u. EventItem u \<notin> set (items (klists k) PendingReady) \<longrightarrow>
       container (klists k') (StateItem u) = container (klists k) (StateItem u) \<and>
       container (klists k') (EventItem u) = container (klists k) (EventItem u)) \<and>
    item_value (klists k') = item_value (klists k)"
  using assms
proof (induction "length (items (klists k) PendingReady)" arbitrary: k moved rule: less_induct)
  case (less k)
  note K = kinv_parts [OF less.prems(1)]
  show ?case
  proof (cases "items (klists k) PendingReady")
    case Nil
    with less.prems(1) show ?thesis
      by (subst resume_pending.simps) simp
  next
    case (Cons i js)
    then have "slot_ok (tcbs k) PendingReady i"
      using typed_slot [OF K(2), of i PendingReady] by simp
    then obtain t b where t: "i = EventItem t" "tcbs k t = Some b"
      by auto
    have ct: "container (klists k) (EventItem t) = Some PendingReady"
      using container_items [OF less.prems(1)] Cons t by simp
    obtain n k1 where k1: "list_remove (EventItem t) k = Some (n, k1)" "only_lists k k1"
      "items (klists k1) = (items (klists k))(PendingReady := remove1 (EventItem t) (items (klists k) PendingReady))"
      "container (klists k1) = (container (klists k))(EventItem t := None)"
      "item_value (klists k1) = item_value (klists k)" "PendingReady = PendingReady \<or> (\<exists>e. PendingReady = EventList e)"
      "kinv {} {} m k1"
      by (rule list_remove_event [OF less.prems(1) ct])
    note f = only_lists_fields [OF k1(2)]
    have b1: "tcbs k1 t = Some b"
      using t(2) f by simp
    obtain n2 k2 k3 where k3: "list_remove (StateItem t) k1 = Some (n2, k2)" "prvAddTaskToReadyList t k2 = Some k3"
      "kinv {} {} m k3" "stable k1 k3" "same_clock k1 k3" "xYieldPending k3 = xYieldPending k1" "pendsv k3 = pendsv k1"
      "container (klists k3) = (container (klists k1))(StateItem t := Some (Ready (uxPriority b)))"
      "item_value (klists k3) = item_value (klists k1)"
      "\<And>l. l \<noteq> Ready (uxPriority b) \<Longrightarrow> items (klists k3) l = remove1 (StateItem t) (items (klists k1) l)"
      using move_to_ready [OF k1(7) b1] by metis
    have live: "tcbs k3 = tcbs k" "pxCurrentTCB k3 = pxCurrentTCB k"
      using k3(4) f by (simp_all add: stable_def)
    have hp: "higher_priority t k3 = Some (uxPriority b > uxPriority c)"
      using t(2) less.prems(2) live by (simp add: higher_priority_def)
    define k4 where "k4 = (if uxPriority b > uxPriority c then k3\<lparr>xYieldPending := True\<rparr> else k3)"
    have k4: "kinv {} {} m k4" "stable k k4" "same_clock k k4" "klists k4 = klists k3" "pendsv k4 = pendsv k"
      "xYieldPending k \<longrightarrow> xYieldPending k4"
      using k3 stable_trans [of k k1 k3] same_clock_trans [of k k1 k3] only_lists_stable [OF k1(2)] f
      by (simp_all add: k4_def stable_def same_clock_def)
    have pr: "items (klists k4) PendingReady = js"
    proof -
      have "StateItem t \<notin> set js"
        using typed_slot [OF K(2), of "StateItem t" PendingReady] Cons by auto
      then show ?thesis
        using k3(10) [of PendingReady] Cons t(1) by (simp add: k4(4) k1(3) remove1_idem)
    qed
    have step: "resume_pending moved k = resume_pending True k4"
      using Cons t(1) k1(1) k3(1,2) hp by (subst resume_pending.simps) (simp add: k4_def)
    have "length (items (klists k4) PendingReady) < length (items (klists k) PendingReady)"
      using Cons pr by simp
    moreover have "tcbs k4 (pxCurrentTCB k4) = Some c"
      using live less.prems(2) by (simp add: k4_def)
    ultimately obtain moved' k' where R: "resume_pending True k4 = Some (moved', k')" "kinv {} {} m k'" "stable k4 k'" "same_clock k4 k'"
      "keeps_ready k4 k'" "pendsv k' = pendsv k4" "xYieldPending k4 \<longrightarrow> xYieldPending k'" "items (klists k') PendingReady = []"
      "\<And>u. EventItem u \<in> set js \<Longrightarrow> is_ready k' u \<and> container (klists k') (EventItem u) = None"
      "\<And>u. EventItem u \<notin> set js \<Longrightarrow> container (klists k') (StateItem u) = container (klists k4) (StateItem u) \<and>
         container (klists k') (EventItem u) = container (klists k4) (EventItem u)"
      "item_value (klists k') = item_value (klists k4)"
      using less.hyps [of k4 True] k4(1) unfolding pr by blast
    have kr: "keeps_ready k k4"
      by (auto simp: keeps_ready_def is_ready_def k4(4) k3(8) k1(4))
    have tr: "is_ready k4 t" "container (klists k4) (EventItem t) = None"
      by (auto simp: is_ready_def k4(4) k3(8) k1(4))
    have tn: "EventItem t \<notin> set js"
      using lists_okD(2) [OF K(1), of PendingReady] Cons t(1) by simp
    have keep: "container (klists k4) (StateItem u) = container (klists k) (StateItem u) \<and>
        container (klists k4) (EventItem u) = container (klists k) (EventItem u)" if "u \<noteq> t" for u
      using that by (simp add: k4(4) k3(8) k1(4))
    show ?thesis
    proof (intro exI conjI allI impI)
      show "resume_pending moved k = Some (moved', k')"
        using step R(1) by simp
      show "stable k k'" "same_clock k k'" "keeps_ready k k'"
        using stable_trans [OF k4(2) R(3)] same_clock_trans [OF k4(3) R(4)] keeps_ready_trans [OF kr R(5)] .
      show "is_ready k' u" "container (klists k') (EventItem u) = None"
        if "EventItem u \<in> set (items (klists k) PendingReady)" for u
        using that R(5,9) R(10) [OF tn] tr Cons t(1) by (auto simp: keeps_ready_def)
      fix u
      assume "EventItem u \<notin> set (items (klists k) PendingReady)"
      then have "u \<noteq> t" "EventItem u \<notin> set js"
        using Cons t(1) by auto
      then show "container (klists k') (StateItem u) = container (klists k) (StateItem u)"
        "container (klists k') (EventItem u) = container (klists k) (EventItem u)"
        using R(10) keep by simp_all
    qed (use R k4 in \<open>simp_all add: k3(9) k1(5)\<close>)
  qed
qed
section \<open>The state between two operations\<close>

text \<open>
  A task waits either for a notification or on an event list, and is not ready while it is on an
  event list.
\<close>

definition events_ok :: "kernel \<Rightarrow> bool" where
  "events_ok k \<longleftrightarrow>
     (\<forall>t b. tcbs k t = Some b \<longrightarrow> ucNotifyState b = Waiting \<longrightarrow> container (klists k) (EventItem t) = None) \<and>
     (\<forall>t e. container (klists k) (EventItem t) = Some (EventList e) \<longrightarrow> \<not> is_ready k t)"

definition sched :: "kernel \<Rightarrow> bool" where
  "sched k \<longleftrightarrow>
     kinv {} {} (Suc (xTickCount k)) k \<and> xTickCount k < u32_bound \<and>
     tcbs k (pxCurrentTCB k) \<noteq> None \<and> is_ready k (xIdleTaskHandle k) \<and> xSchedulerRunning k \<and>
     finite (dom (tcbs k)) \<and> uxCurrentNumberOfTasks k = card (dom (tcbs k)) \<and> events_ok k"

definition kernel_ok :: "kernel \<Rightarrow> bool" where
  "kernel_ok k \<longleftrightarrow>
     sched k \<and>
     (uxSchedulerSuspended k = 0 \<longrightarrow> items (klists k) PendingReady = [] \<and> xPendedTicks k = 0) \<and>
     (is_ready k (pxCurrentTCB k) \<or> pendsv k \<and> uxSchedulerSuspended k = 0)"

lemma events_ok_fields [simp]:
  "events_ok (k\<lparr>xYieldPending := y\<rparr>) = events_ok k" "events_ok (k\<lparr>pendsv := y\<rparr>) = events_ok k"
  "events_ok (k\<lparr>xPendedTicks := n\<rparr>) = events_ok k" "events_ok (k\<lparr>uxSchedulerSuspended := n\<rparr>) = events_ok k"
  by (simp_all add: events_ok_def)

lemma sched_fields [simp]:
  "sched (k\<lparr>xYieldPending := y\<rparr>) = sched k" "sched (k\<lparr>pendsv := y\<rparr>) = sched k"
  "sched (k\<lparr>xPendedTicks := n\<rparr>) = sched k" "sched (k\<lparr>uxSchedulerSuspended := n\<rparr>) = sched k"
  by (simp_all add: sched_def)

lemma schedD:
  assumes "sched k"
  shows "kinv {} {} (Suc (xTickCount k)) k" "xTickCount k < u32_bound" "\<exists>c. tcbs k (pxCurrentTCB k) = Some c"
    "is_ready k (xIdleTaskHandle k)" "0 < uxCurrentNumberOfTasks k" "events_ok k"
proof -
  show "kinv {} {} (Suc (xTickCount k)) k" "xTickCount k < u32_bound" "\<exists>c. tcbs k (pxCurrentTCB k) = Some c"
    "is_ready k (xIdleTaskHandle k)" "events_ok k"
    using assms by (auto simp: sched_def)
  have "dom (tcbs k) \<noteq> {}"
    using assms by (auto simp: sched_def)
  then show "0 < uxCurrentNumberOfTasks k"
    using assms by (simp add: sched_def card_gt_0_iff)
qed

lemma stable_sched:
  assumes "sched k" "stable k k'" "kinv {} {} (Suc (xTickCount k')) k'" "xTickCount k' < u32_bound" "keeps_ready k k'"
    "events_ok k'"
  shows "sched k'"
  using assms by (auto simp: sched_def stable_def keeps_ready_def)

text \<open>As for the tick, without the details.\<close>

lemma pending_nil_iff:
  assumes "kinv U P m k"
  shows "items (klists k) PendingReady = [] \<longleftrightarrow> (\<forall>u. container (klists k) (EventItem u) \<noteq> Some PendingReady)"
proof -
  have "i \<in> set (items (klists k) PendingReady) \<Longrightarrow> \<exists>u. i = EventItem u" for i
    using typed_slot [OF kinv_parts(2) [OF assms], of i PendingReady] by auto
  then have "set (items (klists k) PendingReady) = {} \<longleftrightarrow> (\<forall>u. EventItem u \<notin> set (items (klists k) PendingReady))"
    by (metis ex_in_conv)
  then show ?thesis
    using container_items [OF assms] by simp
qed

lemma tick_ready_not_ready:
  assumes "kinv U P m k" "tick_ready k u"
  shows "\<not> is_ready k u"
  using delayed_lists [OF assms(1)] assms(2)
  by (auto simp: tick_ready_def remaining_def is_ready_def split: if_splits)

lemma tick_sched:
  assumes "sched k" "uxSchedulerSuspended k = 0"
  shows "\<exists>sw k'. xTaskIncrementTick k = Some (sw, k') \<and> sched k' \<and> stable k k' \<and> keeps_ready k k' \<and>
    xYieldPending k' = xYieldPending k \<and> pendsv k' = pendsv k \<and> xTickCount k' = add32 (xTickCount k) 1 \<and>
    (items (klists k) PendingReady = [] \<longrightarrow> items (klists k') PendingReady = [])"
proof -
  note S = schedD [OF assms(1)]
  obtain c where c: "tcbs k (pxCurrentTCB k) = Some c"
    using S(3) by blast
  obtain sw k' where T: "xTaskIncrementTick k = Some (sw, k')" "kinv {} {} (Suc (xTickCount k')) k'"
    "xTickCount k' = add32 (xTickCount k) 1" "stable k k'" "xYieldPending k' = xYieldPending k" "pendsv k' = pendsv k"
    "\<And>u. container (klists k') (StateItem u) =
       (if tick_ready k u then map_option (\<lambda>b. Ready (uxPriority b)) (tcbs k u) else container (klists k) (StateItem u))"
    "\<And>u. container (klists k') (EventItem u) = (if tick_ready k u then None else container (klists k) (EventItem u))"
    using tick_ok [OF S(1,2) c assms(2)] by (elim exE conjE) (rule that; blast)
  have kr: "keeps_ready k k'"
    using tick_ready_not_ready [OF S(1)] by (auto simp: keeps_ready_def is_ready_def T(7))
  have "sched k'"
  proof (rule stable_sched [OF assms(1) T(4,2) _ kr])
    show "events_ok k'"
      using S(6) T(4,7,8) by (auto simp: events_ok_def stable_def is_ready_def)
  qed (simp add: T(3))
  moreover have "items (klists k) PendingReady = [] \<longrightarrow> items (klists k') PendingReady = []"
    unfolding pending_nil_iff [OF S(1)] pending_nil_iff [OF T(2)] by (simp add: T(8))
  ultimately show ?thesis
    using T kr by blast
qed

lemma resume_ticks_ok:
  assumes "sched k" "uxSchedulerSuspended k = 0" "items (klists k) PendingReady = []"
  shows "\<exists>k'. resume_ticks n k = Some k' \<and> sched k' \<and> stable k k' \<and> keeps_ready k k' \<and> pendsv k' = pendsv k \<and>
    items (klists k') PendingReady = [] \<and> xTickCount k' = add32 (xTickCount k) n"
  using assms
proof (induction n arbitrary: k)
  case 0
  then show ?case
    using schedD(2) [of k] by (simp add: add32_def)
next
  case (Suc n)
  obtain sw k1 where k1: "xTaskIncrementTick k = Some (sw, k1)" "sched k1" "stable k k1" "keeps_ready k k1"
    "pendsv k1 = pendsv k" "items (klists k1) PendingReady = []" "xTickCount k1 = add32 (xTickCount k) 1"
    using tick_sched [OF Suc.prems(1,2)] Suc.prems(3) by blast
  have count: "add32 (add32 (xTickCount k) 1) n = add32 (xTickCount k) (Suc n)"
    by (simp add: add32_def mod_add_left_eq)
  define k2 where "k2 = (if sw then k1\<lparr>xYieldPending := True\<rparr> else k1)"
  have k2: "sched k2" "stable k k2" "keeps_ready k k2" "pendsv k2 = pendsv k" "items (klists k2) PendingReady = []"
    "xTickCount k2 = add32 (xTickCount k) 1"
    using k1 by (simp_all add: k2_def stable_def keeps_ready_def)
  moreover have "uxSchedulerSuspended k2 = 0"
    using k2(2) Suc.prems(2) by (simp add: stable_def)
  ultimately obtain k' where "resume_ticks n k2 = Some k'" "sched k'" "stable k2 k'" "keeps_ready k2 k'" "pendsv k' = pendsv k2"
    "items (klists k') PendingReady = []" "xTickCount k' = add32 (xTickCount k2) n"
    using Suc.IH [of k2] by blast
  then show ?case
    using k1(1) k2 count stable_trans [of k k2 k'] keeps_ready_trans [of k k2 k'] by (simp add: k2_def)
qed

lemma reset_unblock_time:
  assumes "kinv U P m k"
  shows "kinv U P m (prvResetNextTaskUnblockTime k)" "stable k (prvResetNextTaskUnblockTime k)"
    "same_clock k (prvResetNextTaskUnblockTime k)" "klists (prvResetNextTaskUnblockTime k) = klists k"
    "xYieldPending (prvResetNextTaskUnblockTime k) = xYieldPending k" "pendsv (prvResetNextTaskUnblockTime k) = pendsv k"
proof -
  obtain nx where nx: "prvResetNextTaskUnblockTime k = k\<lparr>xNextTaskUnblockTime := nx\<rparr>"
    "\<forall>i \<in> set (items (klists k) (pxDelayedTaskList k)). nx \<le> item_value (klists k) i"
  proof (cases "items (klists k) (pxDelayedTaskList k)")
    case Nil
    then show ?thesis
      by (intro that [of portMAX_DELAY]) (simp_all add: prvResetNextTaskUnblockTime_def)
  next
    case (Cons i xs)
    have "sorted (map (item_value (klists k)) (items (klists k) (pxDelayedTaskList k)))"
      using kinv_parts(6) [OF assms] by (auto simp: delays_ok_def)
    with Cons show ?thesis
      by (intro that [of "item_value (klists k) i"]) (auto simp: prvResetNextTaskUnblockTime_def)
  qed
  then show "kinv U P m (prvResetNextTaskUnblockTime k)"
    using assms by (auto simp: kinv_def delays_ok_def)
  show "stable k (prvResetNextTaskUnblockTime k)"
    "same_clock k (prvResetNextTaskUnblockTime k)" "klists (prvResetNextTaskUnblockTime k) = klists k"
    "xYieldPending (prvResetNextTaskUnblockTime k) = xYieldPending k" "pendsv (prvResetNextTaskUnblockTime k) = pendsv k"
    by (simp_all add: nx(1) stable_def same_clock_def)
qed

lemma reset_unblock_sched:
  assumes "sched k"
  shows "sched (prvResetNextTaskUnblockTime k)" "keeps_ready k (prvResetNextTaskUnblockTime k)"
proof -
  note R = reset_unblock_time [OF schedD(1) [OF assms]]
  show kr: "keeps_ready k (prvResetNextTaskUnblockTime k)"
    by (simp add: keeps_ready_def is_ready_def R(4))
  show "sched (prvResetNextTaskUnblockTime k)"
  proof (rule stable_sched [OF assms R(2) _ _ kr])
    show "events_ok (prvResetNextTaskUnblockTime k)"
      using schedD(6) [OF assms] R(2,4) by (simp add: events_ok_def stable_def is_ready_def)
  qed (use R(1,3) schedD(2) [OF assms] in \<open>simp_all add: same_clock_def\<close>)
qed

text \<open>
  Resuming the scheduler returns: the pending tasks are ready, the pended ticks have been counted,
  and a switch is pending if one is needed.
\<close>

lemma resume_all_ok:
  assumes "sched k" "0 < uxSchedulerSuspended k"
  shows "\<exists>y k'. xTaskResumeAll k = Some (y, k') \<and> sched k' \<and> calm (k\<lparr>uxSchedulerSuspended := uxSchedulerSuspended k - 1, xPendedTicks := xPendedTicks k'\<rparr>) k' \<and>
    tcbs k' = tcbs k \<and> keeps_ready k k' \<and> (y \<longrightarrow> pendsv k') \<and> (pendsv k \<longrightarrow> pendsv k') \<and>
    (uxSchedulerSuspended k = 1 \<longrightarrow> items (klists k') PendingReady = [] \<and> xPendedTicks k' = 0 \<and>
       xTickCount k' = add32 (xTickCount k) (xPendedTicks k) \<and>
       (\<forall>u. EventItem u \<in> set (items (klists k) PendingReady) \<longrightarrow> is_ready k' u)) \<and>
    (uxSchedulerSuspended k \<noteq> 1 \<longrightarrow> k' = k\<lparr>uxSchedulerSuspended := uxSchedulerSuspended k - 1\<rparr>)"
proof (cases "uxSchedulerSuspended k = 1")
  case False
  with assms show ?thesis
    by (auto simp: xTaskResumeAll_def Let_def calm_def keeps_ready_def)
next
  case True
  define k0 where "k0 = k\<lparr>uxSchedulerSuspended := 0\<rparr>"
  have k0: "sched k0" "uxSchedulerSuspended k0 = 0" "klists k0 = klists k" "pendsv k0 = pendsv k"
    using assms(1) by (simp_all add: k0_def)
  note S0 = schedD [OF k0(1)]
  obtain c where c: "tcbs k0 (pxCurrentTCB k0) = Some c"
    using S0(3) by blast
  obtain mv k1 where k1: "resume_pending False k0 = Some (mv, k1)" "kinv {} {} (Suc (xTickCount k0)) k1" "stable k0 k1" "same_clock k0 k1"
    "keeps_ready k0 k1" "pendsv k1 = pendsv k0" "items (klists k1) PendingReady = []"
    "\<And>u. EventItem u \<in> set (items (klists k0) PendingReady) \<Longrightarrow> is_ready k1 u \<and> container (klists k1) (EventItem u) = None"
    "\<And>u. EventItem u \<notin> set (items (klists k0) PendingReady) \<Longrightarrow>
       container (klists k1) (StateItem u) = container (klists k0) (StateItem u) \<and>
       container (klists k1) (EventItem u) = container (klists k0) (EventItem u)"
    using resume_pending_ok [OF S0(1) c, of False] by blast
  have ev1: "events_ok k1"
    unfolding events_ok_def
  proof (intro conjI allI impI)
    fix t b
    assume "tcbs k1 t = Some b" "ucNotifyState b = Waiting"
    then show "container (klists k1) (EventItem t) = None"
      using S0(6) k1(3) k1(8,9) [of t] by (auto simp: events_ok_def stable_def)
  next
    fix t e
    assume "container (klists k1) (EventItem t) = Some (EventList e)"
    then show "\<not> is_ready k1 t"
      using S0(6) k1(8,9) [of t] unfolding events_ok_def is_ready_def by (metis option.discI)
  qed
  have s1: "sched k1"
    using k1(2,4) S0(2) ev1 by (intro stable_sched [OF k0(1) k1(3) _ _ k1(5)]) (simp_all add: same_clock_def)
  define k2 where "k2 = (if mv then prvResetNextTaskUnblockTime k1 else k1)"
  have k2: "sched k2" "stable k0 k2" "keeps_ready k0 k2" "pendsv k2 = pendsv k0" "items (klists k2) PendingReady = []"
    "keeps_ready k1 k2"
    using s1 reset_unblock_sched [OF s1] reset_unblock_time [OF k1(2)] k1 stable_trans [OF k1(3)] keeps_ready_trans [OF k1(5)]
    by (simp_all add: k2_def)
  have susp2: "uxSchedulerSuspended k2 = 0"
    using k2(2) k0(2) by (simp add: stable_def)
  obtain k3 where k3: "(if xPendedTicks k2 > 0 then map_option (\<lambda>k. k\<lparr>xPendedTicks := 0\<rparr>) (resume_ticks (xPendedTicks k2) k2)
      else Some k2) = Some k3"
    "sched k3" "stable k2 (k3\<lparr>xPendedTicks := xPendedTicks k2\<rparr>)" "xPendedTicks k3 = 0" "keeps_ready k2 k3" "pendsv k3 = pendsv k2"
    "items (klists k3) PendingReady = []" "xTickCount k3 = add32 (xTickCount k2) (xPendedTicks k2)"
  proof (cases "xPendedTicks k2 > 0")
    case True
    obtain k' where "resume_ticks (xPendedTicks k2) k2 = Some k'" "sched k'" "stable k2 k'" "keeps_ready k2 k'" "pendsv k' = pendsv k2"
      "items (klists k') PendingReady = []" "xTickCount k' = add32 (xTickCount k2) (xPendedTicks k2)"
      using resume_ticks_ok [OF k2(1) susp2 k2(5)] by blast
    with True show ?thesis
      by (intro that [of "k'\<lparr>xPendedTicks := 0\<rparr>"]) (simp_all add: stable_def keeps_ready_def)
  next
    case False
    with k2 schedD(2) [OF k2(1)] show ?thesis
      by (intro that [of k2]) (simp_all add: stable_def add32_exact)
  qed
  define k4 where "k4 = (if xYieldPending k3 then portYIELD_WITHIN_API k3 else k3)"
  have "xTaskResumeAll k = Option.bind (if xPendedTicks k2 > 0 then map_option (\<lambda>k. k\<lparr>xPendedTicks := 0\<rparr>) (resume_ticks (xPendedTicks k2) k2)
      else Some k2) (\<lambda>k. Some (if xYieldPending k then (True, portYIELD_WITHIN_API k) else (False, k)))"
    using True S0(5) k1(1) unfolding k2_def k0_def by (simp add: xTaskResumeAll_def Let_def)
  then have run: "xTaskResumeAll k = Some (xYieldPending k3, k4)"
    unfolding k3(1) by (simp add: k4_def)
  have k4: "sched k4" "klists k4 = klists k3" "xPendedTicks k4 = 0" "keeps_ready k k4" "xYieldPending k3 \<longrightarrow> pendsv k4"
    "pendsv k \<longrightarrow> pendsv k4" "tcbs k4 = tcbs k"
    "calm (k\<lparr>uxSchedulerSuspended := 0, xPendedTicks := 0\<rparr>) k4"
    using k3 k2(2-4) k0
    by (auto simp: k4_def portYIELD_WITHIN_API_def stable_def calm_def k0_def keeps_ready_def)
  have "is_ready k4 u" if "EventItem u \<in> set (items (klists k) PendingReady)" for u
    using k1(8) [of u] that k0(3) k2(6) k3(5) k4(2) by (auto simp: keeps_ready_def is_ready_def)
  moreover have "xTickCount k4 = add32 (xTickCount k) (xPendedTicks k)"
  proof -
    have "xTickCount k4 = xTickCount k3" "xTickCount k2 = xTickCount k0" "xTickCount k0 = xTickCount k"
      "xPendedTicks k2 = xPendedTicks k0" "xPendedTicks k0 = xPendedTicks k"
      using k1(4) k2(2) reset_unblock_time(3) [OF k1(2)]
      by (simp_all add: k4_def k2_def k0_def portYIELD_WITHIN_API_def same_clock_def stable_def)
    then show ?thesis
      using k3(8) by simp
  qed
  ultimately show ?thesis
    using run k4 k3(7) True by (intro exI [of _ "xYieldPending k3"] exI [of _ k4]) simp
qed

end
