(* ===== verification/TaskStep.thy ===== *)
theory TaskStep
  imports TaskSched
begin

text \<open>
  The operations that suspend, resume, delay and reprioritise tasks keep \<open>kernel_ok\<close> and pass their
  assertions, when they are called as the kernel allows: by the running task or an interrupt, on a
  live task, not blocking the idle task and not blocking at all while the scheduler is suspended.
\<close>

section \<open>Operations that concern one task\<close>

definition touched :: "tid \<Rightarrow> kernel \<Rightarrow> kernel \<Rightarrow> bool" where
  "touched t k k' \<longleftrightarrow>
     (\<forall>u. u \<noteq> t \<longrightarrow> tcbs k' u = tcbs k u \<and> container (klists k') (StateItem u) = container (klists k) (StateItem u) \<and>
        container (klists k') (EventItem u) = container (klists k) (EventItem u))"

lemma kernel_okD:
  assumes "kernel_ok k"
  shows "sched k" "kinv {} {} (Suc (xTickCount k)) k" "xTickCount k < u32_bound"
    "\<exists>c. tcbs k (pxCurrentTCB k) = Some c" "is_ready k (xIdleTaskHandle k)" "events_ok k" "xSchedulerRunning k"
    "uxSchedulerSuspended k = 0 \<Longrightarrow> items (klists k) PendingReady = []"
    "is_ready k (pxCurrentTCB k) \<or> pendsv k \<and> uxSchedulerSuspended k = 0"
proof -
  show s: "sched k"
    using assms by (simp add: kernel_ok_def)
  show "kinv {} {} (Suc (xTickCount k)) k" "xTickCount k < u32_bound"
    "\<exists>c. tcbs k (pxCurrentTCB k) = Some c" "is_ready k (xIdleTaskHandle k)" "events_ok k"
    by (rule schedD [OF s])+
  show "xSchedulerRunning k"
    using s by (simp add: sched_def)
  show "uxSchedulerSuspended k = 0 \<Longrightarrow> items (klists k) PendingReady = []"
    "is_ready k (pxCurrentTCB k) \<or> pendsv k \<and> uxSchedulerSuspended k = 0"
    using assms by (simp_all add: kernel_ok_def)
qed

lemma live_not_null:
  assumes "kernel_ok k" "tcbs k t \<noteq> None"
  shows "t \<noteq> 0"
proof -
  have "tcbs k 0 = None"
    using kinv_parts(4) [OF kernel_okD(2) [OF assms(1)]] by (simp add: priorities_ok_def)
  with assms(2) show ?thesis
    by (cases "t = 0") simp_all
qed

lemma kernel_ok_touch:
  assumes ok: "kernel_ok k" and inv: "kinv {} {} (Suc (xTickCount k)) k'" and cl: "calm k k'" "same_clock k k'"
    and t: "touched t k k'" and live: "tcbs k t \<noteq> None" "tcbs k' t \<noteq> None"
    and ev: "\<And>b. tcbs k' t = Some b \<Longrightarrow> ucNotifyState b = Waiting \<Longrightarrow> container (klists k') (EventItem t) = None"
      "\<And>e. container (klists k') (EventItem t) = Some (EventList e) \<Longrightarrow> \<not> is_ready k' t"
      "container (klists k') (EventItem t) = Some PendingReady \<Longrightarrow> 0 < uxSchedulerSuspended k"
    and idle: "t = xIdleTaskHandle k \<Longrightarrow> is_ready k' t"
    and cur: "t = pxCurrentTCB k \<Longrightarrow> is_ready k' t \<or> pendsv k' \<and> uxSchedulerSuspended k = 0"
    and pend: "pendsv k \<Longrightarrow> pendsv k'"
  shows "kernel_ok k'"
proof -
  note O = kernel_okD [OF ok]
  have same: "tcbs k' u = tcbs k u" "is_ready k' u \<longleftrightarrow> is_ready k u"
    "container (klists k') (EventItem u) = container (klists k) (EventItem u)" if "u \<noteq> t" for u
    using t that by (simp_all add: touched_def is_ready_def)
  have "dom (tcbs k') = dom (tcbs k)"
    using same(1) live by (auto simp: dom_def) (metis option.discI)+
  moreover have "events_ok k'"
    unfolding events_ok_def using O(6) ev(1,2) same by (metis events_ok_def)
  moreover have "is_ready k' (xIdleTaskHandle k)"
    using O(5) idle same(2) by metis
  moreover have "tcbs k' (pxCurrentTCB k) \<noteq> None"
    using O(4) live(2) same(1) by (metis option.discI)
  ultimately have "sched k'"
    using O(1) inv cl by (simp add: sched_def calm_def same_clock_def)
  moreover have "items (klists k') PendingReady = []" if "uxSchedulerSuspended k = 0"
    using O(8) [OF that] ev(3) same(3) that unfolding pending_nil_iff [OF O(2)] pending_nil_iff [OF inv]
    by (metis less_irrefl)
  moreover have "xPendedTicks k = 0" if "uxSchedulerSuspended k = 0"
    using ok that by (simp add: kernel_ok_def)
  moreover have "is_ready k' (pxCurrentTCB k) \<or> pendsv k' \<and> uxSchedulerSuspended k = 0"
    using O(9) cur pend same(2) by metis
  ultimately show ?thesis
    using cl by (simp add: kernel_ok_def calm_def)
qed

lemma kernel_ok_flags:
  "kernel_ok k \<Longrightarrow> kernel_ok (k\<lparr>xYieldPending := y\<rparr>)"
  "kernel_ok k \<Longrightarrow> kernel_ok (k\<lparr>pendsv := True\<rparr>)"
  "kernel_ok k \<Longrightarrow> kernel_ok (portYIELD_WITHIN_API k)"
  by (auto simp: kernel_ok_def portYIELD_WITHIN_API_def)

lemma event_of_ready:
  assumes "kernel_ok k" "uxSchedulerSuspended k = 0" "is_ready k t"
  shows "container (klists k) (EventItem t) = None"
proof (cases "container (klists k) (EventItem t)")
  case (Some l)
  then have "l = PendingReady \<or> (\<exists>e. l = EventList e)"
    using slot_event typed_slot [OF kinv_parts(2)] container_items kernel_okD(2) [OF assms(1)] by metis
  then show ?thesis
    using Some assms kernel_okD(6,8) [OF assms(1)] pending_nil_iff [OF kernel_okD(2) [OF assms(1)]]
    by (auto simp: events_ok_def)
qed

text \<open>A live task becomes ready, at once or, by its event item, when the scheduler resumes.\<close>

lemma ready_now_ok:
  assumes "kernel_ok k" "tcbs k t = Some b" "\<And>e. container (klists k) (EventItem t) \<noteq> Some (EventList e)"
  shows "\<exists>n k1 k2. list_remove (StateItem t) k = Some (n, k1) \<and> prvAddTaskToReadyList t k1 = Some k2 \<and> kernel_ok k2 \<and>
    stable k k2 \<and> same_clock k k2 \<and> touched t k k2 \<and> is_ready k2 t \<and> pendsv k2 = pendsv k \<and> tcbs k1 = tcbs k \<and>
    container (klists k2) (EventItem t) = container (klists k) (EventItem t) \<and>
    container (klists k1) (EventItem t) = container (klists k) (EventItem t)"
proof -
  note O = kernel_okD [OF assms(1)]
  obtain n k1 k2 where K: "list_remove (StateItem t) k = Some (n, k1)" "prvAddTaskToReadyList t k1 = Some k2"
    "kinv {} {} (Suc (xTickCount k)) k2" "stable k k2" "same_clock k k2" "pendsv k2 = pendsv k"
    "container (klists k2) = (container (klists k))(StateItem t := Some (Ready (uxPriority b)))"
    "tcbs k1 = tcbs k" "container (klists k1) (EventItem t) = container (klists k) (EventItem t)"
    using move_to_ready [OF O(2) assms(2)] by metis
  have tb: "tcbs k2 = tcbs k" "touched t k k2" "is_ready k2 t" "calm k k2"
    using K(4) by (auto simp: stable_calm touched_def K(7) is_ready_def)
  have "kernel_ok k2"
  proof (rule kernel_ok_touch [OF assms(1) K(3) tb(4) K(5) tb(2)])
    show "container (klists k2) (EventItem t) = None" if "tcbs k2 t = Some b'" "ucNotifyState b' = Waiting" for b'
      using that O(6) by (simp add: tb(1) K(7) events_ok_def)
    show "\<not> is_ready k2 t" if "container (klists k2) (EventItem t) = Some (EventList e)" for e
      using that assms(3) by (simp add: K(7))
    show "0 < uxSchedulerSuspended k" if "container (klists k2) (EventItem t) = Some PendingReady"
      using that O(8) pending_nil_iff [OF O(2)] by (auto simp: K(7))
  qed (use assms(2) tb K(6) in simp_all)
  with K tb show ?thesis
    by (intro exI [of _ n] exI [of _ k1] exI [of _ k2]) simp
qed

lemma ready_or_pend_ok:
  assumes "kernel_ok k" "tcbs k t = Some b" "container (klists k) (EventItem t) = None" "ucNotifyState b \<noteq> Waiting"
  shows "\<exists>k'. ready_or_pend t k = Some k' \<and> kernel_ok k' \<and> stable k k' \<and> same_clock k k' \<and> touched t k k' \<and> pendsv k' = pendsv k \<and>
    (if uxSchedulerSuspended k = 0 then is_ready k' t else container (klists k') (EventItem t) = Some PendingReady)"
proof (cases "uxSchedulerSuspended k = 0")
  case True
  with ready_now_ok [OF assms(1,2)] assms(3) show ?thesis
    by (auto simp: ready_or_pend_def)
next
  case False
  note O = kernel_okD [OF assms(1)]
  let ?k = "k\<lparr>klists := insert_end PendingReady (EventItem t) (klists k)\<rparr>"
  have I: "list_insert_end PendingReady (EventItem t) k = Some ?k" "kinv {} {} (Suc (xTickCount k)) ?k"
    using kinv_insert_event(1,2) [OF O(2) _ assms(3), of PendingReady] assms(2) by simp_all
  have st: "stable k ?k" "same_clock k ?k" "touched t k ?k" "calm k ?k"
    by (simp_all add: stable_def same_clock_def touched_def calm_def)
  have "kernel_ok ?k"
    by (rule kernel_ok_touch [OF assms(1) I(2) st(4,2,3)])
      (use assms False O(5,9) in \<open>auto simp: is_ready_def\<close>)
  then show ?thesis
    using False I(1) st by (simp add: ready_or_pend_def)
qed

lemma note_higher_ok:
  assumes "kernel_ok k" "tcbs k t \<noteq> None"
  shows "\<exists>h k'. note_higher t k = Some (h, k') \<and> kernel_ok k' \<and> klists k' = klists k \<and> stable k k' \<and> same_clock k k' \<and> pendsv k' = pendsv k"
  using assms kernel_okD(4) [OF assms(1)] kernel_ok_flags(1) [OF assms(1)]
  by (auto simp: note_higher_def higher_priority_def stable_def same_clock_def)

lemma yield_if_higher_ok:
  assumes "kernel_ok k" "tcbs k t \<noteq> None"
  shows "\<exists>k'. taskYIELD_ANY_CORE_IF_USING_PREEMPTION t k = Some k' \<and> kernel_ok k'"
  using assms kernel_okD(4) [OF assms(1)] kernel_ok_flags(3) [OF assms(1)]
  by (auto simp: taskYIELD_ANY_CORE_IF_USING_PREEMPTION_def higher_priority_def)

lemma yield_if_higher_cases:
  assumes "kernel_ok k" "tcbs k t \<noteq> None"
  shows "\<exists>k'. taskYIELD_ANY_CORE_IF_USING_PREEMPTION t k = Some k' \<and> kernel_ok k' \<and> (k' = k \<or> k' = portYIELD_WITHIN_API k)"
  using assms kernel_okD(4) [OF assms(1)] kernel_ok_flags(3) [OF assms(1)]
  by (auto simp: taskYIELD_ANY_CORE_IF_USING_PREEMPTION_def higher_priority_def)

text \<open>A change of a control block that leaves its priorities and does not start a wait.\<close>

lemma kernel_ok_tcb:
  assumes "kernel_ok k" "tcbs k t = Some b" "uxPriority b' = uxPriority b" "uxBasePriority b' = uxBasePriority b"
    "ucNotifyState b' = Waiting \<Longrightarrow> container (klists k) (EventItem t) = None"
  shows "kernel_ok (k\<lparr>tcbs := (tcbs k)(t := Some b')\<rparr>)"
proof (rule kernel_ok_touch [OF assms(1), where t = t])
  note O = kernel_okD [OF assms(1)]
  show "kinv {} {} (Suc (xTickCount k)) (k\<lparr>tcbs := (tcbs k)(t := Some b')\<rparr>)"
    by (rule kinv_tcb_fields [OF O(2) assms(2-4)])
  show "\<not> is_ready (k\<lparr>tcbs := (tcbs k)(t := Some b')\<rparr>) t"
    if "container (klists (k\<lparr>tcbs := (tcbs k)(t := Some b')\<rparr>)) (EventItem t) = Some (EventList e)" for e
    using that O(6) by (simp add: events_ok_def)
  show "0 < uxSchedulerSuspended k"
    if "container (klists (k\<lparr>tcbs := (tcbs k)(t := Some b')\<rparr>)) (EventItem t) = Some PendingReady"
    using that O(8) pending_nil_iff [OF O(2)] by auto
qed (use assms(2,5) kernel_okD(5,9) [OF assms(1)] in \<open>auto simp: touched_def calm_def same_clock_def\<close>)

lemma kernel_ok_event_value:
  assumes "kernel_ok k"
  shows "kernel_ok (list_set_value (EventItem t) v k)"
proof -
  have r: "is_ready (list_set_value (EventItem t) v k) u = is_ready k u" for u
    by (simp add: is_ready_def list_set_value_def)
  have "kinv {} {} (Suc (xTickCount k)) (list_set_value (EventItem t) v k)"
    by (rule kinv_set_event_value [OF kernel_okD(2) [OF assms]])
  then show ?thesis
    using assms r by (simp add: kernel_ok_def sched_def events_ok_def) (simp add: list_set_value_def)
qed
section \<open>The operations\<close>

subsection \<open>Interrupts of the port\<close>

lemma step_tick:
  assumes "kernel_ok k"
  shows "\<exists>k'. xPortSysTickHandler k = Some k' \<and> kernel_ok k'"
proof (cases "uxSchedulerSuspended k = 0")
  case True
  obtain sw k1 where k1: "xTaskIncrementTick k = Some (sw, k1)" "sched k1" "stable k k1" "keeps_ready k k1"
    "pendsv k1 = pendsv k" "items (klists k) PendingReady = [] \<longrightarrow> items (klists k1) PendingReady = []"
    using tick_sched [OF kernel_okD(1) [OF assms] True] by blast
  have "kernel_ok k1"
    using assms k1(2-6) unfolding kernel_ok_def stable_def keeps_ready_def by metis
  with k1(1) kernel_ok_flags(2) [OF this] show ?thesis
    by (auto simp: xPortSysTickHandler_def)
next
  case False
  with assms show ?thesis
    by (simp add: xPortSysTickHandler_def xTaskIncrementTick_def kernel_ok_def)
qed

lemma step_pendsv:
  assumes "kernel_ok k"
  shows "\<exists>k'. xPortPendSVHandler now k = Some k' \<and> kernel_ok k'"
proof (cases "uxSchedulerSuspended k = 0")
  case False
  with assms show ?thesis
    by (auto simp: xPortPendSVHandler_def vTaskSwitchContext_def kernel_ok_def)
next
  case True
  note O = kernel_okD [OF assms]
  let ?k = "k\<lparr>pendsv := False\<rparr>"
  obtain c where c: "tcbs k (pxCurrentTCB k) = Some c"
    using O(4) by blast
  have inv: "kinv {} {} (Suc (xTickCount k)) ?k" and i: "is_ready ?k (xIdleTaskHandle k)"
    "tcbs ?k (pxCurrentTCB ?k) = Some c" "uxSchedulerSuspended ?k = 0"
    using O(2,5) c True by simp_all
  have "\<exists>k' p. vTaskSwitchContext now ?k = Some k' \<and> kinv {} {} (Suc (xTickCount k)) k' \<and> same_clock ?k k' \<and>
    calm ?k (k'\<lparr>pxCurrentTCB := pxCurrentTCB ?k\<rparr>) \<and> items (klists k') = items (klists ?k) \<and>
    container (klists k') = container (klists ?k) \<and> container (klists ?k) (StateItem (pxCurrentTCB k')) = Some (Ready p) \<and>
    (\<exists>n. tcbs k' = (tcbs ?k)(pxCurrentTCB ?k := Some (c\<lparr>ulRunTimeCounter := n\<rparr>)))"
    by (rule switch_ok [OF inv i, of now]) blast
  then obtain k' p n where k': "vTaskSwitchContext now ?k = Some k'" "kinv {} {} (Suc (xTickCount k)) k'" "same_clock ?k k'"
    "calm ?k (k'\<lparr>pxCurrentTCB := pxCurrentTCB ?k\<rparr>)" "items (klists k') = items (klists k)"
    "container (klists k') = container (klists k)" "container (klists k) (StateItem (pxCurrentTCB k')) = Some (Ready p)"
    "tcbs k' = (tcbs k)(pxCurrentTCB k := Some (c\<lparr>ulRunTimeCounter := n\<rparr>))"
    by auto
  have r: "is_ready k' u = is_ready k u" for u
    by (simp add: is_ready_def k'(6))
  have cur: "is_ready k' (pxCurrentTCB k')" "tcbs k' (pxCurrentTCB k') \<noteq> None"
    using k'(7) kinv_live [OF O(2) k'(7)] by (auto simp: is_ready_def k'(6,8))
  have "events_ok k'"
    using O(6) c by (auto simp: events_ok_def k'(6,8) r)
  moreover have "dom (tcbs k') = dom (tcbs k)"
    using c by (auto simp: k'(8))
  ultimately have "sched k'"
    using O(1,5) k'(2-4) r cur(2) by (simp add: sched_def same_clock_def calm_def)
  then have "kernel_ok k'"
    using assms True k'(4,5) cur(1) by (simp add: kernel_ok_def calm_def)
  then show ?thesis
    using k'(1) by (simp add: xPortPendSVHandler_def)
qed

subsection \<open>Suspending and resuming the scheduler, delays\<close>

lemma step_suspend_all:
  assumes "kernel_ok k" "is_ready k (pxCurrentTCB k)" "uxSchedulerSuspended k + 1 < u32_bound"
  shows "kernel_ok (vTaskSuspendAll k)"
  using assms by (simp add: vTaskSuspendAll_def kernel_ok_def add32_exact)

lemma step_resume_all:
  assumes "kernel_ok k" "0 < uxSchedulerSuspended k"
  shows "\<exists>y k'. xTaskResumeAll k = Some (y, k') \<and> kernel_ok k'"
proof -
  obtain y k' where k': "xTaskResumeAll k = Some (y, k')" "sched k'"
    "calm (k\<lparr>uxSchedulerSuspended := uxSchedulerSuspended k - 1, xPendedTicks := xPendedTicks k'\<rparr>) k'" "keeps_ready k k'"
    "uxSchedulerSuspended k = 1 \<longrightarrow> items (klists k') PendingReady = [] \<and> xPendedTicks k' = 0"
    using resume_all_ok [OF kernel_okD(1) [OF assms(1)] assms(2)] by blast
  have "is_ready k (pxCurrentTCB k)"
    using kernel_okD(9) [OF assms(1)] assms(2) by simp
  then have "kernel_ok k'"
    using k'(2-5) assms(2) by (auto simp: kernel_ok_def calm_def keeps_ready_def)
  with k'(1) show ?thesis by blast
qed

text \<open>Blocking the running task under \<open>vTaskSuspendAll\<close>, and what follows until it gives up the processor.\<close>

lemma block_sched:
  assumes "sched k" "is_ready k (pxCurrentTCB k)" "pxCurrentTCB k \<noteq> xIdleTaskHandle k" "0 < n" "n < u32_bound"
  shows "\<exists>k'. prvAddCurrentTaskToDelayedList n indef k = Some k' \<and> sched k' \<and> calm k k' \<and> same_clock k k' \<and>
    pendsv k' = pendsv k \<and> (\<forall>u. container (klists k') (EventItem u) = container (klists k) (EventItem u)) \<and>
    \<not> is_ready k' (pxCurrentTCB k)"
proof -
  note S = schedD [OF assms(1)]
  obtain b where b: "tcbs k (pxCurrentTCB k) = Some b"
    using S(3) by blast
  have "\<exists>k'. prvAddCurrentTaskToDelayedList n indef k = Some k' \<and> kinv {} {} (Suc (xTickCount k')) k' \<and>
    calm k k' \<and> same_clock k k' \<and> tcbs k' = (tcbs k)(pxCurrentTCB k := Some (b\<lparr>ucDelayAborted := False\<rparr>)) \<and>
    pendsv k' = pendsv k \<and> \<not> is_ready k' (pxCurrentTCB k) \<and>
    (\<forall>i. i \<noteq> StateItem (pxCurrentTCB k) \<longrightarrow> container (klists k') i = container (klists k) i)"
    by (rule add_current_ok [OF S(1,2) b assms(2,4,5), of indef]) blast
  then obtain k' where k': "prvAddCurrentTaskToDelayedList n indef k = Some k'" "kinv {} {} (Suc (xTickCount k')) k'"
    "calm k k'" "same_clock k k'" "tcbs k' = (tcbs k)(pxCurrentTCB k := Some (b\<lparr>ucDelayAborted := False\<rparr>))"
    "pendsv k' = pendsv k" "\<not> is_ready k' (pxCurrentTCB k)"
    "\<And>i. i \<noteq> StateItem (pxCurrentTCB k) \<Longrightarrow> container (klists k') i = container (klists k) i"
    by blast
  have r: "is_ready k' u \<longleftrightarrow> is_ready k u \<and> u \<noteq> pxCurrentTCB k" for u
    using k'(7) k'(8) [of "StateItem u"] by (cases "u = pxCurrentTCB k") (auto simp: is_ready_def)
  have "dom (tcbs k') = dom (tcbs k)" "events_ok k'"
    using S(6) b by (auto simp: k'(5) events_ok_def r k'(8))
  then have "sched k'"
    using assms(1,3) k'(2-4) S(2,4) by (simp add: sched_def calm_def same_clock_def r k'(5))
  with k' show ?thesis by auto
qed

lemma block_and_yield:
  assumes "sched k" "uxSchedulerSuspended k = 1"
  shows "\<exists>y k'. xTaskResumeAll k = Some (y, k') \<and> kernel_ok (if y then k' else portYIELD_WITHIN_API k')"
proof -
  obtain y k' where k': "xTaskResumeAll k = Some (y, k')" "sched k'"
    "calm (k\<lparr>uxSchedulerSuspended := uxSchedulerSuspended k - 1, xPendedTicks := xPendedTicks k'\<rparr>) k'" "y \<longrightarrow> pendsv k'"
    "items (klists k') PendingReady = [] \<and> xPendedTicks k' = 0"
    using resume_all_ok [OF assms(1)] assms(2) by auto
  then show ?thesis
    using assms(2) by (auto simp: kernel_ok_def calm_def portYIELD_WITHIN_API_def)
qed

lemma step_delay:
  assumes "kernel_ok k" "is_ready k (pxCurrentTCB k)" "pxCurrentTCB k \<noteq> xIdleTaskHandle k"
    "uxSchedulerSuspended k = 0" "n < u32_bound"
  shows "\<exists>k'. vTaskDelay n k = Some k' \<and> kernel_ok k'"
proof (cases "n = 0")
  case True
  with kernel_ok_flags(3) [OF assms(1)] show ?thesis
    by (simp add: vTaskDelay_def)
next
  case False
  let ?k = "vTaskSuspendAll k"
  have k: "sched ?k" "is_ready ?k (pxCurrentTCB ?k)" "pxCurrentTCB ?k \<noteq> xIdleTaskHandle ?k" "uxSchedulerSuspended ?k = 1"
    using assms kernel_okD(1) [OF assms(1)] by (simp_all add: vTaskSuspendAll_def add32_exact u32_bound_def)
  obtain k1 where k1: "prvAddCurrentTaskToDelayedList n False ?k = Some k1" "sched k1" "calm ?k k1"
    using block_sched [OF k(1-3) _ assms(5), of False] False by auto
  then have "uxSchedulerSuspended k1 = 1"
    using k(4) by (simp add: calm_def)
  from block_and_yield [OF k1(2) this] k1(1) k(4) False show ?thesis
    by (auto simp: vTaskDelay_def Let_def)
qed

lemma step_delay_until:
  assumes "kernel_ok k" "is_ready k (pxCurrentTCB k)" "pxCurrentTCB k \<noteq> xIdleTaskHandle k"
    "uxSchedulerSuspended k = 0" "0 < inc" "prev < u32_bound"
  shows "\<exists>d w k'. xTaskDelayUntil prev inc k = Some (d, w, k') \<and> kernel_ok k'"
proof -
  let ?k = "vTaskSuspendAll k"
  have k: "sched ?k" "is_ready ?k (pxCurrentTCB ?k)" "pxCurrentTCB ?k \<noteq> xIdleTaskHandle ?k" "uxSchedulerSuspended ?k = 1"
    "xTickCount ?k = xTickCount k"
    using assms kernel_okD(1) [OF assms(1)] by (simp_all add: vTaskSuspendAll_def add32_exact u32_bound_def)
  let ?w = "add32 prev inc" and ?now = "xTickCount k"
  define d where "d = (if ?now < prev then ?w < prev \<and> ?w > ?now else ?w < prev \<or> ?w > ?now)"
  have pos: "0 < sub32 ?w ?now" if d
  proof -
    have "?w \<noteq> ?now"
      using that by (auto simp: d_def split: if_splits)
    moreover have "?w < u32_bound" "?now < u32_bound"
      using kernel_okD(3) [OF assms(1)] by simp_all
    ultimately show ?thesis
      using sub32_exact [of ?now ?w] sub32_under [of ?w ?now] by (cases "?now \<le> ?w") simp_all
  qed
  have "\<exists>k1. (if d then prvAddCurrentTaskToDelayedList (sub32 ?w ?now) False ?k else Some ?k) = Some k1 \<and> sched k1 \<and> calm ?k k1"
    using block_sched [OF k(1-3) pos sub32_less, of False] k(1) by auto
  then obtain k1 where k1: "(if d then prvAddCurrentTaskToDelayedList (sub32 ?w ?now) False ?k else Some ?k) = Some k1"
    "sched k1" "calm ?k k1"
    by blast
  then have "uxSchedulerSuspended k1 = 1"
    using k(4) by (simp add: calm_def)
  from block_and_yield [OF k1(2) this] obtain y k' where
    "xTaskResumeAll k1 = Some (y, k')" "kernel_ok (if y then k' else portYIELD_WITHIN_API k')"
    by blast
  then show ?thesis
    using assms(5) k1(1) k(4,5)
    by (intro exI [of _ d] exI [of _ ?w] exI [of _ "if y then k' else portYIELD_WITHIN_API k'"])
      (simp add: xTaskDelayUntil_def Let_def d_def)
qed
subsection \<open>Suspending and resuming tasks, aborting delays\<close>

lemma task_suspended:
  assumes "tcbs k t = Some b" "t \<noteq> 0"
  shows "prvTaskIsTaskSuspended t k = Some (container (klists k) (StateItem t) = Some Suspended \<and>
    container (klists k) (EventItem t) = None \<and> ucNotifyState b \<noteq> Waiting)"
  using assms by (auto simp: prvTaskIsTaskSuspended_def)

lemma step_resume:
  assumes "kernel_ok k" "tcbs k t \<noteq> None" "t \<noteq> 0"
  shows "\<exists>k'. vTaskResume t k = Some k' \<and> kernel_ok k'"
proof -
  obtain b where b: "tcbs k t = Some b"
    using assms(2) by blast
  note su = task_suspended [OF b assms(3)]
  show ?thesis
  proof (cases "t = pxCurrentTCB k \<or> \<not> the (prvTaskIsTaskSuspended t k)")
    case True
    with assms(1,3) su show ?thesis
      by (auto simp: vTaskResume_def)
  next
    case False
    obtain n k1 k2 where k2: "list_remove (StateItem t) k = Some (n, k1)" "prvAddTaskToReadyList t k1 = Some k2" "kernel_ok k2" "stable k k2"
      using ready_now_ok [OF assms(1) b] False su by auto
    then have "tcbs k2 t \<noteq> None"
      using b by (simp add: stable_def)
    from yield_if_higher_ok [OF k2(3) this] k2(1,2) False su assms(3) show ?thesis
      by (auto simp: vTaskResume_def)
  qed
qed

lemma step_resume_isr:
  assumes "kernel_ok k" "tcbs k t \<noteq> None" "t \<noteq> 0"
  shows "\<exists>y k'. xTaskResumeFromISR t k = Some (y, k') \<and> kernel_ok k'"
proof -
  obtain b where b: "tcbs k t = Some b"
    using assms(2) by blast
  note su = task_suspended [OF b assms(3)]
  show ?thesis
  proof (cases "container (klists k) (StateItem t) = Some Suspended \<and> container (klists k) (EventItem t) = None \<and> ucNotifyState b \<noteq> Waiting")
    case False
    with assms(1,3) su show ?thesis
      by (auto simp: xTaskResumeFromISR_def)
  next
    case True
    show ?thesis
    proof (cases "uxSchedulerSuspended k = 0")
      case False
      obtain k' where "ready_or_pend t k = Some k'" "kernel_ok k'"
        using ready_or_pend_ok [OF assms(1) b] True by auto
      with False True su assms(3) show ?thesis
        by (auto simp: xTaskResumeFromISR_def ready_or_pend_def)
    next
      case s0: True
      obtain c where c: "tcbs k (pxCurrentTCB k) = Some c"
        using kernel_okD(4) [OF assms(1)] by blast
      define k0 where "k0 = (if uxPriority c < uxPriority b then k\<lparr>xYieldPending := True\<rparr> else k)"
      have k0: "kernel_ok k0" "tcbs k0 t = Some b" "container (klists k0) (EventItem t) = None"
        using assms(1) b True by (simp_all add: k0_def kernel_ok_flags(1))
      obtain n k1 k2 where "list_remove (StateItem t) k0 = Some (n, k1)" "prvAddTaskToReadyList t k1 = Some k2" "kernel_ok k2"
        using ready_now_ok [OF k0(1,2)] k0(3) by auto
      with s0 True su assms(3) b c show ?thesis
        by (auto simp: xTaskResumeFromISR_def higher_priority_def k0_def)
    qed
  qed
qed

lemma step_suspend:
  assumes "kernel_ok k" "tcbs k (handle t k) \<noteq> None" "handle t k \<noteq> xIdleTaskHandle k"
    "handle t k = pxCurrentTCB k \<Longrightarrow> uxSchedulerSuspended k = 0"
  shows "\<exists>k'. vTaskSuspend t now k = Some k' \<and> kernel_ok k'"
proof -
  define u where "u = handle t k"
  note O = kernel_okD [OF assms(1)]
  obtain b where b: "tcbs k u = Some b"
    using assms(2) by (auto simp: u_def)
  have "\<exists>k1. leave_state_list u k = Some k1 \<and> kinv {u} {} (Suc (xTickCount k)) k1 \<and> stable k k1 \<and> same_clock k k1 \<and>
    container (klists k1) = (container (klists k))(StateItem u := None) \<and> pendsv k1 = pendsv k"
    by (rule leave_state_list_ok [OF O(2) b]) blast
  then obtain k1 where k1: "leave_state_list u k = Some k1" "kinv {u} {} (Suc (xTickCount k)) k1" "stable k k1" "same_clock k k1"
    "container (klists k1) = (container (klists k))(StateItem u := None)" "pendsv k1 = pendsv k"
    by blast
  obtain k2 where k2: "list_remove_if (EventItem u) k1 = Some k2" "only_lists k1 k2"
    "container (klists k2) = (container (klists k1))(EventItem u := None)" "kinv {u} {} (Suc (xTickCount k)) k2"
    using list_remove_if_event [OF k1(2), of u] by metis
  note f = only_lists_fields [OF k2(2)]
  have b2: "tcbs k2 u = Some b"
    using b k1(3) f by (simp add: stable_def)
  let ?k3 = "k2\<lparr>klists := insert_end Suspended (StateItem u) (klists k2)\<rparr>"
  have k3: "list_insert_end Suspended (StateItem u) k2 = Some ?k3" "kinv {} {} (Suc (xTickCount k)) ?k3"
    using kinv_insert_end_state [of u "{}" "{}" "Suc (xTickCount k)" k2 b Suspended] k2(4) b2 by simp_all
  let ?b = "if ucNotifyState b = Waiting then b\<lparr>ucNotifyState := NotWaiting\<rparr> else b"
  let ?k4 = "?k3\<lparr>tcbs := (tcbs ?k3)(u := Some ?b)\<rparr>"
  have k4: "upd_tcb u (\<lambda>b. if ucNotifyState b = Waiting then b\<lparr>ucNotifyState := NotWaiting\<rparr> else b) ?k3 = Some ?k4"
    "kinv {} {} (Suc (xTickCount k)) ?k4"
    using upd_tcb_eq [of ?k3 u b] kinv_tcb_fields [OF k3(2), of u b ?b] b2 by simp_all
  define k5 where "k5 = prvResetNextTaskUnblockTime ?k4"
  note k5 = reset_unblock_time [OF k4(2), folded k5_def]
  have st: "calm k k5" "same_clock k k5" "klists k5 = klists ?k3" "pendsv k5 = pendsv k" "tcbs k5 = (tcbs k)(u := Some ?b)"
    "xSchedulerRunning k2"
    using k1(3,4,6) f k5(2,3,4,6) O(7) by (simp_all add: stable_calm calm_def same_clock_def)
  have run: "vTaskSuspend t now k =
    (if u = pxCurrentTCB k then (if uxSchedulerSuspended k \<noteq> 0 then None else Some (portYIELD_WITHIN_API k5)) else Some k5)"
  proof -
    have r: "xSchedulerRunning ?k4"
      using st(6) by simp
    have "pxCurrentTCB k5 = pxCurrentTCB k" "xSchedulerRunning k5" "uxSchedulerSuspended k5 = uxSchedulerSuspended k"
      using st(1) O(7) by (simp_all add: calm_def)
    then show ?thesis
      unfolding vTaskSuspend_def Let_def u_def [symmetric] k1(1) k2(1) k3(1) k4(1) bind.bind_lunit if_P [OF r] k5_def [symmetric]
      by simp
  qed
  have c5: "container (klists k5) = (container (klists k))(StateItem u := Some Suspended, EventItem u := None)"
    by (simp add: st(3) k2(3) k1(5) fun_upd_twist)
  define k6 where "k6 = (if u = pxCurrentTCB k then portYIELD_WITHIN_API k5 else k5)"
  have k6: "kinv {} {} (Suc (xTickCount k)) k6" "calm k k6" "same_clock k k6" "klists k6 = klists k5" "tcbs k6 = tcbs k5"
    using k5(1) st(1,2) by (simp_all add: k6_def portYIELD_WITHIN_API_def calm_def same_clock_def)
  have "kernel_ok k6"
  proof (rule kernel_ok_touch [OF assms(1) k6(1-3), where t = u])
    show "touched u k k6"
      by (simp add: touched_def k6(4,5) c5 st(5))
    show "u = xIdleTaskHandle k \<Longrightarrow> is_ready k6 u"
      using assms(3) by (simp add: u_def)
    show "u = pxCurrentTCB k \<Longrightarrow> is_ready k6 u \<or> pendsv k6 \<and> uxSchedulerSuspended k = 0"
      using assms(4) by (simp add: u_def k6_def portYIELD_WITHIN_API_def)
    show "pendsv k \<Longrightarrow> pendsv k6"
      using st(4) by (simp add: k6_def portYIELD_WITHIN_API_def)
  qed (use b in \<open>simp_all add: k6(4,5) c5 st(5)\<close>)
  moreover have "vTaskSuspend t now k = Some k6"
    using assms(4) by (simp add: run k6_def u_def)
  ultimately show ?thesis by blast
qed

lemma step_abort_delay:
  assumes "kernel_ok k" "tcbs k t \<noteq> None" "t \<noteq> 0" "is_ready k (pxCurrentTCB k)" "uxSchedulerSuspended k + 1 < u32_bound"
  shows "\<exists>ok k'. xTaskAbortDelay t k = Some (ok, k') \<and> kernel_ok k'"
proof -
  let ?k = "vTaskSuspendAll k"
  have k0: "kernel_ok ?k" "0 < uxSchedulerSuspended ?k" "tcbs ?k = tcbs k" "pxCurrentTCB ?k = pxCurrentTCB k" "klists ?k = klists k"
    using step_suspend_all [OF assms(1,4,5)] assms(5) by (simp_all add: vTaskSuspendAll_def add32_exact)
  obtain b where b: "tcbs ?k t = Some b"
    using assms(2) k0(3) by auto
  have "\<exists>st. eTaskGetState t ?k = Some st"
    using b assms(3) by (simp add: eTaskGetState_def Let_def)
  then obtain st where st: "eTaskGetState t ?k = Some st"
    by blast
  show ?thesis
  proof (cases "st = eBlocked")
    case False
    obtain y k' where "xTaskResumeAll ?k = Some (y, k')" "kernel_ok k'"
      using step_resume_all [OF k0(1,2)] by blast
    with False st assms(3) show ?thesis
      by (auto simp: xTaskAbortDelay_def)
  next
    case True
    have nc: "t \<noteq> pxCurrentTCB ?k"
      using st True assms(3) by (auto simp: eTaskGetState_def)
    note O = kernel_okD [OF k0(1)]
    note K = kinv_parts [OF O(2)]
    obtain l where l: "container (klists ?k) (StateItem t) = Some l"
      using K(3) b unfolding placed_def by auto
    obtain n k1 where k1: "list_remove (StateItem t) ?k = Some (n, k1)" "only_lists ?k k1"
      "items (klists k1) = (items (klists ?k))(l := remove1 (StateItem t) (items (klists ?k) l))"
      "container (klists k1) = (container (klists ?k))(StateItem t := None)"
      "item_value (klists k1) = item_value (klists ?k)" "n = length (items (klists ?k) l) - 1"
      "kinv {t} ({} \<union> (if n = 0 then {p. l = Ready p} else {})) (Suc (xTickCount ?k)) k1"
      by (rule list_remove_state [OF O(2) b l])
    have lr: "l \<noteq> Ready p" for p
      using st True l assms(3) nc b delayed_lists [OF O(2)] by (auto simp: eTaskGetState_def Let_def split: if_splits)
    then have inv1: "kinv {t} {} (Suc (xTickCount ?k)) k1"
      using k1(7) by (cases "n = 0") simp_all
    note f1 = only_lists_fields [OF k1(2)]
    let ?ev = "container (klists k1) (EventItem t) \<noteq> None"
    have "\<exists>k2 b'. (if ?ev then do { (_, k) \<leftarrow> list_remove (EventItem t) k1; upd_tcb t (\<lambda>b. b\<lparr>ucDelayAborted := True\<rparr>) k } else Some k1) = Some k2 \<and>
      kinv {t} {} (Suc (xTickCount ?k)) k2 \<and> calm ?k k2 \<and> same_clock ?k k2 \<and> pendsv k2 = pendsv ?k \<and>
      tcbs k2 = (tcbs ?k)(t := Some b') \<and> ucNotifyState b' = ucNotifyState b \<and> uxPriority b' = uxPriority b \<and>
      container (klists k2) = (container (klists ?k))(StateItem t := None, EventItem t := None)"
    proof (cases ?ev)
      case True
      then obtain j where j: "container (klists k1) (EventItem t) = Some j"
        by blast
      obtain n' k2 where k2: "list_remove (EventItem t) k1 = Some (n', k2)" "only_lists k1 k2"
        "items (klists k2) = (items (klists k1))(j := remove1 (EventItem t) (items (klists k1) j))"
        "container (klists k2) = (container (klists k1))(EventItem t := None)"
        "item_value (klists k2) = item_value (klists k1)" "j = PendingReady \<or> (\<exists>e. j = EventList e)"
        "kinv {t} {} (Suc (xTickCount ?k)) k2"
        by (rule list_remove_event [OF inv1 j])
      note f2 = only_lists_fields [OF k2(2)]
      have b2: "tcbs k2 t = Some b"
        using b f1 f2 by simp
      let ?b = "b\<lparr>ucDelayAborted := True\<rparr>"
      have "kinv {t} {} (Suc (xTickCount ?k)) (k2\<lparr>tcbs := (tcbs k2)(t := Some ?b)\<rparr>)"
        by (rule kinv_tcb_fields [OF k2(7) b2]) simp_all
      with True k2(1,4) k1(4) f1 f2 upd_tcb_eq [OF b2] show ?thesis
        by (intro exI [of _ "k2\<lparr>tcbs := (tcbs k2)(t := Some ?b)\<rparr>"] exI [of _ ?b])
          (simp add: calm_def same_clock_def)
    next
      case False
      then show ?thesis
        using inv1 f1 b k1(4) by (intro exI [of _ k1] exI [of _ b]) (auto simp: calm_def same_clock_def fun_eq_iff)
    qed
    then obtain k2 b' where k2: "(if ?ev then do { (_, k) \<leftarrow> list_remove (EventItem t) k1; upd_tcb t (\<lambda>b. b\<lparr>ucDelayAborted := True\<rparr>) k } else Some k1) = Some k2"
      "kinv {t} {} (Suc (xTickCount ?k)) k2" "calm ?k k2" "same_clock ?k k2" "pendsv k2 = pendsv ?k"
      "tcbs k2 = (tcbs ?k)(t := Some b')" "ucNotifyState b' = ucNotifyState b" "uxPriority b' = uxPriority b"
      "container (klists k2) = (container (klists ?k))(StateItem t := None, EventItem t := None)"
      by blast
    have b2: "tcbs k2 t = Some b'"
      by (simp add: k2(6))
    obtain k3 where k3: "prvAddTaskToReadyList t k2 = Some k3"
      "k3 = k2\<lparr>klists := insert_end (Ready (uxPriority b')) (StateItem t) (klists k2),
            uxTopReadyPriority := portRECORD_READY_PRIORITY (uxPriority b') (uxTopReadyPriority k2)\<rparr>"
      "kinv {} ({} - {uxPriority b'}) (Suc (xTickCount ?k)) k3"
      using kinv_add_ready [of t "{}" "{}" "Suc (xTickCount ?k)" k2 b'] k2(2) b2 by auto
    have c3: "container (klists k3) = (container (klists ?k))(StateItem t := Some (Ready (uxPriority b')), EventItem t := None)"
      by (simp add: k3(2) k2(9) fun_upd_twist)
    have ok3: "kernel_ok k3"
    proof (rule kernel_ok_touch [OF k0(1), where t = t])
      show "touched t ?k k3" "calm ?k k3" "same_clock ?k k3" "pendsv ?k \<Longrightarrow> pendsv k3"
        using k2(3-6) c3 by (simp_all add: touched_def k3(2) calm_def same_clock_def)
      show "kinv {} {} (Suc (xTickCount ?k)) k3"
        using k3(3) by simp
      show "tcbs ?k t \<noteq> None" "tcbs k3 t \<noteq> None"
        using b b2 by (simp_all add: k3(2))
      show "t = xIdleTaskHandle ?k \<Longrightarrow> is_ready k3 t" "t = pxCurrentTCB ?k \<Longrightarrow> is_ready k3 t \<or> pendsv k3 \<and> uxSchedulerSuspended ?k = 0"
        by (auto simp: is_ready_def c3)
    qed (simp_all add: c3)
    have "tcbs k3 t \<noteq> None"
      by (simp add: k3(2) b2)
    then obtain h k4 where k4: "note_higher t k3 = Some (h, k4)" "kernel_ok k4" "stable k3 k4"
      using note_higher_ok [OF ok3] by blast
    then have "0 < uxSchedulerSuspended k4"
      using k0(2) k2(3) by (simp add: stable_def k3(2) calm_def)
    then obtain y k' where k': "xTaskResumeAll k4 = Some (y, k')" "kernel_ok k'"
      using step_resume_all [OF k4(2)] by blast
    have h: "higher_priority t k3 = Some h" "k4 = (if h then k3\<lparr>xYieldPending := True\<rparr> else k3)"
      using k4(1) by (auto simp: note_higher_def split: bind_splits)
    have "xTaskAbortDelay t k = Some (True, k')"
      using st True assms(3) k1(1) k2(1) k3(1) h k'(1) by (simp add: xTaskAbortDelay_def)
    with k'(2) show ?thesis by blast
  qed
qed
subsection \<open>Changing priorities\<close>

text \<open>A control block gets a new priority while its task is in no ready list, or is then moved to the right one.\<close>

lemma set_event_priority_ok: "kernel_ok k \<Longrightarrow> kernel_ok (set_event_priority t p k)"
  by (simp add: set_event_priority_def kernel_ok_event_value)

lemma set_event_priority_fields [simp]:
  "tcbs (set_event_priority t p k) = tcbs k" "pxCurrentTCB (set_event_priority t p k) = pxCurrentTCB k"
  "container (klists (set_event_priority t p k)) = container (klists k)"
  "items (klists (set_event_priority t p k)) = items (klists k)"
  "uxTopReadyPriority (set_event_priority t p k) = uxTopReadyPriority k"
  by (simp_all add: set_event_priority_def list_set_value_def)

lemma not_in_ready:
  assumes "kinv U P m k" "tcbs k t = Some b" "container (klists k) (StateItem t) \<noteq> Some (Ready (uxPriority b))"
  shows "\<not> is_ready k t"
  using ready_priority_eq [OF assms(1,2)] assms(3) by (auto simp: is_ready_def)

text \<open>Changing the priority of a task that is not ready.\<close>

lemma reprioritise_blocked:
  assumes "kernel_ok k" "tcbs k t = Some b" "\<not> is_ready k t" "uxPriority b' < configMAX_PRIORITIES"
    "uxBasePriority b' < configMAX_PRIORITIES" "ucNotifyState b' = ucNotifyState b"
  shows "kernel_ok (k\<lparr>tcbs := (tcbs k)(t := Some b')\<rparr>)"
proof (rule kernel_ok_touch [OF assms(1), where t = t])
  note O = kernel_okD [OF assms(1)]
  show "kinv {} {} (Suc (xTickCount k)) (k\<lparr>tcbs := (tcbs k)(t := Some b')\<rparr>)"
    using assms(3-5) by (intro kinv_upd_tcb [OF O(2) assms(2)]) (simp_all add: is_ready_def)
  show "container (klists (k\<lparr>tcbs := (tcbs k)(t := Some b')\<rparr>)) (EventItem t) = None"
    if "tcbs (k\<lparr>tcbs := (tcbs k)(t := Some b')\<rparr>) t = Some b''" "ucNotifyState b'' = Waiting" for b''
    using that O(6) assms(2,6) by (simp add: events_ok_def)
  show "0 < uxSchedulerSuspended k"
    if "container (klists (k\<lparr>tcbs := (tcbs k)(t := Some b')\<rparr>)) (EventItem t) = Some PendingReady"
    using that O(8) pending_nil_iff [OF O(2)] by auto
qed (use assms(2,3) kernel_okD(5,9) [OF assms(1)] in \<open>auto simp: touched_def calm_def same_clock_def\<close>)

text \<open>
  Moving a ready task between two ready lists: it leaves the old one, whose bit is cleared when that
  empties it, gets its new priority, and enters the new one.
\<close>

lemma reprioritise_ready:
  assumes "kernel_ok k" "tcbs k t = Some b" "container (klists k) (StateItem t) = Some (Ready (uxPriority b))"
    "uxPriority b' < configMAX_PRIORITIES" "uxBasePriority b' < configMAX_PRIORITIES" "ucNotifyState b' = ucNotifyState b"
  obtains n k1 k3 where "list_remove (StateItem t) k = Some (n, k1)" "tcbs k1 = tcbs k" "only_lists k k1"
    "prvAddTaskToReadyList t ((if n = 0 then k1\<lparr>uxTopReadyPriority := portRESET_READY_PRIORITY (uxPriority b) (uxTopReadyPriority k1)\<rparr> else k1)
       \<lparr>tcbs := (tcbs k)(t := Some b')\<rparr>) = Some k3"
    "kernel_ok k3" "tcbs k3 = (tcbs k)(t := Some b')" "calm k k3"
    "container (klists k3) = (container (klists k))(StateItem t := Some (Ready (uxPriority b')))"
proof -
  note O = kernel_okD [OF assms(1)]
  obtain n k1 where k1: "list_remove (StateItem t) k = Some (n, k1)" "only_lists k k1"
    "container (klists k1) = (container (klists k))(StateItem t := None)" "item_value (klists k1) = item_value (klists k)"
    "kinv {t} {} (Suc (xTickCount k)) (if n = 0 then k1\<lparr>uxTopReadyPriority := portRESET_READY_PRIORITY (uxPriority b) (uxTopReadyPriority k1)\<rparr> else k1)"
    by (rule leave_ready [OF O(2) assms(2,3)])
  define k2 where "k2 = (if n = 0 then k1\<lparr>uxTopReadyPriority := portRESET_READY_PRIORITY (uxPriority b) (uxTopReadyPriority k1)\<rparr> else k1)"
  have k2: "klists k2 = klists k1" "tcbs k2 = tcbs k" "calm k k2" "same_clock k k2" "pendsv k2 = pendsv k"
    using only_lists_fields [OF k1(2)] by (simp_all add: k2_def calm_def same_clock_def)
  let ?k = "k2\<lparr>tcbs := (tcbs k)(t := Some b')\<rparr>"
  have "kinv {t} {} (Suc (xTickCount k)) (k2\<lparr>tcbs := (tcbs k2)(t := Some b')\<rparr>)"
    using k1(5) assms(2,4,5) k2(1,2) k1(3) by (intro kinv_upd_tcb [where b = b]) (simp_all add: k2_def [symmetric])
  then have inv: "kinv (insert t {}) {} (Suc (xTickCount k)) ?k"
    by (simp add: k2(2))
  obtain k3 where k3: "prvAddTaskToReadyList t ?k = Some k3"
    "k3 = ?k\<lparr>klists := insert_end (Ready (uxPriority b')) (StateItem t) (klists ?k),
            uxTopReadyPriority := portRECORD_READY_PRIORITY (uxPriority b') (uxTopReadyPriority ?k)\<rparr>"
    "kinv {} ({} - {uxPriority b'}) (Suc (xTickCount k)) k3"
    using kinv_add_ready [OF inv, of b'] by auto
  have c3: "container (klists k3) = (container (klists k))(StateItem t := Some (Ready (uxPriority b')))"
    by (simp add: k3(2) k2(1) k1(3))
  have f3: "tcbs k3 = (tcbs k)(t := Some b')" "calm k k3" "same_clock k k3" "pendsv k3 = pendsv k"
    using k2 by (simp_all add: k3(2) calm_def same_clock_def)
  have r: "is_ready k t"
    using assms(3) by (simp add: is_ready_def)
  have "kernel_ok k3"
  proof (rule kernel_ok_touch [OF assms(1), where t = t])
    show "kinv {} {} (Suc (xTickCount k)) k3"
      using k3(3) by simp
    show "container (klists k3) (EventItem t) = None" if "tcbs k3 t = Some b''" "ucNotifyState b'' = Waiting" for b''
      using that O(6) assms(2,6) by (simp add: events_ok_def f3(1) c3)
    show "\<not> is_ready k3 t" if "container (klists k3) (EventItem t) = Some (EventList e)" for e
      using that O(6) r by (simp add: events_ok_def c3)
    show "0 < uxSchedulerSuspended k" if "container (klists k3) (EventItem t) = Some PendingReady"
      using that O(8) pending_nil_iff [OF O(2)] by (auto simp: c3)
  qed (use assms(2) f3 c3 in \<open>simp_all add: touched_def is_ready_def\<close>)
  with k1(1,2) k2(2) k3(1) f3 c3 only_lists_fields(1) [OF k1(2)] show ?thesis
    by (intro that [of n k1 k3]) (simp_all add: k2_def)
qed

text \<open>
  The same in the order of \<open>vTaskPrioritySet\<close>, where the control block changes first: the list
  operations do not read it.
\<close>

lemma list_remove_tcbs: "list_remove i (k\<lparr>tcbs := B\<rparr>) = map_option (\<lambda>(n, k). (n, k\<lparr>tcbs := B\<rparr>)) (list_remove i k)"
  by (cases "remove_item i (klists k)") (auto simp: list_remove_def)

lemma lists_bitmap_commute: "k\<lparr>klists := T, uxTopReadyPriority := r\<rparr> = k\<lparr>uxTopReadyPriority := r, klists := T\<rparr>"
  by simp

lemma tcbs_bitmap_commute: "k\<lparr>uxTopReadyPriority := r, tcbs := B\<rparr> = k\<lparr>tcbs := B, uxTopReadyPriority := r\<rparr>"
  by simp

lemma requeue_ready_ok:
  assumes "kernel_ok k" "tcbs k t = Some b" "uxPriority b' < configMAX_PRIORITIES"
    "uxBasePriority b' < configMAX_PRIORITIES" "ucNotifyState b' = ucNotifyState b"
  shows "\<exists>k'. requeue_ready t (uxPriority b) (k\<lparr>tcbs := (tcbs k)(t := Some b')\<rparr>) = Some k' \<and> kernel_ok k' \<and>
    tcbs k' = (tcbs k)(t := Some b')"
proof (cases "container (klists k) (StateItem t) = Some (Ready (uxPriority b))")
  case False
  with reprioritise_blocked [OF assms(1,2) not_in_ready [OF kernel_okD(2) [OF assms(1)] assms(2) False] assms(3-5)]
  show ?thesis
    by (simp add: requeue_ready_def)
next
  case True
  obtain n k1 k3 where R: "list_remove (StateItem t) k = Some (n, k1)" "tcbs k1 = tcbs k" "only_lists k k1"
    "prvAddTaskToReadyList t ((if n = 0 then k1\<lparr>uxTopReadyPriority := portRESET_READY_PRIORITY (uxPriority b) (uxTopReadyPriority k1)\<rparr> else k1)
       \<lparr>tcbs := (tcbs k)(t := Some b')\<rparr>) = Some k3"
    "kernel_ok k3" "tcbs k3 = (tcbs k)(t := Some b')"
    using reprioritise_ready [OF assms(1,2) True assms(3-5)] by metis
  with True show ?thesis
    by (cases "n = 0") (simp_all add: requeue_ready_def list_remove_tcbs tcbs_bitmap_commute)
qed

lemma step_priority_set:
  assumes "kernel_ok k" "tcbs k (handle t k) \<noteq> None" "p < configMAX_PRIORITIES"
  shows "\<exists>k'. vTaskPrioritySet t p k = Some k' \<and> kernel_ok k'"
proof -
  define u where "u = handle t k"
  obtain b where b: "tcbs k u = Some b"
    using assms(2) by (auto simp: u_def)
  obtain c where c: "tcbs k (pxCurrentTCB k) = Some c"
    using kernel_okD(4) [OF assms(1)] by blast
  show ?thesis
  proof (cases "uxBasePriority b = p")
    case True
    with b assms show ?thesis
      by (auto simp: vTaskPrioritySet_def u_def [symmetric])
  next
    case False
    define y where "y = (if p > uxBasePriority b then u \<noteq> pxCurrentTCB k \<and> p > uxPriority c else u = pxCurrentTCB k)"
    define b' where "b' = (if uxBasePriority b = uxPriority b \<or> p > uxPriority b then b\<lparr>uxPriority := p\<rparr> else b)\<lparr>uxBasePriority := p\<rparr>"
    have y: "(if p > uxBasePriority b then (if u \<noteq> pxCurrentTCB k then map_option (\<lambda>c. p > uxPriority c) (tcbs k (pxCurrentTCB k)) else Some False)
        else Some (u = pxCurrentTCB k)) = Some y"
      using c by (simp add: y_def)
    have pb: "uxPriority b < configMAX_PRIORITIES"
      using kinv_parts(4) [OF kernel_okD(2) [OF assms(1)]] b by (simp add: priorities_ok_def)
    let ?k1 = "set_event_priority u p k"
    have "kernel_ok ?k1" "tcbs ?k1 u = Some b"
      using set_event_priority_ok [OF assms(1)] b by simp_all
    moreover have "uxPriority b' < configMAX_PRIORITIES" "uxBasePriority b' < configMAX_PRIORITIES" "ucNotifyState b' = ucNotifyState b"
      using pb assms(3) by (simp_all add: b'_def)
    ultimately obtain k' where k': "requeue_ready u (uxPriority b) (?k1\<lparr>tcbs := (tcbs ?k1)(u := Some b')\<rparr>) = Some k'" "kernel_ok k'"
      using requeue_ready_ok [of ?k1 u b b'] by blast
    have sw: "set_event_priority u p (k\<lparr>tcbs := (tcbs k)(u := Some b')\<rparr>) = ?k1\<lparr>tcbs := (tcbs ?k1)(u := Some b')\<rparr>"
      by (simp add: set_event_priority_def event_value_free_def list_set_value_def)
    have up: "upd_tcb u (\<lambda>b. (if uxBasePriority b = uxPriority b \<or> p > uxPriority b then b\<lparr>uxPriority := p\<rparr> else b)\<lparr>uxBasePriority := p\<rparr>) k =
        Some (k\<lparr>tcbs := (tcbs k)(u := Some b')\<rparr>)"
      using b by (simp add: upd_tcb_def b'_def)
    have "vTaskPrioritySet t p k = Some (if y then portYIELD_WITHIN_API k' else k')"
      using assms(3) False unfolding vTaskPrioritySet_def Let_def u_def [symmetric] b bind.bind_lunit up y sw k'(1) by simp
    with k'(2) show ?thesis
      using kernel_ok_flags(3) by auto
  qed
qed

lemma step_inherit:
  assumes "kernel_ok k" "t \<noteq> 0 \<Longrightarrow> tcbs k t \<noteq> None"
  shows "\<exists>y k'. xTaskPriorityInherit t k = Some (y, k') \<and> kernel_ok k'"
proof (cases "t = 0")
  case True
  with assms(1) show ?thesis by (auto simp: xTaskPriorityInherit_def)
next
  case False
  then obtain b where b: "tcbs k t = Some b"
    using assms(2) by blast
  obtain c where c: "tcbs k (pxCurrentTCB k) = Some c"
    using kernel_okD(4) [OF assms(1)] by blast
  have pr: "uxPriority c < configMAX_PRIORITIES" "uxBasePriority b < configMAX_PRIORITIES"
    using kinv_parts(4) [OF kernel_okD(2) [OF assms(1)]] b c by (simp_all add: priorities_ok_def)
  let ?b = "b\<lparr>uxPriority := uxPriority c\<rparr>"
  let ?k = "set_event_priority t (uxPriority c) k"
  have k0: "kernel_ok ?k" "tcbs ?k t = Some b"
    using set_event_priority_ok [OF assms(1)] b by simp_all
  show ?thesis
  proof (cases "uxPriority b < uxPriority c")
    case False
    with \<open>t \<noteq> 0\<close> b c assms(1) show ?thesis
      by (simp add: xTaskPriorityInherit_def)
  next
    case True
    show ?thesis
    proof (cases "container (klists k) (StateItem t) = Some (Ready (uxPriority b))")
      case F: False
      have "kernel_ok (?k\<lparr>tcbs := (tcbs ?k)(t := Some ?b)\<rparr>)"
        using pr F by (intro reprioritise_blocked [OF k0] not_in_ready [OF kernel_okD(2) [OF k0(1)] k0(2)]) simp_all
      with \<open>t \<noteq> 0\<close> b c True F upd_tcb_eq [OF k0(2)] show ?thesis
        by (auto simp: xTaskPriorityInherit_def Let_def)
    next
      case T: True
      then have T': "container (klists ?k) (StateItem t) = Some (Ready (uxPriority b))"
        by simp
      have bp: "uxPriority ?b < configMAX_PRIORITIES" "uxBasePriority ?b < configMAX_PRIORITIES" "ucNotifyState ?b = ucNotifyState b"
        using pr by simp_all
      obtain n k1 k3 where R:
        "list_remove (StateItem t) ?k = Some (n, k1)" "tcbs k1 = tcbs ?k" "only_lists ?k k1"
        "prvAddTaskToReadyList t ((if n = 0 then k1\<lparr>uxTopReadyPriority := portRESET_READY_PRIORITY (uxPriority b) (uxTopReadyPriority k1)\<rparr> else k1)
           \<lparr>tcbs := (tcbs ?k)(t := Some ?b)\<rparr>) = Some k3" "kernel_ok k3"
        by (rule reprioritise_ready [OF k0 T' bp])
      have "upd_tcb t (\<lambda>b. b\<lparr>uxPriority := uxPriority c\<rparr>)
          (if n = 0 then k1\<lparr>uxTopReadyPriority := portRESET_READY_PRIORITY (uxPriority b) (uxTopReadyPriority k1)\<rparr> else k1) =
        Some ((if n = 0 then k1\<lparr>uxTopReadyPriority := portRESET_READY_PRIORITY (uxPriority b) (uxTopReadyPriority k1)\<rparr> else k1)
           \<lparr>tcbs := (tcbs ?k)(t := Some ?b)\<rparr>)"
        using R(2) b by (simp add: upd_tcb_def)
      with \<open>t \<noteq> 0\<close> b c True T R(1,4,5) show ?thesis
        by (auto simp: xTaskPriorityInherit_def Let_def)
    qed
  qed
qed

end
