(* ===== verification/TaskWait.thy ===== *)
theory TaskWait
  imports TaskStep
begin

text \<open>
  The operations that let tasks wait keep \<open>kernel_ok\<close>: priority disinheritance, event lists,
  notifications in the parts between which other code runs, and adding a new task.
\<close>

section \<open>Mutexes, events, notifications\<close>

lemma step_disinherit:
  assumes "kernel_ok k" "tcbs k (pxCurrentTCB k) = Some b" "0 < uxMutexesHeld b" "is_ready k (pxCurrentTCB k)"
  shows "\<exists>y k'. xTaskPriorityDisinherit (pxCurrentTCB k) k = Some (y, k') \<and> kernel_ok k'"
proof -
  note O = kernel_okD [OF assms(1)]
  let ?t = "pxCurrentTCB k" and ?b = "b\<lparr>uxMutexesHeld := uxMutexesHeld b - 1\<rparr>"
  have t0: "?t \<noteq> 0"
    using kinv_parts(4) [OF O(2)] assms(2) by (metis option.distinct(1) priorities_ok_def)
  let ?k = "k\<lparr>tcbs := (tcbs k)(?t := Some ?b)\<rparr>"
  have k0: "kernel_ok ?k" "tcbs ?k ?t = Some ?b"
  proof -
    show "kernel_ok ?k"
      by (rule kernel_ok_tcb [OF assms(1,2)]) (use O(6) assms(2) in \<open>simp_all add: events_ok_def\<close>)
  qed simp
  have up: "upd_tcb ?t (\<lambda>b. b\<lparr>uxMutexesHeld := uxMutexesHeld b - 1\<rparr>) k = Some ?k"
    using upd_tcb_eq [OF assms(2)] by simp
  show ?thesis
  proof (cases "uxPriority b \<noteq> uxBasePriority b \<and> uxMutexesHeld b - 1 = 0")
    case False
    with t0 assms(2,3) up k0(1) show ?thesis
      by (auto simp: xTaskPriorityDisinherit_def)
  next
    case True
    have pb: "uxBasePriority b < configMAX_PRIORITIES"
      using kinv_parts(4) [OF O(2)] assms(2) by (simp add: priorities_ok_def)
    have c: "container (klists ?k) (StateItem ?t) = Some (Ready (uxPriority ?b))"
      using assms(4) ready_priority_eq [OF O(2) assms(2)] by (auto simp: is_ready_def)
    let ?b2 = "?b\<lparr>uxPriority := uxBasePriority b\<rparr>"
    have bp: "uxPriority ?b2 < configMAX_PRIORITIES" "uxBasePriority ?b2 < configMAX_PRIORITIES" "ucNotifyState ?b2 = ucNotifyState ?b"
      using pb by simp_all
    let ?k1 = "list_set_value (EventItem ?t) (sub32 configMAX_PRIORITIES (uxBasePriority b)) ?k"
    have k1: "kernel_ok ?k1" "tcbs ?k1 ?t = Some ?b"
      using kernel_ok_event_value [OF k0(1)] by (simp_all add: list_set_value_def)
    have c1: "container (klists ?k1) (StateItem ?t) = Some (Ready (uxPriority ?b))"
      using c by (simp add: list_set_value_def)
    obtain n k2 k3 where R: "list_remove (StateItem ?t) ?k1 = Some (n, k2)" "tcbs k2 = tcbs ?k1" "only_lists ?k1 k2"
      "prvAddTaskToReadyList ?t ((if n = 0 then k2\<lparr>uxTopReadyPriority := portRESET_READY_PRIORITY (uxPriority ?b) (uxTopReadyPriority k2)\<rparr> else k2)
         \<lparr>tcbs := (tcbs ?k1)(?t := Some ?b2)\<rparr>) = Some k3" "kernel_ok k3"
      by (rule reprioritise_ready [OF k1 c1 bp])
    obtain l where l: "container (klists ?k) (StateItem ?t) = Some l"
      using c by blast
    obtain k2' where k2': "list_remove (StateItem ?t) ?k = Some (n, k2')"
      "k2 = list_set_value (EventItem ?t) (sub32 configMAX_PRIORITIES (uxBasePriority b)) k2'" "tcbs k2' = tcbs ?k"
      using R(1) l by (auto simp: list_remove_def remove_item_def list_set_value_def set_value_def)
    define k2r where "k2r = (if n = 0 then k2'\<lparr>uxTopReadyPriority := portRESET_READY_PRIORITY (uxPriority b) (uxTopReadyPriority k2')\<rparr> else k2')"
    have "upd_tcb ?t (\<lambda>b. b\<lparr>uxPriority := uxBasePriority b\<rparr>) k2r = Some (k2r\<lparr>tcbs := (tcbs ?k)(?t := Some ?b2)\<rparr>)"
      using k2'(3) by (simp add: upd_tcb_def k2r_def)
    moreover have "list_set_value (EventItem ?t) (sub32 configMAX_PRIORITIES (uxBasePriority b)) (k2r\<lparr>tcbs := (tcbs ?k)(?t := Some ?b2)\<rparr>) =
        (if n = 0 then k2\<lparr>uxTopReadyPriority := portRESET_READY_PRIORITY (uxPriority ?b) (uxTopReadyPriority k2)\<rparr> else k2)
         \<lparr>tcbs := (tcbs ?k1)(?t := Some ?b2)\<rparr>"
      by (cases "n = 0") (simp_all add: k2r_def k2'(2) list_set_value_def)
    ultimately have "xTaskPriorityDisinherit ?t k = Some (True, k3)"
      using t0 assms(2,3) True up k2'(1) R(4)
      by (simp add: xTaskPriorityDisinherit_def Let_def k2r_def [symmetric])
    with R(5) show ?thesis by blast
  qed
qed

subsection \<open>Event lists\<close>

text \<open>
  The way queues and event groups block: under \<open>vTaskSuspendAll\<close> the running task goes onto the event
  list and the delayed list, then the scheduler is resumed and the processor given up.
\<close>

definition wait_on_event :: "lname \<Rightarrow> nat \<Rightarrow> kernel \<Rightarrow> kernel option" where
  "wait_on_event l n k =
     do { k \<leftarrow> vTaskPlaceOnEventList l n (vTaskSuspendAll k);
          (yielded, k) \<leftarrow> xTaskResumeAll k;
          Some (if yielded then k else portYIELD_WITHIN_API k) }"

text \<open>Between placing the event item and blocking, the task is ready and on an event list.\<close>

lemma step_wait_on_event:
  assumes "kernel_ok k" "is_ready k (pxCurrentTCB k)" "pxCurrentTCB k \<noteq> xIdleTaskHandle k"
    "uxSchedulerSuspended k = 0" "0 < n" "n < u32_bound" "tcbs k (pxCurrentTCB k) = Some b" "ucNotifyState b \<noteq> Waiting"
  shows "\<exists>k'. wait_on_event (EventList e) n k = Some k' \<and> kernel_ok k'"
proof -
  let ?k = "vTaskSuspendAll k" and ?t = "pxCurrentTCB k"
  have k: "sched ?k" "is_ready ?k ?t" "uxSchedulerSuspended ?k = 1" "pxCurrentTCB ?k = ?t" "tcbs ?k = tcbs k"
    "xIdleTaskHandle ?k = xIdleTaskHandle k" "klists ?k = klists k"
    using assms kernel_okD(1) [OF assms(1)] by (simp_all add: vTaskSuspendAll_def add32_exact u32_bound_def)
  note S = schedD [OF k(1)]
  have free: "container (klists ?k) (EventItem ?t) = None"
    using event_of_ready [OF assms(1,4,2)] by (simp add: k(7))
  let ?k1 = "?k\<lparr>klists := insert_ordered (EventList e) (EventItem ?t) (klists ?k)\<rparr>"
  have k1: "list_insert (EventList e) (EventItem ?t) ?k = Some ?k1" "kinv {} {} (Suc (xTickCount ?k)) ?k1"
    using kinv_insert_event(3,4) [OF S(1) _ free, of "EventList e" e] assms(7) k(5) by simp_all
  have b1: "tcbs ?k1 (pxCurrentTCB ?k1) = Some b"
    using assms(7) k(4,5) by simp
  have r1: "is_ready ?k1 (pxCurrentTCB ?k1)"
    using k(2,4) by (simp add: is_ready_def)
  have inv1: "kinv {} {} (Suc (xTickCount ?k1)) ?k1"
    using k1(2) by simp
  have t1: "xTickCount ?k1 < u32_bound"
    using S(2) by simp
  have "\<exists>k2. prvAddCurrentTaskToDelayedList n True ?k1 = Some k2 \<and> kinv {} {} (Suc (xTickCount k2)) k2 \<and>
    calm ?k1 k2 \<and> same_clock ?k1 k2 \<and> tcbs k2 = (tcbs ?k1)(pxCurrentTCB ?k1 := Some (b\<lparr>ucDelayAborted := False\<rparr>)) \<and>
    \<not> is_ready k2 (pxCurrentTCB ?k1) \<and>
    (\<forall>i. i \<noteq> StateItem (pxCurrentTCB ?k1) \<longrightarrow> container (klists k2) i = container (klists ?k1) i)"
    by (rule add_current_ok [OF inv1 t1 b1 r1 assms(5,6), of True]) blast
  then obtain k2 where k2: "prvAddCurrentTaskToDelayedList n True ?k1 = Some k2" "kinv {} {} (Suc (xTickCount k2)) k2"
    "calm ?k1 k2" "same_clock ?k1 k2" "tcbs k2 = (tcbs ?k1)(pxCurrentTCB ?k1 := Some (b\<lparr>ucDelayAborted := False\<rparr>))"
    "\<not> is_ready k2 (pxCurrentTCB ?k1)"
    "\<And>i. i \<noteq> StateItem (pxCurrentTCB ?k1) \<Longrightarrow> container (klists k2) i = container (klists ?k1) i"
    by blast
  have cs: "container (klists k2) (StateItem u) = container (klists k) (StateItem u)" if "u \<noteq> ?t" for u
    using k2(7) [of "StateItem u"] that by (simp add: k(4,7))
  have ce: "container (klists k2) (EventItem u) = (if u = ?t then Some (EventList e) else container (klists k) (EventItem u))" for u
    using k2(7) [of "EventItem u"] by (simp add: k(4,7))
  have r: "is_ready k2 u \<longleftrightarrow> is_ready k u \<and> u \<noteq> ?t" for u
    using k2(6) cs [of u] k(4) by (cases "u = ?t") (auto simp: is_ready_def)
  have "events_ok k2"
    using kernel_okD(6) [OF assms(1)] assms(8) by (auto simp: events_ok_def r ce k2(5) k(4,5))
  moreover have "dom (tcbs k2) = dom (tcbs k)"
    using assms(7) by (auto simp: k2(5) k(4,5))
  ultimately have s2: "sched k2"
    using k(1) k2(2-4) S(2) assms(3) kernel_okD(5) [OF assms(1)]
    by (simp add: sched_def calm_def same_clock_def r k2(5) k(4,5,6))
  have "uxSchedulerSuspended k2 = 1"
    using k2(3) k(3) by (simp add: calm_def)
  from block_and_yield [OF s2 this] k1(1) k2(1) show ?thesis
    by (auto simp: wait_on_event_def vTaskPlaceOnEventList_def k(4))
qed

lemma step_remove_from_event_list:
  assumes "kernel_ok k" "items (klists k) (EventList e) \<noteq> []"
  shows "\<exists>y k'. xTaskRemoveFromEventList (EventList e) k = Some (y, k') \<and> kernel_ok k'"
proof -
  note O = kernel_okD [OF assms(1)]
  obtain i js where i: "items (klists k) (EventList e) = i # js"
    using assms(2) by (cases "items (klists k) (EventList e)") auto
  then have "slot_ok (tcbs k) (EventList e) i"
    using typed_slot [OF kinv_parts(2) [OF O(2)], of i "EventList e"] by simp
  then obtain t b where t: "i = EventItem t" "tcbs k t = Some b"
    by auto
  have ct: "container (klists k) (EventItem t) = Some (EventList e)"
    using container_items [OF O(2)] i t by simp
  have nw: "ucNotifyState b \<noteq> Waiting"
    using O(6) t(2) ct by (auto simp: events_ok_def)
  obtain n k1 where k1: "list_remove (EventItem t) k = Some (n, k1)" "only_lists k k1"
    "items (klists k1) = (items (klists k))(EventList e := remove1 (EventItem t) (items (klists k) (EventList e)))"
    "container (klists k1) = (container (klists k))(EventItem t := None)"
    "item_value (klists k1) = item_value (klists k)" "EventList e = PendingReady \<or> (\<exists>e'. EventList e = EventList e')"
    "kinv {} {} (Suc (xTickCount k)) k1"
    by (rule list_remove_event [OF O(2) ct])
  note f = only_lists_fields [OF k1(2)]
  have nr: "\<not> is_ready k t"
    using O(6) ct by (auto simp: events_ok_def)
  have ok1: "kernel_ok k1"
  proof (rule kernel_ok_touch [OF assms(1) k1(7), where t = t])
    show "t = xIdleTaskHandle k \<Longrightarrow> is_ready k1 t" "t = pxCurrentTCB k \<Longrightarrow> is_ready k1 t \<or> pendsv k1 \<and> uxSchedulerSuspended k = 0"
      using nr O(5,9) f by auto
  qed (use t f k1(4) in \<open>simp_all add: calm_def same_clock_def touched_def\<close>)
  have b1: "tcbs k1 t = Some b" "container (klists k1) (EventItem t) = None"
    using t(2) f k1(4) by simp_all
  obtain k2 where k2: "ready_or_pend t k1 = Some k2" "kernel_ok k2" "stable k1 k2"
    using ready_or_pend_ok [OF ok1 b1 nw] by blast
  have "tcbs k2 t \<noteq> None"
    using k2(3) b1 by (simp add: stable_def)
  from note_higher_ok [OF k2(2) this] i t(1) k1(1) k2(1) show ?thesis
    by (auto simp: xTaskRemoveFromEventList_def)
qed

subsection \<open>Notifications\<close>

lemma waiting_no_event:
  "kernel_ok k \<Longrightarrow> tcbs k t = Some b \<Longrightarrow> ucNotifyState b = Waiting \<Longrightarrow> container (klists k) (EventItem t) = None"
  using kernel_okD(6) [of k] by (simp add: events_ok_def)

lemma notified_ok:
  fixes v :: "32 word"
  assumes "kernel_ok k" "tcbs k t = Some b"
  defines "k1 \<equiv> k\<lparr>tcbs := (tcbs k)(t := Some (b\<lparr>ucNotifyState := Received, ulNotifiedValue := v\<rparr>))\<rparr>"
  shows "upd_tcb t (\<lambda>b. b\<lparr>ucNotifyState := Received, ulNotifiedValue := v\<rparr>) k = Some k1" "kernel_ok k1"
    "tcbs k1 t = Some (b\<lparr>ucNotifyState := Received, ulNotifiedValue := v\<rparr>)" "klists k1 = klists k"
proof -
  show "kernel_ok k1"
    unfolding k1_def by (rule kernel_ok_tcb [OF assms(1,2)]) simp_all
qed (use upd_tcb_eq [OF assms(2)] in \<open>simp_all add: k1_def\<close>)

lemma step_notify:
  assumes "kernel_ok k" "tcbs k t \<noteq> None" "t \<noteq> 0"
  shows "\<exists>ok v' k'. xTaskGenericNotify t 0 v a k = Some (ok, v', k') \<and> kernel_ok k'"
proof -
  obtain b where b: "tcbs k t = Some b"
    using assms(2) by blast
  obtain ok v' where nv: "notify_value a v (ucNotifyState b) (ulNotifiedValue b) = (ok, v')"
    by (cases "notify_value a v (ucNotifyState b) (ulNotifiedValue b)")
  note N = notified_ok [OF assms(1) b, of v']
  show ?thesis
  proof (cases "ucNotifyState b = Waiting")
    case False
    with assms(3) b nv N(1,2) show ?thesis
      by (simp add: xTaskGenericNotify_def configTASK_NOTIFICATION_ARRAY_ENTRIES_def)
  next
    case True
    let ?k = "k\<lparr>tcbs := (tcbs k)(t := Some (b\<lparr>ucNotifyState := Received, ulNotifiedValue := v'\<rparr>))\<rparr>"
    have "container (klists ?k) (EventItem t) = None"
      using waiting_no_event [OF assms(1) b True] by simp
    then obtain n k1 k2 where k2: "list_remove (StateItem t) ?k = Some (n, k1)" "prvAddTaskToReadyList t k1 = Some k2" "kernel_ok k2"
      "stable ?k k2" "container (klists k2) (EventItem t) = None"
      using ready_now_ok [OF N(2,3)] by auto
    have "tcbs k2 t \<noteq> None"
      using k2(4) by (simp add: stable_def)
    then obtain k3 where "taskYIELD_ANY_CORE_IF_USING_PREEMPTION t k2 = Some k3" "kernel_ok k3"
      using yield_if_higher_ok [OF k2(3)] by blast
    with True assms(3) b nv N(1) k2(1,2,5) show ?thesis
      by (simp add: xTaskGenericNotify_def configTASK_NOTIFICATION_ARRAY_ENTRIES_def)
  qed
qed

lemma notify_from_isr_rest:
  fixes v :: "32 word"
  assumes "kernel_ok k" "tcbs k t = Some b"
  defines "k1 \<equiv> k\<lparr>tcbs := (tcbs k)(t := Some (b\<lparr>ucNotifyState := Received, ulNotifiedValue := v\<rparr>))\<rparr>"
  assumes "ucNotifyState b = Waiting"
  shows "container (klists k1) (EventItem t) = None"
    "\<exists>k2 h k3. ready_or_pend t k1 = Some k2 \<and> note_higher t k2 = Some (h, k3) \<and> kernel_ok k3"
proof -
  note N = notified_ok [OF assms(1,2), of v, folded k1_def]
  show c: "container (klists k1) (EventItem t) = None"
    using N(4) waiting_no_event [OF assms(1,2,4)] by simp
  obtain k2 where k2: "ready_or_pend t k1 = Some k2" "kernel_ok k2" "stable k1 k2"
    using ready_or_pend_ok [OF N(2,3) c] by auto
  have "tcbs k2 t \<noteq> None"
    using k2(3) N(3) by (simp add: stable_def)
  from note_higher_ok [OF k2(2) this] k2(1)
  show "\<exists>k2 h k3. ready_or_pend t k1 = Some k2 \<and> note_higher t k2 = Some (h, k3) \<and> kernel_ok k3"
    by blast
qed

lemma step_notify_from_isr:
  assumes "kernel_ok k" "tcbs k t \<noteq> None" "t \<noteq> 0"
  shows "\<exists>ok v' h k'. xTaskGenericNotifyFromISR t 0 v a k = Some (ok, v', h, k') \<and> kernel_ok k'"
proof -
  obtain b where b: "tcbs k t = Some b"
    using assms(2) by blast
  obtain ok v' where nv: "notify_value a v (ucNotifyState b) (ulNotifiedValue b) = (ok, v')"
    by (cases "notify_value a v (ucNotifyState b) (ulNotifiedValue b)")
  note N = notified_ok [OF assms(1) b, of v']
  show ?thesis
  proof (cases "ucNotifyState b = Waiting")
    case False
    with assms(3) b nv N(1,2) show ?thesis
      by (auto simp: xTaskGenericNotifyFromISR_def configTASK_NOTIFICATION_ARRAY_ENTRIES_def)
  next
    case True
    from notify_from_isr_rest [OF assms(1) b True, of v'] True assms(3) b nv N(1) show ?thesis
      by (auto simp: xTaskGenericNotifyFromISR_def configTASK_NOTIFICATION_ARRAY_ENTRIES_def)
  qed
qed

lemma step_give_from_isr:
  assumes "kernel_ok k" "tcbs k t \<noteq> None" "t \<noteq> 0"
  shows "\<exists>h k'. vTaskGenericNotifyGiveFromISR t 0 k = Some (h, k') \<and> kernel_ok k'"
proof -
  obtain b where b: "tcbs k t = Some b"
    using assms(2) by blast
  let ?v = "ulNotifiedValue b + 1"
  have up: "upd_tcb t (\<lambda>b. b\<lparr>ucNotifyState := Received, ulNotifiedValue := ulNotifiedValue b + 1\<rparr>) k =
      Some (k\<lparr>tcbs := (tcbs k)(t := Some (b\<lparr>ucNotifyState := Received, ulNotifiedValue := ?v\<rparr>))\<rparr>)"
    using b by (simp add: upd_tcb_def)
  show ?thesis
  proof (cases "ucNotifyState b = Waiting")
    case False
    with assms(3) b notified_ok(2) [OF assms(1) b, of ?v] up show ?thesis
      by (auto simp: vTaskGenericNotifyGiveFromISR_def configTASK_NOTIFICATION_ARRAY_ENTRIES_def)
  next
    case True
    from notify_from_isr_rest [OF assms(1) b True, of ?v] True assms(3) b up show ?thesis
      by (auto simp: vTaskGenericNotifyGiveFromISR_def configTASK_NOTIFICATION_ARRAY_ENTRIES_def)
  qed
qed
text \<open>Waiting for a notification: the check, the block, the exit.\<close>

lemma check_ok:
  assumes "kernel_ok k" "is_ready k (pxCurrentTCB k)" "uxSchedulerSuspended k = 0" "tcbs k (pxCurrentTCB k) = Some b"
    "uxPriority b' = uxPriority b" "uxBasePriority b' = uxBasePriority b"
  shows "kernel_ok ((vTaskSuspendAll k)\<lparr>tcbs := (tcbs k)(pxCurrentTCB k := Some b')\<rparr>)" "kernel_ok (vTaskSuspendAll k)"
proof -
  have k: "kernel_ok (vTaskSuspendAll k)" "tcbs (vTaskSuspendAll k) = tcbs k" "klists (vTaskSuspendAll k) = klists k"
    using step_suspend_all [OF assms(1,2)] assms(3) by (simp_all add: vTaskSuspendAll_def u32_bound_def)
  then have b: "tcbs (vTaskSuspendAll k) (pxCurrentTCB k) = Some b"
    using assms(4) by simp
  show "kernel_ok ((vTaskSuspendAll k)\<lparr>tcbs := (tcbs k)(pxCurrentTCB k := Some b')\<rparr>)"
    using kernel_ok_tcb [OF k(1) b assms(5,6)] event_of_ready [OF assms(1,3,2)] k(2,3) by simp
  show "kernel_ok (vTaskSuspendAll k)"
    by (rule k(1))
qed

lemma step_take_check:
  assumes "kernel_ok k" "is_ready k (pxCurrentTCB k)" "uxSchedulerSuspended k = 0"
  shows "\<exists>y k'. notify_take_check 0 n k = Some (y, k') \<and> kernel_ok k'"
proof -
  obtain b where b: "tcbs k (pxCurrentTCB k) = Some b"
    using kernel_okD(4) [OF assms(1)] by blast
  have f: "tcbs (vTaskSuspendAll k) = tcbs k" "pxCurrentTCB (vTaskSuspendAll k) = pxCurrentTCB k"
    by (simp_all add: vTaskSuspendAll_def)
  from check_ok [OF assms b, of "b\<lparr>ucNotifyState := Waiting\<rparr>"] b f show ?thesis
    by (auto simp: notify_take_check_def configTASK_NOTIFICATION_ARRAY_ENTRIES_def upd_tcb_def Let_def)
qed

lemma step_wait_check:
  assumes "kernel_ok k" "is_ready k (pxCurrentTCB k)" "uxSchedulerSuspended k = 0"
  shows "\<exists>y k'. notify_wait_check 0 v n k = Some (y, k') \<and> kernel_ok k'"
proof -
  obtain b where b: "tcbs k (pxCurrentTCB k) = Some b"
    using kernel_okD(4) [OF assms(1)] by blast
  have f: "tcbs (vTaskSuspendAll k) = tcbs k" "pxCurrentTCB (vTaskSuspendAll k) = pxCurrentTCB k"
    by (simp_all add: vTaskSuspendAll_def)
  from check_ok [OF assms b, of "b\<lparr>ulNotifiedValue := ulNotifiedValue b AND NOT v, ucNotifyState := Waiting\<rparr>"] b f show ?thesis
    by (auto simp: notify_wait_check_def configTASK_NOTIFICATION_ARRAY_ENTRIES_def upd_tcb_def Let_def)
qed

lemma step_notify_block:
  assumes "kernel_ok k" "uxSchedulerSuspended k = 1" "pxCurrentTCB k \<noteq> xIdleTaskHandle k" "0 < n" "n < u32_bound"
  shows "\<exists>k'. notify_block True n k = Some k' \<and> kernel_ok k'"
proof -
  have "is_ready k (pxCurrentTCB k)"
    using kernel_okD(9) [OF assms(1)] assms(2) by simp
  then obtain k1 where k1: "prvAddCurrentTaskToDelayedList n True k = Some k1" "sched k1" "calm k k1"
    using block_sched [OF kernel_okD(1) [OF assms(1)] _ assms(3-5), of True] by blast
  then have "uxSchedulerSuspended k1 = 1"
    using assms(2) by (simp add: calm_def)
  from block_and_yield [OF k1(2) this] k1(1) show ?thesis
    by (auto simp: notify_block_def split: if_splits)
qed

lemma step_notify_noblock:
  assumes "kernel_ok k" "0 < uxSchedulerSuspended k"
  shows "\<exists>k'. notify_block False n k = Some k' \<and> kernel_ok k'"
  using step_resume_all [OF assms] by (auto simp: notify_block_def)

lemma step_take_exit:
  assumes "kernel_ok k"
  shows "\<exists>v k'. notify_take_exit c k = Some (v, k') \<and> kernel_ok k'"
proof -
  obtain b where b: "tcbs k (pxCurrentTCB k) = Some b"
    using kernel_okD(4) [OF assms] by blast
  have "kernel_ok (k\<lparr>tcbs := (tcbs k)(pxCurrentTCB k := Some ((if ulNotifiedValue b \<noteq> 0
      then b\<lparr>ulNotifiedValue := (if c then 0 else ulNotifiedValue b - 1)\<rparr> else b)\<lparr>ucNotifyState := NotWaiting\<rparr>))\<rparr>)"
    by (rule kernel_ok_tcb [OF assms b]) simp_all
  then show ?thesis
    using b by (simp add: notify_take_exit_def upd_tcb_eq [OF b] Let_def split del: if_split)
qed

lemma step_wait_exit:
  assumes "kernel_ok k"
  shows "\<exists>y v k'. notify_wait_exit c k = Some (y, v, k') \<and> kernel_ok k'"
proof -
  obtain b where b: "tcbs k (pxCurrentTCB k) = Some b"
    using kernel_okD(4) [OF assms] by blast
  have "kernel_ok (k\<lparr>tcbs := (tcbs k)(pxCurrentTCB k := Some ((if ucNotifyState b = Received
      then b\<lparr>ulNotifiedValue := ulNotifiedValue b AND NOT c\<rparr> else b)\<lparr>ucNotifyState := NotWaiting\<rparr>))\<rparr>)"
    by (rule kernel_ok_tcb [OF assms b]) simp_all
  then show ?thesis
    using b by (simp add: notify_wait_exit_def upd_tcb_eq [OF b] Let_def split del: if_split)
qed

subsection \<open>Creating a task\<close>

lemma kinv_no_items:
  assumes "kinv U P m k" "tcbs k t = None"
  shows "container (klists k) (StateItem t) = None" "container (klists k) (EventItem t) = None"
  using slot_live typed_slot [OF kinv_parts(2) [OF assms(1)]] container_items [OF assms(1)] assms(2)
  by (metis not_None_eq owner.simps)+

lemma initialise_task_ok:
  assumes "kinv {} {} m k" "tcbs k t = None" "t \<noteq> 0" "p < configMAX_PRIORITIES"
  obtains b k1 where "prvInitialiseNewTask p t stack k = Some k1" "kinv {t} {} m k1" "tcbs k1 = (tcbs k)(t := Some b)"
    "uxPriority b = p" "ucNotifyState b = NotWaiting" "calm k k1" "same_clock k k1" "pendsv k1 = pendsv k"
    "container (klists k1) = container (klists k)"
proof -
  note K = kinv_parts [OF assms(1)]
  note N = kinv_no_items [OF assms(1,2)]
  define b where "b = \<lparr>uxPriority = p, uxBasePriority = p, uxMutexesHeld = 0, uxTCBNumber = 0, pxStack = stack,
                 ulRunTimeCounter = 0, ulNotifiedValue = 0, ucNotifyState = NotWaiting, ucDelayAborted = False\<rparr>"
  define T where "T = set_value (EventItem t) (sub32 configMAX_PRIORITIES p) (set_value (StateItem t) 0
    (init_item (EventItem t) (init_item (StateItem t) (klists k))))"
  let ?k = "k\<lparr>tcbs := (tcbs k)(t := Some b), klists := T\<rparr>"
  have T: "items T = items (klists k)" "container T = container (klists k)" "walk T = walk (klists k)"
    "item_value T = (item_value (klists k))(StateItem t := 0, EventItem t := sub32 configMAX_PRIORITIES p)"
    using N by (auto simp: T_def init_item_def)
  have fresh: "StateItem t \<notin> set (items (klists k) l)" "EventItem t \<notin> set (items (klists k) l)" for l
    using lists_ok_free [OF K(1) N(1)] lists_ok_free [OF K(1) N(2)] .
  have same: "i \<in> set (items (klists k) l) \<Longrightarrow> item_value T i = item_value (klists k) i" for i l
    using fresh [of l] by (auto simp: T(4))
  then have sm: "map (item_value T) (items (klists k) l) = map (item_value (klists k)) (items (klists k) l)" for l
    by simp
  have "lists_ok T"
    using K(1) by (simp add: lists_ok_def T)
  moreover have "typed ((tcbs k)(t := Some b)) T"
  proof -
    have "slot_ok ((tcbs k)(t := Some b)) l i" if "i \<in> set (items (klists k) l)" for l i
      using typed_slot [OF K(2) that] fresh [of l] that assms(2) by (cases l; cases i) auto
    then show ?thesis
      by (simp add: typed_def T)
  qed
  moreover have "placed {t} ((tcbs k)(t := Some b)) T"
    using K(3) N by (auto simp: placed_def T)
  moreover have "priorities_ok ((tcbs k)(t := Some b))"
    using K(4) assms(3,4) by (auto simp: priorities_ok_def b_def)
  moreover have "bits_ok {} T (uxTopReadyPriority k)"
    using K(5) by (simp add: bits_ok_def T)
  moreover have "delays_ok m T (pxDelayedTaskList k) (pxOverflowDelayedTaskList k) (xNextTaskUnblockTime k)"
    using K(6) unfolding delays_ok_def T(1) sm by (metis same)
  ultimately have "kinv {t} {} m ?k"
    by (simp add: kinv_def)
  moreover have "prvInitialiseNewTask p t stack k = Some ?k"
    using assms(4) by (simp add: prvInitialiseNewTask_def Let_def b_def T_def)
  ultimately show ?thesis
    by (intro that [of ?k b]) (simp_all add: b_def calm_def same_clock_def T)
qed

lemma step_new_task:
  assumes "kernel_ok k" "tcbs k t = None" "t \<noteq> 0" "p < configMAX_PRIORITIES" "uxCurrentNumberOfTasks k + 1 < u32_bound"
  shows "\<exists>k1 k'. prvInitialiseNewTask p t stack k = Some k1 \<and> prvAddNewTaskToReadyList t k1 = Some k' \<and> kernel_ok k' \<and>
    keeps_ready k k' \<and> pxCurrentTCB k' = pxCurrentTCB k \<and> uxSchedulerSuspended k' = uxSchedulerSuspended k"
proof -
  note O = kernel_okD [OF assms(1)]
  obtain b k1 where k1: "prvInitialiseNewTask p t stack k = Some k1" "kinv {t} {} (Suc (xTickCount k)) k1" "tcbs k1 = (tcbs k)(t := Some b)"
    "uxPriority b = p" "ucNotifyState b = NotWaiting" "calm k k1" "same_clock k k1" "pendsv k1 = pendsv k"
    "container (klists k1) = container (klists k)"
    by (rule initialise_task_ok [OF O(2) assms(2-4)])
  have cur0: "pxCurrentTCB k \<noteq> 0"
    using O(4) live_not_null [OF assms(1)] by auto
  have cur: "pxCurrentTCB k1 \<noteq> 0" "pxCurrentTCB k1 = pxCurrentTCB k" "xSchedulerRunning k1"
    using k1(6) O(7) cur0 by (simp_all add: calm_def)
  define n where "n = uxCurrentNumberOfTasks k + 1"
  define k2 where "k2 = k1\<lparr>uxCurrentNumberOfTasks := n, uxTaskNumber := add32 (uxTaskNumber k1) 1\<rparr>"
  define b' where "b' = b\<lparr>uxTCBNumber := uxTaskNumber k2\<rparr>"
  define k3 where "k3 = k2\<lparr>tcbs := (tcbs k2)(t := Some b')\<rparr>"
  have n: "add32 (uxCurrentNumberOfTasks k1) 1 = n"
    using k1(6) assms(5) by (simp add: n_def calm_def add32_exact)
  have b2: "tcbs k2 t = Some b"
    by (simp add: k2_def k1(3))
  have inv2: "kinv {t} {} (Suc (xTickCount k)) k2"
    using k1(2) by (simp add: k2_def kinv_def)
  have inv3: "kinv (insert t {}) {} (Suc (xTickCount k)) k3"
    unfolding k3_def by (rule kinv_tcb_fields [OF inv2 b2]) (simp_all add: b'_def)
  have b3: "tcbs k3 t = Some b'"
    by (simp add: k3_def)
  obtain k4 where k4: "prvAddTaskToReadyList t k3 = Some k4"
    "k4 = k3\<lparr>klists := insert_end (Ready (uxPriority b')) (StateItem t) (klists k3),
            uxTopReadyPriority := portRECORD_READY_PRIORITY (uxPriority b') (uxTopReadyPriority k3)\<rparr>"
    "kinv {} ({} - {uxPriority b'}) (Suc (xTickCount k)) k4"
    using kinv_add_ready [OF inv3 b3] by auto
  have run: "prvAddNewTaskToReadyList t k1 = taskYIELD_ANY_CORE_IF_USING_PREEMPTION t k4"
    using cur k4(1) b2 n
    by (simp add: prvAddNewTaskToReadyList_def Let_def k3_def b'_def k2_def upd_tcb_def calm_def k4(2)
        prvAddTaskToReadyList_def list_insert_end_def lists_bitmap_commute split: if_splits)
  have N: "container (klists k) (StateItem t) = None" "container (klists k) (EventItem t) = None"
    using kinv_no_items [OF O(2) assms(2)] .
  have c4: "container (klists k4) = (container (klists k))(StateItem t := Some (Ready (uxPriority b')))"
    by (simp add: k4(2) k3_def k2_def k1(9))
  have t4: "tcbs k4 = (tcbs k)(t := Some b')"
    by (simp add: k4(2) k3_def k2_def k1(3))
  have f4: "pxCurrentTCB k4 = pxCurrentTCB k" "uxSchedulerSuspended k4 = uxSchedulerSuspended k" "xPendedTicks k4 = xPendedTicks k"
    "xIdleTaskHandle k4 = xIdleTaskHandle k" "xSchedulerRunning k4" "xTickCount k4 = xTickCount k" "pendsv k4 = pendsv k"
    "uxCurrentNumberOfTasks k4 = n"
    using k1(6-8) O(7) by (simp_all add: k4(2) k3_def k2_def calm_def same_clock_def)
  have r4: "is_ready k u \<Longrightarrow> is_ready k4 u" for u
    by (auto simp: is_ready_def c4)
  have "events_ok k4"
    using O(6) N k1(5) by (auto simp: events_ok_def c4 t4 b'_def is_ready_def)
  moreover have "finite (dom (tcbs k))" "uxCurrentNumberOfTasks k = card (dom (tcbs k))"
    using O(1) by (simp_all add: sched_def)
  then have "finite (dom (tcbs k4))" "n = card (dom (tcbs k4))"
    using assms(2) by (simp_all add: t4 n_def domIff)
  moreover have "tcbs k4 (pxCurrentTCB k4) \<noteq> None"
    using O(4) by (auto simp: t4 f4)
  moreover have inv4: "kinv {} {} (Suc (xTickCount k4)) k4"
    using k4(3) f4(6) by simp
  ultimately have "sched k4"
    using O(3,5) r4 f4 by (simp add: sched_def)
  moreover have "items (klists k) PendingReady = [] \<longrightarrow> items (klists k4) PendingReady = []"
    unfolding pending_nil_iff [OF O(2)] pending_nil_iff [OF inv4] by (simp add: c4)
  ultimately have "kernel_ok k4"
    using assms(1) r4 f4 by (auto simp: kernel_ok_def)
  moreover have "tcbs k4 t \<noteq> None"
    by (simp add: t4)
  ultimately obtain k' where k': "taskYIELD_ANY_CORE_IF_USING_PREEMPTION t k4 = Some k'" "kernel_ok k'"
    "k' = k4 \<or> k' = portYIELD_WITHIN_API k4"
    using yield_if_higher_cases [of k4 t] by blast
  have "keeps_ready k k'" "pxCurrentTCB k' = pxCurrentTCB k" "uxSchedulerSuspended k' = uxSchedulerSuspended k"
    using k'(3) r4 f4 by (auto simp: keeps_ready_def portYIELD_WITHIN_API_def)
  then show ?thesis
    using k'(1,2) run k1(1) by simp
qed

end
