(* ===== verification/TaskHistory.thy ===== *)
theory TaskHistory
  imports TaskWait
begin

text \<open>
  Histories of the running kernel: \<open>kop\<close> lists the calls of tasks and interrupts, \<open>enabled\<close> the
  conditions under which the kernel allows them, \<open>kexec\<close> runs a call and \<open>kreach\<close> is what a
  kernel can get to. Every reachable state is \<open>kernel_ok\<close>, and no enabled call fails.
\<close>

section \<open>Histories\<close>

datatype kop =
    SysTick | PendSV nat | Yield | SuspendAll | ResumeAll | Delay nat | DelayUntil nat nat | CatchUpTicks nat
  | SuspendTask tid nat | ResumeTask tid | ResumeTaskFromISR tid | AbortDelay tid
  | PrioritySet tid nat | PriorityInherit tid | PriorityDisinherit | MutexTaken
  | WaitOnEvent nat nat | EventOccurs nat
  | Notify tid "32 word" eNotifyAction | NotifyFromISR tid "32 word" eNotifyAction | GiveFromISR tid
  | TakeCheck nat | WaitCheck "32 word" nat | NotifyBlock nat | NotifyNoBlock | TakeExit bool | WaitExit "32 word"
  | NotifyStateClear tid | NotifyValueClear tid "32 word"
  | NewTask tid addr nat

fun kexec :: "kop \<Rightarrow> kernel \<Rightarrow> kernel option" where
  "kexec SysTick k = xPortSysTickHandler k"
| "kexec (PendSV now) k = xPortPendSVHandler now k"
| "kexec Yield k = Some (portYIELD_WITHIN_API k)"
| "kexec SuspendAll k = Some (vTaskSuspendAll k)"
| "kexec ResumeAll k = map_option snd (xTaskResumeAll k)"
| "kexec (Delay n) k = vTaskDelay n k"
| "kexec (DelayUntil prev inc) k = map_option (\<lambda>(_, _, k). k) (xTaskDelayUntil prev inc k)"
| "kexec (CatchUpTicks n) k = map_option snd (xTaskCatchUpTicks n k)"
| "kexec (SuspendTask t now) k = vTaskSuspend t now k"
| "kexec (ResumeTask t) k = vTaskResume t k"
| "kexec (ResumeTaskFromISR t) k = map_option snd (xTaskResumeFromISR t k)"
| "kexec (AbortDelay t) k = map_option snd (xTaskAbortDelay t k)"
| "kexec (PrioritySet t p) k = vTaskPrioritySet t p k"
| "kexec (PriorityInherit t) k = map_option snd (xTaskPriorityInherit t k)"
| "kexec PriorityDisinherit k = map_option snd (xTaskPriorityDisinherit (pxCurrentTCB k) k)"
| "kexec MutexTaken k = map_option snd (pvTaskIncrementMutexHeldCount k)"
| "kexec (WaitOnEvent e n) k = wait_on_event (EventList e) n k"
| "kexec (EventOccurs e) k = map_option snd (xTaskRemoveFromEventList (EventList e) k)"
| "kexec (Notify t v a) k = map_option (\<lambda>(_, _, k). k) (xTaskGenericNotify t 0 v a k)"
| "kexec (NotifyFromISR t v a) k = map_option (\<lambda>(_, _, _, k). k) (xTaskGenericNotifyFromISR t 0 v a k)"
| "kexec (GiveFromISR t) k = map_option snd (vTaskGenericNotifyGiveFromISR t 0 k)"
| "kexec (TakeCheck n) k = map_option snd (notify_take_check 0 n k)"
| "kexec (WaitCheck v n) k = map_option snd (notify_wait_check 0 v n k)"
| "kexec (NotifyBlock n) k = notify_block True n k"
| "kexec NotifyNoBlock k = notify_block False 0 k"
| "kexec (TakeExit c) k = map_option snd (notify_take_exit c k)"
| "kexec (WaitExit v) k = map_option (\<lambda>(_, _, k). k) (notify_wait_exit v k)"
| "kexec (NotifyStateClear t) k = map_option snd (xTaskGenericNotifyStateClear t 0 k)"
| "kexec (NotifyValueClear t v) k = map_option snd (ulTaskGenericNotifyValueClear t 0 v k)"
| "kexec (NewTask t stack p) k = Option.bind (prvInitialiseNewTask p t stack k) (prvAddNewTaskToReadyList t)"

text \<open>
  When a call may be made. \<open>runs\<close>: the running task is ready, so it can be the caller; \<open>may_block\<close>:
  it is not the idle task and the scheduler is not suspended.
\<close>

abbreviation runs :: "kernel \<Rightarrow> bool" where
  "runs k \<equiv> is_ready k (pxCurrentTCB k)"

abbreviation may_block :: "kernel \<Rightarrow> bool" where
  "may_block k \<equiv> runs k \<and> uxSchedulerSuspended k = 0 \<and> pxCurrentTCB k \<noteq> xIdleTaskHandle k"

abbreviation live_task :: "tid \<Rightarrow> kernel \<Rightarrow> bool" where
  "live_task t k \<equiv> tcbs k t \<noteq> None"

fun enabled :: "kop \<Rightarrow> kernel \<Rightarrow> bool" where
  "enabled SysTick k \<longleftrightarrow> True"
| "enabled (PendSV now) k \<longleftrightarrow> pendsv k"
| "enabled Yield k \<longleftrightarrow> runs k"
| "enabled SuspendAll k \<longleftrightarrow> runs k \<and> uxSchedulerSuspended k + 1 < u32_bound"
| "enabled ResumeAll k \<longleftrightarrow> runs k \<and> 0 < uxSchedulerSuspended k"
| "enabled (Delay n) k \<longleftrightarrow> may_block k \<and> n < u32_bound"
| "enabled (DelayUntil prev inc) k \<longleftrightarrow> may_block k \<and> 0 < inc \<and> prev < u32_bound"
| "enabled (CatchUpTicks n) k \<longleftrightarrow> runs k \<and> uxSchedulerSuspended k = 0"
| "enabled (SuspendTask t now) k \<longleftrightarrow> runs k \<and> live_task (handle t k) k \<and> handle t k \<noteq> xIdleTaskHandle k \<and>
     (handle t k = pxCurrentTCB k \<longrightarrow> uxSchedulerSuspended k = 0)"
| "enabled (ResumeTask t) k \<longleftrightarrow> runs k \<and> live_task t k"
| "enabled (ResumeTaskFromISR t) k \<longleftrightarrow> live_task t k"
| "enabled (AbortDelay t) k \<longleftrightarrow> runs k \<and> live_task t k \<and> uxSchedulerSuspended k + 1 < u32_bound"
| "enabled (PrioritySet t p) k \<longleftrightarrow> runs k \<and> live_task (handle t k) k \<and> p < configMAX_PRIORITIES"
| "enabled (PriorityInherit t) k \<longleftrightarrow> runs k \<and> (t \<noteq> 0 \<longrightarrow> live_task t k)"
| "enabled PriorityDisinherit k \<longleftrightarrow> runs k \<and> (case tcbs k (pxCurrentTCB k) of None \<Rightarrow> False | Some b \<Rightarrow> 0 < uxMutexesHeld b)"
| "enabled MutexTaken k \<longleftrightarrow> runs k"
| "enabled (WaitOnEvent e n) k \<longleftrightarrow> may_block k \<and> 0 < n \<and> n < u32_bound \<and>
     (case tcbs k (pxCurrentTCB k) of None \<Rightarrow> False | Some b \<Rightarrow> ucNotifyState b \<noteq> Waiting)"
| "enabled (EventOccurs e) k \<longleftrightarrow> items (klists k) (EventList e) \<noteq> []"
| "enabled (Notify t v a) k \<longleftrightarrow> runs k \<and> live_task t k"
| "enabled (NotifyFromISR t v a) k \<longleftrightarrow> live_task t k"
| "enabled (GiveFromISR t) k \<longleftrightarrow> live_task t k"
| "enabled (TakeCheck n) k \<longleftrightarrow> runs k \<and> uxSchedulerSuspended k = 0"
| "enabled (WaitCheck v n) k \<longleftrightarrow> runs k \<and> uxSchedulerSuspended k = 0"
| "enabled (NotifyBlock n) k \<longleftrightarrow> runs k \<and> uxSchedulerSuspended k = 1 \<and> pxCurrentTCB k \<noteq> xIdleTaskHandle k \<and> 0 < n \<and> n < u32_bound"
| "enabled NotifyNoBlock k \<longleftrightarrow> runs k \<and> 0 < uxSchedulerSuspended k"
| "enabled (TakeExit c) k \<longleftrightarrow> runs k"
| "enabled (WaitExit v) k \<longleftrightarrow> runs k"
| "enabled (NotifyStateClear t) k \<longleftrightarrow> live_task (handle t k) k"
| "enabled (NotifyValueClear t v) k \<longleftrightarrow> live_task (handle t k) k"
| "enabled (NewTask t stack p) k \<longleftrightarrow> runs k \<and> t \<noteq> 0 \<and> \<not> live_task t k \<and> p < configMAX_PRIORITIES \<and>
     uxCurrentNumberOfTasks k + 1 < u32_bound"

lemma step_catch_up:
  assumes "kernel_ok k" "runs k" "uxSchedulerSuspended k = 0"
  shows "\<exists>y k'. xTaskCatchUpTicks n k = Some (y, k') \<and> kernel_ok k'"
proof -
  let ?k = "(vTaskSuspendAll k)\<lparr>xPendedTicks := add32 (xPendedTicks (vTaskSuspendAll k)) n\<rparr>"
  have s: "kernel_ok (vTaskSuspendAll k)" "uxSchedulerSuspended ?k = 1"
    using step_suspend_all [OF assms(1,2)] assms(3) by (simp_all add: vTaskSuspendAll_def u32_bound_def add32_def)
  then have "kernel_ok ?k"
    by (simp add: kernel_ok_def)
  from step_resume_all [OF this] s(2) assms(3) show ?thesis
    by (simp add: xTaskCatchUpTicks_def Let_def)
qed

lemma step_state_clear:
  assumes "kernel_ok k" "live_task (handle t k) k"
  shows "\<exists>y k'. xTaskGenericNotifyStateClear t 0 k = Some (y, k') \<and> kernel_ok k'"
proof -
  obtain b where b: "tcbs k (handle t k) = Some b"
    using assms(2) by blast
  have "kernel_ok (k\<lparr>tcbs := (tcbs k)(handle t k := Some (b\<lparr>ucNotifyState := NotWaiting\<rparr>))\<rparr>)"
    by (rule kernel_ok_tcb [OF assms(1) b]) simp_all
  then show ?thesis
    using b assms(1) upd_tcb_eq [OF b]
    by (auto simp: xTaskGenericNotifyStateClear_def configTASK_NOTIFICATION_ARRAY_ENTRIES_def)
qed

lemma step_value_clear:
  assumes "kernel_ok k" "live_task (handle t k) k"
  shows "\<exists>w k'. ulTaskGenericNotifyValueClear t 0 v k = Some (w, k') \<and> kernel_ok k'"
proof -
  obtain b where b: "tcbs k (handle t k) = Some b"
    using assms(2) by blast
  have "kernel_ok (k\<lparr>tcbs := (tcbs k)(handle t k := Some (b\<lparr>ulNotifiedValue := ulNotifiedValue b AND NOT v\<rparr>))\<rparr>)"
    by (rule kernel_ok_tcb [OF assms(1) b]) (use waiting_no_event [OF assms(1) b] in simp_all)
  then show ?thesis
    using b assms(1) upd_tcb_eq [OF b]
    by (auto simp: ulTaskGenericNotifyValueClear_def configTASK_NOTIFICATION_ARRAY_ENTRIES_def)
qed

lemma step_mutex_taken:
  assumes "kernel_ok k"
  shows "\<exists>t k'. pvTaskIncrementMutexHeldCount k = Some (t, k') \<and> kernel_ok k'"
proof -
  obtain b where b: "tcbs k (pxCurrentTCB k) = Some b"
    using kernel_okD(4) [OF assms] by blast
  have "kernel_ok (k\<lparr>tcbs := (tcbs k)(pxCurrentTCB k := Some (b\<lparr>uxMutexesHeld := add32 (uxMutexesHeld b) 1\<rparr>))\<rparr>)"
    by (rule kernel_ok_tcb [OF assms b]) (use waiting_no_event [OF assms b] in simp_all)
  moreover have "pxCurrentTCB k \<noteq> 0"
    using live_not_null [OF assms] b by simp
  ultimately show ?thesis
    using upd_tcb_eq [OF b] by (simp add: pvTaskIncrementMutexHeldCount_def Let_def)
qed

lemma kexec_ok:
  assumes "kernel_ok k" "enabled a k"
  shows "\<exists>k'. kexec a k = Some k' \<and> kernel_ok k'"
proof (cases a)
  case SysTick
  with step_tick [OF assms(1)] show ?thesis by simp
next
  case (PendSV now)
  with step_pendsv [OF assms(1)] show ?thesis by simp
next
  case Yield
  with kernel_ok_flags(3) [OF assms(1)] show ?thesis by simp
next
  case SuspendAll
  with step_suspend_all [OF assms(1)] assms(2) show ?thesis by simp
next
  case ResumeAll
  with step_resume_all [OF assms(1)] assms(2) show ?thesis by auto
next
  case (Delay n)
  with step_delay [OF assms(1)] assms(2) show ?thesis by auto
next
  case (DelayUntil prev inc)
  with step_delay_until [OF assms(1), of inc prev] assms(2) show ?thesis by auto
next
  case (CatchUpTicks n)
  with step_catch_up [OF assms(1)] assms(2) show ?thesis by (auto, metis option.map(2) snd_conv)
next
  case (SuspendTask t now)
  with step_suspend [OF assms(1), of t now] assms(2) show ?thesis by auto
next
  case (ResumeTask t)
  with step_resume [OF assms(1), of t] live_not_null [OF assms(1)] assms(2) show ?thesis by auto
next
  case (ResumeTaskFromISR t)
  with step_resume_isr [OF assms(1), of t] live_not_null [OF assms(1)] assms(2) show ?thesis by auto
next
  case (AbortDelay t)
  with step_abort_delay [OF assms(1), of t] live_not_null [OF assms(1)] assms(2) show ?thesis by auto
next
  case (PrioritySet t p)
  with step_priority_set [OF assms(1), of t p] assms(2) show ?thesis by auto
next
  case (PriorityInherit t)
  with step_inherit [OF assms(1), of t] assms(2) show ?thesis by auto
next
  case PriorityDisinherit
  with step_disinherit [OF assms(1)] assms(2) show ?thesis by (auto split: option.splits)
next
  case MutexTaken
  with step_mutex_taken [OF assms(1)] show ?thesis by auto
next
  case (WaitOnEvent e n)
  with step_wait_on_event [OF assms(1), of n _ e] assms(2) show ?thesis by (auto split: option.splits)
next
  case (EventOccurs e)
  with step_remove_from_event_list [OF assms(1), of e] assms(2) show ?thesis by auto
next
  case (Notify t v x)
  with step_notify [OF assms(1), of t v x] live_not_null [OF assms(1), of t] assms(2) show ?thesis by auto
next
  case (NotifyFromISR t v x)
  with step_notify_from_isr [OF assms(1), of t v x] live_not_null [OF assms(1), of t] assms(2) show ?thesis by auto
next
  case (GiveFromISR t)
  with step_give_from_isr [OF assms(1), of t] live_not_null [OF assms(1), of t] assms(2) show ?thesis by auto
next
  case (TakeCheck n)
  with step_take_check [OF assms(1), of n] assms(2) show ?thesis by auto
next
  case (WaitCheck v n)
  with step_wait_check [OF assms(1), of v n] assms(2) show ?thesis by auto
next
  case (NotifyBlock n)
  with step_notify_block [OF assms(1), of n] assms(2) show ?thesis by auto
next
  case NotifyNoBlock
  with step_notify_noblock [OF assms(1), of 0] assms(2) show ?thesis by auto
next
  case (TakeExit c)
  with step_take_exit [OF assms(1), of c] show ?thesis by auto
next
  case (WaitExit v)
  with step_wait_exit [OF assms(1), of v] show ?thesis by auto
next
  case (NotifyStateClear t)
  with step_state_clear [OF assms(1), of t] assms(2) show ?thesis by auto
next
  case (NotifyValueClear t v)
  with step_value_clear [OF assms(1), of t v] assms(2) show ?thesis by auto
next
  case (NewTask t stack p)
  with step_new_task [OF assms(1), of t p stack] assms(2) show ?thesis by auto
qed

text \<open>The states a running kernel can get into, whatever tasks and interrupts call.\<close>

inductive kreach :: "kernel \<Rightarrow> kernel \<Rightarrow> bool" for k0 where
  start: "kreach k0 k0"
| step: "kreach k0 k \<Longrightarrow> enabled a k \<Longrightarrow> kexec a k = Some k' \<Longrightarrow> kreach k0 k'"

inductive_cases kreach_stepE: "kreach k0 k"

lemma kreach_ok: "kreach k0 k \<Longrightarrow> kernel_ok k0 \<Longrightarrow> kernel_ok k"
proof (induction rule: kreach.induct)
  case (step k a k')
  then show ?case
    using kexec_ok [of k a] by auto
qed simp

end
