(* ===== verification/TaskTime.thy ===== *)
theory TaskTime
  imports TaskHistory
begin

text \<open>
  How long things take: runs of interrupts, the exact length of a delay, time-outs against an
  unbounded clock, and notifications that arrive between the check and the block of a waiting task.
\<close>

section \<open>Runs\<close>

fun kexec_all :: "kop list \<Rightarrow> kernel \<Rightarrow> kernel option" where
  "kexec_all [] k = Some k"
| "kexec_all (a # as) k = Option.bind (kexec a k) (kexec_all as)"

lemma kexec_all_append: "kexec_all (as @ bs) k = Option.bind (kexec_all as k) (kexec_all bs)"
  by (induction as arbitrary: k) (simp_all split: bind_split)

text \<open>The interrupts that drive the scheduler by themselves, and how many ticks are among them.\<close>

fun is_clock :: "kop \<Rightarrow> bool" where
  "is_clock SysTick = True"
| "is_clock (PendSV now) = True"
| "is_clock _ = False"

definition tick_count :: "kop list \<Rightarrow> nat" where
  "tick_count ops = length (filter (\<lambda>a. a = SysTick) ops)"

lemma tick_count_simps [simp]:
  "tick_count [] = 0" "tick_count (SysTick # ops) = Suc (tick_count ops)" "tick_count (PendSV now # ops) = tick_count ops"
  by (simp_all add: tick_count_def)

section \<open>Delays\<close>

text \<open>What the clock interrupts do to a task that is ready or has a wake time.\<close>

definition due :: "kernel \<Rightarrow> tid \<Rightarrow> nat \<Rightarrow> bool" where
  "due k t r \<longleftrightarrow> (if r = 0 then is_ready k t else remaining k t = Some r)"

lemma remaining_not_ready: "kinv U P m k \<Longrightarrow> remaining k t = Some r \<Longrightarrow> \<not> is_ready k t"
  using delayed_lists [of U P m k] by (auto simp: remaining_def is_ready_def split: if_splits)

lemma due_ready: "kernel_ok k \<Longrightarrow> due k t r \<Longrightarrow> is_ready k t \<longleftrightarrow> r = 0"
  using remaining_not_ready [OF kernel_okD(2), of k t r] by (cases "r = 0") (auto simp: due_def)

lemma due_cong: "is_ready k' t = is_ready k t \<Longrightarrow> remaining k' t = remaining k t \<Longrightarrow> due k' t r = due k t r"
  by (simp add: due_def)

lemma remaining_fields [simp]:
  "remaining (k\<lparr>pendsv := b\<rparr>) t = remaining k t" "remaining (k\<lparr>uxSchedulerSuspended := n\<rparr>) t = remaining k t"
  by (simp_all add: remaining_def)

lemma due_pendsv [simp]: "due (k\<lparr>pendsv := b\<rparr>) t r = due k t r"
  by (rule due_cong) (simp_all add: is_ready_def remaining_def)

lemma tick_due:
  assumes "kernel_ok k" "uxSchedulerSuspended k = 0" "tcbs k t \<noteq> None" "due k t r"
  shows "\<exists>k'. xPortSysTickHandler k = Some k' \<and> kernel_ok k' \<and> uxSchedulerSuspended k' = 0 \<and> tcbs k' = tcbs k \<and>
    due k' t (r - 1) \<and> xTickCount k' = add32 (xTickCount k) 1 \<and>
    xNumOfOverflows k' = (if xTickCount k' = 0 then add32 (xNumOfOverflows k) 1 else xNumOfOverflows k)"
proof -
  note O = kernel_okD [OF assms(1)]
  obtain c where c: "tcbs k (pxCurrentTCB k) = Some c"
    using O(4) by blast
  obtain sw k1 where T: "xTaskIncrementTick k = Some (sw, k1)" "stable k k1"
    "\<And>u. container (klists k1) (StateItem u) =
       (if tick_ready k u then map_option (\<lambda>b. Ready (uxPriority b)) (tcbs k u) else container (klists k) (StateItem u))"
    "\<And>u r. remaining k u = Some (Suc r) \<Longrightarrow> r > 0 \<Longrightarrow> remaining k1 u = Some r"
    "xTickCount k1 = add32 (xTickCount k) 1"
    "xNumOfOverflows k1 = (if xTickCount k1 = 0 then add32 (xNumOfOverflows k) 1 else xNumOfOverflows k)"
    using tick_ok [OF O(2,3) c assms(2)] by blast
  have ok: "kernel_ok (if sw then k1\<lparr>pendsv := True\<rparr> else k1)"
    using step_tick [OF assms(1)] T(1) by (simp add: xPortSysTickHandler_def)
  have "due k1 t (r - 1)"
  proof (cases "r \<le> 1")
    case True
    have "is_ready k1 t"
    proof (cases "tick_ready k t")
      case True
      then show ?thesis
        using T(3) [of t] assms(3) by (auto simp: is_ready_def)
    next
      case False
      then have "r = 0"
        using assms(4) \<open>r \<le> 1\<close> by (cases r) (auto simp: due_def tick_ready_def)
      then show ?thesis
        using T(3) [of t] assms(4) False by (auto simp: is_ready_def due_def)
    qed
    with True show ?thesis by (simp add: due_def)
  next
    case False
    then obtain r' where r: "r = Suc r'" "0 < r'"
      by (cases r) auto
    then show ?thesis
      using T(4) [of t r'] assms(4) by (simp add: due_def)
  qed
  then have "due (if sw then k1\<lparr>pendsv := True\<rparr> else k1) t (r - 1)"
    by simp
  then show ?thesis
    using ok T(1,2,5,6) assms(2) by (simp add: xPortSysTickHandler_def stable_def)
qed

lemma pendsv_due:
  assumes "kernel_ok k" "uxSchedulerSuspended k = 0" "tcbs k t \<noteq> None" "due k t r"
  shows "\<exists>k'. xPortPendSVHandler now k = Some k' \<and> kernel_ok k' \<and> uxSchedulerSuspended k' = 0 \<and> tcbs k' t \<noteq> None \<and>
    due k' t r \<and> same_clock k k'"
proof -
  note O = kernel_okD [OF assms(1)]
  let ?k = "k\<lparr>pendsv := False\<rparr>"
  obtain c where c: "tcbs ?k (pxCurrentTCB ?k) = Some c"
    using O(4) by auto
  have inv: "kinv {} {} (Suc (xTickCount k)) ?k" "is_ready ?k (xIdleTaskHandle k)" "uxSchedulerSuspended ?k = 0"
    using O(2,5) assms(2) by simp_all
  have "\<exists>k' n. vTaskSwitchContext now ?k = Some k' \<and> same_clock ?k k' \<and> calm ?k (k'\<lparr>pxCurrentTCB := pxCurrentTCB ?k\<rparr>) \<and>
    container (klists k') = container (klists ?k) \<and> item_value (klists k') = item_value (klists ?k) \<and>
    tcbs k' = (tcbs ?k)(pxCurrentTCB ?k := Some (c\<lparr>ulRunTimeCounter := n\<rparr>))"
    by (rule switch_ok [OF inv(1,2) c inv(3), of now]) blast
  then obtain k' n where k': "vTaskSwitchContext now ?k = Some k'" "same_clock ?k k'" "calm ?k (k'\<lparr>pxCurrentTCB := pxCurrentTCB ?k\<rparr>)"
    "container (klists k') = container (klists k)" "item_value (klists k') = item_value (klists k)"
    "tcbs k' = (tcbs k)(pxCurrentTCB k := Some (c\<lparr>ulRunTimeCounter := n\<rparr>))"
    by auto
  have "due k' t r"
    using assms(4) k'(2) due_cong [of k' t k r] by (simp add: is_ready_def remaining_def k'(4,5) same_clock_def)
  then show ?thesis
    using step_pendsv [OF assms(1), of now] k' assms(2,3) by (simp add: xPortPendSVHandler_def calm_def same_clock_def)
qed

lemma clock_run_due:
  assumes "kernel_ok k" "uxSchedulerSuspended k = 0" "tcbs k t \<noteq> None" "due k t r" "list_all is_clock ops"
  shows "\<exists>k'. kexec_all ops k = Some k' \<and> kernel_ok k' \<and> due k' t (r - tick_count ops)"
  using assms
proof (induction ops arbitrary: k r)
  case Nil
  then show ?case by simp
next
  case (Cons a ops)
  have ops: "list_all is_clock ops"
    using Cons.prems(5) by simp
  show ?case
  proof (cases a)
    case SysTick
    obtain k1 where k1: "xPortSysTickHandler k = Some k1" "kernel_ok k1" "uxSchedulerSuspended k1 = 0" "tcbs k1 t \<noteq> None"
      "due k1 t (r - 1)"
      using tick_due [OF Cons.prems(1-4)] Cons.prems(3) by auto
    from Cons.IH [OF k1(2-5) ops] k1(1) SysTick show ?thesis by simp
  next
    case (PendSV now)
    obtain k1 where k1: "xPortPendSVHandler now k = Some k1" "kernel_ok k1" "uxSchedulerSuspended k1 = 0" "tcbs k1 t \<noteq> None"
      "due k1 t r"
      using pendsv_due [OF Cons.prems(1-4), of now] by blast
    from Cons.IH [OF k1(2-5) ops] k1(1) PendSV show ?thesis by simp
  qed (use Cons.prems(5) in simp_all)
qed

text \<open>Resuming the scheduler when nothing was held back.\<close>

lemma resume_all_idle:
  assumes "uxSchedulerSuspended k = 1" "items (klists k) PendingReady = []" "xPendedTicks k = 0" "0 < uxCurrentNumberOfTasks k"
  shows "xTaskResumeAll k = Some (xYieldPending k, if xYieldPending k then (k\<lparr>uxSchedulerSuspended := 0\<rparr>)\<lparr>pendsv := True\<rparr>
    else k\<lparr>uxSchedulerSuspended := 0\<rparr>)"
  using assms by (simp add: xTaskResumeAll_def resume_pending.simps portYIELD_WITHIN_API_def)

lemma delay_remaining:
  assumes "kernel_ok k" "may_block k" "0 < n" "n < u32_bound"
  shows "\<exists>k'. vTaskDelay n k = Some k' \<and> kernel_ok k' \<and> uxSchedulerSuspended k' = 0 \<and> tcbs k' (pxCurrentTCB k) \<noteq> None \<and>
    due k' (pxCurrentTCB k) n \<and> pendsv k'"
proof -
  note O = kernel_okD [OF assms(1)]
  let ?k = "vTaskSuspendAll k" and ?t = "pxCurrentTCB k"
  have s: "?k = k\<lparr>uxSchedulerSuspended := 1\<rparr>"
    using assms(2) by (simp add: vTaskSuspendAll_def add32_exact u32_bound_def)
  obtain b where b: "tcbs ?k (pxCurrentTCB ?k) = Some b"
    using O(4) by (auto simp: s)
  have pre: "kinv {} {} (Suc (xTickCount ?k)) ?k" "xTickCount ?k < u32_bound" "is_ready ?k (pxCurrentTCB ?k)"
    using O(2,3) assms(2) by (simp_all add: s)
  have "\<exists>k1. prvAddCurrentTaskToDelayedList n False ?k = Some k1 \<and> kinv {} {} (Suc (xTickCount k1)) k1 \<and> calm ?k k1 \<and>
    tcbs k1 = (tcbs ?k)(pxCurrentTCB ?k := Some (b\<lparr>ucDelayAborted := False\<rparr>)) \<and>
    (\<forall>i. i \<noteq> StateItem (pxCurrentTCB ?k) \<longrightarrow> container (klists k1) i = container (klists ?k) i) \<and>
    remaining k1 (pxCurrentTCB ?k) = Some n"
    by (rule add_current_ok [OF pre(1,2) b pre(3) assms(3,4), of False]) auto
  then obtain k1 where k1: "prvAddCurrentTaskToDelayedList n False ?k = Some k1" "kinv {} {} (Suc (xTickCount k1)) k1" "calm ?k k1"
    "tcbs k1 = (tcbs ?k)(pxCurrentTCB ?k := Some (b\<lparr>ucDelayAborted := False\<rparr>))"
    "\<And>i. i \<noteq> StateItem (pxCurrentTCB ?k) \<Longrightarrow> container (klists k1) i = container (klists ?k) i"
    "remaining k1 (pxCurrentTCB ?k) = Some n"
    by auto
  have idle: "uxSchedulerSuspended k1 = 1" "items (klists k1) PendingReady = []" "xPendedTicks k1 = 0" "0 < uxCurrentNumberOfTasks k1"
  proof -
    show "uxSchedulerSuspended k1 = 1" "xPendedTicks k1 = 0" "0 < uxCurrentNumberOfTasks k1"
      using k1(3) assms(1,2) schedD(5) [OF O(1)] by (simp_all add: calm_def s kernel_ok_def)
    have "\<forall>u. container (klists k) (EventItem u) \<noteq> Some PendingReady"
      using O(8) assms(2) pending_nil_iff [OF O(2)] by simp
    then show "items (klists k1) PendingReady = []"
      unfolding pending_nil_iff [OF k1(2)] using k1(5) by (simp add: s)
  qed
  define k2 where "k2 = (k1\<lparr>uxSchedulerSuspended := 0\<rparr>)\<lparr>pendsv := True\<rparr>"
  have "vTaskDelay n k = Some k2"
    using resume_all_idle [OF idle] k1(1) assms(3) by (simp add: vTaskDelay_def s k2_def portYIELD_WITHIN_API_def)
  moreover have "kernel_ok k2"
    using step_delay [OF assms(1) _ _ _ assms(4)] assms(2) calculation by auto
  ultimately show ?thesis
    using k1(4,6) assms(3) by (simp add: k2_def due_def s)
qed
section \<open>Time-outs\<close>

lemma add32_Suc_neq: "add32 n 1 \<noteq> n"
proof (cases "n < u32_bound")
  case True
  then show ?thesis
    by (cases "n + 1 = u32_bound") (simp_all add: add32_def u32_bound_def)
next
  case False
  then show ?thesis
    using add32_less [of n 1] by linarith
qed

lemma ready_live: "kernel_ok k \<Longrightarrow> is_ready k t \<Longrightarrow> tcbs k t \<noteq> None"
  unfolding is_ready_def using kinv_live [OF kernel_okD(2)] by fastforce

text \<open>The tick count and the overflow count after a run that is shorter than one wrap.\<close>

lemma clock_run_time:
  assumes "kernel_ok k" "uxSchedulerSuspended k = 0" "list_all is_clock ops" "kexec_all ops k = Some k'" "tick_count ops < u32_bound"
  shows "xTickCount k' = add32 (xTickCount k) (tick_count ops) \<and>
    xNumOfOverflows k' = (if xTickCount k + tick_count ops < u32_bound then xNumOfOverflows k else add32 (xNumOfOverflows k) 1)"
  using assms
proof (induction ops arbitrary: k)
  case Nil
  then show ?case
    using kernel_okD(3) [of k] by (simp add: add32_exact)
next
  case (Cons a ops)
  note O = kernel_okD [OF Cons.prems(1)]
  have live: "tcbs k (xIdleTaskHandle k) \<noteq> None" "due k (xIdleTaskHandle k) 0"
    using O(5) ready_live [OF Cons.prems(1)] by (simp_all add: due_def)
  have ops: "list_all is_clock ops"
    using Cons.prems(3) by simp
  show ?case
  proof (cases a)
    case SysTick
    obtain k1 where k1: "xPortSysTickHandler k = Some k1" "kernel_ok k1" "uxSchedulerSuspended k1 = 0"
      "xTickCount k1 = add32 (xTickCount k) 1"
      "xNumOfOverflows k1 = (if xTickCount k1 = 0 then add32 (xNumOfOverflows k) 1 else xNumOfOverflows k)"
      using tick_due [OF Cons.prems(1,2) live] by blast
    have n: "Suc (tick_count ops) < u32_bound"
      using Cons.prems(5) SysTick by simp
    have IH: "xTickCount k' = add32 (xTickCount k1) (tick_count ops)"
      "xNumOfOverflows k' = (if xTickCount k1 + tick_count ops < u32_bound then xNumOfOverflows k1 else add32 (xNumOfOverflows k1) 1)"
      using Cons.IH [OF k1(2,3) ops] Cons.prems(4) SysTick k1(1) n by simp_all
    show ?thesis
    proof (cases "xTickCount k + 1 = u32_bound")
      case True
      then have "xTickCount k1 = 0"
        by (simp add: k1(4) add32_def)
      moreover have "add32 (xTickCount k) (Suc (tick_count ops)) = tick_count ops"
        using True n by (simp add: add32_def flip: add_Suc)
      ultimately show ?thesis
        using True IH k1(5) n SysTick by (simp add: add32_def)
    next
      case False
      then have "xTickCount k1 = Suc (xTickCount k)"
        using O(3) by (simp add: k1(4) add32_exact)
      with IH k1(5) SysTick show ?thesis
        by (simp add: add32_def)
    qed
  next
    case (PendSV now)
    obtain k1 where k1: "xPortPendSVHandler now k = Some k1" "kernel_ok k1" "uxSchedulerSuspended k1 = 0" "same_clock k k1"
      using pendsv_due [OF Cons.prems(1,2) live, of now] by blast
    then show ?thesis
      using Cons.IH [OF k1(2,3) ops] Cons.prems(4,5) PendSV by (simp add: same_clock_def)
  qed (use Cons.prems(3) in simp_all)
qed

text \<open>The check against the time that has really passed.\<close>

lemma check_true_time:
  assumes "xTickCount k0 < u32_bound" "e < u32_bound" "n < portMAX_DELAY" "tcbs k (pxCurrentTCB k) = Some b" "\<not> ucDelayAborted b"
    "xTickCount k = add32 (xTickCount k0) e"
    "xNumOfOverflows k = (if xTickCount k0 + e < u32_bound then xNumOfOverflows k0 else add32 (xNumOfOverflows k0) 1)"
  shows "xTaskCheckForTimeOut (vTaskSetTimeOutState k0) n k =
    Some (if e < n then (False, vTaskSetTimeOutState k, n - e, k) else (True, vTaskSetTimeOutState k0, 0, k))"
proof -
  have nb: "n < u32_bound"
    using assms(3) by (simp add: portMAX_DELAY_def u32_bound_def)
  have el: "sub32 (xTickCount k) (xTickCount k0) = e"
  proof (cases "xTickCount k0 + e < u32_bound")
    case True
    then show ?thesis
      using assms(1) by (simp add: assms(6) add32_exact sub32_exact)
  next
    case False
    then have "xTickCount k = xTickCount k0 + e - u32_bound"
      using assms(1,2) by (simp add: assms(6) add32_def le_mod_geq)
    then show ?thesis
      using False assms(1,2) by (simp add: sub32_under)
  qed
  have early: "\<not> (xNumOfOverflows k \<noteq> xNumOfOverflows k0 \<and> xTickCount k0 \<le> xTickCount k)"
  proof (cases "xTickCount k0 + e < u32_bound")
    case True
    then show ?thesis by (simp add: assms(7))
  next
    case False
    then have "xTickCount k = xTickCount k0 + e - u32_bound"
      using assms(1,2) by (simp add: assms(6) add32_def le_mod_geq)
    then show ?thesis
      using False assms(2) by linarith
  qed
  have sub: "e < n \<Longrightarrow> sub32 n e = n - e"
    using nb by (simp add: sub32_exact)
  show ?thesis
    using assms(3-5) el early sub
    by (auto simp: xTaskCheckForTimeOut_def vTaskSetTimeOutState_def vTaskInternalSetTimeOutState_def Let_def)
qed
section \<open>Notifications\<close>

text \<open>
  While the scheduler is suspended, a notification given from an interrupt is counted, and a task
  that waits for one is put on the pending ready list.
\<close>

lemma give_detail:
  assumes "kernel_ok k" "0 < uxSchedulerSuspended k" "tcbs k u = Some b"
  shows "\<exists>w k'. vTaskGenericNotifyGiveFromISR u 0 k = Some (w, k') \<and> kernel_ok k' \<and> calm k k' \<and> touched u k k' \<and>
    tcbs k' u = Some (b\<lparr>ucNotifyState := Received, ulNotifiedValue := ulNotifiedValue b + 1\<rparr>) \<and>
    container (klists k') (EventItem u) =
      (if ucNotifyState b = Waiting then Some PendingReady else container (klists k) (EventItem u))"
proof -
  let ?v = "ulNotifiedValue b + 1"
  note N = notified_ok [OF assms(1,3), of ?v]
  let ?k = "k\<lparr>tcbs := (tcbs k)(u := Some (b\<lparr>ucNotifyState := Received, ulNotifiedValue := ?v\<rparr>))\<rparr>"
  have nz: "u \<noteq> 0"
    using live_not_null [OF assms(1)] assms(3) by simp
  have up: "upd_tcb u (\<lambda>b. b\<lparr>ucNotifyState := Received, ulNotifiedValue := ulNotifiedValue b + 1\<rparr>) k = Some ?k"
    using assms(3) by (simp add: upd_tcb_def)
  show ?thesis
  proof (cases "ucNotifyState b = Waiting")
    case False
    then show ?thesis
      using N(2-4) nz up assms(3)
      by (auto simp: vTaskGenericNotifyGiveFromISR_def configTASK_NOTIFICATION_ARRAY_ENTRIES_def calm_def touched_def)
  next
    case True
    have free: "container (klists ?k) (EventItem u) = None"
      using waiting_no_event [OF assms(1,3) True] by simp
    have nw: "ucNotifyState (b\<lparr>ucNotifyState := Received, ulNotifiedValue := ?v\<rparr>) \<noteq> Waiting"
      by simp
    obtain k1 where k1: "ready_or_pend u ?k = Some k1" "kernel_ok k1" "stable ?k k1" "touched u ?k k1"
      "container (klists k1) (EventItem u) = Some PendingReady"
      using ready_or_pend_ok [OF N(2,3) free nw] assms(2) by auto
    have "tcbs k1 u \<noteq> None"
      using k1(3) by (simp add: stable_def)
    then obtain w k2 where k2: "note_higher u k1 = Some (w, k2)" "kernel_ok k2" "klists k2 = klists k1" "stable k1 k2"
      using note_higher_ok [OF k1(2)] by blast
    have "vTaskGenericNotifyGiveFromISR u 0 k = Some (w, k2)"
      using True nz up assms(3) free k1(1) k2(1)
      by (simp add: vTaskGenericNotifyGiveFromISR_def configTASK_NOTIFICATION_ARRAY_ENTRIES_def)
    moreover have "calm k k2" "touched u k k2"
      using k1(3,4) k2(3,4) by (auto simp: stable_def calm_def touched_def)
    moreover have "tcbs k2 u = Some (b\<lparr>ucNotifyState := Received, ulNotifiedValue := ?v\<rparr>)"
      using k1(3) k2(4) by (simp add: stable_def)
    ultimately show ?thesis
      using True k1(5) k2(2,3) by simp
  qed
qed

text \<open>The task \<open>t\<close>, running with the scheduler suspended after it found no notification, and the notifications it got since.\<close>

definition told :: "kernel \<Rightarrow> tid \<Rightarrow> nat \<Rightarrow> bool" where
  "told k t c \<longleftrightarrow>
     kernel_ok k \<and> uxSchedulerSuspended k = 1 \<and> pxCurrentTCB k = t \<and>
     (\<exists>b. tcbs k t = Some b \<and> ulNotifiedValue b = of_nat c \<and>
        (if c = 0 then ucNotifyState b = Waiting
         else ucNotifyState b = Received \<and> container (klists k) (EventItem t) = Some PendingReady))"

text \<open>Interrupts: ticks and notifications, of this task or others.\<close>

fun is_notifying :: "(tid \<Rightarrow> bool) \<Rightarrow> kop \<Rightarrow> bool" where
  "is_notifying live SysTick = True"
| "is_notifying live (GiveFromISR u) = live u"
| "is_notifying live _ = False"

definition give_count :: "tid \<Rightarrow> kop list \<Rightarrow> nat" where
  "give_count t ops = length (filter (\<lambda>a. a = GiveFromISR t) ops)"

lemma told_tick:
  assumes "told k t c"
  shows "\<exists>k'. xPortSysTickHandler k = Some k' \<and> told k' t c \<and> tcbs k' = tcbs k \<and> xIdleTaskHandle k' = xIdleTaskHandle k"
proof -
  have "xPortSysTickHandler k = Some (k\<lparr>xPendedTicks := add32 (xPendedTicks k) 1\<rparr>)"
    using assms by (simp add: told_def xPortSysTickHandler_def xTaskIncrementTick_def)
  moreover from this have "kernel_ok (k\<lparr>xPendedTicks := add32 (xPendedTicks k) 1\<rparr>)"
    using assms step_tick [of k] by (simp add: told_def)
  ultimately show ?thesis
    using assms by (auto simp: told_def)
qed

lemma told_give:
  assumes "told k t c" "tcbs k u \<noteq> None"
  shows "\<exists>w k'. vTaskGenericNotifyGiveFromISR u 0 k = Some (w, k') \<and> told k' t (if u = t then Suc c else c) \<and>
    (\<forall>x. tcbs k x \<noteq> None \<longrightarrow> tcbs k' x \<noteq> None) \<and> xIdleTaskHandle k' = xIdleTaskHandle k"
proof -
  obtain b where b: "tcbs k t = Some b" "ulNotifiedValue b = of_nat c"
    "if c = 0 then ucNotifyState b = Waiting
     else ucNotifyState b = Received \<and> container (klists k) (EventItem t) = Some PendingReady"
    using assms(1) by (auto simp: told_def)
  have ok: "kernel_ok k" "0 < uxSchedulerSuspended k"
    using assms(1) by (simp_all add: told_def)
  obtain y where y: "tcbs k u = Some y"
    using assms(2) by blast
  obtain w k' where G: "vTaskGenericNotifyGiveFromISR u 0 k = Some (w, k')" "kernel_ok k'" "calm k k'" "touched u k k'"
    "tcbs k' u = Some (y\<lparr>ucNotifyState := Received, ulNotifiedValue := ulNotifiedValue y + 1\<rparr>)"
    "container (klists k') (EventItem u) = (if ucNotifyState y = Waiting then Some PendingReady else container (klists k) (EventItem u))"
    using give_detail [OF ok y] by blast
  have "told k' t (if u = t then Suc c else c)"
  proof (cases "u = t")
    case True
    then show ?thesis
      using G(2,3,5,6) b y assms(1) by (auto simp: told_def calm_def split: if_splits)
  next
    case False
    then have "tcbs k' t = tcbs k t" "container (klists k') (EventItem t) = container (klists k) (EventItem t)"
      using G(4) by (simp_all add: touched_def)
    with False show ?thesis
      using G(2,3) assms(1) b unfolding told_def calm_def by auto
  qed
  moreover have "\<forall>x. tcbs k x \<noteq> None \<longrightarrow> tcbs k' x \<noteq> None"
    using G(4,5) unfolding touched_def by (metis option.discI)
  ultimately show ?thesis
    using G(1,3) by (auto simp: calm_def)
qed

lemma notifying_mono:
  "list_all (is_notifying live) ops \<Longrightarrow> (\<And>u. live u \<Longrightarrow> live' u) \<Longrightarrow> list_all (is_notifying live') ops"
  by (erule list.pred_mono_strong) (erule is_notifying.elims; simp)

lemma told_run:
  assumes "told k t c" "list_all (is_notifying (\<lambda>u. tcbs k u \<noteq> None)) ops"
  shows "\<exists>k'. kexec_all ops k = Some k' \<and> told k' t (c + give_count t ops) \<and> xIdleTaskHandle k' = xIdleTaskHandle k"
  using assms
proof (induction ops arbitrary: k c)
  case Nil
  then show ?case by (simp add: give_count_def)
next
  case (Cons a ops)
  show ?case
  proof (cases a)
    case SysTick
    obtain k1 where k1: "xPortSysTickHandler k = Some k1" "told k1 t c" "tcbs k1 = tcbs k" "xIdleTaskHandle k1 = xIdleTaskHandle k"
      using told_tick [OF Cons.prems(1)] by blast
    from Cons.IH [OF k1(2)] k1 Cons.prems(2) SysTick show ?thesis
      by (simp add: give_count_def)
  next
    case (GiveFromISR u)
    obtain w k1 where k1: "vTaskGenericNotifyGiveFromISR u 0 k = Some (w, k1)" "told k1 t (if u = t then Suc c else c)"
      "\<forall>x. tcbs k x \<noteq> None \<longrightarrow> tcbs k1 x \<noteq> None" "xIdleTaskHandle k1 = xIdleTaskHandle k"
      using told_give [OF Cons.prems(1), of u] Cons.prems(2) GiveFromISR by auto
    have "list_all (is_notifying (\<lambda>u. tcbs k1 u \<noteq> None)) ops"
      by (rule notifying_mono [of "\<lambda>u. tcbs k u \<noteq> None"]) (use Cons.prems(2) k1(3) in simp_all)
    from Cons.IH [OF k1(2) this] k1(1,4) GiveFromISR show ?thesis
      by (auto simp: give_count_def)
  qed (use Cons.prems(2) in simp_all)
qed

text \<open>Blocking after that: the task stays ready exactly if it has been told.\<close>

lemma told_block:
  assumes "told k t c" "t \<noteq> xIdleTaskHandle k" "0 < n" "n < u32_bound"
  shows "\<exists>k'. notify_block True n k = Some k' \<and> kernel_ok k' \<and>
    (\<exists>b. tcbs k' t = Some b \<and> ulNotifiedValue b = of_nat c) \<and> (0 < c \<longrightarrow> is_ready k' t)"
proof -
  have ok: "kernel_ok k" "uxSchedulerSuspended k = 1" and t: "pxCurrentTCB k = t"
    using assms(1) by (simp_all add: told_def)
  obtain b where b: "tcbs k t = Some b" "ulNotifiedValue b = of_nat c"
    "0 < c \<Longrightarrow> container (klists k) (EventItem t) = Some PendingReady"
    using assms(1) by (auto simp: told_def)
  have run: "is_ready k (pxCurrentTCB k)" "pxCurrentTCB k \<noteq> xIdleTaskHandle k"
    using kernel_okD(9) [OF ok(1)] ok(2) assms(2) t by auto
  note O = kernel_okD [OF ok(1)]
  obtain k1 where k1: "prvAddCurrentTaskToDelayedList n True k = Some k1" "sched k1" "calm k k1"
    "\<And>u. container (klists k1) (EventItem u) = container (klists k) (EventItem u)"
    using block_sched [OF O(1) run assms(3,4), of True] by blast
  have bc: "tcbs k (pxCurrentTCB k) = Some b"
    using b(1) t by simp
  have "\<exists>k1'. prvAddCurrentTaskToDelayedList n True k = Some k1' \<and>
     tcbs k1' = (tcbs k)(pxCurrentTCB k := Some (b\<lparr>ucDelayAborted := False\<rparr>))"
    by (rule add_current_ok [OF O(2,3) bc run(1) assms(3,4), of True]) blast
  then have tc: "tcbs k1 = (tcbs k)(t := Some (b\<lparr>ucDelayAborted := False\<rparr>))"
    using k1(1) t by auto
  have s1: "uxSchedulerSuspended k1 = 1"
    using k1(3) ok(2) by (simp add: calm_def)
  obtain y k2 where k2: "xTaskResumeAll k1 = Some (y, k2)" "tcbs k2 = tcbs k1"
    "\<And>u. EventItem u \<in> set (items (klists k1) PendingReady) \<Longrightarrow> is_ready k2 u"
    using resume_all_ok [OF k1(2)] s1 by fastforce
  define k3 where "k3 = (if y then k2 else portYIELD_WITHIN_API k2)"
  have "notify_block True n k = Some k3"
    using k1(1) k2(1) by (simp add: notify_block_def k3_def)
  moreover have "kernel_ok k3"
    using block_and_yield [OF k1(2) s1] k2(1) by (simp add: k3_def)
  moreover have "tcbs k3 = tcbs k2" "is_ready k3 t = is_ready k2 t"
    by (simp_all add: k3_def portYIELD_WITHIN_API_def)
  moreover have "is_ready k2 t" if "0 < c"
    using k2(3) [of t] container_items [OF schedD(1) [OF k1(2)], of "EventItem t" PendingReady] k1(4) [of t] b(3) [OF that]
    by simp
  ultimately show ?thesis
    using b(2) by (simp add: k2(2) tc)
qed

lemma told_check:
  assumes "kernel_ok k" "may_block k" "0 < n" "tcbs k (pxCurrentTCB k) = Some b" "ulNotifiedValue b = 0"
  shows "\<exists>k'. notify_take_check 0 n k = Some (True, k') \<and> told k' (pxCurrentTCB k) 0 \<and>
    (\<forall>u. tcbs k u \<noteq> None \<longrightarrow> tcbs k' u \<noteq> None) \<and> xIdleTaskHandle k' = xIdleTaskHandle k"
proof -
  let ?k = "(vTaskSuspendAll k)\<lparr>tcbs := (tcbs k)(pxCurrentTCB k := Some (b\<lparr>ucNotifyState := Waiting\<rparr>))\<rparr>"
  have s: "vTaskSuspendAll k = k\<lparr>uxSchedulerSuspended := 1\<rparr>"
    using assms(2) by (simp add: vTaskSuspendAll_def add32_exact u32_bound_def)
  have "notify_take_check 0 n k = Some (True, ?k)"
    using assms(3-5) by (simp add: notify_take_check_def configTASK_NOTIFICATION_ARRAY_ENTRIES_def s upd_tcb_def)
  moreover have "kernel_ok ?k"
    using assms(2) by (intro check_ok(1) [OF assms(1) _ _ assms(4)]) simp_all
  ultimately show ?thesis
    using assms(5) by (simp add: told_def s)
qed

end
