(* ===== verification/TaskBoot.thy ===== *)
theory TaskBoot
  imports TaskHistory
begin

text \<open>
  Tasks and their memory. A task owns two heap blocks, its control block and its stack;
  \<open>tasks_own\<close> says that all live tasks own different blocks that are handed out. Creating a task is
  the same code before and after the scheduler is started, in two kinds of kernel state: the
  interface \<open>kernel_phase\<close> is what it needs of either, and it is interpreted on both. Then the start
  of the scheduler, which leads from the first kind of state to \<open>kernel_ok\<close>.
\<close>

section \<open>Memory\<close>

definition tasks_own :: "(tid \<Rightarrow> TCB option) \<Rightarrow> (addr \<times> nat) list \<Rightarrow> bool" where
  "tasks_own B es \<longleftrightarrow>
     (\<forall>t b. B t = Some b \<longrightarrow> t \<in> fst ` set es \<and> pxStack b \<in> fst ` set es) \<and>
     (\<forall>t b u c. B t = Some b \<longrightarrow> B u = Some c \<longrightarrow> pxStack b \<noteq> u \<and> (t \<noteq> u \<longrightarrow> pxStack b \<noteq> pxStack c))"

lemma heap_live_distinct: "heap_live h es \<Longrightarrow> distinct (map fst es)"
  using hp.apart_law by blast

lemma tasks_own_Cons: "tasks_own B es \<Longrightarrow> tasks_own B (x # es)"
  by (auto simp: tasks_own_def)

lemma tasks_own_live: "tasks_own B es \<Longrightarrow> B t \<noteq> None \<Longrightarrow> t \<in> fst ` set es"
  by (auto simp: tasks_own_def)

lemma tasks_own_new:
  assumes "tasks_own B es" "distinct (map fst ((t, m) # (s, n) # es))" "pxStack b = s"
  shows "tasks_own (B(t := Some b)) ((t, m) # (s, n) # es)"
proof -
  have f: "t \<noteq> s" "t \<notin> fst ` set es" "s \<notin> fst ` set es"
    using assms(2) by auto
  have old: "u \<in> fst ` set es" "pxStack c \<in> fst ` set es" if "B u = Some c" for u c
    using assms(1) that unfolding tasks_own_def by blast+
  have sep: "pxStack c \<noteq> v \<and> (u \<noteq> v \<longrightarrow> pxStack c \<noteq> pxStack d)" if "B u = Some c" "B v = Some d" for u c v d
    using assms(1) that unfolding tasks_own_def by blast
  show ?thesis
    unfolding tasks_own_def
  proof (intro conjI allI impI)
    fix u c
    assume "(B(t := Some b)) u = Some c"
    then show "u \<in> fst ` set ((t, m) # (s, n) # es)" "pxStack c \<in> fst ` set ((t, m) # (s, n) # es)"
      using old [of u c] assms(3) by (auto split: if_splits)
  next
    fix u c v d
    assume "(B(t := Some b)) u = Some c" "(B(t := Some b)) v = Some d"
    then show "pxStack c \<noteq> v"
      using old [of u c] old [of v d] sep [of u c v d] f assms(3) by (auto split: if_splits)
  next
    fix u c v d
    assume "(B(t := Some b)) u = Some c" "(B(t := Some b)) v = Some d" "u \<noteq> v"
    then show "pxStack c \<noteq> pxStack d"
      using old [of u c] old [of v d] sep [of u c v d] f assms(3) by (auto simp: image_iff split: if_splits)
  qed
qed

lemma tasks_own_same: "tasks_own B es \<Longrightarrow> B t = Some b \<Longrightarrow> pxStack b' = pxStack b \<Longrightarrow> tasks_own (B(t := Some b')) es"
  unfolding tasks_own_def by (auto split: if_splits) (metis+)?

text \<open>There are fewer live blocks than numbers of a word.\<close>

lemma heap_live_few:
  assumes "heap_live h es"
  shows "length es + 1 < u32_bound"
proof -
  obtain fs as where a: "heap_ok h fs as" "es = live_extents as"
    using assms by (auto simp: heap_live_def)
  then have big: "\<forall>x \<in> set as. 16 \<le> snd x" and tot: "sizes fs + sizes as < 2147483648"
    by (auto simp: heap_ok_def layout_ok_def)
  have "16 * length as \<le> sizes as"
    using big by (induction as) auto
  then show ?thesis
    using tot by (simp add: a(2) live_extents_def u32_bound_def)
qed

section \<open>Creating a task\<close>

locale kernel_phase =
  fixes phase :: "kernel \<Rightarrow> bool"
  assumes pause_law: "phase k \<Longrightarrow> \<exists>y k'. xTaskResumeAll (vTaskSuspendAll k) = Some (y, k') \<and> phase k' \<and> tcbs k' = tcbs k"
    and count_law: "phase k \<Longrightarrow> finite (dom (tcbs k)) \<and> uxCurrentNumberOfTasks k = card (dom (tcbs k))"
    and add_law: "phase k \<Longrightarrow> tcbs k t = None \<Longrightarrow> t \<noteq> 0 \<Longrightarrow> p < configMAX_PRIORITIES \<Longrightarrow> uxCurrentNumberOfTasks k + 1 < u32_bound \<Longrightarrow>
      \<exists>k1 k' b. prvInitialiseNewTask p t s k = Some k1 \<and> prvAddNewTaskToReadyList t k1 = Some k' \<and> phase k' \<and>
        tcbs k' = (tcbs k)(t := Some b) \<and> pxStack b = s \<and> uxBasePriority b = p"
begin

lemma malloc_ok:
  assumes "phase k" "heap_live h es" "tasks_own (tcbs k) es" "n < u32_bound"
  obtains p k' h' where "kernel_malloc n (k, h) = Some (p, k', h')" "phase k'" "tcbs k' = tcbs k"
    "p = 0 \<and> h' = h \<or> p \<noteq> 0 \<and> (\<exists>m. n \<le> m \<and> heap_live h' ((p, m) # es))"
proof -
  obtain y k' where k': "xTaskResumeAll (vTaskSuspendAll k) = Some (y, k')" "phase k'" "tcbs k' = tcbs k"
    using pause_law [OF assms(1)] by blast
  from hp.alloc_law [OF assms(2,4)] show ?thesis
  proof (elim disjE exE conjE)
    assume "pvPortMalloc n h = Some (0, h)"
    with k' show ?thesis
      by (intro that [of 0 k' h]) (simp_all add: kernel_malloc_def)
  next
    fix p m h'
    assume "pvPortMalloc n h = Some (p, h')" "p \<noteq> 0" "n \<le> m" "heap_live h' ((p, m) # es)"
    with k' show ?thesis
      by (intro that [of p k' h']) (auto simp: kernel_malloc_def)
  qed
qed

lemma free_ok:
  assumes "phase k" "heap_live h es" "(p, m) \<in> set es"
  obtains k' h' where "kernel_free p (k, h) = Some (k', h')" "phase k'" "tcbs k' = tcbs k" "heap_live h' (remove1 (p, m) es)"
    "xPortGetFreeHeapSize h' = xPortGetFreeHeapSize h + m + 8"
proof -
  obtain y k' where k': "xTaskResumeAll (vTaskSuspendAll k) = Some (y, k')" "phase k'" "tcbs k' = tcbs k"
    using pause_law [OF assms(1)] by blast
  obtain h' where h': "vPortFree p h = Some h'" "heap_live h' (remove1 (p, m) es)"
    "xPortGetFreeHeapSize h' = xPortGetFreeHeapSize h + m + 8"
    using hp.release_law [OF assms(2,3)] by blast
  show ?thesis
  proof (cases "p = 0")
    case True
    with assms(1) h' show ?thesis
      by (intro that [of k h']) (simp_all add: kernel_free_def)
  next
    case False
    with k' h' show ?thesis
      by (intro that [of k' h']) (simp_all add: kernel_free_def)
  qed
qed

text \<open>A task is created with memory of its own, or there is not enough and nothing is kept.\<close>

lemma create_ok:
  assumes "phase k" "heap_live h es" "tasks_own (tcbs k) es" "p < configMAX_PRIORITIES"
  shows "\<exists>t k' h' es'. xTaskCreate d p (k, h) = Some (t, k', h') \<and> phase k' \<and> heap_live h' es' \<and> tasks_own (tcbs k') es' \<and>
    (if t = 0 then tcbs k' = tcbs k \<and> es' = es
     else tcbs k t = None \<and> (\<exists>b m n. tcbs k' = (tcbs k)(t := Some b) \<and> uxBasePriority b = p \<and>
       es' = (t, m) # (pxStack b, n) # es \<and> sizeof_TCB_t \<le> m \<and> mul32 d sizeof_StackType_t \<le> n))"
proof -
  have szb: "sizeof_TCB_t < u32_bound" "mul32 d sizeof_StackType_t < u32_bound"
    by (simp_all add: sizeof_TCB_t_def u32_bound_def mul32_def)
  obtain s k1 h1 where s: "kernel_malloc (mul32 d sizeof_StackType_t) (k, h) = Some (s, k1, h1)" "phase k1" "tcbs k1 = tcbs k"
    "s = 0 \<and> h1 = h \<or> s \<noteq> 0 \<and> (\<exists>n. mul32 d sizeof_StackType_t \<le> n \<and> heap_live h1 ((s, n) # es))"
    by (rule malloc_ok [OF assms(1-3) szb(2)])
  show ?thesis
  proof (cases "s = 0")
    case True
    with s have "xTaskCreate d p (k, h) = Some (0, k1, h)"
      by (simp add: xTaskCreate_def prvCreateTask_def)
    with s assms(2,3) show ?thesis by auto
  next
    case False
    then obtain n where n: "mul32 d sizeof_StackType_t \<le> n" "heap_live h1 ((s, n) # es)"
      using s(4) by blast
    have own1: "tasks_own (tcbs k1) ((s, n) # es)"
      using assms(3) by (simp add: s(3) tasks_own_Cons)
    obtain t k2 h2 where t: "kernel_malloc sizeof_TCB_t (k1, h1) = Some (t, k2, h2)" "phase k2" "tcbs k2 = tcbs k1"
      "t = 0 \<and> h2 = h1 \<or> t \<noteq> 0 \<and> (\<exists>m. sizeof_TCB_t \<le> m \<and> heap_live h2 ((t, m) # (s, n) # es))"
      by (rule malloc_ok [OF s(2) n(2) own1 szb(1)])
    show ?thesis
    proof (cases "t = 0")
      case True
      then have h2: "heap_live h2 ((s, n) # es)"
        using t(4) n(2) by auto
      obtain k3 h3 where F: "kernel_free s (k2, h2) = Some (k3, h3)" "phase k3" "tcbs k3 = tcbs k2"
        "heap_live h3 (remove1 (s, n) ((s, n) # es))"
        by (rule free_ok [OF t(2) h2, of s n]) auto
      with True False s(1,3) t(1,3) have "xTaskCreate d p (k, h) = Some (0, k3, h3)"
        by (simp add: xTaskCreate_def prvCreateTask_def)
      with F s(3) t(3) assms(3) show ?thesis by auto
    next
      case t0: False
      then obtain m where m: "sizeof_TCB_t \<le> m" "heap_live h2 ((t, m) # (s, n) # es)"
        using t(4) by blast
      note dis = heap_live_distinct [OF m(2)]
      have B: "tcbs k2 = tcbs k"
        using s(3) t(3) by simp
      have fresh: "tcbs k2 t = None"
        using tasks_own_live [OF assms(3), of t] dis B by auto
      have "dom (tcbs k2) \<subseteq> fst ` set es"
        using tasks_own_live [OF assms(3)] B by auto
      then have "card (dom (tcbs k2)) \<le> length es"
        using card_mono [of "fst ` set es" "dom (tcbs k2)"] card_length [of "map fst es"] by simp
      then have few: "uxCurrentNumberOfTasks k2 + 1 < u32_bound"
        using count_law [OF t(2)] heap_live_few [OF assms(2)] by simp
      obtain k3 k4 b where A: "prvInitialiseNewTask p t s k2 = Some k3" "prvAddNewTaskToReadyList t k3 = Some k4" "phase k4"
        "tcbs k4 = (tcbs k2)(t := Some b)" "pxStack b = s" "uxBasePriority b = p"
        using add_law [OF t(2) fresh t0 assms(4) few] by blast
      have "xTaskCreate d p (k, h) = Some (t, k4, h2)"
        using False t0 s(1) t(1) A(1,2) by (simp add: xTaskCreate_def prvCreateTask_def)
      moreover have "tasks_own (tcbs k4) ((t, m) # (s, n) # es)"
        using tasks_own_new [OF assms(3) dis A(5)] by (simp add: A(4) B)
      moreover have "\<exists>b' m' n'. tcbs k4 = (tcbs k)(t := Some b') \<and> uxBasePriority b' = p \<and>
          (t, m) # (s, n) # es = (t, m') # (pxStack b', n') # es \<and> sizeof_TCB_t \<le> m' \<and> mul32 d sizeof_StackType_t \<le> n'"
        using A(4-6) m n(1) B by (intro exI [of _ b] exI [of _ m] exI [of _ n]) simp
      ultimately show ?thesis
        using t0 A(3) m(2) fresh B
        by (intro exI [of _ t] exI [of _ k4] exI [of _ h2] exI [of _ "(t, m) # (s, n) # es"]) simp
    qed
  qed
qed

end

section \<open>The running kernel\<close>

definition running_ok :: "kernel \<Rightarrow> bool" where
  "running_ok k \<longleftrightarrow> kernel_ok k \<and> runs k \<and> uxSchedulerSuspended k + 1 < u32_bound"

lemma running_pause:
  assumes "running_ok k"
  shows "\<exists>y k'. xTaskResumeAll (vTaskSuspendAll k) = Some (y, k') \<and> running_ok k' \<and> tcbs k' = tcbs k"
proof -
  let ?k = "vTaskSuspendAll k"
  have r: "kernel_ok k" "runs k" "uxSchedulerSuspended k + 1 < u32_bound"
    using assms by (simp_all add: running_ok_def)
  have ok: "kernel_ok ?k"
    by (rule step_suspend_all [OF r])
  have s: "uxSchedulerSuspended ?k = uxSchedulerSuspended k + 1" "tcbs ?k = tcbs k" "is_ready ?k = is_ready k" "pxCurrentTCB ?k = pxCurrentTCB k"
    using r(3) by (simp_all add: vTaskSuspendAll_def add32_exact fun_eq_iff)
  obtain y k' where k': "xTaskResumeAll ?k = Some (y, k')"
    "calm (?k\<lparr>uxSchedulerSuspended := uxSchedulerSuspended ?k - 1, xPendedTicks := xPendedTicks k'\<rparr>) k'"
    "tcbs k' = tcbs ?k" "keeps_ready ?k k'"
    using resume_all_ok [OF kernel_okD(1) [OF ok]] s(1) by auto
  have "kernel_ok k'"
    using step_resume_all [OF ok] k'(1) s(1) by auto
  moreover have "pxCurrentTCB k' = pxCurrentTCB k" "uxSchedulerSuspended k' = uxSchedulerSuspended k"
    using k'(2) s by (simp_all add: calm_def)
  ultimately show ?thesis
    using k'(1,3,4) s r(2,3) by (simp add: running_ok_def keeps_ready_def)
qed

lemma add_ready_tcbs: "prvAddTaskToReadyList t k = Some k' \<Longrightarrow> tcbs k' = tcbs k"
  by (auto simp: prvAddTaskToReadyList_def list_insert_end_def Let_def split: bind_splits if_splits)

lemma yield_tcbs: "taskYIELD_ANY_CORE_IF_USING_PREEMPTION t k = Some k' \<Longrightarrow> tcbs k' = tcbs k"
  by (auto simp: taskYIELD_ANY_CORE_IF_USING_PREEMPTION_def portYIELD_WITHIN_API_def split: bind_splits if_splits)

text \<open>Adding a new task, in two parts: the count and the current task, then the number and the ready list.\<close>

definition add_front :: "tid \<Rightarrow> kernel \<Rightarrow> kernel option" where
  "add_front t k =
     (if pxCurrentTCB k = 0
      then Some (if uxCurrentNumberOfTasks k = 1 then prvInitialiseTaskLists (k\<lparr>pxCurrentTCB := t\<rparr>) else k\<lparr>pxCurrentTCB := t\<rparr>)
      else if \<not> xSchedulerRunning k
      then do { c \<leftarrow> tcbs k (pxCurrentTCB k); b \<leftarrow> tcbs k t;
                Some (if uxPriority c \<le> uxPriority b then k\<lparr>pxCurrentTCB := t\<rparr> else k) }
      else Some k)"

definition add_rest :: "tid \<Rightarrow> kernel \<Rightarrow> kernel option" where
  "add_rest t k =
     do { k \<leftarrow> upd_tcb t (\<lambda>b. b\<lparr>uxTCBNumber := add32 (uxTaskNumber k) 1\<rparr>) (k\<lparr>uxTaskNumber := add32 (uxTaskNumber k) 1\<rparr>);
          k \<leftarrow> prvAddTaskToReadyList t k;
          if xSchedulerRunning k then taskYIELD_ANY_CORE_IF_USING_PREEMPTION t k else Some k }"

lemma add_new_parts:
  "prvAddNewTaskToReadyList t k =
     Option.bind (add_front t (k\<lparr>uxCurrentNumberOfTasks := add32 (uxCurrentNumberOfTasks k) 1\<rparr>)) (add_rest t)"
  by (simp add: prvAddNewTaskToReadyList_def add_front_def add_rest_def [abs_def] Let_def)

lemma add_front_tcbs: "add_front t k = Some k' \<Longrightarrow> tcbs k' = tcbs k \<and> uxTaskNumber k' = uxTaskNumber k"
  by (auto simp: add_front_def prvInitialiseTaskLists_def Let_def bind_eq_Some_conv split: if_splits)

lemma add_new_tcbs:
  assumes "prvAddNewTaskToReadyList t k = Some k'" "tcbs k t = Some b"
  shows "tcbs k' = (tcbs k)(t := Some (b\<lparr>uxTCBNumber := add32 (uxTaskNumber k) 1\<rparr>))"
proof -
  obtain k0 where k0: "add_front t (k\<lparr>uxCurrentNumberOfTasks := add32 (uxCurrentNumberOfTasks k) 1\<rparr>) = Some k0"
    "add_rest t k0 = Some k'"
    using assms(1) by (auto simp: add_new_parts bind_eq_Some_conv)
  have "tcbs k0 = tcbs k" "uxTaskNumber k0 = uxTaskNumber k"
    using add_front_tcbs [OF k0(1)] by simp_all
  with k0(2) show ?thesis
    using assms(2) by (auto simp: add_rest_def upd_tcb_def bind_eq_Some_conv split: if_splits dest!: add_ready_tcbs yield_tcbs)
qed

lemma new_task_tcbs:
  assumes "prvInitialiseNewTask p t s k = Some k1" "prvAddNewTaskToReadyList t k1 = Some k'"
  shows "\<exists>b. tcbs k' = (tcbs k)(t := Some b) \<and> pxStack b = s \<and> uxBasePriority b = p"
proof -
  obtain b where b: "tcbs k1 = (tcbs k)(t := Some b)" "pxStack b = s" "uxBasePriority b = p"
    using assms(1) by (auto simp: prvInitialiseNewTask_def Let_def split: if_splits)
  from add_new_tcbs [OF assms(2), of b] b show ?thesis
    by (intro exI [of _ "b\<lparr>uxTCBNumber := add32 (uxTaskNumber k1) 1\<rparr>"]) simp
qed

lemma running_add:
  assumes "running_ok k" "tcbs k t = None" "t \<noteq> 0" "p < configMAX_PRIORITIES" "uxCurrentNumberOfTasks k + 1 < u32_bound"
  shows "\<exists>k1 k' b. prvInitialiseNewTask p t s k = Some k1 \<and> prvAddNewTaskToReadyList t k1 = Some k' \<and> running_ok k' \<and>
    tcbs k' = (tcbs k)(t := Some b) \<and> pxStack b = s \<and> uxBasePriority b = p"
proof -
  have ok: "kernel_ok k"
    using assms(1) by (simp add: running_ok_def)
  obtain k1 k' where k': "prvInitialiseNewTask p t s k = Some k1" "prvAddNewTaskToReadyList t k1 = Some k'" "kernel_ok k'"
    "keeps_ready k k'" "pxCurrentTCB k' = pxCurrentTCB k" "uxSchedulerSuspended k' = uxSchedulerSuspended k"
    using step_new_task [OF ok assms(2-5), of s] by blast
  moreover have "running_ok k'"
    using k'(3-6) assms(1) by (simp add: running_ok_def keeps_ready_def)
  ultimately show ?thesis
    using new_task_tcbs [OF k'(1,2)] by blast
qed

interpretation running: kernel_phase running_ok
proof unfold_locales
  fix k
  assume "running_ok k"
  then show "finite (dom (tcbs k)) \<and> uxCurrentNumberOfTasks k = card (dom (tcbs k))"
    by (simp add: running_ok_def kernel_ok_def sched_def)
qed (rule running_pause running_add; assumption)+

section \<open>Before the scheduler is started\<close>

text \<open>The static variables as the program starts: all zero; the delayed list pointers are set with the first task.\<close>

definition blank :: "kernel \<Rightarrow> bool" where
  "blank k \<longleftrightarrow>
     tcbs k = (\<lambda>_. None) \<and> items (klists k) = (\<lambda>_. []) \<and> walk (klists k) = (\<lambda>_. None) \<and> container (klists k) = (\<lambda>_. None) \<and>
     pxCurrentTCB k = 0 \<and> uxTopReadyPriority k = 0 \<and> uxCurrentNumberOfTasks k = 0"

text \<open>With tasks: all are ready and the current one is one of the highest priority.\<close>

definition populated :: "kernel \<Rightarrow> bool" where
  "populated k \<longleftrightarrow>
     kinv {} {} 0 k \<and> pxCurrentTCB k \<noteq> 0 \<and> (\<forall>t. tcbs k t \<noteq> None \<longrightarrow> is_ready k t) \<and>
     (\<forall>t. container (klists k) (EventItem t) = None) \<and> (\<forall>t b. tcbs k t = Some b \<longrightarrow> ucNotifyState b \<noteq> Waiting) \<and>
     finite (dom (tcbs k)) \<and> uxCurrentNumberOfTasks k = card (dom (tcbs k)) \<and>
     (\<exists>c. tcbs k (pxCurrentTCB k) = Some c \<and> (\<forall>t b. tcbs k t = Some b \<longrightarrow> uxPriority b \<le> uxPriority c))"

definition boot_ok :: "kernel \<Rightarrow> bool" where
  "boot_ok k \<longleftrightarrow>
     \<not> xSchedulerRunning k \<and> uxSchedulerSuspended k = 0 \<and> xPendedTicks k = 0 \<and> \<not> xYieldPending k \<and> (blank k \<or> populated k)"

lemma boot_pause:
  assumes "boot_ok k"
  shows "xTaskResumeAll (vTaskSuspendAll k) = Some (False, k)"
proof -
  have s: "vTaskSuspendAll k = k\<lparr>uxSchedulerSuspended := 1\<rparr>" "k\<lparr>uxSchedulerSuspended := 0\<rparr> = k"
    using assms by (simp_all add: boot_ok_def vTaskSuspendAll_def add32_exact u32_bound_def)
  have "items (klists k) PendingReady = []"
    using assms pending_nil_iff [of "{}" "{}" 0 k] by (auto simp: boot_ok_def blank_def populated_def)
  then show ?thesis
    using assms by (simp add: s xTaskResumeAll_def resume_pending.simps boot_ok_def)
qed

lemma init_lists_blank:
  assumes "items T = (\<lambda>_. [])" "walk T = (\<lambda>_. None)"
  shows "init_list l T = T"
proof -
  have "(items T)(l := []) = items T" "(walk T)(l := None) = walk T"
    using assms by auto
  then show ?thesis
    by (simp add: init_list_def)
qed

lemma initialise_lists_blank:
  assumes "items (klists k) = (\<lambda>_. [])" "walk (klists k) = (\<lambda>_. None)"
  shows "prvInitialiseTaskLists k = k\<lparr>pxDelayedTaskList := Delayed1, pxOverflowDelayedTaskList := Delayed2\<rparr>"
proof -
  have "fold (\<lambda>p. init_list (Ready p)) ps (klists k) = klists k" for ps
    using init_lists_blank [OF assms] by (induction ps) simp_all
  then show ?thesis
    using init_lists_blank [OF assms] by (simp add: prvInitialiseTaskLists_def Let_def)
qed

lemma add_rest_ok:
  assumes "kinv {t} {} 0 k" "tcbs k t = Some b" "\<not> xSchedulerRunning k"
  shows "\<exists>k' b'. add_rest t k = Some k' \<and> kinv {} {} 0 k' \<and> tcbs k' = (tcbs k)(t := Some b') \<and> uxPriority b' = uxPriority b \<and>
    ucNotifyState b' = ucNotifyState b \<and> pxStack b' = pxStack b \<and> uxBasePriority b' = uxBasePriority b \<and>
    container (klists k') = (container (klists k))(StateItem t := Some (Ready (uxPriority b))) \<and> calm k k' \<and>
    xYieldPending k' = xYieldPending k"
proof -
  let ?b = "b\<lparr>uxTCBNumber := add32 (uxTaskNumber k) 1\<rparr>"
  let ?k = "k\<lparr>uxTaskNumber := add32 (uxTaskNumber k) 1, tcbs := (tcbs k)(t := Some ?b)\<rparr>"
  have inv: "kinv (insert t {}) {} 0 ?k"
    using kinv_tcb_fields [OF assms(1,2), of ?b] by (simp add: kinv_def)
  have b1: "tcbs ?k t = Some ?b"
    by simp
  obtain k' where k': "prvAddTaskToReadyList t ?k = Some k'"
    "k' = ?k\<lparr>klists := insert_end (Ready (uxPriority ?b)) (StateItem t) (klists ?k),
            uxTopReadyPriority := portRECORD_READY_PRIORITY (uxPriority ?b) (uxTopReadyPriority ?k)\<rparr>"
    "kinv {} ({} - {uxPriority ?b}) 0 k'"
    using kinv_add_ready [OF inv b1] by auto
  have "add_rest t k = Some k'"
    using assms(2,3) k'(1) by (simp add: add_rest_def upd_tcb_def k'(2))
  then show ?thesis
    using k'(3) by (intro exI [of _ k'] exI [of _ ?b]) (simp add: k'(2) calm_def)
qed

lemma blank_inv:
  assumes "blank k"
  shows "kinv {} {} 0 (k\<lparr>pxDelayedTaskList := Delayed1, pxOverflowDelayedTaskList := Delayed2\<rparr>)"
  using assms
  by (simp add: blank_def kinv_def lists_ok_def typed_def placed_def priorities_ok_def bits_ok_def delays_ok_def)

text \<open>The first task.\<close>

lemma blank_add:
  assumes "blank k" "\<not> xSchedulerRunning k" "t \<noteq> 0" "p < configMAX_PRIORITIES"
  shows "\<exists>k1 k'. prvInitialiseNewTask p t s k = Some k1 \<and> prvAddNewTaskToReadyList t k1 = Some k' \<and> populated k' \<and>
    xSchedulerRunning k' = xSchedulerRunning k \<and> uxSchedulerSuspended k' = uxSchedulerSuspended k \<and>
    xPendedTicks k' = xPendedTicks k \<and> xYieldPending k' = xYieldPending k"
proof -
  let ?d = "\<lambda>k. k\<lparr>pxDelayedTaskList := Delayed1, pxOverflowDelayedTaskList := Delayed2\<rparr>"
  have none: "tcbs (?d k) t = None"
    using assms(1) by (simp add: blank_def)
  obtain b k1' where k1': "prvInitialiseNewTask p t s (?d k) = Some k1'" "kinv {t} {} 0 k1'" "tcbs k1' = (tcbs (?d k))(t := Some b)"
    "uxPriority b = p" "ucNotifyState b = NotWaiting" "container (klists k1') = container (klists (?d k))"
    by (rule initialise_task_ok [OF blank_inv [OF assms(1)] none assms(3,4)]) blast
  obtain k1 where k1: "prvInitialiseNewTask p t s k = Some k1"
    using assms(4) by (simp add: prvInitialiseNewTask_def Let_def)
  have d1: "k1' = ?d k1"
    using k1 k1'(1) by (auto simp: prvInitialiseNewTask_def Let_def split: if_splits)
  have f1: "items (klists k1) = (\<lambda>_. [])" "walk (klists k1) = (\<lambda>_. None)" "pxCurrentTCB k1 = 0" "uxCurrentNumberOfTasks k1 = 0"
    "xSchedulerRunning k1 = xSchedulerRunning k" "uxSchedulerSuspended k1 = uxSchedulerSuspended k"
    "xPendedTicks k1 = xPendedTicks k" "xYieldPending k1 = xYieldPending k"
    using k1 assms(1) by (auto simp: prvInitialiseNewTask_def Let_def blank_def init_item_def split: if_splits)
  let ?k2 = "?d (k1\<lparr>uxCurrentNumberOfTasks := 1, pxCurrentTCB := t\<rparr>)"
  have front: "add_front t (k1\<lparr>uxCurrentNumberOfTasks := add32 (uxCurrentNumberOfTasks k1) 1\<rparr>) = Some ?k2"
    using f1 initialise_lists_blank [of "k1\<lparr>uxCurrentNumberOfTasks := 1, pxCurrentTCB := t\<rparr>"]
    by (simp add: add_front_def add32_exact u32_bound_def)
  have inv: "kinv {t} {} 0 ?k2" "tcbs ?k2 t = Some b" "\<not> xSchedulerRunning ?k2"
    using k1'(2,3) f1(5) assms(2) by (simp_all add: d1 kinv_def)
  obtain k' b' where k': "add_rest t ?k2 = Some k'" "kinv {} {} 0 k'" "tcbs k' = (tcbs ?k2)(t := Some b')" "uxPriority b' = uxPriority b"
    "ucNotifyState b' = ucNotifyState b" "container (klists k') = (container (klists ?k2))(StateItem t := Some (Ready (uxPriority b)))"
    "calm ?k2 k'" "xYieldPending k' = xYieldPending ?k2"
    using add_rest_ok [OF inv] by blast
  have B: "tcbs k' = (\<lambda>_. None)(t := Some b')"
    using k'(3) k1'(3) assms(1) by (auto simp: d1 blank_def fun_eq_iff)
  have C: "container (klists k') = (\<lambda>_. None)(StateItem t := Some (Ready p))"
    using k'(6) k1'(4,6) assms(1) by (simp add: d1 blank_def)
  have "populated k'"
    using k'(2,5,7) k1'(5) assms(3) by (simp add: populated_def B C calm_def is_ready_def)
  then show ?thesis
    using k1 k'(1,7,8) front f1 by (simp add: add_new_parts calm_def)
qed

text \<open>Further tasks: the current task is the last created one of those with the highest priority.\<close>

lemma populated_add:
  assumes "populated k" "\<not> xSchedulerRunning k" "tcbs k t = None" "t \<noteq> 0" "p < configMAX_PRIORITIES"
    "uxCurrentNumberOfTasks k + 1 < u32_bound"
  shows "\<exists>k1 k'. prvInitialiseNewTask p t s k = Some k1 \<and> prvAddNewTaskToReadyList t k1 = Some k' \<and> populated k' \<and>
    xSchedulerRunning k' = xSchedulerRunning k \<and> uxSchedulerSuspended k' = uxSchedulerSuspended k \<and>
    xPendedTicks k' = xPendedTicks k \<and> xYieldPending k' = xYieldPending k"
proof -
  have P: "kinv {} {} 0 k" "pxCurrentTCB k \<noteq> 0" "\<And>u. tcbs k u \<noteq> None \<Longrightarrow> is_ready k u"
    "\<And>u. container (klists k) (EventItem u) = None" "\<And>u b. tcbs k u = Some b \<Longrightarrow> ucNotifyState b \<noteq> Waiting"
    "finite (dom (tcbs k))" "uxCurrentNumberOfTasks k = card (dom (tcbs k))"
    using assms(1) by (simp_all add: populated_def)
  obtain c where c: "tcbs k (pxCurrentTCB k) = Some c" "\<And>u b. tcbs k u = Some b \<Longrightarrow> uxPriority b \<le> uxPriority c"
    using assms(1) by (auto simp: populated_def)
  obtain b k1 where k1: "prvInitialiseNewTask p t s k = Some k1" "kinv {t} {} 0 k1" "tcbs k1 = (tcbs k)(t := Some b)"
    "uxPriority b = p" "ucNotifyState b = NotWaiting" "calm k k1" "container (klists k1) = container (klists k)"
    by (rule initialise_task_ok [OF P(1) assms(3-5)]) blast
  have y1: "xYieldPending k1 = xYieldPending k"
    using k1(1) by (auto simp: prvInitialiseNewTask_def Let_def split: if_splits)
  let ?cur = "if uxPriority c \<le> p then t else pxCurrentTCB k"
  let ?k2 = "k1\<lparr>uxCurrentNumberOfTasks := uxCurrentNumberOfTasks k + 1, pxCurrentTCB := ?cur\<rparr>"
  have ct: "pxCurrentTCB k \<noteq> t"
    using c(1) assms(3) by auto
  have front: "add_front t (k1\<lparr>uxCurrentNumberOfTasks := add32 (uxCurrentNumberOfTasks k1) 1\<rparr>) = Some ?k2"
    using k1(3,4,6) P(2) assms(2,6) c(1) ct by (simp add: add_front_def calm_def add32_exact)
  have inv: "kinv {t} {} 0 ?k2" "tcbs ?k2 t = Some b" "\<not> xSchedulerRunning ?k2"
    using k1(2,3,6) assms(2) by (simp_all add: calm_def)
  obtain k' b' where k': "add_rest t ?k2 = Some k'" "kinv {} {} 0 k'" "tcbs k' = (tcbs ?k2)(t := Some b')" "uxPriority b' = uxPriority b"
    "ucNotifyState b' = ucNotifyState b" "container (klists k') = (container (klists ?k2))(StateItem t := Some (Ready (uxPriority b)))"
    "calm ?k2 k'" "xYieldPending k' = xYieldPending ?k2"
    using add_rest_ok [OF inv] by blast
  have B: "tcbs k' = (tcbs k)(t := Some b')"
    using k'(3) k1(3) by simp
  have C: "container (klists k') = (container (klists k))(StateItem t := Some (Ready p))"
    using k'(6) k1(4,7) by simp
  have cur: "pxCurrentTCB k' = ?cur" "uxCurrentNumberOfTasks k' = uxCurrentNumberOfTasks k + 1"
    using k'(7) by (simp_all add: calm_def)
  have "is_ready k' u" if "tcbs k' u \<noteq> None" for u
    using that P(3) [of u] by (cases "u = t") (auto simp: B C is_ready_def)
  moreover have "ucNotifyState d \<noteq> Waiting" if "tcbs k' u = Some d" for u d
    using that P(5) [of u d] k'(5) k1(5) by (cases "u = t") (auto simp: B)
  moreover have "card (dom (tcbs k')) = card (dom (tcbs k)) + 1" "finite (dom (tcbs k'))"
    using P(6) assms(3) by (simp_all add: B domIff)
  moreover have "\<exists>c'. tcbs k' (pxCurrentTCB k') = Some c' \<and> (\<forall>u d. tcbs k' u = Some d \<longrightarrow> uxPriority d \<le> uxPriority c')"
  proof (cases "uxPriority c \<le> p")
    case True
    then have "uxPriority d \<le> p" if "tcbs k' u = Some d" for u d
      using that c(2) [of u d] k'(4) k1(4) by (cases "u = t") (auto simp: B)
    with True show ?thesis
      using k'(4) k1(4) by (simp add: cur B)
  next
    case False
    then have "uxPriority d \<le> uxPriority c" if "tcbs k' u = Some d" for u d
      using that c(2) [of u d] k'(4) k1(4) by (cases "u = t") (auto simp: B)
    with False show ?thesis
      using c(1) ct by (simp add: cur B)
  qed
  ultimately have "populated k'"
    using k'(2) P(2,4,7) assms(4) by (simp add: populated_def cur C)
  then show ?thesis
    using k1(1,6) k'(1,7,8) front y1 by (simp add: add_new_parts calm_def)
qed

lemma boot_add:
  assumes "boot_ok k" "tcbs k t = None" "t \<noteq> 0" "p < configMAX_PRIORITIES" "uxCurrentNumberOfTasks k + 1 < u32_bound"
  shows "\<exists>k1 k' b. prvInitialiseNewTask p t s k = Some k1 \<and> prvAddNewTaskToReadyList t k1 = Some k' \<and> boot_ok k' \<and>
    tcbs k' = (tcbs k)(t := Some b) \<and> pxStack b = s \<and> uxBasePriority b = p"
proof -
  have run: "\<not> xSchedulerRunning k" and cases: "blank k \<or> populated k"
    using assms(1) by (simp_all add: boot_ok_def)
  have "\<exists>k1 k'. prvInitialiseNewTask p t s k = Some k1 \<and> prvAddNewTaskToReadyList t k1 = Some k' \<and> populated k' \<and>
    xSchedulerRunning k' = xSchedulerRunning k \<and> uxSchedulerSuspended k' = uxSchedulerSuspended k \<and>
    xPendedTicks k' = xPendedTicks k \<and> xYieldPending k' = xYieldPending k"
    using cases blank_add [OF _ run assms(3,4)] populated_add [OF _ run assms(2-5)] by blast
  then obtain k1 k' where k': "prvInitialiseNewTask p t s k = Some k1" "prvAddNewTaskToReadyList t k1 = Some k'" "boot_ok k'"
    using assms(1) by (auto simp: boot_ok_def)
  with new_task_tcbs [OF k'(1,2)] show ?thesis by blast
qed

interpretation booting: kernel_phase boot_ok
proof unfold_locales
  fix k
  assume ok: "boot_ok k"
  show "\<exists>y k'. xTaskResumeAll (vTaskSuspendAll k) = Some (y, k') \<and> boot_ok k' \<and> tcbs k' = tcbs k"
    using boot_pause [OF ok] ok by blast
  show "finite (dom (tcbs k)) \<and> uxCurrentNumberOfTasks k = card (dom (tcbs k))"
    using ok by (auto simp: boot_ok_def blank_def populated_def)
qed (rule boot_add; assumption)

section \<open>Starting the scheduler\<close>

fun create_all :: "(nat \<times> nat) list \<Rightarrow> kernel \<times> heap \<Rightarrow> (kernel \<times> heap) option" where
  "create_all [] w = Some w"
| "create_all ((d, p) # ts) w = do { (t, w) \<leftarrow> xTaskCreate d p w; create_all ts w }"

text \<open>What a program state consists of: a kernel in the given phase, and the heap with the blocks \<open>es\<close> handed out.\<close>

definition world_ok :: "(kernel \<Rightarrow> bool) \<Rightarrow> kernel \<times> heap \<Rightarrow> (addr \<times> nat) list \<Rightarrow> bool" where
  "world_ok phase w es \<longleftrightarrow> phase (fst w) \<and> heap_live (snd w) es \<and> tasks_own (tcbs (fst w)) es"

context kernel_phase
begin

lemma create_world:
  assumes "world_ok phase w es" "p < configMAX_PRIORITIES"
  obtains t w' es' where "xTaskCreate d p w = Some (t, w')" "world_ok phase w' es'"
    "dom (tcbs (fst w')) = (if t = 0 then dom (tcbs (fst w)) else insert t (dom (tcbs (fst w))))"
    "if t = 0 then es' = es
     else length es' = length es + 2 \<and> tcbs (fst w) t = None \<and> (\<exists>b. tcbs (fst w') t = Some b \<and> uxBasePriority b = p)"
proof -
  have w: "phase (fst w)" "heap_live (snd w) es" "tasks_own (tcbs (fst w)) es"
    using assms(1) by (simp_all add: world_ok_def)
  obtain t k' h' es' where C: "xTaskCreate d p (fst w, snd w) = Some (t, k', h')" "phase k'" "heap_live h' es'" "tasks_own (tcbs k') es'"
    "if t = 0 then tcbs k' = tcbs (fst w) \<and> es' = es
     else tcbs (fst w) t = None \<and> (\<exists>b m n. tcbs k' = (tcbs (fst w))(t := Some b) \<and> uxBasePriority b = p \<and>
       es' = (t, m) # (pxStack b, n) # es \<and> sizeof_TCB_t \<le> m \<and> mul32 d sizeof_StackType_t \<le> n)"
    using create_ok [OF w assms(2), of d] by blast
  show ?thesis
  proof (rule that [of t "(k', h')" es'])
    show "world_ok phase (k', h') es'"
      using C(2-4) by (simp add: world_ok_def)
    show "dom (tcbs (fst (k', h'))) = (if t = 0 then dom (tcbs (fst w)) else insert t (dom (tcbs (fst w))))"
      using C(5) by (cases "t = 0") auto
    show "if t = 0 then es' = es
      else length es' = length es + 2 \<and> tcbs (fst w) t = None \<and> (\<exists>b. tcbs (fst (k', h')) t = Some b \<and> uxBasePriority b = p)"
      using C(5) by (auto split: if_splits)
  qed (use C(1) in simp)
qed

lemma create_all_world:
  assumes "world_ok phase w es" "\<forall>(d, p) \<in> set ts. p < configMAX_PRIORITIES"
  shows "\<exists>w' es'. create_all ts w = Some w' \<and> world_ok phase w' es' \<and>
    length es' + 2 * card (dom (tcbs (fst w))) = length es + 2 * card (dom (tcbs (fst w')))"
  using assms
proof (induction ts arbitrary: w es)
  case (Cons a ts)
  obtain d p where a: "a = (d, p)" "p < configMAX_PRIORITIES"
    using Cons.prems(2) by (cases a) auto
  obtain t w1 es1 where C: "xTaskCreate d p w = Some (t, w1)" "world_ok phase w1 es1"
    "dom (tcbs (fst w1)) = (if t = 0 then dom (tcbs (fst w)) else insert t (dom (tcbs (fst w))))"
    "if t = 0 then es1 = es
     else length es1 = length es + 2 \<and> tcbs (fst w) t = None \<and> (\<exists>b. tcbs (fst w1) t = Some b \<and> uxBasePriority b = p)"
    by (rule create_world [OF Cons.prems(1) a(2), of d])
  have "finite (dom (tcbs (fst w)))"
    using Cons.prems(1) count_law by (simp add: world_ok_def)
  then have "length es1 + 2 * card (dom (tcbs (fst w))) = length es + 2 * card (dom (tcbs (fst w1)))"
    using C(3,4) by (cases "t = 0") (auto simp: domIff)
  moreover obtain w' es' where "create_all ts w1 = Some w'" "world_ok phase w' es'"
    "length es' + 2 * card (dom (tcbs (fst w1))) = length es1 + 2 * card (dom (tcbs (fst w')))"
    using Cons.IH [OF C(2)] Cons.prems(2) by auto
  ultimately show ?case
    using C(1) a(1) by (intro exI [of _ w'] exI [of _ es']) simp
qed auto

end

lemma boot_ok_idle [simp]: "boot_ok (k\<lparr>xIdleTaskHandle := t\<rparr>) = boot_ok k"
proof -
  have "is_ready (k\<lparr>xIdleTaskHandle := t\<rparr>) u = is_ready k u" for u
    by (simp add: is_ready_def)
  then show ?thesis
    by (simp add: boot_ok_def blank_def populated_def)
qed

text \<open>The first tick period begins: no task is delayed, the idle task is ready.\<close>

lemma start_kernel_ok:
  assumes "boot_ok k" "tcbs k (xIdleTaskHandle k) \<noteq> None"
  shows "kernel_ok (k\<lparr>xNextTaskUnblockTime := portMAX_DELAY, xSchedulerRunning := True, xTickCount := 0\<rparr>)"
    "runs (k\<lparr>xNextTaskUnblockTime := portMAX_DELAY, xSchedulerRunning := True, xTickCount := 0\<rparr>)"
proof -
  let ?k = "k\<lparr>xNextTaskUnblockTime := portMAX_DELAY, xSchedulerRunning := True, xTickCount := 0\<rparr>"
  have P: "kinv {} {} 0 k" "\<And>u. tcbs k u \<noteq> None \<Longrightarrow> is_ready k u" "\<And>u. container (klists k) (EventItem u) = None"
    "\<And>u b. tcbs k u = Some b \<Longrightarrow> ucNotifyState b \<noteq> Waiting" "finite (dom (tcbs k))" "uxCurrentNumberOfTasks k = card (dom (tcbs k))"
    "tcbs k (pxCurrentTCB k) \<noteq> None" "xPendedTicks k = 0"
    using assms by (auto simp: boot_ok_def populated_def blank_def)
  have r: "is_ready ?k u = is_ready k u" for u
    by (simp add: is_ready_def)
  have none: "items (klists k) l = []" if l: "l \<in> {Delayed1, Delayed2}" for l
  proof (rule ccontr)
    assume "items (klists k) l \<noteq> []"
    then obtain i where i: "i \<in> set (items (klists k) l)"
      by fastforce
    then have "slot_ok (tcbs k) l i"
      by (rule typed_slot [OF kinv_parts(2) [OF P(1)]])
    then obtain t where t: "i = StateItem t" "tcbs k t \<noteq> None"
      using l by auto
    have "container (klists k) (StateItem t) = Some l"
      using container_items [OF P(1)] i t(1) by simp
    with P(2) [OF t(2)] l show False
      by (auto simp: is_ready_def)
  qed
  then have "items (klists k) (pxDelayedTaskList k) = []"
    using delayed_lists [OF P(1)] by auto
  then have "kinv {} {} (Suc 0) ?k"
    using P(1) by (auto simp: kinv_def delays_ok_def)
  moreover have "items (klists k) PendingReady = []"
    using pending_nil_iff [OF P(1)] P(3) by simp
  ultimately show "kernel_ok ?k" "runs ?k"
    using P assms(2) r by (simp_all add: kernel_ok_def sched_def events_ok_def)
qed

text \<open>The memory a boot takes: \<open>allocate\<close> asks for blocks of the given sizes, one after the other.\<close>

fun allocate :: "nat list \<Rightarrow> heap \<Rightarrow> heap option" where
  "allocate [] h = Some h"
| "allocate (n # ns) h =
     (case pvPortMalloc n h of None \<Rightarrow> None | Some (p, h) \<Rightarrow> if p \<noteq> 0 then allocate ns h else None)"

lemma allocate_append: "allocate (xs @ ys) h = Option.bind (allocate xs h) (allocate ys)"
  by (induction xs arbitrary: h) (auto split: option.splits)

lemma boot_memory:
  assumes "boot_ok k"
  shows "kernel_malloc n (k, h) = map_option (\<lambda>(p, h). (p, k, h)) (pvPortMalloc n h)"
    "kernel_free p (k, h) = map_option (\<lambda>h. (k, h)) (vPortFree p h)"
proof -
  show "kernel_malloc n (k, h) = map_option (\<lambda>(p, h). (p, k, h)) (pvPortMalloc n h)"
    using boot_pause [OF assms] by (cases "pvPortMalloc n h") (auto simp: kernel_malloc_def)
  show "kernel_free p (k, h) = map_option (\<lambda>h. (k, h)) (vPortFree p h)"
    using boot_pause [OF assms] by (cases "vPortFree p h") (auto simp: kernel_free_def)
qed

lemma boot_create_idle:
  assumes "boot_ok (fst w)" "xTaskCreate d p w = Some (t, w')"
  shows "xIdleTaskHandle (fst w') = xIdleTaskHandle (fst w)"
proof -
  have init: "prvInitialiseNewTask p t s k = Some k' \<Longrightarrow> xIdleTaskHandle k' = xIdleTaskHandle k" for t s k k'
    by (auto simp: prvInitialiseNewTask_def Let_def split: if_splits)
  have ready: "prvAddTaskToReadyList t k = Some k' \<Longrightarrow> xIdleTaskHandle k' = xIdleTaskHandle k" for t k k'
    by (auto simp: prvAddTaskToReadyList_def list_insert_end_def Let_def bind_eq_Some_conv split: if_splits)
  have front: "add_front t k = Some k' \<Longrightarrow> xIdleTaskHandle k' = xIdleTaskHandle k" for t k k'
    by (auto simp: add_front_def prvInitialiseTaskLists_def Let_def bind_eq_Some_conv split: if_splits)
  have yield: "taskYIELD_ANY_CORE_IF_USING_PREEMPTION t k = Some k' \<Longrightarrow> xIdleTaskHandle k' = xIdleTaskHandle k" for t k k'
    by (auto simp: taskYIELD_ANY_CORE_IF_USING_PREEMPTION_def portYIELD_WITHIN_API_def bind_eq_Some_conv split: if_splits)
  have rest: "add_rest t k = Some k' \<Longrightarrow> xIdleTaskHandle k' = xIdleTaskHandle k" for t k k'
    by (auto simp: add_rest_def upd_tcb_def bind_eq_Some_conv split: if_splits dest!: ready yield)
  obtain k h where w: "w = (k, h)" by (cases w)
  have ok: "boot_ok k"
    using assms(1) by (simp add: w)
  show ?thesis
    using assms(2) unfolding w
    by (auto simp: xTaskCreate_def prvCreateTask_def boot_memory [OF ok] bind_eq_Some_conv add_new_parts split: if_splits
        dest!: init front rest)
qed

text \<open>Before the start, a task is created exactly when there is memory for its stack and its control block.\<close>

definition task_memory :: "nat \<Rightarrow> nat list" where
  "task_memory d = [mul32 d sizeof_StackType_t, sizeof_TCB_t]"

lemma boot_create_memory:
  assumes "boot_ok k" "xTaskCreate d p (k, h) = Some (t, k', h')"
  shows "case allocate (task_memory d) h of None \<Rightarrow> t = 0 | Some h1 \<Rightarrow> t \<noteq> 0 \<and> h' = h1"
  using assms(2)
  by (auto simp: xTaskCreate_def prvCreateTask_def boot_memory [OF assms(1)] bind_eq_Some_conv task_memory_def
      split: if_splits option.splits)

text \<open>The two ends of the start: the idle task, and what remains when the timer task is there.\<close>

lemma start_idle:
  assumes "world_ok boot_ok w es"
  shows "case allocate (task_memory configMINIMAL_STACK_SIZE) (snd w) of
      None \<Rightarrow> prvCreateIdleTasks w = None \<or> (\<exists>w1. prvCreateIdleTasks w = Some (False, w1))
    | Some h1 \<Rightarrow> \<exists>w1 es1. prvCreateIdleTasks w = Some (True, w1) \<and> world_ok boot_ok w1 es1 \<and> snd w1 = h1 \<and>
        length es1 = length es + 2 \<and> tcbs (fst w1) (xIdleTaskHandle (fst w1)) \<noteq> None \<and>
        dom (tcbs (fst w1)) = insert (xIdleTaskHandle (fst w1)) (dom (tcbs (fst w))) \<and>
        tcbs (fst w) (xIdleTaskHandle (fst w1)) = None"
proof -
  have z: "(0 :: nat) < configMAX_PRIORITIES"
    by (simp add: configMAX_PRIORITIES_def)
  obtain t w1 es1 where C: "xTaskCreate configMINIMAL_STACK_SIZE 0 w = Some (t, w1)" "world_ok boot_ok w1 es1"
    "dom (tcbs (fst w1)) = (if t = 0 then dom (tcbs (fst w)) else insert t (dom (tcbs (fst w))))"
    "if t = 0 then es1 = es
     else length es1 = length es + 2 \<and> tcbs (fst w) t = None \<and> (\<exists>b. tcbs (fst w1) t = Some b \<and> uxBasePriority b = 0)"
    by (rule booting.create_world [OF assms z, of configMINIMAL_STACK_SIZE])
  obtain k h k1 h1 where w: "w = (k, h)" "w1 = (k1, h1)"
    by (cases w, cases w1)
  have M: "case allocate (task_memory configMINIMAL_STACK_SIZE) h of None \<Rightarrow> t = 0 | Some h2 \<Rightarrow> t \<noteq> 0 \<and> h1 = h2"
    using assms C(1) by (intro boot_create_memory [of k configMINIMAL_STACK_SIZE 0 h t k1 h1]) (simp_all add: w world_ok_def)
  show ?thesis
  proof (cases "t = 0")
    case True
    with M C(1) show ?thesis
      by (simp add: w prvCreateIdleTasks_def split: option.splits)
  next
    case False
    then have *: "allocate (task_memory configMINIMAL_STACK_SIZE) h = Some h1"
      using M by (auto split: option.splits)
    have "tcbs k1 t \<noteq> None"
      using False C(3) by (auto simp: w)
    with False C(1,2,3,4) * show ?thesis
      by (auto simp: w prvCreateIdleTasks_def world_ok_def intro!: exI [of _ es1])
  qed
qed

lemma start_done:
  assumes "world_ok boot_ok (k, h) es" "tcbs k (xIdleTaskHandle k) \<noteq> None"
  shows "world_ok running_ok (k\<lparr>xNextTaskUnblockTime := portMAX_DELAY, xSchedulerRunning := True, xTickCount := 0\<rparr>, h) es"
proof -
  have b: "boot_ok k"
    using assms(1) by (simp add: world_ok_def)
  then have "running_ok (k\<lparr>xNextTaskUnblockTime := portMAX_DELAY, xSchedulerRunning := True, xTickCount := 0\<rparr>)"
    using start_kernel_ok [OF b assms(2)] by (simp add: running_ok_def boot_ok_def u32_bound_def)
  with assms(1) show ?thesis
    by (simp add: world_ok_def)
qed

section \<open>Deleting a task\<close>

lemma kinv_forget:
  assumes "kinv {t} {} m k" "container (klists k) (EventItem t) = None"
  shows "kinv {} {} m (k\<lparr>tcbs := (tcbs k)(t := None)\<rparr>)"
proof -
  note K = kinv_parts [OF assms(1)]
  have "StateItem t \<notin> set (items (klists k) l) \<and> EventItem t \<notin> set (items (klists k) l)" for l
  proof -
    have "slot_ok (tcbs k) l (StateItem t)" if "StateItem t \<in> set (items (klists k) l)"
      using typed_slot [OF K(2) that] .
    then show ?thesis
      using K(3) container_items [OF assms(1)] slot_live [of "tcbs k" l "StateItem t"] assms(2)
      unfolding placed_def by (metis option.discI owner.simps(1) singletonI)
  qed
  then have o: "owner i \<noteq> t" if "i \<in> set (items (klists k) l)" for i l
    using that by (cases i) auto
  have "slot_ok ((tcbs k)(t := None)) l i" if "i \<in> set (items (klists k) l)" for l i
    using typed_slot [OF K(2) that] o [OF that] by (cases l; cases i) auto
  then have "typed ((tcbs k)(t := None)) (klists k)"
    by (simp add: typed_def)
  moreover have "placed {} ((tcbs k)(t := None)) (klists k)" "priorities_ok ((tcbs k)(t := None))"
    using K(3,4) by (auto simp: placed_def priorities_ok_def)
  ultimately show ?thesis
    using K by (simp add: kinv_def)
qed

lemma delete_other_ok:
  assumes "world_ok running_ok (k, h) es" "tcbs k t = Some b" "t \<noteq> pxCurrentTCB k" "t \<noteq> xIdleTaskHandle k"
    "(t, m) \<in> set es" "(pxStack b, n) \<in> set es"
  shows "\<exists>k' h'. vTaskDelete t (k, h) = Some (k', h') \<and>
    world_ok running_ok (k', h') (remove1 (t, m) (remove1 (pxStack b, n) es)) \<and>
    tcbs k' = (tcbs k)(t := None) \<and> xPortGetFreeHeapSize h' = xPortGetFreeHeapSize h + (m + 8) + (n + 8)"
proof -
  have W: "running_ok k" "heap_live h es" "tasks_own (tcbs k) es"
    using assms(1) by (simp_all add: world_ok_def)
  then have ok: "kernel_ok k" and runs: "runs k" "uxSchedulerSuspended k + 1 < u32_bound"
    by (simp_all add: running_ok_def)
  note O = kernel_okD [OF ok]
  have t0: "t \<noteq> 0"
    using live_not_null [OF ok] assms(2) by simp
  have "\<exists>k1. leave_state_list t k = Some k1 \<and> kinv {t} {} (Suc (xTickCount k)) k1 \<and> stable k k1 \<and> same_clock k k1 \<and>
    container (klists k1) = (container (klists k))(StateItem t := None) \<and> pendsv k1 = pendsv k"
    by (rule leave_state_list_ok [OF O(2) assms(2)]) blast
  then obtain k1 where k1: "leave_state_list t k = Some k1" "kinv {t} {} (Suc (xTickCount k)) k1" "stable k k1" "same_clock k k1"
    "container (klists k1) = (container (klists k))(StateItem t := None)" "pendsv k1 = pendsv k"
    by blast
  obtain k2 where k2: "list_remove_if (EventItem t) k1 = Some k2" "only_lists k1 k2"
    "container (klists k2) = (container (klists k1))(EventItem t := None)" "kinv {t} {} (Suc (xTickCount k)) k2"
    by (rule list_remove_if_event [OF k1(2), of t]) blast
  note f2 = only_lists_fields [OF k2(2)]
  have s2: "stable k k2" "same_clock k k2"
    using only_lists_stable [OF k2(2)] stable_trans [OF k1(3)] same_clock_trans [OF k1(4)] by blast+
  define k3 where "k3 = prvResetNextTaskUnblockTime (k2\<lparr>uxTaskNumber := add32 (uxTaskNumber k2) 1,
      uxCurrentNumberOfTasks := sub32 (uxCurrentNumberOfTasks k2) 1\<rparr>)"
  define k4 where "k4 = k3\<lparr>tcbs := (tcbs k3)(t := None)\<rparr>"
  have card: "finite (dom (tcbs k))" "uxCurrentNumberOfTasks k = card (dom (tcbs k))"
    using O(1) by (simp_all add: sched_def)
  have pos: "0 < card (dom (tcbs k))"
    using card(1) assms(2) by (auto simp: card_gt_0_iff)
  have few: "uxCurrentNumberOfTasks k < u32_bound"
  proof -
    have "dom (tcbs k) \<subseteq> fst ` set es"
      using tasks_own_live [OF W(3)] by auto
    then have "card (dom (tcbs k)) \<le> length es"
      using card_mono [of "fst ` set es" "dom (tcbs k)"] card_length [of "map fst es"] by simp
    then show ?thesis
      using heap_live_few [OF W(2)] card(2) by simp
  qed
  have inv: "kinv {t} {} (Suc (xTickCount k)) (k2\<lparr>uxTaskNumber := add32 (uxTaskNumber k2) 1,
      uxCurrentNumberOfTasks := sub32 (uxCurrentNumberOfTasks k2) 1\<rparr>)"
    using k2(4) by simp
  note R = reset_unblock_time [OF inv]
  have F3: "tcbs k3 = tcbs k" "klists k3 = klists k2" "pxCurrentTCB k3 = pxCurrentTCB k" "uxSchedulerSuspended k3 = uxSchedulerSuspended k"
    "xPendedTicks k3 = xPendedTicks k" "xIdleTaskHandle k3 = xIdleTaskHandle k" "xSchedulerRunning k3" "xTickCount k3 = xTickCount k"
    "pendsv k3 = pendsv k" "uxCurrentNumberOfTasks k3 = uxCurrentNumberOfTasks k - 1"
    using R(2-6) s2 O(7) k1(6) f2 card(2) pos few unfolding k3_def stable_def same_clock_def
    by (simp_all add: sub32_exact)
  have C: "container (klists k4) = (container (klists k))(StateItem t := None, EventItem t := None)"
    by (simp add: k4_def F3(2) k2(3) k1(5))
  have inv4: "kinv {} {} (Suc (xTickCount k4)) k4"
  proof -
    have "kinv {t} {} (Suc (xTickCount k)) k3"
      unfolding k3_def by (rule R(1))
    from kinv_forget [OF this] show ?thesis
      by (simp add: k4_def F3(2,8) k2(3))
  qed
  have r: "is_ready k4 u \<longleftrightarrow> is_ready k u" if "u \<noteq> t" for u
    using that by (simp add: is_ready_def C)
  have nt: "\<not> is_ready k4 t"
    by (simp add: is_ready_def C)
  have "events_ok k4"
    unfolding events_ok_def
  proof (intro conjI allI impI)
    fix u c
    assume "tcbs k4 u = Some c" "ucNotifyState c = Waiting"
    then show "container (klists k4) (EventItem u) = None"
      using O(6) unfolding events_ok_def C by (auto simp: k4_def F3(1) split: if_splits)
  next
    fix u e
    assume "container (klists k4) (EventItem u) = Some (EventList e)"
    then show "\<not> is_ready k4 u"
      using O(6) r [of u] by (auto simp: events_ok_def C split: if_splits)
  qed
  moreover have "finite (dom (tcbs k4))" "uxCurrentNumberOfTasks k4 = card (dom (tcbs k4))"
    using card assms(2) by (simp_all add: k4_def F3 card_Diff_singleton domI)
  moreover have "tcbs k4 (pxCurrentTCB k4) \<noteq> None" "is_ready k4 (xIdleTaskHandle k4)"
    using O(4,5) assms(3,4) r [of "xIdleTaskHandle k"] by (auto simp: k4_def F3)
  ultimately have "sched k4"
    using inv4 O(3) F3 by (simp add: sched_def k4_def)
  moreover have "items (klists k) PendingReady = [] \<longrightarrow> items (klists k4) PendingReady = []"
    unfolding pending_nil_iff [OF O(2)] pending_nil_iff [OF inv4] by (simp add: C)
  moreover have "runs k4"
    using runs(1) assms(3) r [of "pxCurrentTCB k"] by (simp add: k4_def F3)
  ultimately have run4: "running_ok k4"
    using ok runs(2) F3 by (simp add: running_ok_def kernel_ok_def k4_def)
  have del: "vTaskDelete t (k, h) = prvDeleteTCB t (k3, h)"
    using k1(1) k2(1) t0 assms(3) s2(1) by (simp add: vTaskDelete_def handle_def Let_def k3_def stable_def)
  have fr: "prvDeleteTCB t (k3, h) = Option.bind (kernel_free (pxStack b) (k4, h)) (kernel_free t)"
    using assms(2) by (simp add: prvDeleteTCB_def k4_def F3)
  obtain k5 h5 where k5: "kernel_free (pxStack b) (k4, h) = Some (k5, h5)" "running_ok k5" "tcbs k5 = tcbs k4"
    "heap_live h5 (remove1 (pxStack b, n) es)" "xPortGetFreeHeapSize h5 = xPortGetFreeHeapSize h + n + 8"
    by (rule running.free_ok [OF run4 W(2) assms(6)])
  have ts: "pxStack b \<noteq> t"
    using W(3) assms(2) unfolding tasks_own_def by blast
  have "(t, m) \<in> set (remove1 (pxStack b, n) es)"
    using assms(5) ts by (simp add: in_set_remove1)
  then obtain k6 h6 where k6: "kernel_free t (k5, h5) = Some (k6, h6)" "running_ok k6" "tcbs k6 = tcbs k5"
    "heap_live h6 (remove1 (t, m) (remove1 (pxStack b, n) es))" "xPortGetFreeHeapSize h6 = xPortGetFreeHeapSize h5 + m + 8"
    by (rule running.free_ok [OF k5(2,4)])
  have B: "tcbs k6 = (tcbs k)(t := None)"
    by (simp add: k6(3) k5(3) k4_def F3)
  have "tasks_own (tcbs k6) (remove1 (t, m) (remove1 (pxStack b, n) es))"
    unfolding tasks_own_def
  proof (intro conjI allI impI)
    fix u c
    assume u: "tcbs k6 u = Some c"
    then have uc: "u \<noteq> t" "tcbs k u = Some c"
      by (auto simp: B split: if_splits)
    have sep: "pxStack b \<noteq> u" "pxStack c \<noteq> t" "pxStack c \<noteq> pxStack b"
      using W(3) assms(2) uc unfolding tasks_own_def by blast+
    obtain m' n' where "(u, m') \<in> set es" "(pxStack c, n') \<in> set es"
      using W(3) uc(2) unfolding tasks_own_def by fastforce
    then have "(u, m') \<in> set (remove1 (t, m) (remove1 (pxStack b, n) es))"
      "(pxStack c, n') \<in> set (remove1 (t, m) (remove1 (pxStack b, n) es))"
      using sep uc(1) by (auto simp: in_set_remove1)
    then show "u \<in> fst ` set (remove1 (t, m) (remove1 (pxStack b, n) es))"
      "pxStack c \<in> fst ` set (remove1 (t, m) (remove1 (pxStack b, n) es))"
      by force+
  next
    fix u c v d
    assume "tcbs k6 u = Some c" "tcbs k6 v = Some d"
    then have "tcbs k u = Some c" "tcbs k v = Some d"
      by (auto simp: B split: if_splits)
    then show "pxStack c \<noteq> v" "u \<noteq> v \<Longrightarrow> pxStack c \<noteq> pxStack d"
      using W(3) unfolding tasks_own_def by blast+
  qed
  then show ?thesis
    using del fr k5(1,5) k6 B by (simp add: world_ok_def)
qed

end
