(* ===== verification/TaskProps.thy ===== *)
theory TaskProps
  imports TaskTime TaskBoot
begin

text \<open>
  The properties of the scheduler: what the operations of \<open>tasks.c\<close> achieve for any tasks and
  interrupts that use them as the kernel allows, with the lemmas of the theories before, and the
  concrete states the witnesses use.
\<close>

section \<open>The task lists on list.c\<close>

datatype list_op = PutEnd lname item | PutSorted lname item | TakeOut item | WalkOn lname | SetValue item nat

fun list_step :: "list_op \<Rightarrow> task_lists \<Rightarrow> (nat \<times> task_lists) option" where
  "list_step (PutEnd l i) T = (if container T i = None then Some (0, insert_end l i T) else None)"
| "list_step (PutSorted l i) T = (if container T i = None then Some (0, insert_ordered l i T) else None)"
| "list_step (TakeOut i) T = remove_item i T"
| "list_step (WalkOn l) T = (if items T l \<noteq> [] then Some (next_entry l T) else None)"
| "list_step (SetValue i v) T = (if v \<le> portMAX_DELAY then Some (0, set_value i v T) else None)"

fun store_step :: "list_op \<Rightarrow> store \<Rightarrow> (nat \<times> store) option" where
  "store_step (PutEnd l i) s = Some (0, vListInsertEnd (list_code l) (item_code i) s)"
| "store_step (PutSorted l i) s = map_option (\<lambda>s. (0, s)) (vListInsert (list_code l) (item_code i) s)"
| "store_step (TakeOut i) s = uxListRemove (item_code i) s"
| "store_step (WalkOn l) s = Some (listGET_OWNER_OF_NEXT_ENTRY (list_code l) s)"
| "store_step (SetValue i v) s = Some (0, listSET_LIST_ITEM_VALUE (item_code i) v s)"

fun run_ops :: "(list_op \<Rightarrow> 's \<Rightarrow> (nat \<times> 's) option) \<Rightarrow> list_op list \<Rightarrow> 's \<Rightarrow> (nat list \<times> 's) option" where
  "run_ops f [] s = Some ([], s)"
| "run_ops f (a # as) s = do { (r, s) \<leftarrow> f a s; (rs, s) \<leftarrow> run_ops f as s; Some (r # rs, s) }"

lemma stored_set_value:
  assumes "stored s T" "v \<le> portMAX_DELAY"
  shows "stored (listSET_LIST_ITEM_VALUE (item_code i) v s) (set_value i v T)"
proof -
  let ?s = "listSET_LIST_ITEM_VALUE (item_code i) v s"
  obtain A where A: "rep (range list_code) s A" "\<forall>l. A (list_code l) = map item_code (items T l)"
    using assms(1) by (auto simp: stored_def)
  have f: "next_of ?s = next_of s" "prev_of ?s = prev_of s" "list_at ?s = list_at s"
    by (auto simp: listSET_LIST_ITEM_VALUE_def upd_node_def fun_eq_iff)
  have n: "pxContainer (node_at ?s n) = pxContainer (node_at s n)" "pvOwner (node_at ?s n) = pvOwner (node_at s n)" for n
    by (simp_all add: listSET_LIST_ITEM_VALUE_def upd_node_def)
  have val: "value_of ?s n = (if n = Item (item_code i) then v else value_of s n)" for n
    by (simp add: listSET_LIST_ITEM_VALUE_def upd_node_def)
  have "rep (range list_code) ?s A"
    using A(1) assms(2) unfolding rep_def list_rep_def f n val by auto
  then show ?thesis
    using assms(1) A(2) unfolding stored_def f n val by auto
qed

lemma list_step_stored:
  assumes "stored s T" "lists_ok T" "\<forall>l. length (items T l) + 1 < u32_bound" "list_step a T = Some (r, T')"
  shows "\<exists>s'. store_step a s = Some (r, s') \<and> stored s' T'"
proof (cases a)
  case (PutEnd l i)
  then show ?thesis
    using stored_insert_end [OF assms(1), of i l] assms(3,4) by (auto split: if_splits)
next
  case (PutSorted l i)
  then show ?thesis
    using stored_insert_ordered [OF assms(1), of i l] assms(3,4) by (auto split: if_splits)
next
  case (TakeOut i)
  then show ?thesis
    using stored_remove_item [OF assms(1,2), of i r T'] assms(4) by auto
next
  case (WalkOn l)
  then show ?thesis
    using stored_next_entry [OF assms(1,2), of l] assms(4) by (auto split: if_splits)
next
  case (SetValue i v)
  then show ?thesis
    using stored_set_value [OF assms(1), of v i] assms(4) by (auto split: if_splits)
qed

lemma list_step_ok:
  assumes "lists_ok T" "list_step a T = Some (r, T')"
  shows "lists_ok T'" "length (items T' l) \<le> Suc (length (items T l))"
proof -
  show "lists_ok T'"
    using assms lists_ok_insert_end [of T] lists_ok_insert_ordered [of T] lists_ok_remove [of T] lists_ok_next [of T]
    by (cases a) (auto split: if_splits prod.splits simp: prod_eq_iff)
  show "length (items T' l) \<le> Suc (length (items T l))"
    using assms(2)
    by (cases a) (auto simp: insert_end_def insert_ordered_def remove_item_def next_entry_def set_value_def Let_def length_put length_remove1
        split: if_splits option.splits)
qed

text \<open>
  C7. The task lists of the scheduler are those of \<open>list.c\<close>: any sequence of the list operations
  of \<open>tasks.c\<close> (insertion at the end or by value, removal, the round-robin step, setting a value)
  that runs on the sequences of items runs on the doubly linked lists that store them, returns the
  same counts and owners and leaves lists that store the result.
\<close>

theorem task_lists_run_on_list_c:
  assumes "stored s T" "lists_ok T" "\<forall>l. length (items T l) + length as < u32_bound"
    "run_ops list_step as T = Some (rs, T')"
  shows "\<exists>s'. run_ops store_step as s = Some (rs, s') \<and> stored s' T' \<and> lists_ok T'"
  using assms
proof (induction as arbitrary: s T rs)
  case (Cons a as)
  obtain r T1 rs1 where T1: "list_step a T = Some (r, T1)" "run_ops list_step as T1 = Some (rs1, T')" "rs = r # rs1"
    using Cons.prems(4) by (auto simp: bind_eq_Some_conv)
  have "\<forall>l. length (items T l) + 1 < u32_bound"
  proof
    fix l
    show "length (items T l) + 1 < u32_bound"
      using spec [OF Cons.prems(3), of l] by (simp del: add_Suc_right)
  qed
  then obtain s1 where s1: "store_step a s = Some (r, s1)" "stored s1 T1"
    using list_step_stored [OF Cons.prems(1,2) _ T1(1)] by blast
  have "length (items T1 l) + length as < u32_bound" for l
    using list_step_ok(2) [OF Cons.prems(2) T1(1), of l] spec [OF Cons.prems(3), of l] by simp
  then obtain s' where "run_ops store_step as s1 = Some (rs1, s')" "stored s' T'" "lists_ok T'"
    using Cons.IH [OF s1(2) list_step_ok(1) [OF Cons.prems(2) T1(1)] _ T1(2)] by blast
  then show ?case
    using s1(1) T1(3) by auto
qed auto

definition empty_lists :: task_lists where
  "empty_lists = \<lparr>items = (\<lambda>_. []), walk = (\<lambda>_. None), item_value = (\<lambda>_. 0), container = (\<lambda>_. None)\<rparr>"

definition empty_store :: store where
  "empty_store = \<lparr>node_at = (\<lambda>n. \<lparr>xItemValue = (case n of Item i \<Rightarrow> 0 | End _ \<Rightarrow> portMAX_DELAY), pxNext = n, pxPrevious = n,
        pvOwner = (case n of Item i \<Rightarrow> i div 2 | End _ \<Rightarrow> 0), pxContainer = None\<rparr>),
      list_at = (\<lambda>l. \<lparr>uxNumberOfItems = 0, pxIndex = End l\<rparr>)\<rparr>"

lemma empty_stored: "stored empty_store empty_lists" "lists_ok empty_lists"
proof -
  have "rep (range list_code) empty_store (\<lambda>_. [])"
    by (auto simp: rep_def list_rep_def empty_store_def split: node.split)
  moreover have "item_code i div 2 = owner i" for i
    by (cases i) simp_all
  ultimately show "stored empty_store empty_lists"
    by (auto simp: stored_def empty_lists_def empty_store_def intro!: exI [of _ "\<lambda>_. []"])
  show "lists_ok empty_lists"
    by (simp add: lists_ok_def empty_lists_def)
qed

theorem task_lists_run_on_list_c_witness:
  "\<exists>s'. run_ops store_step [SetValue (StateItem 8) 20, PutSorted Delayed1 (StateItem 8), SetValue (StateItem 16) 5,
      PutSorted Delayed1 (StateItem 16), WalkOn Delayed1, TakeOut (StateItem 16)] empty_store = Some ([0, 0, 0, 0, 16, 1], s')"
proof -
  have "\<exists>T'. run_ops list_step [SetValue (StateItem 8) 20, PutSorted Delayed1 (StateItem 8), SetValue (StateItem 16) 5,
      PutSorted Delayed1 (StateItem 16), WalkOn Delayed1, TakeOut (StateItem 16)] empty_lists = Some ([0, 0, 0, 0, 16, 1], T')"
    by (simp add: empty_lists_def list_defs put_sorted_def position_def portMAX_DELAY_def Let_def)
  then obtain T' where "run_ops list_step [SetValue (StateItem 8) 20, PutSorted Delayed1 (StateItem 8), SetValue (StateItem 16) 5,
      PutSorted Delayed1 (StateItem 16), WalkOn Delayed1, TakeOut (StateItem 16)] empty_lists = Some ([0, 0, 0, 0, 16, 1], T')"
    by blast
  from task_lists_run_on_list_c [OF empty_stored _ this] show ?thesis
    by (auto simp: empty_lists_def u32_bound_def)
qed

section \<open>A concrete kernel\<close>

text \<open>The idle task 8, and the tasks 16 and 24 of priority 5, of which 16 runs.\<close>

definition demo_tcb :: "nat \<Rightarrow> addr \<Rightarrow> TCB" where
  "demo_tcb p s = \<lparr>uxPriority = p, uxBasePriority = p, uxMutexesHeld = 0, uxTCBNumber = 1, pxStack = s,
     ulRunTimeCounter = 0, ulNotifiedValue = 0, ucNotifyState = NotWaiting, ucDelayAborted = False\<rparr>"

definition demo_lists :: task_lists where
  "demo_lists = \<lparr>items = (\<lambda>_. [])(Ready 0 := [StateItem 8], Ready 5 := [StateItem 16, StateItem 24]),
     walk = (\<lambda>_. None)(Ready 5 := Some (StateItem 16)), item_value = (\<lambda>_. 0),
     container = (\<lambda>_. None)(StateItem 8 := Some (Ready 0), StateItem 16 := Some (Ready 5), StateItem 24 := Some (Ready 5))\<rparr>"

definition demo_kernel :: kernel where
  "demo_kernel = \<lparr>tcbs = (\<lambda>_. None)(8 := Some (demo_tcb 0 32), 16 := Some (demo_tcb 5 40), 24 := Some (demo_tcb 5 48)),
     klists = demo_lists, pxCurrentTCB = 16, pxDelayedTaskList = Delayed1, pxOverflowDelayedTaskList = Delayed2,
     uxDeletedTasksWaitingCleanUp = 0, uxCurrentNumberOfTasks = 3, xTickCount = 4294967290, uxTopReadyPriority = 33,
     xSchedulerRunning = True, xPendedTicks = 0, xYieldPending = False, xNumOfOverflows = 0, uxTaskNumber = 3,
     xNextTaskUnblockTime = portMAX_DELAY, xIdleTaskHandle = 8, uxSchedulerSuspended = 0, ulTaskSwitchedInTime = 0,
     pendsv = False\<rparr>"

lemma bit_33: "bit (33 :: 32 word) p \<longleftrightarrow> p = 0 \<or> p = 5"
proof -
  have "\<forall>p \<in> set [0..<32]. bit (33 :: 32 word) p \<longleftrightarrow> p = 0 \<or> p = 5"
    by code_simp
  then show ?thesis
    using bit_lt_32 [of "33 :: 32 word" p] by (cases "p < 32") auto
qed

lemma demo_fields [simp]:
  "klists demo_kernel = demo_lists" "pxCurrentTCB demo_kernel = 16" "xTickCount demo_kernel = 4294967290"
  "uxSchedulerSuspended demo_kernel = 0" "xIdleTaskHandle demo_kernel = 8" "pendsv demo_kernel = False"
  "xYieldPending demo_kernel = False" "uxTopReadyPriority demo_kernel = 33" "uxCurrentNumberOfTasks demo_kernel = 3"
  "tcbs demo_kernel = (\<lambda>_. None)(8 := Some (demo_tcb 0 32), 16 := Some (demo_tcb 5 40), 24 := Some (demo_tcb 5 48))"
  by (simp_all add: demo_kernel_def)

lemma demo_items [simp]:
  "items demo_lists = (\<lambda>_. [])(Ready 0 := [StateItem 8], Ready 5 := [StateItem 16, StateItem 24])"
  "walk demo_lists = (\<lambda>_. None)(Ready 5 := Some (StateItem 16))"
  "container demo_lists = (\<lambda>_. None)(StateItem 8 := Some (Ready 0), StateItem 16 := Some (Ready 5), StateItem 24 := Some (Ready 5))"
  by (simp_all add: demo_lists_def)

lemma demo_inv: "kinv {} {} (Suc (xTickCount demo_kernel)) demo_kernel"
proof -
  have "lists_ok demo_lists"
    by (auto simp: lists_ok_def split: if_splits)
  moreover have "typed (tcbs demo_kernel) demo_lists"
    by (auto simp: typed_def demo_tcb_def)
  moreover have "placed {} (tcbs demo_kernel) demo_lists"
    by (simp add: placed_def)
  moreover have "priorities_ok (tcbs demo_kernel)"
    by (simp add: priorities_ok_def demo_tcb_def configMAX_PRIORITIES_def)
  moreover have "bits_ok {} demo_lists 33"
    unfolding bits_ok_def bit_33 by (auto simp: configMAX_PRIORITIES_def split: if_splits)
  moreover have "delays_ok (Suc (xTickCount demo_kernel)) demo_lists Delayed1 Delayed2 portMAX_DELAY"
    by (simp add: delays_ok_def)
  ultimately show ?thesis
    by (simp add: kinv_def) (simp add: demo_kernel_def)
qed

lemma demo_ready: "is_ready demo_kernel u \<longleftrightarrow> u = 8 \<or> u = 16 \<or> u = 24"
  by (simp add: is_ready_def)

lemma demo_ok: "kernel_ok demo_kernel"
proof -
  have "dom (tcbs demo_kernel) = {8, 16, 24}"
    by auto
  then have "finite (dom (tcbs demo_kernel))" "card (dom (tcbs demo_kernel)) = 3"
    by simp_all
  moreover have "events_ok demo_kernel"
    by (simp add: events_ok_def demo_tcb_def)
  moreover have "xSchedulerRunning demo_kernel" "xPendedTicks demo_kernel = 0"
    by (simp_all add: demo_kernel_def)
  ultimately show ?thesis
    using demo_inv by (simp add: kernel_ok_def sched_def demo_ready u32_bound_def)
qed

lemma demo_may_block: "may_block demo_kernel"
  by (simp add: demo_ready)

section \<open>Scheduling\<close>

text \<open>
  C2. When PendSV is served and the scheduler is not suspended, the task that runs next is ready,
  no ready task has a higher priority, and among the ready tasks of that priority it is the one
  after the task of that priority that was chosen last: equal priorities take turns. The ready
  lists do not change.
\<close>

theorem switch_selects_next_of_highest:
  assumes "kernel_ok k" "uxSchedulerSuspended k = 0"
  shows "\<exists>k' p. xPortPendSVHandler now k = Some k' \<and> kernel_ok k' \<and>
    container (klists k) (StateItem (pxCurrentTCB k')) = Some (Ready p) \<and>
    (\<forall>u q. container (klists k) (StateItem u) = Some (Ready q) \<longrightarrow> q \<le> p) \<and>
    (let xs = items (klists k) (Ready p)
     in StateItem (pxCurrentTCB k') = xs ! (Suc (position (walk (klists k) (Ready p)) xs) mod length xs)) \<and>
    walk (klists k') = (walk (klists k))(Ready p := Some (StateItem (pxCurrentTCB k'))) \<and>
    items (klists k') = items (klists k)"
proof -
  note O = kernel_okD [OF assms(1)]
  let ?k = "k\<lparr>pendsv := False\<rparr>"
  obtain c where c: "tcbs ?k (pxCurrentTCB ?k) = Some c"
    using O(4) by auto
  have pre: "kinv {} {} (Suc (xTickCount k)) ?k" "is_ready ?k (xIdleTaskHandle k)" "uxSchedulerSuspended ?k = 0"
    using O(2,5) assms(2) by simp_all
  have "\<exists>k' p. vTaskSwitchContext now ?k = Some k' \<and>
    container (klists ?k) (StateItem (pxCurrentTCB k')) = Some (Ready p) \<and>
    (\<forall>u q. container (klists ?k) (StateItem u) = Some (Ready q) \<longrightarrow> q \<le> p) \<and>
    (let xs = items (klists ?k) (Ready p)
     in StateItem (pxCurrentTCB k') = xs ! (Suc (position (walk (klists ?k) (Ready p)) xs) mod length xs)) \<and>
    walk (klists k') = (walk (klists ?k))(Ready p := Some (StateItem (pxCurrentTCB k'))) \<and>
    items (klists k') = items (klists ?k)"
    by (rule switch_ok [OF pre(1,2) c pre(3), of now]) (auto simp: Let_def)
  moreover obtain k1 where "xPortPendSVHandler now k = Some k1" "kernel_ok k1"
    using step_pendsv [OF assms(1), of now] by blast
  ultimately show ?thesis
    by (auto simp: xPortPendSVHandler_def)
qed

theorem switch_selects_next_of_highest_witness:
  "\<exists>k'. xPortPendSVHandler 7 demo_kernel = Some k' \<and> pxCurrentTCB k' = 24"
proof -
  obtain k' p where k': "xPortPendSVHandler 7 demo_kernel = Some k'"
    "container (klists demo_kernel) (StateItem (pxCurrentTCB k')) = Some (Ready p)"
    "\<forall>u q. container (klists demo_kernel) (StateItem u) = Some (Ready q) \<longrightarrow> q \<le> p"
    "let xs = items (klists demo_kernel) (Ready p)
     in StateItem (pxCurrentTCB k') = xs ! (Suc (position (walk (klists demo_kernel) (Ready p)) xs) mod length xs)"
    using switch_selects_next_of_highest [OF demo_ok, of 7] by auto
  have "5 \<le> p"
    using k'(3) [rule_format, of 16 5] by simp
  with k'(2) have "p = 5"
    by (auto split: if_splits)
  with k'(1,4) show ?thesis
    by (simp add: position_def)
qed

text \<open>
  C3. A delay is exact. A task that calls \<open>vTaskDelay n\<close> with \<open>0 < n\<close> gives up the processor, and
  in every sequence of tick interrupts and context switches that follows it is ready again exactly
  from the \<open>n\<close>-th tick on, also when the tick count wraps around in between.
\<close>

theorem delay_is_exact:
  assumes "kernel_ok k" "may_block k" "0 < n" "n < u32_bound" "list_all is_clock ops"
  shows "\<exists>k1 k2. vTaskDelay n k = Some k1 \<and> pendsv k1 \<and> kexec_all ops k1 = Some k2 \<and> kernel_ok k2 \<and>
    (is_ready k2 (pxCurrentTCB k) \<longleftrightarrow> n \<le> tick_count ops)"
proof -
  obtain k1 where k1: "vTaskDelay n k = Some k1" "kernel_ok k1" "uxSchedulerSuspended k1 = 0" "tcbs k1 (pxCurrentTCB k) \<noteq> None"
    "due k1 (pxCurrentTCB k) n" "pendsv k1"
    using delay_remaining [OF assms(1-4)] by blast
  obtain k2 where k2: "kexec_all ops k1 = Some k2" "kernel_ok k2" "due k2 (pxCurrentTCB k) (n - tick_count ops)"
    using clock_run_due [OF k1(2-5) assms(5)] by blast
  show ?thesis
    using k1(1,6) k2(1,2) due_ready [OF k2(2,3)] by auto
qed

theorem delay_is_exact_witness:
  "\<exists>k1 k2. vTaskDelay 10 demo_kernel = Some k1 \<and> kexec_all (PendSV 3 # replicate 10 SysTick) k1 = Some k2 \<and> is_ready k2 16"
proof -
  have "list_all is_clock (PendSV 3 # replicate 10 SysTick)" "tick_count (PendSV 3 # replicate 10 SysTick) = 10"
    by (simp_all add: tick_count_def list_all_iff)
  with delay_is_exact [OF demo_ok demo_may_block, of 10 "PendSV 3 # replicate 10 SysTick"] show ?thesis
    by (simp add: u32_bound_def) blast
qed

text \<open>
  C6. Time-outs agree with the time that has really passed. If a call sets its time-out at some
  moment and checks it with \<open>xTaskCheckForTimeOut\<close> after a run of ticks and switches shorter than
  one wrap of the tick counter, it is told to go on, with the exact remainder and a new starting
  point, exactly if less than the time it asked for has passed, although the counter it reads may
  have wrapped around.
\<close>

theorem timeout_is_true_time:
  assumes "kernel_ok k0" "uxSchedulerSuspended k0 = 0" "list_all is_clock ops" "kexec_all ops k0 = Some k"
    "tick_count ops < u32_bound" "n < portMAX_DELAY" "tcbs k (pxCurrentTCB k) = Some b" "\<not> ucDelayAborted b"
  shows "xTaskCheckForTimeOut (vTaskSetTimeOutState k0) n k =
    Some (if tick_count ops < n then (False, vTaskSetTimeOutState k, n - tick_count ops, k)
          else (True, vTaskSetTimeOutState k0, 0, k))"
  using check_true_time [OF kernel_okD(3) [OF assms(1)] assms(5-8)] clock_run_time [OF assms(1-5)] by blast

theorem timeout_is_true_time_witness:
  "\<exists>k. kexec_all (replicate 9 SysTick) demo_kernel = Some k \<and>
    xTaskCheckForTimeOut (vTaskSetTimeOutState demo_kernel) 20 k = Some (False, vTaskSetTimeOutState k, 11, k)"
proof -
  have ops: "list_all is_clock (replicate 9 SysTick)" "tick_count (replicate 9 SysTick) = 9"
    by (simp_all add: tick_count_def list_all_length)
  have run: "\<exists>k'. kexec_all (replicate m SysTick) k = Some k' \<and> tcbs k' = tcbs k \<and> pxCurrentTCB k' = pxCurrentTCB k"
    if "kernel_ok k" "uxSchedulerSuspended k = 0" for m k
    using that
  proof (induction m arbitrary: k)
    case (Suc m)
    note O = kernel_okD [OF Suc.prems(1)]
    obtain c where c: "tcbs k (pxCurrentTCB k) = Some c"
      using O(4) by blast
    obtain sw k1 where k1: "xTaskIncrementTick k = Some (sw, k1)" "stable k k1"
      using tick_ok [OF O(2,3) c Suc.prems(2)] by blast
    obtain k2 where k2: "xPortSysTickHandler k = Some k2" "kernel_ok k2"
      using step_tick [OF Suc.prems(1)] by blast
    have "tcbs k2 = tcbs k" "pxCurrentTCB k2 = pxCurrentTCB k" "uxSchedulerSuspended k2 = 0"
      using k1 k2(1) Suc.prems(2) by (auto simp: xPortSysTickHandler_def stable_def)
    with Suc.IH [OF k2(2)] k2(1) show ?case by auto
  qed simp
  obtain k where k: "kexec_all (replicate 9 SysTick) demo_kernel = Some k" "tcbs k = tcbs demo_kernel" "pxCurrentTCB k = 16"
    using run [OF demo_ok, of 9] by auto
  have b: "tcbs k (pxCurrentTCB k) = Some (demo_tcb 5 40)" "\<not> ucDelayAborted (demo_tcb 5 40)"
    by (simp_all add: k(2,3) demo_tcb_def)
  from timeout_is_true_time [OF demo_ok _ ops(1) k(1) _ _ b, of 20] k(1) show ?thesis
    by (simp add: ops(2) u32_bound_def portMAX_DELAY_def)
qed

text \<open>
  C4. No notification is lost. A task calls \<open>ulTaskNotifyTake\<close> and finds no notification; before it
  is taken off the ready list, interrupts come, any number of ticks and of notifications of live
  tasks. If at least one of them notifies this task, the task is ready after the call has tried to
  block, and its notification value counts every one of them.
\<close>

theorem notification_is_not_lost:
  assumes "kernel_ok k" "may_block k" "tcbs k (pxCurrentTCB k) = Some b" "ulNotifiedValue b = 0"
    "0 < n" "n < u32_bound" "list_all (is_notifying (\<lambda>u. tcbs k u \<noteq> None)) ops" "GiveFromISR (pxCurrentTCB k) \<in> set ops"
  shows "\<exists>k1 k2 k3 b'. notify_take_check 0 n k = Some (True, k1) \<and> kexec_all ops k1 = Some k2 \<and>
    notify_block True n k2 = Some k3 \<and> kernel_ok k3 \<and> is_ready k3 (pxCurrentTCB k) \<and>
    tcbs k3 (pxCurrentTCB k) = Some b' \<and> ulNotifiedValue b' = of_nat (give_count (pxCurrentTCB k) ops)"
proof -
  obtain k1 where k1: "notify_take_check 0 n k = Some (True, k1)" "told k1 (pxCurrentTCB k) 0"
    "\<forall>u. tcbs k u \<noteq> None \<longrightarrow> tcbs k1 u \<noteq> None" "xIdleTaskHandle k1 = xIdleTaskHandle k"
    using told_check [OF assms(1,2,5,3,4)] by blast
  have "list_all (is_notifying (\<lambda>u. tcbs k1 u \<noteq> None)) ops"
    by (rule notifying_mono [OF assms(7)]) (use k1(3) in simp)
  then obtain k2 where k2: "kexec_all ops k1 = Some k2" "told k2 (pxCurrentTCB k) (give_count (pxCurrentTCB k) ops)"
    "xIdleTaskHandle k2 = xIdleTaskHandle k"
    using told_run [OF k1(2)] k1(4) by auto
  have "pxCurrentTCB k \<noteq> xIdleTaskHandle k2"
    using assms(2) k2(3) by simp
  from told_block [OF k2(2) this assms(5,6)]
  obtain k3 b' where k3: "notify_block True n k2 = Some k3" "kernel_ok k3" "tcbs k3 (pxCurrentTCB k) = Some b'"
    "ulNotifiedValue b' = of_nat (give_count (pxCurrentTCB k) ops)" "0 < give_count (pxCurrentTCB k) ops \<longrightarrow> is_ready k3 (pxCurrentTCB k)"
    by (elim exE conjE)
  have "filter (\<lambda>a. a = GiveFromISR (pxCurrentTCB k)) ops \<noteq> []"
    using assms(8) by (auto simp: filter_empty_conv)
  then have "0 < give_count (pxCurrentTCB k) ops"
    by (simp add: give_count_def)
  with k1(1) k2(1) k3 show ?thesis by blast
qed

theorem notification_is_not_lost_witness:
  "\<exists>k1 k2 k3 b'. notify_take_check 0 50 demo_kernel = Some (True, k1) \<and>
    kexec_all [SysTick, GiveFromISR 24, GiveFromISR 16, SysTick, GiveFromISR 16] k1 = Some k2 \<and>
    notify_block True 50 k2 = Some k3 \<and> is_ready k3 16 \<and> tcbs k3 16 = Some b' \<and> ulNotifiedValue b' = 2"
proof -
  have b: "tcbs demo_kernel (pxCurrentTCB demo_kernel) = Some (demo_tcb 5 40)" "ulNotifiedValue (demo_tcb 5 40) = 0"
    by (simp_all add: demo_tcb_def)
  have "give_count 16 [SysTick, GiveFromISR 24, GiveFromISR 16, SysTick, GiveFromISR 16] = 2"
    by (simp add: give_count_def)
  with notification_is_not_lost [OF demo_ok demo_may_block b, of 50 "[SysTick, GiveFromISR 24, GiveFromISR 16, SysTick, GiveFromISR 16]"]
  show ?thesis
    by (simp add: u32_bound_def) blast
qed

section \<open>Errors\<close>

text \<open>
  What \<open>vTaskPriorityDisinheritAfterTimeout\<close> does to a holder that is the only ready task of its
  inherited priority and falls back to a lower one.
\<close>

lemma disinherit_after_timeout_state:
  assumes "kernel_ok k" "tcbs k t = Some b" "uxMutexesHeld b = 1" "t \<noteq> pxCurrentTCB k"
    "items (klists k) (Ready (uxPriority b)) = [StateItem t]" "uxBasePriority b < uxPriority b" "w < uxPriority b"
  shows "\<exists>k'. vTaskPriorityDisinheritAfterTimeout t w k = Some k' \<and> items (klists k') (Ready (uxPriority b)) = [] \<and>
    uxTopReadyPriority k' = portRECORD_READY_PRIORITY (max (uxBasePriority b) w)
      (portRESET_READY_PRIORITY (max (uxBasePriority b) w) (uxTopReadyPriority k)) \<and>
    pxCurrentTCB k' = pxCurrentTCB k \<and> tcbs k' (pxCurrentTCB k) = tcbs k (pxCurrentTCB k) \<and>
    uxSchedulerSuspended k' = uxSchedulerSuspended k"
proof -
  let ?p = "uxPriority b" and ?n = "max (uxBasePriority b) w"
  have t0: "t \<noteq> 0"
    using live_not_null [OF assms(1)] assms(2) by simp
  define k1 where "k1 = set_event_priority t ?n (k\<lparr>tcbs := (tcbs k)(t := Some (b\<lparr>uxPriority := ?n\<rparr>))\<rparr>)"
  have f1: "tcbs k1 = (tcbs k)(t := Some (b\<lparr>uxPriority := ?n\<rparr>))" "items (klists k1) = items (klists k)"
    "container (klists k1) = container (klists k)" "uxTopReadyPriority k1 = uxTopReadyPriority k"
    "uxSchedulerSuspended k1 = uxSchedulerSuspended k" "pxCurrentTCB k1 = pxCurrentTCB k"
    by (simp_all add: k1_def set_event_priority_def list_set_value_def)
  have "?n < ?p"
    using assms(6,7) by simp
  then have ne: "?p \<noteq> ?n" "?n \<noteq> ?p"
    by (rule less_imp_neq [symmetric], rule less_imp_neq)
  have c: "container (klists k) (StateItem t) = Some (Ready ?p)"
    using container_items [OF kernel_okD(2) [OF assms(1)]] assms(5) by simp
  obtain T where T: "remove_item (StateItem t) (klists k1) = Some (0, T)"
    "items T = (items (klists k))(Ready ?p := [])" "container T = (container (klists k))(StateItem t := None)"
    using c assms(5) by (simp add: remove_item_def f1)
  define k2 where "k2 = k1\<lparr>klists := insert_end (Ready ?n) (StateItem t) T,
     uxTopReadyPriority := portRECORD_READY_PRIORITY ?n (portRESET_READY_PRIORITY ?n (uxTopReadyPriority k))\<rparr>"
  have "vTaskPriorityDisinheritAfterTimeout t w k = Some k2"
    using assms(2-4) ne t0 c T
    by (simp add: vTaskPriorityDisinheritAfterTimeout_def upd_tcb_def Let_def k1_def [symmetric] f1 list_remove_def
        prvAddTaskToReadyList_def list_insert_end_def k2_def lists_bitmap_commute)
  then show ?thesis
    using ne assms(4) by (intro exI [of _ k2]) (simp add: k2_def T(2) f1)
qed

text \<open>
  C9. \<open>vTaskPriorityDisinheritAfterTimeout\<close> resets the wrong bit. If the holder of the mutex is the
  only ready task of its inherited priority and falls back to a lower one, the bit of the inherited
  priority stays set although its ready list is empty: the code resets the bit of
  \<open>pxTCB->uxPriority\<close> after it has assigned the new priority to it. As soon as no task of a higher
  priority is ready, the next context switch finds the empty list and fails its assertion.
\<close>

theorem disinherit_after_timeout_leaves_bit:
  assumes "kernel_ok k" "tcbs k t = Some b" "uxMutexesHeld b = 1" "t \<noteq> pxCurrentTCB k"
    "items (klists k) (Ready (uxPriority b)) = [StateItem t]" "uxBasePriority b < uxPriority b" "w < uxPriority b"
  shows "\<exists>k'. vTaskPriorityDisinheritAfterTimeout t w k = Some k' \<and>
    items (klists k') (Ready (uxPriority b)) = [] \<and> bit (uxTopReadyPriority k') (uxPriority b) \<and>
    (uxSchedulerSuspended k = 0 \<longrightarrow> (\<forall>q > uxPriority b. items (klists k) (Ready q) = []) \<longrightarrow> vTaskSwitchContext now k' = None)"
proof -
  note O = kernel_okD [OF assms(1)]
  let ?p = "uxPriority b" and ?n = "max (uxBasePriority b) w"
  obtain k2 where k2: "vTaskPriorityDisinheritAfterTimeout t w k = Some k2" "items (klists k2) (Ready ?p) = []"
    "uxTopReadyPriority k2 = portRECORD_READY_PRIORITY ?n (portRESET_READY_PRIORITY ?n (uxTopReadyPriority k))"
    "pxCurrentTCB k2 = pxCurrentTCB k" "tcbs k2 (pxCurrentTCB k) = tcbs k (pxCurrentTCB k)"
    "uxSchedulerSuspended k2 = uxSchedulerSuspended k"
    using disinherit_after_timeout_state [OF assms] by blast
  have lt: "?n < ?p"
    using assms(6,7) by simp
  have bits: "bit (uxTopReadyPriority k) q \<longleftrightarrow> items (klists k) (Ready q) \<noteq> []" for q
    using kinv_parts(5) [OF O(2)] by (auto simp: bits_ok_def)
  have b2: "bit (uxTopReadyPriority k2) q \<longleftrightarrow> bit (uxTopReadyPriority k) q" if "q \<noteq> ?n" for q
    using that by (simp add: k2(3) bit_record bit_reset)
  have set: "bit (uxTopReadyPriority k2) ?p"
  proof -
    have ne: "?p \<noteq> ?n"
      using lt by (rule less_imp_neq [symmetric])
    have "bit (uxTopReadyPriority k) ?p"
      using assms(5) bits [of ?p] by simp
    then show ?thesis
      using b2 [OF ne] by (rule iffD2 [rotated])
  qed
  have "vTaskSwitchContext now k2 = None" if "uxSchedulerSuspended k = 0" "\<forall>q > ?p. items (klists k) (Ready q) = []"
  proof -
    have "\<not> bit (uxTopReadyPriority k2) q" if q: "?p < q" for q
    proof -
      have "q \<noteq> ?n"
        using q lt by linarith
      then show ?thesis
        using b2 [of q] q \<open>\<forall>q > ?p. items (klists k) (Ready q) = []\<close> by (simp add: bits)
    qed
    then have "portGET_HIGHEST_PRIORITY (uxTopReadyPriority k2) = ?p"
      by (rule highest_priority [OF set])
    then show ?thesis
      using that(1) k2(2,4-6) O(4)
      by (auto simp: vTaskSwitchContext_def taskSELECT_HIGHEST_PRIORITY_TASK_def Let_def upd_tcb_def split: if_splits)
  qed
  then show ?thesis
    by (intro exI [of _ k2] conjI impI k2(1,2) set)
qed

lemmas kernel_eval = upd_tcb_def set_event_priority_def event_value_free_def
  list_remove_def remove_item_def list_set_value_def set_value_def prvAddTaskToReadyList_def list_insert_end_def
  insert_end_def put_end_def configMAX_PRIORITIES_def vTaskDelay_def vTaskSuspendAll_def
  prvAddCurrentTaskToDelayedList_def add32_def u32_bound_def list_insert_def insert_ordered_def put_sorted_def xTaskResumeAll_def
  portYIELD_WITHIN_API_def xPortPendSVHandler_def vTaskSwitchContext_def portMAX_DELAY_def portRECORD_READY_PRIORITY_def
  portRESET_READY_PRIORITY_def taskSELECT_HIGHEST_PRIORITY_TASK_def sub32_def
  vTaskPriorityDisinheritAfterTimeout_def taskEVENT_LIST_ITEM_VALUE_IN_USE_def

text \<open>
  A task of priority 5 waited for the mutex of task 24, which inherited that priority; then its own
  priority was raised to 7, and now its wait has timed out and it runs.
\<close>

definition demo_mutex :: kernel where
  "demo_mutex = demo_kernel
     \<lparr>tcbs := (\<lambda>_. None)(8 := Some (demo_tcb 0 32), 16 := Some (demo_tcb 7 40),
        24 := Some ((demo_tcb 5 48)\<lparr>uxBasePriority := 1, uxMutexesHeld := 1\<rparr>)),
      klists := \<lparr>items = (\<lambda>_. [])(Ready 0 := [StateItem 8], Ready 5 := [StateItem 24], Ready 7 := [StateItem 16]),
        walk = (\<lambda>_. None), item_value = (\<lambda>_. 0),
        container = (\<lambda>_. None)(StateItem 8 := Some (Ready 0), StateItem 16 := Some (Ready 7), StateItem 24 := Some (Ready 5))\<rparr>,
      uxTopReadyPriority := 161\<rparr>"

lemma bit_161: "bit (161 :: 32 word) p \<longleftrightarrow> p = 0 \<or> p = 5 \<or> p = 7"
proof -
  have "\<forall>p \<in> set [0..<32]. bit (161 :: 32 word) p \<longleftrightarrow> p = 0 \<or> p = 5 \<or> p = 7"
    by code_simp
  then show ?thesis
    using bit_lt_32 [of "161 :: 32 word" p] by (cases "p < 32") auto
qed

lemma demo_mutex_ok: "kernel_ok demo_mutex"
proof -
  have dom: "dom (tcbs demo_mutex) = {8, 16, 24}"
    by (auto simp: demo_mutex_def)
  have "lists_ok (klists demo_mutex)"
    by (auto simp: lists_ok_def demo_mutex_def split: if_splits)
  moreover have "typed (tcbs demo_mutex) (klists demo_mutex)"
    by (auto simp: typed_def demo_tcb_def demo_mutex_def)
  moreover have "placed {} (tcbs demo_mutex) (klists demo_mutex)"
    by (simp add: placed_def demo_mutex_def)
  moreover have "priorities_ok (tcbs demo_mutex)"
    by (simp add: priorities_ok_def demo_tcb_def configMAX_PRIORITIES_def demo_mutex_def)
  moreover have "bits_ok {} (klists demo_mutex) 161"
    unfolding bits_ok_def bit_161 by (auto simp: configMAX_PRIORITIES_def demo_mutex_def split: if_splits)
  ultimately have "kinv {} {} (Suc (xTickCount demo_mutex)) demo_mutex"
    by (simp add: kinv_def delays_ok_def) (simp add: demo_mutex_def demo_kernel_def)
  moreover have "events_ok demo_mutex" "\<And>u. is_ready demo_mutex u \<longleftrightarrow> u = 8 \<or> u = 16 \<or> u = 24"
    by (simp_all add: events_ok_def demo_mutex_def demo_tcb_def is_ready_def)
  moreover have "pxCurrentTCB demo_mutex = 16" "xIdleTaskHandle demo_mutex = 8" "uxCurrentNumberOfTasks demo_mutex = 3"
    "xTickCount demo_mutex = 4294967290" "xSchedulerRunning demo_mutex" "uxSchedulerSuspended demo_mutex = 0"
    "xPendedTicks demo_mutex = 0" "items (klists demo_mutex) PendingReady = []" "tcbs demo_mutex 16 \<noteq> None"
    by (simp_all add: demo_mutex_def demo_kernel_def)
  ultimately show ?thesis
    by (simp add: kernel_ok_def sched_def dom u32_bound_def)
qed

text \<open>After the call, the running task delays itself for a tick and the switch fails.\<close>

theorem disinherit_after_timeout_leaves_bit_witness:
  "\<exists>k1 k2. vTaskPriorityDisinheritAfterTimeout 24 0 demo_mutex = Some k1 \<and> bit (uxTopReadyPriority k1) 5 \<and>
    items (klists k1) (Ready 5) = [] \<and> vTaskDelay 1 k1 = Some k2 \<and> xPortPendSVHandler 9 k2 = None"
proof -
  obtain k1 where k1: "vTaskPriorityDisinheritAfterTimeout 24 0 demo_mutex = Some k1" "bit (uxTopReadyPriority k1) 5"
    "items (klists k1) (Ready 5) = []"
    using disinherit_after_timeout_leaves_bit [OF demo_mutex_ok, of 24 "(demo_tcb 5 48)\<lparr>uxBasePriority := 1, uxMutexesHeld := 1\<rparr>" 0 0]
    by (auto simp: demo_mutex_def demo_tcb_def)
  moreover have "portGET_HIGHEST_PRIORITY 35 = 5"
  proof (rule highest_priority)
    have all: "\<forall>p \<in> set [0..<32]. bit (35 :: 32 word) p \<longleftrightarrow> p = 0 \<or> p = 1 \<or> p = 5"
      by code_simp
    show "bit (35 :: 32 word) 5"
      using all by simp
    show "\<not> bit (35 :: 32 word) n" if "5 < n" for n
      using all that bit_lt_32 [of "35 :: 32 word" n] by (cases "n < 32") auto
  qed
  then have "(case vTaskPriorityDisinheritAfterTimeout 24 0 demo_mutex of None \<Rightarrow> False | Some k1 \<Rightarrow>
      (case vTaskDelay 1 k1 of None \<Rightarrow> False | Some k2 \<Rightarrow> xPortPendSVHandler 9 k2 = None))"
    by (simp add: demo_mutex_def demo_kernel_def demo_tcb_def kernel_eval Let_def resume_pending.simps)
  ultimately show ?thesis
    by (auto split: option.splits)
qed

section \<open>Creating and deleting tasks\<close>

text \<open>The kernel's static variables and the heap as the program starts.\<close>

definition zero_kernel :: kernel where
  "zero_kernel = \<lparr>tcbs = (\<lambda>_. None), klists = empty_lists, pxCurrentTCB = 0, pxDelayedTaskList = Delayed1,
     pxOverflowDelayedTaskList = Delayed1, uxDeletedTasksWaitingCleanUp = 0, uxCurrentNumberOfTasks = 0, xTickCount = 0,
     uxTopReadyPriority = 0, xSchedulerRunning = False, xPendedTicks = 0, xYieldPending = False, xNumOfOverflows = 0,
     uxTaskNumber = 0, xNextTaskUnblockTime = 0, xIdleTaskHandle = 0, uxSchedulerSuspended = 0, ulTaskSwitchedInTime = 0,
     pendsv = False\<rparr>"

lemma boot_heap_live: "heap_live boot_heap []"
  using boot_heap_ok(1) by (auto simp: heap_live_def live_extents_def)

text \<open>
  Deleting another task gives all its memory back: \<open>vTaskDelete\<close> of a live task that is
  neither the running nor the idle task passes its assertions, takes the task out of every list,
  frees exactly its two heap blocks, and leaves a consistent kernel in which the other tasks still
  own theirs.
\<close>

theorem task_delete_frees_memory:
  assumes "kernel_ok k" "runs k" "uxSchedulerSuspended k + 1 < u32_bound" "heap_live h es" "tasks_own (tcbs k) es"
    "tcbs k t = Some b" "t \<noteq> pxCurrentTCB k" "t \<noteq> xIdleTaskHandle k"
  shows "\<exists>k' h' m n. vTaskDelete t (k, h) = Some (k', h') \<and> kernel_ok k' \<and> runs k' \<and> tcbs k' = (tcbs k)(t := None) \<and>
    (t, m) \<in> set es \<and> (pxStack b, n) \<in> set es \<and> heap_live h' (remove1 (t, m) (remove1 (pxStack b, n) es)) \<and>
    tasks_own (tcbs k') (remove1 (t, m) (remove1 (pxStack b, n) es)) \<and>
    xPortGetFreeHeapSize h' = xPortGetFreeHeapSize h + (m + 8) + (n + 8)"
proof -
  have w: "world_ok running_ok (k, h) es"
    using assms(1-5) by (simp add: world_ok_def running_ok_def)
  obtain m n where mn: "(t, m) \<in> set es" "(pxStack b, n) \<in> set es"
    using assms(5,6) unfolding tasks_own_def by fastforce
  from delete_other_ok [OF w assms(6-8) mn] obtain k' h' where
    "vTaskDelete t (k, h) = Some (k', h')" "world_ok running_ok (k', h') (remove1 (t, m) (remove1 (pxStack b, n) es))"
    "tcbs k' = (tcbs k)(t := None)" "xPortGetFreeHeapSize h' = xPortGetFreeHeapSize h + (m + 8) + (n + 8)"
    by (elim exE conjE)
  with mn show ?thesis
    by (intro exI [of _ k'] exI [of _ h'] exI [of _ m] exI [of _ n]) (simp add: world_ok_def running_ok_def)
qed

text \<open>Four blocks of 128 bytes from the board's heap, the memory of the idle task and of one other, which is suspended.\<close>

lemma take_128:
  assumes "heap_ok h fs as" "fs = (a, n) # gs" "144 < n"
  shows "\<exists>h'. pvPortMalloc 120 h = Some (a + 8, h') \<and> heap_ok h' ((a + 128, n - 128) # gs) ((a, 128) # as)"
proof -
  have n: "malloc_size 120 = 128" "(120 :: nat) < u32_bound"
    using malloc_size_rounds [of 120] by (simp_all add: u32_bound_def)
  have "16 < n - 128"
    using assms(3) by linarith
  then show ?thesis
    using malloc_first_fit [OF assms(1) n(2)] assms(2,3) by (auto simp: n(1))
qed

definition demo_owned :: kernel where
  "demo_owned = demo_kernel
     \<lparr>tcbs := (\<lambda>_. None)(538968072 := Some (demo_tcb 0 538968200), 538968328 := Some (demo_tcb 5 538968456)),
      klists := \<lparr>items = (\<lambda>_. [])(Ready 0 := [StateItem 538968072], Suspended := [StateItem 538968328]),
        walk = (\<lambda>_. None), item_value = (\<lambda>_. 0),
        container = (\<lambda>_. None)(StateItem 538968072 := Some (Ready 0), StateItem 538968328 := Some Suspended)\<rparr>,
      uxTopReadyPriority := 1, pxCurrentTCB := 538968072, xIdleTaskHandle := 538968072, uxCurrentNumberOfTasks := 2\<rparr>"

lemma demo_owned_heap:
  "\<exists>h. heap_live h [(538968456, 120), (538968328, 120), (538968200, 120), (538968072, 120)] \<and>
    xPortGetFreeHeapSize h = 261616"
proof -
  obtain h1 where h1: "heap_ok h1 ((538968192, 130936) # tl boot_free) [(538968064, 128)]"
    using take_128 [OF boot_heap_ok(1), of 538968064 131064 "tl boot_free"] by (auto simp: boot_free_def)
  obtain h2 where h2: "heap_ok h2 ((538968320, 130808) # tl boot_free) [(538968192, 128), (538968064, 128)]"
    using take_128 [OF h1 refl] by auto
  obtain h3 where h3: "heap_ok h3 ((538968448, 130680) # tl boot_free) [(538968320, 128), (538968192, 128), (538968064, 128)]"
    using take_128 [OF h2 refl] by auto
  obtain h4 where h4: "heap_ok h4 ((538968576, 130552) # tl boot_free)
      [(538968448, 128), (538968320, 128), (538968192, 128), (538968064, 128)]"
    using take_128 [OF h3 refl] by auto
  then have "heap_live h4 (live_extents [(538968448, 128), (538968320, 128), (538968192, 128), (538968064, 128)])"
    by (auto simp: heap_live_def)
  moreover have "xPortGetFreeHeapSize h4 = 261616"
    using h4 by (simp add: heap_ok_def xPortGetFreeHeapSize_def boot_free_def)
  ultimately show ?thesis
    by (intro exI [of _ h4]) (simp add: live_extents_def)
qed

lemma bit_1_word: "bit (1 :: 32 word) p \<longleftrightarrow> p = 0"
  by (simp add: bit_1_iff)

lemma demo_owned_ok:
  "kernel_ok demo_owned" "runs demo_owned"
  "tasks_own (tcbs demo_owned) [(538968456, 120), (538968328, 120), (538968200, 120), (538968072, 120)]"
proof -
  have dom: "dom (tcbs demo_owned) = {538968072, 538968328}"
    by (auto simp: demo_owned_def)
  have "lists_ok (klists demo_owned)"
    by (auto simp: lists_ok_def demo_owned_def split: if_splits)
  moreover have "typed (tcbs demo_owned) (klists demo_owned)"
    by (auto simp: typed_def demo_tcb_def demo_owned_def)
  moreover have "placed {} (tcbs demo_owned) (klists demo_owned)"
    by (simp add: placed_def demo_owned_def)
  moreover have "priorities_ok (tcbs demo_owned)"
    by (simp add: priorities_ok_def demo_tcb_def configMAX_PRIORITIES_def demo_owned_def)
  moreover have "bits_ok {} (klists demo_owned) 1"
    unfolding bits_ok_def bit_1_word by (auto simp: configMAX_PRIORITIES_def demo_owned_def split: if_splits)
  ultimately have "kinv {} {} (Suc (xTickCount demo_owned)) demo_owned"
    by (simp add: kinv_def delays_ok_def) (simp add: demo_owned_def demo_kernel_def)
  moreover have "events_ok demo_owned" "\<And>u. is_ready demo_owned u \<longleftrightarrow> u = 538968072"
    by (simp_all add: events_ok_def demo_owned_def demo_tcb_def is_ready_def)
  moreover have "pxCurrentTCB demo_owned = 538968072" "xIdleTaskHandle demo_owned = 538968072" "uxCurrentNumberOfTasks demo_owned = 2"
    "xTickCount demo_owned = 4294967290" "xSchedulerRunning demo_owned" "uxSchedulerSuspended demo_owned = 0"
    "xPendedTicks demo_owned = 0" "items (klists demo_owned) PendingReady = []" "tcbs demo_owned 538968072 \<noteq> None"
    by (simp_all add: demo_owned_def demo_kernel_def)
  ultimately show "kernel_ok demo_owned" "runs demo_owned"
    by (simp_all add: kernel_ok_def sched_def dom u32_bound_def)
  show "tasks_own (tcbs demo_owned) [(538968456, 120), (538968328, 120), (538968200, 120), (538968072, 120)]"
    by (auto simp: tasks_own_def demo_owned_def demo_tcb_def split: if_splits)
qed

theorem task_delete_frees_memory_witness:
  "\<exists>h k' h'. vTaskDelete 538968328 (demo_owned, h) = Some (k', h') \<and> tcbs k' 538968328 = None \<and>
    heap_live h' [(538968200, 120), (538968072, 120)] \<and> xPortGetFreeHeapSize h' = 261616 + 256"
proof -
  obtain h where h: "heap_live h [(538968456, 120), (538968328, 120), (538968200, 120), (538968072, 120)]"
    "xPortGetFreeHeapSize h = 261616"
    using demo_owned_heap by blast
  have b: "tcbs demo_owned 538968328 = Some (demo_tcb 5 538968456)" "pxStack (demo_tcb 5 538968456) = 538968456"
    by (simp_all add: demo_owned_def demo_tcb_def)
  have ne: "538968328 \<noteq> pxCurrentTCB demo_owned" "538968328 \<noteq> xIdleTaskHandle demo_owned" "uxSchedulerSuspended demo_owned + 1 < u32_bound"
    by (simp_all add: demo_owned_def u32_bound_def)
  from task_delete_frees_memory [OF demo_owned_ok(1,2) ne(3) h(1) demo_owned_ok(3) b(1) ne(1,2)]
  obtain k' h' m n where d: "vTaskDelete 538968328 (demo_owned, h) = Some (k', h')" "tcbs k' = (tcbs demo_owned)(538968328 := None)"
    "(538968328 :: nat, m) \<in> set [(538968456, 120), (538968328, 120), (538968200, 120), (538968072, 120)]"
    "(538968456 :: nat, n) \<in> set [(538968456, 120), (538968328, 120), (538968200, 120), (538968072, 120)]"
    "heap_live h' (remove1 (538968328, m) (remove1 (538968456, n) [(538968456, 120), (538968328, 120), (538968200, 120), (538968072, 120)]))"
    "xPortGetFreeHeapSize h' = xPortGetFreeHeapSize h + (m + 8) + (n + 8)"
    unfolding b(2) by (elim exE conjE) (rule that)
  have "m = 120" "n = 120"
    using d(3,4) by simp_all
  with d h(2) show ?thesis
    by (intro exI [of _ h] exI [of _ k'] exI [of _ h']) simp
qed

section \<open>Resuming the scheduler\<close>

text \<open>
  C5. \<open>xTaskResumeAll\<close> returns, whatever piled up while the scheduler was suspended: when the last
  suspension ends, every task that was made ready meanwhile is in a ready list, every tick that
  was held back is counted (the tick count advances by their number, with wrap-around), nothing
  that was ready is lost, and if a switch is due PendSV is pending.
\<close>

theorem resume_all_catches_up:
  assumes "kernel_ok k" "uxSchedulerSuspended k = 1"
  shows "\<exists>yielded k'. xTaskResumeAll k = Some (yielded, k') \<and> kernel_ok k' \<and> uxSchedulerSuspended k' = 0 \<and>
    items (klists k') PendingReady = [] \<and> xPendedTicks k' = 0 \<and>
    xTickCount k' = add32 (xTickCount k) (xPendedTicks k) \<and>
    (\<forall>u. EventItem u \<in> set (items (klists k) PendingReady) \<or> is_ready k u \<longrightarrow> is_ready k' u) \<and> (yielded \<longrightarrow> pendsv k')"
proof -
  have pos: "0 < uxSchedulerSuspended k"
    using assms(2) by simp
  obtain y k' where R: "xTaskResumeAll k = Some (y, k')"
    "calm (k\<lparr>uxSchedulerSuspended := uxSchedulerSuspended k - 1, xPendedTicks := xPendedTicks k'\<rparr>) k'" "keeps_ready k k'"
    "y \<longrightarrow> pendsv k'" "items (klists k') PendingReady = []" "xPendedTicks k' = 0"
    "xTickCount k' = add32 (xTickCount k) (xPendedTicks k)"
    "\<forall>u. EventItem u \<in> set (items (klists k) PendingReady) \<longrightarrow> is_ready k' u"
    using resume_all_ok [OF kernel_okD(1) [OF assms(1)] pos] assms(2) by blast
  moreover have "kernel_ok k'"
    using step_resume_all [OF assms(1) pos] R(1) by auto
  moreover have "uxSchedulerSuspended k' = 0"
    using R(2) assms(2) by (simp add: calm_def)
  ultimately show ?thesis
    by (auto simp: keeps_ready_def)
qed

text \<open>The demonstration kernel with the scheduler suspended and 9 ticks held back, with the wrap of the count among them.\<close>

theorem resume_all_catches_up_witness:
  "\<exists>yielded k'. xTaskResumeAll (demo_kernel\<lparr>uxSchedulerSuspended := 1, xPendedTicks := 9\<rparr>) = Some (yielded, k') \<and> xTickCount k' = 3"
proof -
  have "kernel_ok (demo_kernel\<lparr>uxSchedulerSuspended := 1, xPendedTicks := 9\<rparr>)"
    using demo_ok by (simp add: kernel_ok_def demo_ready)
  from resume_all_catches_up [OF this] show ?thesis
    by (auto simp: demo_kernel_def add32_def u32_bound_def)
qed

end
