(* ===== verification/Queues.thy ===== *)
theory Queues
  imports TaskEvents
begin

text \<open>
  Queues, semaphores and mutexes, \<open>freertos-kernel/queue.c\<close>, on top of the scheduler. A queue is a
  \<open>Queue_t\<close> with its storage behind it; the two words of its union hold \<open>pcTail\<close> and
  \<open>pcReadFrom\<close>, or \<open>xMutexHolder\<close> and \<open>uxRecursiveCallCount\<close> of a mutex, whose \<open>pcHead\<close> is null.
  Queues live at their addresses in the map \<open>queues\<close>, their event lists are those at the addresses
  of \<open>xTasksWaitingToSend\<close> and \<open>xTasksWaitingToReceive\<close>. \<open>None\<close> is a failed assertion or an
  access outside the storage.

  The blocking calls are written as the sequence of their uninterruptible parts: a program counter
  names the next part, and between two parts interrupts and, unless the scheduler is suspended,
  other tasks run.
\<close>

section \<open>State\<close>

record Queue =
  pcHead :: addr
  pcWriteTo :: addr
  uFirst :: nat
  uSecond :: nat
  uxMessagesWaiting :: nat
  uxLength :: nat
  uxItemSize :: nat
  cRxLock :: int
  cTxLock :: int
  uxQueueNumber :: nat
  ucQueueType :: nat
  storage :: "u8 list"

abbreviation pcTail :: "Queue \<Rightarrow> addr" where "pcTail \<equiv> uFirst"
abbreviation pcReadFrom :: "Queue \<Rightarrow> addr" where "pcReadFrom \<equiv> uSecond"
abbreviation xMutexHolder :: "Queue \<Rightarrow> tid" where "xMutexHolder \<equiv> uFirst"
abbreviation uxRecursiveCallCount :: "Queue \<Rightarrow> nat" where "uxRecursiveCallCount \<equiv> uSecond"

record qworld =
  kern :: kernel
  queues :: "addr \<Rightarrow> Queue option"
  xQueueRegistry :: "(string option \<times> addr) list"

definition queueUNLOCKED :: int where "queueUNLOCKED = -1"
definition queueLOCKED_UNMODIFIED :: int where "queueLOCKED_UNMODIFIED = 0"
definition queueINT8_MAX :: int where "queueINT8_MAX = 127"
definition queueSEMAPHORE_QUEUE_ITEM_LENGTH :: nat where "queueSEMAPHORE_QUEUE_ITEM_LENGTH = 0"
definition queueQUEUE_TYPE_COUNTING_SEMAPHORE :: nat where "queueQUEUE_TYPE_COUNTING_SEMAPHORE = 2"
definition configQUEUE_REGISTRY_SIZE :: nat where "configQUEUE_REGISTRY_SIZE = 8"

text \<open>Layout on this port: four words, two lists of five words, three words, two bytes, a word and a byte.\<close>

definition sizeof_Queue_t :: nat where "sizeof_Queue_t = 80"

definition xTasksWaitingToSend :: "addr \<Rightarrow> lname" where "xTasksWaitingToSend q = EventList (q + 16)"
definition xTasksWaitingToReceive :: "addr \<Rightarrow> lname" where "xTasksWaitingToReceive q = EventList (q + 36)"

definition is_mutex :: "Queue \<Rightarrow> bool" where "is_mutex Q \<longleftrightarrow> pcHead Q = 0"

datatype copy_position = queueSEND_TO_BACK | queueSEND_TO_FRONT | queueOVERWRITE

definition set_queue :: "addr \<Rightarrow> Queue \<Rightarrow> qworld \<Rightarrow> qworld" where
  "set_queue q Q w = w\<lparr>queues := (queues w)(q := Some Q)\<rparr>"

text \<open>Running an operation of the kernel inside the world of queues.\<close>

definition in_kernel :: "(kernel \<Rightarrow> ('a \<times> kernel) option) \<Rightarrow> qworld \<Rightarrow> ('a \<times> qworld) option" where
  "in_kernel f w = map_option (\<lambda>(x, k). (x, w\<lparr>kern := k\<rparr>)) (f (kern w))"

definition on_kernel :: "(kernel \<Rightarrow> kernel) \<Rightarrow> qworld \<Rightarrow> qworld" where
  "on_kernel f w = w\<lparr>kern := f (kern w)\<rparr>"

text \<open>
  \<open>memcpy\<close> to and from the storage of the queue at \<open>q\<close>, by address; \<open>None\<close> outside of it. A source
  that is null cannot be read, a longer one is read as far as the item size.
\<close>

definition copy_in :: "addr \<Rightarrow> addr \<Rightarrow> u8 list option \<Rightarrow> Queue \<Rightarrow> Queue option" where
  "copy_in q p src Q =
     (case src of
        None \<Rightarrow> None
      | Some bs \<Rightarrow>
          if p < q + sizeof_Queue_t \<or> length bs < uxItemSize Q then None
          else map_option (\<lambda>st. Q\<lparr>storage := st\<rparr>)
            (mem_write (storage Q) (p - (q + sizeof_Queue_t)) (take (uxItemSize Q) bs)))"

definition copy_out :: "addr \<Rightarrow> addr \<Rightarrow> Queue \<Rightarrow> u8 list option" where
  "copy_out q p Q =
     (if p < q + sizeof_Queue_t then None else mem_read (storage Q) (p - (q + sizeof_Queue_t)) (uxItemSize Q))"

section \<open>Copying items, waking waiting tasks\<close>

text \<open>The Boolean asks for a yield: giving back a mutex ended an inherited priority.\<close>

definition prvCopyDataToQueue :: "addr \<Rightarrow> u8 list option \<Rightarrow> copy_position \<Rightarrow> qworld \<Rightarrow> (bool \<times> qworld) option" where
  "prvCopyDataToQueue q src xPosition w =
     do { Q \<leftarrow> queues w q;
          let n = uxMessagesWaiting Q;
          if uxItemSize Q = 0
          then (if is_mutex Q
                then do { (y, w) \<leftarrow> in_kernel (xTaskPriorityDisinherit (xMutexHolder Q)) w;
                          Some (y, set_queue q (Q\<lparr>uFirst := 0, uxMessagesWaiting := add32 n 1\<rparr>) w) }
                else Some (False, set_queue q (Q\<lparr>uxMessagesWaiting := add32 n 1\<rparr>) w))
          else if xPosition = queueSEND_TO_BACK
          then do { Q \<leftarrow> copy_in q (pcWriteTo Q) src Q;
                    let p = add32 (pcWriteTo Q) (uxItemSize Q);
                    Some (False, set_queue q (Q\<lparr>pcWriteTo := (if p \<ge> pcTail Q then pcHead Q else p),
                      uxMessagesWaiting := add32 n 1\<rparr>) w) }
          else do { Q \<leftarrow> copy_in q (pcReadFrom Q) src Q;
                    let p = sub32 (pcReadFrom Q) (uxItemSize Q);
                    let n = (if xPosition = queueOVERWRITE \<and> n > 0 then sub32 n 1 else n);
                    Some (False, set_queue q (Q\<lparr>uSecond := (if p < pcHead Q then sub32 (pcTail Q) (uxItemSize Q) else p),
                      uxMessagesWaiting := add32 n 1\<rparr>) w) } }"

text \<open>The bytes read, none for a queue without data.\<close>

definition prvCopyDataFromQueue :: "addr \<Rightarrow> Queue \<Rightarrow> (u8 list \<times> Queue) option" where
  "prvCopyDataFromQueue q Q =
     (if uxItemSize Q \<noteq> 0
      then let p = add32 (pcReadFrom Q) (uxItemSize Q);
               Q = Q\<lparr>uSecond := (if p \<ge> pcTail Q then pcHead Q else p)\<rparr>
           in map_option (\<lambda>bs. (bs, Q)) (copy_out q (pcReadFrom Q) Q)
      else Some ([], Q))"

text \<open>If a task waits on the list it is woken; the flag tells that it has a higher priority.\<close>

definition wake_waiter :: "lname \<Rightarrow> qworld \<Rightarrow> (bool \<times> qworld) option" where
  "wake_waiter l w =
     (if items (klists (kern w)) l \<noteq> [] then in_kernel (xTaskRemoveFromEventList l) w else Some (False, w))"

definition yield_if :: "bool \<Rightarrow> qworld \<Rightarrow> qworld" where
  "yield_if y w = (if y then on_kernel portYIELD_WITHIN_API w else w)"

text \<open>The wake-up at the end of a task's successful call.\<close>

definition wake_and_yield :: "lname \<Rightarrow> qworld \<Rightarrow> qworld option" where
  "wake_and_yield l w = do { (y, w) \<leftarrow> wake_waiter l w; Some (yield_if y w) }"

section \<open>Locking\<close>

definition prvLockQueue :: "addr \<Rightarrow> qworld \<Rightarrow> qworld option" where
  "prvLockQueue q w =
     do { Q \<leftarrow> queues w q;
          let Q = (if cRxLock Q = queueUNLOCKED then Q\<lparr>cRxLock := queueLOCKED_UNMODIFIED\<rparr> else Q);
          let Q = (if cTxLock Q = queueUNLOCKED then Q\<lparr>cTxLock := queueLOCKED_UNMODIFIED\<rparr> else Q);
          Some (set_queue q Q w) }"

text \<open>A lock count after an interrupt used the locked queue; \<open>n\<close> is the number of tasks. The comparison is unsigned.\<close>

definition incremented_lock :: "nat \<Rightarrow> int \<Rightarrow> int option" where
  "incremented_lock n c =
     (if nat (c mod int u32_bound) < n then (if c = queueINT8_MAX then None else Some (c + 1)) else Some c)"

definition prvIncrementQueueTxLock :: "addr \<Rightarrow> int \<Rightarrow> qworld \<Rightarrow> qworld option" where
  "prvIncrementQueueTxLock q c w =
     do { Q \<leftarrow> queues w q;
          c \<leftarrow> incremented_lock (uxCurrentNumberOfTasks (kern w)) c;
          Some (set_queue q (Q\<lparr>cTxLock := c\<rparr>) w) }"

definition prvIncrementQueueRxLock :: "addr \<Rightarrow> int \<Rightarrow> qworld \<Rightarrow> qworld option" where
  "prvIncrementQueueRxLock q c w =
     do { Q \<leftarrow> queues w q;
          c \<leftarrow> incremented_lock (uxCurrentNumberOfTasks (kern w)) c;
          Some (set_queue q (Q\<lparr>cRxLock := c\<rparr>) w) }"

text \<open>One waiting task is woken per count of the lock, as long as there is one.\<close>

fun wake_counted :: "nat \<Rightarrow> lname \<Rightarrow> qworld \<Rightarrow> qworld option" where
  "wake_counted 0 l w = Some w"
| "wake_counted (Suc n) l w =
     (if items (klists (kern w)) l = [] then Some w
      else do { (y, w) \<leftarrow> in_kernel (xTaskRemoveFromEventList l) w;
                wake_counted n l (if y then on_kernel vTaskMissedYield w else w) })"

text \<open>The two critical sections of \<open>prvUnlockQueue\<close>.\<close>

definition unlock_tx :: "addr \<Rightarrow> qworld \<Rightarrow> qworld option" where
  "unlock_tx q w =
     do { Q \<leftarrow> queues w q;
          w \<leftarrow> wake_counted (nat (cTxLock Q)) (xTasksWaitingToReceive q) w;
          Some (set_queue q (Q\<lparr>cTxLock := queueUNLOCKED\<rparr>) w) }"

definition unlock_rx :: "addr \<Rightarrow> qworld \<Rightarrow> qworld option" where
  "unlock_rx q w =
     do { Q \<leftarrow> queues w q;
          w \<leftarrow> wake_counted (nat (cRxLock Q)) (xTasksWaitingToSend q) w;
          Some (set_queue q (Q\<lparr>cRxLock := queueUNLOCKED\<rparr>) w) }"

definition prvUnlockQueue :: "addr \<Rightarrow> qworld \<Rightarrow> qworld option" where
  "prvUnlockQueue q w = do { w \<leftarrow> unlock_tx q w; unlock_rx q w }"

definition prvIsQueueEmpty :: "Queue \<Rightarrow> bool" where
  "prvIsQueueEmpty Q \<longleftrightarrow> uxMessagesWaiting Q = 0"

definition prvIsQueueFull :: "Queue \<Rightarrow> bool" where
  "prvIsQueueFull Q \<longleftrightarrow> uxMessagesWaiting Q = uxLength Q"

section \<open>Blocking calls\<close>

text \<open>
  The parts of a blocking call. The tags of the last ones tell why the scheduler is resumed: the
  task was placed on the event list, it tries again, or its time is up.
\<close>

datatype after = Blocked | Again | TimedOut

datatype qpc =
    Enter | Attempt | SuspendScheduler | LockQueue | CheckTimeOut | CheckState | Inherit | Place
  | UnlockTx after | UnlockRx after | ResumeScheduler after | Expired | Disinherit | CountUp

datatype qresult = pdPASS "u8 list" | errQUEUE_FULL | errQUEUE_EMPTY

text \<open>The local variables; there is no time-out as long as \<open>xEntryTimeSet\<close> is false.\<close>

record qlocals =
  ticks_left :: nat
  time_out :: "TimeOut option"
  inherited :: bool

type_synonym qnext = "(qpc \<times> qlocals) + qresult"

text \<open>The assertion at the start of each call: no waiting while the scheduler is suspended.\<close>

definition may_wait :: "nat \<Rightarrow> kernel \<Rightarrow> bool" where
  "may_wait n k \<longleftrightarrow> \<not> (xTaskGetSchedulerState k = taskSCHEDULER_SUSPENDED \<and> n \<noteq> 0)"

text \<open>The attempt failed: return at once without a block time, else note the time of the first failure.\<close>

definition no_luck :: "qresult \<Rightarrow> qlocals \<Rightarrow> kernel \<Rightarrow> qnext" where
  "no_luck r L k =
     (if ticks_left L = 0 then Inr r
      else Inl (SuspendScheduler, if time_out L = None then L\<lparr>time_out := Some (vTaskInternalSetTimeOutState k)\<rparr> else L))"

text \<open>
  The parts the four blocking calls share: \<open>l\<close> is the event list, \<open>must_wait\<close> the test of the queue,
  \<open>inherit\<close> whether a mutex lets its holder inherit the priority.
\<close>

fun wait_part ::
  "addr \<Rightarrow> lname \<Rightarrow> (Queue \<Rightarrow> bool) \<Rightarrow> bool \<Rightarrow> qpc \<Rightarrow> qlocals \<Rightarrow> qworld \<Rightarrow> (qnext \<times> qworld) option" where
  "wait_part q l must_wait inherit SuspendScheduler L w =
     Some (Inl (LockQueue, L), on_kernel vTaskSuspendAll w)"
| "wait_part q l must_wait inherit LockQueue L w =
     do { w \<leftarrow> prvLockQueue q w; Some (Inl (CheckTimeOut, L), w) }"
| "wait_part q l must_wait inherit CheckTimeOut L w =
     do { t \<leftarrow> time_out L;
          (up, t, n, k) \<leftarrow> xTaskCheckForTimeOut t (ticks_left L) (kern w);
          Some (Inl (if up then UnlockTx TimedOut else CheckState, L\<lparr>time_out := Some t, ticks_left := n\<rparr>), w\<lparr>kern := k\<rparr>) }"
| "wait_part q l must_wait inherit CheckState L w =
     do { Q \<leftarrow> queues w q;
          Some (Inl (if must_wait Q then (if inherit \<and> is_mutex Q then Inherit else Place) else UnlockTx Again, L), w) }"
| "wait_part q l must_wait inherit Inherit L w =
     do { Q \<leftarrow> queues w q;
          (y, w) \<leftarrow> in_kernel (xTaskPriorityInherit (xMutexHolder Q)) w;
          Some (Inl (Place, L\<lparr>inherited := y\<rparr>), w) }"
| "wait_part q l must_wait inherit Place L w =
     do { k \<leftarrow> vTaskPlaceOnEventList l (ticks_left L) (kern w);
          Some (Inl (UnlockTx Blocked, L), w\<lparr>kern := k\<rparr>) }"
| "wait_part q l must_wait inherit (UnlockTx a) L w =
     do { w \<leftarrow> unlock_tx q w; Some (Inl (UnlockRx a, L), w) }"
| "wait_part q l must_wait inherit (UnlockRx a) L w =
     do { w \<leftarrow> unlock_rx q w; Some (Inl (ResumeScheduler a, L), w) }"
| "wait_part q l must_wait inherit (ResumeScheduler a) L w =
     do { (yielded, w) \<leftarrow> in_kernel xTaskResumeAll w;
          Some (Inl (if a = TimedOut then Expired else Attempt, L), yield_if (a = Blocked \<and> \<not> yielded) w) }"
| "wait_part q l must_wait inherit _ L w = None"

subsection \<open>Sending\<close>

definition send_attempt :: "addr \<Rightarrow> u8 list option \<Rightarrow> copy_position \<Rightarrow> qlocals \<Rightarrow> qworld \<Rightarrow> (qnext \<times> qworld) option" where
  "send_attempt q src xCopyPosition L w =
     do { Q \<leftarrow> queues w q;
          if uxMessagesWaiting Q < uxLength Q \<or> xCopyPosition = queueOVERWRITE
          then do { (xYieldRequired, w) \<leftarrow> prvCopyDataToQueue q src xCopyPosition w;
                    let l = xTasksWaitingToReceive q;
                    w \<leftarrow> (if items (klists (kern w)) l \<noteq> [] then wake_and_yield l w else Some (yield_if xYieldRequired w));
                    Some (Inr (pdPASS []), w) }
          else Some (no_luck errQUEUE_FULL L (kern w), w) }"

definition send_asserts :: "addr \<Rightarrow> u8 list option \<Rightarrow> copy_position \<Rightarrow> Queue \<Rightarrow> bool" where
  "send_asserts q src xCopyPosition Q \<longleftrightarrow>
     q \<noteq> 0 \<and> \<not> (src = None \<and> uxItemSize Q \<noteq> 0) \<and> \<not> (xCopyPosition = queueOVERWRITE \<and> uxLength Q \<noteq> 1)"

fun xQueueGenericSend :: "addr \<Rightarrow> u8 list option \<Rightarrow> copy_position \<Rightarrow> qpc \<Rightarrow> qlocals \<Rightarrow> qworld \<Rightarrow> (qnext \<times> qworld) option" where
  "xQueueGenericSend q src pos Enter L w =
     do { Q \<leftarrow> queues w q;
          if send_asserts q src pos Q \<and> may_wait (ticks_left L) (kern w) then Some (Inl (Attempt, L), w) else None }"
| "xQueueGenericSend q src pos Attempt L w = send_attempt q src pos L w"
| "xQueueGenericSend q src pos Expired L w = Some (Inr errQUEUE_FULL, w)"
| "xQueueGenericSend q src pos pc L w = wait_part q (xTasksWaitingToSend q) prvIsQueueFull False pc L w"

text \<open>A call with block time 0 is its checks and its first attempt.\<close>

definition send_now :: "addr \<Rightarrow> u8 list option \<Rightarrow> copy_position \<Rightarrow> qworld \<Rightarrow> (qresult \<times> qworld) option" where
  "send_now q src pos w =
     do { let L = \<lparr>ticks_left = 0, time_out = None, inherited = False\<rparr>;
          (_, w) \<leftarrow> xQueueGenericSend q src pos Enter L w;
          (r, w) \<leftarrow> xQueueGenericSend q src pos Attempt L w;
          case r of Inl _ \<Rightarrow> None | Inr r \<Rightarrow> Some (r, w) }"

subsection \<open>Receiving\<close>

text \<open>\<open>buf\<close> tells whether the caller gave a buffer.\<close>

definition receive_asserts :: "addr \<Rightarrow> bool \<Rightarrow> Queue \<Rightarrow> bool" where
  "receive_asserts q buf Q \<longleftrightarrow> q \<noteq> 0 \<and> \<not> (\<not> buf \<and> uxItemSize Q \<noteq> 0)"

text \<open>The last check after the time has run out.\<close>

definition still_empty :: "addr \<Rightarrow> qpc \<Rightarrow> qlocals \<Rightarrow> qworld \<Rightarrow> (qnext \<times> qworld) option" where
  "still_empty q pc L w =
     do { Q \<leftarrow> queues w q;
          Some (if prvIsQueueEmpty Q then (if pc = Disinherit then Inl (Disinherit, L) else Inr errQUEUE_EMPTY)
                else Inl (Attempt, L), w) }"

definition receive_attempt :: "addr \<Rightarrow> qlocals \<Rightarrow> qworld \<Rightarrow> (qnext \<times> qworld) option" where
  "receive_attempt q L w =
     do { Q \<leftarrow> queues w q;
          if uxMessagesWaiting Q > 0
          then do { (bs, Q) \<leftarrow> prvCopyDataFromQueue q Q;
                    w \<leftarrow> wake_and_yield (xTasksWaitingToSend q)
                      (set_queue q (Q\<lparr>uxMessagesWaiting := sub32 (uxMessagesWaiting Q) 1\<rparr>) w);
                    Some (Inr (pdPASS bs), w) }
          else Some (no_luck errQUEUE_EMPTY L (kern w), w) }"

fun xQueueReceive :: "addr \<Rightarrow> bool \<Rightarrow> qpc \<Rightarrow> qlocals \<Rightarrow> qworld \<Rightarrow> (qnext \<times> qworld) option" where
  "xQueueReceive q buf Enter L w =
     do { Q \<leftarrow> queues w q;
          if receive_asserts q buf Q \<and> may_wait (ticks_left L) (kern w) then Some (Inl (Attempt, L), w) else None }"
| "xQueueReceive q buf Attempt L w = receive_attempt q L w"
| "xQueueReceive q buf Expired L w = still_empty q Expired L w"
| "xQueueReceive q buf pc L w = wait_part q (xTasksWaitingToReceive q) prvIsQueueEmpty False pc L w"

text \<open>A peek leaves the item in the queue, so it passes the wake-up on to the next reader.\<close>

definition peek_attempt :: "addr \<Rightarrow> qlocals \<Rightarrow> qworld \<Rightarrow> (qnext \<times> qworld) option" where
  "peek_attempt q L w =
     do { Q \<leftarrow> queues w q;
          if uxMessagesWaiting Q > 0
          then do { (bs, Q') \<leftarrow> prvCopyDataFromQueue q Q;
                    w \<leftarrow> wake_and_yield (xTasksWaitingToReceive q) (set_queue q (Q'\<lparr>uSecond := pcReadFrom Q\<rparr>) w);
                    Some (Inr (pdPASS bs), w) }
          else Some (no_luck errQUEUE_EMPTY L (kern w), w) }"

fun xQueuePeek :: "addr \<Rightarrow> bool \<Rightarrow> qpc \<Rightarrow> qlocals \<Rightarrow> qworld \<Rightarrow> (qnext \<times> qworld) option" where
  "xQueuePeek q buf Enter L w =
     do { Q \<leftarrow> queues w q;
          if receive_asserts q buf Q \<and> may_wait (ticks_left L) (kern w) then Some (Inl (Attempt, L), w) else None }"
| "xQueuePeek q buf Attempt L w = peek_attempt q L w"
| "xQueuePeek q buf Expired L w = still_empty q Expired L w"
| "xQueuePeek q buf pc L w = wait_part q (xTasksWaitingToReceive q) prvIsQueueEmpty False pc L w"

subsection \<open>Taking semaphores and mutexes\<close>

definition take_attempt :: "addr \<Rightarrow> qlocals \<Rightarrow> qworld \<Rightarrow> (qnext \<times> qworld) option" where
  "take_attempt q L w =
     do { Q \<leftarrow> queues w q;
          if uxMessagesWaiting Q > 0
          then do { let Q = Q\<lparr>uxMessagesWaiting := sub32 (uxMessagesWaiting Q) 1\<rparr>;
                    w \<leftarrow> (if is_mutex Q
                         then do { (t, w) \<leftarrow> in_kernel pvTaskIncrementMutexHeldCount w;
                                   Some (set_queue q (Q\<lparr>uFirst := t\<rparr>) w) }
                         else Some (set_queue q Q w));
                    w \<leftarrow> wake_and_yield (xTasksWaitingToSend q) w;
                    Some (Inr (pdPASS []), w) }
          else Some (no_luck errQUEUE_EMPTY L (kern w), w) }"

text \<open>The priority of the first task that waits, from the value of its event item.\<close>

definition prvGetDisinheritPriorityAfterTimeout :: "addr \<Rightarrow> kernel \<Rightarrow> nat" where
  "prvGetDisinheritPriorityAfterTimeout q k =
     (case items (klists k) (xTasksWaitingToReceive q) of
        [] \<Rightarrow> 0
      | i # _ \<Rightarrow> sub32 configMAX_PRIORITIES (item_value (klists k) i))"

fun xQueueSemaphoreTake :: "addr \<Rightarrow> qpc \<Rightarrow> qlocals \<Rightarrow> qworld \<Rightarrow> (qnext \<times> qworld) option" where
  "xQueueSemaphoreTake q Enter L w =
     do { Q \<leftarrow> queues w q;
          if q \<noteq> 0 \<and> uxItemSize Q = 0 \<and> may_wait (ticks_left L) (kern w) then Some (Inl (Attempt, L), w) else None }"
| "xQueueSemaphoreTake q Attempt L w = take_attempt q L w"
| "xQueueSemaphoreTake q Expired L w = still_empty q (if inherited L then Disinherit else Expired) L w"
| "xQueueSemaphoreTake q Disinherit L w =
     do { Q \<leftarrow> queues w q;
          k \<leftarrow> vTaskPriorityDisinheritAfterTimeout (xMutexHolder Q)
                (prvGetDisinheritPriorityAfterTimeout q (kern w)) (kern w);
          Some (Inr errQUEUE_EMPTY, w\<lparr>kern := k\<rparr>) }"
| "xQueueSemaphoreTake q pc L w = wait_part q (xTasksWaitingToReceive q) prvIsQueueEmpty True pc L w"

text \<open>The recursive mutex: the holder only counts, the others take the mutex and then count.\<close>

fun xQueueTakeMutexRecursive :: "addr \<Rightarrow> qpc \<Rightarrow> qlocals \<Rightarrow> qworld \<Rightarrow> (qnext \<times> qworld) option" where
  "xQueueTakeMutexRecursive q Enter L w =
     do { Q \<leftarrow> queues w q;
          if q = 0 then None
          else if xMutexHolder Q = pxCurrentTCB (kern w) then Some (Inl (CountUp, L), w)
          else xQueueSemaphoreTake q Enter L w }"
| "xQueueTakeMutexRecursive q CountUp L w =
     do { Q \<leftarrow> queues w q;
          Some (Inr (pdPASS []), set_queue q (Q\<lparr>uSecond := add32 (uxRecursiveCallCount Q) 1\<rparr>) w) }"
| "xQueueTakeMutexRecursive q pc L w =
     do { (r, w) \<leftarrow> xQueueSemaphoreTake q pc L w;
          Some (case r of Inr (pdPASS _) \<Rightarrow> Inl (CountUp, L) | _ \<Rightarrow> r, w) }"

definition xQueueGiveMutexRecursive :: "addr \<Rightarrow> qworld \<Rightarrow> (bool \<times> qworld) option" where
  "xQueueGiveMutexRecursive q w =
     do { Q \<leftarrow> queues w q;
          if q = 0 then None
          else if xMutexHolder Q = pxCurrentTCB (kern w)
          then do { let n = sub32 (uxRecursiveCallCount Q) 1;
                    let w = set_queue q (Q\<lparr>uSecond := n\<rparr>) w;
                    w \<leftarrow> (if n = 0 then map_option snd (send_now q None queueSEND_TO_BACK w) else Some w);
                    Some (True, w) }
          else Some (False, w) }"

subsection \<open>The wait of the timer task\<close>

text \<open>Called with the scheduler suspended; it returns to its caller before it blocks.\<close>

fun vQueueWaitForMessageRestricted :: "addr \<Rightarrow> nat \<Rightarrow> bool \<Rightarrow> qpc \<Rightarrow> qworld \<Rightarrow> ((qpc + unit) \<times> qworld) option" where
  "vQueueWaitForMessageRestricted q n xWaitIndefinitely LockQueue w =
     do { w \<leftarrow> prvLockQueue q w; Some (Inl CheckState, w) }"
| "vQueueWaitForMessageRestricted q n xWaitIndefinitely CheckState w =
     do { Q \<leftarrow> queues w q;
          if uxMessagesWaiting Q = 0
          then do { k \<leftarrow> vTaskPlaceOnEventListRestricted (xTasksWaitingToReceive q) n xWaitIndefinitely (kern w);
                    Some (Inl (UnlockTx Blocked), w\<lparr>kern := k\<rparr>) }
          else Some (Inl (UnlockTx Again), w) }"
| "vQueueWaitForMessageRestricted q n xWaitIndefinitely (UnlockTx a) w =
     do { w \<leftarrow> unlock_tx q w; Some (Inl (UnlockRx a), w) }"
| "vQueueWaitForMessageRestricted q n xWaitIndefinitely (UnlockRx a) w =
     do { w \<leftarrow> unlock_rx q w; Some (Inr (), w) }"
| "vQueueWaitForMessageRestricted q n xWaitIndefinitely _ w = None"

section \<open>Calls from interrupts\<close>

text \<open>
  The second component is what the code stores through \<open>pxHigherPriorityTaskWoken\<close> (it stores only
  true). On a locked queue the wake-up is left to the task that holds the lock.
\<close>

definition xQueueGenericSendFromISR ::
  "addr \<Rightarrow> u8 list option \<Rightarrow> copy_position \<Rightarrow> qworld \<Rightarrow> (bool \<times> bool \<times> qworld) option" where
  "xQueueGenericSendFromISR q src xCopyPosition w =
     do { Q \<leftarrow> queues w q;
          if \<not> send_asserts q src xCopyPosition Q then None
          else if uxMessagesWaiting Q < uxLength Q \<or> xCopyPosition = queueOVERWRITE
          then do { (_, w) \<leftarrow> prvCopyDataToQueue q src xCopyPosition w;
                    if cTxLock Q = queueUNLOCKED
                    then do { (woken, w) \<leftarrow> wake_waiter (xTasksWaitingToReceive q) w; Some (True, woken, w) }
                    else do { w \<leftarrow> prvIncrementQueueTxLock q (cTxLock Q) w; Some (True, False, w) } }
          else Some (False, False, w) }"

definition xQueueGiveFromISR :: "addr \<Rightarrow> qworld \<Rightarrow> (bool \<times> bool \<times> qworld) option" where
  "xQueueGiveFromISR q w =
     do { Q \<leftarrow> queues w q;
          if q = 0 \<or> uxItemSize Q \<noteq> 0 \<or> is_mutex Q \<and> xMutexHolder Q \<noteq> 0 then None
          else if uxMessagesWaiting Q < uxLength Q
          then do { let w = set_queue q (Q\<lparr>uxMessagesWaiting := add32 (uxMessagesWaiting Q) 1\<rparr>) w;
                    if cTxLock Q = queueUNLOCKED
                    then do { (woken, w) \<leftarrow> wake_waiter (xTasksWaitingToReceive q) w; Some (True, woken, w) }
                    else do { w \<leftarrow> prvIncrementQueueTxLock q (cTxLock Q) w; Some (True, False, w) } }
          else Some (False, False, w) }"

text \<open>The bytes, if there was an item, and the flag.\<close>

definition xQueueReceiveFromISR :: "addr \<Rightarrow> bool \<Rightarrow> qworld \<Rightarrow> (u8 list option \<times> bool \<times> qworld) option" where
  "xQueueReceiveFromISR q buf w =
     do { Q \<leftarrow> queues w q;
          if \<not> receive_asserts q buf Q then None
          else if uxMessagesWaiting Q > 0
          then do { (bs, Q) \<leftarrow> prvCopyDataFromQueue q Q;
                    let w = set_queue q (Q\<lparr>uxMessagesWaiting := sub32 (uxMessagesWaiting Q) 1\<rparr>) w;
                    if cRxLock Q = queueUNLOCKED
                    then do { (woken, w) \<leftarrow> wake_waiter (xTasksWaitingToSend q) w; Some (Some bs, woken, w) }
                    else do { w \<leftarrow> prvIncrementQueueRxLock q (cRxLock Q) w; Some (Some bs, False, w) } }
          else Some (None, False, w) }"

definition xQueuePeekFromISR :: "addr \<Rightarrow> bool \<Rightarrow> qworld \<Rightarrow> (u8 list option \<times> qworld) option" where
  "xQueuePeekFromISR q buf w =
     do { Q \<leftarrow> queues w q;
          if \<not> receive_asserts q buf Q \<or> uxItemSize Q = 0 then None
          else if uxMessagesWaiting Q > 0
          then do { (bs, Q') \<leftarrow> prvCopyDataFromQueue q Q;
                    Some (Some bs, set_queue q (Q'\<lparr>uSecond := pcReadFrom Q\<rparr>) w) }
          else Some (None, w) }"

section \<open>Creating, resetting and deleting\<close>

definition xQueueGenericReset :: "addr \<Rightarrow> bool \<Rightarrow> qworld \<Rightarrow> qworld option" where
  "xQueueGenericReset q xNewQueue w =
     do { Q \<leftarrow> queues w q;
          if q \<noteq> 0 \<and> uxLength Q \<ge> 1 \<and> (u32_bound - 1) div uxLength Q \<ge> uxItemSize Q
          then do { let w = set_queue q (Q\<lparr>uFirst := add32 (pcHead Q) (mul32 (uxLength Q) (uxItemSize Q)),
                      uxMessagesWaiting := 0, pcWriteTo := pcHead Q,
                      uSecond := add32 (pcHead Q) (mul32 (sub32 (uxLength Q) 1) (uxItemSize Q)),
                      cRxLock := queueUNLOCKED, cTxLock := queueUNLOCKED\<rparr>) w;
                    if xNewQueue
                    then Some (on_kernel (\<lambda>k. k\<lparr>klists :=
                      init_list (xTasksWaitingToReceive q) (init_list (xTasksWaitingToSend q) (klists k))\<rparr>) w)
                    else wake_and_yield (xTasksWaitingToSend q) w }
          else None }"

text \<open>\<open>junk\<close> is what the memory of the new queue holds, by offset.\<close>

definition prvInitialiseNewQueue :: "nat \<Rightarrow> nat \<Rightarrow> nat \<Rightarrow> addr \<Rightarrow> (nat \<Rightarrow> u8) \<Rightarrow> qworld \<Rightarrow> qworld option" where
  "prvInitialiseNewQueue uxQueueLength itemSize queueType q junk w =
     xQueueGenericReset q True (set_queue q
       \<lparr>pcHead = (if itemSize = 0 then q else q + sizeof_Queue_t), pcWriteTo = 0, uFirst = 0, uSecond = 0,
        uxMessagesWaiting = 0, uxLength = uxQueueLength, uxItemSize = itemSize, cRxLock = 0, cTxLock = 0,
        uxQueueNumber = (\<Sum>i \<leftarrow> [0..<4]. 256 ^ i * unat (junk (72 + i))), ucQueueType = queueType,
        storage = map (\<lambda>i. junk (sizeof_Queue_t + i)) [0..<uxQueueLength * itemSize]\<rparr> w)"

text \<open>Allocating in the world of queues, as \<open>kernel_malloc\<close> does in the kernel.\<close>

definition queue_malloc :: "nat \<Rightarrow> qworld \<times> heap \<Rightarrow> (addr \<times> qworld \<times> heap) option" where
  "queue_malloc n = (\<lambda>(w, h). map_option (\<lambda>(p, k, h). (p, w\<lparr>kern := k\<rparr>, h)) (kernel_malloc n (kern w, h)))"

definition xQueueGenericCreate ::
  "nat \<Rightarrow> nat \<Rightarrow> nat \<Rightarrow> (nat \<Rightarrow> u8) \<Rightarrow> qworld \<times> heap \<Rightarrow> (addr \<times> qworld \<times> heap) option" where
  "xQueueGenericCreate uxQueueLength itemSize queueType junk s =
     (if uxQueueLength > 0 \<and> (u32_bound - 1) div uxQueueLength \<ge> itemSize \<and>
        u32_bound - 1 - sizeof_Queue_t \<ge> mul32 uxQueueLength itemSize
      then do { (q, w, h) \<leftarrow> queue_malloc (add32 sizeof_Queue_t (mul32 uxQueueLength itemSize)) s;
                if q \<noteq> 0
                then do { w \<leftarrow> prvInitialiseNewQueue uxQueueLength itemSize queueType q junk w; Some (q, w, h) }
                else Some (0, w, h) }
      else None)"

definition prvInitialiseMutex :: "addr \<Rightarrow> qworld \<Rightarrow> qworld option" where
  "prvInitialiseMutex q w =
     (if q \<noteq> 0
      then do { Q \<leftarrow> queues w q;
                map_option snd (send_now q None queueSEND_TO_BACK
                  (set_queue q (Q\<lparr>uFirst := 0, pcHead := 0, uSecond := 0\<rparr>) w)) }
      else Some w)"

definition xQueueCreateMutex :: "nat \<Rightarrow> (nat \<Rightarrow> u8) \<Rightarrow> qworld \<times> heap \<Rightarrow> (addr \<times> qworld \<times> heap) option" where
  "xQueueCreateMutex queueType junk s =
     do { (q, w, h) \<leftarrow> xQueueGenericCreate 1 0 queueType junk s;
          w \<leftarrow> prvInitialiseMutex q w;
          Some (q, w, h) }"

definition xQueueCreateCountingSemaphore ::
  "nat \<Rightarrow> nat \<Rightarrow> (nat \<Rightarrow> u8) \<Rightarrow> qworld \<times> heap \<Rightarrow> (addr \<times> qworld \<times> heap) option" where
  "xQueueCreateCountingSemaphore uxMaxCount uxInitialCount junk s =
     (if uxMaxCount \<noteq> 0 \<and> uxInitialCount \<le> uxMaxCount
      then do { (q, w, h) \<leftarrow> xQueueGenericCreate uxMaxCount queueSEMAPHORE_QUEUE_ITEM_LENGTH
                  queueQUEUE_TYPE_COUNTING_SEMAPHORE junk s;
                if q \<noteq> 0
                then do { Q \<leftarrow> queues w q; Some (q, set_queue q (Q\<lparr>uxMessagesWaiting := uxInitialCount\<rparr>) w, h) }
                else Some (q, w, h) }
      else None)"

text \<open>The registry of queue names.\<close>

fun registry_slot :: "addr \<Rightarrow> nat option \<Rightarrow> nat \<Rightarrow> (string option \<times> addr) list \<Rightarrow> nat option" where
  "registry_slot q free n [] = free"
| "registry_slot q free n ((name, h) # rs) =
     (if h = q then Some n
      else registry_slot q (if free = None \<and> name = None then Some n else free) (Suc n) rs)"

definition vQueueAddToRegistry :: "addr \<Rightarrow> string option \<Rightarrow> qworld \<Rightarrow> qworld option" where
  "vQueueAddToRegistry q name w =
     (if q = 0 then None
      else case (if name \<noteq> None then registry_slot q None 0 (xQueueRegistry w) else None) of
             None \<Rightarrow> Some w
           | Some i \<Rightarrow> Some (w\<lparr>xQueueRegistry := (xQueueRegistry w)[i := (name, q)]\<rparr>))"

definition pcQueueGetName :: "addr \<Rightarrow> qworld \<Rightarrow> string option option" where
  "pcQueueGetName q w =
     (if q = 0 then None
      else Some (case dropWhile (\<lambda>(_, h). h \<noteq> q) (xQueueRegistry w) of [] \<Rightarrow> None | (name, _) # _ \<Rightarrow> name))"

fun unregister :: "addr \<Rightarrow> (string option \<times> addr) list \<Rightarrow> (string option \<times> addr) list" where
  "unregister q [] = []"
| "unregister q ((name, h) # rs) = (if h = q then (None, 0) # rs else (name, h) # unregister q rs)"

definition vQueueUnregisterQueue :: "addr \<Rightarrow> qworld \<Rightarrow> qworld option" where
  "vQueueUnregisterQueue q w =
     (if q = 0 then None else Some (w\<lparr>xQueueRegistry := unregister q (xQueueRegistry w)\<rparr>))"

definition vQueueDelete :: "addr \<Rightarrow> qworld \<times> heap \<Rightarrow> (qworld \<times> heap) option" where
  "vQueueDelete q = (\<lambda>(w, h).
     do { w \<leftarrow> vQueueUnregisterQueue q w;
          let w = w\<lparr>queues := (queues w)(q := None)\<rparr>;
          (k, h) \<leftarrow> kernel_free q (kern w, h);
          Some (w\<lparr>kern := k\<rparr>, h) })"

section \<open>Queries\<close>

definition xQueueGetMutexHolder :: "addr \<Rightarrow> qworld \<Rightarrow> tid option" where
  "xQueueGetMutexHolder q w =
     (if q = 0 then None else map_option (\<lambda>Q. if is_mutex Q then xMutexHolder Q else 0) (queues w q))"

definition xQueueGetMutexHolderFromISR :: "addr \<Rightarrow> qworld \<Rightarrow> tid option" where
  "xQueueGetMutexHolderFromISR q w = xQueueGetMutexHolder q w"

definition uxQueueMessagesWaiting :: "addr \<Rightarrow> qworld \<Rightarrow> nat option" where
  "uxQueueMessagesWaiting q w = (if q = 0 then None else map_option uxMessagesWaiting (queues w q))"

definition uxQueueSpacesAvailable :: "addr \<Rightarrow> qworld \<Rightarrow> nat option" where
  "uxQueueSpacesAvailable q w =
     (if q = 0 then None else map_option (\<lambda>Q. sub32 (uxLength Q) (uxMessagesWaiting Q)) (queues w q))"

definition uxQueueMessagesWaitingFromISR :: "addr \<Rightarrow> qworld \<Rightarrow> nat option" where
  "uxQueueMessagesWaitingFromISR q w = uxQueueMessagesWaiting q w"

definition xQueueIsQueueEmptyFromISR :: "addr \<Rightarrow> qworld \<Rightarrow> bool option" where
  "xQueueIsQueueEmptyFromISR q w = (if q = 0 then None else map_option prvIsQueueEmpty (queues w q))"

definition xQueueIsQueueFullFromISR :: "addr \<Rightarrow> qworld \<Rightarrow> bool option" where
  "xQueueIsQueueFullFromISR q w = (if q = 0 then None else map_option prvIsQueueFull (queues w q))"

definition uxQueueGetQueueNumber :: "addr \<Rightarrow> qworld \<Rightarrow> nat option" where
  "uxQueueGetQueueNumber q w = map_option uxQueueNumber (queues w q)"

definition vQueueSetQueueNumber :: "addr \<Rightarrow> nat \<Rightarrow> qworld \<Rightarrow> qworld option" where
  "vQueueSetQueueNumber q n w = map_option (\<lambda>Q. set_queue q (Q\<lparr>uxQueueNumber := n\<rparr>) w) (queues w q)"

definition ucQueueGetQueueType :: "addr \<Rightarrow> qworld \<Rightarrow> nat option" where
  "ucQueueGetQueueType q w = map_option ucQueueType (queues w q)"

definition uxQueueGetQueueItemSize :: "addr \<Rightarrow> qworld \<Rightarrow> nat option" where
  "uxQueueGetQueueItemSize q w = map_option uxItemSize (queues w q)"

definition uxQueueGetQueueLength :: "addr \<Rightarrow> qworld \<Rightarrow> nat option" where
  "uxQueueGetQueueLength q w = map_option uxLength (queues w q)"

end
