(* ===== verification/QueueData.thy ===== *)
theory QueueData
  imports Queues
begin

text \<open>
  What a queue holds. \<open>queue_ok q Q\<close> is the well-formedness of the queue at address \<open>q\<close>,
  \<open>contents q Q\<close> the list of its items, the next one to be received first. The copy operations
  are exact on it: sending to the back appends, sending to the front conses, overwriting replaces,
  receiving takes the head, and the byte copies stay inside the storage. An item of a semaphore has
  no bytes; its count is the length of the contents.
\<close>

section \<open>Circular arrays of items\<close>

lemma overlay_single: "j < length xs \<Longrightarrow> overlay xs j [y] = xs[j := y]"
  by (simp add: overlay_def upd_conv_take_nth_drop)

lemma ring_snoc:
  assumes "i < length xs" "a < length xs"
  shows "ring (xs[wrap (length xs) (i + a) := y]) i (Suc a) = ring xs i a @ [y]"
proof -
  have j: "wrap (length xs) (i + a) < length xs"
    using assms by (simp add: wrap_less)
  then have "ring_put xs (wrap (length xs) (i + a)) [y] = xs[wrap (length xs) (i + a) := y]"
    by (simp add: ring_put_def Let_def overlay_single Suc_leI)
  with ring_put_window [of i xs a "[y]" "wrap (length xs) (i + a)"] assms j show ?thesis
    by (simp add: wrap_def)
qed

lemma ring_Suc:
  assumes "i < length xs" "a < length xs"
  shows "ring xs i (Suc a) = xs ! i # ring xs (wrap (length xs) (Suc i)) a"
proof -
  have "ring xs i 1 = [xs ! i]"
    using assms by (simp add: ring_straight take_Suc hd_drop_conv_nth)
  with ring_append [of i xs 1 a] assms show ?thesis
    by simp
qed

lemma ring_update_outside:
  assumes "i < length xs" "a \<le> length xs" "\<And>k. k < a \<Longrightarrow> wrap (length xs) (i + k) \<noteq> j"
  shows "ring (xs[j := y]) i a = ring xs i a"
proof (rule nth_equalityI)
  show "ring (xs[j := y]) i a ! k = ring xs i a ! k" if "k < length (ring (xs[j := y]) i a)" for k
    using that assms(1,2) nth_list_update_neq [OF assms(3) [of k, symmetric]] by (simp add: nth_ring)
qed (use assms in simp)

lemma ring_cons:
  assumes "r < length xs" "a < length xs"
  shows "ring (xs[r := y]) r (Suc a) = y # ring xs (wrap (length xs) (Suc r)) a"
proof -
  have w: "wrap (length xs) (Suc r) < length xs"
    using assms by (auto simp: wrap_def)
  have "wrap (length xs) (wrap (length xs) (Suc r) + k) \<noteq> r" if "k < a" for k
    using that assms by (auto simp: wrap_def)
  with ring_update_outside [OF w, of a r y] ring_Suc [of r "xs[r := y]" a] assms show ?thesis
    by simp
qed

section \<open>The items of a queue\<close>

definition slots :: "nat \<Rightarrow> nat \<Rightarrow> u8 list \<Rightarrow> u8 list list" where
  "slots n s st = map (\<lambda>i. take s (drop (i * s) st)) [0..<n]"

definition storage_base :: "addr \<Rightarrow> addr" where
  "storage_base q = q + sizeof_Queue_t"

definition read_slot :: "addr \<Rightarrow> Queue \<Rightarrow> nat" where
  "read_slot q Q = (pcReadFrom Q - storage_base q) div uxItemSize Q"

definition contents :: "addr \<Rightarrow> Queue \<Rightarrow> u8 list list" where
  "contents q Q =
     (if uxItemSize Q = 0 then replicate (uxMessagesWaiting Q) []
      else ring (slots (uxLength Q) (uxItemSize Q) (storage Q)) (wrap (uxLength Q) (Suc (read_slot q Q))) (uxMessagesWaiting Q))"

definition data_ok :: "addr \<Rightarrow> Queue \<Rightarrow> bool" where
  "data_ok q Q \<longleftrightarrow>
     pcHead Q = storage_base q \<and> pcTail Q = storage_base q + uxLength Q * uxItemSize Q \<and>
     length (storage Q) = uxLength Q * uxItemSize Q \<and> pcTail Q < u32_bound \<and> uxItemSize Q \<le> storage_base q \<and>
     (\<exists>r < uxLength Q. pcReadFrom Q = storage_base q + r * uxItemSize Q \<and>
        pcWriteTo Q = storage_base q + wrap (uxLength Q) (wrap (uxLength Q) (Suc r) + uxMessagesWaiting Q) * uxItemSize Q)"

definition queue_ok :: "addr \<Rightarrow> Queue \<Rightarrow> bool" where
  "queue_ok q Q \<longleftrightarrow>
     q \<noteq> 0 \<and> 0 < uxLength Q \<and> uxLength Q < u32_bound \<and> uxMessagesWaiting Q \<le> uxLength Q \<and>
     (uxItemSize Q > 0 \<longrightarrow> data_ok q Q) \<and> (is_mutex Q \<longrightarrow> uxItemSize Q = 0 \<and> uxLength Q = 1)"

lemma length_slots [simp]: "length (slots n s st) = n"
  by (simp add: slots_def)

lemma count_contents: "queue_ok q Q \<Longrightarrow> length (contents q Q) = uxMessagesWaiting Q"
  by (auto simp: contents_def queue_ok_def wrap_def data_ok_def read_slot_def split: if_splits)

lemma slots_overlay:
  assumes "length st = n * s" "j < n" "length ys = s" "0 < s"
  shows "slots n s (overlay st (j * s) ys) = (slots n s st)[j := ys]"
proof (rule nth_equalityI)
  have j: "j * s + length ys \<le> length st"
    using assms by (metis Suc_leI add.commute mult_Suc mult_le_mono1)
  fix i
  assume "i < length (slots n s (overlay st (j * s) ys))"
  then have i: "i < n"
    by simp
  have b: "i * s + s \<le> length st"
    using i assms(1) by (metis Suc_leI add.commute mult_Suc mult_le_mono1)
  have k: "take s (drop (i * s) (overlay st (j * s) ys)) ! m = (if i = j then ys ! m else take s (drop (i * s) st) ! m)"
    if m: "m < s" for m
  proof -
    have "j * s \<le> i * s + m \<and> i * s + m < j * s + s \<longleftrightarrow> i = j"
    proof
      assume *: "j * s \<le> i * s + m \<and> i * s + m < j * s + s"
      have "(i * s + m) div s = i"
        using m by simp
      moreover have "(i * s + m) div s = j"
        using * m by (metis add.commute div_nat_eqI mult.commute mult_Suc)
      ultimately show "i = j" by simp
    qed (use m in simp)
    then show ?thesis
      using m b assms(3) j by (auto simp: nth_overlay)
  qed
  show "slots n s (overlay st (j * s) ys) ! i = (slots n s st)[j := ys] ! i"
  proof (rule nth_equalityI)
    show "length (slots n s (overlay st (j * s) ys) ! i) = length ((slots n s st)[j := ys] ! i)"
      using i b j assms(3) by (cases "i = j") (simp_all add: slots_def)
    show "slots n s (overlay st (j * s) ys) ! i ! m = (slots n s st)[j := ys] ! i ! m"
      if "m < length (slots n s (overlay st (j * s) ys) ! i)" for m
      using k [of m] that i assms(2) by (cases "i = j") (simp_all add: slots_def)
  qed
qed simp

text \<open>Pointer and index arithmetic.\<close>

lemma data_okE:
  assumes "data_ok q Q" "0 < uxItemSize Q"
  obtains r where "r < uxLength Q" "pcReadFrom Q = storage_base q + r * uxItemSize Q" "read_slot q Q = r"
    "pcWriteTo Q = storage_base q + wrap (uxLength Q) (wrap (uxLength Q) (Suc r) + uxMessagesWaiting Q) * uxItemSize Q"
    "pcHead Q = storage_base q" "pcTail Q = storage_base q + uxLength Q * uxItemSize Q"
    "length (storage Q) = uxLength Q * uxItemSize Q" "pcTail Q < u32_bound" "uxItemSize Q \<le> storage_base q"
proof -
  obtain r where r: "r < uxLength Q" "pcReadFrom Q = storage_base q + r * uxItemSize Q"
    "pcWriteTo Q = storage_base q + wrap (uxLength Q) (wrap (uxLength Q) (Suc r) + uxMessagesWaiting Q) * uxItemSize Q"
    using assms(1) by (auto simp: data_ok_def)
  show ?thesis
    by (rule that [OF r(1,2) _ r(3)]) (use assms r(2) in \<open>auto simp: data_ok_def read_slot_def\<close>)
qed

lemma slot_bound: "j < n \<Longrightarrow> j * s + s \<le> n * (s :: nat)"
  by (metis Suc_leI add.commute mult_Suc mult_le_mono1)

lemma step_pointer:
  assumes "j < n" "b + n * s < u32_bound" "0 < s"
  shows "(if add32 (b + j * s) s \<ge> b + n * s then b else add32 (b + j * s) s) = b + wrap n (Suc j) * s"
proof -
  have a: "add32 (b + j * s) s = b + j * s + s"
    using slot_bound [OF assms(1), of s] assms(2) by (simp add: add32_exact)
  show ?thesis
  proof (cases "Suc j = n")
    case True
    with a show ?thesis by (auto simp: wrap_def)
  next
    case False
    then have "Suc j < n"
      using assms(1) by simp
    then have "j * s + s + s \<le> n * s"
      using slot_bound [of "Suc j" n s] by simp
    with a False assms show ?thesis
      by (auto simp: wrap_def)
  qed
qed

lemma wrap_step: "a < n \<Longrightarrow> m < n \<Longrightarrow> wrap n (Suc (wrap n (a + m))) = wrap n (a + Suc m)"
  by (auto simp: wrap_def)

lemma copy_in_slot:
  assumes "j < uxLength Q" "p = storage_base q + j * uxItemSize Q" "length (storage Q) = uxLength Q * uxItemSize Q"
    "uxItemSize Q \<le> length bs"
  shows "copy_in q p (Some bs) Q = Some (Q\<lparr>storage := overlay (storage Q) (j * uxItemSize Q) (take (uxItemSize Q) bs)\<rparr>)"
  using slot_bound [OF assms(1), of "uxItemSize Q"] assms(2-4)
  by (simp add: copy_in_def storage_base_def)

lemma copy_out_slot:
  assumes "j < uxLength Q" "p = storage_base q + j * uxItemSize Q" "length (storage Q) = uxLength Q * uxItemSize Q"
  shows "copy_out q p Q = Some (slots (uxLength Q) (uxItemSize Q) (storage Q) ! j)"
  using slot_bound [OF assms(1), of "uxItemSize Q"] assms
  by (simp add: copy_out_def storage_base_def slots_def)

section \<open>The copy operations\<close>

fun put :: "copy_position \<Rightarrow> 'a \<Rightarrow> 'a list \<Rightarrow> 'a list" where
  "put queueSEND_TO_BACK x xs = xs @ [x]"
| "put queueSEND_TO_FRONT x xs = x # xs"
| "put queueOVERWRITE x xs = [x]"

definition item :: "u8 list option \<Rightarrow> Queue \<Rightarrow> u8 list" where
  "item src Q = (case src of None \<Rightarrow> [] | Some bs \<Rightarrow> take (uxItemSize Q) bs)"

definition same_shape :: "Queue \<Rightarrow> Queue \<Rightarrow> bool" where
  "same_shape Q Q' \<longleftrightarrow>
     pcHead Q' = pcHead Q \<and> uxLength Q' = uxLength Q \<and> uxItemSize Q' = uxItemSize Q \<and>
     cRxLock Q' = cRxLock Q \<and> cTxLock Q' = cTxLock Q \<and> uxQueueNumber Q' = uxQueueNumber Q \<and> ucQueueType Q' = ucQueueType Q"

text \<open>
  What a caller owes: the source has the bytes of an item, and overwriting is for queues of one item
  with data.
\<close>

definition source_ok :: "u8 list option \<Rightarrow> copy_position \<Rightarrow> Queue \<Rightarrow> bool" where
  "source_ok src pos Q \<longleftrightarrow>
     (0 < uxItemSize Q \<longrightarrow> (case src of None \<Rightarrow> False | Some bs \<Rightarrow> uxItemSize Q \<le> length bs)) \<and>
     (pos = queueOVERWRITE \<longrightarrow> 0 < uxItemSize Q \<and> uxLength Q = 1)"

definition has_room :: "copy_position \<Rightarrow> Queue \<Rightarrow> bool" where
  "has_room pos Q \<longleftrightarrow> uxMessagesWaiting Q < uxLength Q \<or> pos = queueOVERWRITE"

lemma copy_to_back:
  assumes "queue_ok q Q" "0 < uxItemSize Q" "uxMessagesWaiting Q < uxLength Q" "uxItemSize Q \<le> length bs" "queues w q = Some Q"
  shows "\<exists>Q'. prvCopyDataToQueue q (Some bs) queueSEND_TO_BACK w = Some (False, set_queue q Q' w) \<and> queue_ok q Q' \<and>
    same_shape Q Q' \<and> contents q Q' = contents q Q @ [take (uxItemSize Q) bs]"
proof -
  let ?n = "uxLength Q" and ?s = "uxItemSize Q" and ?m = "uxMessagesWaiting Q"
  have d: "data_ok q Q"
    using assms(1,2) by (simp add: queue_ok_def)
  then obtain r where r: "r < ?n" "pcReadFrom Q = storage_base q + r * ?s" "read_slot q Q = r"
    "pcWriteTo Q = storage_base q + wrap ?n (wrap ?n (Suc r) + ?m) * ?s" "pcHead Q = storage_base q"
    "pcTail Q = storage_base q + ?n * ?s" "length (storage Q) = ?n * ?s" "pcTail Q < u32_bound" "?s \<le> storage_base q"
    using assms(2) by (rule data_okE)
  define a where "a = wrap ?n (Suc r)"
  define j where "j = wrap ?n (a + ?m)"
  have a: "a < ?n" and j: "j < ?n"
    using r(1) assms(3) by (auto simp: a_def j_def wrap_def)
  have w: "pcWriteTo Q = storage_base q + j * ?s" and tail: "storage_base q + ?n * ?s < u32_bound"
    using r(4,6,8) by (simp_all add: a_def j_def)
  let ?st = "overlay (storage Q) (j * ?s) (take ?s bs)"
  let ?Q = "Q\<lparr>storage := ?st, pcWriteTo := storage_base q + wrap ?n (Suc j) * ?s, uxMessagesWaiting := Suc ?m\<rparr>"
  have m: "add32 ?m 1 = Suc ?m"
    using assms(1,3) by (simp add: queue_ok_def add32_exact)
  have "copy_in q (pcWriteTo Q) (Some bs) Q = Some (Q\<lparr>storage := ?st\<rparr>)"
    by (rule copy_in_slot [OF j w r(7) assms(4)])
  moreover have "(if add32 (pcWriteTo Q) ?s \<ge> pcTail Q then pcHead Q else add32 (pcWriteTo Q) ?s) = storage_base q + wrap ?n (Suc j) * ?s"
    unfolding w r(5,6) by (rule step_pointer [OF j tail assms(2)])
  ultimately have run: "prvCopyDataToQueue q (Some bs) queueSEND_TO_BACK w = Some (False, set_queue q ?Q w)"
    using assms(2,5) m by (simp add: prvCopyDataToQueue_def Let_def cong: if_cong split del: if_split)
  have len: "length ?st = ?n * ?s"
    using slot_bound [OF j, of ?s] r(7) assms(4) by simp
  have "wrap ?n (Suc j) = wrap ?n (wrap ?n (Suc r) + Suc ?m)"
    using wrap_step [OF a assms(3)] by (simp add: a_def j_def)
  then have "data_ok q ?Q"
    using r len by (auto simp: data_ok_def)
  then have "queue_ok q ?Q"
    using assms(1-3) by (simp add: queue_ok_def is_mutex_def)
  moreover have "contents q ?Q = contents q Q @ [take ?s bs]"
    using slots_overlay [OF r(7) j, of "take ?s bs"] ring_snoc [of a "slots ?n ?s (storage Q)" ?m "take ?s bs"] a assms(2-4) r(3)
    by (simp add: contents_def read_slot_def a_def j_def)
  ultimately show ?thesis
    using run by (auto simp: same_shape_def)
qed

lemma back_slot: "r < n \<Longrightarrow> (if sub32 (b + r * s) s < b then sub32 (b + n * s) s else sub32 (b + r * s) s) =
    b + (if r = 0 then n - 1 else r - 1) * s" if "0 < s" "s \<le> b" "b + n * s < u32_bound"
proof -
  assume r: "r < n"
  have n: "b + n * s - s = b + (n - 1) * s"
    using r by (cases n) simp_all
  show ?thesis
  proof (cases r)
    case 0
    have "sub32 b s = b - s" "sub32 (b + n * s) s = b + n * s - s"
      using that r by (simp_all add: sub32_exact)
    with 0 n that(1,2) show ?thesis by simp
  next
    case (Suc i)
    have "b + r * s < u32_bound"
      using slot_bound [OF r, of s] that(3) by simp
    then have "sub32 (b + r * s) s = b + r * s - s"
      using that(2) by (simp add: sub32_exact)
    with Suc show ?thesis by simp
  qed
qed

lemma copy_to_front:
  assumes "queue_ok q Q" "0 < uxItemSize Q" "pos \<noteq> queueSEND_TO_BACK" "has_room pos Q" "source_ok (Some bs) pos Q" "queues w q = Some Q"
  shows "\<exists>Q'. prvCopyDataToQueue q (Some bs) pos w = Some (False, set_queue q Q' w) \<and> queue_ok q Q' \<and>
    same_shape Q Q' \<and> contents q Q' = put pos (take (uxItemSize Q) bs) (contents q Q)"
proof -
  let ?n = "uxLength Q" and ?s = "uxItemSize Q" and ?m = "uxMessagesWaiting Q"
  have d: "data_ok q Q"
    using assms(1,2) by (simp add: queue_ok_def)
  then obtain r where r: "r < ?n" "pcReadFrom Q = storage_base q + r * ?s" "read_slot q Q = r"
    "pcWriteTo Q = storage_base q + wrap ?n (wrap ?n (Suc r) + ?m) * ?s" "pcHead Q = storage_base q"
    "pcTail Q = storage_base q + ?n * ?s" "length (storage Q) = ?n * ?s" "pcTail Q < u32_bound" "?s \<le> storage_base q"
    using assms(2) by (rule data_okE)
  have len_bs: "?s \<le> length bs"
    using assms(2,5) by (simp add: source_ok_def)
  have tail: "storage_base q + ?n * ?s < u32_bound"
    using r(6,8) by simp
  define r' where "r' = (if r = 0 then ?n - 1 else r - 1)"
  define m where "m = (if pos = queueOVERWRITE \<and> ?m > 0 then ?m - 1 else ?m)"
  have over: "?n = 1 \<and> r = 0 \<and> m = 0" if "pos = queueOVERWRITE"
    using that assms(1,5) r(1) by (auto simp: source_ok_def m_def queue_ok_def)
  have m: "m < ?n" "wrap ?n (r + Suc m) = wrap ?n (wrap ?n (Suc r) + ?m)"
  proof -
    show "m < ?n"
      using assms(3,4) over by (cases pos) (auto simp: has_room_def m_def)
    show "wrap ?n (r + Suc m) = wrap ?n (wrap ?n (Suc r) + ?m)"
    proof (cases "pos = queueOVERWRITE")
      case True
      with over assms(1) show ?thesis by (auto simp: wrap_def queue_ok_def)
    next
      case False
      with \<open>m < ?n\<close> r(1) show ?thesis by (auto simp: wrap_def m_def)
    qed
  qed
  have u: "?m < u32_bound" "Suc m < u32_bound"
    using assms(1) m(1) by (auto simp: queue_ok_def)
  have m32: "add32 (if pos = queueOVERWRITE \<and> ?m > 0 then sub32 ?m 1 else ?m) 1 = Suc m"
  proof (cases "pos = queueOVERWRITE \<and> ?m > 0")
    case True
    with u show ?thesis by (simp add: m_def sub32_exact add32_exact)
  next
    case False
    then have "m = ?m"
      by (simp add: m_def)
    with False u show ?thesis by (auto simp: add32_exact)
  qed
  have r': "r' < ?n" "wrap ?n (Suc r') = r"
    using r(1) by (auto simp: r'_def wrap_def)
  let ?st = "overlay (storage Q) (r * ?s) (take ?s bs)"
  let ?Q = "Q\<lparr>storage := ?st, uSecond := storage_base q + r' * ?s, uxMessagesWaiting := Suc m\<rparr>"
  have "copy_in q (pcReadFrom Q) (Some bs) Q = Some (Q\<lparr>storage := ?st\<rparr>)"
    by (rule copy_in_slot [OF r(1,2,7) len_bs])
  moreover have "(if sub32 (pcReadFrom Q) ?s < pcHead Q then sub32 (pcTail Q) ?s else sub32 (pcReadFrom Q) ?s) = storage_base q + r' * ?s"
    unfolding r(2,5,6) r'_def by (rule back_slot [OF assms(2) r(9) tail r(1)])
  ultimately have run: "prvCopyDataToQueue q (Some bs) pos w = Some (False, set_queue q ?Q w)"
    using assms(2,3,6) m32 by (simp add: prvCopyDataToQueue_def Let_def cong: if_cong del: One_nat_def split del: if_split)
  have len: "length ?st = ?n * ?s"
    using slot_bound [OF r(1), of ?s] r(7) len_bs by simp
  have "data_ok q ?Q"
    using r r' m(2) len by (auto simp: data_ok_def)
  then have "queue_ok q ?Q"
    using assms(1,2) m(1) by (simp add: queue_ok_def is_mutex_def)
  moreover have "contents q ?Q = put pos (take ?s bs) (contents q Q)"
    using slots_overlay [OF r(7,1), of "take ?s bs"] ring_cons [of r "slots ?n ?s (storage Q)" m "take ?s bs"] r(1,3) r'(2) m(1)
      assms(2,3) len_bs over
    by (cases pos) (auto simp: contents_def read_slot_def m_def)
  ultimately show ?thesis
    using run by (auto simp: same_shape_def)
qed

lemma copy_empty_item:
  assumes "queue_ok q Q" "uxItemSize Q = 0" "\<not> is_mutex Q" "uxMessagesWaiting Q < uxLength Q" "pos \<noteq> queueOVERWRITE" "queues w q = Some Q"
  shows "\<exists>Q'. prvCopyDataToQueue q src pos w = Some (False, set_queue q Q' w) \<and> queue_ok q Q' \<and>
    same_shape Q Q' \<and> contents q Q' = put pos [] (contents q Q)"
proof -
  let ?Q = "Q\<lparr>uxMessagesWaiting := Suc (uxMessagesWaiting Q)\<rparr>"
  have "prvCopyDataToQueue q src pos w = Some (False, set_queue q ?Q w)"
    using assms by (simp add: prvCopyDataToQueue_def queue_ok_def add32_exact)
  moreover have "queue_ok q ?Q" "same_shape Q ?Q"
    using assms by (simp_all add: queue_ok_def is_mutex_def same_shape_def)
  moreover have "contents q ?Q = put pos [] (contents q Q)"
    using assms(2,5) by (cases pos) (simp_all add: contents_def replicate_append_same)
  ultimately show ?thesis by blast
qed

text \<open>Sending to a queue with room, in the three positions.\<close>

lemma copy_to_queue:
  assumes "queue_ok q Q" "\<not> is_mutex Q" "has_room pos Q" "source_ok src pos Q" "queues w q = Some Q"
  obtains Q' where "prvCopyDataToQueue q src pos w = Some (False, set_queue q Q' w)" "queue_ok q Q'"
    "same_shape Q Q'" "contents q Q' = put pos (item src Q) (contents q Q)"
proof (cases "uxItemSize Q = 0")
  case True
  then have pos: "pos \<noteq> queueOVERWRITE"
    using assms(4) by (auto simp: source_ok_def)
  then have "uxMessagesWaiting Q < uxLength Q"
    using assms(3) by (simp add: has_room_def)
  moreover have "item src Q = []"
    using True by (simp add: item_def split: option.splits)
  ultimately show ?thesis
    using copy_empty_item [OF assms(1) True assms(2) _ pos assms(5), of src] that by auto
next
  case False
  then obtain bs where bs: "src = Some bs" "uxItemSize Q \<le> length bs"
    using assms(4) by (auto simp: source_ok_def split: option.splits)
  then have it: "item src Q = take (uxItemSize Q) bs"
    by (simp add: item_def)
  show ?thesis
  proof (cases "pos = queueSEND_TO_BACK")
    case True
    with copy_to_back [OF assms(1) _ _ bs(2) assms(5)] False assms(3) bs(1) it that show ?thesis
      by (auto simp: has_room_def)
  next
    case pos: False
    with copy_to_front [OF assms(1) _ pos assms(3) _ assms(5)] False assms(4) bs(1) it that show ?thesis
      by auto
  qed
qed

lemma data_of: "queue_ok q Q \<Longrightarrow> 0 < uxItemSize Q \<Longrightarrow> data_ok q Q"
  by (simp add: queue_ok_def)

text \<open>Reading the next item moves the read pointer only; taking it out lowers the count as well.\<close>

lemma copy_from_queue:
  assumes "queue_ok q Q" "0 < uxMessagesWaiting Q"
  obtains x xs Q' where "prvCopyDataFromQueue q Q = Some (x, Q')" "contents q Q = x # xs" "same_shape Q Q'"
    "queue_ok q (Q'\<lparr>uxMessagesWaiting := uxMessagesWaiting Q - 1\<rparr>)"
    "contents q (Q'\<lparr>uxMessagesWaiting := uxMessagesWaiting Q - 1\<rparr>) = xs"
    "Q'\<lparr>uSecond := pcReadFrom Q\<rparr> = Q" "uxMessagesWaiting Q' = uxMessagesWaiting Q"
proof (cases "uxItemSize Q = 0")
  case True
  then obtain m where m: "uxMessagesWaiting Q = Suc m"
    using assms(2) by (cases "uxMessagesWaiting Q") auto
  have "queue_ok q (Q\<lparr>uxMessagesWaiting := uxMessagesWaiting Q - 1\<rparr>)"
    using assms(1) True m by (auto simp: queue_ok_def is_mutex_def)
  then show ?thesis
    using True m by (intro that [of "[]" Q "replicate m []"])
      (simp_all add: prvCopyDataFromQueue_def contents_def same_shape_def)
next
  case False
  let ?n = "uxLength Q" and ?s = "uxItemSize Q" and ?m = "uxMessagesWaiting Q"
  have s: "0 < ?s" and d: "data_ok q Q"
    using False data_of [OF assms(1)] by simp_all
  from d s obtain r where r: "r < ?n" "pcReadFrom Q = storage_base q + r * ?s" "read_slot q Q = r"
    "pcWriteTo Q = storage_base q + wrap ?n (wrap ?n (Suc r) + ?m) * ?s" "pcHead Q = storage_base q"
    "pcTail Q = storage_base q + ?n * ?s" "length (storage Q) = ?n * ?s" "pcTail Q < u32_bound" "?s \<le> storage_base q"
    by (rule data_okE)
  define r' where "r' = wrap ?n (Suc r)"
  have r': "r' < ?n"
    using r(1) by (auto simp: r'_def wrap_def)
  have mn: "?m \<le> ?n"
    using assms(1) by (simp add: queue_ok_def)
  have tail: "storage_base q + ?n * ?s < u32_bound"
    using r(6,8) by simp
  let ?Q = "Q\<lparr>uSecond := storage_base q + r' * ?s\<rparr>"
  have p: "(if add32 (pcReadFrom Q) ?s \<ge> pcTail Q then pcHead Q else add32 (pcReadFrom Q) ?s) = storage_base q + r' * ?s"
    unfolding r(2,5,6) r'_def by (rule step_pointer [OF r(1) tail s])
  have "copy_out q (storage_base q + r' * ?s) ?Q = Some (slots ?n ?s (storage Q) ! r')"
    using copy_out_slot [of r' ?Q "storage_base q + r' * ?s" q] r' r(7) by simp
  then have run: "prvCopyDataFromQueue q Q = Some (slots ?n ?s (storage Q) ! r', ?Q)"
    unfolding prvCopyDataFromQueue_def p Let_def using s by simp
  obtain m where m: "?m = Suc m" "m < ?n"
    using assms(2) mn by (cases ?m) auto
  have w: "wrap ?n (wrap ?n (Suc r') + m) = wrap ?n (r' + ?m)"
    using r' m by (auto simp: wrap_def)
  let ?Q' = "?Q\<lparr>uxMessagesWaiting := ?m - 1\<rparr>"
  have "data_ok q ?Q'"
    using r r' m(1) w by (auto simp: data_ok_def r'_def)
  then have ok: "queue_ok q ?Q'"
    using assms(1) s m by (simp add: queue_ok_def is_mutex_def)
  have "contents q Q = slots ?n ?s (storage Q) ! r' # contents q ?Q'"
    using ring_Suc [of r' "slots ?n ?s (storage Q)" m] s r' m r(3)
    by (simp add: contents_def r'_def read_slot_def)
  then show ?thesis
    by (rule that [OF run _ _ ok refl]) (simp_all add: same_shape_def)
qed

lemma contents_fields [simp]:
  "contents q (Q\<lparr>cRxLock := c\<rparr>) = contents q Q" "contents q (Q\<lparr>cTxLock := c\<rparr>) = contents q Q"
  "contents q (Q\<lparr>uxQueueNumber := n\<rparr>) = contents q Q"
  by (simp_all add: contents_def read_slot_def)

lemma queue_ok_fields [simp]:
  "queue_ok q (Q\<lparr>cRxLock := c\<rparr>) = queue_ok q Q" "queue_ok q (Q\<lparr>cTxLock := c\<rparr>) = queue_ok q Q"
  "queue_ok q (Q\<lparr>uxQueueNumber := n\<rparr>) = queue_ok q Q"
  by (simp_all add: queue_ok_def data_ok_def is_mutex_def)

text \<open>A queue without data does not read the words of its union.\<close>

lemma queue_ok_union: "uxItemSize Q = 0 \<Longrightarrow> queue_ok q (Q\<lparr>uFirst := a\<rparr>) = queue_ok q Q" "uxItemSize Q = 0 \<Longrightarrow> queue_ok q (Q\<lparr>uSecond := a\<rparr>) = queue_ok q Q"
  by (auto simp: queue_ok_def data_ok_def is_mutex_def)

lemma contents_union: "uxItemSize Q = 0 \<Longrightarrow> contents q (Q\<lparr>uFirst := a\<rparr>) = contents q Q" "uxItemSize Q = 0 \<Longrightarrow> contents q (Q\<lparr>uSecond := a\<rparr>) = contents q Q"
  by (simp_all add: contents_def)

section \<open>New and reset queues\<close>

text \<open>What resetting makes of a queue whose memory is laid out.\<close>

definition laid_out :: "addr \<Rightarrow> Queue \<Rightarrow> bool" where
  "laid_out q Q \<longleftrightarrow>
     q \<noteq> 0 \<and> 0 < uxLength Q \<and> uxLength Q < u32_bound \<and> (u32_bound - 1) div uxLength Q \<ge> uxItemSize Q \<and>
     (0 < uxItemSize Q \<longrightarrow> pcHead Q = storage_base q \<and> length (storage Q) = uxLength Q * uxItemSize Q \<and>
        storage_base q + uxLength Q * uxItemSize Q < u32_bound \<and> uxItemSize Q \<le> storage_base q) \<and>
     (is_mutex Q \<longrightarrow> uxItemSize Q = 0 \<and> uxLength Q = 1)"

lemma queue_ok_laid_out: "queue_ok q Q \<Longrightarrow> laid_out q Q"
proof -
  assume ok: "queue_ok q Q"
  have "uxItemSize Q \<le> (u32_bound - 1) div uxLength Q"
  proof (cases "uxItemSize Q = 0")
    case False
    with data_of [OF ok] have "storage_base q + uxLength Q * uxItemSize Q < u32_bound"
      by (auto simp: data_ok_def)
    then have "uxItemSize Q * uxLength Q \<le> u32_bound - 1"
      by (simp add: mult.commute)
    with ok show ?thesis
      by (simp add: queue_ok_def less_eq_div_iff_mult_less_eq)
  qed simp
  with ok data_of [OF ok] show ?thesis
    by (auto simp: laid_out_def queue_ok_def data_ok_def)
qed

definition emptied :: "addr \<Rightarrow> Queue \<Rightarrow> Queue" where
  "emptied q Q = Q\<lparr>uFirst := add32 (pcHead Q) (mul32 (uxLength Q) (uxItemSize Q)), uxMessagesWaiting := 0,
     pcWriteTo := pcHead Q, uSecond := add32 (pcHead Q) (mul32 (sub32 (uxLength Q) 1) (uxItemSize Q)),
     cRxLock := queueUNLOCKED, cTxLock := queueUNLOCKED\<rparr>"

lemma emptied_ok:
  assumes "laid_out q Q"
  shows "queue_ok q (emptied q Q)" "contents q (emptied q Q) = []"
proof -
  let ?n = "uxLength Q" and ?s = "uxItemSize Q"
  have "data_ok q (emptied q Q)" if s: "0 < ?s"
  proof -
    have l: "pcHead Q = storage_base q" "length (storage Q) = ?n * ?s" "storage_base q + ?n * ?s < u32_bound" "?s \<le> storage_base q"
      "0 < ?n" "?n < u32_bound"
      using assms s by (auto simp: laid_out_def)
    have b: "(?n - 1) * ?s + ?s = ?n * ?s"
      using l(5) by (cases ?n) simp_all
    have "mul32 ?n ?s = ?n * ?s" "sub32 ?n 1 = ?n - 1"
      using l by (simp_all add: mul32_exact sub32_exact)
    moreover have "mul32 (?n - 1) ?s = (?n - 1) * ?s"
      using l(3) b by (intro mul32_exact) linarith
    moreover have "add32 (storage_base q) ((?n - 1) * ?s) = storage_base q + (?n - 1) * ?s"
      using l(3) b by (intro add32_exact) linarith
    ultimately have e: "emptied q Q = Q\<lparr>uFirst := storage_base q + ?n * ?s, uxMessagesWaiting := 0, pcWriteTo := storage_base q,
        uSecond := storage_base q + (?n - 1) * ?s, cRxLock := queueUNLOCKED, cTxLock := queueUNLOCKED\<rparr>"
      using l by (simp add: emptied_def add32_exact)
    show ?thesis
      unfolding e data_ok_def using l by (auto simp: wrap_def intro!: exI [of _ "?n - 1"])
  qed
  with assms show "queue_ok q (emptied q Q)"
    by (simp add: queue_ok_def laid_out_def emptied_def is_mutex_def)
  show "contents q (emptied q Q) = []"
    by (simp add: contents_def emptied_def)
qed

lemma reset_run:
  assumes "laid_out q Q" "queues w q = Some Q"
  shows "xQueueGenericReset q True w = Some (on_kernel (\<lambda>k. k\<lparr>klists :=
      init_list (xTasksWaitingToReceive q) (init_list (xTasksWaitingToSend q) (klists k))\<rparr>) (set_queue q (emptied q Q) w))"
    "xQueueGenericReset q False w = wake_and_yield (xTasksWaitingToSend q) (set_queue q (emptied q Q) w)"
  using assms by (simp_all add: xQueueGenericReset_def laid_out_def emptied_def Let_def)

end
