(* ===== verification/QueueHistory.thy ===== *)
theory QueueHistory
  imports QueueData TaskHistory
begin

text \<open>
  Histories of tasks and interrupts that share queues. A machine is the world of kernel and queues
  with, for every task, the blocking call it is in and the part of it that comes next. \<open>qexec\<close>
  runs one event: the start of a call, the next part of the running task's call, a call from an
  interrupt or another operation of the kernel; parts of different tasks interleave in any order.
  Each event reports what it did to the items of a queue, and the items always agree with those
  reports: calls take effect at once, in the order of their successful attempts, whatever runs
  between their parts.
\<close>

section \<open>Machines\<close>

datatype qcall =
    Send addr "u8 list option" copy_position | Receive addr bool | PeekAt addr bool | Take addr | TakeRecursive addr

fun queue_of :: "qcall \<Rightarrow> addr" where
  "queue_of (Send q src pos) = q"
| "queue_of (Receive q buf) = q"
| "queue_of (PeekAt q buf) = q"
| "queue_of (Take q) = q"
| "queue_of (TakeRecursive q) = q"

fun call_part :: "qcall \<Rightarrow> qpc \<Rightarrow> qlocals \<Rightarrow> qworld \<Rightarrow> (qnext \<times> qworld) option" where
  "call_part (Send q src pos) pc L w = xQueueGenericSend q src pos pc L w"
| "call_part (Receive q buf) pc L w = xQueueReceive q buf pc L w"
| "call_part (PeekAt q buf) pc L w = xQueuePeek q buf pc L w"
| "call_part (Take q) pc L w = xQueueSemaphoreTake q pc L w"
| "call_part (TakeRecursive q) pc L w = xQueueTakeMutexRecursive q pc L w"

record qmachine =
  world :: qworld
  calls :: "tid \<Rightarrow> (qcall \<times> qpc \<times> qlocals) option"

datatype qevent =
    StartCall qcall nat | NextPart
  | SendISR addr "u8 list option" copy_position | GiveISR addr | ReceiveISR addr bool | PeekISR addr bool
  | GiveRecursive addr | ResetQueue addr | KernelOp kop

abbreviation current :: "qmachine \<Rightarrow> tid" where
  "current M \<equiv> pxCurrentTCB (kern (world M))"

text \<open>What an event does to the items of a queue.\<close>

datatype effect = Put addr copy_position "u8 list" | Got addr "u8 list" | Peeked addr "u8 list" | Cleared addr

definition item_at :: "addr \<Rightarrow> u8 list option \<Rightarrow> qworld \<Rightarrow> u8 list" where
  "item_at q src w = (case queues w q of None \<Rightarrow> [] | Some Q \<Rightarrow> item src Q)"

fun passed :: "qnext \<Rightarrow> u8 list option" where
  "passed (Inr (pdPASS bs)) = Some bs"
| "passed (Inr errQUEUE_FULL) = None"
| "passed (Inr errQUEUE_EMPTY) = None"
| "passed (Inl (pc, L)) = (if pc = CountUp then Some [] else None)"

fun call_effect :: "qcall \<Rightarrow> u8 list \<Rightarrow> qworld \<Rightarrow> effect" where
  "call_effect (Send q src pos) bs w = Put q pos (item_at q src w)"
| "call_effect (Receive q buf) bs w = Got q bs"
| "call_effect (PeekAt q buf) bs w = Peeked q bs"
| "call_effect (Take q) bs w = Got q bs"
| "call_effect (TakeRecursive q) bs w = Got q bs"

definition part_effect :: "qcall \<Rightarrow> qpc \<Rightarrow> qnext \<Rightarrow> qworld \<Rightarrow> effect list" where
  "part_effect c pc r w =
     (if pc = Attempt then (case passed r of None \<Rightarrow> [] | Some bs \<Rightarrow> [call_effect c bs w]) else [])"

definition start_locals :: "nat \<Rightarrow> qlocals" where
  "start_locals n = \<lparr>ticks_left = n, time_out = None, inherited = False\<rparr>"

fun qexec :: "qevent \<Rightarrow> qmachine \<Rightarrow> (effect list \<times> qmachine) option" where
  "qexec (StartCall c n) M =
     (if calls M (current M) = None
      then Some ([], M\<lparr>calls := (calls M)(current M := Some (c, Enter, start_locals n))\<rparr>) else None)"
| "qexec NextPart M =
     (case calls M (current M) of
        None \<Rightarrow> None
      | Some (c, pc, L) \<Rightarrow>
          do { (r, w) \<leftarrow> call_part c pc L (world M);
               Some (part_effect c pc r (world M),
                 M\<lparr>world := w, calls := (calls M)(current M :=
                   (case r of Inl (pc, L) \<Rightarrow> Some (c, pc, L) | Inr _ \<Rightarrow> None))\<rparr>) })"
| "qexec (SendISR q src pos) M =
     do { (ok, _, w) \<leftarrow> xQueueGenericSendFromISR q src pos (world M);
          Some (if ok then [Put q pos (item_at q src (world M))] else [], M\<lparr>world := w\<rparr>) }"
| "qexec (GiveISR q) M =
     do { (ok, _, w) \<leftarrow> xQueueGiveFromISR q (world M);
          Some (if ok then [Put q queueSEND_TO_BACK []] else [], M\<lparr>world := w\<rparr>) }"
| "qexec (ReceiveISR q buf) M =
     do { (x, _, w) \<leftarrow> xQueueReceiveFromISR q buf (world M);
          Some (case x of None \<Rightarrow> [] | Some bs \<Rightarrow> [Got q bs], M\<lparr>world := w\<rparr>) }"
| "qexec (PeekISR q buf) M =
     do { (x, w) \<leftarrow> xQueuePeekFromISR q buf (world M);
          Some (case x of None \<Rightarrow> [] | Some bs \<Rightarrow> [Peeked q bs], M\<lparr>world := w\<rparr>) }"
| "qexec (GiveRecursive q) M =
     (if calls M (current M) = None
      then do { Q \<leftarrow> queues (world M) q;
                (ok, w) \<leftarrow> xQueueGiveMutexRecursive q (world M);
                Q' \<leftarrow> queues w q;
                Some (if uxMessagesWaiting Q' \<noteq> uxMessagesWaiting Q then [Put q queueSEND_TO_BACK []] else [], M\<lparr>world := w\<rparr>) }
      else None)"
| "qexec (ResetQueue q) M =
     (if calls M (current M) = None
      then do { w \<leftarrow> xQueueGenericReset q False (world M); Some ([Cleared q], M\<lparr>world := w\<rparr>) } else None)"
| "qexec (KernelOp a) M =
     map_option (\<lambda>k. ([], M\<lparr>world := (world M)\<lparr>kern := k\<rparr>\<rparr>)) (kexec a (kern (world M)))"

fun qexec_all :: "qevent list \<Rightarrow> qmachine \<Rightarrow> (effect list \<times> qmachine) option" where
  "qexec_all [] M = Some ([], M)"
| "qexec_all (e # es) M =
     do { (xs, M) \<leftarrow> qexec e M; (ys, M) \<leftarrow> qexec_all es M; Some (xs @ ys, M) }"

section \<open>The abstract queues\<close>

type_synonym item_queues = "addr \<Rightarrow> u8 list list option"

text \<open>An effect on lists of items; \<open>None\<close> if it does not fit, as when another item is received than the first.\<close>

fun apply_effect :: "effect \<Rightarrow> item_queues \<Rightarrow> item_queues option" where
  "apply_effect (Put q pos x) A = map_option (\<lambda>xs. A(q := Some (put pos x xs))) (A q)"
| "apply_effect (Got q x) A =
     (case A q of Some (y # ys) \<Rightarrow> if x = y then Some (A(q := Some ys)) else None | _ \<Rightarrow> None)"
| "apply_effect (Peeked q x) A =
     (case A q of Some (y # ys) \<Rightarrow> if x = y then Some A else None | _ \<Rightarrow> None)"
| "apply_effect (Cleared q) A = (case A q of None \<Rightarrow> None | Some _ \<Rightarrow> Some (A(q := Some [])))"

fun apply_effects :: "effect list \<Rightarrow> item_queues \<Rightarrow> item_queues option" where
  "apply_effects [] A = Some A"
| "apply_effects (x # xs) A = do { A \<leftarrow> apply_effect x A; apply_effects xs A }"

definition items_of :: "qworld \<Rightarrow> item_queues" where
  "items_of w q = map_option (contents q) (queues w q)"

definition queues_ok :: "qworld \<Rightarrow> bool" where
  "queues_ok w \<longleftrightarrow> (\<forall>q Q. queues w q = Some Q \<longrightarrow> queue_ok q Q)"

lemma apply_effects_append: "apply_effects (xs @ ys) A = Option.bind (apply_effects xs A) (apply_effects ys)"
  by (induction xs arbitrary: A) (simp_all split: bind_splits)

text \<open>
  The callers' part: a call is given enough bytes and overwrites only queues of one item, and the
  recursive calls are for semaphores and mutexes.
\<close>

definition on_queue :: "addr \<Rightarrow> (Queue \<Rightarrow> bool) \<Rightarrow> qworld \<Rightarrow> bool" where
  "on_queue q P w \<longleftrightarrow> (case queues w q of None \<Rightarrow> True | Some Q \<Rightarrow> P Q)"

fun call_ok :: "qcall \<Rightarrow> qworld \<Rightarrow> bool" where
  "call_ok (Send q src pos) w \<longleftrightarrow> on_queue q (source_ok src pos) w"
| "call_ok (TakeRecursive q) w \<longleftrightarrow> on_queue q (\<lambda>Q. uxItemSize Q = 0) w"
| "call_ok c w \<longleftrightarrow> True"

definition task_ok :: "qcall \<Rightarrow> qpc \<Rightarrow> qworld \<Rightarrow> bool" where
  "task_ok c pc w \<longleftrightarrow>
     call_ok c w \<and> (pc \<noteq> Enter \<longrightarrow> (\<exists>q. c = Take q) \<longrightarrow> on_queue (queue_of c) (\<lambda>Q. uxItemSize Q = 0) w)"

definition calls_ok :: "qmachine \<Rightarrow> bool" where
  "calls_ok M \<longleftrightarrow> (\<forall>t c pc L. calls M t = Some (c, pc, L) \<longrightarrow> task_ok c pc (world M))"

fun event_ok :: "qevent \<Rightarrow> qmachine \<Rightarrow> bool" where
  "event_ok (StartCall c n) M \<longleftrightarrow> call_ok c (world M)"
| "event_ok (SendISR q src pos) M \<longleftrightarrow> call_ok (Send q src pos) (world M)"
| "event_ok (GiveRecursive q) M \<longleftrightarrow> call_ok (TakeRecursive q) (world M)"
| "event_ok _ M \<longleftrightarrow> True"

fun events_fit :: "qevent list \<Rightarrow> qmachine \<Rightarrow> bool" where
  "events_fit [] M \<longleftrightarrow> True"
| "events_fit (e # es) M \<longleftrightarrow> event_ok e M \<and> (case qexec e M of None \<Rightarrow> True | Some (_, M) \<Rightarrow> events_fit es M)"

section \<open>Frames\<close>

text \<open>What runs in the kernel leaves the queues alone.\<close>

lemma queues_set_queue [simp]: "queues (set_queue q Q w) = (queues w)(q := Some Q)" "kern (set_queue q Q w) = kern w"
  by (simp_all add: set_queue_def)

lemma queues_on_kernel [simp]: "queues (on_kernel f w) = queues w" "queues (yield_if y w) = queues w"
  by (simp_all add: on_kernel_def yield_if_def)

lemma in_kernel_queues: "in_kernel f w = Some (x, w') \<Longrightarrow> queues w' = queues w"
  by (auto simp: in_kernel_def)

lemma wake_waiter_queues: "wake_waiter l w = Some (y, w') \<Longrightarrow> queues w' = queues w"
  by (auto simp: wake_waiter_def in_kernel_queues split: if_splits)

lemma wake_and_yield_queues: "wake_and_yield l w = Some w' \<Longrightarrow> queues w' = queues w"
  by (auto simp: wake_and_yield_def wake_waiter_queues split: bind_splits)

lemma wake_counted_queues: "wake_counted n l w = Some w' \<Longrightarrow> queues w' = queues w"
  by (induction n arbitrary: w) (auto simp: in_kernel_queues split: if_splits bind_splits)

lemmas kernel_queues = in_kernel_queues wake_waiter_queues wake_and_yield_queues wake_counted_queues

text \<open>An operation alters one queue: it keeps the shape and relates the items before and after by \<open>R\<close>.\<close>

definition shape :: "Queue \<Rightarrow> addr \<times> nat \<times> nat" where
  "shape Q = (pcHead Q, uxLength Q, uxItemSize Q)"

definition alters :: "addr \<Rightarrow> (u8 list list \<Rightarrow> u8 list list \<Rightarrow> bool) \<Rightarrow> qworld \<Rightarrow> qworld \<Rightarrow> bool" where
  "alters q R w w' \<longleftrightarrow>
     (\<exists>Q Q'. queues w q = Some Q \<and> queues w' = (queues w)(q := Some Q') \<and> shape Q' = shape Q \<and>
        queue_ok q Q' \<and> R (contents q Q) (contents q Q'))"

definition quiet :: "addr \<Rightarrow> qworld \<Rightarrow> qworld \<Rightarrow> bool" where
  "quiet q w w' \<longleftrightarrow> queues w' = queues w \<or> alters q (\<lambda>xs ys. ys = xs) w w'"

lemma altersI:
  "queues w q = Some Q \<Longrightarrow> queues w' = (queues w)(q := Some Q') \<Longrightarrow> shape Q' = shape Q \<Longrightarrow>
   queue_ok q Q' \<Longrightarrow> R (contents q Q) (contents q Q') \<Longrightarrow> alters q R w w'"
  by (auto simp: alters_def)

lemma altersE:
  assumes "alters q R w w'" "queues_ok w"
  obtains Q Q' where "queues w q = Some Q" "queues w' = (queues w)(q := Some Q')" "shape Q' = shape Q"
    "queue_ok q Q" "queue_ok q Q'" "R (contents q Q) (contents q Q')" "queues_ok w'"
    "items_of w' = (items_of w)(q := Some (contents q Q'))"
proof -
  obtain Q Q' where r: "queues w q = Some Q" "queues w' = (queues w)(q := Some Q')" "shape Q' = shape Q"
    "queue_ok q Q'" "R (contents q Q) (contents q Q')"
    using assms(1) by (auto simp: alters_def)
  moreover have ok: "queue_ok q Q"
    using assms(2) r(1) by (simp add: queues_ok_def)
  moreover have "queues_ok w'"
    using assms(2) r(2,4) by (simp add: queues_ok_def)
  moreover have "items_of w' = (items_of w)(q := Some (contents q Q'))"
    by (rule ext) (simp add: items_of_def r(2))
  ultimately show ?thesis
    using that by blast
qed

lemma alters_queues: "alters q R w w1 \<Longrightarrow> queues w2 = queues w1 \<Longrightarrow> alters q R w w2"
  by (simp add: alters_def)

lemma same_shape: "same_shape Q Q' \<Longrightarrow> shape Q' = shape Q"
  by (simp add: same_shape_def shape_def)

lemma queues_okD: "queues_ok w \<Longrightarrow> queues w q = Some Q \<Longrightarrow> queue_ok q Q"
  by (simp add: queues_ok_def)

section \<open>What the parts do to the items\<close>

lemma copy_to_mutex:
  assumes "queue_ok q Q" "is_mutex Q" "has_room pos Q" "source_ok src pos Q" "queues w q = Some Q"
    "prvCopyDataToQueue q src pos w = Some (y, w')"
  shows "alters q (\<lambda>xs ys. ys = put pos (item src Q) xs) w w'"
proof -
  have z: "uxItemSize Q = 0" "uxLength Q = 1" and pos: "pos \<noteq> queueOVERWRITE"
    using assms(1,2,4) by (auto simp: queue_ok_def source_ok_def)
  then have m: "uxMessagesWaiting Q = 0"
    using assms(3) by (simp add: has_room_def)
  let ?Q = "Q\<lparr>uFirst := 0, uxMessagesWaiting := 1\<rparr>"
  have "queues w' = (queues w)(q := Some ?Q)"
    using assms(2,5,6) z m by (auto simp: prvCopyDataToQueue_def add32_def u32_bound_def dest!: in_kernel_queues split: bind_splits)
  moreover have "queue_ok q ?Q"
    using assms(1) z by (simp add: queue_ok_def is_mutex_def)
  moreover have "contents q ?Q = put pos (item src Q) (contents q Q)"
    using z m pos by (cases pos) (simp_all add: contents_def item_def split: option.splits)
  ultimately show ?thesis
    using assms(5) by (intro altersI) (simp_all add: shape_def)
qed

lemma copy_to_alters:
  assumes "queues_ok w" "queues w q = Some Q" "has_room pos Q" "source_ok src pos Q"
    "prvCopyDataToQueue q src pos w = Some (y, w')"
  shows "alters q (\<lambda>xs ys. ys = put pos (item src Q) xs) w w'"
proof (cases "is_mutex Q")
  case True
  with copy_to_mutex queues_okD [OF assms(1,2)] assms(2-5) show ?thesis by blast
next
  case False
  obtain Q' where "prvCopyDataToQueue q src pos w = Some (False, set_queue q Q' w)" "queue_ok q Q'"
    "same_shape Q Q'" "contents q Q' = put pos (item src Q) (contents q Q)"
    by (rule copy_to_queue [OF queues_okD [OF assms(1,2)] False assms(3,4,2)])
  with assms(2,5) show ?thesis
    by (intro altersI [of w q Q w' Q']) (auto simp: same_shape)
qed

lemma send_attempt_effect:
  assumes "queues_ok w" "on_queue q (source_ok src pos) w" "send_attempt q src pos L w = Some (r, w')"
  shows "(if passed r = None then queues w' = queues w else alters q (\<lambda>xs ys. ys = put pos (item_at q src w) xs) w w')"
proof -
  obtain Q where Q: "queues w q = Some Q"
    using assms(3) by (auto simp: send_attempt_def split: bind_splits)
  show ?thesis
  proof (cases "has_room pos Q")
    case False
    with assms(3) Q show ?thesis
      by (auto simp: send_attempt_def has_room_def no_luck_def split: if_splits)
  next
    case True
    then have c: "uxMessagesWaiting Q < uxLength Q \<or> pos = queueOVERWRITE"
      by (simp add: has_room_def)
    from assms(3) Q c obtain y w1 where w1: "prvCopyDataToQueue q src pos w = Some (y, w1)" "queues w' = queues w1" "r = Inr (pdPASS [])"
      by (auto simp: send_attempt_def Let_def kernel_queues split: bind_splits if_splits)
    have "alters q (\<lambda>xs ys. ys = put pos (item src Q) xs) w w1"
      by (rule copy_to_alters [OF assms(1) Q True _ w1(1)]) (use assms(2) Q in \<open>simp add: on_queue_def\<close>)
    with w1(2,3) Q show ?thesis
      by (simp add: alters_queues item_at_def)
  qed
qed

text \<open>Taking the first item out.\<close>

lemma copy_from_alters:
  assumes "queues_ok w" "queues w q = Some Q" "0 < uxMessagesWaiting Q" "prvCopyDataFromQueue q Q = Some (bs, Q1)"
    "queues w' = (queues w)(q := Some (Q1\<lparr>uxMessagesWaiting := sub32 (uxMessagesWaiting Q1) 1\<rparr>))"
  shows "alters q (\<lambda>xs ys. xs = bs # ys) w w'"
proof -
  have ok: "queue_ok q Q"
    using queues_okD [OF assms(1,2)] .
  obtain x xs Q' where Q': "prvCopyDataFromQueue q Q = Some (x, Q')" "contents q Q = x # xs" "same_shape Q Q'"
    "queue_ok q (Q'\<lparr>uxMessagesWaiting := uxMessagesWaiting Q - 1\<rparr>)"
    "contents q (Q'\<lparr>uxMessagesWaiting := uxMessagesWaiting Q - 1\<rparr>) = xs"
    "Q'\<lparr>uSecond := pcReadFrom Q\<rparr> = Q" "uxMessagesWaiting Q' = uxMessagesWaiting Q"
    by (rule copy_from_queue [OF ok assms(3)])
  have "sub32 (uxMessagesWaiting Q') 1 = uxMessagesWaiting Q - 1"
    using Q'(7) ok assms(3) by (simp add: queue_ok_def sub32_exact)
  with Q' assms(2,4,5) show ?thesis
    by (intro altersI [of w q Q w' "Q'\<lparr>uxMessagesWaiting := uxMessagesWaiting Q - 1\<rparr>"])
      (simp_all add: shape_def same_shape_def)
qed

lemma receive_attempt_effect:
  assumes "queues_ok w" "receive_attempt q L w = Some (r, w')"
  shows "(case passed r of None \<Rightarrow> queues w' = queues w | Some bs \<Rightarrow> alters q (\<lambda>xs ys. xs = bs # ys) w w')"
proof -
  obtain Q where Q: "queues w q = Some Q"
    using assms(2) by (auto simp: receive_attempt_def split: bind_splits)
  show ?thesis
  proof (cases "uxMessagesWaiting Q > 0")
    case False
    with assms(2) Q show ?thesis
      by (auto simp: receive_attempt_def no_luck_def split: if_splits)
  next
    case True
    with assms(2) Q obtain bs Q1 where r: "prvCopyDataFromQueue q Q = Some (bs, Q1)" "r = Inr (pdPASS bs)"
      "queues w' = (queues w)(q := Some (Q1\<lparr>uxMessagesWaiting := sub32 (uxMessagesWaiting Q1) 1\<rparr>))"
      by (auto simp: receive_attempt_def dest!: wake_and_yield_queues split: bind_splits)
    with copy_from_alters [OF assms(1) Q True r(1,3)] show ?thesis
      by simp
  qed
qed

lemma peek_attempt_effect:
  assumes "queues_ok w" "peek_attempt q L w = Some (r, w')"
  shows "queues w' = queues w \<and> (\<forall>bs. passed r = Some bs \<longrightarrow> (\<exists>xs. items_of w q = Some (bs # xs)))"
proof -
  obtain Q where Q: "queues w q = Some Q"
    using assms(2) by (auto simp: peek_attempt_def split: bind_splits)
  show ?thesis
  proof (cases "uxMessagesWaiting Q > 0")
    case False
    with assms(2) Q show ?thesis
      by (auto simp: peek_attempt_def no_luck_def split: if_splits)
  next
    case True
    obtain x xs Q' where Q': "prvCopyDataFromQueue q Q = Some (x, Q')" "contents q Q = x # xs" "Q'\<lparr>uSecond := pcReadFrom Q\<rparr> = Q"
      by (rule copy_from_queue [OF queues_okD [OF assms(1) Q] True])
    with assms(2) Q True have "queues w' = (queues w)(q := Some Q)" "r = Inr (pdPASS x)"
      by (auto simp: peek_attempt_def dest!: wake_and_yield_queues split: bind_splits)
    with Q Q'(2) show ?thesis
      by (auto simp: items_of_def)
  qed
qed

lemma count_down:
  assumes "queues_ok w" "queues w q = Some Q" "0 < uxMessagesWaiting Q" "uxItemSize Q = 0"
    "queues w' = (queues w)(q := Some Q')" "shape Q' = shape Q" "uxMessagesWaiting Q' = sub32 (uxMessagesWaiting Q) 1"
  shows "alters q (\<lambda>xs ys. xs = [] # ys) w w'"
proof -
  have ok: "queue_ok q Q"
    using queues_okD [OF assms(1,2)] .
  then have m: "uxMessagesWaiting Q' = uxMessagesWaiting Q - 1"
    using assms(3,7) by (simp add: queue_ok_def sub32_exact)
  have "queue_ok q Q'"
    using ok assms(4,6) m by (auto simp: queue_ok_def is_mutex_def shape_def)
  moreover have "contents q Q = [] # contents q Q'"
    using assms(3,4,6) m by (cases "uxMessagesWaiting Q") (simp_all add: contents_def shape_def)
  ultimately show ?thesis
    using assms(2,5,6) by (intro altersI [of w q Q w' Q']) simp_all
qed

lemma take_attempt_effect:
  assumes "queues_ok w" "on_queue q (\<lambda>Q. uxItemSize Q = 0) w" "take_attempt q L w = Some (r, w')"
  shows "(case passed r of None \<Rightarrow> queues w' = queues w | Some bs \<Rightarrow> bs = [] \<and> alters q (\<lambda>xs ys. xs = [] # ys) w w')"
proof -
  obtain Q where Q: "queues w q = Some Q"
    using assms(3) by (auto simp: take_attempt_def split: bind_splits)
  have z: "uxItemSize Q = 0"
    using assms(2) Q by (simp add: on_queue_def)
  show ?thesis
  proof (cases "uxMessagesWaiting Q > 0")
    case False
    with assms(3) Q show ?thesis
      by (auto simp: take_attempt_def no_luck_def split: if_splits)
  next
    case True
    let ?Q = "Q\<lparr>uxMessagesWaiting := sub32 (uxMessagesWaiting Q) 1\<rparr>"
    from assms(3) Q True obtain w1 where w1: "queues w' = queues w1" "r = Inr (pdPASS [])"
      "(if is_mutex ?Q then do { (t, w) \<leftarrow> in_kernel pvTaskIncrementMutexHeldCount w; Some (set_queue q (?Q\<lparr>uFirst := t\<rparr>) w) }
        else Some (set_queue q ?Q w)) = Some w1"
      by (auto simp: take_attempt_def Let_def wake_and_yield_queues simp del: One_nat_def split del: if_split split: bind_splits)
    from w1(1,3) obtain Q' where "queues w' = (queues w)(q := Some Q')" "shape Q' = shape Q"
      "uxMessagesWaiting Q' = sub32 (uxMessagesWaiting Q) 1"
      by (auto simp: in_kernel_queues shape_def simp del: One_nat_def split: if_splits bind_splits)
    with count_down [OF assms(1) Q True z] w1(2) show ?thesis
      by simp
  qed
qed

lemma same_items:
  assumes "queues_ok w" "queues w q = Some Q" "queues w' = (queues w)(q := Some Q')" "shape Q' = shape Q"
    "queue_ok q Q \<Longrightarrow> queue_ok q Q'" "contents q Q' = contents q Q"
  shows "alters q (\<lambda>xs ys. ys = xs) w w'"
  using assms queues_okD [OF assms(1,2)] by (intro altersI [of w q Q w' Q']) simp_all

lemma lock_effect:
  assumes "queues_ok w" "prvLockQueue q w = Some w'"
  shows "alters q (\<lambda>xs ys. ys = xs) w w'"
proof -
  obtain Q where Q: "queues w q = Some Q"
    using assms(2) by (auto simp: prvLockQueue_def split: bind_splits)
  with assms(2) show ?thesis
    by (intro same_items [OF assms(1) Q, of _ "Q\<lparr>cRxLock := (if cRxLock Q = queueUNLOCKED then queueLOCKED_UNMODIFIED else cRxLock Q),
          cTxLock := (if cTxLock Q = queueUNLOCKED then queueLOCKED_UNMODIFIED else cTxLock Q)\<rparr>"])
      (auto simp: prvLockQueue_def Let_def shape_def)
qed

lemma unlock_effect:
  assumes "queues_ok w"
  shows "unlock_tx q w = Some w' \<Longrightarrow> alters q (\<lambda>xs ys. ys = xs) w w'"
    "unlock_rx q w = Some w' \<Longrightarrow> alters q (\<lambda>xs ys. ys = xs) w w'"
proof -
  show "alters q (\<lambda>xs ys. ys = xs) w w'" if u: "unlock_tx q w = Some w'"
  proof -
    obtain Q where Q: "queues w q = Some Q"
      using u by (auto simp: unlock_tx_def split: bind_splits)
    with u show ?thesis
      by (intro same_items [OF assms(1) Q, of _ "Q\<lparr>cTxLock := queueUNLOCKED\<rparr>"])
        (auto simp: unlock_tx_def shape_def kernel_queues split: bind_splits)
  qed
  show "alters q (\<lambda>xs ys. ys = xs) w w'" if u: "unlock_rx q w = Some w'"
  proof -
    obtain Q where Q: "queues w q = Some Q"
      using u by (auto simp: unlock_rx_def split: bind_splits)
    with u show ?thesis
      by (intro same_items [OF assms(1) Q, of _ "Q\<lparr>cRxLock := queueUNLOCKED\<rparr>"])
        (auto simp: unlock_rx_def shape_def kernel_queues split: bind_splits)
  qed
qed

lemma wait_part_effect:
  assumes "queues_ok w" "wait_part q l must_wait inherit pc L w = Some (r, w')"
  shows "quiet q w w'" "pc \<noteq> Attempt" "isl r"
proof -
  show "quiet q w w'"
    using assms(2) lock_effect [OF assms(1)] unlock_effect [OF assms(1)]
    by (cases pc) (auto simp: quiet_def kernel_queues split: bind_splits prod.splits)
  show "pc \<noteq> Attempt"
    using assms(2) by auto
  show "isl r"
    using assms(2) by (cases pc) (auto split: bind_splits prod.splits)
qed

section \<open>Reports agree with the items\<close>

definition shapes :: "qworld \<Rightarrow> addr \<Rightarrow> (addr \<times> nat \<times> nat) option" where
  "shapes w q = map_option shape (queues w q)"

text \<open>From well-formed queues to well-formed queues of the same shapes, with the reported effects.\<close>

definition reported :: "qworld \<Rightarrow> effect list \<Rightarrow> qworld \<Rightarrow> bool" where
  "reported w xs w' \<longleftrightarrow>
     queues_ok w' \<and> shapes w' = shapes w \<and> apply_effects xs (items_of w) = Some (items_of w')"

lemma reported_same: "queues_ok w \<Longrightarrow> queues w' = queues w \<Longrightarrow> reported w [] w'"
  by (simp add: reported_def queues_ok_def shapes_def fun_eq_iff items_of_def)

lemma reportedI:
  assumes "alters q R w w'" "queues_ok w"
    "\<And>xs ys. R xs ys \<Longrightarrow> items_of w q = Some xs \<Longrightarrow> apply_effects es (items_of w) = Some ((items_of w)(q := Some ys))"
  shows "reported w es w'"
proof -
  obtain Q Q' where a: "queues w q = Some Q" "queues w' = (queues w)(q := Some Q')" "shape Q' = shape Q"
    "queue_ok q Q" "queue_ok q Q'" "R (contents q Q) (contents q Q')" "queues_ok w'"
    "items_of w' = (items_of w)(q := Some (contents q Q'))"
    using assms(1,2) by (rule altersE)
  have "shapes w' = shapes w"
    by (rule ext) (simp add: shapes_def a(1-3))
  moreover have "items_of w q = Some (contents q Q)"
    by (simp add: items_of_def a(1))
  ultimately show ?thesis
    using assms(3) [OF a(6)] a(7,8) by (simp add: reported_def)
qed

lemma reported_alters:
  assumes "queues_ok w"
  shows "alters q (\<lambda>xs ys. ys = xs) w w' \<Longrightarrow> reported w [] w'"
    "alters q (\<lambda>xs ys. ys = put pos x xs) w w' \<Longrightarrow> reported w [Put q pos x] w'"
    "alters q (\<lambda>xs ys. xs = x # ys) w w' \<Longrightarrow> reported w [Got q x] w'"
    "alters q (\<lambda>xs ys. ys = []) w w' \<Longrightarrow> reported w [Cleared q] w'"
proof -
  show "reported w [] w'" if "alters q (\<lambda>xs ys. ys = xs) w w'"
    by (rule reportedI [OF that assms]) (simp add: fun_upd_idem)
  show "reported w [Put q pos x] w'" if "alters q (\<lambda>xs ys. ys = put pos x xs) w w'"
    by (rule reportedI [OF that assms]) simp
  show "reported w [Got q x] w'" if "alters q (\<lambda>xs ys. xs = x # ys) w w'"
    by (rule reportedI [OF that assms]) simp
  show "reported w [Cleared q] w'" if "alters q (\<lambda>xs ys. ys = []) w w'"
    by (rule reportedI [OF that assms]) simp
qed

lemma reported_quiet: "queues_ok w \<Longrightarrow> quiet q w w' \<Longrightarrow> reported w [] w'"
  by (auto simp: quiet_def reported_same reported_alters)

lemma reported_peek:
  "queues_ok w \<Longrightarrow> queues w' = queues w \<Longrightarrow> items_of w q = Some (x # xs) \<Longrightarrow> reported w [Peeked q x] w'"
  using reported_same [of w w'] by (simp add: reported_def)

lemma shapes_queue: "shapes w' = shapes w \<Longrightarrow> queues w q = Some Q \<Longrightarrow> \<exists>Q'. queues w' q = Some Q' \<and> shape Q' = shape Q"
  by (drule fun_cong [of _ _ q]) (auto simp: shapes_def)

lemma on_queue_shapes:
  assumes "shapes w' = shapes w"
  shows "on_queue q (source_ok src pos) w' = on_queue q (source_ok src pos) w"
    "on_queue q (\<lambda>Q. uxItemSize Q = 0) w' = on_queue q (\<lambda>Q. uxItemSize Q = 0) w"
  using fun_cong [OF assms, of q]
  by (auto simp: on_queue_def shapes_def shape_def source_ok_def split: option.splits)

lemma call_ok_shapes:
  assumes "shapes w' = shapes w"
  shows "call_ok c w' = call_ok c w"
  by (cases c) (simp_all add: on_queue_shapes [OF assms])

text \<open>The parts of each call.\<close>

lemma part_effect_other: "pc \<noteq> Attempt \<Longrightarrow> part_effect c pc r w = []"
  by (simp add: part_effect_def)

lemma still_empty_queues: "still_empty q pc L w = Some (r, w') \<Longrightarrow> queues w' = queues w"
  by (auto simp: still_empty_def split: bind_splits)

lemma send_part:
  assumes "queues_ok w" "on_queue q (source_ok src pos) w" "xQueueGenericSend q src pos pc L w = Some (r, w')"
  shows "reported w (part_effect (Send q src pos) pc r w) w'"
proof (cases "pc = Attempt")
  case True
  with send_attempt_effect [OF assms(1,2), of L r w'] assms(3) show ?thesis
    by (auto simp: part_effect_def reported_same [OF assms(1)] reported_alters [OF assms(1)] split: option.splits if_splits)
next
  case False
  have "quiet q w w'"
    using assms(3) False wait_part_effect(1) [OF assms(1)]
    by (cases pc) (auto simp: quiet_def split: bind_splits if_splits simp del: wait_part.simps)
  with False show ?thesis
    by (simp add: part_effect_other reported_quiet [OF assms(1)])
qed

lemma receive_part:
  assumes "queues_ok w" "xQueueReceive q buf pc L w = Some (r, w')"
  shows "reported w (part_effect (Receive q buf) pc r w) w'"
proof (cases "pc = Attempt")
  case True
  with receive_attempt_effect [OF assms(1), of q L r w'] assms(2) show ?thesis
    by (auto simp: part_effect_def reported_same [OF assms(1)] reported_alters [OF assms(1)] split: option.splits if_splits)
next
  case False
  have "quiet q w w'"
    using assms(2) False wait_part_effect(1) [OF assms(1)] still_empty_queues
    by (cases pc) (auto simp: quiet_def split: bind_splits if_splits simp del: wait_part.simps)
  with False show ?thesis
    by (simp add: part_effect_other reported_quiet [OF assms(1)])
qed

lemma peek_part:
  assumes "queues_ok w" "xQueuePeek q buf pc L w = Some (r, w')"
  shows "reported w (part_effect (PeekAt q buf) pc r w) w'"
proof (cases "pc = Attempt")
  case True
  with peek_attempt_effect [OF assms(1), of q L r w'] assms(2) show ?thesis
    by (auto simp: part_effect_def reported_same [OF assms(1)] reported_peek [OF assms(1)] split: option.splits if_splits)
next
  case False
  have "quiet q w w'"
    using assms(2) False wait_part_effect(1) [OF assms(1)] still_empty_queues
    by (cases pc) (auto simp: quiet_def split: bind_splits if_splits simp del: wait_part.simps)
  with False show ?thesis
    by (simp add: part_effect_other reported_quiet [OF assms(1)])
qed

lemma take_quiet:
  assumes "queues_ok w" "xQueueSemaphoreTake q pc L w = Some (r, w')" "pc \<noteq> Attempt"
  shows "quiet q w w'"
  using assms(2,3) wait_part_effect(1) [OF assms(1)] still_empty_queues
  by (cases pc) (auto simp: quiet_def split: bind_splits if_splits simp del: wait_part.simps)

lemma take_part:
  assumes "queues_ok w" "pc \<noteq> Enter \<Longrightarrow> on_queue q (\<lambda>Q. uxItemSize Q = 0) w" "xQueueSemaphoreTake q pc L w = Some (r, w')"
  shows "reported w (part_effect (Take q) pc r w) w'"
proof (cases "pc = Attempt")
  case True
  with take_attempt_effect [OF assms(1,2), of L r w'] assms(3) show ?thesis
    by (auto simp: part_effect_def reported_same [OF assms(1)] reported_alters [OF assms(1)] split: option.splits if_splits)
next
  case False
  with take_quiet [OF assms(1,3)] show ?thesis
    by (simp add: part_effect_other reported_quiet [OF assms(1)])
qed

lemma take_recursive_part:
  assumes "queues_ok w" "on_queue q (\<lambda>Q. uxItemSize Q = 0) w" "xQueueTakeMutexRecursive q pc L w = Some (r, w')"
  shows "reported w (part_effect (TakeRecursive q) pc r w) w'"
proof (cases "pc = Attempt")
  case True
  with assms(3) obtain r0 where r0: "take_attempt q L w = Some (r0, w')"
    "r = (case r0 of Inr (pdPASS _) \<Rightarrow> Inl (CountUp, L) | _ \<Rightarrow> r0)"
    by (auto split: bind_splits)
  have "passed r = passed r0"
  proof -
    have "\<exists>L'. r0 = Inr (pdPASS []) \<or> r0 = Inr errQUEUE_EMPTY \<or> r0 = Inl (SuspendScheduler, L')"
      using r0(1) by (auto simp: take_attempt_def no_luck_def Let_def split: bind_splits if_splits)
    then show ?thesis
      using r0(2) by auto
  qed
  with take_attempt_effect [OF assms(1,2) r0(1)] True show ?thesis
    by (auto simp: part_effect_def reported_same [OF assms(1)] reported_alters [OF assms(1)] split: option.splits if_splits)
next
  case False
  have "quiet q w w'"
  proof (cases "pc = CountUp")
    case True
    with assms(3) obtain Q where Q: "queues w q = Some Q" "w' = set_queue q (Q\<lparr>uSecond := add32 (uSecond Q) 1\<rparr>) w"
      by (auto split: bind_splits)
    then have "uxItemSize Q = 0"
      using assms(2) by (simp add: on_queue_def)
    then have "alters q (\<lambda>xs ys. ys = xs) w w'"
      using Q by (intro same_items [OF assms(1) Q(1), of _ "Q\<lparr>uSecond := add32 (uSecond Q) 1\<rparr>"])
        (simp_all add: shape_def queue_ok_union contents_union)
    then show ?thesis
      by (simp add: quiet_def)
  next
    case c: False
    have "w' = w \<or> (\<exists>r0. xQueueSemaphoreTake q pc L w = Some (r0, w'))"
      using assms(3) c by (cases pc) (auto simp del: xQueueSemaphoreTake.simps split: bind_splits if_splits)
    with take_quiet [OF assms(1) _ False] show ?thesis
      by (auto simp: quiet_def)
  qed
  with False show ?thesis
    by (simp add: part_effect_other reported_quiet [OF assms(1)])
qed

lemma call_part_effect:
  assumes "queues_ok w" "call_ok c w" "pc \<noteq> Enter \<Longrightarrow> \<exists>q. c = Take q \<Longrightarrow> on_queue (queue_of c) (\<lambda>Q. uxItemSize Q = 0) w"
    "call_part c pc L w = Some (r, w')"
  shows "reported w (part_effect c pc r w) w'"
  using assms
  by (cases c) (simp_all add: send_part receive_part peek_part take_part take_recursive_part)

text \<open>Calls from interrupts.\<close>

lemma increment_effect:
  assumes "queues_ok w"
  shows "prvIncrementQueueTxLock q c w = Some w' \<Longrightarrow> reported w [] w'"
    "prvIncrementQueueRxLock q c w = Some w' \<Longrightarrow> reported w [] w'"
proof -
  show "reported w [] w'" if i: "prvIncrementQueueTxLock q c w = Some w'"
  proof -
    obtain Q n where Q: "queues w q = Some Q" "w' = set_queue q (Q\<lparr>cTxLock := n\<rparr>) w"
      using i by (auto simp: prvIncrementQueueTxLock_def split: bind_splits)
    then show ?thesis
      by (intro reported_alters(1) [OF assms, of q] same_items [OF assms Q(1), of _ "Q\<lparr>cTxLock := n\<rparr>"]) (simp_all add: shape_def)
  qed
  show "reported w [] w'" if i: "prvIncrementQueueRxLock q c w = Some w'"
  proof -
    obtain Q n where Q: "queues w q = Some Q" "w' = set_queue q (Q\<lparr>cRxLock := n\<rparr>) w"
      using i by (auto simp: prvIncrementQueueRxLock_def split: bind_splits)
    then show ?thesis
      by (intro reported_alters(1) [OF assms, of q] same_items [OF assms Q(1), of _ "Q\<lparr>cRxLock := n\<rparr>"]) (simp_all add: shape_def)
  qed
qed

lemma reported_trans: "reported w xs w1 \<Longrightarrow> reported w1 ys w2 \<Longrightarrow> reported w (xs @ ys) w2"
  by (auto simp: reported_def apply_effects_append)

lemma reported_then_quiet: "reported w xs w1 \<Longrightarrow> reported w1 [] w2 \<Longrightarrow> reported w xs w2"
  using reported_trans by fastforce

lemma reported_refl [simp]: "queues_ok w \<Longrightarrow> reported w [] w"
  by (simp add: reported_same)

lemma reported_ok: "reported w xs w' \<Longrightarrow> queues_ok w'"
  by (simp add: reported_def)

text \<open>The wake-up or the count of the lock at the end of a call from an interrupt.\<close>

lemma isr_end_effect:
  assumes "reported w xs w1"
  shows "wake_waiter l w1 = Some (y, w') \<Longrightarrow> reported w xs w'"
    "prvIncrementQueueTxLock q c w1 = Some w' \<Longrightarrow> reported w xs w'"
    "prvIncrementQueueRxLock q c w1 = Some w' \<Longrightarrow> reported w xs w'"
  using reported_then_quiet [OF assms] increment_effect [OF reported_ok [OF assms]]
    reported_same [OF reported_ok [OF assms]] wake_waiter_queues by blast+

lemma send_isr_effect:
  assumes "queues_ok w" "on_queue q (source_ok src pos) w" "xQueueGenericSendFromISR q src pos w = Some (ok, y, w')"
  shows "reported w (if ok then [Put q pos (item_at q src w)] else []) w'"
proof -
  obtain Q where Q: "queues w q = Some Q"
    using assms(3) by (auto simp: xQueueGenericSendFromISR_def split: bind_splits)
  show ?thesis
  proof (cases "has_room pos Q")
    case False
    with assms(1,3) Q show ?thesis
      by (auto simp: xQueueGenericSendFromISR_def has_room_def split: if_splits)
  next
    case True
    from assms(3) Q True obtain z w1 where w1: "prvCopyDataToQueue q src pos w = Some (z, w1)" "ok"
      "(\<exists>y. wake_waiter (xTasksWaitingToReceive q) w1 = Some (y, w')) \<or> prvIncrementQueueTxLock q (cTxLock Q) w1 = Some w'"
      by (auto simp: xQueueGenericSendFromISR_def has_room_def split: bind_splits if_splits)
    have "alters q (\<lambda>xs ys. ys = put pos (item src Q) xs) w w1"
      by (rule copy_to_alters [OF assms(1) Q True _ w1(1)]) (use assms(2) Q in \<open>simp add: on_queue_def\<close>)
    then have "reported w [Put q pos (item_at q src w)] w1"
      using Q by (simp add: reported_alters [OF assms(1)] item_at_def)
    with isr_end_effect [OF this] w1(2,3) show ?thesis
      by auto
  qed
qed

lemma give_isr_effect:
  assumes "queues_ok w" "xQueueGiveFromISR q w = Some (ok, y, w')"
  shows "reported w (if ok then [Put q queueSEND_TO_BACK []] else []) w'"
proof -
  obtain Q where Q: "queues w q = Some Q" "uxItemSize Q = 0"
    using assms(2) by (auto simp: xQueueGiveFromISR_def Let_def split: bind_splits if_splits)
  show ?thesis
  proof (cases "uxMessagesWaiting Q < uxLength Q")
    case False
    with assms(1,2) Q show ?thesis
      by (auto simp: xQueueGiveFromISR_def split: if_splits)
  next
    case True
    let ?Q = "Q\<lparr>uxMessagesWaiting := Suc (uxMessagesWaiting Q)\<rparr>"
    let ?w = "set_queue q ?Q w"
    have ok: "queue_ok q Q"
      using queues_okD [OF assms(1) Q(1)] .
    then have m: "add32 (uxMessagesWaiting Q) 1 = Suc (uxMessagesWaiting Q)"
      using True by (simp add: queue_ok_def add32_exact)
    have "alters q (\<lambda>xs ys. ys = put queueSEND_TO_BACK [] xs) w ?w"
      using Q True ok by (intro altersI [of w q Q ?w ?Q])
        (simp_all add: shape_def queue_ok_def is_mutex_def contents_def replicate_append_same)
    then have "reported w [Put q queueSEND_TO_BACK []] ?w"
      by (simp add: reported_alters [OF assms(1)])
    from isr_end_effect [OF this] assms(2) Q True m show ?thesis
      by (auto simp: xQueueGiveFromISR_def Let_def split: bind_splits if_splits)
  qed
qed

lemma receive_isr_effect:
  assumes "queues_ok w" "xQueueReceiveFromISR q buf w = Some (x, y, w')"
  shows "reported w (case x of None \<Rightarrow> [] | Some bs \<Rightarrow> [Got q bs]) w'"
proof -
  obtain Q where Q: "queues w q = Some Q"
    using assms(2) by (auto simp: xQueueReceiveFromISR_def split: bind_splits)
  show ?thesis
  proof (cases "uxMessagesWaiting Q > 0")
    case False
    with assms(1,2) Q show ?thesis
      by (auto simp: xQueueReceiveFromISR_def split: if_splits)
  next
    case True
    obtain bs Q1 where b: "prvCopyDataFromQueue q Q = Some (bs, Q1)"
      using assms(2) Q True by (auto simp: xQueueReceiveFromISR_def split: bind_splits if_splits)
    let ?w = "set_queue q (Q1\<lparr>uxMessagesWaiting := sub32 (uxMessagesWaiting Q1) 1\<rparr>) w"
    have "reported w [Got q bs] ?w"
      by (intro reported_alters(3) [OF assms(1)] copy_from_alters [OF assms(1) Q True b]) simp
    from isr_end_effect [OF this] assms(2) Q True b show ?thesis
      by (auto simp: xQueueReceiveFromISR_def Let_def split: bind_splits if_splits)
  qed
qed

lemma peek_isr_effect:
  assumes "queues_ok w" "xQueuePeekFromISR q buf w = Some (x, w')"
  shows "reported w (case x of None \<Rightarrow> [] | Some bs \<Rightarrow> [Peeked q bs]) w'"
proof -
  obtain Q where Q: "queues w q = Some Q"
    using assms(2) by (auto simp: xQueuePeekFromISR_def split: bind_splits)
  show ?thesis
  proof (cases "uxMessagesWaiting Q > 0")
    case False
    with assms(1,2) Q show ?thesis
      by (auto simp: xQueuePeekFromISR_def split: if_splits)
  next
    case True
    obtain bs xs Q' where Q': "prvCopyDataFromQueue q Q = Some (bs, Q')" "contents q Q = bs # xs" "Q'\<lparr>uSecond := pcReadFrom Q\<rparr> = Q"
      by (rule copy_from_queue [OF queues_okD [OF assms(1) Q] True])
    have "x = Some bs" "queues w' = (queues w)(q := Some Q)"
      using assms(2) Q True Q' by (auto simp: xQueuePeekFromISR_def split: if_splits)
    with Q Q'(2) show ?thesis
      by (auto simp: items_of_def intro!: reported_peek [OF assms(1)])
  qed
qed

text \<open>Giving back a recursive mutex, resetting.\<close>

lemma send_now_effect:
  assumes "queues_ok w" "on_queue q (source_ok src pos) w" "send_now q src pos w = Some (r, w')"
  shows "reported w (if passed (Inr r) = None then [] else [Put q pos (item_at q src w)]) w'"
proof -
  let ?L = "start_locals 0"
  from assms(3) have s: "send_attempt q src pos ?L w = Some (Inr r, w')"
    by (auto simp: send_now_def start_locals_def Let_def split: bind_splits if_splits sum.splits)
  from send_attempt_effect [OF assms(1,2) s] show ?thesis
    by (auto simp: assms(1) reported_same reported_alters [OF assms(1)] split: if_splits)
qed

lemma count_items: "queues_ok w \<Longrightarrow> queues w q = Some Q \<Longrightarrow> items_of w q = Some xs \<Longrightarrow> uxMessagesWaiting Q = length xs"
  using count_contents queues_okD by (auto simp: items_of_def)

lemma give_recursive_effect:
  assumes "queues_ok w" "on_queue q (\<lambda>Q. uxItemSize Q = 0) w" "xQueueGiveMutexRecursive q w = Some (ok, w')"
    "queues w q = Some Q" "queues w' q = Some Q'"
  shows "reported w (if uxMessagesWaiting Q' \<noteq> uxMessagesWaiting Q then [Put q queueSEND_TO_BACK []] else []) w'"
proof -
  have z: "uxItemSize Q = 0"
    using assms(2,4) by (simp add: on_queue_def)
  show ?thesis
  proof (cases "xMutexHolder Q = pxCurrentTCB (kern w)")
    case False
    with assms(1,3-5) show ?thesis
      by (auto simp: xQueueGiveMutexRecursive_def split: if_splits)
  next
    case True
    let ?Q = "Q\<lparr>uSecond := sub32 (uxRecursiveCallCount Q) 1\<rparr>"
    let ?w = "set_queue q ?Q w"
    have "alters q (\<lambda>xs ys. ys = xs) w ?w"
      using z by (intro same_items [OF assms(1,4), of _ ?Q]) (simp_all add: shape_def queue_ok_union contents_union)
    then have r: "reported w [] ?w"
      by (rule reported_alters(1) [OF assms(1)])
    then have ok: "queues_ok ?w" and same: "items_of ?w = items_of w"
      by (simp_all add: reported_def)
    have "w' = ?w \<or> (\<exists>r. send_now q None queueSEND_TO_BACK ?w = Some (r, w'))"
      using assms(3,4) True by (auto simp: xQueueGiveMutexRecursive_def Let_def split: bind_splits if_splits)
    then show ?thesis
    proof
      assume "w' = ?w"
      with r assms(5) show ?thesis by auto
    next
      assume "\<exists>r. send_now q None queueSEND_TO_BACK ?w = Some (r, w')"
      then obtain r' where s: "send_now q None queueSEND_TO_BACK ?w = Some (r', w')"
        by blast
      have so: "on_queue q (source_ok None queueSEND_TO_BACK) ?w" and it: "item_at q None ?w = []"
        using z by (simp_all add: on_queue_def source_ok_def item_at_def item_def)
      have e: "reported ?w (if passed (Inr r') = None then [] else [Put q queueSEND_TO_BACK []]) w'"
        using send_now_effect [OF ok so s] unfolding it .
      obtain xs where xs: "items_of w q = Some xs"
        using assms(4) by (simp add: items_of_def)
      have "uxMessagesWaiting Q = length xs"
        by (rule count_items [OF assms(1,4) xs])
      moreover have "items_of w' q = Some (if passed (Inr r') = None then xs else xs @ [[]])"
        using e xs same by (auto simp: reported_def fun_eq_iff split: if_splits)
      then have "uxMessagesWaiting Q' = length (if passed (Inr r') = None then xs else xs @ [[]])"
        by (rule count_items [OF reported_ok [OF e] assms(5)])
      ultimately have "(uxMessagesWaiting Q' \<noteq> uxMessagesWaiting Q) = (passed (Inr r') \<noteq> None)"
        by auto
      with reported_trans [OF r e] show ?thesis by auto
    qed
  qed
qed

lemma reset_effect:
  assumes "queues_ok w" "xQueueGenericReset q False w = Some w'"
  shows "reported w [Cleared q] w'"
proof -
  obtain Q where Q: "queues w q = Some Q"
    using assms(2) by (auto simp: xQueueGenericReset_def split: bind_splits)
  have l: "laid_out q Q"
    using queue_ok_laid_out queues_okD [OF assms(1) Q] by blast
  have "queues w' = (queues w)(q := Some (emptied q Q))"
    using assms(2) reset_run(2) [OF l Q] wake_and_yield_queues by fastforce
  then have "alters q (\<lambda>xs ys. ys = []) w w'"
    using emptied_ok [OF l] Q by (intro altersI [of w q Q w' "emptied q Q"]) (simp_all add: shape_def emptied_def)
  then show ?thesis
    by (rule reported_alters(4) [OF assms(1)])
qed

section \<open>Histories\<close>

definition machine_ok :: "qmachine \<Rightarrow> bool" where
  "machine_ok M \<longleftrightarrow> queues_ok (world M) \<and> calls_ok M"

lemma task_ok_shapes: "shapes w' = shapes w \<Longrightarrow> task_ok c pc w' = task_ok c pc w"
  using call_ok_shapes [of w' w c] on_queue_shapes(2) [of w' w] by (simp add: task_ok_def)

lemma calls_ok_shapes: "calls_ok M \<Longrightarrow> shapes w' = shapes (world M) \<Longrightarrow> calls_ok (M\<lparr>world := w'\<rparr>)"
  using task_ok_shapes [of w' "world M"] by (simp add: calls_ok_def)

lemma machine_reported:
  assumes "machine_ok M" "reported (world M) xs w'"
  shows "machine_ok (M\<lparr>world := w'\<rparr>)" "apply_effects xs (items_of (world M)) = Some (items_of w')"
  using assms calls_ok_shapes [of M w'] by (simp_all add: machine_ok_def reported_def)

lemma machine_step:
  assumes "machine_ok M" "reported (world M) xs w'" "M' = M\<lparr>world := w'\<rparr>"
  shows "machine_ok M' \<and> apply_effects xs (items_of (world M)) = Some (items_of (world M'))"
  using machine_reported [OF assms(1,2)] assms(3) by simp

lemma enter_take:
  "xQueueSemaphoreTake q Enter L w = Some (Inl (pc, L'), w') \<Longrightarrow> w' = w \<and> on_queue q (\<lambda>Q. uxItemSize Q = 0) w"
  by (auto simp: on_queue_def split: bind_splits if_splits)

lemma qexec_effect:
  assumes "machine_ok M" "event_ok e M" "qexec e M = Some (xs, M')"
  shows "machine_ok M' \<and> apply_effects xs (items_of (world M)) = Some (items_of (world M'))"
proof -
  have ok: "queues_ok (world M)"
    using assms(1) by (simp add: machine_ok_def)
  show ?thesis
proof (cases e)
  case (StartCall c n)
  then have M': "xs = []" "M' = M\<lparr>calls := (calls M)(current M := Some (c, Enter, start_locals n))\<rparr>" "call_ok c (world M)"
    using assms(2,3) by (auto split: if_splits)
  then have "calls_ok M'"
    using assms(1) by (simp add: machine_ok_def calls_ok_def task_ok_def [of _ Enter])
  with assms(1) M' show ?thesis
    by (simp add: machine_ok_def)
next
  case NextPart
  obtain c pc L where c: "calls M (current M) = Some (c, pc, L)"
    using assms(3) NextPart by (auto split: option.splits)
  obtain r w where r: "call_part c pc L (world M) = Some (r, w)" "xs = part_effect c pc r (world M)"
    "M' = (M\<lparr>world := w\<rparr>)\<lparr>calls := (calls M)(current M := (case r of Inl (pc, L) \<Rightarrow> Some (c, pc, L) | Inr _ \<Rightarrow> None))\<rparr>"
    using assms(3) NextPart c by (auto split: bind_splits)
  have "task_ok c pc (world M)"
    using assms(1) c unfolding machine_ok_def calls_ok_def by blast
  then have co: "call_ok c (world M)" "pc \<noteq> Enter \<Longrightarrow> \<exists>q. c = Take q \<Longrightarrow> on_queue (queue_of c) (\<lambda>Q. uxItemSize Q = 0) (world M)"
    by (simp_all add: task_ok_def)
  have e: "reported (world M) xs w"
    unfolding r(2) using assms(1) by (intro call_part_effect [OF _ co r(1)]) (simp_all add: machine_ok_def)
  note m = machine_reported [OF assms(1) e]
  have sh: "shapes w = shapes (world M)"
    using e by (simp add: reported_def)
  have "on_queue (queue_of c) (\<lambda>Q. uxItemSize Q = 0) w" if "\<exists>q. c = Take q" "isl r"
  proof (cases "pc = Enter")
    case True
    with that r(1) show ?thesis
      by (cases r) (auto dest!: enter_take simp del: xQueueSemaphoreTake.simps)
  next
    case False
    with that(1) co(2) on_queue_shapes(2) [OF sh] show ?thesis by simp
  qed
  then have "task_ok c pc' w" if "r = Inl (pc', L')" for pc' L'
    using that co(1) call_ok_shapes [OF sh] by (simp add: task_ok_def)
  then have "calls_ok M'"
    using m(1) unfolding r(3) by (auto simp: machine_ok_def calls_ok_def split: sum.splits)
  with m r(3) show ?thesis
    by (simp add: machine_ok_def)
next
  case (SendISR q src pos)
  then obtain ok y w where x: "xQueueGenericSendFromISR q src pos (world M) = Some (ok, y, w)" "xs = (if ok then [Put q pos (item_at q src (world M))] else [])" "M' = M\<lparr>world := w\<rparr>"
    using assms(3) by (auto split: bind_splits)
  show ?thesis
    by (rule machine_step [OF assms(1) _ x(3)]) (use send_isr_effect [OF ok _ x(1)] SendISR assms(2) in \<open>simp add: x(2)\<close>)
next
  case (GiveISR q)
  then obtain ok y w where x: "xQueueGiveFromISR q (world M) = Some (ok, y, w)" "xs = (if ok then [Put q queueSEND_TO_BACK []] else [])" "M' = M\<lparr>world := w\<rparr>"
    using assms(3) by (auto split: bind_splits)
  show ?thesis
    by (rule machine_step [OF assms(1) _ x(3)]) (use give_isr_effect [OF ok x(1)] GiveISR assms(2) in \<open>simp add: x(2)\<close>)
next
  case (ReceiveISR q buf)
  then obtain bs y w where x: "xQueueReceiveFromISR q buf (world M) = Some (bs, y, w)" "xs = (case bs of None \<Rightarrow> [] | Some bs \<Rightarrow> [Got q bs])" "M' = M\<lparr>world := w\<rparr>"
    using assms(3) by (auto split: bind_splits)
  show ?thesis
    by (rule machine_step [OF assms(1) _ x(3)]) (use receive_isr_effect [OF ok x(1)] ReceiveISR assms(2) in \<open>simp add: x(2)\<close>)
next
  case (PeekISR q buf)
  then obtain bs w where x: "xQueuePeekFromISR q buf (world M) = Some (bs, w)" "xs = (case bs of None \<Rightarrow> [] | Some bs \<Rightarrow> [Peeked q bs])" "M' = M\<lparr>world := w\<rparr>"
    using assms(3) by (auto split: bind_splits)
  show ?thesis
    by (rule machine_step [OF assms(1) _ x(3)]) (use peek_isr_effect [OF ok x(1)] PeekISR assms(2) in \<open>simp add: x(2)\<close>)
next
  case (GiveRecursive q)
  then obtain y w Q Q' where x: "xQueueGiveMutexRecursive q (world M) = Some (y, w)" "queues (world M) q = Some Q" "queues w q = Some Q'"
    "xs = (if uxMessagesWaiting Q' \<noteq> uxMessagesWaiting Q then [Put q queueSEND_TO_BACK []] else [])" "M' = M\<lparr>world := w\<rparr>"
    using assms(3) by (auto split: bind_splits if_splits)
  show ?thesis
    by (rule machine_step [OF assms(1) _ x(5)]) (use give_recursive_effect [OF ok _ x(1-3)] GiveRecursive assms(2) in \<open>simp add: x(4)\<close>)
next
  case (ResetQueue q)
  then obtain w where x: "xQueueGenericReset q False (world M) = Some w" "xs = [Cleared q]" "M' = M\<lparr>world := w\<rparr>"
    using assms(3) by (auto split: bind_splits if_splits)
  show ?thesis
    by (rule machine_step [OF assms(1) _ x(3)]) (use reset_effect [OF ok x(1)] in \<open>simp add: x(2)\<close>)
next
  case (KernelOp a)
  with assms(3) obtain k where k: "xs = []" "M' = M\<lparr>world := (world M)\<lparr>kern := k\<rparr>\<rparr>"
    by auto
  have "reported (world M) [] ((world M)\<lparr>kern := k\<rparr>)"
    using assms(1) by (intro reported_same) (simp_all add: machine_ok_def)
  from machine_reported [OF assms(1) this] k show ?thesis
    by simp
qed
qed

lemma qexec_all_effect:
  assumes "machine_ok M" "events_fit es M" "qexec_all es M = Some (xs, M')"
  shows "machine_ok M' \<and> apply_effects xs (items_of (world M)) = Some (items_of (world M'))"
  using assms
proof (induction es arbitrary: M xs)
  case (Cons e es)
  obtain ys M1 zs where e: "qexec e M = Some (ys, M1)" "qexec_all es M1 = Some (zs, M')" "xs = ys @ zs"
    using Cons.prems(3) by (auto split: bind_splits)
  have "machine_ok M1 \<and> apply_effects ys (items_of (world M)) = Some (items_of (world M1))"
    using qexec_effect [OF Cons.prems(1) _ e(1)] Cons.prems(2) by simp
  with Cons.IH [of M1 zs] Cons.prems(2) e show ?case
    by (simp add: apply_effects_append)
qed simp

text \<open>A queue that is only sent to at the back delivers its items in the order they were sent.\<close>

fun sent :: "addr \<Rightarrow> effect list \<Rightarrow> u8 list list" where
  "sent q [] = []"
| "sent q (Put q' pos x # xs) = (if q' = q then x # sent q xs else sent q xs)"
| "sent q (_ # xs) = sent q xs"

fun got :: "addr \<Rightarrow> effect list \<Rightarrow> u8 list list" where
  "got q [] = []"
| "got q (Got q' x # xs) = (if q' = q then x # got q xs else got q xs)"
| "got q (_ # xs) = got q xs"

fun in_order :: "addr \<Rightarrow> effect \<Rightarrow> bool" where
  "in_order q (Put q' pos x) \<longleftrightarrow> q' = q \<longrightarrow> pos = queueSEND_TO_BACK"
| "in_order q (Cleared q') \<longleftrightarrow> q' \<noteq> q"
| "in_order q _ \<longleftrightarrow> True"

lemma apply_effect_fifo:
  assumes "apply_effect x A = Some A'" "in_order q x" "A q = Some xs"
  shows "\<exists>ys. A' q = Some ys \<and> xs @ sent q [x] = got q [x] @ ys"
  using assms by (cases x) (auto split: option.splits list.splits if_splits)

lemma sent_got_Cons: "sent q (x # xs) = sent q [x] @ sent q xs" "got q (x # xs) = got q [x] @ got q xs"
  by (cases x; simp)+

lemma apply_effects_fifo:
  assumes "apply_effects es A = Some A'" "\<forall>x \<in> set es. in_order q x" "A q = Some xs"
  shows "\<exists>ys. A' q = Some ys \<and> xs @ sent q es = got q es @ ys"
  using assms
proof (induction es arbitrary: A xs)
  case (Cons e es)
  obtain B where B: "apply_effect e A = Some B" "apply_effects es B = Some A'"
    using Cons.prems(1) by (auto split: bind_splits)
  obtain ys where ys: "B q = Some ys" "xs @ sent q [e] = got q [e] @ ys"
    using apply_effect_fifo [OF B(1) _ Cons.prems(3)] Cons.prems(2) by auto
  from Cons.IH [OF B(2) _ ys(1)] Cons.prems(2) ys(2) show ?case
    unfolding sent_got_Cons [of q e es] by (metis append.assoc list.set_intros(2))
qed simp

end
