(* ===== verification/QueueProps.thy ===== *)
theory QueueProps
  imports QueueHistory TaskProps
begin

text \<open>The properties of the queues, each with a concrete instance.\<close>

section \<open>Order of the items\<close>

text \<open>
  C10. Histories of queues. Whatever blocking calls, calls from interrupts, ticks, context switches
  and other kernel operations interleave, the queues stay well-formed and the calls take effect one
  after the other on plain lists of items: each successful send adds its item where it asked, each
  receive delivers and removes the first item, a peek delivers it and leaves it. In particular a
  queue that is only sent to at the back and not reset delivers exactly its items, in order.
\<close>

theorem queue_histories_are_fifo:
  assumes "machine_ok M" "events_fit es M" "qexec_all es M = Some (xs, M')"
  shows "machine_ok M' \<and> apply_effects xs (items_of (world M)) = Some (items_of (world M')) \<and>
    (\<forall>q ys. items_of (world M) q = Some ys \<longrightarrow> (\<forall>x \<in> set xs. in_order q x) \<longrightarrow>
       (\<exists>zs. items_of (world M') q = Some zs \<and> ys @ sent q xs = got q xs @ zs))"
  using qexec_all_effect [OF assms] apply_effects_fifo by blast

definition demo_queue :: Queue where
  "demo_queue = \<lparr>pcHead = 1080, pcWriteTo = 1080, uFirst = 1082, uSecond = 1081, uxMessagesWaiting = 0, uxLength = 2,
     uxItemSize = 1, cRxLock = -1, cTxLock = -1, uxQueueNumber = 0, ucQueueType = 0, storage = [0, 0]\<rparr>"

definition demo_machine :: qmachine where
  "demo_machine = \<lparr>world = \<lparr>kern = demo_kernel, queues = (\<lambda>_. None)(1000 := Some demo_queue), xQueueRegistry = []\<rparr>,
     calls = (\<lambda>_. None)\<rparr>"

lemma demo_queue_ok: "queue_ok 1000 demo_queue"
  by (simp add: queue_ok_def demo_queue_def data_ok_def storage_base_def sizeof_Queue_t_def is_mutex_def u32_bound_def wrap_def
      exI [of _ 1])

lemma demo_machine_ok: "machine_ok demo_machine"
  by (simp add: machine_ok_def demo_machine_def queues_ok_def calls_ok_def demo_queue_ok)

lemmas queue_eval = demo_machine_def demo_queue_def send_asserts_def may_wait_def start_locals_def send_attempt_def
  prvCopyDataToQueue_def copy_in_def sizeof_Queue_t_def xTasksWaitingToReceive_def xTasksWaitingToSend_def
  xTaskGetSchedulerState_def yield_if_def set_queue_def add32_def sub32_def u32_bound_def mem_write_def overlay_def mem_read_def
  xQueueGenericSendFromISR_def xQueueReceiveFromISR_def receive_asserts_def prvCopyDataFromQueue_def copy_out_def
  queueUNLOCKED_def wake_waiter_def Let_def part_effect_def item_at_def item_def on_queue_def source_ok_def

theorem queue_histories_are_fifo_witness:
  "\<exists>M'. qexec_all [StartCall (Send 1000 (Some [7]) queueSEND_TO_BACK) 0, NextPart, NextPart,
      SendISR 1000 (Some [8]) queueSEND_TO_BACK, ReceiveISR 1000 True] demo_machine =
      Some ([Put 1000 queueSEND_TO_BACK [7], Put 1000 queueSEND_TO_BACK [8], Got 1000 [7]], M') \<and>
     machine_ok M' \<and> items_of (world M') 1000 = Some [[8]]"
proof -
  let ?es = "[StartCall (Send 1000 (Some [7]) queueSEND_TO_BACK) 0, NextPart, NextPart,
      SendISR 1000 (Some [8]) queueSEND_TO_BACK, ReceiveISR 1000 True]"
  let ?xs = "[Put 1000 queueSEND_TO_BACK [7], Put 1000 queueSEND_TO_BACK [8], Got 1000 [7]]"
  have fit: "events_fit ?es demo_machine"
    by (simp add: queue_eval)
  obtain M' where run: "qexec_all ?es demo_machine = Some (?xs, M')"
    by (simp add: queue_eval)
  have "items_of (world demo_machine) 1000 = Some []"
    by (simp add: items_of_def contents_def queue_eval)
  then have "items_of (world M') = (items_of (world demo_machine))(1000 := Some [[8]])"
    using queue_histories_are_fifo [OF demo_machine_ok fit run] by simp
  then have "items_of (world M') 1000 = Some [[8]]"
    by simp
  then show ?thesis
    using queue_histories_are_fifo [OF demo_machine_ok fit run] run by blast
qed

end
