(* ===== verification/EventGroups.thy ===== *)
theory EventGroups
  imports TaskEvents
begin

unbundle bit_operations_syntax

text \<open>
  Event groups, \<open>freertos-kernel/event_groups.c\<close>, on top of the scheduler. A group lives at its
  address in the map \<open>groups\<close>; its list \<open>xTasksWaitingForBits\<close> is the event list at the address of
  that field. A task that waits has its event item in the list, the value of the item holds the
  bits it waits for and, in the top byte, how: all of them or any, clearing them or not. The value
  it finds there when it runs again tells why it was unblocked. \<open>None\<close> is a failed assertion or an
  access to a group that is gone.

  The blocking calls are sequences of uninterruptible parts named by a program counter. What the
  code does between \<open>vTaskSuspendAll\<close> and \<open>xTaskResumeAll\<close> is one part: no other task runs, and an
  interrupt can only leave work for \<open>xTaskResumeAll\<close> and never touches a group or its list.
\<close>

section \<open>State\<close>

type_synonym event_bits = "32 word"

definition eventCLEAR_EVENTS_ON_EXIT_BIT :: event_bits where "eventCLEAR_EVENTS_ON_EXIT_BIT = 0x01000000"
definition eventUNBLOCKED_DUE_TO_BIT_SET :: event_bits where "eventUNBLOCKED_DUE_TO_BIT_SET = 0x02000000"
definition eventWAIT_FOR_ALL_BITS :: event_bits where "eventWAIT_FOR_ALL_BITS = 0x04000000"
definition eventEVENT_BITS_CONTROL_BYTES :: event_bits where "eventEVENT_BITS_CONTROL_BYTES = 0xFF000000"

record EventGroup =
  uxEventBits :: event_bits
  uxEventGroupNumber :: nat

record eworld =
  sched_state :: kernel
  groups :: "addr \<Rightarrow> EventGroup option"
  memory :: heap

text \<open>Layout: the bits, a list of five words, the number.\<close>

definition sizeof_EventGroup_t :: nat where "sizeof_EventGroup_t = 28"

definition xTasksWaitingForBits :: "addr \<Rightarrow> lname" where "xTasksWaitingForBits g = EventList (g + 4)"

definition set_group :: "addr \<Rightarrow> EventGroup \<Rightarrow> eworld \<Rightarrow> eworld" where
  "set_group g G w = w\<lparr>groups := (groups w)(g := Some G)\<rparr>"

section \<open>Setting bits\<close>

text \<open>The value of a list item, and the item after it; \<open>None\<close> of the second is the end marker.\<close>

definition list_item_value :: "item \<Rightarrow> kernel \<Rightarrow> event_bits" where
  "list_item_value i k = word_of_nat (item_value (klists k) i)"

definition head_entry :: "lname \<Rightarrow> kernel \<Rightarrow> item option" where
  "head_entry l k = (case items (klists k) l of [] \<Rightarrow> None | i # _ \<Rightarrow> Some i)"

definition list_next :: "lname \<Rightarrow> item \<Rightarrow> kernel \<Rightarrow> item option option" where
  "list_next l i k =
     (case dropWhile (\<lambda>j. j \<noteq> i) (items (klists k) l) of
        [] \<Rightarrow> None
      | [_] \<Rightarrow> Some None
      | _ # j # _ \<Rightarrow> Some (Some j))"

definition match_found :: "event_bits \<Rightarrow> event_bits \<Rightarrow> bool" where
  "match_found itemValue bits =
     (let uxControlBits = itemValue AND eventEVENT_BITS_CONTROL_BYTES;
          uxBitsWaitedFor = itemValue AND NOT eventEVENT_BITS_CONTROL_BYTES
      in if uxControlBits AND eventWAIT_FOR_ALL_BITS = 0
         then uxBitsWaitedFor AND bits \<noteq> 0
         else uxBitsWaitedFor AND bits = uxBitsWaitedFor)"

definition bits_to_clear :: "event_bits \<Rightarrow> event_bits" where
  "bits_to_clear itemValue =
     (if (itemValue AND eventEVENT_BITS_CONTROL_BYTES) AND eventCLEAR_EVENTS_ON_EXIT_BIT \<noteq> 0
      then itemValue AND NOT eventEVENT_BITS_CONTROL_BYTES else 0)"

text \<open>
  The loop over the waiting tasks, from an item on. The item after it is read before the item can
  leave the list.
\<close>

partial_function (option) walk_waiters ::
  "lname \<Rightarrow> event_bits \<Rightarrow> item option \<Rightarrow> event_bits \<Rightarrow> kernel \<Rightarrow> (event_bits \<times> kernel) option" where
  "walk_waiters l bits pxListItem uxBitsToClear k =
     (case pxListItem of
        None \<Rightarrow> Some (uxBitsToClear, k)
      | Some i \<Rightarrow>
          do { pxNext \<leftarrow> list_next l i k;
               let v = list_item_value i k;
               if match_found v bits
               then do { k \<leftarrow> vTaskRemoveFromUnorderedEventList i (unat (bits OR eventUNBLOCKED_DUE_TO_BIT_SET)) k;
                         walk_waiters l bits pxNext (uxBitsToClear OR bits_to_clear v) k }
               else walk_waiters l bits pxNext uxBitsToClear k })"

text \<open>What comes next, and what a call returns.\<close>

datatype epc = Enter | Locked | Woken | Expired | ReadBits | FreeMemory

datatype eresult = Bits event_bits | Deleted

type_synonym enext = "epc + eresult"

text \<open>The part with the scheduler suspended.\<close>

definition set_bits_locked :: "addr \<Rightarrow> event_bits \<Rightarrow> eworld \<Rightarrow> eworld option" where
  "set_bits_locked g uxBitsToSet w =
     do { G \<leftarrow> groups w g;
          let l = xTasksWaitingForBits g;
          let k = vTaskSuspendAll (sched_state w);
          let bits = uxEventBits G OR uxBitsToSet;
          (uxBitsToClear, k) \<leftarrow> walk_waiters l bits (head_entry l k) 0 k;
          let w = set_group g (G\<lparr>uxEventBits := bits AND NOT uxBitsToClear\<rparr>) w;
          (_, k) \<leftarrow> xTaskResumeAll k;
          Some (w\<lparr>sched_state := k\<rparr>) }"

fun xEventGroupSetBits :: "addr \<Rightarrow> event_bits \<Rightarrow> epc \<Rightarrow> eworld \<Rightarrow> (enext \<times> eworld) option" where
  "xEventGroupSetBits g uxBitsToSet Enter w =
     (if g \<noteq> 0 \<and> uxBitsToSet AND eventEVENT_BITS_CONTROL_BYTES = 0 then Some (Inl Locked, w) else None)"
| "xEventGroupSetBits g uxBitsToSet Locked w =
     do { w \<leftarrow> set_bits_locked g uxBitsToSet w; Some (Inl ReadBits, w) }"
| "xEventGroupSetBits g uxBitsToSet ReadBits w =
     do { G \<leftarrow> groups w g; Some (Inr (Bits (uxEventBits G)), w) }"
| "xEventGroupSetBits g uxBitsToSet _ w = None"

text \<open>The whole call, as when it is made with the scheduler suspended.\<close>

definition set_bits_now :: "addr \<Rightarrow> event_bits \<Rightarrow> eworld \<Rightarrow> (eresult \<times> eworld) option" where
  "set_bits_now g b w =
     do { (_, w) \<leftarrow> xEventGroupSetBits g b Enter w;
          (_, w) \<leftarrow> xEventGroupSetBits g b Locked w;
          (r, w) \<leftarrow> xEventGroupSetBits g b ReadBits w;
          case r of Inl _ \<Rightarrow> None | Inr r \<Rightarrow> Some (r, w) }"

section \<open>Waiting for bits\<close>

definition prvTestWaitCondition :: "event_bits \<Rightarrow> event_bits \<Rightarrow> bool \<Rightarrow> bool" where
  "prvTestWaitCondition uxCurrentEventBits uxBitsToWaitFor xWaitForAllBits =
     (if \<not> xWaitForAllBits
      then uxCurrentEventBits AND uxBitsToWaitFor \<noteq> 0
      else uxCurrentEventBits AND uxBitsToWaitFor = uxBitsToWaitFor)"

definition clear_bits :: "event_bits \<Rightarrow> EventGroup \<Rightarrow> EventGroup" where
  "clear_bits b G = G\<lparr>uxEventBits := uxEventBits G AND NOT b\<rparr>"

text \<open>The assertions on the bits and on the scheduler that both waiting calls begin with.\<close>

definition wait_asserts :: "event_bits \<Rightarrow> nat \<Rightarrow> kernel \<Rightarrow> bool" where
  "wait_asserts uxBitsToWaitFor xTicksToWait k \<longleftrightarrow>
     uxBitsToWaitFor AND eventEVENT_BITS_CONTROL_BYTES = 0 \<and> uxBitsToWaitFor \<noteq> 0 \<and>
     \<not> (xTaskGetSchedulerState k = taskSCHEDULER_SUSPENDED \<and> xTicksToWait \<noteq> 0)"

text \<open>The end of the locked part: the task was placed on the list, or has its result.\<close>

definition resume_blocked :: "eworld \<Rightarrow> (enext \<times> eworld) option" where
  "resume_blocked w =
     do { (xAlreadyYielded, k) \<leftarrow> xTaskResumeAll (sched_state w);
          Some (Inl Woken, w\<lparr>sched_state := (if xAlreadyYielded then k else portYIELD_WITHIN_API k)\<rparr>) }"

definition resume_return :: "event_bits \<Rightarrow> eworld \<Rightarrow> (enext \<times> eworld) option" where
  "resume_return uxReturn w =
     do { (_, k) \<leftarrow> xTaskResumeAll (sched_state w); Some (Inr (Bits uxReturn), w\<lparr>sched_state := k\<rparr>) }"

definition place_on_group :: "addr \<Rightarrow> event_bits \<Rightarrow> nat \<Rightarrow> eworld \<Rightarrow> eworld option" where
  "place_on_group g v xTicksToWait w =
     map_option (\<lambda>k. w\<lparr>sched_state := k\<rparr>)
       (vTaskPlaceOnUnorderedEventList (xTasksWaitingForBits g) (unat v) xTicksToWait (sched_state w))"

text \<open>
  The task runs again: the value of its event item tells whether its bits were set; if its time is
  up it looks at the group once more.
\<close>

definition woken :: "eworld \<Rightarrow> (enext \<times> eworld) option" where
  "woken w =
     do { (v, k) \<leftarrow> uxTaskResetEventItemValue (sched_state w);
          let uxReturn = (word_of_nat v :: event_bits);
          Some (if uxReturn AND eventUNBLOCKED_DUE_TO_BIT_SET = 0 then Inl Expired
                else Inr (Bits (uxReturn AND NOT eventEVENT_BITS_CONTROL_BYTES)), w\<lparr>sched_state := k\<rparr>) }"

definition control_bits :: "bool \<Rightarrow> bool \<Rightarrow> event_bits" where
  "control_bits xClearOnExit xWaitForAllBits =
     (if xClearOnExit then eventCLEAR_EVENTS_ON_EXIT_BIT else 0) OR
     (if xWaitForAllBits then eventWAIT_FOR_ALL_BITS else 0)"

fun xEventGroupWaitBits ::
  "addr \<Rightarrow> event_bits \<Rightarrow> bool \<Rightarrow> bool \<Rightarrow> nat \<Rightarrow> epc \<Rightarrow> eworld \<Rightarrow> (enext \<times> eworld) option" where
  "xEventGroupWaitBits g uxBitsToWaitFor xClearOnExit xWaitForAllBits xTicksToWait Enter w =
     (if g \<noteq> 0 \<and> wait_asserts uxBitsToWaitFor xTicksToWait (sched_state w) then Some (Inl Locked, w) else None)"
| "xEventGroupWaitBits g uxBitsToWaitFor xClearOnExit xWaitForAllBits xTicksToWait Locked w =
     do { let w = w\<lparr>sched_state := vTaskSuspendAll (sched_state w)\<rparr>;
          G \<leftarrow> groups w g;
          let uxCurrentEventBits = uxEventBits G;
          if prvTestWaitCondition uxCurrentEventBits uxBitsToWaitFor xWaitForAllBits
          then resume_return uxCurrentEventBits
            (if xClearOnExit then set_group g (clear_bits uxBitsToWaitFor G) w else w)
          else if xTicksToWait = 0 then resume_return uxCurrentEventBits w
          else do { w \<leftarrow> place_on_group g (uxBitsToWaitFor OR control_bits xClearOnExit xWaitForAllBits) xTicksToWait w;
                    resume_blocked w } }"
| "xEventGroupWaitBits g uxBitsToWaitFor xClearOnExit xWaitForAllBits xTicksToWait Woken w = woken w"
| "xEventGroupWaitBits g uxBitsToWaitFor xClearOnExit xWaitForAllBits xTicksToWait Expired w =
     do { G \<leftarrow> groups w g;
          let uxReturn = uxEventBits G;
          Some (Inr (Bits (uxReturn AND NOT eventEVENT_BITS_CONTROL_BYTES)),
            if prvTestWaitCondition uxReturn uxBitsToWaitFor xWaitForAllBits \<and> xClearOnExit
            then set_group g (clear_bits uxBitsToWaitFor G) w else w) }"
| "xEventGroupWaitBits g uxBitsToWaitFor xClearOnExit xWaitForAllBits xTicksToWait _ w = None"

section \<open>The rendezvous\<close>

fun xEventGroupSync ::
  "addr \<Rightarrow> event_bits \<Rightarrow> event_bits \<Rightarrow> nat \<Rightarrow> epc \<Rightarrow> eworld \<Rightarrow> (enext \<times> eworld) option" where
  "xEventGroupSync g uxBitsToSet uxBitsToWaitFor xTicksToWait Enter w =
     (if wait_asserts uxBitsToWaitFor xTicksToWait (sched_state w) then Some (Inl Locked, w) else None)"
| "xEventGroupSync g uxBitsToSet uxBitsToWaitFor xTicksToWait Locked w =
     do { let w = w\<lparr>sched_state := vTaskSuspendAll (sched_state w)\<rparr>;
          G \<leftarrow> groups w g;
          let uxOriginalBitValue = uxEventBits G;
          (_, w) \<leftarrow> set_bits_now g uxBitsToSet w;
          G \<leftarrow> groups w g;
          if (uxOriginalBitValue OR uxBitsToSet) AND uxBitsToWaitFor = uxBitsToWaitFor
          then resume_return (uxOriginalBitValue OR uxBitsToSet) (set_group g (clear_bits uxBitsToWaitFor G) w)
          else if xTicksToWait \<noteq> 0
          then do { w \<leftarrow> place_on_group g (uxBitsToWaitFor OR eventCLEAR_EVENTS_ON_EXIT_BIT OR eventWAIT_FOR_ALL_BITS) xTicksToWait w;
                    resume_blocked w }
          else resume_return (uxEventBits G) w }"
| "xEventGroupSync g uxBitsToSet uxBitsToWaitFor xTicksToWait Woken w = woken w"
| "xEventGroupSync g uxBitsToSet uxBitsToWaitFor xTicksToWait Expired w =
     do { G \<leftarrow> groups w g;
          let uxReturn = uxEventBits G;
          Some (Inr (Bits (uxReturn AND NOT eventEVENT_BITS_CONTROL_BYTES)),
            if uxReturn AND uxBitsToWaitFor = uxBitsToWaitFor then set_group g (clear_bits uxBitsToWaitFor G) w else w) }"
| "xEventGroupSync g uxBitsToSet uxBitsToWaitFor xTicksToWait _ w = None"

section \<open>The other operations\<close>

definition xEventGroupClearBits :: "addr \<Rightarrow> event_bits \<Rightarrow> eworld \<Rightarrow> (event_bits \<times> eworld) option" where
  "xEventGroupClearBits g uxBitsToClear w =
     (if g \<noteq> 0 \<and> uxBitsToClear AND eventEVENT_BITS_CONTROL_BYTES = 0
      then do { G \<leftarrow> groups w g; Some (uxEventBits G, set_group g (clear_bits uxBitsToClear G) w) }
      else None)"

definition xEventGroupGetBits :: "addr \<Rightarrow> eworld \<Rightarrow> (event_bits \<times> eworld) option" where
  "xEventGroupGetBits g w = xEventGroupClearBits g 0 w"

definition xEventGroupGetBitsFromISR :: "addr \<Rightarrow> eworld \<Rightarrow> event_bits option" where
  "xEventGroupGetBitsFromISR g w = map_option uxEventBits (groups w g)"

text \<open>The functions that the timer task runs for an interrupt.\<close>

definition vEventGroupSetBitsCallback :: "addr \<Rightarrow> event_bits \<Rightarrow> epc \<Rightarrow> eworld \<Rightarrow> (enext \<times> eworld) option" where
  "vEventGroupSetBitsCallback pvEventGroup ulBitsToSet pc w = xEventGroupSetBits pvEventGroup ulBitsToSet pc w"

definition vEventGroupClearBitsCallback :: "addr \<Rightarrow> event_bits \<Rightarrow> eworld \<Rightarrow> eworld option" where
  "vEventGroupClearBitsCallback pvEventGroup ulBitsToClear w =
     map_option snd (xEventGroupClearBits pvEventGroup ulBitsToClear w)"

text \<open>\<open>junk\<close> is what the new memory holds, by offset: the number is not initialised.\<close>

definition xEventGroupCreate :: "(nat \<Rightarrow> u8) \<Rightarrow> eworld \<Rightarrow> (addr \<times> eworld) option" where
  "xEventGroupCreate junk w =
     do { (g, k, h) \<leftarrow> kernel_malloc sizeof_EventGroup_t (sched_state w, memory w);
          let w = w\<lparr>sched_state := k, memory := h\<rparr>;
          if g \<noteq> 0
          then Some (g, set_group g
                 \<lparr>uxEventBits = 0, uxEventGroupNumber = (\<Sum>i \<leftarrow> [0..<4]. 256 ^ i * unat (junk (24 + i)))\<rparr>
                 (w\<lparr>sched_state := k\<lparr>klists := init_list (xTasksWaitingForBits g) (klists k)\<rparr>\<rparr>))
          else Some (0, w) }"

text \<open>Deleting a group: all tasks that wait are unblocked with the value 0, then the memory goes back.\<close>

partial_function (option) unblock_waiters :: "lname \<Rightarrow> kernel \<Rightarrow> kernel option" where
  "unblock_waiters l k =
     (case items (klists k) l of
        [] \<Rightarrow> Some k
      | i # _ \<Rightarrow>
          do { k \<leftarrow> vTaskRemoveFromUnorderedEventList i (unat eventUNBLOCKED_DUE_TO_BIT_SET) k;
               unblock_waiters l k })"

fun vEventGroupDelete :: "addr \<Rightarrow> epc \<Rightarrow> eworld \<Rightarrow> (enext \<times> eworld) option" where
  "vEventGroupDelete g Enter w = (if g \<noteq> 0 then Some (Inl Locked, w) else None)"
| "vEventGroupDelete g Locked w =
     do { _ \<leftarrow> groups w g;
          k \<leftarrow> unblock_waiters (xTasksWaitingForBits g) (vTaskSuspendAll (sched_state w));
          (_, k) \<leftarrow> xTaskResumeAll k;
          Some (Inl FreeMemory, w\<lparr>sched_state := k\<rparr>) }"
| "vEventGroupDelete g FreeMemory w =
     do { (k, h) \<leftarrow> kernel_free g (sched_state w, memory w);
          Some (Inr Deleted, w\<lparr>sched_state := k, memory := h, groups := (groups w)(g := None)\<rparr>) }"
| "vEventGroupDelete g _ w = None"

definition uxEventGroupGetNumber :: "addr \<Rightarrow> eworld \<Rightarrow> nat option" where
  "uxEventGroupGetNumber g w = (if g = 0 then Some 0 else map_option uxEventGroupNumber (groups w g))"

definition vEventGroupSetNumber :: "addr \<Rightarrow> nat \<Rightarrow> eworld \<Rightarrow> eworld option" where
  "vEventGroupSetNumber g n w = map_option (\<lambda>G. set_group g (G\<lparr>uxEventGroupNumber := n\<rparr>) w) (groups w g)"

end
