(* ===== verification/EventKernel.thy ===== *)
theory EventKernel
  imports EventGroups TaskHistory
begin

text \<open>
  What the event groups need to know of the kernel. \<open>keeps\<close>: an operation adds no task to an event
  list, outside of the lists \<open>E\<close>, and leaves the value of an event item that is in use, outside of
  the tasks \<open>V\<close>; so the bits a task waits for stay what they are, whatever priority it is given.
  The last part describes unblocking the tasks of a group's list and blocking the running task on one.
\<close>

section \<open>What the kernel leaves alone\<close>

abbreviation waiting :: "nat \<Rightarrow> kernel \<Rightarrow> item list" where
  "waiting e k \<equiv> items (klists k) (EventList e)"

abbreviation event_value :: "tid \<Rightarrow> kernel \<Rightarrow> nat" where
  "event_value t k \<equiv> item_value (klists k) (EventItem t)"

definition keeps :: "nat set \<Rightarrow> tid set \<Rightarrow> kernel \<Rightarrow> kernel \<Rightarrow> bool" where
  "keeps E V k k' \<longleftrightarrow>
     (\<forall>e. e \<notin> E \<longrightarrow> set (waiting e k') \<subseteq> set (waiting e k)) \<and>
     (\<forall>t. t \<notin> V \<longrightarrow> \<not> event_value_free t k \<longrightarrow> event_value t k' = event_value t k) \<and>
     (\<forall>t. t \<notin> V \<or> tcbs k t \<noteq> None \<longrightarrow> map_option pxStack (tcbs k' t) = map_option pxStack (tcbs k t))"

lemma keeps_tasks:
  assumes "keeps E V k k'" "t \<notin> V \<or> tcbs k t \<noteq> None"
  shows "map_option pxStack (tcbs k' t) = map_option pxStack (tcbs k t)" "tcbs k' t = None \<longleftrightarrow> tcbs k t = None"
proof -
  show *: "map_option pxStack (tcbs k' t) = map_option pxStack (tcbs k t)"
    using assms by (simp add: keeps_def)
  show "tcbs k' t = None \<longleftrightarrow> tcbs k t = None"
    using arg_cong [OF *, of "\<lambda>x. x = None"] by simp
qed

lemma keeps_live: "keeps E V k k' \<Longrightarrow> tcbs k t \<noteq> None \<Longrightarrow> tcbs k' t \<noteq> None"
  using keeps_tasks(2) [of E V k k' t] by simp

lemma keeps_dom: "keeps E V k k' \<Longrightarrow> dom (tcbs k) \<subseteq> dom (tcbs k')"
  using keeps_live by blast

lemma keeps_refl [simp]: "keeps E V k k"
  by (simp add: keeps_def)

lemma keeps_trans: "keeps E V k1 k2 \<Longrightarrow> keeps E V k2 k3 \<Longrightarrow> keeps E V k1 k3"
  proof (unfold keeps_def, elim conjE, intro conjI allI impI)
  fix t
  assume "\<forall>t. t \<notin> V \<longrightarrow> \<not> event_value_free t k1 \<longrightarrow> event_value t k2 = event_value t k1"
    "\<forall>t. t \<notin> V \<longrightarrow> \<not> event_value_free t k2 \<longrightarrow> event_value t k3 = event_value t k2" "t \<notin> V" "\<not> event_value_free t k1"
  then show "event_value t k3 = event_value t k1"
    by (simp add: event_value_free_def)
next
  fix t
  assume m: "\<forall>t. t \<notin> V \<or> tcbs k1 t \<noteq> None \<longrightarrow> map_option pxStack (tcbs k2 t) = map_option pxStack (tcbs k1 t)"
    "\<forall>t. t \<notin> V \<or> tcbs k2 t \<noteq> None \<longrightarrow> map_option pxStack (tcbs k3 t) = map_option pxStack (tcbs k2 t)"
    "t \<notin> V \<or> tcbs k1 t \<noteq> None"
  then have s: "map_option pxStack (tcbs k2 t) = map_option pxStack (tcbs k1 t)"
    by blast
  then have "tcbs k1 t \<noteq> None \<Longrightarrow> tcbs k2 t \<noteq> None"
    by (metis option.map_disc_iff)
  with m(2,3) s show "map_option pxStack (tcbs k3 t) = map_option pxStack (tcbs k1 t)"
    by metis
qed blast+

lemma keeps_fields [simp]:
  "keeps E V k (k'\<lparr>xTickCount := n\<rparr>) = keeps E V k k'"
  "keeps E V k (k'\<lparr>uxTopReadyPriority := r\<rparr>) = keeps E V k k'" "keeps E V k (k'\<lparr>xPendedTicks := n\<rparr>) = keeps E V k k'"
  "keeps E V k (k'\<lparr>xYieldPending := y\<rparr>) = keeps E V k k'" "keeps E V k (k'\<lparr>xNumOfOverflows := n\<rparr>) = keeps E V k k'"
  "keeps E V k (k'\<lparr>xNextTaskUnblockTime := n\<rparr>) = keeps E V k k'" "keeps E V k (k'\<lparr>uxSchedulerSuspended := n\<rparr>) = keeps E V k k'"
  "keeps E V k (k'\<lparr>ulTaskSwitchedInTime := n\<rparr>) = keeps E V k k'" "keeps E V k (k'\<lparr>pendsv := y\<rparr>) = keeps E V k k'"
  "keeps E V k (k'\<lparr>pxCurrentTCB := t\<rparr>) = keeps E V k k'"
  "keeps E V k (k'\<lparr>pxDelayedTaskList := l\<rparr>) = keeps E V k k'" "keeps E V k (k'\<lparr>pxOverflowDelayedTaskList := l\<rparr>) = keeps E V k k'"
  "keeps E V (k\<lparr>uxSchedulerSuspended := n\<rparr>) k' = keeps E V k k'" "keeps E V (k\<lparr>xTickCount := n\<rparr>) k' = keeps E V k k'"
  "keeps E V (k\<lparr>xPendedTicks := n\<rparr>) k' = keeps E V k k'" "keeps E V (k\<lparr>xYieldPending := y\<rparr>) k' = keeps E V k k'"
  "keeps E V (k\<lparr>uxTopReadyPriority := r\<rparr>) k' = keeps E V k k'" "keeps E V (k\<lparr>pendsv := y\<rparr>) k' = keeps E V k k'"
  "keeps E V (k\<lparr>ulTaskSwitchedInTime := n\<rparr>) k' = keeps E V k k'" "keeps E V (k\<lparr>uxTaskNumber := n\<rparr>) k' = keeps E V k k'"
  "keeps E V (k\<lparr>uxCurrentNumberOfTasks := n\<rparr>) k' = keeps E V k k'"
  by (simp_all add: keeps_def event_value_free_def)

text \<open>The building blocks.\<close>

definition not_event :: "lname \<Rightarrow> bool" where
  "not_event l \<longleftrightarrow> (\<forall>e. l \<noteq> EventList e)"

lemma not_event_simps [simp]:
  "not_event (Ready p)" "not_event Delayed1" "not_event Delayed2" "not_event PendingReady" "not_event Suspended"
  "not_event WaitingTermination"
  by (simp_all add: not_event_def)

lemma keeps_remove: "list_remove i k = Some (n, k') \<Longrightarrow> keeps E V k k'"
  by (auto simp: list_remove_def remove_item_def keeps_def dest: set_remove1_subset [THEN subsetD] split: option.splits if_splits)

lemma keeps_insert_end: "list_insert_end l i k = Some k' \<Longrightarrow> not_event l \<Longrightarrow> keeps E V k k'"
  by (auto simp: list_insert_end_def insert_end_def keeps_def not_event_def split: if_splits)

lemma keeps_insert: "list_insert l i k = Some k' \<Longrightarrow> not_event l \<Longrightarrow> keeps E V k k'"
  by (auto simp: list_insert_def insert_ordered_def keeps_def not_event_def split: if_splits)

lemma keeps_set_value [simp]: "keeps E V k (list_set_value (StateItem t) v k') = keeps E V k k'"
  by (simp add: list_set_value_def set_value_def keeps_def)

lemma keeps_set_free: "keeps E V k k' \<Longrightarrow> event_value_free t k' \<Longrightarrow> keeps E V k (list_set_value (EventItem t) v k')"
  by (auto simp: list_set_value_def set_value_def keeps_def event_value_free_def)

lemma keeps_set_self: "keeps E {t} k k' \<Longrightarrow> keeps E {t} k (list_set_value (EventItem t) v k')"
  by (simp add: list_set_value_def set_value_def keeps_def)

lemma keeps_set_priority: "keeps E V k k' \<Longrightarrow> keeps E V k (set_event_priority t p k')"
  by (simp add: set_event_priority_def keeps_set_free)

lemma keeps_upd_tcb: "upd_tcb t f k = Some k' \<Longrightarrow> (\<And>b. pxStack (f b) = pxStack b) \<Longrightarrow> keeps E V k k'"
  by (auto simp: upd_tcb_def keeps_def split: option.splits)

lemma keeps_remove_if: "list_remove_if i k = Some k' \<Longrightarrow> keeps E V k k'"
  by (auto simp: list_remove_if_def dest: keeps_remove [where E = E and V = V] split: if_splits)

lemma keeps_add_ready: "prvAddTaskToReadyList t k = Some k' \<Longrightarrow> keeps E V k k'"
  by (auto simp: prvAddTaskToReadyList_def Let_def dest!: keeps_insert_end [where E = E and V = V] split: bind_splits)

lemma keeps_reset [simp]: "keeps E V k (taskRESET_READY_PRIORITY p k') = keeps E V k k'" "keeps E V k (prvResetNextTaskUnblockTime k') = keeps E V k k'"
  "keeps E V k (portYIELD_WITHIN_API k') = keeps E V k k'" "keeps E V k (vTaskSuspendAll k') = keeps E V k k'"
  by (simp_all add: taskRESET_READY_PRIORITY_def prvResetNextTaskUnblockTime_def portYIELD_WITHIN_API_def vTaskSuspendAll_def
      split: list.splits)

lemma keeps_unblock: "unblock t k = Some k' \<Longrightarrow> keeps E V k k'"
  by (auto simp: unblock_def dest!: keeps_remove [where E = E and V = V] keeps_remove_if [where E = E and V = V] keeps_add_ready [where E = E and V = V] split: bind_splits) (blast intro: keeps_trans)

lemma keeps_wake_due: "wake_due now switch k = Some r \<Longrightarrow> keeps E V k (snd r)"
proof (rule wake_due.raw_induct [where P = "\<lambda>now switch k r. keeps E V k (snd r)"], goal_cases)
  case (1 wake now switch k r)
  show ?case
  proof (cases "items (klists k) (pxDelayedTaskList k)")
    case Nil
    with 1(3) have "r = (switch, k\<lparr>xNextTaskUnblockTime := portMAX_DELAY\<rparr>)"
      by simp
    then show ?thesis by simp
  next
    case (Cons i js)
    show ?thesis
    proof (cases "now < item_value (klists k) (StateItem (owner i))")
      case True
      with Cons 1(3) have "r = (switch, k\<lparr>xNextTaskUnblockTime := item_value (klists k) (StateItem (owner i))\<rparr>)"
        by (simp add: Let_def)
      then show ?thesis by simp
    next
      case False
      then obtain k1 h where k1: "unblock (owner i) k = Some k1" "wake now (switch \<or> h) k1 = Some r"
        using Cons 1(3) by (auto simp: Let_def split: bind_splits)
      then show ?thesis
        using keeps_unblock 1(2) keeps_trans by blast
    qed
  qed
qed assumption

lemma keeps_switch_lists: "taskSWITCH_DELAYED_LISTS k = Some k' \<Longrightarrow> keeps E V k k'"
  by (auto simp: taskSWITCH_DELAYED_LISTS_def split: if_splits)

lemma keeps_tick: "xTaskIncrementTick k = Some (y, k') \<Longrightarrow> keeps E V k k'"
proof (cases "uxSchedulerSuspended k = 0")
  case True
  let ?now = "add32 (xTickCount k) 1" and ?k = "k\<lparr>xTickCount := add32 (xTickCount k) 1\<rparr>"
  assume "xTaskIncrementTick k = Some (y, k')"
  with True obtain k1 z where k1: "(if ?now = 0 then taskSWITCH_DELAYED_LISTS ?k else Some ?k) = Some k1"
    "(if ?now \<ge> xNextTaskUnblockTime k1 then wake_due ?now False k1 else Some (False, k1)) = Some (z, k')"
    unfolding xTaskIncrementTick_def Let_def
    by (simp del: One_nat_def split del: if_split split: bind_splits prod.splits)
  from k1(1) have "keeps E V ?k k1"
    by (auto dest: keeps_switch_lists [where E = E and V = V] split: if_splits)
  then have "keeps E V k k1"
    by simp
  moreover from k1(2) have "keeps E V k1 k'"
    by (auto dest: keeps_wake_due [where E = E and V = V] split: if_splits)
  ultimately show ?thesis
    by (rule keeps_trans)
qed (simp add: xTaskIncrementTick_def; auto)

lemma keeps_select: "taskSELECT_HIGHEST_PRIORITY_TASK k = Some k' \<Longrightarrow> keeps E V k k'"
  by (auto simp: taskSELECT_HIGHEST_PRIORITY_TASK_def next_entry_def Let_def keeps_def split: if_splits)

lemma keeps_switch: "vTaskSwitchContext now k = Some k' \<Longrightarrow> keeps E V k k'"
proof (cases "uxSchedulerSuspended k = 0")
  case True
  assume s: "vTaskSwitchContext now k = Some k'"
  let ?k = "k\<lparr>xYieldPending := False\<rparr>"
  obtain k1 where k1: "k1 = ?k \<or> (\<exists>n. upd_tcb (pxCurrentTCB k) (\<lambda>b. b\<lparr>ulRunTimeCounter := add32 (ulRunTimeCounter b) n\<rparr>) ?k = Some k1)"
    "taskSELECT_HIGHEST_PRIORITY_TASK (k1\<lparr>ulTaskSwitchedInTime := now\<rparr>) = Some k'"
    using s True by (auto simp: vTaskSwitchContext_def Let_def split: bind_splits if_splits)
  from k1(1) have "keeps E V ?k k1"
    by (auto dest: keeps_upd_tcb [where E = E and V = V])
  with keeps_select [OF k1(2)] show ?thesis
    by (auto intro: keeps_trans)
qed (auto simp: vTaskSwitchContext_def)

lemma keeps_higher: "note_higher t k = Some (y, k') \<Longrightarrow> keeps E V k k'"
  by (auto simp: note_higher_def split: bind_splits)

lemma keeps_resume_pending: "resume_pending moved k = Some r \<Longrightarrow> keeps E V k (snd r)"
proof (rule resume_pending.raw_induct [where P = "\<lambda>moved k r. keeps E V k (snd r)"], goal_cases)
  case (1 rec moved k r)
  show ?case
  proof (cases "items (klists k) PendingReady")
    case Nil
    with 1(3) have "r = (moved, k)"
      by simp
    then show ?thesis by simp
  next
    case (Cons i js)
    then obtain n1 k1 n2 k2 k3 h where k: "list_remove (EventItem (owner i)) k = Some (n1, k1)"
      "list_remove (StateItem (owner i)) k1 = Some (n2, k2)" "prvAddTaskToReadyList (owner i) k2 = Some k3"
      "rec True (if h then k3\<lparr>xYieldPending := True\<rparr> else k3) = Some r"
      using 1(3) by (auto simp: Let_def split: bind_splits)
    have "keeps E V k k3"
      by (rule keeps_trans [OF keeps_trans [OF keeps_remove [OF k(1)] keeps_remove [OF k(2)]] keeps_add_ready [OF k(3)]])
    moreover have "keeps E V k3 (snd r)"
      using 1(2) [OF k(4)] by (simp split: if_splits)
    ultimately show ?thesis
      by (rule keeps_trans)
  qed
qed assumption

lemma keeps_resume_ticks: "resume_ticks n k = Some k' \<Longrightarrow> keeps E V k k'"
proof (induction n arbitrary: k)
  case (Suc n)
  then obtain y k1 where k1: "xTaskIncrementTick k = Some (y, k1)" "resume_ticks n (if y then k1\<lparr>xYieldPending := True\<rparr> else k1) = Some k'"
    by (auto split: bind_splits)
  have "keeps E V k1 k'"
    using Suc.IH [OF k1(2)] by (simp split: if_splits)
  with keeps_tick [OF k1(1)] show ?case
    by (rule keeps_trans)
qed simp

lemma keeps_resume_all: "xTaskResumeAll k = Some (y, k') \<Longrightarrow> keeps E V k k'"
proof -
  assume r: "xTaskResumeAll k = Some (y, k')"
  let ?k = "k\<lparr>uxSchedulerSuspended := uxSchedulerSuspended k - 1\<rparr>"
  show ?thesis
  proof (cases "uxSchedulerSuspended k = 1 \<and> uxCurrentNumberOfTasks k > 0")
    case False
    with r show ?thesis
      by (auto simp: xTaskResumeAll_def Let_def split: if_splits)
  next
    case True
    then obtain moved k1 k2 where k: "resume_pending False ?k = Some (moved, k1)"
      "(if xPendedTicks (if moved then prvResetNextTaskUnblockTime k1 else k1) > 0
        then map_option (\<lambda>k. k\<lparr>xPendedTicks := 0\<rparr>) (resume_ticks (xPendedTicks (if moved then prvResetNextTaskUnblockTime k1 else k1))
          (if moved then prvResetNextTaskUnblockTime k1 else k1))
        else Some (if moved then prvResetNextTaskUnblockTime k1 else k1)) = Some k2"
      "k' = (if xYieldPending k2 then portYIELD_WITHIN_API k2 else k2)"
      using r unfolding xTaskResumeAll_def Let_def
      by (simp split: bind_splits prod.splits if_split_asm(1) split del: if_split)
    have "keeps E V ?k k1"
      using keeps_resume_pending [OF k(1)] by simp
    moreover have "keeps E V k1 k2"
    proof (cases moved)
      case True
      with k(2) have "keeps E V (prvResetNextTaskUnblockTime k1) k2"
        by (auto dest: keeps_resume_ticks [where E = E and V = V] split: if_splits)
      moreover have "keeps E V k1 (prvResetNextTaskUnblockTime k1)"
        by simp
      ultimately show ?thesis
        using keeps_trans by blast
    qed (use k(2) in \<open>auto dest: keeps_resume_ticks [where E = E and V = V] split: if_splits\<close>)
    ultimately have "keeps E V ?k k2"
      by (rule keeps_trans)
    with k(3) show ?thesis by simp
  qed
qed

lemma keeps_higher_priority: "taskYIELD_ANY_CORE_IF_USING_PREEMPTION t k = Some k' \<Longrightarrow> keeps E V k k'"
  by (auto simp: taskYIELD_ANY_CORE_IF_USING_PREEMPTION_def split: bind_splits)

definition lists_named :: "kernel \<Rightarrow> bool" where
  "lists_named k \<longleftrightarrow> pxDelayedTaskList k \<in> {Delayed1, Delayed2} \<and> pxOverflowDelayedTaskList k \<in> {Delayed1, Delayed2}"

lemma keeps_delayed:
  assumes "prvAddCurrentTaskToDelayedList n c k = Some k'" "lists_named k"
  shows "keeps E V k k'"
proof -
  have a: "prvAddCurrentTaskToDelayedList n c k = Some k'" "pxDelayedTaskList k \<in> {Delayed1, Delayed2}"
    "pxOverflowDelayedTaskList k \<in> {Delayed1, Delayed2}"
    using assms by (simp_all add: lists_named_def)
  let ?t = "pxCurrentTCB k"
  obtain k1 m k2 b where k: "upd_tcb ?t (\<lambda>b. b\<lparr>ucDelayAborted := False\<rparr>) k = Some k1" "list_remove (StateItem ?t) k1 = Some (m, k2)"
    "tcbs k2 ?t = Some b"
    using a(1) by (auto simp: prvAddCurrentTaskToDelayedList_def Let_def split: bind_splits)
  define k3 where "k3 = (if m = 0 then k2\<lparr>uxTopReadyPriority := portRESET_READY_PRIORITY (uxPriority b) (uxTopReadyPriority k2)\<rparr> else k2)"
  have "keeps E V k k1" "keeps E V k1 k2"
    using keeps_upd_tcb [OF k(1)] keeps_remove [OF k(2)] by simp_all
  then have m3: "keeps E V k k3"
    by (auto simp: k3_def intro: keeps_trans)
  have ne: "not_event (pxDelayedTaskList k3)" "not_event (pxOverflowDelayedTaskList k3)"
    using a(2,3) k(1,2) by (auto simp: k3_def upd_tcb_def list_remove_def remove_item_def split: option.splits)
  let ?v = "add32 (xTickCount k3) n"
  let ?k = "list_set_value (StateItem ?t) ?v k3"
  have mk: "keeps E V k ?k"
    using m3 by simp
  have eq: "prvAddCurrentTaskToDelayedList n c k =
      (if n = portMAX_DELAY \<and> c then list_insert_end Suspended (StateItem ?t) k3
       else if ?v < xTickCount ?k then list_insert (pxOverflowDelayedTaskList ?k) (StateItem ?t) ?k
       else do { k \<leftarrow> list_insert (pxDelayedTaskList ?k) (StateItem ?t) ?k;
                 Some (if ?v < xNextTaskUnblockTime k then k\<lparr>xNextTaskUnblockTime := ?v\<rparr> else k) })"
    unfolding prvAddCurrentTaskToDelayedList_def Let_def k(1) bind.bind_lunit k(2) prod.case k(3) k3_def [symmetric]
    by (rule refl)
  have ne': "not_event (pxDelayedTaskList ?k)" "not_event (pxOverflowDelayedTaskList ?k)"
    using ne by (simp_all add: list_set_value_def)
  show ?thesis
  proof (cases "n = portMAX_DELAY \<and> c")
    case True
    with a(1) eq have "list_insert_end Suspended (StateItem ?t) k3 = Some k'"
      by simp
    from keeps_trans [OF m3 keeps_insert_end [OF this]] show ?thesis
      by simp
  next
    case False
    show ?thesis
    proof (cases "?v < xTickCount ?k")
      case True
      with a(1) eq False have "list_insert (pxOverflowDelayedTaskList ?k) (StateItem ?t) ?k = Some k'"
        by simp
      from keeps_trans [OF mk keeps_insert [OF this ne'(2)]] show ?thesis .
    next
      case v: False
      obtain k4 where k4: "list_insert (pxDelayedTaskList ?k) (StateItem ?t) ?k = Some k4"
        "k' = (if ?v < xNextTaskUnblockTime k4 then k4\<lparr>xNextTaskUnblockTime := ?v\<rparr> else k4)"
        using a(1) unfolding eq if_not_P [OF False] if_not_P [OF v] by (auto split: bind_splits)
      from keeps_trans [OF mk keeps_insert [OF k4(1) ne'(1)]] k4(2) show ?thesis
        by simp
    qed
  qed
qed

lemma keeps_ready_or_pend: "ready_or_pend t k = Some k' \<Longrightarrow> keeps E V k k'"
  by (auto simp: ready_or_pend_def dest!: keeps_remove [where E = E and V = V] keeps_add_ready [where E = E and V = V] keeps_insert_end [where E = E and V = V] split: if_splits bind_splits intro: keeps_trans)

lemma keeps_leave: "leave_state_list t k = Some k' \<Longrightarrow> keeps E V k k'"
  by (auto simp: leave_state_list_def dest!: keeps_remove [where E = E and V = V] split: bind_splits if_splits)

lemma keeps_requeue: "requeue_ready t p k = Some k' \<Longrightarrow> keeps E V k k'"
  by (auto simp: requeue_ready_def dest!: keeps_remove [where E = E and V = V] keeps_add_ready [where E = E and V = V] split: bind_splits if_splits intro: keeps_trans)

lemma keeps_left: "keeps E V (portYIELD_WITHIN_API k) k' = keeps E V k k'" "keeps E V (vTaskSuspendAll k) k' = keeps E V k k'"
  by (simp_all add: portYIELD_WITHIN_API_def vTaskSuspendAll_def)

lemma named_suspend [simp]: "lists_named (vTaskSuspendAll k) = lists_named k"
  by (simp add: vTaskSuspendAll_def lists_named_def)

lemma keeps_delay:
  assumes "lists_named k" "vTaskDelay n k = Some k'"
  shows "keeps E V k k'"
proof (cases "n > 0")
  case True
  with assms(2) obtain k1 y k2 where k: "prvAddCurrentTaskToDelayedList n False (vTaskSuspendAll k) = Some k1"
    "xTaskResumeAll k1 = Some (y, k2)" "k' = (if y then k2 else portYIELD_WITHIN_API k2)"
    by (auto simp: vTaskDelay_def Let_def split: bind_splits if_splits)
  have "keeps E V (vTaskSuspendAll k) k1"
    using keeps_delayed [OF k(1)] assms(1) by simp
  with keeps_resume_all [OF k(2)] k(3) show ?thesis
    by (auto simp: keeps_left intro: keeps_trans)
qed (use assms(2) in \<open>auto simp: vTaskDelay_def\<close>)

lemma keeps_delay_until:
  assumes "lists_named k" "xTaskDelayUntil p i k = Some (y, v, k')"
  shows "keeps E V k k'"
proof -
  obtain k1 n z k2 where k: "k1 = vTaskSuspendAll k \<or> prvAddCurrentTaskToDelayedList n False (vTaskSuspendAll k) = Some k1"
    "xTaskResumeAll k1 = Some (z, k2)" "k' = (if z then k2 else portYIELD_WITHIN_API k2)"
    using assms(2) unfolding xTaskDelayUntil_def Let_def
    by (auto split: bind_splits if_split_asm(1) simp del: disj_not1 split del: if_split)
  have "keeps E V (vTaskSuspendAll k) k1"
    using k(1) keeps_delayed [of n False "vTaskSuspendAll k" k1] assms(1) by auto
  with keeps_resume_all [OF k(2)] k(3) show ?thesis
    by (auto simp: keeps_left intro: keeps_trans)
qed

lemma keeps_catch_up: "xTaskCatchUpTicks n k = Some (y, k') \<Longrightarrow> keeps E V k k'"
  by (auto simp: xTaskCatchUpTicks_def Let_def keeps_left dest!: keeps_resume_all [where E = E and V = V] split: if_splits)

lemma keeps_suspend:
  assumes "vTaskSuspend t now k = Some k'"
  shows "keeps E V k k'"
proof -
  let ?t = "handle t k"
  obtain k1 k2 k3 k4 where k: "leave_state_list ?t k = Some k1" "list_remove_if (EventItem ?t) k1 = Some k2"
    "list_insert_end Suspended (StateItem ?t) k2 = Some k3"
    "upd_tcb ?t (\<lambda>b. if ucNotifyState b = Waiting then b\<lparr>ucNotifyState := NotWaiting\<rparr> else b) k3 = Some k4"
    using assms by (auto simp: vTaskSuspend_def Let_def split: bind_splits)
  define k5 where "k5 = (if xSchedulerRunning k4 then prvResetNextTaskUnblockTime k4 else k4)"
  have "keeps E V k k1" "keeps E V k1 k2" "keeps E V k2 k3" "keeps E V k3 k4"
    using keeps_leave [OF k(1)] keeps_remove_if [OF k(2)] keeps_insert_end [OF k(3)] keeps_upd_tcb [OF k(4)] by (simp_all split: if_splits)
  then have "keeps E V k k4"
    by (blast intro: keeps_trans)
  then have m5: "keeps E V k k5"
    by (simp add: k5_def)
  have "k' = k5 \<or> k' = portYIELD_WITHIN_API k5 \<or> k' = k5\<lparr>pxCurrentTCB := 0\<rparr> \<or> vTaskSwitchContext now k5 = Some k'"
    using assms k unfolding vTaskSuspend_def Let_def k5_def [symmetric]
    by (auto simp: k5_def [symmetric] split: if_split_asm)
  with m5 show ?thesis
    by (auto intro: keeps_trans keeps_switch)
qed

lemma keeps_resume: "vTaskResume t k = Some k' \<Longrightarrow> keeps E V k k'"
  by (auto simp: vTaskResume_def dest!: keeps_remove [where E = E and V = V] keeps_add_ready [where E = E and V = V] keeps_higher_priority [where E = E and V = V] split: bind_splits if_splits)
    (blast intro: keeps_trans)

lemma keeps_resume_isr: "xTaskResumeFromISR t k = Some (y, k') \<Longrightarrow> keeps E V k k'"
  by (auto simp: xTaskResumeFromISR_def Let_def dest!: keeps_remove [where E = E and V = V] keeps_add_ready [where E = E and V = V] keeps_insert_end [where E = E and V = V] split: bind_splits if_splits
      intro: keeps_trans)

lemma keeps_abort:
  assumes "xTaskAbortDelay t k = Some (y, k')"
  shows "keeps E V k k'"
proof -
  let ?k = "vTaskSuspendAll k"
  obtain st where st: "eTaskGetState t ?k = Some st"
    using assms by (auto simp: xTaskAbortDelay_def Let_def split: bind_splits if_splits)
  show ?thesis
  proof (cases "st = eBlocked")
    case False
    with assms st have "\<exists>z. xTaskResumeAll ?k = Some (z, k')"
      by (auto simp: xTaskAbortDelay_def Let_def split: bind_splits if_splits)
    then show ?thesis
      by (auto dest: keeps_resume_all [where E = E and V = V] simp: keeps_left)
  next
    case True
    then obtain n k1 k2 k3 z where k: "list_remove (StateItem t) ?k = Some (n, k1)"
      "(if container (klists k1) (EventItem t) \<noteq> None
        then do { (_, k) \<leftarrow> list_remove (EventItem t) k1; upd_tcb t (\<lambda>b. b\<lparr>ucDelayAborted := True\<rparr>) k }
        else Some k1) = Some k2"
      "prvAddTaskToReadyList t k2 = Some k3"
      "xTaskResumeAll k3 = Some (z, k') \<or> xTaskResumeAll (k3\<lparr>xYieldPending := True\<rparr>) = Some (z, k')"
      using assms st by (auto simp: xTaskAbortDelay_def Let_def split: bind_splits if_split_asm) blast+
    have "keeps E V ?k k1"
      by (rule keeps_remove [OF k(1)])
    moreover have "keeps E V k1 k2"
      using k(2) by (auto dest!: keeps_remove [where E = E and V = V] keeps_upd_tcb [where E = E and V = V] intro: keeps_trans split: if_splits bind_splits)
    moreover have "keeps E V k2 k3"
      by (rule keeps_add_ready [OF k(3)])
    moreover have "keeps E V k3 k'"
      using k(4) by (auto dest: keeps_resume_all [where E = E and V = V])
    ultimately have "keeps E V ?k k'"
      by (blast intro: keeps_trans)
    then show ?thesis
      by (simp add: keeps_left)
  qed
qed

lemma keeps_priority_set:
  assumes "vTaskPrioritySet t p k = Some k'"
  shows "keeps E V k k'"
proof -
  let ?t = "handle t k"
  have "k' = k \<or> (\<exists>u k1 k2. upd_tcb ?t (\<lambda>b. (if uxBasePriority b = uxPriority b \<or> p > uxPriority b
      then b\<lparr>uxPriority := p\<rparr> else b)\<lparr>uxBasePriority := p\<rparr>) k = Some k1 \<and>
      requeue_ready ?t u (set_event_priority ?t p k1) = Some k2 \<and> (k' = k2 \<or> k' = portYIELD_WITHIN_API k2))"
    using assms by (auto simp: vTaskPrioritySet_def Let_def split: bind_splits if_split_asm(1) split del: if_split)
  then show ?thesis
  proof (elim disjE exE conjE)
    fix u k1 k2
    assume a: "upd_tcb ?t (\<lambda>b. (if uxBasePriority b = uxPriority b \<or> p > uxPriority b
      then b\<lparr>uxPriority := p\<rparr> else b)\<lparr>uxBasePriority := p\<rparr>) k = Some k1"
      "requeue_ready ?t u (set_event_priority ?t p k1) = Some k2"
    have "keeps E V k k1"
      by (rule keeps_upd_tcb [OF a(1)]) simp
    then have "keeps E V k (set_event_priority ?t p k1)"
      by (rule keeps_set_priority)
    with keeps_requeue [OF a(2)] have "keeps E V k k2"
      by (blast intro: keeps_trans)
    then show "k' = k2 \<Longrightarrow> keeps E V k k'" "k' = portYIELD_WITHIN_API k2 \<Longrightarrow> keeps E V k k'"
      by simp_all
  qed simp
qed

lemma keeps_notify:
  assumes "xTaskGenericNotify t i v a k = Some (ok, v', k')"
  shows "keeps E V k k'"
proof -
  obtain b y u k1 where k: "upd_tcb t (\<lambda>b. b\<lparr>ucNotifyState := Received, ulNotifiedValue := u\<rparr>) k = Some k1"
    "k' = k1 \<or> (\<exists>n k2 k3. list_remove (StateItem t) k1 = Some (n, k2) \<and> prvAddTaskToReadyList t k2 = Some k3 \<and>
       taskYIELD_ANY_CORE_IF_USING_PREEMPTION t k3 = Some k')"
    using assms by (auto simp: xTaskGenericNotify_def Let_def split: bind_splits if_split_asm prod.splits)
  have "keeps E V k k1"
    using keeps_upd_tcb [OF k(1)] by simp
  with k(2) show ?thesis
    by (auto dest!: keeps_remove [where E = E and V = V] keeps_add_ready [where E = E and V = V] keeps_higher_priority [where E = E and V = V]) (blast intro: keeps_trans)
qed

lemma keeps_notify_isr:
  assumes "xTaskGenericNotifyFromISR t i v a k = Some (ok, v', h, k')"
  shows "keeps E V k k'"
proof -
  obtain u k1 where k: "upd_tcb t (\<lambda>b. b\<lparr>ucNotifyState := Received, ulNotifiedValue := u\<rparr>) k = Some k1"
    "k' = k1 \<or> (\<exists>k2 y. ready_or_pend t k1 = Some k2 \<and> note_higher t k2 = Some (y, k'))"
    using assms by (auto simp: xTaskGenericNotifyFromISR_def Let_def split: bind_splits if_split_asm prod.splits)
  have "keeps E V k k1"
    using keeps_upd_tcb [OF k(1)] by simp
  with k(2) show ?thesis
    by (auto dest!: keeps_ready_or_pend [where E = E and V = V] keeps_higher [where E = E and V = V]) (blast intro: keeps_trans)
qed

lemma keeps_give_isr:
  assumes "vTaskGenericNotifyGiveFromISR t i k = Some (h, k')"
  shows "keeps E V k k'"
proof -
  obtain k1 where k: "upd_tcb t (\<lambda>b. b\<lparr>ucNotifyState := Received, ulNotifiedValue := ulNotifiedValue b + 1\<rparr>) k = Some k1"
    "k' = k1 \<or> (\<exists>k2 y. ready_or_pend t k1 = Some k2 \<and> note_higher t k2 = Some (y, k'))"
    using assms by (auto simp: vTaskGenericNotifyGiveFromISR_def Let_def split: bind_splits if_split_asm prod.splits)
  have "keeps E V k k1"
    using keeps_upd_tcb [OF k(1)] by simp
  with k(2) show ?thesis
    by (auto dest!: keeps_ready_or_pend [where E = E and V = V] keeps_higher [where E = E and V = V]) (blast intro: keeps_trans)
qed

lemma keeps_checks:
  "notify_take_check i n k = Some (y, k') \<Longrightarrow> keeps E V k k'" "notify_wait_check i v n k = Some (z, k') \<Longrightarrow> keeps E V k k'"
  "notify_take_exit c k = Some (w, k') \<Longrightarrow> keeps E V k k'" "notify_wait_exit v k = Some (z', w', k') \<Longrightarrow> keeps E V k k'"
  "xTaskGenericNotifyStateClear t i k = Some (y, k') \<Longrightarrow> keeps E V k k'"
  "ulTaskGenericNotifyValueClear t i v k = Some (w, k') \<Longrightarrow> keeps E V k k'"
  by (auto simp: notify_take_check_def notify_wait_check_def notify_take_exit_def notify_wait_exit_def
      xTaskGenericNotifyStateClear_def ulTaskGenericNotifyValueClear_def Let_def keeps_left
      dest!: keeps_upd_tcb [where E = E and V = V] split: bind_splits if_splits)

lemma keeps_notify_block:
  assumes "lists_named k" "notify_block b n k = Some k'"
  shows "keeps E V k k'"
proof -
  obtain k1 y k2 where k: "(if b then prvAddCurrentTaskToDelayedList n True k else Some k) = Some k1"
    "xTaskResumeAll k1 = Some (y, k2)" "k' = k2 \<or> k' = portYIELD_WITHIN_API k2"
    using assms(2) by (auto simp: notify_block_def split: bind_splits if_split_asm(1))
  have "keeps E V k k1"
    using k(1) keeps_delayed [OF _ assms(1)] by (auto split: if_splits)
  with keeps_resume_all [OF k(2)] k(3) show ?thesis
    by (auto intro: keeps_trans)
qed


lemmas keeps_steps = keeps_upd_tcb keeps_remove keeps_add_ready

lemma keeps_inherit: "xTaskPriorityInherit t k = Some (y, k') \<Longrightarrow> keeps E V k k'"
  using keeps_set_priority [OF keeps_refl, of E V k t]
  by (auto simp: xTaskPriorityInherit_def Let_def dest!: keeps_steps [where E = E and V = V] split: bind_splits if_split_asm)
    (blast intro: keeps_trans)+

lemma keeps_disinherit: "xTaskPriorityDisinherit t k = Some (y, k') \<Longrightarrow> keeps E {t} k k'"
  by (auto simp: xTaskPriorityDisinherit_def Let_def keeps_set_self dest!: keeps_steps [where E = E and V = "{t}"]
      split: bind_splits if_split_asm)
    (blast intro: keeps_trans keeps_set_self)+

lemma keeps_mutex: "pvTaskIncrementMutexHeldCount k = Some (t, k') \<Longrightarrow> keeps E V k k'"
  by (auto simp: pvTaskIncrementMutexHeldCount_def Let_def dest: keeps_upd_tcb split: if_splits)

lemma keeps_wait:
  assumes "lists_named k" "wait_on_event (EventList e) n k = Some k'"
  shows "keeps {e} V k k'" "set (waiting e k') \<subseteq> insert (EventItem (pxCurrentTCB k)) (set (waiting e k))"
proof -
  let ?k = "vTaskSuspendAll k"
  obtain k1 k2 y k3 where k: "list_insert (EventList e) (EventItem (pxCurrentTCB ?k)) ?k = Some k1"
    "prvAddCurrentTaskToDelayedList n True k1 = Some k2" "xTaskResumeAll k2 = Some (y, k3)" "k' = k3 \<or> k' = portYIELD_WITHIN_API k3"
    using assms(2) by (auto simp: wait_on_event_def vTaskPlaceOnEventList_def split: bind_splits if_split_asm)
  have "keeps {e} V ?k k1" "lists_named k1"
    using k(1) assms(1) by (auto simp: list_insert_def insert_ordered_def keeps_def lists_named_def vTaskSuspendAll_def split: if_splits)
  moreover have k13: "keeps E V k1 k3" for E V
    using keeps_trans [OF keeps_delayed [OF k(2)] keeps_resume_all [OF k(3)]] \<open>lists_named k1\<close> by blast
  ultimately have "keeps {e} V ?k k3"
    by (blast intro: keeps_trans)
  with k(4) show "keeps {e} V k k'"
    by (auto simp: keeps_left)
  have "set (waiting e k1) = insert (EventItem (pxCurrentTCB k)) (set (waiting e k))"
    using k(1) by (auto simp: list_insert_def insert_ordered_def vTaskSuspendAll_def split: if_splits)
  moreover have "set (waiting e k3) \<subseteq> set (waiting e k1)"
    using k13 [of "{}"] by (simp add: keeps_def)
  ultimately show "set (waiting e k') \<subseteq> insert (EventItem (pxCurrentTCB k)) (set (waiting e k))"
    using k(4) by (auto simp: portYIELD_WITHIN_API_def)
qed

lemma keeps_event_occurs: "xTaskRemoveFromEventList l k = Some (y, k') \<Longrightarrow> keeps E V k k'"
  by (auto simp: xTaskRemoveFromEventList_def Let_def
      dest!: keeps_remove [where E = E and V = V] keeps_ready_or_pend [where E = E and V = V] keeps_higher [where E = E and V = V]
      split: list.splits bind_splits)
    (blast intro: keeps_trans)

lemma keeps_new_task:
  assumes "kernel_ok k" "tcbs k t = None" "prvInitialiseNewTask p t s k = Some k1" "prvAddNewTaskToReadyList t k1 = Some k'"
  shows "keeps E {t} k k'"
proof -
  have r: "xSchedulerRunning k" "pxCurrentTCB k \<noteq> 0"
    using kernel_okD(4,7) [OF assms(1)] live_not_null [OF assms(1)] by auto
  have k1: "keeps E {t} k k1" "xSchedulerRunning k1" "pxCurrentTCB k1 = pxCurrentTCB k"
    using assms(2,3) r(1) by (auto simp: prvInitialiseNewTask_def Let_def keeps_def init_item_def set_value_def split: if_splits)
  obtain n k2 k3 where "upd_tcb t (\<lambda>b. b\<lparr>uxTCBNumber := n\<rparr>) (k1\<lparr>uxCurrentNumberOfTasks := add32 (uxCurrentNumberOfTasks k1) 1,
      uxTaskNumber := add32 (uxTaskNumber k1) 1\<rparr>) = Some k2" "prvAddTaskToReadyList t k2 = Some k3"
    "k' = k3 \<or> taskYIELD_ANY_CORE_IF_USING_PREEMPTION t k3 = Some k'"
    using assms(4) k1(2,3) r(2) unfolding prvAddNewTaskToReadyList_def Let_def
    by (auto split: bind_splits if_split_asm)
  then have "keeps E {t} k1 k'"
    by (auto dest!: keeps_steps [where E = E and V = "{t}"] keeps_higher_priority [where E = E and V = "{t}"] intro: keeps_trans)
  with k1(1) show ?thesis
    by (rule keeps_trans)
qed

text \<open>Which lists an operation may add to, and whose event item it may set.\<close>

fun grows :: "kop \<Rightarrow> nat set" where
  "grows (WaitOnEvent e n) = {e}"
| "grows _ = {}"

fun revalues :: "kop \<Rightarrow> kernel \<Rightarrow> tid set" where
  "revalues PriorityDisinherit k = {pxCurrentTCB k}"
| "revalues (NewTask t s p) k = {t}"
| "revalues _ k = {}"

lemma kernel_ok_named: "kernel_ok k \<Longrightarrow> lists_named k"
  using kernel_okD(2) [of k] by (auto simp: kinv_def delays_ok_def lists_named_def)

lemma kexec_keeps:
  assumes "kernel_ok k" "enabled a k" "kexec a k = Some k'"
  shows "keeps (grows a) (revalues a k) k k'"
  using assms(2,3)
  by (cases a)
    (auto simp: xPortSysTickHandler_def xPortPendSVHandler_def keeps_left
      dest: keeps_tick keeps_switch keeps_resume_all keeps_delay [OF kernel_ok_named [OF assms(1)]]
        keeps_delay_until [OF kernel_ok_named [OF assms(1)]] keeps_catch_up keeps_suspend
        keeps_resume keeps_resume_isr keeps_abort keeps_priority_set keeps_notify keeps_notify_isr keeps_give_isr keeps_checks
        keeps_notify_block [OF kernel_ok_named [OF assms(1)]] keeps_inherit keeps_disinherit keeps_mutex
        keeps_wait(1) [OF kernel_ok_named [OF assms(1)]] keeps_event_occurs keeps_new_task [OF assms(1)] split: bind_splits if_splits)

end
