(* ===== verification/EventWalk.thy ===== *)
theory EventWalk
  imports EventKernel
begin

text \<open>
  Unblocking the tasks that wait for a group, and blocking the running task on one, in a consistent
  kernel: both succeed, and the lemmas say what becomes of the list, of the values of the event
  items and of the tasks. \<open>frees\<close> is the effect of unblocking some of the tasks of a list.
\<close>

section \<open>The bits in the values of the event items\<close>

definition IN_USE :: event_bits where
  "IN_USE = 0x80000000"

lemma bit_single: "bit (push_bit m 1 :: event_bits) n \<longleftrightarrow> n = m \<and> n < 32"
  "bit (push_bit m (mask j) :: event_bits) n \<longleftrightarrow> m \<le> n \<and> n < m + j \<and> n < 32"
  by (auto simp: bit_simps)

lemma event_shifts:
  "eventCLEAR_EVENTS_ON_EXIT_BIT = push_bit 24 1" "eventUNBLOCKED_DUE_TO_BIT_SET = push_bit 25 1"
  "eventWAIT_FOR_ALL_BITS = push_bit 26 1" "eventEVENT_BITS_CONTROL_BYTES = push_bit 24 (mask 8)" "IN_USE = push_bit 31 1"
  by (simp_all add: eventCLEAR_EVENTS_ON_EXIT_BIT_def eventUNBLOCKED_DUE_TO_BIT_SET_def IN_USE_def
      eventWAIT_FOR_ALL_BITS_def eventEVENT_BITS_CONTROL_BYTES_def mask_eq_exp_minus_1)

lemma event_bit:
  "bit eventCLEAR_EVENTS_ON_EXIT_BIT n \<longleftrightarrow> n = 24" "bit eventUNBLOCKED_DUE_TO_BIT_SET n \<longleftrightarrow> n = 25"
  "bit eventWAIT_FOR_ALL_BITS n \<longleftrightarrow> n = 26" "bit eventEVENT_BITS_CONTROL_BYTES n \<longleftrightarrow> 24 \<le> n \<and> n < 32"
  "bit IN_USE n \<longleftrightarrow> n = 31"
  unfolding event_shifts bit_single by auto

lemma event_eq_iff: "a = (b :: event_bits) \<longleftrightarrow> (\<forall>n < 32. bit a n \<longleftrightarrow> bit b n)"
  using bit_word_eqI [of a b] by auto

definition no_control :: "event_bits \<Rightarrow> bool" where
  "no_control b \<longleftrightarrow> b AND eventEVENT_BITS_CONTROL_BYTES = 0"

lemma no_control_bit: "no_control b \<longleftrightarrow> (\<forall>n < 32. bit b n \<longrightarrow> n < 24)"
  by (auto simp: no_control_def event_eq_iff bit_and_iff event_bit not_le)

lemmas event_bits_simps = event_eq_iff bit_and_iff bit_or_iff bit_not_iff event_bit no_control_bit

lemma no_control_simps [simp]:
  "no_control (a OR b) \<longleftrightarrow> no_control a \<and> no_control b" "no_control 0"
  "no_control (b AND NOT eventEVENT_BITS_CONTROL_BYTES)"
  by (auto simp: event_bits_simps)

lemma no_control_and: "no_control a \<Longrightarrow> no_control (a AND b)"
  by (auto simp: event_bits_simps)

text \<open>The value as the kernel stores it, in use, and as the code reads it back.\<close>

definition value_in_use :: "event_bits \<Rightarrow> nat" where
  "value_in_use v = unat v OR taskEVENT_LIST_ITEM_VALUE_IN_USE"

lemma in_use_word: "taskEVENT_LIST_ITEM_VALUE_IN_USE = unat IN_USE"
  by (simp add: taskEVENT_LIST_ITEM_VALUE_IN_USE_def IN_USE_def)

lemma value_in_use_word: "value_in_use v = unat (v OR IN_USE)"
  by (simp only: value_in_use_def in_use_word unsigned_or_eq)

lemma word_of_value [simp]: "word_of_nat (value_in_use v) = v OR IN_USE"
  by (simp add: value_in_use_word)

lemma value_in_use_flag: "value_in_use v AND taskEVENT_LIST_ITEM_VALUE_IN_USE \<noteq> 0"
proof -
  have "(v OR IN_USE) AND IN_USE = IN_USE"
    by (auto simp: event_bits_simps)
  then have "value_in_use v AND taskEVENT_LIST_ITEM_VALUE_IN_USE = taskEVENT_LIST_ITEM_VALUE_IN_USE"
    by (simp only: value_in_use_word in_use_word unsigned_and_eq [symmetric])
  then show ?thesis
    by (simp add: taskEVENT_LIST_ITEM_VALUE_IN_USE_def)
qed

text \<open>How a task waits, and what its value says of it.\<close>

definition wait_value :: "event_bits \<Rightarrow> bool \<Rightarrow> bool \<Rightarrow> event_bits" where
  "wait_value b clear all = b OR control_bits clear all"

lemma bit_control_bits: "bit (control_bits clear all) n \<longleftrightarrow> clear \<and> n = 24 \<or> all \<and> n = 26"
  by (auto simp: control_bits_def bit_or_iff event_bit)

lemma wait_value_split:
  assumes "no_control b"
  shows "(wait_value b clear all OR IN_USE) AND eventEVENT_BITS_CONTROL_BYTES = control_bits clear all OR IN_USE"
    "(wait_value b clear all OR IN_USE) AND NOT eventEVENT_BITS_CONTROL_BYTES = b"
    "(wait_value b clear all OR IN_USE) AND eventUNBLOCKED_DUE_TO_BIT_SET = 0"
  using assms by (auto simp: wait_value_def event_bits_simps bit_control_bits)

lemma control_bits_read:
  "(control_bits clear all OR IN_USE) AND eventWAIT_FOR_ALL_BITS = 0 \<longleftrightarrow> \<not> all"
  "(control_bits clear all OR IN_USE) AND eventCLEAR_EVENTS_ON_EXIT_BIT = 0 \<longleftrightarrow> \<not> clear"
  by (cases clear; cases all; simp add: control_bits_def IN_USE_def eventCLEAR_EVENTS_ON_EXIT_BIT_def eventWAIT_FOR_ALL_BITS_def)+

lemma wait_value_match:
  "no_control b \<Longrightarrow> match_found (wait_value b clear all OR IN_USE) bits \<longleftrightarrow> prvTestWaitCondition bits b all"
  unfolding match_found_def Let_def prvTestWaitCondition_def
  by (simp only: wait_value_split(1,2) control_bits_read and.commute [of bits])

lemma wait_value_clear:
  "no_control b \<Longrightarrow> bits_to_clear (wait_value b clear all OR IN_USE) = (if clear then b else 0)"
  unfolding bits_to_clear_def by (simp only: wait_value_split(1,2) control_bits_read) simp

definition unblocked_value :: "event_bits \<Rightarrow> event_bits" where
  "unblocked_value b = b OR eventUNBLOCKED_DUE_TO_BIT_SET"

lemma unblocked_value_split:
  "no_control b \<Longrightarrow> (unblocked_value b OR IN_USE) AND NOT eventEVENT_BITS_CONTROL_BYTES = b"
  "(unblocked_value b OR IN_USE) AND eventUNBLOCKED_DUE_TO_BIT_SET \<noteq> 0"
proof -
  show "(unblocked_value b OR IN_USE) AND eventUNBLOCKED_DUE_TO_BIT_SET \<noteq> 0"
    unfolding unblocked_value_def event_eq_iff bit_and_iff bit_or_iff event_bit by (intro notI, elim allE [of _ 25]) simp
qed (auto simp: unblocked_value_def event_bits_simps)

text \<open>A condition that fails, fails for fewer bits.\<close>

lemma condition_mono: "prvTestWaitCondition (a AND c) b all \<Longrightarrow> prvTestWaitCondition a b all"
  by (auto simp: prvTestWaitCondition_def event_bits_simps split: if_splits)

section \<open>Unblocking tasks\<close>

text \<open>\<open>frees e v us\<close>: the tasks of the items \<open>us\<close>, all from the list at \<open>e\<close>, are unblocked with the value \<open>v\<close>.\<close>

definition frees :: "nat \<Rightarrow> event_bits \<Rightarrow> item set \<Rightarrow> kernel \<Rightarrow> kernel \<Rightarrow> bool" where
  "frees e v us k k' \<longleftrightarrow>
     waiting e k' = filter (\<lambda>i. i \<notin> us) (waiting e k) \<and> (\<forall>e'. e' \<noteq> e \<longrightarrow> waiting e' k' = waiting e' k) \<and>
     (\<forall>t. event_value t k' = (if EventItem t \<in> us then value_in_use v else event_value t k)) \<and>
     (\<forall>t. EventItem t \<in> us \<longrightarrow> is_ready k' t \<and> container (klists k') (EventItem t) = None) \<and>
     (\<forall>t. EventItem t \<notin> us \<longrightarrow> container (klists k') (EventItem t) = container (klists k) (EventItem t) \<and>
        container (klists k') (StateItem t) = container (klists k) (StateItem t)) \<and>
     stable k k' \<and> same_clock k k' \<and> pendsv k' = pendsv k"

lemma frees_none [simp]: "frees e v {} k k"
  by (simp add: frees_def)

lemma frees_trans:
  assumes "frees e v us k1 k2" "frees e v us' k2 k3"
  shows "frees e v (us \<union> us') k1 k3"
proof -
  have "is_ready k3 t" if "is_ready k2 t" for t
    using assms(2) that by (cases "EventItem t \<in> us'") (auto simp: frees_def is_ready_def)
  moreover have "container (klists k3) (EventItem t) = None" if "container (klists k2) (EventItem t) = None" for t
    using assms(2) that by (cases "EventItem t \<in> us'") (auto simp: frees_def)
  ultimately show ?thesis
    using assms by (auto simp: frees_def intro: stable_trans same_clock_trans filter_cong)
qed

lemma remove_unordered_ok:
  assumes "kernel_ok k" "0 < uxSchedulerSuspended k" "EventItem t \<in> set (waiting e k)"
  shows "\<exists>k'. vTaskRemoveFromUnorderedEventList (EventItem t) (unat v) k = Some k' \<and> kernel_ok k' \<and> frees e v {EventItem t} k k'"
proof -
  let ?k = "list_set_value (EventItem t) (value_in_use v) k"
  have ok: "kernel_ok ?k"
    by (rule kernel_ok_event_value [OF assms(1)])
  note O = kernel_okD [OF ok]
  have c: "container (klists ?k) (EventItem t) = Some (EventList e)"
    using container_items [OF kernel_okD(2) [OF assms(1)]] assms(3) by (simp add: list_set_value_def set_value_def)
  obtain b where b: "tcbs ?k t = Some b"
    using kinv_live [OF O(2) c] by auto
  obtain n k1 where k1: "list_remove (EventItem t) ?k = Some (n, k1)" "only_lists ?k k1"
    "items (klists k1) = (items (klists ?k))(EventList e := remove1 (EventItem t) (items (klists ?k) (EventList e)))"
    "container (klists k1) = (container (klists ?k))(EventItem t := None)"
    "item_value (klists k1) = item_value (klists ?k)" "kinv {} {} (Suc (xTickCount ?k)) k1"
    by (rule list_remove_event [OF O(2) c]) blast
  note f = only_lists_fields [OF k1(2)]
  have nr: "\<not> is_ready ?k t"
    using O(6) c by (auto simp: events_ok_def)
  have ok1: "kernel_ok k1"
  proof (rule kernel_ok_touch [OF ok k1(6), where t = t])
    show "t = xIdleTaskHandle ?k \<Longrightarrow> is_ready k1 t" "t = pxCurrentTCB ?k \<Longrightarrow> is_ready k1 t \<or> pendsv k1 \<and> uxSchedulerSuspended ?k = 0"
      using nr O(5,9) f by auto
  qed (use b f k1(4) in \<open>simp_all add: calm_def same_clock_def touched_def\<close>)
  obtain n2 k2 k3 where k3: "list_remove (StateItem t) k1 = Some (n2, k2)" "prvAddTaskToReadyList t k2 = Some k3" "stable k1 k3" "same_clock k1 k3"
    "pendsv k3 = pendsv k1" "item_value (klists k3) = item_value (klists k1)"
    "container (klists k3) = (container (klists k1))(StateItem t := Some (Ready (uxPriority b)))"
    "\<And>l. l \<noteq> Ready (uxPriority b) \<Longrightarrow> items (klists k3) l = remove1 (StateItem t) (items (klists k1) l)"
    by (rule move_to_ready [OF kernel_okD(2) [OF ok1], of t b]) (use b f in auto)
  have ok3: "kernel_ok k3" and r3: "is_ready k3 t"
    using ready_now_ok [OF ok1, of t b] b f k1(4) k3(1,2) by auto
  have "tcbs k3 t \<noteq> None"
    using k3(3) b f by (simp add: stable_def)
  then obtain h k4 where k4: "note_higher t k3 = Some (h, k4)" "kernel_ok k4" "klists k4 = klists k3" "stable k3 k4" "same_clock k3 k4"
    "pendsv k4 = pendsv k3"
    using note_higher_ok [OF ok3] by blast
  have run: "vTaskRemoveFromUnorderedEventList (EventItem t) (unat v) k = Some k4"
    using assms(2) k1(1) k3(1,2) k4(1) by (simp add: vTaskRemoveFromUnorderedEventList_def value_in_use_def Let_def)
  have st: "stable k k4" "same_clock k k4" "pendsv k4 = pendsv k"
    using f stable_trans [OF k3(3) k4(4)] same_clock_trans [OF k3(4) k4(5)] k3(5) k4(6)
    by (simp_all add: stable_def same_clock_def list_set_value_def)
  have w: "waiting e' k4 = (if e' = e then remove1 (EventItem t) (waiting e k) else waiting e' k)" for e'
  proof -
    have "StateItem t \<notin> set (waiting e' k1)"
      using typed_slot [OF kinv_parts(2) [OF k1(6)], of "StateItem t" "EventList e'"] by auto
    then show ?thesis
      using k3(8) [of "EventList e'"] k1(3) by (simp add: k4(3) remove1_idem list_set_value_def set_value_def)
  qed
  have "distinct (waiting e k)"
    using lists_okD(2) [OF kinv_parts(1) [OF kernel_okD(2) [OF assms(1)]]] .
  then have "remove1 (EventItem t) (waiting e k) = filter (\<lambda>i. i \<notin> {EventItem t}) (waiting e k)"
    by (simp add: distinct_remove1_removeAll removeAll_filter_not_eq conj_commute) (metis (mono_tags))
  then have "frees e v {EventItem t} k k4"
    using st w r3 by (auto simp: frees_def k4(3) k3(6,7) k1(4,5) list_set_value_def set_value_def is_ready_def)
  with run k4(2) show ?thesis by blast
qed

text \<open>The loop of \<open>xEventGroupSetBits\<close> ends, and unblocks exactly the tasks whose condition holds.\<close>

abbreviation matching :: "event_bits \<Rightarrow> kernel \<Rightarrow> item \<Rightarrow> bool" where
  "matching bits k i \<equiv> match_found (list_item_value i k) bits"

definition wanted :: "event_bits \<Rightarrow> kernel \<Rightarrow> item list \<Rightarrow> event_bits" where
  "wanted bits k js = foldr (\<lambda>i c. bits_to_clear (list_item_value i k) OR c) (filter (matching bits k) js) 0"

definition first :: "item list \<Rightarrow> item option" where
  "first js = (case js of [] \<Rightarrow> None | i # _ \<Rightarrow> Some i)"

lemma wanted_simps [simp]:
  "wanted bits k [] = 0"
  "wanted bits k (i # js) = (if matching bits k i then bits_to_clear (list_item_value i k) OR wanted bits k js else wanted bits k js)"
  by (simp_all add: wanted_def)

lemma list_next_split:
  assumes "items (klists k) l = pre @ i # post" "i \<notin> set pre"
  shows "list_next l i k = Some (first post)"
proof -
  have "dropWhile (\<lambda>j. j \<noteq> i) (pre @ i # post) = i # post"
    using assms(2) by (induction pre) auto
  then show ?thesis
    by (simp add: list_next_def assms(1) first_def split: list.splits)
qed

lemma waiting_event:
  assumes "kernel_ok k" "i \<in> set (waiting e k)"
  obtains t where "i = EventItem t"
  using typed_slot [OF kinv_parts(2) [OF kernel_okD(2) [OF assms(1)]] assms(2)] by auto

lemma waiting_distinct: "kernel_ok k \<Longrightarrow> distinct (waiting e k)"
  using lists_okD(2) [OF kinv_parts(1) [OF kernel_okD(2)]] .

lemma frees_value: "frees e v us k k' \<Longrightarrow> EventItem t \<notin> us \<Longrightarrow> list_item_value (EventItem t) k' = list_item_value (EventItem t) k"
  by (simp add: frees_def list_item_value_def)

lemma wanted_cong:
  "(\<And>i. i \<in> set js \<Longrightarrow> list_item_value i k' = list_item_value i k) \<Longrightarrow> wanted bits k' js = wanted bits k js"
  by (induction js) simp_all

lemma walk_ok:
  assumes "kernel_ok k" "0 < uxSchedulerSuspended k" "waiting e k = pre @ post"
  shows "\<exists>k'. walk_waiters (EventList e) bits (first post) c k = Some (c OR wanted bits k post, k') \<and> kernel_ok k' \<and>
    frees e (unblocked_value bits) {i \<in> set post. matching bits k i} k k'"
  using assms
proof (induction post arbitrary: pre c k)
  case Nil
  then show ?case
    by (simp add: first_def walk_waiters.simps)
next
  case (Cons i post)
  obtain t where t: "i = EventItem t"
    using waiting_event [OF Cons.prems(1), of i e] Cons.prems(3) by auto
  have d: "distinct (pre @ i # post)"
    using waiting_distinct [OF Cons.prems(1), of e] Cons.prems(3) by simp
  have nx: "list_next (EventList e) i k = Some (first post)"
    using list_next_split [OF Cons.prems(3)] d by simp
  let ?v = "list_item_value i k"
  show ?case
  proof (cases "match_found ?v bits")
    case False
    obtain k' where "walk_waiters (EventList e) bits (first post) c k = Some (c OR wanted bits k post, k')" "kernel_ok k'"
      "frees e (unblocked_value bits) {i \<in> set post. matching bits k i} k k'"
      using Cons.IH [OF Cons.prems(1,2), of "pre @ [i]" c] Cons.prems(3) by auto
    moreover have "{j \<in> set (i # post). matching bits k j} = {j \<in> set post. matching bits k j}"
      using False by auto
    ultimately show ?thesis
      using False nx by (subst walk_waiters.simps) (simp add: first_def)
  next
    case True
    obtain k1 where k1: "vTaskRemoveFromUnorderedEventList i (unat (unblocked_value bits)) k = Some k1" "kernel_ok k1"
      "frees e (unblocked_value bits) {i} k k1"
      using remove_unordered_ok [OF Cons.prems(1,2), of t e] Cons.prems(3) t by auto
    have same: "list_item_value j k1 = list_item_value j k" if "j \<in> set post" for j
    proof -
      obtain u where "j = EventItem u"
        using waiting_event [OF Cons.prems(1), of j e] Cons.prems(3) \<open>j \<in> set post\<close> by auto
      with d that frees_value [OF k1(3), of u] show ?thesis
        by auto
    qed
    have "filter (\<lambda>j. j \<notin> {i}) pre = pre" "filter (\<lambda>j. j \<notin> {i}) post = post"
      using d by (auto intro!: filter_True)
    then have w: "waiting e k1 = pre @ post"
      using k1(3) by (simp add: frees_def Cons.prems(3))
    have s1: "0 < uxSchedulerSuspended k1"
      using k1(3) Cons.prems(2) by (simp add: frees_def stable_def)
    obtain k' where k': "walk_waiters (EventList e) bits (first post) (c OR bits_to_clear ?v) k1 =
        Some ((c OR bits_to_clear ?v) OR wanted bits k1 post, k')" "kernel_ok k'"
      "frees e (unblocked_value bits) {j \<in> set post. matching bits k1 j} k1 k'"
      using Cons.IH [OF k1(2) s1 w] by blast
    have "{i} \<union> {j \<in> set post. matching bits k1 j} = {j \<in> set (i # post). matching bits k j}"
      using True same by auto
    with frees_trans [OF k1(3) k'(3)] have "frees e (unblocked_value bits) {j \<in> set (i # post). matching bits k j} k k'"
      by simp
    moreover have "wanted bits k1 post = wanted bits k post"
      using same by (rule wanted_cong)
    ultimately show ?thesis
      using True nx k1(1) k'(1,2) by (subst walk_waiters.simps) (simp add: first_def unblocked_value_def or.assoc)
  qed
qed

lemma head_first: "head_entry l k = first (items (klists k) l)"
  by (simp add: head_entry_def first_def)

lemma unblock_waiters_ok:
  assumes "kernel_ok k" "0 < uxSchedulerSuspended k"
  shows "\<exists>k'. unblock_waiters (EventList e) k = Some k' \<and> kernel_ok k' \<and> frees e (unblocked_value 0) (set (waiting e k)) k k'"
  using assms
proof (induction "waiting e k" arbitrary: k)
  case Nil
  then show ?case
    by (subst unblock_waiters.simps) (simp flip: Nil.hyps)
next
  case (Cons i js)
  note w = Cons.hyps(2) [symmetric]
  obtain t where t: "i = EventItem t"
    using waiting_event [OF Cons.prems(1), of i e] w by auto
  obtain k1 where k1: "vTaskRemoveFromUnorderedEventList i (unat (unblocked_value 0)) k = Some k1" "kernel_ok k1"
    "frees e (unblocked_value 0) {i} k k1"
    using remove_unordered_ok [OF Cons.prems(1,2), of t e] w t by auto
  have "filter (\<lambda>j. j \<notin> {i}) js = js"
    using waiting_distinct [OF Cons.prems(1), of e] w by (auto intro!: filter_True)
  then have w1: "waiting e k1 = js"
    using k1(3) by (simp add: frees_def w)
  have s1: "0 < uxSchedulerSuspended k1"
    using k1(3) Cons.prems(2) by (simp add: frees_def stable_def)
  obtain k' where k': "unblock_waiters (EventList e) k1 = Some k'" "kernel_ok k'" "frees e (unblocked_value 0) (set js) k1 k'"
    using Cons.hyps(1) [OF w1 [symmetric] k1(2) s1] w1 by auto
  have "frees e (unblocked_value 0) (set (waiting e k)) k k'"
    using frees_trans [OF k1(3) k'(3)] w by simp
  with k1(1) k'(1,2) w show ?case
    by (subst unblock_waiters.simps) (simp add: unblocked_value_def)
qed

section \<open>With the scheduler suspended and resumed\<close>

text \<open>The same effect across \<open>vTaskSuspendAll\<close> and \<open>xTaskResumeAll\<close>, which may only ask for a switch.\<close>

definition unblocks :: "nat \<Rightarrow> event_bits \<Rightarrow> item set \<Rightarrow> kernel \<Rightarrow> kernel \<Rightarrow> bool" where
  "unblocks e v us k k' \<longleftrightarrow>
     waiting e k' = filter (\<lambda>i. i \<notin> us) (waiting e k) \<and> (\<forall>e'. e' \<noteq> e \<longrightarrow> waiting e' k' = waiting e' k) \<and>
     (\<forall>t. event_value t k' = (if EventItem t \<in> us then value_in_use v else event_value t k)) \<and>
     (\<forall>t. EventItem t \<in> us \<longrightarrow> is_ready k' t) \<and> (\<forall>t. is_ready k t \<longrightarrow> is_ready k' t) \<and>
     (\<forall>t. EventItem t \<notin> us \<longrightarrow> container (klists k') (EventItem t) = container (klists k) (EventItem t)) \<and>
     tcbs k' = tcbs k \<and> pxCurrentTCB k' = pxCurrentTCB k \<and> uxSchedulerSuspended k' = uxSchedulerSuspended k \<and>
     xIdleTaskHandle k' = xIdleTaskHandle k"

lemma unblocksD:
  assumes "unblocks e v us k k'"
  shows "waiting e k' = filter (\<lambda>i. i \<notin> us) (waiting e k)" "e' \<noteq> e \<Longrightarrow> waiting e' k' = waiting e' k"
    "EventItem t \<in> us \<Longrightarrow> event_value t k' = value_in_use v" "EventItem t \<notin> us \<Longrightarrow> event_value t k' = event_value t k"
    "EventItem t \<in> us \<Longrightarrow> is_ready k' t" "is_ready k t \<Longrightarrow> is_ready k' t"
    "EventItem t \<notin> us \<Longrightarrow> container (klists k') (EventItem t) = container (klists k) (EventItem t)"
    "tcbs k' = tcbs k" "pxCurrentTCB k' = pxCurrentTCB k" "uxSchedulerSuspended k' = uxSchedulerSuspended k"
    "xIdleTaskHandle k' = xIdleTaskHandle k"
  using assms by (simp_all add: unblocks_def)

lemma resume_freed:
  assumes ok: "kernel_ok k" and run: "runs k" and bound: "uxSchedulerSuspended k + 1 < u32_bound"
    and fr: "frees e v us (vTaskSuspendAll k) k1" and ok1: "kernel_ok k1"
  shows "\<exists>y k2. xTaskResumeAll k1 = Some (y, k2) \<and> kernel_ok k2 \<and> unblocks e v us k k2"
proof -
  have s: "uxSchedulerSuspended k1 = uxSchedulerSuspended k + 1" "tcbs k1 = tcbs k" "xPendedTicks k1 = xPendedTicks k"
    "pxCurrentTCB k1 = pxCurrentTCB k" "xIdleTaskHandle k1 = xIdleTaskHandle k" "uxCurrentNumberOfTasks k1 = uxCurrentNumberOfTasks k"
    using fr bound by (simp_all add: frees_def stable_def vTaskSuspendAll_def add32_exact)
  obtain y k2 where k2: "xTaskResumeAll k1 = Some (y, k2)" "kernel_ok k2"
    using step_resume_all [OF ok1] s(1) by auto
  have "klists k2 = klists k1 \<and> tcbs k2 = tcbs k1 \<and> pxCurrentTCB k2 = pxCurrentTCB k1 \<and>
    uxSchedulerSuspended k2 = uxSchedulerSuspended k \<and> xIdleTaskHandle k2 = xIdleTaskHandle k1"
  proof (cases "uxSchedulerSuspended k = 0")
    case False
    with k2(1) s(1) show ?thesis
      by (simp add: xTaskResumeAll_def Let_def) (elim conjE, hypsubst, simp)
  next
    case True
    have "items (klists k) PendingReady = []" "xPendedTicks k = 0"
      using ok True by (simp_all add: kernel_ok_def)
    then have none: "container (klists k) (EventItem t) \<noteq> Some PendingReady" for t
      using pending_nil_iff [OF kernel_okD(2) [OF ok]] by simp
    have "container (klists k1) (EventItem t) \<noteq> Some PendingReady" for t
      using none [of t] fr by (cases "EventItem t \<in> us") (simp_all add: frees_def vTaskSuspendAll_def)
    then have pr: "items (klists k1) PendingReady = []"
      using pending_nil_iff [OF kernel_okD(2) [OF ok1]] by simp
    have n: "0 < uxCurrentNumberOfTasks k1"
      using schedD(5) [OF kernel_okD(1) [OF ok1]] .
    have "resume_pending False (k1\<lparr>uxSchedulerSuspended := 0\<rparr>) = Some (False, k1\<lparr>uxSchedulerSuspended := 0\<rparr>)"
      using pr by (subst resume_pending.simps) simp
    then have "k2 = (if xYieldPending k1 then portYIELD_WITHIN_API (k1\<lparr>uxSchedulerSuspended := 0\<rparr>) else k1\<lparr>uxSchedulerSuspended := 0\<rparr>)"
      using k2(1) n s(1,3) True \<open>xPendedTicks k = 0\<close> by (simp add: xTaskResumeAll_def Let_def split: if_splits)
    with True show ?thesis
      by (simp add: portYIELD_WITHIN_API_def)
  qed
  moreover have "is_ready k1 t" if "is_ready k t" for t
    using fr that by (cases "EventItem t \<in> us") (auto simp: frees_def is_ready_def vTaskSuspendAll_def)
  moreover have "event_value t (vTaskSuspendAll k) = event_value t k" for t
    by (simp add: vTaskSuspendAll_def)
  ultimately have "unblocks e v us k k2"
    using fr s unfolding unblocks_def frees_def by (simp add: is_ready_def vTaskSuspendAll_def)
  with k2 show ?thesis by blast
qed

text \<open>The locked part of \<open>xEventGroupSetBits\<close>.\<close>

abbreviation satisfied :: "addr \<Rightarrow> event_bits \<Rightarrow> kernel \<Rightarrow> item set" where
  "satisfied g bits k \<equiv> {i \<in> set (waiting (g + 4) k). matching bits k i}"

lemma set_locked_ok:
  fixes w :: eworld and s :: event_bits
  assumes ok: "kernel_ok (sched_state w)" and run: "runs (sched_state w)" and bound: "uxSchedulerSuspended (sched_state w) + 1 < u32_bound"
    and G: "groups w g = Some G"
  defines "k \<equiv> sched_state w" and "bits \<equiv> uxEventBits G OR s"
  shows "\<exists>k'. set_bits_locked g s w =
      Some ((set_group g (G\<lparr>uxEventBits := bits AND NOT (wanted bits k (waiting (g + 4) k))\<rparr>) w)\<lparr>sched_state := k'\<rparr>) \<and>
    kernel_ok k' \<and> unblocks (g + 4) (unblocked_value bits) (satisfied g bits k) k k'"
proof -
  let ?k = "vTaskSuspendAll k"
  have ok0: "kernel_ok ?k" "0 < uxSchedulerSuspended ?k"
    using step_suspend_all [OF ok run bound] bound by (simp_all add: k_def vTaskSuspendAll_def add32_exact)
  have same: "klists ?k = klists k" "list_item_value i ?k = list_item_value i k" for i
    by (simp_all add: vTaskSuspendAll_def list_item_value_def)
  obtain k1 where k1: "walk_waiters (EventList (g + 4)) bits (first (waiting (g + 4) ?k)) 0 ?k = Some (0 OR wanted bits ?k (waiting (g + 4) ?k), k1)"
    "kernel_ok k1" "frees (g + 4) (unblocked_value bits) {i \<in> set (waiting (g + 4) ?k). matching bits ?k i} ?k k1"
    using walk_ok [OF ok0, of "g + 4" "[]" "waiting (g + 4) ?k" bits 0] by auto
  have fr: "frees (g + 4) (unblocked_value bits) (satisfied g bits k) (vTaskSuspendAll k) k1"
    using k1(3) by (simp add: same)
  obtain y k2 where k2: "xTaskResumeAll k1 = Some (y, k2)" "kernel_ok k2"
    "unblocks (g + 4) (unblocked_value bits) (satisfied g bits k) k k2"
    using resume_freed [OF ok run bound, folded k_def, OF fr k1(2)] by blast
  have w: "wanted bits ?k (waiting (g + 4) ?k) = wanted bits k (waiting (g + 4) k)"
    by (simp add: same wanted_def)
  have "set_bits_locked g s w =
      Some ((set_group g (G\<lparr>uxEventBits := bits AND NOT (wanted bits k (waiting (g + 4) k))\<rparr>) w)\<lparr>sched_state := k2\<rparr>)"
    using k1(1) k2(1) w by (simp add: set_bits_locked_def G Let_def xTasksWaitingForBits_def head_first flip: k_def bits_def)
  with k2 show ?thesis by blast
qed

text \<open>The locked part of \<open>vEventGroupDelete\<close>.\<close>

lemma delete_locked_ok:
  assumes ok: "kernel_ok k" and run: "runs k" and bound: "uxSchedulerSuspended k + 1 < u32_bound"
  shows "\<exists>k1 y k2. unblock_waiters (EventList e) (vTaskSuspendAll k) = Some k1 \<and> xTaskResumeAll k1 = Some (y, k2) \<and>
    kernel_ok k2 \<and> unblocks e (unblocked_value 0) (set (waiting e k)) k k2"
proof -
  let ?k = "vTaskSuspendAll k"
  have ok0: "kernel_ok ?k" "0 < uxSchedulerSuspended ?k"
    using step_suspend_all [OF ok run bound] bound by (simp_all add: vTaskSuspendAll_def add32_exact)
  have "waiting e ?k = waiting e k"
    by (simp add: vTaskSuspendAll_def)
  then obtain k1 where k1: "unblock_waiters (EventList e) ?k = Some k1" "kernel_ok k1"
    "frees e (unblocked_value 0) (set (waiting e k)) ?k k1"
    using unblock_waiters_ok [OF ok0, of e] by auto
  with resume_freed [OF ok run bound k1(3,2)] show ?thesis
    by blast
qed

section \<open>Blocking on a group\<close>

definition can_block :: "kernel \<Rightarrow> bool" where
  "can_block k \<longleftrightarrow>
     runs k \<and> uxSchedulerSuspended k = 0 \<and> pxCurrentTCB k \<noteq> xIdleTaskHandle k \<and>
     (case tcbs k (pxCurrentTCB k) of None \<Rightarrow> False | Some b \<Rightarrow> ucNotifyState b \<noteq> Waiting)"

text \<open>The running task goes onto the list of the group, and the scheduler is resumed.\<close>

lemma place_ok:
  assumes "kernel_ok k" "runs k" "uxSchedulerSuspended k = 1" "pxCurrentTCB k \<noteq> xIdleTaskHandle k"
    "tcbs k (pxCurrentTCB k) = Some b" "ucNotifyState b \<noteq> Waiting" "container (klists k) (EventItem (pxCurrentTCB k)) = None"
    "0 < n" "n < u32_bound"
  shows "\<exists>k1 y k2. vTaskPlaceOnUnorderedEventList (EventList e) (unat v) n k = Some k1 \<and> xTaskResumeAll k1 = Some (y, k2) \<and>
    kernel_ok (if y then k2 else portYIELD_WITHIN_API k2) \<and>
    event_value (pxCurrentTCB k) k2 = value_in_use v \<and> keeps {e} {pxCurrentTCB k} k k2 \<and>
    set (waiting e k2) \<subseteq> insert (EventItem (pxCurrentTCB k)) (set (waiting e k))"
proof -
  let ?t = "pxCurrentTCB k"
  let ?k0 = "list_set_value (EventItem ?t) (value_in_use v) k"
  have k0: "kernel_ok ?k0" "pxCurrentTCB ?k0 = ?t" "tcbs ?k0 = tcbs k" "xIdleTaskHandle ?k0 = xIdleTaskHandle k"
    "items (klists ?k0) = items (klists k)" "container (klists ?k0) = container (klists k)" "uxSchedulerSuspended ?k0 = 1"
    using kernel_ok_event_value [OF assms(1)] assms(3) by (simp_all add: list_set_value_def set_value_def)
  note S = kernel_okD [OF k0(1)]
  let ?k1 = "?k0\<lparr>klists := insert_end (EventList e) (EventItem ?t) (klists ?k0)\<rparr>"
  have k1: "list_insert_end (EventList e) (EventItem ?t) ?k0 = Some ?k1" "kinv {} {} (Suc (xTickCount ?k0)) ?k1"
    using kinv_insert_event(1,2) [OF S(2) _ _, of ?t "EventList e" e] assms(5,7) k0(3,6) by simp_all
  have b1: "tcbs ?k1 (pxCurrentTCB ?k1) = Some b" "is_ready ?k1 (pxCurrentTCB ?k1)"
    using assms(2,5) k0(2,3,6) by (simp_all add: is_ready_def)
  have inv1: "kinv {} {} (Suc (xTickCount ?k1)) ?k1" "xTickCount ?k1 < u32_bound"
    using k1(2) S(3) by simp_all
  have "\<exists>k2. prvAddCurrentTaskToDelayedList n True ?k1 = Some k2 \<and> kinv {} {} (Suc (xTickCount k2)) k2 \<and>
    calm ?k1 k2 \<and> same_clock ?k1 k2 \<and> tcbs k2 = (tcbs ?k1)(pxCurrentTCB ?k1 := Some (b\<lparr>ucDelayAborted := False\<rparr>)) \<and>
    \<not> is_ready k2 (pxCurrentTCB ?k1) \<and>
    (\<forall>i. i \<noteq> StateItem (pxCurrentTCB ?k1) \<longrightarrow> container (klists k2) i = container (klists ?k1) i)"
    by (rule add_current_ok [OF inv1 b1 assms(8,9), of True]) blast
  then obtain k2 where k2: "prvAddCurrentTaskToDelayedList n True ?k1 = Some k2" "kinv {} {} (Suc (xTickCount k2)) k2"
    "calm ?k1 k2" "same_clock ?k1 k2" "tcbs k2 = (tcbs ?k1)(pxCurrentTCB ?k1 := Some (b\<lparr>ucDelayAborted := False\<rparr>))"
    "\<not> is_ready k2 (pxCurrentTCB ?k1)"
    "\<And>i. i \<noteq> StateItem (pxCurrentTCB ?k1) \<Longrightarrow> container (klists k2) i = container (klists ?k1) i"
    by blast
  have r: "is_ready k2 u \<longleftrightarrow> is_ready k u \<and> u \<noteq> ?t" for u
    using k2(6) k2(7) [of "StateItem u"] k0(2,6) by (cases "u = ?t") (auto simp: is_ready_def)
  have ce: "container (klists k2) (EventItem u) = (if u = ?t then Some (EventList e) else container (klists k) (EventItem u))" for u
    using k2(7) [of "EventItem u"] k0(6) by (simp add: k0(2))
  have "events_ok k2"
    using kernel_okD(6) [OF assms(1)] assms(6) by (auto simp: events_ok_def r ce k2(5) k0(2,3))
  moreover have "dom (tcbs k2) = dom (tcbs k)"
    using assms(5) by (auto simp: k2(5) k0(2,3))
  ultimately have s2: "sched k2"
    using S(1,3) k2(2-4) assms(4) kernel_okD(5) [OF assms(1)]
    by (simp add: sched_def calm_def same_clock_def r k2(5) k0(2,3,4))
  have "uxSchedulerSuspended k2 = 1"
    using k2(3) k0(7) by (simp add: calm_def)
  from block_and_yield [OF s2 this] obtain y k3 where k3: "xTaskResumeAll k2 = Some (y, k3)"
    "kernel_ok (if y then k3 else portYIELD_WITHIN_API k3)" by blast
  have run: "vTaskPlaceOnUnorderedEventList (EventList e) (unat v) n k = Some k2"
    using k1(1) k2(1) assms(3) k0(2) by (simp add: vTaskPlaceOnUnorderedEventList_def value_in_use_def Let_def)
  have n1: "lists_named ?k1"
    using kernel_ok_named [OF k0(1)] by (simp add: lists_named_def)
  have m: "keeps {e} {?t} k ?k0" "keeps {e} {?t} ?k0 ?k1"
    by (auto simp: keeps_def list_set_value_def set_value_def insert_end_def)
  have w: "set (waiting e ?k1) = insert (EventItem ?t) (set (waiting e k))" "event_value ?t ?k1 = value_in_use v"
    by (simp_all add: k0(5) insert_end_def list_set_value_def set_value_def)
  have m3: "keeps E V ?k1 k3" for E V
    by (rule keeps_trans [OF keeps_delayed [OF k2(1) n1] keeps_resume_all [OF k3(1)]])
  have "\<not> event_value_free ?t ?k1"
    unfolding event_value_free_def w(2) by (rule value_in_use_flag)
  with m3 [of "{}" "{}"] have "event_value ?t k3 = event_value ?t ?k1" "set (waiting e k3) \<subseteq> set (waiting e ?k1)"
    unfolding keeps_def by blast+
  then have "event_value ?t k3 = value_in_use v" "set (waiting e k3) \<subseteq> insert (EventItem ?t) (set (waiting e k))"
    unfolding w .
  moreover have "keeps {e} {?t} k k3"
    by (rule keeps_trans [OF keeps_trans [OF m] m3])
  ultimately show ?thesis
    using run k3 by blast
qed

end
