(* ===== verification/EventHistory.thy ===== *)
theory EventHistory
  imports EventWalk
begin

text \<open>
  Histories of tasks that share event groups. A machine is the world of kernel and groups with, for
  every task, the call it is in and the part of it that comes next. \<open>estep\<close> runs one event: the
  start of a call, the next part of the running task's call, clearing bits, or another operation
  of the kernel; \<open>eok\<close> is what callers must see to, in particular that a group is not used after
  it was deleted. The invariant \<open>einv\<close> says that no task waits for bits that are set, and what the
  event item of a task that has waited holds.
\<close>

section \<open>Machines\<close>

datatype ecall =
    SetBits addr event_bits | Sync addr event_bits event_bits nat
  | WaitBits addr event_bits bool bool nat | DeleteGroup addr

fun group_of :: "ecall \<Rightarrow> addr" where
  "group_of (SetBits g s) = g"
| "group_of (Sync g s b n) = g"
| "group_of (WaitBits g b clear all n) = g"
| "group_of (DeleteGroup g) = g"

text \<open>The bits a call waits for, whether it clears them and whether it needs them all.\<close>

fun wait_of :: "ecall \<Rightarrow> (event_bits \<times> bool \<times> bool) option" where
  "wait_of (Sync g s b n) = Some (b, True, True)"
| "wait_of (WaitBits g b clear all n) = Some (b, clear, all)"
| "wait_of _ = None"

fun ecall_part :: "ecall \<Rightarrow> epc \<Rightarrow> eworld \<Rightarrow> (enext \<times> eworld) option" where
  "ecall_part (SetBits g s) pc w = xEventGroupSetBits g s pc w"
| "ecall_part (Sync g s b n) pc w = xEventGroupSync g s b n pc w"
| "ecall_part (WaitBits g b clear all n) pc w = xEventGroupWaitBits g b clear all n pc w"
| "ecall_part (DeleteGroup g) pc w = vEventGroupDelete g pc w"

record emachine =
  eworld_of :: eworld
  ecalls :: "tid \<Rightarrow> (ecall \<times> epc) option"

abbreviation ekernel :: "emachine \<Rightarrow> kernel" where
  "ekernel M \<equiv> sched_state (eworld_of M)"

abbreviation egroups :: "emachine \<Rightarrow> addr \<Rightarrow> EventGroup option" where
  "egroups M \<equiv> groups (eworld_of M)"

abbreviation running :: "emachine \<Rightarrow> tid" where
  "running M \<equiv> pxCurrentTCB (ekernel M)"

datatype eevent = EStart ecall | ENext | EClear addr event_bits | EKernel kop

text \<open>An event may return the result of a call.\<close>

fun estep :: "eevent \<Rightarrow> emachine \<Rightarrow> (eresult option \<times> emachine) option" where
  "estep (EStart c) M =
     (if ecalls M (running M) = None
      then Some (None, M\<lparr>ecalls := (ecalls M)(running M := Some (c, Enter))\<rparr>) else None)"
| "estep ENext M =
     (case ecalls M (running M) of
        None \<Rightarrow> None
      | Some (c, pc) \<Rightarrow>
          do { (r, w) \<leftarrow> ecall_part c pc (eworld_of M);
               Some (case r of Inl _ \<Rightarrow> None | Inr x \<Rightarrow> Some x,
                 M\<lparr>eworld_of := w, ecalls := (ecalls M)(running M :=
                   (case r of Inl pc \<Rightarrow> Some (c, pc) | Inr _ \<Rightarrow> None))\<rparr>) })"
| "estep (EClear g b) M =
     (if ecalls M (running M) = None
      then do { (x, w) \<leftarrow> xEventGroupClearBits g b (eworld_of M); Some (Some (Bits x), M\<lparr>eworld_of := w\<rparr>) } else None)"
| "estep (EKernel a) M =
     map_option (\<lambda>k. (None, M\<lparr>eworld_of := (eworld_of M)\<lparr>sched_state := k\<rparr>\<rparr>)) (kexec a (ekernel M))"

text \<open>
  The callers' part. Bits leave the control byte alone, a wait is for some bit, the idle task does
  not wait, nobody waits with the scheduler suspended; the group exists when a part looks at it.
\<close>

fun call_args :: "ecall \<Rightarrow> bool" where
  "call_args (SetBits g s) \<longleftrightarrow> g \<noteq> 0 \<and> no_control s"
| "call_args (Sync g s b n) \<longleftrightarrow> g \<noteq> 0 \<and> no_control s \<and> no_control b \<and> b \<noteq> 0 \<and> n < u32_bound"
| "call_args (WaitBits g b clear all n) \<longleftrightarrow> g \<noteq> 0 \<and> no_control b \<and> b \<noteq> 0 \<and> n < u32_bound"
| "call_args (DeleteGroup g) \<longleftrightarrow> g \<noteq> 0"

fun blocking_time :: "ecall \<Rightarrow> nat" where
  "blocking_time (Sync g s b n) = n"
| "blocking_time (WaitBits g b clear all n) = n"
| "blocking_time _ = 0"

fun next_ok :: "ecall \<Rightarrow> epc \<Rightarrow> eworld \<Rightarrow> bool" where
  "next_ok c Enter w \<longleftrightarrow> call_args c \<and> (blocking_time c \<noteq> 0 \<longrightarrow> can_block (sched_state w))"
| "next_ok c Locked w \<longleftrightarrow>
     groups w (group_of c) \<noteq> None \<and> uxSchedulerSuspended (sched_state w) + 2 < u32_bound \<and>
     (blocking_time c \<noteq> 0 \<longrightarrow> can_block (sched_state w))"
| "next_ok c Woken w \<longleftrightarrow> True"
| "next_ok c FreeMemory w \<longleftrightarrow>
     vPortFree (group_of c) (memory w) \<noteq> None \<and> uxSchedulerSuspended (sched_state w) + 2 < u32_bound"
| "next_ok c _ w \<longleftrightarrow> groups w (group_of c) \<noteq> None"

fun by_interrupt :: "kop \<Rightarrow> bool" where
  "by_interrupt SysTick \<longleftrightarrow> True"
| "by_interrupt (PendSV now) \<longleftrightarrow> True"
| "by_interrupt (ResumeTaskFromISR t) \<longleftrightarrow> True"
| "by_interrupt (EventOccurs e) \<longleftrightarrow> True"
| "by_interrupt (NotifyFromISR t v a) \<longleftrightarrow> True"
| "by_interrupt (GiveFromISR t) \<longleftrightarrow> True"
| "by_interrupt _ \<longleftrightarrow> False"

fun own_list :: "kop \<Rightarrow> emachine \<Rightarrow> bool" where
  "own_list (WaitOnEvent e n) M \<longleftrightarrow> e < 4 \<or> egroups M (e - 4) = None"
| "own_list _ M \<longleftrightarrow> True"

fun eok :: "eevent \<Rightarrow> emachine \<Rightarrow> bool" where
  "eok (EStart c) M \<longleftrightarrow> runs (ekernel M) \<and> ecalls M (running M) = None"
| "eok ENext M \<longleftrightarrow>
     runs (ekernel M) \<and> (case ecalls M (running M) of None \<Rightarrow> False | Some (c, pc) \<Rightarrow> next_ok c pc (eworld_of M))"
| "eok (EClear g b) M \<longleftrightarrow>
     runs (ekernel M) \<and> ecalls M (running M) = None \<and> g \<noteq> 0 \<and> no_control b \<and> egroups M g \<noteq> None"
| "eok (EKernel a) M \<longleftrightarrow>
     enabled a (ekernel M) \<and> (by_interrupt a \<or> ecalls M (running M) = None) \<and> own_list a M"

inductive ereach :: "emachine \<Rightarrow> emachine \<Rightarrow> bool" for M0 where
  start: "ereach M0 M0"
| step: "ereach M0 M \<Longrightarrow> eok e M \<Longrightarrow> estep e M = Some (r, M') \<Longrightarrow> ereach M0 M'"

section \<open>The invariant\<close>

definition gone :: "addr \<Rightarrow> emachine \<Rightarrow> bool" where
  "gone g M \<longleftrightarrow> egroups M g = None \<or> (\<exists>t. ecalls M t = Some (DeleteGroup g, FreeMemory))"

text \<open>A task on the list of a group: it waits there, and not for bits that are set.\<close>

definition waiter_ok :: "emachine \<Rightarrow> addr \<Rightarrow> EventGroup \<Rightarrow> tid \<Rightarrow> bool" where
  "waiter_ok M g G t \<longleftrightarrow>
     (\<exists>c b clear all. ecalls M t = Some (c, Woken) \<and> group_of c = g \<and> wait_of c = Some (b, clear, all) \<and>
        \<not> prvTestWaitCondition (uxEventBits G) b all)"

text \<open>A task that waits or has waited, by the value of its event item: still as placed, or unblocked with some bits.\<close>

definition still_waits :: "kernel \<Rightarrow> tid \<Rightarrow> addr \<Rightarrow> event_bits \<times> bool \<times> bool \<Rightarrow> bool" where
  "still_waits k t g = (\<lambda>(b, clear, all).
     event_value t k = value_in_use (wait_value b clear all) \<and> (\<forall>e. EventItem t \<in> set (waiting e k) \<longrightarrow> e = g + 4))"

definition was_woken :: "emachine \<Rightarrow> tid \<Rightarrow> addr \<Rightarrow> event_bits \<times> bool \<times> bool \<Rightarrow> bool" where
  "was_woken M t g = (\<lambda>(b, clear, all).
     (\<forall>e. EventItem t \<notin> set (waiting e (ekernel M))) \<and>
     (\<exists>v. event_value t (ekernel M) = value_in_use (unblocked_value v) \<and> no_control v \<and>
        (prvTestWaitCondition v b all \<or> v = 0 \<and> gone g M)))"

fun fits :: "ecall \<Rightarrow> epc \<Rightarrow> bool" where
  "fits (SetBits g s) pc \<longleftrightarrow> pc \<in> {Enter, Locked, ReadBits}"
| "fits (DeleteGroup g) pc \<longleftrightarrow> pc \<in> {Enter, Locked, FreeMemory}"
| "fits _ pc \<longleftrightarrow> pc \<in> {Enter, Locked, Woken, Expired}"

lemma fits_enter [simp]: "fits c Enter" "fits c Locked"
  by (cases c; simp)+

definition call_state :: "emachine \<Rightarrow> tid \<Rightarrow> ecall \<Rightarrow> epc \<Rightarrow> bool" where
  "call_state M t c pc \<longleftrightarrow>
     live_task t (ekernel M) \<and> fits c pc \<and> (pc \<noteq> Enter \<longrightarrow> call_args c) \<and>
     (pc = Woken \<longrightarrow> (\<exists>x. wait_of c = Some x \<and> (still_waits (ekernel M) t (group_of c) x \<or> was_woken M t (group_of c) x)))"

definition einv :: "emachine \<Rightarrow> bool" where
  "einv M \<longleftrightarrow>
     kernel_ok (ekernel M) \<and>
     (\<forall>g G. egroups M g = Some G \<longrightarrow> no_control (uxEventBits G) \<and>
        (\<forall>t. EventItem t \<in> set (waiting (g + 4) (ekernel M)) \<longrightarrow> waiter_ok M g G t)) \<and>
     (\<forall>t c pc. ecalls M t = Some (c, pc) \<longrightarrow> call_state M t c pc)"

lemma einvD:
  assumes "einv M"
  shows "kernel_ok (ekernel M)" "egroups M g = Some G \<Longrightarrow> no_control (uxEventBits G)"
    "egroups M g = Some G \<Longrightarrow> EventItem t \<in> set (waiting (g + 4) (ekernel M)) \<Longrightarrow> waiter_ok M g G t"
    "ecalls M t = Some (c, pc) \<Longrightarrow> call_state M t c pc"
  using assms by (auto simp: einv_def)

lemma on_list_value:
  assumes "einv M" "ecalls M t = Some (c, Woken)" "wait_of c = Some (b, clear, all)" "EventItem t \<in> set (waiting e (ekernel M))"
  shows "event_value t (ekernel M) = value_in_use (wait_value b clear all)" "e = group_of c + 4" "no_control b"
proof -
  have s: "call_state M t c Woken"
    using einvD(4) [OF assms(1,2)] .
  then show "event_value t (ekernel M) = value_in_use (wait_value b clear all)" "e = group_of c + 4"
    using assms(3,4) by (auto simp: call_state_def still_waits_def was_woken_def)
  from s have "call_args c"
    by (simp add: call_state_def)
  then show "no_control b"
    using assms(3) by (cases c) auto
qed

lemma woken_value_used:
  assumes "call_state M t c Woken"
  shows "\<not> event_value_free t (ekernel M)"
  using assms value_in_use_flag by (auto simp: call_state_def still_waits_def was_woken_def event_value_free_def)

text \<open>
  A step of the task \<open>t0\<close>, which leaves it in the state \<open>x\<close>: \<open>U\<close> are the tasks it unblocks with the
  value \<open>v\<close>. Other tasks keep the values of their event items, and groups may only lose bits that
  some task on their list waits for.
\<close>

lemma einv_step:
  fixes M :: emachine and w' :: eworld and t0 :: tid and x :: "(ecall \<times> epc) option"
  defines "k \<equiv> ekernel M" and "k' \<equiv> sched_state w'" and "M' \<equiv> M\<lparr>eworld_of := w', ecalls := (ecalls M)(t0 := x)\<rparr>"
  assumes inv: "einv M" and ok: "kernel_ok k'" and live: "dom (tcbs k) \<subseteq> dom (tcbs k')"
    and members: "\<And>e t. t \<noteq> t0 \<Longrightarrow> EventItem t \<in> set (waiting e k') \<Longrightarrow>
      ecalls M t \<noteq> None \<or> (\<exists>g. e = g + 4 \<and> groups w' g \<noteq> None) \<Longrightarrow> EventItem t \<in> set (waiting e k) \<and> EventItem t \<notin> U"
    and same_value: "\<And>t. t \<noteq> t0 \<Longrightarrow> ecalls M t \<noteq> None \<Longrightarrow> EventItem t \<notin> U \<Longrightarrow> \<not> event_value_free t k \<Longrightarrow>
      event_value t k' = event_value t k"
    and freed: "\<And>t. EventItem t \<in> U \<Longrightarrow> event_value t k' = value_in_use (unblocked_value v)" "no_control v"
      "\<And>t c b clear all. EventItem t \<in> U \<Longrightarrow> t \<noteq> t0 \<Longrightarrow> ecalls M t = Some (c, Woken) \<Longrightarrow> wait_of c = Some (b, clear, all) \<Longrightarrow>
        prvTestWaitCondition v b all \<or> v = 0 \<and> gone (group_of c) M'"
    and same_group: "\<And>g G'. groups w' g = Some G' \<Longrightarrow> no_control (uxEventBits G') \<and> (\<exists>G. egroups M g = Some G \<and>
      (\<forall>t c b clear all. EventItem t \<in> set (waiting (g + 4) k') \<longrightarrow> t \<noteq> t0 \<longrightarrow> ecalls M t = Some (c, Woken) \<longrightarrow>
        wait_of c = Some (b, clear, all) \<longrightarrow> group_of c = g \<longrightarrow> \<not> prvTestWaitCondition (uxEventBits G) b all \<longrightarrow>
        \<not> prvTestWaitCondition (uxEventBits G') b all))"
    and stays: "\<And>g. gone g M \<Longrightarrow> gone g M'"
    and own: "\<And>c pc. x = Some (c, pc) \<Longrightarrow> call_state M' t0 c pc"
      "\<And>g G'. groups w' g = Some G' \<Longrightarrow> EventItem t0 \<in> set (waiting (g + 4) k') \<Longrightarrow> waiter_ok M' g G' t0"
  shows "einv M'"
  unfolding einv_def
proof (intro conjI allI impI)
  have M': "ekernel M' = k'" "egroups M' = groups w'" "\<And>t. t \<noteq> t0 \<Longrightarrow> ecalls M' t = ecalls M t" "ecalls M' t0 = x"
    by (simp_all add: M'_def k'_def)
  show "kernel_ok (ekernel M')"
    using ok by (simp add: M'(1))
  fix g G'
  assume g: "egroups M' g = Some G'"
  obtain G where G: "no_control (uxEventBits G')" "egroups M g = Some G"
    "\<And>t c b clear all. EventItem t \<in> set (waiting (g + 4) k') \<Longrightarrow> t \<noteq> t0 \<Longrightarrow> ecalls M t = Some (c, Woken) \<Longrightarrow>
      wait_of c = Some (b, clear, all) \<Longrightarrow> group_of c = g \<Longrightarrow> \<not> prvTestWaitCondition (uxEventBits G) b all \<Longrightarrow>
      \<not> prvTestWaitCondition (uxEventBits G') b all"
    using same_group [of g G'] g by (auto simp: M'(2))
  from G(1) show "no_control (uxEventBits G')" .
  fix t
  assume t: "EventItem t \<in> set (waiting (g + 4) (ekernel M'))"
  show "waiter_ok M' g G' t"
  proof (cases "t = t0")
    case True
    with own(2) g t show ?thesis
      by (simp add: M'(1,2))
  next
    case False
    have "EventItem t \<in> set (waiting (g + 4) k)"
      using members [OF False, of "g + 4"] t g by (auto simp: M'(1,2))
    then have "waiter_ok M g G t"
      using einvD(3) [OF inv G(2)] by (simp add: k_def)
    then show ?thesis
      using G(3) [of t] t False by (auto simp: waiter_ok_def M'(1,3))
  qed
next
  have M': "ekernel M' = k'" "\<And>t. t \<noteq> t0 \<Longrightarrow> ecalls M' t = ecalls M t" "ecalls M' t0 = x"
    by (simp_all add: M'_def k'_def)
  fix t c pc
  assume t: "ecalls M' t = Some (c, pc)"
  show "call_state M' t c pc"
  proof (cases "t = t0")
    case True
    with own(1) t show ?thesis
      by (simp add: M'(3))
  next
    case False
    have call: "ecalls M t = Some (c, pc)"
      using t False by (simp add: M'(2))
    then have s: "call_state M t c pc"
      by (rule einvD(4) [OF inv])
    have on: "EventItem t \<in> set (waiting e k) \<and> EventItem t \<notin> U" if "EventItem t \<in> set (waiting e k')" for e
      using members [OF False that] call by simp
    have "\<exists>x. wait_of c = Some x \<and> (still_waits k' t (group_of c) x \<or> was_woken M' t (group_of c) x)" if pc: "pc = Woken"
    proof -
      obtain y where y: "wait_of c = Some y" "still_waits k t (group_of c) y \<or> was_woken M t (group_of c) y"
        using s pc by (auto simp: call_state_def k_def)
      obtain b clear all where bca: "y = (b, clear, all)"
        by (cases y)
      have used: "\<not> event_value_free t k"
        using woken_value_used s pc by (simp add: k_def)
      show ?thesis
      proof (cases "EventItem t \<in> U")
        case True
        have "\<forall>e. EventItem t \<notin> set (waiting e k')"
          using on True by blast
        moreover have "prvTestWaitCondition v b all \<or> v = 0 \<and> gone (group_of c) M'"
          using freed(3) [OF True False] call y(1) bca pc by simp
        ultimately have "was_woken M' t (group_of c) y"
          using freed(1) [OF True] freed(2) by (auto simp: was_woken_def bca M'(1))
        with y(1) show ?thesis by blast
      next
        case F: False
        have same: "event_value t k' = event_value t k"
          using same_value [OF False _ F used] call by simp
        have "still_waits k' t (group_of c) y \<or> was_woken M' t (group_of c) y"
          using y(2) on same stays [of "group_of c"] by (auto simp: still_waits_def was_woken_def bca M'(1) k_def)
        with y(1) show ?thesis by blast
      qed
    qed
    then show ?thesis
      using s live by (auto simp: call_state_def M'(1) k_def)
  qed
qed

section \<open>Operations of the kernel\<close>

lemma no_call_null: "einv M \<Longrightarrow> ecalls M 0 = None"
  using live_not_null [OF einvD(1), of M 0] einvD(4) [of M 0] by (cases "ecalls M 0") (auto simp: call_state_def)

lemma kernel_members:
  assumes "kernel_ok k" "enabled a k" "kexec a k = Some k'" "EventItem t \<in> set (waiting e k')"
  shows "EventItem t \<in> set (waiting e k) \<or> (\<exists>n. a = WaitOnEvent e n) \<and> t = pxCurrentTCB k"
proof (cases "e \<in> grows a")
  case True
  then obtain n where "a = WaitOnEvent e n"
    by (cases a) auto
  with keeps_wait(2) [OF kernel_ok_named [OF assms(1)], of e n k'] assms(3,4) show ?thesis
    by auto
next
  case False
  with kexec_keeps [OF assms(1-3)] assms(4) show ?thesis
    by (auto simp: keeps_def)
qed

lemma kernel_event_ok:
  assumes inv: "einv M" and ok: "eok (EKernel a) M"
  shows "\<exists>M'. estep (EKernel a) M = Some (None, M') \<and> einv M'"
proof -
  have en: "enabled a (ekernel M)" "by_interrupt a \<or> ecalls M (running M) = None" "own_list a M"
    using ok by simp_all
  obtain k' where k': "kexec a (ekernel M) = Some k'" "kernel_ok k'"
    using kexec_ok [OF einvD(1) [OF inv] en(1)] by blast
  note K = kexec_keeps [OF einvD(1) [OF inv] en(1) k'(1)]
  let ?w = "(eworld_of M)\<lparr>sched_state := k'\<rparr>"
  have same: "(ecalls M)(0 := None) = ecalls M"
    using no_call_null [OF inv] by (simp add: fun_upd_idem_iff)
  have not_null: "live_task t (ekernel M) \<Longrightarrow> t \<noteq> 0" for t
    using live_not_null [OF einvD(1) [OF inv]] .
  have null_free: "EventItem 0 \<notin> set (waiting e k')" for e
    using typed_slot [OF kinv_parts(2) [OF kernel_okD(2) [OF k'(2)]], of "EventItem 0" "EventList e"]
      live_not_null [OF k'(2), of 0] by auto
  have "einv (M\<lparr>eworld_of := ?w, ecalls := (ecalls M)(0 := None)\<rparr>)"
  proof (rule einv_step [OF inv, where U = "{}" and v = 0])
    fix e t
    assume t: "EventItem t \<in> set (waiting e (sched_state ?w))" "ecalls M t \<noteq> None \<or> (\<exists>g. e = g + 4 \<and> groups ?w g \<noteq> None)"
    have "\<not> (\<exists>n. a = WaitOnEvent e n \<and> t = running M)"
    proof
      assume "\<exists>n. a = WaitOnEvent e n \<and> t = running M"
      with en(2,3) t(2) show False by auto
    qed
    with kernel_members [OF einvD(1) [OF inv] en(1) k'(1)] t(1)
    show "EventItem t \<in> set (waiting e (ekernel M)) \<and> EventItem t \<notin> {}"
      by auto
  next
    fix t
    assume t: "ecalls M t \<noteq> None" "\<not> event_value_free t (ekernel M)"
    have "t \<notin> revalues a (ekernel M)"
    proof (cases a)
      case (NewTask u s p)
      with en(1) t(1) einvD(4) [OF inv, of t] show ?thesis
        by (auto simp: call_state_def)
    qed (use t(1) en(2) in auto)
    with K t(2) show "event_value t (sched_state ?w) = event_value t (ekernel M)"
      by (simp add: keeps_def)
  next
    fix g G'
    assume "groups ?w g = Some G'"
    then show "no_control (uxEventBits G') \<and> (\<exists>G. egroups M g = Some G \<and>
      (\<forall>t c b clear all. EventItem t \<in> set (waiting (g + 4) (sched_state ?w)) \<longrightarrow> t \<noteq> 0 \<longrightarrow> ecalls M t = Some (c, Woken) \<longrightarrow>
        wait_of c = Some (b, clear, all) \<longrightarrow> group_of c = g \<longrightarrow> \<not> prvTestWaitCondition (uxEventBits G) b all \<longrightarrow>
        \<not> prvTestWaitCondition (uxEventBits G') b all))"
      using einvD(2) [OF inv] by auto
  qed (use k'(2) K keeps_live [OF K] null_free in \<open>auto simp: gone_def keeps_def same\<close>)
  with k'(1) show ?thesis
    by (simp add: same)
qed

section \<open>Parts of the calls\<close>

text \<open>Starting a call, and parts that only move on.\<close>

lemma running_live: "einv M \<Longrightarrow> live_task (running M) (ekernel M)"
  using kernel_okD(4) [OF einvD(1)] by fastforce

lemma running_not_waiting:
  assumes "einv M" "runs (ekernel M)"
  shows "EventItem (running M) \<notin> set (waiting e (ekernel M))"
  using kernel_okD(6) [OF einvD(1) [OF assms(1)]] assms(2) container_items [OF kernel_okD(2) [OF einvD(1) [OF assms(1)]]]
  by (auto simp: events_ok_def)

lemma einv_same_lists:
  assumes "einv M" "kernel_ok k'" "klists k' = klists (ekernel M)" "tcbs k' = tcbs (ekernel M)"
  shows "einv (M\<lparr>eworld_of := (eworld_of M)\<lparr>sched_state := k'\<rparr>\<rparr>)"
  using assms by (simp add: einv_def call_state_def still_waits_def was_woken_def gone_def waiter_ok_def)

lemma runs_members:
  assumes "einv M" "runs (ekernel M)" "keeps {} {} (ekernel M) k'"
  shows "EventItem (running M) \<notin> set (waiting e k')"
  using running_not_waiting [OF assms(1,2), of e] assms(3) by (auto simp: keeps_def)

lemma gone_stays:
  assumes "gone g M" "ecalls M t0 = Some (DeleteGroup g, FreeMemory) \<Longrightarrow> groups w' g = None"
    "egroups M g = None \<Longrightarrow> groups w' g = None"
  shows "gone g (M\<lparr>eworld_of := w', ecalls := (ecalls M)(t0 := x)\<rparr>)"
proof (cases "groups w' g = None")
  case False
  then obtain t where "ecalls M t = Some (DeleteGroup g, FreeMemory)"
    using assms by (auto simp: gone_def)
  moreover from this False assms(2) have "t \<noteq> t0"
    by auto
  ultimately show ?thesis
    unfolding gone_def by (intro disjI2 exI [of _ t]) simp
qed (simp add: gone_def)

text \<open>A part of the running task that adds nothing to a list and only takes bits away.\<close>

lemma calm_part:
  assumes inv: "einv M" and run: "runs (ekernel M)" and k': "kernel_ok (sched_state w')" "keeps {} {} (ekernel M) (sched_state w')"
    and g: "\<And>g G'. groups w' g = Some G' \<Longrightarrow> \<exists>G m. egroups M g = Some G \<and> uxEventBits G' = uxEventBits G AND m"
    and own: "\<And>c pc. x = Some (c, pc) \<Longrightarrow> (pc \<noteq> Enter \<longrightarrow> call_args c) \<and> pc \<noteq> Woken \<and> fits c pc"
    and before: "\<And>g. ecalls M (running M) = Some (DeleteGroup g, FreeMemory) \<Longrightarrow> groups w' g = None"
  shows "einv (M\<lparr>eworld_of := w', ecalls := (ecalls M)(running M := x)\<rparr>)"
proof (rule einv_step [OF inv, where U = "{}" and v = 0])
  fix g G'
  assume "groups w' g = Some G'"
  then obtain G m where G: "egroups M g = Some G" "uxEventBits G' = uxEventBits G AND m"
    using g by blast
  then show "no_control (uxEventBits G') \<and> (\<exists>G. egroups M g = Some G \<and>
    (\<forall>t c b clear all. EventItem t \<in> set (waiting (g + 4) (sched_state w')) \<longrightarrow> t \<noteq> running M \<longrightarrow> ecalls M t = Some (c, Woken) \<longrightarrow>
      wait_of c = Some (b, clear, all) \<longrightarrow> group_of c = g \<longrightarrow> \<not> prvTestWaitCondition (uxEventBits G) b all \<longrightarrow>
      \<not> prvTestWaitCondition (uxEventBits G') b all))"
    using einvD(2) [OF inv G(1)] no_control_and condition_mono by auto
next
  fix g
  assume "gone g M"
  then show "gone g (M\<lparr>eworld_of := w', ecalls := (ecalls M)(running M := x)\<rparr>)"
    by (rule gone_stays) (use g [of g] before in \<open>auto, fastforce\<close>)
next
  fix c pc
  assume "x = Some (c, pc)"
  then show "call_state (M\<lparr>eworld_of := w', ecalls := (ecalls M)(running M := x)\<rparr>) (running M) c pc"
    using own keeps_live [OF k'(2) running_live [OF inv]] by (simp add: call_state_def)
next
  fix g G'
  assume "EventItem (running M) \<in> set (waiting (g + 4) (sched_state w'))"
  then show "waiter_ok (M\<lparr>eworld_of := w', ecalls := (ecalls M)(running M := x)\<rparr>) g G' (running M)"
    using runs_members [OF inv run k'(2)] by simp
qed (use k' keeps_live [OF k'(2)] in \<open>auto simp: keeps_def\<close>)

lemma resume_calm:
  assumes "kernel_ok k" "0 < uxSchedulerSuspended k"
  obtains y k' where "xTaskResumeAll k = Some (y, k')" "kernel_ok k'" "keeps {} {} k k'"
  using step_resume_all [OF assms] keeps_resume_all by blast

text \<open>Setting bits.\<close>

lemma set_locked_part:
  assumes inv: "einv M" and run: "runs (ekernel M)" and bound: "uxSchedulerSuspended (ekernel M) + 1 < u32_bound"
    and G: "egroups M g = Some G" and s: "no_control s"
    and own: "\<And>c pc. x = Some (c, pc) \<Longrightarrow> call_args c \<and> pc \<noteq> Woken \<and> fits c pc"
    and before: "\<And>g. ecalls M (running M) \<noteq> Some (DeleteGroup g, FreeMemory)"
  defines "bits \<equiv> uxEventBits G OR s"
  shows "\<exists>w' m. set_bits_locked g s (eworld_of M) = Some w' \<and>
    einv (M\<lparr>eworld_of := w', ecalls := (ecalls M)(running M := x)\<rparr>) \<and>
    groups w' = (egroups M)(g := Some (G\<lparr>uxEventBits := bits AND m\<rparr>)) \<and> memory w' = memory (eworld_of M) \<and>
    unblocks (g + 4) (unblocked_value bits) (satisfied g bits (ekernel M)) (ekernel M) (sched_state w')"
proof -
  let ?k = "ekernel M" and ?U = "satisfied g bits (ekernel M)"
  obtain k' where k': "set_bits_locked g s (eworld_of M) = Some ((set_group g
      (G\<lparr>uxEventBits := bits AND NOT (wanted bits ?k (waiting (g + 4) ?k))\<rparr>) (eworld_of M))\<lparr>sched_state := k'\<rparr>)"
    "kernel_ok k'" "unblocks (g + 4) (unblocked_value bits) ?U ?k k'"
    using set_locked_ok [OF einvD(1) [OF inv] run bound G, of s] unfolding bits_def by blast
  define w' where "w' = (set_group g
      (G\<lparr>uxEventBits := bits AND NOT (wanted bits ?k (waiting (g + 4) ?k))\<rparr>) (eworld_of M))\<lparr>sched_state := k'\<rparr>"
  have w': "sched_state w' = k'" "memory w' = memory (eworld_of M)"
    "groups w' = (egroups M)(g := Some (G\<lparr>uxEventBits := bits AND NOT (wanted bits ?k (waiting (g + 4) ?k))\<rparr>))"
    by (simp_all add: w'_def set_group_def)
  have nc: "no_control bits"
    using einvD(2) [OF inv G] s by (simp add: bits_def)
  have mem: "EventItem t \<in> set (waiting e ?k) \<and> EventItem t \<notin> ?U" if "EventItem t \<in> set (waiting e k')" for t e
  proof (cases "e = g + 4")
    case True
    with that k'(3) show ?thesis by (auto simp: unblocks_def)
  next
    case False
    with that k'(3) have "EventItem t \<in> set (waiting e ?k)"
      by (simp add: unblocks_def)
    with False show ?thesis
      using lists_ok_apart [OF kinv_parts(1) [OF kernel_okD(2) [OF einvD(1) [OF inv]]]] by fastforce
  qed
  have cond: "matching bits ?k (EventItem t) \<longleftrightarrow> prvTestWaitCondition bits b all"
    if "EventItem t \<in> set (waiting (g + 4) ?k)" "ecalls M t = Some (c, Woken)" "wait_of c = Some (b, clear, all)" for t c b clear all
    using on_list_value [OF inv that(2,3,1)] wait_value_match by (simp add: list_item_value_def)
  have "einv (M\<lparr>eworld_of := w', ecalls := (ecalls M)(running M := x)\<rparr>)"
  proof (rule einv_step [OF inv, where U = ?U and v = bits])
    fix t c b clear all
    assume t: "EventItem t \<in> ?U" "ecalls M t = Some (c, Woken)" "wait_of c = Some (b, clear, all)"
    then have "prvTestWaitCondition bits b all"
      using cond by blast
    then show "prvTestWaitCondition bits b all \<or> bits = 0 \<and> gone (group_of c) (M\<lparr>eworld_of := w', ecalls := (ecalls M)(running M := x)\<rparr>)"
      by simp
  next
    fix g' G'
    assume g': "groups w' g' = Some G'"
    show "no_control (uxEventBits G') \<and> (\<exists>G. egroups M g' = Some G \<and>
      (\<forall>t c b clear all. EventItem t \<in> set (waiting (g' + 4) (sched_state w')) \<longrightarrow> t \<noteq> running M \<longrightarrow> ecalls M t = Some (c, Woken) \<longrightarrow>
        wait_of c = Some (b, clear, all) \<longrightarrow> group_of c = g' \<longrightarrow> \<not> prvTestWaitCondition (uxEventBits G) b all \<longrightarrow>
        \<not> prvTestWaitCondition (uxEventBits G') b all))"
    proof (cases "g' = g")
      case False
      with g' einvD(2) [OF inv] show ?thesis
        by (auto simp: w'(3))
    next
      case True
      have "\<not> prvTestWaitCondition (uxEventBits G') b all"
        if "EventItem t \<in> set (waiting (g + 4) k')" "ecalls M t = Some (c, Woken)" "wait_of c = Some (b, clear, all)" for t c b clear all
      proof -
        have "EventItem t \<in> set (waiting (g + 4) ?k)" "\<not> matching bits ?k (EventItem t)"
          using mem [OF that(1)] by auto
        then have "\<not> prvTestWaitCondition bits b all"
          using cond that(2,3) by blast
        then show ?thesis
          using condition_mono g' True by (auto simp: w'(3))
      qed
      with g' True G no_control_and [OF nc] show ?thesis
        by (auto simp: w'(1,3))
    qed
  next
    fix g'
    assume "gone g' M"
    then show "gone g' (M\<lparr>eworld_of := w', ecalls := (ecalls M)(running M := x)\<rparr>)"
      by (rule gone_stays) (use before G in \<open>auto simp: w'(3)\<close>)
  next
    fix c pc
    assume "x = Some (c, pc)"
    then show "call_state (M\<lparr>eworld_of := w', ecalls := (ecalls M)(running M := x)\<rparr>) (running M) c pc"
      using own running_live [OF inv] k'(3) by (auto simp: call_state_def w'(1) unblocks_def)
  next
    fix g' G'
    assume "EventItem (running M) \<in> set (waiting (g' + 4) (sched_state w'))"
    then show "waiter_ok (M\<lparr>eworld_of := w', ecalls := (ecalls M)(running M := x)\<rparr>) g' G' (running M)"
      using mem running_not_waiting [OF inv run] by (auto simp: w'(1))
  next
    show "EventItem t \<in> set (waiting e ?k) \<and> EventItem t \<notin> ?U" if "EventItem t \<in> set (waiting e (sched_state w'))" for t e
      using mem [of t e] that unfolding w'(1) by blast
    show "event_value t (sched_state w') = value_in_use (unblocked_value bits)" if "EventItem t \<in> ?U" for t
      unfolding w'(1) by (rule unblocksD(3) [OF k'(3) that])
    show "event_value t (sched_state w') = event_value t ?k" if "EventItem t \<notin> ?U" for t
      unfolding w'(1) by (rule unblocksD(4) [OF k'(3) that])
    show "dom (tcbs ?k) \<subseteq> dom (tcbs (sched_state w'))"
      unfolding w'(1) unblocksD(8) [OF k'(3)] ..
  qed (simp_all only: w'(1) k'(2) nc)
  with k'(1,3) w' show ?thesis
    unfolding w'_def [symmetric] by blast
qed

text \<open>Deleting: every waiting task is unblocked with the value 0.\<close>

lemma delete_locked_part:
  assumes inv: "einv M" and run: "runs (ekernel M)" and bound: "uxSchedulerSuspended (ekernel M) + 1 < u32_bound"
    and c: "ecalls M (running M) = Some (DeleteGroup g, Locked)" and g: "g \<noteq> 0" "egroups M g \<noteq> None"
  shows "\<exists>w'. vEventGroupDelete g Locked (eworld_of M) = Some (Inl FreeMemory, w') \<and>
    einv (M\<lparr>eworld_of := w', ecalls := (ecalls M)(running M := Some (DeleteGroup g, FreeMemory))\<rparr>) \<and>
    unblocks (g + 4) (unblocked_value 0) (set (waiting (g + 4) (ekernel M))) (ekernel M) (sched_state w')"
proof -
  let ?k = "ekernel M" and ?U = "set (waiting (g + 4) (ekernel M))" and ?x = "Some (DeleteGroup g, FreeMemory)"
  obtain k1 y k' where k': "unblock_waiters (EventList (g + 4)) (vTaskSuspendAll ?k) = Some k1" "xTaskResumeAll k1 = Some (y, k')"
    "kernel_ok k'" "unblocks (g + 4) (unblocked_value 0) ?U ?k k'"
    using delete_locked_ok [OF einvD(1) [OF inv] run bound] by blast
  define w' where "w' = (eworld_of M)\<lparr>sched_state := k'\<rparr>"
  have w': "sched_state w' = k'" "groups w' = egroups M"
    by (simp_all add: w'_def)
  have run': "vEventGroupDelete g Locked (eworld_of M) = Some (Inl FreeMemory, w')"
    using k'(1,2) g(2) by (auto simp: w'_def xTasksWaitingForBits_def)
  have mem: "EventItem t \<in> set (waiting e ?k) \<and> EventItem t \<notin> ?U" if "EventItem t \<in> set (waiting e k')" for t e
  proof (cases "e = g + 4")
    case True
    with that unblocksD(1) [OF k'(4)] show ?thesis by simp
  next
    case False
    with that unblocksD(2) [OF k'(4)] have "EventItem t \<in> set (waiting e ?k)"
      by simp
    with False show ?thesis
      using lists_ok_apart [OF kinv_parts(1) [OF kernel_okD(2) [OF einvD(1) [OF inv]]]] by fastforce
  qed
  have "einv (M\<lparr>eworld_of := w', ecalls := (ecalls M)(running M := ?x)\<rparr>)"
  proof (rule einv_step [OF inv, where U = ?U and v = 0])
    fix t c b clear all
    assume t: "EventItem t \<in> ?U" "ecalls M t = Some (c, Woken)" "wait_of c = Some (b, clear, all)"
    then have "group_of c = g"
      using on_list_value(2) [OF inv t(2,3)] by fastforce
    then show "prvTestWaitCondition 0 b all \<or> 0 = (0 :: event_bits) \<and>
        gone (group_of c) (M\<lparr>eworld_of := w', ecalls := (ecalls M)(running M := ?x)\<rparr>)"
      by (auto simp: gone_def)
  next
    fix g'
    assume "gone g' M"
    then show "gone g' (M\<lparr>eworld_of := w', ecalls := (ecalls M)(running M := ?x)\<rparr>)"
      by (rule gone_stays) (use c in \<open>simp_all add: w'(2)\<close>)
  next
    fix c pc
    assume "?x = Some (c, pc)"
    then show "call_state (M\<lparr>eworld_of := w', ecalls := (ecalls M)(running M := ?x)\<rparr>) (running M) c pc"
      using running_live [OF inv] g(1) unblocksD(8) [OF k'(4)] by (auto simp: call_state_def w'(1))
  next
    fix g' G'
    assume "EventItem (running M) \<in> set (waiting (g' + 4) (sched_state w'))"
    then show "waiter_ok (M\<lparr>eworld_of := w', ecalls := (ecalls M)(running M := ?x)\<rparr>) g' G' (running M)"
      using mem [of "running M"] running_not_waiting [OF inv run] by (auto simp: w'(1))
  next
    show "EventItem t \<in> set (waiting e ?k) \<and> EventItem t \<notin> ?U" if "EventItem t \<in> set (waiting e (sched_state w'))" for t e
      using mem [of t e] that unfolding w'(1) by blast
    show "event_value t (sched_state w') = value_in_use (unblocked_value 0)" if "EventItem t \<in> ?U" for t
      unfolding w'(1) by (rule unblocksD(3) [OF k'(4) that])
    show "event_value t (sched_state w') = event_value t ?k" if "EventItem t \<notin> ?U" for t
      unfolding w'(1) by (rule unblocksD(4) [OF k'(4) that])
    show "dom (tcbs ?k) \<subseteq> dom (tcbs (sched_state w'))"
      unfolding w'(1) unblocksD(8) [OF k'(4)] ..
    show "no_control 0" by simp
    show "kernel_ok (sched_state w')" using k'(3) by (simp only: w'(1))
  qed (use einvD(2) [OF inv] in \<open>simp add: w'(2)\<close>)
  with run' k'(4) w'(1) show ?thesis
    by metis
qed

text \<open>The task blocks: it is on the list of the group and waits for bits that are not set.\<close>

lemma block_part:
  assumes inv: "einv M" and k: "runs (ekernel M)" "uxSchedulerSuspended (ekernel M) = 1" "running M \<noteq> xIdleTaskHandle (ekernel M)"
      "tcbs (ekernel M) (running M) = Some tb" "ucNotifyState tb \<noteq> Waiting"
      "container (klists (ekernel M)) (EventItem (running M)) = None" "0 < n" "n < u32_bound"
    and G: "egroups M g = Some G" "\<not> prvTestWaitCondition (uxEventBits G) b all"
    and c: "group_of c = g" "wait_of c = Some (b, clear, all)" "call_args c"
    and before: "\<And>g. ecalls M (running M) \<noteq> Some (DeleteGroup g, FreeMemory)"
  shows "\<exists>w'. Option.bind (place_on_group g (wait_value b clear all) n (eworld_of M)) resume_blocked = Some (Inl Woken, w') \<and>
    einv (M\<lparr>eworld_of := w', ecalls := (ecalls M)(running M := Some (c, Woken))\<rparr>)"
proof -
  let ?k = "ekernel M" and ?x = "Some (c, Woken)"
  obtain k1 y k2 where k2: "vTaskPlaceOnUnorderedEventList (EventList (g + 4)) (unat (wait_value b clear all)) n ?k = Some k1"
    "xTaskResumeAll k1 = Some (y, k2)" "kernel_ok (if y then k2 else portYIELD_WITHIN_API k2)"
    "event_value (running M) k2 = value_in_use (wait_value b clear all)" "keeps {g + 4} {running M} ?k k2"
    "set (waiting (g + 4) k2) \<subseteq> insert (EventItem (running M)) (set (waiting (g + 4) ?k))"
    using place_ok [OF einvD(1) [OF inv] k] by blast
  define k' where "k' = (if y then k2 else portYIELD_WITHIN_API k2)"
  have kl: "klists k' = klists k2" "tcbs k' = tcbs k2"
    by (simp_all add: k'_def portYIELD_WITHIN_API_def)
  define w' where "w' = (eworld_of M)\<lparr>sched_state := k'\<rparr>"
  have w': "sched_state w' = k'" "groups w' = egroups M"
    by (simp_all add: w'_def)
  have run': "Option.bind (place_on_group g (wait_value b clear all) n (eworld_of M)) resume_blocked = Some (Inl Woken, w')"
    using k2(1,2) by (simp add: place_on_group_def resume_blocked_def xTasksWaitingForBits_def w'_def k'_def)
  have mem: "EventItem t \<in> set (waiting e ?k)" if "EventItem t \<in> set (waiting e k')" "t \<noteq> running M" for t e
    using that k2(5,6) by (cases "e = g + 4") (auto simp: kl keeps_def)
  have own_list: "e = g + 4" if "EventItem (running M) \<in> set (waiting e k')" for e
    using that k2(5) running_not_waiting [OF inv k(1), of e] by (auto simp: kl keeps_def)
  have "einv (M\<lparr>eworld_of := w', ecalls := (ecalls M)(running M := ?x)\<rparr>)"
  proof (rule einv_step [OF inv, where U = "{}" and v = 0])
    fix g'
    assume "gone g' M"
    then show "gone g' (M\<lparr>eworld_of := w', ecalls := (ecalls M)(running M := ?x)\<rparr>)"
      by (rule gone_stays) (use before in \<open>simp_all add: w'(2)\<close>)
  next
    fix c' pc
    assume "?x = Some (c', pc)"
    then have cp: "c' = c" "pc = Woken"
      by simp_all
    have fc: "fits c Woken"
      using c(2) by (cases c) simp_all
    have "still_waits k' (running M) g (b, clear, all)"
      using own_list k2(4) by (auto simp: still_waits_def kl)
    moreover have "live_task (running M) k'"
      using keeps_live [OF k2(5) running_live [OF inv]] by (simp add: kl)
    ultimately show "call_state (M\<lparr>eworld_of := w', ecalls := (ecalls M)(running M := ?x)\<rparr>) (running M) c' pc"
      using c fc by (simp add: call_state_def w'(1) cp)
  next
    fix g' G'
    assume g': "groups w' g' = Some G'" "EventItem (running M) \<in> set (waiting (g' + 4) (sched_state w'))"
    then have "g' = g"
      using own_list [of "g' + 4"] by (simp add: w'(1))
    with g'(1) G c show "waiter_ok (M\<lparr>eworld_of := w', ecalls := (ecalls M)(running M := ?x)\<rparr>) g' G' (running M)"
      by (simp add: waiter_ok_def w'(2))
  next
    show "EventItem t \<in> set (waiting e ?k) \<and> EventItem t \<notin> {}" if "EventItem t \<in> set (waiting e (sched_state w'))" "t \<noteq> running M" for t e
      using mem that by (simp add: w'(1))
    show "event_value t (sched_state w') = event_value t ?k" if "t \<noteq> running M" "\<not> event_value_free t ?k" for t
      using that k2(5) by (simp add: keeps_def w'(1) kl)
    show "dom (tcbs ?k) \<subseteq> dom (tcbs (sched_state w'))"
      using keeps_dom [OF k2(5)] by (simp add: w'(1) kl)
    show "kernel_ok (sched_state w')"
      using k2(3) by (simp only: w'(1) k'_def)
  qed (use einvD(2) [OF inv] in \<open>auto simp: w'(2)\<close>)
  with run' show ?thesis by blast
qed

abbreviation after_part :: "emachine \<Rightarrow> ecall \<Rightarrow> enext \<Rightarrow> eworld \<Rightarrow> emachine" where
  "after_part M c r w' \<equiv> M\<lparr>eworld_of := w', ecalls := (ecalls M)(running M := (case r of Inl pc \<Rightarrow> Some (c, pc) | Inr _ \<Rightarrow> None))\<rparr>"

lemma enter_part:
  assumes inv: "einv M" and run: "runs (ekernel M)" and c: "ecalls M (running M) = Some (c, Enter)" "next_ok c Enter (eworld_of M)"
  shows "ecall_part c Enter (eworld_of M) = Some (Inl Locked, eworld_of M) \<and> einv (after_part M c (Inl Locked) (eworld_of M))"
proof
  have "xTaskGetSchedulerState (ekernel M) \<noteq> taskSCHEDULER_SUSPENDED" if "can_block (ekernel M)"
    using that by (simp add: can_block_def xTaskGetSchedulerState_def)
  with c(2) show "ecall_part c Enter (eworld_of M) = Some (Inl Locked, eworld_of M)"
    by (cases c) (auto simp: wait_asserts_def no_control_def)
  have "\<exists>G' m. egroups M g = Some G' \<and> uxEventBits G = uxEventBits G' AND m" if "egroups M g = Some G" for g G
    using that by (intro exI [of _ G] exI [of _ "-1"]) simp
  with c inv run show "einv (after_part M c (Inl Locked) (eworld_of M))"
    by (intro calm_part) (simp_all add: einvD(1))
qed

text \<open>The ends of the locked parts that do not block.\<close>

lemma return_part:
  assumes inv: "einv M" and run: "runs (ekernel M)" and susp: "0 < uxSchedulerSuspended (ekernel M)"
    and g: "\<And>g G'. groups w1 g = Some G' \<Longrightarrow> \<exists>G m. egroups M g = Some G \<and> uxEventBits G' = uxEventBits G AND m"
    and w1: "sched_state w1 = ekernel M"
    and before: "\<And>g. ecalls M (running M) \<noteq> Some (DeleteGroup g, FreeMemory)"
  shows "\<exists>w'. resume_return v w1 = Some (Inr (Bits v), w') \<and> einv (after_part M c (Inr (Bits v)) w')"
proof -
  obtain y k' where k': "xTaskResumeAll (ekernel M) = Some (y, k')" "kernel_ok k'" "keeps {} {} (ekernel M) k'"
    using resume_calm [OF einvD(1) [OF inv] susp] .
  have "einv (after_part M c (Inr (Bits v)) (w1\<lparr>sched_state := k'\<rparr>))"
    by (rule calm_part [OF inv run]) (use k' g before in simp_all)
  with k'(1) w1 show ?thesis
    by (simp add: resume_return_def)
qed

lemma suspended_machine:
  assumes "einv M" "runs (ekernel M)" "uxSchedulerSuspended (ekernel M) + 1 < u32_bound"
  defines "M0 \<equiv> M\<lparr>eworld_of := (eworld_of M)\<lparr>sched_state := vTaskSuspendAll (ekernel M)\<rparr>\<rparr>"
  shows "einv M0" "runs (ekernel M0)" "uxSchedulerSuspended (ekernel M0) = uxSchedulerSuspended (ekernel M) + 1"
    "running M0 = running M" "egroups M0 = egroups M" "ecalls M0 = ecalls M" "tcbs (ekernel M0) = tcbs (ekernel M)"
    "klists (ekernel M0) = klists (ekernel M)" "xIdleTaskHandle (ekernel M0) = xIdleTaskHandle (ekernel M)"
proof -
  have k: "kernel_ok (vTaskSuspendAll (ekernel M))"
    using step_suspend_all [OF einvD(1) [OF assms(1)] assms(2,3)] .
  show "einv M0"
    unfolding M0_def by (rule einv_same_lists [OF assms(1) k]) (simp_all add: vTaskSuspendAll_def)
qed (use assms in \<open>simp_all add: M0_def vTaskSuspendAll_def add32_exact is_ready_def\<close>)

lemma taken_bits: "groups (set_group g (clear_bits b G) w) g' = Some G' \<Longrightarrow> groups w g = Some G \<Longrightarrow>
  \<exists>G m. groups w g' = Some G \<and> uxEventBits G' = uxEventBits G AND m"
  by (cases "g' = g") (auto simp: set_group_def clear_bits_def intro: exI [of _ "NOT b"] exI [of _ "-1"])

lemma same_bits: "groups w g = Some G \<Longrightarrow> \<exists>G' m. groups w g = Some G' \<and> uxEventBits G = uxEventBits G' AND m"
  by (intro exI [of _ G] exI [of _ "-1"]) simp

lemma free_to_wait:
  assumes "einv M" "runs (ekernel M)" "can_block (ekernel M)"
  shows "running M \<noteq> xIdleTaskHandle (ekernel M)" "uxSchedulerSuspended (ekernel M) = 0"
    "\<exists>tb. tcbs (ekernel M) (running M) = Some tb \<and> ucNotifyState tb \<noteq> Waiting"
    "container (klists (ekernel M)) (EventItem (running M)) = None"
  using assms event_of_ready [OF einvD(1) [OF assms(1)] _ assms(2)] by (auto simp: can_block_def split: option.splits)

lemma wait_locked_part:
  assumes inv: "einv M" and run: "runs (ekernel M)" and c: "c = WaitBits g b clear all n" "ecalls M (running M) = Some (c, Locked)"
    and ok: "next_ok c Locked (eworld_of M)" "call_args c"
  shows "\<exists>r w'. ecall_part c Locked (eworld_of M) = Some (r, w') \<and> einv (after_part M c r w')"
proof -
  obtain G where G: "egroups M g = Some G"
    using ok(1) c(1) by auto
  have bound: "uxSchedulerSuspended (ekernel M) + 1 < u32_bound"
    using ok(1) by simp
  define M0 where "M0 = M\<lparr>eworld_of := (eworld_of M)\<lparr>sched_state := vTaskSuspendAll (ekernel M)\<rparr>\<rparr>"
  note S = suspended_machine [OF inv run bound, folded M0_def]
  have before: "\<And>g. ecalls M0 (running M0) \<noteq> Some (DeleteGroup g, FreeMemory)"
    using c(2) S(4,6) by simp
  have eq: "after_part M0 c r w' = after_part M c r w'" for r w'
    using S(4) by (simp add: M0_def)
  let ?w = "eworld_of M0"
  have unf: "ecall_part c Locked (eworld_of M) =
    (if prvTestWaitCondition (uxEventBits G) b all
     then resume_return (uxEventBits G) (if clear then set_group g (clear_bits b G) ?w else ?w)
     else if n = 0 then resume_return (uxEventBits G) ?w
     else Option.bind (place_on_group g (wait_value b clear all) n ?w) resume_blocked)"
    using G S(5) unfolding c(1) by (simp add: Let_def M0_def wait_value_def)
  have susp: "0 < uxSchedulerSuspended (ekernel M0)"
    using S(3) by simp
  show ?thesis
  proof (cases "prvTestWaitCondition (uxEventBits G) b all \<or> n = 0")
    case True
    define w1 where "w1 = (if prvTestWaitCondition (uxEventBits G) b all \<and> clear then set_group g (clear_bits b G) ?w else ?w)"
    have w1: "\<exists>G m. egroups M0 g' = Some G \<and> uxEventBits G' = uxEventBits G AND m" if "groups w1 g' = Some G'" for g' G'
      using that G S(5) taken_bits [of g b G ?w g' G'] same_bits [of ?w g' G'] by (simp add: w1_def split: if_splits)
    have "\<exists>w'. resume_return (uxEventBits G) w1 = Some (Inr (Bits (uxEventBits G)), w') \<and>
        einv (after_part M0 c (Inr (Bits (uxEventBits G))) w')"
      by (rule return_part [OF S(1,2) susp w1 _ before]) (simp_all add: w1_def set_group_def)
    then obtain w' where "resume_return (uxEventBits G) w1 = Some (Inr (Bits (uxEventBits G)), w')"
      "einv (after_part M c (Inr (Bits (uxEventBits G))) w')"
      unfolding eq by blast
    moreover have "ecall_part c Locked (eworld_of M) = resume_return (uxEventBits G) w1"
      using True unfolding unf w1_def by auto
    ultimately show ?thesis
      by metis
  next
    case False
    then have n: "0 < n" "n < u32_bound" and block: "can_block (ekernel M)"
      using ok c(1) by auto
    note F = free_to_wait [OF inv run block]
    obtain tb where tb: "tcbs (ekernel M0) (running M0) = Some tb" "ucNotifyState tb \<noteq> Waiting"
      using F(3) S(4,7) by auto
    have G0: "egroups M0 g = Some G" "\<not> prvTestWaitCondition (uxEventBits G) b all"
      using S(5) G False by simp_all
    have m0: "uxSchedulerSuspended (ekernel M0) = 1" "running M0 \<noteq> xIdleTaskHandle (ekernel M0)"
      "container (klists (ekernel M0)) (EventItem (running M0)) = None"
      using F(1,2,4) S(3,4,8,9) by simp_all
    have "\<exists>w'. Option.bind (place_on_group g (wait_value b clear all) n ?w) resume_blocked = Some (Inl Woken, w') \<and>
        einv (M0\<lparr>eworld_of := w', ecalls := (ecalls M0)(running M0 := Some (c, Woken))\<rparr>)"
      by (rule block_part [OF S(1,2) m0(1,2) tb m0(3) n G0 _ _ ok(2) before]) (simp_all add: c(1))
    then obtain w' where "ecall_part c Locked (eworld_of M) = Some (Inl Woken, w')" "einv (after_part M c (Inl Woken) w')"
      using False unf eq [of "Inl Woken"] by auto
    then show ?thesis by blast
  qed
qed

lemma set_now_part:
  assumes inv: "einv M" and run: "runs (ekernel M)" and bound: "uxSchedulerSuspended (ekernel M) + 1 < u32_bound"
    and G: "egroups M g = Some G" and s: "no_control s" "g \<noteq> 0"
    and own: "ecalls M (running M) = Some (c, Locked)" "call_args c"
  shows "\<exists>r w' m. set_bits_now g s (eworld_of M) = Some (r, w') \<and> einv (M\<lparr>eworld_of := w'\<rparr>) \<and>
    groups w' = (egroups M)(g := Some (G\<lparr>uxEventBits := (uxEventBits G OR s) AND m\<rparr>)) \<and>
    unblocks (g + 4) (unblocked_value (uxEventBits G OR s)) (satisfied g (uxEventBits G OR s) (ekernel M)) (ekernel M) (sched_state w')"
proof -
  obtain w' m where w': "set_bits_locked g s (eworld_of M) = Some w'"
    "einv (M\<lparr>eworld_of := w', ecalls := (ecalls M)(running M := Some (c, Locked))\<rparr>)"
    "groups w' = (egroups M)(g := Some (G\<lparr>uxEventBits := (uxEventBits G OR s) AND m\<rparr>))"
    "unblocks (g + 4) (unblocked_value (uxEventBits G OR s)) (satisfied g (uxEventBits G OR s) (ekernel M)) (ekernel M) (sched_state w')"
    using set_locked_part [OF inv run bound G s(1), where x = "Some (c, Locked)"] own by auto
  have same: "(ecalls M)(running M := Some (c, Locked)) = ecalls M"
    using own(1) by (simp add: fun_upd_idem)
  have "einv (M\<lparr>eworld_of := w'\<rparr>)"
    using w'(2) unfolding same by simp
  moreover have "\<exists>r. set_bits_now g s (eworld_of M) = Some (r, w')"
    using w'(1,3) s by (simp add: set_bits_now_def no_control_def)
  ultimately show ?thesis
    using w'(3,4) by blast
qed

lemma sync_locked_part:
  assumes inv: "einv M" and run: "runs (ekernel M)" and c: "c = Sync g s b n" "ecalls M (running M) = Some (c, Locked)"
    and ok: "next_ok c Locked (eworld_of M)" "call_args c"
  shows "\<exists>r w'. ecall_part c Locked (eworld_of M) = Some (r, w') \<and> einv (after_part M c r w')"
proof -
  obtain G where G: "egroups M g = Some G"
    using ok(1) c(1) by auto
  have bound: "uxSchedulerSuspended (ekernel M) + 1 < u32_bound"
    using ok(1) by simp
  define M0 where "M0 = M\<lparr>eworld_of := (eworld_of M)\<lparr>sched_state := vTaskSuspendAll (ekernel M)\<rparr>\<rparr>"
  note S = suspended_machine [OF inv run bound, folded M0_def]
  have bound0: "uxSchedulerSuspended (ekernel M0) + 1 < u32_bound" and G0: "egroups M0 g = Some G"
    and args: "no_control s" "g \<noteq> 0" and own0: "ecalls M0 (running M0) = Some (c, Locked)"
    using ok c S(3-6) G by simp_all
  let ?old = "uxEventBits G OR s"
  obtain r1 w1 m where W: "set_bits_now g s (eworld_of M0) = Some (r1, w1)" "einv (M0\<lparr>eworld_of := w1\<rparr>)"
    "groups w1 = (egroups M0)(g := Some (G\<lparr>uxEventBits := ?old AND m\<rparr>))"
    "unblocks (g + 4) (unblocked_value ?old) (satisfied g ?old (ekernel M0)) (ekernel M0) (sched_state w1)"
    using set_now_part [OF S(1,2) bound0 G0 args own0 ok(2)] by blast
  define M1 where "M1 = M0\<lparr>eworld_of := w1\<rparr>"
  let ?G = "G\<lparr>uxEventBits := ?old AND m\<rparr>"
  note U = unblocksD [OF W(4)]
  have M1: "einv M1" "runs (ekernel M1)" "running M1 = running M" "ecalls M1 = ecalls M" "eworld_of M1 = w1"
    "0 < uxSchedulerSuspended (ekernel M1)" "egroups M1 g = Some ?G"
    using W(2,3) U(9,10) U(6) [OF S(2)] S(3,4,6) by (simp_all add: M1_def)
  have before: "\<And>g. ecalls M1 (running M1) \<noteq> Some (DeleteGroup g, FreeMemory)"
    using c(2) M1(3,4) by simp
  have eq: "after_part M1 c r w' = after_part M c r w'" for r w'
    using M1(3) by (simp add: M1_def M0_def)
  have unf: "ecall_part c Locked (eworld_of M) =
    (if ?old AND b = b then resume_return ?old (set_group g (clear_bits b ?G) w1)
     else if n \<noteq> 0 then Option.bind (place_on_group g (wait_value b True True) n w1) resume_blocked
     else resume_return (uxEventBits ?G) w1)"
    using G W(1,3) unfolding c(1) by (simp add: Let_def M0_def wait_value_def control_bits_def)
  show ?thesis
  proof (cases "?old AND b = b \<or> n = 0")
    case True
    define w2 where "w2 = (if ?old AND b = b then set_group g (clear_bits b ?G) w1 else w1)"
    define v where "v = (if ?old AND b = b then ?old else uxEventBits ?G)"
    have w2: "\<exists>G m. egroups M1 g' = Some G \<and> uxEventBits G' = uxEventBits G AND m" if "groups w2 g' = Some G'" for g' G'
      using that M1(5,7) taken_bits [of g b ?G w1 g' G'] same_bits [of w1 g' G'] by (simp add: w2_def split: if_splits)
    have "\<exists>w'. resume_return v w2 = Some (Inr (Bits v), w') \<and> einv (after_part M1 c (Inr (Bits v)) w')"
      by (rule return_part [OF M1(1,2,6) w2 _ before]) (simp_all add: w2_def set_group_def M1(5))
    then obtain w' where "resume_return v w2 = Some (Inr (Bits v), w')" "einv (after_part M c (Inr (Bits v)) w')"
      unfolding eq by blast
    moreover have "ecall_part c Locked (eworld_of M) = resume_return v w2"
      using True unfolding unf w2_def v_def by auto
    ultimately show ?thesis
      by metis
  next
    case False
    then have n: "0 < n" "n < u32_bound" and block: "can_block (ekernel M)"
      using ok c(1) by auto
    note F = free_to_wait [OF inv run block]
    obtain tb where tb: "tcbs (ekernel M1) (running M1) = Some tb" "ucNotifyState tb \<noteq> Waiting"
      using F(3) S(7) U(8) M1(3) by (auto simp: M1_def)
    have nl: "EventItem (running M) \<notin> satisfied g ?old (ekernel M0)"
      using running_not_waiting [OF S(1,2)] S(4) by simp
    have free: "container (klists (ekernel M1)) (EventItem (running M1)) = None"
      using U(7) [OF nl] F(4) S(8) M1(3) by (simp add: M1_def)
    have susp: "uxSchedulerSuspended (ekernel M1) = 1" "running M1 \<noteq> xIdleTaskHandle (ekernel M1)"
      using U(10,11) S(3,9) F(1,2) M1(3) by (simp_all add: M1_def)
    have nb: "\<not> prvTestWaitCondition (uxEventBits ?G) b True"
      using False condition_mono [of ?old m b True] by (auto simp: prvTestWaitCondition_def)
    have "\<exists>w'. Option.bind (place_on_group g (wait_value b True True) n (eworld_of M1)) resume_blocked = Some (Inl Woken, w') \<and>
        einv (M1\<lparr>eworld_of := w', ecalls := (ecalls M1)(running M1 := Some (c, Woken))\<rparr>)"
      by (rule block_part [OF M1(1,2) susp tb free n M1(7) nb _ _ ok(2) before]) (simp_all add: c(1))
    then obtain w' where "ecall_part c Locked (eworld_of M) = Some (Inl Woken, w')" "einv (after_part M c (Inl Woken) w')"
      using False unf eq [of "Inl Woken"] M1(5) by auto
    then show ?thesis by blast
  qed
qed

text \<open>The task runs again.\<close>

lemma woken_part:
  assumes inv: "einv M" and run: "runs (ekernel M)" and c: "ecalls M (running M) = Some (c, Woken)" "wait_of c = Some (b, clear, all)"
  shows "\<exists>r w'. woken (eworld_of M) = Some (r, w') \<and> einv (after_part M c r w') \<and>
    (r = Inl Expired \<or> (\<exists>v. r = Inr (Bits v) \<and> no_control v \<and> (prvTestWaitCondition v b all \<or> v = 0 \<and> gone (group_of c) M)))"
proof -
  let ?k = "ekernel M"
  have s: "call_state M (running M) c Woken"
    using einvD(4) [OF inv c(1)] .
  obtain tb where tb: "tcbs ?k (running M) = Some tb"
    using running_live [OF inv] by auto
  define k' where "k' = list_set_value (EventItem (running M)) (sub32 configMAX_PRIORITIES (uxPriority tb)) ?k"
  define v where "v = (word_of_nat (event_value (running M) ?k) :: event_bits)"
  define r where "r = (if v AND eventUNBLOCKED_DUE_TO_BIT_SET = 0 then Inl Expired else Inr (Bits (v AND NOT eventEVENT_BITS_CONTROL_BYTES)))"
  let ?w = "(eworld_of M)\<lparr>sched_state := k'\<rparr>"
  have w: "woken (eworld_of M) = Some (r, ?w)"
    using tb by (simp add: woken_def uxTaskResetEventItemValue_def Let_def r_def v_def k'_def)
  have args: "call_args c"
    using s by (simp add: call_state_def)
  then have nb: "no_control b"
    using c(2) by (cases c) auto
  have res: "r = Inl Expired \<or> (\<exists>v. r = Inr (Bits v) \<and> no_control v \<and> (prvTestWaitCondition v b all \<or> v = 0 \<and> gone (group_of c) M))"
  proof -
    consider "still_waits ?k (running M) (group_of c) (b, clear, all)" | "was_woken M (running M) (group_of c) (b, clear, all)"
      using s c(2) by (auto simp: call_state_def)
    then show ?thesis
    proof cases
      case 1
      then have "v = wait_value b clear all OR IN_USE"
        by (simp add: v_def still_waits_def)
      then show ?thesis
        using wait_value_split(3) [OF nb] by (simp add: r_def)
    next
      case 2
      then obtain u where u: "v = unblocked_value u OR IN_USE" "no_control u" "prvTestWaitCondition u b all \<or> u = 0 \<and> gone (group_of c) M"
        by (auto simp: v_def was_woken_def)
      then show ?thesis
        using unblocked_value_split by (simp add: r_def)
    qed
  qed
  have kl: "items (klists k') = items (klists ?k)" "tcbs k' = tcbs ?k"
    by (simp_all add: k'_def list_set_value_def set_value_def)
  have "einv (after_part M c r ?w)"
  proof (rule einv_step [OF inv, where U = "{}" and v = 0])
    fix g
    assume "gone g M"
    then show "gone g (after_part M c r ?w)"
      by (rule gone_stays) (use c in simp_all)
  next
    fix c' pc
    assume "(case r of Inl pc \<Rightarrow> Some (c, pc) | Inr x \<Rightarrow> None) = Some (c', pc)"
    then show "call_state (after_part M c r ?w) (running M) c' pc"
      using args tb c(2) by (cases c) (auto simp: r_def call_state_def kl split: if_splits)
  next
    show "kernel_ok (sched_state ?w)"
      using kernel_ok_event_value [OF einvD(1) [OF inv]] by (simp add: k'_def)
    show "event_value t (sched_state ?w) = event_value t ?k" if "t \<noteq> running M" for t
      using that by (simp add: k'_def list_set_value_def set_value_def)
    fix g G'
    assume "EventItem (running M) \<in> set (waiting (g + 4) (sched_state ?w))"
    then show "waiter_ok (after_part M c r ?w) g G' (running M)"
      using running_not_waiting [OF inv run] by (simp add: kl)
  qed (use einvD(2) [OF inv] in \<open>auto simp: kl\<close>)
  with w res show ?thesis by blast
qed

text \<open>The last look of a task whose time is up, the result of setting bits, and the end of a group.\<close>

lemma end_part:
  assumes inv: "einv M" and run: "runs (ekernel M)" and c: "ecalls M (running M) = Some (c, pc)"
    and pc: "pc = Expired \<and> wait_of c \<noteq> None \<or> pc = ReadBits \<and> (\<exists>g s. c = SetBits g s)" and g: "egroups M (group_of c) \<noteq> None"
  shows "\<exists>r w'. ecall_part c pc (eworld_of M) = Some (Inr r, w') \<and> einv (after_part M c (Inr r) w')"
proof -
  obtain G where G: "egroups M (group_of c) = Some G"
    using g by blast
  define take where "take = (\<lambda>b. set_group (group_of c) (clear_bits b G) (eworld_of M))"
  have "\<exists>r w'. ecall_part c pc (eworld_of M) = Some (Inr r, w') \<and> (w' = eworld_of M \<or> (\<exists>b. w' = take b))"
    using pc G by (cases c) (auto simp: take_def Let_def)
  then obtain r w' where w': "ecall_part c pc (eworld_of M) = Some (Inr r, w')" "w' = eworld_of M \<or> (\<exists>b. w' = take b)"
    by blast
  have "\<exists>G m. egroups M g' = Some G \<and> uxEventBits G' = uxEventBits G AND m" if "groups w' g' = Some G'" for g' G'
    using w'(2) that same_bits [of "eworld_of M" g' G'] taken_bits [of "group_of c" _ G "eworld_of M" g' G'] G
    by (elim disjE exE) (simp_all add: take_def)
  moreover have "sched_state w' = ekernel M"
    using w'(2) by (auto simp: take_def set_group_def)
  ultimately have "einv (after_part M c (Inr r) w')"
    using inv c pc by (intro calm_part [OF inv run]) (auto simp: einvD(1))
  with w'(1) show ?thesis by blast
qed

lemma free_part:
  assumes inv: "einv M" and run: "runs (ekernel M)" and c: "ecalls M (running M) = Some (DeleteGroup g, FreeMemory)"
    and ok: "next_ok (DeleteGroup g) FreeMemory (eworld_of M)"
  shows "\<exists>w'. vEventGroupDelete g FreeMemory (eworld_of M) = Some (Inr Deleted, w') \<and>
    einv (after_part M (DeleteGroup g) (Inr Deleted) w') \<and> groups w' = (egroups M)(g := None)"
proof -
  have "call_args (DeleteGroup g)"
    using einvD(4) [OF inv c] by (simp add: call_state_def)
  then have g: "g \<noteq> 0"
    by simp
  obtain h where h: "vPortFree g (memory (eworld_of M)) = Some h"
    using ok by auto
  have bound: "uxSchedulerSuspended (ekernel M) + 1 < u32_bound"
    using ok by simp
  have k0: "kernel_ok (vTaskSuspendAll (ekernel M))" "0 < uxSchedulerSuspended (vTaskSuspendAll (ekernel M))"
    using step_suspend_all [OF einvD(1) [OF inv] run bound] bound by (simp_all add: vTaskSuspendAll_def add32_exact)
  obtain y k' where k': "xTaskResumeAll (vTaskSuspendAll (ekernel M)) = Some (y, k')" "kernel_ok k'"
    "keeps {} {} (vTaskSuspendAll (ekernel M)) k'"
    using resume_calm [OF k0] .
  let ?w = "(eworld_of M)\<lparr>sched_state := k', memory := h, groups := (egroups M)(g := None)\<rparr>"
  have "vEventGroupDelete g FreeMemory (eworld_of M) = Some (Inr Deleted, ?w)"
    using h k'(1) g by (simp add: kernel_free_def)
  moreover have "einv (after_part M (DeleteGroup g) (Inr Deleted) ?w)"
    using same_bits [of "eworld_of M"] k' c by (intro calm_part [OF inv run]) (auto simp: keeps_left split: if_splits)
  ultimately show ?thesis
    by (intro exI [of _ ?w]) simp
qed

lemma part_ok:
  assumes inv: "einv M" and run: "runs (ekernel M)" and c: "ecalls M (running M) = Some (c, pc)" and ok: "next_ok c pc (eworld_of M)"
  shows "\<exists>r w'. ecall_part c pc (eworld_of M) = Some (r, w') \<and> einv (after_part M c r w')"
proof -
  have s: "call_state M (running M) c pc"
    using einvD(4) [OF inv c] .
  then have fits: "pc = ReadBits \<Longrightarrow> \<exists>g s. c = SetBits g s" "pc = Expired \<Longrightarrow> wait_of c \<noteq> None"
    "pc = FreeMemory \<Longrightarrow> \<exists>g. c = DeleteGroup g"
    by (cases c; simp add: call_state_def)+
  show ?thesis
  proof (cases pc)
    case Enter
    with enter_part [OF inv run] c ok show ?thesis by blast
  next
    case Locked
    then have args: "call_args c" and c': "ecalls M (running M) = Some (c, Locked)" and ok': "next_ok c Locked (eworld_of M)"
      using s c ok by (simp_all add: call_state_def)
    have bound: "uxSchedulerSuspended (ekernel M) + 1 < u32_bound"
      using ok' by simp
    show ?thesis
    proof (cases c)
      case (SetBits g s)
      obtain G where G: "egroups M g = Some G"
        using ok' SetBits by auto
      have "\<exists>w' m. set_bits_locked g s (eworld_of M) = Some w' \<and>
          einv (M\<lparr>eworld_of := w', ecalls := (ecalls M)(running M := Some (c, ReadBits))\<rparr>)"
        using set_locked_part [OF inv run bound G, of s "Some (c, ReadBits)"] args c' SetBits by auto
      then show ?thesis
        using SetBits Locked by (intro exI [of _ "Inl ReadBits"]) auto
    next
      case (Sync g s b n)
      from sync_locked_part [OF inv run this c' ok' args] Locked show ?thesis by simp
    next
      case (WaitBits g b clear all n)
      from wait_locked_part [OF inv run this c' ok' args] Locked show ?thesis by simp
    next
      case (DeleteGroup g)
      have "\<exists>w'. vEventGroupDelete g Locked (eworld_of M) = Some (Inl FreeMemory, w') \<and>
          einv (M\<lparr>eworld_of := w', ecalls := (ecalls M)(running M := Some (DeleteGroup g, FreeMemory))\<rparr>)"
        using delete_locked_part [OF inv run bound, of g] c' args ok' unfolding DeleteGroup by auto
      then show ?thesis
        unfolding DeleteGroup Locked ecall_part.simps by (elim exE) (rule exI [of _ "Inl FreeMemory"], auto)
    qed
  next
    case Woken
    then obtain b clear all where "wait_of c = Some (b, clear, all)"
      using s by (auto simp: call_state_def)
    with woken_part [OF inv run, of c b clear all] c Woken show ?thesis
      by (cases c) auto
  next
    case Expired
    with end_part [OF inv run c] fits(2) ok show ?thesis by auto
  next
    case ReadBits
    with end_part [OF inv run c] fits(1) ok show ?thesis by auto
  next
    case FreeMemory
    then obtain g where "c = DeleteGroup g"
      using fits(3) by blast
    with free_part [OF inv run, of g] c ok FreeMemory show ?thesis
      by auto
  qed
qed

section \<open>Every reachable machine\<close>

lemma estep_ok:
  assumes inv: "einv M" and ok: "eok e M"
  shows "\<exists>r M'. estep e M = Some (r, M') \<and> einv M'"
proof (cases e)
  case (EStart c)
  have "einv (M\<lparr>eworld_of := eworld_of M, ecalls := (ecalls M)(running M := Some (c, Enter))\<rparr>)"
    using ok EStart einvD(1) [OF inv] by (intro calm_part [OF inv] same_bits) auto
  with ok EStart show ?thesis by simp
next
  case ENext
  then obtain c pc where c: "ecalls M (running M) = Some (c, pc)" "next_ok c pc (eworld_of M)" "runs (ekernel M)"
    using ok by (auto split: option.splits)
  obtain r w' where "ecall_part c pc (eworld_of M) = Some (r, w')" "einv (after_part M c r w')"
    using part_ok [OF inv c(3,1,2)] by blast
  with c(1) ENext show ?thesis by (simp split: sum.splits)
next
  case (EClear g b)
  then obtain G where G: "egroups M g = Some G" and ok': "runs (ekernel M)" "ecalls M (running M) = None" "g \<noteq> 0" "no_control b"
    using ok by auto
  let ?w = "set_group g (clear_bits b G) (eworld_of M)"
  have "einv (M\<lparr>eworld_of := ?w, ecalls := (ecalls M)(running M := None)\<rparr>)"
    by (rule calm_part [OF inv ok'(1)])
      (use ok'(2) einvD(1) [OF inv] taken_bits [of g b G "eworld_of M"] G in \<open>simp_all add: set_group_def\<close>)
  moreover have "(ecalls M)(running M := None) = ecalls M"
    using ok'(2) by (simp add: fun_upd_idem)
  ultimately show ?thesis
    using EClear G ok' by (simp add: xEventGroupClearBits_def no_control_def)
next
  case (EKernel a)
  with kernel_event_ok [OF inv] ok show ?thesis by blast
qed

lemma ereach_inv: "ereach M0 M \<Longrightarrow> einv M0 \<Longrightarrow> einv M"
proof (induction rule: ereach.induct)
  case (step M e r M')
  then show ?case
    using estep_ok [of M e] by auto
qed

end
