(* ===== verification/EventUse.thy ===== *)
theory EventUse
  imports EventHistory Heap5Free
begin

text \<open>
  Using event groups as their callers should. \<open>disciplined\<close> puts the whole burden on the start of a call,
  where the group must exist, and on the moment at which a deleted group's memory goes back, where no
  other task may still need it: every other call on the group must be that of a task that has been
  unblocked. That groups exist whenever a part of a call looks at them, and that freeing one passes
  the assertions of the heap, is then proved.
\<close>

section \<open>Tasks that have been unblocked\<close>

definition marked :: "tid \<Rightarrow> kernel \<Rightarrow> bool" where
  "marked t k \<longleftrightarrow>
     \<not> event_value_free t k \<and> (word_of_nat (event_value t k) :: event_bits) AND eventUNBLOCKED_DUE_TO_BIT_SET \<noteq> 0"

definition marks :: "tid set \<Rightarrow> kernel \<Rightarrow> kernel \<Rightarrow> bool" where
  "marks V k k' \<longleftrightarrow> (\<forall>t. t \<notin> V \<longrightarrow> marked t k \<longrightarrow> marked t k')"

lemma marks_refl [simp]: "marks V k k"
  by (simp add: marks_def)

lemma marks_trans: "marks V k1 k2 \<Longrightarrow> marks V k2 k3 \<Longrightarrow> marks V k1 k3"
  by (simp add: marks_def)

lemma marks_weaken: "marks {} k k' \<Longrightarrow> marks V k k'"
  by (simp add: marks_def)

lemma keeps_marks: "keeps E V k k' \<Longrightarrow> marks V k k'"
  by (auto simp: keeps_def marks_def marked_def event_value_free_def)

lemma marks_same:
  "klists k' = klists k \<Longrightarrow> marks V k k'" "marks V (vTaskSuspendAll k) k' = marks V k k'"
  "marks V k (k'\<lparr>tcbs := B\<rparr>) = marks V k k'" "marks V k (portYIELD_WITHIN_API k') = marks V k k'"
  by (simp_all add: marks_def marked_def event_value_free_def vTaskSuspendAll_def portYIELD_WITHIN_API_def)

lemma marked_value:
  assumes "v AND eventUNBLOCKED_DUE_TO_BIT_SET \<noteq> 0"
  shows "marked t (list_set_value (EventItem t) (value_in_use v) k)"
proof -
  have "(v OR IN_USE) AND eventUNBLOCKED_DUE_TO_BIT_SET \<noteq> 0"
    using assms by (simp add: and.commute [of _ eventUNBLOCKED_DUE_TO_BIT_SET] bit.conj_disj_distrib or_eq_0_iff)
  then show ?thesis
    using value_in_use_flag by (simp add: marked_def event_value_free_def list_set_value_def set_value_def)
qed

lemma marks_set_value:
  "v AND eventUNBLOCKED_DUE_TO_BIT_SET \<noteq> 0 \<Longrightarrow> marks V k (list_set_value i (value_in_use v) k)"
  "t \<in> V \<Longrightarrow> marks V k (list_set_value (EventItem t) n k)"
proof -
  have other: "marked u (list_set_value i n k) = marked u k" if "i \<noteq> EventItem u" for u n i
    using that by (simp add: marked_def event_value_free_def list_set_value_def set_value_def)
  show "marks V k (list_set_value i (value_in_use v) k)" if "v AND eventUNBLOCKED_DUE_TO_BIT_SET \<noteq> 0"
    unfolding marks_def using marked_value [OF that] other by metis
  show "marks V k (list_set_value (EventItem t) n k)" if "t \<in> V"
    unfolding marks_def using other that by (metis item.inject(2))
qed

lemma marks_remove_unordered:
  assumes "vTaskRemoveFromUnorderedEventList i (unat v) k = Some k'" "v AND eventUNBLOCKED_DUE_TO_BIT_SET \<noteq> 0"
  shows "marks V k k'"
proof -
  let ?k = "list_set_value i (value_in_use v) k"
  obtain n k1 m k2 k3 y where k: "list_remove i ?k = Some (n, k1)" "list_remove (StateItem (owner i)) k1 = Some (m, k2)"
    "prvAddTaskToReadyList (owner i) k2 = Some k3" "note_higher (owner i) k3 = Some (y, k')"
    using assms(1) by (auto simp: vTaskRemoveFromUnorderedEventList_def Let_def value_in_use_def split: if_splits bind_splits)
  have "keeps {} V ?k k'"
    using keeps_trans [OF keeps_trans [OF keeps_remove [OF k(1)] keeps_remove [OF k(2)]]
      keeps_trans [OF keeps_add_ready [OF k(3)] keeps_higher [OF k(4)]]] .
  then show ?thesis
    using marks_trans [OF marks_set_value(1) [OF assms(2)] keeps_marks] by blast
qed

lemma unblocked_bits: "(v OR eventUNBLOCKED_DUE_TO_BIT_SET) AND eventUNBLOCKED_DUE_TO_BIT_SET \<noteq> 0"
  "eventUNBLOCKED_DUE_TO_BIT_SET AND eventUNBLOCKED_DUE_TO_BIT_SET \<noteq> 0"
  by (simp_all add: eventUNBLOCKED_DUE_TO_BIT_SET_def and.commute [of _ "0x2000000 :: event_bits"] bit.conj_disj_distrib)

lemma marks_walk: "walk_waiters l bits i clear k = Some r \<Longrightarrow> marks V k (snd r)"
proof (rule walk_waiters.raw_induct [where P = "\<lambda>l bits i clear k r. marks V k (snd r)"], goal_cases)
  case (1 rec l bits i clear k r)
  show ?case
  proof (cases i)
    case None
    with 1(3) show ?thesis by auto
  next
    case (Some j)
    with 1(3) show ?thesis
      by (auto simp: Let_def dest!: 1(2) split: bind_splits if_splits
          intro: marks_trans [OF marks_remove_unordered [OF _ unblocked_bits(1)]])
  qed
qed assumption

lemma marks_unblock: "unblock_waiters l k = Some k' \<Longrightarrow> marks V k k'"
proof (rule unblock_waiters.raw_induct [where P = "\<lambda>l k k'. marks V k k'"], goal_cases)
  case (1 rec l k k')
  then show ?case
    by (auto split: list.splits bind_splits intro: marks_trans [OF marks_remove_unordered [OF _ unblocked_bits(2)]])
qed assumption

lemma marks_resume: "xTaskResumeAll k = Some (y, k') \<Longrightarrow> marks V k k'"
  using keeps_marks [OF keeps_resume_all] .

lemma marks_set_locked:
  assumes "set_bits_locked g s w = Some w'"
  shows "marks V (sched_state w) (sched_state w')"
  using assms
  by (auto simp: set_bits_locked_def Let_def marks_same(2) split: bind_splits dest!: marks_walk [where V = V] marks_resume [where V = V]
      )
    (blast intro: marks_trans)

lemma marks_set_now:
  assumes "set_bits_now g s w = Some (r, w')"
  shows "marks V (sched_state w) (sched_state w')"
  using assms by (auto simp: set_bits_now_def split: bind_splits if_splits sum.splits dest: marks_set_locked)

lemma marks_block:
  assumes "Option.bind (place_on_group g v n w) resume_blocked = Some (r, w')" "lists_named (sched_state w)"
  shows "marks {pxCurrentTCB (sched_state w)} (sched_state w) (sched_state w')"
proof -
  let ?t = "pxCurrentTCB (sched_state w)" and ?k = "sched_state w"
  obtain k1 k2 y k3 where k: "list_insert_end (EventList (g + 4)) (EventItem ?t) (list_set_value (EventItem ?t) (value_in_use v) ?k) = Some k1"
    "prvAddCurrentTaskToDelayedList n True k1 = Some k2" "xTaskResumeAll k2 = Some (y, k3)"
    "sched_state w' = k3 \<or> sched_state w' = portYIELD_WITHIN_API k3"
    using assms(1) by (auto simp: place_on_group_def resume_blocked_def vTaskPlaceOnUnorderedEventList_def value_in_use_def
        xTasksWaitingForBits_def Let_def list_set_value_def split: bind_splits if_splits)
  have "marks {?t} ?k (list_set_value (EventItem ?t) (value_in_use v) ?k)"
    by (rule marks_set_value(2)) simp
  moreover have "marks {?t} (list_set_value (EventItem ?t) (value_in_use v) ?k) k1" "lists_named k1"
    using k(1) assms(2) by (auto simp: list_insert_end_def insert_end_def marks_def marked_def event_value_free_def lists_named_def
        list_set_value_def split: if_splits)
  moreover from this(2) have "marks {?t} k1 k3"
    using keeps_marks [OF keeps_trans [OF keeps_delayed [OF k(2)] keeps_resume_all [OF k(3)]]] by blast
  ultimately have "marks {?t} ?k k3"
    by (blast intro: marks_trans)
  with k(4) show ?thesis
    by (auto simp: marks_same)
qed


section \<open>Parts of a call\<close>

lemma set_group_state [simp]: "sched_state (set_group g G w) = sched_state w"
  by (simp add: set_group_def)

lemma part_marks:
  assumes inv: "einv M" and run: "runs (ekernel M)" and c: "ecalls M (running M) = Some (c, pc)" and ok: "next_ok c pc (eworld_of M)"
    and part: "ecall_part c pc (eworld_of M) = Some (r, w')"
  shows "marks {running M} (ekernel M) (sched_state w')"
proof -
  let ?k = "ekernel M" and ?V = "{running M}"
  have named: "lists_named (vTaskSuspendAll ?k)"
    using kernel_ok_named [OF einvD(1) [OF inv]] by simp
  have reset: "marks ?V ?k (sched_state w2)" if "woken (eworld_of M) = Some (r2, w2)" for r2 w2
    using that by (auto simp: woken_def uxTaskResetEventItemValue_def Let_def marks_set_value(2) split: bind_splits)
  have resume: "marks ?V k1 (sched_state w2)" if "resume_return v w1 = Some (r2, w2)" "marks ?V k1 (sched_state w1)" for v w1 r2 w2 k1
    using that marks_resume [where V = ?V] by (auto simp: resume_return_def intro: marks_trans split: bind_splits)
  show ?thesis
  proof (cases c)
    case (SetBits g s)
    with part marks_set_locked show ?thesis
      by (cases pc) (auto split: bind_splits if_splits)
  next
    case (DeleteGroup g)
    show ?thesis
    proof (cases pc)
      case Locked
      then obtain k1 y k2 where k: "unblock_waiters (xTasksWaitingForBits g) (vTaskSuspendAll ?k) = Some k1" "xTaskResumeAll k1 = Some (y, k2)"
        "sched_state w' = k2"
        using part DeleteGroup by (auto split: bind_splits)
      from marks_trans [OF marks_unblock [OF k(1)] marks_resume [OF k(2)]] k(3) show ?thesis
        by (simp add: marks_same(2))
    next
      case FreeMemory
      then obtain x where "kernel_free g (?k, memory (eworld_of M)) = Some x" "sched_state w' = fst x"
        using part DeleteGroup by (auto split: bind_splits)
      then show ?thesis
        using marks_resume [where V = ?V and k = "vTaskSuspendAll ?k"]
        by (auto simp: kernel_free_def marks_same(2) split: bind_splits if_splits)
    qed (use part DeleteGroup in \<open>auto split: if_splits\<close>)
  next
    case (WaitBits g b clear all n)
    show ?thesis
    proof (cases pc)
      case Locked
      let ?w = "(eworld_of M)\<lparr>sched_state := vTaskSuspendAll ?k\<rparr>"
      have cur: "pxCurrentTCB (sched_state ?w) = running M" and m0: "marks ?V ?k (sched_state ?w)"
        by (simp_all add: vTaskSuspendAll_def marks_same(1))
      obtain G v where "resume_return v ?w = Some (r, w') \<or> resume_return v (set_group g (clear_bits b G) ?w) = Some (r, w') \<or>
          Option.bind (place_on_group g (b OR control_bits clear all) n ?w) resume_blocked = Some (r, w')"
        using part unfolding WaitBits Locked by (simp add: Let_def split: bind_splits if_split_asm) blast+
      then show ?thesis
        using resume [OF _ m0] resume [of v "set_group g (clear_bits b G) ?w" r w' ?k] m0 marks_block [of g _ n ?w r w'] named cur
        by (auto simp: set_group_def marks_same(2))
    next
      case Expired
      with part WaitBits show ?thesis
        by (auto simp: Let_def set_group_def split: bind_splits)
    qed (use part WaitBits reset in \<open>auto split: if_splits\<close>)
  next
    case (Sync g s b n)
    show ?thesis
    proof (cases pc)
      case Locked
      define M0 where "M0 = M\<lparr>eworld_of := (eworld_of M)\<lparr>sched_state := vTaskSuspendAll ?k\<rparr>\<rparr>"
      have bound: "uxSchedulerSuspended ?k + 1 < u32_bound"
        using ok Locked by simp
      note S = suspended_machine [OF inv run bound, folded M0_def]
      obtain G where G: "egroups M g = Some G"
        using ok Sync Locked by auto
      have args: "call_args c"
        using einvD(4) [OF inv c] Locked by (simp add: call_state_def)
      have "uxSchedulerSuspended (ekernel M0) + 1 < u32_bound" "egroups M0 g = Some G" "no_control s" "g \<noteq> 0"
        "ecalls M0 (running M0) = Some (c, Locked)"
        using ok c S(3-6) G args Sync Locked by simp_all
      from set_now_part [OF S(1,2) this args]
      obtain r1 w1 G1 where W: "set_bits_now g s (eworld_of M0) = Some (r1, w1)" "einv (M0\<lparr>eworld_of := w1\<rparr>)" "groups w1 g = Some G1"
        "unblocks (g + 4) (unblocked_value (uxEventBits G OR s)) (satisfied g (uxEventBits G OR s) (ekernel M0)) (ekernel M0) (sched_state w1)"
        by force
      have m1: "marks ?V ?k (sched_state w1)" and cur: "pxCurrentTCB (sched_state w1) = running M" and n1: "lists_named (sched_state w1)"
        using marks_set_now [OF W(1), of ?V] unblocksD(9) [OF W(4)] S(4) kernel_ok_named [OF einvD(1) [OF W(2)]]
        by (simp_all add: M0_def marks_same(2))
      have "Option.bind (place_on_group g (b OR eventCLEAR_EVENTS_ON_EXIT_BIT OR eventWAIT_FOR_ALL_BITS) n w1) resume_blocked = Some (r, w') \<or>
          (\<exists>v. resume_return v w1 = Some (r, w')) \<or> (\<exists>v. resume_return v (set_group g (clear_bits b G1) w1) = Some (r, w'))"
        using part G W(1,3) unfolding Sync Locked by (auto simp: Let_def M0_def split: if_splits)
      then show ?thesis
      proof (elim disjE exE)
        assume "Option.bind (place_on_group g (b OR eventCLEAR_EVENTS_ON_EXIT_BIT OR eventWAIT_FOR_ALL_BITS) n w1) resume_blocked = Some (r, w')"
        from marks_trans [OF m1 marks_block [OF this n1, unfolded cur]] show ?thesis .
      qed (use resume [OF _ m1] resume [of _ "set_group g (clear_bits b G1) w1"] m1 in simp_all)
    next
      case Expired
      with part Sync show ?thesis
        by (auto simp: Let_def set_group_def split: bind_splits)
    qed (use part Sync reset in \<open>auto split: if_splits\<close>)
  qed
qed


text \<open>Only the end of a deletion takes a group away.\<close>

lemma same_groups:
  "resume_return v w = Some (r, w') \<Longrightarrow> groups w' = groups w"
  "resume_blocked w = Some (r, w') \<Longrightarrow> groups w' = groups w"
  "place_on_group g v n w = Some w' \<Longrightarrow> groups w' = groups w"
  "woken w = Some (r, w') \<Longrightarrow> groups w' = groups w"
  by (auto simp: resume_return_def resume_blocked_def place_on_group_def woken_def Let_def bind_eq_Some_conv)

lemma set_locked_keeps_groups: "set_bits_locked g' s w = Some w' \<Longrightarrow> groups w g \<noteq> None \<Longrightarrow> groups w' g \<noteq> None"
  by (auto simp: set_bits_locked_def set_group_def Let_def split: bind_splits)

lemma set_now_keeps_groups: "set_bits_now g' s w = Some (r, w') \<Longrightarrow> groups w g \<noteq> None \<Longrightarrow> groups w' g \<noteq> None"
  using set_locked_keeps_groups [of g' s w _ g]
  by (auto simp: set_bits_now_def split: bind_splits if_splits sum.splits)

lemma part_keeps_groups:
  assumes "ecall_part c pc w = Some (r, w')" "groups w g \<noteq> None" "pc \<noteq> FreeMemory"
  shows "groups w' g \<noteq> None"
proof (cases c)
  case (SetBits g' s)
  with assms set_locked_keeps_groups show ?thesis
    by (cases pc) (auto split: bind_splits if_splits)
next
  case (DeleteGroup g')
  with assms show ?thesis
    by (cases pc) (auto split: bind_splits if_splits)
next
  case (Sync g' s b n)
  show ?thesis
  proof (cases pc)
    case Locked
    obtain r1 w1 G w2 where w: "set_bits_now g' s (w\<lparr>sched_state := vTaskSuspendAll (sched_state w)\<rparr>) = Some (r1, w1)"
      "groups w' = groups w2" "w2 = w1 \<or> w2 = set_group g' (clear_bits b G) w1"
      using assms(1) Sync Locked
      by (auto simp: Let_def bind_eq_Some_conv dest!: same_groups split: if_splits)
    have "groups w1 g \<noteq> None"
      using set_now_keeps_groups [OF w(1)] assms(2) by simp
    with w show ?thesis
      by (auto simp: set_group_def)
  qed (use assms Sync in \<open>auto simp: Let_def bind_eq_Some_conv set_group_def dest!: same_groups split: if_splits\<close>)
next
  case (WaitBits g' b clear all n)
  with assms show ?thesis
    by (cases pc) (auto simp: Let_def bind_eq_Some_conv set_group_def dest!: same_groups split: if_splits)
qed

lemma set_group_gone: "groups w g' = Some G \<Longrightarrow> groups w g = None \<Longrightarrow> groups (set_group g' G' w) g = None"
  by (auto simp: set_group_def)

lemma set_bits_creates_no_group:
  assumes "set_bits_locked g' s w = Some w'" "groups w g = None"
  shows "groups w' g = None"
  using assms by (auto simp: set_bits_locked_def set_group_def Let_def bind_eq_Some_conv)

lemma set_now_creates_no_group:
  assumes "set_bits_now g' s w = Some (r, w')" "groups w g = None"
  shows "groups w' g = None"
  using assms set_bits_creates_no_group [of g' s w _ g]
  by (auto simp: set_bits_now_def bind_eq_Some_conv split: if_splits sum.splits)

lemma part_creates_no_group:
  assumes "ecall_part c pc w = Some (r, w')" "groups w g = None"
  shows "groups w' g = None"
proof (cases c)
  case (SetBits g' s)
  with assms set_bits_creates_no_group show ?thesis
    by (cases pc) (auto simp: bind_eq_Some_conv split: if_splits)
next
  case (DeleteGroup g')
  with assms show ?thesis
    by (cases pc) (auto simp: bind_eq_Some_conv kernel_free_def split: if_splits)
next
  case (Sync g' s b n)
  show ?thesis
  proof (cases pc)
    case Locked
    obtain r1 w1 G w2 where w: "set_bits_now g' s (w\<lparr>sched_state := vTaskSuspendAll (sched_state w)\<rparr>) = Some (r1, w1)"
      "groups w1 g' = Some G" "groups w' = groups w2" "w2 = w1 \<or> w2 = set_group g' (clear_bits b G) w1"
      using assms(1) Sync Locked
      by (auto simp: Let_def bind_eq_Some_conv dest!: same_groups split: if_splits)
    have "groups w1 g = None"
      using set_now_creates_no_group [OF w(1)] assms(2) by simp
    with w show ?thesis
      using set_group_gone [OF w(2)] by auto
  qed (use assms Sync in \<open>auto simp: Let_def bind_eq_Some_conv set_group_def dest!: same_groups split: if_splits\<close>)
next
  case (WaitBits g' b clear all n)
  with assms show ?thesis
    by (cases pc) (auto simp: Let_def bind_eq_Some_conv set_group_def dest!: same_groups split: if_splits)
qed

lemma part_keeps_memory:
  assumes "ecall_part c pc w = Some (r, w')" "pc \<noteq> FreeMemory"
  shows "memory w' = memory w"
proof -
  have *: "resume_return v w = Some (r, w') \<Longrightarrow> memory w' = memory w" "resume_blocked w = Some (r, w') \<Longrightarrow> memory w' = memory w"
    "place_on_group g v n w = Some w' \<Longrightarrow> memory w' = memory w" "woken w = Some (r, w') \<Longrightarrow> memory w' = memory w"
    "set_bits_locked g v w = Some w' \<Longrightarrow> memory w' = memory w" "memory (set_group g G w) = memory w" for v w g n r w' G
    by (auto simp: resume_return_def resume_blocked_def place_on_group_def woken_def set_bits_locked_def set_group_def Let_def split: bind_splits)
  have now: "set_bits_now g v w = Some (r, w') \<Longrightarrow> memory w' = memory w" for g v w r w'
    by (auto simp: set_bits_now_def dest: *(5) split: bind_splits if_splits sum.splits)
  show ?thesis
    using assms
    by (cases c; cases pc) (auto simp: Let_def *(6) dest!: *(1-5) now split: bind_splits if_splits)
qed

section \<open>Disciplined use\<close>

definition unused :: "addr \<Rightarrow> emachine \<Rightarrow> bool" where
  "unused g M \<longleftrightarrow>
     (\<forall>t c pc. t \<noteq> running M \<longrightarrow> ecalls M t = Some (c, pc) \<longrightarrow> group_of c = g \<longrightarrow> pc = Woken \<and> marked t (ekernel M))"

fun caller_ok :: "ecall \<Rightarrow> epc \<Rightarrow> emachine \<Rightarrow> bool" where
  "caller_ok c Enter M \<longleftrightarrow> call_args c \<and> (blocking_time c \<noteq> 0 \<longrightarrow> can_block (ekernel M))"
| "caller_ok c Locked M \<longleftrightarrow>
     uxSchedulerSuspended (ekernel M) + 2 < u32_bound \<and> (blocking_time c \<noteq> 0 \<longrightarrow> can_block (ekernel M))"
| "caller_ok c FreeMemory M \<longleftrightarrow> unused (group_of c) M \<and> uxSchedulerSuspended (ekernel M) + 2 < u32_bound"
| "caller_ok c _ M \<longleftrightarrow> True"

fun disciplined :: "eevent \<Rightarrow> emachine \<Rightarrow> bool" where
  "disciplined (EStart c) M \<longleftrightarrow> runs (ekernel M) \<and> ecalls M (running M) = None \<and> egroups M (group_of c) \<noteq> None"
| "disciplined ENext M \<longleftrightarrow>
     runs (ekernel M) \<and> (case ecalls M (running M) of None \<Rightarrow> False | Some (c, pc) \<Rightarrow> caller_ok c pc M)"
| "disciplined e M \<longleftrightarrow> eok e M"

inductive dreach :: "emachine \<Rightarrow> emachine \<Rightarrow> bool" for M0 where
  start: "dreach M0 M0"
| step: "dreach M0 M \<Longrightarrow> disciplined e M \<Longrightarrow> estep e M = Some (r, M') \<Longrightarrow> dreach M0 M'"

text \<open>The group of a call exists unless its task has been unblocked, and all groups are live blocks of the heap.\<close>

definition used_ok :: "emachine \<Rightarrow> bool" where
  "used_ok M \<longleftrightarrow>
     (\<forall>t c pc. ecalls M t = Some (c, pc) \<longrightarrow> \<not> (pc = Woken \<and> marked t (ekernel M)) \<longrightarrow> egroups M (group_of c) \<noteq> None)"

definition memory_ok :: "emachine \<Rightarrow> bool" where
  "memory_ok M \<longleftrightarrow> (\<exists>es. heap_live (memory (eworld_of M)) es \<and> (\<forall>g. egroups M g \<noteq> None \<longrightarrow> g \<in> fst ` set es))"

lemma disciplined_ok:
  assumes "einv M" "used_ok M" "memory_ok M" "disciplined e M"
  shows "eok e M"
proof (cases e)
  case ENext
  then obtain c pc where c: "ecalls M (running M) = Some (c, pc)" "caller_ok c pc M" "runs (ekernel M)"
    using assms(4) by (auto split: option.splits)
  have g: "egroups M (group_of c) \<noteq> None" if "pc \<noteq> Woken"
    using assms(2) c(1) that unfolding used_ok_def by blast
  have "vPortFree (group_of c) (memory (eworld_of M)) \<noteq> None" if pc: "pc \<noteq> Woken"
  proof -
    obtain es where es: "heap_live (memory (eworld_of M)) es" "group_of c \<in> fst ` set es"
      using assms(3) g [OF pc] unfolding memory_ok_def by blast
    then obtain n where "(group_of c, n) \<in> set es"
      by auto
    from hp.release_law [OF es(1) this] show ?thesis
      by blast
  qed
  with c g have "next_ok c pc (eworld_of M)"
    by (cases pc) auto
  with c ENext show ?thesis by simp
qed (use assms(4) in simp_all)


lemma woken_unmarked:
  assumes "ecall_part c Woken w = Some (Inl pc, w')"
  shows "\<not> marked (pxCurrentTCB (sched_state w)) (sched_state w)"
proof -
  have "woken w = Some (Inl pc, w')"
    using assms by (cases c) simp_all
  then show ?thesis
    by (auto simp: woken_def uxTaskResetEventItemValue_def marked_def Let_def split: bind_splits if_splits)
qed

lemma kernel_marks:
  assumes "kernel_ok k" "enabled a k" "kexec a k = Some k'" "t \<noteq> pxCurrentTCB k \<or> by_interrupt a" "live_task t k" "marked t k"
  shows "marked t k'"
proof -
  have "t \<notin> revalues a k"
    using assms(2,4,5) by (cases a) auto
  with keeps_marks [OF kexec_keeps [OF assms(1-3)]] assms(6) show ?thesis
    by (simp add: marks_def)
qed

lemma next_step:
  assumes inv: "einv M" and used: "used_ok M" and mem: "memory_ok M" and d: "disciplined ENext M" and s: "estep ENext M = Some (r, M')"
  shows "used_ok M' \<and> memory_ok M'"
proof -
  obtain c pc where c: "ecalls M (running M) = Some (c, pc)" "caller_ok c pc M" "runs (ekernel M)"
    using d by (auto split: option.splits)
  have ok: "next_ok c pc (eworld_of M)"
    using disciplined_ok [OF inv used mem d] c(1) by simp
  obtain x w' where w': "ecall_part c pc (eworld_of M) = Some (x, w')" "M' = after_part M c x w'"
    using s c(1) by (auto split: bind_splits sum.splits)
  have marks: "marked t (sched_state w')" if "marked t (ekernel M)" "t \<noteq> running M" for t
    using part_marks [OF inv c(3,1) ok w'(1)] that by (simp add: marks_def)
  have cs: "call_state M (running M) c pc"
    using einvD(4) [OF inv c(1)] .
  have free: "pc = FreeMemory \<Longrightarrow> c = DeleteGroup (group_of c)"
    using cs by (cases c) (simp_all add: call_state_def)
  have kept: "groups w' g \<noteq> None" if "egroups M g \<noteq> None" "pc = FreeMemory \<Longrightarrow> g \<noteq> group_of c" for g
  proof (cases "pc = FreeMemory")
    case True
    have "vEventGroupDelete (group_of c) FreeMemory (eworld_of M) = Some (x, w')"
      using w'(1) free [OF True] True by (metis ecall_part.simps(4))
    with that True show ?thesis
      by (auto split: bind_splits)
  next
    case False
    with part_keeps_groups [OF w'(1) that(1)] show ?thesis .
  qed
  have "used_ok M'"
    unfolding used_ok_def
  proof (intro allI impI)
    fix t c' pc'
    assume t: "ecalls M' t = Some (c', pc')" "\<not> (pc' = Woken \<and> marked t (ekernel M'))"
    show "egroups M' (group_of c') \<noteq> None"
    proof (cases "t = running M")
      case True
      then have x: "x = Inl pc'" "c' = c"
        using t(1) by (auto simp: w'(2) split: sum.splits)
      have "pc \<noteq> FreeMemory"
        using w'(1) x(1) free by (cases c) (auto split: bind_splits)
      moreover have "egroups M (group_of c) \<noteq> None"
      proof (cases "pc = Woken")
        case W: True
        with woken_unmarked w'(1) x(1) have "\<not> marked (running M) (ekernel M)"
          by blast
        with used c(1) show ?thesis
          unfolding used_ok_def by blast
      qed (use used c(1) in \<open>unfold used_ok_def, blast\<close>)
      ultimately show ?thesis
        using kept x(2) by (simp add: w'(2))
    next
      case False
      then have M: "ecalls M t = Some (c', pc')" "\<not> (pc' = Woken \<and> marked t (ekernel M))"
        using t marks [OF _ False] by (auto simp: w'(2))
      then have "egroups M (group_of c') \<noteq> None"
        using used unfolding used_ok_def by blast
      moreover have "group_of c' \<noteq> group_of c" if "pc = FreeMemory"
        using c(2) M False that by (auto simp: unused_def)
      ultimately show ?thesis
        using kept by (simp add: w'(2))
    qed
  qed
  moreover have "memory_ok M'"
  proof (cases "pc = FreeMemory")
    case False
    have "egroups M g \<noteq> None" if "groups w' g \<noteq> None" for g
    proof
      assume "egroups M g = None"
      from part_creates_no_group [OF w'(1) this] that show False by simp
    qed
    with mem part_keeps_memory [OF w'(1) False] show ?thesis
      unfolding memory_ok_def by (simp add: w'(2)) blast
  next
    case True
    define g where "g = group_of c"
    have d: "vEventGroupDelete g FreeMemory (eworld_of M) = Some (x, w')"
      using w'(1) free [OF True] True unfolding g_def by (metis ecall_part.simps(4))
    have "g \<noteq> 0"
      using cs free [OF True] True unfolding g_def by (cases c) (simp_all add: call_state_def)
    then obtain h where h: "vPortFree g (memory (eworld_of M)) = Some h" "memory w' = h" "groups w' = (egroups M)(g := None)"
      using d by (auto simp: kernel_free_def split: bind_splits if_splits)
    obtain es where es: "heap_live (memory (eworld_of M)) es" "\<forall>g. egroups M g \<noteq> None \<longrightarrow> g \<in> fst ` set es"
      using mem unfolding memory_ok_def by blast
    have "egroups M g \<noteq> None"
      using used c(1) True unfolding used_ok_def g_def by blast
    then obtain n where n: "(g, n) \<in> set es"
      using es(2) by fastforce
    have "heap_live h (remove1 (g, n) es)"
      using hp.release_law [OF es(1) n] h(1) by auto
    moreover have "g' \<in> fst ` set (remove1 (g, n) es)" if "groups w' g' \<noteq> None" for g'
    proof -
      have "g' \<noteq> g" "g' \<in> fst ` set es"
        using that es(2) by (auto simp: h(3) split: if_splits)
      then obtain m where "(g', m) \<in> set es"
        by auto
      with \<open>g' \<noteq> g\<close> have "(g', m) \<in> set (remove1 (g, n) es)"
        by (simp add: in_set_remove1)
      then show ?thesis by force
    qed
    ultimately show ?thesis
      unfolding memory_ok_def by (auto simp: w'(2) h(2))
  qed
  ultimately show ?thesis ..
qed


lemma disciplined_step:
  assumes inv: "einv M" and used: "used_ok M" and mem: "memory_ok M" and d: "disciplined e M"
  shows "\<exists>r M'. estep e M = Some (r, M') \<and> einv M' \<and> used_ok M' \<and> memory_ok M'"
proof -
  note ok = disciplined_ok [OF inv used mem d]
  obtain r M' where s: "estep e M = Some (r, M')" "einv M'"
    using estep_ok [OF inv ok] by blast
  have "used_ok M' \<and> memory_ok M'"
  proof (cases e)
    case ENext
    with next_step [OF inv used mem] d s(1) show ?thesis by blast
  next
    case (EStart c)
    then have "M' = M\<lparr>ecalls := (ecalls M)(running M := Some (c, Enter))\<rparr>" "egroups M (group_of c) \<noteq> None"
      using s(1) d by (auto split: if_splits)
    with used mem show ?thesis
      by (auto simp: used_ok_def memory_ok_def split: if_splits)
  next
    case (EClear g b)
    then obtain G where G: "egroups M g = Some G" "M' = M\<lparr>eworld_of := set_group g (clear_bits b G) (eworld_of M)\<rparr>"
      using s(1) by (auto simp: xEventGroupClearBits_def split: if_splits bind_splits)
    then have "egroups M' g' = None \<longleftrightarrow> egroups M g' = None" for g'
      by (simp add: set_group_def)
    moreover have "ecalls M' = ecalls M" "ekernel M' = ekernel M" "memory (eworld_of M') = memory (eworld_of M)"
      by (simp_all add: G(2) set_group_def)
    ultimately show ?thesis
      using used mem unfolding used_ok_def memory_ok_def by simp
  next
    case (EKernel a)
    then obtain k' where k': "kexec a (ekernel M) = Some k'" "M' = M\<lparr>eworld_of := (eworld_of M)\<lparr>sched_state := k'\<rparr>\<rparr>"
      using s(1) by auto
    have en: "enabled a (ekernel M)" "by_interrupt a \<or> ecalls M (running M) = None"
      using ok EKernel by simp_all
    have "marked t k'" if t: "ecalls M t \<noteq> None" "marked t (ekernel M)" for t
    proof (rule kernel_marks [OF einvD(1) [OF inv] en(1) k'(1)])
      show "t \<noteq> running M \<or> by_interrupt a"
        using en(2) t(1) by auto
      obtain c pc where "ecalls M t = Some (c, pc)"
        using t(1) by auto
      from einvD(4) [OF inv this] show "live_task t (ekernel M)"
        by (simp add: call_state_def)
    qed (rule t(2))
    with used mem show ?thesis
      unfolding used_ok_def memory_ok_def k'(2) by (auto simp del: not_None_eq) blast
  qed
  with s show ?thesis by blast
qed

lemma dreach_inv: "dreach M0 M \<Longrightarrow> einv M0 \<Longrightarrow> used_ok M0 \<Longrightarrow> memory_ok M0 \<Longrightarrow> einv M \<and> used_ok M \<and> memory_ok M"
proof (induction rule: dreach.induct)
  case (step M e r M')
  then show ?case
    using disciplined_step [of M e] by auto
qed simp

end
