(* ===== verification/EventProps.thy ===== *)
theory EventProps
  imports EventUse TaskProps
begin

text \<open>The properties of the event groups, each with a concrete instance.\<close>

section \<open>Concrete machines\<close>

text \<open>
  The kernel of the scheduler's examples with task 24 in a call on the group at \<open>0x20200008\<close>, where
  it waits for the bits 0 and 1; 16 runs.
\<close>

abbreviation demo_group :: addr where
  "demo_group \<equiv> 0x20200008"

definition waiting_lists :: task_lists where
  "waiting_lists = \<lparr>items = (\<lambda>_. [])(Ready 0 := [StateItem 8], Ready 5 := [StateItem 16], Suspended := [StateItem 24],
       EventList (demo_group + 4) := [EventItem 24]),
     walk = (\<lambda>_. None), item_value = (\<lambda>_. 0)(EventItem 24 := value_in_use (wait_value 3 True True)),
     container = (\<lambda>_. None)(StateItem 8 := Some (Ready 0), StateItem 16 := Some (Ready 5), StateItem 24 := Some Suspended,
       EventItem 24 := Some (EventList (demo_group + 4)))\<rparr>"

definition waiting_kernel :: kernel where
  "waiting_kernel = demo_kernel\<lparr>klists := waiting_lists\<rparr>"

definition waiting_machine :: "EventGroup \<Rightarrow> heap \<Rightarrow> ecall \<times> epc \<Rightarrow> emachine" where
  "waiting_machine G h x = \<lparr>eworld_of = \<lparr>sched_state = waiting_kernel, groups = (\<lambda>_. None)(demo_group := Some G), memory = h\<rparr>,
     ecalls = (\<lambda>_. None)(24 := Some (Sync demo_group 1 3 portMAX_DELAY, Woken), 16 := Some x)\<rparr>"

lemma waiting_fields [simp]:
  "klists waiting_kernel = waiting_lists" "pxCurrentTCB waiting_kernel = 16" "uxSchedulerSuspended waiting_kernel = 0"
  "tcbs waiting_kernel = tcbs demo_kernel" "xIdleTaskHandle waiting_kernel = 8"
  "items waiting_lists = (\<lambda>_. [])(Ready 0 := [StateItem 8], Ready 5 := [StateItem 16], Suspended := [StateItem 24],
       EventList (demo_group + 4) := [EventItem 24])"
  "container waiting_lists = (\<lambda>_. None)(StateItem 8 := Some (Ready 0), StateItem 16 := Some (Ready 5), StateItem 24 := Some Suspended,
       EventItem 24 := Some (EventList (demo_group + 4)))"
  "item_value waiting_lists (EventItem 24) = value_in_use (wait_value 3 True True)" "walk waiting_lists = (\<lambda>_. None)"
  by (simp_all add: waiting_kernel_def waiting_lists_def)

lemma waiting_ready: "is_ready waiting_kernel u \<longleftrightarrow> u = 8 \<or> u = 16"
  by (simp add: is_ready_def)

lemma waiting_kernel_ok: "kernel_ok waiting_kernel"
proof -
  have "lists_ok waiting_lists"
    by (auto simp: lists_ok_def split: if_splits)
  moreover have "typed (tcbs demo_kernel) waiting_lists"
    by (auto simp: typed_def demo_tcb_def)
  moreover have "placed {} (tcbs demo_kernel) waiting_lists"
    by (simp add: placed_def)
  moreover have "priorities_ok (tcbs demo_kernel)"
    by (simp add: priorities_ok_def demo_tcb_def configMAX_PRIORITIES_def)
  moreover have "bits_ok {} waiting_lists 33"
    unfolding bits_ok_def bit_33 by (auto simp: configMAX_PRIORITIES_def split: if_splits)
  moreover have "delays_ok (Suc (xTickCount demo_kernel)) waiting_lists Delayed1 Delayed2 portMAX_DELAY"
    by (simp add: delays_ok_def)
  ultimately have "kinv {} {} (Suc (xTickCount waiting_kernel)) waiting_kernel"
    by (simp add: kinv_def) (simp add: waiting_kernel_def demo_kernel_def)
  moreover have "events_ok waiting_kernel"
    unfolding events_ok_def waiting_ready by (auto simp: demo_tcb_def split: if_splits)
  moreover have "xSchedulerRunning waiting_kernel" "xPendedTicks waiting_kernel = 0" "xTickCount waiting_kernel = xTickCount demo_kernel"
    "uxCurrentNumberOfTasks waiting_kernel = 3"
    by (simp_all add: waiting_kernel_def demo_kernel_def)
  moreover have "dom (tcbs demo_kernel) = {8, 16, 24}"
    by auto
  then have "finite (dom (tcbs demo_kernel))" "card (dom (tcbs demo_kernel)) = 3"
    by simp_all
  ultimately show ?thesis
    by (simp add: kernel_ok_def sched_def waiting_ready u32_bound_def)
qed

lemma waiting_machine_fields [simp]:
  "ekernel (waiting_machine G h x) = waiting_kernel" "egroups (waiting_machine G h x) = (\<lambda>_. None)(demo_group := Some G)"
  "ecalls (waiting_machine G h x) = (\<lambda>_. None)(24 := Some (Sync demo_group 1 3 portMAX_DELAY, Woken), 16 := Some x)"
  "memory (eworld_of (waiting_machine G h x)) = h"
  by (simp_all add: waiting_machine_def)

lemma small_no_control: "no_control 0" "no_control 1" "no_control 2" "no_control 3"
  by (simp_all add: no_control_def eventEVENT_BITS_CONTROL_BYTES_def)

lemma waiting_machine_inv:
  assumes "no_control (uxEventBits G)" "uxEventBits G AND 3 \<noteq> 3" "fits (fst x) (snd x)" "snd x \<noteq> Woken" "call_args (fst x)"
  shows "einv (waiting_machine G h x)"
  unfolding einv_def
proof (intro conjI allI impI)
  fix t c pc
  assume "ecalls (waiting_machine G h x) t = Some (c, pc)"
  then show "call_state (waiting_machine G h x) t c pc"
    using assms(3-5) small_no_control
    by (auto simp: call_state_def still_waits_def u32_bound_def portMAX_DELAY_def ex_bool_eq split: if_splits)
next
  fix g G' t
  assume "egroups (waiting_machine G h x) g = Some G'" "EventItem t \<in> set (waiting (g + 4) (ekernel (waiting_machine G h x)))"
  then show "waiter_ok (waiting_machine G h x) g G' t"
    using assms(2) by (auto simp: waiter_ok_def prvTestWaitCondition_def split: if_splits)
qed (use assms waiting_kernel_ok in \<open>auto split: if_splits\<close>)

section \<open>Setting bits\<close>

text \<open>A task that has been handed the bits \<open>v\<close>: it is ready, and its call is going to return them.\<close>

definition handed :: "emachine \<Rightarrow> tid \<Rightarrow> event_bits \<Rightarrow> bool" where
  "handed M t v \<longleftrightarrow>
     is_ready (ekernel M) t \<and> (\<forall>e. EventItem t \<notin> set (waiting e (ekernel M))) \<and>
     event_value t (ekernel M) = value_in_use (unblocked_value v)"

text \<open>The tasks in a call that waits on the list of a group, with what they wait for.\<close>

definition waits_on :: "emachine \<Rightarrow> addr \<Rightarrow> tid \<Rightarrow> event_bits \<times> bool \<times> bool \<Rightarrow> bool" where
  "waits_on M g t x \<longleftrightarrow>
     EventItem t \<in> set (waiting (g + 4) (ekernel M)) \<and> (\<exists>c. ecalls M t = Some (c, Woken) \<and> group_of c = g \<and> wait_of c = Some x)"

lemma bit_wanted: "bit (wanted bits k js) n \<longleftrightarrow> (\<exists>i \<in> set js. matching bits k i \<and> bit (bits_to_clear (list_item_value i k)) n)"
  by (induction js) (auto simp: bit_or_iff)

lemma waits_on_value:
  assumes "einv M" "waits_on M g t (b, clear, all)"
  shows "list_item_value (EventItem t) (ekernel M) = wait_value b clear all OR IN_USE" "no_control b"
    "EventItem t \<in> set (waiting (g + 4) (ekernel M))"
    "matching bits (ekernel M) (EventItem t) \<longleftrightarrow> prvTestWaitCondition bits b all"
proof -
  obtain c where c: "ecalls M t = Some (c, Woken)" "wait_of c = Some (b, clear, all)" "EventItem t \<in> set (waiting (g + 4) (ekernel M))"
    using assms(2) by (auto simp: waits_on_def)
  note V = on_list_value [OF assms(1) c]
  show "list_item_value (EventItem t) (ekernel M) = wait_value b clear all OR IN_USE" "no_control b"
    "EventItem t \<in> set (waiting (g + 4) (ekernel M))"
    using V c(3) by (simp_all add: list_item_value_def)
  then show "matching bits (ekernel M) (EventItem t) \<longleftrightarrow> prvTestWaitCondition bits b all"
    using wait_value_match by simp
qed

lemma on_list_waits:
  assumes "einv M" "egroups M g = Some G" "EventItem t \<in> set (waiting (g + 4) (ekernel M))"
  obtains b clear all where "waits_on M g t (b, clear, all)"
  using einvD(3) [OF assms] assms(3) that by (auto simp: waiter_ok_def waits_on_def)

text \<open>What the locked part of setting bits does, in terms of the waiting calls.\<close>

lemma unblocks_handed:
  assumes inv: "einv M" and u: "unblocks (g + 4) (unblocked_value v) us (ekernel M) (ekernel M')" and ok: "kernel_ok (ekernel M')"
    and t: "EventItem t \<in> us" "us \<subseteq> set (waiting (g + 4) (ekernel M))"
  shows "handed M' t v"
proof -
  have "EventItem t \<notin> set (waiting e (ekernel M'))" for e
  proof (cases "e = g + 4")
    case True
    with unblocksD(1) [OF u] t(1) show ?thesis by simp
  next
    case False
    moreover have "EventItem t \<in> set (waiting (g + 4) (ekernel M))"
      using t by blast
    ultimately show ?thesis
      using unblocksD(2) [OF u False] lists_ok_apart [OF kinv_parts(1) [OF kernel_okD(2) [OF einvD(1) [OF inv]]]] by fastforce
  qed
  then show ?thesis
    using unblocksD(3,5) [OF u t(1)] by (simp add: handed_def)
qed

lemma cleared_bits:
  assumes inv: "einv M" and G: "egroups M g = Some G"
  shows "bit (wanted bits (ekernel M) (waiting (g + 4) (ekernel M))) n \<longleftrightarrow>
    (\<exists>t b all. waits_on M g t (b, True, all) \<and> prvTestWaitCondition bits b all \<and> bit b n)"
  (is "?l \<longleftrightarrow> ?r")
proof
  assume ?l
  then obtain i where i: "i \<in> set (waiting (g + 4) (ekernel M))" "matching bits (ekernel M) i"
    "bit (bits_to_clear (list_item_value i (ekernel M))) n"
    by (auto simp: bit_wanted)
  obtain t where t: "i = EventItem t"
    using waiting_event [OF einvD(1) [OF inv] i(1)] .
  obtain b clear all where w: "waits_on M g t (b, clear, all)"
    by (rule on_list_waits [OF inv G]) (use i(1) t in simp)
  note V = waits_on_value [OF inv w]
  show ?r
    using i(2,3) w V by (auto simp: t wait_value_clear split: if_splits)
next
  assume ?r
  then obtain t b all where w: "waits_on M g t (b, True, all)" "prvTestWaitCondition bits b all" "bit b n"
    by blast
  note V = waits_on_value [OF inv w(1)]
  show ?l
    unfolding bit_wanted using w(2,3) V by (intro bexI [of _ "EventItem t"]) (simp_all add: wait_value_clear)
qed

text \<open>
  C11. Setting bits wakes exactly the tasks it should. When the running task sets bits, every task on
  the list of the group whose condition (any bit, or all) holds for the old and new bits together
  becomes ready and is handed those bits, every other task stays on the list, and afterwards
  exactly the bits are cleared that some woken task asked to clear, after all tasks were looked at.
\<close>

theorem set_bits_wakes_exactly_the_satisfied:
  assumes "einv M" "eok ENext M" "ecalls M (running M) = Some (SetBits g s, Locked)" "egroups M g = Some G"
  shows "\<exists>M' G'. estep ENext M = Some (None, M') \<and> egroups M' g = Some G' \<and>
    (\<forall>t b clear all. waits_on M g t (b, clear, all) \<longrightarrow>
       (if prvTestWaitCondition (uxEventBits G OR s) b all then handed M' t (uxEventBits G OR s)
        else waits_on M' g t (b, clear, all))) \<and>
    (\<forall>n. bit (uxEventBits G') n \<longleftrightarrow> bit (uxEventBits G OR s) n \<and>
       \<not> (\<exists>t b all. waits_on M g t (b, True, all) \<and> prvTestWaitCondition (uxEventBits G OR s) b all \<and> bit b n))"
proof -
  let ?k = "ekernel M" and ?bits = "uxEventBits G OR s"
  have run: "runs ?k" and bound: "uxSchedulerSuspended ?k + 1 < u32_bound"
    using assms(2,3) by simp_all
  let ?c = "wanted ?bits ?k (waiting (g + 4) ?k)" and ?U = "satisfied g ?bits ?k"
  obtain k' where k': "set_bits_locked g s (eworld_of M) =
      Some ((set_group g (G\<lparr>uxEventBits := ?bits AND NOT ?c\<rparr>) (eworld_of M))\<lparr>sched_state := k'\<rparr>)"
    "kernel_ok k'" "unblocks (g + 4) (unblocked_value ?bits) ?U ?k k'"
    using set_locked_ok [OF einvD(1) [OF assms(1)] run bound assms(4), of s] by blast
  define w' where "w' = (set_group g (G\<lparr>uxEventBits := ?bits AND NOT ?c\<rparr>) (eworld_of M))\<lparr>sched_state := k'\<rparr>"
  define M' where "M' = M\<lparr>eworld_of := w', ecalls := (ecalls M)(running M := Some (SetBits g s, ReadBits))\<rparr>"
  have step: "estep ENext M = Some (None, M')" and g': "egroups M' g = Some (G\<lparr>uxEventBits := ?bits AND NOT ?c\<rparr>)"
    and kM: "ekernel M' = k'"
    using assms(3) k'(1) by (simp_all add: M'_def w'_def set_group_def)
  have u: "unblocks (g + 4) (unblocked_value ?bits) ?U ?k (ekernel M')" "kernel_ok (ekernel M')"
    using k'(2,3) by (simp_all only: kM)
  have "if prvTestWaitCondition ?bits b all then handed M' t ?bits else waits_on M' g t (b, clear, all)"
    if w: "waits_on M g t (b, clear, all)" for t b clear all
  proof (cases "prvTestWaitCondition ?bits b all")
    case True
    then have "EventItem t \<in> ?U"
      using waits_on_value(3,4) [OF assms(1) w] by simp
    then have "handed M' t ?bits"
      by (rule unblocks_handed [OF assms(1) u]) blast
    with True show ?thesis by simp
  next
    case False
    then have "EventItem t \<in> set (waiting (g + 4) (ekernel M'))"
      using waits_on_value(3,4) [OF assms(1) w] unblocksD(1) [OF u(1)] by simp
    moreover have "t \<noteq> running M"
      using running_not_waiting [OF assms(1) run] waits_on_value(3) [OF assms(1) w] by blast
    ultimately show ?thesis
      using False w by (simp add: waits_on_def M'_def)
  qed
  moreover have "bit (?bits AND NOT ?c) n \<longleftrightarrow> bit ?bits n \<and>
      \<not> (\<exists>t b all. waits_on M g t (b, True, all) \<and> prvTestWaitCondition ?bits b all \<and> bit b n)" for n
    unfolding cleared_bits [OF assms(1,4), symmetric]
    by (auto simp: bit_and_iff bit_not_iff bit_or_iff dest: bit_imp_le_length)
  ultimately show ?thesis
    using step g' by (intro exI [of _ M'] exI [of _ "G\<lparr>uxEventBits := ?bits AND NOT ?c\<rparr>"]) simp
qed

theorem set_bits_wakes_exactly_the_satisfied_witness:
  "\<exists>M' G'. estep ENext (waiting_machine \<lparr>uxEventBits = 1, uxEventGroupNumber = 0\<rparr> boot_heap (SetBits demo_group 6, Locked)) = Some (None, M') \<and>
    egroups M' demo_group = Some G' \<and> handed M' 24 7 \<and> bit (uxEventBits G') 2 \<and> \<not> bit (uxEventBits G') 0"
proof -
  let ?G = "\<lparr>uxEventBits = 1, uxEventGroupNumber = 0\<rparr>"
  let ?M = "waiting_machine ?G boot_heap (SetBits demo_group 6, Locked)"
  have nc: "no_control 6"
    by (simp add: no_control_def eventEVENT_BITS_CONTROL_BYTES_def)
  have inv: "einv ?M"
    by (rule waiting_machine_inv) (simp_all add: small_no_control nc)
  have ok: "eok ENext ?M" "ecalls ?M (running ?M) = Some (SetBits demo_group 6, Locked)" "egroups ?M demo_group = Some ?G"
    by (simp_all add: waiting_ready u32_bound_def waiting_machine_def)
  have w: "waits_on ?M demo_group t x \<longleftrightarrow> t = 24 \<and> x = (3, True, True)" for t x
    by (auto simp: waits_on_def)
  have seven: "uxEventBits ?G OR 6 = 7"
    by simp
  obtain M' G' where M': "estep ENext ?M = Some (None, M')" "egroups M' demo_group = Some G'"
    "\<And>t b clear all. waits_on ?M demo_group t (b, clear, all) \<Longrightarrow>
      (if prvTestWaitCondition 7 b all then handed M' t 7 else waits_on M' demo_group t (b, clear, all))"
    "\<And>n. bit (uxEventBits G') n \<longleftrightarrow> bit (7 :: event_bits) n \<and>
       \<not> (\<exists>t b all. waits_on ?M demo_group t (b, True, all) \<and> prvTestWaitCondition 7 b all \<and> bit b n)"
    using set_bits_wakes_exactly_the_satisfied [OF inv ok, unfolded seven] by blast
  have c: "prvTestWaitCondition 7 3 True" and w24: "waits_on ?M demo_group 24 (3, True, True)"
    using w by (simp_all add: prvTestWaitCondition_def)
  have "handed M' 24 7"
    using M'(3) [OF w24] c by (simp only: if_True)
  moreover have "bit (3 :: event_bits) 0"
    by (simp add: bit_0)
  with w24 c have "\<not> bit (uxEventBits G') 0"
    unfolding M'(4) by blast
  moreover have "bit (7 :: event_bits) 2" "\<not> bit (3 :: event_bits) 2"
    by code_simp+
  then have "bit (uxEventBits G') 2"
    unfolding M'(4) w by blast
  ultimately show ?thesis
    using M'(1,2) by blast
qed

section \<open>Meeting at a rendezvous, deleting a group\<close>

text \<open>
  C15. The rendezvous completes. When a task reaches \<open>xEventGroupSync\<close> and its bits are the last
  ones missing, its call returns at once with all the bits, the bits of the rendezvous are clear
  again for the next one, and every task whose wait is satisfied by them is ready and is handed
  the same bits.
\<close>

theorem rendezvous_completes:
  assumes "einv M" "eok ENext M" "ecalls M (running M) = Some (Sync g s b n, Locked)" "egroups M g = Some G"
    "(uxEventBits G OR s) AND b = b"
  shows "\<exists>M' G'. estep ENext M = Some (Some (Bits (uxEventBits G OR s)), M') \<and>
    egroups M' g = Some G' \<and> uxEventBits G' AND b = 0 \<and> ecalls M' (running M) = None \<and>
    (\<forall>t b' clear all. waits_on M g t (b', clear, all) \<longrightarrow> prvTestWaitCondition (uxEventBits G OR s) b' all \<longrightarrow>
       handed M' t (uxEventBits G OR s))"
proof -
  note inv = assms(1)
  let ?c = "Sync g s b n" and ?old = "uxEventBits G OR s"
  have run: "runs (ekernel M)" and bound: "uxSchedulerSuspended (ekernel M) + 1 < u32_bound" "uxSchedulerSuspended (ekernel M) + 2 < u32_bound"
    using assms(2,3) by simp_all
  have args: "call_args ?c"
    using einvD(4) [OF inv assms(3)] by (simp add: call_state_def)
  define M0 where "M0 = M\<lparr>eworld_of := (eworld_of M)\<lparr>sched_state := vTaskSuspendAll (ekernel M)\<rparr>\<rparr>"
  note S = suspended_machine [OF inv run bound(1), folded M0_def]
  have m0: "uxSchedulerSuspended (ekernel M0) + 1 < u32_bound" "egroups M0 g = Some G" "no_control s" "g \<noteq> 0"
    "ecalls M0 (running M0) = Some (?c, Locked)"
    using bound(2) S(3-6) assms(3,4) args by simp_all
  obtain r1 w1 m where W: "set_bits_now g s (eworld_of M0) = Some (r1, w1)" "einv (M0\<lparr>eworld_of := w1\<rparr>)"
    "groups w1 = (egroups M0)(g := Some (G\<lparr>uxEventBits := ?old AND m\<rparr>))"
    "unblocks (g + 4) (unblocked_value ?old) (satisfied g ?old (ekernel M0)) (ekernel M0) (sched_state w1)"
    using set_now_part [OF S(1,2) m0 args] by blast
  let ?G = "G\<lparr>uxEventBits := ?old AND m\<rparr>" and ?M1 = "M0\<lparr>eworld_of := w1\<rparr>"
  have ok1: "kernel_ok (sched_state w1)" "0 < uxSchedulerSuspended (sched_state w1)"
    using einvD(1) [OF W(2)] unblocksD(10) [OF W(4)] S(3) by simp_all
  obtain y k' where k': "xTaskResumeAll (sched_state w1) = Some (y, k')" "keeps_ready (sched_state w1) k'"
    using resume_all_ok [OF kernel_okD(1) [OF ok1(1)] ok1(2)] by blast
  note K = keeps_resume_all [OF k'(1), of "{}" "{}"]
  define w' where "w' = (set_group g (clear_bits b ?G) w1)\<lparr>sched_state := k'\<rparr>"
  define M' where "M' = M\<lparr>eworld_of := w', ecalls := (ecalls M)(running M := None)\<rparr>"
  have step: "estep ENext M = Some (Some (Bits ?old), M')"
    using assms(3-5) W(1,3) k'(1) by (simp add: Let_def resume_return_def M'_def w'_def flip: M0_def) (simp add: M0_def set_group_def)
  have hand: "handed M' t ?old" if t: "waits_on M g t (b', clear, all)" "prvTestWaitCondition ?old b' all" for t b' clear all
  proof -
    have "waits_on M0 g t (b', clear, all)"
      using t(1) S(6,8) by (simp add: waits_on_def)
    then have "EventItem t \<in> satisfied g ?old (ekernel M0)"
      using waits_on_value(3,4) [OF S(1)] t(2) by simp
    moreover have "unblocks (g + 4) (unblocked_value ?old) (satisfied g ?old (ekernel M0)) (ekernel M0) (ekernel ?M1)"
      using W(4) by simp
    ultimately have h: "handed ?M1 t ?old"
      using unblocks_handed [OF S(1) _ einvD(1) [OF W(2)], of g ?old _ t] by blast
    then have "\<not> event_value_free t (sched_state w1)"
      using value_in_use_flag by (simp add: handed_def event_value_free_def)
    then have "event_value t k' = event_value t (sched_state w1)"
      using K unfolding keeps_def by blast
    moreover have "EventItem t \<notin> set (waiting e k')" for e
    proof
      assume "EventItem t \<in> set (waiting e k')"
      then have "EventItem t \<in> set (waiting e (sched_state w1))"
        using K unfolding keeps_def by blast
      then show False
        using h by (simp add: handed_def)
    qed
    moreover have "is_ready k' t"
      using k'(2) h by (simp add: keeps_ready_def handed_def)
    ultimately show ?thesis
      using h by (simp add: handed_def M'_def w'_def)
  qed
  have "egroups M' g = Some (clear_bits b ?G)" "uxEventBits (clear_bits b ?G) AND b = 0" "ecalls M' (running M) = None"
    by (simp_all add: M'_def w'_def set_group_def clear_bits_def) (auto simp: event_eq_iff bit_simps)
  with step hand show ?thesis by blast
qed

theorem rendezvous_completes_witness:
  "\<exists>M' G'. estep ENext (waiting_machine \<lparr>uxEventBits = 1, uxEventGroupNumber = 0\<rparr> boot_heap (Sync demo_group 2 3 0, Locked)) = Some (Some (Bits 3), M') \<and>
    egroups M' demo_group = Some G' \<and> uxEventBits G' AND 3 = 0 \<and> handed M' 24 3"
proof -
  let ?G = "\<lparr>uxEventBits = 1, uxEventGroupNumber = 0\<rparr>"
  let ?M = "waiting_machine ?G boot_heap (Sync demo_group 2 3 0, Locked)"
  have inv: "einv ?M"
    by (rule waiting_machine_inv) (simp_all add: small_no_control u32_bound_def)
  have ok: "eok ENext ?M" "ecalls ?M (running ?M) = Some (Sync demo_group 2 3 0, Locked)" "egroups ?M demo_group = Some ?G"
    "(uxEventBits ?G OR 2) AND 3 = 3"
    by (simp_all add: waiting_ready u32_bound_def waiting_machine_def)
  have three: "uxEventBits ?G OR 2 = 3"
    by simp
  have w: "waits_on ?M demo_group 24 (3, True, True)" "prvTestWaitCondition 3 3 True"
    by (simp_all add: waits_on_def prvTestWaitCondition_def)
  show ?thesis
    using rendezvous_completes [OF inv ok, unfolded three] w by blast
qed

text \<open>
  Deleting a group unblocks every task that waits for it: the list is empty afterwards, and all
  the tasks are ready and are handed the value 0.
\<close>

theorem delete_unblocks_every_waiter:
  assumes "einv M" "eok ENext M" "ecalls M (running M) = Some (DeleteGroup g, Locked)"
  shows "\<exists>M'. estep ENext M = Some (None, M') \<and> waiting (g + 4) (ekernel M') = [] \<and>
    (\<forall>t. EventItem t \<in> set (waiting (g + 4) (ekernel M)) \<longrightarrow> handed M' t 0)"
proof -
  have run: "runs (ekernel M)" and bound: "uxSchedulerSuspended (ekernel M) + 1 < u32_bound" and g: "g \<noteq> 0" "egroups M g \<noteq> None"
    using assms(2,3) einvD(4) [OF assms(1,3)] by (auto simp: call_state_def)
  let ?U = "set (waiting (g + 4) (ekernel M))"
  obtain w' where w': "vEventGroupDelete g Locked (eworld_of M) = Some (Inl FreeMemory, w')"
    "einv (M\<lparr>eworld_of := w', ecalls := (ecalls M)(running M := Some (DeleteGroup g, FreeMemory))\<rparr>)"
    "unblocks (g + 4) (unblocked_value 0) ?U (ekernel M) (sched_state w')"
    using delete_locked_part [OF assms(1) run bound assms(3) g] by blast
  define M' where "M' = M\<lparr>eworld_of := w', ecalls := (ecalls M)(running M := Some (DeleteGroup g, FreeMemory))\<rparr>"
  have M': "ekernel M' = sched_state w'" "einv M'"
    using w'(2) by (simp_all add: M'_def)
  have "handed M' t 0" if "EventItem t \<in> ?U" for t
    by (rule unblocks_handed [OF assms(1) w'(3) [folded M'(1)] einvD(1) [OF M'(2)] that order_refl])
  moreover have "estep ENext M = Some (None, M')"
    using assms(3) w'(1) by (simp add: M'_def del: vEventGroupDelete.simps)
  ultimately show ?thesis
    using unblocksD(1) [OF w'(3)] M'(1) by (intro exI [of _ M']) simp
qed

theorem delete_unblocks_every_waiter_witness:
  "\<exists>M'. estep ENext (waiting_machine \<lparr>uxEventBits = 1, uxEventGroupNumber = 0\<rparr> boot_heap (DeleteGroup demo_group, Locked)) = Some (None, M') \<and>
    handed M' 24 0"
proof -
  let ?M = "waiting_machine \<lparr>uxEventBits = 1, uxEventGroupNumber = 0\<rparr> boot_heap (DeleteGroup demo_group, Locked)"
  have inv: "einv ?M"
    by (rule waiting_machine_inv) (simp_all add: small_no_control)
  have ok: "eok ENext ?M" "ecalls ?M (running ?M) = Some (DeleteGroup demo_group, Locked)"
    by (simp_all add: waiting_ready u32_bound_def waiting_machine_def)
  have "EventItem 24 \<in> set (waiting (demo_group + 4) (ekernel ?M))"
    by simp
  then show ?thesis
    using delete_unblocks_every_waiter [OF inv ok] by blast
qed

section \<open>Every history\<close>

text \<open>
  C12. Used with discipline, event groups never fail. The callers' part is that a call is started
  with a group that exists and sensible arguments, and that the task that deletes a group gives its
  memory back only when every other call on the group is that of a task that has been unblocked
  (\<open>unused\<close>); without the second, setting bits can read memory that is gone. Then, whatever calls of
  setting, clearing, waiting, rendezvous and deletion, whatever other kernel operations, interrupts
  and context switches follow in whatever interleaving, every event runs to its end: every part
  finds its group, freeing a group passes the assertions of the heap, no other assertion fails, the
  kernel stays consistent, and the groups stay live blocks of the heap.
\<close>

theorem event_group_calls_never_fail:
  assumes "einv M0" "used_ok M0" "memory_ok M0" "dreach M0 M" "disciplined e M"
  shows "\<exists>r M'. estep e M = Some (r, M') \<and> kernel_ok (ekernel M') \<and> einv M' \<and> used_ok M' \<and> memory_ok M'"
proof -
  have "einv M" "used_ok M" "memory_ok M"
    using dreach_inv [OF assms(4,1,2,3)] by simp_all
  from disciplined_step [OF this assms(5)] show ?thesis
    using einvD(1) by blast
qed

text \<open>Task 16 sets bits of a group at the first block of the heap, for which 24 waits.\<close>

theorem event_group_calls_never_fail_witness:
  "\<exists>h r M1 r' M2. let M0 = waiting_machine \<lparr>uxEventBits = 1, uxEventGroupNumber = 0\<rparr> h (SetBits demo_group 2, Enter) in
    estep ENext M0 = Some (r, M1) \<and> estep ENext M1 = Some (r', M2) \<and> kernel_ok (ekernel M2) \<and> used_ok M2 \<and> memory_ok M2"
proof -
  obtain h where "heap_ok h [(0x20200070, 130952), (0x2021FFF8, 0), (0x20220000, 131064), (0x2023FFF8, 0)] [(0x20200000, 112)]"
    using boot_malloc by blast
  then have h: "heap_live h [(demo_group, 104)]"
    unfolding heap_live_def by (fastforce simp: live_extents_def)
  define M0 where "M0 = waiting_machine \<lparr>uxEventBits = 1, uxEventGroupNumber = 0\<rparr> h (SetBits demo_group 2, Enter)"
  have inv: "einv M0"
    unfolding M0_def by (rule waiting_machine_inv) (simp_all add: small_no_control)
  have used: "used_ok M0"
    by (auto simp: used_ok_def M0_def waiting_machine_def split: if_splits)
  have mem: "memory_ok M0"
    unfolding memory_ok_def using h by (intro exI [of _ "[(demo_group, 104)]"]) (auto simp: M0_def waiting_machine_def)
  have ok: "disciplined ENext M0"
    by (simp add: M0_def waiting_ready u32_bound_def small_no_control)
  define M1 where "M1 = M0\<lparr>ecalls := (ecalls M0)(16 := Some (SetBits demo_group 2, Locked))\<rparr>"
  have s1: "estep ENext M0 = Some (None, M1)"
    by (simp add: M0_def M1_def eventEVENT_BITS_CONTROL_BYTES_def)
  have M1: "dreach M0 M1"
    by (rule dreach.step [OF dreach.start ok s1])
  have "disciplined ENext M1"
    by (simp add: M1_def M0_def waiting_ready u32_bound_def)
  then obtain r' M2 where "estep ENext M1 = Some (r', M2)" "kernel_ok (ekernel M2)" "used_ok M2" "memory_ok M2"
    using event_group_calls_never_fail [OF inv used mem M1] by blast
  with s1 show ?thesis
    unfolding M0_def Let_def by blast
qed

text \<open>
  C13. Nobody waits for bits that are there. In every reachable machine a task on the list of a
  group is in a call on that group whose condition does not hold for the bits of the group, and the
  control byte of the group is clear.
\<close>

theorem no_task_waits_for_set_bits:
  assumes "einv M0" "ereach M0 M" "egroups M g = Some G"
  shows "no_control (uxEventBits G) \<and>
    (\<forall>t. EventItem t \<in> set (waiting (g + 4) (ekernel M)) \<longrightarrow>
       (\<exists>b clear all. waits_on M g t (b, clear, all) \<and> \<not> prvTestWaitCondition (uxEventBits G) b all))"
proof -
  note inv = ereach_inv [OF assms(2,1)]
  have "\<exists>b clear all. waits_on M g t (b, clear, all) \<and> \<not> prvTestWaitCondition (uxEventBits G) b all"
    if "EventItem t \<in> set (waiting (g + 4) (ekernel M))" for t
    using einvD(3) [OF inv assms(3) that] that by (fastforce simp: waiter_ok_def waits_on_def)
  with einvD(2) [OF inv assms(3)] show ?thesis by blast
qed

theorem no_task_waits_for_set_bits_witness:
  "\<exists>b clear all. waits_on (waiting_machine \<lparr>uxEventBits = 1, uxEventGroupNumber = 0\<rparr> boot_heap (SetBits demo_group 2, Enter)) demo_group 24 (b, clear, all) \<and>
    \<not> prvTestWaitCondition 1 b all"
proof -
  let ?M = "waiting_machine \<lparr>uxEventBits = 1, uxEventGroupNumber = 0\<rparr> boot_heap (SetBits demo_group 2, Enter)"
  have inv: "einv ?M"
    by (rule waiting_machine_inv) (simp_all add: small_no_control)
  have g: "egroups ?M demo_group = Some \<lparr>uxEventBits = 1, uxEventGroupNumber = 0\<rparr>"
    by simp
  have "EventItem 24 \<in> set (waiting (demo_group + 4) (ekernel ?M))"
    by simp
  then show ?thesis
    using no_task_waits_for_set_bits [OF inv ereach.start g] by simp
qed

text \<open>
  C14. A wait returns what it promises. When a call that has waited and was unblocked returns, the
  value it returns has the control byte clear and satisfies its condition, unless the value is 0
  and the group has been deleted.
\<close>

theorem wait_result_meets_condition:
  assumes "einv M0" "ereach M0 M" "eok ENext M" "ecalls M (running M) = Some (c, Woken)"
    "estep ENext M = Some (Some (Bits v), M')" "wait_of c = Some (b, clear, all)"
  shows "no_control v \<and> (prvTestWaitCondition v b all \<or> v = 0 \<and> gone (group_of c) M)"
proof -
  have run: "runs (ekernel M)"
    using assms(3) by simp
  obtain r w' where r: "woken (eworld_of M) = Some (r, w')"
    "r = Inl Expired \<or> (\<exists>v. r = Inr (Bits v) \<and> no_control v \<and> (prvTestWaitCondition v b all \<or> v = 0 \<and> gone (group_of c) M))"
    using woken_part [OF ereach_inv [OF assms(2,1)] run assms(4,6)] by blast
  have "ecall_part c Woken (eworld_of M) = woken (eworld_of M)"
    using assms(6) by (cases c) simp_all
  then have "r = Inr (Bits v)"
    using assms(4,5) r(1) by (simp split: sum.splits)
  with r(2) show ?thesis by simp
qed

text \<open>The running task has waited, and was unblocked with the bits 0 and 1.\<close>

definition woken_machine :: "heap \<Rightarrow> emachine" where
  "woken_machine h = \<lparr>eworld_of = \<lparr>sched_state = list_set_value (EventItem 16) (value_in_use (unblocked_value 3)) demo_kernel,
       groups = \<lambda>_. None, memory = h\<rparr>,
     ecalls = (\<lambda>_. None)(16 := Some (WaitBits demo_group 3 False True 5, Woken))\<rparr>"

lemma woken_machine_fields [simp]:
  "egroups (woken_machine h) = (\<lambda>_. None)" "waiting e (ekernel (woken_machine h)) = []"
  "event_value 16 (ekernel (woken_machine h)) = value_in_use (unblocked_value 3)" "tcbs (ekernel (woken_machine h)) = tcbs demo_kernel"
  "ecalls (woken_machine h) = (\<lambda>_. None)(16 := Some (WaitBits demo_group 3 False True 5, Woken))"
  "running (woken_machine h) = 16" "is_ready (ekernel (woken_machine h)) 16"
  by (simp_all add: woken_machine_def list_set_value_def set_value_def is_ready_def)

lemma woken_machine_inv: "einv (woken_machine h)"
proof -
  have "kernel_ok (ekernel (woken_machine h))"
    using kernel_ok_event_value [OF demo_ok] by (simp add: woken_machine_def)
  moreover have "was_woken (woken_machine h) 16 demo_group (3, False, True)"
    using small_no_control by (auto simp: was_woken_def prvTestWaitCondition_def)
  then have "call_state (woken_machine h) 16 (WaitBits demo_group 3 False True 5) Woken"
    using small_no_control by (simp add: call_state_def u32_bound_def)
  ultimately show ?thesis
    by (simp add: einv_def)
qed

theorem wait_result_meets_condition_witness:
  "\<exists>v M'. estep ENext (woken_machine boot_heap) = Some (Some (Bits v), M') \<and> prvTestWaitCondition v 3 True"
proof -
  let ?M = "woken_machine boot_heap"
  have ok: "eok ENext ?M" and c: "ecalls ?M (running ?M) = Some (WaitBits demo_group 3 False True 5, Woken)"
    by simp_all
  obtain M' where M': "estep ENext ?M = Some (Some (Bits 3), M')"
    using unblocked_value_split small_no_control
    by (simp add: woken_machine_def woken_def uxTaskResetEventItemValue_def Let_def list_set_value_def set_value_def)
  show ?thesis
    using wait_result_meets_condition [OF woken_machine_inv ereach.start ok c M', of 3 False True] M' by auto
qed

section \<open>A group that is gone\<close>

lemma gone_for_good: "ereach M0 M \<Longrightarrow> egroups M0 g = None \<Longrightarrow> egroups M g = None"
proof (induction rule: ereach.induct)
  case (step M e r M')
  then have g: "egroups M g = None"
    by simp
  show ?case
  proof (cases e)
    case ENext
    then obtain c pc r w' where "ecall_part c pc (eworld_of M) = Some (r, w')" "eworld_of M' = w'"
      using step.hyps(3) by (auto simp: bind_eq_Some_conv split: option.splits)
    with g part_creates_no_group show ?thesis by blast
  qed (use step.hyps(3) g in \<open>auto simp: bind_eq_Some_conv xEventGroupClearBits_def set_group_def split: if_splits\<close>)
qed

text \<open>
  C16. Setting bits reads a group that is gone. \<open>xEventGroupSetBits\<close> fetches the value it returns
  after \<open>xTaskResumeAll\<close>, when other tasks may run. If a task that the bits have woken, or any
  other, finishes deleting the group before the setting task runs again, that task reads from
  memory that was given back to the heap, whatever happens in between.
\<close>

theorem set_bits_reads_deleted_group:
  assumes "einv M" "eok ENext M" "ecalls M (running M) = Some (DeleteGroup g, FreeMemory)" "estep ENext M = Some (x, M')"
    "ereach M' M''" "ecalls M'' (running M'') = Some (SetBits g s, ReadBits)"
  shows "x = Some Deleted \<and> estep ENext M'' = None"
proof -
  have "runs (ekernel M)" "next_ok (DeleteGroup g) FreeMemory (eworld_of M)"
    using assms(2,3) by simp_all
  then obtain w' where w': "vEventGroupDelete g FreeMemory (eworld_of M) = Some (Inr Deleted, w')" "groups w' = (egroups M)(g := None)"
    using free_part [OF assms(1) _ assms(3)] by blast
  then have "x = Some Deleted" "egroups M' g = None"
    using assms(3,4) by (auto simp del: vEventGroupDelete.simps)
  with gone_for_good [OF assms(5)] assms(6) show ?thesis by simp
qed

text \<open>Task 24 was preempted before it could read the bits it has set; 16 is about to free the group.\<close>

definition racing_machine :: "heap \<Rightarrow> emachine" where
  "racing_machine h = \<lparr>eworld_of = \<lparr>sched_state = demo_kernel,
       groups = (\<lambda>_. None)(demo_group := Some \<lparr>uxEventBits = 2, uxEventGroupNumber = 0\<rparr>), memory = h\<rparr>,
     ecalls = (\<lambda>_. None)(16 := Some (DeleteGroup demo_group, FreeMemory), 24 := Some (SetBits demo_group 2, ReadBits))\<rparr>"

lemma racing_machine_inv: "einv (racing_machine h)"
  using demo_ok small_no_control by (auto simp: einv_def racing_machine_def call_state_def split: if_splits)

lemma demo_resume: "xTaskResumeAll (vTaskSuspendAll demo_kernel) = Some (False, demo_kernel)"
proof -
  let ?k = "demo_kernel\<lparr>uxSchedulerSuspended := 0\<rparr>"
  have "resume_pending False ?k = Some (False, ?k)"
    by (subst resume_pending.simps) simp
  moreover have "xPendedTicks demo_kernel = 0" and same: "?k = demo_kernel"
    by (simp_all add: demo_kernel_def)
  ultimately show ?thesis
    by (simp only: xTaskResumeAll_def vTaskSuspendAll_def) (simp add: add32_exact u32_bound_def same)
qed

lemma demo_switch: "\<exists>k'. xPortPendSVHandler 7 (demo_kernel\<lparr>pendsv := True\<rparr>) = Some k' \<and> pxCurrentTCB k' = 24"
proof -
  let ?k = "demo_kernel\<lparr>pendsv := False\<rparr>"
  have pre: "kinv {} {} (Suc (xTickCount ?k)) ?k" "is_ready ?k 16" "tcbs ?k (pxCurrentTCB ?k) = Some (demo_tcb 5 40)"
    "uxSchedulerSuspended ?k = 0"
    using kernel_okD(2) [OF demo_ok] by (simp_all add: is_ready_def)
  obtain k' p xs where k': "vTaskSwitchContext 7 ?k = Some k'" "container (klists ?k) (StateItem (pxCurrentTCB k')) = Some (Ready p)"
    "\<And>v q. container (klists ?k) (StateItem v) = Some (Ready q) \<Longrightarrow> q \<le> p" "xs = items (klists ?k) (Ready p)"
    "StateItem (pxCurrentTCB k') = xs ! (Suc (position (walk (klists ?k) (Ready p)) xs) mod length xs)"
    by (rule switch_ok [OF pre, of 7]) blast
  have "5 \<le> p"
    using k'(3) [of 16 5] by simp
  with k'(2) have "p = 5"
    by (auto split: if_splits)
  with k'(1,4,5) show ?thesis
    by (simp add: position_def xPortPendSVHandler_def)
qed

theorem set_bits_reads_deleted_group_witness:
  "\<exists>h M1 M2 M3. estep ENext (racing_machine h) = Some (Some Deleted, M1) \<and> estep (EKernel Yield) M1 = Some (None, M2) \<and>
    estep (EKernel (PendSV 7)) M2 = Some (None, M3) \<and> running M3 = 24 \<and> estep ENext M3 = None"
proof -
  obtain h where h: "heap_ok h [(0x20200070, 130952), (0x2021FFF8, 0), (0x20220000, 131064), (0x2023FFF8, 0)] [(0x20200000, 112)]"
    using boot_malloc by blast
  then obtain h' where h': "vPortFree demo_group h = Some h'"
    using free_refines [OF h, of 538968064 112] by auto
  define M1 where "M1 = (racing_machine h)\<lparr>eworld_of := \<lparr>sched_state = demo_kernel, groups = \<lambda>_. None, memory = h'\<rparr>,
      ecalls := (\<lambda>_. None)(24 := Some (SetBits demo_group 2, ReadBits))\<rparr>"
  define M2 where "M2 = M1\<lparr>eworld_of := (eworld_of M1)\<lparr>sched_state := demo_kernel\<lparr>pendsv := True\<rparr>\<rparr>\<rparr>"
  obtain k' where k': "xPortPendSVHandler 7 (demo_kernel\<lparr>pendsv := True\<rparr>) = Some k'" "pxCurrentTCB k' = 24"
    using demo_switch by blast
  define M3 where "M3 = M2\<lparr>eworld_of := (eworld_of M2)\<lparr>sched_state := k'\<rparr>\<rparr>"
  have s1: "estep ENext (racing_machine h) = Some (Some Deleted, M1)"
    by (simp add: racing_machine_def M1_def kernel_free_def h' demo_resume fun_upd_twist)
  have s2: "estep (EKernel Yield) M1 = Some (None, M2)" "eok (EKernel Yield) M1"
    by (simp_all add: M1_def M2_def portYIELD_WITHIN_API_def is_ready_def)
  have s3: "estep (EKernel (PendSV 7)) M2 = Some (None, M3)" "eok (EKernel (PendSV 7)) M2"
    using k' by (simp_all add: M1_def M2_def M3_def)
  have r: "ereach M1 M3"
    by (rule ereach.step [OF ereach.step [OF ereach.start s2(2,1)] s3(2,1)])
  have ok: "eok ENext (racing_machine h)" "ecalls (racing_machine h) (running (racing_machine h)) = Some (DeleteGroup demo_group, FreeMemory)"
    by (simp_all add: racing_machine_def h' is_ready_def u32_bound_def)
  have c: "ecalls M3 (running M3) = Some (SetBits demo_group 2, ReadBits)"
    using k'(2) by (simp add: M3_def M2_def M1_def)
  have "estep ENext M3 = None"
    using set_bits_reads_deleted_group [OF racing_machine_inv ok s1 r c] by simp
  moreover have "running M3 = 24"
    using k'(2) by (simp add: M3_def)
  ultimately show ?thesis
    using s1 s2(1) s3(1) by blast
qed

end
