(* ===== verification/Timers.thy ===== *)
theory Timers
  imports Queues StreamBuffer
begin

unbundle bit_operations_syntax

text \<open>
  Software timers, \<open>freertos-kernel/timers.c\<close>, on top of the queues. A timer lives at its address in
  the map \<open>timers\<close>; its list item is the item of that number in the store of \<open>KernelLists\<close>, which
  holds the two lists of active timers. Commands travel as messages of 16 bytes through the queue
  to the timer task, the only one that uses the lists. The callbacks of timers and the functions
  other tasks have pended are arguments; \<open>traceTIMER_EXPIRED\<close>, which the code calls before every
  callback, is recorded in \<open>expired\<close>. \<open>None\<close> is a failed assertion, an access to a timer that is
  gone or a loop that does not end.

  The timer task is a sequence of parts between which interrupts and other tasks may run; a part
  with the scheduler suspended, or that works on the lists, is one part, since nobody else uses them.
\<close>

section \<open>State\<close>

definition tmrNO_DELAY :: nat where "tmrNO_DELAY = 0"
definition tmrMAX_TIME_BEFORE_OVERFLOW :: nat where "tmrMAX_TIME_BEFORE_OVERFLOW = 0xFFFFFFFF"
definition tmrSTATUS_IS_ACTIVE :: u8 where "tmrSTATUS_IS_ACTIVE = 0x01"
definition tmrSTATUS_IS_STATICALLY_ALLOCATED :: u8 where "tmrSTATUS_IS_STATICALLY_ALLOCATED = 0x02"
definition tmrSTATUS_IS_AUTORELOAD :: u8 where "tmrSTATUS_IS_AUTORELOAD = 0x04"

definition tmrCOMMAND_EXECUTE_CALLBACK_FROM_ISR :: int where "tmrCOMMAND_EXECUTE_CALLBACK_FROM_ISR = -2"
definition tmrCOMMAND_EXECUTE_CALLBACK :: int where "tmrCOMMAND_EXECUTE_CALLBACK = -1"
definition tmrCOMMAND_START :: int where "tmrCOMMAND_START = 1"
definition tmrCOMMAND_RESET :: int where "tmrCOMMAND_RESET = 2"
definition tmrCOMMAND_STOP :: int where "tmrCOMMAND_STOP = 3"
definition tmrCOMMAND_CHANGE_PERIOD :: int where "tmrCOMMAND_CHANGE_PERIOD = 4"
definition tmrCOMMAND_DELETE :: int where "tmrCOMMAND_DELETE = 5"
definition tmrFIRST_FROM_ISR_COMMAND :: int where "tmrFIRST_FROM_ISR_COMMAND = 6"
definition tmrCOMMAND_START_FROM_ISR :: int where "tmrCOMMAND_START_FROM_ISR = 6"
definition tmrCOMMAND_RESET_FROM_ISR :: int where "tmrCOMMAND_RESET_FROM_ISR = 7"
definition tmrCOMMAND_STOP_FROM_ISR :: int where "tmrCOMMAND_STOP_FROM_ISR = 8"
definition tmrCOMMAND_CHANGE_PERIOD_FROM_ISR :: int where "tmrCOMMAND_CHANGE_PERIOD_FROM_ISR = 9"

lemmas timer_consts = tmrNO_DELAY_def tmrMAX_TIME_BEFORE_OVERFLOW_def tmrSTATUS_IS_ACTIVE_def
  tmrSTATUS_IS_STATICALLY_ALLOCATED_def tmrSTATUS_IS_AUTORELOAD_def
  tmrCOMMAND_EXECUTE_CALLBACK_FROM_ISR_def tmrCOMMAND_EXECUTE_CALLBACK_def tmrCOMMAND_START_def tmrCOMMAND_RESET_def
  tmrCOMMAND_STOP_def tmrCOMMAND_CHANGE_PERIOD_def tmrCOMMAND_DELETE_def tmrFIRST_FROM_ISR_COMMAND_def
  tmrCOMMAND_START_FROM_ISR_def tmrCOMMAND_RESET_FROM_ISR_def tmrCOMMAND_STOP_FROM_ISR_def
  tmrCOMMAND_CHANGE_PERIOD_FROM_ISR_def

record Timer =
  pcTimerName :: "string option"
  xTimerPeriodInTicks :: nat
  pvTimerID :: nat
  pxCallbackFunction :: nat
  uxTimerNumber :: nat
  ucStatus :: u8

record tworld =
  qstate :: qworld
  theap :: heap
  tstore :: store
  timers :: "addr \<Rightarrow> Timer option"
  pxCurrentTimerList :: nat
  pxOverflowTimerList :: nat
  xLastTime :: nat
  xTimerQueue :: addr
  xTimerTaskHandle :: tid
  expired :: "addr list"

type_synonym callback = "nat \<Rightarrow> addr \<Rightarrow> tworld \<Rightarrow> tworld option"
type_synonym pended = "nat \<Rightarrow> nat \<Rightarrow> nat \<Rightarrow> tworld \<Rightarrow> tworld option"

text \<open>Layout: a name, a list item of five words, four words and a byte.\<close>

definition sizeof_Timer_t :: nat where "sizeof_Timer_t = 44"
definition sizeof_DaemonTaskMessage_t :: nat where "sizeof_DaemonTaskMessage_t = 16"
definition xActiveTimerList1 :: nat where "xActiveTimerList1 = 1"
definition xActiveTimerList2 :: nat where "xActiveTimerList2 = 2"
definition configTIMER_QUEUE_LENGTH :: nat where "configTIMER_QUEUE_LENGTH = 10"
definition configTIMER_TASK_PRIORITY :: nat where "configTIMER_TASK_PRIORITY = configMAX_PRIORITIES - 1"
definition configTIMER_TASK_STACK_DEPTH :: nat where "configTIMER_TASK_STACK_DEPTH = configMINIMAL_STACK_SIZE * 2"

abbreviation tkernel :: "tworld \<Rightarrow> kernel" where "tkernel w \<equiv> kern (qstate w)"

definition set_tkernel :: "kernel \<Rightarrow> tworld \<Rightarrow> tworld" where
  "set_tkernel k w = w\<lparr>qstate := (qstate w)\<lparr>kern := k\<rparr>\<rparr>"

definition xTaskGetTickCount :: "kernel \<Rightarrow> nat" where
  "xTaskGetTickCount k = xTickCount k"

definition in_store :: "(store \<Rightarrow> store option) \<Rightarrow> tworld \<Rightarrow> tworld option" where
  "in_store f w = map_option (\<lambda>s. w\<lparr>tstore := s\<rparr>) (f (tstore w))"

definition upd_timer :: "addr \<Rightarrow> (Timer \<Rightarrow> Timer) \<Rightarrow> tworld \<Rightarrow> tworld option" where
  "upd_timer t f w = map_option (\<lambda>T. w\<lparr>timers := (timers w)(t := Some (f T))\<rparr>) (timers w t)"

text \<open>The bits of the status.\<close>

definition set_status :: "u8 \<Rightarrow> Timer \<Rightarrow> Timer" where
  "set_status b T = T\<lparr>ucStatus := ucStatus T OR b\<rparr>"

definition clear_status :: "u8 \<Rightarrow> Timer \<Rightarrow> Timer" where
  "clear_status b T = T\<lparr>ucStatus := ucStatus T AND NOT b\<rparr>"

definition has_status :: "u8 \<Rightarrow> Timer \<Rightarrow> bool" where
  "has_status b T \<longleftrightarrow> ucStatus T AND b \<noteq> 0"

section \<open>Expiry\<close>

definition run_callback :: "callback \<Rightarrow> addr \<Rightarrow> tworld \<Rightarrow> tworld option" where
  "run_callback cb t w =
     do { T \<leftarrow> timers w t; cb (pxCallbackFunction T) t (w\<lparr>expired := expired w @ [t]\<rparr>) }"

definition prvInsertTimerInActiveList :: "addr \<Rightarrow> nat \<Rightarrow> nat \<Rightarrow> nat \<Rightarrow> tworld \<Rightarrow> (bool \<times> tworld) option" where
  "prvInsertTimerInActiveList pxTimer xNextExpiryTime xTimeNow xCommandTime w =
     do { T \<leftarrow> timers w pxTimer;
          w \<leftarrow> in_store (\<lambda>s. Some (listSET_LIST_ITEM_OWNER pxTimer pxTimer (listSET_LIST_ITEM_VALUE pxTimer xNextExpiryTime s))) w;
          if xNextExpiryTime \<le> xTimeNow
          then if sub32 xTimeNow xCommandTime \<ge> xTimerPeriodInTicks T
               then Some (True, w)
               else map_option (Pair False) (in_store (vListInsert (pxOverflowTimerList w) pxTimer) w)
          else if xTimeNow < xCommandTime \<and> xNextExpiryTime \<ge> xCommandTime
               then Some (True, w)
               else map_option (Pair False) (in_store (vListInsert (pxCurrentTimerList w) pxTimer) w) }"

partial_function (option) prvReloadTimer :: "callback \<Rightarrow> addr \<Rightarrow> nat \<Rightarrow> nat \<Rightarrow> tworld \<Rightarrow> tworld option" where
  "prvReloadTimer cb pxTimer xExpiredTime xTimeNow w =
     do { T \<leftarrow> timers w pxTimer;
          let xNext = add32 xExpiredTime (xTimerPeriodInTicks T);
          (again, w) \<leftarrow> prvInsertTimerInActiveList pxTimer xNext xTimeNow xExpiredTime w;
          if again
          then do { w \<leftarrow> run_callback cb pxTimer w; prvReloadTimer cb pxTimer xNext xTimeNow w }
          else Some w }"

text \<open>Reload the timer or mark it dormant, then call its callback.\<close>

definition expire :: "callback \<Rightarrow> addr \<Rightarrow> nat \<Rightarrow> nat \<Rightarrow> tworld \<Rightarrow> tworld option" where
  "expire cb pxTimer xExpiredTime xTimeNow w =
     do { T \<leftarrow> timers w pxTimer;
          w \<leftarrow> (if has_status tmrSTATUS_IS_AUTORELOAD T then prvReloadTimer cb pxTimer xExpiredTime xTimeNow w
                else upd_timer pxTimer (clear_status tmrSTATUS_IS_ACTIVE) w);
          run_callback cb pxTimer w }"

definition prvProcessExpiredTimer :: "callback \<Rightarrow> nat \<Rightarrow> nat \<Rightarrow> tworld \<Rightarrow> tworld option" where
  "prvProcessExpiredTimer cb xNextExpireTime xTimeNow w =
     do { let pxTimer = listGET_OWNER_OF_HEAD_ENTRY (pxCurrentTimerList w) (tstore w);
          _ \<leftarrow> timers w pxTimer;
          w \<leftarrow> in_store (listREMOVE_ITEM pxTimer) w;
          expire cb pxTimer xNextExpireTime xTimeNow w }"

partial_function (option) empty_current_list :: "callback \<Rightarrow> tworld \<Rightarrow> tworld option" where
  "empty_current_list cb w =
     (if listLIST_IS_EMPTY (pxCurrentTimerList w) (tstore w) then Some w
      else do { w \<leftarrow> prvProcessExpiredTimer cb (listGET_ITEM_VALUE_OF_HEAD_ENTRY (pxCurrentTimerList w) (tstore w))
                       tmrMAX_TIME_BEFORE_OVERFLOW w;
                empty_current_list cb w })"

definition prvSwitchTimerLists :: "callback \<Rightarrow> tworld \<Rightarrow> tworld option" where
  "prvSwitchTimerLists cb w =
     do { w \<leftarrow> empty_current_list cb w;
          Some (w\<lparr>pxCurrentTimerList := pxOverflowTimerList w, pxOverflowTimerList := pxCurrentTimerList w\<rparr>) }"

definition prvSampleTimeNow :: "callback \<Rightarrow> tworld \<Rightarrow> (nat \<times> bool \<times> tworld) option" where
  "prvSampleTimeNow cb w =
     do { let xTimeNow = xTaskGetTickCount (tkernel w);
          let switched = (xTimeNow < xLastTime w);
          w \<leftarrow> (if switched then prvSwitchTimerLists cb w else Some w);
          Some (xTimeNow, switched, w\<lparr>xLastTime := xTimeNow\<rparr>) }"

definition prvGetNextExpireTime :: "tworld \<Rightarrow> nat \<times> bool" where
  "prvGetNextExpireTime w =
     (if listLIST_IS_EMPTY (pxCurrentTimerList w) (tstore w) then (0, True)
      else (listGET_ITEM_VALUE_OF_HEAD_ENTRY (pxCurrentTimerList w) (tstore w), False))"

section \<open>Commands\<close>

text \<open>
  A message: an identifier and a union of the parameters of timer commands (a value and a timer)
  and of pended calls (a function and its two arguments). \<open>rest\<close> is what the last word holds in a
  timer command.
\<close>

definition id_word :: "int \<Rightarrow> nat" where
  "id_word i = nat (i mod int u32_bound)"

definition timer_message :: "int \<Rightarrow> nat \<Rightarrow> addr \<Rightarrow> nat \<Rightarrow> u8 list" where
  "timer_message xMessageID xMessageValue pxTimer rest =
     length_bytes (id_word xMessageID) @ length_bytes xMessageValue @ length_bytes pxTimer @ length_bytes rest"

definition pended_message :: "int \<Rightarrow> nat \<Rightarrow> nat \<Rightarrow> nat \<Rightarrow> u8 list" where
  "pended_message xMessageID pxFunction pvParameter1 ulParameter2 =
     length_bytes (id_word xMessageID) @ length_bytes pxFunction @ length_bytes pvParameter1 @ length_bytes ulParameter2"

definition message_word :: "nat \<Rightarrow> u8 list \<Rightarrow> nat" where
  "message_word i bs = bytes_length (drop (4 * i) bs)"

definition message_id :: "u8 list \<Rightarrow> int" where
  "message_id bs = (let n = message_word 0 bs in if n < u32_bound div 2 then int n else int n - int u32_bound)"

text \<open>
  What the timer task does for a timer command: the timer leaves its list, the time is sampled, and
  then the command is carried out, which is \<open>command_case\<close>.
\<close>

definition command_case :: "callback \<Rightarrow> int \<Rightarrow> nat \<Rightarrow> addr \<Rightarrow> nat \<Rightarrow> tworld \<Rightarrow> tworld option" where
  "command_case cb xMessageID xMessageValue pxTimer xTimeNow w =
     do { T \<leftarrow> timers w pxTimer;
          if xMessageID \<in> {tmrCOMMAND_START, tmrCOMMAND_START_FROM_ISR, tmrCOMMAND_RESET, tmrCOMMAND_RESET_FROM_ISR}
          then do { w \<leftarrow> upd_timer pxTimer (set_status tmrSTATUS_IS_ACTIVE) w;
                    let xNext = add32 xMessageValue (xTimerPeriodInTicks T);
                    (now, w) \<leftarrow> prvInsertTimerInActiveList pxTimer xNext xTimeNow xMessageValue w;
                    if now then expire cb pxTimer xNext xTimeNow w else Some w }
          else if xMessageID \<in> {tmrCOMMAND_STOP, tmrCOMMAND_STOP_FROM_ISR}
          then upd_timer pxTimer (clear_status tmrSTATUS_IS_ACTIVE) w
          else if xMessageID \<in> {tmrCOMMAND_CHANGE_PERIOD, tmrCOMMAND_CHANGE_PERIOD_FROM_ISR}
          then do { w \<leftarrow> upd_timer pxTimer (\<lambda>T. set_status tmrSTATUS_IS_ACTIVE T\<lparr>xTimerPeriodInTicks := xMessageValue\<rparr>) w;
                    if xMessageValue > 0
                    then map_option snd (prvInsertTimerInActiveList pxTimer (add32 xTimeNow xMessageValue) xTimeNow xTimeNow w)
                    else None }
          else if xMessageID = tmrCOMMAND_DELETE
          then if \<not> has_status tmrSTATUS_IS_STATICALLY_ALLOCATED T
               then do { (k, h) \<leftarrow> kernel_free pxTimer (tkernel w, theap w);
                         Some ((set_tkernel k w)\<lparr>theap := h, timers := (timers w)(pxTimer := None)\<rparr>) }
               else upd_timer pxTimer (clear_status tmrSTATUS_IS_ACTIVE) w
          else Some w }"

definition process_command :: "callback \<Rightarrow> int \<Rightarrow> nat \<Rightarrow> addr \<Rightarrow> tworld \<Rightarrow> tworld option" where
  "process_command cb xMessageID xMessageValue pxTimer w =
     do { _ \<leftarrow> timers w pxTimer;
          w \<leftarrow> (if pxContainer (node_at (tstore w) (Item pxTimer)) \<noteq> None
                then in_store (listREMOVE_ITEM pxTimer) w else Some w);
          (xTimeNow, _, w) \<leftarrow> prvSampleTimeNow cb w;
          command_case cb xMessageID xMessageValue pxTimer xTimeNow w }"

section \<open>The timer task\<close>

datatype block_pc = Decide nat bool | Waiting qpc nat bool | EndWait

fun prvProcessTimerOrBlockTask :: "callback \<Rightarrow> block_pc \<Rightarrow> tworld \<Rightarrow> ((block_pc + unit) \<times> tworld) option" where
  "prvProcessTimerOrBlockTask cb (Decide xNextExpireTime xListWasEmpty) w =
     do { (xTimeNow, switched, w) \<leftarrow> prvSampleTimeNow cb (set_tkernel (vTaskSuspendAll (tkernel w)) w);
          if \<not> switched \<and> \<not> (\<not> xListWasEmpty \<and> xNextExpireTime \<le> xTimeNow)
          then Some (Inl (Waiting LockQueue (sub32 xNextExpireTime xTimeNow)
                 (xListWasEmpty \<and> listLIST_IS_EMPTY (pxOverflowTimerList w) (tstore w))), w)
          else do { (_, k) \<leftarrow> xTaskResumeAll (tkernel w);
                    let w = set_tkernel k w;
                    w \<leftarrow> (if \<not> switched then prvProcessExpiredTimer cb xNextExpireTime xTimeNow w else Some w);
                    Some (Inr (), w) } }"
| "prvProcessTimerOrBlockTask cb (Waiting pc n indefinitely) w =
     do { (r, q) \<leftarrow> vQueueWaitForMessageRestricted (xTimerQueue w) n indefinitely pc (qstate w);
          Some (Inl (case r of Inl pc \<Rightarrow> Waiting pc n indefinitely | Inr _ \<Rightarrow> EndWait), w\<lparr>qstate := q\<rparr>) }"
| "prvProcessTimerOrBlockTask cb EndWait w =
     do { (yielded, k) \<leftarrow> xTaskResumeAll (tkernel w);
          Some (Inr (), set_tkernel (if yielded then k else portYIELD_WITHIN_API k) w) }"

datatype command_pc = Receiving qpc qlocals | Handling "u8 list"

definition no_wait :: qlocals where
  "no_wait = \<lparr>ticks_left = tmrNO_DELAY, time_out = None, inherited = False\<rparr>"

fun prvProcessReceivedCommands :: "callback \<Rightarrow> pended \<Rightarrow> command_pc \<Rightarrow> tworld \<Rightarrow> ((command_pc + unit) \<times> tworld) option" where
  "prvProcessReceivedCommands cb pf (Receiving pc L) w =
     do { (r, q) \<leftarrow> xQueueReceive (xTimerQueue w) True pc L (qstate w);
          Some (case r of Inl (pc, L) \<Rightarrow> Inl (Receiving pc L) | Inr (pdPASS bs) \<Rightarrow> Inl (Handling bs) | Inr _ \<Rightarrow> Inr (),
            w\<lparr>qstate := q\<rparr>) }"
| "prvProcessReceivedCommands cb pf (Handling bs) w =
     do { w \<leftarrow> (if message_id bs < 0
                then pf (message_word 1 bs) (message_word 2 bs) (message_word 3 bs) w
                else process_command cb (message_id bs) (message_word 1 bs) (message_word 2 bs) w);
          Some (Inl (Receiving Enter no_wait), w) }"

datatype tpc = QueryTimers | Blocking block_pc | Commands command_pc

fun prvTimerTask :: "callback \<Rightarrow> pended \<Rightarrow> tpc \<Rightarrow> tworld \<Rightarrow> (tpc \<times> tworld) option" where
  "prvTimerTask cb pf QueryTimers w =
     (case prvGetNextExpireTime w of (xNextExpireTime, xListWasEmpty) \<Rightarrow> Some (Blocking (Decide xNextExpireTime xListWasEmpty), w))"
| "prvTimerTask cb pf (Blocking pc) w =
     map_option (\<lambda>(r, w). (case r of Inl pc \<Rightarrow> Blocking pc | Inr _ \<Rightarrow> Commands (Receiving Enter no_wait), w))
       (prvProcessTimerOrBlockTask cb pc w)"
| "prvTimerTask cb pf (Commands pc) w =
     map_option (\<lambda>(r, w). (case r of Inl pc \<Rightarrow> Commands pc | Inr _ \<Rightarrow> QueryTimers, w)) (prvProcessReceivedCommands cb pf pc w)"

section \<open>Sending commands\<close>

text \<open>
  A command from a task, by the parts of the queue's send; 0, the value of \<open>pdFAIL\<close>, is also
  \<open>errQUEUE_FULL\<close>. The block time only counts while the scheduler runs.
\<close>

definition xTimerGenericCommandFromTask ::
  "addr \<Rightarrow> int \<Rightarrow> nat \<Rightarrow> nat \<Rightarrow> qpc \<Rightarrow> qlocals \<Rightarrow> tworld \<Rightarrow> (qnext \<times> tworld) option" where
  "xTimerGenericCommandFromTask xTimer xCommandID xOptionalValue rest pc L w =
     (let send = (\<lambda>L. map_option (\<lambda>(r, q). (r, w\<lparr>qstate := q\<rparr>))
            (xQueueGenericSend (xTimerQueue w) (Some (timer_message xCommandID xOptionalValue xTimer rest)) queueSEND_TO_BACK pc L (qstate w)))
      in if pc \<noteq> Enter then send L
         else if xTimer = 0 then None
         else if xTimerQueue w = 0 then Some (Inr errQUEUE_FULL, w)
         else if xCommandID < tmrFIRST_FROM_ISR_COMMAND
         then send (if xTaskGetSchedulerState (tkernel w) = taskSCHEDULER_RUNNING then L else L\<lparr>ticks_left := tmrNO_DELAY\<rparr>)
         else None)"

text \<open>The flags: the message was accepted, a task of higher priority was woken.\<close>

definition send_message_from_isr :: "u8 list \<Rightarrow> tworld \<Rightarrow> (bool \<times> bool \<times> tworld) option" where
  "send_message_from_isr bs w =
     map_option (\<lambda>(ok, woken, q). (ok, woken, w\<lparr>qstate := q\<rparr>))
       (xQueueGenericSendFromISR (xTimerQueue w) (Some bs) queueSEND_TO_BACK (qstate w))"

definition xTimerGenericCommandFromISR ::
  "addr \<Rightarrow> int \<Rightarrow> nat \<Rightarrow> nat \<Rightarrow> tworld \<Rightarrow> (bool \<times> bool \<times> tworld) option" where
  "xTimerGenericCommandFromISR xTimer xCommandID xOptionalValue rest w =
     (if xTimer = 0 then None
      else if xTimerQueue w = 0 then Some (False, False, w)
      else if xCommandID \<ge> tmrFIRST_FROM_ISR_COMMAND
      then send_message_from_isr (timer_message xCommandID xOptionalValue xTimer rest) w
      else None)"

definition xTimerPendFunctionCallFromISR :: "nat \<Rightarrow> nat \<Rightarrow> nat \<Rightarrow> tworld \<Rightarrow> (bool \<times> bool \<times> tworld) option" where
  "xTimerPendFunctionCallFromISR xFunctionToPend pvParameter1 ulParameter2 w =
     send_message_from_isr (pended_message tmrCOMMAND_EXECUTE_CALLBACK_FROM_ISR xFunctionToPend pvParameter1 ulParameter2) w"

definition xTimerPendFunctionCall ::
  "nat \<Rightarrow> nat \<Rightarrow> nat \<Rightarrow> qpc \<Rightarrow> qlocals \<Rightarrow> tworld \<Rightarrow> (qnext \<times> tworld) option" where
  "xTimerPendFunctionCall xFunctionToPend pvParameter1 ulParameter2 pc L w =
     (if xTimerQueue w = 0 then None
      else map_option (\<lambda>(r, q). (r, w\<lparr>qstate := q\<rparr>))
        (xQueueGenericSend (xTimerQueue w)
          (Some (pended_message tmrCOMMAND_EXECUTE_CALLBACK xFunctionToPend pvParameter1 ulParameter2)) queueSEND_TO_BACK pc L (qstate w)))"

text \<open>
  Event bits set and cleared from an interrupt: the callback of the event groups, by its address,
  is pended to the timer task.
\<close>

definition xEventGroupSetBitsFromISR :: "nat \<Rightarrow> addr \<Rightarrow> nat \<Rightarrow> tworld \<Rightarrow> (bool \<times> bool \<times> tworld) option" where
  "xEventGroupSetBitsFromISR setBitsCallback xEventGroup uxBitsToSet w =
     xTimerPendFunctionCallFromISR setBitsCallback xEventGroup uxBitsToSet w"

definition xEventGroupClearBitsFromISR :: "nat \<Rightarrow> addr \<Rightarrow> nat \<Rightarrow> tworld \<Rightarrow> (bool \<times> tworld) option" where
  "xEventGroupClearBitsFromISR clearBitsCallback xEventGroup uxBitsToClear w =
     map_option (\<lambda>(ok, _, w). (ok, w)) (xTimerPendFunctionCallFromISR clearBitsCallback xEventGroup uxBitsToClear w)"

section \<open>Creation\<close>

text \<open>\<open>junk\<close> is what fresh memory holds, by offset.\<close>

definition prvCheckForValidListAndQueue :: "(nat \<Rightarrow> u8) \<Rightarrow> tworld \<Rightarrow> tworld option" where
  "prvCheckForValidListAndQueue junk w =
     (if xTimerQueue w = 0
      then do { let w = w\<lparr>tstore := vListInitialise xActiveTimerList2 (vListInitialise xActiveTimerList1 (tstore w)),
                  pxCurrentTimerList := xActiveTimerList1, pxOverflowTimerList := xActiveTimerList2\<rparr>;
                (q, qw, h) \<leftarrow> xQueueGenericCreate configTIMER_QUEUE_LENGTH sizeof_DaemonTaskMessage_t 0 junk (qstate w, theap w);
                qw \<leftarrow> (if q \<noteq> 0 then vQueueAddToRegistry q (Some ''TmrQ'') qw else Some qw);
                Some (w\<lparr>xTimerQueue := q, qstate := qw, theap := h\<rparr>) }
      else Some w)"

definition prvInitialiseNewTimer ::
  "string option \<Rightarrow> nat \<Rightarrow> bool \<Rightarrow> nat \<Rightarrow> nat \<Rightarrow> addr \<Rightarrow> (nat \<Rightarrow> u8) \<Rightarrow> tworld \<Rightarrow> tworld option" where
  "prvInitialiseNewTimer name xPeriod xAutoReload xID pxCallback pxNewTimer junk w =
     (if xPeriod > 0
      then do { w \<leftarrow> prvCheckForValidListAndQueue junk w;
                w \<leftarrow> upd_timer pxNewTimer (\<lambda>T. T\<lparr>pcTimerName := name, xTimerPeriodInTicks := xPeriod, pvTimerID := xID,
                       pxCallbackFunction := pxCallback\<rparr>) w;
                w \<leftarrow> in_store (Some \<circ> vListInitialiseItem pxNewTimer) w;
                if xAutoReload then upd_timer pxNewTimer (set_status tmrSTATUS_IS_AUTORELOAD) w else Some w }
      else None)"

definition xTimerCreate ::
  "string option \<Rightarrow> nat \<Rightarrow> bool \<Rightarrow> nat \<Rightarrow> nat \<Rightarrow> Timer \<Rightarrow> (nat \<Rightarrow> u8) \<Rightarrow> tworld \<Rightarrow> (addr \<times> tworld) option" where
  "xTimerCreate name xPeriod xAutoReload xID pxCallback fresh junk w =
     do { (t, k, h) \<leftarrow> kernel_malloc sizeof_Timer_t (tkernel w, theap w);
          let w = (set_tkernel k w)\<lparr>theap := h\<rparr>;
          if t \<noteq> 0
          then do { w \<leftarrow> prvInitialiseNewTimer name xPeriod xAutoReload xID pxCallback t junk
                      (w\<lparr>timers := (timers w)(t := Some (fresh\<lparr>ucStatus := 0\<rparr>))\<rparr>);
                    Some (t, w) }
          else Some (0, w) }"

definition xTimerCreateTimerTask :: "(nat \<Rightarrow> u8) \<Rightarrow> tworld \<Rightarrow> tworld option" where
  "xTimerCreateTimerTask junk w =
     do { w \<leftarrow> prvCheckForValidListAndQueue junk w;
          if xTimerQueue w \<noteq> 0
          then do { (t, k, h) \<leftarrow> xTaskCreate configTIMER_TASK_STACK_DEPTH configTIMER_TASK_PRIORITY (tkernel w, theap w);
                    if t \<noteq> 0 then Some ((set_tkernel k w)\<lparr>theap := h, xTimerTaskHandle := t\<rparr>) else None }
          else None }"

section \<open>Queries and settings\<close>

definition timer_field :: "(Timer \<Rightarrow> 'a) \<Rightarrow> addr \<Rightarrow> tworld \<Rightarrow> 'a option" where
  "timer_field f t w = (if t = 0 then None else map_option f (timers w t))"

definition set_field :: "(Timer \<Rightarrow> Timer) \<Rightarrow> addr \<Rightarrow> tworld \<Rightarrow> tworld option" where
  "set_field f t w = (if t = 0 then None else upd_timer t f w)"

definition xTimerGetTimerDaemonTaskHandle :: "tworld \<Rightarrow> tid option" where
  "xTimerGetTimerDaemonTaskHandle w = (if xTimerTaskHandle w \<noteq> 0 then Some (xTimerTaskHandle w) else None)"

definition xTimerGetPeriod :: "addr \<Rightarrow> tworld \<Rightarrow> nat option" where
  "xTimerGetPeriod = timer_field xTimerPeriodInTicks"

definition vTimerSetReloadMode :: "addr \<Rightarrow> bool \<Rightarrow> tworld \<Rightarrow> tworld option" where
  "vTimerSetReloadMode t xAutoReload =
     set_field (if xAutoReload then set_status tmrSTATUS_IS_AUTORELOAD else clear_status tmrSTATUS_IS_AUTORELOAD) t"

definition xTimerGetReloadMode :: "addr \<Rightarrow> tworld \<Rightarrow> bool option" where
  "xTimerGetReloadMode = timer_field (has_status tmrSTATUS_IS_AUTORELOAD)"

definition uxTimerGetReloadMode :: "addr \<Rightarrow> tworld \<Rightarrow> nat option" where
  "uxTimerGetReloadMode t w = map_option of_bool (xTimerGetReloadMode t w)"

definition xTimerGetExpiryTime :: "addr \<Rightarrow> tworld \<Rightarrow> nat option" where
  "xTimerGetExpiryTime t w = timer_field (\<lambda>_. listGET_LIST_ITEM_VALUE t (tstore w)) t w"

definition pcTimerGetName :: "addr \<Rightarrow> tworld \<Rightarrow> string option option" where
  "pcTimerGetName = timer_field pcTimerName"

definition xTimerIsTimerActive :: "addr \<Rightarrow> tworld \<Rightarrow> bool option" where
  "xTimerIsTimerActive = timer_field (has_status tmrSTATUS_IS_ACTIVE)"

definition pvTimerGetTimerID :: "addr \<Rightarrow> tworld \<Rightarrow> nat option" where
  "pvTimerGetTimerID = timer_field pvTimerID"

definition vTimerSetTimerID :: "addr \<Rightarrow> nat \<Rightarrow> tworld \<Rightarrow> tworld option" where
  "vTimerSetTimerID t pvNewID = set_field (\<lambda>T. T\<lparr>pvTimerID := pvNewID\<rparr>) t"

definition uxTimerGetTimerNumber :: "addr \<Rightarrow> tworld \<Rightarrow> nat option" where
  "uxTimerGetTimerNumber t w = map_option uxTimerNumber (timers w t)"

definition vTimerSetTimerNumber :: "addr \<Rightarrow> nat \<Rightarrow> tworld \<Rightarrow> tworld option" where
  "vTimerSetTimerNumber t n = upd_timer t (\<lambda>T. T\<lparr>uxTimerNumber := n\<rparr>)"

definition vTimerResetState :: "tworld \<Rightarrow> tworld" where
  "vTimerResetState w = w\<lparr>xTimerQueue := 0, xTimerTaskHandle := 0\<rparr>"

end
