(* ===== verification/TimerLists.thy ===== *)
theory TimerLists
  imports Timers
begin

text \<open>
  The two lists of active timers and true time. The code compares tick counts that wrap; here time
  is a natural that does not. \<open>due_at e w t\<close> is the true time at which the timer \<open>t\<close> expires when \<open>e\<close>
  wraps lie behind the current list: a value in the overflow list belongs to the next wrap. \<open>tinv X w\<close>
  is the invariant of the lists, outside of timers \<open>X\<close> that are being worked on: both lists are well
  formed and sorted, and exactly the active timers are in them.
\<close>

section \<open>Wrapping and true time\<close>

lemma mod_cases:
  assumes "c \<le> n" "n < c + u32_bound"
  obtains a k m where "c = a * u32_bound + k" "n = a * u32_bound + m" "k \<le> m" "m < u32_bound"
  | a k m where "c = a * u32_bound + k" "n = Suc a * u32_bound + m" "m < k" "k < u32_bound"
proof -
  let ?a = "c div u32_bound" and ?b = "n div u32_bound" and ?k = "c mod u32_bound" and ?m = "n mod u32_bound"
  have d: "c = ?a * u32_bound + ?k" "n = ?b * u32_bound + ?m" "?k < u32_bound" "?m < u32_bound"
    by simp_all
  have "?a \<le> ?b" "?b \<le> Suc ?a"
    using assms div_le_mono [of c n u32_bound] div_le_mono [of n "c + u32_bound" u32_bound] by (simp_all add: div_add_self2)
  then consider "?b = ?a" | "?b = Suc ?a"
    by linarith
  then show ?thesis
  proof cases
    case 1
    then have "?k \<le> ?m"
      using assms(1) d by (metis nat_add_left_cancel_le)
    with 1 d show ?thesis
      using that(1) by metis
  next
    case 2
    have "?m < ?k"
    proof (rule ccontr)
      assume "\<not> ?m < ?k"
      moreover have "?b * u32_bound = ?a * u32_bound + u32_bound"
        unfolding 2 by simp
      ultimately have "c + u32_bound \<le> n"
        using d by linarith
      with assms(2) show False by simp
    qed
    with 2 d show ?thesis
      using that(2) by metis
  qed
qed

text \<open>The decision of \<open>prvInsertTimerInActiveList\<close>, for a command of true time \<open>c\<close> handled at \<open>n\<close>.\<close>

lemma insert_decision:
  assumes c: "c \<le> n" "n < c + u32_bound" and p: "0 < p" "p < u32_bound"
  defines "x \<equiv> (c + p) mod u32_bound" and "m \<equiv> n mod u32_bound" and "k \<equiv> c mod u32_bound"
  shows "x \<le> m \<Longrightarrow> p \<le> sub32 m k \<longleftrightarrow> c + p \<le> n"
    "x \<le> m \<Longrightarrow> n < c + p \<Longrightarrow> (c + p) div u32_bound = Suc (n div u32_bound)"
    "m < x \<Longrightarrow> m < k \<and> k \<le> x \<longleftrightarrow> c + p \<le> n"
    "m < x \<Longrightarrow> n < c + p \<Longrightarrow> (c + p) div u32_bound = n div u32_bound"
proof -
  have sub: "sub32 m k = n - c"
    using c
  proof (cases rule: mod_cases)
    case (1 a k' m')
    then have "k = k'" "m = m'"
      by (simp_all add: k_def m_def)
    with 1 show ?thesis
      by (simp add: sub32_exact)
  next
    case (2 a k' m')
    then have "k = k'" "m = m'"
      by (simp_all only: k_def m_def mod_mult_self3) simp_all
    with 2 show ?thesis
      by (simp add: sub32_under)
  qed
  show "p \<le> sub32 m k \<longleftrightarrow> c + p \<le> n" if "x \<le> m"
    using sub c by linarith
  have x: "c + p = (c + p) div u32_bound * u32_bound + x" "x < u32_bound" and m: "n = n div u32_bound * u32_bound + m" "m < u32_bound"
    by (simp_all add: x_def m_def)
  have le: "(c + p) div u32_bound \<le> Suc (n div u32_bound)"
    using c p div_le_mono [of "c + p" "n + u32_bound" u32_bound] by (simp add: div_add_self2)
  have ge: "n div u32_bound \<le> (c + p) div u32_bound" if "n < c + p"
    using that by (simp add: div_le_mono)
  show "(c + p) div u32_bound = Suc (n div u32_bound)" if "x \<le> m" "n < c + p"
  proof -
    have "(c + p) div u32_bound \<noteq> n div u32_bound"
      using that x m by (metis add_le_mono1 leD nat_add_left_cancel_le)
    with le ge that(2) show ?thesis by linarith
  qed
  show "(c + p) div u32_bound = n div u32_bound" if "m < x" "n < c + p"
  proof -
    have "(c + p) div u32_bound \<noteq> Suc (n div u32_bound)"
    proof
      assume "(c + p) div u32_bound = Suc (n div u32_bound)"
      then have "c + p = n div u32_bound * u32_bound + u32_bound + x"
        using x by simp
      then have "n + u32_bound < c + p"
        using m that(1) by linarith
      then show False
        using c(1) p(2) by linarith
    qed
    with le ge that(2) show ?thesis by linarith
  qed
  show "m < k \<and> k \<le> x \<longleftrightarrow> c + p \<le> n" if "m < x"
    using c
  proof (cases rule: mod_cases)
    case (1 a k' m')
    then have km: "k = k'" "m = m'"
      by (simp_all add: k_def m_def)
    have "n < c + p"
    proof (rule ccontr)
      assume "\<not> n < c + p"
      then have x: "c + p = a * u32_bound + (k' + p)" "k' + p < u32_bound"
        using 1 by simp_all
      then have "x = (k' + p) mod u32_bound"
        by (simp only: x_def mod_mult_self3)
      then have "x = k' + p"
        using x(2) by simp
      with \<open>\<not> n < c + p\<close> 1 km that show False by simp
    qed
    with 1 km show ?thesis by simp
  next
    case (2 a k' m')
    then have km: "k = k'" "m = m'"
      by (simp_all only: k_def m_def mod_mult_self3) simp_all
    show ?thesis
    proof (cases "k' + p < u32_bound")
      case True
      have "c + p = a * u32_bound + (k' + p)"
        using 2(1) by simp
      then have "x = (k' + p) mod u32_bound"
        by (simp only: x_def mod_mult_self3)
      then have "x = k' + p"
        using True by simp
      with True 2 km show ?thesis by simp
    next
      case False
      then have x: "c + p = Suc a * u32_bound + (k' + p - u32_bound)" "k' + p - u32_bound < u32_bound"
        using 2 p by simp_all
      then have "x = (k' + p - u32_bound) mod u32_bound"
        by (simp only: x_def mod_mult_self3)
      then have "x = k' + p - u32_bound"
        using x(2) by simp
      then have e: "k' + p = x + u32_bound"
        using False by simp
      then have "\<not> k' \<le> x"
        using p(2) by linarith
      moreover have "\<not> c + p \<le> n"
        using 2(1,2) e km that by simp
      ultimately show ?thesis
        using km by simp
    qed
  qed
qed

section \<open>The invariant\<close>

abbreviation in_list :: "tworld \<Rightarrow> addr \<Rightarrow> nat option" where
  "in_list w t \<equiv> pxContainer (node_at (tstore w) (Item t))"

abbreviation expiry :: "tworld \<Rightarrow> addr \<Rightarrow> nat" where
  "expiry w t \<equiv> value_of (tstore w) (Item t)"

abbreviation item_owner :: "tworld \<Rightarrow> addr \<Rightarrow> nat" where
  "item_owner w t \<equiv> pvOwner (node_at (tstore w) (Item t))"

abbreviation is_active :: "Timer \<Rightarrow> bool" where
  "is_active \<equiv> has_status tmrSTATUS_IS_ACTIVE"

abbreviation is_auto :: "Timer \<Rightarrow> bool" where
  "is_auto \<equiv> has_status tmrSTATUS_IS_AUTORELOAD"

definition timer_lists :: "tworld \<Rightarrow> nat set" where
  "timer_lists w = {pxCurrentTimerList w, pxOverflowTimerList w}"

definition due_at :: "nat \<Rightarrow> tworld \<Rightarrow> addr \<Rightarrow> nat option" where
  "due_at e w t = map_option (\<lambda>l. (if l = pxCurrentTimerList w then e else Suc e) * u32_bound + expiry w t) (in_list w t)"

definition timer_ok :: "addr \<Rightarrow> Timer \<Rightarrow> bool" where
  "timer_ok t T \<longleftrightarrow> 0 < t \<and> t < u32_bound \<and> t mod 8 = 0 \<and> 0 < xTimerPeriodInTicks T \<and> xTimerPeriodInTicks T < u32_bound"

definition lists_sorted :: "tworld \<Rightarrow> (nat \<Rightarrow> nat list) \<Rightarrow> bool" where
  "lists_sorted w A \<longleftrightarrow> rep (timer_lists w) (tstore w) A \<and> (\<forall>l \<in> timer_lists w. sorted (map (expiry w) (A l)))"

definition tinv :: "addr set \<Rightarrow> tworld \<Rightarrow> bool" where
  "tinv X w \<longleftrightarrow>
     pxCurrentTimerList w \<noteq> pxOverflowTimerList w \<and> (\<exists>A. lists_sorted w A) \<and>
     (\<forall>t T. timers w t = Some T \<longrightarrow> timer_ok t T \<and> (t \<notin> X \<longrightarrow> in_list w t \<noteq> None \<longleftrightarrow> is_active T)) \<and>
     (\<forall>t. in_list w t \<noteq> None \<longrightarrow> t \<notin> X \<and> timers w t \<noteq> None \<and> item_owner w t = t)"

lemma tinvD:
  assumes "tinv X w"
  shows "pxCurrentTimerList w \<noteq> pxOverflowTimerList w" "\<exists>A. lists_sorted w A"
    "timers w t = Some T \<Longrightarrow> timer_ok t T"
    "timers w t = Some T \<Longrightarrow> t \<notin> X \<Longrightarrow> in_list w t \<noteq> None \<longleftrightarrow> is_active T"
    "in_list w t \<noteq> None \<Longrightarrow> t \<notin> X" "in_list w t \<noteq> None \<Longrightarrow> timers w t \<noteq> None" "in_list w t \<noteq> None \<Longrightarrow> item_owner w t = t"
  using assms unfolding tinv_def by blast+

lemma listed:
  assumes "lists_sorted w A"
  shows "in_list w t = Some l \<longleftrightarrow> l \<in> timer_lists w \<and> t \<in> set (A l)"
  using rep_container assms unfolding lists_sorted_def by blast

lemma expiry_bound:
  assumes "tinv X w"
  shows "expiry w t < u32_bound"
proof -
  have "expiry w t \<le> portMAX_DELAY"
    using tinvD(2) [OF assms] by (auto simp: lists_sorted_def rep_def)
  then show ?thesis
    by (simp add: portMAX_DELAY_def u32_bound_def)
qed

text \<open>Timers are 8-byte aligned blocks, so the lists are short.\<close>

lemma list_short:
  assumes "tinv X w" "lists_sorted w A" "l \<in> timer_lists w"
  shows "length (A l) + 1 < u32_bound"
proof -
  have "set (A l) \<subseteq> (\<lambda>k. 8 * k) ` {..<536870912}"
  proof
    fix t
    assume "t \<in> set (A l)"
    then have "in_list w t \<noteq> None"
      using listed [OF assms(2)] assms(3) by auto
    then obtain T where "timers w t = Some T"
      using tinvD(6) [OF assms(1)] by auto
    then have "timer_ok t T"
      by (rule tinvD(3) [OF assms(1)])
    then show "t \<in> (\<lambda>k. 8 * k) ` {..<536870912}"
      by (intro image_eqI [of _ _ "t div 8"]) (auto simp: timer_ok_def u32_bound_def)
  qed
  then have "card (set (A l)) \<le> 536870912"
    using card_mono [of "(\<lambda>k. 8 * k) ` {..<536870912 :: nat}" "set (A l)"] card_image_le [of "{..<536870912 :: nat}" "\<lambda>k. 8 * k"] by simp
  moreover have "distinct (A l)"
    using rep_listD [of "timer_lists w" "tstore w" A l] assms(2,3) by (simp add: lists_sorted_def list_rep_def)
  ultimately show ?thesis
    by (simp add: distinct_card u32_bound_def)
qed

text \<open>What an action leaves as it is: \<open>R\<close> are timers whose reload mode nobody else changes.\<close>

definition keeps_timers :: "addr set \<Rightarrow> tworld \<Rightarrow> tworld \<Rightarrow> bool" where
  "keeps_timers R w w' \<longleftrightarrow>
     pxCurrentTimerList w' = pxCurrentTimerList w \<and> pxOverflowTimerList w' = pxOverflowTimerList w \<and> xLastTime w' = xLastTime w \<and>
     (\<forall>t T. timers w t = Some T \<longrightarrow>
        (\<exists>T'. timers w' t = Some T' \<and> xTimerPeriodInTicks T' = xTimerPeriodInTicks T \<and> (t \<in> R \<longrightarrow> is_auto T' = is_auto T)))"

lemma keeps_timers_refl [simp]: "keeps_timers R w w"
  by (simp add: keeps_timers_def)

lemma keeps_timersD:
  assumes "keeps_timers R w w'" "timers w t = Some T"
  obtains T' where "timers w' t = Some T'" "xTimerPeriodInTicks T' = xTimerPeriodInTicks T" "t \<in> R \<Longrightarrow> is_auto T' = is_auto T"
  using assms unfolding keeps_timers_def by blast

lemma keeps_timers_trans: "keeps_timers R w1 w2 \<Longrightarrow> keeps_timers R w2 w3 \<Longrightarrow> keeps_timers R w1 w3"
  unfolding keeps_timers_def by (auto, metis)

text \<open>
  The law of application code that runs in a callback, in a pended function or outside of the timer
  task: it does not touch the lists of timers, their periods and their active bits; it may create
  timers, and set the reload mode of timers not in \<open>R\<close>.
\<close>

definition same_timers :: "addr set \<Rightarrow> tworld \<Rightarrow> tworld \<Rightarrow> bool" where
  "same_timers R w w' \<longleftrightarrow>
     keeps_timers R w w' \<and> expired w' = expired w \<and>
     (\<forall>A. rep (timer_lists w) (tstore w) A \<longrightarrow> rep (timer_lists w) (tstore w') A) \<and>
     (\<forall>t T. timers w t = Some T \<longrightarrow> expiry w' t = expiry w t \<and> item_owner w' t = item_owner w t \<and>
        (\<exists>T'. timers w' t = Some T' \<and> is_active T' = is_active T)) \<and>
     (\<forall>t T'. timers w t = None \<longrightarrow> timers w' t = Some T' \<longrightarrow> timer_ok t T' \<and> \<not> is_active T')"

definition callback_law :: "addr set \<Rightarrow> callback \<Rightarrow> bool" where
  "callback_law R cb \<longleftrightarrow> (\<forall>f t w. 0 < t \<longrightarrow> timers w t \<noteq> None \<longrightarrow> (\<exists>w'. cb f t w = Some w' \<and> same_timers R w w'))"

lemma same_timersD:
  assumes "same_timers R w w'"
  shows "keeps_timers R w w'" "expired w' = expired w"
    "rep (timer_lists w) (tstore w) A \<Longrightarrow> rep (timer_lists w) (tstore w') A"
    "timers w t = Some T \<Longrightarrow> expiry w' t = expiry w t" "timers w t = Some T \<Longrightarrow> item_owner w' t = item_owner w t"
    "timers w t = Some T \<Longrightarrow> \<exists>T'. timers w' t = Some T' \<and> is_active T' = is_active T \<and> xTimerPeriodInTicks T' = xTimerPeriodInTicks T"
    "timers w t = None \<Longrightarrow> timers w' t = Some T' \<Longrightarrow> timer_ok t T' \<and> \<not> is_active T'"
  using assms unfolding same_timers_def keeps_timers_def by (blast, blast, blast, blast, blast, metis option.inject, blast)

lemma option_eq: "(\<And>x. a = Some x \<longleftrightarrow> b = Some x) \<Longrightarrow> a = b"
  by (cases a; cases b) auto

lemma same_lists:
  assumes "tinv X w" "same_timers R w w'"
  shows "in_list w' t = in_list w t" "timer_lists w' = timer_lists w" "in_list w t \<noteq> None \<Longrightarrow> expiry w' t = expiry w t"
proof -
  show l: "timer_lists w' = timer_lists w"
    using assms(2) by (simp add: same_timers_def keeps_timers_def timer_lists_def)
  obtain A where A: "lists_sorted w A"
    using tinvD(2) [OF assms(1)] by blast
  then have r: "rep (timer_lists w) (tstore w) A"
    by (simp add: lists_sorted_def)
  moreover have "rep (timer_lists w) (tstore w') A"
    using same_timersD(3) [OF assms(2) r] .
  ultimately have "\<And>l. in_list w' t = Some l \<longleftrightarrow> in_list w t = Some l"
    by (simp only: rep_container)
  then show "in_list w' t = in_list w t"
    by (rule option_eq)
  show "expiry w' t = expiry w t" if i: "in_list w t \<noteq> None"
  proof -
    obtain T where "timers w t = Some T"
      using tinvD(6) [OF assms(1) i] by blast
    then show ?thesis
      by (rule same_timersD(4) [OF assms(2)])
  qed
qed

lemma same_tinv:
  assumes "tinv X w" "same_timers R w w'"
  shows "tinv X w'" "due_at e w' = due_at e w"
proof -
  note S = same_lists [OF assms]
  have pc: "pxCurrentTimerList w' = pxCurrentTimerList w" "pxOverflowTimerList w' = pxOverflowTimerList w"
    using assms(2) by (simp_all add: same_timers_def keeps_timers_def)
  show "due_at e w' = due_at e w"
  proof
    fix t
    show "due_at e w' t = due_at e w t"
      using S(1,3) [of t] pc by (cases "in_list w t") (simp_all add: due_at_def)
  qed
  obtain A where A: "lists_sorted w A"
    using tinvD(2) [OF assms(1)] by blast
  have "sorted (map (expiry w') (A l))" if "l \<in> timer_lists w" for l
  proof -
    have "map (expiry w') (A l) = map (expiry w) (A l)"
      using listed [OF A, of _ l] that by (auto intro!: S(3))
    moreover have "sorted (map (expiry w) (A l))"
      using A that by (simp add: lists_sorted_def)
    ultimately show ?thesis
      by (simp only:)
  qed
  then have "lists_sorted w' A"
    using A assms(2) S(2) by (simp add: lists_sorted_def same_timers_def)
  moreover have "timer_ok t T' \<and> (t \<notin> X \<longrightarrow> in_list w' t \<noteq> None \<longleftrightarrow> is_active T')" if t: "timers w' t = Some T'" for t T'
  proof (cases "timers w t")
    case None
    then have "in_list w t = None"
      using tinvD(6) [OF assms(1)] by blast
    with same_timersD(7) [OF assms(2) None t] show ?thesis
      by (simp add: S(1))
  next
    case (Some T)
    then have "is_active T' = is_active T" "xTimerPeriodInTicks T' = xTimerPeriodInTicks T"
      using t same_timersD(6) [OF assms(2) Some] by auto
    then show ?thesis
      using tinvD(3,4) [OF assms(1) Some] by (simp add: timer_ok_def S(1))
  qed
  moreover have "t \<notin> X \<and> timers w' t \<noteq> None \<and> item_owner w' t = t" if t: "in_list w' t \<noteq> None" for t
  proof -
    have i: "in_list w t \<noteq> None"
      using t by (simp only: S(1) not_False_eq_True)
    then obtain T where T: "timers w t = Some T"
      using tinvD(6) [OF assms(1)] by blast
    then have "item_owner w' t = item_owner w t" "timers w' t \<noteq> None"
      using same_timersD(5,6) [OF assms(2) T] by auto
    with tinvD(5,7) [OF assms(1) i] show ?thesis
      by simp
  qed
  ultimately show "tinv X w'"
    using tinvD(1) [OF assms(1)] pc unfolding tinv_def by metis
qed

end
