(* ===== verification/TimerRun.thy ===== *)
theory TimerRun
  imports TimerLists
begin

text \<open>
  The operations of the timer task on its lists: inserting, removing, reloading and expiry. Each lemma says that the operation returns, that it
  keeps the invariant, and what it does to the true expiry times and the record of callbacks.
\<close>

section \<open>Inserting and removing\<close>

definition prepared :: "addr \<Rightarrow> nat \<Rightarrow> tworld \<Rightarrow> tworld" where
  "prepared t v w = w\<lparr>tstore := listSET_LIST_ITEM_OWNER t t (listSET_LIST_ITEM_VALUE t v (tstore w))\<rparr>"

lemma prepared_fields [simp]:
  "pxCurrentTimerList (prepared t v w) = pxCurrentTimerList w" "pxOverflowTimerList (prepared t v w) = pxOverflowTimerList w"
  "timers (prepared t v w) = timers w" "expired (prepared t v w) = expired w" "xLastTime (prepared t v w) = xLastTime w"
  "qstate (prepared t v w) = qstate w"
  "in_list (prepared t v w) u = in_list w u" "timer_lists (prepared t v w) = timer_lists w"
  "expiry (prepared t v w) u = (if u = t then v else expiry w u)" "item_owner (prepared t v w) u = (if u = t then t else item_owner w u)"
  by (simp_all add: prepared_def listSET_LIST_ITEM_OWNER_def listSET_LIST_ITEM_VALUE_def upd_node_def timer_lists_def)

lemma prepared_rep:
  assumes "rep L (tstore w) A" "v < u32_bound"
  shows "rep L (tstore (prepared t v w)) A"
proof -
  let ?s = "tstore w" and ?s' = "tstore (prepared t v w)"
  have same: "next_of ?s' m = next_of ?s m" "prev_of ?s' m = prev_of ?s m" "pxContainer (node_at ?s' m) = pxContainer (node_at ?s m)"
    "value_of ?s' (End l) = value_of ?s (End l)" "list_at ?s' = list_at ?s" for m l
    by (simp_all add: prepared_def listSET_LIST_ITEM_OWNER_def listSET_LIST_ITEM_VALUE_def upd_node_def)
  have "value_of ?s' m \<le> portMAX_DELAY" for m
    using assms by (simp add: prepared_def listSET_LIST_ITEM_OWNER_def listSET_LIST_ITEM_VALUE_def upd_node_def rep_def
        portMAX_DELAY_def u32_bound_def)
  moreover have "list_rep ?s' l (A l)" if "l \<in> L" for l
    by (rule list_rep_frame [OF rep_listD [OF assms(1) that]]) (simp_all add: same)
  ultimately show ?thesis
    using assms(1) by (simp add: rep_def same)
qed

text \<open>Setting the value of a timer that is in no list.\<close>

lemma prepared_tinv:
  assumes "tinv X w" "t \<in> X" "v < u32_bound"
  shows "tinv X (prepared t v w)" "due_at e (prepared t v w) = due_at e w"
proof -
  have free: "in_list w t = None"
    using tinvD(5) [OF assms(1)] assms(2) by blast
  then show "due_at e (prepared t v w) = due_at e w"
    by (auto simp: due_at_def fun_eq_iff)
  obtain A where A: "lists_sorted w A"
    using tinvD(2) [OF assms(1)] by blast
  have "map (expiry (prepared t v w)) (A l) = map (expiry w) (A l)" if "l \<in> timer_lists w" for l
    using free listed [OF A, of t l] that by auto
  moreover have "sorted (map (expiry w) (A l))" if "l \<in> timer_lists w" for l
    using A that by (simp add: lists_sorted_def)
  ultimately have "sorted (map (expiry (prepared t v w)) (A l))" if "l \<in> timer_lists w" for l
    using that by (simp only:)
  then have "lists_sorted (prepared t v w) A"
    using A prepared_rep [OF _ assms(3), of "timer_lists w" w A t] unfolding lists_sorted_def prepared_fields(8) by blast
  then show "tinv X (prepared t v w)"
    using assms(1) free unfolding tinv_def prepared_fields by (metis prepared_fields(10))
qed

lemma due_update:
  assumes "\<And>u. in_list w' u = (if u = t then x else in_list w u)" "\<And>u. expiry w' u = expiry w u"
    "pxCurrentTimerList w' = pxCurrentTimerList w"
  shows "due_at e w' = (due_at e w)(t := map_option (\<lambda>l. (if l = pxCurrentTimerList w then e else Suc e) * u32_bound + expiry w t) x)"
  using assms(3) by (auto simp: due_at_def assms(1,2) fun_eq_iff)

lemma place_timer:
  assumes inv: "tinv X w" and t: "t \<in> X" "timers w t = Some T" "is_active T" and l: "l \<in> timer_lists w"
  obtains s where "in_store (vListInsert l t) w = Some (w\<lparr>tstore := s\<rparr>)"
    "tinv (X - {t}) (w\<lparr>tstore := s\<rparr>) \<or> item_owner w t \<noteq> t"
    "due_at e (w\<lparr>tstore := s\<rparr>) = (due_at e w)(t \<mapsto> (if l = pxCurrentTimerList w then e else Suc e) * u32_bound + expiry w t)"
proof -
  have free: "in_list w t = None"
    using tinvD(5) [OF inv] t(1) by blast
  obtain A where A: "lists_sorted w A"
    using tinvD(2) [OF inv] by blast
  let ?B = "A(l := insert_sorted (expiry w) t (A l))"
  obtain s where s: "vListInsert l t (tstore w) = Some s" "rep (timer_lists w) s ?B" "same_fields (tstore w) s"
    using vListInsert_rep [of "timer_lists w" "tstore w" A l t] A l free list_short [OF inv A l] by (auto simp: lists_sorted_def)
  let ?w = "w\<lparr>tstore := s\<rparr>"
  have f: "expiry ?w u = expiry w u" "item_owner ?w u = item_owner w u" "timer_lists ?w = timer_lists w" for u
    using s(3) by (simp_all add: same_fields_def timer_lists_def)
  have vals: "(\<lambda>u. value_of s (Item u)) = expiry w"
    using s(3) by (simp add: same_fields_def)
  have B: "lists_sorted ?w ?B"
    using A s(2) l by (auto simp: lists_sorted_def f(3) vals sorted_insert_sorted)
  have c: "in_list ?w u = (if u = t then Some l else in_list w u)" for u
  proof (rule option_eq)
    fix k
    show "in_list ?w u = Some k \<longleftrightarrow> (if u = t then Some l else in_list w u) = Some k"
      using listed [OF B, of u k] listed [OF A, of u k] listed [OF A, of t k] free l by (auto simp: f)
  qed
  have "tinv (X - {t}) ?w" if "item_owner w t = t"
    unfolding tinv_def f c
  proof (intro conjI allI impI)
    show "pxCurrentTimerList ?w \<noteq> pxOverflowTimerList ?w"
      using tinvD(1) [OF inv] by simp
    show "\<exists>A. lists_sorted ?w A"
      using B by blast
    fix u U
    assume u: "timers ?w u = Some U"
    show "timer_ok u U"
      using tinvD(3) [OF inv] u by simp
    assume "u \<notin> X - {t}"
    then show "(if u = t then Some l else in_list w u) \<noteq> None \<longleftrightarrow> is_active U"
      using tinvD(4) [OF inv, of u U] u t by auto
  next
    fix u
    assume "(if u = t then Some l else in_list w u) \<noteq> None"
    then show "u \<notin> X - {t}" "timers ?w u \<noteq> None" "item_owner w u = u"
      using tinvD(5-7) [OF inv, of u] t that by (auto split: if_splits)
  qed
  moreover have "due_at e ?w = (due_at e w)(t \<mapsto> (if l = pxCurrentTimerList w then e else Suc e) * u32_bound + expiry w t)"
    using due_update [OF c f(1), of e] by simp
  ultimately show ?thesis
    using that [of s] s(1) by (auto simp: in_store_def)
qed

text \<open>A timer taken out of its list.\<close>

lemma remove_timer:
  assumes inv: "tinv X w" and t: "in_list w t \<noteq> None"
  obtains s where "in_store (listREMOVE_ITEM t) w = Some (w\<lparr>tstore := s\<rparr>)" "tinv (insert t X) (w\<lparr>tstore := s\<rparr>)"
    "due_at e (w\<lparr>tstore := s\<rparr>) = (due_at e w)(t := None)"
    "\<And>A l. lists_sorted w A \<Longrightarrow> in_list w t = Some l \<Longrightarrow> lists_sorted (w\<lparr>tstore := s\<rparr>) (A(l := remove1 t (A l)))"
proof -
  obtain A where A: "lists_sorted w A"
    using tinvD(2) [OF inv] by blast
  obtain l where l: "in_list w t = Some l"
    using t by blast
  obtain s n where s0: "uxListRemove t (tstore w) = Some (n, s)"
    using uxListRemove_rep [of "timer_lists w" "tstore w" A l t] A listed [OF A, of t l] l by (auto simp: lists_sorted_def)
  let ?w = "w\<lparr>tstore := s\<rparr>"
  have rem: "rep (timer_lists w) s (B(l := remove1 t (B l)))" "same_fields (tstore w) s" if "lists_sorted w B" for B
    using uxListRemove_rep [of "timer_lists w" "tstore w" B l t] that listed [OF that, of t l] l s0 by (auto simp: lists_sorted_def)
  have f: "expiry ?w u = expiry w u" "item_owner ?w u = item_owner w u" "timer_lists ?w = timer_lists w" for u
    using rem(2) [OF A] by (simp_all add: same_fields_def timer_lists_def)
  have vals: "(\<lambda>u. value_of s (Item u)) = expiry w"
    using rem(2) [OF A] by (simp add: same_fields_def)
  have B: "lists_sorted ?w (B(l := remove1 t (B l)))" if b: "lists_sorted w B" for B
    using rem(1) [OF b] b by (auto simp: lists_sorted_def f(3) vals sorted_map_remove1)
  have dist: "distinct (A l)"
    using A l listed [OF A, of t l] rep_listD [of "timer_lists w" "tstore w" A l] by (simp add: lists_sorted_def list_rep_def)
  have c: "in_list ?w u = (if u = t then None else in_list w u)" for u
  proof (rule option_eq)
    fix k
    show "in_list ?w u = Some k \<longleftrightarrow> (if u = t then None else in_list w u) = Some k"
      using listed [OF B [OF A], of u k] listed [OF A, of u k] listed [OF A, of t k] l dist by (auto simp: f)
  qed
  have p2: "tinv (insert t X) ?w"
    unfolding tinv_def f c
  proof (intro conjI allI impI)
    show "pxCurrentTimerList ?w \<noteq> pxOverflowTimerList ?w"
      using tinvD(1) [OF inv] by simp
    show "\<exists>A. lists_sorted ?w A"
      using B [OF A] by blast
    fix u U
    assume u: "timers ?w u = Some U"
    show "timer_ok u U"
      using tinvD(3) [OF inv] u by simp
    assume "u \<notin> insert t X"
    then show "(if u = t then None else in_list w u) \<noteq> None \<longleftrightarrow> is_active U"
      using tinvD(4) [OF inv, of u U] u by auto
  next
    fix u
    assume "(if u = t then None else in_list w u) \<noteq> None"
    then show "u \<notin> insert t X" "timers ?w u \<noteq> None" "item_owner w u = u"
      using tinvD(5-7) [OF inv, of u] by (auto split: if_splits)
  qed
  have p3: "due_at e ?w = (due_at e w)(t := None)"
    using due_update [OF c f(1), of e] by simp
  have p1: "in_store (listREMOVE_ITEM t) w = Some ?w"
    using s0 by (simp add: in_store_def listREMOVE_ITEM_def)
  have p4: "lists_sorted ?w (B(k := remove1 t (B k)))" if "lists_sorted w B" "in_list w t = Some k" for B k
    using B l that by simp
  show ?thesis
    by (rule that [OF p1 p2 p3 p4])
qed

text \<open>The decision and its effect, in true time.\<close>

lemma insert_timer_ok:
  assumes inv: "tinv X w" and t: "t \<in> X" "timers w t = Some T" "is_active T" and c: "c \<le> n" "n < c + u32_bound"
  defines "p \<equiv> xTimerPeriodInTicks T" and "e \<equiv> n div u32_bound"
  obtains w' where "prvInsertTimerInActiveList t ((c + p) mod u32_bound) (n mod u32_bound) (c mod u32_bound) w = Some (c + p \<le> n, w')"
    "keeps_timers R w w'" "timers w' = timers w" "expired w' = expired w" "qstate w' = qstate w"
    "if c + p \<le> n then tinv X w' \<and> due_at e w' = due_at e w else tinv (X - {t}) w' \<and> due_at e w' = (due_at e w)(t \<mapsto> c + p)"
proof -
  let ?x = "(c + p) mod u32_bound" and ?m = "n mod u32_bound" and ?k = "c mod u32_bound"
  have p: "0 < p" "p < u32_bound"
    using tinvD(3) [OF inv t(2)] by (simp_all add: timer_ok_def p_def)
  note D = insert_decision [OF c p]
  let ?w = "prepared t ?x w"
  have w: "tinv X ?w" "due_at e ?w = due_at e w"
    using prepared_tinv [OF inv t(1), of ?x] by simp_all
  have k: "keeps_timers R w (?w\<lparr>tstore := s\<rparr>)" for s
    by (simp add: keeps_timers_def)
  have unf: "prvInsertTimerInActiveList t ?x ?m ?k w =
    (if ?x \<le> ?m then if p \<le> sub32 ?m ?k then Some (True, ?w)
       else map_option (Pair False) (in_store (vListInsert (pxOverflowTimerList ?w) t) ?w)
     else if ?m < ?k \<and> ?k \<le> ?x then Some (True, ?w)
       else map_option (Pair False) (in_store (vListInsert (pxCurrentTimerList ?w) t) ?w))"
    using t(2) by (simp add: prvInsertTimerInActiveList_def in_store_def p_def flip: prepared_def)
  show ?thesis
  proof (cases "c + p \<le> n")
    case True
    have "prvInsertTimerInActiveList t ?x ?m ?k w = Some (c + p \<le> n, ?w)"
      unfolding unf using D(1,3) True by simp
    then show ?thesis
      by (rule that) (use True w in \<open>simp_all add: keeps_timers_def\<close>)
  next
    case False
    then have x: "(c + p) div u32_bound * u32_bound + ?x = c + p"
      by simp
    define l where "l = (if ?x \<le> ?m then pxOverflowTimerList w else pxCurrentTimerList w)"
    have l: "l \<in> timer_lists ?w"
      by (simp add: l_def timer_lists_def)
    have t': "timers ?w t = Some T"
      using t(2) by simp
    obtain s where s: "in_store (vListInsert l t) ?w = Some (?w\<lparr>tstore := s\<rparr>)"
      "tinv (X - {t}) (?w\<lparr>tstore := s\<rparr>) \<or> item_owner ?w t \<noteq> t"
      "due_at e (?w\<lparr>tstore := s\<rparr>) = (due_at e ?w)(t \<mapsto> (if l = pxCurrentTimerList ?w then e else Suc e) * u32_bound + expiry ?w t)"
      using place_timer [OF w(1) t(1) t' t(3) l] by blast
    have "prvInsertTimerInActiveList t ?x ?m ?k w = Some (c + p \<le> n, ?w\<lparr>tstore := s\<rparr>)"
      unfolding unf using D(1,3) False s(1) by (auto simp: l_def)
    moreover have "(if l = pxCurrentTimerList ?w then e else Suc e) = (c + p) div u32_bound"
      using D(2,4) False tinvD(1) [OF inv] by (simp add: l_def e_def)
    then have "due_at e (?w\<lparr>tstore := s\<rparr>) = (due_at e w)(t \<mapsto> c + p)"
      using s(3) x w(2) by simp
    moreover have "tinv (X - {t}) (?w\<lparr>tstore := s\<rparr>)"
      using s(2) by simp
    ultimately show ?thesis
      by (rule_tac that [of "?w\<lparr>tstore := s\<rparr>"]) (use False k in simp_all)
  qed
qed

section \<open>Callbacks\<close>

lemma run_callback_ok:
  assumes "callback_law R cb" "timers w t = Some T" "tinv X w"
  obtains w' where "run_callback cb t w = Some w'" "expired w' = expired w @ [t]" "tinv X w'" "\<And>e. due_at e w' = due_at e w"
    "keeps_timers R w w'"
    "\<And>u U. timers w u = Some U \<Longrightarrow> \<exists>U'. timers w' u = Some U' \<and> is_active U' = is_active U \<and> xTimerPeriodInTicks U' = xTimerPeriodInTicks U"
proof -
  let ?w = "w\<lparr>expired := expired w @ [t]\<rparr>"
  have "0 < t"
    using tinvD(3) [OF assms(3,2)] by (simp add: timer_ok_def)
  then obtain w' where w': "cb (pxCallbackFunction T) t ?w = Some w'" "same_timers R ?w w'"
    using assms(1) [unfolded callback_law_def, rule_format, of t ?w] assms(2) by auto
  have inv: "tinv X ?w"
    using assms(3) by (simp add: tinv_def lists_sorted_def timer_lists_def)
  note S = same_timersD [OF w'(2)]
  show ?thesis
  proof (rule that [of w'])
    show "run_callback cb t w = Some w'"
      using assms(2) w'(1) by (simp add: run_callback_def)
    show "due_at e w' = due_at e w" for e
      using same_tinv(2) [OF inv w'(2)] by (simp add: due_at_def fun_eq_iff)
    show "keeps_timers R w w'"
      using S(1) by (simp add: keeps_timers_def)
  qed (use same_tinv(1) [OF inv w'(2)] S(2,6) in simp_all)
qed

section \<open>Reloading\<close>

text \<open>
  An auto-reload timer that expired at \<open>c\<close> and is handled at \<open>n\<close>: the callback runs once for every
  further expiry up to \<open>n\<close>, and the next expiry is the first after \<open>n\<close>, a whole number of periods
  after \<open>c\<close>.
\<close>

lemma reload_ok:
  assumes "callback_law R cb" "tinv X w" "t \<in> X" "timers w t = Some T" "is_active T" "c \<le> n" "n < c + u32_bound"
  shows "\<exists>w'. prvReloadTimer cb t (c mod u32_bound) (n mod u32_bound) w = Some w' \<and> tinv (X - {t}) w' \<and> keeps_timers R w w' \<and>
    expired w' = expired w @ replicate ((n - c) div xTimerPeriodInTicks T) t \<and>
    due_at (n div u32_bound) w' = (due_at (n div u32_bound) w)(t \<mapsto> c + Suc ((n - c) div xTimerPeriodInTicks T) * xTimerPeriodInTicks T)"
  using assms
proof (induction "n - c" arbitrary: c w T rule: less_induct)
  case less
  let ?p = "xTimerPeriodInTicks T" and ?e = "n div u32_bound"
  have p: "0 < ?p" "?p < u32_bound"
    using tinvD(3) [OF less.prems(2,4)] by (simp_all add: timer_ok_def)
  have add: "add32 (c mod u32_bound) ?p = (c + ?p) mod u32_bound"
    by (simp add: add32_def mod_add_left_eq)
  obtain w1 where w1: "prvInsertTimerInActiveList t ((c + ?p) mod u32_bound) (n mod u32_bound) (c mod u32_bound) w = Some (c + ?p \<le> n, w1)"
    "keeps_timers R w w1" "timers w1 = timers w" "expired w1 = expired w" "qstate w1 = qstate w"
    "if c + ?p \<le> n then tinv X w1 \<and> due_at ?e w1 = due_at ?e w else tinv (X - {t}) w1 \<and> due_at ?e w1 = (due_at ?e w)(t \<mapsto> c + ?p)"
    by (rule insert_timer_ok [OF less.prems(2-7), where R = R])
  show ?case
  proof (cases "c + ?p \<le> n")
    case False
    then have "(n - c) div ?p = 0"
      using less.prems(6) by (intro div_less) linarith
    with False w1 less.prems(4) show ?thesis
      by (subst prvReloadTimer.simps) (simp add: add)
  next
    case True
    have i1: "tinv X w1" "due_at ?e w1 = due_at ?e w"
      using w1(6) True by simp_all
    have t1: "timers w1 t = Some T"
      using w1(3) less.prems(4) by simp
    obtain w2 where w2: "run_callback cb t w1 = Some w2" "expired w2 = expired w1 @ [t]" "tinv X w2" "\<And>e. due_at e w2 = due_at e w1"
      "keeps_timers R w1 w2"
      "\<And>u U. timers w1 u = Some U \<Longrightarrow> \<exists>U'. timers w2 u = Some U' \<and> is_active U' = is_active U \<and> xTimerPeriodInTicks U' = xTimerPeriodInTicks U"
      using run_callback_ok [OF less.prems(1) t1 i1(1)] by blast
    obtain T' where T': "timers w2 t = Some T'" "is_active T'" "xTimerPeriodInTicks T' = ?p"
      using w2(6) [OF t1] less.prems(5) by auto
    have smaller: "n - (c + ?p) < n - c" "n < c + ?p + u32_bound"
      using True p less.prems(7) by linarith+
    have step: "(n - c) div ?p = Suc ((n - (c + ?p)) div ?p)"
      using True p by (simp add: le_div_geq)
    obtain w' where w': "prvReloadTimer cb t ((c + ?p) mod u32_bound) (n mod u32_bound) w2 = Some w'" "tinv (X - {t}) w'" "keeps_timers R w2 w'"
      "expired w' = expired w2 @ replicate ((n - (c + ?p)) div ?p) t"
      "due_at ?e w' = (due_at ?e w2)(t \<mapsto> c + ?p + Suc ((n - (c + ?p)) div ?p) * ?p)"
      using less.hyps [of "c + ?p" w2 T', OF smaller(1) less.prems(1) w2(3) less.prems(3) T'(1,2) True smaller(2)]
      unfolding T'(3) by blast
    have "prvReloadTimer cb t (c mod u32_bound) (n mod u32_bound) w = Some w'"
      using less.prems(4) w1(1) True w2(1) w'(1) by (subst prvReloadTimer.simps) (simp add: add)
    moreover have "keeps_timers R w w'"
      using keeps_timers_trans w1(2) w2(5) w'(3) by blast
    moreover have "expired w' = expired w @ replicate ((n - c) div ?p) t"
      using w'(4) w2(2) w1(4) by (simp add: step)
    moreover have "due_at ?e w' = (due_at ?e w)(t \<mapsto> c + Suc ((n - c) div ?p) * ?p)"
      using w'(5) w2(4) i1(2) by (simp add: step add.assoc)
    ultimately show ?thesis
      using w'(2) by blast
  qed
qed

section \<open>Expiry\<close>

text \<open>How often the callback of a timer that expired at \<open>c\<close> runs at \<open>n\<close>, and when it expires next.\<close>

definition calls :: "Timer \<Rightarrow> nat \<Rightarrow> nat \<Rightarrow> nat" where
  "calls T c n = (if is_auto T then Suc ((n - c) div xTimerPeriodInTicks T) else 1)"

definition next_due :: "Timer \<Rightarrow> nat \<Rightarrow> nat \<Rightarrow> nat option" where
  "next_due T c n = (if is_auto T then Some (c + calls T c n * xTimerPeriodInTicks T) else None)"

lemma next_due_later:
  assumes "next_due T c n = Some d" "0 < xTimerPeriodInTicks T" "c \<le> n"
  shows "n < d"
proof -
  have "n - c < Suc ((n - c) div xTimerPeriodInTicks T) * xTimerPeriodInTicks T"
    unfolding mult_Suc using div_mult_mod_eq [of "n - c" "xTimerPeriodInTicks T"] mod_less_divisor [OF assms(2), of "n - c"]
    by linarith
  with assms(1,3) show ?thesis
    by (auto simp: next_due_def calls_def split: if_splits)
qed

lemma clear_active:
  assumes inv: "tinv X w" and t: "t \<in> X" "timers w t = Some T"
  obtains w' where "upd_timer t (clear_status tmrSTATUS_IS_ACTIVE) w = Some w'" "tinv (X - {t}) w'" "due_at e w' = due_at e w"
    "expired w' = expired w" "keeps_timers R w w'" "timers w' = (timers w)(t \<mapsto> clear_status tmrSTATUS_IS_ACTIVE T)"
    "qstate w' = qstate w"
proof -
  let ?T = "clear_status tmrSTATUS_IS_ACTIVE T"
  let ?w = "w\<lparr>timers := (timers w)(t \<mapsto> ?T)\<rparr>"
  have T: "\<not> is_active ?T" "is_auto ?T = is_auto T" "xTimerPeriodInTicks ?T = xTimerPeriodInTicks T"
  proof -
    have "(s AND NOT 1) AND 1 = (0 :: u8)" "(s AND NOT 1) AND 4 = s AND (4 :: u8)" for s
      by (rule bit_word_eqI; auto simp: bit_and_iff bit_not_iff bit_1_iff)
        (rule bit_word_eqI; auto simp: bit_and_iff bit_not_iff bit_1_iff bit_numeral_rec split: nat.splits)
    then show "\<not> is_active ?T" "is_auto ?T = is_auto T"
      by (simp_all add: has_status_def clear_status_def timer_consts)
  qed (simp add: clear_status_def)
  have free: "in_list w t = None"
    using tinvD(5) [OF inv] t(1) by blast
  have "tinv (X - {t}) ?w"
    unfolding tinv_def
  proof (intro conjI allI impI)
    show "pxCurrentTimerList ?w \<noteq> pxOverflowTimerList ?w"
      using tinvD(1) [OF inv] by simp
    show "\<exists>A. lists_sorted ?w A"
      using tinvD(2) [OF inv] by (simp add: lists_sorted_def timer_lists_def)
    fix u U
    assume u: "timers ?w u = Some U"
    then obtain V where V: "timers w u = Some V" "xTimerPeriodInTicks U = xTimerPeriodInTicks V"
      using t(2) T(3) by (auto split: if_splits)
    show "timer_ok u U"
      using tinvD(3) [OF inv V(1)] V(2) by (simp add: timer_ok_def)
    assume "u \<notin> X - {t}"
    then show "in_list ?w u \<noteq> None \<longleftrightarrow> is_active U"
      using u T(1) free tinvD(4) [OF inv, of u U] by (cases "u = t") auto
  next
    fix u
    assume "in_list ?w u \<noteq> None"
    then show "u \<notin> X - {t}" "timers ?w u \<noteq> None" "item_owner ?w u = u"
      using tinvD(5-7) [OF inv, of u] by auto
  qed
  moreover have "upd_timer t (clear_status tmrSTATUS_IS_ACTIVE) w = Some ?w"
    using t(2) by (simp add: upd_timer_def)
  moreover have "due_at e ?w = due_at e w"
    by (simp add: due_at_def fun_eq_iff)
  moreover have "keeps_timers R w ?w"
    using t(2) T(2,3) by (simp add: keeps_timers_def)
  ultimately show ?thesis
    using that [of ?w] by simp
qed

lemma expire_ok:
  assumes law: "callback_law R cb" and inv: "tinv X w" and t: "t \<in> X" "timers w t = Some T" "is_active T"
    and c: "c \<le> n" "n < c + u32_bound"
  shows "\<exists>w'. expire cb t (c mod u32_bound) (n mod u32_bound) w = Some w' \<and> tinv (X - {t}) w' \<and> keeps_timers R w w' \<and>
    expired w' = expired w @ replicate (calls T c n) t \<and>
    due_at (n div u32_bound) w' = (due_at (n div u32_bound) w)(t := next_due T c n)"
proof -
  let ?e = "n div u32_bound"
  have "in_list w t = None"
    using tinvD(5) [OF inv] t(1) by blast
  then have free: "due_at ?e w t = None"
    by (simp add: due_at_def)
  define j where "j = (if is_auto T then (n - c) div xTimerPeriodInTicks T else 0)"
  obtain w1 where w1: "(if is_auto T then prvReloadTimer cb t (c mod u32_bound) (n mod u32_bound) w
      else upd_timer t (clear_status tmrSTATUS_IS_ACTIVE) w) = Some w1" "tinv (X - {t}) w1" "keeps_timers R w w1"
    "expired w1 = expired w @ replicate j t" "due_at ?e w1 = (due_at ?e w)(t := next_due T c n)"
  proof (cases "is_auto T")
    case True
    with reload_ok [OF law inv t c] that show ?thesis
      by (auto simp: j_def next_due_def calls_def)
  next
    case False
    obtain w1 where "upd_timer t (clear_status tmrSTATUS_IS_ACTIVE) w = Some w1" "tinv (X - {t}) w1" "due_at ?e w1 = due_at ?e w"
      "expired w1 = expired w" "keeps_timers R w w1"
      using clear_active [OF inv t(1,2)] by blast
    with False free that [of w1] show ?thesis
      by (simp add: j_def next_due_def fun_upd_idem)
  qed
  obtain T1 where "timers w1 t = Some T1"
    using w1(3) t(2) by (auto simp: keeps_timers_def)
  then obtain w' where w': "run_callback cb t w1 = Some w'" "expired w' = expired w1 @ [t]" "tinv (X - {t}) w'" "\<And>e. due_at e w' = due_at e w1"
    "keeps_timers R w1 w'"
    using run_callback_ok [OF law _ w1(2)] by metis
  have "expire cb t (c mod u32_bound) (n mod u32_bound) w = Some w'"
    using t(2) w1(1) w'(1) by (simp add: expire_def)
  moreover have "expired w' = expired w @ replicate (calls T c n) t"
    using w'(2) w1(4) by (simp add: calls_def j_def replicate_append_same)
  ultimately show ?thesis
    using w'(3-5) w1(3,5) keeps_timers_trans by auto
qed

end
