(* ===== verification/TimerTask.thy ===== *)
theory TimerTask
  imports TimerRun
begin

text \<open>
  Expired timers: the timer at the head of the current list, its processing, and the loop that empties
  the list. \<open>moved\<close> is what catching up to a time does to one timer.
\<close>

section \<open>The head of the current list\<close>

lemma current_empty:
  assumes "tinv X w"
  shows "listLIST_IS_EMPTY (pxCurrentTimerList w) (tstore w) \<longleftrightarrow> (\<forall>t. in_list w t \<noteq> Some (pxCurrentTimerList w))"
    "listLIST_IS_EMPTY (pxOverflowTimerList w) (tstore w) \<longleftrightarrow> (\<forall>t. in_list w t \<noteq> Some (pxOverflowTimerList w))"
proof -
  obtain A where A: "lists_sorted w A"
    using tinvD(2) [OF assms] by blast
  have "listLIST_IS_EMPTY l (tstore w) \<longleftrightarrow> (\<forall>t. in_list w t \<noteq> Some l)" if l: "l \<in> timer_lists w" for l
  proof -
    have "uxNumberOfItems (list_at (tstore w) l) = length (A l)"
      using rep_listD [of "timer_lists w" "tstore w" A l] A l by (simp add: lists_sorted_def list_rep_def)
    then have "listLIST_IS_EMPTY l (tstore w) \<longleftrightarrow> A l = []"
      by (simp add: listLIST_IS_EMPTY_def)
    also have "\<dots> \<longleftrightarrow> (\<forall>t. in_list w t \<noteq> Some l)"
      using l by (simp add: listed [OF A])
    finally show ?thesis .
  qed
  then show "listLIST_IS_EMPTY (pxCurrentTimerList w) (tstore w) \<longleftrightarrow> (\<forall>t. in_list w t \<noteq> Some (pxCurrentTimerList w))"
    "listLIST_IS_EMPTY (pxOverflowTimerList w) (tstore w) \<longleftrightarrow> (\<forall>t. in_list w t \<noteq> Some (pxOverflowTimerList w))"
    by (simp_all add: timer_lists_def)
qed

lemma head_timer:
  assumes inv: "tinv X w" and ne: "\<not> listLIST_IS_EMPTY (pxCurrentTimerList w) (tstore w)"
  obtains t T where "listGET_OWNER_OF_HEAD_ENTRY (pxCurrentTimerList w) (tstore w) = t"
    "listGET_ITEM_VALUE_OF_HEAD_ENTRY (pxCurrentTimerList w) (tstore w) = expiry w t"
    "in_list w t = Some (pxCurrentTimerList w)" "timers w t = Some T" "is_active T" "t \<notin> X"
    "\<And>u. in_list w u = Some (pxCurrentTimerList w) \<Longrightarrow> expiry w t \<le> expiry w u"
proof -
  let ?l = "pxCurrentTimerList w"
  obtain A where A: "lists_sorted w A"
    using tinvD(2) [OF inv] by blast
  have l: "?l \<in> timer_lists w"
    by (simp add: timer_lists_def)
  have lr: "list_rep (tstore w) ?l (A ?l)"
    using rep_listD [of "timer_lists w" "tstore w" A ?l] A l by (simp add: lists_sorted_def)
  then have "A ?l \<noteq> []"
    using ne by (auto simp: listLIST_IS_EMPTY_def list_rep_def)
  then obtain t xs where t: "A ?l = t # xs"
    by (cases "A ?l") auto
  have head: "next_of (tstore w) (End ?l) = Item t"
    using lr t linked_ends(1) [of "next_of (tstore w)" "prev_of (tstore w)" "End ?l" "t # xs" "End ?l"] by (simp add: list_rep_def)
  have i: "in_list w t = Some ?l"
    using listed [OF A] l t by simp
  then have "in_list w t \<noteq> None"
    by simp
  note I = tinvD(5-7) [OF inv this]
  obtain T where T: "timers w t = Some T"
    using I(2) by blast
  have "is_active T"
    using tinvD(4) [OF inv T I(1)] i by simp
  moreover have "expiry w t \<le> expiry w u" if "in_list w u = Some ?l" for u
    using that A l t listed [OF A, of u ?l] by (auto simp: lists_sorted_def)
  moreover have "listGET_OWNER_OF_HEAD_ENTRY ?l (tstore w) = t" "listGET_ITEM_VALUE_OF_HEAD_ENTRY ?l (tstore w) = expiry w t"
    using head I(3) by (simp_all add: listGET_OWNER_OF_HEAD_ENTRY_def listGET_ITEM_VALUE_OF_HEAD_ENTRY_def)
  ultimately show ?thesis
    using that I(1) i T by blast
qed

lemma finite_current:
  assumes "tinv X w"
  shows "finite {t. in_list w t = Some (pxCurrentTimerList w)}"
proof -
  obtain A where A: "lists_sorted w A"
    using tinvD(2) [OF assms] by blast
  have "{t. in_list w t = Some (pxCurrentTimerList w)} \<subseteq> set (A (pxCurrentTimerList w))"
    by (simp add: listed [OF A] subset_eq)
  then show ?thesis
    by (rule finite_subset) simp
qed

text \<open>Due times in the current epoch and in the next.\<close>

lemma due_current: "in_list w t = Some (pxCurrentTimerList w) \<Longrightarrow> due_at e w t = Some (e * u32_bound + expiry w t)"
  by (simp add: due_at_def)

lemma due_epoch:
  assumes "tinv X w" "due_at e w t = Some d"
  shows "in_list w t = Some (pxCurrentTimerList w) \<longleftrightarrow> d div u32_bound = e" "e * u32_bound \<le> d" "d mod u32_bound = expiry w t"
    "in_list w t \<noteq> None" "d div u32_bound \<le> Suc e"
proof -
  obtain l where l: "in_list w t = Some l" "d = (if l = pxCurrentTimerList w then e else Suc e) * u32_bound + expiry w t"
    using assms(2) by (auto simp: due_at_def)
  note b = expiry_bound [OF assms(1), of t]
  have "(a * u32_bound + expiry w t) div u32_bound = a" "(a * u32_bound + expiry w t) mod u32_bound = expiry w t" for a
    using b by (simp_all only: div_mult_self3 [OF gr_implies_not0 [OF u32_bound_pos]] mod_mult_self3 mod_less div_less add_0_right)
  then show "in_list w t = Some (pxCurrentTimerList w) \<longleftrightarrow> d div u32_bound = e" "e * u32_bound \<le> d" "d mod u32_bound = expiry w t"
    "in_list w t \<noteq> None" "d div u32_bound \<le> Suc e"
    using l by auto
qed

section \<open>Expired timers\<close>

lemma process_ok:
  assumes law: "callback_law R cb" and inv: "tinv X w" and ne: "\<not> listLIST_IS_EMPTY (pxCurrentTimerList w) (tstore w)"
    and n: "listGET_ITEM_VALUE_OF_HEAD_ENTRY (pxCurrentTimerList w) (tstore w) \<le> n mod u32_bound"
  defines "e \<equiv> n div u32_bound"
  obtains w' t T c where
    "prvProcessExpiredTimer cb (listGET_ITEM_VALUE_OF_HEAD_ENTRY (pxCurrentTimerList w) (tstore w)) (n mod u32_bound) w = Some w'"
    "due_at e w t = Some c" "c \<le> n" "\<And>u d. due_at e w u = Some d \<Longrightarrow> c \<le> d" "timers w t = Some T" "t \<notin> X" "c div u32_bound = e"
    "tinv X w'" "keeps_timers R w w'" "expired w' = expired w @ replicate (calls T c n) t"
    "due_at e w' = (due_at e w)(t := next_due T c n)"
proof -
  obtain t T where t: "listGET_OWNER_OF_HEAD_ENTRY (pxCurrentTimerList w) (tstore w) = t"
    "listGET_ITEM_VALUE_OF_HEAD_ENTRY (pxCurrentTimerList w) (tstore w) = expiry w t"
    "in_list w t = Some (pxCurrentTimerList w)" "timers w t = Some T" "is_active T" "t \<notin> X"
    "\<And>u. in_list w u = Some (pxCurrentTimerList w) \<Longrightarrow> expiry w t \<le> expiry w u"
    using head_timer [OF inv ne] by blast
  define c where "c = e * u32_bound + expiry w t"
  have due_at: "due_at e w t = Some c"
    using due_current t(3) by (simp add: c_def)
  have nn: "n = e * u32_bound + n mod u32_bound"
    by (simp add: e_def)
  have "n mod u32_bound < u32_bound"
    by simp
  then have c: "c \<le> n" "n < c + u32_bound"
    using n nn unfolding t(2) c_def by linarith+
  have cm: "c mod u32_bound = expiry w t"
    using expiry_bound [OF inv, of t] by (simp add: c_def)
  have "c \<le> d" if "due_at e w u = Some d" for u d
  proof (cases "in_list w u = Some (pxCurrentTimerList w)")
    case True
    then show ?thesis
      using that t(7) [OF True] due_current [OF True, of e] by (simp add: c_def)
  next
    case False
    then have "d = Suc e * u32_bound + expiry w u"
      using that by (auto simp: due_at_def)
    moreover have "Suc e * u32_bound = e * u32_bound + u32_bound"
      by simp
    ultimately show ?thesis
      using expiry_bound [OF inv, of t] unfolding c_def by linarith
  qed
  moreover obtain s where s: "in_store (listREMOVE_ITEM t) w = Some (w\<lparr>tstore := s\<rparr>)" "tinv (insert t X) (w\<lparr>tstore := s\<rparr>)"
    "due_at e (w\<lparr>tstore := s\<rparr>) = (due_at e w)(t := None)"
    using remove_timer [OF inv, of t e] t(3) by blast
  let ?w = "w\<lparr>tstore := s\<rparr>"
  have t': "timers ?w t = Some T" "t \<in> insert t X"
    using t(4) by simp_all
  obtain w' where w': "expire cb t (c mod u32_bound) (n mod u32_bound) ?w = Some w'" "tinv (insert t X - {t}) w'" "keeps_timers R ?w w'"
    "expired w' = expired ?w @ replicate (calls T c n) t" "due_at e w' = (due_at e ?w)(t := next_due T c n)"
    using expire_ok [OF law s(2) t'(2,1) t(5) c] by (auto simp: e_def)
  have "prvProcessExpiredTimer cb (expiry w t) (n mod u32_bound) w = Some w'"
    using w'(1) t(1,4) s(1) cm by (simp add: prvProcessExpiredTimer_def)
  moreover have "insert t X - {t} = X"
    using t(6) by simp
  moreover have "keeps_timers R w w'"
    using w'(3) by (simp add: keeps_timers_def)
  moreover have "c div u32_bound = e"
    using due_epoch(1) [OF inv due_at] t(3) by simp
  ultimately show ?thesis
    using that [of w' t c T] due_at c(1) t(2,4,6) w'(2,4,5) s(3) by simp
qed

section \<open>Catching up\<close>

text \<open>
  What happens to one timer while the timer task catches up to time \<open>n\<close>: nothing, or it had expired
  and is handled once, in the reload mode it has at that moment. \<open>D\<close> and \<open>D'\<close> are the due times.
\<close>

definition moved :: "addr set \<Rightarrow> nat \<Rightarrow> (addr \<Rightarrow> nat option) \<Rightarrow> (addr \<Rightarrow> nat option) \<Rightarrow> tworld \<Rightarrow> tworld \<Rightarrow> addr \<Rightarrow> bool" where
  "moved R n D D' w w' t \<longleftrightarrow>
     D' t = D t \<and> count_list (expired w') t = count_list (expired w) t \<or>
     (\<exists>T T' c. timers w t = Some T \<and> xTimerPeriodInTicks T' = xTimerPeriodInTicks T \<and> (t \<in> R \<longrightarrow> is_auto T' = is_auto T) \<and>
        D t = Some c \<and> c \<le> n \<and> D' t = next_due T' c n \<and>
        count_list (expired w') t = count_list (expired w) t + calls T' c n)"

lemma moved_refl: "moved R n D D w w t"
  by (simp add: moved_def)

lemma count_replicate: "count_list (replicate n x) y = (if x = y then n else 0)"
  by (induction n) auto

lemma process_moved:
  assumes "timers w t = Some T" "D t = Some c" "c \<le> n" "D' = D(t := next_due T c n)"
    "expired w' = expired w @ replicate (calls T c n) t"
  shows "moved R n D D' w w' u"
  using assms by (cases "u = t") (auto simp: moved_def count_replicate)

text \<open>Handling timers of the current list first one and then others.\<close>

lemma moved_step:
  assumes "moved R n D D1 w w1 t" "moved R n D1 D2 w1 w2 t" "keeps_timers R w w1" "D t \<noteq> None \<Longrightarrow> \<exists>T. timers w t = Some T \<and> 0 < xTimerPeriodInTicks T"
  shows "moved R n D D2 w w2 t"
proof (cases "D1 t = D t \<and> count_list (expired w1) t = count_list (expired w) t")
  case True
  show ?thesis
  proof (cases "D2 t = D1 t \<and> count_list (expired w2) t = count_list (expired w1) t")
    case False
    then obtain T1 T' c where 1: "timers w1 t = Some T1" "xTimerPeriodInTicks T' = xTimerPeriodInTicks T1" "t \<in> R \<longrightarrow> is_auto T' = is_auto T1"
      "D1 t = Some c" "c \<le> n" "D2 t = next_due T' c n" "count_list (expired w2) t = count_list (expired w1) t + calls T' c n"
      using assms(2) by (auto simp: moved_def)
    then obtain T where T: "timers w t = Some T"
      using assms(4) True by auto
    then have "xTimerPeriodInTicks T1 = xTimerPeriodInTicks T" "t \<in> R \<longrightarrow> is_auto T1 = is_auto T"
      using keeps_timersD [OF assms(3) T] 1(1) by auto
    with 1 T True show ?thesis
      unfolding moved_def by (intro disjI2 exI [of _ T] exI [of _ T'] exI [of _ c]) simp
  qed (use True in \<open>simp add: moved_def\<close>)
next
  case False
  then obtain T T' c where 1: "timers w t = Some T" "xTimerPeriodInTicks T' = xTimerPeriodInTicks T" "D t = Some c" "c \<le> n" "D1 t = next_due T' c n"
    using assms(1) by (auto simp: moved_def)
  then have "0 < xTimerPeriodInTicks T'"
    using assms(4) by auto
  then have "\<not> (\<exists>d. D1 t = Some d \<and> d \<le> n)"
    using next_due_later [of T' c n] 1(4,5) by (metis leD)
  then have "D2 t = D1 t \<and> count_list (expired w2) t = count_list (expired w1) t"
    using assms(2) by (auto simp: moved_def)
  with assms(1) show ?thesis
    by (simp add: moved_def)
qed

lemma due_timer: "tinv X w \<Longrightarrow> due_at e w t \<noteq> None \<Longrightarrow> \<exists>T. timers w t = Some T \<and> 0 < xTimerPeriodInTicks T"
  using tinvD(3,6) [of X w t] by (auto simp: due_at_def timer_ok_def)

lemma empty_ok:
  assumes "callback_law R cb" "tinv X w" "n = e * u32_bound + tmrMAX_TIME_BEFORE_OVERFLOW"
  shows "\<exists>w'. empty_current_list cb w = Some w' \<and> tinv X w' \<and> keeps_timers R w w' \<and>
    listLIST_IS_EMPTY (pxCurrentTimerList w') (tstore w') \<and> (\<forall>t. moved R n (due_at e w) (due_at e w') w w' t)"
  using assms
proof (induction "card {t. in_list w t = Some (pxCurrentTimerList w)}" arbitrary: w rule: less_induct)
  case less
  show ?case
  proof (cases "listLIST_IS_EMPTY (pxCurrentTimerList w) (tstore w)")
    case True
    moreover have "\<forall>t. moved R n (due_at e w) (due_at e w) w w t"
      by (intro allI moved_refl)
    ultimately show ?thesis
      using less.prems(2) by (subst empty_current_list.simps) simp
  next
    case False
    have nm: "n mod u32_bound = tmrMAX_TIME_BEFORE_OVERFLOW" "n div u32_bound = e"
      using less.prems(3) by (simp_all add: timer_consts u32_bound_def)
    have le: "listGET_ITEM_VALUE_OF_HEAD_ENTRY (pxCurrentTimerList w) (tstore w) \<le> n mod u32_bound"
    proof -
      obtain t where "listGET_ITEM_VALUE_OF_HEAD_ENTRY (pxCurrentTimerList w) (tstore w) = expiry w t"
        using head_timer [OF less.prems(2) False] by metis
      then show ?thesis
        using expiry_bound [OF less.prems(2), of t] nm(1) by (simp add: timer_consts u32_bound_def)
    qed
    obtain w1 t T c where w1:
      "prvProcessExpiredTimer cb (listGET_ITEM_VALUE_OF_HEAD_ENTRY (pxCurrentTimerList w) (tstore w)) tmrMAX_TIME_BEFORE_OVERFLOW w = Some w1"
      "due_at e w t = Some c" "c \<le> n" "timers w t = Some T" "c div u32_bound = e" "tinv X w1" "keeps_timers R w w1"
      "expired w1 = expired w @ replicate (calls T c n) t" "due_at e w1 = (due_at e w)(t := next_due T c n)"
      using process_ok [OF less.prems(1,2) False le] unfolding nm by metis
    have cur: "pxCurrentTimerList w1 = pxCurrentTimerList w"
      using w1(7) by (simp add: keeps_timers_def)
    have p: "0 < xTimerPeriodInTicks T"
      using tinvD(3) [OF less.prems(2) w1(4)] by (simp add: timer_ok_def)
    let ?C = "\<lambda>w. {t. in_list w t = Some (pxCurrentTimerList w)}"
    have "?C w1 \<subseteq> ?C w - {t}"
    proof
      fix u
      assume "u \<in> ?C w1"
      then obtain d where d: "due_at e w1 u = Some d" "d div u32_bound = e"
        using due_epoch(1) [OF w1(6)] due_current by fastforce
      have "u \<noteq> t"
      proof
        assume "u = t"
        then have "n < d"
          using d(1) w1(3,9) next_due_later [OF _ p] by simp
        moreover have "n = e * u32_bound + (u32_bound - 1)"
          using less.prems(3) by (simp add: timer_consts u32_bound_def)
        moreover have "d < e * u32_bound + u32_bound"
        proof -
          have "d = e * u32_bound + d mod u32_bound"
            using div_mult_mod_eq [of d u32_bound] unfolding d(2) by (rule sym)
          moreover have "d mod u32_bound < u32_bound"
            by simp
          ultimately show ?thesis by linarith
        qed
        ultimately show False
          using u32_bound_pos by linarith
      qed
      then have "due_at e w u = Some d"
        using d(1) w1(9) by simp
      then show "u \<in> ?C w - {t}"
        using due_epoch(1) [OF less.prems(2)] d(2) \<open>u \<noteq> t\<close> by blast
    qed
    moreover have "t \<in> ?C w"
      using due_epoch(1) [OF less.prems(2) w1(2)] w1(5) by simp
    ultimately have "card (?C w1) < card (?C w)"
      by (intro psubset_card_mono finite_current [OF less.prems(2)]) blast
    from less.hyps [OF this less.prems(1) w1(6) less.prems(3)]
    obtain w' where w': "empty_current_list cb w1 = Some w'" "tinv X w'" "keeps_timers R w1 w'"
      "listLIST_IS_EMPTY (pxCurrentTimerList w') (tstore w')" "\<And>t. moved R n (due_at e w1) (due_at e w') w1 w' t"
      by blast
    have "empty_current_list cb w = Some w'"
      using False w1(1) w'(1) by (subst empty_current_list.simps) simp
    moreover have "moved R n (due_at e w) (due_at e w') w w' u" for u
      by (rule moved_step [OF process_moved [OF w1(4,2,3,9,8)] w'(5) w1(7)]) (rule due_timer [OF less.prems(2)])
    ultimately show ?thesis
      using w'(2,4) keeps_timers_trans [OF w1(7) w'(3)] by blast
  qed
qed

end
