(* ===== verification/TimerSync.thy ===== *)
theory TimerSync
  imports TimerTask
begin

text \<open>
  The timer task in step with the tick count: the switch of the lists after a wrap and the sampling
  of time. \<open>synced X w n L\<close> says that the true time is \<open>n\<close>, was last sampled at \<open>L\<close>, and that not a
  whole wrap has passed since, unless there is no timer to be late for.
\<close>

section \<open>Switching the lists\<close>

definition same_modes :: "addr set \<Rightarrow> tworld \<Rightarrow> tworld \<Rightarrow> bool" where
  "same_modes R w w' \<longleftrightarrow>
     (\<forall>t T. timers w t = Some T \<longrightarrow>
        (\<exists>T'. timers w' t = Some T' \<and> xTimerPeriodInTicks T' = xTimerPeriodInTicks T \<and> (t \<in> R \<longrightarrow> is_auto T' = is_auto T)))"

lemma keeps_timers_modes: "keeps_timers R w w' \<Longrightarrow> same_modes R w w'"
  by (simp add: keeps_timers_def same_modes_def)

lemma same_modesD:
  assumes "same_modes R w w'" "timers w t = Some T"
  obtains T' where "timers w' t = Some T'" "xTimerPeriodInTicks T' = xTimerPeriodInTicks T" "t \<in> R \<longrightarrow> is_auto T' = is_auto T"
  using assms unfolding same_modes_def by blast

lemma listed_in:
  assumes "tinv X w" "in_list w t = Some l"
  shows "l = pxCurrentTimerList w \<or> l = pxOverflowTimerList w"
proof -
  obtain A where "lists_sorted w A"
    using tinvD(2) [OF assms(1)] by blast
  then show ?thesis
    using listed assms(2) by (auto simp: timer_lists_def)
qed

lemma tinv_fields:
  assumes "tinv X w" "tstore w' = tstore w" "timers w' = timers w" "timer_lists w' = timer_lists w"
    "pxCurrentTimerList w' \<noteq> pxOverflowTimerList w'"
  shows "tinv X w'"
  using assms by (simp add: tinv_def lists_sorted_def)

text \<open>The end of an epoch is the time up to which the current list is emptied.\<close>

lemma switch_lists_ok:
  assumes "callback_law R cb" "tinv X w" "n = e * u32_bound + tmrMAX_TIME_BEFORE_OVERFLOW"
  obtains w' where "prvSwitchTimerLists cb w = Some w'" "tinv X w'" "same_modes R w w'" "xLastTime w' = xLastTime w"
    "\<And>t. moved R n (due_at e w) (due_at (Suc e) w') w w' t"
    "pxCurrentTimerList w' = pxOverflowTimerList w" "pxOverflowTimerList w' = pxCurrentTimerList w"
proof -
  obtain w1 where w1: "empty_current_list cb w = Some w1" "tinv X w1" "keeps_timers R w w1"
    "listLIST_IS_EMPTY (pxCurrentTimerList w1) (tstore w1)" "\<And>t. moved R n (due_at e w) (due_at e w1) w w1 t"
    using empty_ok [OF assms] by blast
  let ?w = "w1\<lparr>pxCurrentTimerList := pxOverflowTimerList w1, pxOverflowTimerList := pxCurrentTimerList w1\<rparr>"
  have none: "in_list w1 t \<noteq> Some (pxCurrentTimerList w1)" for t
    using current_empty(1) [OF w1(2)] w1(4) by blast
  have d: "due_at (Suc e) ?w = due_at e w1"
  proof -
    have "due_at (Suc e) ?w t = due_at e w1 t" for t
      using listed_in [OF w1(2), of t] none [of t] by (cases "in_list w1 t") (auto simp: due_at_def)
    then show ?thesis ..
  qed
  show ?thesis
  proof (rule that [of ?w])
    show "prvSwitchTimerLists cb w = Some ?w"
      using w1(1) by (simp add: prvSwitchTimerLists_def)
    show "tinv X ?w"
      by (rule tinv_fields [OF w1(2)]) (use tinvD(1) [OF w1(2)] in \<open>auto simp: timer_lists_def\<close>)
    show "same_modes R w ?w" "xLastTime ?w = xLastTime w" "pxCurrentTimerList ?w = pxOverflowTimerList w"
      "pxOverflowTimerList ?w = pxCurrentTimerList w"
      using w1(3) by (simp_all add: keeps_timers_def same_modes_def)
    show "moved R n (due_at e w) (due_at (Suc e) ?w) w ?w t" for t
      using w1(5) [of t] unfolding d by (simp add: moved_def)
  qed
qed

section \<open>Sampling the time\<close>

definition synced :: "addr set \<Rightarrow> tworld \<Rightarrow> nat \<Rightarrow> nat \<Rightarrow> bool" where
  "synced X w n L \<longleftrightarrow>
     tinv X w \<and> xTaskGetTickCount (tkernel w) = n mod u32_bound \<and> xLastTime w = L mod u32_bound \<and> L \<le> n \<and>
     (n < L + u32_bound \<or> (\<forall>t. in_list w t = None))"

lemma sample_unlisted:
  assumes "tinv X w" "\<And>t. in_list w t = None"
  shows "prvSwitchTimerLists cb w = Some (w\<lparr>pxCurrentTimerList := pxOverflowTimerList w, pxOverflowTimerList := pxCurrentTimerList w\<rparr>)"
proof -
  have "listLIST_IS_EMPTY (pxCurrentTimerList w) (tstore w)"
    using current_empty(1) [OF assms(1)] assms(2) by simp
  then have "empty_current_list cb w = Some w"
    by (subst empty_current_list.simps) simp
  then show ?thesis
    by (simp add: prvSwitchTimerLists_def)
qed

text \<open>
  After sampling, the current list is that of the epoch of \<open>n\<close>; timers of an epoch that has passed
  have been handled up to its end \<open>m\<close>.
\<close>

lemma sample_ok:
  assumes law: "callback_law R cb" and s: "synced X w n L"
  obtains w' m where "prvSampleTimeNow cb w = Some (n mod u32_bound, n mod u32_bound < L mod u32_bound, w')"
    "tinv X w'" "same_modes R w w'" "xLastTime w' = n mod u32_bound" "m \<le> n"
    "\<And>t. moved R m (due_at (L div u32_bound) w) (due_at (n div u32_bound) w') w w' t"
    "\<not> n mod u32_bound < L mod u32_bound \<Longrightarrow> w' = w\<lparr>xLastTime := n mod u32_bound\<rparr> \<and> due_at (n div u32_bound) w' = due_at (L div u32_bound) w"
proof -
  let ?e = "L div u32_bound" and ?sw = "n mod u32_bound < L mod u32_bound"
  have inv: "tinv X w" and L: "L \<le> n" and c: "n < L + u32_bound \<or> (\<forall>t. in_list w t = None)"
    and tick: "xTaskGetTickCount (tkernel w) = n mod u32_bound" "xLastTime w = L mod u32_bound"
    using s by (auto simp: synced_def)
  have inv': "tinv X (v\<lparr>xLastTime := x\<rparr>)" if "tinv X v" for v x
    by (rule tinv_fields [OF that]) (use tinvD(1) [OF that] in \<open>simp_all add: timer_lists_def\<close>)
  have due_at': "due_at e (v\<lparr>xLastTime := x\<rparr>) = due_at e v" for e v x
    by (simp add: due_at_def fun_eq_iff)
  have empty: "due_at e v = (\<lambda>_. None)" if "\<forall>t. in_list v t = None" for e v
    using that by (simp add: due_at_def fun_eq_iff)
  show ?thesis
  proof (cases ?sw)
    case False
    let ?w = "w\<lparr>xLastTime := n mod u32_bound\<rparr>"
    have d: "due_at (n div u32_bound) w = due_at ?e w"
    proof (cases "\<forall>t. in_list w t = None")
      case True
      then show ?thesis
        by (simp only: empty [OF True])
    next
      case lt: False
      then have "n < L + u32_bound"
        using c by blast
      with L have "n div u32_bound = ?e"
      proof (cases rule: mod_cases)
        case (2 a k m)
        then have "L mod u32_bound = k" "n mod u32_bound = m"
          by (simp_all only: mod_mult_self3) simp_all
        with 2 False show ?thesis by simp
      qed simp
      then show ?thesis by simp
    qed
    have "prvSampleTimeNow cb w = Some (n mod u32_bound, ?sw, ?w)"
      using False by (simp add: prvSampleTimeNow_def tick Let_def)
    then show ?thesis
      by (rule that [where m = n]) (use inv' [OF inv] False d due_at' in \<open>simp_all add: moved_def same_modes_def\<close>)
  next
    case True
    show ?thesis
    proof (cases "\<forall>t. in_list w t = None")
      case none: True
      let ?v = "w\<lparr>pxCurrentTimerList := pxOverflowTimerList w, pxOverflowTimerList := pxCurrentTimerList w\<rparr>"
      let ?w = "?v\<lparr>xLastTime := n mod u32_bound\<rparr>"
      have "prvSampleTimeNow cb w = Some (n mod u32_bound, ?sw, ?w)"
        using True sample_unlisted [OF inv, of cb] none by (simp add: prvSampleTimeNow_def tick Let_def)
      moreover have "tinv X ?w"
        by (rule tinv_fields [OF inv]) (use tinvD(1) [OF inv] in \<open>auto simp: timer_lists_def\<close>)
      moreover have "due_at (n div u32_bound) ?w = due_at ?e w"
        using none empty [of w ?e] empty [of ?w "n div u32_bound"] by simp
      ultimately show ?thesis
        by (rule_tac that [of ?w n]) (use True in \<open>simp_all add: moved_def same_modes_def\<close>)
    next
      case lt: False
      then have lt: "n < L + u32_bound"
        using c by blast
      have nd: "n div u32_bound = Suc ?e"
        using L lt
      proof (cases rule: mod_cases)
        case (1 a k m)
        then have "L mod u32_bound = k" "n mod u32_bound = m"
          by (simp_all only: mod_mult_self3) simp_all
        with 1 True show ?thesis by simp
      next
        case (2 a k m)
        have "k div u32_bound = 0" "m div u32_bound = 0"
          using 2 by simp_all
        then show ?thesis
          unfolding 2(1,2) by (simp only: div_mult_self3 [OF gr_implies_not0 [OF u32_bound_pos]] add_0_right)
      qed
      define m where "m = ?e * u32_bound + tmrMAX_TIME_BEFORE_OVERFLOW"
      have "Suc ?e * u32_bound \<le> n"
        unfolding nd [symmetric] by simp
      then have mn: "m \<le> n"
        by (simp add: m_def timer_consts u32_bound_def)
      obtain v where v: "prvSwitchTimerLists cb w = Some v" "tinv X v" "same_modes R w v"
        "\<And>t. moved R m (due_at ?e w) (due_at (Suc ?e) v) w v t"
        using switch_lists_ok [OF law inv m_def] by metis
      have "prvSampleTimeNow cb w = Some (n mod u32_bound, ?sw, v\<lparr>xLastTime := n mod u32_bound\<rparr>)"
        using True v(1) by (simp add: prvSampleTimeNow_def tick Let_def)
      then show ?thesis
        by (rule that [OF _ inv' [OF v(2)] _ _ mn])
          (use v(3,4) True in \<open>simp_all add: same_modes_def due_at' nd moved_def\<close>)
    qed
  qed
qed

end
