(* ===== verification/TimerCommands.thy ===== *)
theory TimerCommands
  imports TimerSync
begin

text \<open>
  Timer commands in true time: a message that a timer be started at time \<open>c\<close> may be handled at a later
  time \<open>n\<close>, after any number of expiries. \<open>done_to\<close> is the effect of a command on the timer it names,
  and the other timers are only caught up.
\<close>

section \<open>Changing the record of a timer\<close>

lemma status_bits:
  "is_active (set_status tmrSTATUS_IS_ACTIVE T)" "is_auto (set_status tmrSTATUS_IS_ACTIVE T) = is_auto T"
  "xTimerPeriodInTicks (set_status b T) = xTimerPeriodInTicks T"
proof -
  have "(s OR 1) AND 1 = (1 :: u8)" "(s OR 1) AND 4 = s AND (4 :: u8)" for s
    by (rule bit_word_eqI; auto simp: bit_and_iff bit_or_iff bit_1_iff)
      (rule bit_word_eqI; auto simp: bit_and_iff bit_or_iff bit_1_iff bit_numeral_rec split: nat.splits)
  then show "is_active (set_status tmrSTATUS_IS_ACTIVE T)" "is_auto (set_status tmrSTATUS_IS_ACTIVE T) = is_auto T"
    by (simp_all add: has_status_def set_status_def timer_consts)
qed (simp add: set_status_def)

lemma upd_ok:
  assumes inv: "tinv X w" and t: "t \<in> X" "timers w t = Some T" "timer_ok t (f T)"
  obtains w' where "upd_timer t f w = Some w'" "tinv X w'" "\<And>e. due_at e w' = due_at e w" "expired w' = expired w"
    "timers w' = (timers w)(t \<mapsto> f T)" "xLastTime w' = xLastTime w"
proof -
  let ?w = "w\<lparr>timers := (timers w)(t \<mapsto> f T)\<rparr>"
  have "tinv X ?w"
    unfolding tinv_def
  proof (intro conjI allI impI)
    show "pxCurrentTimerList ?w \<noteq> pxOverflowTimerList ?w"
      using tinvD(1) [OF inv] by simp
    show "\<exists>A. lists_sorted ?w A"
      using tinvD(2) [OF inv] by (simp add: lists_sorted_def timer_lists_def)
    fix u U
    assume u: "timers ?w u = Some U"
    then show "timer_ok u U"
      using t(3) tinvD(3) [OF inv, of u] by (auto split: if_splits)
    assume "u \<notin> X"
    then show "in_list ?w u \<noteq> None \<longleftrightarrow> is_active U"
      using u t(1) tinvD(4) [OF inv, of u U] by (cases "u = t") auto
  next
    fix u
    assume "in_list ?w u \<noteq> None"
    then show "u \<notin> X" "timers ?w u \<noteq> None" "item_owner ?w u = u"
      using tinvD(5-7) [OF inv, of u] by auto
  qed
  then show ?thesis
    by (rule that [rotated]) (use t(2) in \<open>simp_all add: upd_timer_def due_at_def fun_eq_iff\<close>)
qed

section \<open>The effect on the timer\<close>

text \<open>
  \<open>done_to R n w w' t d k\<close>: from \<open>w\<close> to \<open>w'\<close> the timer \<open>t\<close> got the due time \<open>d\<close>, its
  callback ran \<open>k\<close> times, and nothing happened to other timers.
\<close>

definition done_to :: "addr set \<Rightarrow> nat \<Rightarrow> tworld \<Rightarrow> tworld \<Rightarrow> addr \<Rightarrow> nat option \<Rightarrow> nat \<Rightarrow> bool" where
  "done_to R n w w' t d k \<longleftrightarrow>
     tinv {} w' \<and> xLastTime w' = xLastTime w \<and> due_at (n div u32_bound) w' = (due_at (n div u32_bound) w)(t := d) \<and>
     expired w' = expired w @ replicate k t \<and>
     (\<forall>u T. u \<noteq> t \<longrightarrow> timers w u = Some T \<longrightarrow>
        (\<exists>T'. timers w' u = Some T' \<and> xTimerPeriodInTicks T' = xTimerPeriodInTicks T \<and> (u \<in> R \<longrightarrow> is_auto T' = is_auto T)))"

lemma done_toI:
  assumes "tinv {} w'" "xLastTime w' = xLastTime w" "due_at (n div u32_bound) w' = (due_at (n div u32_bound) w)(t := d)"
    "expired w' = expired w @ replicate k t" "timers v = (timers w)(t := x)" "keeps_timers R v w'"
  shows "done_to R n w w' t d k"
proof -
  have "\<exists>T'. timers w' u = Some T' \<and> xTimerPeriodInTicks T' = xTimerPeriodInTicks T \<and> (u \<in> R \<longrightarrow> is_auto T' = is_auto T)"
    if "u \<noteq> t" "timers w u = Some T" for u T
    using that assms(5) keeps_timersD [OF assms(6), of u T] by (metis fun_upd_other)
  with assms(1-4) show ?thesis
    by (simp add: done_to_def)
qed

text \<open>Starting a timer at time \<open>c\<close>: the first expiry is one period later, and may be in the past.\<close>

definition first_due :: "Timer \<Rightarrow> nat \<Rightarrow> nat \<Rightarrow> nat option" where
  "first_due T c n = (let c = c + xTimerPeriodInTicks T in if c \<le> n then next_due T c n else Some c)"

definition first_calls :: "Timer \<Rightarrow> nat \<Rightarrow> nat \<Rightarrow> nat" where
  "first_calls T c n = (let c = c + xTimerPeriodInTicks T in if c \<le> n then calls T c n else 0)"

lemma keeps_last: "keeps_timers R w w' \<Longrightarrow> xLastTime w' = xLastTime w"
  by (simp add: keeps_timers_def)

lemma start_ok:
  assumes law: "callback_law R cb" and inv: "tinv {t} w" and t: "timers w t = Some T" and c: "c \<le> n" "n < c + u32_bound"
    and i: "i \<in> {tmrCOMMAND_START, tmrCOMMAND_START_FROM_ISR, tmrCOMMAND_RESET, tmrCOMMAND_RESET_FROM_ISR}"
  obtains w' where "command_case cb i (c mod u32_bound) t (n mod u32_bound) w = Some w'"
    "done_to R n w w' t (first_due T c n) (first_calls T c n)"
proof -
  let ?p = "xTimerPeriodInTicks T" and ?T = "set_status tmrSTATUS_IS_ACTIVE T" and ?e = "n div u32_bound"
  have p: "timer_ok t ?T" "0 < ?p" "?p < u32_bound"
    using tinvD(3) [OF inv t] by (simp_all add: timer_ok_def status_bits)
  have add: "add32 (c mod u32_bound) ?p = (c + ?p) mod u32_bound"
    by (simp add: add32_def mod_add_left_eq)
  obtain w1 where w1: "upd_timer t (set_status tmrSTATUS_IS_ACTIVE) w = Some w1" "tinv {t} w1" "\<And>e. due_at e w1 = due_at e w"
    "expired w1 = expired w" "timers w1 = (timers w)(t \<mapsto> ?T)" "xLastTime w1 = xLastTime w"
    by (rule upd_ok [where f = "set_status tmrSTATUS_IS_ACTIVE", OF inv _ t p(1)]) simp_all
  have t1: "timers w1 t = Some ?T"
    using w1(5) by simp
  obtain w2 where w2: "prvInsertTimerInActiveList t ((c + ?p) mod u32_bound) (n mod u32_bound) (c mod u32_bound) w1 = Some (c + ?p \<le> n, w2)"
    "keeps_timers R w1 w2" "timers w2 = timers w1" "expired w2 = expired w1"
    "if c + ?p \<le> n then tinv {t} w2 \<and> due_at ?e w2 = due_at ?e w1 else tinv ({t} - {t}) w2 \<and> due_at ?e w2 = (due_at ?e w1)(t \<mapsto> c + ?p)"
    using insert_timer_ok [OF w1(2) _ t1 status_bits(1) c, of R] unfolding status_bits by auto
  have cc: "command_case cb i (c mod u32_bound) t (n mod u32_bound) w =
    (if c + ?p \<le> n then expire cb t ((c + ?p) mod u32_bound) (n mod u32_bound) w2 else Some w2)"
    using i t w1(1) w2(1) by (simp add: command_case_def add)
  show ?thesis
  proof (cases "c + ?p \<le> n")
    case False
    have "done_to R n w w2 t (first_due T c n) (first_calls T c n)"
      by (rule done_toI [OF _ _ _ _ w1(5) w2(2)])
        (use False w1(3,4,6) w2(4,5) keeps_last [OF w2(2)] in \<open>simp_all add: first_due_def first_calls_def\<close>)
    moreover have "command_case cb i (c mod u32_bound) t (n mod u32_bound) w = Some w2"
      using cc False by simp
    ultimately show ?thesis
      using that by blast
  next
    case True
    have i2: "tinv {t} w2" "due_at ?e w2 = due_at ?e w1"
      using w2(5) True by simp_all
    have t2: "timers w2 t = Some ?T"
      using w2(3) t1 by simp
    have lt: "n < c + ?p + u32_bound"
      using c(2) by simp
    obtain w' where w': "expire cb t ((c + ?p) mod u32_bound) (n mod u32_bound) w2 = Some w'" "tinv ({t} - {t}) w'" "keeps_timers R w2 w'"
      "expired w' = expired w2 @ replicate (calls ?T (c + ?p) n) t" "due_at ?e w' = (due_at ?e w2)(t := next_due ?T (c + ?p) n)"
      using expire_ok [OF law i2(1) _ t2 status_bits(1) True lt] by auto
    have same: "calls ?T (c + ?p) n = first_calls T c n" "next_due ?T (c + ?p) n = first_due T c n"
      using True by (simp_all add: first_calls_def first_due_def next_due_def calls_def status_bits Let_def)
    note k = keeps_timers_trans [OF w2(2) w'(3)]
    have "done_to R n w w' t (first_due T c n) (first_calls T c n)"
      by (rule done_toI [OF _ _ _ _ w1(5) k])
        (use w1(3,4,6) w2(4) i2(2) w'(2,4,5) keeps_last [OF k] in \<open>simp_all add: same\<close>)
    moreover have "command_case cb i (c mod u32_bound) t (n mod u32_bound) w = Some w'"
      using cc True w'(1) by simp
    ultimately show ?thesis
      using that by blast
  qed
qed

text \<open>A timer that is only marked dormant.\<close>

lemma dormant_ok:
  assumes inv: "tinv {t} w" and t: "timers w t = Some T"
  obtains w' where "upd_timer t (clear_status tmrSTATUS_IS_ACTIVE) w = Some w'" "done_to R n w w' t None 0"
proof -
  obtain w' where w': "upd_timer t (clear_status tmrSTATUS_IS_ACTIVE) w = Some w'" "tinv ({t} - {t}) w'"
    "due_at (n div u32_bound) w' = due_at (n div u32_bound) w" "expired w' = expired w" "keeps_timers R w w'"
    using clear_active [OF inv _ t, of "n div u32_bound" R] by auto
  have "in_list w t = None"
    using tinvD(5) [OF inv] by blast
  then have free: "due_at e w t = None" for e
    by (simp add: due_at_def)
  have tt: "timers w = (timers w)(t := timers w t)"
    by simp
  have "done_to R n w w' t None 0"
    by (rule done_toI [OF _ _ _ _ tt w'(5)]) (use w'(2-4) keeps_last [OF w'(5)] in \<open>simp_all add: fun_upd_idem free\<close>)
  then show ?thesis
    using that w'(1) by blast
qed

lemma stop_case:
  assumes "timers w t = Some T" "i \<in> {tmrCOMMAND_STOP, tmrCOMMAND_STOP_FROM_ISR} \<or> i = tmrCOMMAND_DELETE \<and> has_status tmrSTATUS_IS_STATICALLY_ALLOCATED T"
  shows "command_case cb i v t m w = upd_timer t (clear_status tmrSTATUS_IS_ACTIVE) w"
  using assms by (auto simp: command_case_def timer_consts)

text \<open>Changing the period starts the timer now.\<close>

lemma change_ok:
  assumes inv: "tinv {t} w" and t: "timers w t = Some T" and v: "0 < v" "v < u32_bound"
    and i: "i \<in> {tmrCOMMAND_CHANGE_PERIOD, tmrCOMMAND_CHANGE_PERIOD_FROM_ISR}"
  obtains w' where "command_case cb i v t (n mod u32_bound) w = Some w'" "done_to R n w w' t (Some (n + v)) 0"
    "map_option xTimerPeriodInTicks (timers w' t) = Some v"
proof -
  let ?f = "\<lambda>T. set_status tmrSTATUS_IS_ACTIVE T\<lparr>xTimerPeriodInTicks := v\<rparr>" and ?e = "n div u32_bound"
  have p: "timer_ok t (?f T)"
    using tinvD(3) [OF inv t] v by (simp add: timer_ok_def)
  have a: "is_active (?f T)" "xTimerPeriodInTicks (?f T) = v"
    using status_bits(1) [of T] by (simp_all add: has_status_def)
  obtain w1 where w1: "upd_timer t ?f w = Some w1" "tinv {t} w1" "\<And>e. due_at e w1 = due_at e w"
    "expired w1 = expired w" "timers w1 = (timers w)(t \<mapsto> ?f T)" "xLastTime w1 = xLastTime w"
    by (rule upd_ok [where f = ?f, OF inv _ t p]) simp_all
  have t1: "timers w1 t = Some (?f T)"
    using w1(5) by simp
  have n: "n \<le> n" "n < n + u32_bound" "\<not> n + v \<le> n"
    using v by simp_all
  obtain w2 where w2: "prvInsertTimerInActiveList t ((n + v) mod u32_bound) (n mod u32_bound) (n mod u32_bound) w1 = Some (n + v \<le> n, w2)"
    "keeps_timers R w1 w2" "timers w2 = timers w1" "expired w2 = expired w1"
    "if n + v \<le> n then tinv {t} w2 \<and> due_at ?e w2 = due_at ?e w1 else tinv ({t} - {t}) w2 \<and> due_at ?e w2 = (due_at ?e w1)(t \<mapsto> n + v)"
    using insert_timer_ok [OF w1(2) _ t1 a(1) n(1,2), of R] unfolding a(2) by auto
  have add: "add32 (n mod u32_bound) v = (n + v) mod u32_bound"
    by (simp add: add32_def mod_add_left_eq)
  have "done_to R n w w2 t (Some (n + v)) 0"
    by (rule done_toI [OF _ _ _ _ w1(5) w2(2)]) (use n(3) w1(3,4,6) w2(4,5) keeps_last [OF w2(2)] in simp_all)
  moreover have "command_case cb i v t (n mod u32_bound) w = Some w2"
    using i t w1(1) w2(1) v by (auto simp: command_case_def add timer_consts)
  moreover have "map_option xTimerPeriodInTicks (timers w2 t) = Some v"
    using t1 a(2) w2(3) by simp
  ultimately show ?thesis
    using that by blast
qed

lemma delete_ok:
  assumes inv: "tinv {t} w" and t: "timers w t = Some T" "\<not> has_status tmrSTATUS_IS_STATICALLY_ALLOCATED T"
    and r: "command_case cb tmrCOMMAND_DELETE v t (n mod u32_bound) w = Some w'"
  shows "done_to R n w w' t None 0" "timers w' t = None"
proof -
  obtain k h where w': "w' = (set_tkernel k w)\<lparr>theap := h, timers := (timers w)(t := None)\<rparr>"
    using r t by (auto simp: command_case_def timer_consts split: Option.bind_splits)
  have "in_list w t = None"
    using tinvD(5) [OF inv] by blast
  then have free: "due_at e w t = None" "in_list w t = None" for e
    by (simp_all add: due_at_def)
  have f: "tstore w' = tstore w" "timers w' = (timers w)(t := None)" "pxCurrentTimerList w' = pxCurrentTimerList w"
    "pxOverflowTimerList w' = pxOverflowTimerList w" "expired w' = expired w" "xLastTime w' = xLastTime w"
    by (simp_all add: w' set_tkernel_def)
  have d: "due_at e w' = due_at e w" for e
    by (simp add: due_at_def fun_eq_iff f)
  have "tinv {} w'"
    unfolding tinv_def
  proof (intro conjI allI impI)
    show "pxCurrentTimerList w' \<noteq> pxOverflowTimerList w'" "\<exists>A. lists_sorted w' A"
      using tinvD(1,2) [OF inv] by (simp_all add: f lists_sorted_def timer_lists_def)
    fix u U
    assume "timers w' u = Some U"
    then have "timers w u = Some U" "u \<noteq> t"
      by (simp_all add: f split: if_splits)
    then show "timer_ok u U" "in_list w' u \<noteq> None \<longleftrightarrow> is_active U"
      using tinvD(3,4) [OF inv] by (simp_all add: f)
  next
    fix u
    assume "in_list w' u \<noteq> None"
    then show "u \<notin> {}" "timers w' u \<noteq> None" "item_owner w' u = u"
      using tinvD(6,7) [OF inv, of u] free(2) by (auto simp: f)
  qed
  then show "done_to R n w w' t None 0" "timers w' t = None"
    by (simp_all add: done_to_def f d fun_upd_idem free)
qed

text \<open>Every command leaves the lists well formed and the other timers alone.\<close>

definition command_ids :: "int set" where
  "command_ids = {tmrCOMMAND_START .. tmrCOMMAND_CHANGE_PERIOD_FROM_ISR}"

definition start_ids :: "int set" where
  "start_ids = {tmrCOMMAND_START, tmrCOMMAND_START_FROM_ISR, tmrCOMMAND_RESET, tmrCOMMAND_RESET_FROM_ISR}"

lemma command_id_cases:
  assumes "i \<in> command_ids"
  obtains "i \<in> start_ids" | "i \<in> {tmrCOMMAND_STOP, tmrCOMMAND_STOP_FROM_ISR}"
  | "i \<in> {tmrCOMMAND_CHANGE_PERIOD, tmrCOMMAND_CHANGE_PERIOD_FROM_ISR}" | "i = tmrCOMMAND_DELETE"
proof -
  have "i \<in> {1, 2, 3, 4, 5, 6, 7, 8, 9}"
    using assms by (auto simp: command_ids_def timer_consts)
  then show ?thesis
    using that by (auto simp: start_ids_def timer_consts)
qed

lemma command_case_ok:
  assumes law: "callback_law R cb" and inv: "tinv {t} w" and t: "timers w t = Some T" and i: "i \<in> command_ids"
    and c: "i \<in> start_ids \<Longrightarrow> v = c mod u32_bound \<and> c \<le> n \<and> n < c + u32_bound" and v: "v < u32_bound"
    and r: "command_case cb i v t (n mod u32_bound) w = Some w'"
  shows "\<exists>d k. done_to R n w w' t d k"
  using i
proof (cases rule: command_id_cases)
  case 1
  then have v: "v = c mod u32_bound" and "c \<le> n" "n < c + u32_bound"
    using c by blast+
  then obtain w1 where "command_case cb i v t (n mod u32_bound) w = Some w1" "done_to R n w w1 t (first_due T c n) (first_calls T c n)"
    using start_ok [OF law inv t, of c n i] 1 unfolding v start_ids_def by metis
  with r show ?thesis
    by auto
next
  case 2
  with stop_case [of w t T i cb v "n mod u32_bound"] dormant_ok [OF inv t, of R n] t r show ?thesis
    by (metis option.inject)
next
  case 3
  have "v \<noteq> 0"
  proof
    assume "v = 0"
    then have "command_case cb i v t (n mod u32_bound) w = None"
      using 3 t by (auto simp: command_case_def upd_timer_def timer_consts)
    with r show False by simp
  qed
  then have "0 < v" by simp
  with change_ok [OF inv t, of v i cb n R] v 3 r show ?thesis
    by (metis option.inject)
next
  case 4
  show ?thesis
  proof (cases "has_status tmrSTATUS_IS_STATICALLY_ALLOCATED T")
    case True
    with stop_case [of w t T i cb v "n mod u32_bound"] dormant_ok [OF inv t, of R n] t r 4 show ?thesis
      by (metis option.inject)
  next
    case False
    with delete_ok(1) [OF inv t] r 4 show ?thesis
      by metis
  qed
qed

section \<open>Receiving a command\<close>

text \<open>What happens before the case of the command: the timer leaves its list and time is sampled.\<close>

lemma same_modes_trans: "same_modes R w1 w2 \<Longrightarrow> same_modes R w2 w3 \<Longrightarrow> same_modes R w1 w3"
  unfolding same_modes_def by (auto, metis)

lemma command_prefix:
  assumes law: "callback_law R cb" and s: "synced {} w n L" and t: "timers w t = Some T"
  obtains w' T' m where "\<And>i v. process_command cb i v t w = command_case cb i v t (n mod u32_bound) w'"
    "tinv {t} w'" "timers w' t = Some T'" "xTimerPeriodInTicks T' = xTimerPeriodInTicks T" "t \<in> R \<longrightarrow> is_auto T' = is_auto T"
    "xLastTime w' = n mod u32_bound" "same_modes R w w'" "m \<le> n" "count_list (expired w') t = count_list (expired w) t"
    "\<And>u. u \<noteq> t \<Longrightarrow> moved R m (due_at (L div u32_bound) w) (due_at (n div u32_bound) w') w w' u"
proof -
  let ?e = "L div u32_bound"
  have inv: "tinv {} w" and sy: "xTaskGetTickCount (tkernel w) = n mod u32_bound" "xLastTime w = L mod u32_bound" "L \<le> n"
    "n < L + u32_bound \<or> (\<forall>t. in_list w t = None)"
    using s by (auto simp: synced_def)
  obtain w1 where w1: "(if in_list w t \<noteq> None then in_store (listREMOVE_ITEM t) w else Some w) = Some w1" "tinv {t} w1"
    "due_at ?e w1 = (due_at ?e w)(t := None)" "timers w1 = timers w" "expired w1 = expired w" "qstate w1 = qstate w" "xLastTime w1 = xLastTime w"
  proof (cases "in_list w t = None")
    case True
    then have "due_at ?e w t = None"
      by (simp add: due_at_def)
    moreover have "tinv {t} w"
      using inv True unfolding tinv_def by auto
    ultimately show ?thesis
      using that [of w] True by (simp add: fun_upd_idem)
  next
    case False
    obtain s where "in_store (listREMOVE_ITEM t) w = Some (w\<lparr>tstore := s\<rparr>)" "tinv (insert t {}) (w\<lparr>tstore := s\<rparr>)"
      "due_at ?e (w\<lparr>tstore := s\<rparr>) = (due_at ?e w)(t := None)"
      using remove_timer [OF inv False] by metis
    then show ?thesis
      using that [of "w\<lparr>tstore := s\<rparr>"] False by simp
  qed
  have sub: "in_list w1 u = None" if "in_list w u = None" for u
  proof (cases "u = t")
    case True
    then show ?thesis
      using tinvD(5) [OF w1(2), of t] by blast
  next
    case False
    then have "due_at ?e w1 u = None"
      using that w1(3) by (simp add: due_at_def)
    then show ?thesis
      by (simp add: due_at_def)
  qed
  have s1: "synced {t} w1 n L"
    using w1(2,6,7) sy sub unfolding synced_def by auto
  obtain w2 m where w2: "prvSampleTimeNow cb w1 = Some (n mod u32_bound, n mod u32_bound < L mod u32_bound, w2)"
    "tinv {t} w2" "same_modes R w1 w2" "xLastTime w2 = n mod u32_bound" "m \<le> n"
    "\<And>u. moved R m (due_at ?e w1) (due_at (n div u32_bound) w2) w1 w2 u"
    using sample_ok [OF law s1] by metis
  have mw: "same_modes R w w2"
    using w2(3) w1(4) by (simp add: same_modes_def)
  obtain T' where T': "timers w2 t = Some T'" "xTimerPeriodInTicks T' = xTimerPeriodInTicks T" "t \<in> R \<longrightarrow> is_auto T' = is_auto T"
    by (rule same_modesD [OF mw t])
  have pc: "process_command cb i v t w = command_case cb i v t (n mod u32_bound) w2" for i v
    using t w1(1) w2(1) by (simp add: process_command_def)
  have cnt: "count_list (expired w2) t = count_list (expired w) t"
    using w2(6) [of t] w1(3,5) by (auto simp: moved_def)
  have mv: "moved R m (due_at ?e w) (due_at (n div u32_bound) w2) w w2 u" if "u \<noteq> t" for u
    using w2(6) [of u] that w1(3-5) by (auto simp: moved_def)
  show ?thesis
    by (rule that [OF pc w2(2) T' w2(4) mw w2(5) cnt mv])
qed

end
