(* ===== verification/TimerHistory.thy ===== *)
theory TimerHistory
  imports TimerCommands
begin

text \<open>
  The timer task among other tasks and interrupts. A state of the machine is the world, the true
  time, the true time of the last sample and the place of the timer task. Between its parts others
  may do anything that leaves the timers alone: use the queue, switch tasks, let time pass. A
  command is handled only for a timer that exists, within a wrap of the time it was sent, and not for
  the timers \<open>R\<close>; the timer task samples the time at least once per wrap while timers run.
\<close>

section \<open>The machine\<close>

record tsys =
  tm_world :: tworld
  tm_now :: nat
  tm_sampled :: nat
  tm_pos :: tpc

definition no_timers :: "tworld \<Rightarrow> bool" where
  "no_timers w \<longleftrightarrow> (\<forall>t. in_list w t = None)"

definition pended_law :: "addr set \<Rightarrow> pended \<Rightarrow> bool" where
  "pended_law R pf \<longleftrightarrow> (\<forall>f a b w w'. pf f a b w = Some w' \<longrightarrow> same_timers R w w')"

text \<open>A message the timer task may find in its queue at time \<open>n\<close>.\<close>

definition good_message :: "addr set \<Rightarrow> tworld \<Rightarrow> nat \<Rightarrow> u8 list \<Rightarrow> bool" where
  "good_message R w n bs \<longleftrightarrow>
     message_id bs < 0 \<or>
     message_id bs \<in> command_ids \<and> message_word 2 bs \<notin> R \<and> timers w (message_word 2 bs) \<noteq> None \<and> message_word 1 bs < u32_bound \<and>
     (message_id bs \<in> start_ids \<longrightarrow> (\<exists>c. message_word 1 bs = c mod u32_bound \<and> c \<le> n \<and> n < c + u32_bound))"

fun samples :: "tpc \<Rightarrow> bool" where
  "samples (Blocking (Decide x b)) \<longleftrightarrow> True"
| "samples (Commands (Handling bs)) \<longleftrightarrow> message_id bs \<ge> 0"
| "samples _ \<longleftrightarrow> False"

definition clocks_ok :: "tworld \<Rightarrow> nat \<Rightarrow> nat \<Rightarrow> bool" where
  "clocks_ok w n L \<longleftrightarrow> xTaskGetTickCount (tkernel w) = n mod u32_bound \<and> (n < L + u32_bound \<or> no_timers w)"

inductive timer_step :: "addr set \<Rightarrow> callback \<Rightarrow> pended \<Rightarrow> tsys \<Rightarrow> tsys \<Rightarrow> bool" for R cb pf where
  others: "\<lbrakk>same_timers R (tm_world s) w'; tm_now s \<le> n'; clocks_ok w' n' (tm_sampled s)\<rbrakk>
    \<Longrightarrow> timer_step R cb pf s (s\<lparr>tm_world := w', tm_now := n'\<rparr>)"
| task: "\<lbrakk>prvTimerTask cb pf (tm_pos s) (tm_world s) = Some (pc', w');
    \<And>bs. tm_pos s = Commands (Handling bs) \<Longrightarrow> good_message R (tm_world s) (tm_now s) bs;
    L' = (if samples (tm_pos s) then tm_now s else tm_sampled s); tm_now s \<le> n'; clocks_ok w' n' L'\<rbrakk>
    \<Longrightarrow> timer_step R cb pf s \<lparr>tm_world = w', tm_now = n', tm_sampled = L', tm_pos = pc'\<rparr>"

section \<open>The invariant\<close>

definition sys_due :: "tsys \<Rightarrow> addr \<Rightarrow> nat option" where
  "sys_due s = due_at (tm_sampled s div u32_bound) (tm_world s)"

text \<open>
  Before the decision to block, the next expiry time and the emptiness that were read still hold.
  A wait ends no later than the first timer is due: it ends then or at the next wrap, and is
  indefinite only when there is no timer.
\<close>

definition pos_ok :: "tworld \<Rightarrow> (addr \<Rightarrow> nat option) \<Rightarrow> nat \<Rightarrow> tpc \<Rightarrow> bool" where
  "pos_ok w D L pc \<longleftrightarrow>
     (case pc of
        Blocking (Decide x b) \<Rightarrow> prvGetNextExpireTime w = (x, b)
      | Blocking (Waiting q k indefinitely) \<Rightarrow>
          (\<forall>t d. D t = Some d \<longrightarrow> L < d \<and> L + k \<le> d) \<and> (indefinitely \<longrightarrow> no_timers w) \<and>
          (\<not> indefinitely \<longrightarrow> (\<exists>t. D t = Some (L + k)) \<or> (L + k) mod u32_bound = 0)
      | _ \<Rightarrow> True)"

definition sys_ok :: "tsys \<Rightarrow> bool" where
  "sys_ok s \<longleftrightarrow> synced {} (tm_world s) (tm_now s) (tm_sampled s) \<and> pos_ok (tm_world s) (sys_due s) (tm_sampled s) (tm_pos s)"

lemma synced_iff:
  "synced {} w n L \<longleftrightarrow> tinv {} w \<and> xLastTime w = L mod u32_bound \<and> L \<le> n \<and> clocks_ok w n L"
  by (auto simp: synced_def clocks_ok_def no_timers_def)

lemma same_tinv_fields:
  assumes "tinv X w" "tstore w' = tstore w" "timers w' = timers w" "pxCurrentTimerList w' = pxCurrentTimerList w"
    "pxOverflowTimerList w' = pxOverflowTimerList w"
  shows "tinv X w'" "due_at e w' = due_at e w" "prvGetNextExpireTime w' = prvGetNextExpireTime w" "no_timers w' = no_timers w"
proof -
  show "tinv X w'"
    by (rule tinv_fields [OF assms(1-3)]) (use tinvD(1) [OF assms(1)] assms in \<open>simp_all add: timer_lists_def\<close>)
qed (simp_all add: due_at_def fun_eq_iff prvGetNextExpireTime_def no_timers_def assms)

lemma next_fields:
  assumes "tstore w' = tstore w" "pxCurrentTimerList w' = pxCurrentTimerList w"
  shows "prvGetNextExpireTime w' = prvGetNextExpireTime w"
  unfolding prvGetNextExpireTime_def assms ..

text \<open>Setting the kernel or the queue.\<close>

lemma set_parts [simp]:
  "tstore (set_tkernel k w) = tstore w" "timers (set_tkernel k w) = timers w" "pxCurrentTimerList (set_tkernel k w) = pxCurrentTimerList w"
  "pxOverflowTimerList (set_tkernel k w) = pxOverflowTimerList w" "xLastTime (set_tkernel k w) = xLastTime w"
  "expired (set_tkernel k w) = expired w" "tkernel (set_tkernel k w) = k" "xTimerQueue (set_tkernel k w) = xTimerQueue w"
  by (simp_all add: set_tkernel_def)

lemma next_expire:
  assumes "tinv X w" "prvGetNextExpireTime w = (x, b)"
  shows "b \<longleftrightarrow> listLIST_IS_EMPTY (pxCurrentTimerList w) (tstore w)"
    "\<not> b \<Longrightarrow> x = listGET_ITEM_VALUE_OF_HEAD_ENTRY (pxCurrentTimerList w) (tstore w)"
    "b \<Longrightarrow> x = 0"
    "\<not> b \<Longrightarrow> \<exists>t. due_at e w t = Some (e * u32_bound + x) \<and> x < u32_bound"
    "\<not> b \<Longrightarrow> due_at e w u = Some d \<Longrightarrow> e * u32_bound + x \<le> d"
    "b \<Longrightarrow> due_at e w u = Some d \<Longrightarrow> Suc e * u32_bound \<le> d"
proof -
  show b: "b \<longleftrightarrow> listLIST_IS_EMPTY (pxCurrentTimerList w) (tstore w)"
    and x: "\<not> b \<Longrightarrow> x = listGET_ITEM_VALUE_OF_HEAD_ENTRY (pxCurrentTimerList w) (tstore w)" and "b \<Longrightarrow> x = 0"
    using assms(2) by (auto simp: prvGetNextExpireTime_def split: if_splits)
  show "\<exists>t. due_at e w t = Some (e * u32_bound + x) \<and> x < u32_bound" if nb: "\<not> b"
  proof -
    obtain t where "listGET_ITEM_VALUE_OF_HEAD_ENTRY (pxCurrentTimerList w) (tstore w) = expiry w t" "in_list w t = Some (pxCurrentTimerList w)"
      using head_timer [OF assms(1)] nb b by metis
    with x [OF nb] due_current [of w t e] expiry_bound [OF assms(1), of t] show ?thesis
      by auto
  qed
  have late: "Suc e * u32_bound \<le> d" if "due_at e w u = Some d" "in_list w u \<noteq> Some (pxCurrentTimerList w)"
    using that by (auto simp: due_at_def)
  show "e * u32_bound + x \<le> d" if nb: "\<not> b" and d: "due_at e w u = Some d"
  proof (cases "in_list w u = Some (pxCurrentTimerList w)")
    case True
    obtain t where t: "listGET_ITEM_VALUE_OF_HEAD_ENTRY (pxCurrentTimerList w) (tstore w) = expiry w t" "expiry w t \<le> expiry w u"
      using head_timer [OF assms(1)] nb b True by metis
    with x [OF nb] due_current [OF True, of e] d show ?thesis
      by simp
  next
    case False
    obtain t where "x = expiry w t"
      using head_timer [OF assms(1)] nb b x [OF nb] by metis
    then have "x < u32_bound"
      using expiry_bound [OF assms(1)] by simp
    with late [OF d False] show ?thesis
      by simp
  qed
  show "Suc e * u32_bound \<le> d" if "b" and d: "due_at e w u = Some d"
    using late [OF d] current_empty(1) [OF assms(1)] b \<open>b\<close> by blast
qed

section \<open>The decision to block\<close>

text \<open>A part of the timer task, in a state where it samples at \<open>n\<close>.\<close>

lemma sample_kernel:
  assumes "synced {} w n L" "xTickCount k = xTickCount (tkernel w)"
  shows "synced {} (set_tkernel k w) n L"
  using assms same_tinv_fields [of "{}" w "set_tkernel k w"] by (simp add: synced_def xTaskGetTickCount_def)

lemma decide_ok:
  assumes law: "callback_law R cb" and s: "synced {} w n L" and x: "prvGetNextExpireTime w = (x, b)"
    and r: "prvProcessTimerOrBlockTask cb (Decide x b) w = Some (r', w')"
  obtains m where "tinv {} w'" "xLastTime w' = n mod u32_bound" "same_modes R w w'" "m \<le> n"
    "\<And>t. moved R m (due_at (L div u32_bound) w) (due_at (n div u32_bound) w') w w' t"
    "\<And>pc. r' = Inl pc \<Longrightarrow> pos_ok w' (due_at (n div u32_bound) w') n (Blocking pc)"
proof -
  let ?e = "L div u32_bound" and ?f = "n div u32_bound" and ?v = "set_tkernel (vTaskSuspendAll (tkernel w)) w"
    and ?sw = "n mod u32_bound < L mod u32_bound"
  have v: "synced {} ?v n L"
    by (rule sample_kernel [OF s]) (simp add: vTaskSuspendAll_def)
  have vw: "due_at e ?v = due_at e w" "prvGetNextExpireTime ?v = (x, b)" for e
    using same_tinv_fields [of "{}" w ?v] s x by (simp_all add: synced_def)
  obtain w1 m where w1: "prvSampleTimeNow cb ?v = Some (n mod u32_bound, ?sw, w1)"
    "tinv {} w1" "same_modes R ?v w1" "xLastTime w1 = n mod u32_bound" "m \<le> n"
    "\<And>t. moved R m (due_at ?e ?v) (due_at ?f w1) ?v w1 t"
    "\<not> ?sw \<Longrightarrow> w1 = ?v\<lparr>xLastTime := n mod u32_bound\<rparr> \<and> due_at ?f w1 = due_at ?e ?v"
    using sample_ok [OF law v] by metis
  have mv: "moved R m (due_at ?e w) (due_at ?f w1) w w1 t" for t
    using w1(6) [of t] by (simp add: moved_def vw(1))
  have md: "same_modes R w w1"
    using w1(3) by (simp add: same_modes_def)
  have unf: "prvProcessTimerOrBlockTask cb (Decide x b) w =
    (if \<not> ?sw \<and> \<not> (\<not> b \<and> x \<le> n mod u32_bound)
     then Some (Inl (Waiting LockQueue (sub32 x (n mod u32_bound)) (b \<and> listLIST_IS_EMPTY (pxOverflowTimerList w1) (tstore w1))), w1)
     else do { (_, k) \<leftarrow> xTaskResumeAll (tkernel w1);
               let w = set_tkernel k w1;
               w \<leftarrow> (if \<not> ?sw then prvProcessExpiredTimer cb x (n mod u32_bound) w else Some w);
               Some (Inr (), w) })"
    using w1(1) by simp
  consider "?sw" | "\<not> ?sw" "\<not> b" "x \<le> n mod u32_bound" | "\<not> ?sw" "\<not> (\<not> b \<and> x \<le> n mod u32_bound)"
    by blast
  then show ?thesis
  proof cases
    case 1
    then obtain k where w': "r' = Inr ()" "w' = set_tkernel k w1"
      using r unfolding unf by (auto split: Option.bind_splits)
    have f: "tinv {} w'" "due_at ?f w' = due_at ?f w1"
      using same_tinv_fields [OF w1(2), of w'] by (simp_all add: w'(2))
    show ?thesis
      by (rule that [of m]) (use f w1(4,5) md mv w' in \<open>simp_all add: same_modes_def moved_def\<close>)
  next
    case 2
    have w1': "w1 = ?v\<lparr>xLastTime := n mod u32_bound\<rparr>" and d1: "due_at ?f w1 = due_at ?e w"
      using w1(7) 2(1) vw(1) by auto
    obtain k where w': "r' = Inr ()" "prvProcessExpiredTimer cb x (n mod u32_bound) (set_tkernel k w1) = Some w'"
      using r 2 unfolding unf by (auto split: Option.bind_splits)
    let ?u = "set_tkernel k w1"
    have "prvGetNextExpireTime ?u = prvGetNextExpireTime ?v"
      by (rule next_fields) (simp_all add: w1')
    then have u: "tinv {} ?u" "due_at ?f ?u = due_at ?e w" "prvGetNextExpireTime ?u = (x, b)"
      using same_tinv_fields(1,2) [OF w1(2), of ?u] d1 vw(2) by simp_all
    note h = next_expire [OF u(1,3)]
    have ne: "\<not> listLIST_IS_EMPTY (pxCurrentTimerList ?u) (tstore ?u)"
      using h(1) 2(2) by blast
    have le: "listGET_ITEM_VALUE_OF_HEAD_ENTRY (pxCurrentTimerList ?u) (tstore ?u) \<le> n mod u32_bound"
      using h(2) [OF 2(2)] 2(3) by simp
    obtain w2 t T c where w2: "prvProcessExpiredTimer cb x (n mod u32_bound) ?u = Some w2"
      "due_at ?f ?u t = Some c" "c \<le> n" "timers ?u t = Some T" "tinv {} w2" "keeps_timers R ?u w2"
      "expired w2 = expired ?u @ replicate (calls T c n) t" "due_at ?f w2 = (due_at ?f ?u)(t := next_due T c n)"
      using process_ok [OF law u(1) ne le] unfolding h(2) [OF 2(2), symmetric] by metis
    have ww: "w2 = w'"
      using w2(1) w'(2) by simp
    have ut: "timers w t = Some T" "due_at ?e w t = Some c"
      using w2(2,4) u(2) by (simp_all add: w1')
    have mv': "moved R n (due_at ?e w) (due_at ?f w') w w' y" for y
      by (rule process_moved [of w t T "due_at ?e w" c]) (use ut w2(3,7,8) u(2) in \<open>simp_all add: ww w1'\<close>)
    have md': "same_modes R w w'"
      by (rule same_modes_trans [OF md]) (use keeps_timers_modes [OF w2(6)] in \<open>simp add: ww same_modes_def\<close>)
    have last: "xLastTime w' = n mod u32_bound"
      using keeps_last [OF w2(6)] w1(4) by (simp add: ww)
    show ?thesis
      by (rule that [OF w2(5) [unfolded ww] last md' order_refl mv']) (simp add: w'(1))
  next
    case 3
    have w1': "w1 = ?v\<lparr>xLastTime := n mod u32_bound\<rparr>" and d1: "due_at ?f w1 = due_at ?e w"
      using w1(7) 3(1) vw(1) by auto
    define ind where "ind \<longleftrightarrow> b \<and> listLIST_IS_EMPTY (pxOverflowTimerList w1) (tstore w1)"
    define k where "k = sub32 x (n mod u32_bound)"
    have w': "r' = Inl (Waiting LockQueue k ind)" "w' = w1"
      using r 3 unfolding unf by (auto simp: ind_def k_def)
    have "prvGetNextExpireTime w1 = prvGetNextExpireTime ?v"
      by (rule next_fields) (simp_all add: w1')
    then have g: "prvGetNextExpireTime w1 = (x, b)"
      using vw(2) by simp
    note h = next_expire [OF w1(2) g]
    have nn: "n = ?f * u32_bound + n mod u32_bound" "n mod u32_bound < u32_bound"
      by simp_all
    have pos: "pos_ok w1 (due_at ?f w1) n (Blocking (Waiting LockQueue k ind))"
    proof (cases b)
      case False
      then have lt: "n mod u32_bound < x"
        using 3(2) by simp
      obtain t where t: "due_at ?f w1 t = Some (?f * u32_bound + x)" "x < u32_bound"
        using h(4) [where e = ?f, OF False] by blast
      have k: "k = x - n mod u32_bound"
        using lt t(2) by (simp add: k_def sub32_exact)
      have nk: "n + k = ?f * u32_bound + x"
        using nn lt unfolding k by linarith
      have "n < d \<and> n + k \<le> d" if "due_at ?f w1 u = Some d" for u d
        using h(5) [OF False that] nk lt nn by linarith
      moreover have "\<not> ind"
        using False by (simp add: ind_def)
      ultimately show ?thesis
        using t(1) nk by (auto simp: pos_ok_def)
    next
      case True
      have x: "x = 0"
        using h(3) True by blast
      have lt: "n < d" "n + k \<le> d" if "due_at ?f w1 u = Some d" for u d
      proof -
        have ge: "?f * u32_bound + u32_bound \<le> d"
          using h(6) [OF True that] by simp
        then show "n < d"
          using nn by linarith
        have "k \<le> u32_bound - n mod u32_bound"
          using nn(2) by (cases "n mod u32_bound = 0") (simp_all add: k_def x sub32_exact sub32_under)
        then show "n + k \<le> d"
          using ge nn by linarith
      qed
      have "(n + k) mod u32_bound = 0"
      proof (cases "n mod u32_bound = 0")
        case True
        then show ?thesis
          by (simp add: k_def x sub32_exact)
      next
        case False
        then have "k = u32_bound - n mod u32_bound"
          by (simp add: k_def x sub32_under)
        then have "n + k = ?f * u32_bound + u32_bound"
          using nn by linarith
        then show ?thesis by simp
      qed
      moreover have "no_timers w1" if ind
        using current_empty [OF w1(2)] listed_in [OF w1(2)] True that h(1) unfolding ind_def no_timers_def by (metis not_None_eq)
      ultimately show ?thesis
        using lt by (auto simp: pos_ok_def)
    qed
    show ?thesis
      by (rule that [of m]) (use w1(2,4,5) md mv pos w' in simp_all)
  qed
qed

end
