(* ===== verification/TimerSystem.thy ===== *)
theory TimerSystem
  imports TimerHistory
begin

text \<open>
  The steps of the timer machine: each keeps the invariant, and a timer of \<open>R\<close> is only moved forward
  when it had expired. By induction an auto-reload timer stays on its schedule.
\<close>

section \<open>One part of the timer task\<close>

definition modes_on :: "addr set \<Rightarrow> tworld \<Rightarrow> tworld \<Rightarrow> bool" where
  "modes_on R w w' \<longleftrightarrow>
     (\<forall>t \<in> R. \<forall>T. timers w t = Some T \<longrightarrow>
        (\<exists>T'. timers w' t = Some T' \<and> xTimerPeriodInTicks T' = xTimerPeriodInTicks T \<and> is_auto T' = is_auto T))"

lemma modes_onI: "same_modes R w w' \<Longrightarrow> modes_on R w w'"
  unfolding same_modes_def modes_on_def by blast

lemma same_next:
  assumes "tinv X w" "same_timers R w w'"
  shows "prvGetNextExpireTime w' = prvGetNextExpireTime w" "no_timers w' = no_timers w"
proof -
  note S = same_lists [OF assms] and inv' = same_tinv(1) [OF assms]
  have cur: "pxCurrentTimerList w' = pxCurrentTimerList w"
    using same_timersD(1) [OF assms(2)] by (simp add: keeps_timers_def)
  show "no_timers w' = no_timers w"
    by (simp add: no_timers_def S(1))
  have e: "listLIST_IS_EMPTY (pxCurrentTimerList w') (tstore w') = listLIST_IS_EMPTY (pxCurrentTimerList w) (tstore w)"
    using current_empty(1) [OF assms(1)] current_empty(1) [OF inv'] by (simp add: S(1) cur)
  show "prvGetNextExpireTime w' = prvGetNextExpireTime w"
  proof (cases "listLIST_IS_EMPTY (pxCurrentTimerList w) (tstore w)")
    case True
    then show ?thesis
      using e by (simp add: prvGetNextExpireTime_def)
  next
    case False
    obtain t where t: "listGET_ITEM_VALUE_OF_HEAD_ENTRY (pxCurrentTimerList w) (tstore w) = expiry w t"
      "in_list w t = Some (pxCurrentTimerList w)"
      "\<And>u. in_list w u = Some (pxCurrentTimerList w) \<Longrightarrow> expiry w t \<le> expiry w u"
      using head_timer [OF assms(1) False] by blast
    obtain u where u: "listGET_ITEM_VALUE_OF_HEAD_ENTRY (pxCurrentTimerList w') (tstore w') = expiry w' u"
      "in_list w' u = Some (pxCurrentTimerList w')"
      "\<And>v. in_list w' v = Some (pxCurrentTimerList w') \<Longrightarrow> expiry w' u \<le> expiry w' v"
      using head_timer [OF inv'] False unfolding e by blast
    have iu: "in_list w u = Some (pxCurrentTimerList w)" and it: "in_list w' t = Some (pxCurrentTimerList w')"
      using u(2) t(2) by (simp_all add: S(1) cur)
    have "expiry w' u = expiry w u" "expiry w' t = expiry w t"
      using S(3) iu t(2) by simp_all
    then have "expiry w' u = expiry w t"
      using t(3) [OF iu] u(3) [OF it] by simp
    then show ?thesis
      using False e t(1) u(1) by (simp add: prvGetNextExpireTime_def)
  qed
qed

lemma pos_cong:
  assumes "prvGetNextExpireTime w' = prvGetNextExpireTime w" "no_timers w' = no_timers w" "D' = D"
  shows "pos_ok w' D' L pc = pos_ok w D L pc"
  unfolding pos_ok_def assms ..

lemma same_pos:
  assumes "tinv {} w" "same_timers R w w'" "pos_ok w (due_at e w) L pc"
  shows "pos_ok w' (due_at e w') L pc"
  using assms(3) pos_cong [OF same_next [OF assms(1,2)] same_tinv(2) [OF assms(1,2)]] by simp

lemma moved_same:
  assumes "tinv {} w" "same_timers R w w'"
  shows "moved R m (due_at e w) (due_at e w') w w' t"
  using same_tinv(2) [OF assms] same_timersD(2) [OF assms(2)] by (simp add: moved_def)

lemma fields_pos:
  assumes "tinv {} w" "tstore w' = tstore w" "timers w' = timers w" "pxCurrentTimerList w' = pxCurrentTimerList w"
    "pxOverflowTimerList w' = pxOverflowTimerList w" "expired w' = expired w"
  shows "tinv {} w'" "pos_ok w' (due_at e w') L pc = pos_ok w (due_at e w) L pc" "moved R m (due_at e w) (due_at e w') w w' t" "modes_on R w w'"
  using same_tinv_fields(1,2) [OF assms(1-5)] pos_cong [OF same_tinv_fields(3,4,2) [OF assms(1-5)]] assms(3,6)
  by (simp_all add: moved_def modes_on_def)

text \<open>A timer command.\<close>

lemma handle_ok:
  assumes law: "callback_law R cb" and s: "synced {} w n L" and g: "good_message R w n bs" "0 \<le> message_id bs"
    and r: "process_command cb (message_id bs) (message_word 1 bs) (message_word 2 bs) w = Some w'"
  obtains m where "tinv {} w'" "xLastTime w' = n mod u32_bound" "m \<le> n"
    "\<forall>t \<in> R. moved R m (due_at (L div u32_bound) w) (due_at (n div u32_bound) w') w w' t" "modes_on R w w'"
proof -
  let ?t = "message_word 2 bs" and ?i = "message_id bs" and ?v = "message_word 1 bs"
  have i: "?i \<in> command_ids" "?t \<notin> R" "timers w ?t \<noteq> None" "?v < u32_bound"
    "?i \<in> start_ids \<longrightarrow> (\<exists>c. ?v = c mod u32_bound \<and> c \<le> n \<and> n < c + u32_bound)"
    using g by (auto simp: good_message_def)
  then obtain T where T: "timers w ?t = Some T"
    by blast
  obtain c where c: "?i \<in> start_ids \<Longrightarrow> ?v = c mod u32_bound \<and> c \<le> n \<and> n < c + u32_bound"
    using i(5) by blast
  obtain w1 T1 m where w1: "\<And>i v. process_command cb i v ?t w = command_case cb i v ?t (n mod u32_bound) w1"
    "tinv {?t} w1" "timers w1 ?t = Some T1" "xLastTime w1 = n mod u32_bound" "same_modes R w w1" "m \<le> n"
    "\<And>u. u \<noteq> ?t \<Longrightarrow> moved R m (due_at (L div u32_bound) w) (due_at (n div u32_bound) w1) w w1 u"
    using command_prefix [OF law s T] by metis
  obtain d k where d: "done_to R n w1 w' ?t d k"
    using command_case_ok [OF law w1(2,3) i(1) c i(4)] r unfolding w1(1) by blast
  have mv: "moved R m (due_at (L div u32_bound) w) (due_at (n div u32_bound) w') w w' u" if "u \<in> R" for u
  proof -
    have "u \<noteq> ?t"
      using that i(2) by blast
    with w1(7) [OF this] d show ?thesis
      by (auto simp: moved_def done_to_def count_replicate)
  qed
  have md: "modes_on R w w'"
    unfolding modes_on_def
  proof (intro ballI allI impI)
    fix u U
    assume u: "u \<in> R" "timers w u = Some U"
    then obtain U1 where U1: "timers w1 u = Some U1" "xTimerPeriodInTicks U1 = xTimerPeriodInTicks U" "is_auto U1 = is_auto U"
      using w1(5) unfolding same_modes_def by blast
    have "u \<noteq> ?t"
      using u i(2) by blast
    then obtain U2 where "timers w' u = Some U2" "xTimerPeriodInTicks U2 = xTimerPeriodInTicks U1" "is_auto U2 = is_auto U1"
      using d u(1) U1(1) unfolding done_to_def by blast
    with U1 show "\<exists>T'. timers w' u = Some T' \<and> xTimerPeriodInTicks T' = xTimerPeriodInTicks U \<and> is_auto T' = is_auto U"
      by auto
  qed
  show ?thesis
    by (rule that [of m]) (use d w1(4,6) mv md in \<open>simp_all add: done_to_def\<close>)
qed

lemma task_ok:
  assumes law: "callback_law R cb" "pended_law R pf" and s: "synced {} w n L" and p: "pos_ok w (due_at (L div u32_bound) w) L pc"
    and r: "prvTimerTask cb pf pc w = Some (pc', w')" and g: "\<And>bs. pc = Commands (Handling bs) \<Longrightarrow> good_message R w n bs"
  defines "L' \<equiv> if samples pc then n else L"
  obtains m where "tinv {} w'" "xLastTime w' = L' mod u32_bound" "pos_ok w' (due_at (L' div u32_bound) w') L' pc'" "m \<le> L'"
    "\<forall>t \<in> R. moved R m (due_at (L div u32_bound) w) (due_at (L' div u32_bound) w') w w' t" "modes_on R w w'"
proof -
  have inv: "tinv {} w" and last: "xLastTime w = L mod u32_bound"
    using s by (simp_all add: synced_iff)
  note assms_that = that
  have quiet: thesis if "\<not> samples pc" "tstore w' = tstore w" "timers w' = timers w" "pxCurrentTimerList w' = pxCurrentTimerList w"
    "pxOverflowTimerList w' = pxOverflowTimerList w" "expired w' = expired w" "xLastTime w' = xLastTime w"
    "pos_ok w (due_at (L div u32_bound) w) L pc'"
  proof (rule assms_that)
    show "tinv {} w'" "pos_ok w' (due_at (L' div u32_bound) w') L' pc'"
      using that(1,8) fields_pos(1,2) [OF inv that(2-6)] by (simp_all add: L'_def)
    show "\<forall>t \<in> R. moved R 0 (due_at (L div u32_bound) w) (due_at (L' div u32_bound) w') w w' t" "modes_on R w w'"
      using that(1) fields_pos(3,4) [OF inv that(2-6)] by (simp_all add: L'_def)
  qed (use that(1,7) last in \<open>simp_all add: L'_def\<close>)
  show thesis
  proof (cases pc)
    case QueryTimers
    then have "w' = w" "pc' = Blocking (Decide (fst (prvGetNextExpireTime w)) (snd (prvGetNextExpireTime w)))"
      using r by (simp_all split: prod.splits)
    then show thesis
      by (intro quiet) (simp_all add: QueryTimers pos_ok_def)
  next
    case (Blocking bp)
    show thesis
    proof (cases bp)
      case (Decide x b)
      have x: "prvGetNextExpireTime w = (x, b)"
        using p by (simp add: Blocking Decide pos_ok_def)
      obtain r' where r': "prvProcessTimerOrBlockTask cb (Decide x b) w = Some (r', w')"
        "pc' = (case r' of Inl pc \<Rightarrow> Blocking pc | Inr _ \<Rightarrow> Commands (Receiving Enter no_wait))"
        using r by (auto simp: Blocking Decide simp del: prvProcessTimerOrBlockTask.simps)
      obtain m where m: "tinv {} w'" "xLastTime w' = n mod u32_bound" "same_modes R w w'" "m \<le> n"
        "\<And>t. moved R m (due_at (L div u32_bound) w) (due_at (n div u32_bound) w') w w' t"
        and pos: "\<And>pc. r' = Inl pc \<Longrightarrow> pos_ok w' (due_at (n div u32_bound) w') n (Blocking pc)"
        using decide_ok [OF law(1) s x r'(1)] by blast
      have "pos_ok w' (due_at (n div u32_bound) w') n pc'"
        using pos r'(2) by (cases r') (simp_all add: pos_ok_def)
      then show thesis
        by (rule_tac that [of m]) (use m in \<open>simp_all add: L'_def Blocking Decide modes_onI\<close>)
    next
      case (Waiting q k ind)
      obtain x qw where "vQueueWaitForMessageRestricted (xTimerQueue w) k ind q (qstate w) = Some (x, qw)"
        "w' = w\<lparr>qstate := qw\<rparr>" "pc' = Blocking (case x of Inl pc \<Rightarrow> Waiting pc k ind | Inr _ \<Rightarrow> EndWait)"
        using r by (auto simp: Blocking Waiting split: Option.bind_splits)
      then show thesis
        by (intro quiet) (use p in \<open>auto simp: Blocking Waiting pos_ok_def split: sum.splits\<close>)
    next
      case EndWait
      obtain k where "w' = set_tkernel k w" "pc' = Commands (Receiving Enter no_wait)"
        using r by (auto simp: Blocking EndWait split: Option.bind_splits)
      then show thesis
        by (intro quiet) (simp_all add: Blocking EndWait pos_ok_def)
    qed
  next
    case (Commands cp)
    obtain x where "prvProcessReceivedCommands cb pf cp w = Some (x, w')" "pc' = (case x of Inl pc \<Rightarrow> Commands pc | Inr _ \<Rightarrow> QueryTimers)"
      using r unfolding Commands prvTimerTask.simps by auto
    then have tail: "pos_ok v D M pc'" for v D M
      by (cases x) (simp_all add: pos_ok_def)
    show thesis
    proof (cases cp)
      case (Receiving q l)
      obtain qw where "w' = w\<lparr>qstate := qw\<rparr>"
        using r by (auto simp: Commands Receiving split: Option.bind_splits)
      then show thesis
        by (intro quiet) (simp_all add: Commands Receiving tail)
    next
      case (Handling bs)
      have gm: "good_message R w n bs"
        by (rule g) (simp add: Commands Handling)
      show thesis
      proof (cases "message_id bs < 0")
        case True
        then have "pf (message_word 1 bs) (message_word 2 bs) (message_word 3 bs) w = Some w'"
          using r by (auto simp: Commands Handling split: Option.bind_splits)
        then have st: "same_timers R w w'"
          using law(2) by (simp add: pended_law_def)
        have md: "modes_on R w w'"
          by (rule modes_onI [OF keeps_timers_modes [OF same_timersD(1) [OF st]]])
        have "xLastTime w' = xLastTime w"
          by (rule keeps_last [OF same_timersD(1) [OF st]])
        then show thesis
          by (rule_tac that [of 0])
            (use True last tail md same_tinv(1) [OF inv st] moved_same [OF inv st] in \<open>simp_all add: L'_def Commands Handling\<close>)
      next
        case False
        then have "process_command cb (message_id bs) (message_word 1 bs) (message_word 2 bs) w = Some w'"
          using r by (auto simp: Commands Handling split: Option.bind_splits)
        with False obtain m where "tinv {} w'" "xLastTime w' = n mod u32_bound" "m \<le> n"
          "\<forall>t \<in> R. moved R m (due_at (L div u32_bound) w) (due_at (n div u32_bound) w') w w' t" "modes_on R w w'"
          using handle_ok [OF law(1) s gm] by (metis linorder_not_less)
        then show thesis
          by (rule_tac that [of m]) (use False tail in \<open>simp_all add: L'_def Commands Handling\<close>)
      qed
    qed
  qed
qed

section \<open>Steps and runs\<close>

lemma sys_step_ok:
  assumes "callback_law R cb" "pended_law R pf" "sys_ok s" "timer_step R cb pf s s'"
  shows "sys_ok s'"
    "\<exists>m \<le> tm_sampled s'. \<forall>t \<in> R. moved R m (sys_due s) (sys_due s') (tm_world s) (tm_world s') t"
    "modes_on R (tm_world s) (tm_world s')" "tm_sampled s \<le> tm_sampled s'"
proof -
  have ok: "synced {} (tm_world s) (tm_now s) (tm_sampled s)" "pos_ok (tm_world s) (sys_due s) (tm_sampled s) (tm_pos s)"
    using assms(3) by (simp_all add: sys_ok_def)
  have inv: "tinv {} (tm_world s)"
    using ok(1) by (simp add: synced_iff)
  have "sys_ok s' \<and> (\<exists>m \<le> tm_sampled s'. \<forall>t \<in> R. moved R m (sys_due s) (sys_due s') (tm_world s) (tm_world s') t) \<and>
    modes_on R (tm_world s) (tm_world s') \<and> tm_sampled s \<le> tm_sampled s'"
    using assms(4)
  proof cases
    case (others w' n')
    have "tinv {} w'" "xLastTime w' = xLastTime (tm_world s)" "modes_on R (tm_world s) w'"
      using same_tinv(1) [OF inv others(2)] keeps_last modes_onI keeps_timers_modes same_timersD(1) [OF others(2)] by blast+
    then show ?thesis
      using ok others same_pos [OF inv others(2)] moved_same [OF inv others(2)]
      by (auto simp: sys_ok_def synced_iff sys_due_def)
  next
    case (task pc' w' L' n')
    obtain m where m: "tinv {} w'" "xLastTime w' = L' mod u32_bound" "pos_ok w' (due_at (L' div u32_bound) w') L' pc'" "m \<le> L'"
      "\<forall>t \<in> R. moved R m (due_at (tm_sampled s div u32_bound) (tm_world s)) (due_at (L' div u32_bound) w') (tm_world s) w' t"
      "modes_on R (tm_world s) w'"
      using task_ok [OF assms(1,2) ok(1) _ task(2,3)] ok(2) unfolding task(4) sys_due_def by blast
    have "tm_sampled s \<le> L'" "L' \<le> n'"
      using ok(1) task(4,5) by (simp_all add: synced_iff)
    with m task(1,6) show ?thesis
      by (auto simp: sys_ok_def synced_iff sys_due_def)
  qed
  then show "sys_ok s'"
    "\<exists>m \<le> tm_sampled s'. \<forall>t \<in> R. moved R m (sys_due s) (sys_due s') (tm_world s) (tm_world s') t"
    "modes_on R (tm_world s) (tm_world s')" "tm_sampled s \<le> tm_sampled s'"
    by blast+
qed

lemma sys_run_ok:
  assumes "callback_law R cb" "pended_law R pf" "sys_ok s" "(timer_step R cb pf)\<^sup>*\<^sup>* s s'"
  shows "sys_ok s'"
  using assms(4,3) by (induction rule: rtranclp_induct) (auto intro: sys_step_ok(1) [OF assms(1,2)])

text \<open>
  An auto-reload timer of period \<open>p\<close> started at \<open>a\<close>: after \<open>k\<close> callbacks it is due at \<open>a + (k + 1) p\<close>, and
  the last callback was not early.
\<close>

definition on_schedule :: "addr \<Rightarrow> nat \<Rightarrow> nat \<Rightarrow> nat \<Rightarrow> tsys \<Rightarrow> nat \<Rightarrow> bool" where
  "on_schedule t p a k0 s k \<longleftrightarrow>
     (\<exists>T. timers (tm_world s) t = Some T \<and> is_auto T \<and> xTimerPeriodInTicks T = p) \<and>
     sys_due s t = Some (a + Suc k * p) \<and> count_list (expired (tm_world s)) t = k0 + k \<and> (k = 0 \<or> a + k * p \<le> tm_sampled s)"

lemma step_on_schedule:
  assumes "callback_law R cb" "pended_law R pf" "sys_ok s" "timer_step R cb pf s s'" "t \<in> R" "on_schedule t p a k0 s k"
  shows "\<exists>k'. on_schedule t p a k0 s' k'"
proof -
  note S = sys_step_ok [OF assms(1-4)]
  obtain T where T: "timers (tm_world s) t = Some T" "is_auto T" "xTimerPeriodInTicks T = p"
    using assms(6) by (auto simp: on_schedule_def)
  obtain T' where T': "timers (tm_world s') t = Some T'" "is_auto T'" "xTimerPeriodInTicks T' = p"
    using S(3) assms(5) T unfolding modes_on_def by metis
  obtain m where m: "m \<le> tm_sampled s'" "moved R m (sys_due s) (sys_due s') (tm_world s) (tm_world s') t"
    using S(2) assms(5) by blast
  from m(2) consider "sys_due s' t = sys_due s t" "count_list (expired (tm_world s')) t = count_list (expired (tm_world s)) t"
    | U c where "xTimerPeriodInTicks U = p" "is_auto U" "sys_due s t = Some c" "c \<le> m" "sys_due s' t = next_due U c m"
      "count_list (expired (tm_world s')) t = count_list (expired (tm_world s)) t + calls U c m"
    using T assms(5) unfolding moved_def by auto
  then show ?thesis
  proof cases
    case 1
    then have "on_schedule t p a k0 s' k"
      using assms(6) T' S(4) by (auto simp: on_schedule_def)
    then show ?thesis ..
  next
    case 2
    have c: "c = a + Suc k * p"
      using 2(3) assms(6) by (simp add: on_schedule_def)
    let ?j = "(m - c) div p"
    have "?j * p \<le> m - c"
      by simp
    then have "c + ?j * p \<le> tm_sampled s'"
      using m(1) 2(4) by linarith
    then have "on_schedule t p a k0 s' (k + Suc ?j)"
      using T' 2 assms(6) by (simp add: on_schedule_def next_due_def calls_def c algebra_simps)
    then show ?thesis ..
  qed
qed

lemma run_on_schedule:
  assumes "callback_law R cb" "pended_law R pf" "sys_ok s" "(timer_step R cb pf)\<^sup>*\<^sup>* s s'" "t \<in> R" "on_schedule t p a k0 s k"
  shows "\<exists>k'. on_schedule t p a k0 s' k'"
  using assms(4)
proof (induction rule: rtranclp_induct)
  case base
  with assms(6) show ?case ..
next
  case (step s1 s2)
  obtain k1 where k1: "on_schedule t p a k0 s1 k1"
    using step.IH ..
  show ?case
    by (rule step_on_schedule [OF assms(1,2) sys_run_ok [OF assms(1-3) step.hyps(1)] step.hyps(2) assms(5) k1])
qed

section \<open>Messages\<close>

lemma bytes_length_append: "n < u32_bound \<Longrightarrow> bytes_length (length_bytes n @ bs) = n"
  using bytes_length_bytes [of n] by (simp add: bytes_length_def length_bytes_def)

lemma four_words:
  assumes "a < u32_bound" "b < u32_bound" "c < u32_bound" "d < u32_bound"
  defines "bs \<equiv> length_bytes a @ length_bytes b @ length_bytes c @ length_bytes d"
  shows "length bs = sizeof_DaemonTaskMessage_t" "message_word 0 bs = a" "message_word 1 bs = b" "message_word 2 bs = c" "message_word 3 bs = d"
  using assms(1-4) bytes_length_append [OF assms(4), of "[]"]
  by (simp_all add: bs_def message_word_def bytes_length_append sizeof_DaemonTaskMessage_t_def)

lemma message_id_word:
  assumes "message_word 0 bs = id_word i" "- (2 ^ 31) \<le> i" "i < 2 ^ 31"
  shows "message_id bs = i"
proof (cases "0 \<le> i")
  case True
  then have "i mod int u32_bound = i"
    using assms(3) by (simp add: u32_bound_def)
  then show ?thesis
    using True assms by (simp add: message_id_def id_word_def u32_bound_def Let_def)
next
  case False
  have "i mod int u32_bound = (i + int u32_bound) mod int u32_bound"
    by simp
  also have "\<dots> = i + int u32_bound"
    using False assms(2) by (intro mod_pos_pos_trivial) (simp_all add: u32_bound_def)
  finally have "i mod int u32_bound = i + int u32_bound" .
  then show ?thesis
    using False assms by (simp add: message_id_def id_word_def u32_bound_def Let_def)
qed

lemma id_word_bound: "id_word i < u32_bound"
  by (simp add: id_word_def u32_bound_def)

section \<open>The start of the timer task\<close>

text \<open>The lists as \<open>prvCheckForValidListAndQueue\<close> leaves them, over memory that holds no list.\<close>

definition timer_init :: "tsys \<Rightarrow> bool" where
  "timer_init s \<longleftrightarrow>
     (let w = tm_world s in
      tm_pos s = QueryTimers \<and> tm_sampled s = 0 \<and> xLastTime w = 0 \<and> xTaskGetTickCount (tkernel w) = tm_now s mod u32_bound \<and>
      pxCurrentTimerList w = xActiveTimerList1 \<and> pxOverflowTimerList w = xActiveTimerList2 \<and>
      (\<exists>s0. rep {} s0 (\<lambda>_. []) \<and> tstore w = vListInitialise xActiveTimerList2 (vListInitialise xActiveTimerList1 s0)) \<and>
      (\<forall>t T. timers w t = Some T \<longrightarrow> timer_ok t T \<and> \<not> is_active T))"

lemma init_ok:
  assumes "timer_init s"
  shows "sys_ok s"
proof -
  let ?w = "tm_world s"
  obtain s0 where s0: "rep {} s0 (\<lambda>_. [])" "tstore ?w = vListInitialise xActiveTimerList2 (vListInitialise xActiveTimerList1 s0)"
    using assms by (auto simp: timer_init_def Let_def)
  have l: "pxCurrentTimerList ?w = 1" "pxOverflowTimerList ?w = 2" "timer_lists ?w = {2, 1}"
    using assms by (auto simp: timer_init_def Let_def xActiveTimerList1_def xActiveTimerList2_def timer_lists_def)
  have "rep {1} (vListInitialise 1 s0) (\<lambda>_. [])"
    using vListInitialise_rep [OF s0(1), of 1] by (simp add: fun_upd_idem)
  from vListInitialise_rep [OF this, of 2] have r: "rep (timer_lists ?w) (tstore ?w) (\<lambda>_. [])"
    by (simp add: s0(2) l(3) fun_upd_idem xActiveTimerList1_def xActiveTimerList2_def)
  then have A: "lists_sorted ?w (\<lambda>_. [])"
    by (simp add: lists_sorted_def)
  have none: "in_list ?w t = None" for t
    using listed [OF A, of t] by (cases "in_list ?w t") auto
  then have "tinv {} ?w"
    using A l(1,2) assms by (auto simp: tinv_def timer_init_def Let_def)
  then show ?thesis
    using assms none by (auto simp: sys_ok_def synced_def timer_init_def Let_def pos_ok_def)
qed

section \<open>Driving the machine\<close>

text \<open>
  The timer task by itself, while the tick count stands still: an executable instance of the steps,
  for a message sent at this time.
\<close>

definition fresh_message :: "addr set \<Rightarrow> tworld \<Rightarrow> nat \<Rightarrow> tpc \<Rightarrow> bool" where
  "fresh_message R w n pc \<longleftrightarrow>
     (case pc of
        Commands (Handling bs) \<Rightarrow>
          message_id bs \<in> start_ids \<and> message_word 2 bs \<notin> R \<and> timers w (message_word 2 bs) \<noteq> None \<and> message_word 1 bs = n mod u32_bound
      | _ \<Rightarrow> True)"

fun drive :: "addr set \<Rightarrow> callback \<Rightarrow> pended \<Rightarrow> nat \<Rightarrow> tsys \<Rightarrow> tsys option" where
  "drive R cb pf 0 s = Some s"
| "drive R cb pf (Suc i) s =
     do { (pc, w) \<leftarrow> prvTimerTask cb pf (tm_pos s) (tm_world s);
          let L = (if samples (tm_pos s) then tm_now s else tm_sampled s);
          if fresh_message R (tm_world s) (tm_now s) (tm_pos s) \<and> xTaskGetTickCount (tkernel w) = tm_now s mod u32_bound \<and> tm_now s < L + u32_bound
          then drive R cb pf i \<lparr>tm_world = w, tm_now = tm_now s, tm_sampled = L, tm_pos = pc\<rparr> else None }"

lemma drive_runs: "drive R cb pf i s = Some s' \<Longrightarrow> (timer_step R cb pf)\<^sup>*\<^sup>* s s'"
proof (induction i arbitrary: s)
  case 0
  then show ?case by simp
next
  case (Suc i)
  define L where "L = (if samples (tm_pos s) then tm_now s else tm_sampled s)"
  obtain pc w where t: "prvTimerTask cb pf (tm_pos s) (tm_world s) = Some (pc, w)"
    "fresh_message R (tm_world s) (tm_now s) (tm_pos s)" "xTaskGetTickCount (tkernel w) = tm_now s mod u32_bound" "tm_now s < L + u32_bound"
    "drive R cb pf i \<lparr>tm_world = w, tm_now = tm_now s, tm_sampled = L, tm_pos = pc\<rparr> = Some s'"
    using Suc.prems by (auto simp: L_def Let_def split: Option.bind_splits if_split_asm)
  have start: "start_ids \<subseteq> command_ids"
    by (auto simp: start_ids_def command_ids_def timer_consts)
  have "timer_step R cb pf s \<lparr>tm_world = w, tm_now = tm_now s, tm_sampled = L, tm_pos = pc\<rparr>"
  proof (rule timer_step.task [OF t(1)])
    show "good_message R (tm_world s) (tm_now s) bs" if "tm_pos s = Commands (Handling bs)" for bs
    proof -
      have f: "message_id bs \<in> start_ids" "message_word 2 bs \<notin> R" "timers (tm_world s) (message_word 2 bs) \<noteq> None"
        "message_word 1 bs = tm_now s mod u32_bound"
        using t(2) that by (simp_all add: fresh_message_def)
      then have "message_word 1 bs < u32_bound" "message_word 1 bs = tm_now s mod u32_bound \<and> tm_now s \<le> tm_now s \<and> tm_now s < tm_now s + u32_bound"
        by simp_all
      with f start show ?thesis
        unfolding good_message_def by blast
    qed
  qed (use t(3,4) in \<open>simp_all add: L_def clocks_ok_def\<close>)
  then show ?case
    using Suc.IH [OF t(5)] by (rule converse_rtranclp_into_rtranclp)
qed

end
