(* ===== verification/TimerProps.thy ===== *)
theory TimerProps
  imports TimerSystem TaskProps
begin

text \<open>The properties of the software timers, each with a concrete instance.\<close>

section \<open>A concrete system\<close>

text \<open>
  An auto-reload timer of period 10 at address 64, dormant, and in the queue the command to start
  it, sent at the tick count 4294967290; its callback counts in the timer's identifier.
\<close>

definition demo_timer :: Timer where
  "demo_timer = \<lparr>pcTimerName = None, xTimerPeriodInTicks = 10, pvTimerID = 0, pxCallbackFunction = 1, uxTimerNumber = 0, ucStatus = 4\<rparr>"

definition timer_queue :: Queue where
  "timer_queue = \<lparr>pcHead = 1080, pcWriteTo = 1096, uFirst = 1240, uSecond = 1224, uxMessagesWaiting = 1, uxLength = 10,
     uxItemSize = 16, cRxLock = -1, cTxLock = -1, uxQueueNumber = 0, ucQueueType = 0,
     storage = timer_message tmrCOMMAND_START 4294967290 64 0 @ replicate 144 0\<rparr>"

definition zero_store :: store where
  "zero_store = \<lparr>node_at = (\<lambda>_. \<lparr>xItemValue = 0, pxNext = End 0, pxPrevious = End 0, pvOwner = 0, pxContainer = None\<rparr>),
     list_at = (\<lambda>_. \<lparr>uxNumberOfItems = 0, pxIndex = End 0\<rparr>)\<rparr>"

definition empty_heap :: heap where
  "empty_heap = \<lparr>mem = (\<lambda>_. \<lparr>pxNextFreeBlock = 0, xBlockSize = 0\<rparr>), ram = (\<lambda>_. 0), xStart = 0, pxEnd = 0, xFreeBytesRemaining = 0,
     xMinimumEverFreeBytesRemaining = 0, xNumberOfSuccessfulAllocations = 0, xNumberOfSuccessfulFrees = 0\<rparr>"

definition demo_timers :: tworld where
  "demo_timers = \<lparr>qstate = \<lparr>kern = demo_kernel, queues = (\<lambda>_. None)(1000 := Some timer_queue), xQueueRegistry = []\<rparr>,
     theap = empty_heap, tstore = vListInitialise xActiveTimerList2 (vListInitialise xActiveTimerList1 zero_store),
     timers = (\<lambda>_. None)(64 := Some demo_timer), pxCurrentTimerList = xActiveTimerList1, pxOverflowTimerList = xActiveTimerList2,
     xLastTime = 0, xTimerQueue = 1000, xTimerTaskHandle = 16, expired = []\<rparr>"

definition demo_sys :: tsys where
  "demo_sys = \<lparr>tm_world = demo_timers, tm_now = 4294967290, tm_sampled = 0, tm_pos = QueryTimers\<rparr>"

definition count_calls :: callback where
  "count_calls f t w = do { n \<leftarrow> pvTimerGetTimerID t w; vTimerSetTimerID t (Suc n) w }"

definition nothing_pended :: pended where
  "nothing_pended f a b w = Some w"

text \<open>The worlds the example passes through.\<close>

definition timer_world :: "kernel \<Rightarrow> Queue \<Rightarrow> store \<Rightarrow> Timer \<Rightarrow> nat \<Rightarrow> nat \<Rightarrow> addr list \<Rightarrow> tworld" where
  "timer_world k Q s T c x es = demo_timers\<lparr>qstate := \<lparr>kern = k, queues = (\<lambda>_. None)(1000 := Some Q), xQueueRegistry = []\<rparr>,
     tstore := s, timers := (\<lambda>_. None)(64 := Some T), pxCurrentTimerList := c, pxOverflowTimerList := 3 - c, xLastTime := x, expired := es\<rparr>"

definition ticked :: "nat \<Rightarrow> kernel" where
  "ticked n = demo_kernel\<lparr>xTickCount := n\<rparr>"

lemma ticked_parts:
  "xTickCount (ticked n) = n" "xTaskGetSchedulerState (ticked n) = taskSCHEDULER_RUNNING"
  "xTaskResumeAll (vTaskSuspendAll (ticked n)) = Some (False, ticked n)" "xTickCount (vTaskSuspendAll (ticked n)) = n"
  "uxSchedulerSuspended (ticked n) = 0" "pendsv (ticked n) = False" "items (klists (ticked n)) (EventList l) = []"
  "items (klists (vTaskSuspendAll (ticked n))) (EventList l) = []"
proof -
  let ?k = "ticked n\<lparr>uxSchedulerSuspended := 0\<rparr>"
  have f: "items (klists (ticked n)) PendingReady = []" "xPendedTicks (ticked n) = 0" "?k = ticked n" "uxSchedulerSuspended (ticked n) = 0"
    "uxCurrentNumberOfTasks (ticked n) = 3" "xYieldPending (ticked n) = False"
    by (simp_all add: ticked_def demo_kernel_def demo_lists_def)
  have "resume_pending False ?k = Some (False, ?k)"
    by (subst resume_pending.simps) (simp add: f(1))
  then show "xTaskResumeAll (vTaskSuspendAll (ticked n)) = Some (False, ticked n)"
    by (simp only: xTaskResumeAll_def vTaskSuspendAll_def) (simp add: add32_exact u32_bound_def f)
qed (simp_all add: ticked_def demo_kernel_def demo_lists_def xTaskGetSchedulerState_def vTaskSuspendAll_def)

lemma timer_world_parts:
  "qstate (timer_world k Q s T c x es) = \<lparr>kern = k, queues = (\<lambda>_. None)(1000 := Some Q), xQueueRegistry = []\<rparr>"
  "tstore (timer_world k Q s T c x es) = s" "timers (timer_world k Q s T c x es) = (\<lambda>_. None)(64 := Some T)"
  "pxCurrentTimerList (timer_world k Q s T c x es) = c" "pxOverflowTimerList (timer_world k Q s T c x es) = 3 - c"
  "xLastTime (timer_world k Q s T c x es) = x" "expired (timer_world k Q s T c x es) = es" "xTimerQueue (timer_world k Q s T c x es) = 1000"
  by (simp_all add: timer_world_def demo_timers_def)

lemma timer_world_sets:
  "set_tkernel k' (timer_world k Q s T c x es) = timer_world k' Q s T c x es"
  "timer_world k Q s T c x es\<lparr>qstate := \<lparr>kern = k', queues = (\<lambda>_. None)(1000 := Some Q'), xQueueRegistry = []\<rparr>\<rparr> = timer_world k' Q' s T c x es"
  "timer_world k Q s T c x es\<lparr>tstore := s'\<rparr> = timer_world k Q s' T c x es"
  "timer_world k Q s T c x es\<lparr>timers := (\<lambda>_. None)(64 := Some T')\<rparr> = timer_world k Q s T' c x es"
  "timer_world k Q s T c x es\<lparr>xLastTime := x'\<rparr> = timer_world k Q s T c x' es"
  "timer_world k Q s T c x es\<lparr>expired := es'\<rparr> = timer_world k Q s T c x es'"
  by (simp_all add: timer_world_def set_tkernel_def)

lemma timer_world_swap:
  "timer_world k Q s T 1 x es\<lparr>pxCurrentTimerList := 2, pxOverflowTimerList := Suc 0\<rparr> = timer_world k Q s T 2 x es"
  by (simp add: timer_world_def)

definition idle_lists :: store where
  "idle_lists = vListInitialise xActiveTimerList2 (vListInitialise xActiveTimerList1 zero_store)"

lemma demo_timers_world: "demo_timers = timer_world (ticked 4294967290) timer_queue idle_lists demo_timer 1 0 []"
  by (simp add: timer_world_def demo_timers_def ticked_def demo_kernel_def idle_lists_def xActiveTimerList1_def xActiveTimerList2_def)

text \<open>The queue before and after the message is received.\<close>

definition taken_queue :: Queue where
  "taken_queue = timer_queue\<lparr>uxMessagesWaiting := 0, uSecond := 1080\<rparr>"

abbreviation locked :: "Queue \<Rightarrow> Queue" where
  "locked Q \<equiv> Q\<lparr>cRxLock := 0, cTxLock := 0\<rparr>"

lemma demo_message:
  "message_id (timer_message tmrCOMMAND_START 4294967290 64 0) = tmrCOMMAND_START"
  "message_word 1 (timer_message tmrCOMMAND_START 4294967290 64 0) = 4294967290"
  "message_word 2 (timer_message tmrCOMMAND_START 4294967290 64 0) = 64"
proof -
  have b: "id_word tmrCOMMAND_START < u32_bound" "(4294967290 :: nat) < u32_bound" "(64 :: nat) < u32_bound" "(0 :: nat) < u32_bound"
    by (simp_all add: id_word_bound) (simp_all add: u32_bound_def)
  note four_words [OF b, folded timer_message_def]
  then show "message_word 1 (timer_message tmrCOMMAND_START 4294967290 64 0) = 4294967290"
    "message_word 2 (timer_message tmrCOMMAND_START 4294967290 64 0) = 64"
    "message_id (timer_message tmrCOMMAND_START 4294967290 64 0) = tmrCOMMAND_START"
    by (simp_all add: message_id_word timer_consts)
qed

lemma demo_wait:
  "vQueueWaitForMessageRestricted 1000 n b LockQueue \<lparr>kern = k, queues = (\<lambda>_. None)(1000 := Some timer_queue), xQueueRegistry = []\<rparr> =
     Some (Inl CheckState, \<lparr>kern = k, queues = (\<lambda>_. None)(1000 := Some (locked timer_queue)), xQueueRegistry = []\<rparr>)"
  "vQueueWaitForMessageRestricted 1000 n b CheckState \<lparr>kern = k, queues = (\<lambda>_. None)(1000 := Some (locked timer_queue)), xQueueRegistry = []\<rparr> =
     Some (Inl (UnlockTx Again), \<lparr>kern = k, queues = (\<lambda>_. None)(1000 := Some (locked timer_queue)), xQueueRegistry = []\<rparr>)"
  "vQueueWaitForMessageRestricted 1000 n b (UnlockTx Again) \<lparr>kern = k, queues = (\<lambda>_. None)(1000 := Some (locked timer_queue)), xQueueRegistry = []\<rparr> =
     Some (Inl (UnlockRx Again), \<lparr>kern = k, queues = (\<lambda>_. None)(1000 := Some (timer_queue\<lparr>cRxLock := 0\<rparr>)), xQueueRegistry = []\<rparr>)"
  "vQueueWaitForMessageRestricted 1000 n b (UnlockRx Again) \<lparr>kern = k, queues = (\<lambda>_. None)(1000 := Some (timer_queue\<lparr>cRxLock := 0\<rparr>)), xQueueRegistry = []\<rparr> =
     Some (Inr (), \<lparr>kern = k, queues = (\<lambda>_. None)(1000 := Some timer_queue), xQueueRegistry = []\<rparr>)"
  by (simp_all add: prvLockQueue_def set_queue_def unlock_tx_def unlock_rx_def timer_queue_def queueUNLOCKED_def queueLOCKED_UNMODIFIED_def Let_def)

lemma demo_receive:
  "xQueueReceive 1000 True Enter no_wait \<lparr>kern = ticked n, queues = (\<lambda>_. None)(1000 := Some Q), xQueueRegistry = []\<rparr> =
     Some (Inl (Attempt, no_wait), \<lparr>kern = ticked n, queues = (\<lambda>_. None)(1000 := Some Q), xQueueRegistry = []\<rparr>)"
  "xQueueReceive 1000 True Attempt no_wait \<lparr>kern = ticked n, queues = (\<lambda>_. None)(1000 := Some timer_queue), xQueueRegistry = []\<rparr> =
     Some (Inr (pdPASS (timer_message tmrCOMMAND_START 4294967290 64 0)),
       \<lparr>kern = ticked n, queues = (\<lambda>_. None)(1000 := Some taken_queue), xQueueRegistry = []\<rparr>)"
  "xQueueReceive 1000 True Attempt no_wait \<lparr>kern = ticked n, queues = (\<lambda>_. None)(1000 := Some taken_queue), xQueueRegistry = []\<rparr> =
     Some (Inr errQUEUE_EMPTY, \<lparr>kern = ticked n, queues = (\<lambda>_. None)(1000 := Some taken_queue), xQueueRegistry = []\<rparr>)"
proof -
  have m: "mem_read (storage timer_queue) 0 16 = Some (timer_message tmrCOMMAND_START 4294967290 64 0)"
    by (simp add: mem_read_def timer_queue_def timer_message_def length_bytes_def)
  show "xQueueReceive 1000 True Attempt no_wait \<lparr>kern = ticked n, queues = (\<lambda>_. None)(1000 := Some timer_queue), xQueueRegistry = []\<rparr> =
     Some (Inr (pdPASS (timer_message tmrCOMMAND_START 4294967290 64 0)),
       \<lparr>kern = ticked n, queues = (\<lambda>_. None)(1000 := Some taken_queue), xQueueRegistry = []\<rparr>)"
    using m by (simp add: receive_attempt_def prvCopyDataFromQueue_def copy_out_def set_queue_def wake_and_yield_def wake_waiter_def
        ticked_parts xTasksWaitingToSend_def timer_queue_def taken_queue_def sizeof_Queue_t_def Let_def add32_exact sub32_exact u32_bound_def yield_if_def)
qed (simp_all add: receive_asserts_def may_wait_def no_wait_def timer_consts receive_attempt_def taken_queue_def no_luck_def)

text \<open>The lists with the timer in the second one, due at the tick count \<open>v\<close>, and taken out of it.\<close>

definition one_timer :: "nat \<Rightarrow> store" where
  "one_timer v = idle_lists\<lparr>node_at := (node_at idle_lists)
       (Item 64 := \<lparr>xItemValue = v, pxNext = End 2, pxPrevious = End 2, pvOwner = 64, pxContainer = Some 2\<rparr>,
        End 2 := \<lparr>xItemValue = portMAX_DELAY, pxNext = Item 64, pxPrevious = Item 64, pvOwner = 0, pxContainer = None\<rparr>),
     list_at := (list_at idle_lists)(2 := \<lparr>uxNumberOfItems = 1, pxIndex = End 2\<rparr>)\<rparr>"

definition free_timer :: "nat \<Rightarrow> store" where
  "free_timer v = idle_lists\<lparr>node_at := (node_at idle_lists)
       (Item 64 := \<lparr>xItemValue = v, pxNext = End 2, pxPrevious = End 2, pvOwner = 64, pxContainer = None\<rparr>)\<rparr>"

lemma idle_lists_parts:
  "node_at idle_lists (Item i) = \<lparr>xItemValue = 0, pxNext = End 0, pxPrevious = End 0, pvOwner = 0, pxContainer = None\<rparr>"
  "node_at idle_lists (End 1) = \<lparr>xItemValue = portMAX_DELAY, pxNext = End 1, pxPrevious = End 1, pvOwner = 0, pxContainer = None\<rparr>"
  "node_at idle_lists (End 2) = \<lparr>xItemValue = portMAX_DELAY, pxNext = End 2, pxPrevious = End 2, pvOwner = 0, pxContainer = None\<rparr>"
  "list_at idle_lists 1 = \<lparr>uxNumberOfItems = 0, pxIndex = End 1\<rparr>" "list_at idle_lists 2 = \<lparr>uxNumberOfItems = 0, pxIndex = End 2\<rparr>"
  by (simp_all add: idle_lists_def vListInitialise_def list_op_defs zero_store_def xActiveTimerList1_def xActiveTimerList2_def)

lemmas idle_lists_parts' [simp] = idle_lists_parts idle_lists_parts [unfolded One_nat_def]

lemma set_value_owner:
  "listSET_LIST_ITEM_OWNER 64 64 (listSET_LIST_ITEM_VALUE 64 v (free_timer u)) = free_timer v"
  by (simp add: listSET_LIST_ITEM_OWNER_def listSET_LIST_ITEM_VALUE_def free_timer_def upd_node_def)

lemma insert_one:
  assumes "v < portMAX_DELAY" "s = free_timer u \<or> s = idle_lists"
  shows "vListInsert 2 64 (listSET_LIST_ITEM_OWNER 64 64 (listSET_LIST_ITEM_VALUE 64 v s)) = Some (one_timer v)"
proof -
  let ?s = "listSET_LIST_ITEM_OWNER 64 64 (listSET_LIST_ITEM_VALUE 64 v s)"
  have "find_insert ?s v (End 2) = Some (End 2)"
    using assms by (subst find_insert.simps)
      (auto simp: listSET_LIST_ITEM_OWNER_def listSET_LIST_ITEM_VALUE_def free_timer_def upd_node_def)
  with assms show ?thesis
    by (auto simp: vListInsert_def listSET_LIST_ITEM_OWNER_def listSET_LIST_ITEM_VALUE_def list_op_defs free_timer_def one_timer_def
        add32_exact u32_bound_def fun_upd_twist)
qed

lemmas insert_one' = insert_one [OF _ disjI1 [OF refl]] insert_one [OF _ disjI2 [OF refl]]

lemma idle_lists_idem:
  "(node_at idle_lists)(End 2 := \<lparr>xItemValue = portMAX_DELAY, pxNext = End 2, pxPrevious = End 2, pvOwner = 0, pxContainer = None\<rparr>) =
     node_at idle_lists"
  "idle_lists\<lparr>node_at := f, list_at := (list_at idle_lists)(2 := \<lparr>uxNumberOfItems = 0, pxIndex = End 2\<rparr>)\<rparr> = idle_lists\<lparr>node_at := f\<rparr>"
  by (simp_all add: fun_upd_idem)

lemma remove_one: "listREMOVE_ITEM 64 (one_timer v) = Some (free_timer v)"
  by (simp add: listREMOVE_ITEM_def uxListRemove_def list_op_defs one_timer_def free_timer_def sub32_exact u32_bound_def
      idle_lists_idem)

lemma one_timer_parts:
  "listLIST_IS_EMPTY 1 (one_timer v) = True" "listLIST_IS_EMPTY 2 (one_timer v) = False"
  "listLIST_IS_EMPTY 1 idle_lists" "listLIST_IS_EMPTY 2 idle_lists" "listLIST_IS_EMPTY 1 (free_timer v)"
  "listGET_OWNER_OF_HEAD_ENTRY 2 (one_timer v) = 64" "listGET_ITEM_VALUE_OF_HEAD_ENTRY 2 (one_timer v) = v"
  by (simp_all add: listLIST_IS_EMPTY_def one_timer_def free_timer_def listGET_OWNER_OF_HEAD_ENTRY_def listGET_ITEM_VALUE_OF_HEAD_ENTRY_def)

text \<open>The parts of the timer task that the example runs through.\<close>

abbreviation demo_task :: "tpc \<Rightarrow> tworld \<Rightarrow> (tpc \<times> tworld) option" where
  "demo_task \<equiv> prvTimerTask count_calls nothing_pended"

lemmas task_eval = timer_world_parts timer_world_sets ticked_parts one_timer_parts Let_def in_store_def run_callback_def upd_timer_def

lemma part_query:
  "listLIST_IS_EMPTY c s \<Longrightarrow> demo_task QueryTimers (timer_world k Q s T c x es) = Some (Blocking (Decide 0 True), timer_world k Q s T c x es)"
  "demo_task QueryTimers (timer_world k Q (one_timer v) T 2 x es) = Some (Blocking (Decide v False), timer_world k Q (one_timer v) T 2 x es)"
  by (simp_all add: prvGetNextExpireTime_def task_eval)

lemma part_sample:
  "\<not> n < x \<Longrightarrow> prvSampleTimeNow cb (timer_world (ticked n) Q s T c x es) = Some (n, False, timer_world (ticked n) Q s T c n es)"
  "\<not> n < x \<Longrightarrow> prvSampleTimeNow cb (timer_world (vTaskSuspendAll (ticked n)) Q s T c x es) =
     Some (n, False, timer_world (vTaskSuspendAll (ticked n)) Q s T c n es)"
  by (simp_all add: prvSampleTimeNow_def xTaskGetTickCount_def task_eval)

lemma part_switch:
  "n < x \<Longrightarrow> prvSampleTimeNow cb (timer_world (vTaskSuspendAll (ticked n)) Q (one_timer v) T 1 x es) =
     Some (n, True, timer_world (vTaskSuspendAll (ticked n)) Q (one_timer v) T 2 n es)"
proof -
  have "empty_current_list cb (timer_world k Q (one_timer v) T 1 x es) = Some (timer_world k Q (one_timer v) T 1 x es)" for k
    by (subst empty_current_list.simps) (simp add: task_eval one_timer_parts [unfolded One_nat_def])
  moreover assume "n < x"
  ultimately show ?thesis
    by (simp add: prvSampleTimeNow_def xTaskGetTickCount_def prvSwitchTimerLists_def task_eval timer_world_swap [unfolded One_nat_def]
        timer_world_swap)
qed

lemma part_wait:
  "demo_task (Blocking (Waiting LockQueue n b)) (timer_world k timer_queue s T c x es) =
     Some (Blocking (Waiting CheckState n b), timer_world k (locked timer_queue) s T c x es)"
  "demo_task (Blocking (Waiting CheckState n b)) (timer_world k (locked timer_queue) s T c x es) =
     Some (Blocking (Waiting (UnlockTx Again) n b), timer_world k (locked timer_queue) s T c x es)"
  "demo_task (Blocking (Waiting (UnlockTx Again) n b)) (timer_world k (locked timer_queue) s T c x es) =
     Some (Blocking (Waiting (UnlockRx Again) n b), timer_world k (timer_queue\<lparr>cRxLock := 0\<rparr>) s T c x es)"
  "demo_task (Blocking (Waiting (UnlockRx Again) n b)) (timer_world k (timer_queue\<lparr>cRxLock := 0\<rparr>) s T c x es) =
     Some (Blocking EndWait, timer_world k timer_queue s T c x es)"
  by (simp_all add: task_eval demo_wait del: vQueueWaitForMessageRestricted.simps)

lemma part_end:
  "demo_task (Blocking EndWait) (timer_world (vTaskSuspendAll (ticked n)) Q s T c x es) =
     Some (Commands (Receiving Enter no_wait), timer_world (portYIELD_WITHIN_API (ticked n)) Q s T c x es)"
  by (simp add: task_eval)

lemma part_receive:
  "demo_task (Commands (Receiving Enter no_wait)) (timer_world (ticked n) Q s T c x es) =
     Some (Commands (Receiving Attempt no_wait), timer_world (ticked n) Q s T c x es)"
  "demo_task (Commands (Receiving Attempt no_wait)) (timer_world (ticked n) timer_queue s T c x es) =
     Some (Commands (Handling (timer_message tmrCOMMAND_START 4294967290 64 0)), timer_world (ticked n) taken_queue s T c x es)"
  "demo_task (Commands (Receiving Attempt no_wait)) (timer_world (ticked n) taken_queue s T c x es) =
     Some (QueryTimers, timer_world (ticked n) taken_queue s T c x es)"
  by (simp_all add: task_eval demo_receive del: xQueueReceive.simps)

text \<open>The timer with \<open>i\<close> calls counted, before and after it is started.\<close>

abbreviation started :: "nat \<Rightarrow> Timer" where
  "started i \<equiv> demo_timer\<lparr>pvTimerID := i, ucStatus := 5\<rparr>"

lemma demo_flags:
  "set_status tmrSTATUS_IS_ACTIVE demo_timer = started 0" "is_auto (started i)" "is_auto demo_timer"
  by (simp_all add: set_status_def has_status_def demo_timer_def timer_consts)

lemma part_start:
  assumes "x \<le> 4294967290"
  shows "demo_task (Commands (Handling (timer_message tmrCOMMAND_START 4294967290 64 0))) (timer_world (ticked 4294967290) Q idle_lists demo_timer 1 x es) =
     Some (Commands (Receiving Enter no_wait), timer_world (ticked 4294967290) Q (one_timer 4) (started 0) 1 4294967290 es)"
proof -
  have i: "prvInsertTimerInActiveList 64 4 4294967290 4294967290 (timer_world k Q idle_lists (started 0) 1 y es) =
    Some (False, timer_world k Q (one_timer 4) (started 0) 1 y es)" for k y
    by (simp add: prvInsertTimerInActiveList_def task_eval insert_one' portMAX_DELAY_def demo_timer_def sub32_exact u32_bound_def)
  have a: "add32 4294967290 10 = 4"
    by (simp add: add32_def u32_bound_def)
  have p: "xTimerPeriodInTicks demo_timer = 10"
    by (simp add: demo_timer_def)
  have "process_command count_calls tmrCOMMAND_START 4294967290 64 (timer_world (ticked 4294967290) Q idle_lists demo_timer 1 x es) =
    Some (timer_world (ticked 4294967290) Q (one_timer 4) (started 0) 1 4294967290 es)"
    using assms i by (simp add: process_command_def task_eval part_sample command_case_def demo_flags a p)
  then show ?thesis
    by (simp add: demo_message demo_message [unfolded One_nat_def]) (simp add: timer_consts)
qed

lemma part_decide_wait:
  "demo_task (Blocking (Decide 0 True)) (timer_world (ticked 4294967290) Q idle_lists T 1 0 es) =
     Some (Blocking (Waiting LockQueue 6 True), timer_world (vTaskSuspendAll (ticked 4294967290)) Q idle_lists T 1 4294967290 es)"
  "demo_task (Blocking (Decide 34 False)) (timer_world (ticked 29) Q (one_timer 34) T 2 29 es) =
     Some (Blocking (Waiting LockQueue 5 False), timer_world (vTaskSuspendAll (ticked 29)) Q (one_timer 34) T 2 29 es)"
  by (simp_all add: task_eval part_sample sub32_def u32_bound_def)

lemma part_decide_switch:
  "demo_task (Blocking (Decide 0 True)) (timer_world (ticked 29) Q (one_timer 4) T 1 4294967290 es) =
     Some (Commands (Receiving Enter no_wait), timer_world (ticked 29) Q (one_timer 4) T 2 29 es)"
  by (simp add: task_eval part_switch [unfolded One_nat_def])

lemma demo_callback:
  "count_calls f 64 (timer_world k Q s (started i) c x es) = Some (timer_world k Q s (started (Suc i)) c x es)"
  by (simp add: count_calls_def pvTimerGetTimerID_def timer_field_def vTimerSetTimerID_def set_field_def task_eval)
    (simp add: demo_timer_def)

lemma part_decide_process:
  "demo_task (Blocking (Decide 4 False)) (timer_world (ticked 29) Q (one_timer 4) (started 0) 2 29 es) =
     Some (Commands (Receiving Enter no_wait), timer_world (ticked 29) Q (one_timer 34) (started 3) 2 29 (es @ [64, 64, 64]))"
proof -
  note R = prvReloadTimer.simps [of count_calls 64 _ 29]
  have p: "xTimerPeriodInTicks (started i) = 10" for i
    by (simp add: demo_timer_def)
  have late: "prvReloadTimer count_calls 64 v 29 (timer_world k Q (free_timer y) (started i) 2 x es) =
    prvReloadTimer count_calls 64 (v + 10) 29 (timer_world k Q (free_timer (v + 10)) (started (Suc i)) 2 x (es @ [64]))"
    if "v = 4 \<or> v = 14" for k v y i x es
    using that by (subst R) (auto simp: prvInsertTimerInActiveList_def task_eval p set_value_owner demo_callback add32_exact u32_bound_def sub32_exact)
  have last: "prvReloadTimer count_calls 64 24 29 (timer_world k Q (free_timer y) (started i) 2 x es) =
    Some (timer_world k Q (one_timer 34) (started i) 2 x es)" for k y i x es
    by (subst R) (simp add: prvInsertTimerInActiveList_def task_eval p insert_one' portMAX_DELAY_def add32_exact u32_bound_def)
  have "prvProcessExpiredTimer count_calls 4 29 (timer_world (ticked 29) Q (one_timer 4) (started 0) 2 29 es) =
    Some (timer_world (ticked 29) Q (one_timer 34) (started 3) 2 29 (es @ [64, 64, 64]))"
    by (simp add: prvProcessExpiredTimer_def expire_def task_eval remove_one demo_flags late last demo_callback numeral_3_eq_3)
  then show ?thesis
    by (simp add: task_eval part_sample)
qed

text \<open>
  The first run: the command is received at 4294967290, when the timer task has looked for timers
  once; a context switch passes, and the timer is started. The second run begins 35 ticks later,
  past the wrap, and ends when the timer task waits.
\<close>

definition timer_sys :: "nat \<Rightarrow> kernel \<Rightarrow> Queue \<Rightarrow> store \<Rightarrow> Timer \<Rightarrow> nat \<Rightarrow> nat \<Rightarrow> addr list \<Rightarrow> nat \<Rightarrow> tpc \<Rightarrow> tsys" where
  "timer_sys n k Q s T c x es L pc = \<lparr>tm_world = timer_world k Q s T c x es, tm_now = n, tm_sampled = L, tm_pos = pc\<rparr>"

lemma timer_sys_parts:
  "tm_world (timer_sys n k Q s T c x es L pc) = timer_world k Q s T c x es" "tm_now (timer_sys n k Q s T c x es L pc) = n"
  "tm_sampled (timer_sys n k Q s T c x es L pc) = L" "tm_pos (timer_sys n k Q s T c x es L pc) = pc"
  by (simp_all add: timer_sys_def)

lemma demo_sys_init: "timer_init demo_sys"
proof -
  have "rep {} zero_store (\<lambda>_. [])"
    by (simp add: rep_def zero_store_def)
  then show ?thesis
    by (auto simp: timer_init_def demo_sys_def demo_timers_def xTaskGetTickCount_def timer_ok_def demo_timer_def has_status_def timer_consts
        u32_bound_def split: if_splits)
qed

lemma demo_sys_eq: "demo_sys = timer_sys 4294967290 (ticked 4294967290) timer_queue idle_lists demo_timer 1 0 [] 0 QueryTimers"
  by (simp add: demo_sys_def timer_sys_def demo_timers_world)

lemma drive_step:
  assumes "demo_task pc (timer_world k Q s T c x es) = Some (pc', timer_world k' Q' s' T' c' x' es')"
    "xTickCount k' = n mod u32_bound" "L' = (if samples pc then n else L)" "n < L' + u32_bound" "fresh_message R (timer_world k Q s T c x es) n pc"
    "0 < i"
  shows "drive R count_calls nothing_pended i (timer_sys n k Q s T c x es L pc) =
    drive R count_calls nothing_pended (i - 1) (timer_sys n k' Q' s' T' c' x' es' L' pc')"
  using assms by (cases i; cases "samples pc") (simp_all add: timer_sys_parts task_eval xTaskGetTickCount_def Let_def timer_sys_def)

lemmas drive_parts = drive_step [OF part_query(1) _ refl] drive_step [OF part_query(2) _ refl] drive_step [OF part_decide_wait(1) _ refl]
  drive_step [OF part_decide_wait(2) _ refl] drive_step [OF part_decide_switch _ refl] drive_step [OF part_decide_process _ refl]
  drive_step [OF part_wait(1) _ refl] drive_step [OF part_wait(2) _ refl] drive_step [OF part_wait(3) _ refl]
  drive_step [OF part_wait(4) _ refl] drive_step [OF part_end _ refl] drive_step [OF part_receive(1) _ refl]
  drive_step [OF part_receive(2) _ refl] drive_step [OF part_receive(3) _ refl] drive_step [OF part_start _ refl]

abbreviation sys_started :: tsys where
  "sys_started \<equiv> timer_sys 4294967290 (ticked 4294967290) taken_queue (one_timer 4) (started 0) 1 4294967290 [] 4294967290
     (Commands (Receiving Enter no_wait))"

abbreviation sys_waiting :: tsys where
  "sys_waiting \<equiv> timer_sys 4294967325 (vTaskSuspendAll (ticked 29)) taken_queue (one_timer 34) (started 3) 2 29 [64, 64, 64] 4294967325
     (Blocking (Waiting LockQueue 5 False))"

lemma time_passes:
  assumes "n \<le> n'" "n' < L + u32_bound" "v = n' mod u32_bound"
  shows "timer_step R cb pf (timer_sys n k Q s T c x es L pc) (timer_sys n' (ticked v) Q s T c x es L pc)"
proof -
  let ?s = "timer_sys n k Q s T c x es L pc" and ?w = "timer_world (ticked v) Q s T c x es"
  have "same_timers R (timer_world k Q s T c x es) ?w"
    by (simp add: same_timers_def keeps_timers_def task_eval timer_lists_def)
  then have "timer_step R cb pf ?s (?s\<lparr>tm_world := ?w, tm_now := n'\<rparr>)"
    using assms by (intro timer_step.others) (simp_all add: timer_sys_parts clocks_ok_def task_eval xTaskGetTickCount_def)
  then show ?thesis
    by (simp add: timer_sys_def)
qed

lemma demo_runs:
  "(timer_step {} count_calls nothing_pended)\<^sup>*\<^sup>* demo_sys sys_started"
  "(timer_step R count_calls nothing_pended)\<^sup>*\<^sup>* sys_started sys_waiting"
proof -
  let ?a = "\<lambda>k. timer_sys 4294967290 k timer_queue idle_lists demo_timer 1 4294967290 [] 4294967290 (Commands (Receiving Enter no_wait))"
    and ?b = "timer_sys 4294967325 (ticked 29) taken_queue (one_timer 4) (started 0) 1 4294967290 [] 4294967290
     (Commands (Receiving Enter no_wait))"
  have "drive {} count_calls nothing_pended 7 demo_sys = Some (?a (portYIELD_WITHIN_API (ticked 4294967290)))"
    by (simp add: demo_sys_eq drive_parts fresh_message_def task_eval u32_bound_def portYIELD_WITHIN_API_def del: drive.simps(2) One_nat_def)
  note a = drive_runs [OF this]
  have "drive {} count_calls nothing_pended 3 (?a (ticked 4294967290)) = Some sys_started"
    by (simp add: drive_parts fresh_message_def task_eval u32_bound_def demo_message demo_message [unfolded One_nat_def]
        start_ids_def del: drive.simps(2) One_nat_def)
  note b = drive_runs [OF this]
  have "timer_step {} count_calls nothing_pended (?a (portYIELD_WITHIN_API (ticked 4294967290))) (?a (ticked 4294967290))"
    by (rule time_passes) (simp_all add: u32_bound_def)
  with a b show "(timer_step {} count_calls nothing_pended)\<^sup>*\<^sup>* demo_sys sys_started"
    by (meson rtranclp.rtrancl_into_rtrancl rtranclp_trans)
  have "drive R count_calls nothing_pended 12 ?b = Some sys_waiting"
    by (simp add: drive_parts fresh_message_def task_eval u32_bound_def del: drive.simps(2) One_nat_def)
  note c = drive_runs [OF this]
  have "timer_step R count_calls nothing_pended sys_started ?b"
    by (rule time_passes) (simp_all add: u32_bound_def)
  with c show "(timer_step R count_calls nothing_pended)\<^sup>*\<^sup>* sys_started sys_waiting"
    by (meson converse_rtranclp_into_rtranclp)
qed

lemma count_calls_law: "callback_law R count_calls"
  unfolding callback_law_def
proof (intro allI impI)
  fix f t and w :: tworld
  assume t: "0 < t" "timers w t \<noteq> None"
  then obtain T where T: "timers w t = Some T"
    by blast
  let ?w = "w\<lparr>timers := (timers w)(t \<mapsto> T\<lparr>pvTimerID := Suc (pvTimerID T)\<rparr>)\<rparr>"
  have "count_calls f t w = Some ?w"
    using t(1) T by (simp add: count_calls_def pvTimerGetTimerID_def timer_field_def vTimerSetTimerID_def set_field_def upd_timer_def)
  moreover have "same_timers R w ?w"
    using T by (auto simp: same_timers_def keeps_timers_def timer_lists_def has_status_def)
  ultimately show "\<exists>w'. count_calls f t w = Some w' \<and> same_timers R w w'"
    by blast
qed

lemma same_timers_refl: "same_timers R w w"
  by (auto simp: same_timers_def)

lemma nothing_pended_law: "pended_law R nothing_pended"
  using same_timers_refl by (auto simp: pended_law_def nothing_pended_def)

lemma same_timers_weaken: "same_timers R w w' \<Longrightarrow> same_timers {} w w'"
  by (simp add: same_timers_def keeps_timers_def) blast

lemma laws_weaken: "callback_law R cb \<Longrightarrow> callback_law {} cb" "pended_law R pf \<Longrightarrow> pended_law {} pf"
  unfolding callback_law_def pended_law_def by (meson same_timers_weaken)+

text \<open>Sending commands and setting a timer's identifier are things other tasks do between the parts.\<close>

lemma api_same_timers:
  "xTimerGenericCommandFromTask t i v r pc L w = Some (x, w') \<Longrightarrow> same_timers R w w'"
  "xTimerGenericCommandFromISR t i v r w = Some (ok, woken, w') \<Longrightarrow> same_timers R w w'"
  "vTimerSetTimerID t d w = Some w' \<Longrightarrow> same_timers R w w'"
proof -
  have q: "same_timers R w (w\<lparr>qstate := q\<rparr>)" for q
    by (auto simp: same_timers_def keeps_timers_def timer_lists_def)
  show "xTimerGenericCommandFromTask t i v r pc L w = Some (x, w') \<Longrightarrow> same_timers R w w'"
    using q same_timers_refl by (auto simp: xTimerGenericCommandFromTask_def Let_def split: if_splits)
  show "xTimerGenericCommandFromISR t i v r w = Some (ok, woken, w') \<Longrightarrow> same_timers R w w'"
    using q same_timers_refl by (auto simp: xTimerGenericCommandFromISR_def send_message_from_isr_def split: if_splits)
  show "vTimerSetTimerID t d w = Some w' \<Longrightarrow> same_timers R w w'"
    by (auto simp: vTimerSetTimerID_def set_field_def upd_timer_def same_timers_def keeps_timers_def timer_lists_def has_status_def
        split: if_splits)
qed

section \<open>The lists of timers\<close>

text \<open>
  C18. The timers are well formed. From the start of the timer task on, whatever commands, callbacks,
  pended functions and other tasks interleave, as long as these leave the lists alone: the two lists
  are well-formed and sorted by expiry time, a timer is in one of them exactly when it is active, its
  list item points back to it and its period is positive.
\<close>

theorem timers_well_formed:
  assumes "callback_law {} cb" "pended_law {} pf" "timer_init s0" "(timer_step {} cb pf)\<^sup>*\<^sup>* s0 s"
  shows "(\<exists>A. lists_sorted (tm_world s) A) \<and>
    (\<forall>t T. timers (tm_world s) t = Some T \<longrightarrow>
       0 < xTimerPeriodInTicks T \<and> (in_list (tm_world s) t \<noteq> None \<longleftrightarrow> has_status tmrSTATUS_IS_ACTIVE T)) \<and>
    (\<forall>t. in_list (tm_world s) t \<noteq> None \<longrightarrow> timers (tm_world s) t \<noteq> None \<and> item_owner (tm_world s) t = t)"
proof -
  have "tinv {} (tm_world s)"
    using sys_run_ok [OF assms(1,2) init_ok [OF assms(3)] assms(4)] by (simp add: sys_ok_def synced_def)
  then show ?thesis
    unfolding tinv_def timer_ok_def by blast
qed

theorem timers_well_formed_witness:
  "\<exists>A. lists_sorted (tm_world sys_waiting) A"
  using timers_well_formed [OF count_calls_law nothing_pended_law demo_sys_init rtranclp_trans [OF demo_runs(1) demo_runs(2)]] by blast

section \<open>Time\<close>

text \<open>
  C19. A timer is started at the time the command was sent. The command to start or reset a timer, sent at
  true time \<open>c\<close> and handled at any time \<open>n\<close> less than a wrap of the tick count later, makes it expire
  one period after \<open>c\<close>, on whatever side of wraps these times lie: if that is still to come it is due
  then, and otherwise its callback runs at once for every expiry up to \<open>n\<close>, and the next is a whole number
  of periods after \<open>c\<close>. The handling returns, although it may have to empty a list and to loop.
\<close>

theorem start_counts_from_sending:
  assumes "callback_law R cb" "synced {} w n L" "timers w t = Some T" "i \<in> start_ids" "c \<le> n" "n < c + u32_bound"
  shows "\<exists>w' T'. process_command cb i (c mod u32_bound) t w = Some w' \<and>
    xTimerPeriodInTicks T' = xTimerPeriodInTicks T \<and> (t \<in> R \<longrightarrow> is_auto T' = is_auto T) \<and>
    due_at (n div u32_bound) w' t = first_due T' c n \<and>
    count_list (expired w') t = count_list (expired w) t + first_calls T' c n \<and> tinv {} w'"
proof -
  obtain w1 T' where w1: "\<And>i v. process_command cb i v t w = command_case cb i v t (n mod u32_bound) w1"
    "tinv {t} w1" "timers w1 t = Some T'" "xTimerPeriodInTicks T' = xTimerPeriodInTicks T" "t \<in> R \<longrightarrow> is_auto T' = is_auto T"
    "count_list (expired w1) t = count_list (expired w) t"
    using command_prefix [OF assms(1-3)] by metis
  obtain w' where "command_case cb i (c mod u32_bound) t (n mod u32_bound) w1 = Some w'"
    "done_to R n w1 w' t (first_due T' c n) (first_calls T' c n)"
    using start_ok [OF assms(1) w1(2,3) assms(5,6)] assms(4) unfolding start_ids_def by metis
  with w1 show ?thesis
    by (auto simp: done_to_def count_replicate)
qed

lemma demo_empty_rep: "rep {1, 2} idle_lists (\<lambda>_. [])"
proof -
  have "rep {} zero_store (\<lambda>_. [])"
    by (simp add: rep_def zero_store_def)
  from vListInitialise_rep [OF this, of 1] have "rep {1} (vListInitialise 1 zero_store) (\<lambda>_. [])"
    by (simp add: fun_upd_idem)
  from vListInitialise_rep [OF this, of 2] show ?thesis
    by (simp add: idle_lists_def fun_upd_idem xActiveTimerList1_def xActiveTimerList2_def insert_commute)
qed

lemma demo_synced:
  "synced {} (timer_world (ticked 29) taken_queue idle_lists demo_timer 1 4294967290 []) 4294967325 4294967290"
proof -
  let ?w = "timer_world (ticked 29) taken_queue idle_lists demo_timer 1 4294967290 []"
  have "lists_sorted ?w (\<lambda>_. [])"
    using demo_empty_rep by (simp add: lists_sorted_def timer_lists_def task_eval)
  then have "tinv {} ?w"
    by (auto simp: tinv_def task_eval timer_ok_def demo_timer_def has_status_def timer_consts u32_bound_def)
  then show ?thesis
    by (simp add: synced_def task_eval xTaskGetTickCount_def u32_bound_def)
qed

theorem start_counts_from_sending_witness:
  "\<exists>w'. process_command count_calls tmrCOMMAND_START 4294967290 64
      (timer_world (ticked 29) taken_queue idle_lists demo_timer 1 4294967290 []) = Some w' \<and>
    due_at 1 w' 64 = Some 4294967330 \<and> count_list (expired w') 64 = 3"
proof -
  have t: "timers (timer_world (ticked 29) taken_queue idle_lists demo_timer 1 4294967290 []) 64 = Some demo_timer"
    by (simp add: task_eval)
  have i: "tmrCOMMAND_START \<in> start_ids"
    by (simp add: start_ids_def)
  have c: "(4294967290 :: nat) \<le> 4294967325" "(4294967325 :: nat) < 4294967290 + u32_bound"
    by (simp_all add: u32_bound_def)
  have p: "xTimerPeriodInTicks demo_timer = 10"
    by (simp add: demo_timer_def)
  show ?thesis
    using start_counts_from_sending [OF count_calls_law [of "{64}"] demo_synced t i c]
    by (auto simp: u32_bound_def first_due_def first_calls_def next_due_def calls_def demo_flags p task_eval)
qed

text \<open>
  C21. Switching the lists brings every timer into the new epoch. When the tick count has wrapped, at
  the end \<open>n\<close> of the epoch \<open>e\<close>, the loop of the timer task ends and exchanges the two lists. A timer that
  was due in the past epoch has had its callback called once if it is one-shot, and is then off the
  lists; with auto-reload, it has been called for every whole period from its due time to \<open>n\<close> and is due
  at the first one after \<open>n\<close>. A timer that was due later keeps its time and is not called, and one that
  was on no list stays so.
\<close>

theorem switch_empties_the_past:
  assumes "callback_law R cb" "tinv X w"
  shows "\<exists>w'. prvSwitchTimerLists cb w = Some w' \<and> tinv X w' \<and>
    pxCurrentTimerList w' = pxOverflowTimerList w \<and> pxOverflowTimerList w' = pxCurrentTimerList w \<and>
    (\<forall>t. let n = Suc e * u32_bound - 1; called = count_list (expired w') t - count_list (expired w) t
       in count_list (expired w) t \<le> count_list (expired w') t \<and>
         (case due_at e w t of
            None \<Rightarrow> due_at (Suc e) w' t = None \<and> called = 0
          | Some d \<Rightarrow>
              if n < d then due_at (Suc e) w' t = Some d \<and> called = 0
              else \<exists>T T'. timers w t = Some T \<and> xTimerPeriodInTicks T' = xTimerPeriodInTicks T \<and> (t \<in> R \<longrightarrow> is_auto T' = is_auto T) \<and>
                due_at (Suc e) w' t = next_due T' d n \<and> called = calls T' d n))"
proof -
  define n where "n = e * u32_bound + tmrMAX_TIME_BEFORE_OVERFLOW"
  have n: "n = Suc e * u32_bound - 1"
    by (simp add: n_def timer_consts u32_bound_def)
  obtain w' where w': "prvSwitchTimerLists cb w = Some w'" "tinv X w'" "\<And>t. moved R n (due_at e w) (due_at (Suc e) w') w w' t"
    "pxCurrentTimerList w' = pxOverflowTimerList w" "pxOverflowTimerList w' = pxCurrentTimerList w"
    using switch_lists_ok [OF assms n_def] by metis
  have one: "case due_at e w t of None \<Rightarrow> due_at (Suc e) w' t = None \<and> count_list (expired w') t = count_list (expired w) t
    | Some d \<Rightarrow>
        if n < d then due_at (Suc e) w' t = Some d \<and> count_list (expired w') t = count_list (expired w) t
        else \<exists>T T'. timers w t = Some T \<and> xTimerPeriodInTicks T' = xTimerPeriodInTicks T \<and> (t \<in> R \<longrightarrow> is_auto T' = is_auto T) \<and>
          due_at (Suc e) w' t = next_due T' d n \<and> count_list (expired w') t = count_list (expired w) t + calls T' d n" for t
    using w'(3) [of t] unfolding moved_def
  proof (elim disjE)
    assume same: "due_at (Suc e) w' t = due_at e w t \<and> count_list (expired w') t = count_list (expired w) t"
    have "n < d" if "due_at (Suc e) w' t = Some d" for d
      using due_epoch(2) [OF w'(2) that] unfolding n by (simp add: u32_bound_def)
    with same show ?thesis
      by (auto split: option.splits)
  next
    assume "\<exists>T T' c. timers w t = Some T \<and> xTimerPeriodInTicks T' = xTimerPeriodInTicks T \<and> (t \<in> R \<longrightarrow> is_auto T' = is_auto T) \<and>
      due_at e w t = Some c \<and> c \<le> n \<and> due_at (Suc e) w' t = next_due T' c n \<and>
      count_list (expired w') t = count_list (expired w) t + calls T' c n"
    then show ?thesis
      by auto
  qed
  show ?thesis
    unfolding n [symmetric] Let_def
  proof (intro exI [of _ w'] conjI allI w'(1,2,4,5))
    fix t
    show "count_list (expired w) t \<le> count_list (expired w') t"
      using one [of t] by (auto split: option.splits if_splits)
    show "case due_at e w t of None \<Rightarrow> due_at (Suc e) w' t = None \<and> count_list (expired w') t - count_list (expired w) t = 0
      | Some d \<Rightarrow>
          if n < d then due_at (Suc e) w' t = Some d \<and> count_list (expired w') t - count_list (expired w) t = 0
          else \<exists>T T'. timers w t = Some T \<and> xTimerPeriodInTicks T' = xTimerPeriodInTicks T \<and> (t \<in> R \<longrightarrow> is_auto T' = is_auto T) \<and>
            due_at (Suc e) w' t = next_due T' d n \<and> count_list (expired w') t - count_list (expired w) t = calls T' d n"
      using one [of t] by (auto split: option.splits if_splits)
  qed
qed

lemma sys_waiting_due: "sys_due sys_waiting 64 = Some 4294967330"
  by (simp add: sys_due_def due_at_def timer_sys_parts task_eval one_timer_def u32_bound_def)

text \<open>The timer of period 10 that is due at 4294967330 would be called 429496727 times in a whole epoch.\<close>

theorem switch_empties_the_past_witness:
  "\<exists>w'. prvSwitchTimerLists count_calls (tm_world sys_waiting) = Some w' \<and> due_at 2 w' 64 = Some 8589934600 \<and>
    count_list (expired w') 64 = 3 + 429496727"
proof -
  have inv: "tinv {} (tm_world sys_waiting)"
    using sys_run_ok [OF count_calls_law nothing_pended_law init_ok [OF demo_sys_init] rtranclp_trans [OF demo_runs(1) demo_runs(2)]]
    by (simp add: sys_ok_def synced_def)
  have d: "due_at 1 (tm_world sys_waiting) 64 = Some 4294967330"
    using sys_waiting_due by (simp add: sys_due_def timer_sys_parts u32_bound_def)
  have t: "timers (tm_world sys_waiting) 64 = Some (started 3)" "count_list (expired (tm_world sys_waiting)) 64 = 3"
    by (simp_all add: timer_sys_parts task_eval)
  have p: "xTimerPeriodInTicks (started 3) = 10"
    by (simp add: demo_timer_def)
  let ?n = "Suc 1 * u32_bound - 1"
  obtain w' T' where w': "prvSwitchTimerLists count_calls (tm_world sys_waiting) = Some w'" "xTimerPeriodInTicks T' = 10" "is_auto T'"
    "due_at (Suc 1) w' 64 = next_due T' 4294967330 ?n"
    "count_list (expired (tm_world sys_waiting)) 64 \<le> count_list (expired w') 64"
    "count_list (expired w') 64 - count_list (expired (tm_world sys_waiting)) 64 = calls T' 4294967330 ?n"
    using switch_empties_the_past [OF count_calls_law [of "{64}"] inv, of 1] d t(1) p demo_flags(2) [of 3]
    by (auto simp: Let_def u32_bound_def dest!: spec [of _ 64])
  have c: "calls T' 4294967330 ?n = 429496727"
    using w'(2,3) by (simp add: calls_def u32_bound_def)
  have "due_at 2 w' 64 = Some 8589934600"
    using w'(2-4) c by (simp add: next_due_def numeral_2_eq_2)
  with w'(1,5,6) c t(2) show ?thesis
    by (intro exI [of _ w']) simp
qed

text \<open>
  C20. The timer task does not oversleep. Whenever it has decided to wait for a message for \<open>k\<close> ticks, at
  the true time \<open>tm_sampled\<close>, every timer is due after that time and not before the wait ends; the wait ends
  exactly when a timer is due or at a wrap of the tick count, and it is indefinite only without active timers.
\<close>

theorem timer_task_does_not_oversleep:
  assumes "callback_law {} cb" "pended_law {} pf" "timer_init s0" "(timer_step {} cb pf)\<^sup>*\<^sup>* s0 s"
    "tm_pos s = Blocking (Waiting q k indefinitely)"
  shows "(\<forall>t d. sys_due s t = Some d \<longrightarrow> tm_sampled s < d \<and> tm_sampled s + k \<le> d) \<and>
    (if indefinitely then \<forall>t. in_list (tm_world s) t = None
     else (\<exists>t. sys_due s t = Some (tm_sampled s + k)) \<or> (tm_sampled s + k) mod u32_bound = 0)"
  using sys_run_ok [OF assms(1,2) init_ok [OF assms(3)] assms(4)] assms(5) by (simp add: sys_ok_def pos_ok_def no_timers_def)

theorem timer_task_does_not_oversleep_witness:
  "sys_due sys_waiting 64 = Some 4294967330 \<and> tm_sampled sys_waiting + 5 \<le> 4294967330"
  using timer_task_does_not_oversleep [OF count_calls_law nothing_pended_law demo_sys_init rtranclp_trans [OF demo_runs(1) demo_runs(2)]
      timer_sys_parts(4)] sys_waiting_due by blast

text \<open>
  C17. An auto-reload timer neither drifts nor skips. An auto-reload timer of period \<open>p\<close> that is due at
  \<open>a + p\<close>, whose reload mode nobody changes and that gets no more commands: after any further steps of
  the system its callback has run \<open>k\<close> times for some \<open>k\<close>, it is due at exactly \<open>a + (k + 1) p\<close>, and no
  callback was early; whenever the timer task waits, \<open>k\<close> is the number of whole periods since \<open>a\<close>, across
  any number of wraps of the tick count.
\<close>

theorem auto_reload_keeps_schedule:
  assumes "callback_law {t} cb" "pended_law {t} pf" "timer_init s0" "(timer_step {} cb pf)\<^sup>*\<^sup>* s0 s1" "(timer_step {t} cb pf)\<^sup>*\<^sup>* s1 s2"
    "timers (tm_world s1) t = Some T" "has_status tmrSTATUS_IS_AUTORELOAD T" "sys_due s1 t = Some (a + xTimerPeriodInTicks T)"
  shows "\<exists>k. sys_due s2 t = Some (a + Suc k * xTimerPeriodInTicks T) \<and>
    count_list (expired (tm_world s2)) t = count_list (expired (tm_world s1)) t + k \<and>
    (0 < k \<longrightarrow> a + k * xTimerPeriodInTicks T \<le> tm_sampled s2) \<and>
    ((\<exists>q m b. tm_pos s2 = Blocking (Waiting q m b)) \<longrightarrow> k = (tm_sampled s2 - a) div xTimerPeriodInTicks T)"
proof -
  let ?p = "xTimerPeriodInTicks T"
  have ok1: "sys_ok s1"
    by (rule sys_run_ok [OF laws_weaken(1) [OF assms(1)] laws_weaken(2) [OF assms(2)] init_ok [OF assms(3)] assms(4)])
  have "on_schedule t ?p a (count_list (expired (tm_world s1)) t) s1 0"
    using assms(6-8) by (simp add: on_schedule_def)
  then obtain k where k: "on_schedule t ?p a (count_list (expired (tm_world s1)) t) s2 k"
    using run_on_schedule [OF assms(1,2) ok1 assms(5)] by blast
  have p: "0 < ?p"
    using tinvD(3) [OF _ assms(6)] ok1 by (auto simp: sys_ok_def synced_def timer_ok_def)
  have ok2: "sys_ok s2"
    by (rule sys_run_ok [OF assms(1,2) ok1 assms(5)])
  have "k = (tm_sampled s2 - a) div ?p" if w: "tm_pos s2 = Blocking (Waiting q m b)" for q m b
  proof -
    have lt: "tm_sampled s2 < a + Suc k * ?p"
      using ok2 k w by (auto simp: sys_ok_def pos_ok_def on_schedule_def)
    have "k * ?p \<le> tm_sampled s2 - a"
      using k by (cases k) (auto simp: on_schedule_def)
    moreover have "tm_sampled s2 - a < Suc k * ?p"
      using lt p by (cases "a \<le> tm_sampled s2") auto
    ultimately show ?thesis
      by (metis div_nat_eqI mult.commute)
  qed
  with k show ?thesis
    unfolding on_schedule_def by blast
qed

theorem auto_reload_keeps_schedule_witness:
  "count_list (expired (tm_world sys_waiting)) 64 = 3 \<and> (tm_sampled sys_waiting - 4294967290) div 10 = 3"
proof -
  have t: "timers (tm_world sys_started) 64 = Some (started 0)" "has_status tmrSTATUS_IS_AUTORELOAD (started 0)"
    "xTimerPeriodInTicks (started 0) = 10"
    by (simp_all add: timer_sys_parts task_eval demo_flags) (simp add: demo_timer_def)
  have d: "sys_due sys_started 64 = Some (4294967290 + xTimerPeriodInTicks (started 0))"
    unfolding t(3) by (simp add: sys_due_def due_at_def timer_sys_parts task_eval one_timer_def u32_bound_def)
  obtain k where k: "sys_due sys_waiting 64 = Some (4294967290 + Suc k * 10)"
    "count_list (expired (tm_world sys_waiting)) 64 = count_list (expired (tm_world sys_started)) 64 + k"
    "k = (tm_sampled sys_waiting - 4294967290) div 10"
    using auto_reload_keeps_schedule [OF count_calls_law nothing_pended_law demo_sys_init demo_runs(1) demo_runs(2) t(1,2) d]
      timer_sys_parts(4) unfolding t(3) by blast
  then show ?thesis
    using sys_waiting_due by (simp add: timer_sys_parts task_eval)
qed

end
