(* ===== verification/TimerBoot.thy ===== *)
theory TimerBoot
  imports TaskBoot TimerSystem
begin

text \<open>
  The start of the whole system: \<open>start_system\<close> is \<open>vTaskStartScheduler\<close> with the modelled
  \<open>xTimerCreateTimerTask\<close> as its timer service, so that the idle task, the queue and the lists of the
  timers and the timer task are made from the same heap. The lemmas say what each part needs of the
  memory and what it leaves.
\<close>

section \<open>The start\<close>

definition set_world :: "kernel \<times> heap \<Rightarrow> tworld \<Rightarrow> tworld" where
  "set_world = (\<lambda>(k, h) w. (set_tkernel k w)\<lparr>theap := h\<rparr>)"

definition create_tasks :: "(nat \<times> nat) list \<Rightarrow> tworld \<Rightarrow> tworld option" where
  "create_tasks ts w = map_option (\<lambda>x. set_world x w) (create_all ts (tkernel w, theap w))"

definition timer_service :: "(nat \<Rightarrow> u8) \<Rightarrow> tworld \<times> kernel \<times> heap \<Rightarrow> (bool \<times> tworld \<times> kernel \<times> heap) option" where
  "timer_service junk = (\<lambda>(w, x).
     map_option (\<lambda>w. (True, w, tkernel w, theap w)) (xTimerCreateTimerTask junk (set_world x w)))"

definition start_system :: "(nat \<Rightarrow> u8) \<Rightarrow> tworld \<Rightarrow> tworld option" where
  "start_system junk w =
     map_option (\<lambda>(w, x). set_world x w) (vTaskStartScheduler (timer_service junk) (w, tkernel w, theap w))"

lemma set_world_simps [simp]:
  "tkernel (set_world (k, h) w) = k" "theap (set_world (k, h) w) = h" "tstore (set_world x w) = tstore w"
  "timers (set_world x w) = timers w" "pxCurrentTimerList (set_world x w) = pxCurrentTimerList w"
  "pxOverflowTimerList (set_world x w) = pxOverflowTimerList w" "xLastTime (set_world x w) = xLastTime w"
  "xTimerQueue (set_world x w) = xTimerQueue w" "xTimerTaskHandle (set_world x w) = xTimerTaskHandle w"
  "queues (qstate (set_world x w)) = queues (qstate w)" "xQueueRegistry (qstate (set_world x w)) = xQueueRegistry (qstate w)"
  by (cases x, simp add: set_world_def set_tkernel_def)+

section \<open>The timer queue\<close>

text \<open>Before the start no task waits, so that initialising an event list changes nothing.\<close>

lemma boot_init_list:
  assumes "boot_ok k"
  shows "init_list (EventList e) (klists k) = klists k"
proof -
  have *: "items (klists k) (EventList e) = [] \<and> walk (klists k) (EventList e) = None"
  proof (cases "blank k")
    case False
    then have P: "kinv {} {} 0 k" "\<And>t. container (klists k) (EventItem t) = None"
      using assms by (auto simp: boot_ok_def populated_def)
    have "i \<notin> set (items (klists k) (EventList e))" for i
    proof
      assume i: "i \<in> set (items (klists k) (EventList e))"
      then obtain t where "i = EventItem t"
        using typed_slot [OF kinv_parts(2) [OF P(1)] i] by auto
      with i P(2) [of t] container_items [OF P(1)] show False
        by force
    qed
    then have "items (klists k) (EventList e) = []"
      by (meson last_in_set)
    moreover from this have "walk (klists k) (EventList e) = None"
      using kinv_parts(1) [OF P(1)] by (force simp: lists_ok_def)
    ultimately show ?thesis ..
  qed (simp add: blank_def)
  then have "(items (klists k))(EventList e := []) = items (klists k)" "(walk (klists k))(EventList e := None) = walk (klists k)"
    by (simp_all add: fun_upd_idem)
  then show ?thesis
    by (simp add: init_list_def)
qed

definition queue_memory :: nat where
  "queue_memory = add32 sizeof_Queue_t (mul32 configTIMER_QUEUE_LENGTH sizeof_DaemonTaskMessage_t)"

lemma boot_queue_create:
  assumes "boot_ok (kern w)" "heap_live h es"
  shows "case allocate [queue_memory] h of
      None \<Rightarrow> xQueueGenericCreate configTIMER_QUEUE_LENGTH sizeof_DaemonTaskMessage_t 0 junk (w, h) = Some (0, w, h)
    | Some h1 \<Rightarrow> \<exists>q m Q. q \<noteq> 0 \<and> heap_live h1 ((q, m) # es) \<and>
        xQueueGenericCreate configTIMER_QUEUE_LENGTH sizeof_DaemonTaskMessage_t 0 junk (w, h) =
          Some (q, w\<lparr>queues := (queues w)(q := Some Q)\<rparr>, h1) \<and>
        uxMessagesWaiting Q = 0 \<and> uxLength Q = configTIMER_QUEUE_LENGTH \<and> uxItemSize Q = sizeof_DaemonTaskMessage_t \<and>
        cRxLock Q = queueUNLOCKED \<and> cTxLock Q = queueUNLOCKED"
proof -
  have n: "queue_memory = 240" "queue_memory < u32_bound"
    by (simp_all add: queue_memory_def sizeof_Queue_t_def configTIMER_QUEUE_LENGTH_def sizeof_DaemonTaskMessage_t_def add32_def
        mul32_def u32_bound_def)
  have run: "xQueueGenericCreate configTIMER_QUEUE_LENGTH sizeof_DaemonTaskMessage_t 0 junk (w, h) =
     do { (q, w, h) \<leftarrow> queue_malloc queue_memory (w, h);
          if q \<noteq> 0
          then do { w \<leftarrow> prvInitialiseNewQueue configTIMER_QUEUE_LENGTH sizeof_DaemonTaskMessage_t 0 q junk w; Some (q, w, h) }
          else Some (0, w, h) }"
    unfolding xQueueGenericCreate_def queue_memory_def
    by (rule if_P) (simp add: configTIMER_QUEUE_LENGTH_def sizeof_DaemonTaskMessage_t_def u32_bound_def mul32_def sizeof_Queue_t_def)
  have malloc: "queue_malloc queue_memory (w, h) = map_option (\<lambda>(p, h). (p, w, h)) (pvPortMalloc queue_memory h)"
    using boot_memory(1) [OF assms(1), of queue_memory h] by (cases "pvPortMalloc queue_memory h") (auto simp: queue_malloc_def)
  have init: "\<exists>Q. prvInitialiseNewQueue configTIMER_QUEUE_LENGTH sizeof_DaemonTaskMessage_t 0 q junk w =
      Some (w\<lparr>queues := (queues w)(q := Some Q)\<rparr>) \<and>
      uxMessagesWaiting Q = 0 \<and> uxLength Q = configTIMER_QUEUE_LENGTH \<and> uxItemSize Q = sizeof_DaemonTaskMessage_t \<and>
      cRxLock Q = queueUNLOCKED \<and> cTxLock Q = queueUNLOCKED" if "q \<noteq> 0" for q
    using that boot_init_list [OF assms(1)]
    by (simp add: prvInitialiseNewQueue_def xQueueGenericReset_def set_queue_def on_kernel_def xTasksWaitingToReceive_def
        xTasksWaitingToSend_def configTIMER_QUEUE_LENGTH_def sizeof_DaemonTaskMessage_t_def u32_bound_def Let_def)
      (rule exI, rule conjI, rule refl, simp)
  from hp.alloc_law [OF assms(2) n(2)] show ?thesis
  proof (elim disjE exE conjE)
    assume "pvPortMalloc queue_memory h = Some (0, h)"
    then show ?thesis
      unfolding run malloc by simp
  next
    fix p m h'
    assume p: "pvPortMalloc queue_memory h = Some (p, h')" "p \<noteq> 0" "heap_live h' ((p, m) # es)"
    with init [OF p(2)] show ?thesis
      unfolding run malloc by auto
  qed
qed


section \<open>The timer task\<close>

text \<open>The names of the queues: there is a slot, or the name is left out; neither fails.\<close>

lemma add_to_registry:
  assumes "q \<noteq> 0"
  shows "\<exists>rs. vQueueAddToRegistry q name w = Some (w\<lparr>xQueueRegistry := rs\<rparr>)"
proof (cases "if name \<noteq> None then registry_slot q None 0 (xQueueRegistry w) else None")
  case None
  with assms show ?thesis
    by (intro exI [of _ "xQueueRegistry w"]) (simp add: vQueueAddToRegistry_def)
next
  case (Some i)
  with assms show ?thesis
    by (intro exI [of _ "(xQueueRegistry w)[i := (name, q)]"]) (simp add: vQueueAddToRegistry_def)
qed

text \<open>The lists and the queue, made on the first call.\<close>

definition empty_timer_lists :: "store \<Rightarrow> store" where
  "empty_timer_lists s = vListInitialise xActiveTimerList2 (vListInitialise xActiveTimerList1 s)"

definition fresh_timer_queue :: "tworld \<Rightarrow> bool" where
  "fresh_timer_queue w \<longleftrightarrow>
     (case queues (qstate w) (xTimerQueue w) of
        None \<Rightarrow> False
      | Some Q \<Rightarrow> uxMessagesWaiting Q = 0 \<and> uxLength Q = configTIMER_QUEUE_LENGTH \<and>
          uxItemSize Q = sizeof_DaemonTaskMessage_t \<and> cRxLock Q = queueUNLOCKED \<and> cTxLock Q = queueUNLOCKED)"

lemma boot_check_queue:
  assumes "boot_ok (tkernel w)" "heap_live (theap w) es" "xTimerQueue w = 0"
  shows "case allocate [queue_memory] (theap w) of
      None \<Rightarrow> \<exists>w'. prvCheckForValidListAndQueue junk w = Some w' \<and> xTimerQueue w' = 0
    | Some h \<Rightarrow> \<exists>w' m. prvCheckForValidListAndQueue junk w = Some w' \<and> xTimerQueue w' \<noteq> 0 \<and> fresh_timer_queue w' \<and>
        heap_live h ((xTimerQueue w', m) # es) \<and> theap w' = h \<and> tkernel w' = tkernel w \<and> timers w' = timers w \<and>
        xLastTime w' = xLastTime w \<and> tstore w' = empty_timer_lists (tstore w) \<and>
        pxCurrentTimerList w' = xActiveTimerList1 \<and> pxOverflowTimerList w' = xActiveTimerList2"
proof (cases "allocate [queue_memory] (theap w)")
  case None
  with boot_queue_create [OF assms(1,2), of junk] assms(3) show ?thesis
    by (simp add: prvCheckForValidListAndQueue_def Let_def)
next
  case (Some h)
  with boot_queue_create [OF assms(1,2), of junk] obtain q m Q where Q: "q \<noteq> 0" "heap_live h ((q, m) # es)"
    "xQueueGenericCreate configTIMER_QUEUE_LENGTH sizeof_DaemonTaskMessage_t 0 junk (qstate w, theap w) =
       Some (q, (qstate w)\<lparr>queues := (queues (qstate w))(q := Some Q)\<rparr>, h)"
    "uxMessagesWaiting Q = 0" "uxLength Q = configTIMER_QUEUE_LENGTH" "uxItemSize Q = sizeof_DaemonTaskMessage_t"
    "cRxLock Q = queueUNLOCKED" "cTxLock Q = queueUNLOCKED"
    by auto
  obtain rs where rs: "vQueueAddToRegistry q (Some ''TmrQ'') ((qstate w)\<lparr>queues := (queues (qstate w))(q := Some Q)\<rparr>) =
      Some ((qstate w)\<lparr>queues := (queues (qstate w))(q := Some Q), xQueueRegistry := rs\<rparr>)"
    using add_to_registry [OF Q(1)] by blast
  show ?thesis
    using Some Q rs assms(3)
    by (simp add: prvCheckForValidListAndQueue_def Let_def fresh_timer_queue_def empty_timer_lists_def) blast
qed

text \<open>The whole service: its queue, and a task of the highest priority.\<close>

definition timer_memory :: "nat list" where
  "timer_memory = queue_memory # task_memory configTIMER_TASK_STACK_DEPTH"

lemma boot_timer_service:
  assumes "world_ok boot_ok (k, h) es" "xTimerQueue w = 0"
  shows "case allocate timer_memory h of
      None \<Rightarrow> timer_service junk (w, k, h) = None
    | Some h2 \<Rightarrow> \<exists>w' es'. timer_service junk (w, k, h) = Some (True, w', tkernel w', h2) \<and> theap w' = h2 \<and>
        world_ok boot_ok (tkernel w', h2) es' \<and> length es' = length es + 3 \<and>
        tcbs k (xTimerTaskHandle w') = None \<and> dom (tcbs (tkernel w')) = insert (xTimerTaskHandle w') (dom (tcbs k)) \<and>
        (\<exists>b. tcbs (tkernel w') (xTimerTaskHandle w') = Some b \<and> uxBasePriority b = configTIMER_TASK_PRIORITY) \<and>
        xIdleTaskHandle (tkernel w') = xIdleTaskHandle k \<and> fresh_timer_queue w' \<and> timers w' = timers w \<and>
        xLastTime w' = xLastTime w \<and> tstore w' = empty_timer_lists (tstore w) \<and>
        pxCurrentTimerList w' = xActiveTimerList1 \<and> pxOverflowTimerList w' = xActiveTimerList2"
proof -
  let ?w = "set_world (k, h) w"
  have B: "boot_ok (tkernel ?w)" "heap_live (theap ?w) es" "tasks_own (tcbs k) es" "xTimerQueue ?w = 0"
    using assms by (simp_all add: world_ok_def)
  have split: "allocate timer_memory h = Option.bind (allocate [queue_memory] h) (allocate (task_memory configTIMER_TASK_STACK_DEPTH))"
    using allocate_append [of "[queue_memory]" "task_memory configTIMER_TASK_STACK_DEPTH" h] by (simp add: timer_memory_def)
  show ?thesis
  proof (cases "allocate [queue_memory] h")
    case None
    with boot_check_queue [OF B(1,2,4), of junk] show ?thesis
      unfolding split by (auto simp: timer_service_def xTimerCreateTimerTask_def simp del: allocate.simps)
  next
    case (Some h1)
    with boot_check_queue [OF B(1,2,4), of junk] obtain w1 m where Q: "prvCheckForValidListAndQueue junk ?w = Some w1"
      "xTimerQueue w1 \<noteq> 0" "fresh_timer_queue w1" "heap_live h1 ((xTimerQueue w1, m) # es)" "theap w1 = h1" "tkernel w1 = k"
      "timers w1 = timers w" "xLastTime w1 = xLastTime w" "tstore w1 = empty_timer_lists (tstore w)"
      "pxCurrentTimerList w1 = xActiveTimerList1" "pxOverflowTimerList w1 = xActiveTimerList2"
      by (auto simp del: allocate.simps)
    have W: "world_ok boot_ok (k, h1) ((xTimerQueue w1, m) # es)"
      using B Q(4) tasks_own_Cons [OF B(3)] by (simp add: world_ok_def)
    have p: "configTIMER_TASK_PRIORITY < configMAX_PRIORITIES"
      by (simp add: configTIMER_TASK_PRIORITY_def configMAX_PRIORITIES_def)
    obtain t x es2 where C: "xTaskCreate configTIMER_TASK_STACK_DEPTH configTIMER_TASK_PRIORITY (k, h1) = Some (t, x)"
      "world_ok boot_ok x es2"
      "dom (tcbs (fst x)) = (if t = 0 then dom (tcbs (fst (k, h1))) else insert t (dom (tcbs (fst (k, h1)))))"
      "if t = 0 then es2 = (xTimerQueue w1, m) # es
       else length es2 = length ((xTimerQueue w1, m) # es) + 2 \<and> tcbs (fst (k, h1)) t = None \<and>
         (\<exists>b. tcbs (fst x) t = Some b \<and> uxBasePriority b = configTIMER_TASK_PRIORITY)"
      by (rule booting.create_world [OF W p, of configTIMER_TASK_STACK_DEPTH])
    obtain k2 h2 where x: "x = (k2, h2)"
      by (cases x)
    have M: "case allocate (task_memory configTIMER_TASK_STACK_DEPTH) h1 of None \<Rightarrow> t = 0 | Some h' \<Rightarrow> t \<noteq> 0 \<and> h2 = h'"
      using B(1) C(1) by (intro boot_create_memory [of k configTIMER_TASK_STACK_DEPTH configTIMER_TASK_PRIORITY h1 t k2 h2]) (simp_all add: x)
    have run: "xTimerCreateTimerTask junk ?w = (if t \<noteq> 0 then Some ((set_tkernel k2 w1)\<lparr>theap := h2, xTimerTaskHandle := t\<rparr>) else None)"
      using Q C(1) by (simp add: xTimerCreateTimerTask_def x)
    show ?thesis
    proof (cases "t = 0")
      case True
      with M Some run show ?thesis
        unfolding split by (auto simp: timer_service_def simp del: allocate.simps split: option.splits)
    next
      case False
      let ?w2 = "(set_tkernel k2 w1)\<lparr>theap := h2, xTimerTaskHandle := t\<rparr>"
      have al: "allocate timer_memory h = Some h2"
        using False M Some unfolding split by (simp del: allocate.simps split: option.splits)
      have idle: "xIdleTaskHandle k2 = xIdleTaskHandle k"
        using boot_create_idle [OF _ C(1)] B(1) by (simp add: x)
      have "fresh_timer_queue ?w2"
        using Q(3) by (simp add: fresh_timer_queue_def set_tkernel_def)
      then show ?thesis
        using False C(2-4) Q(7-11) run idle unfolding al
        by (intro option.case(2) [THEN iffD2] exI [of _ ?w2] exI [of _ es2]) (simp add: timer_service_def x set_tkernel_def)
    qed
  qed
qed


section \<open>The whole start\<close>

definition kernel_memory :: "nat list" where
  "kernel_memory = task_memory configMINIMAL_STACK_SIZE @ timer_memory"

text \<open>The kernel's own tasks and objects are there, and nobody else's is gone.\<close>

definition started :: "tworld \<Rightarrow> tworld \<Rightarrow> bool" where
  "started w w' \<longleftrightarrow>
     (let k = tkernel w; k' = tkernel w'; idle = xIdleTaskHandle k'; tmr = xTimerTaskHandle w'
      in tcbs k idle = None \<and> tcbs k tmr = None \<and> idle \<noteq> tmr \<and>
        dom (tcbs k') = insert tmr (insert idle (dom (tcbs k))) \<and>
        (\<exists>b. tcbs k' tmr = Some b \<and> uxBasePriority b = configTIMER_TASK_PRIORITY) \<and>
        xTickCount k' = 0 \<and> fresh_timer_queue w')"

lemma start_system_ok:
  assumes "world_ok boot_ok (tkernel w, theap w) es" "xTimerQueue w = 0"
  shows "case allocate kernel_memory (theap w) of
      None \<Rightarrow> start_system junk w = None
    | Some h \<Rightarrow> \<exists>w' es'. start_system junk w = Some w' \<and> theap w' = h \<and> world_ok running_ok (tkernel w', h) es' \<and>
        length es' = length es + 5 \<and> started w w' \<and> timers w' = timers w \<and> xLastTime w' = xLastTime w \<and>
        tstore w' = empty_timer_lists (tstore w) \<and>
        pxCurrentTimerList w' = xActiveTimerList1 \<and> pxOverflowTimerList w' = xActiveTimerList2"
proof -
  let ?k = "tkernel w" and ?h = "theap w" and ?idle = "allocate (task_memory configMINIMAL_STACK_SIZE) (theap w)"
  have split: "allocate kernel_memory ?h = Option.bind ?idle (allocate timer_memory)"
    by (simp add: kernel_memory_def allocate_append)
  note I = start_idle [OF assms(1), unfolded snd_conv fst_conv]
  show ?thesis
  proof (cases ?idle)
    case None
    with I show ?thesis
      unfolding split by (auto simp: start_system_def vTaskStartScheduler_def)
  next
    case (Some h1)
    with I obtain w1 es1 where w1: "prvCreateIdleTasks (?k, ?h) = Some (True, w1)" "world_ok boot_ok w1 es1" "snd w1 = h1"
      "length es1 = length es + 2" "dom (tcbs (fst w1)) = insert (xIdleTaskHandle (fst w1)) (dom (tcbs ?k))"
      "tcbs ?k (xIdleTaskHandle (fst w1)) = None"
      by auto
    obtain k1 where k1: "w1 = (k1, h1)"
      using w1(3) by (cases w1) simp
    have run: "start_system junk w = map_option (\<lambda>(w, x). set_world x w)
        (do { (ok, s, k, h) \<leftarrow> timer_service junk (w, k1, h1);
              if ok then Some (s, k\<lparr>xNextTaskUnblockTime := portMAX_DELAY, xSchedulerRunning := True, xTickCount := 0\<rparr>, h) else None })"
      by (simp add: start_system_def vTaskStartScheduler_def w1(1) k1)
    have W: "world_ok boot_ok (k1, h1) es1"
      using w1(2) by (simp add: k1)
    note T = boot_timer_service [OF W assms(2), of junk]
    show ?thesis
    proof (cases "allocate timer_memory h1")
      case N: None
      with T Some show ?thesis
        unfolding split run by simp
    next
      case h2: (Some h2)
      with T obtain w2 es2 where w2: "timer_service junk (w, k1, h1) = Some (True, w2, tkernel w2, h2)"
        "world_ok boot_ok (tkernel w2, h2) es2" "length es2 = length es1 + 3" "tcbs k1 (xTimerTaskHandle w2) = None"
        "dom (tcbs (tkernel w2)) = insert (xTimerTaskHandle w2) (dom (tcbs k1))"
        "\<exists>b. tcbs (tkernel w2) (xTimerTaskHandle w2) = Some b \<and> uxBasePriority b = configTIMER_TASK_PRIORITY"
        "xIdleTaskHandle (tkernel w2) = xIdleTaskHandle k1" "fresh_timer_queue w2" "timers w2 = timers w" "xLastTime w2 = xLastTime w"
        "tstore w2 = empty_timer_lists (tstore w)" "pxCurrentTimerList w2 = xActiveTimerList1" "pxOverflowTimerList w2 = xActiveTimerList2"
        by auto
      let ?k2 = "(tkernel w2)\<lparr>xNextTaskUnblockTime := portMAX_DELAY, xSchedulerRunning := True, xTickCount := 0\<rparr>"
      let ?w = "set_world (?k2, h2) w2"
      have "tcbs (tkernel w2) (xIdleTaskHandle (tkernel w2)) \<noteq> None"
        using w1(5) w2(5,7) by (auto simp: k1)
      from start_done [OF w2(2) this] have "world_ok running_ok (?k2, h2) es2" .
      moreover have "started w ?w"
      proof -
        have "tcbs k1 (xIdleTaskHandle k1) \<noteq> None"
          using w1(5) by (auto simp: k1)
        then have ne: "xIdleTaskHandle k1 \<noteq> xTimerTaskHandle w2"
          using w2(4) by metis
        have "tcbs ?k (xTimerTaskHandle w2) = None"
          using w1(5) w2(4) by (auto simp: k1)
        with ne w1(5,6) w2(5-8) show ?thesis
          by (simp add: started_def Let_def k1 fresh_timer_queue_def)
      qed
      ultimately show ?thesis
        unfolding split Some run w2(1) using h2 w1(4) w2(3,9-13)
        by (simp add: exI [of _ es2])
    qed
  qed
qed

lemma started_timer_init:
  assumes "rep {} s (\<lambda>_. [])" "tstore w = empty_timer_lists s" "pxCurrentTimerList w = xActiveTimerList1"
    "pxOverflowTimerList w = xActiveTimerList2" "timers w = (\<lambda>_. None)" "xLastTime w = 0" "xTickCount (tkernel w) = 0"
  shows "timer_init \<lparr>tm_world = w, tm_now = 0, tm_sampled = 0, tm_pos = QueryTimers\<rparr>"
  using assms by (auto simp: timer_init_def Let_def empty_timer_lists_def xTaskGetTickCount_def)

end
