(* ===== verification/TaskWorld.thy ===== *)
theory TaskWorld
  imports TaskBoot EventWalk
begin

text \<open>
  Histories of the kernel and its memory. \<open>world_op\<close> adds to the calls of \<open>kop\<close> what needs more than
  the kernel's state to be allowed: the time-out of a wait for a mutex, the unordered event lists,
  and the creation and deletion of tasks with their memory. \<open>world_reach\<close> is what a kernel and its
  heap can get to.
\<close>

section \<open>The time-out of a wait for a mutex\<close>

text \<open>
  Whether giving up the inherited priority is free of the wrong bit: the holder keeps its priority,
  or is not the running task and does not leave the ready list of its old priority empty.
\<close>

definition timeout_safe :: "tid \<Rightarrow> nat \<Rightarrow> kernel \<Rightarrow> bool" where
  "timeout_safe t w k \<longleftrightarrow>
     (case tcbs k t of
        None \<Rightarrow> False
      | Some b \<Rightarrow> 0 < uxMutexesHeld b \<and> w < configMAX_PRIORITIES \<and>
          (uxPriority b \<noteq> max (uxBasePriority b) w \<longrightarrow> uxMutexesHeld b = 1 \<longrightarrow>
             t \<noteq> pxCurrentTCB k \<and> items (klists k) (Ready (uxPriority b)) \<noteq> [StateItem t]))"

lemma step_disinherit_after_timeout:
  assumes "kernel_ok k" "t \<noteq> 0 \<Longrightarrow> timeout_safe t w k"
  shows "\<exists>k'. vTaskPriorityDisinheritAfterTimeout t w k = Some k' \<and> kernel_ok k' \<and> keeps {} {} k k'"
proof (cases "t = 0")
  case True
  with assms(1) show ?thesis by (simp add: vTaskPriorityDisinheritAfterTimeout_def)
next
  case False
  then obtain b where b: "tcbs k t = Some b" "0 < uxMutexesHeld b" "w < configMAX_PRIORITIES"
    "uxPriority b \<noteq> max (uxBasePriority b) w \<Longrightarrow> uxMutexesHeld b = 1 \<Longrightarrow>
       t \<noteq> pxCurrentTCB k \<and> items (klists k) (Ready (uxPriority b)) \<noteq> [StateItem t]"
    using assms(2) by (auto simp: timeout_safe_def split: option.splits)
  let ?n = "max (uxBasePriority b) w"
  show ?thesis
  proof (cases "uxPriority b \<noteq> ?n \<and> uxMutexesHeld b = 1")
    case F: False
    have "vTaskPriorityDisinheritAfterTimeout t w k = Some k"
      unfolding vTaskPriorityDisinheritAfterTimeout_def Let_def b(1) bind.bind_lunit if_not_P [OF F]
      using \<open>t \<noteq> 0\<close> b(2) by simp
    with assms(1) show ?thesis by simp
  next
    case ch: True
    let ?b = "b\<lparr>uxPriority := ?n\<rparr>" and ?k = "set_event_priority t ?n k"
    have pr: "?n < configMAX_PRIORITIES" "uxBasePriority b < configMAX_PRIORITIES"
      using kinv_parts(4) [OF kernel_okD(2) [OF assms(1)]] b by (simp_all add: priorities_ok_def)
    have k0: "kernel_ok ?k" "tcbs ?k t = Some b"
      using set_event_priority_ok [OF assms(1)] b by simp_all
    let ?m = "?k\<lparr>tcbs := (tcbs k)(t := Some ?b)\<rparr>"
    have front: "upd_tcb t (\<lambda>b. b\<lparr>uxPriority := ?n\<rparr>) k = Some (k\<lparr>tcbs := (tcbs k)(t := Some ?b)\<rparr>)"
      "set_event_priority t ?n (k\<lparr>tcbs := (tcbs k)(t := Some ?b)\<rparr>) = ?m"
      using b(1) by (simp_all add: upd_tcb_def set_event_priority_def event_value_free_def list_set_value_def)
    have m0: "keeps {} {} k ?m"
      using keeps_set_priority [OF keeps_refl, of "{}" "{}" k t ?n] b(1) by (auto simp: keeps_def)
    show ?thesis
    proof (cases "container (klists k) (StateItem t) = Some (Ready (uxPriority b))")
      case F: False
      have "kernel_ok (?k\<lparr>tcbs := (tcbs ?k)(t := Some ?b)\<rparr>)"
        using pr F by (intro reprioritise_blocked [OF k0] not_in_ready [OF kernel_okD(2) [OF k0(1)] k0(2)]) simp_all
      with m0 \<open>t \<noteq> 0\<close> b ch F front show ?thesis
        by (simp add: vTaskPriorityDisinheritAfterTimeout_def Let_def)
    next
      case T: True
      then have T': "container (klists ?k) (StateItem t) = Some (Ready (uxPriority b))"
        by simp
      have bp: "uxPriority ?b < configMAX_PRIORITIES" "uxBasePriority ?b < configMAX_PRIORITIES" "ucNotifyState ?b = ucNotifyState b"
        using pr by simp_all
      obtain n k1 k3 where R:
        "list_remove (StateItem t) ?k = Some (n, k1)" "tcbs k1 = tcbs ?k" "only_lists ?k k1"
        "prvAddTaskToReadyList t ((if n = 0 then k1\<lparr>uxTopReadyPriority := portRESET_READY_PRIORITY (uxPriority b) (uxTopReadyPriority k1)\<rparr> else k1)
           \<lparr>tcbs := (tcbs ?k)(t := Some ?b)\<rparr>) = Some k3" "kernel_ok k3"
        by (rule reprioritise_ready [OF k0 T' bp])
      let ?xs = "items (klists k) (Ready (uxPriority b))"
      have mem: "StateItem t \<in> set ?xs"
        using container_items [OF kernel_okD(2) [OF assms(1)]] T by simp
      have "remove1 (StateItem t) ?xs \<noteq> []"
        using mem b(4) ch by (cases ?xs) auto
      moreover have "n = length (remove1 (StateItem t) ?xs)"
        using R(1) T' mem by (auto simp: list_remove_def remove_item_def length_remove1)
      ultimately have n: "n \<noteq> 0"
        by simp
      have rm: "list_remove (StateItem t) ?m = Some (n, k1\<lparr>tcbs := (tcbs k)(t := Some ?b)\<rparr>)"
        using R(1) by (auto simp: list_remove_def split: option.splits)
      have "vTaskPriorityDisinheritAfterTimeout t w k = Some k3"
        using \<open>t \<noteq> 0\<close> b ch T front rm n R(4)
        by (simp add: vTaskPriorityDisinheritAfterTimeout_def Let_def)
      moreover have "keeps {} {} k k3"
        using keeps_trans [OF keeps_trans [OF m0 keeps_remove [OF rm]] keeps_add_ready] R(4) n by simp
      ultimately show ?thesis
        using R(5) by blast
    qed
  qed
qed

section \<open>Histories\<close>

text \<open>Waiting on an unordered list, the way the event groups do, for a value.\<close>

definition wait_unordered :: "lname \<Rightarrow> nat \<Rightarrow> nat \<Rightarrow> kernel \<Rightarrow> kernel option" where
  "wait_unordered l v n k =
     do { k \<leftarrow> vTaskPlaceOnUnorderedEventList l v n (vTaskSuspendAll k);
          (yielded, k) \<leftarrow> xTaskResumeAll k;
          Some (if yielded then k else portYIELD_WITHIN_API k) }"

datatype world_op =
    Call kop | MutexTimeOut tid nat | WaitUnordered nat event_bits nat | WakeUnordered nat tid event_bits
  | CreateTask nat nat | DeleteTask tid

fun world_exec :: "world_op \<Rightarrow> kernel \<times> heap \<Rightarrow> (kernel \<times> heap) option" where
  "world_exec (Call a) (k, h) = map_option (\<lambda>k. (k, h)) (kexec a k)"
| "world_exec (MutexTimeOut t w) (k, h) = map_option (\<lambda>k. (k, h)) (vTaskPriorityDisinheritAfterTimeout t w k)"
| "world_exec (WaitUnordered e v n) (k, h) = map_option (\<lambda>k. (k, h)) (wait_unordered (EventList e) (unat v) n k)"
| "world_exec (WakeUnordered e t v) (k, h) =
     map_option (\<lambda>k. (k, h)) (vTaskRemoveFromUnorderedEventList (EventItem t) (unat v) k)"
| "world_exec (CreateTask d p) w = map_option snd (xTaskCreate d p w)"
| "world_exec (DeleteTask t) w = vTaskDelete t w"

text \<open>
  When a call may be made. A task is created with memory from the heap, so \<open>NewTask\<close>, which takes any
  address, is left to \<open>CreateTask\<close>.
\<close>

fun from_heap :: "kop \<Rightarrow> bool" where
  "from_heap (NewTask t s p) \<longleftrightarrow> False"
| "from_heap _ \<longleftrightarrow> True"

fun world_enabled :: "world_op \<Rightarrow> kernel \<times> heap \<Rightarrow> bool" where
  "world_enabled (Call a) (k, h) \<longleftrightarrow> enabled a k \<and> from_heap a"
| "world_enabled (MutexTimeOut t w) (k, h) \<longleftrightarrow> runs k \<and> (t \<noteq> 0 \<longrightarrow> timeout_safe t w k)"
| "world_enabled (WaitUnordered e v n) (k, h) \<longleftrightarrow> can_block k \<and> 0 < n \<and> n < u32_bound"
| "world_enabled (WakeUnordered e t v) (k, h) \<longleftrightarrow>
     runs k \<and> 0 < uxSchedulerSuspended k \<and> EventItem t \<in> set (waiting e k)"
| "world_enabled (CreateTask d p) (k, h) \<longleftrightarrow>
     runs k \<and> uxSchedulerSuspended k + 1 < u32_bound \<and> p < configMAX_PRIORITIES"
| "world_enabled (DeleteTask t) (k, h) \<longleftrightarrow>
     runs k \<and> uxSchedulerSuspended k + 1 < u32_bound \<and> live_task t k \<and> t \<noteq> pxCurrentTCB k \<and> t \<noteq> xIdleTaskHandle k"

inductive world_reach :: "kernel \<times> heap \<Rightarrow> kernel \<times> heap \<Rightarrow> bool" for w0 where
  start: "world_reach w0 w0"
| step: "world_reach w0 w \<Longrightarrow> world_enabled a w \<Longrightarrow> world_exec a w = Some w' \<Longrightarrow> world_reach w0 w'"

text \<open>What every call keeps: a consistent kernel whose tasks own their memory.\<close>

definition world_inv :: "kernel \<times> heap \<Rightarrow> bool" where
  "world_inv w \<longleftrightarrow> (\<exists>es. world_ok kernel_ok w es)"

lemma tasks_own_stacks:
  assumes "tasks_own B es" "\<And>t. map_option pxStack (B' t) = map_option pxStack (B t)"
  shows "tasks_own B' es"
proof -
  have old: "\<exists>b. B t = Some b \<and> pxStack b = pxStack b'" if "B' t = Some b'" for t b'
    using assms(2) [of t] that by (cases "B t") auto
  show ?thesis
    unfolding tasks_own_def
  proof (intro conjI allI impI)
    fix t b
    assume "B' t = Some b"
    from old [OF this] show "t \<in> fst ` set es" "pxStack b \<in> fst ` set es"
      using assms(1) unfolding tasks_own_def by metis+
  next
    fix t b u c
    assume "B' t = Some b" "B' u = Some c"
    with old obtain b1 c1 where "B t = Some b1" "pxStack b1 = pxStack b" "B u = Some c1" "pxStack c1 = pxStack c"
      by meson
    then show "pxStack b \<noteq> u" "t \<noteq> u \<Longrightarrow> pxStack b \<noteq> pxStack c"
      using assms(1) unfolding tasks_own_def by metis+
  qed
qed

lemma world_same_heap:
  assumes "world_ok kernel_ok (k, h) es" "keeps E V k k'" "kernel_ok k'" "\<And>t. t \<in> V \<Longrightarrow> live_task t k"
  shows "world_inv (k', h)"
proof -
  have "tasks_own (tcbs k') es"
    by (rule tasks_own_stacks [where B = "tcbs k"]) (use assms(1) keeps_tasks(1) [OF assms(2)] assms(4) in \<open>auto simp: world_ok_def\<close>)
  with assms(1,3) show ?thesis
    by (auto simp: world_inv_def world_ok_def)
qed

lemma call_revalues: "kernel_ok k \<Longrightarrow> from_heap a \<Longrightarrow> t \<in> revalues a k \<Longrightarrow> live_task t k"
  using kernel_okD(4) by (cases a) auto

lemma step_wait_unordered:
  assumes "kernel_ok k" "can_block k" "0 < n" "n < u32_bound"
  shows "\<exists>k'. wait_unordered (EventList e) (unat (v :: event_bits)) n k = Some k' \<and> kernel_ok k' \<and> keeps {e} {pxCurrentTCB k} k k'"
proof -
  let ?k = "vTaskSuspendAll k"
  obtain b where b: "tcbs k (pxCurrentTCB k) = Some b" "ucNotifyState b \<noteq> Waiting"
    and r: "runs k" "uxSchedulerSuspended k = 0" "pxCurrentTCB k \<noteq> xIdleTaskHandle k"
    using assms(2) by (auto simp: can_block_def split: option.splits)
  have k: "kernel_ok ?k" "is_ready ?k (pxCurrentTCB ?k)" "uxSchedulerSuspended ?k = 1" "pxCurrentTCB ?k \<noteq> xIdleTaskHandle ?k"
    "tcbs ?k (pxCurrentTCB ?k) = Some b" "container (klists ?k) (EventItem (pxCurrentTCB ?k)) = None"
    using step_suspend_all [OF assms(1) r(1)] r b event_of_ready [OF assms(1) r(2,1)]
    by (simp_all add: vTaskSuspendAll_def add32_exact u32_bound_def)
  obtain k1 y k2 where "vTaskPlaceOnUnorderedEventList (EventList e) (unat v) n ?k = Some k1" "xTaskResumeAll k1 = Some (y, k2)"
    "kernel_ok (if y then k2 else portYIELD_WITHIN_API k2)" "keeps {e} {pxCurrentTCB ?k} ?k k2"
    using place_ok [OF k(1-5) b(2) k(6) assms(3,4), where e = e and v = v] by blast
  then show ?thesis
    by (auto simp: wait_unordered_def keeps_left vTaskSuspendAll_def split: if_splits)
qed

text \<open>The invariant is kept by every allowed call, and no allowed call fails.\<close>

lemma world_step:
  assumes "world_inv w" "world_enabled a w"
  shows "\<exists>w'. world_exec a w = Some w' \<and> world_inv w'"
proof -
  obtain k h where w: "w = (k, h)"
    by (cases w)
  obtain es where es: "world_ok kernel_ok (k, h) es"
    using assms(1) by (auto simp: world_inv_def w)
  have ok: "kernel_ok k"
    using es by (simp add: world_ok_def)
  have running: "world_inv w'" if "world_ok running_ok w' es'" for w' es'
    using that by (auto simp: world_inv_def world_ok_def running_ok_def)
  have now: "world_ok running_ok w es" if "runs k" "uxSchedulerSuspended k + 1 < u32_bound"
    using es that by (simp add: w world_ok_def running_ok_def)
  show ?thesis
  proof (cases a)
    case (Call c)
    then have en: "enabled c k" "from_heap c"
      using assms(2) by (simp_all add: w)
    then obtain k' where k': "kexec c k = Some k'" "kernel_ok k'"
      using kexec_ok [OF ok] by blast
    with world_same_heap [OF es kexec_keeps [OF ok en(1) k'(1)]] call_revalues [OF ok en(2)] Call show ?thesis
      by (simp add: w)
  next
    case (MutexTimeOut t n)
    then obtain k' where "vTaskPriorityDisinheritAfterTimeout t n k = Some k'" "kernel_ok k'" "keeps {} {} k k'"
      using step_disinherit_after_timeout [OF ok, of t n] assms(2) by (auto simp: w)
    with world_same_heap [OF es, of "{}" "{}" k'] MutexTimeOut show ?thesis
      by (simp add: w)
  next
    case (WaitUnordered e v n)
    then obtain k' where "wait_unordered (EventList e) (unat v) n k = Some k'" "kernel_ok k'" "keeps {e} {pxCurrentTCB k} k k'"
      using step_wait_unordered [OF ok, of n e v] assms(2) by (auto simp: w)
    with world_same_heap [OF es, of "{e}" "{pxCurrentTCB k}" k'] WaitUnordered kernel_okD(4) [OF ok] show ?thesis
      by (simp add: w)
  next
    case (WakeUnordered e t v)
    then obtain k' where k': "vTaskRemoveFromUnorderedEventList (EventItem t) (unat v) k = Some k'" "kernel_ok k'"
      "frees e v {EventItem t} k k'"
      using remove_unordered_ok [OF ok, of t e v] assms(2) by (auto simp: w)
    have "tcbs k' = tcbs k"
      using k'(3) by (simp add: frees_def stable_def)
    with es k'(1,2) WakeUnordered show ?thesis
      by (auto simp: w world_inv_def world_ok_def)
  next
    case (CreateTask d p)
    then have en: "runs k" "uxSchedulerSuspended k + 1 < u32_bound" "p < configMAX_PRIORITIES"
      using assms(2) by (simp_all add: w)
    obtain t w' es' where "xTaskCreate d p w = Some (t, w')" "world_ok running_ok w' es'"
      by (rule running.create_world [OF now [OF en(1,2)] en(3), of d])
    with running CreateTask show ?thesis
      by simp
  next
    case (DeleteTask t)
    then obtain b where b: "tcbs k t = Some b" and en: "runs k" "uxSchedulerSuspended k + 1 < u32_bound"
      "t \<noteq> pxCurrentTCB k" "t \<noteq> xIdleTaskHandle k"
      using assms(2) by (auto simp: w)
    have "tasks_own (tcbs k) es"
      using es by (simp add: world_ok_def)
    then have "t \<in> fst ` set es" "pxStack b \<in> fst ` set es"
      using b unfolding tasks_own_def by blast+
    then obtain m n where "(t, m) \<in> set es" "(pxStack b, n) \<in> set es"
      by auto
    from delete_other_ok [OF now [OF en(1,2), unfolded w] b en(3,4) this] running DeleteTask show ?thesis
      by (auto simp: w)
  qed
qed

lemma world_reach_inv: "world_reach w0 w \<Longrightarrow> world_inv w0 \<Longrightarrow> world_inv w"
proof (induction rule: world_reach.induct)
  case (step w a w')
  then show ?case
    using world_step [of w a] by auto
qed

end
