(* ===== verification/SystemProps.thy ===== *)
theory SystemProps
  imports TimerProps TimerBoot TaskWorld
begin

text \<open>
  The properties of the system as a whole: the start with all that the kernel makes for itself, and
  the histories of the kernel and the heap that follow it.
\<close>

section \<open>The start\<close>

text \<open>
  C8. From the state in which the program starts, any sequence of \<open>xTaskCreate\<close> calls and then
  \<open>vTaskStartScheduler\<close>, with the timer service it creates, lead to a consistent running kernel,
  whatever memory there is. A creation that finds too little keeps nothing: afterwards the heap has
  two more live blocks per task that exists, and no others. The start succeeds exactly when the heap
  can supply, one after the other, stack and control block of the idle task, the timer queue and
  stack and control block of the timer task; otherwise it stops at its assertion. It adds just these
  two tasks and five blocks, every task owns a control block and a stack of its own, the task that
  runs first is ready, the timer task has the highest priority and waits on an empty queue, and the
  timer lists are in the state from which the histories of the timer task begin.
\<close>

theorem boot_is_consistent:
  assumes "blank (tkernel w0)" "\<not> xSchedulerRunning (tkernel w0)" "uxSchedulerSuspended (tkernel w0) = 0"
    "xPendedTicks (tkernel w0) = 0" "\<not> xYieldPending (tkernel w0)" "heap_live (theap w0) es" "xTimerQueue w0 = 0"
    "rep {} (tstore w0) (\<lambda>_. [])" "timers w0 = (\<lambda>_. None)" "xLastTime w0 = 0"
    "\<forall>(d, p) \<in> set ts. p < configMAX_PRIORITIES"
  shows "\<exists>w1 es1. create_tasks ts w0 = Some w1 \<and> world_ok boot_ok (tkernel w1, theap w1) es1 \<and>
    length es1 = length es + 2 * card (dom (tcbs (tkernel w1))) \<and>
    (case allocate kernel_memory (theap w1) of
       None \<Rightarrow> start_system junk w1 = None
     | Some h2 \<Rightarrow> \<exists>w2 es2. start_system junk w1 = Some w2 \<and> theap w2 = h2 \<and> started w1 w2 \<and>
         world_ok running_ok (tkernel w2, h2) es2 \<and> length es2 = length es1 + 5 \<and>
         timer_init \<lparr>tm_world = w2, tm_now = 0, tm_sampled = 0, tm_pos = QueryTimers\<rparr>)"
proof -
  have "tasks_own (tcbs (tkernel w0)) es"
    using assms(1) by (simp add: blank_def tasks_own_def)
  then have "world_ok boot_ok (tkernel w0, theap w0) es"
    using assms(1-6) by (simp add: world_ok_def boot_ok_def)
  then obtain x es1 where x: "create_all ts (tkernel w0, theap w0) = Some x" "world_ok boot_ok x es1"
    "length es1 + 2 * card (dom (tcbs (tkernel w0))) = length es + 2 * card (dom (tcbs (fst x)))"
    using booting.create_all_world [OF _ assms(11)] by (metis fst_conv)
  obtain k h where kh: "x = (k, h)"
    by (cases x)
  let ?w = "set_world (k, h) w0"
  have w1: "create_tasks ts w0 = Some ?w" "world_ok boot_ok (tkernel ?w, theap ?w) es1"
    "length es1 = length es + 2 * card (dom (tcbs (tkernel ?w)))" "xTimerQueue ?w = 0"
    using x assms(1,7) by (simp_all add: create_tasks_def kh blank_def)
  have "case allocate kernel_memory (theap ?w) of
       None \<Rightarrow> start_system junk ?w = None
     | Some h2 \<Rightarrow> \<exists>w2 es2. start_system junk ?w = Some w2 \<and> theap w2 = h2 \<and> started ?w w2 \<and>
         world_ok running_ok (tkernel w2, h2) es2 \<and> length es2 = length es1 + 5 \<and>
         timer_init \<lparr>tm_world = w2, tm_now = 0, tm_sampled = 0, tm_pos = QueryTimers\<rparr>"
  proof (cases "allocate kernel_memory (theap ?w)")
    case None
    with start_system_ok [OF w1(2,4), of junk] show ?thesis by simp
  next
    case (Some h2)
    then obtain w2 es2 where w2: "start_system junk ?w = Some w2" "theap w2 = h2" "world_ok running_ok (tkernel w2, h2) es2"
      "length es2 = length es1 + 5" "started ?w w2" "timers w2 = timers ?w" "xLastTime w2 = xLastTime ?w"
      "tstore w2 = empty_timer_lists (tstore ?w)" "pxCurrentTimerList w2 = xActiveTimerList1" "pxOverflowTimerList w2 = xActiveTimerList2"
      using start_system_ok [OF w1(2,4), of junk] by auto
    have "timer_init \<lparr>tm_world = w2, tm_now = 0, tm_sampled = 0, tm_pos = QueryTimers\<rparr>"
      using w2(5-10) assms(8-10) by (intro started_timer_init [of "tstore w0"]) (simp_all add: started_def Let_def)
    with w2 Some show ?thesis by auto
  qed
  with w1 show ?thesis by blast
qed

text \<open>The program as it starts, with its two tasks' worth of sizes and priorities.\<close>

definition zero_world :: tworld where
  "zero_world = demo_timers\<lparr>qstate := \<lparr>kern = zero_kernel, queues = (\<lambda>_. None), xQueueRegistry = replicate configQUEUE_REGISTRY_SIZE (None, 0)\<rparr>,
     theap := boot_heap, tstore := zero_store, timers := (\<lambda>_. None), pxCurrentTimerList := 0, pxOverflowTimerList := 0,
     xTimerQueue := 0, xTimerTaskHandle := 0, expired := []\<rparr>"

lemma zero_world_simps [simp]:
  "tkernel zero_world = zero_kernel" "theap zero_world = boot_heap" "xTimerQueue zero_world = 0" "tstore zero_world = zero_store"
  "timers zero_world = (\<lambda>_. None)" "xLastTime zero_world = 0"
  by (simp_all add: zero_world_def demo_timers_def)

lemma zero_kernel_blank:
  "blank zero_kernel" "\<not> xSchedulerRunning zero_kernel" "uxSchedulerSuspended zero_kernel = 0" "xPendedTicks zero_kernel = 0"
  "\<not> xYieldPending zero_kernel"
  by (simp_all add: zero_kernel_def blank_def empty_lists_def)

text \<open>A request that the first free block can serve.\<close>

lemma malloc_front:
  assumes "heap_ok h ((a, m) # fs) as" "0 < n" "n + 32 \<le> m" "m < 1000000"
  shows "\<exists>h' a' m' as'. pvPortMalloc n h = Some (a + 8, h') \<and> heap_ok h' ((a', m') # fs) as' \<and> m \<le> m' + n + 16 \<and> m' \<le> m"
proof -
  define w where "w = malloc_size n"
  have w: "0 < w" "n + 8 \<le> w" "w \<le> n + 15"
    using assms(2-4) malloc_size_rounds [of n] by (simp_all add: w_def)
  then have *: "first_fit w ((a, m) # fs) = Some ((a, w), (a + w, m - w) # fs)"
    using assms(3) by simp
  obtain h' where "pvPortMalloc n h = Some (a + 8, h')" "heap_ok h' ((a + w, m - w) # fs) ((a, w) # as)"
    using malloc_first_fit [OF assms(1), of n, folded w_def] w(1) assms(3,4) unfolding * by (auto simp: u32_bound_def)
  then show ?thesis
    using w assms(3) by (intro exI [of _ h'] exI [of _ "a + w"] exI [of _ "m - w"] exI [of _ "(a, w) # as"]) simp
qed

lemma allocate_front:
  assumes "heap_ok h ((a, m) # fs) as" "\<forall>n \<in> set ns. 0 < n" "sum_list (map (\<lambda>n. n + 16) ns) + 32 \<le> m" "m < 1000000"
  shows "allocate ns h \<noteq> None"
  using assms
proof (induction ns arbitrary: h a m as)
  case (Cons n ns)
  have n: "0 < n" "n + 32 \<le> m"
    using Cons.prems(2,3) by simp_all
  obtain h' a' m' as' where h': "pvPortMalloc n h = Some (a + 8, h')" "heap_ok h' ((a', m') # fs) as'" "m \<le> m' + n + 16" "m' \<le> m"
    using malloc_front [OF Cons.prems(1) n Cons.prems(4)] by blast
  have "sum_list (map (\<lambda>n. n + 16) ns) + 32 \<le> m'" "m' < 1000000"
    using Cons.prems(3,4) h'(3,4) by simp_all
  from Cons.IH [OF h'(2) _ this] Cons.prems(2) h'(1) show ?case
    by simp
qed simp

lemma kernel_memory_eq: "kernel_memory = [360, 120, 240, 720, 120]" "task_memory 256 = [1024, 120]"
  by (simp_all add: kernel_memory_def task_memory_def timer_memory_def queue_memory_def configMINIMAL_STACK_SIZE_def
      sizeof_TCB_t_def sizeof_StackType_t_def sizeof_Queue_t_def configTIMER_QUEUE_LENGTH_def sizeof_DaemonTaskMessage_t_def
      configTIMER_TASK_STACK_DEPTH_def mul32_def add32_def u32_bound_def)

lemma boot_allocate:
  "allocate (task_memory 256 @ kernel_memory) boot_heap \<noteq> None" "allocate kernel_memory boot_heap \<noteq> None"
proof -
  have "heap_ok boot_heap ((538968064, 131064) # tl boot_free) []"
    using boot_heap_ok(1) by (simp add: boot_free_def)
  from allocate_front [OF this, of "task_memory 256 @ kernel_memory"] allocate_front [OF this, of kernel_memory]
  show "allocate (task_memory 256 @ kernel_memory) boot_heap \<noteq> None" "allocate kernel_memory boot_heap \<noteq> None"
    unfolding kernel_memory_eq by simp_all
qed

lemma boot_world: "world_ok boot_ok (tkernel zero_world, theap zero_world) []"
  using zero_kernel_blank boot_heap_live by (simp add: world_ok_def boot_ok_def tasks_own_def zero_kernel_def)

text \<open>With one task the start succeeds.\<close>

theorem boot_is_consistent_witness:
  "\<exists>w1 w2 es. create_tasks [(256, 2)] zero_world = Some w1 \<and> start_system (\<lambda>_. 0) w1 = Some w2 \<and> started w1 w2 \<and>
    world_ok running_ok (tkernel w2, theap w2) es"
proof -
  have z: "rep {} zero_store (\<lambda>_. [])"
    by (simp add: rep_def zero_store_def)
  have p: "\<forall>(d, p) \<in> set [(256, 2)]. p < configMAX_PRIORITIES"
    by (simp add: configMAX_PRIORITIES_def)
  obtain w1 where w1: "create_tasks [(256, 2)] zero_world = Some w1"
    "allocate kernel_memory (theap w1) \<noteq> None \<Longrightarrow> \<exists>w2 es. start_system (\<lambda>_. 0) w1 = Some w2 \<and> started w1 w2 \<and>
       world_ok running_ok (tkernel w2, theap w2) es"
    using boot_is_consistent [of zero_world "[]" "[(256, 2)]" "\<lambda>_. 0", OF _ _ _ _ _ _ _ _ _ _ p] z zero_kernel_blank boot_heap_live
    by (simp split: option.splits) blast+
  obtain t k h where c: "xTaskCreate 256 2 (zero_kernel, boot_heap) = Some (t, k, h)" "w1 = set_world (k, h) zero_world"
    using w1(1) by (auto simp: create_tasks_def bind_eq_Some_conv)
  obtain h1 where h1: "allocate (task_memory 256) boot_heap = Some h1" "allocate kernel_memory h1 \<noteq> None"
    using boot_allocate(1) by (auto simp: allocate_append bind_eq_Some_conv)
  have "boot_ok zero_kernel"
    using boot_world by (simp add: world_ok_def)
  with boot_create_memory [OF _ c(1)] h1 have "allocate kernel_memory (theap w1) \<noteq> None"
    by (simp add: c(2))
  with w1 show ?thesis
    by blast
qed

section \<open>Histories\<close>

text \<open>
  C1. No history makes the running kernel fail: from any consistent kernel whose tasks own their
  memory, whatever tasks and interrupts call in whatever order, as long as every call is allowed
  (by the running task, on live tasks, blocking only where blocking is allowed), no assertion fails,
  no pointer to no task is followed and no item is put into a second list, and every state reached is
  consistent again, so that the next allowed call succeeds too. The calls are those of \<open>kop\<close>, the
  time-out of a wait for a mutex, waiting on and waking from the unordered lists of the event groups,
  and creating and deleting tasks with memory from the heap. Two things are not allowed: a task does
  not delete itself, and a wait for a mutex does not time out when its holder would thereby leave the
  ready list of its inherited priority empty (\<open>timeout_safe\<close>), where the kernel resets the wrong bit
  and a later call does fail.
\<close>

theorem scheduler_never_fails:
  assumes "world_inv w0" "world_reach w0 w"
  shows "world_inv w \<and> (\<forall>a. world_enabled a w \<longrightarrow> (\<exists>w'. world_exec a w = Some w' \<and> world_inv w'))"
  using world_reach_inv [OF assms(2,1)] world_step by blast

text \<open>After the start, a task is created and a tick comes.\<close>

theorem scheduler_never_fails_witness:
  "\<exists>w0 w1 w2. world_exec (CreateTask 256 3) w0 = Some w1 \<and> world_exec (Call SysTick) w1 = Some w2 \<and> world_inv w2"
proof -
  obtain w es where "world_ok running_ok (tkernel w, theap w) es"
    using start_system_ok [OF boot_world, of "\<lambda>_. 0"] boot_allocate(2) by auto
  then obtain k h where w: "world_ok running_ok (k, h) es"
    by blast
  then have inv: "world_inv (k, h)"
    by (auto simp: world_inv_def world_ok_def running_ok_def)
  have en: "world_enabled (CreateTask 256 3) (k, h)"
    using w by (simp add: world_ok_def running_ok_def configMAX_PRIORITIES_def)
  then obtain w1 where w1: "world_exec (CreateTask 256 3) (k, h) = Some w1"
    using scheduler_never_fails [OF inv world_reach.start] by blast
  have "world_enabled (Call SysTick) w1"
    by (cases w1) simp
  then obtain w2 where "world_exec (Call SysTick) w1 = Some w2" "world_inv w2"
    using scheduler_never_fails [OF inv world_reach.step [OF world_reach.start en w1]] by blast
  with w1 show ?thesis by blast
qed

end
