(* ===== verification/UsbDescriptor.thy ===== *)
theory UsbDescriptor
  imports Prelude
begin

unbundle bit_operations_syntax

text \<open>
  \<open>usb_device_descriptor.c\<close>: the device, configuration and string descriptors of the virtual COM
  port, the endpoint tables of its two interfaces, the getters and \<open>USB_DeviceSetSpeed\<close>, which
  walks the configuration descriptor by its length bytes and patches the endpoint descriptors.
  A read or write outside the descriptor array and a walk that never ends are \<open>None\<close>. The
  properties: the descriptor is well formed, and after every speed change it agrees with the
  endpoint tables the class driver initialises its pipes from.
\<close>

section \<open>Constants and types of the stack\<close>

datatype usb_status_t =
    kStatus_USB_Success | kStatus_USB_Error | kStatus_USB_Busy | kStatus_USB_InvalidHandle
  | kStatus_USB_InvalidParameter | kStatus_USB_InvalidRequest | kStatus_USB_ControllerNotFound
  | kStatus_USB_InvalidControllerInterface | kStatus_USB_NotSupported | kStatus_USB_Retry
  | kStatus_USB_TransferStall | kStatus_USB_TransferFailed | kStatus_USB_AllocFail
  | kStatus_USB_TransferCancel

definition USB_SPEED_FULL :: u8 where "USB_SPEED_FULL = 0"
definition USB_SPEED_HIGH :: u8 where "USB_SPEED_HIGH = 2"

definition USB_ENDPOINT_BULK :: u8 where "USB_ENDPOINT_BULK = 2"
definition USB_ENDPOINT_INTERRUPT :: u8 where "USB_ENDPOINT_INTERRUPT = 3"

definition USB_CDC_VCOM_INTERRUPT_IN_ENDPOINT :: u8 where "USB_CDC_VCOM_INTERRUPT_IN_ENDPOINT = 1"
definition USB_CDC_VCOM_BULK_IN_ENDPOINT :: u8 where "USB_CDC_VCOM_BULK_IN_ENDPOINT = 2"
definition USB_CDC_VCOM_BULK_OUT_ENDPOINT :: u8 where "USB_CDC_VCOM_BULK_OUT_ENDPOINT = 3"

text \<open>Packet sizes and intervals, full speed and high speed.\<close>

definition FS_CDC_VCOM_BULK_IN_PACKET_SIZE :: u16 where "FS_CDC_VCOM_BULK_IN_PACKET_SIZE = 64"
definition HS_CDC_VCOM_BULK_IN_PACKET_SIZE :: u16 where "HS_CDC_VCOM_BULK_IN_PACKET_SIZE = 512"
definition FS_CDC_VCOM_BULK_OUT_PACKET_SIZE :: u16 where "FS_CDC_VCOM_BULK_OUT_PACKET_SIZE = 64"
definition HS_CDC_VCOM_BULK_OUT_PACKET_SIZE :: u16 where "HS_CDC_VCOM_BULK_OUT_PACKET_SIZE = 512"
definition FS_CDC_VCOM_INTERRUPT_IN_PACKET_SIZE :: u16 where "FS_CDC_VCOM_INTERRUPT_IN_PACKET_SIZE = 16"
definition HS_CDC_VCOM_INTERRUPT_IN_PACKET_SIZE :: u16 where "HS_CDC_VCOM_INTERRUPT_IN_PACKET_SIZE = 16"
definition FS_CDC_VCOM_INTERRUPT_IN_INTERVAL :: u8 where "FS_CDC_VCOM_INTERRUPT_IN_INTERVAL = 8"
definition HS_CDC_VCOM_INTERRUPT_IN_INTERVAL :: u8 where "HS_CDC_VCOM_INTERRUPT_IN_INTERVAL = 7"

lemmas usb_consts =
  USB_SPEED_FULL_def USB_SPEED_HIGH_def USB_ENDPOINT_BULK_def USB_ENDPOINT_INTERRUPT_def
  USB_CDC_VCOM_INTERRUPT_IN_ENDPOINT_def USB_CDC_VCOM_BULK_IN_ENDPOINT_def USB_CDC_VCOM_BULK_OUT_ENDPOINT_def
  FS_CDC_VCOM_BULK_IN_PACKET_SIZE_def HS_CDC_VCOM_BULK_IN_PACKET_SIZE_def
  FS_CDC_VCOM_BULK_OUT_PACKET_SIZE_def HS_CDC_VCOM_BULK_OUT_PACKET_SIZE_def
  FS_CDC_VCOM_INTERRUPT_IN_PACKET_SIZE_def HS_CDC_VCOM_INTERRUPT_IN_PACKET_SIZE_def
  FS_CDC_VCOM_INTERRUPT_IN_INTERVAL_def HS_CDC_VCOM_INTERRUPT_IN_INTERVAL_def

definition USB_SHORT_GET_LOW :: "u16 \<Rightarrow> u8" where
  "USB_SHORT_GET_LOW x = ucast (x AND 0xFF)"

definition USB_SHORT_GET_HIGH :: "u16 \<Rightarrow> u8" where
  "USB_SHORT_GET_HIGH x = ucast (drop_bit 8 x AND 0xFF)"

section \<open>Endpoint tables and interfaces\<close>

record usb_device_endpoint_struct_t =
  endpointAddress :: u8
  transferType :: u8
  maxPacketSize :: u16
  interval :: u8

text \<open>
  An interface setting points to one of the two endpoint tables; the tables themselves are
  mutable, so the reference is a name.
\<close>

datatype ep_table = Cic | Dic

record usb_device_interface_struct_t =
  alternateSetting :: u8
  endpointList :: ep_table

record usb_device_interfaces_struct_t =
  classCode :: u8
  subclassCode :: u8
  protocolCode :: u8
  ifaceNumber :: u8
  settings :: "usb_device_interface_struct_t list"

record descriptors =
  g_UsbDeviceCdcVcomCicEndpoints :: "usb_device_endpoint_struct_t list"
  g_UsbDeviceCdcVcomDicEndpoints :: "usb_device_endpoint_struct_t list"
  g_UsbDeviceConfigurationDescriptor :: "u8 list"

definition cic_endpoints_init :: "usb_device_endpoint_struct_t list" where
  "cic_endpoints_init =
     [\<lparr>endpointAddress = USB_CDC_VCOM_INTERRUPT_IN_ENDPOINT OR push_bit 7 1,
       transferType = USB_ENDPOINT_INTERRUPT,
       maxPacketSize = FS_CDC_VCOM_INTERRUPT_IN_PACKET_SIZE, interval = FS_CDC_VCOM_INTERRUPT_IN_INTERVAL\<rparr>]"

definition dic_endpoints_init :: "usb_device_endpoint_struct_t list" where
  "dic_endpoints_init =
     [\<lparr>endpointAddress = USB_CDC_VCOM_BULK_IN_ENDPOINT OR push_bit 7 1,
       transferType = USB_ENDPOINT_BULK, maxPacketSize = FS_CDC_VCOM_BULK_IN_PACKET_SIZE, interval = 0\<rparr>,
      \<lparr>endpointAddress = USB_CDC_VCOM_BULK_OUT_ENDPOINT OR push_bit 7 0,
       transferType = USB_ENDPOINT_BULK, maxPacketSize = FS_CDC_VCOM_BULK_OUT_PACKET_SIZE, interval = 0\<rparr>]"

definition g_UsbDeviceCdcVcomInterfaces :: "usb_device_interfaces_struct_t list" where
  "g_UsbDeviceCdcVcomInterfaces =
     [\<lparr>classCode = 2, subclassCode = 2, protocolCode = 0, ifaceNumber = 0,
       settings = [\<lparr>alternateSetting = 0, endpointList = Cic\<rparr>]\<rparr>,
      \<lparr>classCode = 0x0A, subclassCode = 0, protocolCode = 0, ifaceNumber = 1,
       settings = [\<lparr>alternateSetting = 0, endpointList = Dic\<rparr>]\<rparr>]"

section \<open>Descriptors\<close>

definition g_UsbDeviceDescriptor :: "u8 list" where
  "g_UsbDeviceDescriptor =
     [0x12, 0x01, USB_SHORT_GET_LOW 0x0200, USB_SHORT_GET_HIGH 0x0200, 0x02, 0x00, 0x00, 64,
      USB_SHORT_GET_LOW 0x1FC9, USB_SHORT_GET_HIGH 0x1FC9, USB_SHORT_GET_LOW 0x0094, USB_SHORT_GET_HIGH 0x0094,
      USB_SHORT_GET_LOW 0x0101, USB_SHORT_GET_HIGH 0x0101, 0x01, 0x02, 0x00, 1]"

definition configuration_descriptor_init :: "u8 list" where
  "configuration_descriptor_init =
     [0x09, 0x02, USB_SHORT_GET_LOW (9 + 9 + 5 + 5 + 4 + 5 + 7 + 9 + 7 + 7),
      USB_SHORT_GET_HIGH (9 + 9 + 5 + 5 + 4 + 5 + 7 + 9 + 7 + 7), 2, 1, 0, 0x80 OR push_bit 6 1 OR 0, 0x32,
      0x09, 0x04, 0, 0, 1, 0x02, 0x02, 0x00, 0x00,
      5, 0x24, 0x00, 0x10, 0x01,
      5, 0x24, 0x01, 0x01, 0x01,
      4, 0x24, 0x02, 0x06,
      5, 0x24, 0x06, 0x00, 0x01,
      0x07, 0x05, USB_CDC_VCOM_INTERRUPT_IN_ENDPOINT OR push_bit 7 1, USB_ENDPOINT_INTERRUPT,
      USB_SHORT_GET_LOW FS_CDC_VCOM_INTERRUPT_IN_PACKET_SIZE, USB_SHORT_GET_HIGH FS_CDC_VCOM_INTERRUPT_IN_PACKET_SIZE,
      FS_CDC_VCOM_INTERRUPT_IN_INTERVAL,
      0x09, 0x04, 1, 0, 2, 0x0A, 0x00, 0x00, 0x00,
      0x07, 0x05, USB_CDC_VCOM_BULK_IN_ENDPOINT OR push_bit 7 1, USB_ENDPOINT_BULK,
      USB_SHORT_GET_LOW FS_CDC_VCOM_BULK_IN_PACKET_SIZE, USB_SHORT_GET_HIGH FS_CDC_VCOM_BULK_IN_PACKET_SIZE, 0x00,
      0x07, 0x05, USB_CDC_VCOM_BULK_OUT_ENDPOINT OR push_bit 7 0, USB_ENDPOINT_BULK,
      USB_SHORT_GET_LOW FS_CDC_VCOM_BULK_OUT_PACKET_SIZE, USB_SHORT_GET_HIGH FS_CDC_VCOM_BULK_OUT_PACKET_SIZE, 0x00]"

definition descriptors_init :: descriptors where
  "descriptors_init = \<lparr>g_UsbDeviceCdcVcomCicEndpoints = cic_endpoints_init,
     g_UsbDeviceCdcVcomDicEndpoints = dic_endpoints_init,
     g_UsbDeviceConfigurationDescriptor = configuration_descriptor_init\<rparr>"

text \<open>A string descriptor's characters, each followed by a zero byte (UTF-16LE).\<close>

definition utf16 :: "string \<Rightarrow> u8 list" where
  "utf16 s = concat (map (\<lambda>c. [of_char c, 0]) s)"

definition g_UsbDeviceString0 :: "u8 list" where
  "g_UsbDeviceString0 = [2 + 2, 0x03, 0x09, 0x04]"

definition g_UsbDeviceString1 :: "u8 list" where
  "g_UsbDeviceString1 = [2 + 2 * 18, 0x03] @ utf16 ''NXP SEMICONDUCTORS''"

definition g_UsbDeviceString2 :: "u8 list" where
  "g_UsbDeviceString2 = [2 + 2 * 20, 0x03] @ utf16 ''MCU VIRTUAL COM DEMO''"

definition g_UsbDeviceStringDescriptorArray :: "u8 list list" where
  "g_UsbDeviceStringDescriptorArray = [g_UsbDeviceString0, g_UsbDeviceString1, g_UsbDeviceString2]"

text \<open>The language list: identifiers with their strings; one language, US English.\<close>

definition g_UsbDeviceLanguage :: "(u16 \<times> u8 list list) list" where
  "g_UsbDeviceLanguage = [(0x0409, g_UsbDeviceStringDescriptorArray)]"

definition USB_DEVICE_STRING_COUNT :: nat where "USB_DEVICE_STRING_COUNT = 3"

section \<open>Getters\<close>

text \<open>A getter answers the status and, on success, the bytes the buffer points to and the length.\<close>

definition USB_DeviceGetDeviceDescriptor :: "usb_status_t \<times> (u8 list \<times> nat) option" where
  "USB_DeviceGetDeviceDescriptor = (kStatus_USB_Success, Some (g_UsbDeviceDescriptor, 0x12))"

definition USB_DeviceGetConfigurationDescriptor :: "descriptors \<Rightarrow> u8 \<Rightarrow> usb_status_t \<times> (u8 list \<times> nat) option" where
  "USB_DeviceGetConfigurationDescriptor d configuration =
     (if 1 > configuration
      then (kStatus_USB_Success,
            Some (g_UsbDeviceConfigurationDescriptor d, length (g_UsbDeviceConfigurationDescriptor d)))
      else (kStatus_USB_InvalidRequest, None))"

text \<open>The loop over the languages: the strings of the language asked for, if the index is one.\<close>

fun find_string :: "u16 \<Rightarrow> nat \<Rightarrow> (u16 \<times> u8 list list) list \<Rightarrow> u8 list option" where
  "find_string languageId stringIndex [] = None"
| "find_string languageId stringIndex ((l, strings) # langs) =
     (if languageId = l
      then (if stringIndex < USB_DEVICE_STRING_COUNT then Some (strings ! stringIndex) else None)
      else find_string languageId stringIndex langs)"

definition USB_DeviceGetStringDescriptor :: "u16 \<Rightarrow> u8 \<Rightarrow> usb_status_t \<times> (u8 list \<times> nat) option" where
  "USB_DeviceGetStringDescriptor languageId stringIndex =
     (if stringIndex = 0 then (kStatus_USB_Success, Some (g_UsbDeviceString0, length g_UsbDeviceString0))
      else case find_string languageId (unat stringIndex) g_UsbDeviceLanguage of
        None \<Rightarrow> (kStatus_USB_InvalidRequest, None)
      | Some s \<Rightarrow> (kStatus_USB_Success, Some (s, length s)))"

section \<open>Speed\<close>

text \<open>
  Patching the endpoint descriptor at index \<open>i\<close>: offset 2 is the endpoint address, 4 and 5 the
  maximum packet size, 6 the interval.
\<close>

definition put_packet_size :: "u16 \<Rightarrow> nat \<Rightarrow> u8 list \<Rightarrow> u8 list" where
  "put_packet_size n i d = d[i + 5 := USB_SHORT_GET_HIGH n, i + 4 := USB_SHORT_GET_LOW n]"

definition is_in_endpoint :: "u8 \<Rightarrow> u8 \<Rightarrow> bool" where
  "is_in_endpoint addr n \<longleftrightarrow> addr AND 0x80 = 0x80 \<and> n = addr AND 0x0F"

definition is_out_endpoint :: "u8 \<Rightarrow> u8 \<Rightarrow> bool" where
  "is_out_endpoint addr n \<longleftrightarrow> addr AND 0x80 = 0 \<and> n = addr AND 0x0F"

definition patch_endpoint :: "u8 \<Rightarrow> nat \<Rightarrow> u8 list \<Rightarrow> u8 list" where
  "patch_endpoint speed i d =
     (let addr = d ! (i + 2) in
      if USB_SPEED_HIGH = speed then
        (let d = (if is_in_endpoint addr USB_CDC_VCOM_INTERRUPT_IN_ENDPOINT
                  then put_packet_size HS_CDC_VCOM_INTERRUPT_IN_PACKET_SIZE i (d[i + 6 := HS_CDC_VCOM_INTERRUPT_IN_INTERVAL])
                  else d)
         in if is_in_endpoint addr USB_CDC_VCOM_BULK_IN_ENDPOINT then put_packet_size HS_CDC_VCOM_BULK_IN_PACKET_SIZE i d
            else if is_out_endpoint addr USB_CDC_VCOM_BULK_OUT_ENDPOINT then put_packet_size HS_CDC_VCOM_BULK_OUT_PACKET_SIZE i d
            else d)
      else
        (let d = (if is_in_endpoint addr USB_CDC_VCOM_INTERRUPT_IN_ENDPOINT
                  then put_packet_size FS_CDC_VCOM_INTERRUPT_IN_PACKET_SIZE i (d[i + 6 := FS_CDC_VCOM_INTERRUPT_IN_INTERVAL])
                  else d)
         in if is_in_endpoint addr USB_CDC_VCOM_BULK_IN_ENDPOINT then put_packet_size FS_CDC_VCOM_BULK_IN_PACKET_SIZE i d
            else if is_out_endpoint addr USB_CDC_VCOM_BULK_OUT_ENDPOINT then put_packet_size FS_CDC_VCOM_BULK_OUT_PACKET_SIZE i d
            else d))"

partial_function (option) set_speed_walk :: "u8 \<Rightarrow> nat \<Rightarrow> u8 list \<Rightarrow> u8 list option" where
  "set_speed_walk speed i d =
     (if i < length d - 1 then
        (if d ! (i + 1) = 0x05 \<and> \<not> i + 7 \<le> length d then None
         else
           let d = (if d ! (i + 1) = 0x05 then patch_endpoint speed i d else d)
           in set_speed_walk speed (i + unat (d ! i)) d)
      else Some d)"

definition cic_speed :: "u8 \<Rightarrow> usb_device_endpoint_struct_t \<Rightarrow> usb_device_endpoint_struct_t" where
  "cic_speed speed ep =
     (if USB_SPEED_HIGH = speed
      then ep\<lparr>maxPacketSize := HS_CDC_VCOM_INTERRUPT_IN_PACKET_SIZE, interval := HS_CDC_VCOM_INTERRUPT_IN_INTERVAL\<rparr>
      else ep\<lparr>maxPacketSize := FS_CDC_VCOM_INTERRUPT_IN_PACKET_SIZE, interval := FS_CDC_VCOM_INTERRUPT_IN_INTERVAL\<rparr>)"

definition dic_speed :: "u8 \<Rightarrow> usb_device_endpoint_struct_t \<Rightarrow> usb_device_endpoint_struct_t" where
  "dic_speed speed ep =
     (if USB_SPEED_HIGH = speed
      then (if endpointAddress ep AND 0x80 \<noteq> 0
            then ep\<lparr>maxPacketSize := HS_CDC_VCOM_BULK_IN_PACKET_SIZE\<rparr>
            else ep\<lparr>maxPacketSize := HS_CDC_VCOM_BULK_OUT_PACKET_SIZE\<rparr>)
      else (if endpointAddress ep AND 0x80 \<noteq> 0
            then ep\<lparr>maxPacketSize := FS_CDC_VCOM_BULK_IN_PACKET_SIZE\<rparr>
            else ep\<lparr>maxPacketSize := FS_CDC_VCOM_BULK_OUT_PACKET_SIZE\<rparr>))"

definition USB_DeviceSetSpeed :: "u8 \<Rightarrow> descriptors \<Rightarrow> (usb_status_t \<times> descriptors) option" where
  "USB_DeviceSetSpeed speed d =
     (case set_speed_walk speed 0 (g_UsbDeviceConfigurationDescriptor d) of
        None \<Rightarrow> None
      | Some conf \<Rightarrow> Some (kStatus_USB_Success,
          d\<lparr>g_UsbDeviceConfigurationDescriptor := conf,
            g_UsbDeviceCdcVcomCicEndpoints := map (cic_speed speed) (g_UsbDeviceCdcVcomCicEndpoints d),
            g_UsbDeviceCdcVcomDicEndpoints := map (dic_speed speed) (g_UsbDeviceCdcVcomDicEndpoints d)\<rparr>))"

section \<open>The bytes of the configuration descriptor\<close>

text \<open>The array as bytes, for a full-speed (\<open>False\<close>) and a high-speed (\<open>True\<close>) bus.\<close>

definition conf_bytes :: "bool \<Rightarrow> u8 list" where
  "conf_bytes hs =
     [9, 2, 67, 0, 2, 1, 0, 0xC0, 50,
      9, 4, 0, 0, 1, 2, 2, 0, 0,
      5, 0x24, 0, 0x10, 1,  5, 0x24, 1, 1, 1,  4, 0x24, 2, 6,  5, 0x24, 6, 0, 1,
      7, 5, 0x81, 3, 16, 0, (if hs then 7 else 8),
      9, 4, 1, 0, 2, 10, 0, 0, 0,
      7, 5, 0x82, 2, (if hs then 0 else 64), (if hs then 2 else 0), 0,
      7, 5, 3, 2, (if hs then 0 else 64), (if hs then 2 else 0), 0]"

lemma configuration_descriptor_bytes: "configuration_descriptor_init = conf_bytes False"
  by code_simp

lemmas speed_simps = patch_endpoint_def is_in_endpoint_def is_out_endpoint_def put_packet_size_def
  usb_consts USB_SHORT_GET_LOW_def USB_SHORT_GET_HIGH_def Let_def

lemma set_speed_walk_high: "set_speed_walk 2 0 (conf_bytes b) = Some (conf_bytes True)"
  by (cases b) (simp_all add: set_speed_walk.simps conf_bytes_def speed_simps)

lemma set_speed_walk_full: "s \<noteq> 2 \<Longrightarrow> set_speed_walk s 0 (conf_bytes b) = Some (conf_bytes False)"
  by (cases b) (simp_all add: set_speed_walk.simps conf_bytes_def speed_simps)

lemma set_speed_walk_conf: "set_speed_walk s 0 (conf_bytes b) = Some (conf_bytes (s = 2))"
  using set_speed_walk_high set_speed_walk_full by (cases "s = 2") auto

definition endpoints_for :: "bool \<Rightarrow> usb_device_endpoint_struct_t list \<times> usb_device_endpoint_struct_t list" where
  "endpoints_for hs =
     ([\<lparr>endpointAddress = 0x81, transferType = 3, maxPacketSize = 16, interval = (if hs then 7 else 8)\<rparr>],
      [\<lparr>endpointAddress = 0x82, transferType = 2, maxPacketSize = (if hs then 512 else 64), interval = 0\<rparr>,
       \<lparr>endpointAddress = 3, transferType = 2, maxPacketSize = (if hs then 512 else 64), interval = 0\<rparr>])"

definition descriptors_for :: "bool \<Rightarrow> descriptors" where
  "descriptors_for hs = \<lparr>g_UsbDeviceCdcVcomCicEndpoints = fst (endpoints_for hs),
     g_UsbDeviceCdcVcomDicEndpoints = snd (endpoints_for hs),
     g_UsbDeviceConfigurationDescriptor = conf_bytes hs\<rparr>"

lemma descriptors_init_full: "descriptors_init = descriptors_for False"
  by (simp add: descriptors_init_def descriptors_for_def endpoints_for_def configuration_descriptor_bytes
      cic_endpoints_init_def dic_endpoints_init_def usb_consts)

lemma set_speed_descriptors:
  "USB_DeviceSetSpeed s (descriptors_for b) = Some (kStatus_USB_Success, descriptors_for (s = 2))"
  by (cases b; cases "s = 2")
     (simp_all add: USB_DeviceSetSpeed_def descriptors_for_def set_speed_walk_conf endpoints_for_def
       cic_speed_def dic_speed_def usb_consts)

section \<open>Reading a descriptor back\<close>

text \<open>
  A host reads a configuration as a sequence of blocks, each starting with its length and its
  type; \<open>None\<close> for a block that is shorter than two bytes or does not fit.
\<close>

function blocks :: "u8 list \<Rightarrow> u8 list list option" where
  "blocks d =
     (if d = [] then Some []
      else let n = unat (hd d) in
        if n < 2 \<or> length d < n then None
        else map_option (Cons (take n d)) (blocks (drop n d)))"
  by pat_completeness auto
termination by (relation "measure length") (auto simp: Let_def)

declare blocks.simps [simp del]

definition block_type :: "u8 list \<Rightarrow> u8" where
  "block_type b = b ! 1"

definition endpoint_of :: "u8 list \<Rightarrow> usb_device_endpoint_struct_t" where
  "endpoint_of b = \<lparr>endpointAddress = b ! 2, transferType = b ! 3,
     maxPacketSize = ucast (b ! 4) OR push_bit 8 (ucast (b ! 5)), interval = b ! 6\<rparr>"

definition total_length :: "u8 list \<Rightarrow> u16" where
  "total_length d = ucast (d ! 2) OR push_bit 8 (ucast (d ! 3))"

lemma blocks_concat: "blocks d = Some bs \<Longrightarrow> concat bs = d"
proof (induction d arbitrary: bs rule: blocks.induct)
  case (1 d)
  show ?case
  proof (cases "d = []")
    case True
    with 1(2) show ?thesis by (simp add: blocks.simps)
  next
    case False
    define n where "n = unat (hd d)"
    have n: "\<not> (n < 2 \<or> length d < n)"
      using 1(2) False by (subst (asm) blocks.simps) (simp add: n_def [symmetric] split: if_splits)
    then obtain cs where "blocks (drop n d) = Some cs" "bs = take n d # cs"
      using 1(2) False by (subst (asm) blocks.simps) (auto simp: n_def [symmetric])
    with 1(1) [OF False n_def n] show ?thesis by simp
  qed
qed

lemma blocks_conf:
  "\<exists>bs. blocks (conf_bytes hs) = Some bs \<and> map block_type bs = [2, 4, 0x24, 0x24, 0x24, 0x24, 5, 4, 5, 5] \<and>
     map endpoint_of (filter (\<lambda>b. block_type b = 5) bs) = fst (endpoints_for hs) @ snd (endpoints_for hs) \<and>
     (\<forall>b \<in> set bs. block_type b = 5 \<longrightarrow> length b = 7)"
  by (cases hs) (simp_all add: blocks.simps conf_bytes_def block_type_def endpoint_of_def endpoints_for_def Let_def)

text \<open>The states reachable by any sequence of speed changes.\<close>

fun set_speeds :: "u8 list \<Rightarrow> descriptors \<Rightarrow> descriptors option" where
  "set_speeds [] d = Some d"
| "set_speeds (s # ss) d =
     (case USB_DeviceSetSpeed s d of None \<Rightarrow> None | Some (_, d) \<Rightarrow> set_speeds ss d)"

lemma set_speeds_for: "set_speeds ss (descriptors_for b) = Some (descriptors_for (if ss = [] then b else last ss = 2))"
  by (induction ss arbitrary: b) (auto simp: set_speed_descriptors)

section \<open>Properties\<close>

text \<open>
  The configuration descriptor is well formed at every speed: read by its length bytes it
  splits into exactly the configuration, the two interfaces, the four class-specific blocks and
  three endpoint blocks, with nothing left over, and \<open>wTotalLength\<close> is its size, 67 bytes.
\<close>

theorem configuration_descriptor_well_formed:
  "\<exists>d bs. set_speeds ss descriptors_init = Some d \<and>
     blocks (g_UsbDeviceConfigurationDescriptor d) = Some bs \<and> concat bs = g_UsbDeviceConfigurationDescriptor d \<and>
     map block_type bs = [2, 4, 0x24, 0x24, 0x24, 0x24, 5, 4, 5, 5] \<and>
     unat (total_length (g_UsbDeviceConfigurationDescriptor d)) = length (g_UsbDeviceConfigurationDescriptor d)"
proof -
  obtain hs where d: "set_speeds ss descriptors_init = Some (descriptors_for hs)"
    by (simp add: descriptors_init_full set_speeds_for)
  obtain bs where bs: "blocks (conf_bytes hs) = Some bs" "map block_type bs = [2, 4, 0x24, 0x24, 0x24, 0x24, 5, 4, 5, 5]"
    using blocks_conf [of hs] by (elim exE conjE) (rule that)
  have "unat (total_length (conf_bytes hs)) = length (conf_bytes hs)"
    by (simp add: total_length_def conf_bytes_def)
  with d bs blocks_concat [OF bs(1)] show ?thesis
    by (simp add: descriptors_for_def)
qed

text \<open>
  Speed changes keep the two copies of the endpoint data in step: after any sequence of
  \<open>USB_DeviceSetSpeed\<close> calls, each of which terminates, stays inside the array and succeeds, the
  endpoint blocks that the host reads are exactly the communication endpoints followed by the
  data endpoints that the class driver initialises its pipes from, with the packet sizes of the
  last speed.
\<close>

theorem speed_keeps_endpoints_in_step:
  "\<exists>d bs. set_speeds ss descriptors_init = Some d \<and>
     blocks (g_UsbDeviceConfigurationDescriptor d) = Some bs \<and>
     map endpoint_of (filter (\<lambda>b. block_type b = 5) bs) =
       g_UsbDeviceCdcVcomCicEndpoints d @ g_UsbDeviceCdcVcomDicEndpoints d \<and>
     map maxPacketSize (g_UsbDeviceCdcVcomDicEndpoints d) =
       (if ss \<noteq> [] \<and> last ss = USB_SPEED_HIGH then [512, 512] else [64, 64])"
proof -
  define hs where "hs = (if ss = [] then False else last ss = 2)"
  have d: "set_speeds ss descriptors_init = Some (descriptors_for hs)"
    by (simp add: descriptors_init_full set_speeds_for hs_def)
  obtain bs where "blocks (conf_bytes hs) = Some bs"
     "map endpoint_of (filter (\<lambda>b. block_type b = 5) bs) = fst (endpoints_for hs) @ snd (endpoints_for hs)"
    using blocks_conf [of hs] by (elim exE conjE) (rule that)
  with d show ?thesis
    by (auto simp: descriptors_for_def endpoints_for_def hs_def USB_SPEED_HIGH_def)
qed

text \<open>
  Every string request is answered or refused correctly: index 0 and, for the one language
  0x0409, indices 1 and 2 succeed with a descriptor whose first byte is its length, whose second
  byte is the string type and whose reported length is the number of bytes there; any other index
  or language is refused.
\<close>

theorem string_requests_are_answered_or_refused:
  "(case USB_DeviceGetStringDescriptor languageId stringIndex of
      (status, Some (s, n)) \<Rightarrow> status = kStatus_USB_Success \<and> n = length s \<and> unat (s ! 0) = n \<and> s ! 1 = 3 \<and>
        (stringIndex = 0 \<or> languageId = 0x0409 \<and> stringIndex < 3)
    | (status, None) \<Rightarrow> status = kStatus_USB_InvalidRequest \<and>
        \<not> (stringIndex = 0 \<or> languageId = 0x0409 \<and> stringIndex < 3))"
proof -
  have len: "length g_UsbDeviceString0 = 4" "length g_UsbDeviceString1 = 38" "length g_UsbDeviceString2 = 42"
    "unat (g_UsbDeviceString0 ! 0) = 4" "unat (g_UsbDeviceString1 ! 0) = 38" "unat (g_UsbDeviceString2 ! 0) = 42"
    "g_UsbDeviceString0 ! 1 = 3" "g_UsbDeviceString1 ! 1 = 3" "g_UsbDeviceString2 ! 1 = 3"
    by (simp_all add: g_UsbDeviceString0_def g_UsbDeviceString1_def g_UsbDeviceString2_def utf16_def)
  have "stringIndex = 1 \<or> stringIndex = 2" if "stringIndex < 3" "stringIndex \<noteq> 0"
  proof -
    have "unat stringIndex < 3" "unat stringIndex \<noteq> 0"
      using that by (simp_all add: word_less_nat_alt unat_eq_0)
    then have "unat stringIndex = unat (1 :: u8) \<or> unat stringIndex = unat (2 :: u8)"
      by auto
    then show ?thesis by (simp only: word_unat_eq_iff)
  qed
  moreover have "unat stringIndex < USB_DEVICE_STRING_COUNT \<longleftrightarrow> stringIndex < 3"
    by (simp add: USB_DEVICE_STRING_COUNT_def word_less_nat_alt)
  ultimately show ?thesis
    using len
    by (auto simp: USB_DeviceGetStringDescriptor_def g_UsbDeviceLanguage_def g_UsbDeviceStringDescriptorArray_def)
qed

end
