(* ===== verification/UsbCdcAcm.thy ===== *)
theory UsbCdcAcm
  imports UsbDescriptor
begin

unbundle bit_operations_syntax

text \<open>
  The CDC ACM class driver, \<open>usb_device_cdc_acm.c\<close>: the one driver instance with its three
  pipes, endpoint initialisation and release, class events, halting and resuming endpoints,
  class request dispatch, sending and receiving. The device layer below it (\<open>usb_device_dci.c\<close>,
  theory \<open>UsbDci\<close>) is a record of functions, its own state the field \<open>dev\<close>, and the application's
  class callback is an argument, as it is a function pointer in the code. Mutexes are created and destroyed with their results ignored
  and have no counterpart.
\<close>

section \<open>State\<close>

text \<open>A setup packet.\<close>

record usb_setup_struct_t =
  bmRequestType :: u8
  bRequest :: u8
  wValue :: u16
  wIndex :: u16
  wLength :: u16

text \<open>
  The buffers a transfer can point to. Two of them carry what they point at: the descriptor arrays
  of the application and the setup packet the controller received.
\<close>

datatype ubuf =
    NullBuf | InvalidTransferBuffer | CurrRecvBuf | SerialStateBuf
  | LineCodingBuf | AbstractStateBuf | CountryCodeBuf | ClientBuf nat
  | StandardBuf | DescriptorBuf "u8 list" | SetupBuf usb_setup_struct_t

record usb_device_cdc_acm_pipe_t =
  pipeDataBuffer :: ubuf
  pipeDataLen :: nat
  pipeStall :: u8
  pipe_ep :: u8
  isBusy :: u8

record usb_device_cdc_acm_struct_t =
  acm_handle :: nat
  configStruct :: bool
  commInterfaceHandle :: "usb_device_interface_struct_t option"
  dataInterfaceHandle :: "usb_device_interface_struct_t option"
  bulkIn :: usb_device_cdc_acm_pipe_t
  bulkOut :: usb_device_cdc_acm_pipe_t
  interruptIn :: usb_device_cdc_acm_pipe_t
  acm_configuration :: u8
  interfaceNumber :: u8
  alternate :: u8
  hasSentState :: u8

text \<open>A class handle is null or points to the one element of \<open>g_cdcAcmHandle\<close>.\<close>

datatype class_handle_t = NullHandle | AcmHandle

datatype ep_callback = NoCallback | ControlCallback | AcmInterruptIn | AcmBulkIn | AcmBulkOut

record 'd cdc_state =
  g_cdcAcmHandle :: usb_device_cdc_acm_struct_t
  descs :: descriptors
  dev :: 'd

text \<open>
  The device layer as the class driver calls it. The functions work on the whole state, because
  opening, closing, halting and resuming an endpoint may cancel a transfer, and the completion
  function of the cancelled transfer runs before the call returns.
\<close>

record 's usb_transfers =
  SendRequest :: "nat \<Rightarrow> u8 \<Rightarrow> ubuf \<Rightarrow> nat \<Rightarrow> 's \<Rightarrow> usb_status_t \<times> 's"
  RecvRequest :: "nat \<Rightarrow> u8 \<Rightarrow> ubuf \<Rightarrow> nat \<Rightarrow> 's \<Rightarrow> usb_status_t \<times> 's"

record 's usb_controller = "'s usb_transfers" +
  InitEndpoint :: "nat \<Rightarrow> u8 \<Rightarrow> usb_device_endpoint_struct_t \<Rightarrow> ep_callback \<Rightarrow> 's \<Rightarrow> usb_status_t \<times> 's"
  DeinitEndpoint :: "nat \<Rightarrow> u8 \<Rightarrow> 's \<Rightarrow> usb_status_t \<times> 's"
  StallEndpoint :: "nat \<Rightarrow> u8 \<Rightarrow> 's \<Rightarrow> usb_status_t \<times> 's"
  UnstallEndpoint :: "nat \<Rightarrow> u8 \<Rightarrow> 's \<Rightarrow> usb_status_t \<times> 's"

text \<open>Class events delivered to the application, with the parameter block each points to.\<close>

datatype usb_device_cdc_acm_event_t =
    kUSB_DeviceCdcEventSendResponse | kUSB_DeviceCdcEventRecvResponse | kUSB_DeviceCdcEventSerialStateNotif
  | kUSB_DeviceCdcEventSendEncapsulatedCommand | kUSB_DeviceCdcEventGetEncapsulatedResponse
  | kUSB_DeviceCdcEventSetCommFeature | kUSB_DeviceCdcEventGetCommFeature | kUSB_DeviceCdcEventClearCommFeature
  | kUSB_DeviceCdcEventGetLineCoding | kUSB_DeviceCdcEventSetLineCoding
  | kUSB_DeviceCdcEventSetControlLineState | kUSB_DeviceCdcEventSendBreak

record ep_message =
  msg_buffer :: ubuf
  msg_length :: nat
  msg_isSetup :: u8

record acm_request_param =
  rp_buffer :: ubuf
  rp_length :: nat
  interfaceIndex :: u16
  setupValue :: u16
  rp_isSetup :: u8

datatype cdc_param = Msg ep_message | Req acm_request_param

record control_request = usb_setup_struct_t +
  cr_buffer :: ubuf
  cr_length :: nat
  cr_isSetup :: u8

datatype usb_device_class_event_t =
    ClassRequest control_request | DeviceReset | SetConfiguration u8 | SetInterface u16
  | SetEndpointHalt u8 | ClearEndpointHalt u8

type_synonym 's class_callback =
  "class_handle_t \<Rightarrow> usb_device_cdc_acm_event_t \<Rightarrow> cdc_param \<Rightarrow> 's \<Rightarrow> usb_status_t \<times> cdc_param \<times> 's"

text \<open>State access.\<close>

definition upd_acm :: "(usb_device_cdc_acm_struct_t \<Rightarrow> usb_device_cdc_acm_struct_t) \<Rightarrow>
    ('d, 'z) cdc_state_scheme \<Rightarrow> ('d, 'z) cdc_state_scheme" where
  "upd_acm f s = s\<lparr>g_cdcAcmHandle := f (g_cdcAcmHandle s)\<rparr>"

definition endpoints_in :: "usb_device_interface_struct_t \<Rightarrow> descriptors \<Rightarrow> usb_device_endpoint_struct_t list" where
  "endpoints_in i d =
     (case endpointList i of Cic \<Rightarrow> g_UsbDeviceCdcVcomCicEndpoints d | Dic \<Rightarrow> g_UsbDeviceCdcVcomDicEndpoints d)"

section \<open>Endpoint completion\<close>

definition USB_DeviceCdcAcmInterruptIn ::
  "('d, 'z) cdc_state_scheme class_callback \<Rightarrow> ep_message \<Rightarrow> class_handle_t \<Rightarrow>
   ('d, 'z) cdc_state_scheme \<Rightarrow> usb_status_t \<times> ('d, 'z) cdc_state_scheme" where
  "USB_DeviceCdcAcmInterruptIn cb message callbackParam s =
     (if callbackParam = NullHandle then (kStatus_USB_InvalidHandle, s)
      else
        let s = upd_acm (\<lambda>a. a\<lparr>interruptIn := (interruptIn a)\<lparr>isBusy := 0\<rparr>\<rparr>) s in
        if configStruct (g_cdcAcmHandle s)
        then (case cb callbackParam kUSB_DeviceCdcEventSerialStateNotif (Msg message) s of (e, _, s) \<Rightarrow> (e, s))
        else (kStatus_USB_Error, s))"

definition USB_DeviceCdcAcmBulkIn ::
  "('d, 'z) cdc_state_scheme class_callback \<Rightarrow> ep_message \<Rightarrow> class_handle_t \<Rightarrow>
   ('d, 'z) cdc_state_scheme \<Rightarrow> usb_status_t \<times> ('d, 'z) cdc_state_scheme" where
  "USB_DeviceCdcAcmBulkIn cb message callbackParam s =
     (if callbackParam = NullHandle then (kStatus_USB_InvalidHandle, s)
      else
        let s = upd_acm (\<lambda>a. a\<lparr>bulkIn := (bulkIn a)\<lparr>isBusy := 0\<rparr>\<rparr>) s in
        if configStruct (g_cdcAcmHandle s)
        then (case cb callbackParam kUSB_DeviceCdcEventSendResponse (Msg message) s of (e, _, s) \<Rightarrow> (e, s))
        else (kStatus_USB_Error, s))"

definition USB_DeviceCdcAcmBulkOut ::
  "('d, 'z) cdc_state_scheme class_callback \<Rightarrow> ep_message \<Rightarrow> class_handle_t \<Rightarrow>
   ('d, 'z) cdc_state_scheme \<Rightarrow> usb_status_t \<times> ('d, 'z) cdc_state_scheme" where
  "USB_DeviceCdcAcmBulkOut cb message callbackParam s =
     (if callbackParam = NullHandle then (kStatus_USB_InvalidHandle, s)
      else
        let s = upd_acm (\<lambda>a. a\<lparr>bulkOut := (bulkOut a)\<lparr>isBusy := 0\<rparr>\<rparr>) s in
        if configStruct (g_cdcAcmHandle s)
        then (case cb callbackParam kUSB_DeviceCdcEventRecvResponse (Msg message) s of (e, _, s) \<Rightarrow> (e, s))
        else (kStatus_USB_Error, s))"

section \<open>Initialising and releasing the endpoints\<close>

definition idle_pipe :: "u8 \<Rightarrow> usb_device_cdc_acm_pipe_t" where
  "idle_pipe n = \<lparr>pipeDataBuffer = InvalidTransferBuffer, pipeDataLen = 0, pipeStall = 0, pipe_ep = n, isBusy = 0\<rparr>"

definition is_in :: "u8 \<Rightarrow> bool" where
  "is_in a \<longleftrightarrow> drop_bit 7 (a AND 0x80) = 1"

definition is_out :: "u8 \<Rightarrow> bool" where
  "is_out a \<longleftrightarrow> drop_bit 7 (a AND 0x80) = 0"

text \<open>The setting with the current alternate number, and the loop over the interfaces of a class.\<close>

definition find_setting :: "u8 \<Rightarrow> usb_device_interfaces_struct_t \<Rightarrow> usb_device_interface_struct_t option" where
  "find_setting alt i = List.find (\<lambda>x. alternateSetting x = alt) (settings i)"

definition find_class :: "u8 \<Rightarrow> usb_device_interfaces_struct_t list \<Rightarrow> usb_device_interfaces_struct_t option" where
  "find_class c is = List.find (\<lambda>i. c = classCode i) is"

text \<open>The loop over the communication endpoints returns at the first failure.\<close>

fun init_comm_endpoints ::
  "(('d, 'z) cdc_state_scheme, 'y) usb_controller_scheme \<Rightarrow> usb_device_endpoint_struct_t list \<Rightarrow> ep_callback \<Rightarrow> usb_status_t \<Rightarrow>
   ('d, 'z) cdc_state_scheme \<Rightarrow> bool \<times> ep_callback \<times> usb_status_t \<times> ('d, 'z) cdc_state_scheme" where
  "init_comm_endpoints c [] cbf error s = (True, cbf, error, s)"
| "init_comm_endpoints c (e # es) cbf error s =
     (let (cbf, s) =
            (if is_in (endpointAddress e) \<and> USB_ENDPOINT_INTERRUPT = transferType e
             then (AcmInterruptIn, upd_acm (\<lambda>a. a\<lparr>interruptIn := idle_pipe (endpointAddress e AND 0x0F)\<rparr>) s)
             else (cbf, s));
          (error, s) = InitEndpoint c (acm_handle (g_cdcAcmHandle s)) 0 e cbf s
      in if error \<noteq> kStatus_USB_Success then (False, cbf, error, s)
         else init_comm_endpoints c es cbf error s)"

text \<open>The loop over the data endpoints goes on and keeps the last status.\<close>

fun init_data_endpoints ::
  "(('d, 'z) cdc_state_scheme, 'y) usb_controller_scheme \<Rightarrow> usb_device_endpoint_struct_t list \<Rightarrow> ep_callback \<Rightarrow> usb_status_t \<Rightarrow>
   ('d, 'z) cdc_state_scheme \<Rightarrow> usb_status_t \<times> ('d, 'z) cdc_state_scheme" where
  "init_data_endpoints c [] cbf error s = (error, s)"
| "init_data_endpoints c (e # es) cbf error s =
     (let (cbf, s) =
            (if is_in (endpointAddress e) \<and> USB_ENDPOINT_BULK = transferType e
             then (AcmBulkIn, upd_acm (\<lambda>a. a\<lparr>bulkIn := idle_pipe (endpointAddress e AND 0x0F)\<rparr>) s)
             else if is_out (endpointAddress e) \<and> USB_ENDPOINT_BULK = transferType e
             then (AcmBulkOut, upd_acm (\<lambda>a. a\<lparr>bulkOut := idle_pipe (endpointAddress e AND 0x0F)\<rparr>) s)
             else (cbf, s));
          (error, s) = InitEndpoint c (acm_handle (g_cdcAcmHandle s)) 0 e cbf s
      in init_data_endpoints c es cbf error s)"

definition USB_DeviceCdcAcmEndpointsInit ::
  "(('d, 'z) cdc_state_scheme, 'y) usb_controller_scheme \<Rightarrow> ('d, 'z) cdc_state_scheme \<Rightarrow> usb_status_t \<times> ('d, 'z) cdc_state_scheme" where
  "USB_DeviceCdcAcmEndpointsInit c s =
     (let conf = acm_configuration (g_cdcAcmHandle s) in
      if conf = 0 \<or> conf > 1 then (kStatus_USB_Error, s)
      else
        let (interface, s) =
              (case find_class 0x02 g_UsbDeviceCdcVcomInterfaces of
                 None \<Rightarrow> (None, s)
               | Some i \<Rightarrow> (find_setting (alternate (g_cdcAcmHandle s)) i,
                             upd_acm (\<lambda>a. a\<lparr>interfaceNumber := ifaceNumber i\<rparr>) s))
        in case interface of None \<Rightarrow> (kStatus_USB_Error, s)
           | Some interface \<Rightarrow>
               let s = upd_acm (\<lambda>a. a\<lparr>commInterfaceHandle := Some interface\<rparr>) s;
                   (go_on, cbf, error, s) =
                     init_comm_endpoints c (endpoints_in interface (descs s)) NoCallback kStatus_USB_Error s
               in if \<not> go_on then (error, s)
                  else
                    let interface =
                          (case find_class 0x0A g_UsbDeviceCdcVcomInterfaces of
                             None \<Rightarrow> interface
                           | Some i \<Rightarrow>
                               (case find_setting (alternate (g_cdcAcmHandle s)) i of
                                  None \<Rightarrow> interface | Some x \<Rightarrow> x));
                        s = upd_acm (\<lambda>a. a\<lparr>dataInterfaceHandle := Some interface\<rparr>) s
                    in init_data_endpoints c (endpoints_in interface (descs s)) cbf error s)"

fun deinit_endpoints ::
  "(('d, 'z) cdc_state_scheme, 'y) usb_controller_scheme \<Rightarrow> usb_device_endpoint_struct_t list \<Rightarrow> usb_status_t \<Rightarrow>
   ('d, 'z) cdc_state_scheme \<Rightarrow> usb_status_t \<times> ('d, 'z) cdc_state_scheme" where
  "deinit_endpoints c [] status s = (status, s)"
| "deinit_endpoints c (e # es) status s =
     (let (status, s) = DeinitEndpoint c (acm_handle (g_cdcAcmHandle s)) (endpointAddress e) s
      in deinit_endpoints c es status s)"

definition USB_DeviceCdcAcmEndpointsDeinit ::
  "(('d, 'z) cdc_state_scheme, 'y) usb_controller_scheme \<Rightarrow> ('d, 'z) cdc_state_scheme \<Rightarrow> usb_status_t \<times> ('d, 'z) cdc_state_scheme" where
  "USB_DeviceCdcAcmEndpointsDeinit c s =
     (case (commInterfaceHandle (g_cdcAcmHandle s), dataInterfaceHandle (g_cdcAcmHandle s)) of
        (Some comm, Some data) \<Rightarrow>
          (let (status, s) = deinit_endpoints c (endpoints_in comm (descs s)) kStatus_USB_Error s;
               (status, s) = deinit_endpoints c (endpoints_in data (descs s)) status s
           in (status, upd_acm (\<lambda>a. a\<lparr>commInterfaceHandle := None, dataInterfaceHandle := None\<rparr>) s))
      | _ \<Rightarrow> (kStatus_USB_Error, s))"

section \<open>Sending and receiving\<close>

definition USB_DeviceCdcAcmSend ::
  "(('d, 'z) cdc_state_scheme, 'y) usb_transfers_scheme \<Rightarrow> class_handle_t \<Rightarrow> u8 \<Rightarrow> ubuf \<Rightarrow> nat \<Rightarrow>
   ('d, 'z) cdc_state_scheme \<Rightarrow> usb_status_t \<times> ('d, 'z) cdc_state_scheme" where
  "USB_DeviceCdcAcmSend c handle ep buffer len s =
     (if handle = NullHandle then (kStatus_USB_InvalidHandle, s)
      else if pipe_ep (bulkIn (g_cdcAcmHandle s)) = ep then
        (if isBusy (bulkIn (g_cdcAcmHandle s)) = 1 then (kStatus_USB_Busy, s)
         else
           let s = upd_acm (\<lambda>a. a\<lparr>bulkIn := (bulkIn a)\<lparr>isBusy := 1\<rparr>\<rparr>) s in
           if pipeStall (bulkIn (g_cdcAcmHandle s)) \<noteq> 0 then
             (kStatus_USB_Success,
              upd_acm (\<lambda>a. a\<lparr>bulkIn := (bulkIn a)\<lparr>pipeDataBuffer := buffer, pipeDataLen := len\<rparr>\<rparr>) s)
           else
             let (status, s) = SendRequest c (acm_handle (g_cdcAcmHandle s)) ep buffer len s
             in (status, if status \<noteq> kStatus_USB_Success
                         then upd_acm (\<lambda>a. a\<lparr>bulkIn := (bulkIn a)\<lparr>isBusy := 0\<rparr>\<rparr>) s else s))
      else if pipe_ep (interruptIn (g_cdcAcmHandle s)) = ep then
        (if isBusy (interruptIn (g_cdcAcmHandle s)) = 1 then (kStatus_USB_Busy, s)
         else
           let s = upd_acm (\<lambda>a. a\<lparr>interruptIn := (interruptIn a)\<lparr>isBusy := 1\<rparr>\<rparr>) s in
           if pipeStall (interruptIn (g_cdcAcmHandle s)) \<noteq> 0 then
             (kStatus_USB_Success,
              upd_acm (\<lambda>a. a\<lparr>interruptIn := (interruptIn a)\<lparr>pipeDataBuffer := buffer, pipeDataLen := len\<rparr>\<rparr>) s)
           else
             let (status, s) = SendRequest c (acm_handle (g_cdcAcmHandle s)) ep buffer len s
             in (status, if status \<noteq> kStatus_USB_Success
                         then upd_acm (\<lambda>a. a\<lparr>interruptIn := (interruptIn a)\<lparr>isBusy := 0\<rparr>\<rparr>) s else s))
      else (kStatus_USB_Error, s))"

definition USB_DeviceCdcAcmRecv ::
  "(('d, 'z) cdc_state_scheme, 'y) usb_transfers_scheme \<Rightarrow> class_handle_t \<Rightarrow> u8 \<Rightarrow> ubuf \<Rightarrow> nat \<Rightarrow>
   ('d, 'z) cdc_state_scheme \<Rightarrow> usb_status_t \<times> ('d, 'z) cdc_state_scheme" where
  "USB_DeviceCdcAcmRecv c handle ep buffer len s =
     (if handle = NullHandle then (kStatus_USB_InvalidHandle, s)
      else if isBusy (bulkOut (g_cdcAcmHandle s)) = 1 then (kStatus_USB_Busy, s)
      else
        let s = upd_acm (\<lambda>a. a\<lparr>bulkOut := (bulkOut a)\<lparr>isBusy := 1\<rparr>\<rparr>) s in
        if pipeStall (bulkOut (g_cdcAcmHandle s)) \<noteq> 0 then
          (kStatus_USB_Success,
           upd_acm (\<lambda>a. a\<lparr>bulkOut := (bulkOut a)\<lparr>pipeDataBuffer := buffer, pipeDataLen := len\<rparr>\<rparr>) s)
        else
          let (status, s) = RecvRequest c (acm_handle (g_cdcAcmHandle s)) ep buffer len s
          in (status, if status \<noteq> kStatus_USB_Success
                      then upd_acm (\<lambda>a. a\<lparr>bulkOut := (bulkOut a)\<lparr>isBusy := 0\<rparr>\<rparr>) s else s))"

section \<open>Halting and resuming endpoints\<close>

text \<open>The loops over the endpoints of the two interfaces; only matching addresses act.\<close>

fun halt_comm ::
  "(('d, 'z) cdc_state_scheme, 'y) usb_controller_scheme \<Rightarrow> u8 \<Rightarrow> usb_device_endpoint_struct_t list \<Rightarrow> usb_status_t \<Rightarrow>
   ('d, 'z) cdc_state_scheme \<Rightarrow> usb_status_t \<times> ('d, 'z) cdc_state_scheme" where
  "halt_comm c a [] error s = (error, s)"
| "halt_comm c a (e # es) error s =
     (let (error, s) =
            (if a = endpointAddress e
             then StallEndpoint c (acm_handle (g_cdcAcmHandle s)) a
                    (upd_acm (\<lambda>h. h\<lparr>interruptIn := (interruptIn h)\<lparr>pipeStall := 1\<rparr>\<rparr>) s)
             else (error, s))
      in halt_comm c a es error s)"

fun halt_data ::
  "(('d, 'z) cdc_state_scheme, 'y) usb_controller_scheme \<Rightarrow> u8 \<Rightarrow> usb_device_endpoint_struct_t list \<Rightarrow> usb_status_t \<Rightarrow>
   ('d, 'z) cdc_state_scheme \<Rightarrow> usb_status_t \<times> ('d, 'z) cdc_state_scheme" where
  "halt_data c a [] error s = (error, s)"
| "halt_data c a (e # es) error s =
     (let (error, s) =
            (if a = endpointAddress e
             then StallEndpoint c (acm_handle (g_cdcAcmHandle s)) a
                    (if is_in a then upd_acm (\<lambda>h. h\<lparr>bulkIn := (bulkIn h)\<lparr>pipeStall := 1\<rparr>\<rparr>) s
                     else upd_acm (\<lambda>h. h\<lparr>bulkOut := (bulkOut h)\<lparr>pipeStall := 1\<rparr>\<rparr>) s)
             else (error, s))
      in halt_data c a es error s)"

text \<open>
  Resuming a pipe starts the transfer that was put aside while it was halted; when the controller
  refuses it, the class callback is told through the completion function the code names there.
\<close>

definition put_aside :: "usb_device_cdc_acm_pipe_t \<Rightarrow> ep_message" where
  "put_aside p = \<lparr>msg_buffer = pipeDataBuffer p, msg_length = pipeDataLen p, msg_isSetup = 0\<rparr>"

definition resume_interrupt_in ::
  "(('d, 'z) cdc_state_scheme, 'y) usb_transfers_scheme \<Rightarrow> ('d, 'z) cdc_state_scheme class_callback \<Rightarrow> class_handle_t \<Rightarrow> usb_status_t \<Rightarrow>
   ('d, 'z) cdc_state_scheme \<Rightarrow> usb_status_t \<times> ('d, 'z) cdc_state_scheme" where
  "resume_interrupt_in c cb handle error s =
     (if pipeStall (interruptIn (g_cdcAcmHandle s)) \<noteq> 0 then
        let s = upd_acm (\<lambda>h. h\<lparr>interruptIn := (interruptIn h)\<lparr>pipeStall := 0\<rparr>\<rparr>) s;
            p = interruptIn (g_cdcAcmHandle s)
        in if pipeDataBuffer p \<noteq> InvalidTransferBuffer then
             let (error, s) = SendRequest c (acm_handle (g_cdcAcmHandle s)) (pipe_ep p)
                                     (pipeDataBuffer p) (pipeDataLen p) s;
                 s = (if error \<noteq> kStatus_USB_Success
                      then snd (USB_DeviceCdcAcmBulkIn cb (put_aside (interruptIn (g_cdcAcmHandle s))) handle s)
                      else s)
             in (error, upd_acm (\<lambda>h. h\<lparr>interruptIn := (interruptIn h)
                          \<lparr>pipeDataBuffer := InvalidTransferBuffer, pipeDataLen := 0\<rparr>\<rparr>) s)
           else (error, s)
      else (error, s))"

definition resume_bulk_in ::
  "(('d, 'z) cdc_state_scheme, 'y) usb_transfers_scheme \<Rightarrow> ('d, 'z) cdc_state_scheme class_callback \<Rightarrow> class_handle_t \<Rightarrow> usb_status_t \<Rightarrow>
   ('d, 'z) cdc_state_scheme \<Rightarrow> usb_status_t \<times> ('d, 'z) cdc_state_scheme" where
  "resume_bulk_in c cb handle error s =
     (if pipeStall (bulkIn (g_cdcAcmHandle s)) \<noteq> 0 then
        let s = upd_acm (\<lambda>h. h\<lparr>bulkIn := (bulkIn h)\<lparr>pipeStall := 0\<rparr>\<rparr>) s;
            p = bulkIn (g_cdcAcmHandle s)
        in if pipeDataBuffer p \<noteq> InvalidTransferBuffer then
             let (error, s) = SendRequest c (acm_handle (g_cdcAcmHandle s)) (pipe_ep p)
                                     (pipeDataBuffer p) (pipeDataLen p) s;
                 s = (if error \<noteq> kStatus_USB_Success
                      then snd (USB_DeviceCdcAcmBulkIn cb (put_aside (bulkIn (g_cdcAcmHandle s))) handle s)
                      else s)
             in (error, upd_acm (\<lambda>h. h\<lparr>bulkIn := (bulkIn h)
                          \<lparr>pipeDataBuffer := InvalidTransferBuffer, pipeDataLen := 0\<rparr>\<rparr>) s)
           else (error, s)
      else (error, s))"

definition resume_bulk_out ::
  "(('d, 'z) cdc_state_scheme, 'y) usb_transfers_scheme \<Rightarrow> ('d, 'z) cdc_state_scheme class_callback \<Rightarrow> class_handle_t \<Rightarrow> usb_status_t \<Rightarrow>
   ('d, 'z) cdc_state_scheme \<Rightarrow> usb_status_t \<times> ('d, 'z) cdc_state_scheme" where
  "resume_bulk_out c cb handle error s =
     (if pipeStall (bulkOut (g_cdcAcmHandle s)) \<noteq> 0 then
        let s = upd_acm (\<lambda>h. h\<lparr>bulkOut := (bulkOut h)\<lparr>pipeStall := 0\<rparr>\<rparr>) s;
            p = bulkOut (g_cdcAcmHandle s)
        in if pipeDataBuffer p \<noteq> InvalidTransferBuffer then
             let (error, s) = RecvRequest c (acm_handle (g_cdcAcmHandle s)) (pipe_ep p)
                                     (pipeDataBuffer p) (pipeDataLen p) s;
                 s = (if error \<noteq> kStatus_USB_Success
                      then snd (USB_DeviceCdcAcmBulkOut cb (put_aside (bulkOut (g_cdcAcmHandle s))) handle s)
                      else s)
             in (error, upd_acm (\<lambda>h. h\<lparr>bulkOut := (bulkOut h)
                          \<lparr>pipeDataBuffer := InvalidTransferBuffer, pipeDataLen := 0\<rparr>\<rparr>) s)
           else (error, s)
      else (error, s))"

fun resume_comm ::
  "(('d, 'z) cdc_state_scheme, 'y) usb_controller_scheme \<Rightarrow> ('d, 'z) cdc_state_scheme class_callback \<Rightarrow> class_handle_t \<Rightarrow> u8 \<Rightarrow>
   usb_device_endpoint_struct_t list \<Rightarrow> usb_status_t \<Rightarrow>
   ('d, 'z) cdc_state_scheme \<Rightarrow> usb_status_t \<times> ('d, 'z) cdc_state_scheme" where
  "resume_comm c cb handle a [] error s = (error, s)"
| "resume_comm c cb handle a (e # es) error s =
     (let (error, s) =
            (if a = endpointAddress e
             then (let (error, s) = UnstallEndpoint c (acm_handle (g_cdcAcmHandle s)) a s
                   in if is_in a then resume_interrupt_in c cb handle error s else (error, s))
             else (error, s))
      in resume_comm c cb handle a es error s)"

fun resume_data ::
  "(('d, 'z) cdc_state_scheme, 'y) usb_controller_scheme \<Rightarrow> ('d, 'z) cdc_state_scheme class_callback \<Rightarrow> class_handle_t \<Rightarrow> u8 \<Rightarrow>
   usb_device_endpoint_struct_t list \<Rightarrow> usb_status_t \<Rightarrow>
   ('d, 'z) cdc_state_scheme \<Rightarrow> usb_status_t \<times> ('d, 'z) cdc_state_scheme" where
  "resume_data c cb handle a [] error s = (error, s)"
| "resume_data c cb handle a (e # es) error s =
     (let (error, s) =
            (if a = endpointAddress e
             then (let (error, s) = UnstallEndpoint c (acm_handle (g_cdcAcmHandle s)) a s
                   in if is_in a then resume_bulk_in c cb handle error s else resume_bulk_out c cb handle error s)
             else (error, s))
      in resume_data c cb handle a es error s)"

section \<open>Class requests\<close>

text \<open>
  A class request of the control pipe becomes an application event if its direction and the
  presence of a data stage fit; the answer's buffer and length go back into the control request.
\<close>

definition request_event :: "control_request \<Rightarrow> usb_device_cdc_acm_event_t option" where
  "request_event r =
     (let dir_in = (bmRequestType r AND 0x80 = 0x80); dir_out = (bmRequestType r AND 0x80 = 0);
          has_data = (wLength r \<noteq> 0)
      in if bRequest r = 0x00 then (if dir_out \<and> has_data then Some kUSB_DeviceCdcEventSendEncapsulatedCommand else None)
         else if bRequest r = 0x01 then (if dir_in \<and> has_data then Some kUSB_DeviceCdcEventGetEncapsulatedResponse else None)
         else if bRequest r = 0x02 then (if dir_out \<and> has_data then Some kUSB_DeviceCdcEventSetCommFeature else None)
         else if bRequest r = 0x03 then (if dir_in \<and> has_data then Some kUSB_DeviceCdcEventGetCommFeature else None)
         else if bRequest r = 0x04 then (if dir_out \<and> \<not> has_data then Some kUSB_DeviceCdcEventClearCommFeature else None)
         else if bRequest r = 0x21 then (if dir_in \<and> has_data then Some kUSB_DeviceCdcEventGetLineCoding else None)
         else if bRequest r = 0x20 then (if dir_out \<and> has_data then Some kUSB_DeviceCdcEventSetLineCoding else None)
         else if bRequest r = 0x22 then (if dir_out \<and> \<not> has_data then Some kUSB_DeviceCdcEventSetControlLineState else None)
         else if bRequest r = 0x23 then (if dir_out \<and> \<not> has_data then Some kUSB_DeviceCdcEventSendBreak else None)
         else None)"

definition acm_class_request ::
  "('d, 'z) cdc_state_scheme class_callback \<Rightarrow> class_handle_t \<Rightarrow> control_request \<Rightarrow>
   ('d, 'z) cdc_state_scheme \<Rightarrow> usb_status_t \<times> control_request \<times> ('d, 'z) cdc_state_scheme" where
  "acm_class_request cb handle r s =
     (if bmRequestType r AND 0x1F \<noteq> 0x01 then (kStatus_USB_Error, r, s)
      else if wIndex r AND 0xFF \<noteq> ucast (interfaceNumber (g_cdcAcmHandle s)) then (kStatus_USB_Error, r, s)
      else
        let p = \<lparr>rp_buffer = cr_buffer r, rp_length = cr_length r, interfaceIndex = wIndex r,
                 setupValue = wValue r, rp_isSetup = cr_isSetup r\<rparr>
        in case request_event r of
             None \<Rightarrow> (kStatus_USB_InvalidRequest, r, s)
           | Some ev \<Rightarrow>
               (case cb handle ev (Req p) s of
                  (e, Req p, s) \<Rightarrow> (e, r\<lparr>cr_buffer := rp_buffer p, cr_length := rp_length p\<rparr>, s)
                | (e, Msg _, s) \<Rightarrow> (e, r, s)))"

section \<open>Class events\<close>

text \<open>The parameter is \<open>None\<close> where the code checks it for null.\<close>

definition USB_DeviceCdcAcmEvent ::
  "(('d, 'z) cdc_state_scheme, 'y) usb_controller_scheme \<Rightarrow> ('d, 'z) cdc_state_scheme class_callback \<Rightarrow> class_handle_t \<Rightarrow> usb_device_class_event_t option \<Rightarrow>
   ('d, 'z) cdc_state_scheme \<Rightarrow> usb_status_t \<times> usb_device_class_event_t option \<times> ('d, 'z) cdc_state_scheme" where
  "USB_DeviceCdcAcmEvent c cb handle event s =
     (if event = None \<or> handle = NullHandle then (kStatus_USB_InvalidHandle, event, s)
      else case the event of
        DeviceReset \<Rightarrow> (kStatus_USB_Success, event, upd_acm (\<lambda>h. h\<lparr>acm_configuration := 0\<rparr>) s)
      | SetConfiguration n \<Rightarrow>
          if \<not> configStruct (g_cdcAcmHandle s) then (kStatus_USB_Error, event, s)
          else if n = acm_configuration (g_cdcAcmHandle s) then (kStatus_USB_Success, event, s)
          else
            let (_, s) = USB_DeviceCdcAcmEndpointsDeinit c s;
                s = upd_acm (\<lambda>h. h\<lparr>acm_configuration := n, alternate := 0\<rparr>) s;
                (error, s) = USB_DeviceCdcAcmEndpointsInit c s
            in (error, event, s)
      | SetInterface ia \<Rightarrow>
          if \<not> configStruct (g_cdcAcmHandle s) then (kStatus_USB_Error, event, s)
          else if interfaceNumber (g_cdcAcmHandle s) \<noteq> ucast (drop_bit 8 ia) then (kStatus_USB_Error, event, s)
          else if ucast (ia AND 0xFF) = alternate (g_cdcAcmHandle s) then (kStatus_USB_Success, event, s)
          else
            let (_, s) = USB_DeviceCdcAcmEndpointsDeinit c s;
                s = upd_acm (\<lambda>h. h\<lparr>alternate := ucast (ia AND 0xFF)\<rparr>) s;
                (error, s) = USB_DeviceCdcAcmEndpointsInit c s
            in (error, event, s)
      | SetEndpointHalt a \<Rightarrow>
          (case (configStruct (g_cdcAcmHandle s), commInterfaceHandle (g_cdcAcmHandle s), dataInterfaceHandle (g_cdcAcmHandle s)) of
             (True, Some comm, Some data) \<Rightarrow>
               let (error, s) = halt_comm c a (endpoints_in comm (descs s)) kStatus_USB_Error s;
                   (error, s) = halt_data c a (endpoints_in data (descs s)) error s
               in (error, event, s)
           | _ \<Rightarrow> (kStatus_USB_Error, event, s))
      | ClearEndpointHalt a \<Rightarrow>
          (case (configStruct (g_cdcAcmHandle s), commInterfaceHandle (g_cdcAcmHandle s), dataInterfaceHandle (g_cdcAcmHandle s)) of
             (True, Some comm, Some data) \<Rightarrow>
               let (error, s) = resume_comm c cb handle a (endpoints_in comm (descs s)) kStatus_USB_Error s;
                   (error, s) = resume_data c cb handle a (endpoints_in data (descs s)) error s
               in (error, event, s)
           | _ \<Rightarrow> (kStatus_USB_Error, event, s))
      | ClassRequest r \<Rightarrow>
          (case acm_class_request cb handle r s of (error, r, s) \<Rightarrow> (error, Some (ClassRequest r), s)))"

section \<open>Initialisation\<close>

text \<open>
  The device handle of the controller comes from \<open>USB_DeviceClassGetDeviceHandle\<close>: \<open>Inl\<close> its
  error or \<open>Inr\<close> the handle, 0 for null.
\<close>

definition USB_DeviceCdcAcmAllocateHandle :: "('d, 'z) cdc_state_scheme \<Rightarrow> usb_status_t" where
  "USB_DeviceCdcAcmAllocateHandle s =
     (if acm_handle (g_cdcAcmHandle s) = 0 then kStatus_USB_Success else kStatus_USB_Busy)"

definition USB_DeviceCdcAcmFreeHandle :: "('d, 'z) cdc_state_scheme \<Rightarrow> usb_status_t \<times> ('d, 'z) cdc_state_scheme" where
  "USB_DeviceCdcAcmFreeHandle s =
     (kStatus_USB_Success,
      upd_acm (\<lambda>h. h\<lparr>acm_handle := 0, configStruct := False, acm_configuration := 0, alternate := 0\<rparr>) s)"

definition USB_DeviceCdcAcmInit ::
  "usb_status_t + nat \<Rightarrow> class_handle_t \<Rightarrow> ('d, 'z) cdc_state_scheme \<Rightarrow>
   usb_status_t \<times> class_handle_t \<times> ('d, 'z) cdc_state_scheme" where
  "USB_DeviceCdcAcmInit device handle s =
     (if USB_DeviceCdcAcmAllocateHandle s \<noteq> kStatus_USB_Success
      then (USB_DeviceCdcAcmAllocateHandle s, handle, s)
      else case device of
        Inl error \<Rightarrow> (error, handle, s)
      | Inr d \<Rightarrow>
          let s = upd_acm (\<lambda>h. h\<lparr>acm_handle := d\<rparr>) s in
          if d = 0 then (kStatus_USB_InvalidHandle, handle, s)
          else (kStatus_USB_Success, AcmHandle,
                upd_acm (\<lambda>h. h\<lparr>configStruct := True, acm_configuration := 0, alternate := 0xFF\<rparr>) s))"

definition USB_DeviceCdcAcmDeinit ::
  "(('d, 'z) cdc_state_scheme, 'y) usb_controller_scheme \<Rightarrow> class_handle_t \<Rightarrow> ('d, 'z) cdc_state_scheme \<Rightarrow> usb_status_t \<times> ('d, 'z) cdc_state_scheme" where
  "USB_DeviceCdcAcmDeinit c handle s =
     (if handle = NullHandle then (kStatus_USB_InvalidHandle, s)
      else
        let (error, s) = USB_DeviceCdcAcmEndpointsDeinit c s;
            (_, s) = USB_DeviceCdcAcmFreeHandle s
        in (error, s))"

section \<open>What the class driver keeps of its client's state\<close>

text \<open>
  The class driver relies on laws of its surroundings: a property \<open>P\<close> of the state bounds the
  transfers that are put aside by the sizes of their buffers and looks at nothing else of the
  driver's instance; the calls of the device layer keep it, transfers as long as they fit their
  buffers, and so does the client's callback. Then every operation of the driver keeps it.
  Transfers alone are enough for sending, receiving and completing, which is all the client's
  callback uses.
\<close>

definition pipes_bounded :: "(ubuf \<Rightarrow> nat) \<Rightarrow> usb_device_cdc_acm_struct_t \<Rightarrow> bool" where
  "pipes_bounded size_of a \<longleftrightarrow>
     pipeDataLen (bulkIn a) \<le> size_of (pipeDataBuffer (bulkIn a)) \<and>
     pipeDataLen (bulkOut a) \<le> size_of (pipeDataBuffer (bulkOut a)) \<and>
     pipeDataLen (interruptIn a) \<le> size_of (pipeDataBuffer (interruptIn a))"

locale acm_transfers =
  fixes P :: "('d, 'z) cdc_state_scheme \<Rightarrow> bool"
    and c :: "(('d, 'z) cdc_state_scheme, 'y) usb_transfers_scheme"
    and size_of :: "ubuf \<Rightarrow> nat"
  assumes bounded: "P s \<Longrightarrow> pipes_bounded size_of (g_cdcAcmHandle s)"
    and keep_acm: "P s \<Longrightarrow> pipes_bounded size_of (f (g_cdcAcmHandle s)) \<Longrightarrow> P (upd_acm f s)"
    and keep_send_request: "P s \<Longrightarrow> l \<le> size_of b \<Longrightarrow> P (snd (SendRequest c h ep b l s))"
    and keep_recv_request: "P s \<Longrightarrow> l \<le> size_of b \<Longrightarrow> P (snd (RecvRequest c h ep b l s))"
begin

lemma pipe_bounds:
  "P s \<Longrightarrow> pipeDataLen (bulkIn (g_cdcAcmHandle s)) \<le> size_of (pipeDataBuffer (bulkIn (g_cdcAcmHandle s)))"
  "P s \<Longrightarrow> pipeDataLen (bulkOut (g_cdcAcmHandle s)) \<le> size_of (pipeDataBuffer (bulkOut (g_cdcAcmHandle s)))"
  "P s \<Longrightarrow> pipeDataLen (interruptIn (g_cdcAcmHandle s)) \<le> size_of (pipeDataBuffer (interruptIn (g_cdcAcmHandle s)))"
  by (auto dest!: bounded simp: pipes_bounded_def)

lemmas transfer_rules = keep_acm keep_send_request keep_recv_request pipes_bounded_def pipe_bounds

lemma keep_send: "P s \<Longrightarrow> l \<le> size_of b \<Longrightarrow> P (snd (USB_DeviceCdcAcmSend c h ep b l s))"
  by (simp add: USB_DeviceCdcAcmSend_def Let_def case_prod_beta transfer_rules)

lemma keep_recv: "P s \<Longrightarrow> l \<le> size_of b \<Longrightarrow> P (snd (USB_DeviceCdcAcmRecv c h ep b l s))"
  by (simp add: USB_DeviceCdcAcmRecv_def Let_def case_prod_beta transfer_rules)

end

locale acm_completions = acm_transfers P c size_of
  for P :: "('d, 'z) cdc_state_scheme \<Rightarrow> bool" and c :: "(('d, 'z) cdc_state_scheme, 'y) usb_transfers_scheme"
    and size_of :: "ubuf \<Rightarrow> nat" +
  fixes cb :: "('d, 'z) cdc_state_scheme class_callback"
  assumes cb_keeps: "P s \<Longrightarrow> P (snd (snd (cb h ev p s)))"
begin

lemma keep_interrupt_in: "P s \<Longrightarrow> P (snd (USB_DeviceCdcAcmInterruptIn cb m h s))"
  by (simp add: USB_DeviceCdcAcmInterruptIn_def Let_def case_prod_beta transfer_rules cb_keeps)

lemma keep_bulk_in: "P s \<Longrightarrow> P (snd (USB_DeviceCdcAcmBulkIn cb m h s))"
  by (simp add: USB_DeviceCdcAcmBulkIn_def Let_def case_prod_beta transfer_rules cb_keeps)

lemma keep_bulk_out: "P s \<Longrightarrow> P (snd (USB_DeviceCdcAcmBulkOut cb m h s))"
  by (simp add: USB_DeviceCdcAcmBulkOut_def Let_def case_prod_beta transfer_rules cb_keeps)

lemma keep_resume:
  "P s \<Longrightarrow> P (snd (resume_interrupt_in c cb h e s))"
  "P s \<Longrightarrow> P (snd (resume_bulk_in c cb h e s))"
  "P s \<Longrightarrow> P (snd (resume_bulk_out c cb h e s))"
  by (simp_all add: resume_interrupt_in_def resume_bulk_in_def resume_bulk_out_def Let_def case_prod_beta
      transfer_rules keep_bulk_in keep_bulk_out)

lemma keep_request: "P s \<Longrightarrow> P (snd (snd (acm_class_request cb h r s)))"
  by (simp add: acm_class_request_def Let_def case_prod_beta cb_keeps split: option.split cdc_param.split)

end

locale acm_client = acm_completions P c size_of cb
  for P :: "('d, 'z) cdc_state_scheme \<Rightarrow> bool" and c :: "(('d, 'z) cdc_state_scheme, 'y) usb_controller_scheme"
    and size_of :: "ubuf \<Rightarrow> nat" and cb :: "('d, 'z) cdc_state_scheme class_callback" +
  assumes keep_open: "P s \<Longrightarrow> P (snd (InitEndpoint c h z e f s))"
    and keep_close: "P s \<Longrightarrow> P (snd (DeinitEndpoint c h a s))"
    and keep_stall: "P s \<Longrightarrow> P (snd (StallEndpoint c h a s))"
    and keep_unstall: "P s \<Longrightarrow> P (snd (UnstallEndpoint c h a s))"
begin

lemmas keeps = transfer_rules cb_keeps keep_open keep_close keep_stall keep_unstall idle_pipe_def

lemma keep_init_comm: "P s \<Longrightarrow> P (snd (snd (snd (init_comm_endpoints c es f e s))))"
  by (induction es arbitrary: f e s) (simp_all add: Let_def case_prod_beta keeps)

lemma keep_init_data: "P s \<Longrightarrow> P (snd (init_data_endpoints c es f e s))"
  by (induction es arbitrary: f e s) (simp_all add: Let_def case_prod_beta keeps)

lemma keep_endpoints_init: "P s \<Longrightarrow> P (snd (USB_DeviceCdcAcmEndpointsInit c s))"
  by (simp add: USB_DeviceCdcAcmEndpointsInit_def Let_def case_prod_beta keeps keep_init_comm keep_init_data
      split: option.split)

lemma keep_deinit: "P s \<Longrightarrow> P (snd (deinit_endpoints c es e s))"
  by (induction es arbitrary: e s) (simp_all add: Let_def case_prod_beta keeps)

lemma keep_endpoints_deinit: "P s \<Longrightarrow> P (snd (USB_DeviceCdcAcmEndpointsDeinit c s))"
  by (simp add: USB_DeviceCdcAcmEndpointsDeinit_def Let_def case_prod_beta keeps keep_deinit split: option.split)

lemma keep_halt_comm: "P s \<Longrightarrow> P (snd (halt_comm c a es e s))"
  by (induction es arbitrary: e s) (simp_all add: Let_def case_prod_beta keeps)

lemma keep_halt_data: "P s \<Longrightarrow> P (snd (halt_data c a es e s))"
  by (induction es arbitrary: e s) (simp_all add: Let_def case_prod_beta keeps)

lemma keep_resume_comm: "P s \<Longrightarrow> P (snd (resume_comm c cb h a es e s))"
  by (induction es arbitrary: e s) (simp_all add: Let_def case_prod_beta keeps keep_resume)

lemma keep_resume_data: "P s \<Longrightarrow> P (snd (resume_data c cb h a es e s))"
  by (induction es arbitrary: e s) (simp_all add: Let_def case_prod_beta keeps keep_resume)

lemma keep_event: "P s \<Longrightarrow> P (snd (snd (USB_DeviceCdcAcmEvent c cb h ev s)))"
  by (simp add: USB_DeviceCdcAcmEvent_def Let_def case_prod_beta keeps keep_endpoints_init
      keep_endpoints_deinit keep_halt_comm keep_halt_data keep_resume_comm keep_resume_data keep_request
      split: option.split usb_device_class_event_t.split bool.split)

end
end
