(* ===== verification/UsbClass.thy ===== *)
theory UsbClass
  imports UsbCdcAcm
begin

unbundle bit_operations_syntax

text \<open>
  The common class driver, \<open>usb_device_class.c\<close>: the table of controllers (one entry, as
  \<open>USB_DEVICE_CONFIG_NUM\<close> is 1), initialisation and release of the class drivers of the
  application's configuration list (one entry, the CDC ACM class), and the distribution of device
  and class events. The device layer below it is a record of functions that extends the one of the
  CDC class; the application's device callback is an argument.
\<close>

section \<open>State\<close>

record usb_device_common_class_struct_t =
  cc_handle :: nat
  cc_configList :: bool
  cc_controllerId :: u8
  setupBuffer :: usb_setup_struct_t
  standardTranscationBuffer :: u16

record 'd class_state = "'d cdc_state" +
  s_UsbDeviceCommonClassStruct :: usb_device_common_class_struct_t
  classHandle :: class_handle_t

text \<open>Status selectors; the endpoint selector carries the address in its parameter block.\<close>

datatype usb_device_status_t =
    kUSB_DeviceStatusTestMode | kUSB_DeviceStatusSpeed | kUSB_DeviceStatusOtg | kUSB_DeviceStatusDevice
  | kUSB_DeviceStatusEndpoint u8 | kUSB_DeviceStatusDeviceState | kUSB_DeviceStatusAddress
  | kUSB_DeviceStatusSynchFrame | kUSB_DeviceStatusBus | kUSB_DeviceStatusBusSuspend | kUSB_DeviceStatusBusSleep
  | kUSB_DeviceStatusBusResume | kUSB_DeviceStatusRemoteWakeup | kUSB_DeviceStatusBusSleepResume

text \<open>
  The rest of the device layer. A query returns its status and the parameter's value afterwards;
  parameters are \<open>None\<close> for a null pointer.
\<close>

record 's usb_stack = "'s usb_controller" +
  DeviceInit :: "u8 \<Rightarrow> 's \<Rightarrow> (usb_status_t \<times> nat) \<times> 's"
  DeviceDeinit :: "nat \<Rightarrow> 's \<Rightarrow> usb_status_t \<times> 's"
  GetStatus :: "nat \<Rightarrow> usb_device_status_t \<Rightarrow> u16 option \<Rightarrow> 's \<Rightarrow> usb_status_t \<times> u16 option"
  SetStatus :: "nat \<Rightarrow> usb_device_status_t \<Rightarrow> u8 option \<Rightarrow> 's \<Rightarrow> usb_status_t \<times> 's"
  ControlPipeInit :: "nat \<Rightarrow> 's \<Rightarrow> usb_status_t \<times> 's"
  DeviceRun :: "nat \<Rightarrow> 's \<Rightarrow> usb_status_t \<times> 's"

text \<open>Device events with their parameter blocks; \<open>None\<close> is a null pointer.\<close>

record get_descriptor =
  gd_index :: u8
  gd_languageId :: u16
  gd_reply :: "(u8 list \<times> nat) option"

datatype usb_device_event_t =
    EvBusReset
  | EvSetConfiguration u8
  | EvSetInterface u16
  | EvGetConfiguration "u8 option"
  | EvGetInterface "u16 option"
  | EvGetDeviceDescriptor "get_descriptor option"
  | EvGetConfigurationDescriptor "get_descriptor option"
  | EvGetStringDescriptor "get_descriptor option"
  | EvVendorRequest control_request
  | EvOther nat

type_synonym 's device_callback =
  "nat \<Rightarrow> usb_device_event_t \<Rightarrow> 's \<Rightarrow> (usb_status_t \<times> usb_device_event_t \<times> 's) option"

definition upd_common :: "(usb_device_common_class_struct_t \<Rightarrow> usb_device_common_class_struct_t) \<Rightarrow>
    ('d, 'z) class_state_scheme \<Rightarrow> ('d, 'z) class_state_scheme" where
  "upd_common f s = s\<lparr>s_UsbDeviceCommonClassStruct := f (s_UsbDeviceCommonClassStruct s)\<rparr>"

section \<open>The table of controllers\<close>

definition USB_DeviceClassAllocateHandle ::
  "u8 \<Rightarrow> ('d, 'z) class_state_scheme \<Rightarrow> usb_status_t \<times> ('d, 'z) class_state_scheme" where
  "USB_DeviceClassAllocateHandle controllerId s =
     (if cc_handle (s_UsbDeviceCommonClassStruct s) \<noteq> 0 \<and>
         controllerId = cc_controllerId (s_UsbDeviceCommonClassStruct s) then (kStatus_USB_Error, s)
      else if cc_handle (s_UsbDeviceCommonClassStruct s) = 0
      then (kStatus_USB_Success, upd_common (\<lambda>c. c\<lparr>cc_controllerId := controllerId\<rparr>) s)
      else (kStatus_USB_Busy, s))"

definition USB_DeviceClassFreeHandle ::
  "u8 \<Rightarrow> ('d, 'z) class_state_scheme \<Rightarrow> usb_status_t \<times> ('d, 'z) class_state_scheme" where
  "USB_DeviceClassFreeHandle controllerId s =
     (if cc_handle (s_UsbDeviceCommonClassStruct s) \<noteq> 0 \<and>
         controllerId = cc_controllerId (s_UsbDeviceCommonClassStruct s)
      then (kStatus_USB_Success,
            upd_common (\<lambda>c. c\<lparr>cc_handle := 0, cc_configList := False, cc_controllerId := 0\<rparr>) s)
      else (kStatus_USB_InvalidParameter, s))"

definition USB_DeviceClassGetHandleByControllerId :: "u8 \<Rightarrow> ('d, 'z) class_state_scheme \<Rightarrow> usb_status_t" where
  "USB_DeviceClassGetHandleByControllerId controllerId s =
     (if cc_handle (s_UsbDeviceCommonClassStruct s) \<noteq> 0 \<and>
         controllerId = cc_controllerId (s_UsbDeviceCommonClassStruct s)
      then kStatus_USB_Success else kStatus_USB_InvalidParameter)"

definition USB_DeviceClassGetHandleByDeviceHandle :: "nat \<Rightarrow> ('d, 'z) class_state_scheme \<Rightarrow> usb_status_t" where
  "USB_DeviceClassGetHandleByDeviceHandle handle s =
     (if handle = cc_handle (s_UsbDeviceCommonClassStruct s)
      then kStatus_USB_Success else kStatus_USB_InvalidParameter)"

definition USB_DeviceClassGetDeviceHandle :: "u8 \<Rightarrow> ('d, 'z) class_state_scheme \<Rightarrow> usb_status_t + nat" where
  "USB_DeviceClassGetDeviceHandle controllerId s =
     (if cc_handle (s_UsbDeviceCommonClassStruct s) \<noteq> 0 \<and>
         controllerId = cc_controllerId (s_UsbDeviceCommonClassStruct s)
      then Inr (cc_handle (s_UsbDeviceCommonClassStruct s)) else Inl kStatus_USB_InvalidParameter)"

section \<open>Events\<close>

text \<open>
  The class loop runs once; the map from class types to drivers has one entry for it. An invalid
  request is passed on, any other failure of the class is an error.
\<close>

definition USB_DeviceClassEvent ::
  "(('d, 'z) class_state_scheme, 'y) usb_controller_scheme \<Rightarrow> ('d, 'z) class_state_scheme class_callback \<Rightarrow> nat \<Rightarrow> usb_device_class_event_t option \<Rightarrow>
   ('d, 'z) class_state_scheme \<Rightarrow> usb_status_t \<times> usb_device_class_event_t option \<times> ('d, 'z) class_state_scheme" where
  "USB_DeviceClassEvent c cb handle event s =
     (if event = None then (kStatus_USB_InvalidParameter, event, s)
      else if USB_DeviceClassGetHandleByDeviceHandle handle s \<noteq> kStatus_USB_Success
      then (kStatus_USB_InvalidParameter, event, s)
      else case USB_DeviceCdcAcmEvent c cb (classHandle s) event s of
        (errorReturn, event, s) \<Rightarrow>
          (if errorReturn = kStatus_USB_InvalidRequest then kStatus_USB_InvalidRequest
           else if errorReturn = kStatus_USB_Success then kStatus_USB_Success
           else kStatus_USB_Error, event, s))"

definition USB_DeviceClassCallback ::
  "(('d, 'z) class_state_scheme, 'y) usb_stack_scheme \<Rightarrow> ('d, 'z) class_state_scheme class_callback \<Rightarrow> ('d, 'z) class_state_scheme device_callback \<Rightarrow>
   nat \<Rightarrow> usb_device_event_t \<Rightarrow> ('d, 'z) class_state_scheme \<Rightarrow>
   (usb_status_t \<times> usb_device_event_t \<times> ('d, 'z) class_state_scheme) option" where
  "USB_DeviceClassCallback st cb device_cb handle event s =
     (if USB_DeviceClassGetHandleByDeviceHandle handle s \<noteq> kStatus_USB_Success
      then Some (USB_DeviceClassGetHandleByDeviceHandle handle s, event, s)
      else
        let s = (if event = EvBusReset then
              (let (_, s) = ControlPipeInit st handle s;
                   (_, _, s) = USB_DeviceClassEvent st cb handle (Some DeviceReset) s
               in s)
            else s)
        in device_cb handle event s)"

section \<open>Initialisation\<close>

definition USB_DeviceClassInit ::
  "(('d, 'z) class_state_scheme, 'y) usb_stack_scheme \<Rightarrow> u8 \<Rightarrow> ('d, 'z) class_state_scheme \<Rightarrow>
   usb_status_t \<times> nat option \<times> ('d, 'z) class_state_scheme" where
  "USB_DeviceClassInit st controllerId s =
     (case USB_DeviceClassAllocateHandle controllerId s of (error, s) \<Rightarrow>
        if error \<noteq> kStatus_USB_Success then (error, None, s)
        else
          let s = upd_common (\<lambda>c. c\<lparr>cc_configList := True\<rparr>) s;
              ((error, h), s) = DeviceInit st controllerId s;
              s = upd_common (\<lambda>c. c\<lparr>cc_handle := h\<rparr>) s
          in if error \<noteq> kStatus_USB_Success then
               (let (_, s) = DeviceDeinit st (cc_handle (s_UsbDeviceCommonClassStruct s)) s;
                    (_, s) = USB_DeviceClassFreeHandle controllerId s
                in (error, None, s))
             else
               let (_, ch, s) = USB_DeviceCdcAcmInit (USB_DeviceClassGetDeviceHandle controllerId s) (classHandle s) s;
                   s = s\<lparr>classHandle := ch\<rparr>
               in (error, Some (cc_handle (s_UsbDeviceCommonClassStruct s)), s))"

definition USB_DeviceClassDeinit ::
  "(('d, 'z) class_state_scheme, 'y) usb_stack_scheme \<Rightarrow> u8 \<Rightarrow> ('d, 'z) class_state_scheme \<Rightarrow> usb_status_t \<times> ('d, 'z) class_state_scheme" where
  "USB_DeviceClassDeinit st controllerId s =
     (if USB_DeviceClassGetHandleByControllerId controllerId s \<noteq> kStatus_USB_Success
      then (USB_DeviceClassGetHandleByControllerId controllerId s, s)
      else
        let (_, s) = USB_DeviceCdcAcmDeinit st (classHandle s) s;
            (error, s) = DeviceDeinit st (cc_handle (s_UsbDeviceCommonClassStruct s)) s
        in if error = kStatus_USB_Success
           then (error, snd (USB_DeviceClassFreeHandle controllerId s)) else (error, s))"

definition USB_DeviceClassGetSpeed ::
  "(('d, 'z) class_state_scheme, 'y) usb_stack_scheme \<Rightarrow> u8 \<Rightarrow> u8 \<Rightarrow> ('d, 'z) class_state_scheme \<Rightarrow> usb_status_t \<times> u8 option" where
  "USB_DeviceClassGetSpeed st controllerId speed s =
     (if USB_DeviceClassGetHandleByControllerId controllerId s \<noteq> kStatus_USB_Success
      then (USB_DeviceClassGetHandleByControllerId controllerId s, None)
      else case GetStatus st (cc_handle (s_UsbDeviceCommonClassStruct s)) kUSB_DeviceStatusSpeed (Some (ucast speed)) s of
        (error, v) \<Rightarrow> (error, map_option ucast v))"

end
