(* ===== verification/UsbVirtualCom.thy ===== *)
theory UsbVirtualCom
  imports UsbClass
begin

unbundle bit_operations_syntax

text \<open>
  The application side of the virtual COM port: \<open>usb_virtual_com.c\<close> and the loop of \<open>APPTask\<close> in
  \<open>main.cpp\<close>. The class callback answers transfer completions and class requests, the device
  callback answers bus and standard requests. The console output of \<open>usb_echo\<close> is left out, as
  are the clock, the interrupt controller and the delay of the initialisation.
\<close>

section \<open>State\<close>

record usb_cdc_acm_info_t =
  serialStateBuf :: "u8 list"
  dtePresent :: bool
  breakDuration :: u16
  dteStatus :: u8
  currentInterface :: u8
  uartState :: u16

record usb_cdc_vcom_struct_t =
  vc_deviceHandle :: nat
  cdcAcmHandle :: class_handle_t
  attach :: u8
  vc_speed :: u8
  startTransactions :: u8
  currentConfiguration :: u8
  currentInterfaceAlternateSetting :: "u8 list"

record 'd vcom_state = "'d class_state" +
  s_cdcVcom :: usb_cdc_vcom_struct_t
  s_usbCdcAcmInfo :: usb_cdc_acm_info_t
  s_lineCoding :: "u8 list"
  s_abstractState :: "u8 list"
  s_countryCode :: "u8 list"
  s_recvSize :: nat

definition COMM_FEATURE_DATA_SIZE :: nat where "COMM_FEATURE_DATA_SIZE = 2"
definition LINE_CODING_SIZE :: nat where "LINE_CODING_SIZE = 7"
definition CONTROLLER_ID :: u8 where "CONTROLLER_ID = 2"

definition line_coding_init :: "u8 list" where
  "line_coding_init =
     (let rate = (115200 :: 32 word) in
      [ucast (drop_bit 0 rate AND 0xFF), ucast (drop_bit 8 rate AND 0xFF),
       ucast (drop_bit 16 rate AND 0xFF), ucast (drop_bit 24 rate AND 0xFF), 0x00, 0x00, 0x08])"

definition upd_vcom :: "(usb_cdc_vcom_struct_t \<Rightarrow> usb_cdc_vcom_struct_t) \<Rightarrow> 'd vcom_state \<Rightarrow> 'd vcom_state" where
  "upd_vcom f s = s\<lparr>s_cdcVcom := f (s_cdcVcom s)\<rparr>"

definition upd_info :: "(usb_cdc_acm_info_t \<Rightarrow> usb_cdc_acm_info_t) \<Rightarrow> 'd vcom_state \<Rightarrow> 'd vcom_state" where
  "upd_info f s = s\<lparr>s_usbCdcAcmInfo := f (s_usbCdcAcmInfo s)\<rparr>"

definition transactions_on :: "'d vcom_state \<Rightarrow> bool" where
  "transactions_on s \<longleftrightarrow> 1 = attach (s_cdcVcom s) \<and> 1 = startTransactions (s_cdcVcom s)"

text \<open>Packet sizes of the data endpoints, bulk in first.\<close>

definition bulk_in_size :: "'d vcom_state \<Rightarrow> nat" where
  "bulk_in_size s = unat (maxPacketSize (g_UsbDeviceCdcVcomDicEndpoints (descs s) ! 0))"

definition bulk_out_size :: "'d vcom_state \<Rightarrow> nat" where
  "bulk_out_size s = unat (maxPacketSize (g_UsbDeviceCdcVcomDicEndpoints (descs s) ! 1))"

section \<open>The class callback\<close>

text \<open>Completion of a bulk transfer to the host.\<close>

definition on_send_response ::
  "('d vcom_state, 'y) usb_transfers_scheme \<Rightarrow> class_handle_t \<Rightarrow> ep_message \<Rightarrow> 'd vcom_state \<Rightarrow> usb_status_t \<times> 'd vcom_state" where
  "on_send_response c handle m s =
     (if msg_length m \<noteq> 0 \<and> msg_length m mod bulk_in_size s = 0
      then USB_DeviceCdcAcmSend c handle USB_CDC_VCOM_BULK_IN_ENDPOINT NullBuf 0 s
      else if transactions_on s then
        (if msg_buffer m \<noteq> NullBuf \<or> (msg_buffer m = NullBuf \<and> msg_length m = 0)
         then USB_DeviceCdcAcmRecv c handle USB_CDC_VCOM_BULK_OUT_ENDPOINT CurrRecvBuf (bulk_out_size s) s
         else (kStatus_USB_InvalidRequest, s))
      else (kStatus_USB_InvalidRequest, s))"

text \<open>Completion of a bulk transfer from the host.\<close>

definition on_recv_response ::
  "('d vcom_state, 'y) usb_transfers_scheme \<Rightarrow> class_handle_t \<Rightarrow> ep_message \<Rightarrow> 'd vcom_state \<Rightarrow> usb_status_t \<times> 'd vcom_state" where
  "on_recv_response c handle m s =
     (if transactions_on s then
        (let s = s\<lparr>s_recvSize := msg_length m\<rparr>
         in if 0 = s_recvSize s
            then USB_DeviceCdcAcmRecv c handle USB_CDC_VCOM_BULK_OUT_ENDPOINT CurrRecvBuf (bulk_out_size s) s
            else (kStatus_USB_Success, s))
      else (kStatus_USB_InvalidRequest, s))"

definition on_set_comm_feature :: "acm_request_param \<Rightarrow> usb_status_t \<times> acm_request_param" where
  "on_set_comm_feature p =
     (if 0x01 = setupValue p then
        (kStatus_USB_Success,
         if 1 = rp_isSetup p then p\<lparr>rp_buffer := AbstractStateBuf, rp_length := COMM_FEATURE_DATA_SIZE\<rparr> else p)
      else if 0x02 = setupValue p then
        (kStatus_USB_Success,
         if 1 = rp_isSetup p then p\<lparr>rp_buffer := CountryCodeBuf, rp_length := COMM_FEATURE_DATA_SIZE\<rparr> else p)
      else (kStatus_USB_InvalidRequest, p))"

definition on_get_comm_feature :: "acm_request_param \<Rightarrow> usb_status_t \<times> acm_request_param" where
  "on_get_comm_feature p =
     (if 0x01 = setupValue p
      then (kStatus_USB_Success, p\<lparr>rp_buffer := AbstractStateBuf, rp_length := COMM_FEATURE_DATA_SIZE\<rparr>)
      else if 0x02 = setupValue p
      then (kStatus_USB_Success, p\<lparr>rp_buffer := CountryCodeBuf, rp_length := COMM_FEATURE_DATA_SIZE\<rparr>)
      else (kStatus_USB_InvalidRequest, p))"

text \<open>\<open>SET_CONTROL_LINE_STATE\<close>: record the line state and notify the host of it.\<close>

definition line_state_info :: "acm_request_param \<Rightarrow> usb_cdc_acm_info_t \<Rightarrow> usb_cdc_acm_info_t" where
  "line_state_info p i =
     (let i = i\<lparr>dteStatus := ucast (setupValue p)\<rparr>;
          i = i\<lparr>uartState := (if dteStatus i AND 0x02 \<noteq> 0 then uartState i OR 0x02 else uartState i AND NOT 0x02)\<rparr>;
          i = i\<lparr>uartState := (if dteStatus i AND 0x01 \<noteq> 0 then uartState i OR 0x01 else uartState i AND NOT 0x01)\<rparr>;
          i = i\<lparr>dtePresent := (dteStatus i AND 0x01 \<noteq> 0)\<rparr>;
          b = (serialStateBuf i)[0 := 0xA1, 1 := 0x20, 2 := 0x00, 3 := 0x00, 4 := 0x00, 5 := 0x00, 6 := 0x02, 7 := 0x00];
          b = b[4 := ucast (interfaceIndex p)];
          b = b[8 := ucast (uartState i AND 0xFF), 9 := ucast (drop_bit 8 (uartState i) AND 0xFF)]
      in i\<lparr>serialStateBuf := b\<rparr>)"

definition on_set_control_line_state ::
  "('d vcom_state, 'y) usb_transfers_scheme \<Rightarrow> class_handle_t \<Rightarrow> acm_request_param \<Rightarrow> 'd vcom_state \<Rightarrow> usb_status_t \<times> 'd vcom_state" where
  "on_set_control_line_state c handle p s =
     (let s = upd_info (line_state_info p) s;
          s = (if hasSentState (g_cdcAcmHandle s) = 0
               then (let (error, s) = USB_DeviceCdcAcmSend c handle USB_CDC_VCOM_INTERRUPT_IN_ENDPOINT SerialStateBuf 10 s
                     in upd_acm (\<lambda>h. h\<lparr>hasSentState := 1\<rparr>) s)
               else s);
          s = (if 1 = attach (s_cdcVcom s) then upd_vcom (\<lambda>v. v\<lparr>startTransactions := 1\<rparr>) s else s)
      in (kStatus_USB_Success, s))"

fun USB_DeviceCdcVcomCallback :: "('d vcom_state, 'y) usb_transfers_scheme \<Rightarrow> 'd vcom_state class_callback" where
  "USB_DeviceCdcVcomCallback c handle kUSB_DeviceCdcEventSendResponse (Msg m) s =
     (case on_send_response c handle m s of (e, s) \<Rightarrow> (e, Msg m, s))"
| "USB_DeviceCdcVcomCallback c handle kUSB_DeviceCdcEventRecvResponse (Msg m) s =
     (case on_recv_response c handle m s of (e, s) \<Rightarrow> (e, Msg m, s))"
| "USB_DeviceCdcVcomCallback c handle kUSB_DeviceCdcEventSerialStateNotif p s =
     (kStatus_USB_Success, p, upd_acm (\<lambda>h. h\<lparr>hasSentState := 0\<rparr>) s)"
| "USB_DeviceCdcVcomCallback c handle kUSB_DeviceCdcEventSetCommFeature (Req p) s =
     (case on_set_comm_feature p of (e, p) \<Rightarrow> (e, Req p, s))"
| "USB_DeviceCdcVcomCallback c handle kUSB_DeviceCdcEventGetCommFeature (Req p) s =
     (case on_get_comm_feature p of (e, p) \<Rightarrow> (e, Req p, s))"
| "USB_DeviceCdcVcomCallback c handle kUSB_DeviceCdcEventGetLineCoding (Req p) s =
     (kStatus_USB_Success, Req (p\<lparr>rp_buffer := LineCodingBuf, rp_length := LINE_CODING_SIZE\<rparr>), s)"
| "USB_DeviceCdcVcomCallback c handle kUSB_DeviceCdcEventSetLineCoding (Req p) s =
     (kStatus_USB_Success,
      Req (if 1 = rp_isSetup p then p\<lparr>rp_buffer := LineCodingBuf, rp_length := LINE_CODING_SIZE\<rparr> else p), s)"
| "USB_DeviceCdcVcomCallback c handle kUSB_DeviceCdcEventSetControlLineState (Req p) s =
     (case on_set_control_line_state c handle p s of (e, s) \<Rightarrow> (e, Req p, s))"
| "USB_DeviceCdcVcomCallback c handle _ p s = (kStatus_USB_InvalidRequest, p, s)"

section \<open>The device callback\<close>

definition on_set_interface :: "u16 \<Rightarrow> 'd vcom_state \<Rightarrow> usb_status_t \<times> 'd vcom_state" where
  "on_set_interface v s =
     (if 0 \<noteq> attach (s_cdcVcom s) then
        (let interface = (ucast (drop_bit 8 (v AND 0xFF00)) :: u8);
             alternateSetting = (ucast (v AND 0x00FF) :: u8)
         in if interface = 0 \<or> interface = 1 then
              (if alternateSetting < 1
               then (kStatus_USB_Success,
                     upd_vcom (\<lambda>c. c\<lparr>currentInterfaceAlternateSetting :=
                       (currentInterfaceAlternateSetting c)[unat interface := alternateSetting]\<rparr>) s)
               else (kStatus_USB_InvalidRequest, s))
            else (kStatus_USB_InvalidRequest, s))
      else (kStatus_USB_InvalidRequest, s))"

fun USB_DeviceCallback :: "('d vcom_state, 'y) usb_stack_scheme \<Rightarrow> 'd vcom_state device_callback" where
  "USB_DeviceCallback st handle EvBusReset s =
     (let s = upd_vcom (\<lambda>v. v\<lparr>attach := 0, currentConfiguration := 0\<rparr>) s in
      case USB_DeviceClassGetSpeed st CONTROLLER_ID (vc_speed (s_cdcVcom s)) s of
        (kStatus_USB_Success, Some sp) \<Rightarrow>
          (let s = upd_vcom (\<lambda>v. v\<lparr>vc_speed := sp\<rparr>) s in
           case USB_DeviceSetSpeed sp (descs s) of
             None \<Rightarrow> None | Some (_, d) \<Rightarrow> Some (kStatus_USB_Success, EvBusReset, s\<lparr>descs := d\<rparr>))
      | (_, Some sp) \<Rightarrow> Some (kStatus_USB_Success, EvBusReset, upd_vcom (\<lambda>v. v\<lparr>vc_speed := sp\<rparr>) s)
      | (_, None) \<Rightarrow> Some (kStatus_USB_Success, EvBusReset, s))"
| "USB_DeviceCallback st handle (EvSetConfiguration n) s =
     (if 0 = n then
        Some (kStatus_USB_Success, EvSetConfiguration n, upd_vcom (\<lambda>v. v\<lparr>attach := 0, currentConfiguration := 0\<rparr>) s)
      else if 1 = n then
        (let s = upd_vcom (\<lambda>v. v\<lparr>attach := 1, currentConfiguration := n\<rparr>) s;
             (_, s) = USB_DeviceCdcAcmRecv st (cdcAcmHandle (s_cdcVcom s))
                        USB_CDC_VCOM_BULK_OUT_ENDPOINT CurrRecvBuf (bulk_out_size s) s
         in Some (kStatus_USB_Success, EvSetConfiguration n, s))
      else Some (kStatus_USB_InvalidRequest, EvSetConfiguration n, s))"
| "USB_DeviceCallback st handle (EvSetInterface v) s =
     (case on_set_interface v s of (e, s) \<Rightarrow> Some (e, EvSetInterface v, s))"
| "USB_DeviceCallback st handle (EvGetConfiguration p) s =
     (case p of None \<Rightarrow> Some (kStatus_USB_InvalidRequest, EvGetConfiguration None, s)
      | Some _ \<Rightarrow> Some (kStatus_USB_Success, EvGetConfiguration (Some (currentConfiguration (s_cdcVcom s))), s))"
| "USB_DeviceCallback st handle (EvGetInterface p) s =
     (case p of None \<Rightarrow> Some (kStatus_USB_InvalidRequest, EvGetInterface None, s)
      | Some v \<Rightarrow>
          (let interface = (ucast (drop_bit 8 (v AND 0xFF00)) :: u8) in
           if interface < 2
           then Some (kStatus_USB_Success, EvGetInterface (Some ((v AND 0xFF00) OR
                  ucast (currentInterfaceAlternateSetting (s_cdcVcom s) ! unat interface))), s)
           else Some (kStatus_USB_InvalidRequest, EvGetInterface (Some v), s)))"
| "USB_DeviceCallback st handle (EvGetDeviceDescriptor p) s =
     (case p of None \<Rightarrow> Some (kStatus_USB_InvalidRequest, EvGetDeviceDescriptor None, s)
      | Some g \<Rightarrow> (case USB_DeviceGetDeviceDescriptor of
          (e, r) \<Rightarrow> Some (e, EvGetDeviceDescriptor (Some (if r = None then g else g\<lparr>gd_reply := r\<rparr>)), s)))"
| "USB_DeviceCallback st handle (EvGetConfigurationDescriptor p) s =
     (case p of None \<Rightarrow> Some (kStatus_USB_InvalidRequest, EvGetConfigurationDescriptor None, s)
      | Some g \<Rightarrow> (case USB_DeviceGetConfigurationDescriptor (descs s) (gd_index g) of
          (e, r) \<Rightarrow> Some (e, EvGetConfigurationDescriptor (Some (if r = None then g else g\<lparr>gd_reply := r\<rparr>)), s)))"
| "USB_DeviceCallback st handle (EvGetStringDescriptor p) s =
     (case p of None \<Rightarrow> Some (kStatus_USB_InvalidRequest, EvGetStringDescriptor None, s)
      | Some g \<Rightarrow> (case USB_DeviceGetStringDescriptor (gd_languageId g) (gd_index g) of
          (e, r) \<Rightarrow> Some (e, EvGetStringDescriptor (Some (if r = None then g else g\<lparr>gd_reply := r\<rparr>)), s)))"
| "USB_DeviceCallback st handle (EvVendorRequest r) s = Some (kStatus_USB_InvalidRequest, EvVendorRequest r, s)"
| "USB_DeviceCallback st handle (EvOther n) s = Some (kStatus_USB_InvalidRequest, EvOther n, s)"

section \<open>Initialisation and the application task\<close>

definition USB_DeviceApplicationInit :: "('d vcom_state, 'y) usb_stack_scheme \<Rightarrow> 'd vcom_state \<Rightarrow> 'd vcom_state" where
  "USB_DeviceApplicationInit st s =
     (let s = upd_vcom (\<lambda>v. v\<lparr>vc_speed := USB_SPEED_FULL, attach := 0, cdcAcmHandle := NullHandle, vc_deviceHandle := 0\<rparr>) s;
          (error, h, s) = USB_DeviceClassInit st CONTROLLER_ID s;
          s = (case h of None \<Rightarrow> s | Some h \<Rightarrow> upd_vcom (\<lambda>v. v\<lparr>vc_deviceHandle := h\<rparr>) s);
          s = (if error \<noteq> kStatus_USB_Success then s
               else upd_vcom (\<lambda>v. v\<lparr>cdcAcmHandle := classHandle s\<rparr>) s)
      in snd (DeviceRun st (vc_deviceHandle (s_cdcVcom s)) s))"

text \<open>One pass of the loop of \<open>APPTask\<close>: \<open>len\<close> is what \<open>snprintf\<close> returned for the message.\<close>

definition app_task_pass :: "('d vcom_state, 'y) usb_transfers_scheme \<Rightarrow> nat \<Rightarrow> 'd vcom_state \<Rightarrow> 'd vcom_state" where
  "app_task_pass c len s =
     (if 1 = attach (s_cdcVcom s) \<and> 1 = startTransactions (s_cdcVcom s)
      then snd (USB_DeviceCdcAcmSend c (cdcAcmHandle (s_cdcVcom s)) USB_CDC_VCOM_BULK_IN_ENDPOINT (ClientBuf 0) len s)
      else s)"

text \<open>
  The invariant: attached exactly in configuration 1, both interfaces in setting 0, descriptors
  and endpoint tables of one speed, the notification buffer of its size and the serial state
  consistent with the recorded presence of the terminal.
\<close>

definition info_ok :: "usb_cdc_acm_info_t \<Rightarrow> bool" where
  "info_ok i \<longleftrightarrow> length (serialStateBuf i) = 10 \<and> uartState i \<in> {0, 1, 2, 3} \<and>
     (dtePresent i \<longleftrightarrow> uartState i AND 1 \<noteq> 0)"

definition vcom_ok :: "'d vcom_state \<Rightarrow> bool" where
  "vcom_ok s \<longleftrightarrow>
     (let v = s_cdcVcom s in
      (attach v = 0 \<and> currentConfiguration v = 0 \<or> attach v = 1 \<and> currentConfiguration v = 1) \<and>
      startTransactions v \<in> {0, 1} \<and> currentInterfaceAlternateSetting v = [0, 0]) \<and>
     (\<exists>b. descs s = descriptors_for b) \<and> info_ok (s_usbCdcAcmInfo s)"

lemma line_state_info_ok: "info_ok i \<Longrightarrow> info_ok (line_state_info p i)"
  by (auto simp: info_ok_def line_state_info_def Let_def)

section \<open>Preservation\<close>

lemma vcom_ok_update [simp]:
  "vcom_ok (s\<lparr>s_recvSize := n\<rparr>) = vcom_ok s" "vcom_ok (s\<lparr>dev := d\<rparr>) = vcom_ok s"
  "vcom_ok (s\<lparr>classHandle := ch\<rparr>) = vcom_ok s" "vcom_ok (upd_acm f s) = vcom_ok s" "vcom_ok (upd_common g s) = vcom_ok s"
  by (simp_all add: vcom_ok_def Let_def upd_acm_def upd_common_def)

text \<open>Sizes of the buffers a transfer can name; the message of \<open>APPTask\<close> has 128 bytes.\<close>

fun buffer_size :: "ubuf \<Rightarrow> nat" where
  "buffer_size CurrRecvBuf = 512"
| "buffer_size SerialStateBuf = 10"
| "buffer_size LineCodingBuf = LINE_CODING_SIZE"
| "buffer_size AbstractStateBuf = COMM_FEATURE_DATA_SIZE"
| "buffer_size CountryCodeBuf = COMM_FEATURE_DATA_SIZE"
| "buffer_size (ClientBuf i) = 128"
| "buffer_size StandardBuf = 2"
| "buffer_size (DescriptorBuf b) = length b"
| "buffer_size (SetupBuf p) = 8"
| "buffer_size NullBuf = 0"
| "buffer_size InvalidTransferBuffer = 0"

text \<open>What two states have in common when only the application's own data differ.\<close>

definition same_device :: "'d vcom_state \<Rightarrow> 'd vcom_state \<Rightarrow> bool" where
  "same_device s t \<longleftrightarrow> dev t = dev s \<and> g_cdcAcmHandle t = g_cdcAcmHandle s \<and>
     s_UsbDeviceCommonClassStruct t = s_UsbDeviceCommonClassStruct s \<and> classHandle t = classHandle s \<and> attach (s_cdcVcom t) = attach (s_cdcVcom s)"

lemma bulk_out_size_bounded: "vcom_ok s \<Longrightarrow> bulk_out_size s \<le> 512"
  by (auto simp: vcom_ok_def bulk_out_size_def descriptors_for_def endpoints_for_def usb_consts)

text \<open>
  The application on top of the class driver: its callback keeps every property of the device
  that implies the invariant and does not look at the application's own data.
\<close>

locale vcom_client = acm_transfers P c buffer_size
  for P :: "'d vcom_state \<Rightarrow> bool" and c :: "('d vcom_state, 'y) usb_transfers_scheme" +
  assumes consistent: "P s \<Longrightarrow> vcom_ok s"
    and keep_app: "P s \<Longrightarrow> vcom_ok t \<Longrightarrow> same_device s t \<Longrightarrow> P t"
begin

lemma keep_line_state:
  assumes "P s"
  shows "P (snd (on_set_control_line_state c h p s))"
proof -
  let ?s = "upd_info (line_state_info p) s"
  define t where "t = (if hasSentState (g_cdcAcmHandle ?s) = 0
    then upd_acm (\<lambda>h. h\<lparr>hasSentState := 1\<rparr>)
           (snd (USB_DeviceCdcAcmSend c h USB_CDC_VCOM_INTERRUPT_IN_ENDPOINT SerialStateBuf 10 ?s)) else ?s)"
  have "vcom_ok ?s"
    using consistent [OF assms] by (simp add: vcom_ok_def Let_def upd_info_def line_state_info_ok)
  with assms have "P ?s"
    by (rule keep_app) (simp add: same_device_def upd_info_def)
  then have t: "P t"
    by (simp add: t_def keep_send transfer_rules)
  have "P (upd_vcom (\<lambda>v. v\<lparr>startTransactions := 1\<rparr>) t)"
    by (rule keep_app [OF t], insert consistent [OF t])
      (simp_all add: same_device_def upd_vcom_def vcom_ok_def Let_def)
  moreover have "snd (on_set_control_line_state c h p s) =
      (if 1 = attach (s_cdcVcom t) then upd_vcom (\<lambda>v. v\<lparr>startTransactions := 1\<rparr>) t else t)"
    unfolding on_set_control_line_state_def Let_def case_prod_beta t_def by simp
  ultimately show ?thesis
    using t by simp
qed

lemma keep_recv_size: "P s \<Longrightarrow> P (s\<lparr>s_recvSize := n\<rparr>)"
  by (rule keep_app) (simp_all add: consistent same_device_def)

lemma keep_callback:
  assumes "P s"
  shows "P (snd (snd (USB_DeviceCdcVcomCallback c h ev p s)))"
  using assms
  by (cases "(c, h, ev, p, s)" rule: USB_DeviceCdcVcomCallback.cases)
     (simp_all add: case_prod_beta on_send_response_def on_recv_response_def Let_def keep_send keep_recv keep_line_state
       keep_recv_size bulk_out_size_bounded consistent transfer_rules)

lemma keep_app_pass: "P s \<Longrightarrow> n \<le> 128 \<Longrightarrow> P (app_task_pass c n s)"
  by (simp add: app_task_pass_def keep_send)

end

sublocale vcom_client \<subseteq> acm_completions P c buffer_size "USB_DeviceCdcVcomCallback c"
  by unfold_locales (rule keep_callback)

text \<open>Static data before the initialisation.\<close>

definition vcom_boot :: "'d \<Rightarrow> 'd vcom_state" where
  "vcom_boot d =
     \<lparr>g_cdcAcmHandle = \<lparr>acm_handle = 0, configStruct = False, commInterfaceHandle = None, dataInterfaceHandle = None,
        bulkIn = \<lparr>pipeDataBuffer = NullBuf, pipeDataLen = 0, pipeStall = 0, pipe_ep = 0, isBusy = 0\<rparr>,
        bulkOut = \<lparr>pipeDataBuffer = NullBuf, pipeDataLen = 0, pipeStall = 0, pipe_ep = 0, isBusy = 0\<rparr>,
        interruptIn = \<lparr>pipeDataBuffer = NullBuf, pipeDataLen = 0, pipeStall = 0, pipe_ep = 0, isBusy = 0\<rparr>,
        acm_configuration = 0, interfaceNumber = 0, alternate = 0, hasSentState = 0\<rparr>,
      descs = descriptors_init, dev = d,
      s_UsbDeviceCommonClassStruct = \<lparr>cc_handle = 0, cc_configList = False, cc_controllerId = 0,
        setupBuffer = \<lparr>bmRequestType = 0, bRequest = 0, wValue = 0, wIndex = 0, wLength = 0\<rparr>,
        standardTranscationBuffer = 0\<rparr>,
      classHandle = NullHandle,
      s_cdcVcom = \<lparr>vc_deviceHandle = 0, cdcAcmHandle = NullHandle, attach = 0, vc_speed = 0, startTransactions = 0,
        currentConfiguration = 0, currentInterfaceAlternateSetting = [0, 0]\<rparr>,
      s_usbCdcAcmInfo = \<lparr>serialStateBuf = replicate 10 0, dtePresent = False, breakDuration = 0, dteStatus = 0,
        currentInterface = 0, uartState = 0\<rparr>,
      s_lineCoding = line_coding_init, s_abstractState = [0, 0], s_countryCode = [0, 0], s_recvSize = 0\<rparr>"

lemma vcom_boot_ok: "vcom_ok (vcom_boot d)"
  by (auto simp: vcom_ok_def vcom_boot_def Let_def descriptors_init_full info_ok_def)


end
