(* ===== verification/UsbDci.thy ===== *)
theory UsbDci
  imports UsbClass
begin

unbundle bit_operations_syntax

text \<open>
  The device controller interface, \<open>usb_device_dci.c\<close>: the one device instance with its endpoint
  callback table, transfers, endpoint control, status queries and changes, bus reset and the
  notifications that come up from the controller driver. The controller driver (\<open>usb_device_ehci.c\<close>
  and the registers below it) is a record of functions on its own state \<open>'h\<close>. Opening, closing,
  halting and resuming an endpoint may cancel transfers: the driver then calls back into this layer
  before it goes on, which is what the type \<open>run\<close> expresses. The calls that leave this layer
  upwards, the completion functions and the device callback, are arguments.
\<close>

section \<open>State\<close>

record usb_device_callback_message_struct_t =
  ms_buffer :: ubuf
  ms_length :: nat
  code :: u8
  ms_isSetup :: u8

record usb_device_endpoint_callback_struct_t =
  callbackFn :: ep_callback
  callbackParam :: bool
  ep_isBusy :: u8

record 'h usb_device_struct_t =
  controllerHandle :: nat
  controllerInterface :: bool
  deviceCallback :: bool
  epCallback :: "usb_device_endpoint_callback_struct_t list"
  deviceAddress :: u8
  controllerId :: u8
  dev_state :: u8
  isResetting :: u8
  hw :: 'h

definition USB_DEVICE_CONFIG_ENDPOINTS :: nat where "USB_DEVICE_CONFIG_ENDPOINTS = 4"
definition USB_CANCELLED_TRANSFER_LENGTH :: nat where "USB_CANCELLED_TRANSFER_LENGTH = 0xFFFFFFFF"
definition kUSB_DeviceNotifyBusReset :: u8 where "kUSB_DeviceNotifyBusReset = 0x10"

definition kUSB_DeviceStateConfigured :: u8 where "kUSB_DeviceStateConfigured = 0"
definition kUSB_DeviceStateAddress :: u8 where "kUSB_DeviceStateAddress = 1"
definition kUSB_DeviceStateDefault :: u8 where "kUSB_DeviceStateDefault = 2"
definition kUSB_DeviceStateAddressing :: u8 where "kUSB_DeviceStateAddressing = 3"

lemmas dev_states =
  kUSB_DeviceStateConfigured_def kUSB_DeviceStateAddress_def kUSB_DeviceStateDefault_def kUSB_DeviceStateAddressing_def

text \<open>
  The controller driver. Commands run to their end or report a cancelled transfer and go on from
  the state they then find; queries read.
\<close>

datatype usb_device_control_type_t =
    kUSB_DeviceControlRun | kUSB_DeviceControlStop
  | kUSB_DeviceControlEndpointInit u8 usb_device_endpoint_struct_t
  | kUSB_DeviceControlEndpointDeinit u8 | kUSB_DeviceControlEndpointStall u8 | kUSB_DeviceControlEndpointUnstall u8
  | kUSB_DeviceControlSetDeviceAddress u8 | kUSB_DeviceControlPreSetDeviceAddress u8
  | kUSB_DeviceControlResume | kUSB_DeviceControlSleepResume | kUSB_DeviceControlSuspend | kUSB_DeviceControlSleep
  | kUSB_DeviceControlSetDefaultStatus | kUSB_DeviceControlSetOtgStatus "u8 option"

datatype usb_device_query_t =
    kUSB_DeviceControlGetDeviceStatus | kUSB_DeviceControlGetEndpointStatus u8 | kUSB_DeviceControlGetSynchFrame
  | kUSB_DeviceControlGetSpeed | kUSB_DeviceControlGetOtgStatus

datatype 'h run = Done usb_status_t 'h | Cancelled u8 ubuf 'h "'h \<Rightarrow> 'h run"

record 'h usb_device_controller_interface_struct_t =
  deviceInit :: "u8 \<Rightarrow> 'h \<Rightarrow> (usb_status_t \<times> nat) \<times> 'h"
  deviceDeinit :: "nat \<Rightarrow> 'h \<Rightarrow> usb_status_t \<times> 'h"
  deviceSend :: "nat \<Rightarrow> u8 \<Rightarrow> ubuf \<Rightarrow> nat \<Rightarrow> 'h \<Rightarrow> usb_status_t \<times> 'h"
  deviceRecv :: "nat \<Rightarrow> u8 \<Rightarrow> ubuf \<Rightarrow> nat \<Rightarrow> 'h \<Rightarrow> usb_status_t \<times> 'h"
  deviceCancel :: "nat \<Rightarrow> u8 \<Rightarrow> 'h \<Rightarrow> 'h run"
  deviceControl :: "nat \<Rightarrow> usb_device_control_type_t \<Rightarrow> 'h \<Rightarrow> 'h run"
  deviceQuery :: "nat \<Rightarrow> usb_device_query_t \<Rightarrow> u16 \<Rightarrow> 'h \<Rightarrow> usb_status_t \<times> u16"

type_synonym ('h, 'z) dstate = "('h usb_device_struct_t, 'z) cdc_state_scheme"

text \<open>The upward calls: the notification of a cancelled transfer, a completion function, the device callback.\<close>

type_synonym ('h, 'z) notify =
  "usb_device_callback_message_struct_t \<Rightarrow> ('h, 'z) dstate \<Rightarrow> usb_status_t \<times> ('h, 'z) dstate"

definition upd_dev :: "('h usb_device_struct_t \<Rightarrow> 'h usb_device_struct_t) \<Rightarrow> ('h, 'z) dstate \<Rightarrow> ('h, 'z) dstate" where
  "upd_dev f s = s\<lparr>dev := f (dev s)\<rparr>"

definition put_hw :: "'h \<Rightarrow> ('h, 'z) dstate \<Rightarrow> ('h, 'z) dstate" where
  "put_hw h s = upd_dev (\<lambda>d. d\<lparr>hw := h\<rparr>) s"

definition endpoint_number :: "u8 \<Rightarrow> nat" where
  "endpoint_number a = unat (a AND 0x0F)"

definition callback_index :: "u8 \<Rightarrow> nat" where
  "callback_index a = 2 * endpoint_number a + unat (drop_bit 7 (a AND 0x80))"

definition set_busy :: "nat \<Rightarrow> u8 \<Rightarrow> ('h, 'z) dstate \<Rightarrow> ('h, 'z) dstate" where
  "set_busy i b s = upd_dev (\<lambda>d. d\<lparr>epCallback := (epCallback d)[i := (epCallback d ! i)\<lparr>ep_isBusy := b\<rparr>]\<rparr>) s"

definition set_callback :: "nat \<Rightarrow> ep_callback \<Rightarrow> bool \<Rightarrow> ('h, 'z) dstate \<Rightarrow> ('h, 'z) dstate" where
  "set_callback i f p s =
     upd_dev (\<lambda>d. d\<lparr>epCallback := (epCallback d)[i := \<lparr>callbackFn = f, callbackParam = p, ep_isBusy = 0\<rparr>]\<rparr>) s"

definition no_callbacks :: "usb_device_endpoint_callback_struct_t list" where
  "no_callbacks = replicate (2 * USB_DEVICE_CONFIG_ENDPOINTS) \<lparr>callbackFn = NoCallback, callbackParam = False, ep_isBusy = 0\<rparr>"

section \<open>The device table\<close>

definition USB_DeviceAllocateHandle :: "u8 \<Rightarrow> ('h, 'z) dstate \<Rightarrow> usb_status_t \<times> ('h, 'z) dstate" where
  "USB_DeviceAllocateHandle n s =
     (if controllerHandle (dev s) \<noteq> 0 \<and> n = controllerId (dev s) then (kStatus_USB_Error, s)
      else if controllerHandle (dev s) = 0 then (kStatus_USB_Success, upd_dev (\<lambda>d. d\<lparr>controllerId := n\<rparr>) s)
      else (kStatus_USB_Busy, s))"

definition USB_DeviceFreeHandle :: "('h, 'z) dstate \<Rightarrow> ('h, 'z) dstate" where
  "USB_DeviceFreeHandle s = upd_dev (\<lambda>d. d\<lparr>controllerHandle := 0, controllerId := 0\<rparr>) s"

text \<open>Only the EHCI interface is configured; its controllers have the indices 2 and 3.\<close>

definition USB_DeviceGetControllerInterface :: "u8 \<Rightarrow> usb_status_t" where
  "USB_DeviceGetControllerInterface n = (if n = 2 \<or> n = 3 then kStatus_USB_Success else kStatus_USB_ControllerNotFound)"

section \<open>Transfers\<close>

definition USB_DeviceTransfer ::
  "'h usb_device_controller_interface_struct_t \<Rightarrow> nat \<Rightarrow> u8 \<Rightarrow> ubuf \<Rightarrow> nat \<Rightarrow> ('h, 'z) dstate \<Rightarrow>
   usb_status_t \<times> ('h, 'z) dstate" where
  "USB_DeviceTransfer H handle a buffer len s =
     (if handle = 0 then (kStatus_USB_InvalidHandle, s)
      else if \<not> controllerInterface (dev s) then (kStatus_USB_ControllerNotFound, s)
      else if endpoint_number a \<ge> USB_DEVICE_CONFIG_ENDPOINTS then (kStatus_USB_InvalidParameter, s)
      else if ep_isBusy (epCallback (dev s) ! callback_index a) \<noteq> 0 then (kStatus_USB_Busy, s)
      else
        let s = set_busy (callback_index a) 1 s;
            (status, h) = (if a AND 0x80 \<noteq> 0 then deviceSend H else deviceRecv H)
                            (controllerHandle (dev s)) a buffer len (hw (dev s));
            s = put_hw h s
        in (status, if status \<noteq> kStatus_USB_Success then set_busy (callback_index a) 0 s else s))"

definition USB_DeviceSendRequest ::
  "'h usb_device_controller_interface_struct_t \<Rightarrow> nat \<Rightarrow> u8 \<Rightarrow> ubuf \<Rightarrow> nat \<Rightarrow> ('h, 'z) dstate \<Rightarrow>
   usb_status_t \<times> ('h, 'z) dstate" where
  "USB_DeviceSendRequest H handle a buffer len s = USB_DeviceTransfer H handle ((a AND 0x0F) OR push_bit 7 1) buffer len s"

definition USB_DeviceRecvRequest ::
  "'h usb_device_controller_interface_struct_t \<Rightarrow> nat \<Rightarrow> u8 \<Rightarrow> ubuf \<Rightarrow> nat \<Rightarrow> ('h, 'z) dstate \<Rightarrow>
   usb_status_t \<times> ('h, 'z) dstate" where
  "USB_DeviceRecvRequest H handle a buffer len s = USB_DeviceTransfer H handle ((a AND 0x0F) OR push_bit 7 0) buffer len s"

section \<open>Controller commands\<close>

primrec run_control ::
  "('h, 'z) notify \<Rightarrow> 'h run \<Rightarrow> ('h, 'z) dstate \<Rightarrow> usb_status_t \<times> ('h, 'z) dstate" where
  "run_control notify (Done status h) s = (status, put_hw h s)"
| "run_control notify (Cancelled a buffer h k) s =
     (let (_, s) = notify \<lparr>ms_buffer = buffer, ms_length = USB_CANCELLED_TRANSFER_LENGTH, code = a, ms_isSetup = 0\<rparr>
                     (put_hw h s)
      in run_control notify (k (hw (dev s))) s)"

definition USB_DeviceControl ::
  "'h usb_device_controller_interface_struct_t \<Rightarrow> ('h, 'z) notify \<Rightarrow> nat \<Rightarrow> usb_device_control_type_t \<Rightarrow>
   ('h, 'z) dstate \<Rightarrow> usb_status_t \<times> ('h, 'z) dstate" where
  "USB_DeviceControl H notify handle type s =
     (if handle = 0 then (kStatus_USB_InvalidHandle, s)
      else if controllerInterface (dev s)
      then run_control notify (deviceControl H (controllerHandle (dev s)) type (hw (dev s))) s
      else (kStatus_USB_ControllerNotFound, s))"

text \<open>The same function for the commands that only read.\<close>

definition device_query ::
  "'h usb_device_controller_interface_struct_t \<Rightarrow> nat \<Rightarrow> usb_device_query_t \<Rightarrow> u16 \<Rightarrow> ('h, 'z) dstate \<Rightarrow>
   usb_status_t \<times> u16" where
  "device_query H handle q v s =
     (if handle = 0 then (kStatus_USB_InvalidHandle, v)
      else if controllerInterface (dev s) then deviceQuery H (controllerHandle (dev s)) q v (hw (dev s))
      else (kStatus_USB_ControllerNotFound, v))"

definition USB_DeviceRun ::
  "'h usb_device_controller_interface_struct_t \<Rightarrow> ('h, 'z) notify \<Rightarrow> nat \<Rightarrow> ('h, 'z) dstate \<Rightarrow>
   usb_status_t \<times> ('h, 'z) dstate" where
  "USB_DeviceRun H notify handle s = USB_DeviceControl H notify handle kUSB_DeviceControlRun s"

definition USB_DeviceStop ::
  "'h usb_device_controller_interface_struct_t \<Rightarrow> ('h, 'z) notify \<Rightarrow> nat \<Rightarrow> ('h, 'z) dstate \<Rightarrow>
   usb_status_t \<times> ('h, 'z) dstate" where
  "USB_DeviceStop H notify handle s = USB_DeviceControl H notify handle kUSB_DeviceControlStop s"

definition USB_DeviceCancel ::
  "'h usb_device_controller_interface_struct_t \<Rightarrow> ('h, 'z) notify \<Rightarrow> nat \<Rightarrow> u8 \<Rightarrow> ('h, 'z) dstate \<Rightarrow>
   usb_status_t \<times> ('h, 'z) dstate" where
  "USB_DeviceCancel H notify handle a s =
     (if handle = 0 then (kStatus_USB_InvalidHandle, s)
      else if controllerInterface (dev s)
      then run_control notify (deviceCancel H (controllerHandle (dev s)) a (hw (dev s))) s
      else (kStatus_USB_ControllerNotFound, s))"

section \<open>Endpoints\<close>

text \<open>The initialisation block is a table entry and the flag for terminating zero-length packets.\<close>

definition USB_DeviceInitEndpoint ::
  "'h usb_device_controller_interface_struct_t \<Rightarrow> ('h, 'z) notify \<Rightarrow> nat \<Rightarrow> u8 \<Rightarrow> usb_device_endpoint_struct_t \<Rightarrow>
   ep_callback \<Rightarrow> bool \<Rightarrow> ('h, 'z) dstate \<Rightarrow> usb_status_t \<times> ('h, 'z) dstate" where
  "USB_DeviceInitEndpoint H notify handle zlt e f p s =
     (if handle = 0 then (kStatus_USB_InvalidHandle, s)
      else if endpoint_number (endpointAddress e) < USB_DEVICE_CONFIG_ENDPOINTS
      then USB_DeviceControl H notify handle (kUSB_DeviceControlEndpointInit zlt e)
             (set_callback (callback_index (endpointAddress e)) f p s)
      else (kStatus_USB_InvalidParameter, s))"

definition USB_DeviceDeinitEndpoint ::
  "'h usb_device_controller_interface_struct_t \<Rightarrow> ('h, 'z) notify \<Rightarrow> nat \<Rightarrow> u8 \<Rightarrow> ('h, 'z) dstate \<Rightarrow>
   usb_status_t \<times> ('h, 'z) dstate" where
  "USB_DeviceDeinitEndpoint H notify handle a s =
     (if handle = 0 then (kStatus_USB_InvalidHandle, s)
      else
        let (status, s) = USB_DeviceControl H notify handle (kUSB_DeviceControlEndpointDeinit a) s
        in if endpoint_number a < USB_DEVICE_CONFIG_ENDPOINTS
           then (status, set_callback (callback_index a) NoCallback False s)
           else (kStatus_USB_InvalidParameter, s))"

definition USB_DeviceStallEndpoint ::
  "'h usb_device_controller_interface_struct_t \<Rightarrow> ('h, 'z) notify \<Rightarrow> nat \<Rightarrow> u8 \<Rightarrow> ('h, 'z) dstate \<Rightarrow>
   usb_status_t \<times> ('h, 'z) dstate" where
  "USB_DeviceStallEndpoint H notify handle a s =
     (if endpoint_number a < USB_DEVICE_CONFIG_ENDPOINTS
      then USB_DeviceControl H notify handle (kUSB_DeviceControlEndpointStall a) s
      else (kStatus_USB_InvalidParameter, s))"

definition USB_DeviceUnstallEndpoint ::
  "'h usb_device_controller_interface_struct_t \<Rightarrow> ('h, 'z) notify \<Rightarrow> nat \<Rightarrow> u8 \<Rightarrow> ('h, 'z) dstate \<Rightarrow>
   usb_status_t \<times> ('h, 'z) dstate" where
  "USB_DeviceUnstallEndpoint H notify handle a s =
     (if endpoint_number a < USB_DEVICE_CONFIG_ENDPOINTS
      then USB_DeviceControl H notify handle (kUSB_DeviceControlEndpointUnstall a) s
      else (kStatus_USB_InvalidParameter, s))"

section \<open>Status\<close>

definition USB_DeviceGetStatus ::
  "'h usb_device_controller_interface_struct_t \<Rightarrow> nat \<Rightarrow> usb_device_status_t \<Rightarrow> u16 option \<Rightarrow> ('h, 'z) dstate \<Rightarrow>
   usb_status_t \<times> u16 option" where
  "USB_DeviceGetStatus H handle type param s =
     (case param of None \<Rightarrow> (kStatus_USB_InvalidParameter, None)
      | Some v \<Rightarrow>
          apsnd Some (case type of
            kUSB_DeviceStatusSpeed \<Rightarrow> device_query H handle kUSB_DeviceControlGetSpeed v s
          | kUSB_DeviceStatusOtg \<Rightarrow> device_query H handle kUSB_DeviceControlGetOtgStatus v s
          | kUSB_DeviceStatusDeviceState \<Rightarrow> (kStatus_USB_Success, ucast (dev_state (dev s)))
          | kUSB_DeviceStatusAddress \<Rightarrow> (kStatus_USB_Success, ucast (deviceAddress (dev s)))
          | kUSB_DeviceStatusDevice \<Rightarrow> device_query H handle kUSB_DeviceControlGetDeviceStatus v s
          | kUSB_DeviceStatusEndpoint a \<Rightarrow> device_query H handle (kUSB_DeviceControlGetEndpointStatus a) v s
          | kUSB_DeviceStatusSynchFrame \<Rightarrow> device_query H handle kUSB_DeviceControlGetSynchFrame v s
          | _ \<Rightarrow> (kStatus_USB_Error, v)))"

definition USB_DeviceSetStatus ::
  "'h usb_device_controller_interface_struct_t \<Rightarrow> ('h, 'z) notify \<Rightarrow> nat \<Rightarrow> usb_device_status_t \<Rightarrow> u8 option \<Rightarrow>
   ('h, 'z) dstate \<Rightarrow> usb_status_t \<times> ('h, 'z) dstate" where
  "USB_DeviceSetStatus H notify handle type param s =
     (case type of
        kUSB_DeviceStatusOtg \<Rightarrow> USB_DeviceControl H notify handle (kUSB_DeviceControlSetOtgStatus param) s
      | kUSB_DeviceStatusDeviceState \<Rightarrow>
          (case param of None \<Rightarrow> (kStatus_USB_Error, s)
           | Some v \<Rightarrow> (kStatus_USB_Success, upd_dev (\<lambda>d. d\<lparr>dev_state := v\<rparr>) s))
      | kUSB_DeviceStatusAddress \<Rightarrow>
          (if kUSB_DeviceStateAddressing \<noteq> dev_state (dev s) then
             (case param of None \<Rightarrow> (kStatus_USB_Error, s)
              | Some v \<Rightarrow>
                  USB_DeviceControl H notify handle (kUSB_DeviceControlPreSetDeviceAddress v)
                    (upd_dev (\<lambda>d. d\<lparr>deviceAddress := v, dev_state := kUSB_DeviceStateAddressing\<rparr>) s))
           else USB_DeviceControl H notify handle (kUSB_DeviceControlSetDeviceAddress (deviceAddress (dev s))) s)
      | kUSB_DeviceStatusBusResume \<Rightarrow> USB_DeviceControl H notify handle kUSB_DeviceControlResume s
      | kUSB_DeviceStatusBusSleepResume \<Rightarrow> USB_DeviceControl H notify handle kUSB_DeviceControlSleepResume s
      | kUSB_DeviceStatusBusSuspend \<Rightarrow> USB_DeviceControl H notify handle kUSB_DeviceControlSuspend s
      | kUSB_DeviceStatusBusSleep \<Rightarrow> USB_DeviceControl H notify handle kUSB_DeviceControlSleep s
      | _ \<Rightarrow> (kStatus_USB_Error, s))"

section \<open>Notifications\<close>

text \<open>
  An endpoint's message clears the busy mark, a setup packet those of both directions of the
  control endpoint, and goes to the completion function of the endpoint if it has one.
\<close>

definition endpoint_callback ::
  "usb_device_callback_message_struct_t \<Rightarrow> ('h, 'z) dstate \<Rightarrow>
   usb_device_endpoint_callback_struct_t option \<times> ('h, 'z) dstate" where
  "endpoint_callback m s =
     (let i = callback_index (code m) in
      if endpoint_number (code m) < USB_DEVICE_CONFIG_ENDPOINTS \<and> callbackFn (epCallback (dev s) ! i) \<noteq> NoCallback
      then let s = (if 0 \<noteq> ms_isSetup m then set_busy 1 0 (set_busy 0 0 s) else set_busy i 0 s)
           in (Some (epCallback (dev s) ! i), s)
      else (None, s))"

definition endpoint_message :: "usb_device_callback_message_struct_t \<Rightarrow> ep_message" where
  "endpoint_message m = \<lparr>msg_buffer = ms_buffer m, msg_length = ms_length m, msg_isSetup = ms_isSetup m\<rparr>"

text \<open>The device callback answers to a bus reset; it may fault.\<close>

definition USB_DeviceResetNotification ::
  "'h usb_device_controller_interface_struct_t \<Rightarrow> ('h, 'z) notify \<Rightarrow>
   (nat \<Rightarrow> ('h, 'z) dstate \<Rightarrow> ('h, 'z) dstate option) \<Rightarrow> nat \<Rightarrow> ('h, 'z) dstate \<Rightarrow>
   (usb_status_t \<times> ('h, 'z) dstate) option" where
  "USB_DeviceResetNotification H notify device_cb handle s =
     (let s = upd_dev (\<lambda>d. d\<lparr>isResetting := 1\<rparr>) s;
          (_, s) = USB_DeviceControl H notify handle kUSB_DeviceControlSetDefaultStatus s;
          s = upd_dev (\<lambda>d. d\<lparr>dev_state := kUSB_DeviceStateDefault, deviceAddress := 0, epCallback := no_callbacks\<rparr>) s
      in case device_cb handle s of None \<Rightarrow> None
         | Some s \<Rightarrow> Some (kStatus_USB_Success, upd_dev (\<lambda>d. d\<lparr>isResetting := 0\<rparr>) s))"

definition USB_DeviceNotification ::
  "'h usb_device_controller_interface_struct_t \<Rightarrow> ('h, 'z) notify \<Rightarrow>
   (nat \<Rightarrow> ('h, 'z) dstate \<Rightarrow> ('h, 'z) dstate option) \<Rightarrow>
   (ep_callback \<Rightarrow> bool \<Rightarrow> nat \<Rightarrow> ep_message \<Rightarrow> ('h, 'z) dstate \<Rightarrow> (usb_status_t \<times> ('h, 'z) dstate) option) \<Rightarrow>
   nat \<Rightarrow> usb_device_callback_message_struct_t \<Rightarrow> ('h, 'z) dstate \<Rightarrow> (usb_status_t \<times> ('h, 'z) dstate) option" where
  "USB_DeviceNotification H notify device_cb call handle m s =
     (if code m = kUSB_DeviceNotifyBusReset then USB_DeviceResetNotification H notify device_cb handle s
      else case endpoint_callback m s of
        (None, s) \<Rightarrow> Some (kStatus_USB_Error, s)
      | (Some e, s) \<Rightarrow> call (callbackFn e) (callbackParam e) handle (endpoint_message m) s)"

definition USB_DeviceNotificationTrigger ::
  "'h usb_device_controller_interface_struct_t \<Rightarrow> ('h, 'z) notify \<Rightarrow>
   (nat \<Rightarrow> ('h, 'z) dstate \<Rightarrow> ('h, 'z) dstate option) \<Rightarrow>
   (ep_callback \<Rightarrow> bool \<Rightarrow> nat \<Rightarrow> ep_message \<Rightarrow> ('h, 'z) dstate \<Rightarrow> (usb_status_t \<times> ('h, 'z) dstate) option) \<Rightarrow>
   nat \<Rightarrow> usb_device_callback_message_struct_t option \<Rightarrow> ('h, 'z) dstate \<Rightarrow>
   (usb_status_t \<times> ('h, 'z) dstate) option" where
  "USB_DeviceNotificationTrigger H notify device_cb call handle msg s =
     (case msg of None \<Rightarrow> Some (kStatus_USB_InvalidHandle, s)
      | Some m \<Rightarrow>
          if handle = 0 then Some (kStatus_USB_InvalidHandle, s)
          else if \<not> deviceCallback (dev s) then Some (kStatus_USB_Error, s)
          else USB_DeviceNotification H notify device_cb call handle m s)"

section \<open>Initialisation\<close>

definition USB_DeviceDeinit ::
  "'h usb_device_controller_interface_struct_t \<Rightarrow> nat \<Rightarrow> ('h, 'z) dstate \<Rightarrow> usb_status_t \<times> ('h, 'z) dstate" where
  "USB_DeviceDeinit H handle s =
     (if handle = 0 then (kStatus_USB_InvalidHandle, s)
      else
        let s = (if controllerInterface (dev s)
                 then let (_, h) = deviceDeinit H (controllerHandle (dev s)) (hw (dev s))
                      in upd_dev (\<lambda>d. d\<lparr>controllerInterface := False\<rparr>) (put_hw h s)
                 else s)
        in (kStatus_USB_Success, USB_DeviceFreeHandle s))"

text \<open>
  The handle of the one instance is 1; the caller's handle is null before. The callback is never
  null here. The interface's function pointers are those of the EHCI driver, none of them null.
\<close>

definition USB_DeviceInit ::
  "'h usb_device_controller_interface_struct_t \<Rightarrow> u8 \<Rightarrow> ('h, 'z) dstate \<Rightarrow> (usb_status_t \<times> nat) \<times> ('h, 'z) dstate" where
  "USB_DeviceInit H n s =
     (case USB_DeviceAllocateHandle n s of (error, s) \<Rightarrow>
        if error \<noteq> kStatus_USB_Success then ((error, 0), s)
        else
          let s = upd_dev (\<lambda>d. d\<lparr>deviceCallback := True, controllerId := n, deviceAddress := 0, isResetting := 0,
                    epCallback := no_callbacks\<rparr>) s;
              error = USB_DeviceGetControllerInterface n
          in if error \<noteq> kStatus_USB_Success then ((error, 0), USB_DeviceFreeHandle s)
             else
               let s = upd_dev (\<lambda>d. d\<lparr>controllerInterface := True\<rparr>) s;
                   ((error, ch), h) = deviceInit H n (hw (dev s));
                   s = upd_dev (\<lambda>d. d\<lparr>controllerHandle := ch\<rparr>) (put_hw h s)
               in if error \<noteq> kStatus_USB_Success then ((error, 0), snd (USB_DeviceDeinit H 1 s))
                  else ((error, 1), upd_dev (\<lambda>d. d\<lparr>dev_state := kUSB_DeviceStateDefault\<rparr>) s))"

end
