(* ===== verification/UsbCh9.thy ===== *)
theory UsbCh9
  imports UsbDci
begin

unbundle bit_operations_syntax

text \<open>
  The control pipe, \<open>usb_device_ch9.c\<close>: the standard requests of chapter 9 of the USB
  specification with the checks of \<open>USB_DEVICE_CONFIG_ROOT2_TEST\<close>, which the board switches on, the
  dispatch of class and vendor requests, and the stages of a control transfer. A handler returns a
  status, the buffer and the length of its answer; requests the application answers go through its
  device callback, which may fault. The device layer is the record of functions of \<open>UsbClass\<close>.
\<close>

section \<open>Setup packets and states\<close>

definition dir_in :: "usb_setup_struct_t \<Rightarrow> bool" where
  "dir_in p \<longleftrightarrow> bmRequestType p AND 0x80 = 0x80"

definition recipient :: "usb_setup_struct_t \<Rightarrow> u8" where
  "recipient p = bmRequestType p AND 0x1F"

definition request_type :: "usb_setup_struct_t \<Rightarrow> u8" where
  "request_type p = bmRequestType p AND 0x60"

definition USB_REQUEST_TYPE_TYPE_STANDARD :: u8 where "USB_REQUEST_TYPE_TYPE_STANDARD = 0"
definition USB_REQUEST_TYPE_TYPE_CLASS :: u8 where "USB_REQUEST_TYPE_TYPE_CLASS = 0x20"
definition USB_REQUEST_TYPE_TYPE_VENDOR :: u8 where "USB_REQUEST_TYPE_TYPE_VENDOR = 0x40"
definition USB_REQUEST_TYPE_RECIPIENT_DEVICE :: u8 where "USB_REQUEST_TYPE_RECIPIENT_DEVICE = 0"
definition USB_REQUEST_TYPE_RECIPIENT_INTERFACE :: u8 where "USB_REQUEST_TYPE_RECIPIENT_INTERFACE = 1"
definition USB_REQUEST_TYPE_RECIPIENT_ENDPOINT :: u8 where "USB_REQUEST_TYPE_RECIPIENT_ENDPOINT = 2"
definition USB_REQUEST_TYPE_RECIPIENT_OTHER :: u8 where "USB_REQUEST_TYPE_RECIPIENT_OTHER = 3"
definition USB_REQUEST_STANDARD_SET_FEATURE :: u8 where "USB_REQUEST_STANDARD_SET_FEATURE = 3"
definition USB_REQUEST_STANDARD_SET_ADDRESS :: u8 where "USB_REQUEST_STANDARD_SET_ADDRESS = 5"
definition USB_SETUP_PACKET_SIZE :: nat where "USB_SETUP_PACKET_SIZE = 8"
definition kUSB_DeviceEventSetRemoteWakeup :: nat where "kUSB_DeviceEventSetRemoteWakeup = 20"

lemmas request_consts =
  USB_REQUEST_TYPE_TYPE_STANDARD_def USB_REQUEST_TYPE_TYPE_CLASS_def USB_REQUEST_TYPE_TYPE_VENDOR_def
  USB_REQUEST_TYPE_RECIPIENT_DEVICE_def USB_REQUEST_TYPE_RECIPIENT_INTERFACE_def
  USB_REQUEST_TYPE_RECIPIENT_ENDPOINT_def USB_REQUEST_TYPE_RECIPIENT_OTHER_def
  USB_REQUEST_STANDARD_SET_FEATURE_def USB_REQUEST_STANDARD_SET_ADDRESS_def

type_synonym ('d, 'z) cstate = "('d, 'z) class_state_scheme"

definition device_handle :: "('d, 'z) cstate \<Rightarrow> nat" where
  "device_handle s = cc_handle (s_UsbDeviceCommonClassStruct s)"

definition standard_buffer :: "('d, 'z) cstate \<Rightarrow> u16" where
  "standard_buffer s = standardTranscationBuffer (s_UsbDeviceCommonClassStruct s)"

definition put_standard :: "u16 \<Rightarrow> ('d, 'z) cstate \<Rightarrow> ('d, 'z) cstate" where
  "put_standard v s = upd_common (\<lambda>c. c\<lparr>standardTranscationBuffer := v\<rparr>) s"

text \<open>Reading the device state; the variable it is read into starts as 0.\<close>

definition state_of :: "(('d, 'z) cstate, 'y) usb_stack_scheme \<Rightarrow> ('d, 'z) cstate \<Rightarrow> u8" where
  "state_of st s =
     (case GetStatus st (device_handle s) kUSB_DeviceStatusDeviceState (Some 0) s of
        (_, Some v) \<Rightarrow> ucast v | (_, None) \<Rightarrow> 0)"

text \<open>What a handler answers: a status, a buffer and a length.\<close>

type_synonym ('d, 'z) answer = "usb_status_t \<times> ubuf \<times> nat \<times> ('d, 'z) cstate"

definition refuse :: "('d, 'z) cstate \<Rightarrow> ('d, 'z) answer" where
  "refuse s = (kStatus_USB_InvalidRequest, NullBuf, 0, s)"

section \<open>Standard requests\<close>

definition USB_DeviceCh9GetStatus ::
  "(('d, 'z) cstate, 'y) usb_stack_scheme \<Rightarrow> usb_setup_struct_t \<Rightarrow> ('d, 'z) cstate \<Rightarrow> ('d, 'z) answer" where
  "USB_DeviceCh9GetStatus st p s =
     (if \<not> dir_in p \<or> wValue p \<noteq> 0 \<or> wLength p \<noteq> 2 then refuse s
      else
        let state = state_of st s in
        if state \<noteq> kUSB_DeviceStateAddress \<and> state \<noteq> kUSB_DeviceStateConfigured then refuse s
        else if recipient p = USB_REQUEST_TYPE_RECIPIENT_DEVICE then
          (case GetStatus st (device_handle s) kUSB_DeviceStatusDevice (Some (standard_buffer s)) s of
             (error, v) \<Rightarrow> (error, StandardBuf, 2, put_standard ((case v of Some v \<Rightarrow> v | None \<Rightarrow> 0) AND 3) s))
        else if recipient p = USB_REQUEST_TYPE_RECIPIENT_INTERFACE then
          (if state = kUSB_DeviceStateAddress \<or> (state = kUSB_DeviceStateConfigured \<and> wIndex p = 0) then refuse s
           else (kStatus_USB_Success, StandardBuf, 2, put_standard 0 s))
        else if recipient p = USB_REQUEST_TYPE_RECIPIENT_ENDPOINT then
          (if wIndex p AND 0x0F \<noteq> 0 \<and> state = kUSB_DeviceStateAddress then refuse s
           else case GetStatus st (device_handle s) (kUSB_DeviceStatusEndpoint (ucast (wIndex p))) (Some 0) s of
             (error, v) \<Rightarrow> (error, StandardBuf, 2, put_standard ((case v of Some v \<Rightarrow> v | None \<Rightarrow> 0) AND 3) s))
        else (kStatus_USB_InvalidRequest, StandardBuf, 0, s))"

definition USB_DeviceCh9SetClearFeature ::
  "(('d, 'z) cstate, 'y) usb_stack_scheme \<Rightarrow> ('d, 'z) cstate class_callback \<Rightarrow> ('d, 'z) cstate device_callback \<Rightarrow>
   usb_setup_struct_t \<Rightarrow> ('d, 'z) cstate \<Rightarrow> ('d, 'z) answer option" where
  "USB_DeviceCh9SetClearFeature st cb device_cb p s =
     (if dir_in p \<or> wLength p \<noteq> 0 then Some (refuse s)
      else
        let state = state_of st s;
            isSet = (bRequest p = USB_REQUEST_STANDARD_SET_FEATURE)
        in if state \<noteq> kUSB_DeviceStateAddress \<and> state \<noteq> kUSB_DeviceStateConfigured then Some (refuse s)
           else if recipient p = USB_REQUEST_TYPE_RECIPIENT_DEVICE then
             (if wValue p = 1 then
                map_option (\<lambda>(error, _, s). (error, NullBuf, 0, s))
                  (USB_DeviceClassCallback st cb device_cb (device_handle s) (EvOther kUSB_DeviceEventSetRemoteWakeup) s)
              else Some (refuse s))
           else if recipient p = USB_REQUEST_TYPE_RECIPIENT_ENDPOINT then
             (if wValue p = 0 then
                (if wIndex p AND 0x0F \<noteq> 0 \<and> state \<noteq> kUSB_DeviceStateConfigured then Some (refuse s)
                 else
                   let (error, _) = GetStatus st (device_handle s) (kUSB_DeviceStatusEndpoint (ucast (wIndex p))) (Some 0) s
                   in if error \<noteq> kStatus_USB_Success then Some (error, NullBuf, 0, s)
                      else
                        let (error, _, s) = USB_DeviceClassEvent st cb (device_handle s)
                               (Some ((if isSet then SetEndpointHalt else ClearEndpointHalt) (ucast (wIndex p)))) s
                        in Some (error, NullBuf, 0, s))
              else Some (refuse s))
           else Some (refuse s))"

definition USB_DeviceCh9SetAddress ::
  "(('d, 'z) cstate, 'y) usb_stack_scheme \<Rightarrow> usb_setup_struct_t \<Rightarrow> ('d, 'z) cstate \<Rightarrow> ('d, 'z) answer" where
  "USB_DeviceCh9SetAddress st p s =
     (if dir_in p \<or> recipient p \<noteq> USB_REQUEST_TYPE_RECIPIENT_DEVICE \<or> wIndex p \<noteq> 0 \<or> wLength p \<noteq> 0 then refuse s
      else
        let state = state_of st s in
        if state \<noteq> kUSB_DeviceStateAddressing \<and> state \<noteq> kUSB_DeviceStateAddress \<and> state \<noteq> kUSB_DeviceStateDefault
        then refuse s
        else if state \<noteq> kUSB_DeviceStateAddressing then
          (let address = (ucast (wValue p AND 0xFF) :: u8) in
           if address \<ge> 0x80 then refuse s
           else case SetStatus st (device_handle s) kUSB_DeviceStatusAddress (Some address) s of
             (error, s) \<Rightarrow> (error, NullBuf, 0, s))
        else
          (case SetStatus st (device_handle s) kUSB_DeviceStatusAddress None s of
             (error, s) \<Rightarrow>
               (if error = kStatus_USB_Success
                then case SetStatus st (device_handle s) kUSB_DeviceStatusDeviceState (Some kUSB_DeviceStateAddress) s of
                       (error, s) \<Rightarrow> (error, NullBuf, 0, s)
                else (error, NullBuf, 0, s))))"

text \<open>The parameter block of a descriptor event comes back with the application's answer.\<close>

definition reply_of :: "nat \<Rightarrow> usb_device_event_t \<Rightarrow> ubuf \<times> nat" where
  "reply_of n e =
     (case e of
        EvGetDeviceDescriptor (Some g) \<Rightarrow> (case gd_reply g of None \<Rightarrow> (NullBuf, n) | Some (b, l) \<Rightarrow> (DescriptorBuf b, l))
      | EvGetConfigurationDescriptor (Some g) \<Rightarrow> (case gd_reply g of None \<Rightarrow> (NullBuf, n) | Some (b, l) \<Rightarrow> (DescriptorBuf b, l))
      | EvGetStringDescriptor (Some g) \<Rightarrow> (case gd_reply g of None \<Rightarrow> (NullBuf, n) | Some (b, l) \<Rightarrow> (DescriptorBuf b, l))
      | _ \<Rightarrow> (NullBuf, n))"

definition USB_DeviceCh9GetDescriptor ::
  "(('d, 'z) cstate, 'y) usb_stack_scheme \<Rightarrow> ('d, 'z) cstate class_callback \<Rightarrow> ('d, 'z) cstate device_callback \<Rightarrow>
   usb_setup_struct_t \<Rightarrow> ('d, 'z) cstate \<Rightarrow> ('d, 'z) answer option" where
  "USB_DeviceCh9GetDescriptor st cb device_cb p s =
     (let descriptorType = (ucast (drop_bit 8 (wValue p AND 0xFF00)) :: u8);
          descriptorIndex = (ucast (wValue p AND 0x00FF) :: u8)
      in if \<not> dir_in p then Some (refuse s)
         else
           let state = state_of st s in
           if state \<noteq> kUSB_DeviceStateAddress \<and> state \<noteq> kUSB_DeviceStateConfigured \<and> state \<noteq> kUSB_DeviceStateDefault
           then Some (refuse s)
           else
             let n = unat (wLength p);
                 event =
                   (if descriptorType = 1 then
                      (if recipient p = USB_REQUEST_TYPE_RECIPIENT_DEVICE \<and> descriptorIndex = 0 \<and> wIndex p = 0
                       then Some (EvGetDeviceDescriptor (Some \<lparr>gd_index = 0, gd_languageId = 0, gd_reply = None\<rparr>)) else None)
                    else if descriptorType = 2 then
                      (if recipient p = USB_REQUEST_TYPE_RECIPIENT_DEVICE \<and> wIndex p = 0
                       then Some (EvGetConfigurationDescriptor
                              (Some \<lparr>gd_index = descriptorIndex, gd_languageId = 0, gd_reply = None\<rparr>)) else None)
                    else if descriptorType = 3 then
                      (if recipient p = USB_REQUEST_TYPE_RECIPIENT_DEVICE
                       then Some (EvGetStringDescriptor
                              (Some \<lparr>gd_index = descriptorIndex, gd_languageId = wIndex p, gd_reply = None\<rparr>)) else None)
                    else None)
             in case event of
                  None \<Rightarrow> Some (kStatus_USB_InvalidRequest, NullBuf, n, s)
                | Some event \<Rightarrow>
                    map_option (\<lambda>(error, event, s). (error, fst (reply_of n event), snd (reply_of n event), s))
                      (USB_DeviceClassCallback st cb device_cb (device_handle s) event s))"

definition USB_DeviceCh9GetConfiguration ::
  "(('d, 'z) cstate, 'y) usb_stack_scheme \<Rightarrow> ('d, 'z) cstate class_callback \<Rightarrow> ('d, 'z) cstate device_callback \<Rightarrow>
   usb_setup_struct_t \<Rightarrow> ('d, 'z) cstate \<Rightarrow> ('d, 'z) answer option" where
  "USB_DeviceCh9GetConfiguration st cb device_cb p s =
     (if \<not> dir_in p \<or> recipient p \<noteq> USB_REQUEST_TYPE_RECIPIENT_DEVICE \<or> wValue p \<noteq> 0 \<or> wIndex p \<noteq> 0 \<or> wLength p \<noteq> 1
      then Some (refuse s)
      else
        let state = state_of st s in
        if state \<noteq> kUSB_DeviceStateAddress \<and> state \<noteq> kUSB_DeviceStateConfigured then Some (refuse s)
        else
          map_option (\<lambda>(error, event, s).
              (error, StandardBuf, 1,
               case event of EvGetConfiguration (Some v) \<Rightarrow> put_standard ((standard_buffer s AND 0xFF00) OR ucast v) s | _ \<Rightarrow> s))
            (USB_DeviceClassCallback st cb device_cb (device_handle s)
              (EvGetConfiguration (Some (ucast (standard_buffer s)))) s))"

definition USB_DeviceCh9SetConfiguration ::
  "(('d, 'z) cstate, 'y) usb_stack_scheme \<Rightarrow> ('d, 'z) cstate class_callback \<Rightarrow> ('d, 'z) cstate device_callback \<Rightarrow>
   usb_setup_struct_t \<Rightarrow> ('d, 'z) cstate \<Rightarrow> ('d, 'z) answer option" where
  "USB_DeviceCh9SetConfiguration st cb device_cb p s =
     (if dir_in p \<or> recipient p \<noteq> USB_REQUEST_TYPE_RECIPIENT_DEVICE \<or> wIndex p \<noteq> 0 \<or> wLength p \<noteq> 0 then Some (refuse s)
      else
        let state = state_of st s in
        if state \<noteq> kUSB_DeviceStateAddress \<and> state \<noteq> kUSB_DeviceStateConfigured then Some (refuse s)
        else
          let (_, s) = SetStatus st (device_handle s) kUSB_DeviceStatusDeviceState (Some kUSB_DeviceStateConfigured) s;
              s = (if wValue p = 0
                   then snd (SetStatus st (device_handle s) kUSB_DeviceStatusDeviceState (Some kUSB_DeviceStateAddress) s)
                   else s);
              (_, _, s) = USB_DeviceClassEvent st cb (device_handle s) (Some (SetConfiguration (ucast (wValue p)))) s
          in map_option (\<lambda>(error, _, s). (error, NullBuf, 0, s))
               (USB_DeviceClassCallback st cb device_cb (device_handle s) (EvSetConfiguration (ucast (wValue p))) s))"

definition USB_DeviceCh9GetInterface ::
  "(('d, 'z) cstate, 'y) usb_stack_scheme \<Rightarrow> ('d, 'z) cstate class_callback \<Rightarrow> ('d, 'z) cstate device_callback \<Rightarrow>
   usb_setup_struct_t \<Rightarrow> ('d, 'z) cstate \<Rightarrow> ('d, 'z) answer option" where
  "USB_DeviceCh9GetInterface st cb device_cb p s =
     (if \<not> dir_in p \<or> recipient p \<noteq> USB_REQUEST_TYPE_RECIPIENT_INTERFACE \<or> wValue p \<noteq> 0 \<or> wLength p \<noteq> 1
      then Some (refuse s)
      else if state_of st s \<noteq> kUSB_DeviceStateConfigured then Some (refuse s)
      else
        let s = put_standard (push_bit 8 (wIndex p AND 0xFF)) s in
        map_option (\<lambda>(error, event, s).
            (error, StandardBuf, 1, case event of EvGetInterface (Some v) \<Rightarrow> put_standard v s | _ \<Rightarrow> s))
          (USB_DeviceClassCallback st cb device_cb (device_handle s) (EvGetInterface (Some (standard_buffer s))) s))"

definition USB_DeviceCh9SetInterface ::
  "(('d, 'z) cstate, 'y) usb_stack_scheme \<Rightarrow> ('d, 'z) cstate class_callback \<Rightarrow> ('d, 'z) cstate device_callback \<Rightarrow>
   usb_setup_struct_t \<Rightarrow> ('d, 'z) cstate \<Rightarrow> ('d, 'z) answer option" where
  "USB_DeviceCh9SetInterface st cb device_cb p s =
     (if dir_in p \<or> recipient p \<noteq> USB_REQUEST_TYPE_RECIPIENT_INTERFACE \<or> wLength p \<noteq> 0 then Some (refuse s)
      else if state_of st s \<noteq> kUSB_DeviceStateConfigured then Some (refuse s)
      else
        let s = put_standard (push_bit 8 (wIndex p AND 0xFF) OR (wValue p AND 0xFF)) s;
            (_, _, s) = USB_DeviceClassEvent st cb (device_handle s) (Some (SetInterface (standard_buffer s))) s
        in map_option (\<lambda>(error, _, s). (error, NullBuf, 0, s))
             (USB_DeviceClassCallback st cb device_cb (device_handle s) (EvSetInterface (standard_buffer s)) s))"

text \<open>With \<open>USB_DEVICE_CONFIG_ROOT2_TEST\<close> every branch refuses.\<close>

definition USB_DeviceCh9SynchFrame ::
  "(('d, 'z) cstate, 'y) usb_stack_scheme \<Rightarrow> usb_setup_struct_t \<Rightarrow> ('d, 'z) cstate \<Rightarrow> ('d, 'z) answer" where
  "USB_DeviceCh9SynchFrame st p s =
     (if \<not> dir_in p \<or> recipient p \<noteq> USB_REQUEST_TYPE_RECIPIENT_ENDPOINT \<or> wValue p \<noteq> 0 \<or> wLength p \<noteq> 2 then refuse s
      else if state_of st s \<noteq> kUSB_DeviceStateConfigured then refuse s
      else refuse s)"

text \<open>The table of handlers, \<open>s_UsbDeviceStandardRequest\<close>; numbers without one leave the request refused.\<close>

definition standard_request ::
  "(('d, 'z) cstate, 'y) usb_stack_scheme \<Rightarrow> ('d, 'z) cstate class_callback \<Rightarrow> ('d, 'z) cstate device_callback \<Rightarrow>
   usb_setup_struct_t \<Rightarrow> ('d, 'z) cstate \<Rightarrow> ('d, 'z) answer option" where
  "standard_request st cb device_cb p s =
     (let r = bRequest p in
      if r = 0 then Some (USB_DeviceCh9GetStatus st p s)
      else if r = 1 \<or> r = 3 then USB_DeviceCh9SetClearFeature st cb device_cb p s
      else if r = 5 then Some (USB_DeviceCh9SetAddress st p s)
      else if r = 6 then USB_DeviceCh9GetDescriptor st cb device_cb p s
      else if r = 8 then USB_DeviceCh9GetConfiguration st cb device_cb p s
      else if r = 9 then USB_DeviceCh9SetConfiguration st cb device_cb p s
      else if r = 10 then USB_DeviceCh9GetInterface st cb device_cb p s
      else if r = 11 then USB_DeviceCh9SetInterface st cb device_cb p s
      else if r = 12 then Some (USB_DeviceCh9SynchFrame st p s)
      else Some (refuse s))"

section \<open>Control transfers\<close>

text \<open>The answer to a request: a halt of the pipe, or the data and status stages.\<close>

definition USB_DeviceControlCallbackFeedback ::
  "(('d, 'z) cstate, 'y) usb_controller_scheme \<Rightarrow> nat \<Rightarrow> usb_setup_struct_t \<Rightarrow> usb_status_t \<Rightarrow> ubuf \<Rightarrow> nat \<Rightarrow>
   ('d, 'z) cstate \<Rightarrow> usb_status_t \<times> ('d, 'z) cstate" where
  "USB_DeviceControlCallbackFeedback c handle p error buffer len s =
     (if error = kStatus_USB_InvalidRequest then StallEndpoint c handle 0 s
      else
        let len = min len (unat (wLength p));
            (status, s) = (if error = kStatus_USB_Success then SendRequest c handle 0 buffer len s
                           else SendRequest c handle 0 NullBuf 0 s)
        in if status = kStatus_USB_Success \<and> dir_in p then RecvRequest c handle 0 NullBuf 0 s else (status, s))"

text \<open>Class and vendor requests carry the setup packet to the class driver or the application.\<close>

definition request_block :: "usb_setup_struct_t \<Rightarrow> ubuf \<Rightarrow> nat \<Rightarrow> u8 \<Rightarrow> control_request" where
  "request_block p buffer len isSetup =
     \<lparr>bmRequestType = bmRequestType p, bRequest = bRequest p, wValue = wValue p, wIndex = wIndex p, wLength = wLength p,
      cr_buffer = buffer, cr_length = len, cr_isSetup = isSetup\<rparr>"

definition class_or_vendor_request ::
  "(('d, 'z) cstate, 'y) usb_stack_scheme \<Rightarrow> ('d, 'z) cstate class_callback \<Rightarrow> ('d, 'z) cstate device_callback \<Rightarrow>
   nat \<Rightarrow> usb_setup_struct_t \<Rightarrow> ubuf \<Rightarrow> nat \<Rightarrow> u8 \<Rightarrow> ('d, 'z) cstate \<Rightarrow> ('d, 'z) answer option" where
  "class_or_vendor_request st cb device_cb handle p buffer len isSetup s =
     (let r = request_block p buffer len isSetup in
      if request_type p = USB_REQUEST_TYPE_TYPE_CLASS then
        (case USB_DeviceClassEvent st cb handle (Some (ClassRequest r)) s of
           (error, Some (ClassRequest r), s) \<Rightarrow> Some (error, cr_buffer r, cr_length r, s)
         | (error, _, s) \<Rightarrow> Some (error, buffer, len, s))
      else if request_type p = USB_REQUEST_TYPE_TYPE_VENDOR then
        map_option (\<lambda>(error, event, s).
            case event of EvVendorRequest r \<Rightarrow> (error, cr_buffer r, cr_length r, s) | _ \<Rightarrow> (error, buffer, len, s))
          (USB_DeviceClassCallback st cb device_cb handle (EvVendorRequest r) s)
      else Some (refuse s))"

text \<open>The setup stage, after the packet has been copied to \<open>setupBuffer\<close>.\<close>

definition setup_stage ::
  "(('d, 'z) cstate, 'y) usb_stack_scheme \<Rightarrow> ('d, 'z) cstate class_callback \<Rightarrow> ('d, 'z) cstate device_callback \<Rightarrow>
   nat \<Rightarrow> usb_setup_struct_t \<Rightarrow> ('d, 'z) cstate \<Rightarrow> (usb_status_t \<times> ('d, 'z) cstate) option" where
  "setup_stage st cb device_cb handle p s =
     (if recipient p > USB_REQUEST_TYPE_RECIPIENT_OTHER then
        Some (kStatus_USB_InvalidRequest,
              snd (USB_DeviceControlCallbackFeedback st handle p kStatus_USB_InvalidRequest NullBuf 0 s))
      else if request_type p \<noteq> USB_REQUEST_TYPE_TYPE_STANDARD \<and> wLength p \<noteq> 0 \<and> \<not> dir_in p then
        (case class_or_vendor_request st cb device_cb handle p NullBuf (unat (wLength p)) 1 s of
           None \<Rightarrow> None
         | Some (status, buffer, len, s) \<Rightarrow>
             (if status = kStatus_USB_Success
              then Some (RecvRequest st handle 0 buffer (min len (unat (wLength p))) s)
              else
                let status = kStatus_USB_InvalidRequest
                in Some (USB_DeviceControlCallbackFeedback st handle p status buffer len s)))
      else
        (case (if request_type p = USB_REQUEST_TYPE_TYPE_STANDARD then standard_request st cb device_cb p s
               else class_or_vendor_request st cb device_cb handle p NullBuf (unat (wLength p)) 1 s) of
           None \<Rightarrow> None
         | Some (status, buffer, len, s) \<Rightarrow>
             (let status = (if len \<noteq> 0 \<and> buffer = NullBuf then kStatus_USB_InvalidRequest else status)
              in Some (USB_DeviceControlCallbackFeedback st handle p status buffer len s))))"

text \<open>
  The completion function of the control endpoint. A setup message whose buffer is none of the
  controller's setup packets would read foreign memory: it is a fault.
\<close>

definition USB_DeviceControlCallback ::
  "(('d, 'z) cstate, 'y) usb_stack_scheme \<Rightarrow> ('d, 'z) cstate class_callback \<Rightarrow> ('d, 'z) cstate device_callback \<Rightarrow>
   nat \<Rightarrow> ep_message \<Rightarrow> bool \<Rightarrow> ('d, 'z) cstate \<Rightarrow> (usb_status_t \<times> ('d, 'z) cstate) option" where
  "USB_DeviceControlCallback st cb device_cb handle m param s =
     (if msg_length m = USB_CANCELLED_TRANSFER_LENGTH then Some (kStatus_USB_Success, s)
      else if \<not> param then Some (kStatus_USB_InvalidRequest, s)
      else
        let p = setupBuffer (s_UsbDeviceCommonClassStruct s);
            state = state_of st s
        in if msg_isSetup m \<noteq> 0 then
             (if msg_length m \<noteq> USB_SETUP_PACKET_SIZE \<or> msg_buffer m = NullBuf then Some (kStatus_USB_InvalidRequest, s)
              else case msg_buffer m of
                SetupBuf p \<Rightarrow> setup_stage st cb device_cb handle p (upd_common (\<lambda>c. c\<lparr>setupBuffer := p\<rparr>) s)
              | _ \<Rightarrow> None)
           else if state = kUSB_DeviceStateAddressing then
             (if bRequest p = USB_REQUEST_STANDARD_SET_ADDRESS
              then (case USB_DeviceCh9SetAddress st p s of (status, _, _, s) \<Rightarrow> Some (status, s))
              else Some (kStatus_USB_InvalidRequest, s))
           else if msg_length m \<noteq> 0 \<and> wLength p \<noteq> 0 \<and> \<not> dir_in p then
             (case (if request_type p = USB_REQUEST_TYPE_TYPE_CLASS \<or> request_type p = USB_REQUEST_TYPE_TYPE_VENDOR
                    then class_or_vendor_request st cb device_cb handle p (msg_buffer m) (msg_length m) 0 s
                    else Some (refuse s)) of
                None \<Rightarrow> None
              | Some (status, _, _, s) \<Rightarrow> Some (USB_DeviceControlCallbackFeedback st handle p status NullBuf 0 s))
           else Some (kStatus_USB_InvalidRequest, s))"

section \<open>The control pipe\<close>

definition control_endpoint :: "u8 \<Rightarrow> usb_device_endpoint_struct_t" where
  "control_endpoint a = \<lparr>endpointAddress = a, transferType = 0, maxPacketSize = 64, interval = 0\<rparr>"

definition USB_DeviceControlPipeInit ::
  "('s, 'y) usb_controller_scheme \<Rightarrow> nat \<Rightarrow> 's \<Rightarrow> usb_status_t \<times> 's" where
  "USB_DeviceControlPipeInit c handle s =
     (case InitEndpoint c handle 1 (control_endpoint 0x80) ControlCallback s of (status, s) \<Rightarrow>
        if status \<noteq> kStatus_USB_Success then (status, s)
        else case InitEndpoint c handle 1 (control_endpoint 0x00) ControlCallback s of (status, s) \<Rightarrow>
          if status \<noteq> kStatus_USB_Success then (status, snd (DeinitEndpoint c handle 0x80 s))
          else (kStatus_USB_Success, s))"

end
