(* ===== verification/UsbDevice.thy ===== *)
theory UsbDevice
  imports UsbVirtualCom UsbCh9
begin

unbundle bit_operations_syntax

text \<open>
  The whole device: the virtual COM port on the class driver, the control pipe and the device
  layer, down to the controller driver, which stays a parameter. The function pointers of the code
  are tied here: the endpoint callback table selects a completion function, the control endpoint's
  is \<open>USB_DeviceControlCallback\<close>, and the device callback is that of the application behind
  \<open>USB_DeviceClassCallback\<close>. Everything that happens to the device is a notification of the
  controller or a pass of the application task.
\<close>

section \<open>Tying the knot\<close>

type_synonym 'h device = "'h usb_device_struct_t vcom_state"
type_synonym 'h controller = "'h usb_device_controller_interface_struct_t"

definition transfers :: "'h controller \<Rightarrow> 'h device usb_transfers" where
  "transfers H = \<lparr>SendRequest = USB_DeviceSendRequest H, RecvRequest = USB_DeviceRecvRequest H\<rparr>"

text \<open>The completion functions of the class driver, by the pointer in the table.\<close>

fun class_completion :: "'h controller \<Rightarrow> ep_callback \<Rightarrow> class_handle_t \<Rightarrow> ep_message \<Rightarrow> 'h device \<Rightarrow> usb_status_t \<times> 'h device" where
  "class_completion H AcmInterruptIn p m s = USB_DeviceCdcAcmInterruptIn (USB_DeviceCdcVcomCallback (transfers H)) m p s"
| "class_completion H AcmBulkIn p m s = USB_DeviceCdcAcmBulkIn (USB_DeviceCdcVcomCallback (transfers H)) m p s"
| "class_completion H AcmBulkOut p m s = USB_DeviceCdcAcmBulkOut (USB_DeviceCdcVcomCallback (transfers H)) m p s"
| "class_completion H _ p m s = (kStatus_USB_Error, s)"

definition class_param :: "bool \<Rightarrow> class_handle_t" where
  "class_param p = (if p then AcmHandle else NullHandle)"

text \<open>
  The notification of a cancelled transfer, which arrives while a command to the controller is
  under way. The control pipe ignores cancelled transfers, so it needs none of the layers above.
  It is \<open>USB_DeviceNotificationTrigger\<close> on such a message, which \<open>cancelled_notification_is_trigger\<close> shows.
\<close>

definition cancelled_notification :: "'h controller \<Rightarrow> usb_device_callback_message_struct_t \<Rightarrow> 'h device \<Rightarrow> usb_status_t \<times> 'h device" where
  "cancelled_notification H m s =
     (if \<not> deviceCallback (dev s) then (kStatus_USB_Error, s)
      else case endpoint_callback m s of
        (None, s) \<Rightarrow> (kStatus_USB_Error, s)
      | (Some e, s) \<Rightarrow>
          if callbackFn e = ControlCallback then (kStatus_USB_Success, s)
          else class_completion H (callbackFn e) (class_param (callbackParam e)) (endpoint_message m) s)"

definition device_layer :: "'h controller \<Rightarrow> 'h device usb_controller" where
  "device_layer H =
     \<lparr>SendRequest = USB_DeviceSendRequest H, RecvRequest = USB_DeviceRecvRequest H,
      InitEndpoint = (\<lambda>h z e f. USB_DeviceInitEndpoint H (cancelled_notification H) h z e f True),
      DeinitEndpoint = USB_DeviceDeinitEndpoint H (cancelled_notification H),
      StallEndpoint = USB_DeviceStallEndpoint H (cancelled_notification H),
      UnstallEndpoint = USB_DeviceUnstallEndpoint H (cancelled_notification H)\<rparr>"

definition usb_stack_of :: "'h controller \<Rightarrow> 'h device usb_stack" where
  "usb_stack_of H = usb_controller.extend (device_layer H)
     (usb_stack.fields
        (USB_DeviceInit H) (USB_DeviceDeinit H) (USB_DeviceGetStatus H)
        (USB_DeviceSetStatus H (cancelled_notification H))
        (USB_DeviceControlPipeInit (device_layer H))
        (USB_DeviceRun H (cancelled_notification H)))"

definition class_cb :: "'h controller \<Rightarrow> 'h device class_callback" where
  "class_cb H = USB_DeviceCdcVcomCallback (transfers H)"

definition device_cb :: "'h controller \<Rightarrow> 'h device device_callback" where
  "device_cb H = USB_DeviceCallback (usb_stack_of H)"

definition completion ::
  "'h controller \<Rightarrow> ep_callback \<Rightarrow> bool \<Rightarrow> nat \<Rightarrow> ep_message \<Rightarrow> 'h device \<Rightarrow> (usb_status_t \<times> 'h device) option" where
  "completion H f p handle m s =
     (if f = ControlCallback
      then USB_DeviceControlCallback (usb_stack_of H) (class_cb H) (device_cb H) handle m p s
      else Some (class_completion H f (class_param p) m s))"

definition bus_reset :: "'h controller \<Rightarrow> nat \<Rightarrow> 'h device \<Rightarrow> 'h device option" where
  "bus_reset H handle s =
     map_option (\<lambda>(_, _, s). s) (USB_DeviceClassCallback (usb_stack_of H) (class_cb H) (device_cb H) handle EvBusReset s)"

text \<open>The controller's interrupt reports to the one device instance.\<close>

definition usb_notification ::
  "'h controller \<Rightarrow> usb_device_callback_message_struct_t \<Rightarrow> 'h device \<Rightarrow> (usb_status_t \<times> 'h device) option" where
  "usb_notification H m s =
     USB_DeviceNotificationTrigger H (cancelled_notification H) (bus_reset H) (completion H) 1 (Some m) s"

section \<open>The device and its environment\<close>

text \<open>
  The hardware changes on its own before each notification and each pass of the task. \<open>len\<close> is what
  \<open>snprintf\<close> returned for the message of that pass.
\<close>

datatype 'h device_event =
    Notify "'h \<Rightarrow> 'h" usb_device_callback_message_struct_t
  | AppPass "'h \<Rightarrow> 'h" nat

fun device_step :: "'h controller \<Rightarrow> 'h device_event \<Rightarrow> 'h device \<Rightarrow> 'h device option" where
  "device_step H (Notify g m) s = map_option snd (usb_notification H m (put_hw (g (hw (dev s))) s))"
| "device_step H (AppPass g len) s = Some (app_task_pass (transfers H) len (put_hw (g (hw (dev s))) s))"

fun device_run :: "'h controller \<Rightarrow> 'h device_event list \<Rightarrow> 'h device \<Rightarrow> 'h device option" where
  "device_run H [] s = Some s"
| "device_run H (e # es) s = (case device_step H e s of None \<Rightarrow> None | Some s \<Rightarrow> device_run H es s)"

text \<open>
  What the controller promises about its messages: a setup message points to a setup packet. The
  message of the task fits its buffer.
\<close>

fun event_ok :: "'h device_event \<Rightarrow> bool" where
  "event_ok (Notify g m) \<longleftrightarrow> (ms_isSetup m \<noteq> 0 \<longrightarrow> (\<exists>p. ms_buffer m = SetupBuf p))"
| "event_ok (AppPass g len) \<longleftrightarrow> len \<le> 128"

text \<open>The device before the initialisation: zeroed, with the hardware in some state.\<close>

definition device_boot :: "'h \<Rightarrow> 'h device" where
  "device_boot h = vcom_boot \<lparr>controllerHandle = 0, controllerInterface = False, deviceCallback = False,
     epCallback = no_callbacks, deviceAddress = 0, controllerId = 0, dev_state = 0, isResetting = 0, hw = h\<rparr>"

definition device_started :: "'h controller \<Rightarrow> 'h \<Rightarrow> 'h device" where
  "device_started H h = USB_DeviceApplicationInit (usb_stack_of H) (device_boot h)"

lemma transfers_simps [simp]:
  "SendRequest (transfers H) = USB_DeviceSendRequest H" "RecvRequest (transfers H) = USB_DeviceRecvRequest H"
  by (simp_all add: transfers_def)

lemma stack_simps [simp]:
  "SendRequest (usb_stack_of H) = USB_DeviceSendRequest H" "RecvRequest (usb_stack_of H) = USB_DeviceRecvRequest H"
  "InitEndpoint (usb_stack_of H) = (\<lambda>h z e f. USB_DeviceInitEndpoint H (cancelled_notification H) h z e f True)"
  "DeinitEndpoint (usb_stack_of H) = USB_DeviceDeinitEndpoint H (cancelled_notification H)"
  "StallEndpoint (usb_stack_of H) = USB_DeviceStallEndpoint H (cancelled_notification H)"
  "UnstallEndpoint (usb_stack_of H) = USB_DeviceUnstallEndpoint H (cancelled_notification H)"
  "DeviceInit (usb_stack_of H) = USB_DeviceInit H" "DeviceDeinit (usb_stack_of H) = USB_DeviceDeinit H"
  "GetStatus (usb_stack_of H) = USB_DeviceGetStatus H"
  "SetStatus (usb_stack_of H) = USB_DeviceSetStatus H (cancelled_notification H)"
  "ControlPipeInit (usb_stack_of H) = USB_DeviceControlPipeInit (device_layer H)"
  "DeviceRun (usb_stack_of H) = USB_DeviceRun H (cancelled_notification H)"
  by (simp_all add: usb_stack_of_def device_layer_def usb_controller.defs usb_stack.defs)

lemma device_layer_simps [simp]:
  "SendRequest (device_layer H) = USB_DeviceSendRequest H" "RecvRequest (device_layer H) = USB_DeviceRecvRequest H"
  "InitEndpoint (device_layer H) = (\<lambda>h z e f. USB_DeviceInitEndpoint H (cancelled_notification H) h z e f True)"
  "DeinitEndpoint (device_layer H) = USB_DeviceDeinitEndpoint H (cancelled_notification H)"
  "StallEndpoint (device_layer H) = USB_DeviceStallEndpoint H (cancelled_notification H)"
  "UnstallEndpoint (device_layer H) = USB_DeviceUnstallEndpoint H (cancelled_notification H)"
  by (simp_all add: device_layer_def)

text \<open>The nested notification is the full one on a message about a cancelled transfer.\<close>

lemma cancelled_notification_is_trigger:
  assumes "ms_length m = USB_CANCELLED_TRANSFER_LENGTH" "code m \<noteq> kUSB_DeviceNotifyBusReset"
  shows "usb_notification H m s = Some (cancelled_notification H m s)"
  using assms
  by (auto simp: usb_notification_def USB_DeviceNotificationTrigger_def USB_DeviceNotification_def cancelled_notification_def
      completion_def USB_DeviceControlCallback_def endpoint_message_def split: option.split prod.split)

section \<open>What every step keeps\<close>

text \<open>
  \<open>Q\<close> is a property of the hardware state that the controller driver keeps when the transfers it
  is given fit their buffers.
\<close>

primrec run_keeps :: "('h \<Rightarrow> bool) \<Rightarrow> 'h run \<Rightarrow> bool" where
  "run_keeps Q (Done status h) \<longleftrightarrow> Q h"
| "run_keeps Q (Cancelled a b h k) \<longleftrightarrow> Q h \<and> (\<forall>h'. Q h' \<longrightarrow> run_keeps Q (k h'))"

text \<open>
  The host's view of the device: its state, its address and whether the application is attached.
  The invariant for a given view: the application's data are consistent, what is put aside fits its
  buffer, the table has its eight entries.
\<close>

type_synonym usb_view = "u8 \<times> u8 \<times> u8"

definition view :: "'h device \<Rightarrow> usb_view" where
  "view s = (dev_state (dev s), deviceAddress (dev s), attach (s_cdcVcom s))"

definition device_inv :: "('h \<Rightarrow> bool) \<Rightarrow> usb_view \<Rightarrow> 'h device \<Rightarrow> bool" where
  "device_inv Q v s \<longleftrightarrow>
     vcom_ok s \<and> pipes_bounded buffer_size (g_cdcAcmHandle s) \<and> length (epCallback (dev s)) = 8 \<and>
     deviceCallback (dev s) \<and> controllerInterface (dev s) \<and> view s = v \<and> device_handle s = 1 \<and> classHandle s = AcmHandle \<and> Q (hw (dev s))"

text \<open>A sequence of events whose hardware changes keep \<open>Q\<close>.\<close>

definition events_ok :: "('h \<Rightarrow> bool) \<Rightarrow> 'h device_event list \<Rightarrow> bool" where
  "events_ok Q es \<longleftrightarrow> (\<forall>e \<in> set es. event_ok e \<and> (\<forall>h. Q h \<longrightarrow> Q (case e of Notify g m \<Rightarrow> g h | AppPass g n \<Rightarrow> g h)))"

lemma device_inv_Q: "device_inv Q v s \<Longrightarrow> Q (hw (dev s))"
  by (simp add: device_inv_def)

lemma device_inv_upd_dev:
  "device_inv Q (x, d, a) s \<Longrightarrow> length (epCallback (f (dev s))) = 8 \<Longrightarrow> deviceCallback (f (dev s)) \<Longrightarrow> controllerInterface (f (dev s)) \<Longrightarrow>
   Q (hw (f (dev s))) \<Longrightarrow>
   device_inv Q (dev_state (f (dev s)), deviceAddress (f (dev s)), a) (upd_dev f s)"
  by (simp add: device_inv_def upd_dev_def device_handle_def view_def)

lemma device_inv_upd_dev':
  "device_inv Q v s \<Longrightarrow> length (epCallback (f (dev s))) = 8 \<Longrightarrow> deviceCallback (f (dev s)) \<Longrightarrow> controllerInterface (f (dev s)) \<Longrightarrow>
   Q (hw (f (dev s))) \<Longrightarrow>
   dev_state (f (dev s)) = dev_state (dev s) \<Longrightarrow> deviceAddress (f (dev s)) = deviceAddress (dev s) \<Longrightarrow>
   device_inv Q v (upd_dev f s)"
  by (simp add: device_inv_def upd_dev_def device_handle_def view_def)

lemma device_inv_busy: "device_inv Q v s \<Longrightarrow> device_inv Q v (set_busy i b s)"
  unfolding set_busy_def by (rule device_inv_upd_dev') (simp_all add: device_inv_def)

lemma device_inv_callback: "device_inv Q v s \<Longrightarrow> device_inv Q v (set_callback i f p s)"
  unfolding set_callback_def by (rule device_inv_upd_dev') (simp_all add: device_inv_def)

lemma device_inv_hw: "device_inv Q v s \<Longrightarrow> Q h \<Longrightarrow> device_inv Q v (put_hw h s)"
  unfolding put_hw_def by (rule device_inv_upd_dev') (simp_all add: device_inv_def)

lemma device_inv_acm: "device_inv Q v s \<Longrightarrow> pipes_bounded buffer_size (f (g_cdcAcmHandle s)) \<Longrightarrow> device_inv Q v (upd_acm f s)"
  by (simp add: device_inv_def device_handle_def view_def) (simp add: upd_acm_def)

lemma device_inv_common:
  "device_inv Q v s \<Longrightarrow> cc_handle (f (s_UsbDeviceCommonClassStruct s)) = cc_handle (s_UsbDeviceCommonClassStruct s) \<Longrightarrow>
   device_inv Q v (upd_common f s)"
  by (simp add: device_inv_def device_handle_def view_def) (simp add: upd_common_def)

lemma device_inv_app: "device_inv Q v s \<Longrightarrow> vcom_ok t \<Longrightarrow> same_device s t \<Longrightarrow> device_inv Q v t"
  by (simp add: device_inv_def same_device_def device_handle_def view_def)

lemmas device_inv_keeps = device_inv_busy device_inv_callback device_inv_hw device_inv_acm device_inv_common

locale usb_hardware =
  fixes H :: "'h controller" and Q :: "'h \<Rightarrow> bool"
  assumes keep_device_send: "Q h \<Longrightarrow> n \<le> buffer_size b \<Longrightarrow> Q (snd (deviceSend H ch a b n h))"
    and keep_device_recv: "Q h \<Longrightarrow> n \<le> buffer_size b \<Longrightarrow> Q (snd (deviceRecv H ch a b n h))"
    and keep_device_control: "Q h \<Longrightarrow> run_keeps Q (deviceControl H ch t h)"
begin

lemma keep_transfer: "device_inv Q v s \<Longrightarrow> n \<le> buffer_size b \<Longrightarrow> device_inv Q v (snd (USB_DeviceTransfer H h ep b n s))"
proof -
  assume s: "device_inv Q v s" "n \<le> buffer_size b"
  let ?s = "set_busy (callback_index ep) 1 s"
  have "Q (hw (dev ?s))"
    using s by (simp add: device_inv_def set_busy_def upd_dev_def)
  with s show ?thesis
    by (simp add: USB_DeviceTransfer_def Let_def case_prod_beta device_inv_keeps keep_device_send keep_device_recv)
qed

lemma keep_send: "device_inv Q v s \<Longrightarrow> n \<le> buffer_size b \<Longrightarrow> device_inv Q v (snd (USB_DeviceSendRequest H h ep b n s))"
  by (simp add: USB_DeviceSendRequest_def keep_transfer)

lemma keep_recv: "device_inv Q v s \<Longrightarrow> n \<le> buffer_size b \<Longrightarrow> device_inv Q v (snd (USB_DeviceRecvRequest H h ep b n s))"
  by (simp add: USB_DeviceRecvRequest_def keep_transfer)

end

sublocale usb_hardware \<subseteq> app: vcom_client "device_inv Q v" "transfers H" for v
  by unfold_locales
    (auto simp: keep_send keep_recv device_inv_app device_inv_keeps, auto simp: device_inv_def)

context usb_hardware
begin

lemma keep_completion: "device_inv Q v s \<Longrightarrow> device_inv Q v (snd (class_completion H f p m s))"
  by (cases f) (simp_all add: app.keep_bulk_in app.keep_bulk_out app.keep_interrupt_in)

lemma keep_endpoint_callback: "device_inv Q v s \<Longrightarrow> device_inv Q v (snd (endpoint_callback m s))"
  by (simp add: endpoint_callback_def Let_def device_inv_keeps)

lemma keep_cancelled: "device_inv Q v s \<Longrightarrow> device_inv Q v (snd (cancelled_notification H m s))"
  using keep_endpoint_callback [of v s m]
  by (auto simp: cancelled_notification_def keep_completion split: prod.split option.split)

lemma keep_run:
  "device_inv Q v s \<Longrightarrow> run_keeps Q r \<Longrightarrow> device_inv Q v (snd (run_control (cancelled_notification H) r s))"
proof (induction r arbitrary: s)
  case (Cancelled e b h k)
  let ?s = "snd (cancelled_notification H \<lparr>ms_buffer = b, ms_length = USB_CANCELLED_TRANSFER_LENGTH, code = e, ms_isSetup = 0\<rparr>
      (put_hw h s))"
  have s: "device_inv Q v ?s"
    using Cancelled.prems by (simp add: keep_cancelled device_inv_hw)
  then have "Q (hw (dev ?s))"
    by (simp add: device_inv_def)
  then have "device_inv Q v (snd (run_control (cancelled_notification H) (k (hw (dev ?s))) ?s))"
    using Cancelled.IH [OF _ s] Cancelled.prems by simp
  then show ?case
    by (simp add: case_prod_beta)
qed (simp add: device_inv_hw)

lemma keep_control:
  "device_inv Q v s \<Longrightarrow> device_inv Q v (snd (USB_DeviceControl H (cancelled_notification H) h t s))"
  by (simp add: USB_DeviceControl_def keep_run keep_device_control device_inv_Q)

lemma keep_endpoints:
  "device_inv Q v s \<Longrightarrow> device_inv Q v (snd (USB_DeviceInitEndpoint H (cancelled_notification H) h z e f p s))"
  "device_inv Q v s \<Longrightarrow> device_inv Q v (snd (USB_DeviceDeinitEndpoint H (cancelled_notification H) h ep s))"
  "device_inv Q v s \<Longrightarrow> device_inv Q v (snd (USB_DeviceStallEndpoint H (cancelled_notification H) h ep s))"
  "device_inv Q v s \<Longrightarrow> device_inv Q v (snd (USB_DeviceUnstallEndpoint H (cancelled_notification H) h ep s))"
  by (simp_all add: USB_DeviceInitEndpoint_def USB_DeviceDeinitEndpoint_def USB_DeviceStallEndpoint_def
      USB_DeviceUnstallEndpoint_def case_prod_beta Let_def keep_control device_inv_callback)

end

sublocale usb_hardware \<subseteq> driver: acm_client "device_inv Q v" "usb_stack_of H" buffer_size "class_cb H" for v
  unfolding class_cb_def
  by unfold_locales
    (auto simp: keep_send keep_recv keep_endpoints app.keep_callback device_inv_keeps, auto simp: device_inv_def)

lemma device_inv_vcom:
  "device_inv Q (x, d, a) s \<Longrightarrow> vcom_ok (upd_vcom f s) \<Longrightarrow> device_inv Q (x, d, attach (f (s_cdcVcom s))) (upd_vcom f s)"
  by (simp add: device_inv_def device_handle_def view_def) (simp add: upd_vcom_def)

lemma device_inv_descs: "device_inv Q (x, d, a) s \<Longrightarrow> device_inv Q (x, d, a) (s\<lparr>descs := descriptors_for b\<rparr>)"
  by (simp add: device_inv_def device_handle_def view_def) (auto simp: vcom_ok_def Let_def)

lemma vcom_ok_attach:
  "vcom_ok s \<Longrightarrow> vcom_ok (upd_vcom (\<lambda>v. v\<lparr>attach := 0, currentConfiguration := 0\<rparr>) s)"
  "vcom_ok s \<Longrightarrow> vcom_ok (upd_vcom (\<lambda>v. v\<lparr>attach := 1, currentConfiguration := 1\<rparr>) s)"
  "vcom_ok s \<Longrightarrow> vcom_ok (upd_vcom (\<lambda>v. v\<lparr>vc_speed := sp\<rparr>) s)"
  by (simp_all add: vcom_ok_def Let_def upd_vcom_def)

lemma state_of_device [simp]: "state_of (usb_stack_of H) s = dev_state (dev s)"
  by (simp add: state_of_def USB_DeviceGetStatus_def ucast_up_ucast_id is_up)

text \<open>What the application's answer does to the attachment.\<close>

fun attach_after :: "usb_device_event_t \<Rightarrow> u8 \<Rightarrow> u8" where
  "attach_after EvBusReset a = 0"
| "attach_after (EvSetConfiguration n) a = (if n = 0 then 0 else if n = 1 then 1 else a)"
| "attach_after _ a = a"

context usb_hardware
begin

lemma keep_class_event:
  "device_inv Q v s \<Longrightarrow> device_inv Q v (snd (snd (USB_DeviceClassEvent (usb_stack_of H) (class_cb H) h ev s)))"
  by (simp add: USB_DeviceClassEvent_def case_prod_beta driver.keep_event)

lemma keep_device_callback:
  assumes "device_inv Q (x, d, a) s"
  shows "\<exists>e ev' s'. device_cb H h ev s = Some (e, ev', s') \<and> device_inv Q (x, d, attach_after ev a) s'"
proof (cases ev)
  case EvBusReset
  define s1 where "s1 = upd_vcom (\<lambda>v. v\<lparr>attach := 0, currentConfiguration := 0\<rparr>) s"
  have ok1: "device_inv Q (x, d, 0) s1"
    using device_inv_vcom [OF assms vcom_ok_attach(1)] assms by (simp add: s1_def device_inv_def view_def)
  have ok2: "device_inv Q (x, d, 0) (upd_vcom (\<lambda>v. v\<lparr>vc_speed := sp\<rparr>) s1)" for sp
    using device_inv_vcom [OF ok1 vcom_ok_attach(3), of sp] ok1 by (simp add: device_inv_def view_def)
  have ok3: "device_inv Q (x, d, 0) (upd_vcom (\<lambda>v. v\<lparr>vc_speed := sp\<rparr>) s1\<lparr>descs := descriptors_for b\<rparr>)" for sp b
    by (rule device_inv_descs [OF ok2])
  obtain b where "descs s1 = descriptors_for b"
    using ok1 by (auto simp: device_inv_def vcom_ok_def)
  then have d: "descs (upd_vcom f s1) = descriptors_for b" for f
    by (simp add: upd_vcom_def)
  let ?sp = "USB_DeviceClassGetSpeed (usb_stack_of H) CONTROLLER_ID (vc_speed (s_cdcVcom s1)) s1"
  show ?thesis
    using EvBusReset ok1 ok2 ok3
    by (cases ?sp; cases "fst ?sp")
       (auto simp: device_cb_def s1_def [symmetric] Let_def d set_speed_descriptors split: option.splits)
next
  case (EvSetConfiguration n)
  have off: "device_inv Q (x, d, 0) (upd_vcom (\<lambda>v. v\<lparr>attach := 0, currentConfiguration := 0\<rparr>) s)"
    using device_inv_vcom [OF assms vcom_ok_attach(1)] assms by (simp add: device_inv_def view_def)
  have on: "device_inv Q (x, d, 1) (upd_vcom (\<lambda>v. v\<lparr>attach := 1, currentConfiguration := 1\<rparr>) s)"
    using device_inv_vcom [OF assms vcom_ok_attach(2)] assms by (simp add: device_inv_def view_def)
  have "bulk_out_size (upd_vcom (\<lambda>v. v\<lparr>attach := 1, currentConfiguration := 1\<rparr>) s) \<le> 512"
    using on by (simp add: bulk_out_size_bounded device_inv_def)
  with EvSetConfiguration off driver.keep_recv [OF on] assms show ?thesis
    by (auto simp: device_cb_def Let_def case_prod_beta)
next
  case (EvSetInterface v)
  have "v = 0" if "v < 1" for v :: u8
    using that by (simp add: word_less_nat_alt unat_eq_0)
  then have "device_inv Q (x, d, a) (snd (on_set_interface v s))"
    using assms
    by (auto simp: on_set_interface_def Let_def device_inv_def device_handle_def view_def) (auto simp: vcom_ok_def Let_def upd_vcom_def)
  with EvSetInterface show ?thesis
    by (simp add: device_cb_def case_prod_beta)
qed (use assms in \<open>auto simp: device_cb_def Let_def case_prod_beta split: option.splits\<close>)

lemma keep_class_callback:
  assumes "device_inv Q (x, d, a) s" "ev \<noteq> EvBusReset"
  shows "\<exists>e ev' s'. USB_DeviceClassCallback (usb_stack_of H) (class_cb H) (device_cb H) (device_handle s) ev s = Some (e, ev', s') \<and>
    device_cb H (device_handle s) ev s = Some (e, ev', s') \<and> device_inv Q (x, d, attach_after ev a) s'"
  using keep_device_callback [OF assms(1), of "device_handle s" ev] assms(2)
  by (auto simp: USB_DeviceClassCallback_def USB_DeviceClassGetHandleByDeviceHandle_def device_handle_def)

lemma keep_control_pipe_init:
  "device_inv Q v s \<Longrightarrow> device_inv Q v (snd (USB_DeviceControlPipeInit (device_layer H) h s))"
  by (auto simp: USB_DeviceControlPipeInit_def case_prod_beta keep_endpoints Let_def)

lemma keep_bus_reset:
  assumes "device_inv Q (x, d, a) s"
  shows "\<exists>s'. bus_reset H 1 s = Some s' \<and> device_inv Q (x, d, 0) s'"
proof -
  let ?s1 = "snd (USB_DeviceControlPipeInit (device_layer H) 1 s)"
  let ?s2 = "snd (snd (USB_DeviceClassEvent (usb_stack_of H) (class_cb H) 1 (Some DeviceReset) ?s1))"
  have "device_inv Q (x, d, a) ?s2"
    by (rule keep_class_event [OF keep_control_pipe_init [OF assms]])
  from keep_device_callback [OF this, of 1 EvBusReset]
  obtain e ev' s' where "device_cb H 1 EvBusReset ?s2 = Some (e, ev', s')" "device_inv Q (x, d, 0) s'"
    by auto
  then show ?thesis
    using assms
    by (simp add: bus_reset_def USB_DeviceClassCallback_def USB_DeviceClassGetHandleByDeviceHandle_def device_inv_def
        device_handle_def case_prod_beta Let_def)
qed

end

text \<open>What the application answers to a class request fits the buffer it names.\<close>

lemma request_event_cases:
  "request_event r = Some ev \<Longrightarrow> ev \<in> {kUSB_DeviceCdcEventSendEncapsulatedCommand, kUSB_DeviceCdcEventGetEncapsulatedResponse,
     kUSB_DeviceCdcEventSetCommFeature, kUSB_DeviceCdcEventGetCommFeature, kUSB_DeviceCdcEventClearCommFeature,
     kUSB_DeviceCdcEventGetLineCoding, kUSB_DeviceCdcEventSetLineCoding, kUSB_DeviceCdcEventSetControlLineState,
     kUSB_DeviceCdcEventSendBreak} \<and> (ev = kUSB_DeviceCdcEventSetControlLineState \<longrightarrow> wLength r = 0)"
  unfolding request_event_def Let_def by (auto split: if_split_asm)

lemma callback_fits:
  assumes "USB_DeviceCdcVcomCallback c h ev (Req p) s = (kStatus_USB_Success, p', s')" "rp_isSetup p = 1"
    "request_event r = Some ev" "rp_length p = unat (wLength r)"
  shows "\<exists>q. p' = Req q \<and> rp_length q \<le> buffer_size (rp_buffer q)"
proof (cases "ev = kUSB_DeviceCdcEventSetControlLineState")
  case True
  with request_event_cases [OF assms(3)] assms show ?thesis
    by (auto split: prod.splits)
next
  case False
  with request_event_cases [OF assms(3)] assms(1,2) show ?thesis
    by (auto simp: on_set_comm_feature_def on_get_comm_feature_def split: if_split_asm)
qed

section \<open>What a message does to the view\<close>

text \<open>
  What the code does to the host's view of the device. Only two requests change it, both only in
  their proper form. While the address is being set, a second \<open>SET_ADDRESS\<close> completes the first; the value
  of \<open>SET_CONFIGURATION\<close> is taken as it comes. \<open>ok\<close> says that the controller always takes the address, as
  the EHCI driver does (\<open>usb_device_ehci.c\<close>, \<open>kUSB_DeviceControlSetDeviceAddress\<close>). How this compares with the
  states of chapter 9 is a matter of the theory of the properties.
\<close>

definition takes_address :: "'h controller \<Rightarrow> bool" where
  "takes_address H \<longleftrightarrow> (\<forall>ch d h. \<exists>h'. deviceControl H ch (kUSB_DeviceControlSetDeviceAddress d) h = Done kStatus_USB_Success h')"

lemma set_address_succeeds:
  assumes "takes_address H" "controllerInterface (dev s)" "handle \<noteq> 0"
  shows "fst (USB_DeviceControl H nf handle (kUSB_DeviceControlSetDeviceAddress d) s) = kStatus_USB_Success"
proof -
  obtain h' where "deviceControl H (controllerHandle (dev s)) (kUSB_DeviceControlSetDeviceAddress d) (hw (dev s)) =
      Done kStatus_USB_Success h'"
    using assms(1) unfolding takes_address_def by blast
  with assms(2,3) show ?thesis
    by (simp add: USB_DeviceControl_def)
qed

definition plain_out :: "usb_setup_struct_t \<Rightarrow> bool" where
  "plain_out p \<longleftrightarrow> \<not> dir_in p \<and> recipient p = USB_REQUEST_TYPE_RECIPIENT_DEVICE \<and> wIndex p = 0 \<and> wLength p = 0"

fun setup_view :: "bool \<Rightarrow> usb_setup_struct_t \<Rightarrow> usb_view \<Rightarrow> usb_view set" where
  "setup_view ok p (x, d, a) =
     (if request_type p \<noteq> USB_REQUEST_TYPE_TYPE_STANDARD \<or> \<not> plain_out p then {(x, d, a)}
      else if bRequest p = 5 then
        (if x = kUSB_DeviceStateAddressing then (if ok then {} else {(x, d, a)}) \<union> {(kUSB_DeviceStateAddress, d, a)}
         else if (x = kUSB_DeviceStateDefault \<or> x = kUSB_DeviceStateAddress) \<and> (ucast (wValue p AND 0xFF) :: u8) < 0x80
         then {(kUSB_DeviceStateAddressing, ucast (wValue p AND 0xFF), a)}
         else {(x, d, a)})
      else if bRequest p = 9 \<and> (x = kUSB_DeviceStateAddress \<or> x = kUSB_DeviceStateConfigured) then
        {(if wValue p = 0 then kUSB_DeviceStateAddress else kUSB_DeviceStateConfigured, d,
          attach_after (EvSetConfiguration (ucast (wValue p))) a)}
      else {(x, d, a)})"

definition status_view :: "bool \<Rightarrow> usb_setup_struct_t \<Rightarrow> usb_view \<Rightarrow> usb_view set" where
  "status_view ok p v =
     (case v of (x, d, a) \<Rightarrow>
        if x = kUSB_DeviceStateAddressing \<and> bRequest p = 5 \<and> plain_out p
        then (if ok then {} else {v}) \<union> {(kUSB_DeviceStateAddress, d, a)} else {v})"

text \<open>
  And a notification: a bus reset takes the device back to the default state; what reaches the
  control pipe is a setup packet or the end of a later stage; all else leaves the view alone.
\<close>

definition to_control_pipe :: "'h device \<Rightarrow> usb_device_callback_message_struct_t \<Rightarrow> bool" where
  "to_control_pipe s m \<longleftrightarrow>
     endpoint_number (code m) < USB_DEVICE_CONFIG_ENDPOINTS \<and>
     callbackFn (epCallback (dev s) ! callback_index (code m)) = ControlCallback \<and>
     callbackParam (epCallback (dev s) ! callback_index (code m)) \<and> ms_length m \<noteq> USB_CANCELLED_TRANSFER_LENGTH"

definition message_view :: "bool \<Rightarrow> 'h device \<Rightarrow> usb_device_callback_message_struct_t \<Rightarrow> usb_view set" where
  "message_view ok s m =
     (if code m = kUSB_DeviceNotifyBusReset then {(kUSB_DeviceStateDefault, 0, 0)}
      else if \<not> to_control_pipe s m then {view s}
      else if ms_isSetup m \<noteq> 0 then
        (case ms_buffer m of
           SetupBuf p \<Rightarrow> if ms_length m = USB_SETUP_PACKET_SIZE then setup_view ok p (view s) else {view s}
         | _ \<Rightarrow> {view s})
      else status_view ok (setupBuffer (s_UsbDeviceCommonClassStruct s)) (view s))"

definition view_ok :: "usb_view \<Rightarrow> bool" where
  "view_ok v \<longleftrightarrow> (case v of (x, d, a) \<Rightarrow>
     x \<in> {kUSB_DeviceStateConfigured, kUSB_DeviceStateAddress, kUSB_DeviceStateDefault, kUSB_DeviceStateAddressing} \<and>
     d < 0x80 \<and> (a = 1 \<longrightarrow> x = kUSB_DeviceStateConfigured))"

lemma view_ok_setup: "view_ok v \<Longrightarrow> v' \<in> setup_view ok p v \<Longrightarrow> view_ok v'"
  by (cases v) (auto simp: view_ok_def dev_states split: if_split_asm)

lemma view_ok_message: "view_ok (view s) \<Longrightarrow> v \<in> message_view ok s m \<Longrightarrow> view_ok v"
  by (auto simp: message_view_def status_view_def intro: view_ok_setup split: if_split_asm ubuf.splits prod.splits)
    (auto simp: view_ok_def dev_states)

text \<open>A good answer: the handler returns, the view is one of those allowed, what is sent fits its buffer.\<close>

definition answers :: "('h \<Rightarrow> bool) \<Rightarrow> usb_view set \<Rightarrow> (usb_status_t \<times> ubuf \<times> nat \<times> 'h device) option \<Rightarrow> bool" where
  "answers Q V r \<longleftrightarrow> (\<exists>e b n s' v'. r = Some (e, b, n, s') \<and> device_inv Q v' s' \<and> v' \<in> V \<and>
     (e = kStatus_USB_Success \<longrightarrow> b = NullBuf \<or> n \<le> buffer_size b))"

lemma answersI: "device_inv Q v' s' \<Longrightarrow> v' \<in> V \<Longrightarrow> (e = kStatus_USB_Success \<Longrightarrow> b = NullBuf \<or> n \<le> buffer_size b) \<Longrightarrow>
    answers Q V (Some (e, b, n, s'))"
  unfolding answers_def by blast

lemma answers_refuse [simp]: "device_inv Q v s \<Longrightarrow> v \<in> V \<Longrightarrow> answers Q V (Some (refuse s))"
  by (simp add: refuse_def answersI)

definition settles :: "('h \<Rightarrow> bool) \<Rightarrow> usb_view set \<Rightarrow> (usb_status_t \<times> 'h device) option \<Rightarrow> bool" where
  "settles Q V r \<longleftrightarrow> (\<exists>e s' v'. r = Some (e, s') \<and> device_inv Q v' s' \<and> v' \<in> V)"

lemma settlesI: "device_inv Q v' (snd q) \<Longrightarrow> v' \<in> V \<Longrightarrow> settles Q V (Some q)"
  unfolding settles_def by (metis prod.collapse)

lemma device_inv_standard: "device_inv Q v s \<Longrightarrow> device_inv Q v (put_standard n s)"
  by (simp add: put_standard_def device_inv_common)

lemma device_inv_view:
  assumes "device_inv Q (x, d, a) s"
  shows "dev_state (dev s) = x" "deviceAddress (dev s) = d" "deviceCallback (dev s)" "controllerInterface (dev s)" "device_handle s = 1"
  using assms by (simp_all add: device_inv_def view_def)

lemma setup_view_stays: "\<not> (plain_out p \<and> request_type p = USB_REQUEST_TYPE_TYPE_STANDARD \<and> bRequest p \<in> {5, 9}) \<Longrightarrow> v \<in> setup_view ok p v"
  by (cases v) auto

lemma string_descriptor_fits:
  "snd (USB_DeviceGetStringDescriptor l i) = Some (b, n) \<Longrightarrow> n = length b"
  by (auto simp: USB_DeviceGetStringDescriptor_def split: if_splits option.splits)

context usb_hardware
begin

lemma answer_get_status: "device_inv Q v s \<Longrightarrow> v \<in> V \<Longrightarrow> answers Q V (Some (USB_DeviceCh9GetStatus (usb_stack_of H) p s))"
  by (auto simp: USB_DeviceCh9GetStatus_def Let_def intro!: answersI [where v' = v] device_inv_standard split: prod.split)

lemma answer_callback:
  assumes "device_inv Q v s" "ev \<noteq> EvBusReset" "\<And>n. ev \<noteq> EvSetConfiguration n" "v \<in> V"
    "\<And>e ev' s'. device_inv Q v s' \<Longrightarrow> device_cb H (device_handle s) ev s = Some (e, ev', s') \<Longrightarrow>
      answers Q V (Some (F (e, ev', s')))"
  shows "answers Q V (map_option F
    (USB_DeviceClassCallback (usb_stack_of H) (class_cb H) (device_cb H) (device_handle s) ev s))"
proof (cases v)
  case (fields x d a)
  have "attach_after ev a = a"
    using assms(2,3) by (cases ev) auto
  with keep_class_callback [of x d a s ev] assms fields show ?thesis
    by auto
qed

lemma answer_feature:
  assumes "device_inv Q v s" "v \<in> V"
  shows "answers Q V (USB_DeviceCh9SetClearFeature (usb_stack_of H) (class_cb H) (device_cb H) p s)"
proof -
  have "answers Q V (map_option (\<lambda>(error, _, s). (error, NullBuf, 0, s))
      (USB_DeviceClassCallback (usb_stack_of H) (class_cb H) (device_cb H) (device_handle s)
        (EvOther kUSB_DeviceEventSetRemoteWakeup) s))"
    by (rule answer_callback [OF assms(1) _ _ assms(2)]) (auto intro: answersI assms(2))
  with assms show ?thesis
    by (auto simp: USB_DeviceCh9SetClearFeature_def Let_def case_prod_beta
        intro!: answersI [where v' = v] keep_class_event)
qed

lemma answer_set_address:
  assumes "device_inv Q v s" "request_type p = USB_REQUEST_TYPE_TYPE_STANDARD" "bRequest p = 5"
  shows "answers Q (setup_view (takes_address H) p v) (Some (USB_DeviceCh9SetAddress (usb_stack_of H) p s))"
proof (cases v)
  case (fields x d a)
  note s = assms(1) [unfolded fields] and x = device_inv_view [OF assms(1) [unfolded fields]]
  let ?n = "ucast (wValue p AND 0xFF) :: u8"
  let ?s1 = "upd_dev (\<lambda>d. d\<lparr>deviceAddress := ?n, dev_state := kUSB_DeviceStateAddressing\<rparr>) s"
  have s1: "device_inv Q (kUSB_DeviceStateAddressing, ?n, a) ?s1"
    using device_inv_upd_dev [OF s, of "\<lambda>d. d\<lparr>deviceAddress := ?n, dev_state := kUSB_DeviceStateAddressing\<rparr>"] s
    by (simp add: device_inv_def)
  have s2: "device_inv Q (kUSB_DeviceStateAddress, d, a) (upd_dev (\<lambda>d. d\<lparr>dev_state := kUSB_DeviceStateAddress\<rparr>) t)"
    if "device_inv Q (x, d, a) t" for t
    using device_inv_upd_dev [OF that, of "\<lambda>d. d\<lparr>dev_state := kUSB_DeviceStateAddress\<rparr>"] that
    by (simp add: device_inv_def view_def)
  show ?thesis
    using assms(2,3) fields s x s1 s2
    by (auto simp: USB_DeviceCh9SetAddress_def Let_def plain_out_def USB_DeviceSetStatus_def case_prod_beta not_le
        set_address_succeeds intro!: answersI keep_control dest: leD) (simp_all add: dev_states)
qed

lemma answer_descriptor:
  assumes "device_inv Q v s" "v \<in> V"
  shows "answers Q V (USB_DeviceCh9GetDescriptor (usb_stack_of H) (class_cb H) (device_cb H) p s)"
proof -
  let ?F = "\<lambda>(error, event, s). (error, fst (reply_of (unat (wLength p)) event), snd (reply_of (unat (wLength p)) event), s)"
  have 1: "answers Q V (map_option ?F (USB_DeviceClassCallback (usb_stack_of H) (class_cb H) (device_cb H) (device_handle s)
      (EvGetDeviceDescriptor (Some \<lparr>gd_index = 0, gd_languageId = 0, gd_reply = None\<rparr>)) s))"
    by (rule answer_callback [OF assms(1) _ _ assms(2)])
      (auto simp: device_cb_def USB_DeviceGetDeviceDescriptor_def reply_of_def g_UsbDeviceDescriptor_def
        intro!: answersI [where v' = v] assms(2))
  have 2: "answers Q V (map_option ?F (USB_DeviceClassCallback (usb_stack_of H) (class_cb H) (device_cb H) (device_handle s)
      (EvGetConfigurationDescriptor (Some \<lparr>gd_index = i, gd_languageId = 0, gd_reply = None\<rparr>)) s))" for i
    by (rule answer_callback [OF assms(1) _ _ assms(2)])
      (auto simp: device_cb_def USB_DeviceGetConfigurationDescriptor_def reply_of_def
        intro!: answersI [where v' = v] assms(2) split: if_splits)
  have 3: "answers Q V (map_option ?F (USB_DeviceClassCallback (usb_stack_of H) (class_cb H) (device_cb H) (device_handle s)
      (EvGetStringDescriptor (Some \<lparr>gd_index = i, gd_languageId = l, gd_reply = None\<rparr>)) s))" for i l
    by (rule answer_callback [OF assms(1) _ _ assms(2)])
      (auto simp: device_cb_def reply_of_def case_prod_beta dest!: string_descriptor_fits
        intro!: answersI [where v' = v] assms(2) split: option.splits)
  show ?thesis
    using assms 1 2 3
    by (auto simp: USB_DeviceCh9GetDescriptor_def Let_def intro!: answersI [where v' = v])
qed

lemma answer_get_configuration:
  assumes "device_inv Q v s" "v \<in> V"
  shows "answers Q V (USB_DeviceCh9GetConfiguration (usb_stack_of H) (class_cb H) (device_cb H) p s)"
proof -
  have "answers Q V (map_option (\<lambda>(error, event, s). (error, StandardBuf, 1,
        case event of EvGetConfiguration (Some v) \<Rightarrow> put_standard ((standard_buffer s AND 0xFF00) OR ucast v) s | _ \<Rightarrow> s))
      (USB_DeviceClassCallback (usb_stack_of H) (class_cb H) (device_cb H) (device_handle s)
        (EvGetConfiguration (Some (ucast (standard_buffer s)))) s))"
    by (rule answer_callback [OF assms(1) _ _ assms(2)])
      (auto simp: device_cb_def intro!: answersI [where v' = v] device_inv_standard assms(2)
        split: usb_device_event_t.splits option.splits)
  with assms show ?thesis
    by (auto simp: USB_DeviceCh9GetConfiguration_def Let_def)
qed

lemma answer_interface:
  assumes "device_inv Q v s" "v \<in> V"
  shows "answers Q V (USB_DeviceCh9GetInterface (usb_stack_of H) (class_cb H) (device_cb H) p s)"
    and "answers Q V (USB_DeviceCh9SetInterface (usb_stack_of H) (class_cb H) (device_cb H) p s)"
proof -
  have "answers Q V (map_option (\<lambda>(error, event, s).
        (error, StandardBuf, 1, case event of EvGetInterface (Some v) \<Rightarrow> put_standard v s | _ \<Rightarrow> s))
      (USB_DeviceClassCallback (usb_stack_of H) (class_cb H) (device_cb H) (device_handle t)
        (EvGetInterface (Some n)) t))" if "device_inv Q v t" for t n
    by (rule answer_callback [OF that _ _ assms(2)])
      (auto simp: device_cb_def intro!: answersI [where v' = v] device_inv_standard assms(2)
        split: usb_device_event_t.splits option.splits)
  with assms show "answers Q V (USB_DeviceCh9GetInterface (usb_stack_of H) (class_cb H) (device_cb H) p s)"
    by (auto simp: USB_DeviceCh9GetInterface_def Let_def device_inv_standard)
  have "answers Q V (map_option (\<lambda>(error, _, s). (error, NullBuf, 0, s))
      (USB_DeviceClassCallback (usb_stack_of H) (class_cb H) (device_cb H) (device_handle t)
        (EvSetInterface n) t))" if "device_inv Q v t" for t n
    by (rule answer_callback [OF that _ _ assms(2)]) (auto intro!: answersI [where v' = v] assms(2))
  with assms show "answers Q V (USB_DeviceCh9SetInterface (usb_stack_of H) (class_cb H) (device_cb H) p s)"
    by (auto simp: USB_DeviceCh9SetInterface_def Let_def case_prod_beta device_inv_standard keep_class_event)
qed

lemma answer_set_configuration:
  assumes "device_inv Q v s" "request_type p = USB_REQUEST_TYPE_TYPE_STANDARD" "bRequest p = 9"
  shows "answers Q (setup_view (takes_address H) p v) (USB_DeviceCh9SetConfiguration (usb_stack_of H) (class_cb H) (device_cb H) p s)"
proof (cases v)
  case (fields x d a)
  note s = assms(1) [unfolded fields] and x = device_inv_view [OF assms(1) [unfolded fields]]
  let ?y = "if wValue p = 0 then kUSB_DeviceStateAddress else kUSB_DeviceStateConfigured"
  let ?ev = "EvSetConfiguration (ucast (wValue p))"
  have set_state: "device_inv Q (y, d, a) (upd_dev (\<lambda>d. d\<lparr>dev_state := y\<rparr>) t)" if "device_inv Q (z, d, a) t" for t y z
    using device_inv_upd_dev [OF that, of "\<lambda>d. d\<lparr>dev_state := y\<rparr>"] that
    by (simp add: device_inv_def view_def)
  define t where "t = (if wValue p = 0 then upd_dev (\<lambda>d. d\<lparr>dev_state := kUSB_DeviceStateAddress\<rparr>)
        (upd_dev (\<lambda>d. d\<lparr>dev_state := kUSB_DeviceStateConfigured\<rparr>) s)
      else upd_dev (\<lambda>d. d\<lparr>dev_state := kUSB_DeviceStateConfigured\<rparr>) s)"
  define u where "u = snd (snd (USB_DeviceClassEvent (usb_stack_of H) (class_cb H) (device_handle t)
      (Some (SetConfiguration (ucast (wValue p)))) t))"
  have "device_inv Q (?y, d, a) u"
    unfolding u_def t_def by (rule keep_class_event) (simp add: set_state [OF set_state [OF s]] set_state [OF s])
  from keep_class_callback [OF this, of ?ev]
  have "answers Q {(?y, d, attach_after ?ev a)} (map_option (\<lambda>(error, _, s). (error, NullBuf, 0, s))
      (USB_DeviceClassCallback (usb_stack_of H) (class_cb H) (device_cb H) (device_handle u) ?ev u))"
    by (auto intro!: answersI)
  moreover have "USB_DeviceCh9SetConfiguration (usb_stack_of H) (class_cb H) (device_cb H) p s =
      map_option (\<lambda>(error, _, s). (error, NullBuf, 0, s))
        (USB_DeviceClassCallback (usb_stack_of H) (class_cb H) (device_cb H) (device_handle u) ?ev u)"
    if "x = kUSB_DeviceStateAddress \<or> x = kUSB_DeviceStateConfigured" "plain_out p"
    using that x
    by (cases "wValue p = 0")
      (auto simp: USB_DeviceCh9SetConfiguration_def Let_def plain_out_def case_prod_beta USB_DeviceSetStatus_def t_def u_def)
  ultimately show ?thesis
    using assms fields x s
    by (cases "plain_out p \<and> (x = kUSB_DeviceStateAddress \<or> x = kUSB_DeviceStateConfigured)")
      (auto simp: USB_DeviceCh9SetConfiguration_def plain_out_def Let_def)
qed

lemma answer_standard:
  assumes "device_inv Q v s" "request_type p = USB_REQUEST_TYPE_TYPE_STANDARD"
  shows "answers Q (setup_view (takes_address H) p v) (standard_request (usb_stack_of H) (class_cb H) (device_cb H) p s)"
proof (cases "bRequest p = 5 \<or> bRequest p = 9")
  case True
  then show ?thesis
    using answer_set_address [OF assms] answer_set_configuration [OF assms] by (auto simp: standard_request_def)
next
  case False
  then have "v \<in> setup_view (takes_address H) p v"
    by (intro setup_view_stays) auto
  then show ?thesis
    using False assms(1)
    by (simp add: standard_request_def Let_def answer_get_status answer_feature answer_descriptor answer_get_configuration
        answer_interface USB_DeviceCh9SynchFrame_def)
qed

lemma keep_feedback:
  "device_inv Q v s \<Longrightarrow> (e = kStatus_USB_Success \<Longrightarrow> n \<le> buffer_size b) \<Longrightarrow>
   device_inv Q v (snd (USB_DeviceControlCallbackFeedback (usb_stack_of H) h p e b n s))"
  by (auto simp: USB_DeviceControlCallbackFeedback_def Let_def case_prod_beta keep_endpoints keep_send keep_recv)

lemma class_request_fits:
  assumes "cr_isSetup r = 1" "cr_length r = unat (wLength r)"
    "USB_DeviceClassEvent (usb_stack_of H) (class_cb H) h (Some (ClassRequest r)) s = (kStatus_USB_Success, ev', s')"
  shows "\<exists>r'. ev' = Some (ClassRequest r') \<and> cr_length r' \<le> buffer_size (cr_buffer r')"
proof -
  let ?p = "\<lparr>rp_buffer = cr_buffer r, rp_length = cr_length r, interfaceIndex = wIndex r, setupValue = wValue r,
    rp_isSetup = cr_isSetup r\<rparr>"
  have "USB_DeviceCdcAcmEvent (usb_stack_of H) (class_cb H) (classHandle s) (Some (ClassRequest r)) s = (kStatus_USB_Success, ev', s')"
    using assms(3) by (auto simp: USB_DeviceClassEvent_def split: if_split_asm prod.splits)
  then obtain r' where r': "acm_class_request (class_cb H) (classHandle s) r s = (kStatus_USB_Success, r', s')"
    "ev' = Some (ClassRequest r')"
    by (auto simp: USB_DeviceCdcAcmEvent_def split: if_split_asm prod.splits)
  then obtain ev p' where ev: "request_event r = Some ev"
    "class_cb H (classHandle s) ev (Req ?p) s = (kStatus_USB_Success, p', s')"
    "r' = (case p' of Req q \<Rightarrow> r\<lparr>cr_buffer := rp_buffer q, cr_length := rp_length q\<rparr> | Msg _ \<Rightarrow> r)"
    by (auto simp: acm_class_request_def Let_def split: if_split_asm option.splits prod.splits cdc_param.splits)
  from callback_fits [OF ev(2) [unfolded class_cb_def] _ ev(1)] assms(1,2) r'(2) ev(3) show ?thesis
    by auto
qed

lemma answer_class_or_vendor:
  assumes "device_inv Q v s"
  shows "\<exists>e b n s'. class_or_vendor_request (usb_stack_of H) (class_cb H) (device_cb H) 1 p NullBuf (unat (wLength p)) 1 s =
        Some (e, b, n, s') \<and> device_inv Q v s' \<and> (e = kStatus_USB_Success \<longrightarrow> n \<le> buffer_size b)"
    and "\<exists>e b' n' s'. class_or_vendor_request (usb_stack_of H) (class_cb H) (device_cb H) 1 p b n i s = Some (e, b', n', s') \<and>
      device_inv Q v s'"
proof -
  have h: "device_handle s = 1"
    using assms by (simp add: device_inv_def)
  let ?r = "\<lambda>b n i. request_block p b n i"
  obtain x d a where v: "v = (x, d, a)"
    by (cases v)
  have vendor: "USB_DeviceClassCallback (usb_stack_of H) (class_cb H) (device_cb H) 1 (EvVendorRequest r) s =
      Some (kStatus_USB_InvalidRequest, EvVendorRequest r, s)" for r
    using keep_class_callback [of x d a s "EvVendorRequest r"] assms v h by (simp add: device_cb_def)
  show "\<exists>e b' n' s'. class_or_vendor_request (usb_stack_of H) (class_cb H) (device_cb H) 1 p b n i s = Some (e, b', n', s') \<and>
      device_inv Q v s'"
    using keep_class_event [OF assms, of 1 "Some (ClassRequest (?r b n i))"] vendor assms
    by (auto simp: class_or_vendor_request_def Let_def refuse_def
        split: prod.split option.split usb_device_class_event_t.split)
  show "\<exists>e b n s'. class_or_vendor_request (usb_stack_of H) (class_cb H) (device_cb H) 1 p NullBuf (unat (wLength p)) 1 s =
      Some (e, b, n, s') \<and> device_inv Q v s' \<and> (e = kStatus_USB_Success \<longrightarrow> n \<le> buffer_size b)"
    using keep_class_event [OF assms, of 1 "Some (ClassRequest (?r NullBuf (unat (wLength p)) 1))"] vendor assms
      class_request_fits [of "?r NullBuf (unat (wLength p)) 1" 1 s]
    by (auto simp: class_or_vendor_request_def Let_def request_block_def refuse_def
        split: prod.split option.split usb_device_class_event_t.split)
qed

lemma setup_stage_ok:
  assumes "device_inv Q v s"
  shows "settles Q (setup_view (takes_address H) p v) (setup_stage (usb_stack_of H) (class_cb H) (device_cb H) 1 p s)"
proof -
  let ?std = "request_type p = USB_REQUEST_TYPE_TYPE_STANDARD"
  let ?reply = "class_or_vendor_request (usb_stack_of H) (class_cb H) (device_cb H) 1 p NullBuf (unat (wLength p)) 1 s"
  have stays: "v \<in> setup_view (takes_address H) p v" if "\<not> ?std \<or> recipient p > USB_REQUEST_TYPE_RECIPIENT_OTHER"
    using that by (intro setup_view_stays) (auto simp: plain_out_def request_consts)
  show ?thesis
  proof (cases ?std)
    case True
    from answer_standard [OF assms True] obtain e b n s' v'
      where r: "standard_request (usb_stack_of H) (class_cb H) (device_cb H) p s = Some (e, b, n, s')"
        "device_inv Q v' s'" "v' \<in> setup_view (takes_address H) p v" "e = kStatus_USB_Success \<Longrightarrow> b = NullBuf \<or> n \<le> buffer_size b"
      unfolding answers_def by blast
    have "device_inv Q v' (snd (USB_DeviceControlCallbackFeedback (usb_stack_of H) 1 p
        (if n \<noteq> 0 \<and> b = NullBuf then kStatus_USB_InvalidRequest else e) b n s'))"
      by (rule keep_feedback [OF r(2)]) (use r(4) in \<open>auto split: if_split_asm\<close>)
    with True r(1,3) assms stays show ?thesis
      by (auto simp: setup_stage_def Let_def keep_feedback
          intro: settlesI [where v' = v] settlesI [where v' = v'] split del: if_split split: if_split)
  next
    case False
    from answer_class_or_vendor(1) [OF assms, of p] obtain e b n s'
      where r: "?reply = Some (e, b, n, s')" "device_inv Q v s'" "e = kStatus_USB_Success \<Longrightarrow> n \<le> buffer_size b"
      by blast
    have "device_inv Q v (snd (USB_DeviceControlCallbackFeedback (usb_stack_of H) 1 p e' b n s'))"
      if "e' = kStatus_USB_Success \<Longrightarrow> e = kStatus_USB_Success" for e'
      by (rule keep_feedback [OF r(2)]) (use r(3) that in auto)
    moreover have "device_inv Q v (snd (USB_DeviceRecvRequest H 1 0 b (min n l) s'))" if "e = kStatus_USB_Success" for l
      using r(3) [OF that] by (intro keep_recv [OF r(2)]) simp
    ultimately show ?thesis
      using False r(1) stays assms keep_feedback [OF assms]
      by (auto simp: setup_stage_def Let_def intro!: settlesI [where v' = v])
  qed
qed

lemma answer_complete_address:
  assumes "device_inv Q v s" "fst v = kUSB_DeviceStateAddressing" "bRequest p = 5"
  shows "answers Q (status_view (takes_address H) p v) (Some (USB_DeviceCh9SetAddress (usb_stack_of H) p s))"
proof (cases v)
  case (fields x d a)
  note s = assms(1) [unfolded fields] and x = device_inv_view [OF assms(1) [unfolded fields]]
  have s2: "device_inv Q (kUSB_DeviceStateAddress, d, a) (upd_dev (\<lambda>d. d\<lparr>dev_state := kUSB_DeviceStateAddress\<rparr>) t)"
    if "device_inv Q (x, d, a) t" for t
    using device_inv_upd_dev [OF that, of "\<lambda>d. d\<lparr>dev_state := kUSB_DeviceStateAddress\<rparr>"] that
    by (simp add: device_inv_def view_def)
  show ?thesis
    using assms(2,3) fields s x s2
    by (auto simp: USB_DeviceCh9SetAddress_def Let_def plain_out_def USB_DeviceSetStatus_def case_prod_beta status_view_def
        set_address_succeeds intro!: answersI keep_control)
qed

lemma control_callback_ok:
  assumes "device_inv Q v s" "msg_isSetup m \<noteq> 0 \<Longrightarrow> \<exists>p. msg_buffer m = SetupBuf p"
  shows "settles Q
     (if msg_length m = USB_CANCELLED_TRANSFER_LENGTH \<or> \<not> q then {v}
      else if msg_isSetup m \<noteq> 0 then
        (case msg_buffer m of SetupBuf p \<Rightarrow> if msg_length m = USB_SETUP_PACKET_SIZE then setup_view (takes_address H) p v else {v} | _ \<Rightarrow> {v})
      else status_view (takes_address H) (setupBuffer (s_UsbDeviceCommonClassStruct s)) v)
     (USB_DeviceControlCallback (usb_stack_of H) (class_cb H) (device_cb H) 1 m q s)"
proof -
  let ?p = "setupBuffer (s_UsbDeviceCommonClassStruct s)"
  have v: "fst v \<noteq> kUSB_DeviceStateAddressing \<or> bRequest ?p \<noteq> 5 \<Longrightarrow> v \<in> status_view (takes_address H) ?p v" "dev_state (dev s) = fst v"
    using assms(1) by (auto simp: status_view_def device_inv_def view_def split: prod.split)
  note quiet = settlesI [where v' = v, OF _ v(1)]
  show ?thesis
  proof (cases "msg_length m = USB_CANCELLED_TRANSFER_LENGTH \<or> \<not> q \<or> msg_isSetup m \<noteq> 0")
    case True
    have stay: "settles Q {v} (Some (e, s))" for e
      by (rule settlesI [where v' = v]) (simp_all add: assms(1))
    show ?thesis
    proof (cases "msg_length m = USB_CANCELLED_TRANSFER_LENGTH \<or> \<not> q")
      case False
      with True obtain p where p: "msg_isSetup m \<noteq> 0" "msg_buffer m = SetupBuf p"
        using assms(2) by blast
      have "settles Q (setup_view (takes_address H) p v) (setup_stage (usb_stack_of H) (class_cb H) (device_cb H) 1 p
          (upd_common (\<lambda>c. c\<lparr>setupBuffer := p\<rparr>) s))"
        by (rule setup_stage_ok) (simp add: device_inv_common assms(1))
      with False p stay show ?thesis
        by (simp add: USB_DeviceControlCallback_def Let_def)
    qed (use stay in \<open>auto simp: USB_DeviceControlCallback_def\<close>)
  next
    case False
    let ?r = "USB_DeviceControlCallback (usb_stack_of H) (class_cb H) (device_cb H) 1 m q s"
    have "settles Q (status_view (takes_address H) ?p v) ?r"
    proof (cases "dev_state (dev s) = kUSB_DeviceStateAddressing")
      case True
      show ?thesis
      proof (cases "bRequest ?p = 5")
        case req: True
        obtain e b n s' v' where "USB_DeviceCh9SetAddress (usb_stack_of H) ?p s = (e, b, n, s')" "device_inv Q v' s'"
          "v' \<in> status_view (takes_address H) ?p v"
          using answer_complete_address [OF assms(1) _ req] True v(2) unfolding answers_def by auto
        then show ?thesis
          using False True req
          by (auto simp: USB_DeviceControlCallback_def Let_def USB_REQUEST_STANDARD_SET_ADDRESS_def intro: settlesI)
      next
        case req: False
        have "settles Q (status_view (takes_address H) ?p v) (Some (kStatus_USB_InvalidRequest, s))"
          by (rule quiet) (simp_all add: assms(1) req)
        with False True req show ?thesis
          by (simp add: USB_DeviceControlCallback_def Let_def USB_REQUEST_STANDARD_SET_ADDRESS_def)
      qed
    next
      case state: False
      let ?c = "class_or_vendor_request (usb_stack_of H) (class_cb H) (device_cb H) 1 ?p (msg_buffer m) (msg_length m) 0 s"
      obtain e b n s' where c: "?c = Some (e, b, n, s')" "device_inv Q v s'"
        using answer_class_or_vendor(2) [OF assms(1)] by blast
      have "device_inv Q v (snd (USB_DeviceControlCallbackFeedback (usb_stack_of H) 1 ?p e' NullBuf 0 t))"
        if "device_inv Q v t" for e' t
        by (rule keep_feedback [OF that]) simp
      with False state c assms(1) show ?thesis
        using v(2) by (auto simp: USB_DeviceControlCallback_def Let_def refuse_def intro: quiet)
    qed
    with False show ?thesis
      by simp
  qed
qed

lemma reset_ok:
  assumes "device_inv Q v s"
  shows "settles Q {(kUSB_DeviceStateDefault, 0, 0)} (USB_DeviceResetNotification H (cancelled_notification H) (bus_reset H) 1 s)"
proof (cases v)
  case (fields x d a)
  have upd: "device_inv Q (x, d, a) (upd_dev (\<lambda>d. d\<lparr>isResetting := r\<rparr>) t)" if "device_inv Q (x, d, a) t" for t r x d a
    by (rule device_inv_upd_dev' [OF that]) (use that in \<open>simp_all add: device_inv_def\<close>)
  let ?s1 = "snd (USB_DeviceControl H (cancelled_notification H) 1 kUSB_DeviceControlSetDefaultStatus
      (upd_dev (\<lambda>d. d\<lparr>isResetting := 1\<rparr>) s))"
  let ?f = "\<lambda>d. d\<lparr>dev_state := kUSB_DeviceStateDefault, deviceAddress := 0, epCallback := no_callbacks\<rparr>"
  have s1: "device_inv Q (x, d, a) ?s1"
    using upd assms fields by (simp add: keep_control)
  from device_inv_upd_dev [OF s1, of ?f] s1
  have "device_inv Q (kUSB_DeviceStateDefault, 0, a) (upd_dev ?f ?s1)"
    by (simp add: device_inv_def no_callbacks_def USB_DEVICE_CONFIG_ENDPOINTS_def)
  from keep_bus_reset [OF this] obtain s' where
    "bus_reset H 1 (upd_dev ?f ?s1) = Some s'" "device_inv Q (kUSB_DeviceStateDefault, 0, 0) s'"
    by blast
  then show ?thesis
    by (auto simp: USB_DeviceResetNotification_def Let_def case_prod_beta intro!: settlesI upd)
qed

end

lemma set_busy_callback [simp]:
  "callbackFn (epCallback (dev (set_busy i b s)) ! j) = callbackFn (epCallback (dev s) ! j)"
  "callbackParam (epCallback (dev (set_busy i b s)) ! j) = callbackParam (epCallback (dev s) ! j)"
  "s_UsbDeviceCommonClassStruct (set_busy i b s) = s_UsbDeviceCommonClassStruct s"
  by (cases "i < length (epCallback (dev s)) \<and> i = j"; force simp: set_busy_def upd_dev_def list_update_beyond)+

lemma put_hw_simps [simp]:
  "view (put_hw h s) = view s" "epCallback (dev (put_hw h s)) = epCallback (dev s)"
  "s_UsbDeviceCommonClassStruct (put_hw h s) = s_UsbDeviceCommonClassStruct s"
  by (simp_all add: put_hw_def upd_dev_def view_def)

lemma endpoint_callback_frame [simp]:
  "s_UsbDeviceCommonClassStruct (snd (endpoint_callback m s)) = s_UsbDeviceCommonClassStruct s"
  by (simp add: endpoint_callback_def Let_def)

context usb_hardware
begin

lemma notification_ok:
  assumes "device_inv Q v s" "ms_isSetup m \<noteq> 0 \<Longrightarrow> \<exists>p. ms_buffer m = SetupBuf p"
  shows "settles Q (message_view (takes_address H) s m) (usb_notification H m s)"
proof -
  have v: "deviceCallback (dev s)" "view s = v"
    using assms(1) by (simp_all add: device_inv_def)
  let ?i = "callback_index (code m)" and ?s = "snd (endpoint_callback m s)"
  have s: "device_inv Q v ?s"
    by (rule keep_endpoint_callback [OF assms(1)])
  show ?thesis
  proof (cases "code m = kUSB_DeviceNotifyBusReset")
    case True
    with v reset_ok [OF assms(1)] show ?thesis
      by (simp add: usb_notification_def USB_DeviceNotificationTrigger_def USB_DeviceNotification_def message_view_def)
  next
    case not_reset: False
    have eq: "usb_notification H m s =
       (if endpoint_number (code m) < USB_DEVICE_CONFIG_ENDPOINTS \<and> callbackFn (epCallback (dev s) ! ?i) \<noteq> NoCallback
        then completion H (callbackFn (epCallback (dev s) ! ?i)) (callbackParam (epCallback (dev s) ! ?i)) 1 (endpoint_message m) ?s
        else Some (kStatus_USB_Error, s))"
      using v(1) not_reset
      by (simp add: usb_notification_def USB_DeviceNotificationTrigger_def USB_DeviceNotification_def endpoint_callback_def Let_def)
    have quiet: "settles Q {v} (Some q)" if "device_inv Q v (snd q)" for q
      using settlesI [OF that] by simp
    show ?thesis
    proof (cases "endpoint_number (code m) < USB_DEVICE_CONFIG_ENDPOINTS \<and> callbackFn (epCallback (dev s) ! ?i) = ControlCallback")
      case True
      with control_callback_ok [OF s, of "endpoint_message m" "callbackParam (epCallback (dev s) ! ?i)"] assms(2) not_reset v
      show ?thesis
        unfolding eq message_view_def to_control_pipe_def completion_def endpoint_message_def
        by (auto split: if_split_asm)
    next
      case False
      then have "message_view (takes_address H) s m = {v}"
        using not_reset v(2) by (auto simp: message_view_def to_control_pipe_def)
      moreover have "settles Q {v} (usb_notification H m s)"
        unfolding eq completion_def using False s assms(1) by (auto intro!: quiet keep_completion)
      ultimately show ?thesis
        by simp
    qed
  qed
qed

lemma step_ok:
  assumes "device_inv Q v s" "event_ok e" "\<And>h. Q h \<Longrightarrow> Q (case e of Notify g m \<Rightarrow> g h | AppPass g n \<Rightarrow> g h)"
  shows "\<exists>s' v'. device_step H e s = Some s' \<and> device_inv Q v' s' \<and>
    v' \<in> (case e of Notify g m \<Rightarrow> message_view (takes_address H) s m | AppPass g n \<Rightarrow> {v})"
proof (cases e)
  case (Notify g m)
  let ?s = "put_hw (g (hw (dev s))) s"
  have "device_inv Q v ?s"
    using assms Notify by (auto intro!: device_inv_hw dest: device_inv_Q)
  from notification_ok [OF this, of m] assms(2) Notify
  have "settles Q (message_view (takes_address H) ?s m) (usb_notification H m ?s)"
    by auto
  moreover have "message_view (takes_address H) ?s m = message_view (takes_address H) s m"
    unfolding message_view_def to_control_pipe_def put_hw_simps by (rule refl)
  ultimately show ?thesis
    using Notify by (auto simp: settles_def)
next
  case (AppPass g n)
  let ?s = "put_hw (g (hw (dev s))) s"
  have "device_inv Q v ?s"
    using assms AppPass by (auto intro!: device_inv_hw dest: device_inv_Q)
  then have "device_inv Q v (app_task_pass (transfers H) n ?s)"
    using assms(2) AppPass by (simp add: app.keep_app_pass)
  then show ?thesis
    unfolding AppPass device_step.simps device_event.case by blast
qed

lemma run_ok:
  assumes "device_inv Q v s" "view_ok v" "events_ok Q es"
  shows "\<exists>s' v'. device_run H es s = Some s' \<and> device_inv Q v' s' \<and> view_ok v'"
  using assms
proof (induction es arbitrary: s v)
  case (Cons e es)
  obtain s1 v1 where s1: "device_step H e s = Some s1" "device_inv Q v1 s1"
    "v1 \<in> (case e of Notify g m \<Rightarrow> message_view (takes_address H) s m | AppPass g n \<Rightarrow> {v})"
    using step_ok [OF Cons.prems(1), of e] Cons.prems(3) by (auto simp: events_ok_def)
  have "view s = v"
    using Cons.prems(1) by (simp add: device_inv_def)
  have "view_ok v1"
  proof (cases e)
    case (Notify g m)
    with s1(3) have "v1 \<in> message_view (takes_address H) s m"
      by simp
    then show ?thesis
      by (rule view_ok_message [rotated]) (simp add: \<open>view s = v\<close> Cons.prems(2))
  next
    case (AppPass g n)
    with s1(3) Cons.prems(2) show ?thesis
      by simp
  qed
  with Cons.IH [OF s1(2)] s1(1) Cons.prems(3) show ?case
    by (simp add: events_ok_def)
qed auto

end

section \<open>Start-up and the states it leads to\<close>

text \<open>Where the initialisation leaves everything but the controller, if the driver initialises.\<close>

definition device_inited :: "nat \<Rightarrow> 'h \<Rightarrow> 'h device" where
  "device_inited ch h = (vcom_boot \<lparr>controllerHandle = ch, controllerInterface = True, deviceCallback = True,
       epCallback = no_callbacks, deviceAddress = 0, controllerId = 2, dev_state = kUSB_DeviceStateDefault,
       isResetting = 0, hw = h\<rparr>)
     \<lparr>s_UsbDeviceCommonClassStruct := \<lparr>cc_handle = 1, cc_configList = True, cc_controllerId = 2,
        setupBuffer = \<lparr>bmRequestType = 0, bRequest = 0, wValue = 0, wIndex = 0, wLength = 0\<rparr>,
        standardTranscationBuffer = 0\<rparr>,
      classHandle := AcmHandle,
      g_cdcAcmHandle := (g_cdcAcmHandle (vcom_boot ()))\<lparr>acm_handle := 1, configStruct := True, alternate := 0xFF\<rparr>,
      s_cdcVcom := \<lparr>vc_deviceHandle = 1, cdcAcmHandle = AcmHandle, attach = 0, vc_speed = USB_SPEED_FULL,
        startTransactions = 0, currentConfiguration = 0, currentInterfaceAlternateSetting = [0, 0]\<rparr>\<rparr>"

lemma device_started_eq:
  assumes "deviceInit H 2 h = ((kStatus_USB_Success, ch), h')"
  shows "device_started H h = snd (USB_DeviceRun H (cancelled_notification H) 1 (device_inited ch h'))"
  using assms
  by (simp add: device_started_def USB_DeviceApplicationInit_def USB_DeviceClassInit_def device_boot_def vcom_boot_def
      device_inited_def Let_def upd_vcom_def upd_common_def upd_dev_def put_hw_def USB_DeviceClassAllocateHandle_def
      USB_DeviceInit_def USB_DeviceAllocateHandle_def USB_DeviceGetControllerInterface_def CONTROLLER_ID_def
      USB_DeviceCdcAcmInit_def USB_DeviceCdcAcmAllocateHandle_def USB_DeviceClassGetDeviceHandle_def upd_acm_def
      case_prod_beta)

lemma device_inited_inv: "Q h \<Longrightarrow> device_inv Q (kUSB_DeviceStateDefault, 0, 0) (device_inited ch h)"
  using vcom_boot_ok [of "\<lparr>controllerHandle = ch, controllerInterface = True, deviceCallback = True,
       epCallback = no_callbacks, deviceAddress = 0, controllerId = 2, dev_state = kUSB_DeviceStateDefault,
       isResetting = 0, hw = h\<rparr>"]
  by (simp add: device_inv_def device_inited_def view_def device_handle_def no_callbacks_def
      USB_DEVICE_CONFIG_ENDPOINTS_def pipes_bounded_def) (auto simp: vcom_ok_def vcom_boot_def Let_def)

context usb_hardware
begin

lemma started_ok:
  assumes "deviceInit H 2 h = ((kStatus_USB_Success, ch), h')" "Q h'"
  shows "device_inv Q (kUSB_DeviceStateDefault, 0, 0) (device_started H h)"
  unfolding device_started_eq [OF assms(1)] USB_DeviceRun_def by (rule keep_control [OF device_inited_inv [of Q, OF assms(2)]])

end

text \<open>Every property of the hardware is kept by a property that always holds.\<close>

lemma run_keeps_True: "run_keeps (\<lambda>_. True) r"
  by (induction r) auto

interpretation any_hardware: usb_hardware H "\<lambda>_. True" for H
  by unfold_locales (simp_all add: run_keeps_True)

inductive reachable_device :: "'h controller \<Rightarrow> 'h device \<Rightarrow> bool" for H where
  start: "deviceInit H 2 h = ((kStatus_USB_Success, ch), h') \<Longrightarrow> reachable_device H (device_started H h)"
| step: "reachable_device H s \<Longrightarrow> event_ok e \<Longrightarrow> device_step H e s = Some s' \<Longrightarrow> reachable_device H s'"

lemma reachable_device_ok:
  assumes "reachable_device H s"
  shows "device_inv (\<lambda>_. True) (view s) s \<and> view_ok (view s)"
  using assms
proof induction
  case (start h ch h')
  have "device_inv (\<lambda>_. True) (kUSB_DeviceStateDefault, 0, 0) (device_started H h)"
    by (rule any_hardware.started_ok [OF start]) simp
  moreover from this have "view (device_started H h) = (kUSB_DeviceStateDefault, 0, 0)"
    by (simp add: device_inv_def)
  ultimately show ?case
    by (simp add: view_ok_def)
next
  case (step s e s')
  then obtain s1 v1 where "device_run H [e] s = Some s1" "device_inv (\<lambda>_. True) v1 s1" "view_ok v1"
    using any_hardware.run_ok [of "view s" s "[e]" H] by (auto simp: events_ok_def)
  with step.hyps show ?case
    by (auto simp: device_inv_def)
qed

end
