(* ===== verification/UsbEnum.thy ===== *)
theory UsbEnum
  imports UsbDevice
begin

text \<open>
  The enumeration of the device by a host, computed: from the start of the program over the bus
  reset, the setting of the address and the configuration. The states on the way are explicit but for the application's own data and the state
  of the hardware, which are variables.
\<close>

section \<open>Controllers\<close>

text \<open>
  A controller that logs what it is given, for the concrete instances. It refuses to send on the
  addresses in \<open>refused\<close>.
\<close>

datatype usb_call = Sent u8 ubuf nat | Received u8 ubuf nat | Commanded usb_device_control_type_t

definition log_controller :: "u8 list \<Rightarrow> usb_call list controller" where
  "log_controller refused =
     \<lparr>deviceInit = (\<lambda>n d. ((kStatus_USB_Success, 1), d)), deviceDeinit = (\<lambda>ch d. (kStatus_USB_Success, d)),
      deviceSend = (\<lambda>ch a b n d. if a \<in> set refused then (kStatus_USB_Busy, d) else (kStatus_USB_Success, d @ [Sent a b n])),
      deviceRecv = (\<lambda>ch a b n d. (kStatus_USB_Success, d @ [Received a b n])),
      deviceCancel = (\<lambda>ch a d. Done kStatus_USB_Success d),
      deviceControl = (\<lambda>ch t d. Done kStatus_USB_Success (d @ [Commanded t])),
      deviceQuery = (\<lambda>ch q v d. (kStatus_USB_Success, if q = kUSB_DeviceControlGetSpeed then ucast USB_SPEED_HIGH else v))\<rparr>"

text \<open>
  A controller that carries out the commands of an enumeration without cancelling transfers and takes
  the packets of the control pipe and the receive buffers; \<open>hs\<close> says whether the bus runs at high speed.
  The EHCI driver cancels what is queued when endpoints are closed and on a bus reset
  (\<open>USB_DeviceEhciEndpointDeinit\<close>, \<open>kUSB_DeviceControlSetDefaultStatus\<close>). At the first reset after the start, for
  which this assumption is used, nothing is queued, and no endpoint is closed.
\<close>

fun enumeration_command :: "usb_device_control_type_t \<Rightarrow> bool" where
  "enumeration_command kUSB_DeviceControlRun = True"
| "enumeration_command (kUSB_DeviceControlEndpointInit z e) = True"
| "enumeration_command (kUSB_DeviceControlPreSetDeviceAddress d) = True"
| "enumeration_command (kUSB_DeviceControlSetDeviceAddress d) = True"
| "enumeration_command kUSB_DeviceControlSetDefaultStatus = True"
| "enumeration_command _ = False"

definition accepting :: "'h controller \<Rightarrow> bool \<Rightarrow> bool" where
  "accepting H hs \<longleftrightarrow>
     (\<forall>ch b n h. fst (deviceSend H ch 0x80 b n h) = kStatus_USB_Success) \<and>
     (\<forall>ch a b n h. fst (deviceRecv H ch a b n h) = kStatus_USB_Success) \<and>
     (\<forall>ch t h. enumeration_command t \<longrightarrow> (\<exists>h'. deviceControl H ch t h = Done kStatus_USB_Success h')) \<and>
     (\<forall>ch v h. deviceQuery H ch kUSB_DeviceControlGetSpeed v h =
        (kStatus_USB_Success, ucast (if hs then USB_SPEED_HIGH else USB_SPEED_FULL)))"

section \<open>Messages\<close>

definition setup_message :: "usb_setup_struct_t \<Rightarrow> usb_device_callback_message_struct_t" where
  "setup_message p = \<lparr>ms_buffer = SetupBuf p, ms_length = 8, code = 0, ms_isSetup = 1\<rparr>"

definition status_sent :: usb_device_callback_message_struct_t where
  "status_sent = \<lparr>ms_buffer = NullBuf, ms_length = 0, code = 0x80, ms_isSetup = 0\<rparr>"

definition reset_message :: usb_device_callback_message_struct_t where
  "reset_message = \<lparr>ms_buffer = NullBuf, ms_length = 0, code = kUSB_DeviceNotifyBusReset, ms_isSetup = 0\<rparr>"

definition set_address :: "u16 \<Rightarrow> usb_setup_struct_t" where
  "set_address n = \<lparr>bmRequestType = 0, bRequest = 5, wValue = n, wIndex = 0, wLength = 0\<rparr>"

definition set_configuration :: "u16 \<Rightarrow> usb_setup_struct_t" where
  "set_configuration n = \<lparr>bmRequestType = 0, bRequest = 9, wValue = n, wIndex = 0, wLength = 0\<rparr>"

section \<open>States\<close>

text \<open>
  The callback table with the control pipe open, and with all endpoints open: \<open>c\<close> and \<open>r\<close> mark a transfer
  under way on the control pipe and on the bulk-out endpoint.
\<close>

definition entry :: "ep_callback \<Rightarrow> u8 \<Rightarrow> usb_device_endpoint_callback_struct_t" where
  "entry f b = \<lparr>callbackFn = f, callbackParam = (f \<noteq> NoCallback), ep_isBusy = b\<rparr>"

definition control_only :: "usb_device_endpoint_callback_struct_t list" where
  "control_only = [entry ControlCallback 0, entry ControlCallback 0, entry NoCallback 0, entry NoCallback 0,
     entry NoCallback 0, entry NoCallback 0, entry NoCallback 0, entry NoCallback 0]"

definition all_open :: "u8 \<Rightarrow> u8 \<Rightarrow> usb_device_endpoint_callback_struct_t list" where
  "all_open c r = [entry ControlCallback 0, entry ControlCallback c, entry NoCallback 0, entry AcmInterruptIn 0,
     entry NoCallback 0, entry AcmBulkIn 0, entry AcmBulkOut r, entry NoCallback 0]"

text \<open>The device with the application's own data of \<open>B\<close>.\<close>

definition device_at :: "'h device \<Rightarrow> bool \<Rightarrow> nat \<Rightarrow> u8 \<Rightarrow> usb_view \<Rightarrow> usb_device_endpoint_callback_struct_t list \<Rightarrow>
    usb_device_cdc_acm_struct_t \<Rightarrow> usb_setup_struct_t \<Rightarrow> 'h \<Rightarrow> 'h device" where
  "device_at B hs ch r v table acm p h = B
     \<lparr>dev := \<lparr>controllerHandle = ch, controllerInterface = True, deviceCallback = True, epCallback = table,
        deviceAddress = fst (snd v), controllerId = 2, dev_state = fst v, isResetting = r, hw = h\<rparr>,
      s_UsbDeviceCommonClassStruct := \<lparr>cc_handle = 1, cc_configList = True, cc_controllerId = 2,
        setupBuffer = p, standardTranscationBuffer = 0\<rparr>,
      classHandle := AcmHandle, descs := descriptors_for hs, g_cdcAcmHandle := acm,
      s_cdcVcom := (s_cdcVcom B)\<lparr>vc_deviceHandle := 1, cdcAcmHandle := AcmHandle, attach := snd (snd v),
        vc_speed := (if hs then USB_SPEED_HIGH else USB_SPEED_FULL), currentConfiguration := snd (snd v)\<rparr>\<rparr>"

text \<open>The class driver after its initialisation and in configuration 1.\<close>

definition acm_inited :: usb_device_cdc_acm_struct_t where
  "acm_inited = (g_cdcAcmHandle (vcom_boot ()))\<lparr>acm_handle := 1, configStruct := True, alternate := 0xFF\<rparr>"

definition acm_opened :: "u8 \<Rightarrow> usb_device_cdc_acm_struct_t" where
  "acm_opened k = \<lparr>acm_handle = 1, configStruct = True,
        commInterfaceHandle = Some \<lparr>alternateSetting = 0, endpointList = Cic\<rparr>,
        dataInterfaceHandle = Some \<lparr>alternateSetting = 0, endpointList = Dic\<rparr>,
        bulkIn = idle_pipe 2, bulkOut = (idle_pipe 3)\<lparr>isBusy := 1\<rparr>, interruptIn = idle_pipe 1,
        acm_configuration = 1, interfaceNumber = 0, alternate = 0, hasSentState = k\<rparr>"

lemma acceptingE:
  assumes "accepting H hs"
  obtains f g r where "\<And>ch t h. enumeration_command t \<Longrightarrow> deviceControl H ch t h = Done kStatus_USB_Success (f ch t h)"
    "\<And>ch b n h. deviceSend H ch 0x80 b n h = (kStatus_USB_Success, g ch b n h)"
    "\<And>ch a b n h. deviceRecv H ch a b n h = (kStatus_USB_Success, r ch a b n h)"
    "\<And>ch v h. deviceQuery H ch kUSB_DeviceControlGetSpeed v h =
       (kStatus_USB_Success, ucast (if hs then USB_SPEED_HIGH else USB_SPEED_FULL))"
proof -
  have "\<forall>ch t h. \<exists>h'. enumeration_command t \<longrightarrow> deviceControl H ch t h = Done kStatus_USB_Success h'"
    using assms by (auto simp: accepting_def)
  then obtain f where "\<And>ch t h. enumeration_command t \<Longrightarrow> deviceControl H ch t h = Done kStatus_USB_Success (f ch t h)"
    by metis
  moreover have "deviceSend H ch 0x80 b n h = (kStatus_USB_Success, snd (deviceSend H ch 0x80 b n h))"
    "deviceRecv H ch a b n h = (kStatus_USB_Success, snd (deviceRecv H ch a b n h))" for ch a b n h
    using assms by (simp_all add: accepting_def prod_eq_iff)
  moreover have "deviceQuery H ch kUSB_DeviceControlGetSpeed v h =
       (kStatus_USB_Success, ucast (if hs then USB_SPEED_HIGH else USB_SPEED_FULL))" for ch v h
    using assms by (simp add: accepting_def)
  ultimately show ?thesis
    by (rule that)
qed

text \<open>Reading and writing the fields of such a state.\<close>

lemma device_at_select [simp]:
  "dev (device_at B hs ch r v t acm p h) = \<lparr>controllerHandle = ch, controllerInterface = True, deviceCallback = True,
       epCallback = t, deviceAddress = fst (snd v), controllerId = 2, dev_state = fst v, isResetting = r, hw = h\<rparr>"
  "g_cdcAcmHandle (device_at B hs ch r v t acm p h) = acm"
  "descs (device_at B hs ch r v t acm p h) = descriptors_for hs"
  "classHandle (device_at B hs ch r v t acm p h) = AcmHandle"
  "device_handle (device_at B hs ch r v t acm p h) = 1"
  "s_UsbDeviceCommonClassStruct (device_at B hs ch r v t acm p h) = \<lparr>cc_handle = 1, cc_configList = True,
     cc_controllerId = 2, setupBuffer = p, standardTranscationBuffer = 0\<rparr>"
  "s_cdcVcom (device_at B hs ch r v t acm p h) = (s_cdcVcom B)\<lparr>vc_deviceHandle := 1, cdcAcmHandle := AcmHandle,
     attach := snd (snd v), vc_speed := (if hs then USB_SPEED_HIGH else USB_SPEED_FULL), currentConfiguration := snd (snd v)\<rparr>"
  "s_usbCdcAcmInfo (device_at B hs ch r v t acm p h) = s_usbCdcAcmInfo B"
  "view (device_at B hs ch r v t acm p h) = v"
  by (simp_all add: device_at_def device_handle_def view_def)

lemma device_at_update [simp]:
  "put_hw h' (device_at B hs ch r v t acm p h) = device_at B hs ch r v t acm p h'"
  "set_busy i b (device_at B hs ch r v t acm p h) = device_at B hs ch r v (t[i := (t ! i)\<lparr>ep_isBusy := b\<rparr>]) acm p h"
  "set_callback i f q (device_at B hs ch r v t acm p h) =
     device_at B hs ch r v (t[i := \<lparr>callbackFn = f, callbackParam = q, ep_isBusy = 0\<rparr>]) acm p h"
  "upd_acm e (device_at B hs ch r v t acm p h) = device_at B hs ch r v t (e acm) p h"
  "upd_common (\<lambda>c. c\<lparr>setupBuffer := p'\<rparr>) (device_at B hs ch r v t acm p h) = device_at B hs ch r v t acm p' h"
  "upd_dev (\<lambda>d. d\<lparr>dev_state := x\<rparr>) (device_at B hs ch r v t acm p h) = device_at B hs ch r (x, snd v) t acm p h"
  "upd_dev (\<lambda>d. d\<lparr>isResetting := r'\<rparr>) (device_at B hs ch r v t acm p h) = device_at B hs ch r' v t acm p h"
  "upd_dev (\<lambda>d. d\<lparr>dev_state := x, deviceAddress := a, epCallback := t'\<rparr>) (device_at B hs ch r v t acm p h) =
     device_at B hs ch r (x, a, snd (snd v)) t' acm p h"
  "upd_dev (\<lambda>d. d\<lparr>deviceAddress := a, dev_state := x\<rparr>) (device_at B hs ch r v t acm p h) =
     device_at B hs ch r (x, a, snd (snd v)) t acm p h"
  "upd_vcom (\<lambda>c. c\<lparr>attach := y, currentConfiguration := y\<rparr>) (device_at B hs ch r v t acm p h) =
     device_at B hs ch r (fst v, fst (snd v), y) t acm p h"
  by (simp_all add: device_at_def put_hw_def set_busy_def set_callback_def upd_acm_def upd_common_def
      upd_dev_def upd_vcom_def)

lemma endpoint_indices [simp]:
  "callback_index 0 = 0" "callback_index 0x80 = 1" "callback_index 0x81 = 3" "callback_index 0x82 = 5" "callback_index 3 = 6"
  "endpoint_number 0 = 0" "endpoint_number 0x80 = 0" "endpoint_number 0x81 = 1" "endpoint_number 0x82 = 2"
  "endpoint_number 3 = 3"
  by (simp_all add: callback_index_def endpoint_number_def)

lemma no_callbacks_eq: "no_callbacks = [entry NoCallback 0, entry NoCallback 0, entry NoCallback 0, entry NoCallback 0,
     entry NoCallback 0, entry NoCallback 0, entry NoCallback 0, entry NoCallback 0]"
  by (simp add: no_callbacks_def entry_def USB_DEVICE_CONFIG_ENDPOINTS_def numeral_eq_Suc)

definition no_setup :: usb_setup_struct_t where
  "no_setup = \<lparr>bmRequestType = 0, bRequest = 0, wValue = 0, wIndex = 0, wLength = 0\<rparr>"

lemma started_at:
  assumes "deviceInit H 2 h = ((kStatus_USB_Success, ch), h')" "accepting H hs"
  shows "\<exists>h'. device_started H h = device_at (device_boot h) False ch 0 (kUSB_DeviceStateDefault, 0, 0) no_callbacks
    acm_inited no_setup h'"
proof -
  obtain f where f: "\<And>ch t h. enumeration_command t \<Longrightarrow> deviceControl H ch t h = Done kStatus_USB_Success (f ch t h)"
    using assms(2) by (rule acceptingE) blast
  have "device_inited ch h' = device_at (device_boot h) False ch 0 (kUSB_DeviceStateDefault, 0, 0) no_callbacks
    acm_inited no_setup h'"
    by (simp add: device_inited_def device_at_def device_boot_def acm_inited_def vcom_boot_def descriptors_init_full
        no_setup_def)
  then show ?thesis
    unfolding device_started_eq [OF assms(1)] by (simp add: USB_DeviceRun_def USB_DeviceControl_def f) blast
qed

section \<open>The steps of an enumeration\<close>

lemma control_at:
  assumes "accepting H hs" "enumeration_command k"
  shows "\<exists>h'. USB_DeviceControl H nf 1 k (device_at B hs0 ch r v t acm p h) = (kStatus_USB_Success, device_at B hs0 ch r v t acm p h')"
proof -
  obtain f where "\<And>ch t h. enumeration_command t \<Longrightarrow> deviceControl H ch t h = Done kStatus_USB_Success (f ch t h)"
    using assms(1) by (rule acceptingE) blast
  with assms(2) show ?thesis
    by (simp add: USB_DeviceControl_def) blast
qed

lemma pipe_init_at:
  assumes "accepting H hs"
  shows "\<exists>h'. USB_DeviceControlPipeInit (device_layer H) 1 (device_at B hs0 ch r v no_callbacks acm p h) =
    (kStatus_USB_Success, device_at B hs0 ch r v control_only acm p h')"
proof -
  obtain f where "\<And>ch t h. enumeration_command t \<Longrightarrow> deviceControl H ch t h = Done kStatus_USB_Success (f ch t h)"
    using assms by (rule acceptingE) blast
  then show ?thesis
    by (simp add: USB_DeviceControlPipeInit_def USB_DeviceInitEndpoint_def control_endpoint_def
        USB_DEVICE_CONFIG_ENDPOINTS_def USB_DeviceControl_def no_callbacks_eq control_only_def entry_def) blast
qed

lemma class_reset_at:
  "USB_DeviceClassEvent c cb 1 (Some DeviceReset) (device_at B hs ch r v t acm p h) =
     (kStatus_USB_Success, Some DeviceReset, device_at B hs ch r v t (acm\<lparr>acm_configuration := 0\<rparr>) p h)"
  by (simp add: USB_DeviceClassEvent_def USB_DeviceClassGetHandleByDeviceHandle_def USB_DeviceCdcAcmEvent_def)

lemma device_reset_at:
  assumes "accepting H hs"
  shows "device_cb H 1 EvBusReset (device_at B hs0 ch r v t acm p h) =
     Some (kStatus_USB_Success, EvBusReset, device_at B hs ch r (fst v, fst (snd v), 0) t acm p h)"
proof -
  have q: "deviceQuery H ch kUSB_DeviceControlGetSpeed u h =
       (kStatus_USB_Success, ucast (if hs then USB_SPEED_HIGH else USB_SPEED_FULL))" for u
    using assms by (simp add: accepting_def)
  have "USB_DeviceClassGetSpeed (usb_stack_of H) CONTROLLER_ID sp (device_at B hs0 ch r w t acm p h) =
      (kStatus_USB_Success, Some (if hs then USB_SPEED_HIGH else USB_SPEED_FULL))" for sp w
    by (simp add: USB_DeviceClassGetSpeed_def USB_DeviceClassGetHandleByControllerId_def CONTROLLER_ID_def
        USB_DeviceGetStatus_def device_query_def q usb_consts)
  moreover have "(upd_vcom (\<lambda>v. v\<lparr>vc_speed := if hs then USB_SPEED_HIGH else USB_SPEED_FULL\<rparr>) (device_at B hs0 ch r w t acm p h))
      \<lparr>descs := descriptors_for hs\<rparr> = device_at B hs ch r w t acm p h" for w
    by (simp add: device_at_def upd_vcom_def)
  moreover have "descs (upd_vcom f (device_at B hs0 ch r w t acm p h)) = descriptors_for hs0" for f w
    by (simp add: upd_vcom_def)
  moreover have "((if hs then USB_SPEED_HIGH else USB_SPEED_FULL) = 2) = hs"
    by (simp add: usb_consts)
  ultimately show ?thesis
    by (simp add: device_cb_def set_speed_descriptors)
qed

lemma reset_at:
  assumes "accepting H hs"
  shows "\<exists>e h'. usb_notification H reset_message (device_at B hs0 ch r v t acm p h) = Some (e,
    device_at B hs ch 0 (kUSB_DeviceStateDefault, 0, 0) control_only (acm\<lparr>acm_configuration := 0\<rparr>) p h')"
proof -
  obtain h1 where h1: "USB_DeviceControl H (cancelled_notification H) 1 kUSB_DeviceControlSetDefaultStatus
      (device_at B hs0 ch 1 v t acm p h) = (kStatus_USB_Success, device_at B hs0 ch 1 v t acm p h1)"
    using control_at [OF assms] by (metis enumeration_command.simps)
  obtain h2 where h2: "USB_DeviceControlPipeInit (device_layer H) 1
      (device_at B hs0 ch 1 (kUSB_DeviceStateDefault, 0, snd (snd v)) no_callbacks acm p h1) =
      (kStatus_USB_Success, device_at B hs0 ch 1 (kUSB_DeviceStateDefault, 0, snd (snd v)) control_only acm p h2)"
    using pipe_init_at [OF assms] by blast
  have "bus_reset H 1 (device_at B hs0 ch 1 (kUSB_DeviceStateDefault, 0, snd (snd v)) no_callbacks acm p h1) =
      Some (device_at B hs ch 1 (kUSB_DeviceStateDefault, 0, 0) control_only (acm\<lparr>acm_configuration := 0\<rparr>) p h2)"
    by (simp add: bus_reset_def USB_DeviceClassCallback_def USB_DeviceClassGetHandleByDeviceHandle_def h2 class_reset_at
        device_reset_at [OF assms] del: One_nat_def)
  then show ?thesis
    by (simp add: usb_notification_def USB_DeviceNotificationTrigger_def USB_DeviceNotification_def reset_message_def
        USB_DeviceResetNotification_def h1 del: One_nat_def) blast
qed

lemma transfer_at:
  assumes "accepting H hs" "endpoint_number a < 4" "ep_isBusy (t ! callback_index a) = 0" "a AND 0x80 = 0 \<or> a = 0x80"
  shows "\<exists>h'. USB_DeviceTransfer H 1 a b n (device_at B hs0 ch r v t acm p h) =
    (kStatus_USB_Success, device_at B hs0 ch r v (t[callback_index a := (t ! callback_index a)\<lparr>ep_isBusy := 1\<rparr>]) acm p h')"
proof -
  obtain g k where "\<And>ch b n h. deviceSend H ch 0x80 b n h = (kStatus_USB_Success, g ch b n h)"
    "\<And>ch a b n h. deviceRecv H ch a b n h = (kStatus_USB_Success, k ch a b n h)"
    using assms(1) by (rule acceptingE) blast
  with assms(1-3) show ?thesis
    using assms(4) by (elim disjE) (simp add: USB_DeviceTransfer_def USB_DEVICE_CONFIG_ENDPOINTS_def, blast)+
qed

lemma send_status_at:
  assumes "accepting H hs"
  shows "\<exists>h'. USB_DeviceSendRequest H 1 0 b n (device_at B hs0 ch r v (entry ControlCallback x # entry ControlCallback 0 # t) acm p h) =
    (kStatus_USB_Success, device_at B hs0 ch r v (entry ControlCallback x # entry ControlCallback 1 # t) acm p h')"
  using transfer_at [OF assms, where a = "0x80" and t = "entry ControlCallback x # entry ControlCallback 0 # t"]
  by (simp add: USB_DeviceSendRequest_def entry_def)

lemma entry_simps [simp]: "callbackFn (entry f b) = f" "callbackParam (entry f b) = (f \<noteq> NoCallback)"
  "(entry f b)\<lparr>ep_isBusy := c\<rparr> = entry f c" "ep_isBusy (entry f b) = b"
  by (simp_all add: entry_def)

lemma setup_callback_at:
  "endpoint_callback (setup_message p)
     (device_at B hs ch r v (entry ControlCallback x # entry ControlCallback y # t) acm p0 h) =
   (Some (entry ControlCallback 0), device_at B hs ch r v (entry ControlCallback 0 # entry ControlCallback 0 # t) acm p0 h)"
  by (simp add: endpoint_callback_def setup_message_def USB_DEVICE_CONFIG_ENDPOINTS_def)

lemma status_callback_at:
  "endpoint_callback status_sent
     (device_at B hs ch r v (entry ControlCallback x # entry ControlCallback y # t) acm p0 h) =
   (Some (entry ControlCallback 0), device_at B hs ch r v (entry ControlCallback x # entry ControlCallback 0 # t) acm p0 h)"
  by (simp add: endpoint_callback_def status_sent_def USB_DEVICE_CONFIG_ENDPOINTS_def)

lemma setup_arrives:
  "usb_notification H (setup_message p)
     (device_at B hs ch r v (entry ControlCallback x # entry ControlCallback y # t) acm p0 h) =
   setup_stage (usb_stack_of H) (class_cb H) (device_cb H) 1 p
     (device_at B hs ch r v (entry ControlCallback 0 # entry ControlCallback 0 # t) acm p h)"
proof -
  have "endpoint_message (setup_message p) = \<lparr>msg_buffer = SetupBuf p, msg_length = 8, msg_isSetup = 1\<rparr>"
    "code (setup_message p) \<noteq> kUSB_DeviceNotifyBusReset"
    by (simp_all add: endpoint_message_def setup_message_def kUSB_DeviceNotifyBusReset_def)
  then show ?thesis
    by (simp add: usb_notification_def USB_DeviceNotificationTrigger_def USB_DeviceNotification_def setup_callback_at
        completion_def USB_DeviceControlCallback_def USB_CANCELLED_TRANSFER_LENGTH_def USB_SETUP_PACKET_SIZE_def)
qed

text \<open>A setup packet goes to the setup stage; a standard request that succeeds primes its status stage.\<close>

lemma setup_at:
  assumes "accepting H hs" "recipient p \<le> 3" "request_type p = USB_REQUEST_TYPE_TYPE_STANDARD" "\<not> dir_in p"
    "standard_request (usb_stack_of H) (class_cb H) (device_cb H) p
       (device_at B hs0 ch r v (entry ControlCallback 0 # entry ControlCallback 0 # t) acm p h) =
     Some (kStatus_USB_Success, NullBuf, 0,
       device_at B hs0 ch r v' (entry ControlCallback 0 # entry ControlCallback 0 # t') acm' p h')"
  shows "\<exists>h'. usb_notification H (setup_message p)
       (device_at B hs0 ch r v (entry ControlCallback 0 # entry ControlCallback x # t) acm p0 h) =
     Some (kStatus_USB_Success,
       device_at B hs0 ch r v' (entry ControlCallback 0 # entry ControlCallback 1 # t') acm' p h')"
proof -
  obtain h2 where "USB_DeviceSendRequest H 1 0 NullBuf 0
      (device_at B hs0 ch r v' (entry ControlCallback 0 # entry ControlCallback 0 # t') acm' p h') =
    (kStatus_USB_Success, device_at B hs0 ch r v' (entry ControlCallback 0 # entry ControlCallback 1 # t') acm' p h2)"
    using send_status_at [OF assms(1)] by blast
  with assms(2-5) show ?thesis
    by (simp add: setup_arrives setup_stage_def USB_REQUEST_TYPE_RECIPIENT_OTHER_def not_less [symmetric]
        USB_DeviceControlCallbackFeedback_def) blast
qed

lemma low_byte:
  assumes "(n :: u16) < 0x80"
  shows "(ucast (n AND 0xFF) :: u8) = ucast n" "\<not> 0x80 \<le> (ucast n :: u8)"
proof -
  have mask: "(0xFF :: u16) = mask 8"
    by (simp add: mask_eq_exp_minus_1)
  have "unat n < 0x80"
    using assms by (simp add: word_less_nat_alt)
  then show "\<not> 0x80 \<le> (ucast n :: u8)"
    by (simp add: word_le_nat_alt unsigned_ucast_eq take_bit_eq_mod)
  show "(ucast (n AND 0xFF) :: u8) = ucast n"
    unfolding mask by (rule bit_word_eqI) (auto simp: bit_simps)
qed

lemma set_address_at:
  assumes "accepting H hs" "n < 0x80"
  shows "\<exists>h'. usb_notification H (setup_message (set_address n))
      (device_at B hs ch r (kUSB_DeviceStateDefault, 0, a) control_only acm p h) =
    Some (kStatus_USB_Success, device_at B hs ch r (kUSB_DeviceStateAddressing, ucast n, a)
      (entry ControlCallback 0 # entry ControlCallback 1 # tl (tl control_only)) acm (set_address n) h')"
proof -
  let ?p = "set_address n"
  obtain t where co: "control_only = entry ControlCallback 0 # entry ControlCallback 0 # t"
    by (simp add: control_only_def)
  obtain h1 where h1: "USB_DeviceControl H (cancelled_notification H) 1 (kUSB_DeviceControlPreSetDeviceAddress (ucast n))
      (device_at B hs ch r (kUSB_DeviceStateAddressing, ucast n, a) control_only acm ?p h) =
      (kStatus_USB_Success, device_at B hs ch r (kUSB_DeviceStateAddressing, ucast n, a) control_only acm ?p h1)"
    using control_at [OF assms(1)] by (metis enumeration_command.simps)
  note n = low_byte [OF assms(2)]
  have "standard_request (usb_stack_of H) (class_cb H) (device_cb H) ?p
       (device_at B hs ch r (kUSB_DeviceStateDefault, 0, a) control_only acm ?p h) =
     Some (kStatus_USB_Success, NullBuf, 0,
       device_at B hs ch r (kUSB_DeviceStateAddressing, ucast n, a) control_only acm ?p h1)"
    using h1 n
    by (simp add: standard_request_def set_address_def USB_DeviceCh9SetAddress_def dir_in_def recipient_def
        request_consts USB_DeviceSetStatus_def dev_states Let_def flip: not_less)
  with setup_at [OF assms(1), of ?p B hs ch r _ t] show ?thesis
    by (simp add: co set_address_def recipient_def request_type_def dir_in_def request_consts)
qed

lemma address_done_at:
  assumes "accepting H hs"
  shows "\<exists>h'. usb_notification H status_sent
      (device_at B hs ch r (kUSB_DeviceStateAddressing, d, a) (entry ControlCallback x # entry ControlCallback y # t) acm
        (set_address n) h) =
    Some (kStatus_USB_Success, device_at B hs ch r (kUSB_DeviceStateAddress, d, a)
      (entry ControlCallback x # entry ControlCallback 0 # t) acm (set_address n) h')"
proof -
  let ?t = "entry ControlCallback x # entry ControlCallback 0 # t"
  obtain h1 where h1: "USB_DeviceControl H (cancelled_notification H) 1 (kUSB_DeviceControlSetDeviceAddress d)
      (device_at B hs ch r (kUSB_DeviceStateAddressing, d, a) ?t acm (set_address n) h) =
      (kStatus_USB_Success, device_at B hs ch r (kUSB_DeviceStateAddressing, d, a) ?t acm (set_address n) h1)"
    using control_at [OF assms(1)] by (metis enumeration_command.simps)
  have "endpoint_message status_sent = \<lparr>msg_buffer = NullBuf, msg_length = 0, msg_isSetup = 0\<rparr>"
    "code status_sent \<noteq> kUSB_DeviceNotifyBusReset"
    by (simp_all add: endpoint_message_def status_sent_def kUSB_DeviceNotifyBusReset_def)
  moreover have "USB_DeviceCh9SetAddress (usb_stack_of H) (set_address n)
      (device_at B hs ch r (kUSB_DeviceStateAddressing, d, a) ?t acm (set_address n) h) =
      (kStatus_USB_Success, NullBuf, 0, device_at B hs ch r (kUSB_DeviceStateAddress, d, a) ?t acm (set_address n) h1)"
    using h1 by (simp add: USB_DeviceCh9SetAddress_def set_address_def dir_in_def recipient_def request_consts
        USB_DeviceSetStatus_def)
  ultimately show ?thesis
    by (simp add: usb_notification_def USB_DeviceNotificationTrigger_def USB_DeviceNotification_def status_callback_at
        completion_def USB_DeviceControlCallback_def USB_CANCELLED_TRANSFER_LENGTH_def)
      (simp add: set_address_def request_consts, blast)
qed

text \<open>No interface is known from an earlier configuration.\<close>

definition handles_ok :: "usb_device_cdc_acm_struct_t \<Rightarrow> bool" where
  "handles_ok acm \<longleftrightarrow> commInterfaceHandle acm = None \<and> dataInterfaceHandle acm = None"

lemma class_configuration_at:
  assumes "accepting H hs" "acm_configuration acm \<noteq> 1" "configStruct acm" "acm_handle acm = 1"
    "handles_ok acm" "hasSentState acm = k"
  shows "\<exists>h'. USB_DeviceClassEvent (usb_stack_of H) cb 1 (Some (SetConfiguration 1))
      (device_at B hs ch r v control_only acm p h) =
    (kStatus_USB_Success, Some (SetConfiguration 1),
     device_at B hs ch r v (all_open 0 0) ((acm_opened k)\<lparr>bulkOut := idle_pipe 3\<rparr>) p h')"
proof -
  obtain f where f: "\<And>ch t h. enumeration_command t \<Longrightarrow> deviceControl H ch t h = Done kStatus_USB_Success (f ch t h)"
    using assms(1) by (rule acceptingE) blast
  have eps: "endpoints_in \<lparr>alternateSetting = 0, endpointList = Cic\<rparr> (descriptors_for hs) = fst (endpoints_for hs)"
    "endpoints_in \<lparr>alternateSetting = 0, endpointList = Dic\<rparr> (descriptors_for hs) = snd (endpoints_for hs)"
    by (simp_all add: endpoints_in_def descriptors_for_def)
  have ifs: "find_class 2 g_UsbDeviceCdcVcomInterfaces = Some \<lparr>classCode = 2, subclassCode = 2, protocolCode = 0,
      ifaceNumber = 0, settings = [\<lparr>alternateSetting = 0, endpointList = Cic\<rparr>]\<rparr>"
    "find_class 0xA g_UsbDeviceCdcVcomInterfaces = Some \<lparr>classCode = 0xA, subclassCode = 0, protocolCode = 0,
      ifaceNumber = 1, settings = [\<lparr>alternateSetting = 0, endpointList = Dic\<rparr>]\<rparr>"
    by (simp_all add: find_class_def g_UsbDeviceCdcVcomInterfaces_def)
  show ?thesis
    using assms(2-)
    by (cases acm) (simp add: handles_ok_def USB_DeviceClassEvent_def USB_DeviceClassGetHandleByDeviceHandle_def USB_DeviceCdcAcmEvent_def
        USB_DeviceCdcAcmEndpointsDeinit_def USB_DeviceCdcAcmEndpointsInit_def ifs find_setting_def
        eps endpoints_for_def is_in_def is_out_def usb_consts Let_def USB_DeviceInitEndpoint_def USB_DeviceControl_def f
        USB_DEVICE_CONFIG_ENDPOINTS_def control_only_def all_open_def acm_opened_def entry_def, blast)
qed

lemma configured_callback_at:
  assumes "accepting H hs"
  shows "\<exists>h'. device_cb H 1 (EvSetConfiguration 1)
      (device_at B hs ch r (x, d, a) (all_open 0 0) ((acm_opened k)\<lparr>bulkOut := idle_pipe 3\<rparr>) p h) =
    Some (kStatus_USB_Success, EvSetConfiguration 1, device_at B hs ch r (x, d, 1) (all_open 0 1) (acm_opened k) p h')"
proof -
  obtain n where n: "bulk_out_size (device_at B hs ch r v t acm p h) = n" for v t acm p and h :: 'a
    by (simp add: bulk_out_size_def)
  obtain h1 where "USB_DeviceTransfer H 1 3 CurrRecvBuf n (device_at B hs ch r (x, d, 1) (all_open 0 0) (acm_opened k) p h) =
      (kStatus_USB_Success, device_at B hs ch r (x, d, 1) (all_open 0 1) (acm_opened k) p h1)"
    using transfer_at [OF assms, where a = 3 and t = "all_open 0 0"] by (simp add: all_open_def) blast
  then have "USB_DeviceCdcAcmRecv (usb_stack_of H) AcmHandle USB_CDC_VCOM_BULK_OUT_ENDPOINT CurrRecvBuf
      (bulk_out_size (device_at B hs ch r (x, d, 1) (all_open 0 0) ((acm_opened k)\<lparr>bulkOut := idle_pipe 3\<rparr>) p h))
      (device_at B hs ch r (x, d, 1) (all_open 0 0) ((acm_opened k)\<lparr>bulkOut := idle_pipe 3\<rparr>) p h) =
      (kStatus_USB_Success, device_at B hs ch r (x, d, 1) (all_open 0 1) (acm_opened k) p h1)"
    by (simp add: n USB_DeviceCdcAcmRecv_def acm_opened_def idle_pipe_def USB_DeviceRecvRequest_def usb_consts)
  then show ?thesis
    by (simp add: device_cb_def) blast
qed

lemma set_configuration_at:
  assumes "accepting H hs" "acm_configuration acm \<noteq> 1" "configStruct acm" "acm_handle acm = 1"
    "handles_ok acm" "hasSentState acm = k"
  shows "\<exists>h'. usb_notification H (setup_message (set_configuration 1))
      (device_at B hs ch r (kUSB_DeviceStateAddress, d, a) control_only acm p h) =
    Some (kStatus_USB_Success, device_at B hs ch r (kUSB_DeviceStateConfigured, d, 1) (all_open 1 1) (acm_opened k)
      (set_configuration 1) h')"
proof -
  let ?p = "set_configuration 1"
  obtain t where co: "control_only = entry ControlCallback 0 # entry ControlCallback 0 # t"
    by (simp add: control_only_def)
  obtain t' where ao: "all_open c 1 = entry ControlCallback 0 # entry ControlCallback c # t'" for c
    by (simp add: all_open_def)
  obtain h1 where h1: "USB_DeviceClassEvent (usb_stack_of H) (class_cb H) 1 (Some (SetConfiguration 1))
      (device_at B hs ch r (kUSB_DeviceStateConfigured, d, a) control_only acm ?p h) =
    (kStatus_USB_Success, Some (SetConfiguration 1),
     device_at B hs ch r (kUSB_DeviceStateConfigured, d, a) (all_open 0 0) ((acm_opened k)\<lparr>bulkOut := idle_pipe 3\<rparr>) ?p h1)"
    using class_configuration_at [OF assms] by blast
  obtain h2 where h2: "device_cb H 1 (EvSetConfiguration 1)
      (device_at B hs ch r (kUSB_DeviceStateConfigured, d, a) (all_open 0 0) ((acm_opened k)\<lparr>bulkOut := idle_pipe 3\<rparr>) ?p h1) =
    Some (kStatus_USB_Success, EvSetConfiguration 1,
      device_at B hs ch r (kUSB_DeviceStateConfigured, d, 1) (all_open 0 1) (acm_opened k) ?p h2)"
    using configured_callback_at [OF assms(1)] by blast
  have "standard_request (usb_stack_of H) (class_cb H) (device_cb H) ?p
       (device_at B hs ch r (kUSB_DeviceStateAddress, d, a) control_only acm ?p h) =
     Some (kStatus_USB_Success, NullBuf, 0,
       device_at B hs ch r (kUSB_DeviceStateConfigured, d, 1) (all_open 0 1) (acm_opened k) ?p h2)"
    using h1 h2
    by (simp add: standard_request_def set_configuration_def USB_DeviceCh9SetConfiguration_def dir_in_def recipient_def
        request_consts USB_DeviceSetStatus_def USB_DeviceClassCallback_def USB_DeviceClassGetHandleByDeviceHandle_def)
  with setup_at [OF assms(1), of ?p B hs ch r _ t] show ?thesis
    by (simp add: co ao set_configuration_def recipient_def request_type_def dir_in_def request_consts)
qed

text \<open>The whole enumeration; \<open>gs\<close> is what the hardware does before each message.\<close>

definition enumeration :: "('h \<Rightarrow> 'h) list \<Rightarrow> u16 \<Rightarrow> 'h device_event list" where
  "enumeration gs n = map2 Notify gs
     [reset_message, setup_message (set_address n), status_sent, setup_message (set_configuration 1)]"

lemma enumeration_at:
  assumes "accepting H hs" "n < 0x80" "length gs = 4" "configStruct acm" "acm_handle acm = 1"
    "handles_ok acm" "hasSentState acm = k"
  shows "\<exists>h'. device_run H (enumeration gs n) (device_at B hs0 ch r v t acm p h) =
    Some (device_at B hs ch 0 (kUSB_DeviceStateConfigured, ucast n, 1) (all_open 1 1) (acm_opened k) (set_configuration 1) h')"
proof -
  let ?acm = "acm\<lparr>acm_configuration := 0\<rparr>"
  obtain g1 g2 g3 g4 where gs: "gs = [g1, g2, g3, g4]"
    using assms(3) by (auto simp: numeral_eq_Suc length_Suc_conv)
  obtain e h1 where h1: "usb_notification H reset_message (device_at B hs0 ch r v t acm p (g1 h)) =
      Some (e, device_at B hs ch 0 (kUSB_DeviceStateDefault, 0, 0) control_only ?acm p h1)"
    using reset_at [OF assms(1)] by blast
  obtain t where co: "control_only = entry ControlCallback 0 # entry ControlCallback 0 # t"
    by (simp add: control_only_def)
  obtain h2 where h2: "usb_notification H (setup_message (set_address n))
      (device_at B hs ch 0 (kUSB_DeviceStateDefault, 0, 0) control_only ?acm p (g2 h1)) =
      Some (kStatus_USB_Success, device_at B hs ch 0 (kUSB_DeviceStateAddressing, ucast n, 0)
        (entry ControlCallback 0 # entry ControlCallback 1 # t) ?acm (set_address n) h2)"
    using set_address_at [OF assms(1,2)] by (simp add: co) blast
  obtain h3 where h3: "usb_notification H status_sent
      (device_at B hs ch 0 (kUSB_DeviceStateAddressing, ucast n, 0)
        (entry ControlCallback 0 # entry ControlCallback 1 # t) ?acm (set_address n) (g3 h2)) =
      Some (kStatus_USB_Success, device_at B hs ch 0 (kUSB_DeviceStateAddress, ucast n, 0) control_only ?acm (set_address n) h3)"
    using address_done_at [OF assms(1)] by (simp add: co) blast
  obtain h4 where h4: "usb_notification H (setup_message (set_configuration 1))
      (device_at B hs ch 0 (kUSB_DeviceStateAddress, ucast n, 0) control_only ?acm (set_address n) (g4 h3)) =
      Some (kStatus_USB_Success, device_at B hs ch 0 (kUSB_DeviceStateConfigured, ucast n, 1) (all_open 1 1) (acm_opened k)
        (set_configuration 1) h4)"
    using set_configuration_at [OF assms(1), of ?acm k] assms(4-7) by (simp add: handles_ok_def) blast
  show ?thesis
    by (simp add: enumeration_def gs h1 h2 h3 h4) blast
qed

end
