(* ===== verification/UsbChapter9.thy ===== *)
theory UsbChapter9
  imports UsbDevice
begin

unbundle bit_operations_syntax

text \<open>
  The device states as chapter 9 of the USB 2.0 specification has them (9.1.1, 9.4.6, 9.4.7), written
  from the specification and not from the code, what of it the host sees of the device, and the
  places, one rule each, where the device departs from it.
\<close>

section \<open>The specification\<close>

text \<open>
  A device is in the default state, has an address, or is also configured, with a configuration value.
  In \<open>Changing c n\<close> a \<open>SET_ADDRESS\<close> to \<open>n\<close> has been set up in state \<open>c\<close> and its status stage is still to come.
\<close>

datatype ch9_state = Default | Addressed u8 | Configured u8 u8 | Changing ch9_state u8

text \<open>
  The host resets the bus, sets up a control transfer, or completes the status or data stage of the
  one set up last; transactions with other endpoints, and cancelled transfers, do not concern chapter 9.
\<close>

datatype host_event = Bus_reset | Setup usb_setup_struct_t | Stage_over usb_setup_struct_t | Elsewhere

text \<open>A request to the device without data; requests 5 and 9 are \<open>SET_ADDRESS\<close> and \<open>SET_CONFIGURATION\<close>.\<close>

definition device_request :: "u8 \<Rightarrow> usb_setup_struct_t \<Rightarrow> bool" where
  "device_request r p \<longleftrightarrow> bmRequestType p = 0 \<and> bRequest p = r \<and> wIndex p = 0 \<and> wLength p = 0"

definition sets_address :: "usb_setup_struct_t \<Rightarrow> bool" where
  "sets_address p \<longleftrightarrow> device_request 5 p \<and> wValue p < 128"

text \<open>The value of the one configuration is the one its descriptor announces, \<open>bConfigurationValue\<close>.\<close>

definition configuration_value :: u8 where
  "configuration_value = configuration_descriptor_init ! 5"

definition sets_configuration :: "usb_setup_struct_t \<Rightarrow> bool" where
  "sets_configuration p \<longleftrightarrow> device_request 9 p \<and> wValue p = ucast configuration_value"

definition clears_configuration :: "usb_setup_struct_t \<Rightarrow> bool" where
  "clears_configuration p \<longleftrightarrow> device_request 9 p \<and> wValue p = 0"

fun settled :: "ch9_state \<Rightarrow> ch9_state" where
  "settled (Changing c n) = settled c"
| "settled c = c"

text \<open>
  A setup packet abandons a transfer that is not complete. Where the specification leaves the behaviour
  open (an address above 127, a new address in the configured state), and where it demands a request
  error, the state stays.
\<close>

fun chapter9 :: "host_event \<Rightarrow> ch9_state \<Rightarrow> ch9_state" where
  "chapter9 Bus_reset c = Default"
| "chapter9 (Setup p) c =
     (case settled c of
        Addressed n \<Rightarrow>
          if sets_address p then Changing (Addressed n) (ucast (wValue p))
          else if sets_configuration p then Configured n configuration_value else Addressed n
      | Configured n k \<Rightarrow>
          if sets_configuration p then Configured n configuration_value
          else if clears_configuration p then Addressed n else Configured n k
      | c \<Rightarrow> if sets_address p then Changing c (ucast (wValue p)) else c)"
| "chapter9 (Stage_over p) (Changing c n) = (if device_request 5 p then if n = 0 then Default else Addressed n else Changing c n)"
| "chapter9 (Stage_over p) c = c"
| "chapter9 Elsewhere c = c"

section \<open>The device\<close>

text \<open>
  The state of the device, its address and whether the application is attached, which it is in
  configuration 1 only; the state a new address is set in is not kept by the device.
\<close>

fun stands_for :: "ch9_state \<Rightarrow> usb_view \<Rightarrow> bool" where
  "stands_for Default (x, d, a) \<longleftrightarrow> x = kUSB_DeviceStateDefault \<and> a = 0"
| "stands_for (Addressed n) (x, d, a) \<longleftrightarrow> x = kUSB_DeviceStateAddress \<and> d = n \<and> a = 0"
| "stands_for (Configured n k) (x, d, a) \<longleftrightarrow> x = kUSB_DeviceStateConfigured \<and> d = n \<and> a = k"
| "stands_for (Changing c n) (x, d, a) \<longleftrightarrow> x = kUSB_DeviceStateAddressing \<and> d = n \<and> a = 0"

text \<open>What the host does with the message the controller notifies.\<close>

definition host_event_of :: "'h device \<Rightarrow> usb_device_callback_message_struct_t \<Rightarrow> host_event" where
  "host_event_of s m =
     (if code m = kUSB_DeviceNotifyBusReset then Bus_reset
      else if \<not> to_control_pipe s m then Elsewhere
      else if ms_isSetup m \<noteq> 0 then
        (case ms_buffer m of SetupBuf p \<Rightarrow> if ms_length m = USB_SETUP_PACKET_SIZE then Setup p else Elsewhere | _ \<Rightarrow> Elsewhere)
      else Stage_over (setupBuffer (s_UsbDeviceCommonClassStruct s)))"

text \<open>
  The departures. While a new address is being set, another setup packet does not abandon it, a second
  \<open>SET_ADDRESS\<close> completes the first, and so does the end of a stage of a request that has the number 5 but
  another type. Address 0 leads to the address state with address 0 and not back to the default state.
  Only the low bytes of an address and of a configuration value count, though the zero value is
  recognised by both. And a value of \<open>SET_CONFIGURATION\<close> that the device does not have, which is a
  request error, takes it from the address state to the configured state without a configuration.
\<close>

inductive departs :: "host_event \<Rightarrow> ch9_state \<Rightarrow> ch9_state \<Rightarrow> bool" where
  keeps_address: "\<not> device_request 5 p \<Longrightarrow> departs (Setup p) (Changing c n) (Changing c n)"
| second_address: "device_request 5 p \<Longrightarrow> departs (Setup p) (Changing c n) (Addressed n)"
| other_completion: "bRequest p = 5 \<Longrightarrow> bmRequestType p \<noteq> 0 \<Longrightarrow> departs (Stage_over p) (Changing c n) (Addressed n)"
| address_zero: "device_request 5 p \<Longrightarrow> departs (Stage_over p) (Changing c 0) (Addressed 0)"
| high_address: "device_request 5 p \<Longrightarrow> 256 \<le> wValue p \<Longrightarrow> c = Default \<or> c = Addressed n \<Longrightarrow>
    departs (Setup p) c (Changing c (ucast (wValue p)))"
| refused_configuration: "device_request 9 p \<Longrightarrow> wValue p \<noteq> 0 \<Longrightarrow> (ucast (wValue p) :: u8) \<notin> {0, configuration_value} \<Longrightarrow>
    departs (Setup p) (Addressed n) (Configured n 0)"
| high_configuration: "device_request 9 p \<Longrightarrow> 256 \<le> wValue p \<Longrightarrow> ucast (wValue p) \<in> {0, configuration_value} \<Longrightarrow>
    c = Addressed n \<or> c = Configured n k \<Longrightarrow> departs (Setup p) c (Configured n (ucast (wValue p)))"

section \<open>One against the other\<close>

lemma configuration_value_1: "configuration_value = 1"
  by (simp add: configuration_value_def configuration_descriptor_init_def)

lemma plain_out_device: "plain_out p \<and> request_type p = USB_REQUEST_TYPE_TYPE_STANDARD \<longleftrightarrow>
    bmRequestType p = 0 \<and> wIndex p = 0 \<and> wLength p = 0"
proof -
  let ?x = "bmRequestType p"
  have top: "?x AND 0x80 = 0" if "?x AND 0x80 \<noteq> 0x80"
  proof -
    have "?x AND 2 ^ 7 = 2 ^ 7" if "bit ?x 7"
      by (rule bit_word_eqI, simp only: bit_and_iff bit_exp_iff) (use that in auto)
    then show ?thesis
      using that and_exp_eq_0_iff_not_bit [of ?x 7] by auto
  qed
  have "?x = 0" if "?x AND 0x80 \<noteq> 0x80" "?x AND 0x1F = 0" "?x AND 0x60 = 0"
  proof -
    have "?x AND (0x80 OR 0x1F OR 0x60) = 0"
      using top [OF that(1)] that(2,3) by (simp only: bit.conj_disj_distrib) simp
    moreover have "(0x80 OR 0x1F OR 0x60 :: u8) = - 1"
      by simp
    ultimately show ?thesis
      by (simp only: bit.conj_one_right)
  qed
  then show ?thesis
    by (auto simp: plain_out_def dir_in_def recipient_def request_type_def request_consts)
qed

lemma low_values:
  fixes w :: u16
  shows "(ucast (w AND 0xFF) :: u8) = ucast w" "w < 256 \<Longrightarrow> unat (ucast w :: u8) = unat w"
proof -
  have mask: "(0xFF :: u16) = mask 8"
    by (simp add: mask_eq_exp_minus_1)
  show "(ucast (w AND 0xFF) :: u8) = ucast w"
    unfolding mask by (rule bit_word_eqI) (auto simp: bit_simps)
  assume "w < 256"
  then have "unat w < 256"
    by (simp add: word_less_nat_alt)
  then show "unat (ucast w :: u8) = unat w"
    by (simp add: unsigned_ucast_eq take_bit_eq_mod)
qed

lemma low_value_cases:
  fixes w :: u16
  shows "(ucast w :: u8) < 0x80 \<longleftrightarrow> w < 128 \<or> 256 \<le> w \<and> (ucast w :: u8) < 0x80" "w < 128 \<Longrightarrow> \<not> 256 \<le> w"
    "(ucast w :: u8) = 0 \<Longrightarrow> w = 0 \<or> 256 \<le> w" "(ucast w :: u8) = 1 \<Longrightarrow> w = 1 \<or> 256 \<le> w"
proof -
  have small: "unat (ucast w :: u8) = unat w" if "\<not> 256 \<le> w"
    using low_values(2) [of w] that by (simp add: not_le)
  have order: "w < 128 \<longleftrightarrow> unat w < 128" "256 \<le> w \<longleftrightarrow> 256 \<le> unat w" "(ucast w :: u8) < 0x80 \<longleftrightarrow> unat (ucast w :: u8) < 128"
    by (simp_all add: word_less_nat_alt word_le_nat_alt)
  show "w < 128 \<Longrightarrow> \<not> 256 \<le> w"
    by (simp add: order)
  show "(ucast w :: u8) < 0x80 \<longleftrightarrow> w < 128 \<or> 256 \<le> w \<and> (ucast w :: u8) < 0x80"
    using small unfolding order by fastforce
  show "w = 0 \<or> 256 \<le> w" if "(ucast w :: u8) = 0"
  proof (cases "256 \<le> w")
    case False
    with small that have "unat w = 0"
      by simp
    then show ?thesis
      by (simp add: unat_eq_0)
  qed simp
  show "w = 1 \<or> 256 \<le> w" if "(ucast w :: u8) = 1"
  proof (cases "256 \<le> w")
    case False
    with small that have "unat w = unat (1 :: u16)"
      by simp
    then show ?thesis
      by (simp only: word_unat_eq_iff) simp
  qed simp
qed

lemma setup_follows:
  assumes "stands_for c v" "v' \<in> setup_view True p v" "snd (snd v) \<in> {0, 1}"
  shows "\<exists>c'. stands_for c' v' \<and> (c' = chapter9 (Setup p) c \<or> departs (Setup p) c c')"
proof -
  obtain x d a where v: "v = (x, d, a)" and a: "a \<in> {0, 1}"
    using assms(3) by (cases v) auto
  consider (other) "\<not> device_request 5 p" "\<not> device_request 9 p" "v' = v"
    | (address) "device_request 5 p" "\<not> device_request 9 p" "plain_out p" "request_type p = USB_REQUEST_TYPE_TYPE_STANDARD" "bRequest p = 5"
    | (configuration) "device_request 9 p" "\<not> device_request 5 p" "plain_out p" "request_type p = USB_REQUEST_TYPE_TYPE_STANDARD" "bRequest p = 9"
    using plain_out_device [of p] assms(2) unfolding v by (auto simp: device_request_def split: if_split_asm)
  then show ?thesis
  proof cases
    case other
    then have "chapter9 (Setup p) c = settled c"
      by (cases "settled c") (simp_all add: sets_address_def sets_configuration_def clears_configuration_def)
    with other assms(1) show ?thesis
      by (cases c) (auto intro: keeps_address)
  next
    case address
    then have C: "\<not> sets_configuration p" "\<not> clears_configuration p" "sets_address p \<longleftrightarrow> wValue p < 128"
      by (simp_all add: sets_configuration_def clears_configuration_def sets_address_def)
    let ?n = "ucast (wValue p) :: u8"
    show ?thesis
    proof (cases c)
      case Default
      then have "v' = (if ?n < 0x80 then (kUSB_DeviceStateAddressing, ?n, a) else v)" "x = kUSB_DeviceStateDefault" "a = 0"
        using assms(1,2) address(3-5) by (auto simp: v low_values(1) dev_states split: if_split_asm)
      then show ?thesis
        using low_value_cases(1,2) [of "wValue p"] high_address [OF address(1), of c] assms(1) Default C
        by (cases "wValue p < 128") (auto intro: exI [of _ "Changing c ?n"] exI [of _ c] simp: v)
    next
      case (Addressed n)
      then have "v' = (if ?n < 0x80 then (kUSB_DeviceStateAddressing, ?n, a) else v)" "x = kUSB_DeviceStateAddress" "a = 0"
        using assms(1,2) address(3-5) by (auto simp: v low_values(1) dev_states split: if_split_asm)
      then show ?thesis
        using low_value_cases(1,2) [of "wValue p"] high_address [OF address(1), of c] assms(1) Addressed C
        by (cases "wValue p < 128") (auto intro: exI [of _ "Changing c ?n"] exI [of _ c] simp: v)
    next
      case (Configured n k)
      then have "v' = v"
        using assms(1,2) address(3-5) by (simp_all add: v dev_states)
      then show ?thesis
        using assms(1) Configured C by (intro exI [of _ c]) simp
    next
      case (Changing c0 n)
      then have "v' = (kUSB_DeviceStateAddress, n, 0)"
        using assms(1,2) address(3-5) by (simp add: v)
      then show ?thesis
        using second_address [OF address(1)] Changing by (intro exI [of _ "Addressed n"]) simp
    qed
  next
    case configuration
    let ?n = "ucast (wValue p) :: u8"
    note C = configuration(1,2) configuration_value_1
    have up: "ucast (1 :: u8) = (1 :: u16)"
      by simp
    show ?thesis
    proof (cases c)
      case (Addressed n)
      then have v': "v' = (if wValue p = 0 then kUSB_DeviceStateAddress else kUSB_DeviceStateConfigured, n, if ?n = 1 then 1 else 0)"
        using assms(1,2) configuration(3-5) by (auto simp: v)
      consider (zero) "wValue p = 0" | (one) "wValue p = 1" | (refused) "wValue p \<noteq> 0" "?n \<notin> {0, 1}" | (high) "256 \<le> wValue p" "?n \<in> {0, 1}" "wValue p \<noteq> 0" "wValue p \<noteq> 1"
        using low_value_cases(3,4) [of "wValue p"] by blast
      then show ?thesis
      proof cases
        case zero
        with v' Addressed C show ?thesis
          by (intro exI [of _ c]) (simp add: sets_address_def sets_configuration_def)
      next
        case one
        with v' Addressed C show ?thesis
          by (intro exI [of _ "Configured n 1"]) (simp add: sets_address_def sets_configuration_def)
      next
        case refused
        with v' Addressed C refused_configuration [OF C(1), of n] show ?thesis
          by (intro exI [of _ "Configured n 0"]) simp
      next
        case high
        with v' Addressed C high_configuration [OF C(1) high(1), of c n] show ?thesis
          by (intro exI [of _ "Configured n ?n"]) auto
      qed
    next
      case (Configured n k)
      then have v': "v' = (if wValue p = 0 then kUSB_DeviceStateAddress else kUSB_DeviceStateConfigured, n,
          if ?n = 0 then 0 else if ?n = 1 then 1 else k)"
        using assms(1,2) configuration(3-5) by (auto simp: v)
      consider (zero) "wValue p = 0" | (one) "wValue p = 1" | (refused) "wValue p \<noteq> 0" "?n \<notin> {0, 1}"
        | (high) "256 \<le> wValue p" "?n \<in> {0, 1}" "wValue p \<noteq> 0" "wValue p \<noteq> 1"
        using low_value_cases(3,4) [of "wValue p"] by blast
      then show ?thesis
      proof cases
        case zero
        with v' Configured C show ?thesis
          by (intro exI [of _ "Addressed n"]) (simp add: clears_configuration_def sets_configuration_def)
      next
        case one
        with v' Configured C show ?thesis
          by (intro exI [of _ "Configured n 1"]) (simp add: sets_configuration_def)
      next
        case refused
        then have "wValue p \<noteq> 1"
          by auto
        with refused v' Configured C show ?thesis
          by (intro exI [of _ c]) (simp add: sets_configuration_def clears_configuration_def)
      next
        case high
        with v' Configured C high_configuration [OF C(1) high(1), of c n k] show ?thesis
          by (intro exI [of _ "Configured n ?n"]) auto
      qed
    next
      case Default
      then have "v' = v"
        using assms(1,2) configuration(3-5) by (simp_all add: v dev_states)
      then show ?thesis
        using assms(1) Default C by (intro exI [of _ c]) (simp add: sets_address_def)
    next
      case (Changing c0 n)
      then have "v' = v"
        using assms(1,2) configuration(3-5) by (simp_all add: v dev_states)
      then show ?thesis
        using assms(1) Changing keeps_address [OF C(2)] by (intro exI [of _ c]) simp
    qed
  qed
qed

lemma stage_follows:
  assumes "stands_for c v" "v' \<in> status_view True p v"
  shows "\<exists>c'. stands_for c' v' \<and> (c' = chapter9 (Stage_over p) c \<or> departs (Stage_over p) c c')"
proof (cases "\<exists>c0 n. c = Changing c0 n")
  case False
  then have "chapter9 (Stage_over p) c = c" "v' = v"
    using assms by (cases c; cases v; simp add: status_view_def dev_states)+
  with assms(1) show ?thesis
    by (intro exI [of _ c]) simp
next
  case True
  then obtain c0 n where c: "c = Changing c0 n"
    by blast
  show ?thesis
  proof (cases "bRequest p = 5 \<and> plain_out p")
    case True
    then have v': "stands_for (Addressed n) v'" "device_request 5 p \<longleftrightarrow> bmRequestType p = 0"
      using assms by (cases v; simp add: c status_view_def plain_out_def device_request_def)+
    show ?thesis
    proof (cases "bmRequestType p = 0 \<and> n \<noteq> 0")
      case True
      with v' c show ?thesis
        by (intro exI [of _ "Addressed n"]) simp
    next
      case F: False
      with True v'(2) c have "departs (Stage_over p) c (Addressed n)"
        by (cases "n = 0") (auto intro: address_zero other_completion)
      with v'(1) show ?thesis
        by blast
    qed
  next
    case False
    then have "v' = v" "\<not> device_request 5 p"
      using assms plain_out_device [of p] by (cases v; auto simp: c status_view_def device_request_def)+
    with assms(1) c show ?thesis
      by (intro exI [of _ c]) simp
  qed
qed

text \<open>One message of the controller.\<close>

lemma message_follows:
  assumes "stands_for c (view s)" "v' \<in> message_view True s m" "snd (snd (view s)) \<in> {0, 1}"
  shows "\<exists>c'. stands_for c' v' \<and> (c' = chapter9 (host_event_of s m) c \<or> departs (host_event_of s m) c c')"
proof (cases "code m = kUSB_DeviceNotifyBusReset")
  case True
  with assms(2) show ?thesis
    by (intro exI [of _ Default]) (simp add: host_event_of_def message_view_def)
next
  case False
  show ?thesis
  proof (cases "to_control_pipe s m \<and> ms_isSetup m = 0")
    case True
    with False have "v' \<in> status_view True (setupBuffer (s_UsbDeviceCommonClassStruct s)) (view s)"
      "host_event_of s m = Stage_over (setupBuffer (s_UsbDeviceCommonClassStruct s))"
      using assms(2) by (simp_all add: host_event_of_def message_view_def)
    with stage_follows [OF assms(1)] show ?thesis
      by simp
  next
    case not_stage: False
    show ?thesis
    proof (cases "to_control_pipe s m \<and> ms_length m = USB_SETUP_PACKET_SIZE \<and> (\<exists>p. ms_buffer m = SetupBuf p)")
      case True
      with False not_stage obtain p where "host_event_of s m = Setup p" "v' \<in> setup_view True p (view s)"
        using assms(2) by (auto simp: host_event_of_def message_view_def)
      with setup_follows [OF assms(1) _ assms(3)] show ?thesis
        by simp
    next
      case no_setup: False
      then have "host_event_of s m = Elsewhere" "v' = view s"
        using False not_stage assms(2) by (auto simp: host_event_of_def message_view_def split: ubuf.splits if_split_asm)
      with assms(1) show ?thesis
        by (intro exI [of _ c]) simp
    qed
  qed
qed

lemma reachable_stands_for:
  assumes "reachable_device H s"
  shows "\<exists>c. stands_for c (view s)" "snd (snd (view s)) \<in> {0, 1}"
proof -
  obtain x d a where v: "view s = (x, d, a)"
    by (cases "view s")
  have ok: "device_inv (\<lambda>_. True) (x, d, a) s" "view_ok (x, d, a)"
    using reachable_device_ok [OF assms] v by simp_all
  then show 01: "snd (snd (view s)) \<in> {0, 1}"
    by (auto simp: device_inv_def vcom_ok_def view_def Let_def)
  have "a = 0 \<or> x = kUSB_DeviceStateConfigured"
    using ok(2) 01 unfolding v by (auto simp: view_ok_def)
  moreover have "x \<in> {kUSB_DeviceStateConfigured, kUSB_DeviceStateAddress, kUSB_DeviceStateDefault, kUSB_DeviceStateAddressing}"
    using ok(2) by (simp add: view_ok_def)
  ultimately have "stands_for Default (x, d, a) \<or> stands_for (Addressed d) (x, d, a) \<or> stands_for (Configured d a) (x, d, a) \<or>
      stands_for (Changing Default d) (x, d, a)"
    by auto
  then show "\<exists>c. stands_for c (view s)"
    unfolding v by blast
qed

end
