(* ===== verification/UsbClosing.thy ===== *)
theory UsbClosing
  imports UsbDevice
begin

unbundle bit_operations_syntax

text \<open>
  What the class driver's own endpoints and interfaces go through when endpoints are closed, with any
  controller: one that cancels the queued transfers, as the EHCI driver does, runs the completion
  functions of the class driver and of the application on the way.
\<close>

section \<open>What completions keep\<close>

definition callbacks :: "'h device \<Rightarrow> ep_callback list" where
  "callbacks s = map callbackFn (epCallback (dev s))"

text \<open>The class driver's configuration and its interfaces.\<close>

definition same_interfaces :: "'h device \<Rightarrow> 'h device \<Rightarrow> bool" where
  "same_interfaces s t \<longleftrightarrow>
     commInterfaceHandle (g_cdcAcmHandle t) = commInterfaceHandle (g_cdcAcmHandle s) \<and>
     dataInterfaceHandle (g_cdcAcmHandle t) = dataInterfaceHandle (g_cdcAcmHandle s) \<and>
     acm_configuration (g_cdcAcmHandle t) = acm_configuration (g_cdcAcmHandle s) \<and>
     acm_handle (g_cdcAcmHandle t) = acm_handle (g_cdcAcmHandle s) \<and>
     configStruct (g_cdcAcmHandle t) = configStruct (g_cdcAcmHandle s) \<and> descs t = descs s \<and>
     classHandle t = classHandle s \<and> device_handle t = device_handle s"

definition same_driver :: "'h device \<Rightarrow> 'h device \<Rightarrow> bool" where
  "same_driver s t \<longleftrightarrow> same_interfaces s t \<and> callbacks t = callbacks s"

lemma same_interfaces_trans: "same_interfaces s t \<Longrightarrow> same_interfaces t u \<Longrightarrow> same_interfaces s u"
  by (simp add: same_interfaces_def)

lemma same_driver_refl [simp]: "same_driver s s"
  by (simp add: same_driver_def same_interfaces_def)

lemma same_driver_trans: "same_driver s t \<Longrightarrow> same_driver t u \<Longrightarrow> same_driver s u"
  unfolding same_driver_def using same_interfaces_trans by fastforce

lemma callbacks_busy [simp]: "callbacks (set_busy i b s) = callbacks s"
  by (cases "i < length (epCallback (dev s))")
    (simp_all add: callbacks_def set_busy_def upd_dev_def map_update list_update_beyond list_update_same_conv)

lemma same_driver_update:
  "same_driver s (set_busy i b s)" "same_driver s (put_hw h s)" "same_driver s (s\<lparr>s_recvSize := n\<rparr>)"
  "same_driver s (upd_acm f s) \<longleftrightarrow> same_interfaces s (upd_acm f s)"
  by (simp_all add: same_driver_def) 
     (simp_all add: same_interfaces_def callbacks_def set_busy_def put_hw_def upd_dev_def upd_acm_def device_handle_def)

lemma same_driver_transfer: "same_driver s (snd (USB_DeviceTransfer H h ep b n s))"
proof -
  have "same_driver s (put_hw k (set_busy i v s))" for k i v
    by (rule same_driver_trans [OF same_driver_update(1,2)])
  moreover have "same_driver s (set_busy i v (put_hw k (set_busy i u s)))" for k i v u
    by (rule same_driver_trans [OF same_driver_trans [OF same_driver_update(1,2)] same_driver_update(1)])
  ultimately show ?thesis
    by (simp add: USB_DeviceTransfer_def Let_def case_prod_beta)
qed

lemma same_driver_request:
  "same_driver s (snd (USB_DeviceSendRequest H h ep b n s))" "same_driver s (snd (USB_DeviceRecvRequest H h ep b n s))"
  by (simp_all add: USB_DeviceSendRequest_def USB_DeviceRecvRequest_def same_driver_transfer)

lemma same_interfaces_upd: "same_interfaces s (upd_acm f s) \<longleftrightarrow>
    commInterfaceHandle (f (g_cdcAcmHandle s)) = commInterfaceHandle (g_cdcAcmHandle s) \<and>
    dataInterfaceHandle (f (g_cdcAcmHandle s)) = dataInterfaceHandle (g_cdcAcmHandle s) \<and>
    acm_configuration (f (g_cdcAcmHandle s)) = acm_configuration (g_cdcAcmHandle s) \<and>
    acm_handle (f (g_cdcAcmHandle s)) = acm_handle (g_cdcAcmHandle s) \<and>
    configStruct (f (g_cdcAcmHandle s)) = configStruct (g_cdcAcmHandle s)"
  by (simp add: same_interfaces_def upd_acm_def device_handle_def)

lemma same_driver_acm: "same_interfaces t (upd_acm f t) \<Longrightarrow> same_driver s t \<Longrightarrow> same_driver s (upd_acm f t)"
  by (erule same_driver_trans) (simp add: same_driver_update)

lemma same_driver_send: "same_driver s t \<Longrightarrow> same_driver s (snd (USB_DeviceSendRequest H h ep b n t))"
  "same_driver s t \<Longrightarrow> same_driver s (snd (USB_DeviceRecvRequest H h ep b n t))"
  by (erule same_driver_trans, rule same_driver_request)+

lemma same_driver_pipes:
  "same_driver s t \<Longrightarrow> same_driver s (snd (USB_DeviceCdcAcmSend (transfers H) h ep b n t))"
  "same_driver s t \<Longrightarrow> same_driver s (snd (USB_DeviceCdcAcmRecv (transfers H) h ep b n t))"
  by (simp_all add: USB_DeviceCdcAcmSend_def USB_DeviceCdcAcmRecv_def Let_def case_prod_beta same_driver_acm
      same_interfaces_upd same_driver_send)

lemma same_driver_completion: "same_driver s t \<Longrightarrow> same_driver s (snd (class_completion H f p m t))"
proof -
  assume t: "same_driver s t"
  have "same_driver s (u\<lparr>s_recvSize := n\<rparr>)" if "same_driver s u" for u n
    by (rule same_driver_trans [OF that same_driver_update(3)])
  with t show ?thesis
    by (cases f) (simp_all add: USB_DeviceCdcAcmInterruptIn_def USB_DeviceCdcAcmBulkIn_def USB_DeviceCdcAcmBulkOut_def Let_def
        case_prod_beta on_send_response_def on_recv_response_def same_driver_acm same_interfaces_upd same_driver_pipes)
qed

lemma same_driver_cancelled: "same_driver s t \<Longrightarrow> same_driver s (snd (cancelled_notification H m t))"
proof -
  assume t: "same_driver s t"
  have b: "same_driver s (set_busy i v u)" if "same_driver s u" for i v u
    by (rule same_driver_trans [OF that same_driver_update(1)])
  have e: "same_driver s (snd (endpoint_callback m t))"
    using t by (simp add: endpoint_callback_def Let_def b)
  with t show ?thesis
    by (auto simp: cancelled_notification_def same_driver_completion split: prod.split option.split)
qed

lemma same_driver_run: "same_driver s t \<Longrightarrow> same_driver s (snd (run_control (cancelled_notification H) r t))"
proof (induction r arbitrary: t)
  case (Cancelled e b h k)
  let ?t = "snd (cancelled_notification H \<lparr>ms_buffer = b, ms_length = USB_CANCELLED_TRANSFER_LENGTH, code = e, ms_isSetup = 0\<rparr>
      (put_hw h t))"
  have "same_driver s ?t"
    by (rule same_driver_cancelled [OF same_driver_trans [OF Cancelled.prems same_driver_update(2)]])
  from Cancelled.IH [OF rangeI this] show ?case
    by (simp add: case_prod_beta)
next
  case (Done e h)
  then show ?case
    using same_driver_trans [OF Done same_driver_update(2)] by simp
qed

lemma same_driver_control: "same_driver s t \<Longrightarrow> same_driver s (snd (USB_DeviceControl H (cancelled_notification H) h c t))"
  by (simp add: USB_DeviceControl_def same_driver_run)

section \<open>Closing the endpoints\<close>

lemma close_endpoint:
  assumes "h \<noteq> 0" "endpoint_number a < 4"
  shows "same_interfaces s (snd (USB_DeviceDeinitEndpoint H (cancelled_notification H) h a s))"
    "callbacks (snd (USB_DeviceDeinitEndpoint H (cancelled_notification H) h a s)) = (callbacks s)[callback_index a := NoCallback]"
proof -
  let ?t = "snd (USB_DeviceControl H (cancelled_notification H) h (kUSB_DeviceControlEndpointDeinit a) s)"
  have t: "same_interfaces s ?t" "callbacks ?t = callbacks s"
    using same_driver_control [OF same_driver_refl] by (auto simp: same_driver_def)
  have "callbacks (set_callback i f p u) = (callbacks u)[i := f]" "same_interfaces u (set_callback i f p u)" for i f p and u :: "'a device"
    by (simp_all add: callbacks_def set_callback_def upd_dev_def map_update same_interfaces_def device_handle_def)
  with t same_interfaces_trans [OF t(1)] assms
  show "same_interfaces s (snd (USB_DeviceDeinitEndpoint H (cancelled_notification H) h a s))"
    "callbacks (snd (USB_DeviceDeinitEndpoint H (cancelled_notification H) h a s)) = (callbacks s)[callback_index a := NoCallback]"
    by (simp_all add: USB_DeviceDeinitEndpoint_def USB_DEVICE_CONFIG_ENDPOINTS_def Let_def case_prod_beta)
qed

fun close_all :: "u8 list \<Rightarrow> ep_callback list \<Rightarrow> ep_callback list" where
  "close_all [] cs = cs"
| "close_all (a # es) cs = close_all es (cs[callback_index a := NoCallback])"

lemma close_endpoints:
  assumes "acm_handle (g_cdcAcmHandle s) \<noteq> 0" "\<forall>e \<in> set es. endpoint_number (endpointAddress e) < 4"
  shows "same_interfaces s (snd (deinit_endpoints (usb_stack_of H) es e0 s)) \<and>
    callbacks (snd (deinit_endpoints (usb_stack_of H) es e0 s)) = close_all (map endpointAddress es) (callbacks s)"
  using assms
proof (induction es arbitrary: e0 s)
  case (Cons e es)
  let ?t = "snd (USB_DeviceDeinitEndpoint H (cancelled_notification H) (acm_handle (g_cdcAcmHandle s)) (endpointAddress e) s)"
  have t: "same_interfaces s ?t" "callbacks ?t = (callbacks s)[callback_index (endpointAddress e) := NoCallback]"
    using close_endpoint [where a = "endpointAddress e"] Cons.prems by simp_all
  then have "acm_handle (g_cdcAcmHandle ?t) \<noteq> 0"
    using Cons.prems(1) by (simp add: same_interfaces_def)
  from Cons.IH [OF this, of "fst (USB_DeviceDeinitEndpoint H (cancelled_notification H) (acm_handle (g_cdcAcmHandle s)) (endpointAddress e) s)"]
    t same_interfaces_trans [OF t(1)] Cons.prems(2) show ?case
    by (simp add: case_prod_beta)
qed (simp add: same_interfaces_def)

section \<open>A configuration that does not exist\<close>

text \<open>The device is in configuration 1, with both interfaces in their only setting.\<close>

definition in_configuration_1 :: "'h device \<Rightarrow> bool" where
  "in_configuration_1 s \<longleftrightarrow>
     dev_state (dev s) = kUSB_DeviceStateConfigured \<and>
     (let a = g_cdcAcmHandle s in
      configStruct a \<and> acm_handle a \<noteq> 0 \<and> acm_configuration a = 1 \<and>
      commInterfaceHandle a = Some \<lparr>alternateSetting = 0, endpointList = Cic\<rparr> \<and>
      dataInterfaceHandle a = Some \<lparr>alternateSetting = 0, endpointList = Dic\<rparr>)"

definition pipes_closed :: "'h device \<Rightarrow> bool" where
  "pipes_closed s \<longleftrightarrow>
     callbacks s ! 3 = NoCallback \<and> callbacks s ! 5 = NoCallback \<and> callbacks s ! 6 = NoCallback \<and>
     commInterfaceHandle (g_cdcAcmHandle s) = None \<and> dataInterfaceHandle (g_cdcAcmHandle s) = None"

lemma endpoint_places:
  "endpoints_in \<lparr>alternateSetting = 0, endpointList = Cic\<rparr> (descriptors_for b) = fst (endpoints_for b)"
  "endpoints_in \<lparr>alternateSetting = 0, endpointList = Dic\<rparr> (descriptors_for b) = snd (endpoints_for b)"
  "map endpointAddress (fst (endpoints_for b)) = [0x81]" "map endpointAddress (snd (endpoints_for b)) = [0x82, 3]"
  by (simp_all add: endpoints_in_def descriptors_for_def endpoints_for_def usb_consts)

lemma endpoint_numbers:
  "\<forall>e \<in> set (fst (endpoints_for b)). endpoint_number (endpointAddress e) < 4"
  "\<forall>e \<in> set (snd (endpoints_for b)). endpoint_number (endpointAddress e) < 4"
  by (simp_all add: endpoints_for_def usb_consts endpoint_number_def)

lemma close_class_endpoints:
  assumes "in_configuration_1 s" "descs s = descriptors_for b" "length (callbacks s) = 8"
  shows "pipes_closed (snd (USB_DeviceCdcAcmEndpointsDeinit (usb_stack_of H) s))"
    "acm_handle (g_cdcAcmHandle (snd (USB_DeviceCdcAcmEndpointsDeinit (usb_stack_of H) s))) = acm_handle (g_cdcAcmHandle s)"
    "classHandle (snd (USB_DeviceCdcAcmEndpointsDeinit (usb_stack_of H) s)) = classHandle s"
    "device_handle (snd (USB_DeviceCdcAcmEndpointsDeinit (usb_stack_of H) s)) = device_handle s"
proof -
  let ?a = "g_cdcAcmHandle s"
  let ?s1 = "snd (deinit_endpoints (usb_stack_of H) (fst (endpoints_for b)) kStatus_USB_Error s)"
  let ?e1 = "fst (deinit_endpoints (usb_stack_of H) (fst (endpoints_for b)) kStatus_USB_Error s)"
  let ?s2 = "snd (deinit_endpoints (usb_stack_of H) (snd (endpoints_for b)) ?e1 ?s1)"
  have a: "acm_handle ?a \<noteq> 0" "commInterfaceHandle ?a = Some \<lparr>alternateSetting = 0, endpointList = Cic\<rparr>"
    "dataInterfaceHandle ?a = Some \<lparr>alternateSetting = 0, endpointList = Dic\<rparr>"
    using assms(1) by (simp_all add: in_configuration_1_def Let_def)
  have s1: "same_interfaces s ?s1" "callbacks ?s1 = close_all [0x81] (callbacks s)"
    using close_endpoints [OF a(1) endpoint_numbers(1), of H] by (simp_all add: endpoint_places)
  then have h1: "acm_handle (g_cdcAcmHandle ?s1) \<noteq> 0" and d1: "descs ?s1 = descriptors_for b"
    using a(1) assms(2) by (simp_all add: same_interfaces_def)
  have s2: "same_interfaces s ?s2" "callbacks ?s2 = close_all [0x82, 3] (close_all [0x81] (callbacks s))"
    using close_endpoints [OF h1 endpoint_numbers(2), of H] same_interfaces_trans [OF s1(1)] s1(2) by (simp_all add: endpoint_places)
  have eq: "snd (USB_DeviceCdcAcmEndpointsDeinit (usb_stack_of H) s) =
      upd_acm (\<lambda>a. a\<lparr>commInterfaceHandle := None, dataInterfaceHandle := None\<rparr>) ?s2"
    using a by (simp add: USB_DeviceCdcAcmEndpointsDeinit_def Let_def case_prod_beta endpoint_places assms(2) d1)
  have cs: "callbacks ?s2 ! 3 = NoCallback" "callbacks ?s2 ! 5 = NoCallback" "callbacks ?s2 ! 6 = NoCallback"
    unfolding s2(2) using assms(3) by (simp_all add: callback_index_def endpoint_number_def)
  have u: "callbacks (upd_acm f t) = callbacks t" "g_cdcAcmHandle (upd_acm f t) = f (g_cdcAcmHandle t)"
    "classHandle (upd_acm f t) = classHandle t" "device_handle (upd_acm f t) = device_handle t" for f and t :: "'a device"
    by (simp_all add: callbacks_def upd_acm_def device_handle_def)
  show "pipes_closed (snd (USB_DeviceCdcAcmEndpointsDeinit (usb_stack_of H) s))"
    unfolding eq pipes_closed_def u using cs by simp
  show "acm_handle (g_cdcAcmHandle (snd (USB_DeviceCdcAcmEndpointsDeinit (usb_stack_of H) s))) = acm_handle (g_cdcAcmHandle s)"
    "classHandle (snd (USB_DeviceCdcAcmEndpointsDeinit (usb_stack_of H) s)) = classHandle s"
    "device_handle (snd (USB_DeviceCdcAcmEndpointsDeinit (usb_stack_of H) s)) = device_handle s"
    unfolding eq u using s2(1) by (simp_all add: same_interfaces_def)
qed

lemma pipes_closed_same: "same_driver s t \<Longrightarrow> pipes_closed s \<Longrightarrow> pipes_closed t"
  by (simp add: same_driver_def same_interfaces_def pipes_closed_def)

text \<open>The class driver takes the value as it comes.\<close>

lemma class_takes_configuration:
  assumes "in_configuration_1 s" "descs s = descriptors_for b" "length (callbacks s) = 8" "classHandle s = AcmHandle" "device_handle s = 1"
    "n \<notin> {0, 1}"
  shows "\<exists>s'. USB_DeviceClassEvent (usb_stack_of H) cb 1 (Some (SetConfiguration n)) s = (kStatus_USB_Error, Some (SetConfiguration n), s') \<and>
    pipes_closed s' \<and> classHandle s' = AcmHandle \<and> device_handle s' = 1"
proof -
  let ?u = "upd_acm (\<lambda>h. h\<lparr>acm_configuration := n, alternate := 0\<rparr>) (snd (USB_DeviceCdcAcmEndpointsDeinit (usb_stack_of H) s))"
  have u: "pipes_closed ?u" "classHandle ?u = AcmHandle" "device_handle ?u = 1" "acm_configuration (g_cdcAcmHandle ?u) = n"
    using close_class_endpoints [OF assms(1-3), of H] assms(4,5)
    by (simp_all add: pipes_closed_def upd_acm_def callbacks_def device_handle_def)
  have "unat n \<noteq> 0" "unat n \<noteq> 1"
    using assms(6) by (simp_all add: word_unat_eq_iff)
  then have "n > 1"
    by (simp add: word_less_nat_alt)
  then have "USB_DeviceCdcAcmEndpointsInit (usb_stack_of H) ?u = (kStatus_USB_Error, ?u)"
    using u(4) by (simp add: USB_DeviceCdcAcmEndpointsInit_def Let_def)
  then have "USB_DeviceClassEvent (usb_stack_of H) cb 1 (Some (SetConfiguration n)) s = (kStatus_USB_Error, Some (SetConfiguration n), ?u)"
    using assms(1,4-6) by (simp add: USB_DeviceClassEvent_def USB_DeviceClassGetHandleByDeviceHandle_def USB_DeviceCdcAcmEvent_def
        in_configuration_1_def Let_def case_prod_beta device_handle_def)
  with u(1-3) show ?thesis
    by blast
qed

end
