(* ===== verification/UsbProps.thy ===== *)
theory UsbProps
  imports UsbEnum UsbChapter9 UsbClosing
begin

unbundle bit_operations_syntax

text \<open>
  What the host can rely on: the properties of the whole device, from the controller's
  notifications down to the transfers it is given.
\<close>

section \<open>A controller that records its transfers\<close>

text \<open>
  \<open>recording H\<close> behaves as \<open>H\<close> does and notes the buffer and the length of every transfer it is given.
\<close>

type_synonym 'h recorded = "'h \<times> (ubuf \<times> nat) list"

primrec record_run :: "'h run \<Rightarrow> (ubuf \<times> nat) list \<Rightarrow> 'h recorded run" where
  "record_run (Done status h) log = Done status (h, log)"
| "record_run (Cancelled a b h k) log = Cancelled a b (h, log) (\<lambda>x. record_run (k (fst x)) (snd x))"

definition recording :: "'h controller \<Rightarrow> 'h recorded controller" where
  "recording H =
     \<lparr>deviceInit = (\<lambda>n (h, log). apsnd (\<lambda>h. (h, log)) (deviceInit H n h)),
      deviceDeinit = (\<lambda>ch (h, log). apsnd (\<lambda>h. (h, log)) (deviceDeinit H ch h)),
      deviceSend = (\<lambda>ch a b n (h, log). apsnd (\<lambda>h. (h, log @ [(b, n)])) (deviceSend H ch a b n h)),
      deviceRecv = (\<lambda>ch a b n (h, log). apsnd (\<lambda>h. (h, log @ [(b, n)])) (deviceRecv H ch a b n h)),
      deviceCancel = (\<lambda>ch a (h, log). record_run (deviceCancel H ch a h) log),
      deviceControl = (\<lambda>ch t (h, log). record_run (deviceControl H ch t h) log),
      deviceQuery = (\<lambda>ch q v (h, log). deviceQuery H ch q v h)\<rparr>"

fun recorded_event :: "'h device_event \<Rightarrow> 'h recorded device_event" where
  "recorded_event (Notify g m) = Notify (apfst g) m"
| "recorded_event (AppPass g n) = AppPass (apfst g) n"

definition within_buffers :: "'h recorded \<Rightarrow> bool" where
  "within_buffers x \<longleftrightarrow> (\<forall>(b, n) \<in> set (snd x). n \<le> buffer_size b)"

lemma record_run_keeps: "within_buffers (h, log) \<Longrightarrow> run_keeps within_buffers (record_run r log)"
  by (induction r arbitrary: h log) (auto simp: within_buffers_def)

interpretation recorded: usb_hardware "recording H" within_buffers for H :: "'h controller"
proof unfold_locales
  fix x :: "'h recorded" and n b ch a t
  assume x: "within_buffers x"
  then show "run_keeps within_buffers (deviceControl (recording H) ch t x)"
    by (cases x) (simp add: recording_def record_run_keeps)
  assume "n \<le> buffer_size b"
  with x show "within_buffers (snd (deviceSend (recording H) ch a b n x))"
    "within_buffers (snd (deviceRecv (recording H) ch a b n x))"
    by (cases x; auto simp: recording_def within_buffers_def)+
qed

lemma recorded_events_ok: "list_all event_ok es \<Longrightarrow> events_ok within_buffers (map recorded_event es)"
proof (induction es)
  case (Cons e es)
  then show ?case
    by (cases e) (auto simp: events_ok_def within_buffers_def)
qed (simp add: events_ok_def)

text \<open>
  C27. No transfer leaves its buffer. Whatever the controller does, and whatever requests, packets,
  resets and cancellations come from the host in whatever order, every transfer the device ever
  hands to the controller names a length that fits the buffer it names: the receive buffer, the
  notification, the answers to class requests, descriptors and the message of the task.
\<close>

theorem transfers_fit_their_buffers:
  assumes "deviceInit H 2 h = ((kStatus_USB_Success, ch), h')" "list_all event_ok es"
  shows "\<exists>s. device_run (recording H) (map recorded_event es) (device_started (recording H) (h, [])) = Some s \<and>
    (\<forall>(b, n) \<in> set (snd (hw (dev s))). n \<le> buffer_size b)"
proof -
  have "deviceInit (recording H) 2 (h, []) = ((kStatus_USB_Success, ch), (h', []))"
    using assms(1) by (simp add: recording_def)
  from recorded.started_ok [OF this]
  have "device_inv within_buffers (kUSB_DeviceStateDefault, 0, 0) (device_started (recording H) (h, []))"
    by (simp add: within_buffers_def)
  from recorded.run_ok [OF this _ recorded_events_ok [OF assms(2)]]
  show ?thesis
    by (auto simp: view_ok_def device_inv_def within_buffers_def)
qed

section \<open>What the steps keep\<close>

lemma dev_simps [simp]:
  "dev (put_hw h s) = (dev s)\<lparr>hw := h\<rparr>"
  "dev (upd_common g s) = dev s" "dev (upd_acm k s) = dev s"
  by (simp_all add: put_hw_def upd_dev_def upd_common_def upd_acm_def)

lemma transfer_frame [simp]:
  fixes s :: "'h device"
  shows "g_cdcAcmHandle (snd (USB_DeviceTransfer H h ep b n s)) = g_cdcAcmHandle s"
    "descs (snd (USB_DeviceTransfer H h ep b n s)) = descs s"
    "s_UsbDeviceCommonClassStruct (snd (USB_DeviceTransfer H h ep b n s)) = s_UsbDeviceCommonClassStruct s"
    "classHandle (snd (USB_DeviceTransfer H h ep b n s)) = classHandle s"
    "s_cdcVcom (snd (USB_DeviceTransfer H h ep b n s)) = s_cdcVcom s"
    "s_usbCdcAcmInfo (snd (USB_DeviceTransfer H h ep b n s)) = s_usbCdcAcmInfo s"
    "s_recvSize (snd (USB_DeviceTransfer H h ep b n s)) = s_recvSize s"
  by (simp_all add: USB_DeviceTransfer_def Let_def case_prod_beta put_hw_def set_busy_def upd_dev_def)

lemma send_request_frame [simp]:
  fixes s :: "'h device"
  shows "g_cdcAcmHandle (snd (USB_DeviceSendRequest H h ep b n s)) = g_cdcAcmHandle s"
    "s_cdcVcom (snd (USB_DeviceSendRequest H h ep b n s)) = s_cdcVcom s"
    "s_usbCdcAcmInfo (snd (USB_DeviceSendRequest H h ep b n s)) = s_usbCdcAcmInfo s"
    "s_UsbDeviceCommonClassStruct (snd (USB_DeviceSendRequest H h ep b n s)) = s_UsbDeviceCommonClassStruct s"
    "classHandle (snd (USB_DeviceSendRequest H h ep b n s)) = classHandle s"
  by (simp_all add: USB_DeviceSendRequest_def)

lemma recv_request_frame [simp]:
  fixes s :: "'h device"
  shows "g_cdcAcmHandle (snd (USB_DeviceRecvRequest H h ep b n s)) = g_cdcAcmHandle s"
    "s_recvSize (snd (USB_DeviceRecvRequest H h ep b n s)) = s_recvSize s"
  by (simp_all add: USB_DeviceRecvRequest_def)

text \<open>A setup packet that reaches the control pipe of a running device.\<close>

definition setup_taken :: "usb_setup_struct_t \<Rightarrow> 'h device \<Rightarrow> 'h device" where
  "setup_taken p s = upd_common (\<lambda>c. c\<lparr>setupBuffer := p\<rparr>) (set_busy 1 0 (set_busy 0 0 s))"

lemma setup_taken_frame [simp]:
  "g_cdcAcmHandle (setup_taken p s) = g_cdcAcmHandle s" "classHandle (setup_taken p s) = classHandle s"
  "s_cdcVcom (setup_taken p s) = s_cdcVcom s" "s_usbCdcAcmInfo (setup_taken p s) = s_usbCdcAcmInfo s"
  "hw (dev (setup_taken p s)) = hw (dev s)" "device_handle (setup_taken p s) = device_handle s"
  "s_UsbDeviceCommonClassStruct (setup_taken p s) = (s_UsbDeviceCommonClassStruct s)\<lparr>setupBuffer := p\<rparr>"
  "descs (setup_taken p s) = descs s"
  "controllerHandle (dev (setup_taken p s)) = controllerHandle (dev s)"
  "controllerInterface (dev (setup_taken p s)) = controllerInterface (dev s)"
  "deviceCallback (dev (setup_taken p s)) = deviceCallback (dev s)"
  "deviceAddress (dev (setup_taken p s)) = deviceAddress (dev s)"
  "controllerId (dev (setup_taken p s)) = controllerId (dev s)" "dev_state (dev (setup_taken p s)) = dev_state (dev s)"
  "isResetting (dev (setup_taken p s)) = isResetting (dev s)"
  by (simp_all add: setup_taken_def upd_common_def set_busy_def upd_dev_def device_handle_def)

lemma reachable_device_simps:
  assumes "reachable_device H s"
  shows "vcom_ok s" "deviceCallback (dev s)" "device_handle s = 1" "classHandle s = AcmHandle" "length (epCallback (dev s)) = 8"
  using reachable_device_ok [OF assms] by (simp_all add: device_inv_def)

lemma setup_reaches:
  assumes "reachable_device H s" "to_control_pipe s (setup_message p)"
  shows "usb_notification H (setup_message p) s =
    setup_stage (usb_stack_of H) (class_cb H) (device_cb H) 1 p (setup_taken p s)"
proof -
  have m: "endpoint_message (setup_message p) = \<lparr>msg_buffer = SetupBuf p, msg_length = 8, msg_isSetup = 1\<rparr>"
    "code (setup_message p) \<noteq> kUSB_DeviceNotifyBusReset"
    by (simp_all add: endpoint_message_def setup_message_def kUSB_DeviceNotifyBusReset_def)
  from assms(2) have "endpoint_callback (setup_message p) s =
      (Some (epCallback (dev (set_busy 1 0 (set_busy 0 0 s))) ! 0), set_busy 1 0 (set_busy 0 0 s))"
    "callbackFn (epCallback (dev (set_busy 1 0 (set_busy 0 0 s))) ! 0) = ControlCallback"
    "callbackParam (epCallback (dev (set_busy 1 0 (set_busy 0 0 s))) ! 0)"
    by (simp_all add: to_control_pipe_def setup_message_def endpoint_callback_def Let_def)
  with m reachable_device_simps [OF assms(1)] show ?thesis
    by (simp add: usb_notification_def USB_DeviceNotificationTrigger_def USB_DeviceNotification_def setup_taken_def
        completion_def USB_DeviceControlCallback_def USB_CANCELLED_TRANSFER_LENGTH_def USB_SETUP_PACKET_SIZE_def)
qed

definition no_data_class_request :: "usb_setup_struct_t \<Rightarrow> bool" where
  "no_data_class_request p \<longleftrightarrow> request_type p = USB_REQUEST_TYPE_TYPE_CLASS \<and> recipient p \<le> 3 \<and> wLength p = 0 \<and> \<not> dir_in p"

lemma no_data_request:
  assumes "reachable_device H s" "to_control_pipe s (setup_message p)" "no_data_class_request p"
    "acm_class_request (class_cb H) AcmHandle (request_block p NullBuf 0 1) (setup_taken p s) =
       (e, request_block p NullBuf 0 1, s')" "e \<noteq> kStatus_USB_InvalidRequest"
  shows "usb_notification H (setup_message p) s = Some (USB_DeviceSendRequest H 1 0 NullBuf 0 s')"
proof -
  have "device_handle (setup_taken p s) = 1" "classHandle (setup_taken p s) = AcmHandle"
    using reachable_device_simps [OF assms(1)] by simp_all
  with assms(3-5) show ?thesis
    unfolding setup_reaches [OF assms(1,2)] device_handle_def
    by (auto simp: setup_stage_def no_data_class_request_def class_or_vendor_request_def Let_def request_consts
        USB_DeviceClassEvent_def USB_DeviceClassGetHandleByDeviceHandle_def USB_DeviceCdcAcmEvent_def request_block_def
        USB_DeviceControlCallbackFeedback_def case_prod_beta)
qed

lemma low_bit0: "(ucast (v :: u16) :: u8) AND 1 \<noteq> 0 \<longleftrightarrow> bit v 0"
  using and_exp_eq_0_iff_not_bit [of "ucast v :: u8" 0] by (simp add: bit_ucast_iff del: bit_0)

lemma low_bit1: "(ucast (v :: u16) :: u8) AND 2 \<noteq> 0 \<longleftrightarrow> bit v 1"
  using and_exp_eq_0_iff_not_bit [of "ucast v :: u8" 1] by (simp add: bit_ucast_iff)

lemma ten_bytes:
  "length xs = 10 \<Longrightarrow> \<exists>a b c d e f g h i j. xs = [a, b, c, d, e, f, g, h, i, j]"
  by (auto simp: numeral_eq_Suc length_Suc_conv)

lemma line_state_info_eq:
  assumes "info_ok i"
  shows "line_state_info p i = i\<lparr>dteStatus := ucast (setupValue p),
    uartState := (if bit (setupValue p) 0 then 1 else 0) OR (if bit (setupValue p) 1 then 2 else 0),
    dtePresent := bit (setupValue p) 0,
    serialStateBuf := [0xA1, 0x20, 0, 0, ucast (interfaceIndex p), 0, 2, 0,
      (if bit (setupValue p) 0 then 1 else 0) OR (if bit (setupValue p) 1 then 2 else 0), 0]\<rparr>"
proof -
  obtain a b c d e f g h k j where buf: "serialStateBuf i = [a, b, c, d, e, f, g, h, k, j]"
    using assms ten_bytes by (fastforce simp: info_ok_def)
  have u: "uartState i \<in> {0, 1, 2, 3}"
    using assms by (simp add: info_ok_def)
  have bits: "(ucast (setupValue p) :: u8) AND 1 = 0 \<longleftrightarrow> \<not> bit (setupValue p) 0"
    "(ucast (setupValue p) :: u8) AND 2 = 0 \<longleftrightarrow> \<not> bit (setupValue p) 1"
    using low_bit0 low_bit1 by blast+
  show ?thesis
    using u by (auto simp: line_state_info_def Let_def bits buf simp del: bit_0)
qed

text \<open>\<open>SET_CONTROL_LINE_STATE\<close> for the communication interface.\<close>

definition line_state :: "u16 \<Rightarrow> usb_setup_struct_t" where
  "line_state v = \<lparr>bmRequestType = 0x21, bRequest = 0x22, wValue = v, wIndex = 0, wLength = 0\<rparr>"

definition line_state_param :: "u16 \<Rightarrow> acm_request_param" where
  "line_state_param v = \<lparr>rp_buffer = NullBuf, rp_length = 0, interfaceIndex = 0, setupValue = v, rp_isSetup = 1\<rparr>"

lemma line_state_reaches:
  assumes "reachable_device H s" "to_control_pipe s (setup_message (line_state v))" "interfaceNumber (g_cdcAcmHandle s) = 0"
  shows "usb_notification H (setup_message (line_state v)) s =
    Some (USB_DeviceSendRequest H 1 0 NullBuf 0
      (snd (on_set_control_line_state (transfers H) AcmHandle (line_state_param v) (setup_taken (line_state v) s))))"
proof (rule no_data_request [OF assms(1,2)])
  let ?r = "request_block (line_state v) NullBuf 0 1"
  have "request_event ?r = Some kUSB_DeviceCdcEventSetControlLineState"
    by (simp add: request_event_def Let_def request_block_def line_state_def)
  then show "acm_class_request (class_cb H) AcmHandle ?r (setup_taken (line_state v) s) = (kStatus_USB_Success, ?r,
      snd (on_set_control_line_state (transfers H) AcmHandle (line_state_param v) (setup_taken (line_state v) s)))"
    using assms(3)
    by (simp add: acm_class_request_def Let_def class_cb_def case_prod_beta)
      (simp add: request_block_def line_state_def line_state_param_def on_set_control_line_state_def Let_def)
qed (simp_all add: no_data_class_request_def line_state_def request_type_def recipient_def dir_in_def request_consts)

lemma dev_of_updates [simp]: "dev (upd_info f s) = dev s" "dev (upd_vcom g s) = dev s"
  "g_cdcAcmHandle (upd_info f s) = g_cdcAcmHandle s" "g_cdcAcmHandle (upd_vcom g s) = g_cdcAcmHandle s"
  "g_cdcAcmHandle (upd_acm k s) = k (g_cdcAcmHandle s)"
  "s_usbCdcAcmInfo (upd_info f s) = f (s_usbCdcAcmInfo s)" "s_usbCdcAcmInfo (upd_vcom g s) = s_usbCdcAcmInfo s"
  "s_usbCdcAcmInfo (upd_acm k s) = s_usbCdcAcmInfo s" "s_cdcVcom (upd_info f s) = s_cdcVcom s"
  "s_cdcVcom (upd_vcom g s) = g (s_cdcVcom s)" "s_cdcVcom (upd_acm k s) = s_cdcVcom s"
  by (simp_all add: upd_info_def upd_vcom_def upd_acm_def)


lemma acm_send_frame [simp]:
  fixes s :: "'h device"
  shows "s_usbCdcAcmInfo (snd (USB_DeviceCdcAcmSend (transfers H) h ep b n s)) = s_usbCdcAcmInfo s"
    "s_cdcVcom (snd (USB_DeviceCdcAcmSend (transfers H) h ep b n s)) = s_cdcVcom s"
  by (simp_all add: USB_DeviceCdcAcmSend_def Let_def case_prod_beta)

text \<open>
  C32. \<open>SET_CONTROL_LINE_STATE\<close> does what the class specification asks, from the setup packet on the
  wire to the state the application keeps: in every state the device can be in, the terminal's
  presence becomes bit 0 of \<open>wValue\<close>, the UART state carries RX carrier for bit 0 and TX carrier for
  bit 1 and nothing else, the notification holds the standard header, the interface and that state,
  an attached device starts its transactions, and the request is answered by the status stage.
\<close>

theorem control_line_state_is_recorded:
  assumes "reachable_device H s" "to_control_pipe s (setup_message (line_state v))" "interfaceNumber (g_cdcAcmHandle s) = 0"
  shows "\<exists>e s' t. usb_notification H (setup_message (line_state v)) s = Some (e, s') \<and>
    (e, s') = USB_DeviceSendRequest H 1 0 NullBuf 0 t \<and>
    dtePresent (s_usbCdcAcmInfo s') = bit v 0 \<and>
    uartState (s_usbCdcAcmInfo s') = (if bit v 0 then 1 else 0) OR (if bit v 1 then 2 else 0) \<and>
    serialStateBuf (s_usbCdcAcmInfo s') = [0xA1, 0x20, 0, 0, 0, 0, 2, 0,
      (if bit v 0 then 1 else 0) OR (if bit v 1 then 2 else 0), 0] \<and>
    startTransactions (s_cdcVcom s') = (if attach (s_cdcVcom s) = 1 then 1 else startTransactions (s_cdcVcom s))"
proof -
  let ?t = "snd (on_set_control_line_state (transfers H) AcmHandle (line_state_param v) (setup_taken (line_state v) s))"
  have "s_usbCdcAcmInfo ?t = line_state_info (line_state_param v) (s_usbCdcAcmInfo s)"
    "s_cdcVcom ?t = (if attach (s_cdcVcom s) = 1 then (s_cdcVcom s)\<lparr>startTransactions := 1\<rparr> else s_cdcVcom s)"
    by (simp_all add: on_set_control_line_state_def Let_def case_prod_beta)
  moreover have "line_state_info (line_state_param v) (s_usbCdcAcmInfo s) = (s_usbCdcAcmInfo s)\<lparr>dteStatus := ucast v,
      uartState := (if bit v 0 then 1 else 0) OR (if bit v 1 then 2 else 0), dtePresent := bit v 0,
      serialStateBuf := [0xA1, 0x20, 0, 0, 0, 0, 2, 0, (if bit v 0 then 1 else 0) OR (if bit v 1 then 2 else 0), 0]\<rparr>"
    using line_state_info_eq [of "s_usbCdcAcmInfo s" "line_state_param v"] reachable_device_simps(1) [OF assms(1)]
    by (simp add: vcom_ok_def line_state_param_def)
  ultimately show ?thesis
    unfolding line_state_reaches [OF assms]
    by (intro exI [of _ "fst (USB_DeviceSendRequest H 1 0 NullBuf 0 ?t)"] exI [of _ "snd (USB_DeviceSendRequest H 1 0 NullBuf 0 ?t)"]
        exI [of _ ?t]) simp
qed

lemma put_own_hw [simp]: "put_hw (hw (dev s)) s = (s :: 'h device)"
  by (simp add: put_hw_def upd_dev_def)

lemma reachable_notify:
  assumes "reachable_device H s" "usb_notification H m s = Some (e, s')" "ms_isSetup m \<noteq> 0 \<Longrightarrow> \<exists>p. ms_buffer m = SetupBuf p"
  shows "reachable_device H s'"
  by (rule reachable_device.step [OF assms(1), of "Notify id m"]) (use assms(2,3) in auto)

lemma transfer_callbacks [simp]:
  fixes s :: "'h device"
  shows "callbackFn (epCallback (dev (snd (USB_DeviceTransfer H h ep b n s))) ! j) = callbackFn (epCallback (dev s) ! j)"
    "callbackParam (epCallback (dev (snd (USB_DeviceTransfer H h ep b n s))) ! j) = callbackParam (epCallback (dev s) ! j)"
  by (simp_all add: USB_DeviceTransfer_def Let_def case_prod_beta)

lemma setup_taken_callbacks [simp]:
  "callbackFn (epCallback (dev (setup_taken p s)) ! j) = callbackFn (epCallback (dev s) ! j)"
  "callbackParam (epCallback (dev (setup_taken p s)) ! j) = callbackParam (epCallback (dev s) ! j)"
  by (simp_all add: setup_taken_def)

lemma line_state_acm:
  "hasSentState (g_cdcAcmHandle s) \<noteq> 0 \<Longrightarrow>
   snd (on_set_control_line_state c h p s) = (let s = upd_info (line_state_info p) s in
     if 1 = attach (s_cdcVcom s) then upd_vcom (\<lambda>v. v\<lparr>startTransactions := 1\<rparr>) s else s)"
  by (simp add: on_set_control_line_state_def Let_def)

lemma line_state_silent:
  assumes "reachable_device H s" "to_control_pipe s (setup_message (line_state v))" "interfaceNumber (g_cdcAcmHandle s) = 0"
    "hasSentState (g_cdcAcmHandle s) \<noteq> 0"
  shows "\<exists>t. usb_notification H (setup_message (line_state v)) s = Some (USB_DeviceSendRequest H 1 0 NullBuf 0 t) \<and>
    hw (dev t) = hw (dev s) \<and> g_cdcAcmHandle t = g_cdcAcmHandle s"
  unfolding line_state_reaches [OF assms(1-3)]
  by (rule exI [of _ "snd (on_set_control_line_state (transfers H) AcmHandle (line_state_param v) (setup_taken (line_state v) s))"])
    (simp add: line_state_acm assms(4) Let_def)

text \<open>
  C33. A refused notification is never made up for. If the controller refuses the transfer of the
  serial state, the request sets \<open>hasSentState\<close> all the same and leaves the interrupt pipe idle,
  so that no completion will ever clear it; and from then on a request to set the line state gives
  the controller nothing but the packet of its own status stage: the host is not told about any
  later change.
\<close>

theorem refused_notification_blocks_later_ones:
  assumes "reachable_device H s" "to_control_pipe s (setup_message (line_state v))" "interfaceNumber (g_cdcAcmHandle s) = 0"
    "hasSentState (g_cdcAcmHandle s) = 0" "interruptIn (g_cdcAcmHandle s) = idle_pipe 1"
    "pipe_ep (bulkIn (g_cdcAcmHandle s)) = 2" "\<And>ch b n h. fst (deviceSend H ch 0x81 b n h) \<noteq> kStatus_USB_Success"
  shows "\<exists>e s'. usb_notification H (setup_message (line_state v)) s = Some (e, s') \<and>
    hasSentState (g_cdcAcmHandle s') = 1 \<and> isBusy (interruptIn (g_cdcAcmHandle s')) = 0 \<and>
    (\<forall>w. \<exists>t. usb_notification H (setup_message (line_state w)) s' = Some (USB_DeviceSendRequest H 1 0 NullBuf 0 t) \<and>
       hw (dev t) = hw (dev s') \<and> hasSentState (g_cdcAcmHandle t) = 1)"
proof -
  let ?t = "snd (on_set_control_line_state (transfers H) AcmHandle (line_state_param v) (setup_taken (line_state v) s))"
  let ?q = "USB_DeviceSendRequest H 1 0 NullBuf 0 ?t"
  have refused: "fst (USB_DeviceSendRequest H h 1 b n t) \<noteq> kStatus_USB_Success" for h b n and t :: "'a device"
    using assms(7) by (simp add: USB_DeviceSendRequest_def USB_DeviceTransfer_def Let_def case_prod_beta)
  have "g_cdcAcmHandle ?t = (g_cdcAcmHandle s)\<lparr>interruptIn := (interruptIn (g_cdcAcmHandle s))\<lparr>isBusy := 0\<rparr>, hasSentState := 1\<rparr>"
    using assms(4-6) refused
    by (simp add: on_set_control_line_state_def Let_def case_prod_beta USB_DeviceCdcAcmSend_def usb_consts idle_pipe_def)
  then have q: "g_cdcAcmHandle (snd ?q) = (g_cdcAcmHandle s)\<lparr>interruptIn := (interruptIn (g_cdcAcmHandle s))\<lparr>isBusy := 0\<rparr>, hasSentState := 1\<rparr>"
    by simp
  have step: "usb_notification H (setup_message (line_state v)) s = Some (fst ?q, snd ?q)"
    using line_state_reaches [OF assms(1-3)] by simp
  have r: "reachable_device H (snd ?q)"
    by (rule reachable_notify [OF assms(1) step]) (simp add: setup_message_def)
  have "callbackFn (epCallback (dev (snd ?q)) ! 0) = callbackFn (epCallback (dev s) ! 0)"
    "callbackParam (epCallback (dev (snd ?q)) ! 0) = callbackParam (epCallback (dev s) ! 0)"
    by (simp_all add: USB_DeviceSendRequest_def on_set_control_line_state_def Let_def case_prod_beta USB_DeviceCdcAcmSend_def)
  then have "to_control_pipe (snd ?q) (setup_message (line_state w))" for w
    using assms(2) by (simp add: to_control_pipe_def setup_message_def)
  then have "\<exists>t. usb_notification H (setup_message (line_state w)) (snd ?q) = Some (USB_DeviceSendRequest H 1 0 NullBuf 0 t) \<and>
      hw (dev t) = hw (dev (snd ?q)) \<and> g_cdcAcmHandle t = g_cdcAcmHandle (snd ?q)" for w
    by (rule line_state_silent [OF r]) (use q assms(3) in simp_all)
  then have "\<exists>t. usb_notification H (setup_message (line_state w)) (snd ?q) = Some (USB_DeviceSendRequest H 1 0 NullBuf 0 t) \<and>
      hw (dev t) = hw (dev (snd ?q)) \<and> hasSentState (g_cdcAcmHandle t) = 1" for w
    unfolding q by (metis usb_device_cdc_acm_struct_t.select_convs(11) usb_device_cdc_acm_struct_t.surjective
        usb_device_cdc_acm_struct_t.update_convs(11))
  moreover have "isBusy (interruptIn (g_cdcAcmHandle (snd ?q))) = 0" "hasSentState (g_cdcAcmHandle (snd ?q)) = 1"
    unfolding q by simp_all
  ultimately show ?thesis
    using step by blast
qed

text \<open>
  C31. A class request to the wrong interface is acknowledged. A class request without a data stage that the
  class driver turns down because it names another interface, or is not for an interface at all, is not
  answered by a halt of the control pipe: the device sends the empty packet of a successful status stage,
  whatever state it is in, and the host takes the request for done. Requests with a
  data stage, and those of an unknown number, take other branches.
\<close>

theorem failed_request_is_acknowledged:
  assumes "reachable_device H s" "to_control_pipe s (setup_message p)" "no_data_class_request p"
    "recipient p \<noteq> USB_REQUEST_TYPE_RECIPIENT_INTERFACE \<or> wIndex p AND 0xFF \<noteq> ucast (interfaceNumber (g_cdcAcmHandle s))"
  shows "usb_notification H (setup_message p) s = Some (USB_DeviceSendRequest H 1 0 NullBuf 0 (setup_taken p s))"
  by (rule no_data_request [OF assms(1-3)])
    (use assms(4) in \<open>auto simp: acm_class_request_def request_block_def recipient_def request_consts\<close>)



lemma resume_frame:
  fixes s :: "'h device"
  shows "interruptIn (g_cdcAcmHandle (snd (USB_DeviceCdcAcmRecv (transfers H) AcmHandle ep b n s))) = interruptIn (g_cdcAcmHandle s)"
    "bulkIn (g_cdcAcmHandle (snd (USB_DeviceCdcAcmRecv (transfers H) AcmHandle ep b n s))) = bulkIn (g_cdcAcmHandle s)"
    "bulk_in_size (upd_acm f s) = bulk_in_size s"
    "bulk_in_size (snd (USB_DeviceSendRequest H h ep b n s)) = bulk_in_size s"
  by (simp_all add: USB_DeviceCdcAcmRecv_def Let_def case_prod_beta bulk_in_size_def USB_DeviceSendRequest_def)
    (simp_all add: upd_acm_def)

text \<open>
  A refused notification after a halt wedges the interrupt pipe: when the host clears the halt of
  the interrupt endpoint while a notification was put aside, and the controller refuses to send it,
  the driver completes the bulk-in pipe instead. The interrupt pipe stays busy with nothing under way, and
  every later notification is refused with \<open>kStatus_USB_Busy\<close>.
\<close>

theorem refused_resume_wedges_interrupt_pipe:
  fixes s :: "'h device"
  assumes "pipe_ep (bulkIn (g_cdcAcmHandle s)) = 2" "pipe_ep (interruptIn (g_cdcAcmHandle s)) = 1"
    "pipeStall (interruptIn (g_cdcAcmHandle s)) = 1" "isBusy (interruptIn (g_cdcAcmHandle s)) = 1"
    "pipeDataBuffer (interruptIn (g_cdcAcmHandle s)) = SerialStateBuf"
    "pipeDataLen (interruptIn (g_cdcAcmHandle s)) mod bulk_in_size s \<noteq> 0"
    "\<And>ch b n h. fst (deviceSend H ch 0x81 b n h) \<noteq> kStatus_USB_Success"
  shows "\<exists>error s'. resume_interrupt_in (transfers H) (class_cb H) AcmHandle e s = (error, s') \<and>
    error \<noteq> kStatus_USB_Success \<and> isBusy (interruptIn (g_cdcAcmHandle s')) = 1 \<and>
    pipeDataBuffer (interruptIn (g_cdcAcmHandle s')) = InvalidTransferBuffer \<and>
    isBusy (bulkIn (g_cdcAcmHandle s')) = 0 \<and>
    USB_DeviceCdcAcmSend (transfers H) AcmHandle 1 b n s' = (kStatus_USB_Busy, s')"
proof -
  have refused: "fst (USB_DeviceSendRequest H h 1 b n t) \<noteq> kStatus_USB_Success" for h b n and t :: "'h device"
    using assms(7) by (simp add: USB_DeviceSendRequest_def USB_DeviceTransfer_def Let_def case_prod_beta)
  have len: "pipeDataLen (interruptIn (g_cdcAcmHandle s)) \<noteq> 0"
    using assms(6) by (intro notI) simp
  show ?thesis
    using assms(1-6) len refused
    by (simp add: resume_interrupt_in_def class_cb_def Let_def case_prod_beta resume_frame put_aside_def
        USB_DeviceCdcAcmBulkIn_def on_send_response_def USB_DeviceCdcAcmSend_def)
qed

lemma log_controller_accepts: "0x80 \<notin> set r \<Longrightarrow> accepting (log_controller r) True"
  by (simp add: accepting_def log_controller_def)

lemma acm_inited_simps:
  "configStruct acm_inited" "acm_handle acm_inited = 1" "handles_ok acm_inited" "hasSentState acm_inited = 0"
  by (simp_all add: acm_inited_def vcom_boot_def handles_ok_def)

lemma enumerated_at:
  assumes "deviceInit H 2 h = ((kStatus_USB_Success, ch), h')" "accepting H hs" "n < 0x80" "length gs = 4"
  shows "\<exists>h1. device_run H (enumeration gs n) (device_started H h) = Some (device_at (device_boot h) hs ch 0
      (kUSB_DeviceStateConfigured, ucast n, 1) (all_open 1 1) (acm_opened 0) (set_configuration 1) h1)"
proof -
  obtain h0 where s: "device_started H h = device_at (device_boot h) False ch 0 (kUSB_DeviceStateDefault, 0, 0) no_callbacks
    acm_inited no_setup h0"
    using started_at [OF assms(1,2)] by blast
  show ?thesis
    using enumeration_at [OF assms(2-4) acm_inited_simps, of "device_boot h" False ch 0 _ no_callbacks no_setup h0]
    unfolding s by blast
qed

text \<open>
  C29. A host can enumerate the device. With a controller that accepts the commands, the packets of
  the control pipe and the receive buffers, a bus reset, \<open>SET_ADDRESS n\<close>, the end of its status stage
  and \<open>SET_CONFIGURATION 1\<close> take the freshly started device to the configured state with address
  \<open>n\<close>, whatever the hardware does in between: the application is attached, the tables are those of
  the speed the controller reports, the three endpoints have their completion functions, the pipes
  are idle but for the bulk-out pipe, which waits for the host's data.
\<close>

theorem enumeration_configures_the_device:
  assumes "deviceInit H 2 h = ((kStatus_USB_Success, ch), h')" "accepting H hs" "n < 0x80" "length gs = 4"
  shows "\<exists>s. device_run H (enumeration gs n) (device_started H h) = Some s \<and>
    view s = (kUSB_DeviceStateConfigured, ucast n, 1) \<and> descs s = descriptors_for hs \<and>
    map callbackFn (epCallback (dev s)) = [ControlCallback, ControlCallback, NoCallback, AcmInterruptIn,
      NoCallback, AcmBulkIn, AcmBulkOut, NoCallback] \<and>
    interruptIn (g_cdcAcmHandle s) = idle_pipe 1 \<and> bulkIn (g_cdcAcmHandle s) = idle_pipe 2 \<and>
    bulkOut (g_cdcAcmHandle s) = (idle_pipe 3)\<lparr>isBusy := 1\<rparr> \<and> ep_isBusy (epCallback (dev s) ! 6) = 1"
  using enumerated_at [OF assms] by (auto simp: all_open_def acm_opened_def)

theorem enumeration_configures_the_device_witness:
  "\<exists>s. device_run (log_controller []) (enumeration [id, id, id, id] 5) (device_started (log_controller []) []) = Some s \<and>
     view s = (kUSB_DeviceStateConfigured, 5, 1) \<and> descs s = descriptors_for True"
proof -
  have "deviceInit (log_controller []) 2 [] = ((kStatus_USB_Success, 1), [])"
    by (simp add: log_controller_def)
  from enumeration_configures_the_device [OF this log_controller_accepts, of 5 "[id, id, id, id]"]
  show ?thesis
    by auto
qed

text \<open>The device the host has enumerated, for the concrete instances.\<close>

definition running :: "usb_call list \<Rightarrow> usb_call list device" where
  "running h = device_at (device_boot []) True 1 0 (kUSB_DeviceStateConfigured, 5, 1) (all_open 1 1) (acm_opened 0)
     (set_configuration 1) h"

lemma device_run_reachable:
  "reachable_device H s \<Longrightarrow> list_all event_ok es \<Longrightarrow> device_run H es s = Some s' \<Longrightarrow> reachable_device H s'"
proof (induction es arbitrary: s)
  case (Cons e es)
  then show ?case
    by (auto split: option.splits intro: reachable_device.step)
qed simp

lemma running_reachable:
  assumes "0x80 \<notin> set r"
  shows "\<exists>h. reachable_device (log_controller r) (running h)"
proof -
  let ?H = "log_controller r"
  have i: "deviceInit ?H 2 [] = ((kStatus_USB_Success, 1), [])"
    by (simp add: log_controller_def)
  obtain h where "device_run ?H (enumeration [id, id, id, id] 5) (device_started ?H []) = Some (running h)"
    using enumerated_at [OF i log_controller_accepts [OF assms], of 5 "[id, id, id, id]"]
    unfolding running_def by auto
  from device_run_reachable [OF reachable_device.start [OF i] _ this] show ?thesis
    by (auto simp: enumeration_def reset_message_def setup_message_def status_sent_def)
qed

lemma running_simps:
  "g_cdcAcmHandle (running h) = acm_opened 0" "classHandle (running h) = AcmHandle"
  "to_control_pipe (running h) (setup_message p)" "attach (s_cdcVcom (running h)) = 1"
  by (simp_all add: running_def to_control_pipe_def setup_message_def all_open_def USB_DEVICE_CONFIG_ENDPOINTS_def
      USB_CANCELLED_TRANSFER_LENGTH_def)

text \<open>
  C30. A configuration the device does not have still costs it the one it has. In every state in which the
  device is in configuration 1, and with any controller, also one that cancels the transfers of an
  endpoint that is closed, \<open>SET_CONFIGURATION\<close> in its proper form with a value other than 0 and 1 is refused by a halt of the
  control pipe, but by then the class driver has closed its three endpoints and forgotten its
  interfaces, while the device state stays configured and the application stays attached.
\<close>

theorem refused_configuration_closes_the_pipes:
  assumes "reachable_device H s" "to_control_pipe s (setup_message (set_configuration n))" "in_configuration_1 s"
    "(ucast n :: u8) \<notin> {0, 1}"
  shows "\<exists>e s' t. usb_notification H (setup_message (set_configuration n)) s = Some (e, s') \<and>
    (e, s') = USB_DeviceStallEndpoint H (cancelled_notification H) 1 0 t \<and> view s' = view s \<and> pipes_closed s'"
proof -
  let ?p = "set_configuration n" and ?n = "ucast n :: u8"
  let ?s = "setup_taken ?p s"
  obtain b where b: "descs s = descriptors_for b"
    using reachable_device_simps(1) [OF assms(1)] by (auto simp: vcom_ok_def)
  have s: "in_configuration_1 ?s" "descs ?s = descriptors_for b" "length (callbacks ?s) = 8" "classHandle ?s = AcmHandle"
    "device_handle ?s = 1"
    using assms(3) b reachable_device_simps [OF assms(1)]
    by (simp_all add: in_configuration_1_def callbacks_def) (simp add: setup_taken_def upd_common_def set_busy_def upd_dev_def)
  from class_takes_configuration [OF this assms(4), of H "class_cb H"] obtain t where
    t: "USB_DeviceClassEvent (usb_stack_of H) (class_cb H) 1 (Some (SetConfiguration ?n)) ?s = (kStatus_USB_Error, Some (SetConfiguration ?n), t)"
    "pipes_closed t" "classHandle t = AcmHandle" "device_handle t = 1"
    by blast
  have "n \<noteq> 0"
    using assms(4) by auto
  have same: "upd_dev (\<lambda>d. d\<lparr>dev_state := kUSB_DeviceStateConfigured\<rparr>) ?s = ?s"
    using s(1) by (simp add: in_configuration_1_def upd_dev_def)
  have "standard_request (usb_stack_of H) (class_cb H) (device_cb H) ?p ?s = Some (kStatus_USB_InvalidRequest, NullBuf, 0, t)"
    using t(1,4) s(1,5) same assms(4) \<open>n \<noteq> 0\<close>
    by (simp add: standard_request_def set_configuration_def USB_DeviceCh9SetConfiguration_def dir_in_def recipient_def
        request_consts USB_DeviceSetStatus_def USB_DeviceClassCallback_def USB_DeviceClassGetHandleByDeviceHandle_def
        device_cb_def device_handle_def in_configuration_1_def Let_def)
  then have r: "usb_notification H (setup_message ?p) s = Some (USB_DeviceStallEndpoint H (cancelled_notification H) 1 0 t)"
    by (simp add: setup_reaches [OF assms(1,2)] setup_stage_def recipient_def request_type_def request_consts
        USB_DeviceControlCallbackFeedback_def, simp add: set_configuration_def)
  obtain e s' where e: "USB_DeviceStallEndpoint H (cancelled_notification H) 1 0 t = (e, s')"
    by (cases "USB_DeviceStallEndpoint H (cancelled_notification H) 1 0 t")
  have "same_driver t s'"
    using same_driver_control [OF same_driver_refl, of t H 1 "kUSB_DeviceControlEndpointStall 0"] e
    by (simp add: USB_DeviceStallEndpoint_def USB_DEVICE_CONFIG_ENDPOINTS_def)
  then have "pipes_closed s'"
    using t(2) by (rule pipes_closed_same)
  moreover have "view s' = view s"
  proof -
    obtain d a where v: "view s = (kUSB_DeviceStateConfigured, d, a)"
      using assms(3) by (simp add: view_def in_configuration_1_def)
    have "device_inv (\<lambda>_. True) (view s) s"
      using reachable_device_ok [OF assms(1)] by simp
    from any_hardware.notification_ok [where H = H, OF this, of "setup_message ?p"]
    have "view s' \<in> message_view (takes_address H) s (setup_message ?p)"
      unfolding settles_def device_inv_def r e by (auto simp: setup_message_def)
    then show ?thesis
      using assms(2,4) v \<open>n \<noteq> 0\<close>
      by (auto simp: message_view_def setup_message_def kUSB_DeviceNotifyBusReset_def USB_SETUP_PACKET_SIZE_def set_configuration_def
          dev_states split: if_split_asm)
  qed
  ultimately show ?thesis
    using r e by metis
qed

lemma transfer_dev [simp]:
  fixes s :: "'h device"
  shows "controllerHandle (dev (snd (USB_DeviceTransfer H h ep b n s))) = controllerHandle (dev s)"
    "controllerInterface (dev (snd (USB_DeviceTransfer H h ep b n s))) = controllerInterface (dev s)"
    "deviceCallback (dev (snd (USB_DeviceTransfer H h ep b n s))) = deviceCallback (dev s)"
    "deviceAddress (dev (snd (USB_DeviceTransfer H h ep b n s))) = deviceAddress (dev s)"
    "controllerId (dev (snd (USB_DeviceTransfer H h ep b n s))) = controllerId (dev s)"
    "dev_state (dev (snd (USB_DeviceTransfer H h ep b n s))) = dev_state (dev s)"
    "isResetting (dev (snd (USB_DeviceTransfer H h ep b n s))) = isResetting (dev s)"
  by (simp_all add: USB_DeviceTransfer_def Let_def case_prod_beta set_busy_def put_hw_def upd_dev_def)

lemma update_frame [simp]:
  "descs (upd_info f s) = descs s" "descs (upd_vcom g s) = descs s" "descs (upd_acm k s) = descs s"
  "classHandle (upd_info f s) = classHandle s" "classHandle (upd_vcom g s) = classHandle s"
  "classHandle (upd_acm k s) = classHandle s"
  "s_UsbDeviceCommonClassStruct (upd_info f s) = s_UsbDeviceCommonClassStruct s"
  "s_UsbDeviceCommonClassStruct (upd_vcom g s) = s_UsbDeviceCommonClassStruct s"
  "s_UsbDeviceCommonClassStruct (upd_acm k s) = s_UsbDeviceCommonClassStruct s"
  by (simp_all add: upd_info_def upd_vcom_def upd_acm_def)

lemma line_state_frame [simp]:
  fixes s :: "'h device" and H :: "'h controller" and h p
  defines "t \<equiv> snd (on_set_control_line_state (transfers H) h p s)"
  shows "descs t = descs s" "classHandle t = classHandle s" "s_UsbDeviceCommonClassStruct t = s_UsbDeviceCommonClassStruct s"
    "controllerHandle (dev t) = controllerHandle (dev s)" "controllerInterface (dev t) = controllerInterface (dev s)"
    "deviceCallback (dev t) = deviceCallback (dev s)" "deviceAddress (dev t) = deviceAddress (dev s)"
    "controllerId (dev t) = controllerId (dev s)" "dev_state (dev t) = dev_state (dev s)"
    "isResetting (dev t) = isResetting (dev s)"
    "s_cdcVcom t = (if attach (s_cdcVcom s) = 1 then (s_cdcVcom s)\<lparr>startTransactions := 1\<rparr> else s_cdcVcom s)"
  unfolding t_def on_set_control_line_state_def Let_def case_prod_beta USB_DeviceCdcAcmSend_def
  by (simp_all add: USB_DeviceSendRequest_def)

lemma enumeration_ok [simp]: "list_all event_ok (enumeration gs n)"
  by (auto simp: enumeration_def list_all_iff reset_message_def setup_message_def status_sent_def dest!: set_zip_rightD)

text \<open>
  C26. The device never faults, whatever the controller driver does and whatever the host sends. From
  the start of the program, after any sequence of notifications and passes of the application
  task, every handler returns, and the state is consistent: the device state is one of the four
  of the code, the address has seven bits, the application is attached exactly in configuration 1 and
  only while the device is configured, descriptors and endpoint tables are of one speed, the
  notification buffer is whole and its carrier bit is the terminal's presence.
\<close>

theorem vcom_stays_consistent:
  assumes "deviceInit H 2 h = ((kStatus_USB_Success, ch), h')" "list_all event_ok es"
  shows "\<exists>s. device_run H es (device_started H h) = Some s \<and>
    dev_state (dev s) \<in> {kUSB_DeviceStateConfigured, kUSB_DeviceStateAddress, kUSB_DeviceStateDefault, kUSB_DeviceStateAddressing} \<and>
    deviceAddress (dev s) < 0x80 \<and>
    (attach (s_cdcVcom s) = 1 \<longleftrightarrow> currentConfiguration (s_cdcVcom s) = 1) \<and> attach (s_cdcVcom s) \<in> {0, 1} \<and>
    (attach (s_cdcVcom s) = 1 \<longrightarrow> dev_state (dev s) = kUSB_DeviceStateConfigured) \<and>
    (\<exists>b. descs s = descriptors_for b) \<and> length (serialStateBuf (s_usbCdcAcmInfo s)) = 10 \<and>
    (dtePresent (s_usbCdcAcmInfo s) \<longleftrightarrow> uartState (s_usbCdcAcmInfo s) AND 1 \<noteq> 0)"
proof -
  have "device_inv (\<lambda>_. True) (kUSB_DeviceStateDefault, 0, 0) (device_started H h)"
    by (rule any_hardware.started_ok [OF assms(1)]) simp
  moreover have "events_ok (\<lambda>_. True) es"
    using assms(2) by (simp add: events_ok_def list_all_iff)
  ultimately obtain s v where "device_run H es (device_started H h) = Some s" "device_inv (\<lambda>_. True) v s" "view_ok v"
    using any_hardware.run_ok [of "(kUSB_DeviceStateDefault, 0, 0)" "device_started H h" es H]
    by (auto simp: view_ok_def)
  then show ?thesis
    by (auto simp: device_inv_def view_def view_ok_def vcom_ok_def info_ok_def Let_def)
qed

text \<open>
  C28. The device follows the state machine of chapter 9 of the USB specification, but for the departures
  named one by one in \<open>departs\<close>. In every state the device can reach, with a controller that takes the
  address it is told, every message is handled and leads to the state \<open>chapter9\<close> prescribes for what the
  host did: a bus reset to the default state, \<open>SET_ADDRESS\<close> to the new address once its status stage is over,
  \<open>SET_CONFIGURATION\<close> with the value of the one configuration to the configured state and with 0 back to the
  address state, and anything else nowhere. The exceptions are seven: a \<open>SET_ADDRESS\<close> under way is not abandoned
  by another setup packet, is completed by a second \<open>SET_ADDRESS\<close>, and by any request of number 5; address 0
  counts as an address; high bytes of addresses and of configuration values are ignored; and a refused configuration value
  still moves the device from the address state to the configured one.
\<close>

theorem device_follows_chapter_9:
  assumes "reachable_device H s" "takes_address H" "ms_isSetup m \<noteq> 0 \<Longrightarrow> \<exists>p. ms_buffer m = SetupBuf p"
  shows "(\<exists>c. stands_for c (view s)) \<and>
    (\<forall>c. stands_for c (view s) \<longrightarrow>
       (\<exists>e s' c'. usb_notification H m s = Some (e, s') \<and> stands_for c' (view s') \<and>
          (c' = chapter9 (host_event_of s m) c \<or> departs (host_event_of s m) c c')))"
proof -
  have "device_inv (\<lambda>_. True) (view s) s"
    using reachable_device_ok [OF assms(1)] by simp
  from any_hardware.notification_ok [where H = H, OF this assms(3)] obtain e s' where
    s': "usb_notification H m s = Some (e, s')" "view s' \<in> message_view True s m"
    using assms(2) unfolding settles_def device_inv_def by auto
  have "\<exists>c'. stands_for c' (view s') \<and> (c' = chapter9 (host_event_of s m) c \<or> departs (host_event_of s m) c c')"
    if "stands_for c (view s)" for c
    by (rule message_follows [OF that s'(2) reachable_stands_for(2) [OF assms(1)]])
  with s'(1) reachable_stands_for(1) [OF assms(1)] show ?thesis
    by blast
qed

theorem vcom_stays_consistent_witness:
  "\<exists>s. device_run (log_controller []) (enumeration [id, id, id, id] 5) (device_started (log_controller []) []) = Some s \<and>
     attach (s_cdcVcom s) \<in> {0, 1} \<and> deviceAddress (dev s) < 0x80"
proof -
  have "deviceInit (log_controller []) 2 [] = ((kStatus_USB_Success, 1), [])"
    by (simp add: log_controller_def)
  from vcom_stays_consistent [OF this enumeration_ok [of "[id, id, id, id]" 5]] show ?thesis
    by blast
qed

theorem transfers_fit_their_buffers_witness:
  "\<exists>s. device_run (recording (log_controller [])) (map recorded_event (enumeration [id, id, id, id] 5))
       (device_started (recording (log_controller [])) ([], [])) = Some s \<and>
     (\<forall>(b, n) \<in> set (snd (hw (dev s))). n \<le> buffer_size b)"
proof -
  have "deviceInit (log_controller []) 2 [] = ((kStatus_USB_Success, 1), [])"
    by (simp add: log_controller_def)
  from transfers_fit_their_buffers [OF this enumeration_ok] show ?thesis .
qed

theorem device_follows_chapter_9_witness:
  "\<exists>h e s'. usb_notification (log_controller []) (setup_message (set_configuration 0)) (running h) = Some (e, s') \<and>
     view s' = (kUSB_DeviceStateAddress, 5, 0)"
proof -
  obtain h where h: "reachable_device (log_controller []) (running h)"
    using running_reachable [of "[]"] by auto
  have "takes_address (log_controller [])"
    by (simp add: takes_address_def log_controller_def)
  moreover have c: "stands_for (Configured 5 1) (view (running h))"
    by (simp add: running_def)
  moreover have "host_event_of (running h) (setup_message (set_configuration 0)) = Setup (set_configuration 0)"
    using running_simps(3) [of h] by (simp add: host_event_of_def setup_message_def kUSB_DeviceNotifyBusReset_def USB_SETUP_PACKET_SIZE_def)
  moreover have "chapter9 (Setup (set_configuration 0)) (Configured 5 1) = Addressed 5"
    by (simp add: sets_configuration_def clears_configuration_def device_request_def set_configuration_def configuration_value_1)
  moreover have "\<not> departs (Setup (set_configuration 0)) (Configured 5 1) c'" for c'
    by (auto elim!: departs.cases simp: set_configuration_def device_request_def)
  ultimately obtain e s' where "usb_notification (log_controller []) (setup_message (set_configuration 0)) (running h) = Some (e, s')"
    "stands_for (Addressed 5) (view s')"
    using device_follows_chapter_9 [OF h, of "setup_message (set_configuration 0)"] by (auto simp: setup_message_def)
  then show ?thesis
    by (cases "view s'") auto
qed

theorem control_line_state_is_recorded_witness:
  "\<exists>h e s'. usb_notification (log_controller []) (setup_message (line_state 3)) (running h) = Some (e, s') \<and>
     serialStateBuf (s_usbCdcAcmInfo s') = [0xA1, 0x20, 0, 0, 0, 0, 2, 0, 3, 0] \<and> startTransactions (s_cdcVcom s') = 1"
proof -
  obtain h where "reachable_device (log_controller []) (running h)"
    using running_reachable [of "[]"] by auto
  from control_line_state_is_recorded [OF this running_simps(3), of 3] show ?thesis
    by (auto simp: running_simps acm_opened_def)
qed

theorem refused_notification_blocks_later_ones_witness:
  "\<exists>h e s'. usb_notification (log_controller [0x81]) (setup_message (line_state 3)) (running h) = Some (e, s') \<and>
     hasSentState (g_cdcAcmHandle s') = 1 \<and> isBusy (interruptIn (g_cdcAcmHandle s')) = 0 \<and>
     (\<exists>t. usb_notification (log_controller [0x81]) (setup_message (line_state 0)) s' =
        Some (USB_DeviceSendRequest (log_controller [0x81]) 1 0 NullBuf 0 t) \<and> hw (dev t) = hw (dev s'))"
proof -
  obtain h where "reachable_device (log_controller [0x81]) (running h)"
    using running_reachable [of "[0x81]"] by auto
  from refused_notification_blocks_later_ones [OF this running_simps(3), of 3] show ?thesis
    by (simp add: running_simps acm_opened_def idle_pipe_def log_controller_def [of "[0x81]"]) blast
qed

theorem failed_request_is_acknowledged_witness:
  "\<exists>h t. usb_notification (log_controller []) (setup_message ((line_state 3)\<lparr>wIndex := 5\<rparr>)) (running h) =
     Some (USB_DeviceSendRequest (log_controller []) 1 0 NullBuf 0 t)"
proof -
  obtain h where "reachable_device (log_controller []) (running h)"
    using running_reachable [of "[]"] by auto
  from failed_request_is_acknowledged [OF this running_simps(3), of "(line_state 3)\<lparr>wIndex := 5\<rparr>"] show ?thesis
    by (auto simp: running_simps acm_opened_def no_data_class_request_def line_state_def request_type_def recipient_def
        dir_in_def request_consts)
qed

lemma line_state_callbacks [simp]:
  fixes s :: "'h device"
  shows "callbackFn (epCallback (dev (snd (on_set_control_line_state (transfers H) h p s))) ! j) = callbackFn (epCallback (dev s) ! j)"
    "callbackParam (epCallback (dev (snd (on_set_control_line_state (transfers H) h p s))) ! j) = callbackParam (epCallback (dev s) ! j)"
  unfolding on_set_control_line_state_def Let_def case_prod_beta USB_DeviceCdcAcmSend_def
  by (simp_all add: USB_DeviceSendRequest_def)


theorem refused_resume_wedges_interrupt_pipe_witness:
  "\<exists>error s'. resume_interrupt_in (transfers (log_controller [0x81])) (class_cb (log_controller [0x81])) AcmHandle
      kStatus_USB_Success (upd_acm (\<lambda>a. a\<lparr>interruptIn := \<lparr>pipeDataBuffer = SerialStateBuf, pipeDataLen = 10,
        pipeStall = 1, pipe_ep = 1, isBusy = 1\<rparr>\<rparr>) (running [])) = (error, s') \<and>
    isBusy (interruptIn (g_cdcAcmHandle s')) = 1 \<and> isBusy (bulkIn (g_cdcAcmHandle s')) = 0"
proof -
  let ?s = "upd_acm (\<lambda>a. a\<lparr>interruptIn := \<lparr>pipeDataBuffer = SerialStateBuf, pipeDataLen = 10,
        pipeStall = 1, pipe_ep = 1, isBusy = 1\<rparr>\<rparr>) (running [])"
  have "bulk_in_size ?s = 512"
    by (simp add: resume_frame) (simp add: running_def bulk_in_size_def descriptors_for_def endpoints_for_def usb_consts)
  moreover have "fst (deviceSend (log_controller [0x81]) ch 0x81 b n h) \<noteq> kStatus_USB_Success" for ch b n h
    by (simp add: log_controller_def)
  ultimately show ?thesis
    using refused_resume_wedges_interrupt_pipe [of ?s "log_controller [0x81]" kStatus_USB_Success NullBuf 0]
    by (simp add: running_simps acm_opened_def idle_pipe_def) blast
qed

text \<open>A controller that, like the EHCI driver, cancels the primed transfer when the bulk-out endpoint is closed.\<close>

definition cancelling_controller :: "usb_call list controller" where
  "cancelling_controller = (log_controller [])
     \<lparr>deviceControl := (\<lambda>ch t d.
        if t = kUSB_DeviceControlEndpointDeinit 3
        then Cancelled 3 CurrRecvBuf d (\<lambda>d. Done kStatus_USB_Success (d @ [Commanded t]))
        else Done kStatus_USB_Success (d @ [Commanded t]))\<rparr>"

theorem refused_configuration_closes_the_pipes_witness:
  "\<exists>s e s'. device_run cancelling_controller (enumeration [id, id, id, id] 5) (device_started cancelling_controller []) = Some s \<and>
    usb_notification cancelling_controller (setup_message (set_configuration 2)) s = Some (e, s') \<and>
    view s' = (kUSB_DeviceStateConfigured, 5, 1) \<and> pipes_closed s'"
proof -
  have i: "deviceInit cancelling_controller 2 [] = ((kStatus_USB_Success, 1), [])"
    by (simp add: cancelling_controller_def log_controller_def)
  have a: "accepting cancelling_controller True"
    by (auto simp: accepting_def cancelling_controller_def log_controller_def)
  obtain h where h: "device_run cancelling_controller (enumeration [id, id, id, id] 5) (device_started cancelling_controller []) =
      Some (device_at (device_boot []) True 1 0 (kUSB_DeviceStateConfigured, 5, 1) (all_open 1 1) (acm_opened 0) (set_configuration 1) h)"
    using enumerated_at [OF i a, of 5 "[id, id, id, id]"] by auto
  let ?s = "device_at (device_boot []) True 1 0 (kUSB_DeviceStateConfigured, 5, 1) (all_open 1 1) (acm_opened 0) (set_configuration 1) h"
  have r: "reachable_device cancelling_controller ?s"
    by (rule device_run_reachable [OF reachable_device.start [OF i] enumeration_ok h])
  have "to_control_pipe ?s (setup_message (set_configuration 2))"
    by (simp add: to_control_pipe_def setup_message_def all_open_def USB_DEVICE_CONFIG_ENDPOINTS_def USB_CANCELLED_TRANSFER_LENGTH_def)
  moreover have "in_configuration_1 ?s"
    by (simp add: in_configuration_1_def acm_opened_def)
  ultimately obtain e s' where "usb_notification cancelling_controller (setup_message (set_configuration 2)) ?s = Some (e, s')"
    "view s' = view ?s" "pipes_closed s'"
    using refused_configuration_closes_the_pipes [OF r, of 2] by (auto simp: word_unat_eq_iff)
  with h show ?thesis
    by simp
qed

end
