(* ===== verification/Spec2Isabelle.thy ===== *)
theory Spec2Isabelle
  imports KernelLists Ringbuffer Heap5Free StreamQueue TaskProps QueueProps EventProps SystemProps UsbProps
begin

text \<open>
  A verification library for the firmware of this repository: an NXP i.MX RT1064 application that
  runs FreeRTOS, presents itself to a USB host as a virtual COM port and runs a few tasks. The
  program's own logic and the kernel and USB code it is built from are modelled; register access,
  the vendor drivers and the third-party trees are not.

  \<^bold>\<open>Parts and theories.\<close>

  \<^item> \<open>Prelude\<close>: 32-bit arithmetic on naturals (\<open>add32\<close>, \<open>sub32\<close>, \<open>mul32\<close>), checked access to byte
    arrays, ring arithmetic, and the interface \<open>byte_fifo\<close> of a byte queue.
  \<^item> \<open>KernelLists\<close>: \<open>freertos-kernel/list.c\<close> and \<open>include/list.h\<close>. The state is a store of list
    nodes and list headers; a node is an item or the end marker of a list. \<open>rep L s A\<close> says that the
    lists of \<open>L\<close> are well-formed circular doubly linked lists with contents \<open>A\<close>; the lemmas show
    that the operations refine operations on \<open>A\<close>. The interface \<open>item_lists\<close> is interpreted on them.
  \<^item> \<open>TaskLists\<close>: the lists of the scheduler as sequences of the two list items every task control
    block embeds; \<open>stored s T\<close> relates them to the store of \<open>KernelLists\<close>, and every operation is
    simulated by the one of \<open>list.c\<close>.
  \<^item> \<open>Tasks\<close>, \<open>TaskEvents\<close>: \<open>freertos-kernel/tasks.c\<close> for one core, with the bitmap selection of
    \<open>portable/GCC/ARM_CM4F\<close>. The record \<open>kernel\<close> holds the static variables, \<open>tcbs\<close> the task control
    blocks by address, \<open>pendsv\<close> the pending bit of the PendSV interrupt. \<open>Tasks\<close> has creation and
    deletion (on the modelled heap), start, tick, switch, suspension of the scheduler, delays, task
    states, suspension of tasks and priorities; \<open>TaskEvents\<close> event lists, time-outs, priority
    inheritance and notifications. What interrupts and other tasks do while a call is under way is
    an argument of the call.
  \<^item> \<open>TaskInv\<close>, \<open>TaskSched\<close>: the invariant \<open>kinv\<close> (lists, bitmap, delayed lists and next unblock
    time agree) through the building blocks of the code, the exact effect of a tick (\<open>tick_ok\<close>), of a
    switch and of resuming; \<open>kernel_ok\<close> is what holds between two calls.
  \<^item> \<open>TaskStep\<close>, \<open>TaskWait\<close>, \<open>TaskHistory\<close>: every operation keeps \<open>kernel_ok\<close> and passes its
    assertions; \<open>kop\<close> are the calls that need only the kernel's state, \<open>enabled\<close> the kernel's conditions on
    the caller, \<open>kreach\<close> the histories.
  \<^item> \<open>TaskTime\<close>, \<open>TaskBoot\<close>, \<open>TaskProps\<close>: delays, time-outs and notifications along runs of interrupts; task
    memory on the heap, the interface \<open>kernel_phase\<close> interpreted before and after the start of the
    scheduler; and the properties.
  \<^item> \<open>TaskWorld\<close>, \<open>TimerBoot\<close>, \<open>SystemProps\<close>: what needs more than the kernel. \<open>world_op\<close> adds to the calls
    of \<open>kop\<close> the time-out of a wait for a mutex, the unordered event lists of the event groups, and tasks
    created and deleted with their memory; \<open>world_reach\<close> are the histories of kernel and heap.
    \<open>start_system\<close> is the start of the scheduler with the timer service it creates
    (\<open>xTimerCreateTimerTask\<close>: queue, lists and task), \<open>kernel_memory\<close> the five blocks this takes; the
    start and the histories are the two properties of the system as a whole.
  \<^item> \<open>Heap5\<close>, \<open>Heap5Free\<close>: \<open>freertos-kernel/portable/MemMang/heap_5.c\<close> with the two regions of
    \<open>src/Main/main.cpp\<close>. The state is the map of block headers, the RAM bytes, \<open>xStart\<close>, \<open>pxEnd\<close> and
    the counters. \<open>heap_ok h fs as\<close> is the invariant: \<open>fs\<close> the free list in address order, coalesced
    and disjoint from the live blocks \<open>as\<close>, the byte count exact. Allocation refines \<open>first_fit\<close>,
    release refines \<open>insert_free\<close>; the interface \<open>allocator\<close> lifts this to histories.
  \<^item> \<open>Ringbuffer\<close>: \<open>src/Modules/lib/ringbuffer/Ringbuffer.cpp\<close> and its user
    \<open>src/Modules/DebugPrint/PrintTask.hpp\<close>, interpreted as a \<open>byte_fifo\<close>.
  \<^item> \<open>StreamBuffer\<close>, \<open>StreamQueue\<close>: \<open>freertos-kernel/stream_buffer.c\<close>. The state is one buffer record with
    its storage; \<open>sb_ok\<close> bounds the indices and \<open>sb_contents\<close> is the stored byte sequence. The plain
    buffer is interpreted as a \<open>byte_fifo\<close>, the message buffer as a \<open>message_queue\<close>; creation and
    deletion are on the modelled heap.
  \<^item> \<open>Queues\<close>, \<open>QueueData\<close>, \<open>QueueHistory\<close>, \<open>QueueProps\<close>: \<open>freertos-kernel/queue.c\<close> on top of the
    scheduler. A world is the kernel with the queues by address; a blocking call is the sequence of its
    uninterruptible parts, named by \<open>qpc\<close>. \<open>queue_ok\<close> is the well-formedness of a queue and
    \<open>contents\<close> its list of items; \<open>qexec\<close> interleaves the parts of the tasks' calls with interrupts
    and kernel operations.
  \<^item> \<open>EventGroups\<close>, \<open>EventKernel\<close>, \<open>EventWalk\<close>, \<open>EventHistory\<close>, \<open>EventUse\<close>, \<open>EventProps\<close>: \<open>freertos-kernel/event_groups.c\<close> on
    top of the scheduler. A world is the kernel with the groups by address and the heap; calls are
    sequences of parts as for the queues, what happens with the scheduler suspended being one part.
    \<open>keeps\<close> says what the operations of the kernel leave alone, \<open>unblocks\<close> which tasks a walk over a
    group's list frees. \<open>estep\<close> interleaves the parts of the tasks' calls with everything the kernel
    does, \<open>eok\<close> are the obligations of callers (no use of a deleted group, no blocking call with the
    scheduler suspended or from the idle task), and the invariant \<open>einv\<close> ties the values of the event
    items to what the tasks wait for. \<open>EventUse\<close> replaces the obligation on deleted groups by one on
    the callers alone: calls start with a group that exists, and the memory of a deleted group is given
    back when no call but that of an unblocked task is under way on it (\<open>disciplined\<close>); the group then
    exists at every part that needs it, and its release passes the heap's assertions.
  \<^item> \<open>Timers\<close>, \<open>TimerLists\<close>, \<open>TimerRun\<close>, \<open>TimerTask\<close>, \<open>TimerSync\<close>, \<open>TimerCommands\<close>, \<open>TimerHistory\<close>,
    \<open>TimerSystem\<close>, \<open>TimerProps\<close>: \<open>freertos-kernel/timers.c\<close> on the modelled queues and on the lists of \<open>KernelLists\<close>.
    The record \<open>tworld\<close> holds the static variables and the timers by address; the timer task is a
    sequence of parts (\<open>prvTimerTask\<close> at a place \<open>tpc\<close>), commands are 16-byte messages. The lemmas read the
    wrapping tick counts as true time: \<open>due_at e w t\<close> is when a timer expires, \<open>tinv\<close> the invariant of the
    lists, \<open>synced\<close> its relation to the clock. \<open>timer_step\<close> interleaves the timer task with everything
    that leaves the lists of timers alone (\<open>same_timers\<close>, the law of callbacks, pended functions and
    other tasks); \<open>sys_ok\<close> is its invariant, \<open>on_schedule\<close> the history of an auto-reload timer.
  \<^item> \<open>UsbDescriptor\<close>: \<open>src/Drivers/UsbVirtualCom/usb_device_descriptor.c\<close>: the descriptor tables,
    the descriptor requests and the speed switch.
  \<^item> \<open>UsbCdcAcm\<close>: \<open>middleware/usb/device/class/usb_device_cdc_acm.c\<close>: pipes, endpoint set-up, class
    requests, halt and resume, sending and receiving. The device layer below is a record of functions
    on the whole state, since a call may cancel a transfer and so call back. The interfaces
    \<open>acm_transfers\<close>, \<open>acm_completions\<close> and \<open>acm_client\<close> say what it keeps of its client's state.
  \<^item> \<open>UsbClass\<close>: \<open>middleware/usb/device/class/usb_device_class.c\<close>: class handles and event dispatch.
  \<^item> \<open>UsbDci\<close>: \<open>middleware/usb/device/usb_device_dci.c\<close>: the device instance with its endpoint callback
    table, transfers, controller commands, status, bus reset and notifications.
  \<^item> \<open>UsbCh9\<close>: \<open>middleware/usb/device/usb_device_ch9.c\<close>: the control pipe and the standard requests.
  \<^item> \<open>UsbVirtualCom\<close>: \<open>src/Drivers/UsbVirtualCom/usb_virtual_com.c\<close> and the application task's loop;
    the interface \<open>vcom_client\<close>.
  \<^item> \<open>UsbDevice\<close>: the layers tied together as the function pointers of the code tie them;
    \<open>device_step\<close> takes a notification of the controller or a pass of the task, \<open>reachable_device\<close> are the
    states of the running device. \<open>usb_hardware\<close> is the interface of a controller driver that keeps a property
    of its state as long as transfers fit their buffers; \<open>device_inv\<close> the invariant of the device for
    one view of the host (device state, address, attachment); \<open>message_view\<close> is what the code does to the view.
  \<^item> \<open>UsbChapter9\<close>: the device states of chapter 9 of the USB specification, written from the specification
    (\<open>chapter9\<close>), and the seven ways in which the code departs from them (\<open>departs\<close>); every message is
    shown to do the one or the other.
  \<^item> \<open>UsbClosing\<close>: closing the class driver's endpoints with a controller that may cancel transfers.
  \<^item> \<open>UsbEnum\<close>, \<open>UsbProps\<close>: the enumeration by a host, and the properties of the device. Enumeration
    assumes a controller that accepts what it is given (\<open>accepting\<close>), the other properties any controller.

  \<^bold>\<open>Conventions.\<close> C functions keep their names. A \<open>uint32_t\<close> or \<open>size_t\<close> that matters only as a number
  is a natural below \<open>2 ^ 32\<close> with the wrapping operations of \<open>Prelude\<close>; bytes and 16-bit fields on
  the wire are words. State is passed explicitly as a record. A failed \<open>configASSERT\<close> (which spins
  for ever), undefined behaviour and a loop that does not end are all \<open>None\<close>; loops over pointers
  are \<open>partial_function (option)\<close>, so each theorem with a \<open>Some\<close> in its conclusion includes
  termination. Critical sections and scheduler suspension make kernel operations atomic; they are
  modelled as such.

  \<^bold>\<open>Parameters.\<close> The USB controller driver (\<open>usb_device_ehci.c\<close> and the registers) is a record of functions
  over a state of any type, which may also change on its own before each event: theorems hold for
  every behaviour of it, hypotheses name the calls that are assumed to succeed or to be refused. Its
  messages are any, except that a setup message points to a setup packet. A command of the
  controller is a \<open>run\<close> that may report cancelled transfers, whose completion functions run before
  it goes on. A notification and a pass of the application task are each one step: the task's call of
  the send function is not interrupted half way. The value of the run-time counter is an argument of
  the context switch.

  The timer callbacks and pended functions are arguments, with the laws \<open>callback_law\<close> and \<open>pended_law\<close>;
  in the histories a command is handled for a timer that has not been deleted and within a wrap
  of the tick count after it was sent, and the timer task samples the time once per wrap while timers run.

  \<^bold>\<open>Left out of the histories.\<close> The calls are modelled, but the histories of the kernel
  do not contain the deletion of a task by itself, the time-out of a wait for a mutex whose holder would
  leave its ready list empty (there the kernel resets the wrong bit, which is a property of its own), and
  \<open>vTaskPlaceOnEventListRestricted\<close>, which only the timer task uses.

  \<^bold>\<open>Not modelled.\<close> Queue sets; the reporting functions of \<open>tasks.c\<close> (task
  lists, run-time statistics, stack marks), the saving of registers by the
  ports, co-routines, the USB controller driver, the USB host stack and the other device classes, board configuration, console output, the vendor SDK, CMSIS, and the vendored components.
\<close>

end
